(* ===== verification/GoPrelude.thy ===== *)
theory GoPrelude
  imports Main "HOL-Library.Signed_Division" "HOL-Library.Multiset"
begin

section \<open>Prelude: Go values, results and list lemmas\<close>

text \<open>
  What the component theories share.

  \<^item> Go's \<open>int\<close> and \<open>int64\<close> are values of type \<^typ>\<open>int\<close> with the two's complement
    wrap-around written out: \<open>i64\<close> reduces into the signed 64-bit range, and \<open>add64\<close>,
    \<open>sub64\<close>, \<open>mul64\<close>, \<open>quo64\<close> are Go's \<open>+\<close>, \<open>-\<close>, \<open>*\<close>, \<open>/\<close>. Go's quotient truncates
    towards zero; a zero divisor panics, so a model that divides tests the divisor first.
  \<^item> A \<open>time.Time\<close> is a number of nanoseconds (type \<^typ>\<open>int\<close>), a \<open>time.Duration\<close> an
    \<open>int64\<close> number of nanoseconds; \<open>time_sub\<close> is \<open>Time.Sub\<close>, which saturates.

  \<^item> The \<open>named_theorems\<close> collections \<open>go_arith\<close> (rewriting machine arithmetic to
    integer arithmetic inside the range) and \<open>store_simps\<close> (tables as lists) carry the
    component proofs.
\<close>

named_theorems go_arith \<open>machine arithmetic that stays in range\<close>
named_theorems store_simps \<open>rewriting of stored rows\<close>

type_synonym instant = int
type_synonym duration = int

abbreviation Second :: duration where "Second \<equiv> 1000000000"
abbreviation Minute :: duration where "Minute \<equiv> 60 * Second"
abbreviation Hour :: duration where "Hour \<equiv> 60 * Minute"

subsection \<open>64-bit signed integers\<close>

definition i64 :: "int \<Rightarrow> int" where
  "i64 x = (x + 2 ^ 63) mod 2 ^ 64 - 2 ^ 63"

definition in_i64 :: "int \<Rightarrow> bool" where
  "in_i64 x \<longleftrightarrow> - (2 ^ 63) \<le> x \<and> x < 2 ^ 63"

definition add64 :: "int \<Rightarrow> int \<Rightarrow> int" where "add64 a b = i64 (a + b)"
definition sub64 :: "int \<Rightarrow> int \<Rightarrow> int" where "sub64 a b = i64 (a - b)"
definition mul64 :: "int \<Rightarrow> int \<Rightarrow> int" where "mul64 a b = i64 (a * b)"
definition quo64 :: "int \<Rightarrow> int \<Rightarrow> int" where "quo64 a b = i64 (a sdiv b)"

lemma i64_id [go_arith]: "in_i64 x \<Longrightarrow> i64 x = x"
  by (simp add: i64_def in_i64_def)

lemma in_i64_i64 [simp]: "in_i64 (i64 x)"
proof -
  have "0 \<le> (x + 2 ^ 63) mod 2 ^ 64 \<and> (x + 2 ^ 63) mod 2 ^ 64 < (2 ^ 64 :: int)"
    by simp
  then show ?thesis by (simp add: i64_def in_i64_def)
qed

lemma in_i64_arith [simp]:
  "in_i64 (add64 a b)" "in_i64 (sub64 a b)" "in_i64 (mul64 a b)" "in_i64 (quo64 a b)"
  by (simp_all add: add64_def sub64_def mul64_def quo64_def)

lemma in_i64_between: "in_i64 l \<Longrightarrow> in_i64 u \<Longrightarrow> l \<le> x \<Longrightarrow> x \<le> u \<Longrightarrow> in_i64 x"
  by (simp add: in_i64_def)

lemma in_i64_nonneg: "0 \<le> x \<Longrightarrow> x \<le> u \<Longrightarrow> in_i64 u \<Longrightarrow> in_i64 x"
  by (simp add: in_i64_def)

lemma in_i64_zero [simp]: "in_i64 0" and in_i64_one [simp]: "in_i64 1"
  by (simp_all add: in_i64_def)

lemma add64_exact [go_arith]: "in_i64 (a + b) \<Longrightarrow> add64 a b = a + b"
  and sub64_exact [go_arith]: "in_i64 (a - b) \<Longrightarrow> sub64 a b = a - b"
  and mul64_exact [go_arith]: "in_i64 (a * b) \<Longrightarrow> mul64 a b = a * b"
  by (simp_all add: add64_def sub64_def mul64_def i64_id)

lemma sdiv_nonneg: "0 \<le> a \<Longrightarrow> 0 < b \<Longrightarrow> a sdiv b = a div (b :: int)"
  by (cases "a = 0") (simp_all add: signed_divide_int_def)

lemma div_le_self: "0 \<le> a \<Longrightarrow> 0 < b \<Longrightarrow> a div b \<le> (a :: int)"
  by (metis div_by_1 int_one_le_iff_zero_less zdiv_mono2 zero_less_one)

lemma le_div_iff:
  assumes "0 < (k::int)"
  shows "b \<le> a div k \<longleftrightarrow> b * k \<le> a"
proof -
  have "(a + (- b) * k) div k = - b + a div k" using assms by (intro div_mult_self1) simp
  then have "b \<le> a div k \<longleftrightarrow> 0 \<le> (a - b * k) div k" by simp
  also have "\<dots> \<longleftrightarrow> 0 \<le> a - b * k" using assms by (rule pos_imp_zdiv_nonneg_iff)
  finally show ?thesis by simp
qed

lemma div_less_iff: "0 < (k::int) \<Longrightarrow> a div k < b \<longleftrightarrow> a < b * k"
  using le_div_iff[of k b a] by linarith

lemma quo64_nonneg [go_arith]:
  assumes "0 \<le> a" "0 < b" "in_i64 a"
  shows "quo64 a b = a div b"
proof -
  have "0 \<le> a div b" "a div b \<le> a"
    using assms div_le_self by (simp_all add: pos_imp_zdiv_nonneg_iff)
  then have "in_i64 (a div b)"
    using assms(3) in_i64_nonneg by blast
  with assms show ?thesis by (simp add: quo64_def sdiv_nonneg i64_id)
qed

text \<open>Saturating time difference, as \<open>Time.Sub\<close> documents it.\<close>

definition time_sub :: "instant \<Rightarrow> instant \<Rightarrow> duration" where
  "time_sub t u = max (- (2 ^ 63)) (min (2 ^ 63 - 1) (t - u))"

lemma time_sub_le: "0 \<le> d \<Longrightarrow> d < 2 ^ 63 \<Longrightarrow> (d \<le> time_sub t u) = (d \<le> t - u)"
  by (auto simp: time_sub_def)




subsection \<open>Lists as stored rows\<close>

text \<open>Replace the rows with a given key; the other rows and the order stay.\<close>

definition put_row :: "('r \<Rightarrow> nat) \<Rightarrow> 'r \<Rightarrow> 'r list \<Rightarrow> 'r list" where
  "put_row key r rs = map (\<lambda>x. if key x = key r then r else x) rs"

lemma length_put_row [store_simps, simp]: "length (put_row key r rs) = length rs"
  by (simp add: put_row_def)

lemma map_key_put_row [store_simps, simp]: "map key (put_row key r rs) = map key rs"
  by (simp add: put_row_def)

lemma map_frame_put_row:
  "(\<And>x. x \<in> set rs \<Longrightarrow> key x = key r \<Longrightarrow> f x = f r) \<Longrightarrow> map f (put_row key r rs) = map f rs"
  by (auto simp: put_row_def)

lemma set_put_row_subset: "set (put_row key r rs) \<subseteq> insert r (set rs)"
  by (auto simp: put_row_def)

lemma in_set_put_row: "x \<in> set (put_row key r rs) \<Longrightarrow> x = r \<or> (x \<in> set rs \<and> key x \<noteq> key r)"
  by (auto simp: put_row_def split: if_splits)

lemma put_row_mem: "y \<in> set rs \<Longrightarrow> key y = key r \<Longrightarrow> r \<in> set (put_row key r rs)"
  by (auto simp: put_row_def)

lemma put_row_other: "y \<in> set rs \<Longrightarrow> key y \<noteq> key r \<Longrightarrow> y \<in> set (put_row key r rs)"
  by (auto simp: put_row_def)

lemma distinct_key_unique:
  "distinct (map key rs) \<Longrightarrow> x \<in> set rs \<Longrightarrow> y \<in> set rs \<Longrightarrow> key x = key y \<Longrightarrow> x = y"
  by (metis distinct_map inj_onD)

lemma sum_list_put_row:
  fixes f :: "'r \<Rightarrow> int"
  assumes "distinct (map key rs)" "y \<in> set rs" "key y = key r"
  shows "sum_list (map f (put_row key r rs)) = sum_list (map f rs) - f y + f r"
  using assms
proof (induction rs)
  case Nil
  then show ?case by simp
next
  case (Cons x xs)
  show ?case
  proof (cases "key x = key r")
    case True
    with Cons.prems have "x = y" by (metis distinct_key_unique list.set_intros(1))
    moreover from True Cons.prems(1) have "key r \<notin> key ` set xs" by simp
    then have "\<forall>z\<in>set xs. key z \<noteq> key r" by (metis imageI)
    then have "put_row key r xs = xs" by (auto simp: put_row_def intro: map_idI)
    ultimately show ?thesis using True by (simp add: put_row_def)
  next
    case False
    with Cons show ?thesis by (auto simp: put_row_def)
  qed
qed

lemma find_Some_iff_mem: "find P xs = Some x \<Longrightarrow> x \<in> set xs \<and> P x"
  by (metis find_Some_iff nth_mem)

lemma sum_list_nonneg_int: "(\<And>x. x \<in> set xs \<Longrightarrow> (0::int) \<le> f x) \<Longrightarrow> 0 \<le> sum_list (map f xs)"
  by (induction xs) auto

lemma member_le_sum_list_int:
  "(\<And>y. y \<in> set xs \<Longrightarrow> (0::int) \<le> f y) \<Longrightarrow> x \<in> set xs \<Longrightarrow> f x \<le> sum_list (map f xs)"
proof (induction xs)
  case (Cons a xs)
  have "0 \<le> sum_list (map f xs)" using Cons.prems(1) by (intro sum_list_nonneg_int) auto
  with Cons show ?case by (auto intro: add_increasing)
qed simp

text \<open>Two listings of the same rows.\<close>

lemma sum_list_mset_eq:
  fixes f :: "'r \<Rightarrow> int"
  assumes "mset xs = mset ys"
  shows "sum_list (map f xs) = sum_list (map f ys)"
proof -
  have "mset (map f xs) = mset (map f ys)" using assms by simp
  then show ?thesis by (metis sum_mset_sum_list)
qed

lemma distinct_map_mset_eq:
  assumes "mset xs = mset ys" "distinct (map f ys)"
  shows "distinct (map f xs)"
proof -
  have "mset (map f xs) = mset (map f ys)" using assms by simp
  with assms(2) show ?thesis by (metis mset_eq_imp_distinct_iff)
qed

lemma distinct_map_listing: "mset xs = mset (filter P ys) \<Longrightarrow> distinct (map f ys) \<Longrightarrow> distinct (map f xs)"
  by (rule distinct_map_mset_eq[of xs "filter P ys"]) (simp_all add: distinct_map_filter)

text \<open>Reading one element off a computed listing.\<close>

lemma map_eq_singletonD: "map f xs = [y] \<Longrightarrow> \<exists>x. xs = [x] \<and> f x = y"
  by (cases xs) auto

lemma map_eq_ConsD: "map f xs = y # ys \<Longrightarrow> \<exists>x\<in>set xs. f x = y"
  by (cases xs) auto

lemma filter_key_singleton:
  assumes "distinct (map key xs)" "x \<in> set xs" "key x = k"
  shows "filter (\<lambda>y. key y = k) xs = [x]"
  using assms
proof (induction xs)
  case (Cons a xs)
  show ?case
  proof (cases "a = x")
    case True
    have "key y \<noteq> k" if "y \<in> set xs" for y using Cons.prems(1,3) True imageI[OF that, of key] by auto
    then have "filter (\<lambda>y. key y = k) xs = []" by (simp add: filter_empty_conv)
    then show ?thesis using True Cons.prems(3) by simp
  next
    case False
    then have "x \<in> set xs" using Cons.prems(2) by simp
    then have "key a \<noteq> k" using Cons.prems(1,3) by auto
    then show ?thesis using Cons.IH Cons.prems \<open>x \<in> set xs\<close> by simp
  qed
qed simp

end
