(* ===== verification/CircuitBreaker.thy ===== *)
theory CircuitBreaker
  imports GoPrelude
begin

section \<open>Circuit breaker (services/cache/circuit\_breaker.go)\<close>

text \<open>
  The breaker that guards Redis. The state is the Go struct without its mutex (every
  method holds the lock for its whole body, so each method is one atomic step); a method
  that reads \<open>time.Now()\<close> takes the reading as its argument \<open>now\<close>.

  The theory also states the breaker as an abstract machine (\<open>breaker_spec\<close>), proves that
  the code refines it, and gives the gate contract (locale \<open>gate\<close>) that the two-tier
  cache relies on.
\<close>

datatype CircuitState = StateClosed | StateOpen | StateHalfOpen

record CircuitBreaker =
  cb_state :: CircuitState
  cb_failureThreshold :: int
  cb_consecutiveErrors :: int
  cb_openTimeout :: duration
  cb_lastStateChange :: instant

definition NewCircuitBreaker :: "instant \<Rightarrow> int \<Rightarrow> duration \<Rightarrow> CircuitBreaker" where
  "NewCircuitBreaker now failureThreshold openTimeout =
     \<lparr> cb_state = StateClosed,
       cb_failureThreshold = (if failureThreshold \<le> 0 then 5 else failureThreshold),
       cb_consecutiveErrors = 0,
       cb_openTimeout = (if openTimeout \<le> 0 then 30 * Second else openTimeout),
       cb_lastStateChange = now \<rparr>"

definition AllowExecution :: "instant \<Rightarrow> CircuitBreaker \<Rightarrow> bool \<times> CircuitBreaker" where
  "AllowExecution now cb =
     (case cb_state cb of
        StateClosed \<Rightarrow> (True, cb)
      | StateOpen \<Rightarrow>
          (if time_sub now (cb_lastStateChange cb) \<ge> cb_openTimeout cb
           then (True, cb\<lparr> cb_state := StateHalfOpen, cb_lastStateChange := now \<rparr>)
           else (False, cb))
      | StateHalfOpen \<Rightarrow> (True, cb))"

definition RecordSuccess :: "instant \<Rightarrow> CircuitBreaker \<Rightarrow> CircuitBreaker" where
  "RecordSuccess now cb =
     (let cb1 = cb\<lparr> cb_consecutiveErrors := 0 \<rparr>
      in if cb_state cb1 = StateHalfOpen
         then cb1\<lparr> cb_state := StateClosed, cb_lastStateChange := now \<rparr>
         else cb1)"

definition RecordFailure :: "instant \<Rightarrow> CircuitBreaker \<Rightarrow> CircuitBreaker" where
  "RecordFailure now cb =
     (let cb1 = cb\<lparr> cb_consecutiveErrors := add64 (cb_consecutiveErrors cb) 1 \<rparr>
      in if cb_state cb1 = StateHalfOpen \<or>
            (cb_state cb1 = StateClosed \<and> cb_consecutiveErrors cb1 \<ge> cb_failureThreshold cb1)
         then cb1\<lparr> cb_state := StateOpen, cb_lastStateChange := now \<rparr>
         else cb1)"

definition State :: "CircuitBreaker \<Rightarrow> CircuitState" where
  "State cb = cb_state cb"

definition Reset :: "instant \<Rightarrow> CircuitBreaker \<Rightarrow> CircuitBreaker" where
  "Reset now cb =
     cb\<lparr> cb_state := StateClosed, cb_consecutiveErrors := 0, cb_lastStateChange := now \<rparr>"

lemmas breaker_defs = NewCircuitBreaker_def AllowExecution_def RecordSuccess_def
  RecordFailure_def State_def Reset_def Let_def

subsection \<open>The breaker as a state machine\<close>

datatype cb_event = Allow instant | Success instant | Failure instant | ResetAt instant

fun cb_step :: "CircuitBreaker \<Rightarrow> cb_event \<Rightarrow> CircuitBreaker" where
  "cb_step cb (Allow t) = snd (AllowExecution t cb)"
| "cb_step cb (Success t) = RecordSuccess t cb"
| "cb_step cb (Failure t) = RecordFailure t cb"
| "cb_step cb (ResetAt t) = Reset t cb"

inductive cb_reachable :: "CircuitBreaker \<Rightarrow> bool" where
  created: "in_i64 thr \<Longrightarrow> in_i64 timeout \<Longrightarrow> cb_reachable (NewCircuitBreaker now thr timeout)"
| stepped: "cb_reachable cb \<Longrightarrow> cb_reachable (cb_step cb e)"

text \<open>The type invariant: configured limits are positive 64-bit values, and a closed breaker
  has counted fewer errors than its threshold.\<close>

definition cb_inv :: "CircuitBreaker \<Rightarrow> bool" where
  "cb_inv cb \<longleftrightarrow>
     0 < cb_failureThreshold cb \<and> in_i64 (cb_failureThreshold cb) \<and>
     0 < cb_openTimeout cb \<and> in_i64 (cb_openTimeout cb) \<and>
     (cb_state cb = StateClosed \<longrightarrow>
        0 \<le> cb_consecutiveErrors cb \<and> cb_consecutiveErrors cb < cb_failureThreshold cb)"

lemma cb_inv_new: "in_i64 thr \<Longrightarrow> in_i64 timeout \<Longrightarrow> cb_inv (NewCircuitBreaker now thr timeout)"
  by (auto simp: cb_inv_def breaker_defs in_i64_def)

lemma cb_inv_RecordFailure: "cb_inv cb \<Longrightarrow> cb_inv (RecordFailure t cb)"
proof -
  assume inv: "cb_inv cb"
  have "add64 (cb_consecutiveErrors cb) 1 = cb_consecutiveErrors cb + 1"
    if "cb_state cb = StateClosed"
    using inv that by (intro add64_exact) (auto simp: cb_inv_def in_i64_def)
  with inv show ?thesis
    by (cases "cb_state cb") (auto simp: cb_inv_def breaker_defs)
qed

lemma cb_inv_step: "cb_inv cb \<Longrightarrow> cb_inv (cb_step cb e)"
proof (cases e)
  case (Failure t)
  assume "cb_inv cb"
  with Failure show ?thesis by (simp add: cb_inv_RecordFailure)
qed (auto simp: cb_inv_def breaker_defs split: CircuitState.splits)

lemma reachable_cb_inv: "cb_reachable cb \<Longrightarrow> cb_inv cb"
  by (induction rule: cb_reachable.induct) (auto intro: cb_inv_new cb_inv_step)

subsection \<open>Abstract breaker and refinement\<close>

text \<open>What the breaker promises: a closed breaker with a count of consecutive failures, an
  open one with the instant it tripped, and a half-open one.\<close>

datatype breaker_spec = Closed int | Open instant | HalfOpen

fun spec_step :: "int \<Rightarrow> duration \<Rightarrow> breaker_spec \<Rightarrow> cb_event \<Rightarrow> breaker_spec" where
  "spec_step thr tmo (Open t0) (Allow t) = (if t0 + tmo \<le> t then HalfOpen else Open t0)"
| "spec_step thr tmo s (Allow t) = s"
| "spec_step thr tmo (Open t0) (Success t) = Open t0"
| "spec_step thr tmo s (Success t) = Closed 0"
| "spec_step thr tmo (Closed n) (Failure t) = (if n + 1 \<ge> thr then Open t else Closed (n + 1))"
| "spec_step thr tmo (Open t0) (Failure t) = Open t0"
| "spec_step thr tmo HalfOpen (Failure t) = Open t"
| "spec_step thr tmo s (ResetAt t) = Closed 0"

definition cb_abs :: "CircuitBreaker \<Rightarrow> breaker_spec" where
  "cb_abs cb = (case cb_state cb of
      StateClosed \<Rightarrow> Closed (cb_consecutiveErrors cb)
    | StateOpen \<Rightarrow> Open (cb_lastStateChange cb)
    | StateHalfOpen \<Rightarrow> HalfOpen)"

lemma timeout_elapsed:
  assumes "cb_inv cb"
  shows "(time_sub t (cb_lastStateChange cb) \<ge> cb_openTimeout cb)
    = (cb_lastStateChange cb + cb_openTimeout cb \<le> t)"
  using assms time_sub_le[of "cb_openTimeout cb" t "cb_lastStateChange cb"]
  by (auto simp: cb_inv_def in_i64_def)

lemma closed_add_exact:
  assumes "cb_inv cb" "cb_state cb = StateClosed"
  shows "add64 (cb_consecutiveErrors cb) 1 = cb_consecutiveErrors cb + 1"
  using assms by (intro add64_exact) (auto simp: cb_inv_def in_i64_def)

lemma breaker_refines:
  assumes "cb_inv cb"
  shows "cb_abs (cb_step cb e) =
    spec_step (cb_failureThreshold cb) (cb_openTimeout cb) (cb_abs cb) e"
  using assms
  by (cases e; cases "cb_state cb")
     (auto simp: cb_abs_def breaker_defs timeout_elapsed closed_add_exact)

lemma cb_step_config [simp]:
  "cb_failureThreshold (cb_step cb e) = cb_failureThreshold cb"
  "cb_openTimeout (cb_step cb e) = cb_openTimeout cb"
  by (cases e; auto simp: breaker_defs split: CircuitState.splits)+

subsection \<open>The gate contract\<close>

text \<open>A client asks \<open>allow\<close> before a downstream call and reports the outcome. The contract
  says when calls are refused: \<open>blocked_until s\<close> is the end of a cool-off period, if one is
  running.\<close>

locale gate =
  fixes allow :: "instant \<Rightarrow> 's \<Rightarrow> bool \<times> 's"
    and succeed :: "instant \<Rightarrow> 's \<Rightarrow> 's"
    and fail :: "instant \<Rightarrow> 's \<Rightarrow> 's"
    and blocked_until :: "'s \<Rightarrow> instant option"
    and inv :: "'s \<Rightarrow> bool"
  assumes allow_blocked: "inv s \<Longrightarrow> blocked_until s = Some u \<Longrightarrow> t < u \<Longrightarrow> allow t s = (False, s)"
    and allow_elapsed: "inv s \<Longrightarrow> blocked_until s = Some u \<Longrightarrow> u \<le> t \<Longrightarrow> fst (allow t s)"
    and allow_open: "inv s \<Longrightarrow> blocked_until s = None \<Longrightarrow> allow t s = (True, s)"
    and allow_inv: "inv s \<Longrightarrow> inv (snd (allow t s))"
    and report_inv: "inv s \<Longrightarrow> inv (succeed t s)" "inv s \<Longrightarrow> inv (fail t s)"
    and report_blocked: "inv s \<Longrightarrow> blocked_until s = Some u \<Longrightarrow> blocked_until (succeed t s) = Some u"
      "inv s \<Longrightarrow> blocked_until s = Some u \<Longrightarrow> blocked_until (fail t s) = Some u"
begin

text \<open>A history of asks and reports, with the answers given to the asks.\<close>

fun answers :: "'s \<Rightarrow> (instant \<times> bool option) list \<Rightarrow> bool list" where
  "answers s [] = []"
| "answers s ((t, None) # h) = fst (allow t s) # answers (snd (allow t s)) h"
| "answers s ((t, Some ok) # h) = answers (if ok then succeed t s else fail t s) h"

lemma blocked_refuses_all:
  "inv s \<Longrightarrow> blocked_until s = Some u \<Longrightarrow> \<forall>(t, a) \<in> set h. t < u \<Longrightarrow> True \<notin> set (answers s h)"
proof (induction s h rule: answers.induct)
  case (2 s t h)
  then show ?case by (auto simp: allow_blocked)
next
  case (3 s t ok h)
  then show ?case by (cases ok) (auto simp: report_inv report_blocked)
qed simp

lemma refused_iff_blocked:
  "inv s \<Longrightarrow> \<not> fst (allow t s) \<longleftrightarrow> (\<exists>u. blocked_until s = Some u \<and> t < u)"
  by (cases "blocked_until s") (auto simp: allow_open allow_blocked dest: allow_elapsed leI)

end

definition cb_blocked_until :: "CircuitBreaker \<Rightarrow> instant option" where
  "cb_blocked_until cb =
     (if cb_state cb = StateOpen then Some (cb_lastStateChange cb + cb_openTimeout cb) else None)"

lemma AllowExecution_cases:
  assumes "cb_inv cb"
  shows "AllowExecution t cb =
    (case cb_blocked_until cb of
       None \<Rightarrow> (True, cb)
     | Some u \<Rightarrow> if t < u then (False, cb)
                 else (True, cb\<lparr> cb_state := StateHalfOpen, cb_lastStateChange := t \<rparr>))"
  using timeout_elapsed[OF assms, of t]
  by (cases "cb_state cb") (auto simp: AllowExecution_def cb_blocked_until_def)

interpretation breaker: gate AllowExecution RecordSuccess RecordFailure cb_blocked_until cb_inv
proof unfold_locales
  fix cb t assume inv: "cb_inv cb"
  then show "cb_inv (snd (AllowExecution t cb))" using cb_inv_step[of cb "Allow t"] by simp
  show "cb_inv (RecordSuccess t cb)" using inv cb_inv_step[of cb "Success t"] by simp
  show "cb_inv (RecordFailure t cb)" using inv by (rule cb_inv_RecordFailure)
qed (auto simp: AllowExecution_cases cb_blocked_until_def RecordSuccess_def RecordFailure_def Let_def
      split: if_splits)

subsection \<open>Runs of failures\<close>

fun cb_run :: "CircuitBreaker \<Rightarrow> cb_event list \<Rightarrow> CircuitBreaker" where
  "cb_run cb [] = cb"
| "cb_run cb (e # es) = cb_run (cb_step cb e) es"

lemma cb_inv_run: "cb_inv cb \<Longrightarrow> cb_inv (cb_run cb es)"
  by (induction es arbitrary: cb) (auto intro: cb_inv_step)

lemma cb_reachable_run: "cb_reachable cb \<Longrightarrow> cb_reachable (cb_run cb es)"
  by (induction es arbitrary: cb) (auto intro: cb_reachable.stepped)

lemma cb_run_append: "cb_run cb (es @ fs) = cb_run (cb_run cb es) fs"
  by (induction es arbitrary: cb) auto

lemma cb_run_config:
  "cb_failureThreshold (cb_run cb es) = cb_failureThreshold cb"
  "cb_openTimeout (cb_run cb es) = cb_openTimeout cb"
  by (induction es arbitrary: cb) auto

lemma failure_closed:
  assumes "cb_inv cb" "cb_state cb = StateClosed"
  shows "RecordFailure t cb =
    (if cb_consecutiveErrors cb + 1 \<ge> cb_failureThreshold cb
     then cb\<lparr> cb_consecutiveErrors := cb_consecutiveErrors cb + 1, cb_state := StateOpen,
              cb_lastStateChange := t \<rparr>
     else cb\<lparr> cb_consecutiveErrors := cb_consecutiveErrors cb + 1 \<rparr>)"
  using assms by (auto simp: RecordFailure_def Let_def closed_add_exact)

lemma open_failures_stay_open:
  "cb_state cb = StateOpen \<Longrightarrow> cb_state (cb_run cb (map Failure ts)) = StateOpen"
  by (induction ts arbitrary: cb) (auto simp: RecordFailure_def Let_def)

lemma closed_failures:
  assumes "cb_inv cb" "cb_state cb = StateClosed"
  shows "cb_state (cb_run cb (map Failure ts)) =
    (if cb_consecutiveErrors cb + int (length ts) < cb_failureThreshold cb
     then StateClosed else StateOpen)"
  using assms
proof (induction ts arbitrary: cb)
  case Nil
  then show ?case by (auto simp: cb_inv_def)
next
  case (Cons t ts)
  have inv: "cb_inv (RecordFailure t cb)" using Cons.prems(1) by (rule cb_inv_RecordFailure)
  show ?case
  proof (cases "cb_consecutiveErrors cb + 1 \<ge> cb_failureThreshold cb")
    case True
    then have "cb_state (RecordFailure t cb) = StateOpen"
      using Cons.prems by (simp add: failure_closed)
    with True show ?thesis by (simp add: open_failures_stay_open)
  next
    case False
    then show ?thesis using Cons.IH[OF inv] Cons.prems by (simp add: failure_closed)
  qed
qed

subsection \<open>Properties\<close>

lemma cb_run_refines:
  "cb_inv cb \<Longrightarrow> cb_abs (cb_run cb es) =
     foldl (spec_step (cb_failureThreshold cb) (cb_openTimeout cb)) (cb_abs cb) es"
proof (induction es arbitrary: cb)
  case (Cons e es)
  then show ?case using Cons.IH[OF cb_inv_step[OF Cons.prems], of e] by (simp add: breaker_refines)
qed simp

text \<open>C30: the circuit breaker implements the abstract breaker. From construction with any threshold and
  timeout, every sequence of AllowExecution, RecordSuccess, RecordFailure and Reset calls leads to the
  state the abstract machine prescribes (closed with its failure count, open since an instant, or
  half-open).\<close>

theorem breaker_implements_spec:
  assumes "in_i64 thr" "in_i64 timeout"
  shows "cb_abs (cb_run (NewCircuitBreaker now thr timeout) es) =
    foldl (spec_step (if thr \<le> 0 then 5 else thr) (if timeout \<le> 0 then 30 * Second else timeout)) (Closed 0) es"
  using cb_run_refines[OF cb_inv_new[OF assms, of now], of es]
  by (simp add: NewCircuitBreaker_def cb_abs_def)

theorem breaker_implements_spec_witness:
  "cb_abs (cb_run (NewCircuitBreaker 0 2 100) [Failure 1, Failure 2, Allow 50, Allow 102]) = HalfOpen"
  using breaker_implements_spec[of 2 100 0 "[Failure 1, Failure 2, Allow 50, Allow 102]"]
  by (simp add: in_i64_def)

text \<open>While the breaker is open nothing is let through. Take any reachable open breaker and any
  history of permission requests and late outcome reports, all before the cool-off period ends: every
  permission request is refused.\<close>

theorem breaker_blocks_while_open:
  assumes "cb_reachable cb" "State cb = StateOpen"
    and "\<forall>(t, a) \<in> set h. t < cb_lastStateChange cb + cb_openTimeout cb"
  shows "True \<notin> set (breaker.answers cb h)"
  using assms breaker.blocked_refuses_all[of cb "cb_lastStateChange cb + cb_openTimeout cb" h]
  by (simp add: reachable_cb_inv cb_blocked_until_def State_def)

theorem breaker_blocks_while_open_witness:
  "True \<notin> set (breaker.answers (cb_run (NewCircuitBreaker 0 1 100) [Failure 7]) [(8, None), (9, Some False), (106, None)])"
proof (rule breaker_blocks_while_open)
  show "cb_reachable (cb_run (NewCircuitBreaker 0 1 100) [Failure 7])"
    by (intro cb_reachable_run cb_reachable.created) (simp_all add: in_i64_def)
qed (simp_all add: breaker_defs add64_def i64_def)

text \<open>The breaker trips at the threshold and not before. A fresh breaker that only sees failures is
  closed while fewer than the configured number have been recorded, and open from then on.\<close>

theorem breaker_trips_at_threshold:
  assumes "in_i64 thr" "in_i64 timeout" "0 < thr"
  shows "State (cb_run (NewCircuitBreaker now thr timeout) (map Failure ts)) =
    (if int (length ts) < thr then StateClosed else StateOpen)"
  using closed_failures[OF cb_inv_new[OF assms(1,2), of now], of ts] assms(3)
  by (simp add: NewCircuitBreaker_def State_def)

theorem breaker_trips_at_threshold_witness:
  "State (cb_run (NewCircuitBreaker 0 3 100) (map Failure [1, 2, 3])) = StateOpen"
  using breaker_trips_at_threshold[of 3 100 0 "[1, 2, 3]"] by (simp add: in_i64_def del: cb_run.simps)

text \<open>The half-open state does not serialise probes: once the cool-off period is over, every permission
  request made before the first outcome report is granted, however many there are.\<close>

theorem half_open_admits_every_request:
  assumes "cb_reachable cb" "State cb \<noteq> StateClosed"
    and "State cb = StateOpen \<longrightarrow> (\<forall>t \<in> set ts. cb_lastStateChange cb + cb_openTimeout cb \<le> t)"
  shows "breaker.answers cb (map (\<lambda>t. (t, None)) ts) = replicate (length ts) True"
  using assms(2,3) reachable_cb_inv[OF assms(1)]
proof (induction ts arbitrary: cb)
  case (Cons t ts)
  have inv: "cb_inv (snd (AllowExecution t cb))"
    using Cons.prems(3) cb_inv_step[of cb "Allow t"] by simp
  have "fst (AllowExecution t cb)" "State (snd (AllowExecution t cb)) = StateHalfOpen"
    using Cons.prems AllowExecution_cases[OF Cons.prems(3), of t]
    by (cases "cb_state cb"; auto simp: State_def cb_blocked_until_def)+
  then show ?case using Cons.IH[of "snd (AllowExecution t cb)"] inv by simp
qed simp

theorem half_open_admits_every_request_witness:
  "breaker.answers (cb_run (NewCircuitBreaker 0 1 100) [Failure 7]) [(107, None), (108, None)] = [True, True]"
proof -
  have "cb_reachable (cb_run (NewCircuitBreaker 0 1 100) [Failure 7])"
    by (intro cb_reachable_run cb_reachable.created) (simp_all add: in_i64_def)
  moreover have "State (cb_run (NewCircuitBreaker 0 1 100) [Failure 7]) = StateOpen"
    "cb_lastStateChange (cb_run (NewCircuitBreaker 0 1 100) [Failure 7]) = 7"
    "cb_openTimeout (cb_run (NewCircuitBreaker 0 1 100) [Failure 7]) = 100"
    by (simp_all add: breaker_defs add64_def i64_def)
  ultimately show ?thesis
    using half_open_admits_every_request[of "cb_run (NewCircuitBreaker 0 1 100) [Failure 7]" "[107, 108]"]
    by (simp del: cb_run.simps)
qed

end
