(* ===== verification/L1Cache.thy ===== *)
theory L1Cache
  imports GoPrelude "HOL-Library.AList"
begin

section \<open>In-memory LRU tier (services/cache/l1\_cache.go, memory.go)\<close>

text \<open>
  The LRU list (\<open>container/list\<close>) is a list of elements, front first; an element is a
  handle with the \<open>l1Item\<close> its \<open>Value\<close> points to. The Go map \<open>items\<close> from keys to
  elements is an association list from keys to handles. The handles are what a
  \<open>*list.Element\<close> is in the code: \<open>MoveToFront\<close>, \<open>Remove\<close> and the in-place update of
  \<open>Set\<close> act on the element the map points to. \<open>time.Time{}\<close> (no expiry) is \<open>None\<close>.
  The abstract cache (\<open>lru_get\<close>, \<open>lru_set\<close>, \<open>lru_delete\<close>) is the list of items alone.
\<close>

type_synonym byte = nat
type_synonym bytes = "byte list"

record l1Item =
  it_key :: string
  it_value :: bytes
  it_sizeBytes :: int
  it_expiresAt :: "instant option"

type_synonym elem = "nat \<times> l1Item"

record MemoryStats =
  TotalEntries :: int
  UsedSizeBytes :: int
  MaxSizeBytes :: int
  MaxEntries :: int
  TotalEvictions :: int
  TotalHits :: int
  TotalMisses :: int

record L1Cache =
  items :: "(string \<times> nat) list"
  evictList :: "elem list"
  nextHandle :: nat
  maxEntries :: int
  maxSizeBytes :: int
  currentBytes :: int
  stats :: MemoryStats

definition expired :: "instant \<Rightarrow> l1Item \<Rightarrow> bool" where
  "expired now item = (case it_expiresAt item of None \<Rightarrow> False | Some t \<Rightarrow> now > t)"

definition EstimateEntrySize :: "string \<Rightarrow> bytes \<Rightarrow> int" where
  "EstimateEntrySize key val = int (length key + length val + 64)"

definition NewL1Cache :: "int \<Rightarrow> int \<Rightarrow> L1Cache" where
  "NewL1Cache maxE maxB =
     (let maxE = (if maxE \<le> 0 then 10000 else maxE);
          maxB = (if maxB \<le> 0 then 64 * 1024 * 1024 else maxB)
      in \<lparr> items = [], evictList = [], nextHandle = 0, maxEntries = maxE, maxSizeBytes = maxB,
           currentBytes = 0,
           stats = \<lparr> TotalEntries = 0, UsedSizeBytes = 0, MaxSizeBytes = maxB, MaxEntries = maxE,
                     TotalEvictions = 0, TotalHits = 0, TotalMisses = 0 \<rparr> \<rparr>)"

text \<open>The element a handle stands for.\<close>

definition elem_item :: "L1Cache \<Rightarrow> nat \<Rightarrow> l1Item option" where
  "elem_item c h = map_of (evictList c) h"

definition MoveToFront :: "nat \<Rightarrow> elem list \<Rightarrow> elem list" where
  "MoveToFront h es =
     (case map_of es h of None \<Rightarrow> es | Some it \<Rightarrow> (h, it) # AList.delete h es)"

text \<open>\<open>c.stats.TotalEvictions.Add(1)\<close> and its kin.\<close>

definition countEviction :: "L1Cache \<Rightarrow> L1Cache" where
  "countEviction c = c\<lparr> stats := (stats c)\<lparr> TotalEvictions := add64 (TotalEvictions (stats c)) 1 \<rparr> \<rparr>"

definition countMiss :: "L1Cache \<Rightarrow> L1Cache" where
  "countMiss c = c\<lparr> stats := (stats c)\<lparr> TotalMisses := add64 (TotalMisses (stats c)) 1 \<rparr> \<rparr>"

definition countHit :: "L1Cache \<Rightarrow> L1Cache" where
  "countHit c = c\<lparr> stats := (stats c)\<lparr> TotalHits := add64 (TotalHits (stats c)) 1 \<rparr> \<rparr>"

text \<open>\<open>c.stats.TotalEntries.Store(int64(len(c.items)))\<close> and
  \<open>c.stats.UsedSizeBytes.Store(c.currentBytes)\<close>.\<close>

definition storeUsage :: "L1Cache \<Rightarrow> L1Cache" where
  "storeUsage c = c\<lparr> stats := (stats c)\<lparr> TotalEntries := int (length (items c)),
                                           UsedSizeBytes := currentBytes c \<rparr> \<rparr>"

definition removeElement :: "nat \<Rightarrow> L1Cache \<Rightarrow> L1Cache" where
  "removeElement h c =
     (case elem_item c h of
        None \<Rightarrow> c
      | Some item \<Rightarrow>
          storeUsage (c\<lparr> evictList := AList.delete h (evictList c),
                         items := AList.delete (it_key item) (items c),
                         currentBytes := sub64 (currentBytes c) (it_sizeBytes item) \<rparr>))"

definition evictOldest :: "L1Cache \<Rightarrow> L1Cache" where
  "evictOldest c =
     (case evictList c of
        [] \<Rightarrow> c
      | e # es \<Rightarrow> countEviction (removeElement (fst (last (e # es))) c))"

lemma removeElement_shrinks:
  assumes "h \<in> fst ` set (evictList c)"
  shows "length (evictList (removeElement h c)) < length (evictList c)"
proof -
  from assms obtain it where it: "map_of (evictList c) h = Some it"
    by (metis map_of_eq_None_iff not_None_eq)
  have "length (AList.delete h (evictList c)) < length (evictList c)"
    using assms by (auto simp: AList.delete_eq intro: length_filter_less)
  with it show ?thesis by (simp add: removeElement_def elem_item_def storeUsage_def)
qed

lemma evictOldest_shrinks:
  "evictList c \<noteq> [] \<Longrightarrow> length (evictList (evictOldest c)) < length (evictList c)"
  by (cases "evictList c")
     (use removeElement_shrinks[of "fst (last (evictList c))" c] in
       \<open>auto simp: evictOldest_def countEviction_def\<close>)

text \<open>The loop \<open>for cond && c.evictList.Len() > 0 { c.evictOldest() }\<close>, used with two
  conditions.\<close>

function evictWhile :: "(L1Cache \<Rightarrow> bool) \<Rightarrow> L1Cache \<Rightarrow> L1Cache" where
  "evictWhile cond c =
     (if cond c \<and> evictList c \<noteq> [] then evictWhile cond (evictOldest c) else c)"
  by pat_completeness auto
termination
  by (relation "measure (\<lambda>(cond, c). length (evictList c))") (auto simp: evictOldest_shrinks)

declare evictWhile.simps [simp del]

definition evictIfNeeded :: "L1Cache \<Rightarrow> L1Cache" where
  "evictIfNeeded = evictWhile (\<lambda>c. int (length (items c)) > maxEntries c
                                   \<or> currentBytes c > maxSizeBytes c)"

definition Get :: "instant \<Rightarrow> string \<Rightarrow> L1Cache \<Rightarrow> bytes option \<times> L1Cache" where
  "Get now key c =
     (case map_of (items c) key of
        None \<Rightarrow> (None, countMiss c)
      | Some h \<Rightarrow>
          (case elem_item c h of
             None \<Rightarrow> (None, c)
           | Some item \<Rightarrow>
               if expired now item
               then (None, countMiss (countEviction (removeElement h c)))
               else (Some (it_value item),
                     countHit (c\<lparr> evictList := MoveToFront h (evictList c) \<rparr>))))"

definition Set :: "instant \<Rightarrow> string \<Rightarrow> bytes \<Rightarrow> duration \<Rightarrow> L1Cache \<Rightarrow> L1Cache" where
  "Set now key value ttl c =
     (let itemSize = EstimateEntrySize key value;
          expiresAt = (if ttl > 0 then Some (now + ttl) else None)
      in
      if itemSize > maxSizeBytes c then c
      else case map_of (items c) key of
        Some h \<Rightarrow>
          (case elem_item c h of
             None \<Rightarrow> c
           | Some oldItem \<Rightarrow>
               let newItem = oldItem\<lparr> it_value := value, it_sizeBytes := itemSize,
                                      it_expiresAt := expiresAt \<rparr>;
                   bytes1 = sub64 (currentBytes c) (it_sizeBytes oldItem);
                   used1 = add64 (UsedSizeBytes (stats c)) (- it_sizeBytes oldItem);
                   c1 = c\<lparr> currentBytes := add64 bytes1 itemSize,
                           evictList := AList.update h newItem (evictList c),
                           stats := (stats c)\<lparr> UsedSizeBytes := add64 used1 itemSize \<rparr> \<rparr>
               in evictIfNeeded (c1\<lparr> evictList := MoveToFront h (evictList c1) \<rparr>))
      | None \<Rightarrow>
          (let c1 = evictWhile (\<lambda>c. int (length (items c)) \<ge> maxEntries c
                                    \<or> add64 (currentBytes c) itemSize > maxSizeBytes c) c;
               newItem = \<lparr> it_key = key, it_value = value, it_sizeBytes = itemSize,
                           it_expiresAt = expiresAt \<rparr>;
               h = nextHandle c1
           in storeUsage (c1\<lparr> nextHandle := Suc h,
                              evictList := (h, newItem) # evictList c1,
                              items := AList.update key h (items c1),
                              currentBytes := add64 (currentBytes c1) itemSize \<rparr>)))"

definition Delete :: "string \<Rightarrow> L1Cache \<Rightarrow> bool \<times> L1Cache" where
  "Delete key c =
     (case map_of (items c) key of
        Some h \<Rightarrow> (True, removeElement h c)
      | None \<Rightarrow> (False, c))"

definition Clear :: "L1Cache \<Rightarrow> L1Cache" where
  "Clear c = c\<lparr> items := [], evictList := [], currentBytes := 0,
                stats := (stats c)\<lparr> TotalEntries := 0, UsedSizeBytes := 0 \<rparr> \<rparr>"

definition Len :: "L1Cache \<Rightarrow> int" where
  "Len c = int (length (items c))"

definition Stats :: "L1Cache \<Rightarrow> MemoryStats" where
  "Stats c = stats c"

subsection \<open>Representation invariant\<close>

definition elem_key :: "elem \<Rightarrow> string" where
  "elem_key e = it_key (snd e)"

definition total_bytes :: "l1Item list \<Rightarrow> int" where
  "total_bytes its = sum_list (map it_sizeBytes its)"

definition lru :: "L1Cache \<Rightarrow> l1Item list" where
  "lru c = map snd (evictList c)"

text \<open>The map and the list describe the same elements, handles are unique, and the byte
  counter is the sum of the entry sizes. The configured size limit leaves room for one
  64-bit addition.\<close>

definition l1_wf :: "L1Cache \<Rightarrow> bool" where
  "l1_wf c \<longleftrightarrow>
     distinct (map fst (evictList c)) \<and> distinct (map elem_key (evictList c)) \<and>
     distinct (map fst (items c)) \<and>
     set (items c) = (\<lambda>e. (elem_key e, fst e)) ` set (evictList c) \<and>
     (\<forall>e \<in> set (evictList c). fst e < nextHandle c) \<and>
     (\<forall>it \<in> set (lru c). it_sizeBytes it = EstimateEntrySize (it_key it) (it_value it)) \<and>
     currentBytes c = total_bytes (lru c) \<and>
     total_bytes (lru c) < 2 ^ 63 \<and>
     0 < maxEntries c \<and> 0 < maxSizeBytes c \<and> maxSizeBytes c < 2 ^ 62"

definition l1_inv :: "L1Cache \<Rightarrow> bool" where
  "l1_inv c \<longleftrightarrow> l1_wf c \<and>
     int (length (items c)) \<le> maxEntries c \<and> currentBytes c \<le> maxSizeBytes c \<and>
     TotalEntries (stats c) = int (length (items c)) \<and> UsedSizeBytes (stats c) = currentBytes c"

lemma estimate_pos: "0 < EstimateEntrySize k v"
  by (simp add: EstimateEntrySize_def)

lemma total_bytes_simps [simp]:
  "total_bytes [] = 0" "total_bytes (it # its) = it_sizeBytes it + total_bytes its"
  "total_bytes (xs @ ys) = total_bytes xs + total_bytes ys"
  by (simp_all add: total_bytes_def)

lemma l1_wf_sizes_pos: "l1_wf c \<Longrightarrow> it \<in> set (lru c) \<Longrightarrow> 0 < it_sizeBytes it"
  by (simp add: l1_wf_def estimate_pos)

lemma total_bytes_nonneg: "(\<And>it. it \<in> set its \<Longrightarrow> 0 \<le> it_sizeBytes it) \<Longrightarrow> 0 \<le> total_bytes its"
  by (simp add: total_bytes_def sum_list_nonneg_int)

lemma l1_wf_items_length: "l1_wf c \<Longrightarrow> length (items c) = length (evictList c)"
proof -
  assume wf: "l1_wf c"
  then have d: "distinct (items c)" by (simp add: l1_wf_def distinct_map)
  have inj: "inj_on (\<lambda>e. (elem_key e, fst e)) (set (evictList c))"
    using wf by (auto simp: l1_wf_def inj_on_def distinct_map)
  have "length (items c) = card (set (items c))" using d by (simp add: distinct_card)
  also have "\<dots> = card (set (evictList c))" using wf inj by (simp add: l1_wf_def card_image)
  also have "\<dots> = length (evictList c)"
    using wf by (simp add: l1_wf_def distinct_card distinct_map)
  finally show ?thesis .
qed

lemma l1_wf_lookup:
  assumes "l1_wf c"
  shows "map_of (items c) k = Some h \<longleftrightarrow> (\<exists>it. (h, it) \<in> set (evictList c) \<and> it_key it = k)"
proof -
  have "map_of (items c) k = Some h \<longleftrightarrow> (k, h) \<in> set (items c)"
    using assms by (simp add: l1_wf_def)
  also have "\<dots> \<longleftrightarrow> (\<exists>it. (h, it) \<in> set (evictList c) \<and> it_key it = k)"
  proof -
    have s: "set (items c) = (\<lambda>e. (elem_key e, fst e)) ` set (evictList c)"
      using assms by (simp add: l1_wf_def)
    show ?thesis unfolding s elem_key_def by force
  qed
  finally show ?thesis .
qed

lemma l1_wf_elem_item:
  "l1_wf c \<Longrightarrow> (h, it) \<in> set (evictList c) \<Longrightarrow> elem_item c h = Some it"
  by (simp add: elem_item_def l1_wf_def map_of_is_SomeI)

lemma l1_wf_lookup_None:
  assumes "l1_wf c"
  shows "map_of (items c) k = None \<longleftrightarrow> k \<notin> it_key ` set (lru c)"
proof -
  have "fst ` set (items c) = it_key ` set (lru c)"
    using assms by (auto simp: l1_wf_def lru_def elem_key_def image_image)
  then show ?thesis by (simp add: map_of_eq_None_iff)
qed

lemma l1_new_inv: "maxB < 2 ^ 62 \<Longrightarrow> l1_inv (NewL1Cache maxE maxB)"
  by (auto simp: l1_inv_def l1_wf_def NewL1Cache_def Let_def lru_def)

subsection \<open>The abstract LRU list\<close>

definition lru_remove :: "string \<Rightarrow> l1Item list \<Rightarrow> l1Item list" where
  "lru_remove k its = filter (\<lambda>it. it_key it \<noteq> k) its"

definition lru_find :: "string \<Rightarrow> l1Item list \<Rightarrow> l1Item option" where
  "lru_find k its = find (\<lambda>it. it_key it = k) its"

definition lru_get :: "instant \<Rightarrow> string \<Rightarrow> l1Item list \<Rightarrow> bytes option \<times> l1Item list" where
  "lru_get now k its = (case lru_find k its of
      None \<Rightarrow> (None, its)
    | Some it \<Rightarrow> if expired now it then (None, lru_remove k its)
                 else (Some (it_value it), it # lru_remove k its))"

text \<open>Drop least recently used items until \<open>fits\<close> holds or nothing is left.\<close>

fun lru_trim :: "(l1Item list \<Rightarrow> bool) \<Rightarrow> l1Item list \<Rightarrow> l1Item list" where
  "lru_trim fits its = (if its = [] \<or> fits its then its else lru_trim fits (butlast its))"

declare lru_trim.simps [simp del]

definition new_item :: "instant \<Rightarrow> string \<Rightarrow> bytes \<Rightarrow> duration \<Rightarrow> l1Item" where
  "new_item now k v ttl = \<lparr> it_key = k, it_value = v, it_sizeBytes = EstimateEntrySize k v,
      it_expiresAt = (if ttl > 0 then Some (now + ttl) else None) \<rparr>"

definition lru_set :: "int \<Rightarrow> int \<Rightarrow> instant \<Rightarrow> string \<Rightarrow> bytes \<Rightarrow> duration \<Rightarrow> l1Item list \<Rightarrow> l1Item list" where
  "lru_set maxE maxB now k v ttl its =
     (let it = new_item now k v ttl
      in if it_sizeBytes it > maxB then its
         else it # lru_trim (\<lambda>xs. int (length xs) < maxE \<and> total_bytes xs + it_sizeBytes it \<le> maxB)
                            (lru_remove k its))"

lemma lru_trim_prefix: "\<exists>ys. its = lru_trim fits its @ ys"
proof (induction fits its rule: lru_trim.induct)
  case (1 fits its)
  show ?case
  proof (cases "its = [] \<or> fits its")
    case False
    with 1 obtain ys where "butlast its = lru_trim fits (butlast its) @ ys" by blast
    with False have "its = lru_trim fits (butlast its) @ (ys @ [last its])"
      by (metis append.assoc append_butlast_last_id)
    with False show ?thesis by (subst lru_trim.simps) auto
  qed (simp add: lru_trim.simps[of fits its])
qed

lemma lru_trim_fits: "lru_trim fits its = [] \<or> fits (lru_trim fits its)"
  by (induction fits its rule: lru_trim.induct) (subst (1 2) lru_trim.simps, auto)

lemma lru_trim_id: "fits its \<Longrightarrow> lru_trim fits its = its"
  by (simp add: lru_trim.simps)

lemma lru_trim_maximal:
  "its = xs @ ys \<Longrightarrow> fits xs \<Longrightarrow> length xs \<le> length (lru_trim fits its)"
proof (induction fits its arbitrary: ys rule: lru_trim.induct)
  case (1 fits its)
  show ?case
  proof (cases "its = [] \<or> fits its")
    case True
    then have "lru_trim fits its = its" by (simp add: lru_trim.simps[of fits its])
    with 1 show ?thesis by simp
  next
    case False
    with 1 have "ys \<noteq> []" by auto
    with 1 have "butlast its = xs @ butlast ys" by (simp add: butlast_append)
    with 1 False have "length xs \<le> length (lru_trim fits (butlast its))" by blast
    with False show ?thesis by (subst lru_trim.simps) auto
  qed
qed

subsection \<open>Removal and eviction refine the list operations\<close>

lemma elem_key_comp: "elem_key = it_key \<circ> snd"
  by (auto simp: elem_key_def)

lemma l1_wf_keys: "l1_wf c \<Longrightarrow> distinct (map it_key (lru c))"
  by (simp add: l1_wf_def lru_def elem_key_comp)

lemma l1_wfI:
  assumes "distinct (map fst (evictList c))" "distinct (map elem_key (evictList c))"
    "distinct (map fst (items c))"
    "set (items c) = (\<lambda>e. (elem_key e, fst e)) ` set (evictList c)"
    "\<And>e. e \<in> set (evictList c) \<Longrightarrow> fst e < nextHandle c"
    "\<And>it. it \<in> set (lru c) \<Longrightarrow> it_sizeBytes it = EstimateEntrySize (it_key it) (it_value it)"
    "currentBytes c = total_bytes (lru c)" "total_bytes (lru c) < 2 ^ 63"
    "0 < maxEntries c" "0 < maxSizeBytes c" "maxSizeBytes c < 2 ^ 62"
  shows "l1_wf c"
  unfolding l1_wf_def using assms by blast

lemma lru_remove_absent: "k \<notin> it_key ` set its \<Longrightarrow> lru_remove k its = its"
  by (auto simp: lru_remove_def filter_id_conv)

lemma total_bytes_remove:
  "distinct (map it_key its) \<Longrightarrow> it \<in> set its \<Longrightarrow>
   total_bytes (lru_remove (it_key it) its) = total_bytes its - it_sizeBytes it"
proof (induction its)
  case (Cons x xs)
  show ?case
  proof (cases "it = x")
    case True
    with Cons.prems have "lru_remove (it_key it) xs = xs" by (intro lru_remove_absent) auto
    with True show ?thesis by (simp add: lru_remove_def)
  next
    case False
    with Cons.prems have "it_key x \<noteq> it_key it" by auto
    with False Cons show ?thesis by (simp add: lru_remove_def)
  qed
qed simp

lemma handle_iff_key:
  assumes "l1_wf c" "(h, it) \<in> set (evictList c)" "e \<in> set (evictList c)"
  shows "fst e = h \<longleftrightarrow> elem_key e = it_key it"
proof -
  have a: "distinct (map fst (evictList c))" and b: "distinct (map elem_key (evictList c))"
    using assms(1) by (simp_all add: l1_wf_def)
  have "e = (h, it)" if "fst e = h"
    using distinct_key_unique[OF a assms(3,2)] that by simp
  moreover have "e = (h, it)" if "elem_key e = it_key it"
    using distinct_key_unique[OF b assms(3,2)] that by (simp add: elem_key_def)
  ultimately show ?thesis by (metis elem_key_def fst_conv snd_conv)
qed

lemma lru_delete_handle:
  assumes "l1_wf c" "(h, it) \<in> set (evictList c)"
  shows "map snd (AList.delete h (evictList c)) = lru_remove (it_key it) (lru c)"
proof -
  have "AList.delete h (evictList c) = filter (\<lambda>e. elem_key e \<noteq> it_key it) (evictList c)"
    unfolding AList.delete_eq
    by (rule filter_cong) (use handle_iff_key[OF assms] in \<open>auto simp: case_prod_beta\<close>)
  then show ?thesis by (simp add: lru_remove_def lru_def filter_map comp_def elem_key_def)
qed

lemma lru_mem: "(h, it) \<in> set (evictList c) \<Longrightarrow> it \<in> set (lru c)"
  by (force simp: lru_def)

lemma total_bytes_remove_bounds:
  assumes "l1_wf c" "it \<in> set (lru c)"
  shows "0 \<le> total_bytes (lru_remove (it_key it) (lru c))"
    "total_bytes (lru_remove (it_key it) (lru c)) = currentBytes c - it_sizeBytes it"
    "sub64 (currentBytes c) (it_sizeBytes it) = currentBytes c - it_sizeBytes it"
proof -
  show nn: "0 \<le> total_bytes (lru_remove (it_key it) (lru c))"
    using l1_wf_sizes_pos[OF assms(1)]
    by (intro total_bytes_nonneg) (auto simp: lru_remove_def intro: order.strict_implies_order)
  show eq: "total_bytes (lru_remove (it_key it) (lru c)) = currentBytes c - it_sizeBytes it"
    using assms l1_wf_keys[OF assms(1)] by (simp add: total_bytes_remove l1_wf_def)
  have "0 < it_sizeBytes it" using assms by (rule l1_wf_sizes_pos)
  moreover have "currentBytes c < 2 ^ 63" using assms(1) by (simp add: l1_wf_def)
  ultimately show "sub64 (currentBytes c) (it_sizeBytes it) = currentBytes c - it_sizeBytes it"
    using nn eq by (intro sub64_exact) (simp add: in_i64_def)
qed

lemma items_delete_set:
  assumes "l1_wf c" "(h, it) \<in> set (evictList c)"
  shows "set (AList.delete (it_key it) (items c)) =
    (\<lambda>e. (elem_key e, fst e)) ` set (AList.delete h (evictList c))"
proof -
  have s: "set (items c) = (\<lambda>e. (elem_key e, fst e)) ` set (evictList c)"
    using assms(1) by (simp add: l1_wf_def)
  have "set (AList.delete (it_key it) (items c)) = {p \<in> set (items c). fst p \<noteq> it_key it}"
    by (auto simp: AList.delete_eq)
  also have "\<dots> = (\<lambda>e. (elem_key e, fst e)) ` {e \<in> set (evictList c). elem_key e \<noteq> it_key it}"
    unfolding s by auto
  also have "{e \<in> set (evictList c). elem_key e \<noteq> it_key it} = {e \<in> set (evictList c). fst e \<noteq> h}"
    using handle_iff_key[OF assms] by blast
  also have "\<dots> = set (AList.delete h (evictList c))"
    by (auto simp: AList.delete_eq)
  finally show ?thesis .
qed

lemma removeElement_refines:
  assumes wf: "l1_wf c" and e: "(h, it) \<in> set (evictList c)"
  shows "l1_wf (removeElement h c)"
    and "lru (removeElement h c) = lru_remove (it_key it) (lru c)"
    and "evictList (removeElement h c) = AList.delete h (evictList c)"
    and "maxEntries (removeElement h c) = maxEntries c" "maxSizeBytes (removeElement h c) = maxSizeBytes c"
    and "TotalEntries (stats (removeElement h c)) = int (length (items (removeElement h c)))"
    and "UsedSizeBytes (stats (removeElement h c)) = currentBytes (removeElement h c)"
proof -
  let ?c = "removeElement h c"
  have it: "elem_item c h = Some it" using wf e by (rule l1_wf_elem_item)
  have mem: "it \<in> set (lru c)" using e by (rule lru_mem)
  note bounds = total_bytes_remove_bounds[OF wf mem]
  show el: "evictList ?c = AList.delete h (evictList c)"
    and "maxEntries ?c = maxEntries c" "maxSizeBytes ?c = maxSizeBytes c"
    and "TotalEntries (stats ?c) = int (length (items ?c))"
    and "UsedSizeBytes (stats ?c) = currentBytes ?c"
    by (simp_all add: removeElement_def it storeUsage_def)
  show lru: "lru ?c = lru_remove (it_key it) (lru c)"
    by (simp add: lru_def[of ?c] el lru_delete_handle[OF wf e])
  have cur: "currentBytes ?c = total_bytes (lru ?c)"
    by (simp add: lru bounds) (simp add: removeElement_def it storeUsage_def bounds)
  have sub: "set (evictList ?c) \<subseteq> set (evictList c)" "set (lru ?c) \<subseteq> set (lru c)"
    by (auto simp: el AList.delete_eq lru lru_remove_def)
  show "l1_wf ?c"
  proof (rule l1_wfI)
    show "set (items ?c) = (\<lambda>e. (elem_key e, fst e)) ` set (evictList ?c)"
      using items_delete_set[OF wf e] by (simp add: removeElement_def it storeUsage_def)
    show "distinct (map fst (evictList ?c))" "distinct (map elem_key (evictList ?c))"
      using wf by (simp_all add: el AList.delete_eq l1_wf_def distinct_map_filter)
    show "distinct (map fst (items ?c))"
      using wf by (simp add: removeElement_def it storeUsage_def l1_wf_def AList.distinct_delete)
    show "total_bytes (lru ?c) < 2 ^ 63"
      using wf bounds l1_wf_sizes_pos[OF wf mem] by (simp add: lru l1_wf_def)
    show "it_sizeBytes x = EstimateEntrySize (it_key x) (it_value x)" if "x \<in> set (lru ?c)" for x
      using wf sub(2) that by (auto simp: l1_wf_def)
    show "fst x < nextHandle ?c" if "x \<in> set (evictList ?c)" for x
      using wf sub(1) that by (auto simp: l1_wf_def removeElement_def it storeUsage_def)
  qed (use wf cur in \<open>simp_all add: l1_wf_def removeElement_def it storeUsage_def\<close>)
qed

lemma delete_last_handle:
  "distinct (map fst es) \<Longrightarrow> es \<noteq> [] \<Longrightarrow> AList.delete (fst (last es)) es = butlast es"
  by (cases es rule: rev_cases) (force simp: AList.delete_eq filter_id_conv)+

lemma l1_wf_countEviction [simp]:
  "l1_wf (countEviction c) = l1_wf c" "lru (countEviction c) = lru c"
  "l1_wf (countMiss c) = l1_wf c" "lru (countMiss c) = lru c"
  "l1_wf (countHit c) = l1_wf c" "lru (countHit c) = lru c"
  "l1_inv (countEviction c) = l1_inv c" "l1_inv (countMiss c) = l1_inv c" "l1_inv (countHit c) = l1_inv c"
  "maxEntries (countEviction c) = maxEntries c" "maxSizeBytes (countEviction c) = maxSizeBytes c"
  "maxEntries (countMiss c) = maxEntries c" "maxSizeBytes (countMiss c) = maxSizeBytes c"
  "maxEntries (countHit c) = maxEntries c" "maxSizeBytes (countHit c) = maxSizeBytes c"
  by (simp_all add: l1_inv_def l1_wf_def lru_def countEviction_def countMiss_def countHit_def)

text \<open>What one eviction keeps: the limits, the usage gauges in step with the contents.\<close>

definition l1_stats_ok :: "L1Cache \<Rightarrow> bool" where
  "l1_stats_ok c \<longleftrightarrow>
     TotalEntries (stats c) = int (length (items c)) \<and> UsedSizeBytes (stats c) = currentBytes c"

lemma evictOldest_refines:
  assumes wf: "l1_wf c" and ne: "evictList c \<noteq> []"
  shows "l1_wf (evictOldest c)" "lru (evictOldest c) = butlast (lru c)"
    "maxEntries (evictOldest c) = maxEntries c" "maxSizeBytes (evictOldest c) = maxSizeBytes c"
    "l1_stats_ok (evictOldest c)"
proof -
  obtain h it where last: "last (evictList c) = (h, it)" by fastforce
  have mem: "(h, it) \<in> set (evictList c)" using last ne last_in_set by metis
  have eq: "evictOldest c = countEviction (removeElement h c)"
    using ne last by (cases "evictList c") (simp_all add: evictOldest_def)
  note rem = removeElement_refines[OF wf mem]
  have "evictList (removeElement h c) = butlast (evictList c)"
    using rem(3) delete_last_handle[of "evictList c"] wf ne last by (simp add: l1_wf_def)
  then show "lru (evictOldest c) = butlast (lru c)"
    by (simp add: eq) (simp add: lru_def map_butlast)
  show "l1_wf (evictOldest c)" "maxEntries (evictOldest c) = maxEntries c"
    "maxSizeBytes (evictOldest c) = maxSizeBytes c"
    using rem by (simp_all add: eq)
  show "l1_stats_ok (evictOldest c)"
    using rem(6,7) by (simp add: eq l1_stats_ok_def countEviction_def)
qed

lemma lru_Nil_iff: "lru c = [] \<longleftrightarrow> evictList c = []"
  by (simp add: lru_def)

lemma currentBytes_butlast:
  assumes "l1_wf c" "l1_wf d" "lru d = butlast (lru c)"
  shows "currentBytes d \<le> currentBytes c"
proof (cases "lru c = []")
  case False
  then have "total_bytes (lru c) = total_bytes (butlast (lru c)) + it_sizeBytes (last (lru c))"
    by (metis append_butlast_last_id total_bytes_simps(2,3) add.right_neutral total_bytes_simps(1))
  moreover have "0 < it_sizeBytes (last (lru c))"
    using assms(1) False by (intro l1_wf_sizes_pos) auto
  ultimately show ?thesis using assms by (simp add: l1_wf_def)
qed (use assms in \<open>simp add: l1_wf_def\<close>)

lemma evictWhile_refines:
  assumes "l1_wf c"
    and "\<And>d. l1_wf d \<Longrightarrow> maxEntries d = maxEntries c \<Longrightarrow> maxSizeBytes d = maxSizeBytes c \<Longrightarrow>
           currentBytes d \<le> currentBytes c \<Longrightarrow> cond d = (\<not> fits (lru d))"
  shows "l1_wf (evictWhile cond c) \<and> lru (evictWhile cond c) = lru_trim fits (lru c) \<and>
    maxEntries (evictWhile cond c) = maxEntries c \<and> maxSizeBytes (evictWhile cond c) = maxSizeBytes c \<and>
    (l1_stats_ok c \<longrightarrow> l1_stats_ok (evictWhile cond c))"
  using assms
proof (induction cond c rule: evictWhile.induct)
  case (1 cond c)
  show ?case
  proof (cases "cond c \<and> evictList c \<noteq> []")
    case True
    note ev = evictOldest_refines[OF "1.prems"(1)]
    have nf: "\<not> fits (lru c)" using True "1.prems" by blast
    have le: "currentBytes (evictOldest c) \<le> currentBytes c"
      using "1.prems"(1) ev True by (intro currentBytes_butlast) auto
    from nf have "lru_trim fits (lru c) = lru_trim fits (butlast (lru c))"
      using True by (simp add: lru_trim.simps[of fits "lru c"] lru_Nil_iff)
    moreover have "evictWhile cond c = evictWhile cond (evictOldest c)"
      using True by (simp add: evictWhile.simps[of cond c])
    ultimately show ?thesis using "1.IH"[OF True] True ev "1.prems"(2) le by simp
  next
    case False
    then have "evictWhile cond c = c" by (subst evictWhile.simps) (simp only: if_False)
    moreover have "lru_trim fits (lru c) = lru c"
      using False "1.prems" by (subst lru_trim.simps) (auto simp: lru_Nil_iff)
    ultimately show ?thesis using "1.prems" by simp
  qed
qed

text \<open>The front item of a list whose other items are trimmed: trimming the whole list under the
  limits is trimming the rest under what the front item leaves.\<close>

lemma lru_trim_Cons:
  assumes "fits [x]"
  shows "lru_trim fits (x # xs) = x # lru_trim (\<lambda>ys. fits (x # ys)) xs"
proof (induction xs rule: rev_induct)
  case Nil
  with assms show ?case by (simp add: lru_trim.simps)
next
  case (snoc y ys)
  show ?case
  proof (cases "fits (x # ys @ [y])")
    case True
    then show ?thesis by (simp add: lru_trim_id)
  next
    case False
    then have "lru_trim fits (x # ys @ [y]) = lru_trim fits (x # ys)"
      by (subst lru_trim.simps) (simp add: butlast_append)
    moreover from False have "lru_trim (\<lambda>ys. fits (x # ys)) (ys @ [y]) = lru_trim (\<lambda>ys. fits (x # ys)) ys"
      by (subst lru_trim.simps) (simp add: butlast_append)
    ultimately show ?thesis using snoc by simp
  qed
qed

subsection \<open>The operations refine the abstract cache\<close>

lemma lru_find_Some:
  assumes "l1_wf c" "(h, it) \<in> set (evictList c)"
  shows "lru_find (it_key it) (lru c) = Some it"
proof -
  have "lru_find (it_key it) (lru c) \<noteq> None"
    using lru_mem[OF assms(2)] by (auto simp: lru_find_def find_None_iff)
  then obtain x where x: "lru_find (it_key it) (lru c) = Some x" by blast
  then have "x \<in> set (lru c)" "it_key x = it_key it"
    unfolding lru_find_def by (metis (mono_tags, lifting) find_Some_iff_mem)+
  with lru_mem[OF assms(2)] l1_wf_keys[OF assms(1)] have "x = it"
    by (metis distinct_key_unique)
  with x show ?thesis by simp
qed

lemma lru_find_None: "lru_find k its = None \<longleftrightarrow> k \<notin> it_key ` set its"
  by (auto simp: lru_find_def find_None_iff)

text \<open>The two outcomes of the map lookup, with the element the map points to.\<close>

lemma l1_lookup_cases:
  assumes "l1_wf c"
  obtains (absent) "map_of (items c) k = None" "lru_find k (lru c) = None"
  | (present) h it where "map_of (items c) k = Some h" "elem_item c h = Some it" "it_key it = k"
      "(h, it) \<in> set (evictList c)" "lru_find k (lru c) = Some it"
proof (cases "map_of (items c) k")
  case None
  with assms show ?thesis by (intro absent) (simp_all add: l1_wf_lookup_None lru_find_None)
next
  case (Some h)
  then obtain it where it: "(h, it) \<in> set (evictList c)" "it_key it = k"
    using l1_wf_lookup[OF assms] by blast
  with assms Some show ?thesis
    using lru_find_Some[OF assms it(1)] l1_wf_elem_item[OF assms it(1)] by (intro present) auto
qed

lemma MoveToFront_eq:
  "distinct (map fst es) \<Longrightarrow> (h, it) \<in> set es \<Longrightarrow> MoveToFront h es = (h, it) # AList.delete h es"
  by (simp add: MoveToFront_def)

lemma set_MoveToFront:
  assumes "distinct (map fst es)" "(h, it) \<in> set es"
  shows "set (MoveToFront h es) = set es"
proof -
  have "fst e = h \<Longrightarrow> e \<in> set es \<Longrightarrow> e = (h, it)" for e
    using distinct_key_unique[OF assms(1) _ assms(2), of e] by simp
  then show ?thesis using assms by (auto simp: MoveToFront_eq AList.delete_eq)
qed

lemma distinct_map_MoveToFront:
  assumes "distinct (map fst es)" "(h, it) \<in> set es" "distinct (map f es)"
  shows "distinct (map f (MoveToFront h es))"
proof -
  have "card (set (MoveToFront h es)) = length (MoveToFront h es)"
  proof -
    have "distinct (MoveToFront h es)"
      using assms by (auto simp: MoveToFront_eq AList.delete_eq distinct_map)
    then show ?thesis by (rule distinct_card)
  qed
  then have "distinct (MoveToFront h es)" by (rule card_distinct)
  with assms show ?thesis by (simp add: distinct_map set_MoveToFront)
qed

lemma total_bytes_mset: "mset xs = mset ys \<Longrightarrow> total_bytes xs = total_bytes ys"
  by (metis total_bytes_def mset_map sum_mset_sum_list)

lemma lru_MoveToFront:
  assumes "l1_wf c" "(h, it) \<in> set (evictList c)"
  shows "map snd (MoveToFront h (evictList c)) = it # lru_remove (it_key it) (lru c)"
  using assms lru_delete_handle[OF assms] MoveToFront_eq[of "evictList c" h it]
  by (simp add: l1_wf_def)

lemma l1_wf_touch:
  assumes wf: "l1_wf c" and e: "(h, it) \<in> set (evictList c)"
  shows "l1_wf (c\<lparr> evictList := MoveToFront h (evictList c) \<rparr>)" (is "l1_wf ?c")
proof -
  have d: "distinct (map fst (evictList c))" using wf by (simp add: l1_wf_def)
  have sm: "set (MoveToFront h (evictList c)) = set (evictList c)"
    using d e by (rule set_MoveToFront)
  have lru: "lru ?c = it # lru_remove (it_key it) (lru c)"
    using lru_MoveToFront[OF wf e] by (simp add: lru_def)
  have tb: "total_bytes (lru ?c) = total_bytes (lru c)"
    using total_bytes_remove[OF l1_wf_keys[OF wf] lru_mem[OF e]] by (simp add: lru)
  have sl: "set (lru ?c) = set (lru c)" by (simp add: lru_def sm)
  show ?thesis
  proof (rule l1_wfI)
    show "distinct (map fst (evictList ?c))" "distinct (map elem_key (evictList ?c))"
      using wf by (auto intro!: distinct_map_MoveToFront[OF d e] simp: l1_wf_def)
  qed (use wf sm tb sl in \<open>auto simp: l1_wf_def\<close>)
qed

lemma Get_refines:
  assumes "l1_inv c"
  shows "l1_inv (snd (Get now k c))"
    "(fst (Get now k c), lru (snd (Get now k c))) = lru_get now k (lru c)"
proof -
  have wf: "l1_wf c" using assms by (simp add: l1_inv_def)
  have goal: "l1_inv (snd (Get now k c)) \<and>
      (fst (Get now k c), lru (snd (Get now k c))) = lru_get now k (lru c)"
  proof (cases rule: l1_lookup_cases[OF wf, of k, case_names absent present])
    case absent
    then show ?thesis using assms by (simp add: Get_def lru_get_def)
  next
    case (present h it)
    note rem = removeElement_refines[OF wf present(4)]
    have len: "length (items (removeElement h c)) \<le> length (items c)"
      using rem(1,3) wf by (simp add: l1_wf_items_length AList.length_delete_le)
    have bytes: "currentBytes (removeElement h c) \<le> currentBytes c"
      using rem(1,2) total_bytes_remove_bounds(2)[OF wf lru_mem[OF present(4)]]
        l1_wf_sizes_pos[OF wf lru_mem[OF present(4)]] by (simp add: l1_wf_def)
    have "l1_inv (removeElement h c)"
      using assms rem len bytes by (auto simp: l1_inv_def)
    moreover have "l1_inv (c\<lparr> evictList := MoveToFront h (evictList c) \<rparr>)"
      using assms l1_wf_touch[OF wf present(4)] by (simp add: l1_inv_def)
    moreover have "lru (c\<lparr> evictList := MoveToFront h (evictList c) \<rparr>) = it # lru_remove k (lru c)"
      using lru_MoveToFront[OF wf present(4)] present(3) by (simp add: lru_def)
    ultimately show ?thesis
      using present rem(2) by (simp add: Get_def lru_get_def)
  qed
  then show "l1_inv (snd (Get now k c))"
    "(fst (Get now k c), lru (snd (Get now k c))) = lru_get now k (lru c)" by simp_all
qed

text \<open>Pushing a fresh entry at the front keeps the representation invariant.\<close>

lemma l1_wf_push:
  assumes wf: "l1_wf c"
    and key: "it_key it \<notin> it_key ` set (lru c)"
    and size: "it_sizeBytes it = EstimateEntrySize (it_key it) (it_value it)"
    and room: "total_bytes (lru c) + it_sizeBytes it < 2 ^ 63"
    and h: "h \<notin> fst ` set (evictList c)" "h < nextHandle d" "nextHandle c \<le> nextHandle d"
    and d: "evictList d = (h, it) # evictList c" "distinct (map fst (items d))"
      "set (items d) = insert (it_key it, h) (set (items c))"
      "currentBytes d = total_bytes (lru c) + it_sizeBytes it"
      "maxEntries d = maxEntries c" "maxSizeBytes d = maxSizeBytes c"
  shows "l1_wf d"
proof (rule l1_wfI)
  have lru: "lru d = it # lru c" by (simp add: lru_def d)
  show "distinct (map fst (evictList d))" using wf h(1) by (simp add: d l1_wf_def)
  show "distinct (map elem_key (evictList d))"
    using wf key by (force simp: d l1_wf_def elem_key_def lru_def image_iff)
  show "set (items d) = (\<lambda>e. (elem_key e, fst e)) ` set (evictList d)"
    using wf by (simp add: d l1_wf_def elem_key_def)
  show "it_sizeBytes x = EstimateEntrySize (it_key x) (it_value x)" if "x \<in> set (lru d)" for x
    using wf that size by (auto simp: lru l1_wf_def)
  show "fst e < nextHandle d" if "e \<in> set (evictList d)" for e
    using that h wf by (auto simp: d(1) l1_wf_def intro: less_le_trans)
  show "currentBytes d = total_bytes (lru d)" "total_bytes (lru d) < 2 ^ 63"
    using room by (simp_all add: lru d)
qed (use wf d in \<open>simp_all add: l1_wf_def\<close>)

lemma alist_update_absent: "k \<notin> fst ` set al \<Longrightarrow> AList.update k v al = al @ [(k, v)]"
  by (induction al) auto

definition fits_limits :: "int \<Rightarrow> int \<Rightarrow> l1Item list \<Rightarrow> bool" where
  "fits_limits maxE maxB its \<longleftrightarrow> int (length its) \<le> maxE \<and> total_bytes its \<le> maxB"

lemma l1_inv_iff:
  "l1_inv c \<longleftrightarrow> l1_wf c \<and> fits_limits (maxEntries c) (maxSizeBytes c) (lru c) \<and> l1_stats_ok c"
proof -
  have "l1_wf c \<Longrightarrow> length (items c) = length (lru c) \<and> currentBytes c = total_bytes (lru c)"
    by (simp add: l1_wf_items_length lru_def) (simp add: l1_wf_def lru_def)
  then show ?thesis by (auto simp: l1_inv_def fits_limits_def l1_stats_ok_def)
qed

text \<open>The loop that makes room for a new entry, and the loop of \<open>evictIfNeeded\<close>.\<close>

definition makeRoom :: "int \<Rightarrow> L1Cache \<Rightarrow> L1Cache" where
  "makeRoom itemSize = evictWhile (\<lambda>c. int (length (items c)) \<ge> maxEntries c
                                         \<or> add64 (currentBytes c) itemSize > maxSizeBytes c)"

definition leaves_room :: "int \<Rightarrow> int \<Rightarrow> int \<Rightarrow> l1Item list \<Rightarrow> bool" where
  "leaves_room maxE maxB sz its \<longleftrightarrow> int (length its) < maxE \<and> total_bytes its + sz \<le> maxB"

lemma l1_wf_bytes: "l1_wf c \<Longrightarrow> currentBytes c = total_bytes (lru c)"
  and l1_wf_bytes_nonneg: "l1_wf c \<Longrightarrow> 0 \<le> currentBytes c"
  and l1_wf_length: "l1_wf c \<Longrightarrow> length (items c) = length (lru c)"
proof -
  assume wf: "l1_wf c"
  show eq: "currentBytes c = total_bytes (lru c)" using wf by (simp add: l1_wf_def)
  show "0 \<le> currentBytes c"
    unfolding eq using l1_wf_sizes_pos[OF wf] by (intro total_bytes_nonneg) (simp add: order.strict_implies_order)
  show "length (items c) = length (lru c)" using wf by (simp add: l1_wf_items_length lru_def)
qed

lemma makeRoom_refines:
  assumes inv: "l1_inv c" and sz: "0 < sz" "sz \<le> maxSizeBytes c"
  shows "l1_wf (makeRoom sz c)" "maxEntries (makeRoom sz c) = maxEntries c"
    "maxSizeBytes (makeRoom sz c) = maxSizeBytes c"
    "lru (makeRoom sz c) = lru_trim (leaves_room (maxEntries c) (maxSizeBytes c) sz) (lru c)"
    "leaves_room (maxEntries c) (maxSizeBytes c) sz (lru (makeRoom sz c))"
    "set (lru (makeRoom sz c)) \<subseteq> set (lru c)"
proof -
  have wf: "l1_wf c" using inv by (simp add: l1_inv_def)
  let ?fits = "leaves_room (maxEntries c) (maxSizeBytes c) sz"
  have "l1_wf (makeRoom sz c) \<and> lru (makeRoom sz c) = lru_trim ?fits (lru c) \<and>
      maxEntries (makeRoom sz c) = maxEntries c \<and> maxSizeBytes (makeRoom sz c) = maxSizeBytes c \<and>
      (l1_stats_ok c \<longrightarrow> l1_stats_ok (makeRoom sz c))"
    unfolding makeRoom_def
  proof (rule evictWhile_refines[OF wf])
    fix d assume d: "l1_wf d" "maxEntries d = maxEntries c" "maxSizeBytes d = maxSizeBytes c"
      "currentBytes d \<le> currentBytes c"
    then have "add64 (currentBytes d) sz = currentBytes d + sz"
      using inv sz l1_wf_bytes_nonneg[OF d(1)]
      by (intro add64_exact) (auto simp: in_i64_def l1_inv_def l1_wf_def)
    with d show "(maxEntries d \<le> int (length (items d)) \<or> maxSizeBytes d < add64 (currentBytes d) sz)
        = (\<not> ?fits (lru d))"
      by (auto simp: leaves_room_def l1_wf_length l1_wf_bytes)
  qed
  then show "l1_wf (makeRoom sz c)" "maxEntries (makeRoom sz c) = maxEntries c"
    "maxSizeBytes (makeRoom sz c) = maxSizeBytes c"
    and lru: "lru (makeRoom sz c) = lru_trim ?fits (lru c)" by blast+
  show "?fits (lru (makeRoom sz c))"
    using lru_trim_fits[of ?fits "lru c"] wf sz by (auto simp: lru l1_wf_def leaves_room_def)
  show "set (lru (makeRoom sz c)) \<subseteq> set (lru c)"
    using lru_trim_prefix[of "lru c" ?fits] by (metis lru set_append Un_upper1)
qed

lemma evictIfNeeded_refines:
  assumes wf: "l1_wf c"
  shows "l1_wf (evictIfNeeded c) \<and>
    lru (evictIfNeeded c) = lru_trim (fits_limits (maxEntries c) (maxSizeBytes c)) (lru c) \<and>
    maxEntries (evictIfNeeded c) = maxEntries c \<and> maxSizeBytes (evictIfNeeded c) = maxSizeBytes c \<and>
    (l1_stats_ok c \<longrightarrow> l1_stats_ok (evictIfNeeded c))"
  unfolding evictIfNeeded_def
  by (rule evictWhile_refines[OF wf]) (auto simp: fits_limits_def l1_wf_length l1_wf_bytes)

lemma Set_new_refines:
  assumes inv: "l1_inv c" and absent: "map_of (items c) k = None"
    and fits: "EstimateEntrySize k v \<le> maxSizeBytes c"
  shows "l1_inv (Set now k v ttl c)"
    "lru (Set now k v ttl c) = lru_set (maxEntries c) (maxSizeBytes c) now k v ttl (lru c)"
proof -
  let ?sz = "EstimateEntrySize k v" let ?it = "new_item now k v ttl"
  define c1 where "c1 = makeRoom ?sz c"
  have wf: "l1_wf c" using inv by (simp add: l1_inv_def)
  note c1 = makeRoom_refines[OF inv estimate_pos fits, folded c1_def]
  have k: "k \<notin> it_key ` set (lru c1)" using absent c1(6) wf by (auto simp: l1_wf_lookup_None)
  then have ki: "k \<notin> fst ` set (items c1)"
    using c1(1) by (simp add: l1_wf_lookup_None[symmetric] map_of_eq_None_iff)
  have Set: "Set now k v ttl c = storeUsage (c1\<lparr> nextHandle := Suc (nextHandle c1),
      evictList := (nextHandle c1, ?it) # evictList c1, items := items c1 @ [(k, nextHandle c1)],
      currentBytes := add64 (currentBytes c1) ?sz \<rparr>)"
    using absent fits ki
    by (simp add: Set_def Let_def c1_def makeRoom_def new_item_def alist_update_absent)
  have add: "add64 (currentBytes c1) ?sz = total_bytes (lru c1) + ?sz"
    using c1(5) wf l1_wf_bytes_nonneg[OF c1(1)] l1_wf_bytes[OF c1(1)] estimate_pos[of k v]
    by (simp add: add64_exact in_i64_def l1_wf_def leaves_room_def)
  have wf': "l1_wf (Set now k v ttl c)"
  proof (rule l1_wf_push[OF c1(1), of ?it "nextHandle c1"])
    show "nextHandle c1 \<notin> fst ` set (evictList c1)" using c1(1) by (auto simp: l1_wf_def)
    show "total_bytes (lru c1) + it_sizeBytes ?it < 2 ^ 63"
      using c1(5) wf by (simp add: new_item_def l1_wf_def leaves_room_def)
    show "distinct (map fst (items (Set now k v ttl c)))"
      using c1(1) ki by (simp add: Set storeUsage_def l1_wf_def)
  qed (use k add in \<open>simp_all add: Set storeUsage_def new_item_def\<close>)
  have lru': "lru (Set now k v ttl c) = ?it # lru c1"
    and lim: "maxEntries (Set now k v ttl c) = maxEntries c" "maxSizeBytes (Set now k v ttl c) = maxSizeBytes c"
    and st: "l1_stats_ok (Set now k v ttl c)"
    by (simp_all add: Set storeUsage_def lru_def l1_stats_ok_def c1)
  have "lru_remove k (lru c) = lru c"
    using absent wf by (intro lru_remove_absent) (simp add: l1_wf_lookup_None)
  then show "lru (Set now k v ttl c) = lru_set (maxEntries c) (maxSizeBytes c) now k v ttl (lru c)"
    using fits unfolding lru' c1(4) by (simp add: lru_set_def Let_def new_item_def leaves_room_def[abs_def])
  show "l1_inv (Set now k v ttl c)"
    unfolding l1_inv_iff lru' lim using wf' st c1(5)
    by (simp add: fits_limits_def new_item_def leaves_room_def)
qed

text \<open>The state after an in-place update and before \<open>evictIfNeeded\<close>.\<close>

definition l1_rewrite :: "nat \<Rightarrow> l1Item \<Rightarrow> l1Item \<Rightarrow> L1Cache \<Rightarrow> L1Cache" where
  "l1_rewrite h it new c =
     (let b = currentBytes c - it_sizeBytes it + it_sizeBytes new
      in c\<lparr> currentBytes := b, stats := (stats c)\<lparr> UsedSizeBytes := b \<rparr>,
            evictList := (h, new) # AList.delete h (evictList c) \<rparr>)"

lemma delete_update_same: "AList.delete h (AList.update h v al) = AList.delete h al"
  by (induction al) (auto simp: AList.delete_eq)

lemma set_delete_insert:
  "distinct (map fst al) \<Longrightarrow> map_of al k = Some h \<Longrightarrow> set al = insert (k, h) (set (AList.delete k al))"
  by (auto simp: AList.delete_eq dest: map_of_SomeD eq_key_imp_eq_value)

lemma l1_rewrite_refines:
  fixes now :: instant and ttl :: duration
  assumes inv: "l1_inv c" and mem: "(h, it) \<in> set (evictList c)"
    and fits: "EstimateEntrySize (it_key it) v \<le> maxSizeBytes c"
  defines "d \<equiv> l1_rewrite h it (new_item now (it_key it) v ttl) c"
  shows "l1_wf d" "lru d = new_item now (it_key it) v ttl # lru_remove (it_key it) (lru c)"
    "l1_stats_ok d" "maxEntries d = maxEntries c" "maxSizeBytes d = maxSizeBytes c"
proof -
  have wf: "l1_wf c" using inv by (simp add: l1_inv_def)
  let ?it = "new_item now (it_key it) v ttl"
  have look: "map_of (items c) (it_key it) = Some h" "elem_item c h = Some it"
    using l1_wf_lookup[OF wf] l1_wf_elem_item[OF wf mem] mem by auto
  note rem = removeElement_refines[OF wf mem] and tb = total_bytes_remove_bounds[OF wf lru_mem[OF mem]]
  show "l1_wf d"
  proof (rule l1_wf_push[OF rem(1), of ?it h])
    show "it_key ?it \<notin> it_key ` set (lru (removeElement h c))"
      by (auto simp: rem(2) lru_remove_def new_item_def)
    show "h \<notin> fst ` set (evictList (removeElement h c))" by (auto simp: rem(3) AList.delete_eq)
    show "total_bytes (lru (removeElement h c)) + it_sizeBytes ?it < 2 ^ 63"
      using tb inv fits l1_wf_sizes_pos[OF wf lru_mem[OF mem]]
      by (simp add: rem(2) new_item_def l1_inv_def l1_wf_def)
    show "set (items d) = insert (it_key ?it, h) (set (items (removeElement h c)))"
    proof -
      have dist: "distinct (map fst (items c))" using wf by (simp add: l1_wf_def)
      have "items d = items c" "it_key ?it = it_key it"
        "items (removeElement h c) = AList.delete (it_key it) (items c)"
        by (simp_all add: d_def l1_rewrite_def Let_def new_item_def removeElement_def look(2) storeUsage_def)
      then show ?thesis using set_delete_insert[OF dist look(1)] by metis
    qed
    show "h < nextHandle d" using mem wf by (auto simp: d_def l1_rewrite_def Let_def l1_wf_def)
    show "nextHandle (removeElement h c) \<le> nextHandle d"
      by (simp add: d_def l1_rewrite_def Let_def removeElement_def look(2) storeUsage_def)
  qed (use tb rem wf in \<open>simp_all add: d_def l1_rewrite_def Let_def new_item_def l1_wf_def\<close>)
  show "lru d = ?it # lru_remove (it_key it) (lru c)"
    using lru_delete_handle[OF wf mem] by (simp add: d_def l1_rewrite_def Let_def lru_def)
  show "l1_stats_ok d" using inv by (simp add: l1_inv_iff l1_stats_ok_def d_def l1_rewrite_def Let_def)
qed (simp_all add: d_def l1_rewrite_def Let_def)

lemma Set_present_eq:
  assumes inv: "l1_inv c" and mem: "(h, it) \<in> set (evictList c)"
    and fits: "EstimateEntrySize (it_key it) v \<le> maxSizeBytes c"
  shows "Set now (it_key it) v ttl c = evictIfNeeded (l1_rewrite h it (new_item now (it_key it) v ttl) c)"
proof -
  have wf: "l1_wf c" using inv by (simp add: l1_inv_def)
  let ?k = "it_key it" let ?sz = "EstimateEntrySize ?k v" let ?it = "new_item now ?k v ttl"
  have look: "map_of (items c) ?k = Some h" "elem_item c h = Some it"
    using l1_wf_lookup[OF wf] l1_wf_elem_item[OF wf mem] mem by auto
  have front: "MoveToFront h (AList.update h ?it (evictList c)) = (h, ?it) # AList.delete h (evictList c)"
    by (simp add: MoveToFront_def update_conv' delete_update_same)
  note tb = total_bytes_remove_bounds[OF wf lru_mem[OF mem]]
  have a: "add64 (sub64 (currentBytes c) (it_sizeBytes it)) ?sz = currentBytes c - it_sizeBytes it + ?sz"
    unfolding tb(3) using tb inv fits l1_wf_sizes_pos[OF wf lru_mem[OF mem]] estimate_pos[of ?k v]
    by (intro add64_exact) (simp add: in_i64_def l1_inv_def l1_wf_def)
  have b: "add64 (UsedSizeBytes (stats c)) (- it_sizeBytes it) = sub64 (currentBytes c) (it_sizeBytes it)"
    using inv by (simp add: l1_inv_def add64_def sub64_def)
  have "it\<lparr>it_value := v, it_sizeBytes := ?sz, it_expiresAt := if 0 < ttl then Some (now + ttl) else None\<rparr> = ?it"
    by (simp add: new_item_def)
  moreover have "it_sizeBytes ?it = ?sz" by (simp add: new_item_def)
  ultimately show ?thesis
    using fits look a b front by (simp add: Set_def Let_def l1_rewrite_def)
qed

lemma Set_update_refines:
  assumes inv: "l1_inv c" and mem: "(h, it) \<in> set (evictList c)"
    and fits: "EstimateEntrySize (it_key it) v \<le> maxSizeBytes c"
  shows "l1_inv (Set now (it_key it) v ttl c)"
    "lru (Set now (it_key it) v ttl c) =
       lru_set (maxEntries c) (maxSizeBytes c) now (it_key it) v ttl (lru c)"
proof -
  let ?k = "it_key it" let ?it = "new_item now ?k v ttl"
  let ?fits = "fits_limits (maxEntries c) (maxSizeBytes c)"
  define d where "d = l1_rewrite h it ?it c"
  have Set: "Set now ?k v ttl c = evictIfNeeded d"
    unfolding d_def using assms by (rule Set_present_eq)
  note d = l1_rewrite_refines[OF assms, of now ttl, folded d_def]
  have sz: "it_sizeBytes ?it = EstimateEntrySize ?k v" by (simp add: new_item_def)
  have "?fits [?it]" using fits inv by (simp add: fits_limits_def sz l1_inv_def l1_wf_def)
  then have trim: "lru_trim ?fits (lru d) = ?it # lru_trim (\<lambda>ys. ?fits (?it # ys)) (lru_remove ?k (lru c))"
    unfolding d(2) by (rule lru_trim_Cons)
  have pred: "(\<lambda>ys. ?fits (?it # ys)) =
      (\<lambda>xs. int (length xs) < maxEntries c \<and> total_bytes xs + it_sizeBytes ?it \<le> maxSizeBytes c)"
    by (auto simp: fits_limits_def)
  note ev = evictIfNeeded_refines[OF d(1)]
  show "lru (Set now ?k v ttl c) = lru_set (maxEntries c) (maxSizeBytes c) now ?k v ttl (lru c)"
    using fits ev trim by (simp add: Set d pred lru_set_def Let_def sz)
  show "l1_inv (Set now ?k v ttl c)"
    using ev d lru_trim_fits[of ?fits "lru d"] trim by (simp add: Set l1_inv_iff)
qed

lemma Set_refines:
  assumes "l1_inv c"
  shows "l1_inv (Set now k v ttl c)"
    "lru (Set now k v ttl c) = lru_set (maxEntries c) (maxSizeBytes c) now k v ttl (lru c)"
proof -
  have wf: "l1_wf c" using assms by (simp add: l1_inv_def)
  have "l1_inv (Set now k v ttl c) \<and>
      lru (Set now k v ttl c) = lru_set (maxEntries c) (maxSizeBytes c) now k v ttl (lru c)"
  proof (cases "EstimateEntrySize k v \<le> maxSizeBytes c")
    case False
    then show ?thesis using assms by (simp add: Set_def lru_set_def new_item_def)
  next
    case True
    show ?thesis
    proof (cases rule: l1_lookup_cases[OF wf, of k, case_names absent present])
      case absent
      with True assms show ?thesis by (simp add: Set_new_refines)
    next
      case (present h it)
      with True assms show ?thesis using Set_update_refines[OF assms present(4)] by auto
    qed
  qed
  then show "l1_inv (Set now k v ttl c)"
    "lru (Set now k v ttl c) = lru_set (maxEntries c) (maxSizeBytes c) now k v ttl (lru c)" by simp_all
qed

lemma removeElement_inv:
  assumes "l1_inv c" "(h, it) \<in> set (evictList c)"
  shows "l1_inv (removeElement h c)"
proof -
  have wf: "l1_wf c" using assms(1) by (simp add: l1_inv_def)
  note rem = removeElement_refines[OF wf assms(2)]
  have "length (lru_remove (it_key it) (lru c)) \<le> length (lru c)"
    by (simp add: lru_remove_def)
  with assms rem total_bytes_remove_bounds(2)[OF wf lru_mem[OF assms(2)]]
    l1_wf_sizes_pos[OF wf lru_mem[OF assms(2)]] l1_wf_bytes[OF wf]
  show ?thesis by (simp add: l1_inv_iff fits_limits_def l1_stats_ok_def)
qed

lemma Delete_refines:
  assumes "l1_inv c"
  shows "l1_inv (snd (Delete k c))" "lru (snd (Delete k c)) = lru_remove k (lru c)"
    "fst (Delete k c) \<longleftrightarrow> k \<in> it_key ` set (lru c)"
proof -
  have wf: "l1_wf c" using assms by (simp add: l1_inv_def)
  have "l1_inv (snd (Delete k c)) \<and> lru (snd (Delete k c)) = lru_remove k (lru c) \<and>
      (fst (Delete k c) \<longleftrightarrow> k \<in> it_key ` set (lru c))"
  proof (cases rule: l1_lookup_cases[OF wf, of k, case_names absent present])
    case absent
    with assms show ?thesis by (simp add: Delete_def lru_find_None lru_remove_absent)
  next
    case (present h it)
    with assms removeElement_inv[OF assms present(4)] removeElement_refines[OF wf present(4)]
      lru_mem[OF present(4)]
    show ?thesis by (auto simp: Delete_def)
  qed
  then show "l1_inv (snd (Delete k c))" "lru (snd (Delete k c)) = lru_remove k (lru c)"
    "fst (Delete k c) \<longleftrightarrow> k \<in> it_key ` set (lru c)" by simp_all
qed

lemma Clear_refines: "l1_inv c \<Longrightarrow> l1_inv (Clear c)" "lru (Clear c) = []"
  by (simp_all add: Clear_def l1_inv_def l1_wf_def lru_def)

subsection \<open>Histories of operations\<close>

datatype l1_op =
    OpGet instant string
  | OpSet instant string bytes duration
  | OpDelete string
  | OpClear

fun l1_step :: "L1Cache \<Rightarrow> l1_op \<Rightarrow> L1Cache" where
  "l1_step c (OpGet t k) = snd (Get t k c)"
| "l1_step c (OpSet t k v ttl) = Set t k v ttl c"
| "l1_step c (OpDelete k) = snd (Delete k c)"
| "l1_step c OpClear = Clear c"

fun l1_run :: "L1Cache \<Rightarrow> l1_op list \<Rightarrow> L1Cache" where
  "l1_run c [] = c"
| "l1_run c (p # ps) = l1_run (l1_step c p) ps"

lemma l1_inv_step: "l1_inv c \<Longrightarrow> l1_inv (l1_step c p)"
  by (cases p) (simp_all add: Get_refines Set_refines Delete_refines Clear_refines)

lemma l1_inv_run: "l1_inv c \<Longrightarrow> l1_inv (l1_run c ps)"
  by (induction ps arbitrary: c) (simp_all add: l1_inv_step)

lemma evictOldest_limits [simp]:
  "maxEntries (evictOldest c) = maxEntries c" "maxSizeBytes (evictOldest c) = maxSizeBytes c"
  by (auto simp: evictOldest_def countEviction_def removeElement_def storeUsage_def split: list.splits option.splits)

lemma evictWhile_limits [simp]:
  "maxEntries (evictWhile cond c) = maxEntries c" "maxSizeBytes (evictWhile cond c) = maxSizeBytes c"
  by (induction cond c rule: evictWhile.induct; subst evictWhile.simps; simp)+

lemma l1_step_limits [simp]:
  "maxEntries (l1_step c p) = maxEntries c" "maxSizeBytes (l1_step c p) = maxSizeBytes c"
  by (cases p; auto simp: Get_def Set_def Delete_def Clear_def Let_def evictIfNeeded_def countMiss_def
      countHit_def countEviction_def removeElement_def storeUsage_def split: option.splits)+

lemma l1_run_limits [simp]:
  "maxEntries (l1_run c ps) = maxEntries c" "maxSizeBytes (l1_run c ps) = maxSizeBytes c"
  by (induction ps arbitrary: c) simp_all

subsection \<open>The contract of an expiring in-memory cache\<close>

text \<open>\<open>live c t k\<close> is the value a lookup of \<open>k\<close> at time \<open>t\<close> would return.\<close>

locale mem_cache =
  fixes get :: "instant \<Rightarrow> string \<Rightarrow> 'c \<Rightarrow> bytes option \<times> 'c"
    and put :: "instant \<Rightarrow> string \<Rightarrow> bytes \<Rightarrow> duration \<Rightarrow> 'c \<Rightarrow> 'c"
    and del :: "string \<Rightarrow> 'c \<Rightarrow> 'c"
    and clear :: "'c \<Rightarrow> 'c"
    and fits :: "'c \<Rightarrow> string \<Rightarrow> bytes \<Rightarrow> bool"
    and live :: "'c \<Rightarrow> instant \<Rightarrow> string \<Rightarrow> bytes option"
    and inv :: "'c \<Rightarrow> bool"
  assumes inv_get: "inv c \<Longrightarrow> inv (snd (get t k c))"
    and inv_put: "inv c \<Longrightarrow> inv (put t k v ttl c)"
    and inv_del: "inv c \<Longrightarrow> inv (del k c)"
    and inv_clear: "inv c \<Longrightarrow> inv (clear c)"
    and get_live: "inv c \<Longrightarrow> fst (get t k c) = live c t k"
    and get_frame: "inv c \<Longrightarrow> live (snd (get t k c)) u k' = Some w \<Longrightarrow> live c u k' = Some w"
    and live_put: "inv c \<Longrightarrow> fits c k v \<Longrightarrow> ttl \<le> 0 \<or> u \<le> t + ttl \<Longrightarrow> live (put t k v ttl c) u k = Some v"
    and put_sound: "inv c \<Longrightarrow> fits c k v \<Longrightarrow> live (put t k v ttl c) u k = Some w \<Longrightarrow> w = v \<and> (ttl \<le> 0 \<or> u \<le> t + ttl)"
    and put_refused: "inv c \<Longrightarrow> \<not> fits c k v \<Longrightarrow> live (put t k v ttl c) u k' = live c u k'"
    and put_frame: "inv c \<Longrightarrow> k' \<noteq> k \<Longrightarrow> live (put t k v ttl c) u k' = Some w \<Longrightarrow> live c u k' = Some w"
    and live_del: "inv c \<Longrightarrow> live (del k c) u k = None"
    and del_frame: "inv c \<Longrightarrow> k' \<noteq> k \<Longrightarrow> live (del k c) u k' = live c u k'"
    and live_clear: "inv c \<Longrightarrow> live (clear c) u k = None"
begin

fun exec :: "'c \<Rightarrow> l1_op list \<Rightarrow> 'c" where
  "exec c [] = c"
| "exec c (OpGet t k # h) = exec (snd (get t k c)) h"
| "exec c (OpSet t k v ttl # h) = exec (put t k v ttl c) h"
| "exec c (OpDelete k # h) = exec (del k c) h"
| "exec c (OpClear # h) = exec (clear c) h"

text \<open>The last value the cache accepted for each key and that was not deleted since, with the time up to which it may be served.\<close>

fun accepted :: "'c \<Rightarrow> (string \<Rightarrow> (bytes \<times> instant option) option) \<Rightarrow> l1_op list \<Rightarrow> string \<Rightarrow> (bytes \<times> instant option) option" where
  "accepted c g [] = g"
| "accepted c g (OpGet t k # h) = accepted (snd (get t k c)) g h"
| "accepted c g (OpSet t k v ttl # h) =
     accepted (put t k v ttl c) (if fits c k v then g(k := Some (v, if ttl > 0 then Some (t + ttl) else None)) else g) h"
| "accepted c g (OpDelete k # h) = accepted (del k c) (g(k := None)) h"
| "accepted c g (OpClear # h) = accepted (clear c) (\<lambda>_. None) h"

definition valid_at :: "instant \<Rightarrow> bytes \<Rightarrow> (bytes \<times> instant option) option \<Rightarrow> bool" where
  "valid_at u v w \<longleftrightarrow> (\<exists>due. w = Some (v, due) \<and> (case due of None \<Rightarrow> True | Some d \<Rightarrow> u \<le> d))"

lemma coherent:
  assumes "inv c" "\<And>k v. live c u k = Some v \<Longrightarrow> valid_at u v (g k)" "live (exec c h) u k = Some v"
  shows "valid_at u v (accepted c g h k)"
  using assms
proof (induction c h arbitrary: g rule: exec.induct)
  case (1 c)
  then show ?case by simp
next
  case (2 c t k' h)
  then show ?case by (auto intro!: "2.IH" simp: inv_get dest: get_frame)
next
  case (3 c t k' v' ttl h)
  let ?g = "if fits c k' v' then g(k' := Some (v', if ttl > 0 then Some (t + ttl) else None)) else g"
  have "valid_at u v (?g k)" if l: "live (put t k' v' ttl c) u k = Some v" for k v
  proof (cases "fits c k' v'")
    case True
    show ?thesis
    proof (cases "k = k'")
      case eq: True
      then show ?thesis using put_sound[OF 3(2) True l[unfolded eq]] True by (auto simp: valid_at_def)
    next
      case False
      then show ?thesis using 3(3)[OF put_frame[OF 3(2) False l]] True by simp
    qed
  next
    case False
    then show ?thesis using 3(3) l put_refused[OF 3(2) False] by simp
  qed
  then show ?case unfolding accepted.simps using 3 by (intro "3.IH") (simp_all add: inv_put)
next
  case (4 c k' h)
  have "valid_at u v ((g(k' := None)) k)" if "live (del k' c) u k = Some v" for k v
    using 4(2,3) live_del del_frame that by (metis fun_upd_apply option.distinct(1))
  with 4 show ?case by (auto intro!: "4.IH" simp: inv_del)
next
  case (5 c h)
  then show ?case by (auto intro!: "5.IH" simp: inv_clear live_clear)
qed

lemma inv_exec: "inv c \<Longrightarrow> inv (exec c h)"
  by (induction c h rule: exec.induct) (simp_all add: inv_get inv_put inv_del inv_clear)

end

subsection \<open>The LRU tier provides the contract\<close>

definition live_of :: "l1Item list \<Rightarrow> instant \<Rightarrow> string \<Rightarrow> bytes option" where
  "live_of its t k = (case lru_find k its of
      None \<Rightarrow> None
    | Some it \<Rightarrow> if expired t it then None else Some (it_value it))"

definition l1_live :: "L1Cache \<Rightarrow> instant \<Rightarrow> string \<Rightarrow> bytes option" where
  "l1_live c = live_of (lru c)"

definition l1_fits :: "L1Cache \<Rightarrow> string \<Rightarrow> bytes \<Rightarrow> bool" where
  "l1_fits c k v \<longleftrightarrow> EstimateEntrySize k v \<le> maxSizeBytes c"

lemma lru_find_Cons [simp]:
  "lru_find k (it # its) = (if it_key it = k then Some it else lru_find k its)" "lru_find k [] = None"
  by (simp_all add: lru_find_def)

lemma lru_find_remove [simp]:
  "lru_find k (lru_remove k its) = None"
  "k' \<noteq> k \<Longrightarrow> lru_find k' (lru_remove k its) = lru_find k' its"
  by (induction its) (auto simp: lru_find_def lru_remove_def)

lemma lru_find_prefix: "lru_find k xs = Some it \<Longrightarrow> lru_find k (xs @ ys) = Some it"
  by (induction xs) (auto simp: lru_find_def split: if_splits)

lemma lru_find_trim: "lru_find k (lru_trim fits its) = Some it \<Longrightarrow> lru_find k its = Some it"
  using lru_trim_prefix[of its fits] by (metis lru_find_prefix)

lemma lru_find_key: "lru_find k its = Some it \<Longrightarrow> it_key it = k"
  by (induction its) (auto split: if_splits)

lemma expired_mono: "expired t it \<Longrightarrow> t \<le> u \<Longrightarrow> expired u it"
  by (auto simp: expired_def split: option.splits)

lemma live_of_get:
  "fst (lru_get t k its) = live_of its t k"
  "live_of (snd (lru_get t k its)) u k' = Some w \<Longrightarrow> live_of its u k' = Some w"
  by (cases "k' = k"; auto simp: lru_get_def live_of_def lru_find_key split: option.splits if_splits)+

lemma live_of_set:
  assumes "EstimateEntrySize k v \<le> maxB"
  shows "live_of (lru_set maxE maxB t k v ttl its) u k =
      (if ttl > 0 \<and> u > t + ttl then None else Some v)"
    "k' \<noteq> k \<Longrightarrow> live_of (lru_set maxE maxB t k v ttl its) u k' = Some w \<Longrightarrow> live_of its u k' = Some w"
  using assms
  by (auto simp: live_of_def lru_set_def new_item_def expired_def Let_def
      dest!: lru_find_trim split: option.splits if_splits)

lemma live_of_set_oversized:
  "EstimateEntrySize k v > maxB \<Longrightarrow> live_of (lru_set maxE maxB t k v ttl its) = live_of its"
  by (simp add: lru_set_def new_item_def)

interpretation l1: mem_cache Get Set "\<lambda>k c. snd (Delete k c)" Clear l1_fits l1_live l1_inv
proof unfold_locales
  fix c t k v ttl u w and k' :: string assume inv: "l1_inv c"
  have get: "fst (Get t k c) = fst (lru_get t k (lru c))" "lru (snd (Get t k c)) = snd (lru_get t k (lru c))"
    using Get_refines(2)[OF inv, of t k] by (metis fst_conv, metis snd_conv)
  show "fst (Get t k c) = l1_live c t k" by (simp add: get l1_live_def live_of_get(1))
  show "l1_live c u k' = Some w" if "l1_live (snd (Get t k c)) u k' = Some w"
    using that unfolding l1_live_def get by (rule live_of_get(2))
  show "l1_live (Set t k v ttl c) u k = Some v" if "l1_fits c k v" "ttl \<le> 0 \<or> u \<le> t + ttl"
    using that inv by (auto simp: l1_live_def Set_refines live_of_set l1_fits_def)
  show "w = v \<and> (ttl \<le> 0 \<or> u \<le> t + ttl)" if "l1_fits c k v" "l1_live (Set t k v ttl c) u k = Some w"
    using that inv by (auto simp: l1_live_def Set_refines live_of_set l1_fits_def split: if_splits)
  show refused: "l1_live (Set t k v ttl c) u k' = l1_live c u k'" if "\<not> l1_fits c k v" for k'
    using that by (simp add: l1_live_def Set_refines(2)[OF inv] live_of_set_oversized l1_fits_def)
  show "l1_live c u k' = Some w" if "k' \<noteq> k" "l1_live (Set t k v ttl c) u k' = Some w"
  proof (cases "l1_fits c k v")
    case True
    then have a: "EstimateEntrySize k v \<le> maxSizeBytes c" by (simp add: l1_fits_def)
    from that(2) have "live_of (lru_set (maxEntries c) (maxSizeBytes c) t k v ttl (lru c)) u k' = Some w"
      by (simp add: l1_live_def Set_refines(2)[OF inv])
    then show ?thesis unfolding l1_live_def by (rule live_of_set(2)[OF a that(1)])
  next
    case False
    with that(2) show ?thesis by (simp add: refused)
  qed
  show "l1_live (snd (Delete k c)) u k = None"
    using inv by (simp add: l1_live_def Delete_refines live_of_def)
  show "l1_live (snd (Delete k c)) u k' = l1_live c u k'" if "k' \<noteq> k"
    using that inv by (simp add: l1_live_def Delete_refines live_of_def)
  show "l1_live (Clear c) u k = None"
    by (simp add: l1_live_def Clear_refines live_of_def)
qed (simp_all add: Get_refines Set_refines Delete_refines Clear_refines)

lemma l1_exec_eq: "l1.exec c h = l1_run c h"
  by (induction c h rule: l1.exec.induct) simp_all

text \<open>The same for the L1 tier, where acceptance depends on the byte limit alone.\<close>

fun last_accepted :: "int \<Rightarrow> (string \<Rightarrow> (bytes \<times> instant option) option) \<Rightarrow> l1_op list \<Rightarrow> string \<Rightarrow> (bytes \<times> instant option) option" where
  "last_accepted limit g [] = g"
| "last_accepted limit g (OpGet t k # h) = last_accepted limit g h"
| "last_accepted limit g (OpSet t k v ttl # h) = last_accepted limit
     (if EstimateEntrySize k v \<le> limit then g(k := Some (v, if ttl > 0 then Some (t + ttl) else None)) else g) h"
| "last_accepted limit g (OpDelete k # h) = last_accepted limit (g(k := None)) h"
| "last_accepted limit g (OpClear # h) = last_accepted limit (\<lambda>_. None) h"

lemma l1_accepted_eq: "l1.accepted c g h = last_accepted (maxSizeBytes c) g h"
proof (induction h arbitrary: c g)
  case (Cons p h)
  have "maxSizeBytes (l1_step c p) = maxSizeBytes c" by simp
  note same = this
  show ?case
  proof (cases p)
    case (OpSet t k v ttl)
    have "l1_fits c k v \<longleftrightarrow> EstimateEntrySize k v \<le> maxSizeBytes c" by (simp add: l1_fits_def)
    then show ?thesis using Cons same OpSet by simp
  qed (use Cons same in \<open>simp_all add: fun_upd_def\<close>)
qed simp

subsection \<open>Properties\<close>

fun lru_step :: "int \<Rightarrow> int \<Rightarrow> l1Item list \<Rightarrow> l1_op \<Rightarrow> l1Item list" where
  "lru_step maxE maxB its (OpGet t k) = snd (lru_get t k its)"
| "lru_step maxE maxB its (OpSet t k v ttl) = lru_set maxE maxB t k v ttl its"
| "lru_step maxE maxB its (OpDelete k) = lru_remove k its"
| "lru_step maxE maxB its OpClear = []"

lemma l1_step_refines:
  assumes "l1_inv c"
  shows "lru (l1_step c p) = lru_step (maxEntries c) (maxSizeBytes c) (lru c) p"
proof (cases p)
  case (OpGet t k)
  then show ?thesis using Get_refines(2)[OF assms, of t k] by (metis l1_step.simps(1) lru_step.simps(1) snd_conv)
qed (use assms in \<open>simp_all add: Set_refines Delete_refines Clear_refines\<close>)

lemma l1_run_refines:
  "l1_inv c \<Longrightarrow> lru (l1_run c ps) = foldl (lru_step (maxEntries c) (maxSizeBytes c)) (lru c) ps"
proof (induction ps arbitrary: c)
  case (Cons p ps)
  then show ?case using Cons.IH[OF l1_inv_step[OF Cons.prems], of p] by (simp add: l1_step_refines)
qed simp

text \<open>C28: whatever sequence of Get, Set, Delete and Clear calls is made on a fresh L1 cache
  (byte limit below \<open>2^62\<close>), the number of entries and the number of bytes stay within the
  configured limits, and the usage gauges equal the real contents.\<close>

theorem l1_stays_within_limits:
  assumes "maxB < 2 ^ 62"
  shows "let c = l1_run (NewL1Cache maxE maxB) ps in
    Len c \<le> maxEntries c \<and> currentBytes c \<le> maxSizeBytes c \<and>
    currentBytes c = total_bytes (lru c) \<and> Len c = int (length (lru c)) \<and>
    TotalEntries (Stats c) = Len c \<and> UsedSizeBytes (Stats c) = currentBytes c"
  using l1_inv_run[OF l1_new_inv[OF assms], of maxE ps]
  unfolding Let_def by (auto simp: l1_inv_def Len_def Stats_def l1_wf_bytes l1_wf_length)

theorem l1_stays_within_limits_witness:
  "Len (l1_run (NewL1Cache 2 400) [OpSet 0 ''a'' [1] 0, OpSet 1 ''b'' [2] 0, OpSet 2 ''c'' [3] 0]) \<le> 2"
  using l1_stays_within_limits[of 400 2 "[OpSet 0 ''a'' [1] 0, OpSet 1 ''b'' [2] 0, OpSet 2 ''c'' [3] 0]"]
  unfolding Let_def l1_run_limits by (simp add: NewL1Cache_def del: l1_run.simps)

text \<open>C27: the L1 cache (map, linked list, byte counter) implements the abstract LRU list: after any
  history its items are those of the abstract cache in the same recency order, and a lookup
  answers as the abstract lookup does.\<close>

theorem l1_implements_lru:
  fixes maxE maxB :: int and ps :: "l1_op list"
  assumes "maxB < 2 ^ 62"
  defines "c0 \<equiv> NewL1Cache maxE maxB"
  defines "c \<equiv> l1_run c0 ps"
    and "its \<equiv> foldl (lru_step (maxEntries c0) (maxSizeBytes c0)) [] ps"
  shows "lru c = its \<and> fst (Get t k c) = fst (lru_get t k its)"
proof -
  have inv: "l1_inv c0" unfolding c0_def using assms(1) by (rule l1_new_inv)
  have "lru c0 = []" by (simp add: c0_def NewL1Cache_def Let_def lru_def)
  then have eq: "lru c = its" using l1_run_refines[OF inv, of ps] by (simp add: c_def its_def)
  have "l1_inv c" unfolding c_def using inv by (rule l1_inv_run)
  from Get_refines(2)[OF this, of t k] eq show ?thesis by (metis fst_conv)
qed

theorem l1_implements_lru_witness:
  "fst (Get 5 ''a'' (l1_run (NewL1Cache 2 400) [OpSet 0 ''a'' [7] 0])) = Some [7]"
  using l1_implements_lru[of 400 2 "[OpSet 0 ''a'' [7] 0]" 5 "''a''"]
  by (simp add: NewL1Cache_def lru_set_def lru_remove_def lru_trim.simps lru_get_def new_item_def
      EstimateEntrySize_def expired_def)

text \<open>C29: the L1 cache never serves a stale value. After any history of operations, read off a clock that may even go back, on a fresh cache
  with a byte limit below \<open>2 ^ 62\<close>: a lookup that finds a value finds the one the cache accepted last for the key, not
  deleted since and not past its time to live. The cache accepts every value but one that alone exceeds the byte limit: that one is
  dropped and the previous value stays.\<close>

theorem l1_never_stale:
  assumes "maxB < 2 ^ 62" and "fst (Get u k (l1_run (NewL1Cache maxE maxB) ps)) = Some v"
  shows "\<exists>due. last_accepted (maxSizeBytes (NewL1Cache maxE maxB)) (\<lambda>_. None) ps k = Some (v, due) \<and>
    (case due of None \<Rightarrow> True | Some d \<Rightarrow> u \<le> d)"
proof -
  have inv: "l1_inv (NewL1Cache maxE maxB)" using assms(1) by (rule l1_new_inv)
  have "l1_live (NewL1Cache maxE maxB) u k' = None" for k'
    by (simp add: l1_live_def live_of_def lru_def NewL1Cache_def Let_def)
  moreover have "l1_live (l1.exec (NewL1Cache maxE maxB) ps) u k = Some v"
    using assms(2) l1.get_live[OF l1_inv_run[OF inv]] by (simp add: l1_exec_eq)
  ultimately show ?thesis
    using l1.coherent[OF inv, of u "\<lambda>_. None" ps k v] by (simp add: l1_accepted_eq l1.valid_at_def)
qed

theorem l1_never_stale_witness:
  "last_accepted 400 (\<lambda>_. None) [OpSet 0 ''a'' [7] 0, OpSet 1 ''a'' [8] 9, OpSet 2 ''a'' (replicate 400 0) 0] ''a'' = Some ([8], Some 10)"
proof -
  let ?ps = "[OpSet 0 ''a'' [7] 0, OpSet 1 ''a'' [8] 9, OpSet 2 ''a'' (replicate 400 0) 0]"
  have "fst (Get 5 ''a'' (l1_run (NewL1Cache 2 400) ?ps)) = Some [8]" by code_simp
  then have "\<exists>due. last_accepted (maxSizeBytes (NewL1Cache 2 400)) (\<lambda>_. None) ?ps ''a'' = Some ([8], due) \<and>
    (case due of None \<Rightarrow> True | Some d \<Rightarrow> 5 \<le> d)" by (intro l1_never_stale) simp_all
  then show ?thesis by (simp add: NewL1Cache_def EstimateEntrySize_def)
qed

text \<open>Storing an entry that fits evicts no more than it must: the new entry is the most recent one,
  and behind it stands the longest most-recently-used run of the other entries that the limits
  allow.\<close>

theorem l1_set_keeps_most_recent:
  assumes "l1_inv c" "EstimateEntrySize k v \<le> maxSizeBytes c"
  shows "\<exists>kept dropped. lru (Set now k v ttl c) = new_item now k v ttl # kept \<and>
    lru_remove k (lru c) = kept @ dropped \<and>
    (\<forall>xs ys. lru_remove k (lru c) = xs @ ys \<and>
        leaves_room (maxEntries c) (maxSizeBytes c) (EstimateEntrySize k v) xs \<longrightarrow> length xs \<le> length kept)"
proof -
  let ?fits = "leaves_room (maxEntries c) (maxSizeBytes c) (EstimateEntrySize k v)"
  let ?kept = "lru_trim ?fits (lru_remove k (lru c))"
  have "lru (Set now k v ttl c) = new_item now k v ttl # ?kept"
    using assms by (simp add: Set_refines lru_set_def new_item_def leaves_room_def[abs_def])
  moreover obtain dropped where "lru_remove k (lru c) = ?kept @ dropped"
    using lru_trim_prefix by blast
  ultimately show ?thesis using lru_trim_maximal[of _ _ _ ?fits] by blast
qed

theorem l1_set_keeps_most_recent_witness:
  "\<exists>kept dropped. lru (Set 3 ''b'' [1] 0 (l1_run (NewL1Cache 2 400) [OpSet 0 ''a'' [7] 0])) =
     new_item 3 ''b'' [1] 0 # kept \<and>
     lru_remove ''b'' (lru (l1_run (NewL1Cache 2 400) [OpSet 0 ''a'' [7] 0])) = kept @ dropped"
proof -
  have "l1_inv (l1_run (NewL1Cache 2 400) [OpSet 0 ''a'' [7] 0])"
    by (intro l1_inv_run l1_new_inv) simp
  then show ?thesis
    using l1_set_keeps_most_recent[of "l1_run (NewL1Cache 2 400) [OpSet 0 ''a'' [7] 0]" "''b''" "[1]" 3 0]
    by (auto simp: EstimateEntrySize_def l1_run_limits NewL1Cache_def simp del: l1_run.simps)
qed

end
