(* ===== verification/TwoTierCache.thy ===== *)
theory TwoTierCache
  imports CircuitBreaker L1Cache
begin

section \<open>Two-tier cache (services/cache/cache.go, health.go)\<close>

text \<open>
  L1 in memory in front of Redis, with the circuit breaker between them. Redis and its client
  library are not part of the repository: the client is a parameter \<open>rc\<close>, a record of
  functions on an arbitrary server state, one per command the code sends. A command answers
  with a value, \<open>redis.Nil\<close> or an error, and moves the server to a new state; the server state
  is \<open>None\<close> when the cache was built with a nil client. The successive readings of
  \<open>time.Now()\<close> inside one call are \<open>clk 0\<close>, \<open>clk 1\<close> and so on. Each method is one atomic
  step (concurrent callers interleave whole calls). The \<open>SCAN\<close> loop of \<open>InvalidatePrefix\<close>
  runs until the server returns cursor 0, so it is a \<open>partial_function\<close>: \<open>None\<close> is a loop
  that never ends.
\<close>

datatype redis_reply = RVal bytes | RNil | RErr string

record 'r redis_client =
  rd_get :: "string \<Rightarrow> 'r \<Rightarrow> redis_reply \<times> 'r"
  rd_set :: "string \<Rightarrow> bytes \<Rightarrow> duration \<Rightarrow> 'r \<Rightarrow> string option \<times> 'r"
  rd_del :: "string list \<Rightarrow> 'r \<Rightarrow> string option \<times> 'r"
  rd_scan :: "nat \<Rightarrow> string \<Rightarrow> int \<Rightarrow> 'r \<Rightarrow> (string + string list \<times> nat) \<times> 'r"
  rd_ping :: "'r \<Rightarrow> string option \<times> 'r"

record 'r TwoTierCache =
  tt_l1 :: L1Cache
  tt_redis :: "'r option"
  tt_cb :: CircuitBreaker
  tt_fallback :: bool

definition NewTwoTierCache ::
  "instant \<Rightarrow> int \<Rightarrow> int \<Rightarrow> 'r option \<Rightarrow> int \<Rightarrow> duration \<Rightarrow> bool \<Rightarrow> 'r TwoTierCache" where
  "NewTwoTierCache now maxL1Entries maxL1Bytes redisClient cbThreshold cbTimeout fallbackEnabled =
     \<lparr> tt_l1 = NewL1Cache maxL1Entries maxL1Bytes, tt_redis = redisClient,
       tt_cb = NewCircuitBreaker now cbThreshold cbTimeout, tt_fallback = fallbackEnabled \<rparr>"

text \<open>The guard \<open>c.redis != nil && c.circuitBreaker.AllowExecution()\<close>: the server to talk to, if
  any, and the cache with the breaker as the question left it.\<close>

definition redis_allowed :: "instant \<Rightarrow> 'r TwoTierCache \<Rightarrow> 'r option \<times> 'r TwoTierCache" where
  "redis_allowed now c =
     (case tt_redis c of
        None \<Rightarrow> (None, c)
      | Some r \<Rightarrow>
          (let (ok, cb) = AllowExecution now (tt_cb c); c1 = c\<lparr> tt_cb := cb \<rparr>
           in if ok then (Some r, c1) else (None, c1)))"

definition tt_Get :: "'r redis_client \<Rightarrow> (nat \<Rightarrow> instant) \<Rightarrow> string \<Rightarrow> 'r TwoTierCache \<Rightarrow>
    (bytes option \<times> string option) \<times> 'r TwoTierCache" where
  "tt_Get rc clk key c =
     (case Get (clk 0) key (tt_l1 c) of
        (Some val, l1) \<Rightarrow> ((Some val, None), c\<lparr> tt_l1 := l1 \<rparr>)
      | (None, l1) \<Rightarrow>
          (case redis_allowed (clk 1) (c\<lparr> tt_l1 := l1 \<rparr>) of
             (None, c1) \<Rightarrow> ((None, None), c1)
           | (Some r, c1) \<Rightarrow>
               (case rd_get rc key r of
                  (RVal val, r') \<Rightarrow>
                    ((Some val, None),
                     c1\<lparr> tt_redis := Some r', tt_cb := RecordSuccess (clk 2) (tt_cb c1),
                         tt_l1 := Set (clk 3) key val (1 * Minute) (tt_l1 c1) \<rparr>)
                | (RNil, r') \<Rightarrow> ((None, None), c1\<lparr> tt_redis := Some r' \<rparr>)
                | (RErr e, r') \<Rightarrow>
                    ((None, if tt_fallback c then None else Some e),
                     c1\<lparr> tt_redis := Some r', tt_cb := RecordFailure (clk 2) (tt_cb c1) \<rparr>))))"

text \<open>The outcome of a write command: count it in the breaker and report the error unless in
  fallback mode (the common tail of \<open>Set\<close> and \<open>Delete\<close>).\<close>

definition settle :: "instant \<Rightarrow> string option \<times> 'r \<Rightarrow> 'r TwoTierCache \<Rightarrow>
    string option \<times> 'r TwoTierCache" where
  "settle now reply c =
     (case reply of
        (Some e, r') \<Rightarrow>
          (if \<not> tt_fallback c then Some e else None,
           c\<lparr> tt_redis := Some r', tt_cb := RecordFailure now (tt_cb c) \<rparr>)
      | (None, r') \<Rightarrow>
          (None, c\<lparr> tt_redis := Some r', tt_cb := RecordSuccess now (tt_cb c) \<rparr>))"

definition tt_Set :: "'r redis_client \<Rightarrow> (nat \<Rightarrow> instant) \<Rightarrow> string \<Rightarrow> bytes \<Rightarrow> duration \<Rightarrow>
    'r TwoTierCache \<Rightarrow> string option \<times> 'r TwoTierCache" where
  "tt_Set rc clk key val ttl c =
     (case redis_allowed (clk 1) (c\<lparr> tt_l1 := Set (clk 0) key val ttl (tt_l1 c) \<rparr>) of
        (None, c1) \<Rightarrow> (None, c1)
      | (Some r, c1) \<Rightarrow> settle (clk 2) (rd_set rc key val ttl r) c1)"

definition tt_Delete :: "'r redis_client \<Rightarrow> (nat \<Rightarrow> instant) \<Rightarrow> string list \<Rightarrow>
    'r TwoTierCache \<Rightarrow> string option \<times> 'r TwoTierCache" where
  "tt_Delete rc clk keys c =
     (case redis_allowed (clk 0) (c\<lparr> tt_l1 := fold (\<lambda>k l1. snd (Delete k l1)) keys (tt_l1 c) \<rparr>) of
        (None, c1) \<Rightarrow> (None, c1)
      | (Some r, c1) \<Rightarrow> settle (clk 1) (rd_del rc keys r) c1)"

partial_function (option) scan_loop ::
  "'r redis_client \<Rightarrow> string \<Rightarrow> nat \<Rightarrow> 'r \<Rightarrow> (string option \<times> 'r) option" where
  "scan_loop rc pat cursor r =
     (case rd_scan rc cursor pat 100 r of
        (Inl e, r1) \<Rightarrow> Some (Some e, r1)
      | (Inr (keys, cursor'), r1) \<Rightarrow>
          (let r2 = (if keys \<noteq> [] then snd (rd_del rc keys r1) else r1)
           in if cursor' = 0 then Some (None, r2) else scan_loop rc pat cursor' r2))"

definition tt_InvalidatePrefix :: "'r redis_client \<Rightarrow> (nat \<Rightarrow> instant) \<Rightarrow> string \<Rightarrow>
    'r TwoTierCache \<Rightarrow> (string option \<times> 'r TwoTierCache) option" where
  "tt_InvalidatePrefix rc clk prefix c =
     (case redis_allowed (clk 0) (c\<lparr> tt_l1 := Clear (tt_l1 c) \<rparr>) of
        (None, c1) \<Rightarrow> Some (None, c1)
      | (Some r, c1) \<Rightarrow>
          (case scan_loop rc (prefix @ ''*'') 0 r of
             None \<Rightarrow> None
           | Some (Some e, r') \<Rightarrow>
               Some (Some e, c1\<lparr> tt_redis := Some r', tt_cb := RecordFailure (clk 1) (tt_cb c1) \<rparr>)
           | Some (None, r') \<Rightarrow>
               Some (None, c1\<lparr> tt_redis := Some r', tt_cb := RecordSuccess (clk 1) (tt_cb c1) \<rparr>)))"

subsection \<open>Health probe\<close>

datatype HealthStatus = StatusHealthy | StatusDegraded | StatusDown

record CacheHealth =
  ch_Status :: HealthStatus
  ch_RedisState :: string
  ch_CircuitState :: CircuitState
  ch_PingDuration :: "duration option"
  ch_ErrorMessage :: string
  ch_Timestamp :: instant

definition CheckRedisHealth :: "'r redis_client \<Rightarrow> (nat \<Rightarrow> instant) \<Rightarrow> 'r option \<Rightarrow>
    CircuitBreaker option \<Rightarrow> CacheHealth \<times> 'r option \<times> CircuitBreaker option" where
  "CheckRedisHealth rc clk client cb =
     (let res = \<lparr> ch_Status = StatusDegraded, ch_RedisState = '''',
                  ch_CircuitState = (case cb of Some b \<Rightarrow> State b | None \<Rightarrow> StateClosed),
                  ch_PingDuration = None, ch_ErrorMessage = '''', ch_Timestamp = clk 0 \<rparr>
      in case client of
           None \<Rightarrow>
             (res\<lparr> ch_RedisState := ''NOT_CONFIGURED'',
                   ch_ErrorMessage := ''Redis client is nil; running in in-memory degraded mode'' \<rparr>,
              client, cb)
         | Some r \<Rightarrow>
             if (case cb of Some b \<Rightarrow> State b = StateOpen | None \<Rightarrow> False)
             then (res\<lparr> ch_RedisState := ''CIRCUIT_OPEN'',
                        ch_ErrorMessage := ''Redis circuit breaker is open; traffic degrading to database'' \<rparr>,
                   client, cb)
             else
               (let (reply, r') = rd_ping rc r;
                    res1 = res\<lparr> ch_PingDuration := Some (time_sub (clk 2) (clk 1)) \<rparr>
                in case reply of
                     Some e \<Rightarrow>
                       (res1\<lparr> ch_RedisState := ''UNREACHABLE'', ch_ErrorMessage := e \<rparr>,
                        Some r', map_option (RecordFailure (clk 3)) cb)
                   | None \<Rightarrow>
                       (res1\<lparr> ch_Status := StatusHealthy, ch_RedisState := ''CONNECTED'' \<rparr>,
                        Some r', map_option (RecordSuccess (clk 3)) cb)))"

definition tt_Health :: "'r redis_client \<Rightarrow> (nat \<Rightarrow> instant) \<Rightarrow> 'r TwoTierCache \<Rightarrow>
    CacheHealth \<times> 'r TwoTierCache" where
  "tt_Health rc clk c =
     (let (h, r, cb) = CheckRedisHealth rc clk (tt_redis c) (Some (tt_cb c))
      in (h, c\<lparr> tt_redis := r, tt_cb := (case cb of Some b \<Rightarrow> b | None \<Rightarrow> tt_cb c) \<rparr>))"

definition tt_L1Stats :: "'r TwoTierCache \<Rightarrow> MemoryStats" where
  "tt_L1Stats c = Stats (tt_l1 c)"

subsection \<open>Invariant\<close>

definition tt_inv :: "'r TwoTierCache \<Rightarrow> bool" where
  "tt_inv c \<longleftrightarrow> l1_inv (tt_l1 c) \<and> cb_inv (tt_cb c)"

lemma tt_inv_new:
  "maxB < 2 ^ 62 \<Longrightarrow> in_i64 thr \<Longrightarrow> in_i64 tmo \<Longrightarrow> tt_inv (NewTwoTierCache now maxE maxB r thr tmo fb)"
  by (simp add: tt_inv_def NewTwoTierCache_def cb_inv_new l1_new_inv)

lemma redis_allowed_frame [simp]:
  "tt_l1 (snd (redis_allowed t c)) = tt_l1 c" "tt_redis (snd (redis_allowed t c)) = tt_redis c"
  "tt_fallback (snd (redis_allowed t c)) = tt_fallback c"
  by (auto simp: redis_allowed_def Let_def split: option.splits prod.splits)

lemma redis_allowed_inv: "cb_inv (tt_cb c) \<Longrightarrow> cb_inv (tt_cb (snd (redis_allowed t c)))"
  using breaker.allow_inv[of "tt_cb c" t]
  by (auto simp: redis_allowed_def Let_def split: option.splits prod.splits)

lemma redis_allowed_elim:
  assumes "redis_allowed t c = (ro, c1)"
  shows "tt_l1 c1 = tt_l1 c \<and> tt_redis c1 = tt_redis c \<and> tt_fallback c1 = tt_fallback c \<and>
    (cb_inv (tt_cb c) \<longrightarrow> cb_inv (tt_cb c1)) \<and> (ro = None \<or> ro = tt_redis c)"
  using assms redis_allowed_inv[of c t]
  by (auto simp: redis_allowed_def Let_def split: option.splits prod.splits if_splits)

lemma redis_allowed_blocked:
  assumes "cb_inv (tt_cb c)" "cb_blocked_until (tt_cb c) = Some u" "t < u"
  shows "redis_allowed t c = (None, c)"
  using breaker.allow_blocked[OF assms]
  by (auto simp: redis_allowed_def split: option.splits)

lemma settle_frame [simp]:
  "tt_l1 (snd (settle t reply c)) = tt_l1 c" "tt_fallback (snd (settle t reply c)) = tt_fallback c"
  by (auto simp: settle_def split: prod.splits option.splits)

lemma settle_fallback: "tt_fallback c \<Longrightarrow> fst (settle t reply c) = None"
  by (auto simp: settle_def split: prod.splits option.splits)

lemma settle_inv: "cb_inv (tt_cb c) \<Longrightarrow> cb_inv (tt_cb (snd (settle t reply c)))"
  by (auto simp: settle_def breaker.report_inv split: prod.splits option.splits)

lemma fold_delete_inv: "l1_inv l1 \<Longrightarrow> l1_inv (fold (\<lambda>k l1. snd (Delete k l1)) ks l1)"
  by (induction ks arbitrary: l1) (simp_all add: Delete_refines)

lemma tt_inv_Get:
  assumes "tt_inv c"
  shows "tt_inv (snd (tt_Get rc clk k c))"
proof -
  obtain v l1 where g: "Get (clk 0) k (tt_l1 c) = (v, l1)" by fastforce
  have "l1_inv l1" using assms l1.inv_get[of "tt_l1 c" "clk 0" k] by (simp add: tt_inv_def g)
  then show ?thesis
    using assms
    by (cases v) (auto simp: tt_Get_def g tt_inv_def breaker.report_inv l1.inv_put
        dest!: redis_allowed_elim split: prod.splits redis_reply.splits option.splits)
qed

lemma tt_inv_Set: "tt_inv c \<Longrightarrow> tt_inv (snd (tt_Set rc clk k v ttl c))"
  by (auto simp: tt_Set_def tt_inv_def l1.inv_put settle_inv
      dest!: redis_allowed_elim split: prod.splits option.splits)

lemma tt_inv_Delete: "tt_inv c \<Longrightarrow> tt_inv (snd (tt_Delete rc clk ks c))"
  by (auto simp: tt_Delete_def tt_inv_def fold_delete_inv settle_inv
      dest!: redis_allowed_elim split: prod.splits option.splits)

lemma tt_inv_InvalidatePrefix:
  "tt_inv c \<Longrightarrow> tt_InvalidatePrefix rc clk p c = Some (e, c') \<Longrightarrow> tt_inv c'"
  by (auto simp: tt_InvalidatePrefix_def tt_inv_def l1.inv_clear breaker.report_inv
      dest!: redis_allowed_elim split: prod.splits option.splits)

lemma tt_inv_Health: "tt_inv c \<Longrightarrow> tt_inv (snd (tt_Health rc clk c))"
  by (auto simp: tt_Health_def CheckRedisHealth_def tt_inv_def Let_def breaker.report_inv
      split: prod.splits option.splits)

lemma tt_Set_l1: "tt_l1 (snd (tt_Set rc clk k v ttl c)) = Set (clk 0) k v ttl (tt_l1 c)"
  by (auto simp: tt_Set_def dest!: redis_allowed_elim split: prod.splits option.splits)

lemma tt_Get_hit:
  "fst (Get (clk 0) k (tt_l1 c)) = Some v \<Longrightarrow>
   fst (tt_Get rc clk k c) = (Some v, None) \<and> tt_redis (snd (tt_Get rc clk k c)) = tt_redis c"
  by (cases "Get (clk 0) k (tt_l1 c)") (simp add: tt_Get_def)

subsection \<open>What is assumed of Redis\<close>

text \<open>The documented behaviour of \<open>GET\<close>, \<open>SET\<close> and \<open>DEL\<close> over the keys a server holds: a reply
  tells the truth, a successful write is visible, and a failed read changes nothing. Nothing is
  assumed about when commands fail.\<close>

definition redis_conforms :: "'r redis_client \<Rightarrow> ('r \<Rightarrow> string \<Rightarrow> bytes option) \<Rightarrow> bool" where
  "redis_conforms rc content \<longleftrightarrow>
     (\<forall>k r v r'. rd_get rc k r = (RVal v, r') \<longrightarrow> content r k = Some v \<and> content r' = content r) \<and>
     (\<forall>k r r'. rd_get rc k r = (RNil, r') \<longrightarrow> content r k = None \<and> content r' = content r) \<and>
     (\<forall>k r e r'. rd_get rc k r = (RErr e, r') \<longrightarrow> content r' = content r) \<and>
     (\<forall>k v ttl r r'. rd_set rc k v ttl r = (None, r') \<longrightarrow> content r' = (content r)(k := Some v)) \<and>
     (\<forall>ks r r'. rd_del rc ks r = (None, r') \<longrightarrow> content r' = (\<lambda>k. if k \<in> set ks then None else content r k))"

text \<open>A server that holds its keys in an association list and never fails, and one that is down.\<close>

definition mem_redis :: "(string \<times> bytes) list redis_client" where
  "mem_redis = \<lparr>
     rd_get = (\<lambda>k r. (case map_of r k of Some v \<Rightarrow> RVal v | None \<Rightarrow> RNil, r)),
     rd_set = (\<lambda>k v ttl r. (None, AList.update k v r)),
     rd_del = (\<lambda>ks r. (None, filter (\<lambda>(k, v). k \<notin> set ks) r)),
     rd_scan = (\<lambda>cur pat n r.
       (Inr (filter (\<lambda>k. take (length pat - 1) k = butlast pat) (map fst r), 0), r)),
     rd_ping = (\<lambda>r. (None, r)) \<rparr>"

definition down_redis :: "'r redis_client" where
  "down_redis = \<lparr> rd_get = (\<lambda>k r. (RErr ''refused'', r)), rd_set = (\<lambda>k v ttl r. (Some ''refused'', r)),
     rd_del = (\<lambda>ks r. (Some ''refused'', r)), rd_scan = (\<lambda>cur pat n r. (Inl ''refused'', r)),
     rd_ping = (\<lambda>r. (Some ''refused'', r)) \<rparr>"

lemma map_of_filter_keys: "map_of (filter (\<lambda>(k, v). k \<notin> S) r) k = (if k \<in> S then None else map_of r k)"
  by (induction r) auto

lemma mem_redis_conforms: "redis_conforms mem_redis map_of"
  by (auto simp: redis_conforms_def mem_redis_def map_of_filter_keys update_conv' split: option.splits)

lemma down_redis_conforms: "redis_conforms down_redis content"
  by (simp add: redis_conforms_def down_redis_def)

subsection \<open>Properties\<close>

text \<open>C31: a value that was set is read back. When a Set of an entry that fits the L1 byte limit (whatever its result) is followed directly
  by a Get of the same key, before any other call and no later than the expiry of the entry (or the Set had no time to live), the Get returns
  exactly that value and no error, whatever Redis answers or does and in whatever state the breaker is. After the expiry the answer is
  that of Redis.\<close>

theorem two_tier_read_your_write:
  assumes "tt_inv c" "l1_fits (tt_l1 c) k v" "ttl \<le> 0 \<or> clk' 0 \<le> clk 0 + ttl"
  shows "fst (tt_Get rc' clk' k (snd (tt_Set rc clk k v ttl c))) = (Some v, None)"
proof -
  have inv: "l1_inv (tt_l1 c)" using assms(1) by (simp add: tt_inv_def)
  have "fst (Get (clk' 0) k (Set (clk 0) k v ttl (tt_l1 c))) = Some v"
    using l1.get_live[OF l1.inv_put[OF inv]] l1.live_put[OF inv assms(2,3)] by simp
  then show ?thesis by (simp add: tt_Get_hit tt_Set_l1)
qed

theorem two_tier_read_your_write_witness:
  "fst (tt_Get down_redis (\<lambda>_. 9) ''k'' (snd (tt_Set down_redis (\<lambda>_. 5) ''k'' [1, 2] 10
     (NewTwoTierCache 0 10 1000 (Some ()) 3 100 True)))) = (Some [1, 2], None)"
proof (rule two_tier_read_your_write)
  show "tt_inv (NewTwoTierCache 0 10 1000 (Some ()) 3 100 True)"
    by (rule tt_inv_new) (simp_all add: in_i64_def)
qed (simp_all add: NewTwoTierCache_def l1_fits_def EstimateEntrySize_def NewL1Cache_def)

text \<open>C32: in fallback mode the cache never surfaces a Redis failure: Get, Set and Delete report no error
  whatever the server replies and whatever state the cache is in (\<open>InvalidatePrefix\<close> is not claimed).\<close>

theorem two_tier_fallback_never_errors:
  assumes "tt_fallback c"
  shows "snd (fst (tt_Get rc clk k c)) = None \<and> fst (tt_Set rc clk k v ttl c) = None \<and>
    fst (tt_Delete rc clk ks c) = None"
proof (intro conjI)
  show "snd (fst (tt_Get rc clk k c)) = None"
    using assms by (simp add: tt_Get_def split: prod.splits option.splits redis_reply.splits)
  show "fst (tt_Set rc clk k v ttl c) = None"
    using assms by (auto simp: tt_Set_def settle_fallback dest!: redis_allowed_elim split: prod.splits option.splits)
  show "fst (tt_Delete rc clk ks c) = None"
    using assms by (auto simp: tt_Delete_def settle_fallback dest!: redis_allowed_elim split: prod.splits option.splits)
qed

theorem two_tier_fallback_never_errors_witness:
  "snd (fst (tt_Get down_redis (\<lambda>_. 9) ''k'' (NewTwoTierCache 0 10 1000 (Some ()) 3 100 True))) = None"
  using two_tier_fallback_never_errors[of "NewTwoTierCache 0 10 1000 (Some ()) 3 100 True" down_redis "\<lambda>_. 9" "''k''"]
  by (simp add: NewTwoTierCache_def)

text \<open>An open circuit isolates Redis. While the cool-off period runs, no operation sends a command: the
  server state and the breaker are what they were, and InvalidatePrefix returns at once without an
  error.\<close>

theorem open_circuit_isolates_redis:
  assumes "cb_inv (tt_cb c)" "cb_blocked_until (tt_cb c) = Some u" "\<forall>i. clk i < u"
  shows "(\<forall>c' \<in> {snd (tt_Get rc clk k c), snd (tt_Set rc clk k v ttl c), snd (tt_Delete rc clk ks c),
                  snd (tt_Health rc clk c)}.
            tt_redis c' = tt_redis c \<and> tt_cb c' = tt_cb c) \<and>
    tt_InvalidatePrefix rc clk p c = Some (None, c\<lparr> tt_l1 := Clear (tt_l1 c) \<rparr>)"
proof -
  have blocked: "redis_allowed (clk i) (c\<lparr> tt_l1 := l1 \<rparr>) = (None, c\<lparr> tt_l1 := l1 \<rparr>)" for i l1
    using assms by (intro redis_allowed_blocked) auto
  have "State (tt_cb c) = StateOpen"
    using assms(2) by (auto simp: cb_blocked_until_def State_def split: if_splits)
  then have "tt_redis (snd (tt_Health rc clk c)) = tt_redis c \<and> tt_cb (snd (tt_Health rc clk c)) = tt_cb c"
    by (cases "tt_redis c") (simp_all add: tt_Health_def CheckRedisHealth_def Let_def)
  then show ?thesis
    using blocked
    by (auto simp: tt_Get_def tt_Set_def tt_Delete_def tt_InvalidatePrefix_def
        simp del: One_nat_def split: prod.splits option.splits)
qed

theorem open_circuit_isolates_redis_witness:
  "tt_redis (snd (tt_Get mem_redis (\<lambda>_. 5) ''k''
      ((NewTwoTierCache 0 10 1000 (Some [(''k'', [1])]) 1 100 True)
        \<lparr> tt_cb := RecordFailure 1 (NewCircuitBreaker 0 1 100) \<rparr>))) = Some [(''k'', [1])]"
proof -
  let ?c = "(NewTwoTierCache 0 10 1000 (Some [(''k'', [1])]) 1 100 True)
        \<lparr> tt_cb := RecordFailure 1 (NewCircuitBreaker 0 1 100) \<rparr>"
  have "cb_inv (RecordFailure 1 (NewCircuitBreaker 0 1 100))"
    by (intro cb_inv_RecordFailure cb_inv_new) (simp_all add: in_i64_def)
  moreover have "cb_blocked_until (RecordFailure 1 (NewCircuitBreaker 0 1 100)) = Some 101"
    by (simp add: cb_blocked_until_def breaker_defs add64_def i64_def)
  ultimately show ?thesis
    using open_circuit_isolates_redis[of ?c 101 "\<lambda>_. 5" mem_redis "''k''"]
    by (simp add: NewTwoTierCache_def)
qed

lemma fold_delete_live:
  "l1_inv l1 \<Longrightarrow> k \<in> set ks \<Longrightarrow> l1_live (fold (\<lambda>k l1. snd (Delete k l1)) ks l1) t k = None"
proof (induction ks arbitrary: l1)
  case (Cons a ks)
  have inv: "l1_inv (snd (Delete a l1))" using Cons.prems(1) by (rule l1.inv_del)
  have keep: "l1_inv d \<Longrightarrow> l1_live d t k = None \<Longrightarrow> l1_live (fold (\<lambda>k l1. snd (Delete k l1)) xs d) t k = None" for xs d
    by (induction xs arbitrary: d) (auto simp: l1.inv_del, metis l1.del_frame l1.live_del l1.inv_del)
  show ?case
  proof (cases "k = a")
    case True
    then show ?thesis using keep[OF inv] l1.live_del[OF Cons.prems(1)] by simp
  next
    case False
    then show ?thesis using Cons.IH[OF inv] Cons.prems(2) by simp
  qed
qed simp

lemma redis_allowed_closed:
  "cb_blocked_until (tt_cb c) = None \<Longrightarrow> cb_inv (tt_cb c) \<Longrightarrow> tt_redis c = Some r \<Longrightarrow>
   redis_allowed t c = (Some r, c)"
  by (simp add: redis_allowed_def breaker.allow_open)

text \<open>When Redis accepts the DEL, deletion takes effect in both tiers: a later Get of any deleted key
  finds nothing, for a server that behaves as documented.\<close>

theorem two_tier_delete_then_miss:
  assumes "tt_inv c" "redis_conforms rc content" "tt_redis c = Some r"
    and "cb_blocked_until (tt_cb c) = None" "rd_del rc ks r = (None, r')" "k \<in> set ks"
  shows "fst (fst (tt_Get rc clk' k (snd (tt_Delete rc clk ks c)))) = None"
proof -
  let ?l1 = "fold (\<lambda>k l1. snd (Delete k l1)) ks (tt_l1 c)"
  let ?d = "snd (tt_Delete rc clk ks c)"
  have inv: "l1_inv (tt_l1 c)" "cb_inv (tt_cb c)" using assms(1) by (simp_all add: tt_inv_def)
  have "redis_allowed (clk 0) (c\<lparr> tt_l1 := ?l1 \<rparr>) = (Some r, c\<lparr> tt_l1 := ?l1 \<rparr>)"
    using assms inv by (intro redis_allowed_closed) simp_all
  then have d: "tt_redis ?d = Some r'" "tt_l1 ?d = ?l1"
    using assms(5) by (simp_all add: tt_Delete_def settle_def)
  have "fst (Get (clk' 0) k ?l1) = None"
    using l1.get_live[OF fold_delete_inv[OF inv(1)]] fold_delete_live[OF inv(1) assms(6)] by simp
  then obtain l1 where g: "Get (clk' 0) k (tt_l1 ?d) = (None, l1)"
    by (metis d(2) prod.collapse)
  have "content r' k = None" using assms(2,5,6) by (simp add: redis_conforms_def)
  then have "\<not> (\<exists>v r''. rd_get rc k r' = (RVal v, r''))"
    using assms(2) by (auto simp: redis_conforms_def)
  then show ?thesis
    using d(1) by (auto simp: tt_Get_def g dest!: redis_allowed_elim
        split: prod.splits option.splits redis_reply.splits)
qed

theorem two_tier_delete_then_miss_witness:
  "fst (fst (tt_Get mem_redis (\<lambda>_. 9) ''k'' (snd (tt_Delete mem_redis (\<lambda>_. 5) [''k'']
     (NewTwoTierCache 0 10 1000 (Some [(''k'', [1])]) 3 100 True))))) = None"
proof (rule two_tier_delete_then_miss[OF _ mem_redis_conforms])
  show "tt_inv (NewTwoTierCache 0 10 1000 (Some [(''k'', [1])]) 3 100 True)"
    by (rule tt_inv_new) (simp_all add: in_i64_def)
qed (simp_all add: NewTwoTierCache_def cb_blocked_until_def NewCircuitBreaker_def mem_redis_def)

text \<open>A Delete issued while the circuit is open reports success but leaves the entry in Redis, and a
  Get after the cool-off period returns the deleted value again.\<close>

theorem delete_while_open_is_lost:
  assumes "tt_inv c" "redis_conforms rc content" "tt_redis c = Some r" "content r k = Some v"
    and "cb_blocked_until (tt_cb c) = Some u" "clk 0 < u" "u \<le> clk' 1"
    and "\<And>e r'. rd_get rc k r \<noteq> (RErr e, r')"
  shows "fst (tt_Delete rc clk [k] c) = None \<and>
    fst (tt_Get rc clk' k (snd (tt_Delete rc clk [k] c))) = (Some v, None)"
proof -
  let ?l1 = "snd (Delete k (tt_l1 c))"
  have inv: "l1_inv (tt_l1 c)" "cb_inv (tt_cb c)" using assms(1) by (simp_all add: tt_inv_def)
  have "redis_allowed (clk 0) (c\<lparr> tt_l1 := ?l1 \<rparr>) = (None, c\<lparr> tt_l1 := ?l1 \<rparr>)"
    using assms inv by (intro redis_allowed_blocked) simp_all
  then have del: "tt_Delete rc clk [k] c = (None, c\<lparr> tt_l1 := ?l1 \<rparr>)"
    by (simp add: tt_Delete_def)
  have "fst (Get (clk' 0) k ?l1) = None"
    using l1.get_live[OF l1.inv_del[OF inv(1)]] l1.live_del[OF inv(1)] by simp
  then obtain l1 where g: "Get (clk' 0) k ?l1 = (None, l1)" by (metis prod.collapse)
  have "fst (AllowExecution (clk' 1) (tt_cb c))"
    using breaker.allow_elapsed[OF inv(2) assms(5,7)] .
  then obtain cb where a: "AllowExecution (clk' 1) (tt_cb c) = (True, cb)" by (metis prod.collapse)
  obtain r' where r': "rd_get rc k r = (RVal v, r')"
    using assms(2,4,8) by (cases "rd_get rc k r"; cases "fst (rd_get rc k r)") (auto simp: redis_conforms_def)
  show ?thesis
    by (simp add: del tt_Get_def g redis_allowed_def a assms(3) r' del: One_nat_def)
qed

theorem delete_while_open_is_lost_witness:
  "fst (tt_Get mem_redis (\<lambda>_. 200) ''k'' (snd (tt_Delete mem_redis (\<lambda>_. 5) [''k'']
     ((NewTwoTierCache 0 10 1000 (Some [(''k'', [1])]) 1 100 True)
        \<lparr> tt_cb := RecordFailure 1 (NewCircuitBreaker 0 1 100) \<rparr>)))) = (Some [1], None)"
proof -
  let ?c = "(NewTwoTierCache 0 10 1000 (Some [(''k'', [1])]) 1 100 True)
        \<lparr> tt_cb := RecordFailure 1 (NewCircuitBreaker 0 1 100) \<rparr>"
  have "tt_inv ?c"
    by (auto simp: tt_inv_def NewTwoTierCache_def in_i64_def intro!: l1_new_inv cb_inv_RecordFailure cb_inv_new)
  moreover have "cb_blocked_until (tt_cb ?c) = Some 101"
    by (simp add: cb_blocked_until_def breaker_defs add64_def i64_def)
  moreover have "tt_redis ?c = Some [(''k'', [1])]" by (simp add: NewTwoTierCache_def)
  ultimately show ?thesis
    by (intro delete_while_open_is_lost[OF _ mem_redis_conforms, THEN conjunct2])
       (assumption | simp add: mem_redis_def)+
qed

text \<open>A Set whose value is too large for L1 leaves the previous L1 entry in place: although the Set has
  been accepted, reads keep returning the old value until it expires.\<close>

theorem oversized_set_serves_old_value:
  assumes "tt_inv c" "\<not> l1_fits (tt_l1 c) k v" "l1_live (tt_l1 c) (clk' 0) k = Some w"
  shows "fst (tt_Get rc' clk' k (snd (tt_Set rc clk k v ttl c))) = (Some w, None)"
proof -
  have inv: "l1_inv (tt_l1 c)" using assms(1) by (simp add: tt_inv_def)
  have "Set (clk 0) k v ttl (tt_l1 c) = tt_l1 c"
    using assms(2) by (simp add: Set_def l1_fits_def)
  then have "fst (Get (clk' 0) k (tt_l1 (snd (tt_Set rc clk k v ttl c)))) = Some w"
    using l1.get_live[OF inv] assms(3) by (simp add: tt_Set_l1)
  then show ?thesis by (simp add: tt_Get_hit)
qed

theorem oversized_set_serves_old_value_witness:
  "fst (tt_Get mem_redis (\<lambda>_. 9) ''k'' (snd (tt_Set mem_redis (\<lambda>_. 5) ''k'' (replicate 100 0) 0
     (snd (tt_Set mem_redis (\<lambda>_. 1) ''k'' [1] 0 (NewTwoTierCache 0 10 100 (Some []) 3 100 True)))))) = (Some [1], None)"
proof -
  let ?fresh = "NewTwoTierCache 0 10 100 (Some []) 3 100 True :: (string \<times> bytes) list TwoTierCache"
  let ?wr = "snd (tt_Set mem_redis (\<lambda>_. 1) ''k'' [1] 0 ?fresh)"
  have inv: "tt_inv ?fresh" by (rule tt_inv_new) (simp_all add: in_i64_def)
  have a: "tt_inv ?wr" using inv by (rule tt_inv_Set)
  have "maxSizeBytes (tt_l1 ?wr) = 100"
    using l1_step_limits(2)[of "tt_l1 ?fresh" "OpSet 1 ''k'' [1] 0"]
    by (simp add: tt_Set_l1) (simp add: NewTwoTierCache_def NewL1Cache_def)
  then have b: "\<not> l1_fits (tt_l1 ?wr) ''k'' (replicate 100 0)" by (simp add: l1_fits_def EstimateEntrySize_def)
  have l1: "l1_inv (tt_l1 ?fresh)" using inv by (simp add: tt_inv_def)
  have "l1_fits (tt_l1 ?fresh) ''k'' [1]"
    by (simp add: l1_fits_def EstimateEntrySize_def NewTwoTierCache_def NewL1Cache_def)
  then have "l1_live (tt_l1 ?wr) 9 ''k'' = Some [1]"
    unfolding tt_Set_l1 by (rule l1.live_put[OF l1]) simp
  then show ?thesis by (rule oversized_set_serves_old_value[OF a b])
qed

end
