(* ===== verification/Gorm.thy ===== *)
theory Gorm
  imports GoPrelude
begin

section \<open>Handlers and the database they call\<close>

text \<open>
  The HTTP handlers reach the database through GORM, which is not part of the repository. A
  table is the list of its rows, and the driver of a table is a parameter: a record of
  functions on table contents, one for each kind of call the handlers make (\<open>First\<close>, \<open>Find\<close>,
  \<open>Count\<close>, \<open>Create\<close>, \<open>Save\<close>, \<open>Updates\<close>, \<open>Delete\<close>). Any call may fail. What the handlers rely on is the
  named hypothesis \<open>gorm_ok\<close>, the documented behaviour of a call that succeeds.
  \<open>mem_gorm\<close> is an in-memory driver that satisfies it and evaluates; the witnesses use it.

  GORM's bookkeeping columns (\<open>CreatedAt\<close>, \<open>UpdatedAt\<close> unless the code reads them) and preloaded
  associations are left out of the row types. A row type with a \<open>DeletedAt\<close> column is soft-deleted:
  its queries carry the condition that the column is null; where no code of the repository deletes rows of a
  table, the column is always null and is left out.

  \<open>transaction\<close> is \<open>db.Transaction\<close>: the body's result is committed when it returns nil and the commit succeeds,
  and rolled back otherwise. A handler is a function from the request, as the binding step left it, and the tables to a
  \<open>response\<close> and the new tables. The locale \<open>service\<close> is the contract shared by the handler
  groups: every request keeps the invariant, hence every sequence of requests does.
\<close>

datatype dberr = ErrRecordNotFound | DBError string

definition err_msg :: "dberr \<Rightarrow> string" where
  "err_msg e = (case e of ErrRecordNotFound \<Rightarrow> ''record not found'' | DBError s \<Rightarrow> s)"

datatype 'b response =
    Reply int 'b          \<comment> \<open>status code and body\<close>
  | Fail int string       \<comment> \<open>status code and error message\<close>
  | Crash                 \<comment> \<open>the handler panicked\<close>

definition is_fail :: "'b response \<Rightarrow> bool" where
  "is_fail r = (case r of Reply _ _ \<Rightarrow> False | Fail _ _ \<Rightarrow> True | Crash \<Rightarrow> True)"

lemma is_fail_simps [simp]: "\<not> is_fail (Reply s b)" "is_fail (Fail s m)" "is_fail Crash"
  by (simp_all add: is_fail_def)

abbreviation StatusOK :: int where "StatusOK \<equiv> 200"
abbreviation StatusCreated :: int where "StatusCreated \<equiv> 201"
abbreviation StatusBadRequest :: int where "StatusBadRequest \<equiv> 400"
abbreviation StatusUnauthorized :: int where "StatusUnauthorized \<equiv> 401"
abbreviation StatusForbidden :: int where "StatusForbidden \<equiv> 403"
abbreviation StatusNotFound :: int where "StatusNotFound \<equiv> 404"
abbreviation StatusConflict :: int where "StatusConflict \<equiv> 409"
abbreviation StatusInternalServerError :: int where "StatusInternalServerError \<equiv> 500"

text \<open>Sequencing of calls that return an error or a value (\<open>if err != nil { return err }\<close>).\<close>

definition and_then :: "'e + 'a \<Rightarrow> ('a \<Rightarrow> 'e + 'b) \<Rightarrow> 'e + 'b" where
  "and_then m f = (case m of Inl e \<Rightarrow> Inl e | Inr x \<Rightarrow> f x)"

lemma and_then_simps [simp]: "and_then (Inl e) f = Inl e" "and_then (Inr x) f = f x"
  by (simp_all add: and_then_def)

lemma and_then_InrE [elim!]:
  assumes "and_then m f = Inr y"
  obtains x where "m = Inr x" "f x = Inr y"
  using assms by (cases m) auto

subsection \<open>Queries and drivers\<close>

record 'r query =
  q_where :: "'r \<Rightarrow> bool"
  q_order :: "'r \<Rightarrow> 'r \<Rightarrow> bool"
  q_offset :: nat
  q_limit :: "nat option"

definition Where :: "('r \<Rightarrow> bool) \<Rightarrow> 'r query" where
  "Where P = \<lparr> q_where = P, q_order = (\<lambda>_ _. True), q_offset = 0, q_limit = None \<rparr>"

record 'r gorm =
  g_first :: "('r \<Rightarrow> bool) \<Rightarrow> 'r list \<Rightarrow> dberr + 'r"
  g_find :: "'r query \<Rightarrow> 'r list \<Rightarrow> dberr + 'r list"
  g_count :: "('r \<Rightarrow> bool) \<Rightarrow> 'r list \<Rightarrow> dberr + int"
  g_create :: "'r \<Rightarrow> 'r list \<Rightarrow> dberr + 'r \<times> 'r list"
  g_save :: "'r \<Rightarrow> 'r list \<Rightarrow> dberr + 'r list"
  g_update :: "('r \<Rightarrow> bool) \<Rightarrow> ('r \<Rightarrow> 'r) \<Rightarrow> 'r list \<Rightarrow> dberr + nat \<times> 'r list"
  g_delete :: "('r \<Rightarrow> bool) \<Rightarrow> 'r list \<Rightarrow> dberr + nat \<times> 'r list"

text \<open>The rows a query may return: some listing of the matching rows that respects the order,
  cut by offset and limit.\<close>

definition query_result :: "'r query \<Rightarrow> 'r list \<Rightarrow> 'r list \<Rightarrow> bool" where
  "query_result q rows rs \<longleftrightarrow>
     (\<exists>all. mset all = mset (filter (q_where q) rows) \<and> sorted_wrt (q_order q) all \<and>
            rs = (case q_limit q of None \<Rightarrow> drop (q_offset q) all
                  | Some n \<Rightarrow> take n (drop (q_offset q) all)))"

definition is_order :: "('r \<Rightarrow> 'r \<Rightarrow> bool) \<Rightarrow> bool" where
  "is_order le \<longleftrightarrow> (\<forall>x y. le x y \<or> le y x) \<and> (\<forall>x y z. le x y \<longrightarrow> le y z \<longrightarrow> le x z)"

text \<open>The documented behaviour of successful calls; \<open>key\<close> is the primary key column. \<open>First\<close>
  returns the matching row with the least key and answers \<open>ErrRecordNotFound\<close> only if there is
  none; \<open>Create\<close> inserts the row under a fresh non-zero key; \<open>Save\<close> of a stored row overwrites
  it; \<open>Updates\<close> and \<open>Delete\<close> act on the matching rows and report how many there were.\<close>

definition first_ok :: "('r \<Rightarrow> nat) \<Rightarrow> 'r gorm \<Rightarrow> bool" where
  "first_ok key g \<longleftrightarrow>
     (\<forall>P rows r. g_first g P rows = Inr r \<longrightarrow>
        r \<in> set rows \<and> P r \<and> (\<forall>x\<in>set rows. P x \<longrightarrow> key r \<le> key x)) \<and>
     (\<forall>P rows. g_first g P rows = Inl ErrRecordNotFound \<longrightarrow> (\<forall>x\<in>set rows. \<not> P x))"

definition find_ok :: "'r gorm \<Rightarrow> bool" where
  "find_ok g \<longleftrightarrow>
     (\<forall>q rows rs. is_order (q_order q) \<longrightarrow> g_find g q rows = Inr rs \<longrightarrow> query_result q rows rs) \<and>
     (\<forall>P rows n. g_count g P rows = Inr n \<longrightarrow> n = int (length (filter P rows)))"

definition create_ok :: "('r \<Rightarrow> nat) \<Rightarrow> (nat \<Rightarrow> 'r \<Rightarrow> 'r) \<Rightarrow> 'r gorm \<Rightarrow> bool" where
  "create_ok key setkey g \<longleftrightarrow>
     (\<forall>r rows r' rows'. g_create g r rows = Inr (r', rows') \<longrightarrow>
        (\<exists>k. k \<noteq> 0 \<and> k \<notin> key ` set rows \<and> r' = setkey k r) \<and> rows' = rows @ [r'])"

definition write_ok :: "('r \<Rightarrow> nat) \<Rightarrow> 'r gorm \<Rightarrow> bool" where
  "write_ok key g \<longleftrightarrow>
     (\<forall>r rows rows'. key r \<in> key ` set rows \<longrightarrow> g_save g r rows = Inr rows' \<longrightarrow>
        rows' = put_row key r rows) \<and>
     (\<forall>P f rows n rows'. g_update g P f rows = Inr (n, rows') \<longrightarrow>
        n = length (filter P rows) \<and> rows' = map (\<lambda>r. if P r then f r else r) rows) \<and>
     (\<forall>P rows n rows'. g_delete g P rows = Inr (n, rows') \<longrightarrow>
        n = length (filter P rows) \<and> rows' = filter (\<lambda>r. \<not> P r) rows)"

definition gorm_ok :: "('r \<Rightarrow> nat) \<Rightarrow> (nat \<Rightarrow> 'r \<Rightarrow> 'r) \<Rightarrow> 'r gorm \<Rightarrow> bool" where
  "gorm_ok key setkey g \<longleftrightarrow>
     first_ok key g \<and> find_ok g \<and> create_ok key setkey g \<and> write_ok key g"

lemma gorm_firstD:
  assumes "gorm_ok key setkey g" "g_first g P rows = Inr r"
  shows "r \<in> set rows" "P r"
  using assms unfolding gorm_ok_def first_ok_def by blast+

lemma gorm_first_none:
  "gorm_ok key setkey g \<Longrightarrow> g_first g P rows = Inl ErrRecordNotFound \<Longrightarrow> x \<in> set rows \<Longrightarrow> \<not> P x"
  unfolding gorm_ok_def first_ok_def by blast

lemma gorm_find:
  "gorm_ok key setkey g \<Longrightarrow> is_order (q_order q) \<Longrightarrow> g_find g q rows = Inr rs \<Longrightarrow> query_result q rows rs"
  unfolding gorm_ok_def find_ok_def by blast

lemma is_order_trivial [simp]: "is_order (\<lambda>_ _. True)"
  by (simp add: is_order_def)

lemma Where_simps [simp]:
  "q_where (Where P) = P" "q_order (Where P) = (\<lambda>_ _. True)" "q_offset (Where P) = 0" "q_limit (Where P) = None"
  by (simp_all add: Where_def)

lemma gorm_find_Where:
  assumes "gorm_ok key setkey g" "g_find g (Where P) rows = Inr rs"
  shows "mset rs = mset (filter P rows)"
proof -
  have "query_result (Where P) rows rs" using assms by (auto intro: gorm_find)
  then show ?thesis by (auto simp: query_result_def)
qed

lemma gorm_find_mem:
  assumes "gorm_ok key setkey g" "is_order (q_order q)" "g_find g q rows = Inr rs" "r \<in> set rs"
  shows "r \<in> set rows" "q_where q r"
proof -
  obtain all where all: "mset all = mset (filter (q_where q) rows)"
    "rs = (case q_limit q of None \<Rightarrow> drop (q_offset q) all | Some n \<Rightarrow> take n (drop (q_offset q) all))"
    using gorm_find[OF assms(1-3)] by (auto simp: query_result_def)
  have "r \<in> set all" using assms(4) all(2) by (auto split: option.splits dest: in_set_takeD in_set_dropD)
  moreover have "set all = set (filter (q_where q) rows)" using all(1) by (metis set_mset_mset)
  ultimately show "r \<in> set rows" "q_where q r" by simp_all
qed

lemma gorm_count:
  "gorm_ok key setkey g \<Longrightarrow> g_count g P rows = Inr n \<Longrightarrow> n = int (length (filter P rows))"
  unfolding gorm_ok_def find_ok_def by blast

lemma gorm_createD:
  assumes "gorm_ok key setkey g" "g_create g r rows = Inr (r', rows')"
  obtains k where "k \<noteq> 0" "k \<notin> key ` set rows" "r' = setkey k r" "rows' = rows @ [r']"
  using assms unfolding gorm_ok_def create_ok_def by blast

lemma gorm_save:
  "gorm_ok key setkey g \<Longrightarrow> g_save g r rows = Inr rows' \<Longrightarrow> y \<in> set rows \<Longrightarrow> key y = key r \<Longrightarrow>
   rows' = put_row key r rows"
  unfolding gorm_ok_def write_ok_def by (metis imageI)

lemma gorm_updateD:
  assumes "gorm_ok key setkey g" "g_update g P f rows = Inr (n, rows')"
  shows "n = length (filter P rows)" "rows' = map (\<lambda>r. if P r then f r else r) rows"
  using assms unfolding gorm_ok_def write_ok_def by blast+

lemma gorm_deleteD:
  assumes "gorm_ok key setkey g" "g_delete g P rows = Inr (n, rows')"
  shows "n = length (filter P rows)" "rows' = filter (\<lambda>r. \<not> P r) rows"
  using assms unfolding gorm_ok_def write_ok_def by blast+

subsection \<open>An in-memory driver\<close>

fun ins_by :: "('r \<Rightarrow> 'r \<Rightarrow> bool) \<Rightarrow> 'r \<Rightarrow> 'r list \<Rightarrow> 'r list" where
  "ins_by le x [] = [x]"
| "ins_by le x (y # ys) = (if le x y then x # y # ys else y # ins_by le x ys)"

definition sort_by :: "('r \<Rightarrow> 'r \<Rightarrow> bool) \<Rightarrow> 'r list \<Rightarrow> 'r list" where
  "sort_by le xs = foldr (ins_by le) xs []"

lemma mset_sort_by [simp]: "mset (sort_by le xs) = mset xs"
proof -
  have "mset (ins_by le x ys) = add_mset x (mset ys)" for x ys
    by (induction ys) auto
  then show ?thesis by (induction xs) (auto simp: sort_by_def)
qed

lemma set_sort_by [simp]: "set (sort_by le xs) = set xs"
  by (metis mset_sort_by set_mset_mset)

lemma sorted_sort_by:
  assumes "is_order le"
  shows "sorted_wrt le (sort_by le xs)"
proof -
  have ins: "set (ins_by le x ys) = insert x (set ys)" for x ys
    by (induction ys) auto
  have "sorted_wrt le ys \<Longrightarrow> sorted_wrt le (ins_by le x ys)" for x ys
    using assms by (induction ys) (auto simp: ins is_order_def)
  then show ?thesis by (induction xs) (auto simp: sort_by_def)
qed

definition next_key :: "('r \<Rightarrow> nat) \<Rightarrow> 'r list \<Rightarrow> nat" where
  "next_key key rows = Suc (fold max (map key rows) 0)"

lemma next_key_fresh: "x \<in> set rows \<Longrightarrow> key x < next_key key rows"
proof -
  have "m \<le> fold max ks m \<and> (\<forall>k\<in>set ks. k \<le> fold max ks m)" for ks and m :: nat
    by (induction ks arbitrary: m) (force simp: max_def split: if_splits)+
  from this[where ks = "map key rows" and m = 0]
  show "x \<in> set rows \<Longrightarrow> key x < next_key key rows"
    by (auto simp: next_key_def less_Suc_eq_le)
qed

definition mem_gorm :: "('r \<Rightarrow> nat) \<Rightarrow> (nat \<Rightarrow> 'r \<Rightarrow> 'r) \<Rightarrow> 'r gorm" where
  "mem_gorm key setkey =
     \<lparr> g_first = (\<lambda>P rows. case sort_by (\<lambda>x y. key x \<le> key y) (filter P rows) of
                             [] \<Rightarrow> Inl ErrRecordNotFound | r # _ \<Rightarrow> Inr r),
       g_find = (\<lambda>q rows. let all = drop (q_offset q) (sort_by (q_order q) (filter (q_where q) rows))
                          in Inr (case q_limit q of None \<Rightarrow> all | Some n \<Rightarrow> take n all)),
       g_count = (\<lambda>P rows. Inr (int (length (filter P rows)))),
       g_create = (\<lambda>r rows. let r' = setkey (next_key key rows) r in Inr (r', rows @ [r'])),
       g_save = (\<lambda>r rows. if key r \<in> set (map key rows) then Inr (put_row key r rows)
                          else Inr (rows @ [r])),
       g_update = (\<lambda>P f rows. Inr (length (filter P rows), map (\<lambda>r. if P r then f r else r) rows)),
       g_delete = (\<lambda>P rows. Inr (length (filter P rows), filter (\<lambda>r. \<not> P r) rows)) \<rparr>"

lemma mem_gorm_ok: "gorm_ok key setkey (mem_gorm key setkey)"
proof -
  have first: "r \<in> set rows \<and> P r \<and> (\<forall>x\<in>set rows. P x \<longrightarrow> key r \<le> key x)"
    if *: "sort_by (\<lambda>x y. key x \<le> key y) (filter P rows) = r # rest" for P rows r rest
  proof -
    have "is_order (\<lambda>x y. key x \<le> key y)" by (auto simp: is_order_def)
    then have "sorted_wrt (\<lambda>x y. key x \<le> key y) (r # rest)"
      using sorted_sort_by * by metis
    moreover have "set (r # rest) = {x \<in> set rows. P x}"
      by (metis * set_sort_by set_filter)
    ultimately show ?thesis by auto
  qed
  have none: "\<not> P x" if "sort_by (\<lambda>x y. key x \<le> key y) (filter P rows) = []" "x \<in> set rows" for P rows x
  proof -
    have "{y \<in> set rows. P y} = {}" using that(1) by (metis list.set(1) set_sort_by set_filter)
    with that(2) show ?thesis by blast
  qed
  have fresh: "next_key key rows \<notin> key ` set rows" for rows
    using next_key_fresh by (metis imageE less_irrefl)
  have "\<exists>k. k \<noteq> 0 \<and> k \<notin> key ` set rows \<and> setkey (next_key key rows) r = setkey k r" for rows r
    using fresh by (intro exI[of _ "next_key key rows"]) (simp add: next_key_def)
  then have creates: "create_ok key setkey (mem_gorm key setkey)"
    by (auto simp: create_ok_def mem_gorm_def Let_def)
  have firsts: "first_ok key (mem_gorm key setkey)"
    unfolding first_ok_def
  proof (intro conjI allI impI)
    fix P rows r
    assume "g_first (mem_gorm key setkey) P rows = Inr r"
    then obtain rest where "sort_by (\<lambda>x y. key x \<le> key y) (filter P rows) = r # rest"
      by (auto simp: mem_gorm_def split: list.splits)
    from first[OF this] show "r \<in> set rows" "P r" "\<forall>x\<in>set rows. P x \<longrightarrow> key r \<le> key x" by simp_all
  next
    fix P rows
    assume "g_first (mem_gorm key setkey) P rows = Inl ErrRecordNotFound"
    then show "\<forall>x\<in>set rows. \<not> P x" using none by (auto simp: mem_gorm_def split: list.splits)
  qed
  have "query_result q rows rs"
    if "is_order (q_order q)" "g_find (mem_gorm key setkey) q rows = Inr rs" for q rows rs
    using that unfolding query_result_def
    by (intro exI[of _ "sort_by (q_order q) (filter (q_where q) rows)"])
       (simp add: mem_gorm_def sorted_sort_by Let_def split: option.splits)
  then have "find_ok (mem_gorm key setkey)"
    by (auto simp: find_ok_def) (simp add: mem_gorm_def)
  moreover have "write_ok key (mem_gorm key setkey)"
    by (auto simp: write_ok_def mem_gorm_def)
  ultimately show ?thesis using firsts creates by (simp add: gorm_ok_def)
qed

subsection \<open>Several rows at once, and unique columns\<close>

text \<open>\<open>Create\<close> of a slice inserts its rows one after the other.\<close>

fun create_all :: "'r gorm \<Rightarrow> 'r list \<Rightarrow> 'r list \<Rightarrow> dberr + 'r list" where
  "create_all g [] rows = Inr rows"
| "create_all g (r # rs) rows = and_then (g_create g r rows) (\<lambda>(_, rows'). create_all g rs rows')"

lemma create_all_core:
  assumes "gorm_ok key setkey g" "\<And>k r. f (setkey k r) = f r"
  shows "create_all g as rows = Inr rows' \<Longrightarrow> map f rows' = map f rows @ map f as"
proof (induction as arbitrary: rows)
  case (Cons a as)
  obtain a' rows1 where cr: "g_create g a rows = Inr (a', rows1)" and rest: "create_all g as rows1 = Inr rows'"
    using Cons.prems by (auto simp: and_then_def split: sum.splits prod.splits)
  obtain k where "a' = setkey k a" "rows1 = rows @ [a']" by (rule gorm_createD[OF assms(1) cr])
  then show ?case using Cons.IH[OF rest] assms(2) by simp
qed simp

text \<open>A unique index: no successful statement breaks the distinctness of the column.\<close>

definition unique_ok :: "('r \<Rightarrow> 'c) \<Rightarrow> 'r gorm \<Rightarrow> bool" where
  "unique_ok col g \<longleftrightarrow>
     (\<forall>r rows r' rows'. g_create g r rows = Inr (r', rows') \<longrightarrow> distinct (map col rows) \<longrightarrow> distinct (map col rows')) \<and>
     (\<forall>r rows rows'. g_save g r rows = Inr rows' \<longrightarrow> distinct (map col rows) \<longrightarrow> distinct (map col rows')) \<and>
     (\<forall>P f rows n rows'. g_update g P f rows = Inr (n, rows') \<longrightarrow> distinct (map col rows) \<longrightarrow> distinct (map col rows'))"

lemma unique_create:
  "unique_ok col g \<Longrightarrow> g_create g r rows = Inr (r', rows') \<Longrightarrow> distinct (map col rows) \<Longrightarrow> distinct (map col rows')"
  unfolding unique_ok_def by blast

lemma unique_save:
  "unique_ok col g \<Longrightarrow> g_save g r rows = Inr rows' \<Longrightarrow> distinct (map col rows) \<Longrightarrow> distinct (map col rows')"
  unfolding unique_ok_def by blast

lemma unique_update:
  "unique_ok col g \<Longrightarrow> g_update g P f rows = Inr (n, rows') \<Longrightarrow> distinct (map col rows) \<Longrightarrow> distinct (map col rows')"
  unfolding unique_ok_def by blast

definition unique_gorm :: "('r \<Rightarrow> 'c) \<Rightarrow> 'r gorm \<Rightarrow> 'r gorm" where
  "unique_gorm col g =
     g\<lparr> g_create := (\<lambda>r rows. and_then (g_create g r rows) (\<lambda>(r', rows').
          if distinct (map col rows') then Inr (r', rows') else Inl (DBError ''unique constraint failed''))),
        g_save := (\<lambda>r rows. and_then (g_save g r rows) (\<lambda>rows'.
          if distinct (map col rows') then Inr rows' else Inl (DBError ''unique constraint failed''))),
        g_update := (\<lambda>P f rows. and_then (g_update g P f rows) (\<lambda>(n, rows').
          if distinct (map col rows') then Inr (n, rows') else Inl (DBError ''unique constraint failed''))) \<rparr>"

lemma unique_gorm_less:
  "g_create (unique_gorm col g) r rows = Inr x \<Longrightarrow> g_create g r rows = Inr x"
  "g_save (unique_gorm col g) r rows = Inr y \<Longrightarrow> g_save g r rows = Inr y"
  "g_update (unique_gorm col g) P f rows = Inr z \<Longrightarrow> g_update g P f rows = Inr z"
  by (auto simp: unique_gorm_def split: if_splits)

lemma unique_gorm_unique: "unique_ok col (unique_gorm col g)"
  by (auto simp: unique_ok_def unique_gorm_def split: if_splits)

lemma unique_gorm_keeps: "unique_ok c g \<Longrightarrow> unique_ok c (unique_gorm col g)"
  unfolding unique_ok_def by (blast dest: unique_gorm_less)

lemma unique_gorm_ok:
  assumes "gorm_ok key setkey g"
  shows "gorm_ok key setkey (unique_gorm col g)"
proof -
  have same: "g_first (unique_gorm col g) = g_first g" "g_find (unique_gorm col g) = g_find g"
    "g_count (unique_gorm col g) = g_count g" "g_delete (unique_gorm col g) = g_delete g"
    by (simp_all add: unique_gorm_def)
  have "first_ok key (unique_gorm col g)" "find_ok (unique_gorm col g)"
    using assms unfolding gorm_ok_def first_ok_def find_ok_def same by blast+
  moreover have "create_ok key setkey (unique_gorm col g)"
    unfolding create_ok_def
  proof (intro allI impI)
    fix r rows r' rows' assume "g_create (unique_gorm col g) r rows = Inr (r', rows')"
    then have "g_create g r rows = Inr (r', rows')" by (rule unique_gorm_less)
    then show "(\<exists>k. k \<noteq> 0 \<and> k \<notin> key ` set rows \<and> r' = setkey k r) \<and> rows' = rows @ [r']"
      using assms unfolding gorm_ok_def create_ok_def by blast
  qed
  moreover have "write_ok key (unique_gorm col g)"
    unfolding write_ok_def
  proof (intro conjI allI impI)
    fix r rows rows' assume k: "key r \<in> key ` set rows" and "g_save (unique_gorm col g) r rows = Inr rows'"
    then have "g_save g r rows = Inr rows'" by (blast dest: unique_gorm_less)
    then show "rows' = put_row key r rows" using assms k unfolding gorm_ok_def write_ok_def by blast
  next
    fix P f rows n rows' assume "g_update (unique_gorm col g) P f rows = Inr (n, rows')"
    then have u: "g_update g P f rows = Inr (n, rows')" by (rule unique_gorm_less)
    show "n = length (filter P rows)" "rows' = map (\<lambda>r. if P r then f r else r) rows"
      by (rule gorm_updateD[OF assms u])+
  next
    fix P rows n rows' assume "g_delete (unique_gorm col g) P rows = Inr (n, rows')"
    then have d: "g_delete g P rows = Inr (n, rows')" by (simp add: same)
    show "n = length (filter P rows)" "rows' = filter (\<lambda>r. \<not> P r) rows"
      by (rule gorm_deleteD[OF assms d])+
  qed
  ultimately show ?thesis by (simp add: gorm_ok_def)
qed

subsection \<open>Transactions\<close>

record tx_outcome =
  tx_begin :: "dberr option"
  tx_commit :: "dberr option"

abbreviation tx_fine :: tx_outcome where "tx_fine \<equiv> \<lparr> tx_begin = None, tx_commit = None \<rparr>"

definition transaction :: "tx_outcome \<Rightarrow> ('db \<Rightarrow> dberr + 'a \<times> 'db) \<Rightarrow> 'db \<Rightarrow> (dberr + 'a) \<times> 'db" where
  "transaction tx body db =
     (case tx_begin tx of
        Some e \<Rightarrow> (Inl e, db)
      | None \<Rightarrow>
          (case body db of
             Inl e \<Rightarrow> (Inl e, db)
           | Inr (x, db') \<Rightarrow>
               (case tx_commit tx of Some e \<Rightarrow> (Inl e, db) | None \<Rightarrow> (Inr x, db'))))"

lemma transaction_Inl: "transaction tx body db = (Inl e, db') \<Longrightarrow> db' = db"
  by (auto simp: transaction_def split: option.splits sum.splits)

lemma transaction_Inr: "transaction tx body db = (Inr x, db') \<Longrightarrow> body db = Inr (x, db')"
  by (auto simp: transaction_def split: option.splits sum.splits)

lemma transaction_cases:
  obtains e where "transaction tx body db = (Inl e, db)"
  | x db' where "transaction tx body db = (Inr x, db')" "body db = Inr (x, db')"
  by (cases "transaction tx body db"; cases "fst (transaction tx body db)")
     (use transaction_Inl transaction_Inr in force)+

text \<open>What a transaction keeps: the old tables satisfy it, and so do those its body commits.\<close>

lemma transaction_keeps:
  assumes "I db" "\<And>x db'. body db = Inr (x, db') \<Longrightarrow> I db'"
  shows "I (snd (transaction tx body db))"
  by (cases rule: transaction_cases[of tx body db]) (use assms in auto)

subsection \<open>Rows that are only tested for existence\<close>

text \<open>Of assets and users most handlers only ask whether the row exists and is not soft-deleted.\<close>

record ref_row =
  ref_ID :: nat
  ref_Deleted :: bool

definition exists_ref :: "ref_row gorm \<Rightarrow> nat \<Rightarrow> ref_row list \<Rightarrow> bool" where
  "exists_ref g i rows =
     (case g_first g (\<lambda>r. ref_ID r = i \<and> \<not> ref_Deleted r) rows of Inl _ \<Rightarrow> False | Inr _ \<Rightarrow> True)"

definition mem_refs :: "ref_row gorm" where
  "mem_refs = mem_gorm ref_ID (\<lambda>k. ref_ID_update (\<lambda>_. k))"

subsection \<open>The contract of a group of handlers\<close>

definition drop_body :: "'b response \<times> 'db \<Rightarrow> unit response \<times> 'db" where
  "drop_body x = (map_response (\<lambda>_. ()) (fst x), snd x)"

lemma drop_body_simps [simp]: "snd (drop_body x) = snd x" "is_fail (fst (drop_body x)) = is_fail (fst x)"
  by (cases "fst x"; simp add: drop_body_def is_fail_def)+

text \<open>An endpoint that answers for the result of a service call leaves the tables as the call left them.\<close>

lemma snd_if_sum:
  "snd (case x of (Inl e, d) \<Rightarrow> (f e, d) | (Inr y, d) \<Rightarrow> (g y, d)) = snd x"
  by (cases x; cases "fst x") auto

locale service =
  fixes handle :: "'req \<Rightarrow> 'db \<Rightarrow> 'b response \<times> 'db"
    and inv :: "'db \<Rightarrow> bool"
    and fits :: "'req \<Rightarrow> 'db \<Rightarrow> bool"
  assumes keeps: "inv db \<Longrightarrow> fits r db \<Longrightarrow> inv (snd (handle r db))"
begin

fun run :: "'req list \<Rightarrow> 'db \<Rightarrow> 'db" where
  "run [] db = db"
| "run (r # rs) db = run rs (snd (handle r db))"

fun all_fit :: "'req list \<Rightarrow> 'db \<Rightarrow> bool" where
  "all_fit [] db \<longleftrightarrow> True"
| "all_fit (r # rs) db \<longleftrightarrow> fits r db \<and> all_fit rs (snd (handle r db))"

lemma run_inv: "inv db \<Longrightarrow> all_fit rs db \<Longrightarrow> inv (run rs db)"
  by (induction rs arbitrary: db) (auto intro: keeps)

lemma run_rel:
  assumes "\<And>x. R x x" "\<And>x y z. R x y \<Longrightarrow> R y z \<Longrightarrow> R x z"
    and "\<And>r x. inv x \<Longrightarrow> fits r x \<Longrightarrow> R x (snd (handle r x))"
    and "inv db" "all_fit rs db"
  shows "R db (run rs db)"
  using assms(4,5)
proof (induction rs arbitrary: db)
  case Nil
  then show ?case using assms(1) by simp
next
  case (Cons r rs)
  then have "R db (snd (handle r db))" "inv (snd (handle r db))"
    using assms(3) keeps by auto
  with Cons show ?case using assms(2) by auto
qed

end

text \<open>A group whose failing requests leave the tables as they were.\<close>

locale atomic_service = service +
  assumes frame: "is_fail (fst (handle r db)) \<Longrightarrow> snd (handle r db) = db"
begin

lemma run_failures: "\<forall>r\<in>set rs. is_fail (fst (handle r db)) \<Longrightarrow> run rs db = db"
  by (induction rs) (auto simp: frame)

end

end
