(* ===== verification/Decimal.thy ===== *)
theory Decimal
  imports GoPrelude
begin

section \<open>Decimal numerals and base64 (strconv, fmt, encoding/base64)\<close>

text \<open>
  The parts of Go's standard library that the pagination cursors, the query parameters and the
  JSON owner lists go through: printing an unsigned or signed integer (\<open>%d\<close>, \<open>strconv.Itoa\<close>),
  \<open>strconv.ParseUint(s, 10, 64)\<close>, \<open>strconv.Atoi\<close> (with the value it returns beside a range
  error), and the standard base64 encoding. Strings are lists of bytes written as characters.
\<close>

definition digit_char :: "nat \<Rightarrow> char" where
  "digit_char d = char_of (48 + d)"

definition digit_val :: "char \<Rightarrow> nat option" where
  "digit_val c = (let n = of_char c in if 48 \<le> n \<and> n \<le> 57 then Some (n - 48) else None)"

function show_nat :: "nat \<Rightarrow> string" where
  "show_nat n = (if n < 10 then [digit_char n] else show_nat (n div 10) @ [digit_char (n mod 10)])"
  by auto
termination by (relation "measure id") auto

declare show_nat.simps [simp del]

definition show_int :: "int \<Rightarrow> string" where
  "show_int i = (if i < 0 then ''-'' @ show_nat (nat (- i)) else show_nat (nat i))"

fun digits_value :: "nat \<Rightarrow> string \<Rightarrow> nat option" where
  "digits_value acc [] = Some acc"
| "digits_value acc (c # cs) =
     (case digit_val c of None \<Rightarrow> None | Some d \<Rightarrow> digits_value (10 * acc + d) cs)"

datatype num_error = ErrSyntax | ErrRange

definition ParseUint :: "string \<Rightarrow> num_error + nat" where
  "ParseUint s =
     (if s = [] then Inl ErrSyntax
      else case digits_value 0 s of
             None \<Rightarrow> Inl ErrSyntax
           | Some n \<Rightarrow> if int n < 2 ^ 64 then Inr n else Inl ErrRange)"

text \<open>\<open>Atoi\<close> returns a value together with the error: zero on a syntax error, the nearest
  representable value on a range error.\<close>

definition Atoi :: "string \<Rightarrow> int \<times> num_error option" where
  "Atoi s =
     (let (neg, body) = (case s of
            c # cs \<Rightarrow> if c = CHR ''-'' then (True, cs) else if c = CHR ''+'' then (False, cs) else (False, s)
          | [] \<Rightarrow> (False, s))
      in if body = [] then (0, Some ErrSyntax)
         else case digits_value 0 body of
                None \<Rightarrow> (0, Some ErrSyntax)
              | Some n \<Rightarrow>
                  if neg then if int n \<le> 2 ^ 63 then (- int n, None) else (- (2 ^ 63), Some ErrRange)
                  else if int n < 2 ^ 63 then (int n, None) else (2 ^ 63 - 1, Some ErrRange))"

lemma digit_val_char [simp]: "d < 10 \<Longrightarrow> digit_val (digit_char d) = Some d"
  by (simp add: digit_val_def digit_char_def)

lemma digits_value_append:
  "digits_value acc (xs @ ys) = (case digits_value acc xs of None \<Rightarrow> None | Some n \<Rightarrow> digits_value n ys)"
  by (induction xs arbitrary: acc) (auto split: option.splits)

lemma digits_value_show_nat [simp]: "digits_value 0 (show_nat n) = Some n"
proof (induction n rule: show_nat.induct)
  case (1 n)
  show ?case
  proof (cases "n < 10")
    case True
    then show ?thesis by (simp add: show_nat.simps)
  next
    case False
    with 1 show ?thesis by (subst show_nat.simps) (simp add: digits_value_append)
  qed
qed

lemma show_nat_not_Nil [simp]: "show_nat n \<noteq> []"
  by (subst show_nat.simps) simp

lemma ParseUint_show_nat: "n < 2 ^ 64 \<Longrightarrow> ParseUint (show_nat n) = Inr n"
  by (simp add: ParseUint_def)

definition is_digit :: "char \<Rightarrow> bool" where
  "is_digit c \<longleftrightarrow> digit_val c \<noteq> None"

lemma show_nat_digits: "c \<in> set (show_nat n) \<Longrightarrow> is_digit c"
proof (induction n rule: show_nat.induct)
  case (1 n)
  then show ?case
    by (cases "n < 10") (auto simp: show_nat.simps[of n] is_digit_def)
qed

lemma not_digit [simp]:
  "\<not> is_digit CHR ''-''" "\<not> is_digit CHR ''+''" "\<not> is_digit CHR '',''" "\<not> is_digit CHR '']''"
  "\<not> is_digit CHR ''[''"
  by (simp_all add: is_digit_def digit_val_def)

lemma Atoi_show_int: "in_i64 i \<Longrightarrow> Atoi (show_int i) = (i, None)"
proof (cases "i < 0")
  case True
  assume "in_i64 i"
  with True show ?thesis
    by (auto simp: Atoi_def show_int_def in_i64_def nat_le_iff Let_def)
next
  case False
  assume "in_i64 i"
  moreover obtain c cs where s: "show_nat (nat i) = c # cs" by (cases "show_nat (nat i)") auto
  moreover have "is_digit c" using show_nat_digits[of c "nat i"] s by simp
  then have "c \<noteq> CHR ''-''" "c \<noteq> CHR ''+''" by (metis not_digit(1), metis not_digit(2))
  moreover have "digits_value 0 (c # cs) = Some (nat i)" using s digits_value_show_nat by metis
  ultimately show ?thesis
    using False by (simp add: Atoi_def show_int_def in_i64_def Let_def nat_less_iff del: digits_value.simps)
qed

subsection \<open>Standard base64\<close>

definition b64_alphabet :: string where
  "b64_alphabet = ''ABCDEFGHIJKLMNOPQRSTUVWXYZabcdefghijklmnopqrstuvwxyz0123456789+/''"

definition b64_char :: "nat \<Rightarrow> char" where
  "b64_char n = b64_alphabet ! n"

fun index_of :: "'a \<Rightarrow> 'a list \<Rightarrow> nat option" where
  "index_of x [] = None"
| "index_of x (y # ys) = (if x = y then Some 0 else map_option Suc (index_of x ys))"

definition b64_val :: "char \<Rightarrow> nat option" where
  "b64_val c = index_of c b64_alphabet"

fun b64_encode :: "nat list \<Rightarrow> string" where
  "b64_encode [] = []"
| "b64_encode [a] = [b64_char (a div 4), b64_char (a mod 4 * 16), CHR ''='', CHR ''='']"
| "b64_encode [a, b] =
     [b64_char (a div 4), b64_char (a mod 4 * 16 + b div 16), b64_char (b mod 16 * 4), CHR ''='']"
| "b64_encode (a # b # c # rest) =
     b64_char (a div 4) # b64_char (a mod 4 * 16 + b div 16) # b64_char (b mod 16 * 4 + c div 64) #
     b64_char (c mod 64) # b64_encode rest"

text \<open>The decoder works on the text without carriage returns and line feeds, which Go's decoder
  skips; padding is only allowed in the last group.\<close>

fun b64_groups :: "string \<Rightarrow> nat list option" where
  "b64_groups [] = Some []"
| "b64_groups (p # q # r # s # rest) =
     (case (b64_val p, b64_val q) of
        (Some w, Some x) \<Rightarrow>
          (case b64_val r of
             None \<Rightarrow> if r = CHR ''='' \<and> s = CHR ''='' \<and> rest = [] then Some [w * 4 + x div 16] else None
           | Some y \<Rightarrow>
               (case b64_val s of
                  None \<Rightarrow> if s = CHR ''='' \<and> rest = []
                          then Some [w * 4 + x div 16, x mod 16 * 16 + y div 4] else None
                | Some z \<Rightarrow>
                    map_option (\<lambda>bs. (w * 4 + x div 16) # (x mod 16 * 16 + y div 4) # (y mod 4 * 64 + z) # bs)
                      (b64_groups rest)))
      | _ \<Rightarrow> None)"
| "b64_groups _ = None"

definition b64_decode :: "string \<Rightarrow> nat list option" where
  "b64_decode s = b64_groups (filter (\<lambda>c. c \<noteq> CHR 0x0A \<and> c \<noteq> CHR 0x0D) s)"

lemma b64_val_char [simp]: "n < 64 \<Longrightarrow> b64_val (b64_char n) = Some n"
proof -
  have "\<forall>n\<in>set [0..<64]. b64_val (b64_char n) = Some n" by code_simp
  then show "n < 64 \<Longrightarrow> b64_val (b64_char n) = Some n" by simp
qed

lemma b64_val_special [simp]: "b64_val CHR ''='' = None" "b64_val CHR 0x0A = None" "b64_val CHR 0x0D = None"
  by code_simp+

lemma b64_char_plain [simp]: "n < 64 \<Longrightarrow> b64_char n \<noteq> CHR 0x0A" "n < 64 \<Longrightarrow> b64_char n \<noteq> CHR 0x0D"
  using b64_val_char[of n] by (metis b64_val_special option.distinct(1))+

lemma b64_encode_plain: "\<forall>b\<in>set bs. b < 256 \<Longrightarrow> filter (\<lambda>c. c \<noteq> CHR 0x0A \<and> c \<noteq> CHR 0x0D) (b64_encode bs) = b64_encode bs"
  by (induction bs rule: b64_encode.induct) auto

lemma b64_split [simp]:
  "(b::nat) < 256 \<Longrightarrow> (x * 16 + b div 16) div 16 = x"
  "(b::nat) < 256 \<Longrightarrow> (x * 16 + b div 16) mod 16 = b div 16"
  "(b::nat) < 256 \<Longrightarrow> (x * 4 + b div 64) div 4 = x"
  "(b::nat) < 256 \<Longrightarrow> (x * 4 + b div 64) mod 4 = b div 64"
proof -
  assume "b < 256"
  then have "b div 16 < 16" "b div 64 < 4" by auto
  then show "(x * 16 + b div 16) div 16 = x" "(x * 16 + b div 16) mod 16 = b div 16"
    "(x * 4 + b div 64) div 4 = x" "(x * 4 + b div 64) mod 4 = b div 64" by simp_all
qed

lemma b64_digit_range [simp]:
  "(a::nat) < 256 \<Longrightarrow> a div 4 < 64" "(b::nat) < 256 \<Longrightarrow> a mod 4 * 16 + b div 16 < 64"
  "(b::nat) < 256 \<Longrightarrow> a mod 16 * 4 + b div 64 < 64" "(a::nat) mod 4 * 16 < 64" "(a::nat) mod 16 * 4 < 64"
proof -
  have m: "a mod 4 < 4" "a mod 16 < 16" by simp_all
  then show "a mod 4 * 16 < 64" "a mod 16 * 4 < 64" by linarith+
  show "a div 4 < 64" if "a < 256" using that by auto
  show "a mod 4 * 16 + b div 16 < 64" "a mod 16 * 4 + b div 64 < 64" if "b < 256"
  proof -
    from that have "b div 16 < 16" "b div 64 < 4" by auto
    with m show "a mod 4 * 16 + b div 16 < 64" "a mod 16 * 4 + b div 64 < 64" by linarith+
  qed
qed

lemma b64_groups_encode: "\<forall>b\<in>set bs. b < 256 \<Longrightarrow> b64_groups (b64_encode bs) = Some bs"
  by (induction bs rule: b64_encode.induct) auto

lemma b64_roundtrip: "\<forall>b\<in>set bs. b < 256 \<Longrightarrow> b64_decode (b64_encode bs) = Some bs"
  by (simp add: b64_decode_def b64_encode_plain b64_groups_encode)

definition string_bytes :: "string \<Rightarrow> nat list" where
  "string_bytes s = map of_char s"

definition bytes_string :: "nat list \<Rightarrow> string" where
  "bytes_string bs = map char_of bs"

lemma bytes_string_bytes [simp]: "bytes_string (string_bytes s) = s"
  by (simp add: bytes_string_def string_bytes_def)

lemma string_bytes_range: "b \<in> set (string_bytes s) \<Longrightarrow> b < 256"
  by (auto simp: string_bytes_def)

subsection \<open>Trimming, case and searching (strings)\<close>

text \<open>On ASCII strings; Go's functions also know the blanks and letters outside ASCII.\<close>

definition is_blank :: "char \<Rightarrow> bool" where
  "is_blank c = (let n = of_char c :: nat in (9 \<le> n \<and> n \<le> 13) \<or> n = 32)"

definition TrimSpace :: "string \<Rightarrow> string" where
  "TrimSpace s = rev (dropWhile is_blank (rev (dropWhile is_blank s)))"

definition to_upper :: "char \<Rightarrow> char" where
  "to_upper c = (let n = of_char c :: nat in if 97 \<le> n \<and> n \<le> 122 then char_of (n - 32) else c)"

definition ToUpper :: "string \<Rightarrow> string" where
  "ToUpper s = map to_upper s"

definition to_lower :: "char \<Rightarrow> char" where
  "to_lower c = (let n = of_char c :: nat in if 65 \<le> n \<and> n \<le> 90 then char_of (n + 32) else c)"

definition ToLower :: "string \<Rightarrow> string" where
  "ToLower s = map to_lower s"

text \<open>\<open>strings.Contains\<close>, with the pattern first.\<close>

fun occurs_in :: "string \<Rightarrow> string \<Rightarrow> bool" where
  "occurs_in pat [] \<longleftrightarrow> pat = []"
| "occurs_in pat (c # cs) \<longleftrightarrow> take (length pat) (c # cs) = pat \<or> occurs_in pat cs"

lemma occurs_prefix: "occurs_in pat (pat @ s)"
proof (cases "pat @ s")
  case (Cons a list)
  moreover have "take (length pat) (a # list) = pat" unfolding Cons[symmetric] by simp
  ultimately show ?thesis by simp
qed simp

lemma occurs_later: "occurs_in pat s \<Longrightarrow> occurs_in pat (t @ s)"
  by (induction t) auto


end
