(* ===== verification/Pagination.thy ===== *)
theory Pagination
  imports Gorm Decimal
begin

section \<open>Pagination (utils/pagination.go, services/pagination\_service.go, middleware/pagination.go)\<close>

text \<open>
  Page-number pagination over a GORM query with its links and metadata, the global page-size
  middleware, and the Relay cursors. \<open>Paginate\<close> computes the number of pages as
  \<open>int(math.Ceil(float64(total) / float64(limit)))\<close>; for totals below \<open>2 ^ 53\<close> the float
  quotient rounds to the same side of every integer as the exact one, so the model takes the
  exact ceiling. A zero limit divides by zero in floating point; the conversion of the infinite
  (or NaN) quotient is what amd64 computes, the least \<open>int64\<close>.
\<close>

abbreviation DefaultPageSize :: int where "DefaultPageSize \<equiv> 10"
abbreviation MAX_PAGE_SIZE :: int where "MAX_PAGE_SIZE \<equiv> 100"

definition ClampPageSize :: "int \<Rightarrow> int" where
  "ClampPageSize limit =
     (if limit \<le> 0 then DefaultPageSize else if limit > MAX_PAGE_SIZE then MAX_PAGE_SIZE else limit)"

record Links =
  lk_Self :: string
  lk_First :: string
  lk_Prev :: string
  lk_Next :: string
  lk_Last :: string

record 'r Pagination =
  pg_Limit :: int
  pg_Page :: int
  pg_Total :: int
  pg_TotalPages :: int
  pg_HasNext :: bool
  pg_HasPrev :: bool
  pg_Links :: Links
  pg_Data :: "'r list"

text \<open>The query string of a request: \<open>c.Query\<close> is the empty string for a missing parameter,
  \<open>c.DefaultQuery\<close> the given default.\<close>

type_synonym query_params = "string \<Rightarrow> string option"

definition Query :: "query_params \<Rightarrow> string \<Rightarrow> string" where
  "Query ps p = (case ps p of None \<Rightarrow> '''' | Some v \<Rightarrow> v)"

definition DefaultQuery :: "query_params \<Rightarrow> string \<Rightarrow> string \<Rightarrow> string" where
  "DefaultQuery ps p d = (case ps p of None \<Rightarrow> d | Some v \<Rightarrow> v)"

definition GetPaginationParams :: "query_params \<Rightarrow> int \<times> int" where
  "GetPaginationParams ps =
     (let limit = ClampPageSize (fst (Atoi (DefaultQuery ps ''limit'' ''10'')));
          page = fst (Atoi (DefaultQuery ps ''page'' ''1''))
      in (if page \<le> 0 then 1 else page, limit))"

definition page_link :: "string \<Rightarrow> int \<Rightarrow> int \<Rightarrow> string" where
  "page_link basePath page limit =
     basePath @ ''?page='' @ show_int page @ ''&limit='' @ show_int limit"

definition ceil_pages :: "int \<Rightarrow> int \<Rightarrow> int" where
  "ceil_pages nrows limit =
     (if limit = 0 then - (2 ^ 63)
      else if limit < 0 then - (nrows div (- limit))
      else - ((- nrows) div limit))"

definition offset_limit :: "int \<Rightarrow> int \<Rightarrow> 'r query \<Rightarrow> 'r query" where
  "offset_limit offset limit q =
     q\<lparr> q_offset := nat offset, q_limit := (if limit < 0 then None else Some (nat limit)) \<rparr>"

definition Paginate :: "'r gorm \<Rightarrow> string \<Rightarrow> 'r query \<Rightarrow> int \<Rightarrow> int \<Rightarrow> 'r list \<Rightarrow>
    dberr + 'r Pagination \<times> string" where
  "Paginate g basePath q page limit rows =
     and_then (g_count g (q_where q) rows) (\<lambda>nrows.
     and_then (g_find g (offset_limit (mul64 (sub64 page 1) limit) limit q) rows) (\<lambda>value.
       let pages = ceil_pages nrows limit;
           totalPages = (if pages = 0 \<and> nrows > 0 then 1 else pages);
           links = \<lparr> lk_Self = page_link basePath page limit,
                     lk_First = page_link basePath 1 limit,
                     lk_Prev = (if page > 1 then page_link basePath (sub64 page 1) limit else ''''),
                     lk_Next = (if page < totalPages then page_link basePath (add64 page 1) limit else ''''),
                     lk_Last = page_link basePath totalPages limit \<rparr>;
           linkHeader =
             ''<'' @ lk_Self links @ ''>; rel=\"self\", <'' @ lk_First links @ ''>; rel=\"first\", <'' @
             lk_Last links @ ''>; rel=\"last\"'' @
             (if lk_Prev links \<noteq> '''' then '', <'' @ lk_Prev links @ ''>; rel=\"prev\"'' else '''') @
             (if lk_Next links \<noteq> '''' then '', <'' @ lk_Next links @ ''>; rel=\"next\"'' else '''')
       in Inr (\<lparr> pg_Limit = limit, pg_Page = page, pg_Total = nrows, pg_TotalPages = totalPages,
                 pg_HasNext = (page < totalPages), pg_HasPrev = (page > 1),
                 pg_Links = links, pg_Data = value \<rparr>, linkHeader)))"

subsection \<open>Handler and middleware limits\<close>

definition clampPageLimit :: "int \<Rightarrow> int" where
  "clampPageLimit limit =
     (if limit \<le> 0 then DefaultPageSize else if limit > MAX_PAGE_SIZE then MAX_PAGE_SIZE else limit)"

definition pageSizeParams :: "string list" where
  "pageSizeParams = [''limit'', ''page_size'']"

text \<open>\<open>None\<close> is \<open>c.Next()\<close>; otherwise the parameter the request is rejected for.\<close>

fun check_page_params :: "query_params \<Rightarrow> string list \<Rightarrow> string option" where
  "check_page_params ps [] = None"
| "check_page_params ps (param # rest) =
     (let raw = Query ps param
      in if raw = '''' then check_page_params ps rest
         else case Atoi raw of
                (_, Some _) \<Rightarrow> check_page_params ps rest
              | (value, None) \<Rightarrow>
                  if value > MAX_PAGE_SIZE then Some param else check_page_params ps rest)"

definition EnforcePaginationLimits :: "query_params \<Rightarrow> string option" where
  "EnforcePaginationLimits ps = check_page_params ps pageSizeParams"

subsection \<open>Relay cursors\<close>

abbreviation defaultPageSize :: int where "defaultPageSize \<equiv> 20"
abbreviation maxPageSize :: int where "maxPageSize \<equiv> 100"

definition cursorPrefix :: string where
  "cursorPrefix = ''cursor:''"

record PageInfo =
  pi_HasNextPage :: bool
  pi_HasPreviousPage :: bool
  pi_StartCursor :: "string option"
  pi_EndCursor :: "string option"

definition EncodeCursor :: "nat \<Rightarrow> string" where
  "EncodeCursor rid = b64_encode (string_bytes (cursorPrefix @ show_nat rid))"

definition DecodeCursor :: "string \<Rightarrow> string + nat" where
  "DecodeCursor cursor =
     (if cursor = '''' then Inr 0
      else case b64_decode cursor of
             None \<Rightarrow> Inl ''invalid cursor encoding''
           | Some b \<Rightarrow>
               (let raw = bytes_string b
                in if take (length cursorPrefix) raw \<noteq> cursorPrefix then Inl ''invalid cursor format''
                   else case ParseUint (drop (length cursorPrefix) raw) of
                          Inl _ \<Rightarrow> Inl ''invalid cursor value''
                        | Inr rid \<Rightarrow> Inr rid))"

definition NormalizePaginationArgs ::
  "int option \<Rightarrow> int option \<Rightarrow> string \<Rightarrow> string \<Rightarrow> string + int \<times> nat \<times> nat \<times> bool" where
  "NormalizePaginationArgs first lst after before =
     (case DecodeCursor after of
        Inl e \<Rightarrow> Inl (''invalid after cursor: '' @ e)
      | Inr afterID \<Rightarrow>
          (case DecodeCursor before of
             Inl e \<Rightarrow> Inl (''invalid before cursor: '' @ e)
           | Inr beforeID \<Rightarrow>
               (let (forward, limit) =
                      (case lst of
                         Some l \<Rightarrow> if before \<noteq> '''' then (False, l)
                                   else (True, case first of Some f \<Rightarrow> f | None \<Rightarrow> defaultPageSize)
                       | None \<Rightarrow> (True, case first of Some f \<Rightarrow> f | None \<Rightarrow> defaultPageSize));
                    limit1 = (if limit \<le> 0 then defaultPageSize else limit);
                    limit2 = (if limit1 > maxPageSize then maxPageSize else limit1)
                in Inr (limit2, afterID, beforeID, forward))))"

definition BuildPageInfo :: "bool \<Rightarrow> bool \<Rightarrow> nat \<Rightarrow> nat \<Rightarrow> PageInfo" where
  "BuildPageInfo hasNext hasPrev startID endID =
     \<lparr> pi_HasNextPage = hasNext, pi_HasPreviousPage = hasPrev,
       pi_StartCursor = (if startID > 0 then Some (EncodeCursor startID) else None),
       pi_EndCursor = (if endID > 0 then Some (EncodeCursor endID) else None) \<rparr>"

subsection \<open>Lemmas\<close>

lemma ceil_pages_less:
  assumes "0 < limit"
  shows "page < ceil_pages nrows limit \<longleftrightarrow> page * limit < nrows"
proof -
  have "page < - ((- nrows) div limit) \<longleftrightarrow> (- nrows) div limit < - page" by linarith
  also have "\<dots> \<longleftrightarrow> - nrows < (- page) * limit" using assms by (rule div_less_iff)
  also have "\<dots> \<longleftrightarrow> page * limit < nrows" by auto
  finally show ?thesis using assms by (simp add: ceil_pages_def)
qed

lemma ceil_pages_pos: "0 < limit \<Longrightarrow> 0 < nrows \<Longrightarrow> 0 < ceil_pages nrows limit"
  using ceil_pages_less[of limit 0 nrows] by simp

lemma PaginateD:
  assumes "gorm_ok key setkey g" "is_order (q_order q)"
    and "Paginate g base q page limit rows = Inr (pg, hdr)"
  obtains data where "query_result (offset_limit (mul64 (sub64 page 1) limit) limit q) rows data"
    "pg_Data pg = data" "pg_Total pg = int (length (filter (q_where q) rows))"
    "pg_HasNext pg \<longleftrightarrow> page < (if ceil_pages (pg_Total pg) limit = 0 \<and> pg_Total pg > 0 then 1
                              else ceil_pages (pg_Total pg) limit)"
    "pg_HasPrev pg \<longleftrightarrow> page > 1"
proof -
  from assms(3) obtain nrows data
    where c: "g_count g (q_where q) rows = Inr nrows"
      and f: "g_find g (offset_limit (mul64 (sub64 page 1) limit) limit q) rows = Inr data"
      and p: "pg_Data pg = data" "pg_Total pg = nrows"
        "pg_HasNext pg \<longleftrightarrow> page < (if ceil_pages nrows limit = 0 \<and> nrows > 0 then 1 else ceil_pages nrows limit)"
        "pg_HasPrev pg \<longleftrightarrow> page > 1"
    unfolding Paginate_def by (auto simp: Let_def)
  have "q_order (offset_limit (mul64 (sub64 page 1) limit) limit q) = q_order q"
    by (simp add: offset_limit_def)
  with f have "query_result (offset_limit (mul64 (sub64 page 1) limit) limit q) rows data"
    using gorm_find[OF assms(1)] assms(2) by metis
  with p show ?thesis using gorm_count[OF assms(1) c] that by simp
qed

lemma DecodeCursor_Encode:
  assumes "rid < 2 ^ 64"
  shows "DecodeCursor (EncodeCursor rid) = Inr rid"
proof -
  have "b64_decode (EncodeCursor rid) = Some (string_bytes (cursorPrefix @ show_nat rid))"
    unfolding EncodeCursor_def using string_bytes_range by (intro b64_roundtrip) blast
  moreover from this have "EncodeCursor rid \<noteq> ''''"
    by (auto simp: b64_decode_def string_bytes_def)
  ultimately show ?thesis
    using assms by (simp add: DecodeCursor_def Let_def ParseUint_show_nat)
qed

subsection \<open>Properties\<close>

text \<open>The page metadata is right. When a page of a query is served (page and limit positive, no
  overflow in the offset), the page holds exactly as many rows as remain after the earlier pages, at most
  \<open>limit\<close>; every row satisfies the query; and \<open>has_next\<close> is reported exactly when
  rows remain after this page.\<close>

theorem paginate_metadata:
  assumes "gorm_ok key setkey g" "is_order (q_order q)" "q_offset q = 0" "q_limit q = None"
    and "1 \<le> page" "1 \<le> limit" "in_i64 page" "in_i64 ((page - 1) * limit)"
    and "Paginate g base q page limit rows = Inr (pg, hdr)"
  shows "int (length (pg_Data pg)) = min limit (max 0 (pg_Total pg - (page - 1) * limit)) \<and>
    set (pg_Data pg) \<subseteq> {r \<in> set rows. q_where q r} \<and>
    (pg_HasNext pg \<longleftrightarrow> page * limit < pg_Total pg) \<and> (pg_HasPrev pg \<longleftrightarrow> 1 < page)"
proof -
  obtain data where qr: "query_result (offset_limit (mul64 (sub64 page 1) limit) limit q) rows data"
    and pg: "pg_Data pg = data" "pg_Total pg = int (length (filter (q_where q) rows))"
      "pg_HasNext pg \<longleftrightarrow> page < (if ceil_pages (pg_Total pg) limit = 0 \<and> pg_Total pg > 0 then 1
                              else ceil_pages (pg_Total pg) limit)"
      "pg_HasPrev pg \<longleftrightarrow> page > 1"
    by (rule PaginateD[OF assms(1,2,9)])
  have off: "mul64 (sub64 page 1) limit = (page - 1) * limit"
    using assms(5,7,8) by (simp add: mul64_exact sub64_exact in_i64_def)
  obtain all where all: "mset all = mset (filter (q_where q) rows)"
    and d: "data = take (nat limit) (drop (nat ((page - 1) * limit)) all)"
    using qr assms(6) by (auto simp: query_result_def offset_limit_def off)
  have len: "int (length all) = pg_Total pg" using all pg(2) by (metis size_mset)
  have "0 \<le> (page - 1) * limit" using assms(5,6) by simp
  then have n: "int (length data) = min limit (max 0 (pg_Total pg - (page - 1) * limit))"
    using assms(6) by (simp add: d len[symmetric])
  have sub: "set data \<subseteq> {r \<in> set rows. q_where q r}"
  proof -
    have "set all = {r \<in> set rows. q_where q r}" using all by (metis set_mset_mset set_filter)
    then show ?thesis unfolding d by (metis order_trans set_take_subset set_drop_subset)
  qed
  have "\<not> (ceil_pages (pg_Total pg) limit = 0 \<and> pg_Total pg > 0)"
    using ceil_pages_pos[of limit "pg_Total pg"] assms(6) by auto
  then have "pg_HasNext pg \<longleftrightarrow> page * limit < pg_Total pg"
    using pg(3) ceil_pages_less[of limit page "pg_Total pg"] assms(6) by auto
  with n sub pg show ?thesis by simp
qed

theorem paginate_metadata_witness:
  "let g = mem_gorm (\<lambda>r. r) (\<lambda>k _. k); rows = [1, 2, 3, 4, 5 :: nat];
       pg = \<lparr> pg_Limit = 2, pg_Page = 2, pg_Total = 5, pg_TotalPages = 3, pg_HasNext = True, pg_HasPrev = True,
              pg_Links = \<lparr> lk_Self = ''/p?page=2&limit=2'', lk_First = ''/p?page=1&limit=2'',
                 lk_Prev = ''/p?page=1&limit=2'', lk_Next = ''/p?page=3&limit=2'', lk_Last = ''/p?page=3&limit=2'' \<rparr>,
              pg_Data = [3, 4] \<rparr>
   in (\<exists>hdr. Paginate g ''/p'' (Where (\<lambda>r. r > 0)) 2 2 rows = Inr (pg, hdr)) \<and>
      int (length (pg_Data pg)) = min 2 (max 0 (pg_Total pg - (2 - 1) * 2)) \<and> pg_HasNext pg"
proof -
  let ?g = "mem_gorm (\<lambda>r. r) (\<lambda>k _. k) :: nat gorm"
  let ?pg = "\<lparr> pg_Limit = 2, pg_Page = 2, pg_Total = 5, pg_TotalPages = 3, pg_HasNext = True, pg_HasPrev = True,
              pg_Links = \<lparr> lk_Self = ''/p?page=2&limit=2'', lk_First = ''/p?page=1&limit=2'',
                 lk_Prev = ''/p?page=1&limit=2'', lk_Next = ''/p?page=3&limit=2'', lk_Last = ''/p?page=3&limit=2'' \<rparr>,
              pg_Data = [3, 4 :: nat] \<rparr>"
  let ?hdr = "''</p?page=2&limit=2>; rel=\"self\", </p?page=1&limit=2>; rel=\"first\", </p?page=3&limit=2>; rel=\"last\", </p?page=1&limit=2>; rel=\"prev\", </p?page=3&limit=2>; rel=\"next\"''"
  have run: "Paginate ?g ''/p'' (Where (\<lambda>r. r > 0)) 2 2 [1, 2, 3, 4, 5] = Inr (?pg, ?hdr)"
    by code_simp
  have "int (length (pg_Data ?pg)) = min 2 (max 0 (pg_Total ?pg - (2 - 1) * 2)) \<and>
    set (pg_Data ?pg) \<subseteq> {r \<in> set [1, 2, 3, 4, 5]. q_where (Where (\<lambda>r. r > 0)) r} \<and>
    (pg_HasNext ?pg \<longleftrightarrow> 2 * 2 < pg_Total ?pg) \<and> (pg_HasPrev ?pg \<longleftrightarrow> (1::int) < 2)"
    by (rule paginate_metadata[OF mem_gorm_ok _ _ _ _ _ _ _ run]) (simp_all add: in_i64_def)
  with run show ?thesis by (auto simp: Let_def)
qed

text \<open>Cursors round-trip: decoding the cursor of any 64-bit record ID gives that ID back, and the cursors
  of a page built by \<open>BuildPageInfo\<close> are accepted as \<open>after\<close>/\<open>before\<close> arguments, with a limit
  between 1 and 100.\<close>

theorem cursor_roundtrip:
  assumes "startID < 2 ^ 64" "endID < 2 ^ 64" "0 < startID" "0 < endID"
  shows "\<exists>s e. pi_StartCursor (BuildPageInfo n p startID endID) = Some s \<and>
               pi_EndCursor (BuildPageInfo n p startID endID) = Some e \<and>
               DecodeCursor s = Inr startID \<and> DecodeCursor e = Inr endID \<and>
               (\<exists>l fw. NormalizePaginationArgs first lst e s = Inr (l, endID, startID, fw) \<and> 1 \<le> l \<and> l \<le> 100)"
  using assms DecodeCursor_Encode[OF assms(1)] DecodeCursor_Encode[OF assms(2)]
  by (simp add: BuildPageInfo_def NormalizePaginationArgs_def Let_def split: prod.splits)

theorem cursor_roundtrip_witness:
  "EncodeCursor 7 = ''Y3Vyc29yOjc='' \<and> DecodeCursor ''Y3Vyc29yOjc='' = Inr 7 \<and>
   DecodeCursor (EncodeCursor 18446744073709551615) = Inr 18446744073709551615"
proof -
  have "\<exists>s e. pi_StartCursor (BuildPageInfo True False 7 18446744073709551615) = Some s \<and>
      pi_EndCursor (BuildPageInfo True False 7 18446744073709551615) = Some e \<and>
      DecodeCursor s = Inr 7 \<and> DecodeCursor e = Inr 18446744073709551615 \<and>
      (\<exists>l fw. NormalizePaginationArgs None None e s = Inr (l, 18446744073709551615, 7, fw) \<and> 1 \<le> l \<and> l \<le> 100)"
    by (rule cursor_roundtrip) simp_all
  moreover have "EncodeCursor 7 = ''Y3Vyc29yOjc=''" by code_simp
  ultimately show ?thesis by (simp add: BuildPageInfo_def)
qed

text \<open>The pagination middleware does not bound the page size: a \<open>limit\<close> that does not fit 64 bits, or a
  negative one, is let through, although its documentation promises that every explicit oversized value is rejected.
  The clamp in \<open>GetPaginationParams\<close> is what bounds the limit, for every request.\<close>

theorem page_size_bound:
  "EnforcePaginationLimits [''limit'' \<mapsto> ''101''] = Some ''limit'' \<and>
   EnforcePaginationLimits [''limit'' \<mapsto> ''9223372036854775808''] = None \<and>
   EnforcePaginationLimits [''limit'' \<mapsto> ''-1''] = None \<and>
   (1 \<le> fst (GetPaginationParams ps) \<and> 1 \<le> snd (GetPaginationParams ps) \<and> snd (GetPaginationParams ps) \<le> 100)"
proof (intro conjI)
  show "EnforcePaginationLimits [''limit'' \<mapsto> ''101''] = Some ''limit''"
    "EnforcePaginationLimits [''limit'' \<mapsto> ''9223372036854775808''] = None"
    "EnforcePaginationLimits [''limit'' \<mapsto> ''-1''] = None"
    by (simp_all add: EnforcePaginationLimits_def pageSizeParams_def Query_def Atoi_def digit_val_def)
qed (simp_all add: GetPaginationParams_def ClampPageSize_def Let_def)

end
