(* ===== verification/FloatSqrt.thy ===== *)
theory FloatSqrt
  imports GoPrelude
begin

section \<open>The float64 square root of an integer product\<close>

text \<open>
  \<open>handlers/liquidity.go\<close> computes \<open>int64(math.Sqrt(float64(a) * float64(b)))\<close> for positive
  \<open>int64\<close> values. Every double that occurs before the root is a non-negative integer below
  \<open>2 ^ 127\<close>, so the computation is modelled exactly on integers: \<open>f64\<close> rounds an
  integer to 53 significant bits, to nearest and ties to even; \<open>sqrt_trunc\<close> rounds the root
  of an integer the same way and truncates the result. A tie cannot occur in the first branch of \<open>sqrt_trunc\<close>
  (a root with 54 significant bits has a square with more than 53).
\<close>

function bits :: "int \<Rightarrow> nat" where
  "bits n = (if n \<le> 0 then 0 else Suc (bits (n div 2)))"
  by auto
termination by (relation "measure nat") auto

declare bits.simps [simp del]

function isqrt :: "int \<Rightarrow> int" where
  "isqrt n = (if n \<le> 0 then 0
              else let r = 2 * isqrt (n div 4) in if (r + 1) * (r + 1) \<le> n then r + 1 else r)"
  by auto
termination by (relation "measure nat") auto

declare isqrt.simps [simp del]

definition f64 :: "int \<Rightarrow> int" where
  "f64 n =
     (let e = bits n - 53; q = n div 2 ^ e; r = n mod 2 ^ e
      in if e = 0 then n
         else if 2 ^ (e - 1) < r \<or> (r = 2 ^ (e - 1) \<and> odd q) then (q + 1) * 2 ^ e
         else q * 2 ^ e)"

definition sqrt_trunc :: "int \<Rightarrow> int" where
  "sqrt_trunc x =
     (let b = bits (isqrt x)
      in if b \<le> 53
         then let k = 53 - b; y = x * 4 ^ k; m = isqrt y
              in (if m * m + m < y then m + 1 else m) div 2 ^ k
         else let j = b - 53; m = isqrt x div 2 ^ j; mid = (2 * m + 1) * 2 ^ (j - 1)
              in (if mid * mid < x \<or> (mid * mid = x \<and> odd m) then m + 1 else m) * 2 ^ j)"

definition geometric_mean :: "int \<Rightarrow> int \<Rightarrow> int" where
  "geometric_mean a b = i64 (sqrt_trunc (f64 (f64 a * f64 b)))"

lemma in_i64_geometric_mean [simp]: "in_i64 (geometric_mean a b)"
  by (simp add: geometric_mean_def)

lemma sq_mono: "0 \<le> x \<Longrightarrow> x \<le> y \<Longrightarrow> x * x \<le> y * (y::int)"
  by (rule mult_mono) auto

lemma isqrt_bounds: "0 \<le> n \<Longrightarrow> 0 \<le> isqrt n \<and> isqrt n * isqrt n \<le> n \<and> n < (isqrt n + 1) * (isqrt n + 1)"
proof (induction n rule: isqrt.induct)
  case (1 n)
  show ?case
  proof (cases "n \<le> 0")
    case True
    then show ?thesis using 1(2) by (simp add: isqrt.simps)
  next
    case False
    define s where "s = isqrt (n div 4)"
    have "0 \<le> s" "s * s \<le> n div 4" "n div 4 < (s + 1) * (s + 1)"
      using 1 False by (simp_all add: s_def)
    then have "0 \<le> s" "4 * (s * s) \<le> n" "n < 4 * ((s + 1) * (s + 1))" by linarith+
    then show ?thesis
      using False by (subst (1 2 3 4 5) isqrt.simps) (auto simp: s_def[symmetric] Let_def algebra_simps)
  qed
qed

lemma bits_le: "n < 2 ^ k \<Longrightarrow> bits n \<le> k"
proof (induction n arbitrary: k rule: bits.induct)
  case (1 n)
  show ?case
  proof (cases "n \<le> 0")
    case False
    then obtain j where "k = Suc j" using 1(2) by (cases k) auto
    with 1 False show ?thesis by (subst bits.simps) auto
  qed (simp add: bits.simps)
qed

lemma f64_exact: "n < 2 ^ 53 \<Longrightarrow> f64 n = n"
  using bits_le[of n 53] by (simp add: f64_def Let_def)

text \<open>Below \<open>2 ^ 52\<close> the rounding of the root never reaches the next integer.\<close>

lemma sqrt_trunc_exact:
  assumes "0 \<le> x" "x < 2 ^ 52"
  shows "sqrt_trunc x = isqrt x"
proof -
  define s where "s = isqrt x"
  have s: "0 \<le> s" "s * s \<le> x" "x < (s + 1) * (s + 1)" using isqrt_bounds[OF assms(1)] by (simp_all add: s_def)
  have "s < 2 ^ 26"
  proof (rule ccontr)
    assume "\<not> s < 2 ^ 26"
    then have "2 ^ 26 * 2 ^ 26 \<le> s * s" by (intro sq_mono) auto
    with s(2) assms show False by simp
  qed
  then have b: "bits s \<le> 26" by (rule bits_le)
  define k where "k = 53 - bits s"
  have "(2::int) ^ 27 \<le> 2 ^ k" using b by (intro power_increasing) (auto simp: k_def)
  with \<open>s < 2 ^ 26\<close> have sk: "s + 1 < 2 ^ k" by simp
  define M where "M = (2::int) ^ k"
  have M0: "M > 0" by (simp add: M_def)
  have M4: "4 ^ k = M * M" by (simp add: M_def power_mult_distrib[symmetric])
  define m where "m = isqrt (x * (M * M))"
  have m: "0 \<le> m" "m * m \<le> x * (M * M)" "x * (M * M) < (m + 1) * (m + 1)"
    using isqrt_bounds[of "x * (M * M)"] assms(1) M0 by (simp_all add: m_def)
  define r where "r = (if m * m + m < x * (M * M) then m + 1 else m)"
  have "s * M \<le> m"
  proof (rule ccontr)
    assume "\<not> s * M \<le> m"
    then have "(m + 1) * (m + 1) \<le> (s * M) * (s * M)" using m(1) by (intro sq_mono) auto
    also have "\<dots> = (s * s) * (M * M)" by simp
    also have "\<dots> \<le> x * (M * M)" using s(2) M0 by (intro mult_right_mono) auto
    finally show False using m(3) by linarith
  qed
  then have lower: "s * M \<le> r" by (simp add: r_def)
  have upper: "r < (s + 1) * M"
  proof (rule ccontr)
    assume "\<not> r < (s + 1) * M"
    then have r: "(s + 1) * M \<le> r" by simp
    define R where "R = (s + 1) * M"
    have R0: "0 \<le> R" using s(1) M0 by (simp add: R_def)
    have gap: "x * (M * M) + M * M \<le> R * R"
    proof -
      have "(x + 1) * (M * M) \<le> ((s + 1) * (s + 1)) * (M * M)" using s(3) M0 by (intro mult_right_mono) auto
      then show ?thesis by (simp add: R_def algebra_simps)
    qed
    have MM: "0 < M * M" using M0 by simp
    show False
    proof (cases "R \<le> m")
      case True
      then have "R * R \<le> m * m" using R0 by (intro sq_mono)
      with gap m(2) MM show False by linarith
    next
      case False
      with r have "R = m + 1" "m * m + m < x * (M * M)"
        by (simp_all add: r_def R_def split: if_splits)
      then have "M * M < m + 1" using gap by (simp add: algebra_simps)
      then have "M * M < (s + 1) * M" using \<open>R = m + 1\<close> by (simp add: R_def)
      then have "M < s + 1" using M0 by (simp add: mult_less_cancel_right)
      with sk show False by (simp add: M_def)
    qed
  qed
  have "r div M = s"
    using le_div_iff[OF M0, of s r] div_less_iff[OF M0, of r "s + 1"] lower upper by linarith
  then show ?thesis
    using b by (simp add: sqrt_trunc_def Let_def s_def[symmetric] k_def[symmetric] M4 r_def m_def M_def[symmetric]
        split: if_splits)
qed

lemma geometric_mean_exact:
  assumes "0 < a" "0 < b" "a * b < 2 ^ 52"
  shows "geometric_mean a b = isqrt (a * b)"
proof -
  have "a * 1 \<le> a * b" "1 * b \<le> a * b" using assms by (intro mult_mono; simp)+
  then have lt: "a < 2 ^ 53" "b < 2 ^ 53" "a * b < 2 ^ 53" using assms(3) by simp_all
  have nn: "0 \<le> a * b" using assms by simp
  have "isqrt (a * b) * 1 \<le> isqrt (a * b) * isqrt (a * b) \<or> isqrt (a * b) = 0"
    using isqrt_bounds[OF nn] by (cases "isqrt (a * b) = 0") (auto intro: mult_left_mono)
  then have "0 \<le> isqrt (a * b)" "isqrt (a * b) \<le> a * b" using isqrt_bounds[OF nn] by auto
  then show ?thesis
    using lt assms by (simp add: geometric_mean_def f64_exact sqrt_trunc_exact nn i64_id in_i64_def)
qed

end
