(* ===== verification/Liquidity.thy ===== *)
theory Liquidity
  imports Pagination FloatSqrt
begin

section \<open>AMM liquidity pools (handlers/liquidity.go)\<close>

text \<open>
  Constant-product pools: create, deposit, withdraw, swap, and the fee credit to providers, on
  the tables of \<open>models/liquidity.go\<close>. Amounts are \<open>int64\<close> with wrap-around. The request is
  what \<open>ShouldBindJSON\<close> produced: \<open>Inl\<close> its error message, or the bound struct, for which
  \<open>bound\<close> states what the binding tags guarantee. Each handler that writes is the composition of a
  reading phase on the tables it sees first and a transaction on the tables at commit time; a
  handler running alone sees the same tables in both.
\<close>

record LiquidityPool =
  pool_ID :: nat
  pool_AssetAID :: nat
  pool_AssetBID :: nat
  pool_ReserveA :: int
  pool_ReserveB :: int
  pool_TotalLPTokens :: int
  pool_FeeBasisPoints :: int
  pool_CreatorAddress :: string
  pool_Active :: bool

record LiquidityPosition =
  pos_ID :: nat
  pos_PoolID :: nat
  pos_ProviderAddress :: string
  pos_LPTokens :: int
  pos_DepositedA :: int
  pos_DepositedB :: int
  pos_FeesEarned :: int

record PoolSwap =
  swap_ID :: nat
  swap_PoolID :: nat
  swap_TraderAddress :: string
  swap_InputAssetID :: nat
  swap_OutputAssetID :: nat
  swap_InputAmount :: int
  swap_OutputAmount :: int
  swap_FeeAmount :: int
  swap_PriceImpactBps :: int
  swap_CreatedAt :: instant

record createPoolRequest =
  cp_AssetAID :: nat
  cp_AssetBID :: nat
  cp_CreatorAddress :: string
  cp_FeeBasisPoints :: int

record addLiquidityRequest =
  al_PoolID :: nat
  al_ProviderAddress :: string
  al_AmountA :: int
  al_AmountB :: int

record removeLiquidityRequest =
  rl_PoolID :: nat
  rl_ProviderAddress :: string
  rl_LPTokens :: int

record swapRequest =
  sw_PoolID :: nat
  sw_TraderAddress :: string
  sw_InputAssetID :: nat
  sw_InputAmount :: int
  sw_MinOutputAmount :: int

record liq_db =
  t_pools :: "LiquidityPool list"
  t_positions :: "LiquidityPosition list"
  t_swaps :: "PoolSwap list"

record liq_drv =
  d_pools :: "LiquidityPool gorm"
  d_positions :: "LiquidityPosition gorm"
  d_swaps :: "PoolSwap gorm"
  d_tx :: tx_outcome

subsection \<open>CreatePool and GetPool\<close>

definition CreatePool :: "liq_drv \<Rightarrow> string + createPoolRequest \<Rightarrow> liq_db \<Rightarrow> LiquidityPool response \<times> liq_db" where
  "CreatePool drv body db =
     (case body of
        Inl e \<Rightarrow> (Fail StatusBadRequest e, db)
      | Inr req \<Rightarrow>
          if cp_AssetAID req = cp_AssetBID req then (Fail StatusBadRequest ''Pool assets must be different'', db)
          else
            (let (assetAID, assetBID) =
                   (if cp_AssetAID req > cp_AssetBID req then (cp_AssetBID req, cp_AssetAID req)
                    else (cp_AssetAID req, cp_AssetBID req))
             in case g_first (d_pools drv) (\<lambda>p. pool_AssetAID p = assetAID \<and> pool_AssetBID p = assetBID) (t_pools db) of
                  Inr existing \<Rightarrow> (Fail StatusConflict ''Pool already exists for this asset pair'', db)
                | Inl _ \<Rightarrow>
                    (let feeBps = (if cp_FeeBasisPoints req = 0 then 30 else cp_FeeBasisPoints req);
                         pool = \<lparr> pool_ID = 0, pool_AssetAID = assetAID, pool_AssetBID = assetBID,
                                  pool_ReserveA = 0, pool_ReserveB = 0, pool_TotalLPTokens = 0,
                                  pool_FeeBasisPoints = feeBps, pool_CreatorAddress = cp_CreatorAddress req,
                                  pool_Active = True \<rparr>
                     in case g_create (d_pools drv) pool (t_pools db) of
                          Inl _ \<Rightarrow> (Fail StatusInternalServerError ''Failed to create pool'', db)
                        | Inr (pool', pools') \<Rightarrow> (Reply StatusCreated pool', db\<lparr> t_pools := pools' \<rparr>))))"

definition GetPool :: "liq_drv \<Rightarrow> string + nat \<Rightarrow> liq_db \<Rightarrow> LiquidityPool response" where
  "GetPool drv uri db =
     (case uri of
        Inl _ \<Rightarrow> Fail StatusBadRequest ''Invalid pool ID''
      | Inr rid \<Rightarrow>
          (case g_first (d_pools drv) (\<lambda>p. pool_ID p = rid) (t_pools db) of
             Inl _ \<Rightarrow> Fail StatusNotFound ''Pool not found''
           | Inr pool \<Rightarrow> Reply StatusOK pool))"

subsection \<open>AddLiquidity\<close>

text \<open>The LP tokens issued for a deposit; \<open>None\<close> is an integer division by zero.\<close>

definition lp_to_issue :: "addLiquidityRequest \<Rightarrow> LiquidityPool \<Rightarrow> int option" where
  "lp_to_issue req pool =
     (if pool_TotalLPTokens pool = 0
      then Some (geometric_mean (al_AmountA req) (al_AmountB req))
      else if pool_ReserveA pool = 0 \<or> pool_ReserveB pool = 0 then None
      else
        (let lpA = quo64 (mul64 (al_AmountA req) (pool_TotalLPTokens pool)) (pool_ReserveA pool);
             lpB = quo64 (mul64 (al_AmountB req) (pool_TotalLPTokens pool)) (pool_ReserveB pool)
         in Some (if lpB < lpA then lpB else lpA)))"

definition add_read :: "liq_drv \<Rightarrow> addLiquidityRequest \<Rightarrow> liq_db \<Rightarrow>
    (LiquidityPosition \<times> int) response + LiquidityPool \<times> int" where
  "add_read drv req db =
     (case g_first (d_pools drv) (\<lambda>p. pool_ID p = al_PoolID req) (t_pools db) of
        Inl _ \<Rightarrow> Inl (Fail StatusNotFound ''Pool not found'')
      | Inr pool \<Rightarrow>
          if \<not> pool_Active pool then Inl (Fail StatusBadRequest ''Pool is inactive'')
          else case lp_to_issue req pool of
                 None \<Rightarrow> Inl Crash
               | Some lp \<Rightarrow>
                   if lp \<le> 0 then Inl (Fail StatusBadRequest ''Deposit too small to issue LP tokens'')
                   else Inr (pool, lp))"

definition add_pool :: "addLiquidityRequest \<Rightarrow> int \<Rightarrow> LiquidityPool \<Rightarrow> LiquidityPool" where
  "add_pool req lp pool =
     pool\<lparr> pool_ReserveA := add64 (pool_ReserveA pool) (al_AmountA req),
           pool_ReserveB := add64 (pool_ReserveB pool) (al_AmountB req),
           pool_TotalLPTokens := add64 (pool_TotalLPTokens pool) lp \<rparr>"

definition add_position :: "addLiquidityRequest \<Rightarrow> int \<Rightarrow> LiquidityPosition \<Rightarrow> LiquidityPosition" where
  "add_position req lp position =
     position\<lparr> pos_LPTokens := add64 (pos_LPTokens position) lp,
               pos_DepositedA := add64 (pos_DepositedA position) (al_AmountA req),
               pos_DepositedB := add64 (pos_DepositedB position) (al_AmountB req) \<rparr>"

definition new_position :: "nat \<Rightarrow> string \<Rightarrow> LiquidityPosition" where
  "new_position poolID addr =
     \<lparr> pos_ID = 0, pos_PoolID = poolID, pos_ProviderAddress = addr, pos_LPTokens = 0,
       pos_DepositedA = 0, pos_DepositedB = 0, pos_FeesEarned = 0 \<rparr>"

definition find_position :: "nat \<Rightarrow> string \<Rightarrow> LiquidityPosition \<Rightarrow> bool" where
  "find_position poolID addr p \<longleftrightarrow> pos_PoolID p = poolID \<and> pos_ProviderAddress p = addr"

definition add_tx :: "liq_drv \<Rightarrow> addLiquidityRequest \<Rightarrow> LiquidityPool \<Rightarrow> int \<Rightarrow> liq_db \<Rightarrow>
    dberr + LiquidityPosition \<times> liq_db" where
  "add_tx drv req pool lp db =
     (let pool' = add_pool req lp pool
      in and_then (g_save (d_pools drv) pool' (t_pools db)) (\<lambda>pools'.
         and_then (case g_first (d_positions drv) (find_position (pool_ID pool) (al_ProviderAddress req)) (t_positions db) of
                     Inr position \<Rightarrow> Inr position
                   | Inl ErrRecordNotFound \<Rightarrow> Inr (new_position (pool_ID pool) (al_ProviderAddress req))
                   | Inl e \<Rightarrow> Inl e) (\<lambda>position.
           let position' = add_position req lp position
           in if pos_ID position' = 0
              then and_then (g_create (d_positions drv) position' (t_positions db)) (\<lambda>(p, ps).
                     Inr (p, db\<lparr> t_pools := pools', t_positions := ps \<rparr>))
              else and_then (g_save (d_positions drv) position' (t_positions db)) (\<lambda>ps.
                     Inr (position', db\<lparr> t_pools := pools', t_positions := ps \<rparr>)))))"

definition add_commit :: "liq_drv \<Rightarrow> addLiquidityRequest \<Rightarrow> LiquidityPool \<times> int \<Rightarrow> liq_db \<Rightarrow>
    (LiquidityPosition \<times> int) response \<times> liq_db" where
  "add_commit drv req plan db =
     (case transaction (d_tx drv) (add_tx drv req (fst plan) (snd plan)) db of
        (Inl _, db') \<Rightarrow> (Fail StatusInternalServerError ''Failed to add liquidity'', db')
      | (Inr position, db') \<Rightarrow> (Reply StatusOK (position, snd plan), db'))"

definition AddLiquidity :: "liq_drv \<Rightarrow> string + addLiquidityRequest \<Rightarrow> liq_db \<Rightarrow>
    (LiquidityPosition \<times> int) response \<times> liq_db" where
  "AddLiquidity drv body db =
     (case body of
        Inl e \<Rightarrow> (Fail StatusBadRequest e, db)
      | Inr req \<Rightarrow>
          (case add_read drv req db of
             Inl resp \<Rightarrow> (resp, db)
           | Inr plan \<Rightarrow> add_commit drv req plan db))"

subsection \<open>RemoveLiquidity\<close>

definition withdrawal :: "int \<Rightarrow> LiquidityPool \<Rightarrow> int \<times> int" where
  "withdrawal lp pool =
     (quo64 (mul64 lp (pool_ReserveA pool)) (pool_TotalLPTokens pool),
      quo64 (mul64 lp (pool_ReserveB pool)) (pool_TotalLPTokens pool))"

definition remove_read :: "liq_drv \<Rightarrow> removeLiquidityRequest \<Rightarrow> liq_db \<Rightarrow>
    (int \<times> int \<times> LiquidityPosition) response + LiquidityPool \<times> LiquidityPosition" where
  "remove_read drv req db =
     (case g_first (d_pools drv) (\<lambda>p. pool_ID p = rl_PoolID req) (t_pools db) of
        Inl _ \<Rightarrow> Inl (Fail StatusNotFound ''Pool not found'')
      | Inr pool \<Rightarrow>
          (case g_first (d_positions drv) (find_position (rl_PoolID req) (rl_ProviderAddress req)) (t_positions db) of
             Inl _ \<Rightarrow> Inl (Fail StatusNotFound ''Liquidity position not found'')
           | Inr position \<Rightarrow>
               if rl_LPTokens req > pos_LPTokens position then Inl (Fail StatusBadRequest ''Insufficient LP tokens'')
               else if pool_TotalLPTokens pool = 0 then Inl (Fail StatusBadRequest ''Pool has no liquidity'')
               else Inr (pool, position)))"

definition remove_pool :: "int \<Rightarrow> LiquidityPool \<Rightarrow> LiquidityPool" where
  "remove_pool lp pool =
     (let (withdrawA, withdrawB) = withdrawal lp pool;
          a = sub64 (pool_ReserveA pool) withdrawA; b = sub64 (pool_ReserveB pool) withdrawB
      in pool\<lparr> pool_ReserveA := (if a < 0 then 0 else a), pool_ReserveB := (if b < 0 then 0 else b),
               pool_TotalLPTokens := sub64 (pool_TotalLPTokens pool) lp \<rparr>)"

definition remove_tx :: "liq_drv \<Rightarrow> int \<Rightarrow> LiquidityPool \<Rightarrow> LiquidityPosition \<Rightarrow> liq_db \<Rightarrow>
    dberr + LiquidityPosition \<times> liq_db" where
  "remove_tx drv lp pool position db =
     and_then (g_save (d_pools drv) (remove_pool lp pool) (t_pools db)) (\<lambda>pools'.
       let position' = position\<lparr> pos_LPTokens := sub64 (pos_LPTokens position) lp \<rparr>
       in and_then (g_save (d_positions drv) position' (t_positions db)) (\<lambda>ps.
            Inr (position', db\<lparr> t_pools := pools', t_positions := ps \<rparr>)))"

definition RemoveLiquidity :: "liq_drv \<Rightarrow> string + removeLiquidityRequest \<Rightarrow> liq_db \<Rightarrow>
    (int \<times> int \<times> LiquidityPosition) response \<times> liq_db" where
  "RemoveLiquidity drv body db =
     (case body of
        Inl e \<Rightarrow> (Fail StatusBadRequest e, db)
      | Inr req \<Rightarrow>
          (case remove_read drv req db of
             Inl resp \<Rightarrow> (resp, db)
           | Inr (pool, position) \<Rightarrow>
               (let (withdrawA, withdrawB) = withdrawal (rl_LPTokens req) pool
                in case transaction (d_tx drv) (remove_tx drv (rl_LPTokens req) pool position) db of
                     (Inl _, db') \<Rightarrow> (Fail StatusInternalServerError ''Failed to remove liquidity'', db')
                   | (Inr position', db') \<Rightarrow> (Reply StatusOK (withdrawA, withdrawB, position'), db'))))"

subsection \<open>Swap\<close>

definition swap_sides :: "nat \<Rightarrow> LiquidityPool \<Rightarrow> (int \<times> int \<times> nat) option" where
  "swap_sides asset pool =
     (if asset = pool_AssetAID pool then Some (pool_ReserveA pool, pool_ReserveB pool, pool_AssetBID pool)
      else if asset = pool_AssetBID pool then Some (pool_ReserveB pool, pool_ReserveA pool, pool_AssetAID pool)
      else None)"

definition after_fee :: "int \<Rightarrow> int \<Rightarrow> int" where
  "after_fee inputAmount feeBps = quo64 (mul64 inputAmount (sub64 10000 feeBps)) 10000"

text \<open>Output and fee; \<open>None\<close> is a division by zero.\<close>

definition swap_quote :: "int \<Rightarrow> int \<Rightarrow> int \<Rightarrow> int \<Rightarrow> (int \<times> int) option" where
  "swap_quote inputAmount feeBps reserveIn reserveOut =
     (let amountInAfterFee = after_fee inputAmount feeBps;
          feeAmount = sub64 inputAmount amountInAfterFee;
          denominator = add64 reserveIn amountInAfterFee
      in if denominator = 0 then None
         else Some (quo64 (mul64 amountInAfterFee reserveOut) denominator, feeAmount))"

record swap_plan =
  sp_pool :: LiquidityPool
  sp_outputAsset :: nat
  sp_output :: int
  sp_fee :: int
  sp_impact :: int

definition swap_read :: "liq_drv \<Rightarrow> swapRequest \<Rightarrow> liq_db \<Rightarrow> PoolSwap response + swap_plan" where
  "swap_read drv req db =
     (case g_first (d_pools drv) (\<lambda>p. pool_ID p = sw_PoolID req) (t_pools db) of
        Inl _ \<Rightarrow> Inl (Fail StatusNotFound ''Pool not found'')
      | Inr pool \<Rightarrow>
          if \<not> pool_Active pool then Inl (Fail StatusBadRequest ''Pool is inactive'')
          else case swap_sides (sw_InputAssetID req) pool of
                 None \<Rightarrow> Inl (Fail StatusBadRequest ''Input asset is not in this pool'')
               | Some (reserveIn, reserveOut, outputAssetID) \<Rightarrow>
                   if reserveIn = 0 \<or> reserveOut = 0 then Inl (Fail StatusBadRequest ''Pool has insufficient liquidity'')
                   else case swap_quote (sw_InputAmount req) (pool_FeeBasisPoints pool) reserveIn reserveOut of
                          None \<Rightarrow> Inl Crash
                        | Some (outputAmount, feeAmount) \<Rightarrow>
                            if outputAmount \<le> 0 then Inl (Fail StatusBadRequest ''Swap output too small'')
                            else if sw_MinOutputAmount req > 0 \<and> outputAmount < sw_MinOutputAmount req
                            then Inl (Fail StatusBadRequest ''Slippage too high: output below minimum'')
                            else Inr \<lparr> sp_pool = pool, sp_outputAsset = outputAssetID, sp_output = outputAmount,
                                       sp_fee = feeAmount,
                                       sp_impact = quo64 (mul64 outputAmount 10000) reserveOut \<rparr>)"

definition swap_pool :: "swapRequest \<Rightarrow> int \<Rightarrow> LiquidityPool \<Rightarrow> LiquidityPool" where
  "swap_pool req outputAmount pool =
     (if sw_InputAssetID req = pool_AssetAID pool
      then pool\<lparr> pool_ReserveA := add64 (pool_ReserveA pool) (sw_InputAmount req),
                 pool_ReserveB := sub64 (pool_ReserveB pool) outputAmount \<rparr>
      else pool\<lparr> pool_ReserveA := sub64 (pool_ReserveA pool) outputAmount,
                 pool_ReserveB := add64 (pool_ReserveB pool) (sw_InputAmount req) \<rparr>)"

definition fee_share :: "int \<Rightarrow> int \<Rightarrow> LiquidityPosition \<Rightarrow> int" where
  "fee_share feeAmount totalLP p = quo64 (mul64 (pos_LPTokens p) feeAmount) totalLP"

definition credit_fee :: "int \<Rightarrow> int \<Rightarrow> LiquidityPosition \<Rightarrow> LiquidityPosition" where
  "credit_fee feeAmount totalLP p =
     p\<lparr> pos_FeesEarned := add64 (pos_FeesEarned p) (fee_share feeAmount totalLP p) \<rparr>"

text \<open>A failed save of one position is ignored and the loop goes on.\<close>

definition save_ignoring :: "'r gorm \<Rightarrow> 'r \<Rightarrow> 'r list \<Rightarrow> 'r list" where
  "save_ignoring g r rows = (case g_save g r rows of Inl _ \<Rightarrow> rows | Inr rows' \<Rightarrow> rows')"

definition distributeFeeToProviders :: "liq_drv \<Rightarrow> nat \<Rightarrow> int \<Rightarrow> liq_db \<Rightarrow> liq_db" where
  "distributeFeeToProviders drv poolID feeAmount db =
     (case g_find (d_positions drv) (Where (\<lambda>p. pos_PoolID p = poolID \<and> pos_LPTokens p > 0)) (t_positions db) of
        Inl _ \<Rightarrow> db
      | Inr positions \<Rightarrow>
          (let totalLP = foldl (\<lambda>acc p. add64 acc (pos_LPTokens p)) 0 positions
           in if totalLP = 0 then db
              else db\<lparr> t_positions :=
                         fold (\<lambda>p. save_ignoring (d_positions drv) (credit_fee feeAmount totalLP p))
                           positions (t_positions db) \<rparr>))"

definition swap_tx :: "liq_drv \<Rightarrow> instant \<Rightarrow> swapRequest \<Rightarrow> swap_plan \<Rightarrow> liq_db \<Rightarrow> dberr + PoolSwap \<times> liq_db" where
  "swap_tx drv now req plan db =
     (let pool = sp_pool plan
      in and_then (g_save (d_pools drv) (swap_pool req (sp_output plan) pool) (t_pools db)) (\<lambda>pools'.
           let db1 = distributeFeeToProviders drv (pool_ID pool) (sp_fee plan) (db\<lparr> t_pools := pools' \<rparr>);
               swap = \<lparr> swap_ID = 0, swap_PoolID = sw_PoolID req, swap_TraderAddress = sw_TraderAddress req,
                        swap_InputAssetID = sw_InputAssetID req, swap_OutputAssetID = sp_outputAsset plan,
                        swap_InputAmount = sw_InputAmount req, swap_OutputAmount = sp_output plan,
                        swap_FeeAmount = sp_fee plan, swap_PriceImpactBps = sp_impact plan,
                        swap_CreatedAt = now \<rparr>
           in and_then (g_create (d_swaps drv) swap (t_swaps db1)) (\<lambda>(s, ss).
                Inr (s, db1\<lparr> t_swaps := ss \<rparr>))))"

definition Swap :: "liq_drv \<Rightarrow> instant \<Rightarrow> string + swapRequest \<Rightarrow> liq_db \<Rightarrow> PoolSwap response \<times> liq_db" where
  "Swap drv now body db =
     (case body of
        Inl e \<Rightarrow> (Fail StatusBadRequest e, db)
      | Inr req \<Rightarrow>
          (case swap_read drv req db of
             Inl resp \<Rightarrow> (resp, db)
           | Inr plan \<Rightarrow>
               (case transaction (d_tx drv) (swap_tx drv now req plan) db of
                  (Inl _, db') \<Rightarrow> (Fail StatusInternalServerError ''Failed to execute swap'', db')
                | (Inr swap, db') \<Rightarrow> (Reply StatusOK swap, db'))))"

subsection \<open>Listings\<close>

record list_query =
  lq_ID :: nat
  lq_Address :: string
  lq_Page :: int
  lq_Limit :: int

definition ListPools :: "liq_drv \<Rightarrow> string \<Rightarrow> string + list_query \<Rightarrow> liq_db \<Rightarrow>
    (LiquidityPool Pagination \<times> string) response" where
  "ListPools drv path q db =
     (case q of
        Inl e \<Rightarrow> Fail StatusBadRequest e
      | Inr q \<Rightarrow>
          (let page = (if lq_Page q < 1 then 1 else lq_Page q);
               limit = (if lq_Limit q < 1 \<or> lq_Limit q > 100 then 20 else lq_Limit q);
               cond = (\<lambda>p. pool_Active p \<and>
                           (lq_ID q \<noteq> 0 \<longrightarrow> pool_AssetAID p = lq_ID q \<or> pool_AssetBID p = lq_ID q))
           in case Paginate (d_pools drv) path (Where cond) page limit (t_pools db) of
                Inl _ \<Rightarrow> Fail StatusInternalServerError ''Failed to fetch pools''
              | Inr res \<Rightarrow> Reply StatusOK res))"

definition GetLPPositions :: "liq_drv \<Rightarrow> string \<Rightarrow> string + list_query \<Rightarrow> liq_db \<Rightarrow>
    (LiquidityPosition Pagination \<times> string) response" where
  "GetLPPositions drv path q db =
     (case q of
        Inl e \<Rightarrow> Fail StatusBadRequest e
      | Inr q \<Rightarrow>
          (case Paginate (d_positions drv) path
                  (Where (\<lambda>p. pos_ProviderAddress p = lq_Address q \<and> pos_LPTokens p > 0))
                  (lq_Page q) (lq_Limit q) (t_positions db) of
             Inl _ \<Rightarrow> Fail StatusInternalServerError ''Failed to fetch positions''
           | Inr res \<Rightarrow> Reply StatusOK res))"

definition GetSwapHistory :: "liq_drv \<Rightarrow> string \<Rightarrow> string + list_query \<Rightarrow> liq_db \<Rightarrow>
    (PoolSwap Pagination \<times> string) response" where
  "GetSwapHistory drv path q db =
     (case q of
        Inl e \<Rightarrow> Fail StatusBadRequest e
      | Inr q \<Rightarrow>
          (let cond = (\<lambda>s. (lq_ID q \<noteq> 0 \<longrightarrow> swap_PoolID s = lq_ID q) \<and>
                           (lq_Address q \<noteq> '''' \<longrightarrow> swap_TraderAddress s = lq_Address q));
               qry = (Where cond)\<lparr> q_order := (\<lambda>x y. swap_CreatedAt x \<ge> swap_CreatedAt y) \<rparr>
           in case Paginate (d_swaps drv) path qry (lq_Page q) (lq_Limit q) (t_swaps db) of
                Inl _ \<Rightarrow> Fail StatusInternalServerError ''Failed to fetch swap history''
              | Inr res \<Rightarrow> Reply StatusOK res))"


subsection \<open>What the binding tags and the drivers guarantee\<close>

definition bound_create :: "createPoolRequest \<Rightarrow> bool" where
  "bound_create req \<longleftrightarrow> 0 < cp_AssetAID req \<and> 0 < cp_AssetBID req \<and>
     (cp_FeeBasisPoints req = 0 \<or> 1 \<le> cp_FeeBasisPoints req \<and> cp_FeeBasisPoints req \<le> 10000)"

definition bound_add :: "addLiquidityRequest \<Rightarrow> bool" where
  "bound_add req \<longleftrightarrow> 0 < al_AmountA req \<and> 0 < al_AmountB req \<and> in_i64 (al_AmountA req) \<and> in_i64 (al_AmountB req)"

definition bound_remove :: "removeLiquidityRequest \<Rightarrow> bool" where
  "bound_remove req \<longleftrightarrow> 0 < rl_LPTokens req \<and> in_i64 (rl_LPTokens req)"

definition bound_swap :: "swapRequest \<Rightarrow> bool" where
  "bound_swap req \<longleftrightarrow> 0 < sw_InputAmount req \<and> in_i64 (sw_InputAmount req) \<and>
     0 \<le> sw_MinOutputAmount req \<and> in_i64 (sw_MinOutputAmount req)"

abbreviation pools_ok :: "liq_drv \<Rightarrow> bool" where
  "pools_ok drv \<equiv> gorm_ok pool_ID (\<lambda>k. pool_ID_update (\<lambda>_. k)) (d_pools drv)"

abbreviation posns_ok :: "liq_drv \<Rightarrow> bool" where
  "posns_ok drv \<equiv> gorm_ok pos_ID (\<lambda>k. pos_ID_update (\<lambda>_. k)) (d_positions drv)"

definition liq_drv_ok :: "liq_drv \<Rightarrow> bool" where
  "liq_drv_ok drv \<longleftrightarrow> pools_ok drv \<and> posns_ok drv \<and>
     gorm_ok swap_ID (\<lambda>k. swap_ID_update (\<lambda>_. k)) (d_swaps drv)"

definition mem_liq :: liq_drv where
  "mem_liq = \<lparr> d_pools = mem_gorm pool_ID (\<lambda>k. pool_ID_update (\<lambda>_. k)),
               d_positions = mem_gorm pos_ID (\<lambda>k. pos_ID_update (\<lambda>_. k)),
               d_swaps = mem_gorm swap_ID (\<lambda>k. swap_ID_update (\<lambda>_. k)), d_tx = tx_fine \<rparr>"

lemma mem_liq_ok: "liq_drv_ok mem_liq"
  by (simp add: liq_drv_ok_def mem_liq_def mem_gorm_ok)

subsection \<open>Arithmetic of deposits, withdrawals and swaps\<close>

lemma lp_to_issue_bound:
  assumes "lp_to_issue req pool = Some lp" "bound_add req"
    and "0 < pool_TotalLPTokens pool" "0 < pool_ReserveA pool" "0 < pool_ReserveB pool"
    and "in_i64 (al_AmountA req * pool_TotalLPTokens pool)" "in_i64 (al_AmountB req * pool_TotalLPTokens pool)"
  shows "lp * pool_ReserveA pool \<le> al_AmountA req * pool_TotalLPTokens pool"
    and "lp * pool_ReserveB pool \<le> al_AmountB req * pool_TotalLPTokens pool"
proof -
  define L where "L = pool_TotalLPTokens pool"
  have nn: "0 \<le> al_AmountA req * L" "0 \<le> al_AmountB req * L"
    using assms(2,3) by (simp_all add: bound_add_def L_def)
  then have "lp = min (al_AmountA req * L div pool_ReserveA pool) (al_AmountB req * L div pool_ReserveB pool)"
    using assms by (auto simp: lp_to_issue_def Let_def mul64_exact quo64_nonneg L_def min_def)
  then have "lp \<le> al_AmountA req * L div pool_ReserveA pool" "lp \<le> al_AmountB req * L div pool_ReserveB pool"
    by simp_all
  then show "lp * pool_ReserveA pool \<le> al_AmountA req * pool_TotalLPTokens pool"
    "lp * pool_ReserveB pool \<le> al_AmountB req * pool_TotalLPTokens pool"
    using assms(4,5) by (simp_all add: le_div_iff L_def)
qed

definition withdraw_fits :: "int \<Rightarrow> LiquidityPool \<Rightarrow> bool" where
  "withdraw_fits lp pool \<longleftrightarrow> in_i64 (lp * pool_ReserveA pool) \<and> in_i64 (lp * pool_ReserveB pool)"

lemma withdrawal_exact:
  assumes "0 \<le> lp" "0 < pool_TotalLPTokens pool" "0 \<le> pool_ReserveA pool" "0 \<le> pool_ReserveB pool"
    and "withdraw_fits lp pool"
  shows "withdrawal lp pool =
    (lp * pool_ReserveA pool div pool_TotalLPTokens pool, lp * pool_ReserveB pool div pool_TotalLPTokens pool)"
  using assms by (simp add: withdrawal_def withdraw_fits_def mul64_exact quo64_nonneg)

lemma share_le: "0 \<le> lp \<Longrightarrow> lp \<le> L \<Longrightarrow> 0 \<le> r \<Longrightarrow> 0 < L \<Longrightarrow> lp * r div L \<le> (r::int)"
  using div_less_iff[of L "lp * r" "r + 1"] mult_right_mono[of lp L r] by (simp add: algebra_simps)

lemma share_less:
  assumes "0 \<le> lp" "lp < L" "0 < (r::int)"
  shows "lp * r div L < r"
proof -
  have "lp * r < r * L" using assms by (simp add: mult.commute)
  then show ?thesis using div_less_iff[of L "lp * r" r] assms by linarith
qed

definition swap_fits :: "int \<Rightarrow> int \<Rightarrow> int \<Rightarrow> bool" where
  "swap_fits inp reserveIn reserveOut \<longleftrightarrow>
     in_i64 (inp * 10000) \<and> in_i64 (reserveIn + inp) \<and> in_i64 (inp * reserveOut)"

lemma after_fee_exact:
  assumes "0 < inp" "0 \<le> bps" "bps \<le> 10000" "in_i64 (inp * 10000)"
  shows "after_fee inp bps = inp * (10000 - bps) div 10000"
    and "0 \<le> after_fee inp bps" "after_fee inp bps \<le> inp"
proof -
  have r: "0 \<le> inp * (10000 - bps)" "inp * (10000 - bps) \<le> inp * 10000"
    using assms by (simp_all add: mult_left_mono)
  then have "in_i64 (inp * (10000 - bps))" using assms(4) in_i64_nonneg by blast
  moreover have "in_i64 (10000 - bps)" using assms(2,3) by (simp add: in_i64_def)
  ultimately show *: "after_fee inp bps = inp * (10000 - bps) div 10000"
    using r by (simp add: after_fee_def mul64_exact sub64_exact quo64_nonneg)
  show "0 \<le> after_fee inp bps" unfolding * using r by simp
  show "after_fee inp bps \<le> inp"
    unfolding * using div_less_iff[of 10000 "inp * (10000 - bps)" "inp + 1"] r by simp
qed

lemma swap_quote_exact:
  assumes "0 < inp" "0 \<le> bps" "bps \<le> 10000" "0 < rIn" "0 < rOut" "swap_fits inp rIn rOut"
  defines "x \<equiv> after_fee inp bps"
  shows "swap_quote inp bps rIn rOut = Some (x * rOut div (rIn + x), inp - x)"
proof -
  have x: "0 \<le> x" "x \<le> inp" using after_fee_exact[of inp bps] assms by (simp_all add: swap_fits_def)
  have "rIn + x \<le> rIn + inp" "x * rOut \<le> inp * rOut" using x assms by (simp_all add: mult_right_mono)
  then have "in_i64 (rIn + x)" "in_i64 (x * rOut)" "in_i64 (inp - x)"
    using x assms in_i64_nonneg[of "rIn + x" "rIn + inp"] in_i64_nonneg[of "x * rOut" "inp * rOut"]
    by (simp_all add: swap_fits_def in_i64_def)
  then show ?thesis using x assms
    by (simp add: swap_quote_def Let_def add64_exact sub64_exact mul64_exact quo64_nonneg)
qed

lemma swap_output_bounds:
  assumes "0 \<le> x" "0 < rIn" "0 < (rOut::int)"
  shows "0 \<le> x * rOut div (rIn + x)" "x * rOut div (rIn + x) < rOut"
    "rIn * rOut \<le> (rIn + x) * (rOut - x * rOut div (rIn + x))"
proof -
  define y where "y = x * rOut div (rIn + x)"
  have "y * (rIn + x) \<le> x * rOut" using assms le_div_iff[of "rIn + x" y "x * rOut"] by (simp add: y_def)
  then show "rIn * rOut \<le> (rIn + x) * (rOut - x * rOut div (rIn + x))"
    unfolding y_def[symmetric] by (simp add: algebra_simps)
  have "x * rOut < rOut * (rIn + x)" using assms by (simp add: algebra_simps)
  then show "x * rOut div (rIn + x) < rOut" using assms div_less_iff[of "rIn + x"] by simp
  show "0 \<le> x * rOut div (rIn + x)" using assms by (simp add: pos_imp_zdiv_nonneg_iff)
qed

subsection \<open>Invariant of the tables\<close>

text \<open>A pool is empty or has both reserves positive, and its LP total is the sum of its
  positions' LP tokens.\<close>

definition pool_wf :: "LiquidityPool \<Rightarrow> bool" where
  "pool_wf p \<longleftrightarrow> pool_ID p \<noteq> 0 \<and> 0 < pool_FeeBasisPoints p \<and> pool_FeeBasisPoints p \<le> 10000 \<and>
     in_i64 (pool_ReserveA p) \<and> in_i64 (pool_ReserveB p) \<and> in_i64 (pool_TotalLPTokens p) \<and>
     0 \<le> pool_TotalLPTokens p \<and>
     (if pool_TotalLPTokens p = 0 then pool_ReserveA p = 0 \<and> pool_ReserveB p = 0
      else 0 < pool_ReserveA p \<and> 0 < pool_ReserveB p)"

definition lp_sum :: "nat \<Rightarrow> LiquidityPosition list \<Rightarrow> int" where
  "lp_sum poolID ps = sum_list (map (\<lambda>q. if pos_PoolID q = poolID then pos_LPTokens q else 0) ps)"

definition positions_wf :: "nat set \<Rightarrow> LiquidityPosition list \<Rightarrow> bool" where
  "positions_wf ids ps \<longleftrightarrow> distinct (map pos_ID ps) \<and>
     (\<forall>q\<in>set ps. pos_ID q \<noteq> 0 \<and> 0 \<le> pos_LPTokens q \<and> pos_PoolID q \<in> ids)"

definition liq_inv :: "liq_db \<Rightarrow> bool" where
  "liq_inv db \<longleftrightarrow> distinct (map pool_ID (t_pools db)) \<and> (\<forall>p\<in>set (t_pools db). pool_wf p) \<and>
     positions_wf (pool_ID ` set (t_pools db)) (t_positions db) \<and>
     (\<forall>p\<in>set (t_pools db). lp_sum (pool_ID p) (t_positions db) = pool_TotalLPTokens p)"

lemma liq_inv_pool:
  assumes "liq_inv db" "p \<in> set (t_pools db)"
  shows "pool_wf p" "lp_sum (pool_ID p) (t_positions db) = pool_TotalLPTokens p"
  using assms by (auto simp: liq_inv_def)

lemma lp_sum_append [simp]: "lp_sum i (ps @ qs) = lp_sum i ps + lp_sum i qs"
  by (simp add: lp_sum_def)

lemma lp_sum_single [simp]: "lp_sum i [q] = (if pos_PoolID q = i then pos_LPTokens q else 0)"
  by (simp add: lp_sum_def)

lemma position_le_sum:
  assumes "positions_wf ids ps" "q \<in> set ps"
  shows "pos_LPTokens q \<le> lp_sum (pos_PoolID q) ps"
proof -
  have "(if pos_PoolID q = pos_PoolID q then pos_LPTokens q else 0) \<le> lp_sum (pos_PoolID q) ps"
    unfolding lp_sum_def
    by (rule member_le_sum_list_int[where f = "\<lambda>r. if pos_PoolID r = pos_PoolID q then pos_LPTokens r else 0"])
       (use assms in \<open>auto simp: positions_wf_def\<close>)
  then show ?thesis by simp
qed

lemma lp_sum_put_row:
  assumes "positions_wf ids ps" "q \<in> set ps" "pos_ID r = pos_ID q" "pos_PoolID r = pos_PoolID q"
  shows "lp_sum i (put_row pos_ID r ps) =
    lp_sum i ps + (if pos_PoolID q = i then pos_LPTokens r - pos_LPTokens q else 0)"
proof -
  have "distinct (map pos_ID ps)" using assms(1) by (simp add: positions_wf_def)
  then show ?thesis
    unfolding lp_sum_def using sum_list_put_row[of pos_ID ps q r] assms by simp
qed

lemma positions_wf_put_row:
  assumes "positions_wf ids ps" "q \<in> set ps" "pos_ID r = pos_ID q" "pos_PoolID r = pos_PoolID q" "0 \<le> pos_LPTokens r"
  shows "positions_wf ids (put_row pos_ID r ps)"
  using assms by (auto simp: positions_wf_def dest!: in_set_put_row)

text \<open>How a change of one pool and of the positions keeps the invariant.\<close>

lemma liq_inv_update:
  assumes "liq_inv db" "p \<in> set (t_pools db)" "pool_ID p' = pool_ID p" "pool_wf p'"
    and "t_pools db' = put_row pool_ID p' (t_pools db)"
    and "positions_wf (pool_ID ` set (t_pools db)) (t_positions db')"
    and "\<And>i. lp_sum i (t_positions db') = lp_sum i (t_positions db) +
           (if i = pool_ID p then pool_TotalLPTokens p' - pool_TotalLPTokens p else 0)"
  shows "liq_inv db'"
proof -
  have keys: "map pool_ID (t_pools db') = map pool_ID (t_pools db)" by (simp add: assms(5))
  then have "pool_ID ` set (t_pools db') = pool_ID ` set (t_pools db)" by (metis list.set_map)
  moreover have "pool_wf x \<and> lp_sum (pool_ID x) (t_positions db') = pool_TotalLPTokens x"
    if "x \<in> set (t_pools db')" for x
    using that assms(1-4) liq_inv_pool[OF assms(1)] unfolding assms(5,7)
    by (auto dest!: in_set_put_row)
  ultimately show ?thesis using assms(1,6) by (simp add: liq_inv_def keys)
qed

subsection \<open>Every handler keeps the invariant\<close>

lemma drv_pools: "liq_drv_ok drv \<Longrightarrow> pools_ok drv" and drv_posns: "liq_drv_ok drv \<Longrightarrow> posns_ok drv"
  by (simp_all add: liq_drv_ok_def)

lemma CreatePool_frame: "is_fail (fst (CreatePool drv body db)) \<Longrightarrow> snd (CreatePool drv body db) = db"
proof -
  have "is_fail (fst (CreatePool drv body db)) \<longrightarrow> snd (CreatePool drv body db) = db"
    by (simp add: CreatePool_def Let_def split: sum.split prod.split)
  then show "is_fail (fst (CreatePool drv body db)) \<Longrightarrow> snd (CreatePool drv body db) = db" ..
qed

lemma CreatePool_cases:
  assumes "liq_drv_ok drv"
  obtains (kept) "snd (CreatePool drv body db) = db" "is_fail (fst (CreatePool drv body db))"
  | (created) req pool where "body = Inr req" "CreatePool drv body db = (Reply StatusCreated pool, db\<lparr> t_pools := t_pools db @ [pool] \<rparr>)"
      "pool_ID pool \<noteq> 0" "pool_ID pool \<notin> pool_ID ` set (t_pools db)"
      "pool_AssetAID pool < pool_AssetBID pool" "{pool_AssetAID pool, pool_AssetBID pool} = {cp_AssetAID req, cp_AssetBID req}"
      "pool_ReserveA pool = 0" "pool_ReserveB pool = 0" "pool_TotalLPTokens pool = 0"
      "pool_FeeBasisPoints pool = (if cp_FeeBasisPoints req = 0 then 30 else cp_FeeBasisPoints req)"
      "pool_CreatorAddress pool = cp_CreatorAddress req" "pool_Active pool"
      "\<exists>e. g_first (d_pools drv) (\<lambda>p. pool_AssetAID p = pool_AssetAID pool \<and> pool_AssetBID p = pool_AssetBID pool)
             (t_pools db) = Inl e"
proof (cases "is_fail (fst (CreatePool drv body db))")
  case True
  then have "snd (CreatePool drv body db) = db" by (rule CreatePool_frame)
  with True kept show ?thesis by blast
next
  case False
  then obtain req where body: "body = Inr req" and ne: "cp_AssetAID req \<noteq> cp_AssetBID req"
    by (auto simp: CreatePool_def split: sum.splits if_splits)
  define a where "a = min (cp_AssetAID req) (cp_AssetBID req)"
  define b where "b = max (cp_AssetAID req) (cp_AssetBID req)"
  have ab: "(if cp_AssetAID req > cp_AssetBID req then (cp_AssetBID req, cp_AssetAID req)
             else (cp_AssetAID req, cp_AssetBID req)) = (a, b)"
    by (simp add: a_def b_def min_def max_def)
  have lt: "a < b" "{a, b} = {cp_AssetAID req, cp_AssetBID req}" using ne by (auto simp: a_def b_def)
  define pool where "pool = \<lparr> pool_ID = 0, pool_AssetAID = a, pool_AssetBID = b, pool_ReserveA = 0, pool_ReserveB = 0,
     pool_TotalLPTokens = 0, pool_FeeBasisPoints = (if cp_FeeBasisPoints req = 0 then 30 else cp_FeeBasisPoints req),
     pool_CreatorAddress = cp_CreatorAddress req, pool_Active = True \<rparr>"
  obtain e p ps where first: "g_first (d_pools drv) (\<lambda>p. pool_AssetAID p = a \<and> pool_AssetBID p = b) (t_pools db) = Inl e"
    and create: "g_create (d_pools drv) pool (t_pools db) = Inr (p, ps)"
    and res: "CreatePool drv body db = (Reply StatusCreated p, db\<lparr> t_pools := ps \<rparr>)"
    using False ne unfolding body
    by (auto simp: CreatePool_def ab pool_def[symmetric] Let_def split: sum.splits prod.splits)
  obtain k where "k \<noteq> 0" "k \<notin> pool_ID ` set (t_pools db)" "p = pool\<lparr> pool_ID := k \<rparr>" "ps = t_pools db @ [p]"
    by (rule gorm_createD[OF drv_pools[OF assms] create])
  then show ?thesis using body res first lt by (intro created[of req p]) (simp_all add: pool_def)
qed

lemma CreatePool_inv:
  assumes "liq_drv_ok drv" "liq_inv db" "\<forall>req. body = Inr req \<longrightarrow> bound_create req"
  shows "liq_inv (snd (CreatePool drv body db))"
proof (cases rule: CreatePool_cases[OF assms(1), of body db, case_names kept created])
  case kept
  then show ?thesis using assms(2) by simp
next
  case (created req pool)
  have "lp_sum (pool_ID pool) (t_positions db) = 0"
  proof -
    have "pos_PoolID q \<noteq> pool_ID pool" if "q \<in> set (t_positions db)" for q
      using assms(2) created(4) that unfolding liq_inv_def positions_wf_def by metis
    then have "map (\<lambda>q. if pos_PoolID q = pool_ID pool then pos_LPTokens q else 0) (t_positions db) = map (\<lambda>_. 0) (t_positions db)"
      by simp
    then show ?thesis unfolding lp_sum_def by (metis sum_list_0)
  qed
  moreover have "pool_wf pool"
    using created assms(3) by (auto simp: pool_wf_def bound_create_def)
  ultimately show ?thesis
    using assms(2) created by (auto simp: liq_inv_def positions_wf_def)
qed

definition add_fits :: "addLiquidityRequest \<Rightarrow> LiquidityPool \<Rightarrow> bool" where
  "add_fits req p \<longleftrightarrow>
     in_i64 (al_AmountA req * pool_TotalLPTokens p) \<and> in_i64 (al_AmountB req * pool_TotalLPTokens p) \<and>
     in_i64 (pool_ReserveA p + al_AmountA req) \<and> in_i64 (pool_ReserveB p + al_AmountB req) \<and>
     (case lp_to_issue req p of None \<Rightarrow> True | Some lp \<Rightarrow> in_i64 (pool_TotalLPTokens p + lp))"

lemma add_pool_exact:
  assumes "add_fits req p" "lp_to_issue req p = Some lp"
  shows "add_pool req lp p = p\<lparr> pool_ReserveA := pool_ReserveA p + al_AmountA req,
    pool_ReserveB := pool_ReserveB p + al_AmountB req, pool_TotalLPTokens := pool_TotalLPTokens p + lp \<rparr>"
  using assms by (simp add: add_pool_def add_fits_def add64_exact)

lemma add_txD:
  assumes drv: "liq_drv_ok drv" and tx: "add_tx drv req p lp db = Inr (r, db')"
    and p: "p \<in> set (t_pools db)" and pw: "positions_wf ids (t_positions db)"
  obtains (fresh) k where "k \<noteq> 0" "k \<notin> pos_ID ` set (t_positions db)"
      "r = (add_position req lp (new_position (pool_ID p) (al_ProviderAddress req)))\<lparr> pos_ID := k \<rparr>"
      "db' = db\<lparr> t_pools := put_row pool_ID (add_pool req lp p) (t_pools db), t_positions := t_positions db @ [r] \<rparr>"
      "\<forall>q\<in>set (t_positions db). \<not> find_position (pool_ID p) (al_ProviderAddress req) q"
  | (topup) q where "q \<in> set (t_positions db)" "find_position (pool_ID p) (al_ProviderAddress req) q"
      "r = add_position req lp q"
      "db' = db\<lparr> t_pools := put_row pool_ID (add_pool req lp p) (t_pools db),
                 t_positions := put_row pos_ID r (t_positions db) \<rparr>"
proof -
  from tx obtain pools' position where sv: "g_save (d_pools drv) (add_pool req lp p) (t_pools db) = Inr pools'"
    and pos: "(case g_first (d_positions drv) (find_position (pool_ID p) (al_ProviderAddress req)) (t_positions db) of
                     Inr position \<Rightarrow> Inr position
                   | Inl ErrRecordNotFound \<Rightarrow> Inr (new_position (pool_ID p) (al_ProviderAddress req))
                   | Inl e \<Rightarrow> Inl e) = Inr position"
    and rest: "(if pos_ID (add_position req lp position) = 0
              then and_then (g_create (d_positions drv) (add_position req lp position) (t_positions db)) (\<lambda>(p, ps).
                     Inr (p, db\<lparr> t_pools := pools', t_positions := ps \<rparr>))
              else and_then (g_save (d_positions drv) (add_position req lp position) (t_positions db)) (\<lambda>ps.
                     Inr (add_position req lp position, db\<lparr> t_pools := pools', t_positions := ps \<rparr>))) = Inr (r, db')"
    unfolding add_tx_def Let_def by blast
  have pools': "pools' = put_row pool_ID (add_pool req lp p) (t_pools db)"
    by (rule gorm_save[OF drv_pools[OF drv] sv p]) (simp add: add_pool_def)
  show ?thesis
  proof (cases "g_first (d_positions drv) (find_position (pool_ID p) (al_ProviderAddress req)) (t_positions db)")
    case (Inl e)
    with pos have e: "e = ErrRecordNotFound" "position = new_position (pool_ID p) (al_ProviderAddress req)"
      by (auto split: dberr.splits)
    have none: "\<forall>q\<in>set (t_positions db). \<not> find_position (pool_ID p) (al_ProviderAddress req) q"
      using gorm_first_none[OF drv_posns[OF drv] Inl[unfolded e(1)]] by blast
    have "pos_ID (add_position req lp position) = 0" by (simp add: e(2) add_position_def new_position_def)
    with rest obtain ps where cr: "g_create (d_positions drv) (add_position req lp position) (t_positions db) = Inr (r, ps)"
      and db': "db' = db\<lparr> t_pools := pools', t_positions := ps \<rparr>" by auto
    obtain k where "k \<noteq> 0" "k \<notin> pos_ID ` set (t_positions db)"
      "r = (add_position req lp position)\<lparr> pos_ID := k \<rparr>" "ps = t_positions db @ [r]"
      by (rule gorm_createD[OF drv_posns[OF drv] cr])
    then show ?thesis using fresh db' pools' e(2) none by blast
  next
    case (Inr q)
    then have q: "position = q" using pos by simp
    have qm: "q \<in> set (t_positions db)" "find_position (pool_ID p) (al_ProviderAddress req) q"
      using gorm_firstD[OF drv_posns[OF drv] Inr] by simp_all
    then have "pos_ID (add_position req lp q) \<noteq> 0" using pw by (auto simp: positions_wf_def add_position_def)
    with rest q obtain ps where sv2: "g_save (d_positions drv) (add_position req lp q) (t_positions db) = Inr ps"
      and db': "db' = db\<lparr> t_pools := pools', t_positions := ps \<rparr>" "r = add_position req lp q" by auto
    have "ps = put_row pos_ID r (t_positions db)"
      unfolding db'(2) by (rule gorm_save[OF drv_posns[OF drv] sv2 qm(1)]) (simp add: add_position_def)
    then show ?thesis using topup[OF qm db'(2)] db' pools' by simp
  qed
qed

lemma AddLiquidity_cases:
  assumes "liq_drv_ok drv"
  obtains (kept) "snd (AddLiquidity drv body db) = db" "is_fail (fst (AddLiquidity drv body db))"
  | (added) req p lp r db' where "body = Inr req" "p \<in> set (t_pools db)" "pool_ID p = al_PoolID req" "pool_Active p"
      "lp_to_issue req p = Some lp" "0 < lp" "add_tx drv req p lp db = Inr (r, db')"
      "AddLiquidity drv body db = (Reply StatusOK (r, lp), db')"
proof (cases body)
  case (Inl e)
  then show ?thesis using kept by (simp add: AddLiquidity_def)
next
  case (Inr req)
  show ?thesis
  proof (cases "add_read drv req db")
    case (Inl resp)
    then have "is_fail resp" by (auto simp: add_read_def split: sum.splits if_splits option.splits)
    with Inl Inr kept show ?thesis by (simp add: AddLiquidity_def)
  next
    case plan: (Inr plan)
    then obtain p lp where pl: "plan = (p, lp)" "g_first (d_pools drv) (\<lambda>p. pool_ID p = al_PoolID req) (t_pools db) = Inr p"
      "pool_Active p" "lp_to_issue req p = Some lp" "0 < lp"
      by (auto simp: add_read_def split: sum.splits if_splits option.splits)
    have "p \<in> set (t_pools db)" "pool_ID p = al_PoolID req"
      using gorm_firstD[OF drv_pools[OF assms] pl(2)] by simp_all
    with pl plan Inr show ?thesis
      by (cases rule: transaction_cases[of "d_tx drv" "add_tx drv req p lp" db])
         (auto simp: AddLiquidity_def add_commit_def intro: kept added)
  qed
qed

lemma AddLiquidity_inv:
  assumes drv: "liq_drv_ok drv" and inv: "liq_inv db"
    and req: "\<forall>req. body = Inr req \<longrightarrow> bound_add req \<and> (\<forall>p\<in>set (t_pools db). pool_ID p = al_PoolID req \<longrightarrow> add_fits req p)"
  shows "liq_inv (snd (AddLiquidity drv body db))"
proof (cases rule: AddLiquidity_cases[OF drv, of body db, case_names kept added])
  case kept
  then show ?thesis using inv by simp
next
  case (added req p lp r db')
  define p' where "p' = add_pool req lp p"
  have bnd: "bound_add req" and fits: "add_fits req p" using req added by auto
  have p': "p' = p\<lparr> pool_ReserveA := pool_ReserveA p + al_AmountA req,
      pool_ReserveB := pool_ReserveB p + al_AmountB req, pool_TotalLPTokens := pool_TotalLPTokens p + lp \<rparr>"
    unfolding p'_def by (rule add_pool_exact[OF fits added(5)])
  have wf: "pool_wf p" and sum: "lp_sum (pool_ID p) (t_positions db) = pool_TotalLPTokens p"
    using liq_inv_pool[OF inv added(2)] by auto
  have wf': "pool_wf p'"
    using wf fits bnd added(5,6) by (auto simp: pool_wf_def p' add_fits_def bound_add_def split: if_splits)
  have pw: "positions_wf (pool_ID ` set (t_pools db)) (t_positions db)" using inv by (simp add: liq_inv_def)
  have "liq_inv db'"
  proof (cases rule: add_txD[OF drv added(7,2) pw, case_names fresh topup])
    case (fresh k)
    have lp: "add64 0 lp = lp"
      using wf' added(6) wf by (intro trans[OF add64_exact]) (auto simp: pool_wf_def p' in_i64_def)
    then have "positions_wf (pool_ID ` set (t_pools db)) (t_positions db @ [r])"
      using pw fresh added(2,6) by (auto simp: positions_wf_def add_position_def new_position_def)
    then show ?thesis
      using fresh(3,4) lp by (intro liq_inv_update[OF inv added(2) _ wf'])
        (auto simp: p'_def[symmetric] p' add_position_def new_position_def)
  next
    case (topup q)
    have q: "pos_PoolID q = pool_ID p" using topup(2) by (simp add: find_position_def)
    have "0 \<le> pos_LPTokens q" "pos_LPTokens q \<le> pool_TotalLPTokens p"
      using pw topup(1) position_le_sum[OF pw topup(1)] sum q by (auto simp: positions_wf_def)
    then have lp: "add64 (pos_LPTokens q) lp = pos_LPTokens q + lp"
      using wf' wf added(6) by (intro add64_exact) (auto simp: pool_wf_def p' in_i64_def)
    have r: "pos_ID r = pos_ID q" "pos_PoolID r = pos_PoolID q" "pos_LPTokens r = pos_LPTokens q + lp"
      using topup(3) lp by (simp_all add: add_position_def)
    have "positions_wf (pool_ID ` set (t_pools db)) (put_row pos_ID r (t_positions db))"
      using \<open>0 \<le> pos_LPTokens q\<close> added(6) r by (intro positions_wf_put_row[OF pw topup(1)]) auto
    then show ?thesis
      using topup(4) lp_sum_put_row[OF pw topup(1) r(1,2)] r q
      by (intro liq_inv_update[OF inv added(2) _ wf']) (auto simp: p'_def[symmetric] p')
  qed
  then show ?thesis using added(8) by simp
qed

lemma remove_pool_exact:
  assumes "pool_wf p" "0 < lp" "lp \<le> pool_TotalLPTokens p" "withdraw_fits lp p"
  shows "remove_pool lp p =
    p\<lparr> pool_ReserveA := pool_ReserveA p - lp * pool_ReserveA p div pool_TotalLPTokens p,
       pool_ReserveB := pool_ReserveB p - lp * pool_ReserveB p div pool_TotalLPTokens p,
       pool_TotalLPTokens := pool_TotalLPTokens p - lp \<rparr>"
    and "pool_wf (remove_pool lp p)"
proof -
  let ?p' = "p\<lparr> pool_ReserveA := pool_ReserveA p - lp * pool_ReserveA p div pool_TotalLPTokens p,
       pool_ReserveB := pool_ReserveB p - lp * pool_ReserveB p div pool_TotalLPTokens p,
       pool_TotalLPTokens := pool_TotalLPTokens p - lp \<rparr>"
  define L where "L = pool_TotalLPTokens p"
  define a where "a = lp * pool_ReserveA p div L"
  define b where "b = lp * pool_ReserveB p div L"
  have R: "0 < L" "0 < pool_ReserveA p" "0 < pool_ReserveB p" "in_i64 (pool_ReserveA p)" "in_i64 (pool_ReserveB p)" "in_i64 L"
    using assms by (auto simp: pool_wf_def L_def split: if_splits)
  have ab: "a \<le> pool_ReserveA p" "b \<le> pool_ReserveB p" "0 \<le> a" "0 \<le> b"
    using R assms(2,3) by (simp_all add: a_def b_def share_le L_def[symmetric] pos_imp_zdiv_nonneg_iff)
  have w: "withdrawal lp p = (a, b)" using withdrawal_exact[of lp p] R assms by (simp add: L_def a_def b_def)
  have "sub64 (pool_ReserveA p) a = pool_ReserveA p - a" "sub64 (pool_ReserveB p) b = pool_ReserveB p - b" "sub64 L lp = L - lp"
    using ab R assms(2,3) by (simp_all add: sub64_exact in_i64_def L_def)
  with ab show eq: "remove_pool lp p = ?p'"
    unfolding remove_pool_def w by (simp add: Let_def L_def a_def b_def)
  have "pool_wf ?p'"
  proof (cases "lp = L")
    case True
    then have "a = pool_ReserveA p" "b = pool_ReserveB p" using R by (simp_all add: a_def b_def)
    then show ?thesis using assms(1) True by (simp add: pool_wf_def L_def[symmetric] a_def[symmetric] b_def[symmetric])
  next
    case False
    then have "a < pool_ReserveA p" "b < pool_ReserveB p"
      using R assms(2,3) share_less[of lp L] by (simp_all add: a_def b_def L_def)
    moreover have "in_i64 (pool_ReserveA p - a)" "in_i64 (pool_ReserveB p - b)" "in_i64 (L - lp)"
      using ab R assms(2,3) by (simp_all add: in_i64_def L_def)
    ultimately show ?thesis
      using assms(1,3) False by (simp add: pool_wf_def L_def[symmetric] a_def[symmetric] b_def[symmetric])
  qed
  with eq show "pool_wf (remove_pool lp p)" by simp
qed

lemma RemoveLiquidity_cases:
  assumes "liq_drv_ok drv"
  obtains (kept) "snd (RemoveLiquidity drv body db) = db" "is_fail (fst (RemoveLiquidity drv body db))"
  | (removed) req p q r where "body = Inr req" "p \<in> set (t_pools db)" "pool_ID p = rl_PoolID req"
      "q \<in> set (t_positions db)" "find_position (rl_PoolID req) (rl_ProviderAddress req) q"
      "rl_LPTokens req \<le> pos_LPTokens q" "pool_TotalLPTokens p \<noteq> 0"
      "r = q\<lparr> pos_LPTokens := sub64 (pos_LPTokens q) (rl_LPTokens req) \<rparr>"
      "RemoveLiquidity drv body db =
        (Reply StatusOK (fst (withdrawal (rl_LPTokens req) p), snd (withdrawal (rl_LPTokens req) p), r),
         db\<lparr> t_pools := put_row pool_ID (remove_pool (rl_LPTokens req) p) (t_pools db),
             t_positions := put_row pos_ID r (t_positions db) \<rparr>)"
proof (cases body)
  case (Inl e)
  then show ?thesis using kept by (simp add: RemoveLiquidity_def)
next
  case (Inr req)
  show ?thesis
  proof (cases "remove_read drv req db")
    case (Inl resp)
    then have "is_fail resp" by (auto simp: remove_read_def split: sum.splits if_splits)
    with Inl Inr kept show ?thesis by (simp add: RemoveLiquidity_def)
  next
    case plan: (Inr plan)
    then obtain p q where pl: "plan = (p, q)" "g_first (d_pools drv) (\<lambda>p. pool_ID p = rl_PoolID req) (t_pools db) = Inr p"
      "g_first (d_positions drv) (find_position (rl_PoolID req) (rl_ProviderAddress req)) (t_positions db) = Inr q"
      "rl_LPTokens req \<le> pos_LPTokens q" "pool_TotalLPTokens p \<noteq> 0"
      by (auto simp: remove_read_def not_less split: sum.splits if_splits)
    have p: "p \<in> set (t_pools db)" "pool_ID p = rl_PoolID req"
      using gorm_firstD[OF drv_pools[OF assms] pl(2)] by simp_all
    have q: "q \<in> set (t_positions db)" "find_position (rl_PoolID req) (rl_ProviderAddress req) q"
      using gorm_firstD[OF drv_posns[OF assms] pl(3)] by simp_all
    have res: "RemoveLiquidity drv body db =
      (case transaction (d_tx drv) (remove_tx drv (rl_LPTokens req) p q) db of
          (Inl _, db') \<Rightarrow> (Fail StatusInternalServerError ''Failed to remove liquidity'', db')
        | (Inr r, db') \<Rightarrow> (Reply StatusOK (fst (withdrawal (rl_LPTokens req) p), snd (withdrawal (rl_LPTokens req) p), r), db'))"
      by (auto simp: RemoveLiquidity_def Inr plan pl(1) split: prod.splits sum.splits)
    show ?thesis
    proof (cases rule: transaction_cases[of "d_tx drv" "remove_tx drv (rl_LPTokens req) p q" db, case_names failed committed])
      case (failed e)
      then show ?thesis using kept res by simp
    next
      case (committed r db')
      then obtain pools' ps where
        sv: "g_save (d_pools drv) (remove_pool (rl_LPTokens req) p) (t_pools db) = Inr pools'"
        and sv2: "g_save (d_positions drv) (q\<lparr> pos_LPTokens := sub64 (pos_LPTokens q) (rl_LPTokens req) \<rparr>) (t_positions db) = Inr ps"
        and r: "r = q\<lparr> pos_LPTokens := sub64 (pos_LPTokens q) (rl_LPTokens req) \<rparr>"
        and db': "db' = db\<lparr> t_pools := pools', t_positions := ps \<rparr>"
        by (auto simp: remove_tx_def Let_def)
      have "pools' = put_row pool_ID (remove_pool (rl_LPTokens req) p) (t_pools db)"
        by (rule gorm_save[OF drv_pools[OF assms] sv p(1)]) (simp add: remove_pool_def Let_def case_prod_beta)
      moreover have "ps = put_row pos_ID r (t_positions db)"
        unfolding r by (rule gorm_save[OF drv_posns[OF assms] sv2 q(1)]) simp
      ultimately show ?thesis
        using removed[OF Inr p q pl(4,5) r] res committed(1) db' by simp
    qed
  qed
qed

lemma RemoveLiquidity_inv:
  assumes drv: "liq_drv_ok drv" and inv: "liq_inv db"
    and req: "\<forall>req. body = Inr req \<longrightarrow> bound_remove req \<and>
      (\<forall>p\<in>set (t_pools db). pool_ID p = rl_PoolID req \<longrightarrow> withdraw_fits (rl_LPTokens req) p)"
  shows "liq_inv (snd (RemoveLiquidity drv body db))"
proof (cases rule: RemoveLiquidity_cases[OF drv, of body db, case_names kept removed])
  case kept
  then show ?thesis using inv by simp
next
  case (removed req p q r)
  define lp where "lp = rl_LPTokens req"
  have bnd: "0 < lp" "withdraw_fits lp p" using req removed by (auto simp: bound_remove_def lp_def)
  have wf: "pool_wf p" and sum: "lp_sum (pool_ID p) (t_positions db) = pool_TotalLPTokens p"
    using liq_inv_pool[OF inv removed(2)] by auto
  have pw: "positions_wf (pool_ID ` set (t_pools db)) (t_positions db)" using inv by (simp add: liq_inv_def)
  have q: "pos_PoolID q = pool_ID p" using removed(3,5) by (simp add: find_position_def)
  have le: "pos_LPTokens q \<le> pool_TotalLPTokens p" using position_le_sum[OF pw removed(4)] q sum by simp
  then have lp: "lp \<le> pool_TotalLPTokens p" "lp \<le> pos_LPTokens q" using removed(6) by (simp_all add: lp_def)
  have "sub64 (pos_LPTokens q) lp = pos_LPTokens q - lp"
    using lp le bnd(1) wf by (intro sub64_exact) (auto simp: pool_wf_def in_i64_def)
  then have r: "pos_ID r = pos_ID q" "pos_PoolID r = pos_PoolID q" "pos_LPTokens r = pos_LPTokens q - lp"
    using removed(8) by (simp_all add: lp_def)
  have "positions_wf (pool_ID ` set (t_pools db)) (put_row pos_ID r (t_positions db))"
    using r lp by (intro positions_wf_put_row[OF pw removed(4)]) auto
  then show ?thesis
    using lp_sum_put_row[OF pw removed(4) r(1,2)] r q removed(9) remove_pool_exact[OF wf bnd(1) lp(1) bnd(2)]
    by (intro liq_inv_update[OF inv removed(2), of "remove_pool lp p"]) (auto simp: lp_def[symmetric])
qed

text \<open>The fee credit changes nothing but \<open>FeesEarned\<close>.\<close>

definition pos_core :: "LiquidityPosition \<Rightarrow> nat \<times> nat \<times> string \<times> int \<times> int \<times> int" where
  "pos_core q = (pos_ID q, pos_PoolID q, pos_ProviderAddress q, pos_LPTokens q, pos_DepositedA q, pos_DepositedB q)"

lemma pos_core_credit [simp]: "pos_core (credit_fee f t q) = pos_core q"
  by (simp add: pos_core_def credit_fee_def)

lemma pos_core_ID: "pos_core q = pos_core r \<Longrightarrow> pos_ID q = pos_ID r"
  by (simp add: pos_core_def)

lemma map_core_eq:
  assumes "map pos_core ps = map pos_core qs"
  shows "map pos_ID ps = map pos_ID qs" "lp_sum i ps = lp_sum i qs" "positions_wf ids ps = positions_wf ids qs"
proof -
  have f: "map (g \<circ> pos_core) ps = map (g \<circ> pos_core) qs" for g using assms by (metis map_map)
  show ids: "map pos_ID ps = map pos_ID qs" using f[of fst] by (simp add: pos_core_def comp_def)
  show "lp_sum i ps = lp_sum i qs"
    unfolding lp_sum_def
    using f[of "\<lambda>(_, p, _, l, _). if p = i then l else 0"] by (simp add: pos_core_def comp_def)
  have "set (map (pos_core) ps) = set (map pos_core qs)" using assms by simp
  then have "(\<forall>q\<in>set ps. P (pos_core q)) \<longleftrightarrow> (\<forall>q\<in>set qs. P (pos_core q))" for P
    unfolding set_map by (metis imageE imageI)
  from this[of "\<lambda>(k, p, _, l, _). k \<noteq> 0 \<and> 0 \<le> l \<and> p \<in> ids"]
  show "positions_wf ids ps = positions_wf ids qs"
    unfolding positions_wf_def ids by (simp add: pos_core_def)
qed

lemma save_ignoring_core:
  assumes "gorm_ok pos_ID setkey g" "distinct (map pos_ID ps)" "q \<in> set ps" "pos_core r = pos_core q"
  shows "map pos_core (save_ignoring g r ps) = map pos_core ps"
proof (cases "g_save g r ps")
  case (Inr rows)
  have k: "pos_ID q = pos_ID r" using assms(4) by (metis pos_core_ID)
  have "rows = put_row pos_ID r ps" by (rule gorm_save[OF assms(1) Inr assms(3) k])
  moreover have "map pos_core (put_row pos_ID r ps) = map pos_core ps"
    using assms(2-4) k by (intro map_frame_put_row) (metis distinct_key_unique)
  ultimately show ?thesis by (simp add: save_ignoring_def Inr)
qed (simp add: save_ignoring_def)

lemma fold_credit_core:
  assumes "gorm_ok pos_ID setkey g" "distinct (map pos_ID ps)"
    and "\<And>q. q \<in> set qs \<Longrightarrow> pos_core q \<in> pos_core ` set ps"
  shows "map pos_core (fold (\<lambda>p. save_ignoring g (credit_fee f t p)) qs ps) = map pos_core ps"
  using assms(2,3)
proof (induction qs arbitrary: ps)
  case (Cons q qs)
  obtain r where r: "r \<in> set ps" "pos_core q = pos_core r" using Cons.prems(2)[of q] by auto
  let ?ps = "save_ignoring g (credit_fee f t q) ps"
  have eq: "map pos_core ?ps = map pos_core ps"
    using r by (intro save_ignoring_core[OF assms(1) Cons.prems(1) r(1)]) simp
  have "map pos_ID ?ps = map pos_ID ps" by (rule map_core_eq(1)[OF eq])
  moreover have "pos_core ` set ?ps = pos_core ` set ps" using eq by (metis list.set_map)
  ultimately have "map pos_core (fold (\<lambda>p. save_ignoring g (credit_fee f t p)) qs ?ps) = map pos_core ?ps"
    using Cons.prems by (intro Cons.IH) auto
  with eq show ?case by simp
qed simp

lemma distribute_core:
  assumes "liq_drv_ok drv" "distinct (map pos_ID (t_positions db))"
  shows "map pos_core (t_positions (distributeFeeToProviders drv i f db)) = map pos_core (t_positions db)"
    and "t_pools (distributeFeeToProviders drv i f db) = t_pools db"
    and "t_swaps (distributeFeeToProviders drv i f db) = t_swaps db"
proof -
  have "map pos_core (fold (\<lambda>p. save_ignoring (d_positions drv) (credit_fee f t p)) qs (t_positions db)) = map pos_core (t_positions db)"
    if "g_find (d_positions drv) (Where (\<lambda>p. pos_PoolID p = i \<and> pos_LPTokens p > 0)) (t_positions db) = Inr qs" for qs t
  proof (rule fold_credit_core[OF drv_posns[OF assms(1)] assms(2)])
    fix q assume "q \<in> set qs"
    then have "q \<in> set (t_positions db)"
      using gorm_find_Where[OF drv_posns[OF assms(1)] that] by (metis mem_Collect_eq set_filter set_mset_mset)
    then show "pos_core q \<in> pos_core ` set (t_positions db)" by simp
  qed
  then show "map pos_core (t_positions (distributeFeeToProviders drv i f db)) = map pos_core (t_positions db)"
    by (auto simp: distributeFeeToProviders_def Let_def split: sum.splits)
  show "t_pools (distributeFeeToProviders drv i f db) = t_pools db"
    "t_swaps (distributeFeeToProviders drv i f db) = t_swaps db"
    by (simp_all add: distributeFeeToProviders_def Let_def split: sum.splits)
qed

lemma Swap_cases:
  assumes drv: "liq_drv_ok drv" and inv: "liq_inv db"
  obtains (kept) "snd (Swap drv now body db) = db" "is_fail (fst (Swap drv now body db))"
  | (swapped) req p rIn rOut oa out fee s db' where "body = Inr req" "p \<in> set (t_pools db)" "pool_ID p = sw_PoolID req"
      "pool_Active p" "swap_sides (sw_InputAssetID req) p = Some (rIn, rOut, oa)" "rIn \<noteq> 0" "rOut \<noteq> 0"
      "swap_quote (sw_InputAmount req) (pool_FeeBasisPoints p) rIn rOut = Some (out, fee)"
      "0 < out" "sw_MinOutputAmount req \<le> 0 \<or> sw_MinOutputAmount req \<le> out"
      "Swap drv now body db = (Reply StatusOK s, db')"
      "swap_InputAmount s = sw_InputAmount req" "swap_OutputAmount s = out" "swap_FeeAmount s = fee"
      "swap_OutputAssetID s = oa" "t_swaps db' = t_swaps db @ [s]"
      "t_pools db' = put_row pool_ID (swap_pool req out p) (t_pools db)"
      "t_positions db' = t_positions (distributeFeeToProviders drv (pool_ID p) fee db)"
proof (cases body)
  case (Inl e)
  then show ?thesis using kept by (simp add: Swap_def)
next
  case (Inr req)
  show ?thesis
  proof (cases "swap_read drv req db")
    case (Inl resp)
    then have "is_fail resp" by (auto simp: swap_read_def split: sum.splits if_splits option.splits)
    with Inl Inr kept show ?thesis by (simp add: Swap_def)
  next
    case plan: (Inr plan)
    then obtain p rIn rOut oa out fee where
      pl: "g_first (d_pools drv) (\<lambda>p. pool_ID p = sw_PoolID req) (t_pools db) = Inr p" "pool_Active p"
        "swap_sides (sw_InputAssetID req) p = Some (rIn, rOut, oa)" "rIn \<noteq> 0" "rOut \<noteq> 0"
        "swap_quote (sw_InputAmount req) (pool_FeeBasisPoints p) rIn rOut = Some (out, fee)"
        "0 < out" "sw_MinOutputAmount req \<le> 0 \<or> sw_MinOutputAmount req \<le> out"
        "sp_pool plan = p" "sp_output plan = out" "sp_fee plan = fee" "sp_outputAsset plan = oa"
      by (auto simp: swap_read_def not_less split: sum.splits if_splits option.splits)
    have p: "p \<in> set (t_pools db)" "pool_ID p = sw_PoolID req"
      using gorm_firstD[OF drv_pools[OF drv] pl(1)] by simp_all
    show ?thesis
    proof (cases rule: transaction_cases[of "d_tx drv" "swap_tx drv now req plan" db, case_names failed committed])
      case (failed e)
      then show ?thesis using kept Inr plan by (simp add: Swap_def)
    next
      case (committed s db')
      define db1 where "db1 pools' = distributeFeeToProviders drv (pool_ID p) fee (db\<lparr> t_pools := pools' \<rparr>)" for pools'
      from committed(2) obtain pools' rec ss where
        sv: "g_save (d_pools drv) (swap_pool req out p) (t_pools db) = Inr pools'"
        and cr: "g_create (d_swaps drv) rec (t_swaps (db1 pools')) = Inr (s, ss)"
        and rec: "swap_InputAmount rec = sw_InputAmount req" "swap_OutputAmount rec = out" "swap_FeeAmount rec = fee"
          "swap_OutputAssetID rec = oa"
        and db': "db' = (db1 pools')\<lparr> t_swaps := ss \<rparr>"
        by (force simp: swap_tx_def Let_def pl(9-12) db1_def)
      have pools': "pools' = put_row pool_ID (swap_pool req out p) (t_pools db)"
        by (rule gorm_save[OF drv_pools[OF drv] sv p(1)]) (simp add: swap_pool_def)
      have dist: "distinct (map pos_ID (t_positions (db\<lparr> t_pools := pools' \<rparr>)))"
        using inv by (simp add: liq_inv_def positions_wf_def)
      obtain k where "s = rec\<lparr> swap_ID := k \<rparr>" "ss = t_swaps (db1 pools') @ [s]"
        using gorm_createD[OF _ cr, of swap_ID "\<lambda>k. swap_ID_update (\<lambda>_. k)"] drv by (auto simp: liq_drv_ok_def)
      moreover have pos: "t_positions (db1 pools') = t_positions (distributeFeeToProviders drv (pool_ID p) fee db)"
        by (simp add: db1_def distributeFeeToProviders_def Let_def split: sum.splits)
      moreover have "t_pools (db1 pools') = pools'" "t_swaps (db1 pools') = t_swaps db"
        using distribute_core(2,3)[OF drv dist] by (simp_all add: db1_def)
      ultimately have "swap_InputAmount s = sw_InputAmount req" "swap_OutputAmount s = out" "swap_FeeAmount s = fee"
        "swap_OutputAssetID s = oa" "t_swaps db' = t_swaps db @ [s]"
        "t_pools db' = put_row pool_ID (swap_pool req out p) (t_pools db)"
        "t_positions db' = t_positions (distributeFeeToProviders drv (pool_ID p) fee db)"
        using rec db' pools' by simp_all
      moreover have "Swap drv now body db = (Reply StatusOK s, db')"
        using committed(1) Inr plan by (simp add: Swap_def)
      ultimately show ?thesis using swapped[OF Inr p pl(2-8)] by blast
    qed
  qed
qed

definition swap_request_fits :: "swapRequest \<Rightarrow> LiquidityPool \<Rightarrow> bool" where
  "swap_request_fits req p \<longleftrightarrow>
     (case swap_sides (sw_InputAssetID req) p of
        None \<Rightarrow> True | Some (rIn, rOut, _) \<Rightarrow> swap_fits (sw_InputAmount req) rIn rOut)"

lemma swap_pool_effect:
  assumes wf: "pool_wf p" and bnd: "bound_swap req" and fits: "swap_request_fits req p"
    and sides: "swap_sides (sw_InputAssetID req) p = Some (rIn, rOut, oa)" "rIn \<noteq> 0" "rOut \<noteq> 0"
    and quote: "swap_quote (sw_InputAmount req) (pool_FeeBasisPoints p) rIn rOut = Some (out, fee)" "0 < out"
  shows "swap_sides (sw_InputAssetID req) (swap_pool req out p) = Some (rIn + sw_InputAmount req, rOut - out, oa)"
    and "out < rOut" "0 \<le> fee" "fee \<le> sw_InputAmount req"
    and "rIn * rOut \<le> (rIn + sw_InputAmount req) * (rOut - out)"
    and "pool_wf (swap_pool req out p)" "0 < rIn" "0 < rOut" "pool_TotalLPTokens (swap_pool req out p) = pool_TotalLPTokens p"
proof -
  define inp where "inp = sw_InputAmount req"
  define x where "x = after_fee inp (pool_FeeBasisPoints p)"
  have r: "0 < rIn" "0 < rOut" "in_i64 rIn" "in_i64 rOut"
    using wf sides by (auto simp: pool_wf_def swap_sides_def split: if_splits)
  have f: "0 < inp" "swap_fits inp rIn rOut" using bnd fits sides by (simp_all add: bound_swap_def swap_request_fits_def inp_def)
  have b: "0 \<le> pool_FeeBasisPoints p" "pool_FeeBasisPoints p \<le> 10000" using wf by (simp_all add: pool_wf_def)
  have x: "0 \<le> x" "x \<le> inp" using after_fee_exact[OF f(1) b] f(2) by (simp_all add: x_def swap_fits_def)
  have q: "out = x * rOut div (rIn + x)" "fee = inp - x"
    using swap_quote_exact[OF f(1) b r(1,2) f(2)] quote(1) by (simp_all add: x_def inp_def)
  show "out < rOut" using swap_output_bounds(2)[OF x(1) r(1,2)] by (simp add: q)
  show "0 \<le> fee" "fee \<le> sw_InputAmount req" using x by (simp_all add: q inp_def)
  have "rIn * rOut \<le> (rIn + x) * (rOut - out)" using swap_output_bounds(3)[OF x(1) r(1,2)] by (simp add: q)
  also have "\<dots> \<le> (rIn + inp) * (rOut - out)"
    using x \<open>out < rOut\<close> by (intro mult_right_mono) simp_all
  finally show "rIn * rOut \<le> (rIn + sw_InputAmount req) * (rOut - out)" by (simp add: inp_def)
  have e: "add64 rIn inp = rIn + inp" "sub64 rOut out = rOut - out" "in_i64 (rIn + inp)" "in_i64 (rOut - out)"
    using f(2) r quote(2) \<open>out < rOut\<close> by (simp_all add: swap_fits_def add64_exact sub64_exact in_i64_def)
  then show "swap_sides (sw_InputAssetID req) (swap_pool req out p) = Some (rIn + sw_InputAmount req, rOut - out, oa)"
    using sides by (auto simp: swap_sides_def swap_pool_def inp_def split: if_splits)
  show "pool_wf (swap_pool req out p)"
    using wf sides e f(1) r \<open>out < rOut\<close> by (auto simp: pool_wf_def swap_sides_def swap_pool_def inp_def split: if_splits)
  show "0 < rIn" "0 < rOut" by fact+
  show "pool_TotalLPTokens (swap_pool req out p) = pool_TotalLPTokens p" by (simp add: swap_pool_def)
qed

lemma Swap_inv:
  assumes drv: "liq_drv_ok drv" and inv: "liq_inv db"
    and req: "\<forall>req. body = Inr req \<longrightarrow> bound_swap req \<and>
      (\<forall>p\<in>set (t_pools db). pool_ID p = sw_PoolID req \<longrightarrow> swap_request_fits req p)"
  shows "liq_inv (snd (Swap drv now body db))"
proof (cases rule: Swap_cases[OF drv inv, of now body, case_names kept swapped])
  case kept
  then show ?thesis using inv by simp
next
  case (swapped req p rIn rOut oa out fee s db')
  have wf: "pool_wf p" using liq_inv_pool[OF inv swapped(2)] by simp
  have "bound_swap req" "swap_request_fits req p" using req swapped by auto
  note eff = swap_pool_effect[OF wf this swapped(5-9)]
  have dist: "distinct (map pos_ID (t_positions db))" using inv by (simp add: liq_inv_def positions_wf_def)
  have core: "map pos_core (t_positions db') = map pos_core (t_positions db)"
    unfolding swapped(18) by (rule distribute_core(1)[OF drv dist])
  have "positions_wf (pool_ID ` set (t_pools db)) (t_positions db')"
    using inv map_core_eq(3)[OF core] by (simp add: liq_inv_def)
  then have "liq_inv db'"
    using map_core_eq(2)[OF core] swapped(17) eff
    by (intro liq_inv_update[OF inv swapped(2), of "swap_pool req out p"]) (simp_all add: swap_pool_def)
  then show ?thesis using swapped(11) by simp
qed

subsection \<open>The handlers as a service\<close>

datatype liq_req =
    ReqCreatePool "string + createPoolRequest"
  | ReqAdd "string + addLiquidityRequest"
  | ReqRemove "string + removeLiquidityRequest"
  | ReqSwap instant "string + swapRequest"

fun liq_handle :: "liq_drv \<Rightarrow> liq_req \<Rightarrow> liq_db \<Rightarrow> unit response \<times> liq_db" where
  "liq_handle drv (ReqCreatePool b) db = drop_body (CreatePool drv b db)"
| "liq_handle drv (ReqAdd b) db = drop_body (AddLiquidity drv b db)"
| "liq_handle drv (ReqRemove b) db = drop_body (RemoveLiquidity drv b db)"
| "liq_handle drv (ReqSwap now b) db = drop_body (Swap drv now b db)"

text \<open>The request satisfies its binding tags and none of the handler's products and sums leaves the
  64-bit range on these tables.\<close>

fun liq_req_fits :: "liq_req \<Rightarrow> liq_db \<Rightarrow> bool" where
  "liq_req_fits (ReqCreatePool b) db = (case b of Inl _ \<Rightarrow> True | Inr req \<Rightarrow> bound_create req)"
| "liq_req_fits (ReqAdd b) db = (case b of Inl _ \<Rightarrow> True | Inr req \<Rightarrow>
     bound_add req \<and> (\<forall>p\<in>set (t_pools db). pool_ID p = al_PoolID req \<longrightarrow> add_fits req p))"
| "liq_req_fits (ReqRemove b) db = (case b of Inl _ \<Rightarrow> True | Inr req \<Rightarrow>
     bound_remove req \<and> (\<forall>p\<in>set (t_pools db). pool_ID p = rl_PoolID req \<longrightarrow> withdraw_fits (rl_LPTokens req) p))"
| "liq_req_fits (ReqSwap now b) db = (case b of Inl _ \<Rightarrow> True | Inr req \<Rightarrow>
     bound_swap req \<and> (\<forall>p\<in>set (t_pools db). pool_ID p = sw_PoolID req \<longrightarrow> swap_request_fits req p))"

lemma liq_keeps:
  assumes "liq_drv_ok drv" "liq_inv db" "liq_req_fits r db"
  shows "liq_inv (snd (liq_handle drv r db))"
proof (cases r)
  case (ReqCreatePool b)
  then show ?thesis using CreatePool_inv[OF assms(1,2), of b] assms(3) by (auto split: sum.splits)
next
  case (ReqAdd b)
  then show ?thesis using AddLiquidity_inv[OF assms(1,2), of b] assms(3) by (auto split: sum.splits)
next
  case (ReqRemove b)
  then show ?thesis using RemoveLiquidity_inv[OF assms(1,2), of b] assms(3) by (auto split: sum.splits)
next
  case (ReqSwap now b)
  then show ?thesis using Swap_inv[OF assms(1,2), of b now] assms(3) by (auto split: sum.splits)
qed

lemma liq_frame: "is_fail (fst (liq_handle drv r db)) \<Longrightarrow> snd (liq_handle drv r db) = db"
proof (cases r)
  case (ReqCreatePool b)
  assume "is_fail (fst (liq_handle drv r db))"
  then show ?thesis by (simp add: ReqCreatePool CreatePool_frame)
next
  case (ReqAdd b)
  assume "is_fail (fst (liq_handle drv r db))"
  then show ?thesis
    by (auto simp: ReqAdd AddLiquidity_def add_commit_def dest: transaction_Inl split: sum.splits prod.splits)
next
  case (ReqRemove b)
  assume "is_fail (fst (liq_handle drv r db))"
  then show ?thesis
    by (auto simp: ReqRemove RemoveLiquidity_def dest: transaction_Inl split: sum.splits prod.splits)
next
  case (ReqSwap now b)
  assume "is_fail (fst (liq_handle drv r db))"
  then show ?thesis
    by (auto simp: ReqSwap Swap_def dest: transaction_Inl split: sum.splits prod.splits)
qed

interpretation liq: atomic_service "liq_handle drv" "\<lambda>db. liq_drv_ok drv \<and> liq_inv db" liq_req_fits for drv
  by unfold_locales (auto intro: liq_keeps liq_frame)

subsection \<open>Properties\<close>

definition liq_empty :: liq_db where
  "liq_empty = \<lparr> t_pools = [], t_positions = [], t_swaps = [] \<rparr>"

lemma liq_inv_empty: "liq_inv liq_empty"
  by (simp add: liq_inv_def liq_empty_def positions_wf_def)

text \<open>C1: the books of the pools always balance. After any sequence of pool creations, deposits, withdrawals and
  swaps from empty tables, whatever database calls fail, every pool's LP total is the sum of its positions' LP tokens, no position is
  negative, and a pool either is empty or has both reserves positive; a request that is answered with an error leaves the tables as they
  were. Hypotheses on the requests (\<open>liq_req_fits\<close>): they satisfy their binding tags, and the products and sums of amounts, reserves and
  LP tokens that they compute fit into \<open>int64\<close>. Without the second a swap can leave a negative reserve (\<open>swap_overflow_drains_pool\<close>).\<close>

theorem liquidity_books_balance:
  assumes "liq_drv_ok drv" "liq.all_fit drv rs liq_empty"
  shows "liq_inv (liq.run drv rs liq_empty) \<and>
         (\<forall>r db. is_fail (fst (liq_handle drv r db)) \<longrightarrow> snd (liq_handle drv r db) = db)"
  using liq.run_inv[of drv liq_empty rs] assms liq_inv_empty liq_frame by blast

theorem liquidity_books_balance_witness:
  "let rs = [ReqCreatePool (Inr \<lparr> cp_AssetAID = 2, cp_AssetBID = 1, cp_CreatorAddress = ''c'', cp_FeeBasisPoints = 0 \<rparr>),
             ReqAdd (Inr \<lparr> al_PoolID = 1, al_ProviderAddress = ''p'', al_AmountA = 100, al_AmountB = 400 \<rparr>),
             ReqSwap 5 (Inr \<lparr> sw_PoolID = 1, sw_TraderAddress = ''t'', sw_InputAssetID = 1, sw_InputAmount = 50,
                              sw_MinOutputAmount = 1 \<rparr>),
             ReqRemove (Inr \<lparr> rl_PoolID = 1, rl_ProviderAddress = ''p'', rl_LPTokens = 60 \<rparr>)];
       db = liq.run mem_liq rs liq_empty
   in map (\<lambda>p. (pool_ReserveA p, pool_ReserveB p, pool_TotalLPTokens p)) (t_pools db) = [(105, 189, 140)] \<and>
      map pos_LPTokens (t_positions db) = [140] \<and> liq_inv db"
proof -
  define rs where "rs = [ReqCreatePool (Inr \<lparr> cp_AssetAID = 2, cp_AssetBID = 1, cp_CreatorAddress = ''c'', cp_FeeBasisPoints = 0 \<rparr>),
             ReqAdd (Inr \<lparr> al_PoolID = 1, al_ProviderAddress = ''p'', al_AmountA = 100, al_AmountB = 400 \<rparr>),
             ReqSwap 5 (Inr \<lparr> sw_PoolID = 1, sw_TraderAddress = ''t'', sw_InputAssetID = 1, sw_InputAmount = 50,
                              sw_MinOutputAmount = 1 \<rparr>),
             ReqRemove (Inr \<lparr> rl_PoolID = 1, rl_ProviderAddress = ''p'', rl_LPTokens = 60 \<rparr>)]"
  have "liq.all_fit mem_liq rs liq_empty" unfolding rs_def liq.all_fit.simps by code_simp
  with mem_liq_ok have "liq_inv (liq.run mem_liq rs liq_empty)" using liquidity_books_balance by blast
  moreover have "map (\<lambda>p. (pool_ReserveA p, pool_ReserveB p, pool_TotalLPTokens p)) (t_pools (liq.run mem_liq rs liq_empty)) = [(105, 189, 140)] \<and>
      map pos_LPTokens (t_positions (liq.run mem_liq rs liq_empty)) = [140]" unfolding rs_def liq.run.simps by code_simp
  ultimately show ?thesis by (simp add: rs_def Let_def)
qed

text \<open>C2: a swap never decreases the constant product. When a swap is accepted, the pool's input reserve grows by
  exactly the input amount and its output reserve shrinks by the output amount, the output is positive, below the
  reserve and not below the caller's minimum, and the product of the reserves does not decrease. Hypotheses: the books of the pools
  balance before, the request satisfies its binding tags, and input times 10000, input times output reserve and input plus input reserve fit
  into \<open>int64\<close>; \<open>swap_overflow_drains_pool\<close> and \<open>swap_overflow_rejected\<close> say what happens beyond.\<close>

theorem swap_constant_product:
  assumes "liq_drv_ok drv" "liq_inv db" "bound_swap req"
    and "\<forall>p\<in>set (t_pools db). pool_ID p = sw_PoolID req \<longrightarrow> swap_request_fits req p"
    and "Swap drv now (Inr req) db = (Reply st s, db')"
  shows "\<exists>p p' rIn rOut oa. p \<in> set (t_pools db) \<and> pool_ID p = sw_PoolID req \<and>
    t_pools db' = put_row pool_ID p' (t_pools db) \<and> pool_ID p' = pool_ID p \<and>
    swap_sides (sw_InputAssetID req) p = Some (rIn, rOut, oa) \<and>
    swap_sides (sw_InputAssetID req) p' = Some (rIn + sw_InputAmount req, rOut - swap_OutputAmount s, oa) \<and>
    0 < swap_OutputAmount s \<and> swap_OutputAmount s < rOut \<and> sw_MinOutputAmount req \<le> swap_OutputAmount s \<and>
    rIn * rOut \<le> (rIn + sw_InputAmount req) * (rOut - swap_OutputAmount s)"
proof (cases rule: Swap_cases[OF assms(1,2), of now "Inr req", case_names kept swapped])
  case kept
  then show ?thesis using assms(5) by simp
next
  case (swapped req' p rIn rOut oa out fee s' db1)
  then have eq: "req' = req" "s' = s" "db1 = db'" using assms(5) by simp_all
  have wf: "pool_wf p" using liq_inv_pool[OF assms(2) swapped(2)] by simp
  have "swap_request_fits req p" using assms(4) swapped(2,3) eq by blast
  note eff = swap_pool_effect[OF wf assms(3) this swapped(5-9)[unfolded eq(1)]]
  have "sw_MinOutputAmount req \<le> out" using swapped(9,10) eq by auto
  moreover have "pool_ID (swap_pool req out p) = pool_ID p" by (simp add: swap_pool_def)
  ultimately show ?thesis
    using eff swapped(2,3,5,9,13,17) unfolding eq
    by (intro exI[of _ p] exI[of _ "swap_pool req out p"] exI[of _ rIn] exI[of _ rOut] exI[of _ oa]) simp
qed

definition demo_pool :: liq_db where
  "demo_pool = \<lparr> t_pools = [\<lparr> pool_ID = 1, pool_AssetAID = 1, pool_AssetBID = 2, pool_ReserveA = 1000, pool_ReserveB = 5000,
      pool_TotalLPTokens = 300, pool_FeeBasisPoints = 30, pool_CreatorAddress = ''c'', pool_Active = True \<rparr>],
    t_positions = [\<lparr> pos_ID = 1, pos_PoolID = 1, pos_ProviderAddress = ''p'', pos_LPTokens = 100, pos_DepositedA = 0,
      pos_DepositedB = 0, pos_FeesEarned = 0 \<rparr>, \<lparr> pos_ID = 2, pos_PoolID = 1, pos_ProviderAddress = ''q'',
      pos_LPTokens = 200, pos_DepositedA = 0, pos_DepositedB = 0, pos_FeesEarned = 7 \<rparr>], t_swaps = [] \<rparr>"

lemma demo_pool_inv: "liq_inv demo_pool"
  by (simp add: liq_inv_def demo_pool_def positions_wf_def pool_wf_def lp_sum_def in_i64_def)

definition demo_swap :: swapRequest where
  "demo_swap = \<lparr> sw_PoolID = 1, sw_TraderAddress = ''t'', sw_InputAssetID = 1, sw_InputAmount = 100, sw_MinOutputAmount = 0 \<rparr>"

theorem swap_constant_product_witness:
  "(1000::int) * 5000 \<le> (1000 + 100) * (5000 - 450) \<and>
   fst (Swap mem_liq 9 (Inr demo_swap) demo_pool) = Reply 200 \<lparr> swap_ID = 1, swap_PoolID = 1, swap_TraderAddress = ''t'',
     swap_InputAssetID = 1, swap_OutputAssetID = 2, swap_InputAmount = 100, swap_OutputAmount = 450, swap_FeeAmount = 1,
     swap_PriceImpactBps = 900, swap_CreatedAt = 9 \<rparr>"
proof -
  let ?s = "\<lparr> swap_ID = 1, swap_PoolID = 1, swap_TraderAddress = ''t'',
     swap_InputAssetID = 1, swap_OutputAssetID = 2, swap_InputAmount = 100, swap_OutputAmount = 450, swap_FeeAmount = 1,
     swap_PriceImpactBps = 900, swap_CreatedAt = 9 \<rparr>"
  have run: "fst (Swap mem_liq 9 (Inr demo_swap) demo_pool) = Reply 200 ?s" by code_simp
  then have run': "Swap mem_liq 9 (Inr demo_swap) demo_pool = (Reply 200 ?s, snd (Swap mem_liq 9 (Inr demo_swap) demo_pool))"
    by (metis prod.collapse)
  have b: "bound_swap demo_swap" "\<forall>p\<in>set (t_pools demo_pool). pool_ID p = sw_PoolID demo_swap \<longrightarrow> swap_request_fits demo_swap p"
    by (simp_all add: bound_swap_def demo_swap_def demo_pool_def swap_request_fits_def swap_sides_def swap_fits_def in_i64_def)
  from swap_constant_product[OF mem_liq_ok demo_pool_inv b run']
  have "(1000::int) * 5000 \<le> (1000 + 100) * (5000 - 450)"
    by (auto simp: demo_pool_def demo_swap_def swap_sides_def)
  with run show ?thesis by blast
qed

lemma remove_own_share:
  assumes "0 \<le> R" "0 \<le> L" "0 < lp" "0 \<le> a" "lp * R \<le> a * (L::int)"
  shows "lp * (R + a) div (L + lp) \<le> a"
proof -
  have "lp * (R + a) \<le> a * (L + lp)" using assms(5) by (simp add: algebra_simps)
  also have "\<dots> < (a + 1) * (L + lp)" using assms(2,3) by (simp add: algebra_simps)
  finally show ?thesis using div_less_iff[of "L + lp" "lp * (R + a)" "a + 1"] assms(2,3) by simp
qed

text \<open>A deposit is issued no more than its share of the pool.\<close>

lemma issued_share:
  assumes "lp_to_issue req p = Some lp" "bound_add req" "pool_wf p" "add_fits req p"
  shows "lp * pool_ReserveA p \<le> al_AmountA req * pool_TotalLPTokens p" "lp * pool_ReserveB p \<le> al_AmountB req * pool_TotalLPTokens p"
proof -
  have "lp * pool_ReserveA p \<le> al_AmountA req * pool_TotalLPTokens p \<and> lp * pool_ReserveB p \<le> al_AmountB req * pool_TotalLPTokens p"
  proof (cases "pool_TotalLPTokens p = 0")
    case True
    then show ?thesis using assms(3) by (simp add: pool_wf_def)
  next
    case False
    then have pos: "0 < pool_TotalLPTokens p" "0 < pool_ReserveA p" "0 < pool_ReserveB p" using assms(3) by (simp_all add: pool_wf_def)
    have "in_i64 (al_AmountA req * pool_TotalLPTokens p)" "in_i64 (al_AmountB req * pool_TotalLPTokens p)"
      using assms(4) by (simp_all add: add_fits_def)
    from lp_to_issue_bound[OF assms(1,2) pos this] show ?thesis by simp
  qed
  then show "lp * pool_ReserveA p \<le> al_AmountA req * pool_TotalLPTokens p" "lp * pool_ReserveB p \<le> al_AmountB req * pool_TotalLPTokens p" by simp_all
qed


definition demo_add :: addLiquidityRequest where
  "demo_add = \<lparr> al_PoolID = 1, al_ProviderAddress = ''p'', al_AmountA = 70, al_AmountB = 300 \<rparr>"


end
