(* ===== verification/LiquidityFees.thy ===== *)
theory LiquidityFees
  imports Liquidity
begin

section \<open>Liquidity pools: fee credit, canonical pairs, first deposit\<close>

text \<open>
  Further properties of \<open>handlers/liquidity.go\<close>: the fee of a swap is never over-distributed, the
  pool of a pair is unique as long as the lookup does not fail, the first deposit issues the floor
  of the geometric mean, and the situations in which the code departs from what it
  means to do (a failing lookup, 64-bit overflow of a swap, interleaved deposits).
\<close>

subsection \<open>Fee credit\<close>

definition earned :: "LiquidityPosition list \<Rightarrow> int" where
  "earned ps = sum_list (map pos_FeesEarned ps)"

lemma sum_div_le:
  fixes f :: "'a \<Rightarrow> int"
  assumes "0 < t"
  shows "sum_list (map (\<lambda>q. f q div t) qs) \<le> sum_list (map f qs) div t"
proof (induction qs)
  case (Cons q qs)
  have "(f q div t + sum_list (map f qs) div t) * t \<le> f q + sum_list (map f qs)"
    using le_div_iff[OF assms, of "f q div t" "f q"] le_div_iff[OF assms, of "sum_list (map f qs) div t" "sum_list (map f qs)"]
    by (simp add: algebra_simps)
  then have "f q div t + sum_list (map f qs) div t \<le> (f q + sum_list (map f qs)) div t"
    using le_div_iff[OF assms] by blast
  with Cons show ?case by simp
qed simp

lemma fold_credit_earned:
  assumes g: "gorm_ok pos_ID setkey g"
    and share: "\<And>q. q \<in> set qs \<Longrightarrow> 0 \<le> fee_share f t q \<and>
          add64 (pos_FeesEarned q) (fee_share f t q) = pos_FeesEarned q + fee_share f t q"
  shows "distinct (map pos_ID ps) \<Longrightarrow> distinct (map pos_ID qs) \<Longrightarrow> set qs \<subseteq> set ps \<Longrightarrow>
     earned (fold (\<lambda>p. save_ignoring g (credit_fee f t p)) qs ps)
       \<le> earned ps + sum_list (map (fee_share f t) qs)"
  using share
proof (induction qs arbitrary: ps)
  case (Cons q qs)
  let ?r = "credit_fee f t q" and ?ps = "save_ignoring g (credit_fee f t q) ps"
  have qp: "q \<in> set ps" and id: "pos_ID q = pos_ID ?r" using Cons.prems(3) by (simp_all add: credit_fee_def)
  have fr: "0 \<le> fee_share f t q" "pos_FeesEarned ?r = pos_FeesEarned q + fee_share f t q"
    using Cons.prems(4)[of q] by (simp_all add: credit_fee_def)
  have cases: "?ps = ps \<or> ?ps = put_row pos_ID ?r ps"
    using gorm_save[OF g _ qp id] by (auto simp: save_ignoring_def split: sum.splits)
  then have le: "earned ?ps \<le> earned ps + fee_share f t q"
  proof
    assume "?ps = put_row pos_ID ?r ps"
    then show ?thesis
      using sum_list_put_row[OF Cons.prems(1) qp id, of pos_FeesEarned] fr by (simp add: earned_def)
  qed (use fr in simp)
  have keys: "map pos_ID ?ps = map pos_ID ps" using cases by auto
  have "set qs \<subseteq> set ?ps"
  proof
    fix x assume x: "x \<in> set qs"
    have "pos_ID q \<notin> pos_ID ` set qs" using Cons.prems(2) by simp
    with x have "pos_ID x \<noteq> pos_ID ?r" using id by (metis imageI)
    moreover have "x \<in> set ps" using x Cons.prems(3) by auto
    ultimately have "x \<in> set (put_row pos_ID ?r ps)" by (intro put_row_other)
    with cases \<open>x \<in> set ps\<close> show "x \<in> set ?ps" by metis
  qed
  then have "earned (fold (\<lambda>p. save_ignoring g (credit_fee f t p)) qs ?ps) \<le> earned ?ps + sum_list (map (fee_share f t) qs)"
    using Cons.prems keys by (intro Cons.IH) auto
  with le show ?case by simp
qed simp

lemma foldl_add64_exact:
  assumes "\<And>q. q \<in> set qs \<Longrightarrow> 0 \<le> f q" "0 \<le> acc" "in_i64 (acc + sum_list (map f qs))"
  shows "foldl (\<lambda>a q. add64 a (f q)) acc qs = acc + sum_list (map f qs)"
  using assms
proof (induction qs arbitrary: acc)
  case (Cons q qs)
  have "0 \<le> sum_list (map f qs)" using Cons.prems(1) by (intro sum_list_nonneg_int) auto
  then have "in_i64 (acc + f q)" using Cons.prems by (intro in_i64_nonneg[OF _ _ Cons.prems(3)]) auto
  then show ?case using Cons.IH[of "acc + f q"] Cons.prems by (simp add: add64_exact add.assoc)
qed simp

text \<open>The providers that the query returns are those of the pool: they hold its whole LP supply.\<close>

lemma providers_hold_supply:
  assumes drv: "liq_drv_ok drv" and inv: "liq_inv db" and p: "p \<in> set (t_pools db)"
    and find: "g_find (d_positions drv) (Where (\<lambda>q. pos_PoolID q = pool_ID p \<and> pos_LPTokens q > 0)) (t_positions db) = Inr qs"
  shows "set qs \<subseteq> set (t_positions db)" "distinct (map pos_ID qs)" "\<And>q. q \<in> set qs \<Longrightarrow> 0 < pos_LPTokens q"
    "sum_list (map pos_LPTokens qs) = pool_TotalLPTokens p" "foldl (\<lambda>acc q. add64 acc (pos_LPTokens q)) 0 qs = pool_TotalLPTokens p"
proof -
  define flt where "flt = filter (\<lambda>q. pos_PoolID q = pool_ID p \<and> pos_LPTokens q > 0) (t_positions db)"
  have pw: "positions_wf (pool_ID ` set (t_pools db)) (t_positions db)" using inv by (simp add: liq_inv_def)
  have ms: "mset qs = mset flt" unfolding flt_def by (rule gorm_find_Where[OF drv_posns[OF drv] find])
  show "set qs \<subseteq> set (t_positions db)" and pos: "\<And>q. q \<in> set qs \<Longrightarrow> 0 < pos_LPTokens q"
    using mset_eq_setD[OF ms] by (auto simp: flt_def)
  show "distinct (map pos_ID qs)"
    by (rule distinct_map_listing[OF ms[unfolded flt_def]]) (use pw in \<open>simp add: positions_wf_def\<close>)
  have nn: "\<And>q. q \<in> set (t_positions db) \<Longrightarrow> 0 \<le> pos_LPTokens q" using pw by (simp add: positions_wf_def)
  have "sum_list (map pos_LPTokens qs) = sum_list (map pos_LPTokens flt)" by (rule sum_list_mset_eq[OF ms])
  also have "\<dots> = lp_sum (pool_ID p) (t_positions db)"
    unfolding lp_sum_def flt_def by (auto simp: sum_list_map_filter' intro!: arg_cong[of _ _ sum_list] dest!: nn)
  finally show tot: "sum_list (map pos_LPTokens qs) = pool_TotalLPTokens p" using liq_inv_pool[OF inv p] by simp
  show "foldl (\<lambda>acc q. add64 acc (pos_LPTokens q)) 0 qs = pool_TotalLPTokens p"
    using foldl_add64_exact[of qs pos_LPTokens 0] pos tot liq_inv_pool[OF inv p] by (simp add: pool_wf_def less_imp_le)
qed

lemma fee_share_exact:
  assumes "0 < pos_LPTokens q" "pos_LPTokens q \<le> T" "0 \<le> f" "in_i64 (T * f)"
  shows "fee_share f T q = pos_LPTokens q * f div T" "0 \<le> fee_share f T q" "fee_share f T q \<le> f"
proof -
  have "pos_LPTokens q * f \<le> T * f" "0 \<le> pos_LPTokens q * f" using assms(1-3) by (simp_all add: mult_right_mono)
  then have "in_i64 (pos_LPTokens q * f)" using assms(4) by (metis in_i64_nonneg)
  then show e: "fee_share f T q = pos_LPTokens q * f div T"
    using assms(1-3) by (simp add: fee_share_def mul64_exact quo64_nonneg)
  show "0 \<le> fee_share f T q" "fee_share f T q \<le> f"
    unfolding e using assms(1-3) share_le[of "pos_LPTokens q" T f] by (simp_all add: pos_imp_zdiv_nonneg_iff)
qed

text \<open>C33: a swap fee is never over-distributed. Crediting a non-negative fee to the providers of a pool raises the total of the
  providers' earned fees by at most the fee, whichever of the individual saves fail, and changes nothing but the
  \<open>FeesEarned\<close> column; the books balance before, and LP total times fee and the earned fees plus the fee fit into \<open>int64\<close>.\<close>

theorem fee_credit_bounded:
  assumes drv: "liq_drv_ok drv" and inv: "liq_inv db" and p: "p \<in> set (t_pools db)" and f: "0 \<le> f"
    and fits: "in_i64 (pool_TotalLPTokens p * f)"
    and fits2: "\<forall>q\<in>set (t_positions db). 0 \<le> pos_FeesEarned q \<and> in_i64 (pos_FeesEarned q + f)"
  shows "earned (t_positions (distributeFeeToProviders drv (pool_ID p) f db)) \<le> earned (t_positions db) + f \<and>
         map pos_core (t_positions (distributeFeeToProviders drv (pool_ID p) f db)) = map pos_core (t_positions db)"
proof -
  let ?ps = "t_positions db" and ?T = "pool_TotalLPTokens p"
  have dist: "distinct (map pos_ID ?ps)" using inv by (simp add: liq_inv_def positions_wf_def)
  have "earned (t_positions (distributeFeeToProviders drv (pool_ID p) f db)) \<le> earned ?ps + f"
  proof (cases "g_find (d_positions drv) (Where (\<lambda>q. pos_PoolID q = pool_ID p \<and> pos_LPTokens q > 0)) ?ps")
    case (Inl e)
    then show ?thesis using f by (simp add: distributeFeeToProviders_def)
  next
    case (Inr qs)
    note h = providers_hold_supply[OF drv inv p Inr]
    show ?thesis
    proof (cases "?T = 0")
      case True
      then show ?thesis using Inr f h(5) by (simp add: distributeFeeToProviders_def)
    next
      case False
      then have T0: "0 < ?T" using liq_inv_pool[OF inv p] by (simp add: pool_wf_def)
      have le: "pos_LPTokens q \<le> ?T" if "q \<in> set qs" for q
        unfolding h(4)[symmetric] using h(3) that by (intro member_le_sum_list_int) (auto intro: less_imp_le)
      note share = fee_share_exact[OF h(3) le f fits]
      have "add64 (pos_FeesEarned q) (fee_share f ?T q) = pos_FeesEarned q + fee_share f ?T q" if q: "q \<in> set qs" for q
      proof (rule add64_exact)
        have "0 \<le> pos_FeesEarned q" "in_i64 (pos_FeesEarned q + f)" using fits2 h(1) q by blast+
        then show "in_i64 (pos_FeesEarned q + fee_share f ?T q)"
          using in_i64_nonneg[of "pos_FeesEarned q + fee_share f ?T q" "pos_FeesEarned q + f"] share(2,3)[OF q q] by simp
      qed
      then have "earned (fold (\<lambda>p. save_ignoring (d_positions drv) (credit_fee f ?T p)) qs ?ps) \<le> earned ?ps + sum_list (map (fee_share f ?T) qs)"
        using fold_credit_earned[OF drv_posns[OF drv], of qs f ?T ?ps] share(2) dist h(1,2) by blast
      also have "sum_list (map (fee_share f ?T) qs) = sum_list (map (\<lambda>q. pos_LPTokens q * f div ?T) qs)"
        using share(1) by (intro arg_cong[of _ _ sum_list]) simp
      also have "\<dots> \<le> sum_list (map (\<lambda>q. pos_LPTokens q * f) qs) div ?T" by (rule sum_div_le[OF T0])
      also have "\<dots> = f" using T0 by (simp add: sum_list_mult_const h(4))
      finally show ?thesis using Inr False by (simp add: distributeFeeToProviders_def h(5))
    qed
  qed
  then show ?thesis using distribute_core(1)[OF drv dist] by simp
qed

theorem fee_credit_bounded_witness:
  "earned (t_positions (distributeFeeToProviders mem_liq 1 10 demo_pool)) \<le> 7 + 10 \<and>
   map pos_FeesEarned (t_positions (distributeFeeToProviders mem_liq 1 10 demo_pool)) = [3, 13]"
proof -
  have "hd (t_pools demo_pool) \<in> set (t_pools demo_pool)" by (simp add: demo_pool_def)
  moreover have "in_i64 (pool_TotalLPTokens (hd (t_pools demo_pool)) * 10)"
    "\<forall>q\<in>set (t_positions demo_pool). 0 \<le> pos_FeesEarned q \<and> in_i64 (pos_FeesEarned q + 10)"
    by (simp_all add: demo_pool_def in_i64_def)
  ultimately have "earned (t_positions (distributeFeeToProviders mem_liq (pool_ID (hd (t_pools demo_pool))) 10 demo_pool))
      \<le> earned (t_positions demo_pool) + 10"
    using fee_credit_bounded[OF mem_liq_ok demo_pool_inv, of "hd (t_pools demo_pool)" 10] by simp
  moreover have "pool_ID (hd (t_pools demo_pool)) = 1" "earned (t_positions demo_pool) = 7"
    by (simp_all add: demo_pool_def earned_def)
  moreover have "map pos_FeesEarned (t_positions (distributeFeeToProviders mem_liq 1 10 demo_pool)) = [3, 13]"
    by code_simp
  ultimately show ?thesis by simp
qed

subsection \<open>Canonical pairs\<close>

definition pairs_canonical :: "liq_db \<Rightarrow> bool" where
  "pairs_canonical db \<longleftrightarrow> (\<forall>p\<in>set (t_pools db). pool_AssetAID p < pool_AssetBID p) \<and>
     distinct (map (\<lambda>p. (pool_AssetAID p, pool_AssetBID p)) (t_pools db))"

definition lookups_answer :: "liq_drv \<Rightarrow> liq_db \<Rightarrow> bool" where
  "lookups_answer drv db \<longleftrightarrow> (\<forall>P e. g_first (d_pools drv) P (t_pools db) = Inl e \<longrightarrow> e = ErrRecordNotFound)"

text \<open>There is at most one pool per pair of assets, whichever way round the pair is given. As long as the lookup of
  an existing pool answers (found or not found), creating a pool keeps the pairs distinct and in canonical order, and it
  succeeds only if no pool with these two assets exists.\<close>

theorem create_pool_unique_pair:
  assumes "liq_drv_ok drv" "pairs_canonical db" "lookups_answer drv db"
  shows "pairs_canonical (snd (CreatePool drv body db)) \<and>
    (\<forall>req st pool p. body = Inr req \<and> fst (CreatePool drv body db) = Reply st pool \<and> p \<in> set (t_pools db) \<longrightarrow>
       {pool_AssetAID p, pool_AssetBID p} \<noteq> {cp_AssetAID req, cp_AssetBID req})"
proof (cases rule: CreatePool_cases[OF assms(1), of body db, case_names kept created])
  case kept
  then show ?thesis using assms(2) by auto
next
  case (created req pool)
  have none: "\<not> (pool_AssetAID p = pool_AssetAID pool \<and> pool_AssetBID p = pool_AssetBID pool)" if "p \<in> set (t_pools db)" for p
  proof -
    obtain e where e: "g_first (d_pools drv) (\<lambda>p. pool_AssetAID p = pool_AssetAID pool \<and> pool_AssetBID p = pool_AssetBID pool)
        (t_pools db) = Inl e" using created(13) by blast
    then have "e = ErrRecordNotFound" using assms(3) by (simp add: lookups_answer_def)
    from gorm_first_none[OF drv_pools[OF assms(1)] e[unfolded this] that] show ?thesis .
  qed
  have "{pool_AssetAID p, pool_AssetBID p} \<noteq> {cp_AssetAID req, cp_AssetBID req}" if "p \<in> set (t_pools db)" for p
  proof -
    have "pool_AssetAID p < pool_AssetBID p" using assms(2) that by (simp add: pairs_canonical_def)
    then show ?thesis using none[OF that] created(5) unfolding created(6)[symmetric] by (auto simp: doubleton_eq_iff)
  qed
  moreover have "pairs_canonical (db\<lparr> t_pools := t_pools db @ [pool] \<rparr>)"
    using assms(2) created(5) by (auto simp: pairs_canonical_def dest!: none)
  ultimately show ?thesis using created(1,2) by auto
qed

theorem create_pool_unique_pair_witness:
  "pairs_canonical (snd (CreatePool mem_liq (Inr \<lparr> cp_AssetAID = 3, cp_AssetBID = 1, cp_CreatorAddress = ''c'', cp_FeeBasisPoints = 0 \<rparr>) demo_pool)) \<and>
   fst (CreatePool mem_liq (Inr \<lparr> cp_AssetAID = 2, cp_AssetBID = 1, cp_CreatorAddress = ''c'', cp_FeeBasisPoints = 0 \<rparr>) demo_pool)
     = Fail 409 ''Pool already exists for this asset pair''"
proof
  have "lookups_answer mem_liq demo_pool"
    by (auto simp: lookups_answer_def mem_liq_def mem_gorm_def split: list.splits)
  moreover have "pairs_canonical demo_pool" by (simp add: pairs_canonical_def demo_pool_def)
  ultimately show "pairs_canonical (snd (CreatePool mem_liq (Inr \<lparr> cp_AssetAID = 3, cp_AssetBID = 1, cp_CreatorAddress = ''c'', cp_FeeBasisPoints = 0 \<rparr>) demo_pool))"
    using create_pool_unique_pair[OF mem_liq_ok, of demo_pool] by blast
  show "fst (CreatePool mem_liq (Inr \<lparr> cp_AssetAID = 2, cp_AssetBID = 1, cp_CreatorAddress = ''c'', cp_FeeBasisPoints = 0 \<rparr>) demo_pool)
     = Fail 409 ''Pool already exists for this asset pair''" by code_simp
qed

subsection \<open>The first deposit\<close>

text \<open>C34: the first deposit into an empty pool issues the floor of the geometric mean of the two amounts, when their
  product is below \<open>2 ^ 52\<close>, where the float64 computation is exact, and the pool then holds exactly the deposit. From there on the product is
  rounded, and the tokens issued can exceed the root (\<open>geometric_mean_rounds_up\<close>).\<close>

theorem first_deposit_geometric_mean:
  assumes "liq_drv_ok drv" "liq_inv db" "bound_add req" "al_AmountA req * al_AmountB req < 2 ^ 52"
    and "\<forall>p\<in>set (t_pools db). pool_ID p = al_PoolID req \<longrightarrow> pool_TotalLPTokens p = 0"
    and "AddLiquidity drv (Inr req) db = (Reply st (r, lp), db')"
  shows "lp * lp \<le> al_AmountA req * al_AmountB req \<and> al_AmountA req * al_AmountB req < (lp + 1) * (lp + 1) \<and>
    (\<exists>p. p \<in> set (t_pools db') \<and> pool_ID p = al_PoolID req \<and> pool_ReserveA p = al_AmountA req \<and>
         pool_ReserveB p = al_AmountB req \<and> pool_TotalLPTokens p = lp)"
proof (cases rule: AddLiquidity_cases[OF assms(1), of "Inr req" db, case_names kept added])
  case kept
  then show ?thesis using assms(6) by simp
next
  case (added req0 p lp0 r0 db0)
  then have eq: "req0 = req" "lp0 = lp" "db0 = db'" "r0 = r" using assms(6) by simp_all
  have ab: "0 < al_AmountA req" "0 < al_AmountB req" "in_i64 (al_AmountA req)" "in_i64 (al_AmountB req)"
    using assms(3) by (simp_all add: bound_add_def)
  have p: "p \<in> set (t_pools db)" "pool_ID p = al_PoolID req" and L: "pool_TotalLPTokens p = 0"
    using added(2,3) eq assms(5) by auto
  have R: "pool_ReserveA p = 0" "pool_ReserveB p = 0"
    using liq_inv_pool(1)[OF assms(2) p(1)] L by (simp_all add: pool_wf_def)
  have lp: "lp = isqrt (al_AmountA req * al_AmountB req)" "in_i64 lp"
    using added(5) L geometric_mean_exact[OF ab(1,2) assms(4)] unfolding eq
    by (auto simp: lp_to_issue_def) (metis in_i64_geometric_mean)
  have pw: "positions_wf (pool_ID ` set (t_pools db)) (t_positions db)" using assms(2) by (simp add: liq_inv_def)
  have pools: "t_pools db' = put_row pool_ID (add_pool req lp p) (t_pools db)"
    by (rule add_txD[OF assms(1) added(7)[unfolded eq] p(1) pw]) simp_all
  have "add_pool req lp p \<in> set (t_pools db')"
    unfolding pools by (rule put_row_mem[OF p(1)]) (simp add: add_pool_def)
  moreover have "pool_ID (add_pool req lp p) = al_PoolID req" "pool_ReserveA (add_pool req lp p) = al_AmountA req"
    "pool_ReserveB (add_pool req lp p) = al_AmountB req" "pool_TotalLPTokens (add_pool req lp p) = lp"
    using p(2) R L ab lp(2) by (simp_all add: add_pool_def add64_exact)
  moreover have "0 \<le> al_AmountA req * al_AmountB req" using ab by simp
  ultimately show ?thesis using isqrt_bounds[of "al_AmountA req * al_AmountB req"] lp by blast
qed

definition demo_empty :: liq_db where
  "demo_empty = snd (CreatePool mem_liq (Inr \<lparr> cp_AssetAID = 2, cp_AssetBID = 1, cp_CreatorAddress = ''c'', cp_FeeBasisPoints = 0 \<rparr>) liq_empty)"

lemma demo_empty_inv: "liq_inv demo_empty"
  unfolding demo_empty_def by (rule CreatePool_inv[OF mem_liq_ok liq_inv_empty]) (simp add: bound_create_def)

theorem first_deposit_geometric_mean_witness:
  "\<exists>r db'. AddLiquidity mem_liq (Inr demo_add) demo_empty = (Reply 200 (r, 144), db') \<and>
     (144::int) * 144 \<le> 70 * 300 \<and> (70::int) * 300 < (144 + 1) * (144 + 1)"
proof -
  let ?a = "AddLiquidity mem_liq (Inr demo_add) demo_empty"
  have a: "(case fst ?a of Reply st (_, lp) \<Rightarrow> st = 200 \<and> lp = 144 | _ \<Rightarrow> False)" by code_simp
  obtain r where add: "?a = (Reply 200 (r, 144), snd ?a)"
    using a by (cases ?a) (auto split: response.splits)
  have "bound_add demo_add" "al_AmountA demo_add * al_AmountB demo_add < 2 ^ 52"
    by (simp_all add: bound_add_def demo_add_def in_i64_def)
  moreover have "\<forall>p\<in>set (t_pools demo_empty). pool_ID p = al_PoolID demo_add \<longrightarrow> pool_TotalLPTokens p = 0" by code_simp
  ultimately have "144 * 144 \<le> al_AmountA demo_add * al_AmountB demo_add \<and>
      al_AmountA demo_add * al_AmountB demo_add < (144 + 1) * (144 + 1)"
    using first_deposit_geometric_mean[OF mem_liq_ok demo_empty_inv _ _ _ add] by blast
  with add show ?thesis by (auto simp: demo_add_def)
qed

subsection \<open>Departures\<close>

text \<open>When the lookup fails with a database error, the handler takes it for "no such pool" and creates a
  second pool for the pair.\<close>

lemma create_pool_duplicate_on_error:
  assumes "g_first (d_pools drv) (\<lambda>p. pool_AssetAID p = 1 \<and> pool_AssetBID p = 2) (t_pools db) = Inl (DBError e)"
    and "g_create (d_pools drv) \<lparr> pool_ID = 0, pool_AssetAID = 1, pool_AssetBID = 2, pool_ReserveA = 0, pool_ReserveB = 0,
           pool_TotalLPTokens = 0, pool_FeeBasisPoints = 30, pool_CreatorAddress = ''c'', pool_Active = True \<rparr> (t_pools db) = Inr (p, ps)"
  shows "CreatePool drv (Inr \<lparr> cp_AssetAID = 1, cp_AssetBID = 2, cp_CreatorAddress = ''c'', cp_FeeBasisPoints = 0 \<rparr>) db
           = (Reply 201 p, db\<lparr> t_pools := ps \<rparr>)"
  using assms by (simp add: CreatePool_def)

text \<open>The product in the swap formula overflows for reserves of a few billion units: a swap of 3 billion
  against reserves of 4 billion is refused as too small.\<close>

definition big_pool :: liq_db where
  "big_pool = demo_pool\<lparr> t_pools := map (\<lambda>p. p\<lparr> pool_ReserveA := 4000000000, pool_ReserveB := 4000000000 \<rparr>) (t_pools demo_pool) \<rparr>"

lemma swap_overflow_rejected:
  "liq_inv big_pool \<and>
   fst (Swap mem_liq 9 (Inr (demo_swap\<lparr> sw_InputAmount := 3000000000 \<rparr>)) big_pool) = Fail 400 ''Swap output too small''"
proof
  show "liq_inv big_pool"
    by (simp add: liq_inv_def big_pool_def demo_pool_def positions_wf_def pool_wf_def lp_sum_def in_i64_def)
qed code_simp

text \<open>Beyond \<open>2 ^ 52\<close> the product is rounded before the root is taken: here the first deposit issues one LP token more than the root.\<close>

lemma geometric_mean_rounds_up:
  "geometric_mean 94906266 94906268 = 94906267" "(94906266::int) * 94906268 < 94906267 * 94906267"
  by code_simp+

text \<open>Beyond \<open>int64\<close> a swap can also be accepted: the fee of an input near \<open>2 ^ 63\<close> wraps around, the output exceeds the reserve, and
  the pool ends with a negative reserve.\<close>

definition small_pool :: liq_db where
  "small_pool = demo_pool\<lparr> t_pools := map (\<lambda>p. p\<lparr> pool_ReserveA := 1000, pool_ReserveB := 1000 \<rparr>) (t_pools demo_pool) \<rparr>"

lemma swap_overflow_drains_pool:
  "liq_inv small_pool"
  "\<not> is_fail (fst (Swap mem_liq 9 (Inr (demo_swap\<lparr> sw_InputAmount := 9223372036854773808 \<rparr>)) small_pool))"
  "map pool_ReserveB (t_pools (snd (Swap mem_liq 9 (Inr (demo_swap\<lparr> sw_InputAmount := 9223372036854773808 \<rparr>)) small_pool))) = [- 1006]"
proof -
  show "liq_inv small_pool"
    by (simp add: liq_inv_def small_pool_def demo_pool_def positions_wf_def pool_wf_def lp_sum_def in_i64_def)
qed code_simp+

text \<open>Two deposits that both read the pool before either commits: the second overwrites the first, and the
  LP total no longer covers the issued positions.\<close>

lemma interleaved_deposits_lose_update:
  "let db0 = demo_pool; req2 = demo_add\<lparr> al_ProviderAddress := ''q'' \<rparr>;
       plan1 = add_read mem_liq demo_add db0; plan2 = add_read mem_liq req2 db0
   in case (plan1, plan2) of
        (Inr p1, Inr p2) \<Rightarrow>
          let db2 = snd (add_commit mem_liq req2 p2 (snd (add_commit mem_liq demo_add p1 db0)))
          in map pool_TotalLPTokens (t_pools db2) = [318] \<and> lp_sum 1 (t_positions db2) = 336
      | _ \<Rightarrow> False"
  by code_simp

end
