(* ===== verification/Staking.thy ===== *)
theory Staking
  imports Gorm FloatSqrt
begin

section \<open>Staking and rewards (handlers/staking.go)\<close>

text \<open>
  Stake positions, reward accrual and reward claims, on the tables of \<open>models/staking.go\<close>.
  Amounts are \<open>int64\<close> with wrap-around. Of the asset and user tables the handlers only test that the
  row exists. \<open>int64(d.Seconds())\<close> is modelled exactly (\<open>whole_seconds\<close>): Go adds the
  whole seconds and the float64 fraction, and for long durations the sum rounds up to the next
  second when the fraction is within half a unit in the last place of 1.
\<close>

record StakePosition =
  sp_ID :: nat
  sp_UserID :: nat
  sp_AssetID :: nat
  sp_StakedAmount :: int
  sp_AccruedRewards :: int
  sp_ClaimedRewards :: int
  sp_StakedAt :: instant
  sp_LastRewardAt :: "instant option"
  sp_StellarAddress :: string
  sp_Active :: bool

record RewardDistribution =
  rd_ID :: nat
  rd_AssetID :: nat
  rd_TotalDistributed :: int
  rd_StakerCount :: int
  rd_APRBasisPoints :: int
  rd_PeriodStart :: instant
  rd_PeriodEnd :: instant

record RewardClaim =
  rc_ID :: nat
  rc_StakeID :: nat
  rc_UserID :: nat
  rc_AssetID :: nat
  rc_Amount :: int
  rc_ClaimedAt :: instant

record stakeRequest =
  st_UserID :: nat
  st_AssetID :: nat
  st_StellarAddress :: string
  st_Amount :: int

record unstakeRequest =
  un_StakeID :: nat
  un_Amount :: int

record distributeRewardsRequest =
  dr_AssetID :: nat
  dr_APRBasisPoints :: int

record stake_db =
  t_stakes :: "StakePosition list"
  t_claims :: "RewardClaim list"
  t_distributions :: "RewardDistribution list"
  t_assets :: "ref_row list"
  t_users :: "ref_row list"

record stake_drv =
  d_stakes :: "StakePosition gorm"
  d_claims :: "RewardClaim gorm"
  d_distributions :: "RewardDistribution gorm"
  d_assets :: "ref_row gorm"
  d_users :: "ref_row gorm"
  d_stx :: tx_outcome

definition Stake :: "stake_drv \<Rightarrow> instant \<Rightarrow> string + stakeRequest \<Rightarrow> stake_db \<Rightarrow> StakePosition response \<times> stake_db" where
  "Stake drv now body db =
     (case body of
        Inl e \<Rightarrow> (Fail StatusBadRequest e, db)
      | Inr req \<Rightarrow>
          if \<not> exists_ref (d_assets drv) (st_AssetID req) (t_assets db) then (Fail StatusNotFound ''Asset not found'', db)
          else if \<not> exists_ref (d_users drv) (st_UserID req) (t_users db) then (Fail StatusNotFound ''User not found'', db)
          else
            (case g_first (d_stakes drv) (\<lambda>p. sp_UserID p = st_UserID req \<and> sp_AssetID p = st_AssetID req \<and> sp_Active p)
                    (t_stakes db) of
               Inl ErrRecordNotFound \<Rightarrow>
                 (let position = \<lparr> sp_ID = 0, sp_UserID = st_UserID req, sp_AssetID = st_AssetID req,
                                   sp_StakedAmount = st_Amount req, sp_AccruedRewards = 0, sp_ClaimedRewards = 0,
                                   sp_StakedAt = now, sp_LastRewardAt = None,
                                   sp_StellarAddress = st_StellarAddress req, sp_Active = True \<rparr>
                  in case g_create (d_stakes drv) position (t_stakes db) of
                       Inl _ \<Rightarrow> (Fail StatusInternalServerError ''Failed to create stake position'', db)
                     | Inr (p, ps) \<Rightarrow> (Reply StatusCreated p, db\<lparr> t_stakes := ps \<rparr>))
             | Inl (DBError _) \<Rightarrow> (Fail StatusInternalServerError ''Database error'', db)
             | Inr position \<Rightarrow>
                 (let position' = position\<lparr> sp_StakedAmount := add64 (sp_StakedAmount position) (st_Amount req) \<rparr>
                  in case g_save (d_stakes drv) position' (t_stakes db) of
                       Inl _ \<Rightarrow> (Fail StatusInternalServerError ''Failed to update stake'', db)
                     | Inr ps \<Rightarrow> (Reply StatusCreated position', db\<lparr> t_stakes := ps \<rparr>))))"

definition unstake_position :: "int \<Rightarrow> StakePosition \<Rightarrow> StakePosition" where
  "unstake_position amount position =
     (let left = sub64 (sp_StakedAmount position) amount
      in position\<lparr> sp_StakedAmount := left, sp_Active := (if left = 0 then False else sp_Active position) \<rparr>)"

definition Unstake :: "stake_drv \<Rightarrow> string + unstakeRequest \<Rightarrow> stake_db \<Rightarrow> StakePosition response \<times> stake_db" where
  "Unstake drv body db =
     (case body of
        Inl e \<Rightarrow> (Fail StatusBadRequest e, db)
      | Inr req \<Rightarrow>
          (case g_first (d_stakes drv) (\<lambda>p. sp_ID p = un_StakeID req) (t_stakes db) of
             Inl _ \<Rightarrow> (Fail StatusNotFound ''Stake position not found'', db)
           | Inr position \<Rightarrow>
               if \<not> sp_Active position then (Fail StatusBadRequest ''Stake position is already closed'', db)
               else if un_Amount req > sp_StakedAmount position
               then (Fail StatusBadRequest ''Cannot unstake more than staked amount'', db)
               else
                 (let position' = unstake_position (un_Amount req) position
                  in case g_save (d_stakes drv) position' (t_stakes db) of
                       Inl _ \<Rightarrow> (Fail StatusInternalServerError ''Failed to unstake'', db)
                     | Inr ps \<Rightarrow> (Reply StatusOK position', db\<lparr> t_stakes := ps \<rparr>))))"

record dashboard =
  db_positions :: "StakePosition list"
  db_total_staked :: int
  db_total_accrued :: int
  db_total_claimed :: int
  db_pending_rewards :: int

definition GetStakingDashboard :: "stake_drv \<Rightarrow> string + nat \<Rightarrow> stake_db \<Rightarrow> dashboard response" where
  "GetStakingDashboard drv q db =
     (case q of
        Inl e \<Rightarrow> Fail StatusBadRequest e
      | Inr userID \<Rightarrow>
          (case g_find (d_stakes drv) (Where (\<lambda>p. sp_UserID p = userID)) (t_stakes db) of
             Inl _ \<Rightarrow> Fail StatusInternalServerError ''Failed to fetch positions''
           | Inr positions \<Rightarrow>
               (let (staked, accrued, claimed) =
                      foldl (\<lambda>(s, a, c) p. (if sp_Active p then add64 s (sp_StakedAmount p) else s,
                                            add64 a (sp_AccruedRewards p), add64 c (sp_ClaimedRewards p)))
                        (0, 0, 0) positions
                in Reply StatusOK \<lparr> db_positions = positions, db_total_staked = staked, db_total_accrued = accrued,
                     db_total_claimed = claimed, db_pending_rewards = sub64 accrued claimed \<rparr>)))"

definition claim_tx :: "stake_drv \<Rightarrow> instant \<Rightarrow> StakePosition \<Rightarrow> int \<Rightarrow> stake_db \<Rightarrow> dberr + RewardClaim \<times> stake_db" where
  "claim_tx drv now position pendingRewards db =
     (let claim = \<lparr> rc_ID = 0, rc_StakeID = sp_ID position, rc_UserID = sp_UserID position,
                    rc_AssetID = sp_AssetID position, rc_Amount = pendingRewards, rc_ClaimedAt = now \<rparr>
      in and_then (g_create (d_claims drv) claim (t_claims db)) (\<lambda>(c, cs).
         and_then (g_save (d_stakes drv)
                     (position\<lparr> sp_ClaimedRewards := add64 (sp_ClaimedRewards position) pendingRewards \<rparr>)
                     (t_stakes db)) (\<lambda>ps.
           Inr (c, db\<lparr> t_stakes := ps, t_claims := cs \<rparr>))))"

definition ClaimRewards :: "stake_drv \<Rightarrow> instant \<Rightarrow> string + nat \<Rightarrow> stake_db \<Rightarrow> (RewardClaim \<times> int) response \<times> stake_db" where
  "ClaimRewards drv now body db =
     (case body of
        Inl e \<Rightarrow> (Fail StatusBadRequest e, db)
      | Inr stakeID \<Rightarrow>
          (case g_first (d_stakes drv) (\<lambda>p. sp_ID p = stakeID) (t_stakes db) of
             Inl _ \<Rightarrow> (Fail StatusNotFound ''Stake position not found'', db)
           | Inr position \<Rightarrow>
               (let pendingRewards = sub64 (sp_AccruedRewards position) (sp_ClaimedRewards position)
                in if pendingRewards \<le> 0 then (Fail StatusBadRequest ''No rewards to claim'', db)
                   else case transaction (d_stx drv) (claim_tx drv now position pendingRewards) db of
                          (Inl _, db') \<Rightarrow> (Fail StatusInternalServerError ''Failed to process claim'', db')
                        | (Inr claim, db') \<Rightarrow> (Reply StatusOK (claim, pendingRewards), db'))))"

subsection \<open>Reward distribution\<close>

definition whole_seconds :: "duration \<Rightarrow> int" where
  "whole_seconds d =
     (let sec = \<bar>d\<bar> div Second; nsec = \<bar>d\<bar> mod Second;
          up = (1 \<le> sec \<and> (Second - nsec) * 2 ^ (54 - bits sec) \<le> Second);
          s = (if up then sec + 1 else sec)
      in if d < 0 then - s else s)"

definition reward_since :: "StakePosition \<Rightarrow> instant" where
  "reward_since p = (case sp_LastRewardAt p of Some t \<Rightarrow> t | None \<Rightarrow> sp_StakedAt p)"

definition reward_for :: "int \<Rightarrow> int \<Rightarrow> int \<Rightarrow> int" where
  "reward_for staked apr durationSecs =
     quo64 (mul64 (quo64 (mul64 staked apr) 10000) durationSecs) 31536000"

text \<open>One round of the loop: \<open>None\<close> is \<open>continue\<close>, otherwise the reward.\<close>

definition due_reward :: "instant \<Rightarrow> int \<Rightarrow> StakePosition \<Rightarrow> int option" where
  "due_reward periodEnd apr p =
     (let durationSecs = whole_seconds (time_sub periodEnd (reward_since p))
      in if durationSecs \<le> 0 then None
         else let reward = reward_for (sp_StakedAmount p) apr durationSecs
              in if reward \<le> 0 then None else Some reward)"

definition credit_reward :: "instant \<Rightarrow> int \<Rightarrow> StakePosition \<Rightarrow> StakePosition" where
  "credit_reward periodEnd reward p =
     p\<lparr> sp_AccruedRewards := add64 (sp_AccruedRewards p) reward, sp_LastRewardAt := Some periodEnd \<rparr>"

fun reward_loop :: "StakePosition gorm \<Rightarrow> instant \<Rightarrow> int \<Rightarrow> StakePosition list \<Rightarrow> int \<Rightarrow> StakePosition list \<Rightarrow>
    dberr + int \<times> StakePosition list" where
  "reward_loop g periodEnd apr [] tot rows = Inr (tot, rows)"
| "reward_loop g periodEnd apr (p # ps) tot rows =
     (case due_reward periodEnd apr p of
        None \<Rightarrow> reward_loop g periodEnd apr ps tot rows
      | Some reward \<Rightarrow>
          and_then (g_save g (credit_reward periodEnd reward p) rows) (\<lambda>rows'.
            reward_loop g periodEnd apr ps (add64 tot reward) rows'))"

datatype dist_body = NoStakers | Distributed RewardDistribution int

definition DistributeRewards :: "stake_drv \<Rightarrow> instant \<Rightarrow> string + distributeRewardsRequest \<Rightarrow> stake_db \<Rightarrow>
    dist_body response \<times> stake_db" where
  "DistributeRewards drv periodEnd body db =
     (case body of
        Inl e \<Rightarrow> (Fail StatusBadRequest e, db)
      | Inr req \<Rightarrow>
          (case g_find (d_stakes drv) (Where (\<lambda>p. sp_AssetID p = dr_AssetID req \<and> sp_Active p)) (t_stakes db) of
             Inl _ \<Rightarrow> (Fail StatusInternalServerError ''Failed to fetch stakers'', db)
           | Inr [] \<Rightarrow> (Reply StatusOK NoStakers, db)
           | Inr (p0 # ps) \<Rightarrow>
               (case transaction (d_stx drv) (\<lambda>db. and_then
                         (reward_loop (d_stakes drv) periodEnd (dr_APRBasisPoints req) (p0 # ps) 0 (t_stakes db))
                         (\<lambda>(tot, rows). Inr (tot, db\<lparr> t_stakes := rows \<rparr>))) db of
                  (Inl _, db') \<Rightarrow> (Fail StatusInternalServerError ''Failed to distribute rewards'', db')
                | (Inr totalDistributed, db') \<Rightarrow>
                    (let distribution = \<lparr> rd_ID = 0, rd_AssetID = dr_AssetID req, rd_TotalDistributed = totalDistributed,
                           rd_StakerCount = int (length (p0 # ps)), rd_APRBasisPoints = dr_APRBasisPoints req,
                           rd_PeriodStart = reward_since p0, rd_PeriodEnd = periodEnd \<rparr>
                     in case g_create (d_distributions drv) distribution (t_distributions db') of
                          Inl _ \<Rightarrow> (Reply StatusOK (Distributed distribution totalDistributed), db')
                        | Inr (d, ds) \<Rightarrow> (Reply StatusOK (Distributed d totalDistributed), db'\<lparr> t_distributions := ds \<rparr>)))))"

subsection \<open>Invariant\<close>

abbreviation stakes_ok :: "stake_drv \<Rightarrow> bool" where
  "stakes_ok drv \<equiv> gorm_ok sp_ID (\<lambda>k. sp_ID_update (\<lambda>_. k)) (d_stakes drv)"

definition stake_drv_ok :: "stake_drv \<Rightarrow> bool" where
  "stake_drv_ok drv \<longleftrightarrow> stakes_ok drv \<and> gorm_ok rc_ID (\<lambda>k. rc_ID_update (\<lambda>_. k)) (d_claims drv) \<and>
     gorm_ok rd_ID (\<lambda>k. rd_ID_update (\<lambda>_. k)) (d_distributions drv)"

definition stake_wf :: "StakePosition \<Rightarrow> bool" where
  "stake_wf p \<longleftrightarrow> sp_ID p \<noteq> 0 \<and> 0 \<le> sp_StakedAmount p \<and> in_i64 (sp_StakedAmount p) \<and>
     (sp_Active p \<longleftrightarrow> 0 < sp_StakedAmount p) \<and>
     0 \<le> sp_ClaimedRewards p \<and> sp_ClaimedRewards p \<le> sp_AccruedRewards p \<and> in_i64 (sp_AccruedRewards p)"

definition claim_sum :: "nat \<Rightarrow> RewardClaim list \<Rightarrow> int" where
  "claim_sum i cs = sum_list (map (\<lambda>c. if rc_StakeID c = i then rc_Amount c else 0) cs)"

definition one_active :: "StakePosition list \<Rightarrow> bool" where
  "one_active ps \<longleftrightarrow> (\<forall>p\<in>set ps. \<forall>q\<in>set ps. sp_Active p \<and> sp_Active q \<and> sp_UserID p = sp_UserID q \<and>
     sp_AssetID p = sp_AssetID q \<longrightarrow> sp_ID p = sp_ID q)"

text \<open>Positions are well-formed, a user has at most one active position per asset, and the claims
  recorded for a position add up to what it says was claimed.\<close>

definition stake_inv :: "stake_db \<Rightarrow> bool" where
  "stake_inv db \<longleftrightarrow> distinct (map sp_ID (t_stakes db)) \<and> (\<forall>p\<in>set (t_stakes db). stake_wf p) \<and>
     one_active (t_stakes db) \<and>
     (\<forall>c\<in>set (t_claims db). 0 < rc_Amount c \<and> rc_StakeID c \<in> sp_ID ` set (t_stakes db)) \<and>
     (\<forall>p\<in>set (t_stakes db). claim_sum (sp_ID p) (t_claims db) = sp_ClaimedRewards p)"

lemma one_active_snoc:
  assumes "one_active ps"
    and "\<And>x. x \<in> set ps \<Longrightarrow> \<not> (sp_UserID x = sp_UserID p \<and> sp_AssetID x = sp_AssetID p \<and> sp_Active x)"
  shows "one_active (ps @ [p])"
proof -
  have "sp_ID x = sp_ID y" if "x \<in> set ps \<or> x = p" "y \<in> set ps \<or> y = p"
    "sp_Active x" "sp_Active y" "sp_UserID x = sp_UserID y" "sp_AssetID x = sp_AssetID y" for x y
    using that assms(1) assms(2)[of x] assms(2)[of y] unfolding one_active_def by metis
  then show ?thesis unfolding one_active_def set_append list.set by blast
qed

lemma stake_invI:
  assumes "distinct (map sp_ID (t_stakes db))" "\<And>p. p \<in> set (t_stakes db) \<Longrightarrow> stake_wf p" "one_active (t_stakes db)"
    and "\<And>c. c \<in> set (t_claims db) \<Longrightarrow> 0 < rc_Amount c \<and> rc_StakeID c \<in> sp_ID ` set (t_stakes db)"
    and "\<And>p. p \<in> set (t_stakes db) \<Longrightarrow> claim_sum (sp_ID p) (t_claims db) = sp_ClaimedRewards p"
  shows "stake_inv db"
  using assms by (simp add: stake_inv_def)

lemma stake_inv_update:
  assumes inv: "stake_inv db" and p: "p \<in> set (t_stakes db)"
    and p': "sp_ID p' = sp_ID p" "sp_UserID p' = sp_UserID p" "sp_AssetID p' = sp_AssetID p"
      "sp_Active p' \<Longrightarrow> sp_Active p" "stake_wf p'"
    and st: "t_stakes db' = put_row sp_ID p' (t_stakes db)"
    and cl: "\<And>c. c \<in> set (t_claims db') \<Longrightarrow> 0 < rc_Amount c \<and> rc_StakeID c \<in> sp_ID ` set (t_stakes db)"
      "\<And>i. claim_sum i (t_claims db') = claim_sum i (t_claims db) +
         (if i = sp_ID p then sp_ClaimedRewards p' - sp_ClaimedRewards p else 0)"
  shows "stake_inv db'"
proof (rule stake_invI)
  have keys: "map sp_ID (t_stakes db') = map sp_ID (t_stakes db)" by (simp add: st)
  show "distinct (map sp_ID (t_stakes db'))" using inv by (simp add: keys stake_inv_def)
  have row: "x = p' \<or> (x \<in> set (t_stakes db) \<and> sp_ID x \<noteq> sp_ID p)" if "x \<in> set (t_stakes db')" for x
    using that in_set_put_row[of x sp_ID p' "t_stakes db"] p'(1) unfolding st by auto
  have old: "stake_wf x" "claim_sum (sp_ID x) (t_claims db) = sp_ClaimedRewards x" if "x \<in> set (t_stakes db)" for x
    using inv that by (auto simp: stake_inv_def)
  show "stake_wf x" if "x \<in> set (t_stakes db')" for x using row[OF that] p' old by auto
  show "claim_sum (sp_ID x) (t_claims db') = sp_ClaimedRewards x" if "x \<in> set (t_stakes db')" for x
    using row[OF that] p' old p by (auto simp: cl(2))
  have "sp_ID ` set (t_stakes db') = sp_ID ` set (t_stakes db)" using keys by (metis list.set_map)
  then show "0 < rc_Amount c \<and> rc_StakeID c \<in> sp_ID ` set (t_stakes db')" if "c \<in> set (t_claims db')" for c
    using cl(1)[OF that] by simp
  show "one_active (t_stakes db')"
    unfolding one_active_def
  proof (intro ballI impI)
    fix x y assume xy: "x \<in> set (t_stakes db')" "y \<in> set (t_stakes db')"
      and act: "sp_Active x \<and> sp_Active y \<and> sp_UserID x = sp_UserID y \<and> sp_AssetID x = sp_AssetID y"
    obtain x0 where x0: "x0 \<in> set (t_stakes db)" "sp_ID x0 = sp_ID x" "sp_UserID x0 = sp_UserID x"
      "sp_AssetID x0 = sp_AssetID x" "sp_Active x0" using row[OF xy(1)] act p p' by metis
    obtain y0 where y0: "y0 \<in> set (t_stakes db)" "sp_ID y0 = sp_ID y" "sp_UserID y0 = sp_UserID y"
      "sp_AssetID y0 = sp_AssetID y" "sp_Active y0" using row[OF xy(2)] act p p' by metis
    have "sp_ID x0 = sp_ID y0"
      using inv x0 y0 act unfolding stake_inv_def one_active_def by metis
    then show "sp_ID x = sp_ID y" using x0 y0 by simp
  qed
qed

lemma claim_sum_append [simp]: "claim_sum i (cs @ ds) = claim_sum i cs + claim_sum i ds"
  by (simp add: claim_sum_def)

lemma claim_sum_single [simp]: "claim_sum i [c] = (if rc_StakeID c = i then rc_Amount c else 0)"
  by (simp add: claim_sum_def)

lemma stake_save:
  assumes "stake_drv_ok drv" "stake_inv db" "p \<in> set (t_stakes db)" "g_save (d_stakes drv) p' (t_stakes db) = Inr rows"
    and "sp_ID p' = sp_ID p" "sp_UserID p' = sp_UserID p" "sp_AssetID p' = sp_AssetID p" "sp_Active p' \<Longrightarrow> sp_Active p"
    and "stake_wf p'" "sp_ClaimedRewards p' = sp_ClaimedRewards p"
  shows "rows = put_row sp_ID p' (t_stakes db)" "stake_inv (db\<lparr> t_stakes := rows \<rparr>)"
proof -
  have "stakes_ok drv" using assms(1) by (simp add: stake_drv_ok_def)
  then show rows: "rows = put_row sp_ID p' (t_stakes db)"
    using gorm_save[OF _ assms(4) assms(3)] assms(5) by metis
  show "stake_inv (db\<lparr> t_stakes := rows \<rparr>)"
    using assms(2,10) by (intro stake_inv_update[OF assms(2,3,5-9)]) (auto simp: rows stake_inv_def)
qed

subsection \<open>Every handler keeps the invariant\<close>

definition bound_stake :: "stakeRequest \<Rightarrow> bool" where
  "bound_stake req \<longleftrightarrow> 0 < st_Amount req \<and> in_i64 (st_Amount req)"

definition bound_unstake :: "unstakeRequest \<Rightarrow> bool" where
  "bound_unstake req \<longleftrightarrow> 0 < un_Amount req \<and> in_i64 (un_Amount req)"

definition bound_distribute :: "distributeRewardsRequest \<Rightarrow> bool" where
  "bound_distribute req \<longleftrightarrow> 0 < dr_APRBasisPoints req \<and> dr_APRBasisPoints req \<le> 100000"

lemma Stake_inv:
  assumes drv: "stake_drv_ok drv" and inv: "stake_inv db"
    and req: "\<forall>req. body = Inr req \<longrightarrow> bound_stake req \<and>
      (\<forall>p\<in>set (t_stakes db). in_i64 (sp_StakedAmount p + st_Amount req))"
  shows "stake_inv (snd (Stake drv now body db))"
proof (cases body)
  case (Inl e)
  then show ?thesis using inv by (simp add: Stake_def)
next
  case (Inr rq)
  have ok: "stakes_ok drv" using drv by (simp add: stake_drv_ok_def)
  have bnd: "0 < st_Amount rq" "in_i64 (st_Amount rq)" using req Inr by (auto simp: bound_stake_def)
  let ?P = "\<lambda>p. sp_UserID p = st_UserID rq \<and> sp_AssetID p = st_AssetID rq \<and> sp_Active p"
  show ?thesis
  proof (cases "g_first (d_stakes drv) ?P (t_stakes db)")
    case first: (Inr p)
    have p: "p \<in> set (t_stakes db)" "sp_Active p" using gorm_firstD[OF ok first] by simp_all
    let ?p' = "p\<lparr> sp_StakedAmount := add64 (sp_StakedAmount p) (st_Amount rq) \<rparr>"
    have wf: "stake_wf p" using inv p by (simp add: stake_inv_def)
    then have "stake_wf ?p'" using p bnd req Inr by (auto simp: stake_wf_def add64_exact)
    then have "stake_inv (db\<lparr> t_stakes := rows \<rparr>)" if "g_save (d_stakes drv) ?p' (t_stakes db) = Inr rows" for rows
      using p by (intro stake_save[OF drv inv p(1) that]) simp_all
    then show ?thesis using inv by (simp add: Stake_def Inr first Let_def split: sum.split)
  next
    case first: (Inl e)
    show ?thesis
    proof (cases e)
      case (DBError m)
      then show ?thesis using inv by (simp add: Stake_def Inr first)
    next
      case ErrRecordNotFound
      let ?new = "\<lparr> sp_ID = 0, sp_UserID = st_UserID rq, sp_AssetID = st_AssetID rq,
         sp_StakedAmount = st_Amount rq, sp_AccruedRewards = 0, sp_ClaimedRewards = 0,
         sp_StakedAt = now, sp_LastRewardAt = None, sp_StellarAddress = st_StellarAddress rq, sp_Active = True \<rparr>"
      have none: "\<not> ?P x" if "x \<in> set (t_stakes db)" for x
        using gorm_first_none[OF ok first[unfolded ErrRecordNotFound] that] .
      have "stake_inv (db\<lparr> t_stakes := ps \<rparr>)" if cr: "g_create (d_stakes drv) ?new (t_stakes db) = Inr (p, ps)" for p ps
      proof -
        obtain k where k: "k \<noteq> 0" "k \<notin> sp_ID ` set (t_stakes db)" "p = ?new\<lparr> sp_ID := k \<rparr>" "ps = t_stakes db @ [p]"
          by (rule gorm_createD[OF ok cr])
        have "claim_sum k (t_claims db) = 0"
        proof -
          have "rc_StakeID c \<noteq> k" if "c \<in> set (t_claims db)" for c
            using inv that k(2) unfolding stake_inv_def by metis
          then have "map (\<lambda>c. if rc_StakeID c = k then rc_Amount c else 0) (t_claims db) = map (\<lambda>_. 0) (t_claims db)" by simp
          then show ?thesis unfolding claim_sum_def by (metis sum_list_0)
        qed
        moreover have "one_active ps"
          unfolding k(4) by (rule one_active_snoc) (use inv none k(3) in \<open>simp_all add: stake_inv_def\<close>)
        moreover have "stake_wf p" using k(1,3) bnd by (simp add: stake_wf_def)
        moreover have "distinct (map sp_ID ps)" using inv k(2,3,4) by (auto simp: stake_inv_def)
        moreover have "sp_ID p = k" "sp_ClaimedRewards p = 0" using k(3) by simp_all
        ultimately show ?thesis using inv unfolding stake_inv_def k(4) by simp
      qed
      then show ?thesis using inv by (simp add: Stake_def Inr first ErrRecordNotFound Let_def split: sum.split)
    qed
  qed
qed

lemma Unstake_inv:
  assumes drv: "stake_drv_ok drv" and inv: "stake_inv db" and req: "\<forall>req. body = Inr req \<longrightarrow> bound_unstake req"
  shows "stake_inv (snd (Unstake drv body db))"
proof (cases body)
  case (Inl e)
  then show ?thesis using inv by (simp add: Unstake_def)
next
  case (Inr rq)
  have ok: "stakes_ok drv" using drv by (simp add: stake_drv_ok_def)
  have bnd: "0 < un_Amount rq" using req Inr by (auto simp: bound_unstake_def)
  show ?thesis
  proof (cases "g_first (d_stakes drv) (\<lambda>p. sp_ID p = un_StakeID rq) (t_stakes db)")
    case first: (Inr p)
    have p: "p \<in> set (t_stakes db)" using gorm_firstD[OF ok first] by simp
    have "stake_inv (db\<lparr> t_stakes := rows \<rparr>)"
      if sv: "g_save (d_stakes drv) (unstake_position (un_Amount rq) p) (t_stakes db) = Inr rows"
        and act: "sp_Active p" and le: "un_Amount rq \<le> sp_StakedAmount p" for rows
    proof -
      have wf: "stake_wf p" using inv p by (simp add: stake_inv_def)
      then have "sub64 (sp_StakedAmount p) (un_Amount rq) = sp_StakedAmount p - un_Amount rq"
        using le bnd by (intro sub64_exact) (auto simp: stake_wf_def in_i64_def)
      then have "stake_wf (unstake_position (un_Amount rq) p)"
        using wf act le bnd by (auto simp: stake_wf_def unstake_position_def in_i64_def)
      then show ?thesis using act by (intro stake_save[OF drv inv p sv]) (simp_all add: unstake_position_def Let_def)
    qed
    then show ?thesis using inv by (simp add: Unstake_def Inr first Let_def split: sum.split)
  qed (use inv in \<open>simp add: Unstake_def Inr\<close>)
qed

lemma ClaimRewards_cases:
  assumes drv: "stake_drv_ok drv" and inv: "stake_inv db"
  obtains (kept) "snd (ClaimRewards drv now body db) = db" "is_fail (fst (ClaimRewards drv now body db))"
  | (claimed) p c where "body = Inr (sp_ID p)" "p \<in> set (t_stakes db)" "0 < sp_AccruedRewards p - sp_ClaimedRewards p"
      "rc_Amount c = sp_AccruedRewards p - sp_ClaimedRewards p" "rc_StakeID c = sp_ID p"
      "ClaimRewards drv now body db = (Reply StatusOK (c, rc_Amount c),
         db\<lparr> t_stakes := put_row sp_ID (p\<lparr> sp_ClaimedRewards := sp_AccruedRewards p \<rparr>) (t_stakes db), t_claims := t_claims db @ [c] \<rparr>)"
proof (cases body)
  case (Inl e)
  then show ?thesis using kept by (simp add: ClaimRewards_def)
next
  case (Inr i)
  have ok: "stakes_ok drv" using drv by (simp add: stake_drv_ok_def)
  show ?thesis
  proof (cases "g_first (d_stakes drv) (\<lambda>p. sp_ID p = i) (t_stakes db)")
    case (Inl e)
    then show ?thesis using kept Inr by (simp add: ClaimRewards_def)
  next
    case first: (Inr p)
    have p: "p \<in> set (t_stakes db)" "sp_ID p = i" using gorm_firstD[OF ok first] by simp_all
    have wf: "stake_wf p" using inv p by (simp add: stake_inv_def)
    define d where "d = sp_AccruedRewards p - sp_ClaimedRewards p"
    have d: "sub64 (sp_AccruedRewards p) (sp_ClaimedRewards p) = d" "add64 (sp_ClaimedRewards p) d = sp_AccruedRewards p"
      using wf by (simp_all add: d_def stake_wf_def sub64_exact add64_exact in_i64_def)
    show ?thesis
    proof (cases "d \<le> 0")
      case True
      then show ?thesis using kept Inr first d by (simp add: ClaimRewards_def)
    next
      case False
      have res: "ClaimRewards drv now body db = (case transaction (d_stx drv) (claim_tx drv now p d) db of
          (Inl _, db') \<Rightarrow> (Fail StatusInternalServerError ''Failed to process claim'', db')
        | (Inr claim, db') \<Rightarrow> (Reply StatusOK (claim, d), db'))"
        using Inr first d False by (simp add: ClaimRewards_def)
      show ?thesis
      proof (cases rule: transaction_cases[of "d_stx drv" "claim_tx drv now p d" db, case_names failed committed])
        case (failed e)
        then show ?thesis using kept res by simp
      next
        case (committed c db')
        then obtain cs ps where
          cr: "g_create (d_claims drv) \<lparr> rc_ID = 0, rc_StakeID = sp_ID p, rc_UserID = sp_UserID p,
                 rc_AssetID = sp_AssetID p, rc_Amount = d, rc_ClaimedAt = now \<rparr> (t_claims db) = Inr (c, cs)"
          and sv: "g_save (d_stakes drv) (p\<lparr> sp_ClaimedRewards := sp_AccruedRewards p \<rparr>) (t_stakes db) = Inr ps"
          and db': "db' = db\<lparr> t_stakes := ps, t_claims := cs \<rparr>"
          by (auto simp: claim_tx_def d)
        have "gorm_ok rc_ID (\<lambda>k. rc_ID_update (\<lambda>_. k)) (d_claims drv)" using drv by (simp add: stake_drv_ok_def)
        then obtain k where k: "c = \<lparr> rc_ID = k, rc_StakeID = sp_ID p, rc_UserID = sp_UserID p,
                 rc_AssetID = sp_AssetID p, rc_Amount = d, rc_ClaimedAt = now \<rparr>" "cs = t_claims db @ [c]"
          using gorm_createD[OF _ cr, of rc_ID "\<lambda>k. rc_ID_update (\<lambda>_. k)"] by (metis RewardClaim.update_convs(1))
        have "ps = put_row sp_ID (p\<lparr> sp_ClaimedRewards := sp_AccruedRewards p \<rparr>) (t_stakes db)"
          by (rule gorm_save[OF ok sv p(1)]) simp
        then show ?thesis
          using k db' res committed(1) False Inr p by (intro claimed[of p c]) (simp_all add: d_def)
      qed
    qed
  qed
qed

lemma ClaimRewards_inv:
  assumes drv: "stake_drv_ok drv" and inv: "stake_inv db"
  shows "stake_inv (snd (ClaimRewards drv now body db))"
proof (cases rule: ClaimRewards_cases[OF drv inv, of now body, case_names kept claimed])
  case kept
  then show ?thesis using inv by simp
next
  case (claimed p c)
  let ?p' = "p\<lparr> sp_ClaimedRewards := sp_AccruedRewards p \<rparr>"
  have wf: "stake_wf ?p'" using inv claimed(2) by (auto simp: stake_inv_def stake_wf_def)
  show ?thesis
    unfolding claimed(6) snd_conv
    using inv claimed(2-5) by (intro stake_inv_update[OF inv claimed(2), of ?p']) (auto simp: wf stake_inv_def)
qed

subsection \<open>The distribution loop\<close>

definition reward_fits :: "instant \<Rightarrow> int \<Rightarrow> StakePosition \<Rightarrow> bool" where
  "reward_fits periodEnd apr p \<longleftrightarrow>
     (let d = whole_seconds (time_sub periodEnd (reward_since p))
      in in_i64 (sp_StakedAmount p * apr) \<and> in_i64 (sp_StakedAmount p * apr div 10000 * d) \<and>
         in_i64 (sp_AccruedRewards p + sp_StakedAmount p * apr div 10000 * d div 31536000))"

lemma due_reward_exact:
  assumes "due_reward periodEnd apr p = Some r" "reward_fits periodEnd apr p" "stake_wf p" "0 < apr"
  defines "d \<equiv> whole_seconds (time_sub periodEnd (reward_since p))"
  shows "r = sp_StakedAmount p * apr div 10000 * d div 31536000" "0 < r" "0 < d"
    "r * 315360000000 \<le> sp_StakedAmount p * apr * d" "in_i64 (sp_AccruedRewards p + r)"
proof -
  define x where "x = sp_StakedAmount p * apr"
  have d: "0 < d" and r0: "0 < r" and r: "r = reward_for (sp_StakedAmount p) apr d"
    using assms(1) by (auto simp: due_reward_def d_def Let_def split: if_splits)
  have x0: "0 \<le> x" using assms(3,4) by (simp add: x_def stake_wf_def)
  then have y0: "0 \<le> x div 10000" "0 \<le> x div 10000 * d" using d by simp_all
  have fits: "in_i64 x" "in_i64 (x div 10000 * d)" "in_i64 (sp_AccruedRewards p + x div 10000 * d div 31536000)"
    using assms(2) by (simp_all add: reward_fits_def d_def x_def Let_def)
  show eq: "r = sp_StakedAmount p * apr div 10000 * d div 31536000"
    using fits x0 y0 by (simp add: r reward_for_def mul64_exact quo64_nonneg x_def)
  show "0 < r" "0 < d" by fact+
  show "in_i64 (sp_AccruedRewards p + r)" using fits(3) by (simp add: eq x_def)
  have "r * 31536000 \<le> x div 10000 * d" using le_div_iff[of 31536000 r "x div 10000 * d"] eq by (simp add: x_def)
  moreover have "x div 10000 * 10000 \<le> x" using le_div_iff[of 10000 "x div 10000" x] by simp
  then have "x div 10000 * 10000 * d \<le> x * d" using d by (intro mult_right_mono) simp_all
  ultimately show "r * 315360000000 \<le> sp_StakedAmount p * apr * d" by (simp add: x_def[symmetric])
qed

lemma whole_seconds_zero [simp]: "whole_seconds 0 = 0"
  by (simp add: whole_seconds_def)

lemma due_reward_again [simp]: "due_reward t apr (credit_reward t r p) = None"
  by (simp add: due_reward_def credit_reward_def reward_since_def time_sub_def)

text \<open>The loop over a snapshot of the rows: the invariant is kept, the total is the sum of the rewards, the accrued
  rewards of the table grow by exactly the total, and every processed row has either been credited at the end of the period
  or had nothing due.\<close>

lemma reward_loop_correct:
  assumes drv: "stake_drv_ok drv" and apr: "0 < apr"
  shows "reward_loop (d_stakes drv) t apr ps tot (t_stakes db) = Inr (tot', rows) \<Longrightarrow> stake_inv db \<Longrightarrow>
    distinct (map sp_ID ps) \<Longrightarrow> set ps \<subseteq> set (t_stakes db) \<Longrightarrow> (\<forall>p\<in>set ps. reward_fits t apr p) \<Longrightarrow>
    0 \<le> tot \<Longrightarrow> in_i64 (tot + sum_list (map (\<lambda>p. case due_reward t apr p of None \<Rightarrow> 0 | Some r \<Rightarrow> r) ps)) \<Longrightarrow>
    stake_inv (db\<lparr> t_stakes := rows \<rparr>) \<and>
    tot' = tot + sum_list (map (\<lambda>p. case due_reward t apr p of None \<Rightarrow> 0 | Some r \<Rightarrow> r) ps) \<and>
    sum_list (map sp_AccruedRewards rows) = sum_list (map sp_AccruedRewards (t_stakes db)) + (tot' - tot) \<and>
    (\<forall>q\<in>set rows. (q \<in> set (t_stakes db) \<and> (q \<in> set ps \<longrightarrow> due_reward t apr q = None)) \<or> due_reward t apr q = None)"
proof (induction ps arbitrary: tot db)
  case Nil
  then show ?case by (cases db) auto
next
  case (Cons p ps)
  let ?f = "\<lambda>p. case due_reward t apr p of None \<Rightarrow> 0 | Some r \<Rightarrow> r"
  have p: "p \<in> set (t_stakes db)" and wf: "stake_wf p" using Cons.prems(2,4) by (auto simp: stake_inv_def)
  have nn: "0 \<le> ?f q" if "q \<in> set ps" for q
    by (auto simp: due_reward_def Let_def split: option.splits if_splits)
  show ?case
  proof (cases "due_reward t apr p")
    case None
    then have run: "reward_loop (d_stakes drv) t apr ps tot (t_stakes db) = Inr (tot', rows)" using Cons.prems(1) by simp
    have "in_i64 (tot + sum_list (map ?f ps))" using Cons.prems(7) None by simp
    with Cons.IH[OF run Cons.prems(2)] Cons.prems(3-6)
    have IH: "stake_inv (db\<lparr> t_stakes := rows \<rparr>) \<and> tot' = tot + sum_list (map ?f ps) \<and>
      sum_list (map sp_AccruedRewards rows) = sum_list (map sp_AccruedRewards (t_stakes db)) + (tot' - tot) \<and>
      (\<forall>q\<in>set rows. (q \<in> set (t_stakes db) \<and> (q \<in> set ps \<longrightarrow> due_reward t apr q = None)) \<or> due_reward t apr q = None)"
      by simp
    then show ?thesis using None by auto
  next
    case (Some r)
    define p' where "p' = credit_reward t r p"
    obtain rows1 where sv: "g_save (d_stakes drv) p' (t_stakes db) = Inr rows1"
      and run: "reward_loop (d_stakes drv) t apr ps (add64 tot r) rows1 = Inr (tot', rows)"
      using Cons.prems(1) Some by (auto simp: p'_def)
    have rf: "reward_fits t apr p" using Cons.prems(5) by simp
    note due = due_reward_exact[OF Some rf wf apr]
    have acc: "sp_AccruedRewards p' = sp_AccruedRewards p + r" using due(5) by (simp add: p'_def credit_reward_def add64_exact)
    have "stake_wf p'" using wf acc due(2,5) by (simp add: stake_wf_def p'_def credit_reward_def)
    then have rows1: "rows1 = put_row sp_ID p' (t_stakes db)" and inv1: "stake_inv (db\<lparr> t_stakes := rows1 \<rparr>)"
      using stake_save[OF drv Cons.prems(2) p sv] by (simp_all add: p'_def credit_reward_def)
    have id: "sp_ID p' = sp_ID p" by (simp add: p'_def credit_reward_def)
    have "0 \<le> sum_list (map ?f ps)" by (rule sum_list_nonneg_int) (use nn in blast)
    then have "in_i64 (tot + r)" using Cons.prems(6,7) Some due(2)
      by (intro in_i64_nonneg[OF _ _ Cons.prems(7)]) simp_all
    then have tot: "add64 tot r = tot + r" by (rule add64_exact)
    have other: "q \<in> set rows1" if "q \<in> set ps" for q
    proof -
      have "sp_ID p \<notin> sp_ID ` set ps" using Cons.prems(3) by simp
      then have "sp_ID q \<noteq> sp_ID p'" using that id by (metis imageI)
      then show ?thesis unfolding rows1 using that Cons.prems(4) by (intro put_row_other) auto
    qed
    have "in_i64 (tot + r + sum_list (map ?f ps))" using Cons.prems(7) Some by (simp add: add.assoc)
    with Cons.IH[of "tot + r" "db\<lparr> t_stakes := rows1 \<rparr>"] run[unfolded tot] inv1 Cons.prems(3,5,6) other due(2)
    have IH: "stake_inv (db\<lparr> t_stakes := rows \<rparr>) \<and> tot' = tot + r + sum_list (map ?f ps) \<and>
      sum_list (map sp_AccruedRewards rows) = sum_list (map sp_AccruedRewards rows1) + (tot' - (tot + r)) \<and>
      (\<forall>q\<in>set rows. (q \<in> set rows1 \<and> (q \<in> set ps \<longrightarrow> due_reward t apr q = None)) \<or> due_reward t apr q = None)"
      by (simp add: subset_iff)
    have sum1: "sum_list (map sp_AccruedRewards rows1) = sum_list (map sp_AccruedRewards (t_stakes db)) + r"
      unfolding rows1 using sum_list_put_row[of sp_ID "t_stakes db" p p' sp_AccruedRewards] Cons.prems(2) p acc id
      by (simp add: stake_inv_def)
    have mem: "q = p' \<or> (q \<in> set (t_stakes db) \<and> q \<noteq> p)" if "q \<in> set rows1" for q
      using in_set_put_row[OF that[unfolded rows1]] id by auto
    have "due_reward t apr p' = None" by (simp add: p'_def)
    then have "(q \<in> set (t_stakes db) \<and> (q \<in> set (p # ps) \<longrightarrow> due_reward t apr q = None)) \<or> due_reward t apr q = None"
      if "q \<in> set rows" for q using IH that mem by (metis set_ConsD)
    then show ?thesis using IH sum1 Some by simp
  qed
qed

definition distribute_fits :: "instant \<Rightarrow> distributeRewardsRequest \<Rightarrow> stake_db \<Rightarrow> bool" where
  "distribute_fits t req db \<longleftrightarrow>
     (\<forall>p\<in>set (t_stakes db). reward_fits t (dr_APRBasisPoints req) p) \<and>
     in_i64 (sum_list (map (\<lambda>p. case due_reward t (dr_APRBasisPoints req) p of None \<Rightarrow> 0 | Some r \<Rightarrow> r)
       (filter (\<lambda>p. sp_AssetID p = dr_AssetID req \<and> sp_Active p) (t_stakes db))))"

lemma DistributeRewards_cases:
  assumes drv: "stake_drv_ok drv" and inv: "stake_inv db" and bnd: "bound_distribute req" and fits: "distribute_fits t req db"
  obtains (kept) "snd (DistributeRewards drv t (Inr req) db) = db"
      "is_fail (fst (DistributeRewards drv t (Inr req) db)) \<or> fst (DistributeRewards drv t (Inr req) db) = Reply StatusOK NoStakers"
  | (paid) d tot ps db' where "DistributeRewards drv t (Inr req) db = (Reply StatusOK (Distributed d tot), db')"
      "mset ps = mset (filter (\<lambda>p. sp_AssetID p = dr_AssetID req \<and> sp_Active p) (t_stakes db))"
      "stake_inv db'" "t_claims db' = t_claims db"
      "tot = sum_list (map (\<lambda>p. case due_reward t (dr_APRBasisPoints req) p of None \<Rightarrow> 0 | Some r \<Rightarrow> r) ps)"
      "sum_list (map sp_AccruedRewards (t_stakes db')) = sum_list (map sp_AccruedRewards (t_stakes db)) + tot"
      "\<And>q. q \<in> set (t_stakes db') \<Longrightarrow> sp_AssetID q = dr_AssetID req \<Longrightarrow> sp_Active q \<Longrightarrow>
        due_reward t (dr_APRBasisPoints req) q = None"
proof -
  let ?apr = "dr_APRBasisPoints req" and ?P = "\<lambda>p. sp_AssetID p = dr_AssetID req \<and> sp_Active p"
  have ok: "stakes_ok drv" using drv by (simp add: stake_drv_ok_def)
  have apr: "0 < ?apr" using bnd by (simp add: bound_distribute_def)
  show ?thesis
  proof (cases "g_find (d_stakes drv) (Where ?P) (t_stakes db)")
    case (Inl e)
    then show ?thesis using kept by (simp add: DistributeRewards_def)
  next
    case find: (Inr ps)
    show ?thesis
    proof (cases ps)
      case Nil
      then show ?thesis using kept find by (simp add: DistributeRewards_def)
    next
      case (Cons p0 ps0)
      define body where "body = (\<lambda>db :: stake_db. and_then (reward_loop (d_stakes drv) t ?apr ps 0 (t_stakes db))
                         (\<lambda>(tot, rows). Inr (tot, db\<lparr> t_stakes := rows \<rparr>)))"
      show ?thesis
      proof (cases rule: transaction_cases[of "d_stx drv" body db, case_names failed committed])
        case (failed e)
        then show ?thesis using kept find Cons by (simp add: DistributeRewards_def body_def)
      next
        case (committed tot db1)
        then obtain rows where run: "reward_loop (d_stakes drv) t ?apr ps 0 (t_stakes db) = Inr (tot, rows)"
          and db1: "db1 = db\<lparr> t_stakes := rows \<rparr>" by (auto simp: body_def)
        have ms: "mset ps = mset (filter ?P (t_stakes db))" by (rule gorm_find_Where[OF ok find])
        have sub: "set ps = {p \<in> set (t_stakes db). ?P p}" using mset_eq_setD[OF ms] by simp
        have dist: "distinct (map sp_ID ps)" by (rule distinct_map_listing[OF ms]) (use inv in \<open>simp add: stake_inv_def\<close>)
        let ?f = "\<lambda>p. case due_reward t ?apr p of None \<Rightarrow> 0 | Some r \<Rightarrow> r"
        have "sum_list (map ?f ps) = sum_list (map ?f (filter ?P (t_stakes db)))" by (rule sum_list_mset_eq[OF ms])
        then have i: "in_i64 (0 + sum_list (map ?f ps))" using fits by (simp add: distribute_fits_def)
        have rf: "\<forall>p\<in>set ps. reward_fits t ?apr p" using fits sub by (simp add: distribute_fits_def)
        have "set ps \<subseteq> set (t_stakes db)" using sub by auto
        from reward_loop_correct[OF drv apr run inv dist this rf order_refl i]
        have loop: "stake_inv db1" "tot = sum_list (map ?f ps)"
          "sum_list (map sp_AccruedRewards (t_stakes db1)) = sum_list (map sp_AccruedRewards (t_stakes db)) + tot"
          and rows: "\<And>q. q \<in> set rows \<Longrightarrow> (q \<in> set (t_stakes db) \<and> (q \<in> set ps \<longrightarrow> due_reward t ?apr q = None)) \<or> due_reward t ?apr q = None"
          by (simp_all add: db1)
        have due: "due_reward t ?apr q = None" if "q \<in> set rows" "?P q" for q using rows[OF that(1)] that(2) sub by auto
        define dist0 where "dist0 = \<lparr> rd_ID = 0, rd_AssetID = dr_AssetID req, rd_TotalDistributed = tot,
                           rd_StakerCount = int (length (p0 # ps0)), rd_APRBasisPoints = dr_APRBasisPoints req,
                           rd_PeriodStart = reward_since p0, rd_PeriodEnd = t \<rparr>"
        have res: "DistributeRewards drv t (Inr req) db = (case g_create (d_distributions drv) dist0 (t_distributions db1) of
              Inl _ \<Rightarrow> (Reply StatusOK (Distributed dist0 tot), db1)
            | Inr (d, ds) \<Rightarrow> (Reply StatusOK (Distributed d tot), db1\<lparr> t_distributions := ds \<rparr>))"
          using find Cons committed(1) by (simp add: DistributeRewards_def body_def dist0_def Let_def split: sum.split)
        have cong: "stake_inv (db1\<lparr> t_distributions := ds \<rparr>)" for ds using loop(1) by (simp add: stake_inv_def)
        show ?thesis
        proof (cases "g_create (d_distributions drv) dist0 (t_distributions db1)")
          case (Inl e)
          then show ?thesis using res loop due by (intro paid[of dist0 tot db1 ps, OF _ ms]) (simp_all add: db1)
        next
          case (Inr x)
          obtain d ds where "x = (d, ds)" by fastforce
          with Inr res loop due cong show ?thesis
            by (intro paid[of d tot "db1\<lparr> t_distributions := ds \<rparr>" ps, OF _ ms]) (simp_all add: db1)
        qed
      qed
    qed
  qed
qed

subsection \<open>The handlers as a service\<close>

datatype stake_req =
    ReqStake instant "string + stakeRequest"
  | ReqUnstake "string + unstakeRequest"
  | ReqClaim instant "string + nat"
  | ReqDistribute instant "string + distributeRewardsRequest"

fun stake_handle :: "stake_drv \<Rightarrow> stake_req \<Rightarrow> stake_db \<Rightarrow> unit response \<times> stake_db" where
  "stake_handle drv (ReqStake now b) db = drop_body (Stake drv now b db)"
| "stake_handle drv (ReqUnstake b) db = drop_body (Unstake drv b db)"
| "stake_handle drv (ReqClaim now b) db = drop_body (ClaimRewards drv now b db)"
| "stake_handle drv (ReqDistribute now b) db = drop_body (DistributeRewards drv now b db)"

fun stake_req_fits :: "stake_req \<Rightarrow> stake_db \<Rightarrow> bool" where
  "stake_req_fits (ReqStake now b) db = (case b of Inl _ \<Rightarrow> True | Inr req \<Rightarrow>
     bound_stake req \<and> (\<forall>p\<in>set (t_stakes db). in_i64 (sp_StakedAmount p + st_Amount req)))"
| "stake_req_fits (ReqUnstake b) db = (case b of Inl _ \<Rightarrow> True | Inr req \<Rightarrow> bound_unstake req)"
| "stake_req_fits (ReqClaim now b) db = True"
| "stake_req_fits (ReqDistribute now b) db = (case b of Inl _ \<Rightarrow> True | Inr req \<Rightarrow>
     bound_distribute req \<and> distribute_fits now req db)"

lemma stake_keeps:
  assumes "stake_drv_ok drv" "stake_inv db" "stake_req_fits r db"
  shows "stake_inv (snd (stake_handle drv r db))"
proof (cases r)
  case (ReqStake now b)
  then show ?thesis using Stake_inv[OF assms(1,2), of b now] assms(3) by (cases b) auto
next
  case (ReqUnstake b)
  then show ?thesis using Unstake_inv[OF assms(1,2), of b] assms(3) by (cases b) auto
next
  case (ReqClaim now b)
  then show ?thesis using ClaimRewards_inv[OF assms(1,2)] by simp
next
  case (ReqDistribute now b)
  show ?thesis
  proof (cases b)
    case (Inl e)
    then show ?thesis using assms(2) by (simp add: ReqDistribute DistributeRewards_def)
  next
    case (Inr req)
    then have b: "bound_distribute req" and f: "distribute_fits now req db" using assms(3) ReqDistribute by simp_all
    have "stake_inv (snd (DistributeRewards drv now (Inr req) db))"
      by (rule DistributeRewards_cases[OF assms(1,2) b f]) (use assms(2) in \<open>simp_all only: snd_conv\<close>)
    then show ?thesis by (simp add: ReqDistribute Inr)
  qed
qed

lemma stake_frame: "is_fail (fst (stake_handle drv r db)) \<Longrightarrow> snd (stake_handle drv r db) = db"
proof -
  have "is_fail (fst (Stake drv now b db)) \<longrightarrow> snd (Stake drv now b db) = db" for now b
    by (simp add: Stake_def Let_def split: sum.split prod.split dberr.split)
  moreover have "is_fail (fst (Unstake drv b db)) \<longrightarrow> snd (Unstake drv b db) = db" for b
    by (simp add: Unstake_def Let_def split: sum.split)
  moreover have "is_fail (fst (ClaimRewards drv now b db)) \<longrightarrow> snd (ClaimRewards drv now b db) = db" for now b
    by (auto simp: ClaimRewards_def Let_def dest: transaction_Inl split: sum.split prod.split)
  moreover have "is_fail (fst (DistributeRewards drv now b db)) \<longrightarrow> snd (DistributeRewards drv now b db) = db" for now b
    by (auto simp: DistributeRewards_def Let_def dest: transaction_Inl split: sum.split prod.split list.split)
  ultimately show "is_fail (fst (stake_handle drv r db)) \<Longrightarrow> snd (stake_handle drv r db) = db"
    by (cases r) simp_all
qed

interpretation stake: atomic_service "stake_handle drv" "\<lambda>db. stake_drv_ok drv \<and> stake_inv db" stake_req_fits for drv
  by unfold_locales (auto intro: stake_keeps stake_frame)

subsection \<open>Properties\<close>

definition mem_stake :: stake_drv where
  "mem_stake = \<lparr> d_stakes = mem_gorm sp_ID (\<lambda>k. sp_ID_update (\<lambda>_. k)), d_claims = mem_gorm rc_ID (\<lambda>k. rc_ID_update (\<lambda>_. k)),
     d_distributions = mem_gorm rd_ID (\<lambda>k. rd_ID_update (\<lambda>_. k)), d_assets = mem_refs, d_users = mem_refs, d_stx = tx_fine \<rparr>"

lemma mem_stake_ok: "stake_drv_ok mem_stake"
  by (simp add: stake_drv_ok_def mem_stake_def mem_gorm_ok)

definition stake_empty :: stake_db where
  "stake_empty = \<lparr> t_stakes = [], t_claims = [], t_distributions = [],
     t_assets = [\<lparr> ref_ID = 1, ref_Deleted = False \<rparr>], t_users = [\<lparr> ref_ID = 1, ref_Deleted = False \<rparr>] \<rparr>"

lemma stake_empty_inv: "stake_inv stake_empty"
  by (simp add: stake_inv_def stake_empty_def one_active_def)

definition demo_stakes :: "stake_req list" where
  "demo_stakes = [ReqStake 0 (Inr \<lparr> st_UserID = 1, st_AssetID = 1, st_StellarAddress = ''G'', st_Amount = 1000000 \<rparr>),
     ReqStake 1 (Inr \<lparr> st_UserID = 1, st_AssetID = 1, st_StellarAddress = ''G'', st_Amount = 1000000 \<rparr>),
     ReqDistribute (31536000 * Second) (Inr \<lparr> dr_AssetID = 1, dr_APRBasisPoints = 500 \<rparr>),
     ReqUnstake (Inr \<lparr> un_StakeID = 1, un_Amount = 500000 \<rparr>), ReqClaim 9 (Inr 1), ReqClaim 10 (Inr 1)]"

text \<open>C5: rewards are never paid twice. From tables that satisfy the invariant, after any sequence of stakes, unstakes, distributions and claims
  (requests within their binding tags and 64-bit arithmetic), every position's recorded claims add up to exactly its
  claimed rewards, which never exceed its accrued rewards; a position is active exactly while it has a
  positive stake; and no user has two active positions in one asset.\<close>

theorem staking_claims_covered:
  assumes "stake_drv_ok drv" "stake_inv db" "stake.all_fit drv rs db" "p \<in> set (t_stakes (stake.run drv rs db))"
  shows "claim_sum (sp_ID p) (t_claims (stake.run drv rs db)) = sp_ClaimedRewards p \<and>
         sp_ClaimedRewards p \<le> sp_AccruedRewards p \<and> 0 \<le> sp_StakedAmount p \<and> (sp_Active p \<longleftrightarrow> 0 < sp_StakedAmount p) \<and>
         one_active (t_stakes (stake.run drv rs db))"
proof -
  have "stake_inv (stake.run drv rs db)" using stake.run_inv[of drv db rs] assms(1-3) by blast
  then show ?thesis using assms(4) by (auto simp: stake_inv_def stake_wf_def)
qed

theorem staking_claims_covered_witness:
  "let db = stake.run mem_stake demo_stakes stake_empty
   in map (\<lambda>p. (sp_StakedAmount p, sp_AccruedRewards p, sp_ClaimedRewards p)) (t_stakes db) = [(1500000, 100000, 100000)] \<and>
      map rc_Amount (t_claims db) = [100000] \<and> (\<forall>p\<in>set (t_stakes db). claim_sum (sp_ID p) (t_claims db) = sp_ClaimedRewards p)"
proof -
  let ?db = "stake.run mem_stake demo_stakes stake_empty"
  have "stake.all_fit mem_stake demo_stakes stake_empty"
    unfolding demo_stakes_def stake.all_fit.simps by code_simp
  then have "\<forall>p\<in>set (t_stakes ?db). claim_sum (sp_ID p) (t_claims ?db) = sp_ClaimedRewards p"
    using staking_claims_covered[OF mem_stake_ok stake_empty_inv] by blast
  moreover have "map (\<lambda>p. (sp_StakedAmount p, sp_AccruedRewards p, sp_ClaimedRewards p)) (t_stakes ?db) = [(1500000, 100000, 100000)] \<and>
      map rc_Amount (t_claims ?db) = [100000]"
    unfolding demo_stakes_def stake.run.simps by code_simp
  ultimately show ?thesis by (simp add: Let_def)
qed


definition demo_staked :: stake_db where
  "demo_staked = stake_empty\<lparr> t_stakes := [\<lparr> sp_ID = 1, sp_UserID = 1, sp_AssetID = 1, sp_StakedAmount = 2000000,
     sp_AccruedRewards = 0, sp_ClaimedRewards = 0, sp_StakedAt = 0, sp_LastRewardAt = None, sp_StellarAddress = ''G'', sp_Active = True \<rparr>] \<rparr>"

lemma demo_staked_inv: "stake_inv demo_staked"
  by (simp add: stake_inv_def demo_staked_def stake_empty_def one_active_def stake_wf_def claim_sum_def in_i64_def)


end
