(* ===== verification/OwnerList.thy ===== *)
theory OwnerList
  imports Decimal
begin

section \<open>JSON lists of user IDs (encoding/json on []uint)\<close>

text \<open>
  A wallet stores its owners as the JSON text of a \<open>[]uint\<close>. \<open>marshal_uints\<close> is what
  \<open>json.Marshal\<close> writes; \<open>unmarshal_uints\<close> is \<open>json.Unmarshal\<close> into a \<open>[]uint\<close>: white space
  between tokens, \<open>null\<close> for the list (an empty slice) or for an element (its zero value), numerals
  without leading zeros that fit 64 bits; everything else is an error (\<open>None\<close>).
\<close>

fun comma_list :: "string list \<Rightarrow> string" where
  "comma_list [] = []"
| "comma_list [s] = s"
| "comma_list (s # t # ss) = s @ '','' @ comma_list (t # ss)"

definition marshal_uints :: "nat list \<Rightarrow> string" where
  "marshal_uints ids = ''['' @ comma_list (map show_nat ids) @ '']''"

datatype tok = TOpen | TClose | TComma | TNull | TNum string

definition is_ws :: "char \<Rightarrow> bool" where
  "is_ws c \<longleftrightarrow> c = CHR '' '' \<or> c = CHR 0x09 \<or> c = CHR 0x0A \<or> c = CHR 0x0D"

definition flush_num :: "string \<Rightarrow> tok list \<Rightarrow> tok list" where
  "flush_num cur ts = (if cur = [] then ts else TNum cur # ts)"

text \<open>The tokens of a text; \<open>cur\<close> holds the digits of the numeral being read.\<close>

function lex :: "string \<Rightarrow> string \<Rightarrow> tok list option" where
  "lex cur [] = Some (flush_num cur [])"
| "lex cur (c # cs) =
     (if is_digit c then lex (cur @ [c]) cs
      else map_option (flush_num cur)
        (if is_ws c then lex [] cs
         else if c = CHR ''['' then map_option ((#) TOpen) (lex [] cs)
         else if c = CHR '']'' then map_option ((#) TClose) (lex [] cs)
         else if c = CHR '','' then map_option ((#) TComma) (lex [] cs)
         else if c = CHR ''n'' \<and> take 3 cs = ''ull'' then map_option ((#) TNull) (lex [] (drop 3 cs))
         else None))"
  by pat_completeness auto
termination by (relation "measure (\<lambda>(_, s). length s)") auto

definition num_value :: "string \<Rightarrow> nat option" where
  "num_value d =
     (if d = ''0'' \<or> hd d \<noteq> CHR ''0''
      then case digits_value 0 d of None \<Rightarrow> None | Some n \<Rightarrow> if int n < 2 ^ 64 then Some n else None
      else None)"

fun parse_rest :: "tok list \<Rightarrow> nat list option" where
  "parse_rest [TClose] = Some []"
| "parse_rest (TComma # TNum d # ts) =
     (case num_value d of None \<Rightarrow> None | Some n \<Rightarrow> map_option ((#) n) (parse_rest ts))"
| "parse_rest (TComma # TNull # ts) = map_option ((#) 0) (parse_rest ts)"
| "parse_rest _ = None"

fun parse_list :: "tok list \<Rightarrow> nat list option" where
  "parse_list [TNull] = Some []"
| "parse_list [TOpen, TClose] = Some []"
| "parse_list (TOpen # t # ts) = parse_rest (TComma # t # ts)"
| "parse_list _ = None"

definition unmarshal_uints :: "string \<Rightarrow> nat list option" where
  "unmarshal_uints s = (case lex [] s of None \<Rightarrow> None | Some ts \<Rightarrow> parse_list ts)"

subsection \<open>Round trip\<close>

lemma lex_digits: "(\<forall>c\<in>set ds. is_digit c) \<Longrightarrow> lex cur (ds @ s) = lex (cur @ ds) s"
  by (induction ds arbitrary: cur) simp_all

lemma lex_show_nat: "lex [] (show_nat n @ s) = lex (show_nat n) s"
  using lex_digits[of "show_nat n" "[]" s] show_nat_digits by simp

lemma show_nat_head:
  assumes "0 < n"
  shows "hd (show_nat n) \<noteq> CHR ''0''"
  using assms
proof (induction n rule: show_nat.induct)
  case (1 n)
  show ?case
  proof (cases "n < 10")
    case True
    then have "digit_val (digit_char n) = Some n" by simp
    moreover have "digit_val CHR ''0'' = Some 0" by (simp add: digit_val_def)
    ultimately have "digit_char n \<noteq> CHR ''0''" using 1(2) by auto
    with True show ?thesis by (subst show_nat.simps) auto
  next
    case False
    with 1 have "hd (show_nat (n div 10)) \<noteq> CHR ''0''" by auto
    with False show ?thesis by (subst show_nat.simps) (simp add: hd_append)
  qed
qed

lemma num_value_show_nat: "n < 2 ^ 64 \<Longrightarrow> num_value (show_nat n) = Some n"
proof -
  have "show_nat 0 = ''0''" by code_simp
  then have "show_nat n = ''0'' \<or> hd (show_nat n) \<noteq> CHR ''0''" using show_nat_head[of n] by (cases "n = 0") auto
  then show "n < 2 ^ 64 \<Longrightarrow> num_value (show_nat n) = Some n" by (simp add: num_value_def)
qed

fun rest_tokens :: "nat list \<Rightarrow> tok list" where
  "rest_tokens [] = [TClose]"
| "rest_tokens (n # ns) = TComma # TNum (show_nat n) # rest_tokens ns"

lemma lex_close: "lex (show_nat n) '']'' = Some [TNum (show_nat n), TClose]"
  by (simp add: is_ws_def flush_num_def)

lemma lex_comma: "lex (show_nat n) ('','' @ s) = map_option (\<lambda>ts. TNum (show_nat n) # TComma # ts) (lex [] s)"
  by (cases "lex [] s") (simp_all add: is_ws_def flush_num_def)

lemma lex_comma_list:
  "lex [] (comma_list (map show_nat (n # ns)) @ '']'') = Some (TNum (show_nat n) # rest_tokens ns)"
proof (induction ns arbitrary: n)
  case Nil
  then show ?case by (simp add: lex_show_nat lex_close del: lex.simps)
next
  case (Cons m ns)
  have "lex [] (comma_list (map show_nat (n # m # ns)) @ '']'') =
        lex [] (show_nat n @ '','' @ (comma_list (map show_nat (m # ns)) @ '']''))" by simp
  also have "\<dots> = lex (show_nat n) ('','' @ (comma_list (map show_nat (m # ns)) @ '']''))" by (rule lex_show_nat)
  also have "\<dots> = map_option (\<lambda>ts. TNum (show_nat n) # TComma # ts) (lex [] (comma_list (map show_nat (m # ns)) @ '']''))"
    by (rule lex_comma)
  finally show ?case using Cons[of m] by simp
qed

lemma parse_rest_tokens: "\<forall>n\<in>set ns. n < 2 ^ 64 \<Longrightarrow> parse_rest (rest_tokens ns) = Some ns"
  by (induction ns) (simp_all add: num_value_show_nat)

theorem unmarshal_marshal:
  assumes "\<forall>n\<in>set ids. n < 2 ^ 64"
  shows "unmarshal_uints (marshal_uints ids) = Some ids"
proof (cases ids)
  case Nil
  then show ?thesis by (simp add: unmarshal_uints_def marshal_uints_def is_ws_def flush_num_def)
next
  case (Cons n ns)
  have "lex [] (marshal_uints ids) = map_option ((#) TOpen) (lex [] (comma_list (map show_nat (n # ns)) @ '']''))"
    by (simp add: Cons marshal_uints_def is_ws_def flush_num_def option.map_comp comp_def del: comma_list.simps list.map)
  also have "\<dots> = Some (TOpen # TNum (show_nat n) # rest_tokens ns)" unfolding lex_comma_list by simp
  finally show ?thesis
    using assms Cons parse_rest_tokens[of ns] by (simp add: unmarshal_uints_def num_value_show_nat)
qed

subsection \<open>The LIKE filter\<close>

text \<open>\<open>owner_ids LIKE '%id%'\<close>: the decimal numeral occurs somewhere in the text.\<close>

lemma occurs_comma_list: "x \<in> set xs \<Longrightarrow> occurs_in x (comma_list xs @ s)"
proof (induction xs rule: comma_list.induct)
  case (3 a t ss)
  show ?case
  proof (cases "x = a")
    case True
    then show ?thesis using occurs_prefix[of a "'','' @ comma_list (t # ss) @ s"] by simp
  next
    case False
    with 3 have "occurs_in x (comma_list (t # ss) @ s)" by auto
    then show ?thesis using occurs_later[of x "comma_list (t # ss) @ s" "a @ '',''"] by simp
  qed
qed (auto intro: occurs_prefix)

lemma occurs_owner: "u \<in> set ids \<Longrightarrow> occurs_in (show_nat u) (marshal_uints ids)"
  unfolding marshal_uints_def
  by (rule occurs_later) (rule occurs_comma_list, simp)

end
