(* ===== verification/Multisig.thy ===== *)
theory Multisig
  imports Gorm OwnerList
begin

section \<open>Multi-signature wallets (handlers/multisig.go)\<close>

text \<open>
  Wallets with a threshold, proposals, signatures and execution, on the tables of
  \<open>models/multisig.go\<close>. The caller is the user ID of the request context, 0 when the request is not
  authenticated; a path parameter is the raw string. The writes of \<open>SignProposal\<close> are not in a
  transaction: the signature is stored before the proposal is updated, and either write can fail.
\<close>

record MultiSigWallet =
  mw_ID :: nat
  mw_Name :: string
  mw_OwnerIDs :: string
  mw_Threshold :: int
  mw_CreatedByID :: nat

datatype ProposalStatus = ProposalPending | ProposalApproved | ProposalExecuted | ProposalRejected

record MultiSigProposal =
  mp_ID :: nat
  mp_WalletID :: nat
  mp_ProposerID :: nat
  mp_ToAddress :: string
  mp_Amount :: int
  mp_Description :: string
  mp_Status :: ProposalStatus
  mp_SignCount :: int

record MultiSigSignature =
  ms_ID :: nat
  ms_ProposalID :: nat
  ms_SignerID :: nat

record createWalletRequest =
  cw_Name :: string
  cw_OwnerIDs :: "nat list"
  cw_Threshold :: int

record createProposalRequest =
  cpr_ToAddress :: string
  cpr_Amount :: int
  cpr_Description :: string

record msig_db =
  t_wallets :: "MultiSigWallet list"
  t_proposals :: "MultiSigProposal list"
  t_sigs :: "MultiSigSignature list"
  t_msusers :: "ref_row list"

record msig_drv =
  d_wallets :: "MultiSigWallet gorm"
  d_proposals :: "MultiSigProposal gorm"
  d_sigs :: "MultiSigSignature gorm"
  d_msusers :: "ref_row gorm"

definition parseUintParam :: "string \<Rightarrow> string + nat" where
  "parseUintParam raw =
     (case ParseUint raw of
        Inl _ \<Rightarrow> Inl ''invalid id''
      | Inr v \<Rightarrow> if v = 0 then Inl ''invalid id'' else Inr v)"

definition isOwnerOf :: "string \<Rightarrow> nat \<Rightarrow> bool" where
  "isOwnerOf ownerIDsJSON u =
     (case unmarshal_uints ownerIDsJSON of None \<Rightarrow> False | Some ids \<Rightarrow> List.member ids u)"

definition CreateWallet :: "msig_drv \<Rightarrow> nat \<Rightarrow> string + createWalletRequest \<Rightarrow> msig_db \<Rightarrow> MultiSigWallet response \<times> msig_db" where
  "CreateWallet drv caller body db =
     (case body of
        Inl e \<Rightarrow> (Fail StatusBadRequest e, db)
      | Inr req \<Rightarrow>
          if cw_Threshold req \<le> 0 \<or> cw_Threshold req > int (length (cw_OwnerIDs req))
          then (Fail StatusBadRequest ''threshold must be > 0 and <= number of owners'', db)
          else if caller = 0 then (Fail StatusUnauthorized ''authentication required'', db)
          else if \<not> List.member (cw_OwnerIDs req) caller then (Fail StatusForbidden ''caller must be in owner_ids'', db)
          else
            (case find (\<lambda>u. \<not> exists_ref (d_msusers drv) u (t_msusers db)) (cw_OwnerIDs req) of
               Some ownerID \<Rightarrow> (Fail StatusBadRequest (''user '' @ show_nat ownerID @ '' not found''), db)
             | None \<Rightarrow>
                 (let wallet = \<lparr> mw_ID = 0, mw_Name = cw_Name req, mw_OwnerIDs = marshal_uints (cw_OwnerIDs req),
                                 mw_Threshold = cw_Threshold req, mw_CreatedByID = caller \<rparr>
                  in case g_create (d_wallets drv) wallet (t_wallets db) of
                       Inl _ \<Rightarrow> (Fail StatusInternalServerError ''failed to create wallet'', db)
                     | Inr (w, ws) \<Rightarrow> (Reply StatusCreated w, db\<lparr> t_wallets := ws \<rparr>))))"

definition GetWallet :: "msig_drv \<Rightarrow> nat \<Rightarrow> string \<Rightarrow> msig_db \<Rightarrow> MultiSigWallet response" where
  "GetWallet drv caller raw db =
     (case parseUintParam raw of
        Inl e \<Rightarrow> Fail StatusBadRequest e
      | Inr wid \<Rightarrow>
          if caller = 0 then Fail StatusUnauthorized ''authentication required''
          else case g_first (d_wallets drv) (\<lambda>w. mw_ID w = wid) (t_wallets db) of
                 Inl _ \<Rightarrow> Fail StatusNotFound ''wallet not found''
               | Inr wallet \<Rightarrow>
                   if \<not> isOwnerOf (mw_OwnerIDs wallet) caller then Fail StatusForbidden ''not an owner of this wallet''
                   else Reply StatusOK wallet)"

definition ListWallets :: "msig_drv \<Rightarrow> nat \<Rightarrow> msig_db \<Rightarrow> MultiSigWallet list response" where
  "ListWallets drv caller db =
     (if caller = 0 then Fail StatusUnauthorized ''authentication required''
      else case g_find (d_wallets drv) (Where (\<lambda>w. occurs_in (show_nat caller) (mw_OwnerIDs w))) (t_wallets db) of
             Inl _ \<Rightarrow> Fail StatusInternalServerError ''failed to list wallets''
           | Inr wallets \<Rightarrow> Reply StatusOK (filter (\<lambda>w. isOwnerOf (mw_OwnerIDs w) caller) wallets))"

definition CreateProposal :: "msig_drv \<Rightarrow> nat \<Rightarrow> string \<Rightarrow> string + createProposalRequest \<Rightarrow> msig_db \<Rightarrow>
    MultiSigProposal response \<times> msig_db" where
  "CreateProposal drv caller raw body db =
     (case parseUintParam raw of
        Inl e \<Rightarrow> (Fail StatusBadRequest e, db)
      | Inr walletID \<Rightarrow>
          if caller = 0 then (Fail StatusUnauthorized ''authentication required'', db)
          else case g_first (d_wallets drv) (\<lambda>w. mw_ID w = walletID) (t_wallets db) of
                 Inl _ \<Rightarrow> (Fail StatusNotFound ''wallet not found'', db)
               | Inr wallet \<Rightarrow>
                   if \<not> isOwnerOf (mw_OwnerIDs wallet) caller
                   then (Fail StatusForbidden ''not an owner of this wallet'', db)
                   else case body of
                          Inl e \<Rightarrow> (Fail StatusBadRequest e, db)
                        | Inr req \<Rightarrow>
                            (let proposal = \<lparr> mp_ID = 0, mp_WalletID = walletID, mp_ProposerID = caller,
                                   mp_ToAddress = cpr_ToAddress req, mp_Amount = cpr_Amount req,
                                   mp_Description = cpr_Description req, mp_Status = ProposalPending, mp_SignCount = 0 \<rparr>
                             in case g_create (d_proposals drv) proposal (t_proposals db) of
                                  Inl _ \<Rightarrow> (Fail StatusInternalServerError ''failed to create proposal'', db)
                                | Inr (p, ps) \<Rightarrow> (Reply StatusCreated p, db\<lparr> t_proposals := ps \<rparr>)))"

definition ListProposals :: "msig_drv \<Rightarrow> nat \<Rightarrow> string \<Rightarrow> msig_db \<Rightarrow> MultiSigProposal list response" where
  "ListProposals drv caller raw db =
     (case parseUintParam raw of
        Inl e \<Rightarrow> Fail StatusBadRequest e
      | Inr walletID \<Rightarrow>
          if caller = 0 then Fail StatusUnauthorized ''authentication required''
          else case g_first (d_wallets drv) (\<lambda>w. mw_ID w = walletID) (t_wallets db) of
                 Inl _ \<Rightarrow> Fail StatusNotFound ''wallet not found''
               | Inr wallet \<Rightarrow>
                   if \<not> isOwnerOf (mw_OwnerIDs wallet) caller then Fail StatusForbidden ''not an owner of this wallet''
                   else case g_find (d_proposals drv) (Where (\<lambda>p. mp_WalletID p = walletID)) (t_proposals db) of
                          Inl _ \<Rightarrow> Fail StatusInternalServerError ''failed to list proposals''
                        | Inr proposals \<Rightarrow> Reply StatusOK proposals)"

text \<open>The common head of \<open>SignProposal\<close> and \<open>ExecuteProposal\<close>: the proposal and its wallet, for a
  caller that owns the wallet.\<close>

definition load_proposal :: "msig_drv \<Rightarrow> nat \<Rightarrow> string \<Rightarrow> msig_db \<Rightarrow>
    MultiSigProposal response + nat \<times> MultiSigProposal \<times> MultiSigWallet" where
  "load_proposal drv caller raw db =
     (case parseUintParam raw of
        Inl e \<Rightarrow> Inl (Fail StatusBadRequest e)
      | Inr proposalID \<Rightarrow>
          if caller = 0 then Inl (Fail StatusUnauthorized ''authentication required'')
          else case g_first (d_proposals drv) (\<lambda>p. mp_ID p = proposalID) (t_proposals db) of
                 Inl _ \<Rightarrow> Inl (Fail StatusNotFound ''proposal not found'')
               | Inr proposal \<Rightarrow>
                   (case g_first (d_wallets drv) (\<lambda>w. mw_ID w = mp_WalletID proposal) (t_wallets db) of
                      Inl _ \<Rightarrow> Inl (Fail StatusNotFound ''wallet not found'')
                    | Inr wallet \<Rightarrow>
                        if \<not> isOwnerOf (mw_OwnerIDs wallet) caller
                        then Inl (Fail StatusForbidden ''not an owner of this wallet'')
                        else Inr (proposalID, proposal, wallet)))"

definition count_signature :: "MultiSigWallet \<Rightarrow> MultiSigProposal \<Rightarrow> MultiSigProposal" where
  "count_signature wallet proposal =
     (let n = add64 (mp_SignCount proposal) 1
      in proposal\<lparr> mp_Status := (if n \<ge> mw_Threshold wallet then ProposalApproved else mp_Status proposal),
                   mp_SignCount := n \<rparr>)"

definition SignProposal :: "msig_drv \<Rightarrow> nat \<Rightarrow> string \<Rightarrow> msig_db \<Rightarrow> MultiSigProposal response \<times> msig_db" where
  "SignProposal drv caller raw db =
     (case load_proposal drv caller raw db of
        Inl resp \<Rightarrow> (resp, db)
      | Inr (proposalID, proposal, wallet) \<Rightarrow>
          (case g_first (d_sigs drv) (\<lambda>s. ms_ProposalID s = proposalID \<and> ms_SignerID s = caller) (t_sigs db) of
             Inr _ \<Rightarrow> (Fail StatusConflict ''already signed this proposal'', db)
           | Inl _ \<Rightarrow>
               (case g_create (d_sigs drv) \<lparr> ms_ID = 0, ms_ProposalID = proposalID, ms_SignerID = caller \<rparr> (t_sigs db) of
                  Inl _ \<Rightarrow> (Fail StatusInternalServerError ''failed to record signature'', db)
                | Inr (sig, sigs) \<Rightarrow>
                    (let db1 = db\<lparr> t_sigs := sigs \<rparr>; proposal' = count_signature wallet proposal
                     in case g_save (d_proposals drv) proposal' (t_proposals db) of
                          Inl _ \<Rightarrow> (Fail StatusInternalServerError ''failed to update proposal'', db1)
                        | Inr ps \<Rightarrow> (Reply StatusOK proposal', db1\<lparr> t_proposals := ps \<rparr>)))))"

definition ExecuteProposal :: "msig_drv \<Rightarrow> nat \<Rightarrow> string \<Rightarrow> msig_db \<Rightarrow> MultiSigProposal response \<times> msig_db" where
  "ExecuteProposal drv caller raw db =
     (case load_proposal drv caller raw db of
        Inl resp \<Rightarrow> (resp, db)
      | Inr (_, proposal, wallet) \<Rightarrow>
          if mp_Status proposal \<noteq> ProposalApproved
          then (Fail StatusBadRequest ''proposal must be approved before execution'', db)
          else
            (let proposal' = proposal\<lparr> mp_Status := ProposalExecuted \<rparr>
             in case g_save (d_proposals drv) proposal' (t_proposals db) of
                  Inl _ \<Rightarrow> (Fail StatusInternalServerError ''failed to execute proposal'', db)
                | Inr ps \<Rightarrow> (Reply StatusOK proposal', db\<lparr> t_proposals := ps \<rparr>)))"

subsection \<open>Invariant\<close>

definition msig_drv_ok :: "msig_drv \<Rightarrow> bool" where
  "msig_drv_ok drv \<longleftrightarrow> gorm_ok mw_ID (\<lambda>k. mw_ID_update (\<lambda>_. k)) (d_wallets drv) \<and>
     gorm_ok mp_ID (\<lambda>k. mp_ID_update (\<lambda>_. k)) (d_proposals drv) \<and>
     gorm_ok ms_ID (\<lambda>k. ms_ID_update (\<lambda>_. k)) (d_sigs drv)"

definition owners :: "MultiSigWallet \<Rightarrow> nat set" where
  "owners w = (case unmarshal_uints (mw_OwnerIDs w) of None \<Rightarrow> {} | Some ids \<Rightarrow> set ids)"

lemma isOwnerOf_owners: "isOwnerOf (mw_OwnerIDs w) u \<longleftrightarrow> u \<in> owners w"
  by (auto simp: isOwnerOf_def owners_def split: option.splits)

definition wallet_wf :: "MultiSigWallet \<Rightarrow> bool" where
  "wallet_wf w \<longleftrightarrow> (\<exists>ids. mw_OwnerIDs w = marshal_uints ids \<and> (\<forall>n\<in>set ids. n < 2 ^ 64) \<and>
     0 < mw_Threshold w \<and> mw_Threshold w \<le> int (length ids))"

definition signers :: "nat \<Rightarrow> MultiSigSignature list \<Rightarrow> nat list" where
  "signers pid sigs = map ms_SignerID (filter (\<lambda>s. ms_ProposalID s = pid) sigs)"

text \<open>The state of one proposal, given its wallet and the signatures: they are by owners,
  none is counted that is not stored, and an approved or executed proposal has reached the threshold.\<close>

definition proposal_wf :: "MultiSigWallet list \<Rightarrow> MultiSigSignature list \<Rightarrow> MultiSigProposal \<Rightarrow> bool" where
  "proposal_wf ws sigs p \<longleftrightarrow>
     (\<exists>w\<in>set ws. mw_ID w = mp_WalletID p \<and> set (signers (mp_ID p) sigs) \<subseteq> owners w \<and>
        (mp_Status p = ProposalApproved \<or> mp_Status p = ProposalExecuted \<longrightarrow> mw_Threshold w \<le> mp_SignCount p)) \<and>
     0 \<le> mp_SignCount p \<and> mp_SignCount p \<le> int (length (signers (mp_ID p) sigs))"

definition msig_inv :: "msig_db \<Rightarrow> bool" where
  "msig_inv db \<longleftrightarrow> distinct (map mw_ID (t_wallets db)) \<and> distinct (map mp_ID (t_proposals db)) \<and>
     (\<forall>w\<in>set (t_wallets db). wallet_wf w) \<and>
     (\<forall>p\<in>set (t_proposals db). proposal_wf (t_wallets db) (t_sigs db) p) \<and>
     (\<forall>s\<in>set (t_sigs db). ms_ProposalID s \<in> mp_ID ` set (t_proposals db))"

text \<open>No owner has signed a proposal twice. Nothing but the lookup in \<open>SignProposal\<close> keeps it: the table has no unique index.\<close>

definition sigs_distinct :: "msig_db \<Rightarrow> bool" where
  "sigs_distinct db \<longleftrightarrow> (\<forall>i. distinct (signers i (t_sigs db)))"

definition sig_lookups_answer :: "msig_drv \<Rightarrow> bool" where
  "sig_lookups_answer drv \<longleftrightarrow> (\<forall>P sigs e. g_first (d_sigs drv) P sigs = Inl e \<longrightarrow> e = ErrRecordNotFound)"

definition mem_msig :: msig_drv where
  "mem_msig = \<lparr> d_wallets = mem_gorm mw_ID (\<lambda>k. mw_ID_update (\<lambda>_. k)), d_proposals = mem_gorm mp_ID (\<lambda>k. mp_ID_update (\<lambda>_. k)),
     d_sigs = mem_gorm ms_ID (\<lambda>k. ms_ID_update (\<lambda>_. k)), d_msusers = mem_refs \<rparr>"

lemma mem_msig_ok: "msig_drv_ok mem_msig"
  by (simp add: msig_drv_ok_def mem_msig_def mem_gorm_ok)

lemma wallet_owners: "wallet_wf w \<Longrightarrow> \<exists>ids. owners w = set ids \<and> mw_OwnerIDs w = marshal_uints ids"
  by (auto simp: wallet_wf_def owners_def unmarshal_marshal)

lemma load_proposalD:
  assumes drv: "msig_drv_ok drv" and load: "load_proposal drv caller raw db = Inr (pid, p, w)" and inv: "msig_inv db"
  shows "p \<in> set (t_proposals db)" "w \<in> set (t_wallets db)" "mw_ID w = mp_WalletID p" "caller \<in> owners w"
    "set (signers (mp_ID p) (t_sigs db)) \<subseteq> owners w"
    "mp_Status p = ProposalApproved \<or> mp_Status p = ProposalExecuted \<Longrightarrow> mw_Threshold w \<le> mp_SignCount p"
    "0 \<le> mp_SignCount p" "mp_SignCount p \<le> int (length (signers (mp_ID p) (t_sigs db)))"
    "pid = mp_ID p"
proof -
  have fp: "g_first (d_proposals drv) (\<lambda>p. mp_ID p = pid) (t_proposals db) = Inr p"
    and fw: "g_first (d_wallets drv) (\<lambda>w. mw_ID w = mp_WalletID p) (t_wallets db) = Inr w"
    and own: "isOwnerOf (mw_OwnerIDs w) caller"
    using load by (auto simp: load_proposal_def split: sum.splits if_splits)
  show p: "p \<in> set (t_proposals db)" "pid = mp_ID p" using gorm_firstD[OF _ fp] drv by (auto simp: msig_drv_ok_def)
  show w: "w \<in> set (t_wallets db)" "mw_ID w = mp_WalletID p" using gorm_firstD[OF _ fw] drv by (auto simp: msig_drv_ok_def)
  show "caller \<in> owners w" using own by (simp add: isOwnerOf_owners)
  have wf: "proposal_wf (t_wallets db) (t_sigs db) p" using inv p(1) by (simp add: msig_inv_def)
  then obtain v where v: "v \<in> set (t_wallets db)" "mw_ID v = mp_WalletID p" "set (signers (mp_ID p) (t_sigs db)) \<subseteq> owners v"
    "mp_Status p = ProposalApproved \<or> mp_Status p = ProposalExecuted \<longrightarrow> mw_Threshold v \<le> mp_SignCount p"
    by (auto simp: proposal_wf_def)
  have "v = w" using inv v w by (intro distinct_key_unique[of mw_ID]) (simp_all add: msig_inv_def)
  then show "set (signers (mp_ID p) (t_sigs db)) \<subseteq> owners w"
    "mp_Status p = ProposalApproved \<or> mp_Status p = ProposalExecuted \<Longrightarrow> mw_Threshold w \<le> mp_SignCount p" using v by auto
  show "0 \<le> mp_SignCount p" "mp_SignCount p \<le> int (length (signers (mp_ID p) (t_sigs db)))" using wf by (simp_all add: proposal_wf_def)
qed

lemma CreateWallet_cases:
  assumes drv: "msig_drv_ok drv"
  obtains (kept) "snd (CreateWallet drv caller body db) = db" "is_fail (fst (CreateWallet drv caller body db))"
  | (created) req w where "body = Inr req" "CreateWallet drv caller body db = (Reply StatusCreated w, db\<lparr> t_wallets := t_wallets db @ [w] \<rparr>)"
      "mw_ID w \<notin> mw_ID ` set (t_wallets db)" "mw_OwnerIDs w = marshal_uints (cw_OwnerIDs req)"
      "mw_Threshold w = cw_Threshold req" "0 < cw_Threshold req" "cw_Threshold req \<le> int (length (cw_OwnerIDs req))"
proof (cases "is_fail (fst (CreateWallet drv caller body db))")
  case True
  have "is_fail (fst (CreateWallet drv caller body db)) \<longrightarrow> snd (CreateWallet drv caller body db) = db"
    by (simp add: CreateWallet_def Let_def split: sum.split prod.split option.split)
  with True kept show ?thesis by blast
next
  case False
  then obtain req where body: "body = Inr req" by (cases body) (simp_all add: CreateWallet_def)
  define w0 where "w0 = \<lparr> mw_ID = 0, mw_Name = cw_Name req, mw_OwnerIDs = marshal_uints (cw_OwnerIDs req),
                                 mw_Threshold = cw_Threshold req, mw_CreatedByID = caller \<rparr>"
  obtain w ws where th: "0 < cw_Threshold req" "cw_Threshold req \<le> int (length (cw_OwnerIDs req))"
    and cr: "g_create (d_wallets drv) w0 (t_wallets db) = Inr (w, ws)"
    and res: "CreateWallet drv caller body db = (Reply StatusCreated w, db\<lparr> t_wallets := ws \<rparr>)"
    using False unfolding body by (auto simp: CreateWallet_def w0_def[symmetric] Let_def split: sum.splits prod.splits if_splits option.splits)
  have "gorm_ok mw_ID (\<lambda>k. mw_ID_update (\<lambda>_. k)) (d_wallets drv)" using drv by (simp add: msig_drv_ok_def)
  then obtain k where "k \<notin> mw_ID ` set (t_wallets db)" "w = w0\<lparr> mw_ID := k \<rparr>" "ws = t_wallets db @ [w]"
    using gorm_createD[OF _ cr] by blast
  then show ?thesis using body res th by (intro created[of req w]) (simp_all add: w0_def)
qed

lemma CreateWallet_inv:
  assumes drv: "msig_drv_ok drv" and inv: "msig_inv db"
    and req: "\<forall>req. body = Inr req \<longrightarrow> (\<forall>n\<in>set (cw_OwnerIDs req). n < 2 ^ 64)"
  shows "msig_inv (snd (CreateWallet drv caller body db))"
proof (cases rule: CreateWallet_cases[OF drv, of caller body db, case_names kept created])
  case kept
  then show ?thesis using inv by simp
next
  case (created rq w)
  have "wallet_wf w" using created req by (auto simp: wallet_wf_def)
  moreover have "proposal_wf (t_wallets db @ [w]) (t_sigs db) p" if "p \<in> set (t_proposals db)" for p
    using inv that by (auto simp: msig_inv_def proposal_wf_def)
  ultimately show ?thesis using inv created(2,3) by (simp add: msig_inv_def)
qed

lemma signers_append [simp]: "signers i (xs @ ys) = signers i xs @ signers i ys"
  by (simp add: signers_def)

lemma CreateProposal_inv:
  assumes drv: "msig_drv_ok drv" and inv: "msig_inv db"
  shows "msig_inv (snd (CreateProposal drv caller raw body db))"
proof (cases "is_fail (fst (CreateProposal drv caller raw body db))")
  case True
  have "is_fail (fst (CreateProposal drv caller raw body db)) \<longrightarrow> snd (CreateProposal drv caller raw body db) = db"
    by (simp add: CreateProposal_def Let_def split: sum.split prod.split)
  with True inv show ?thesis by simp
next
  case False
  then obtain i w p ps and req :: createProposalRequest where
    fw: "g_first (d_wallets drv) (\<lambda>w. mw_ID w = i) (t_wallets db) = Inr w"
    and cr: "g_create (d_proposals drv) \<lparr> mp_ID = 0, mp_WalletID = i, mp_ProposerID = caller,
        mp_ToAddress = cpr_ToAddress req, mp_Amount = cpr_Amount req,
        mp_Description = cpr_Description req, mp_Status = ProposalPending, mp_SignCount = 0 \<rparr> (t_proposals db) = Inr (p, ps)"
    and res: "snd (CreateProposal drv caller raw body db) = db\<lparr> t_proposals := ps \<rparr>"
    by (auto simp: CreateProposal_def Let_def split: sum.splits prod.splits if_splits)
  have w: "w \<in> set (t_wallets db)" "mw_ID w = i" using gorm_firstD[OF _ fw] drv by (auto simp: msig_drv_ok_def)
  have ok: "gorm_ok mp_ID (\<lambda>k. mp_ID_update (\<lambda>_. k)) (d_proposals drv)" using drv by (simp add: msig_drv_ok_def)
  obtain k where k0: "k \<notin> mp_ID ` set (t_proposals db)" "ps = t_proposals db @ [p]"
      "p = (\<lparr> mp_ID = 0, mp_WalletID = i, mp_ProposerID = caller,
        mp_ToAddress = cpr_ToAddress req, mp_Amount = cpr_Amount req,
        mp_Description = cpr_Description req, mp_Status = ProposalPending, mp_SignCount = 0 \<rparr>)\<lparr> mp_ID := k \<rparr>"
    by (rule gorm_createD[OF ok cr])
  have k: "k \<notin> mp_ID ` set (t_proposals db)" "mp_ID p = k" "mp_WalletID p = i" "mp_Status p = ProposalPending"
      "mp_SignCount p = 0" "ps = t_proposals db @ [p]"
    using k0 by simp_all
  have none: "signers k (t_sigs db) = []"
  proof -
    have "ms_ProposalID s \<noteq> k" if "s \<in> set (t_sigs db)" for s using inv that k(1) unfolding msig_inv_def by metis
    then show ?thesis by (simp add: signers_def)
  qed
  have "proposal_wf (t_wallets db) (t_sigs db) p" using w k none by (auto simp: proposal_wf_def)
  then show ?thesis unfolding res using inv k by (auto simp: msig_inv_def)
qed

text \<open>Changing one proposal and the signatures of that proposal.\<close>

lemma msig_inv_update:
  assumes inv: "msig_inv db" and p: "p \<in> set (t_proposals db)" and p': "mp_ID p' = mp_ID p" "proposal_wf (t_wallets db) (t_sigs db') p'"
    and db': "t_wallets db' = t_wallets db" "t_proposals db' = put_row mp_ID p' (t_proposals db)"
    and sg: "\<And>i. i \<noteq> mp_ID p \<Longrightarrow> signers i (t_sigs db') = signers i (t_sigs db)"
      "\<And>s. s \<in> set (t_sigs db') \<Longrightarrow> ms_ProposalID s \<in> mp_ID ` set (t_proposals db)"
  shows "msig_inv db'"
proof -
  have keys: "map mp_ID (t_proposals db') = map mp_ID (t_proposals db)" by (simp add: db')
  then have ids: "mp_ID ` set (t_proposals db') = mp_ID ` set (t_proposals db)" by (metis list.set_map)
  have "proposal_wf (t_wallets db) (t_sigs db') x" if "x \<in> set (t_proposals db')" for x
  proof -
    have "x = p' \<or> (x \<in> set (t_proposals db) \<and> mp_ID x \<noteq> mp_ID p)"
      using in_set_put_row[OF that[unfolded db'(2)]] p'(1) by simp
    then show ?thesis
    proof
      assume x: "x \<in> set (t_proposals db) \<and> mp_ID x \<noteq> mp_ID p"
      then have "proposal_wf (t_wallets db) (t_sigs db) x" using inv by (simp add: msig_inv_def)
      with x show ?thesis by (simp add: proposal_wf_def sg(1))
    qed (use p' in simp)
  qed
  then show ?thesis using inv sg(2) by (simp add: msig_inv_def keys ids db'(1))
qed

lemma ExecuteProposal_cases:
  assumes drv: "msig_drv_ok drv" and inv: "msig_inv db"
  obtains (kept) "snd (ExecuteProposal drv caller raw db) = db" "is_fail (fst (ExecuteProposal drv caller raw db))"
  | (executed) pid p w where "load_proposal drv caller raw db = Inr (pid, p, w)" "mp_Status p = ProposalApproved"
      "ExecuteProposal drv caller raw db = (Reply StatusOK (p\<lparr> mp_Status := ProposalExecuted \<rparr>),
         db\<lparr> t_proposals := put_row mp_ID (p\<lparr> mp_Status := ProposalExecuted \<rparr>) (t_proposals db) \<rparr>)"
proof (cases "load_proposal drv caller raw db")
  case (Inl resp)
  then have "is_fail resp" by (auto simp: load_proposal_def split: sum.splits if_splits)
  then show ?thesis using Inl kept by (simp add: ExecuteProposal_def)
next
  case (Inr x)
  obtain pid p w where x: "load_proposal drv caller raw db = Inr (pid, p, w)" using Inr by (cases x) auto
  let ?p' = "p\<lparr> mp_Status := ProposalExecuted \<rparr>"
  have p: "p \<in> set (t_proposals db)" by (rule load_proposalD(1)[OF drv x inv])
  show ?thesis
  proof (cases "mp_Status p = ProposalApproved")
    case False
    then show ?thesis using kept x by (simp add: ExecuteProposal_def)
  next
    case True
    show ?thesis
    proof (cases "g_save (d_proposals drv) ?p' (t_proposals db)")
      case (Inl e)
      then show ?thesis using kept x True by (simp add: ExecuteProposal_def)
    next
      case sv: (Inr ps)
      have "gorm_ok mp_ID (\<lambda>k. mp_ID_update (\<lambda>_. k)) (d_proposals drv)" using drv by (simp add: msig_drv_ok_def)
      then have "ps = put_row mp_ID ?p' (t_proposals db)" by (rule gorm_save[OF _ sv p]) simp
      then show ?thesis using executed[OF x True] x True sv by (simp add: ExecuteProposal_def Let_def)
    qed
  qed
qed

lemma ExecuteProposal_inv:
  assumes drv: "msig_drv_ok drv" and inv: "msig_inv db"
  shows "msig_inv (snd (ExecuteProposal drv caller raw db))"
proof (cases rule: ExecuteProposal_cases[OF drv inv, of caller raw, case_names kept executed])
  case kept
  then show ?thesis using inv by simp
next
  case (executed pid p w)
  note ld = load_proposalD[OF drv executed(1) inv]
  let ?p' = "p\<lparr> mp_Status := ProposalExecuted \<rparr>"
  have "mw_Threshold w \<le> mp_SignCount p" using ld(6) executed(2) by simp
  then have "proposal_wf (t_wallets db) (t_sigs db) ?p'" using ld by (auto simp: proposal_wf_def)
  then show ?thesis unfolding executed(3) snd_conv
    using inv by (intro msig_inv_update[OF inv ld(1), of ?p']) (auto simp: msig_inv_def)
qed

text \<open>A request to sign either fails without a trace or appends the signature of an owner, counted or not, after the lookup has
  found none or has failed.\<close>

lemma SignProposal_cases:
  assumes drv: "msig_drv_ok drv" and inv: "msig_inv db"
  obtains (kept) "snd (SignProposal drv caller raw db) = db"
  | (signed) p w s e where "p \<in> set (t_proposals db)" "w \<in> set (t_wallets db)" "mw_ID w = mp_WalletID p" "caller \<in> owners w"
      "ms_ProposalID s = mp_ID p" "ms_SignerID s = caller"
      "g_first (d_sigs drv) (\<lambda>s. ms_ProposalID s = mp_ID p \<and> ms_SignerID s = caller) (t_sigs db) = Inl e"
      "snd (SignProposal drv caller raw db) = db\<lparr> t_sigs := t_sigs db @ [s] \<rparr> \<or>
       snd (SignProposal drv caller raw db) = db\<lparr> t_sigs := t_sigs db @ [s], t_proposals := put_row mp_ID (count_signature w p) (t_proposals db) \<rparr>"
proof (cases "snd (SignProposal drv caller raw db) = db")
  case False
  then obtain pid p w where x: "load_proposal drv caller raw db = Inr (pid, p, w)"
    by (cases "load_proposal drv caller raw db") (auto simp: SignProposal_def)
  note ld = load_proposalD[OF drv x inv]
  note x = x[unfolded ld(9)]
  let ?new = "\<lparr> ms_ID = 0, ms_ProposalID = mp_ID p, ms_SignerID = caller \<rparr>"
  obtain s sigs e where first: "g_first (d_sigs drv) (\<lambda>s. ms_ProposalID s = mp_ID p \<and> ms_SignerID s = caller) (t_sigs db) = Inl e"
    and cr: "g_create (d_sigs drv) ?new (t_sigs db) = Inr (s, sigs)"
    using False by (auto simp: SignProposal_def x Let_def split: sum.splits prod.splits)
  have oks: "gorm_ok ms_ID (\<lambda>k. ms_ID_update (\<lambda>_. k)) (d_sigs drv)" and okp: "gorm_ok mp_ID (\<lambda>k. mp_ID_update (\<lambda>_. k)) (d_proposals drv)"
    using drv by (simp_all add: msig_drv_ok_def)
  obtain k where s: "s = ?new\<lparr> ms_ID := k \<rparr>" and sigs: "sigs = t_sigs db @ [s]" by (rule gorm_createD[OF oks cr])
  have sv: "ps = put_row mp_ID (count_signature w p) (t_proposals db)" if "g_save (d_proposals drv) (count_signature w p) (t_proposals db) = Inr ps" for ps
    by (rule gorm_save[OF okp that ld(1)]) (simp add: count_signature_def Let_def)
  show ?thesis
    by (rule signed[OF ld(1-4) _ _ first, of s]) (use s sv in \<open>auto simp: SignProposal_def x first cr sigs Let_def split: sum.split\<close>)
qed (rule kept)

lemma signers_snoc:
  "ms_ProposalID s = i \<Longrightarrow> signers i (ss @ [s]) = signers i ss @ [ms_SignerID s]"
  "ms_ProposalID s \<noteq> i \<Longrightarrow> signers i (ss @ [s]) = signers i ss"
  by (simp_all add: signers_def)

lemma proposal_wfD:
  assumes "msig_inv db" "p \<in> set (t_proposals db)" "w \<in> set (t_wallets db)" "mw_ID w = mp_WalletID p"
  shows "set (signers (mp_ID p) (t_sigs db)) \<subseteq> owners w" "0 \<le> mp_SignCount p"
    "mp_Status p = ProposalApproved \<or> mp_Status p = ProposalExecuted \<Longrightarrow> mw_Threshold w \<le> mp_SignCount p"
    "mp_SignCount p \<le> int (length (signers (mp_ID p) (t_sigs db)))"
proof -
  have wf: "proposal_wf (t_wallets db) (t_sigs db) p" using assms(1,2) by (simp add: msig_inv_def)
  then obtain v where v: "v \<in> set (t_wallets db)" "mw_ID v = mp_WalletID p" "set (signers (mp_ID p) (t_sigs db)) \<subseteq> owners v"
    "mp_Status p = ProposalApproved \<or> mp_Status p = ProposalExecuted \<longrightarrow> mw_Threshold v \<le> mp_SignCount p"
    by (auto simp: proposal_wf_def)
  have "v = w" using assms v by (intro distinct_key_unique[of mw_ID]) (simp_all add: msig_inv_def)
  then show "set (signers (mp_ID p) (t_sigs db)) \<subseteq> owners w"
    "mp_Status p = ProposalApproved \<or> mp_Status p = ProposalExecuted \<Longrightarrow> mw_Threshold w \<le> mp_SignCount p" using v by auto
  show "0 \<le> mp_SignCount p" "mp_SignCount p \<le> int (length (signers (mp_ID p) (t_sigs db)))" using wf by (simp_all add: proposal_wf_def)
qed

lemma SignProposal_inv:
  assumes drv: "msig_drv_ok drv" and inv: "msig_inv db" and few: "int (length (t_sigs db)) < 2 ^ 62"
  shows "msig_inv (snd (SignProposal drv caller raw db))"
proof (cases rule: SignProposal_cases[OF drv inv, of caller raw, case_names kept signed])
  case kept
  then show ?thesis using inv by simp
next
  case (signed p w s e)
  note wf = proposal_wfD[OF inv signed(1-3)]
  have sg: "signers (mp_ID p) (t_sigs db @ [s]) = signers (mp_ID p) (t_sigs db) @ [caller]"
    "\<And>i. i \<noteq> mp_ID p \<Longrightarrow> signers i (t_sigs db @ [s]) = signers i (t_sigs db)"
    using signed(5,6) signers_snoc[of s] by auto
  have refs: "y \<in> set (t_sigs db @ [s]) \<Longrightarrow> ms_ProposalID y \<in> mp_ID ` set (t_proposals db)" for y
    using inv signed(1,5) by (auto simp: msig_inv_def)
  have "length (signers (mp_ID p) (t_sigs db)) \<le> length (t_sigs db)" by (simp add: signers_def)
  then have n: "add64 (mp_SignCount p) 1 = mp_SignCount p + 1" using wf(2,4) few by (intro add64_exact) (auto simp: in_i64_def)
  have same: "put_row mp_ID p (t_proposals db) = t_proposals db"
    unfolding put_row_def using inv signed(1) by (intro map_idI) (auto simp: msig_inv_def dest: distinct_key_unique)
  have keep: "proposal_wf (t_wallets db) (t_sigs db @ [s]) p"
    using wf signed(2-4) unfolding proposal_wf_def sg by auto
  have up: "proposal_wf (t_wallets db) (t_sigs db @ [s]) (count_signature w p)"
    using wf signed(2-4) n sg(1) unfolding proposal_wf_def by (auto simp: count_signature_def Let_def)
  have "msig_inv (db\<lparr> t_sigs := t_sigs db @ [s] \<rparr>)"
    using keep sg refs by (intro msig_inv_update[OF inv signed(1), of p]) (simp_all add: same)
  moreover have "msig_inv (db\<lparr> t_sigs := t_sigs db @ [s], t_proposals := put_row mp_ID (count_signature w p) (t_proposals db) \<rparr>)"
    using up sg refs by (intro msig_inv_update[OF inv signed(1), of "count_signature w p"]) (simp_all add: count_signature_def Let_def)
  ultimately show ?thesis using signed(8) by auto
qed

lemma SignProposal_distinct:
  assumes drv: "msig_drv_ok drv" "sig_lookups_answer drv" and inv: "msig_inv db" "sigs_distinct db"
  shows "sigs_distinct (snd (SignProposal drv caller raw db))"
proof (cases rule: SignProposal_cases[OF drv(1) inv(1), of caller raw, case_names kept signed])
  case (signed p w s e)
  have "e = ErrRecordNotFound" using drv(2) signed(7) by (simp add: sig_lookups_answer_def)
  moreover have "gorm_ok ms_ID (\<lambda>k. ms_ID_update (\<lambda>_. k)) (d_sigs drv)" using drv(1) by (simp add: msig_drv_ok_def)
  ultimately have "\<not> (ms_ProposalID y = mp_ID p \<and> ms_SignerID y = caller)" if "y \<in> set (t_sigs db)" for y
    using gorm_first_none[of ms_ID _ _ "\<lambda>s. ms_ProposalID s = mp_ID p \<and> ms_SignerID s = caller"] signed(7) that by blast
  then have "caller \<notin> set (signers (mp_ID p) (t_sigs db))" by (auto simp: signers_def)
  then have "distinct (signers i (t_sigs db @ [s]))" for i
    using inv(2) signed(5,6) signers_snoc[of s i "t_sigs db"] by (cases "i = mp_ID p") (auto simp: sigs_distinct_def)
  then show ?thesis using signed(8) by (auto simp: sigs_distinct_def)
qed (use inv in simp)

subsection \<open>The handlers as a service\<close>

datatype msig_req =
    ReqWallet nat "string + createWalletRequest"
  | ReqProposal nat string "string + createProposalRequest"
  | ReqSign nat string
  | ReqExecute nat string

fun msig_handle :: "msig_drv \<Rightarrow> msig_req \<Rightarrow> msig_db \<Rightarrow> unit response \<times> msig_db" where
  "msig_handle drv (ReqWallet u b) db = drop_body (CreateWallet drv u b db)"
| "msig_handle drv (ReqProposal u raw b) db = drop_body (CreateProposal drv u raw b db)"
| "msig_handle drv (ReqSign u raw) db = drop_body (SignProposal drv u raw db)"
| "msig_handle drv (ReqExecute u raw) db = drop_body (ExecuteProposal drv u raw db)"

fun msig_req_fits :: "msig_drv \<Rightarrow> msig_req \<Rightarrow> msig_db \<Rightarrow> bool" where
  "msig_req_fits drv (ReqWallet u b) db = (case b of Inl _ \<Rightarrow> True | Inr req \<Rightarrow> \<forall>n\<in>set (cw_OwnerIDs req). n < 2 ^ 64)"
| "msig_req_fits drv (ReqProposal u raw b) db = True"
| "msig_req_fits drv (ReqSign u raw) db = (int (length (t_sigs db)) < 2 ^ 62)"
| "msig_req_fits drv (ReqExecute u raw) db = True"

interpretation msig: service "msig_handle drv" "\<lambda>db. msig_drv_ok drv \<and> msig_inv db" "msig_req_fits drv" for drv
proof
  fix db r
  assume inv: "msig_drv_ok drv \<and> msig_inv db" and fits: "msig_req_fits drv r db"
  have "msig_inv (snd (msig_handle drv r db))"
  proof (cases r)
    case (ReqWallet u b)
    then show ?thesis using inv fits CreateWallet_inv[of drv db b u] by (cases b) auto
  next
    case (ReqProposal u raw b)
    then show ?thesis using inv CreateProposal_inv by simp
  next
    case (ReqSign u raw)
    then show ?thesis using inv fits SignProposal_inv by simp
  next
    case (ReqExecute u raw)
    then show ?thesis using inv ExecuteProposal_inv by simp
  qed
  then show "msig_drv_ok drv \<and> msig_inv (snd (msig_handle drv r db))" using inv by simp
qed

lemma only_signing_signs:
  "t_sigs (snd (CreateWallet drv u b db)) = t_sigs db" "t_sigs (snd (CreateProposal drv u raw b' db)) = t_sigs db"
  "t_sigs (snd (ExecuteProposal drv u raw db)) = t_sigs db"
  by (simp_all add: CreateWallet_def CreateProposal_def ExecuteProposal_def Let_def split: sum.split prod.split option.split)

interpretation signed: service "msig_handle drv" "\<lambda>db. msig_drv_ok drv \<and> msig_inv db \<and> sig_lookups_answer drv \<and> sigs_distinct db"
  "msig_req_fits drv" for drv
proof
  fix db r
  assume inv: "msig_drv_ok drv \<and> msig_inv db \<and> sig_lookups_answer drv \<and> sigs_distinct db" and fits: "msig_req_fits drv r db"
  have "msig_inv (snd (msig_handle drv r db))" using msig.keeps[of drv db r] inv fits by blast
  moreover have "sigs_distinct (snd (msig_handle drv r db))"
    using inv SignProposal_distinct by (cases r) (simp_all add: sigs_distinct_def only_signing_signs)
  ultimately show "msig_drv_ok drv \<and> msig_inv (snd (msig_handle drv r db)) \<and> sig_lookups_answer drv \<and> sigs_distinct (snd (msig_handle drv r db))"
    using inv by blast
qed

subsection \<open>Properties\<close>

definition msig_empty :: msig_db where
  "msig_empty = \<lparr> t_wallets = [], t_proposals = [], t_sigs = [],
     t_msusers = map (\<lambda>i. \<lparr> ref_ID = i, ref_Deleted = False \<rparr>) [1, 2, 3] \<rparr>"

lemma msig_empty_inv: "msig_inv msig_empty"
  by (simp add: msig_inv_def msig_empty_def)

definition demo_msig :: "msig_req list" where
  "demo_msig = [ReqWallet 1 (Inr \<lparr> cw_Name = ''w'', cw_OwnerIDs = [1, 2, 3], cw_Threshold = 2 \<rparr>),
     ReqProposal 1 ''1'' (Inr \<lparr> cpr_ToAddress = ''G'', cpr_Amount = 5, cpr_Description = '''' \<rparr>),
     ReqSign 1 ''1'', ReqSign 1 ''1'', ReqSign 2 ''1'']"

lemma few_sigs_fit: "length (t_sigs db) < 1000 \<Longrightarrow> msig_req_fits drv (ReqSign u raw) db"
  by simp

lemma demo_msig_fits: "msig.all_fit mem_msig demo_msig msig_empty"
  unfolding demo_msig_def msig.all_fit.simps
  by (intro conjI few_sigs_fit) (simp, simp, code_simp+)

lemma mem_sig_lookups_answer: "sig_lookups_answer mem_msig"
  by (auto simp: sig_lookups_answer_def mem_msig_def mem_gorm_def split: list.splits)

text \<open>C6: a proposal is executed only with the signatures it needs. In any state reached by wallet and proposal
  creations, signatures and executions, whatever database calls fail (with owner ids of 64 bits and fewer than \<open>2 ^ 62\<close> signatures):
  an accepted execution is requested by an owner of the wallet, for a proposal that carries at least \<open>threshold\<close> signatures, all of
  owners. They are of at least \<open>threshold\<close> different owners, none of whom has signed twice, if the lookup of an earlier signature never
  fails: a lookup that fails counts as none found, see \<open>failed_lookup_counts_twice\<close>.\<close>

theorem execution_needs_threshold:
  assumes "msig_drv_ok drv" "msig_inv db0" "msig.all_fit drv rs db0" "db = msig.run drv rs db0"
    and "ExecuteProposal drv caller raw db = (Reply st p, db')"
  shows "\<exists>w\<in>set (t_wallets db). mw_ID w = mp_WalletID p \<and> caller \<in> owners w \<and>
    set (signers (mp_ID p) (t_sigs db)) \<subseteq> owners w \<and> mw_Threshold w \<le> int (length (signers (mp_ID p) (t_sigs db))) \<and>
    (sig_lookups_answer drv \<and> sigs_distinct db0 \<longrightarrow>
       mw_Threshold w \<le> int (card (set (signers (mp_ID p) (t_sigs db)))) \<and> distinct (signers (mp_ID p) (t_sigs db)))"
proof -
  have inv: "msig_inv db" using msig.run_inv[of drv db0 rs] assms(1-4) by blast
  have once: "sig_lookups_answer drv \<Longrightarrow> sigs_distinct db0 \<Longrightarrow> sigs_distinct db"
    using signed.run_inv[of drv db0 rs] assms(1-4) by blast
  show ?thesis
  proof (cases rule: ExecuteProposal_cases[OF assms(1) inv, of caller raw, case_names kept executed])
    case kept
    then show ?thesis using assms(5) by simp
  next
    case (executed pid q w)
    note ld = load_proposalD[OF assms(1) executed(1) inv]
    have p: "p = q\<lparr> mp_Status := ProposalExecuted \<rparr>" using executed(3) assms(5) by simp
    have "mw_Threshold w \<le> int (length (signers (mp_ID q) (t_sigs db)))" using ld(6,8) executed(2) by simp
    then show ?thesis using ld p once by (intro bexI[of _ w]) (auto simp: sigs_distinct_def distinct_card)
  qed
qed

theorem execution_needs_threshold_witness:
  "\<exists>w\<in>set (t_wallets (msig.run mem_msig demo_msig msig_empty)).
     mw_Threshold w \<le> int (card (set (signers 1 (t_sigs (msig.run mem_msig demo_msig msig_empty)))))"
proof -
  let ?db = "msig.run mem_msig demo_msig msig_empty"
  let ?p = "\<lparr> mp_ID = 1, mp_WalletID = 1, mp_ProposerID = 1, mp_ToAddress = ''G'', mp_Amount = 5, mp_Description = '''',
     mp_Status = ProposalExecuted, mp_SignCount = 2 \<rparr>"
  have "fst (ExecuteProposal mem_msig 3 ''1'' ?db) = Reply 200 ?p"
    unfolding demo_msig_def msig.run.simps by code_simp
  then have "ExecuteProposal mem_msig 3 ''1'' ?db = (Reply 200 ?p, snd (ExecuteProposal mem_msig 3 ''1'' ?db))"
    by (metis prod.collapse)
  from execution_needs_threshold[OF mem_msig_ok msig_empty_inv demo_msig_fits refl this]
  show ?thesis using mem_sig_lookups_answer by (auto simp: sigs_distinct_def msig_empty_def signers_def)
qed

text \<open>The wallet list is exact. A caller is shown precisely the wallets it owns: the textual \<open>LIKE\<close> filter of the query
  loses none of them and the check of the parsed owner list removes the false matches.\<close>

theorem list_wallets_exact:
  assumes "msig_drv_ok drv" "msig_inv db" "ListWallets drv caller db = Reply st ws"
  shows "mset ws = mset (filter (\<lambda>w. caller \<in> owners w) (t_wallets db))"
proof -
  obtain rows where find: "g_find (d_wallets drv) (Where (\<lambda>w. occurs_in (show_nat caller) (mw_OwnerIDs w))) (t_wallets db) = Inr rows"
    and ws: "ws = filter (\<lambda>w. isOwnerOf (mw_OwnerIDs w) caller) rows"
    using assms(3) by (auto simp: ListWallets_def split: sum.splits if_splits)
  have "gorm_ok mw_ID (\<lambda>k. mw_ID_update (\<lambda>_. k)) (d_wallets drv)" using assms(1) by (simp add: msig_drv_ok_def)
  from gorm_find_Where[OF this find]
  have rows: "mset rows = mset (filter (\<lambda>w. occurs_in (show_nat caller) (mw_OwnerIDs w)) (t_wallets db))" .
  have "mset ws = mset (filter (\<lambda>w. caller \<in> owners w) (filter (\<lambda>w. occurs_in (show_nat caller) (mw_OwnerIDs w)) (t_wallets db)))"
    unfolding ws mset_filter rows by (simp add: isOwnerOf_owners)
  also have "filter (\<lambda>w. caller \<in> owners w) (filter (\<lambda>w. occurs_in (show_nat caller) (mw_OwnerIDs w)) (t_wallets db))
      = filter (\<lambda>w. caller \<in> owners w) (t_wallets db)"
  proof -
    have "occurs_in (show_nat caller) (mw_OwnerIDs w)" if "w \<in> set (t_wallets db)" "caller \<in> owners w" for w
    proof -
      have "wallet_wf w" using assms(2) that(1) by (simp add: msig_inv_def)
      then obtain ids where "owners w = set ids" "mw_OwnerIDs w = marshal_uints ids" using wallet_owners by blast
      then show ?thesis using that(2) occurs_owner by simp
    qed
    then show ?thesis by (auto simp: filter_filter intro!: filter_cong)
  qed
  finally show ?thesis .
qed

theorem list_wallets_exact_witness:
  "\<exists>ws. ListWallets mem_msig 2 (msig.run mem_msig demo_msig msig_empty) = Reply 200 ws \<and> length ws = 1 \<and>
     mset ws = mset (filter (\<lambda>w. 2 \<in> owners w) (t_wallets (msig.run mem_msig demo_msig msig_empty)))"
proof -
  let ?db = "msig.run mem_msig demo_msig msig_empty"
  have "(case ListWallets mem_msig 2 ?db of Reply st ws \<Rightarrow> st = 200 \<and> length ws = 1 | _ \<Rightarrow> False)"
    unfolding demo_msig_def msig.run.simps by code_simp
  then obtain ws where ws: "ListWallets mem_msig 2 ?db = Reply 200 ws" "length ws = 1" by (auto split: response.splits)
  have "msig_inv ?db" using msig.run_inv[of mem_msig msig_empty demo_msig] mem_msig_ok msig_empty_inv demo_msig_fits by blast
  from list_wallets_exact[OF mem_msig_ok this ws(1)] ws show ?thesis by blast
qed

subsection \<open>Departures\<close>

text \<open>\<open>SignProposal\<close> takes every error of its lookup for \<open>not found\<close>: while the lookup fails, one owner signs twice and both
  signatures count, so that the proposal of a wallet with threshold two executes with the signatures of one owner.\<close>

lemma failed_lookup_counts_twice:
  "let drv = mem_msig\<lparr> d_sigs := (d_sigs mem_msig)\<lparr> g_first := (\<lambda>_ _. Inl (DBError ''timeout'')) \<rparr> \<rparr>;
       db = msig.run drv [ReqWallet 1 (Inr \<lparr> cw_Name = ''w'', cw_OwnerIDs = [1, 2, 3], cw_Threshold = 2 \<rparr>),
         ReqProposal 1 ''1'' (Inr \<lparr> cpr_ToAddress = ''G'', cpr_Amount = 5, cpr_Description = '''' \<rparr>), ReqSign 1 ''1'', ReqSign 1 ''1''] msig_empty
   in map mw_Threshold (t_wallets db) = [2] \<and> signers 1 (t_sigs db) = [1, 1] \<and> \<not> is_fail (fst (ExecuteProposal drv 1 ''1'' db))"
  unfolding msig.run.simps by code_simp

text \<open>A signature after the execution puts the proposal back to approved, and it can be executed again.\<close>

lemma proposal_executed_twice:
  "let db1 = msig.run mem_msig demo_msig msig_empty;
       (r1, db2) = ExecuteProposal mem_msig 1 ''1'' db1;
       (r2, db3) = SignProposal mem_msig 3 ''1'' db2;
       (r3, db4) = ExecuteProposal mem_msig 1 ''1'' db3
   in \<not> is_fail r1 \<and> \<not> is_fail r2 \<and> \<not> is_fail r3"
  unfolding demo_msig_def msig.run.simps by code_simp

text \<open>Duplicate owner IDs are accepted when the wallet is created, and such a wallet can have a
  threshold that no set of signatures reaches: no proposal of it is ever approved.\<close>

lemma duplicate_owners_accepted:
  "\<not> is_fail (fst (CreateWallet mem_msig 1 (Inr \<lparr> cw_Name = ''w'', cw_OwnerIDs = [1, 1], cw_Threshold = 2 \<rparr>) msig_empty))"
  by code_simp

lemma unreachable_threshold:
  assumes "msig_inv db" "sigs_distinct db" "p \<in> set (t_proposals db)" "w \<in> set (t_wallets db)" "mw_ID w = mp_WalletID p"
    and "int (card (owners w)) < mw_Threshold w"
  shows "mp_Status p \<noteq> ProposalApproved \<and> mp_Status p \<noteq> ProposalExecuted"
proof -
  note wf = proposal_wfD[OF assms(1,3,4,5)]
  have "finite (owners w)" by (simp add: owners_def split: option.splits)
  then have "card (set (signers (mp_ID p) (t_sigs db))) \<le> card (owners w)" using wf(1) by (intro card_mono) auto
  moreover have "mp_SignCount p \<le> int (card (set (signers (mp_ID p) (t_sigs db))))"
    using wf(4) assms(2) by (simp add: sigs_distinct_def distinct_card)
  ultimately show ?thesis using wf(3) assms(6) by (cases "mp_Status p") auto
qed

end
