(* ===== verification/P2P.thy ===== *)
theory P2P
  imports Pagination
begin

section \<open>Peer-to-peer order book (handlers/p2p.go, models/p2p.go)\<close>

text \<open>
  Orders, trades and price points with the price-time matching of a new order. The handler keeps the new order in
  memory while it matches: a transaction that fails rolls the tables back but leaves the order in memory as the
  transaction body changed it, and its error is dropped. The model therefore returns, beside the tables, the order and
  the trade as the body left them. \<open>clk\<close> gives the successive readings of the clock, \<open>d_match\<close> the
  outcomes of the successive transactions of one request.
\<close>

subsection \<open>Data\<close>

datatype OrderSide = OrderSideBuy | OrderSideSell

datatype OrderStatus = OrderStatusOpen | OrderStatusPartial | OrderStatusFilled | OrderStatusCancelled

record P2POrder =
  or_ID :: nat
  or_AssetID :: nat
  or_OwnerAddress :: string
  or_Side :: OrderSide
  or_Price :: int
  or_Quantity :: int
  or_FilledQuantity :: int
  or_Status :: OrderStatus
  or_ExpiresAt :: "instant option"
  or_CreatedAt :: instant

record P2PTrade =
  tr_ID :: nat
  tr_AssetID :: nat
  tr_BuyOrderID :: nat
  tr_SellOrderID :: nat
  tr_BuyerAddress :: string
  tr_SellerAddress :: string
  tr_Price :: int
  tr_Quantity :: int
  tr_TotalValue :: int
  tr_CreatedAt :: instant

record PricePoint =
  pt_ID :: nat
  pt_AssetID :: nat
  pt_Price :: int
  pt_Volume :: int
  pt_High :: int
  pt_Low :: int
  pt_Open :: int
  pt_Close :: int
  pt_Timestamp :: instant

record createOrderRequest =
  co_AssetID :: nat
  co_OwnerAddress :: string
  co_Side :: OrderSide
  co_Price :: int
  co_Quantity :: int
  co_ExpiresInSec :: int

record p2p_db =
  t_assets :: "ref_row list"
  t_orders :: "P2POrder list"
  t_trades :: "P2PTrade list"
  t_points :: "PricePoint list"

record p2p_drv =
  d_assets :: "ref_row gorm"
  d_orders :: "P2POrder gorm"
  d_trades :: "P2PTrade gorm"
  d_points :: "PricePoint gorm"
  d_match :: "nat \<Rightarrow> tx_outcome"

subsection \<open>Matching\<close>

definition live :: "P2POrder \<Rightarrow> bool" where
  "live x \<longleftrightarrow> or_Status x = OrderStatusOpen \<or> or_Status x = OrderStatusPartial"

definition price_ok :: "P2POrder \<Rightarrow> P2POrder \<Rightarrow> bool" where
  "price_ok order c =
     (if or_Side order = OrderSideSell then or_Price c \<ge> or_Price order else or_Price c \<le> or_Price order)"

definition opposite :: "OrderSide \<Rightarrow> OrderSide" where
  "opposite s = (if s = OrderSideSell then OrderSideBuy else OrderSideSell)"

definition counter_cond :: "P2POrder \<Rightarrow> P2POrder \<Rightarrow> bool" where
  "counter_cond order c \<longleftrightarrow>
     or_AssetID c = or_AssetID order \<and> or_Side c = opposite (or_Side order) \<and> live c \<and> price_ok order c"

definition book_order :: "OrderSide \<Rightarrow> P2POrder \<Rightarrow> P2POrder \<Rightarrow> bool" where
  "book_order side x y \<longleftrightarrow>
     (if side = OrderSideSell then or_Price x > or_Price y else or_Price x < or_Price y) \<or>
     or_Price x = or_Price y \<and> or_CreatedAt x \<le> or_CreatedAt y"

definition counter_orders :: "p2p_drv \<Rightarrow> P2POrder \<Rightarrow> p2p_db \<Rightarrow> P2POrder list" where
  "counter_orders drv order db =
     (case g_find (d_orders drv) ((Where (counter_cond order))\<lparr> q_order := book_order (or_Side order) \<rparr>) (t_orders db) of
        Inl _ \<Rightarrow> [] | Inr cs \<Rightarrow> cs)"

definition make_trade :: "P2POrder \<Rightarrow> P2POrder \<Rightarrow> int \<Rightarrow> P2PTrade" where
  "make_trade order counter fillQty =
     (let buying = (or_Side order = OrderSideBuy);
          b = (if buying then order else counter); s = (if buying then counter else order)
      in \<lparr> tr_ID = 0, tr_AssetID = or_AssetID order, tr_BuyOrderID = or_ID b, tr_SellOrderID = or_ID s,
           tr_BuyerAddress = or_OwnerAddress b, tr_SellerAddress = or_OwnerAddress s,
           tr_Price = or_Price counter, tr_Quantity = fillQty,
           tr_TotalValue = mul64 (or_Price counter) fillQty, tr_CreatedAt = 0 \<rparr>)"

definition apply_fill :: "int \<Rightarrow> P2POrder \<Rightarrow> P2POrder" where
  "apply_fill fillQty x =
     (let filled = add64 (or_FilledQuantity x) fillQty
      in x\<lparr> or_FilledQuantity := filled,
            or_Status := (if filled \<ge> or_Quantity x then OrderStatusFilled else OrderStatusPartial) \<rparr>)"

definition price_point :: "P2POrder \<Rightarrow> P2POrder \<Rightarrow> int \<Rightarrow> instant \<Rightarrow> PricePoint" where
  "price_point order counter fillQty now =
     \<lparr> pt_ID = 0, pt_AssetID = or_AssetID order, pt_Price = or_Price counter, pt_Volume = fillQty,
       pt_High = or_Price counter, pt_Low = or_Price counter, pt_Open = or_Price counter,
       pt_Close = or_Price counter, pt_Timestamp = now \<rparr>"

text \<open>The body of the transaction of one match: the taker and the trade in memory, and the outcome on the tables.\<close>

definition fill_tx :: "p2p_drv \<Rightarrow> instant \<Rightarrow> P2POrder \<Rightarrow> P2POrder \<Rightarrow> int \<Rightarrow> p2p_db \<Rightarrow>
    (P2POrder \<times> P2PTrade) \<times> (dberr + unit \<times> p2p_db)" where
  "fill_tx drv now order counter fillQty db =
     (case g_create (d_trades drv) ((make_trade order counter fillQty)\<lparr> tr_CreatedAt := now \<rparr>) (t_trades db) of
        Inl e \<Rightarrow> ((order, make_trade order counter fillQty), Inl e)
      | Inr (trade, ts) \<Rightarrow>
          (let order' = apply_fill fillQty order
           in ((order', trade),
               and_then (g_save (d_orders drv) order' (t_orders db)) (\<lambda>os.
               and_then (g_save (d_orders drv) (apply_fill fillQty counter) os) (\<lambda>os'.
               and_then (g_create (d_points drv) (price_point order counter fillQty now) (t_points db)) (\<lambda>(_, ps).
                 Inr ((), db\<lparr> t_orders := os', t_trades := ts, t_points := ps \<rparr>)))))))"

definition fill_qty :: "int \<Rightarrow> P2POrder \<Rightarrow> int" where
  "fill_qty remaining counter =
     (let counterRemaining = sub64 (or_Quantity counter) (or_FilledQuantity counter)
      in if counterRemaining < remaining then counterRemaining else remaining)"

fun match_loop :: "p2p_drv \<Rightarrow> (nat \<Rightarrow> instant) \<Rightarrow> nat \<Rightarrow> int \<Rightarrow> P2POrder \<Rightarrow> P2POrder list \<Rightarrow> p2p_db \<Rightarrow>
    P2POrder \<times> P2PTrade list \<times> p2p_db" where
  "match_loop drv clk i remaining order [] db = (order, [], db)"
| "match_loop drv clk i remaining order (counter # cs) db =
     (if remaining \<le> 0 then (order, [], db)
      else
        (let fillQty = fill_qty remaining counter;
             (order', trade) = (if tx_begin (d_match drv i) = None then fst (fill_tx drv (clk i) order counter fillQty db)
                                else (order, make_trade order counter fillQty));
             (_, db') = transaction (d_match drv i) (\<lambda>db. snd (fill_tx drv (clk i) order counter fillQty db)) db;
             (order'', trades, db'') = match_loop drv clk (Suc i) (sub64 remaining fillQty) order' cs db'
         in (order'', trade # trades, db'')))"

definition matchOrder :: "p2p_drv \<Rightarrow> (nat \<Rightarrow> instant) \<Rightarrow> P2POrder \<Rightarrow> p2p_db \<Rightarrow> P2POrder \<times> P2PTrade list \<times> p2p_db" where
  "matchOrder drv clk order db =
     match_loop drv clk 0 (sub64 (or_Quantity order) (or_FilledQuantity order)) order (counter_orders drv order db) db"

definition CreateOrder :: "p2p_drv \<Rightarrow> instant \<Rightarrow> (nat \<Rightarrow> instant) \<Rightarrow> string + createOrderRequest \<Rightarrow> p2p_db \<Rightarrow>
    (P2POrder \<times> P2PTrade list) response \<times> p2p_db" where
  "CreateOrder drv now clk body db =
     (case body of
        Inl e \<Rightarrow> (Fail StatusBadRequest e, db)
      | Inr req \<Rightarrow>
          if \<not> exists_ref (d_assets drv) (co_AssetID req) (t_assets db)
          then (Fail StatusNotFound ''Asset not found'', db)
          else
            (let order = \<lparr> or_ID = 0, or_AssetID = co_AssetID req, or_OwnerAddress = co_OwnerAddress req,
                           or_Side = co_Side req, or_Price = co_Price req, or_Quantity = co_Quantity req,
                           or_FilledQuantity = 0, or_Status = OrderStatusOpen,
                           or_ExpiresAt = (if co_ExpiresInSec req > 0
                                           then Some (now + mul64 (co_ExpiresInSec req) Second) else None),
                           or_CreatedAt = now \<rparr>
             in case g_create (d_orders drv) order (t_orders db) of
                  Inl _ \<Rightarrow> (Fail StatusInternalServerError ''Failed to create order'', db)
                | Inr (order, os) \<Rightarrow>
                    (case matchOrder drv clk order (db\<lparr> t_orders := os \<rparr>) of
                       (order', trades, db') \<Rightarrow> (Reply StatusCreated (order', trades), db'))))"

definition CancelOrder :: "p2p_drv \<Rightarrow> string + nat \<Rightarrow> p2p_db \<Rightarrow> P2POrder response \<times> p2p_db" where
  "CancelOrder drv uri db =
     (case uri of
        Inl _ \<Rightarrow> (Fail StatusBadRequest ''Invalid order ID'', db)
      | Inr i \<Rightarrow>
          (case g_first (d_orders drv) (\<lambda>x. or_ID x = i) (t_orders db) of
             Inl _ \<Rightarrow> (Fail StatusNotFound ''Order not found'', db)
           | Inr order \<Rightarrow>
               if or_Status order = OrderStatusFilled \<or> or_Status order = OrderStatusCancelled
               then (Fail StatusBadRequest ''Order cannot be cancelled'', db)
               else
                 (let order' = order\<lparr> or_Status := OrderStatusCancelled \<rparr>
                  in case g_save (d_orders drv) order' (t_orders db) of
                       Inl _ \<Rightarrow> (Fail StatusInternalServerError ''Failed to cancel order'', db)
                     | Inr os \<Rightarrow> (Reply StatusOK order', db\<lparr> t_orders := os \<rparr>))))"

subsection \<open>Listings\<close>

record book_query =
  bq_AssetID :: nat
  bq_Side :: "OrderSide option"
  bq_Address :: string
  bq_Page :: int
  bq_Limit :: int

definition book_page :: "book_query \<Rightarrow> int \<times> int" where
  "book_page q = (if bq_Page q < 1 then 1 else bq_Page q, if bq_Limit q < 1 \<or> bq_Limit q > 100 then 20 else bq_Limit q)"

definition ListOrders :: "p2p_drv \<Rightarrow> string \<Rightarrow> string + book_query \<Rightarrow> p2p_db \<Rightarrow>
    (P2POrder Pagination \<times> string) response" where
  "ListOrders drv path body db =
     (case body of
        Inl e \<Rightarrow> Fail StatusBadRequest e
      | Inr q \<Rightarrow>
          (let cond = (\<lambda>x. or_AssetID x = bq_AssetID q \<and> live x \<and>
                           (case bq_Side q of None \<Rightarrow> True | Some s \<Rightarrow> or_Side x = s))
           in case Paginate (d_orders drv) path (Where cond) (fst (book_page q)) (snd (book_page q)) (t_orders db) of
                Inl _ \<Rightarrow> Fail StatusInternalServerError ''Failed to fetch orders''
              | Inr res \<Rightarrow> Reply StatusOK res))"

definition GetTradeHistory :: "p2p_drv \<Rightarrow> string \<Rightarrow> string + book_query \<Rightarrow> p2p_db \<Rightarrow>
    (P2PTrade Pagination \<times> string) response" where
  "GetTradeHistory drv path body db =
     (case body of
        Inl e \<Rightarrow> Fail StatusBadRequest e
      | Inr q \<Rightarrow>
          (let cond = (\<lambda>t. (bq_AssetID q \<noteq> 0 \<longrightarrow> tr_AssetID t = bq_AssetID q) \<and>
                           (bq_Address q \<noteq> '''' \<longrightarrow> tr_BuyerAddress t = bq_Address q \<or> tr_SellerAddress t = bq_Address q));
               qry = (Where cond)\<lparr> q_order := (\<lambda>x y. tr_CreatedAt x \<ge> tr_CreatedAt y) \<rparr>
           in case Paginate (d_trades drv) path qry (fst (book_page q)) (snd (book_page q)) (t_trades db) of
                Inl _ \<Rightarrow> Fail StatusInternalServerError ''Failed to fetch trades''
              | Inr res \<Rightarrow> Reply StatusOK res))"

definition GetPriceChart :: "p2p_drv \<Rightarrow> string \<Rightarrow> (string \<Rightarrow> nat option) \<Rightarrow> p2p_db \<Rightarrow> PricePoint list response" where
  "GetPriceChart drv assetIDStr column_value db =
     (if assetIDStr = '''' then Fail StatusBadRequest ''asset_id is required''
      else case g_find (d_points drv)
                  (\<lparr> q_where = (\<lambda>p. column_value assetIDStr = Some (pt_AssetID p)),
                     q_order = (\<lambda>x y. pt_Timestamp x \<ge> pt_Timestamp y), q_offset = 0, q_limit = Some 100 \<rparr>)
                  (t_points db) of
             Inl _ \<Rightarrow> Fail StatusInternalServerError ''Failed to fetch price data''
           | Inr ps \<Rightarrow> Reply StatusOK ps)"


subsection \<open>What the binding tags and the drivers guarantee\<close>

definition bound_order :: "createOrderRequest \<Rightarrow> bool" where
  "bound_order req \<longleftrightarrow> 0 < co_AssetID req \<and> 0 < co_Price req \<and> 0 < co_Quantity req \<and> in_i64 (co_Quantity req)"

abbreviation orders_ok :: "p2p_drv \<Rightarrow> bool" where
  "orders_ok drv \<equiv> gorm_ok or_ID (\<lambda>k. or_ID_update (\<lambda>_. k)) (d_orders drv)"

abbreviation trades_ok :: "p2p_drv \<Rightarrow> bool" where
  "trades_ok drv \<equiv> gorm_ok tr_ID (\<lambda>k. tr_ID_update (\<lambda>_. k)) (d_trades drv)"

definition p2p_drv_ok :: "p2p_drv \<Rightarrow> bool" where
  "p2p_drv_ok drv \<longleftrightarrow> orders_ok drv \<and> trades_ok drv \<and>
     gorm_ok pt_ID (\<lambda>k. pt_ID_update (\<lambda>_. k)) (d_points drv)"

definition never_fails :: "'r gorm \<Rightarrow> bool" where
  "never_fails g \<longleftrightarrow> (\<forall>q rows e. g_find g q rows \<noteq> Inl e) \<and> (\<forall>r rows e. g_create g r rows \<noteq> Inl e) \<and>
     (\<forall>r rows e. g_save g r rows \<noteq> Inl e)"

definition p2p_reliable :: "p2p_drv \<Rightarrow> bool" where
  "p2p_reliable drv \<longleftrightarrow> never_fails (d_orders drv) \<and> never_fails (d_trades drv) \<and> never_fails (d_points drv) \<and>
     (\<forall>i. d_match drv i = tx_fine)"

definition mem_p2p :: p2p_drv where
  "mem_p2p = \<lparr> d_assets = mem_refs, d_orders = mem_gorm or_ID (\<lambda>k. or_ID_update (\<lambda>_. k)),
     d_trades = mem_gorm tr_ID (\<lambda>k. tr_ID_update (\<lambda>_. k)), d_points = mem_gorm pt_ID (\<lambda>k. pt_ID_update (\<lambda>_. k)),
     d_match = (\<lambda>_. tx_fine) \<rparr>"

lemma mem_p2p_ok: "p2p_drv_ok mem_p2p"
  by (simp add: p2p_drv_ok_def mem_p2p_def mem_gorm_ok)

lemma mem_p2p_reliable: "p2p_reliable mem_p2p"
  by (simp add: p2p_reliable_def mem_p2p_def never_fails_def mem_gorm_def Let_def)

subsection \<open>Invariant\<close>

text \<open>The columns of an order that never change, the quantity traded for an order, and what holds of every order and
  every trade.\<close>

definition or_core :: "P2POrder \<Rightarrow> nat \<times> nat \<times> string \<times> OrderSide \<times> int \<times> int" where
  "or_core x = (or_ID x, or_AssetID x, or_OwnerAddress x, or_Side x, or_Price x, or_Quantity x)"

definition trade_of :: "nat \<Rightarrow> P2PTrade \<Rightarrow> bool" where
  "trade_of i t \<longleftrightarrow> tr_BuyOrderID t = i \<or> tr_SellOrderID t = i"

definition traded :: "nat \<Rightarrow> P2PTrade list \<Rightarrow> int" where
  "traded i ts = sum_list (map tr_Quantity (filter (trade_of i) ts))"

definition order_wf :: "P2PTrade list \<Rightarrow> P2POrder \<Rightarrow> bool" where
  "order_wf ts x \<longleftrightarrow> 0 \<le> traded (or_ID x) ts \<and> traded (or_ID x) ts \<le> or_FilledQuantity x \<and>
     or_FilledQuantity x \<le> or_Quantity x \<and> 0 < or_Quantity x \<and> in_i64 (or_Quantity x) \<and>
     (or_Status x = OrderStatusFilled \<longleftrightarrow> or_FilledQuantity x = or_Quantity x)"

definition trade_wf :: "P2POrder list \<Rightarrow> P2PTrade \<Rightarrow> bool" where
  "trade_wf os t \<longleftrightarrow> 0 < tr_Quantity t \<and>
     (\<exists>b\<in>set os. \<exists>s\<in>set os. or_ID b = tr_BuyOrderID t \<and> or_ID s = tr_SellOrderID t \<and>
        or_Side b = OrderSideBuy \<and> or_Side s = OrderSideSell \<and> or_AssetID b = tr_AssetID t \<and> or_AssetID s = tr_AssetID t \<and>
        or_OwnerAddress b = tr_BuyerAddress t \<and> or_OwnerAddress s = tr_SellerAddress t \<and>
        or_Price s \<le> tr_Price t \<and> tr_Price t \<le> or_Price b)"

definition p2p_inv :: "p2p_db \<Rightarrow> bool" where
  "p2p_inv db \<longleftrightarrow> distinct (map or_ID (t_orders db)) \<and> (\<forall>x\<in>set (t_orders db). order_wf (t_trades db) x) \<and>
     (\<forall>t\<in>set (t_trades db). trade_wf (t_orders db) t)"

text \<open>With a database that does not fail: every filled unit is a recorded trade, and the book is not crossed.\<close>

definition fills_exact :: "p2p_db \<Rightarrow> bool" where
  "fills_exact db \<longleftrightarrow> (\<forall>x\<in>set (t_orders db). traded (or_ID x) (t_trades db) = or_FilledQuantity x)"

definition uncrossed :: "P2POrder list \<Rightarrow> bool" where
  "uncrossed os \<longleftrightarrow> (\<forall>b\<in>set os. \<forall>s\<in>set os. live b \<longrightarrow> live s \<longrightarrow> or_Side b = OrderSideBuy \<longrightarrow>
     or_Side s = OrderSideSell \<longrightarrow> or_AssetID b = or_AssetID s \<longrightarrow> or_Price b < or_Price s)"

lemma or_core_eqD:
  assumes "or_core x = or_core y"
  shows "or_ID x = or_ID y" "or_AssetID x = or_AssetID y" "or_OwnerAddress x = or_OwnerAddress y" "or_Side x = or_Side y"
    "or_Price x = or_Price y" "or_Quantity x = or_Quantity y"
  using assms by (simp_all add: or_core_def)

lemma trade_wf_core:
  assumes "trade_wf os t" "or_core ` set os \<subseteq> or_core ` set os'"
  shows "trade_wf os' t"
proof -
  obtain b s where bs: "b \<in> set os" "s \<in> set os" "or_ID b = tr_BuyOrderID t" "or_ID s = tr_SellOrderID t"
     "or_Side b = OrderSideBuy" "or_Side s = OrderSideSell" "or_AssetID b = tr_AssetID t" "or_AssetID s = tr_AssetID t"
     "or_OwnerAddress b = tr_BuyerAddress t" "or_OwnerAddress s = tr_SellerAddress t"
     "or_Price s \<le> tr_Price t" "tr_Price t \<le> or_Price b" "0 < tr_Quantity t"
    using assms(1) by (auto simp: trade_wf_def)
  obtain b' s' where bs': "b' \<in> set os'" "or_core b' = or_core b" "s' \<in> set os'" "or_core s' = or_core s"
    using subsetD[OF assms(2) imageI[OF bs(1)]] subsetD[OF assms(2) imageI[OF bs(2)]] by (auto elim!: imageE)
  show ?thesis unfolding trade_wf_def
    by (intro conjI bexI[OF _ bs'(1)] bexI[OF _ bs'(3)])
       (simp_all add: bs(3-) or_core_eqD[OF bs'(2)] or_core_eqD[OF bs'(4)])
qed

lemma traded_append [simp]: "traded i (ts @ us) = traded i ts + traded i us"
  by (simp add: traded_def)

lemma traded_single [simp]: "traded i [t] = (if trade_of i t then tr_Quantity t else 0)"
  by (simp add: traded_def)

lemma traded_nil [simp]: "traded i [] = 0"
  by (simp add: traded_def)

lemma traded_fresh:
  assumes "\<forall>t\<in>set ts. trade_wf os t" "i \<notin> or_ID ` set os"
  shows "traded i ts = 0"
proof -
  have "\<not> trade_of i t" if "t \<in> set ts" for t
    using assms that unfolding trade_wf_def trade_of_def by (metis imageI)
  then show ?thesis by (simp add: traded_def)
qed

lemma apply_fill_simps [simp]:
  "or_core (apply_fill q x) = or_core x" "or_ID (apply_fill q x) = or_ID x" "or_Quantity (apply_fill q x) = or_Quantity x"
  "or_Side (apply_fill q x) = or_Side x" "or_AssetID (apply_fill q x) = or_AssetID x" "or_Price (apply_fill q x) = or_Price x"
  "or_FilledQuantity (apply_fill q x) = add64 (or_FilledQuantity x) q"
  by (simp_all add: apply_fill_def or_core_def Let_def)

lemma trade_of_make [simp]:
  "trade_of i ((make_trade order counter q)\<lparr> tr_CreatedAt := now \<rparr>\<lparr> tr_ID := k \<rparr>) \<longleftrightarrow> i = or_ID order \<or> i = or_ID counter"
  by (auto simp: trade_of_def make_trade_def Let_def)

lemma make_trade_simps [simp]:
  "tr_Quantity (make_trade order counter q) = q" "tr_Price (make_trade order counter q) = or_Price counter"
  by (simp_all add: make_trade_def Let_def)


subsection \<open>One match\<close>

text \<open>What the loop knows of the order being matched and of the counter orders it has still to visit.\<close>

definition taker_ok :: "P2POrder \<Rightarrow> int \<Rightarrow> p2p_db \<Rightarrow> bool" where
  "taker_ok order remaining db \<longleftrightarrow> or_core order \<in> or_core ` set (t_orders db) \<and>
     traded (or_ID order) (t_trades db) \<le> or_FilledQuantity order \<and>
     or_FilledQuantity order + remaining \<le> or_Quantity order \<and> 0 \<le> remaining"

definition counters_ok :: "P2POrder \<Rightarrow> P2POrder list \<Rightarrow> p2p_db \<Rightarrow> bool" where
  "counters_ok order cs db \<longleftrightarrow> distinct (map or_ID cs) \<and> (\<forall>c\<in>set cs. c \<in> set (t_orders db) \<and> counter_cond order c)"

definition fill_orders :: "int \<Rightarrow> P2POrder \<Rightarrow> P2POrder \<Rightarrow> P2POrder list \<Rightarrow> P2POrder list" where
  "fill_orders q order counter os = put_row or_ID (apply_fill q counter) (put_row or_ID (apply_fill q order) os)"

lemma in_i64_le: "0 \<le> x \<Longrightarrow> in_i64 u \<Longrightarrow> x \<le> u \<Longrightarrow> in_i64 x"
  by (simp add: in_i64_def)

lemma p2p_invD:
  assumes "p2p_inv db" "x \<in> set (t_orders db)"
  shows "0 \<le> traded (or_ID x) (t_trades db)" "traded (or_ID x) (t_trades db) \<le> or_FilledQuantity x"
    "or_FilledQuantity x \<le> or_Quantity x" "0 < or_Quantity x" "in_i64 (or_Quantity x)"
    "or_Status x = OrderStatusFilled \<longleftrightarrow> or_FilledQuantity x = or_Quantity x"
  using assms by (simp_all add: p2p_inv_def order_wf_def)

lemma taker_okE:
  assumes "taker_ok order remaining db" "p2p_inv db"
  obtains x where "x \<in> set (t_orders db)" "or_core x = or_core order" "0 \<le> or_FilledQuantity order"
    "in_i64 (or_Quantity order)" "0 < or_Quantity order"
proof -
  from assms(1) obtain x where x: "x \<in> set (t_orders db)" "or_core x = or_core order"
    by (auto simp: taker_ok_def elim!: imageE)
  have "0 \<le> or_FilledQuantity order"
    using p2p_invD(1)[OF assms(2) x(1)] or_core_eqD(1)[OF x(2)] assms(1) by (simp add: taker_ok_def)
  then show ?thesis using that x p2p_invD(4,5)[OF assms(2) x(1)] or_core_eqD(6)[OF x(2)] by simp
qed

lemma fill_qty_bounds:
  assumes "p2p_inv db" "c \<in> set (t_orders db)" "live c" "0 < remaining"
  shows "0 < fill_qty remaining c" "fill_qty remaining c \<le> remaining"
    "or_FilledQuantity c + fill_qty remaining c \<le> or_Quantity c"
    "fill_qty remaining c = remaining \<or> or_FilledQuantity c + fill_qty remaining c = or_Quantity c"
proof -
  note wf = p2p_invD[OF assms(1,2)]
  have "or_Status c \<noteq> OrderStatusFilled" using assms(3) by (auto simp: live_def)
  then have lt: "or_FilledQuantity c < or_Quantity c" using wf by linarith
  have "in_i64 (or_Quantity c - or_FilledQuantity c)" using lt wf by (simp add: in_i64_def)
  then have e: "sub64 (or_Quantity c) (or_FilledQuantity c) = or_Quantity c - or_FilledQuantity c" by (rule sub64_exact)
  show "0 < fill_qty remaining c" "fill_qty remaining c \<le> remaining"
    "or_FilledQuantity c + fill_qty remaining c \<le> or_Quantity c"
    "fill_qty remaining c = remaining \<or> or_FilledQuantity c + fill_qty remaining c = or_Quantity c"
    unfolding fill_qty_def Let_def e using lt assms(4) by simp_all
qed

lemma fill_txD:
  assumes drv: "p2p_drv_ok drv" and tx: "snd (fill_tx drv now order counter q db) = Inr (u, db')"
    and x: "x \<in> set (t_orders db)" "or_core x = or_core order" and c: "counter \<in> set (t_orders db)"
  obtains k where "t_trades db' = t_trades db @ [(make_trade order counter q)\<lparr> tr_CreatedAt := now \<rparr>\<lparr> tr_ID := k \<rparr>]"
    "t_orders db' = fill_orders q order counter (t_orders db)" "t_assets db' = t_assets db"
    "fst (fst (fill_tx drv now order counter q db)) = apply_fill q order"
proof -
  obtain t ts os os' p ps where tr: "g_create (d_trades drv) ((make_trade order counter q)\<lparr> tr_CreatedAt := now \<rparr>) (t_trades db) = Inr (t, ts)"
    and s1: "g_save (d_orders drv) (apply_fill q order) (t_orders db) = Inr os"
    and s2: "g_save (d_orders drv) (apply_fill q counter) os = Inr os'"
    and db': "db' = db\<lparr> t_orders := os', t_trades := ts, t_points := ps \<rparr>"
    using tx by (auto simp: fill_tx_def and_then_def Let_def split: sum.splits prod.splits)
  have ok: "orders_ok drv" "trades_ok drv" using drv by (simp_all add: p2p_drv_ok_def)
  have os: "os = put_row or_ID (apply_fill q order) (t_orders db)"
    by (rule gorm_save[OF ok(1) s1 x(1)]) (simp add: or_core_eqD(1)[OF x(2)])
  have "or_ID ` set os = or_ID ` set (t_orders db)" unfolding os by (metis list.set_map map_key_put_row)
  then obtain y where y: "y \<in> set os" "or_ID y = or_ID counter" using c by (metis imageE imageI)
  have os': "os' = put_row or_ID (apply_fill q counter) os" by (rule gorm_save[OF ok(1) s2 y(1)]) (simp add: y(2))
  obtain k where k: "t = (make_trade order counter q)\<lparr> tr_CreatedAt := now \<rparr>\<lparr> tr_ID := k \<rparr>" "ts = t_trades db @ [t]"
    by (rule gorm_createD[OF ok(2) tr]) simp
  show ?thesis
    by (rule that[of k]) (simp_all add: db' k os os' fill_orders_def fill_tx_def tr Let_def)
qed

lemma fill_orders_map_core:
  assumes "distinct (map or_ID os)" "x \<in> set os" "or_core x = or_core order" "counter \<in> set os"
  shows "map or_core (fill_orders q order counter os) = map or_core os"
proof -
  have same: "or_core y = or_core z" if "or_ID y = or_ID z" "y \<in> set os" "z \<in> set os" for y z
    using distinct_key_unique[OF assms(1) that(2,3,1)] by simp
  have 1: "map or_core (put_row or_ID (apply_fill q order) os) = map or_core os"
    using same assms(2,3) or_core_eqD(1)[OF assms(3)] by (intro map_frame_put_row) (metis apply_fill_simps(1,2))
  have "or_core z = or_core (apply_fill q counter)"
    if "z \<in> set (put_row or_ID (apply_fill q order) os)" "or_ID z = or_ID (apply_fill q counter)" for z
  proof -
    have "or_core z \<in> or_core ` set os" using that(1) 1 by (metis imageI list.set_map)
    then obtain y where "y \<in> set os" "or_core z = or_core y" by blast
    then show ?thesis using same[of y counter] assms(4) that(2) or_core_eqD(1)[of z y] by simp
  qed
  then show ?thesis unfolding fill_orders_def using 1 by (subst map_frame_put_row) auto
qed

lemma in_fill_orders:
  assumes "z \<in> set (fill_orders q order counter os)"
  shows "z = apply_fill q order \<or> z = apply_fill q counter \<or> z \<in> set os \<and> or_ID z \<noteq> or_ID order \<and> or_ID z \<noteq> or_ID counter"
  using assms in_set_put_row[of z or_ID "apply_fill q counter" "put_row or_ID (apply_fill q order) os"]
    in_set_put_row[of z or_ID "apply_fill q order" os]
  unfolding fill_orders_def by auto

lemma fill_orders_other:
  "z \<in> set os \<Longrightarrow> or_ID z \<noteq> or_ID order \<Longrightarrow> or_ID z \<noteq> or_ID counter \<Longrightarrow> z \<in> set (fill_orders q order counter os)"
  unfolding fill_orders_def by (intro put_row_other) simp_all

lemma order_wf_fill:
  assumes "0 \<le> traded (or_ID x) ts" "traded (or_ID x) ts \<le> or_FilledQuantity x" "0 < q"
    "or_FilledQuantity x + q \<le> or_Quantity x" "in_i64 (or_Quantity x)" "trade_of (or_ID x) t" "tr_Quantity t = q"
  shows "order_wf (ts @ [t]) (apply_fill q x)"
proof -
  have e: "add64 (or_FilledQuantity x) q = or_FilledQuantity x + q"
    using assms by (intro add64_exact in_i64_le[OF _ assms(5)]) simp_all
  show ?thesis using assms by (auto simp: order_wf_def apply_fill_def Let_def e)
qed


lemma counter_cond_ids:
  assumes "p2p_inv db" "x \<in> set (t_orders db)" "or_core x = or_core order" "c \<in> set (t_orders db)" "counter_cond order c"
  shows "or_ID c \<noteq> or_ID order"
proof
  assume "or_ID c = or_ID order"
  then have "c = x" using assms or_core_eqD(1)[OF assms(3)] by (intro distinct_key_unique[of or_ID]) (simp_all add: p2p_inv_def)
  then have "or_Side c = or_Side order" using or_core_eqD(4)[OF assms(3)] by simp
  then show False using assms(5) by (cases "or_Side order") (simp_all add: counter_cond_def opposite_def)
qed

lemma trade_wf_make:
  assumes "x \<in> set os" "or_core x = or_core order" "c \<in> set os" "counter_cond order c" "0 < q"
  shows "trade_wf os ((make_trade order c q)\<lparr> tr_CreatedAt := now \<rparr>\<lparr> tr_ID := k \<rparr>)"
proof (cases "or_Side order")
  case OrderSideBuy
  show ?thesis unfolding trade_wf_def
    by (intro conjI bexI[OF _ assms(1)] bexI[OF _ assms(3)])
       (use assms(4,5) OrderSideBuy in \<open>simp_all add: make_trade_def Let_def or_core_eqD[OF assms(2)] counter_cond_def
          opposite_def price_ok_def\<close>)
next
  case OrderSideSell
  show ?thesis unfolding trade_wf_def
    by (intro conjI bexI[OF _ assms(3)] bexI[OF _ assms(1)])
       (use assms(4,5) OrderSideSell in \<open>simp_all add: make_trade_def Let_def or_core_eqD[OF assms(2)] counter_cond_def
          opposite_def price_ok_def\<close>)
qed

text \<open>A committed match keeps the invariant and what the loop knows.\<close>

lemma fill_step:
  assumes inv: "p2p_inv db" and tk: "taker_ok order remaining db" and pos: "0 < remaining"
    and cs: "counters_ok order (c # cs) db" and q: "q = fill_qty remaining c"
    and ts: "t_trades db' = t_trades db @ [(make_trade order c q)\<lparr> tr_CreatedAt := now \<rparr>\<lparr> tr_ID := k \<rparr>]"
    and os: "t_orders db' = fill_orders q order c (t_orders db)"
  shows "p2p_inv db'" "taker_ok (apply_fill q order) (remaining - q) db'" "counters_ok (apply_fill q order) cs db'"
proof -
  obtain x where x: "x \<in> set (t_orders db)" "or_core x = or_core order" "0 \<le> or_FilledQuantity order"
    "in_i64 (or_Quantity order)" "0 < or_Quantity order" by (rule taker_okE[OF tk inv])
  have c: "c \<in> set (t_orders db)" "counter_cond order c" using cs by (simp_all add: counters_ok_def)
  have lv: "live c" using c(2) by (simp add: counter_cond_def)
  note b = fill_qty_bounds[OF inv c(1) lv pos, folded q]
  have ne: "or_ID c \<noteq> or_ID order" by (rule counter_cond_ids[OF inv x(1,2) c])
  have dist: "distinct (map or_ID (t_orders db))" using inv by (simp add: p2p_inv_def)
  have core: "map or_core (t_orders db') = map or_core (t_orders db)"
    unfolding os by (rule fill_orders_map_core[OF dist x(1,2) c(1)])
  then have cset: "or_core ` set (t_orders db') = or_core ` set (t_orders db)" by (metis list.set_map)
  have ids: "map or_ID (t_orders db') = map or_ID (t_orders db)" by (simp add: os fill_orders_def)
  let ?t = "(make_trade order c q)\<lparr> tr_CreatedAt := now \<rparr>\<lparr> tr_ID := k \<rparr>"
  have tq: "tr_Quantity ?t = q" by simp
  have "traded (or_ID order) (t_trades db) \<le> or_FilledQuantity order" "or_FilledQuantity order + remaining \<le> or_Quantity order"
    using tk by (simp_all add: taker_ok_def)
  note tkf = this
  have t0: "0 \<le> traded (or_ID order) (t_trades db)" using p2p_invD(1)[OF inv x(1)] or_core_eqD(1)[OF x(2)] by simp
  have wt: "order_wf (t_trades db @ [?t]) (apply_fill q order)"
    using t0 tkf b x(4) by (intro order_wf_fill) simp_all
  have wc: "order_wf (t_trades db @ [?t]) (apply_fill q c)"
    using p2p_invD[OF inv c(1)] b by (intro order_wf_fill) simp_all
  have wo: "order_wf (t_trades db @ [?t]) z" if "z \<in> set (t_orders db)" "or_ID z \<noteq> or_ID order" "or_ID z \<noteq> or_ID c" for z
    using inv that by (simp add: p2p_inv_def order_wf_def)
  have "order_wf (t_trades db') z" if "z \<in> set (t_orders db')" for z
    using in_fill_orders[OF that[unfolded os]] wt wc wo unfolding ts by auto
  moreover have "trade_wf (t_orders db') t" if "t \<in> set (t_trades db')" for t
  proof (cases "t = ?t")
    case True
    then show ?thesis using trade_wf_make[OF x(1,2) c b(1)] cset by (metis order_refl trade_wf_core)
  next
    case False
    then have "trade_wf (t_orders db) t" using that inv unfolding ts by (auto simp: p2p_inv_def)
    then show ?thesis by (rule trade_wf_core) (simp add: cset)
  qed
  ultimately show "p2p_inv db'" using dist ids by (simp add: p2p_inv_def)
  have e: "add64 (or_FilledQuantity order) q = or_FilledQuantity order + q"
    using x(3,4) b tkf by (intro add64_exact in_i64_le[OF _ x(4)]) simp_all
  have "or_core order \<in> or_core ` set (t_orders db)" using tk by (simp add: taker_ok_def)
  then show "taker_ok (apply_fill q order) (remaining - q) db'"
    using tkf b ne unfolding taker_ok_def cset apply_fill_simps ts e by simp
  have "z \<in> set (t_orders db')" if "z \<in> set cs" for z
  proof -
    have "or_ID z \<noteq> or_ID c" using cs that unfolding counters_ok_def by (auto simp: image_iff)
    moreover have zin: "z \<in> set (t_orders db)" "counter_cond order z" using cs that by (simp_all add: counters_ok_def)
    moreover have "or_ID z \<noteq> or_ID order" by (rule counter_cond_ids[OF inv x(1,2) zin])
    ultimately show ?thesis unfolding os by (simp add: fill_orders_other)
  qed
  moreover have "counter_cond (apply_fill q order) z" if "counter_cond order z" for z
    using that by (simp add: counter_cond_def price_ok_def)
  ultimately show "counters_ok (apply_fill q order) cs db'" using cs by (simp add: counters_ok_def)
qed


subsection \<open>The matching loop\<close>

text \<open>One round: either the tables were rolled back, and the order in memory may be ahead of them, or the match was
  committed.\<close>

definition committed :: "P2POrder \<Rightarrow> P2POrder \<Rightarrow> int \<Rightarrow> p2p_db \<Rightarrow> P2POrder \<Rightarrow> p2p_db \<Rightarrow> bool" where
  "committed order c q db order' db' \<longleftrightarrow> order' = apply_fill q order \<and> t_orders db' = fill_orders q order c (t_orders db) \<and>
     (\<exists>now k. t_trades db' = t_trades db @ [(make_trade order c q)\<lparr> tr_CreatedAt := now \<rparr>\<lparr> tr_ID := k \<rparr>])"

lemma fill_tx_memory: "fst (fst (fill_tx drv now order c q db)) \<in> {order, apply_fill q order}"
  by (auto simp: fill_tx_def Let_def split: sum.split prod.split)

definition maker :: "OrderSide \<Rightarrow> P2PTrade \<Rightarrow> nat \<times> int" where
  "maker side t = (if side = OrderSideBuy then tr_SellOrderID t else tr_BuyOrderID t, tr_Price t)"

lemma maker_make_trade [simp]: "maker (or_Side order) (make_trade order c q) = (or_ID c, or_Price c)"
  by (simp add: maker_def make_trade_def Let_def)

lemma maker_update [simp]: "maker s (t\<lparr> tr_CreatedAt := now \<rparr>) = maker s t" "maker s (t\<lparr> tr_ID := k \<rparr>) = maker s t"
  by (simp_all add: maker_def)

lemma fill_tx_trade:
  assumes "trades_ok drv"
  shows "maker (or_Side order) (snd (fst (fill_tx drv now order c q db))) = (or_ID c, or_Price c)"
proof (cases "g_create (d_trades drv) ((make_trade order c q)\<lparr> tr_CreatedAt := now \<rparr>) (t_trades db)")
  case (Inl e)
  then show ?thesis by (simp add: fill_tx_def)
next
  case (Inr y)
  obtain t ts where y: "y = (t, ts)" by (cases y)
  obtain k where "t = (make_trade order c q)\<lparr> tr_CreatedAt := now \<rparr>\<lparr> tr_ID := k \<rparr>"
    by (rule gorm_createD[OF assms Inr[unfolded y]]) simp
  then show ?thesis using Inr y by (simp add: fill_tx_def Let_def)
qed

lemma fill_tx_reliable:
  assumes "p2p_reliable drv"
  obtains db' where "snd (fill_tx drv now order c q db) = Inr ((), db')"
proof -
  have "\<not> (\<exists>e. snd (fill_tx drv now order c q db) = Inl e)"
    using assms by (auto simp: p2p_reliable_def never_fails_def fill_tx_def and_then_def Let_def split: sum.splits prod.splits)
  then show ?thesis using that by (cases "snd (fill_tx drv now order c q db)") auto
qed

lemma match_round:
  assumes drv: "p2p_drv_ok drv" and inv: "p2p_inv db" and tk: "taker_ok order remaining db" and pos: "0 < remaining"
    and cs: "counters_ok order (c # cs) db" and q: "q = fill_qty remaining c"
  obtains order' trade db' where
    "match_loop drv clk i remaining order (c # cs) db =
       (case match_loop drv clk (Suc i) (remaining - q) order' cs db' of (x, trades, db'') \<Rightarrow> (x, trade # trades, db''))"
    "p2p_inv db'" "taker_ok order' (remaining - q) db'" "counters_ok order' cs db'"
    "maker (or_Side order) trade = (or_ID c, or_Price c)" "or_Side order' = or_Side order" "p2p_reliable drv \<longrightarrow> committed order c q db order' db'"
proof -
  let ?f = "fill_tx drv (clk i) order c q"
  let ?m = "if tx_begin (d_match drv i) = None then fst (?f db) else (order, make_trade order c q)"
  let ?db = "snd (transaction (d_match drv i) (\<lambda>db. snd (?f db)) db)"
  obtain x where x: "x \<in> set (t_orders db)" "or_core x = or_core order" "0 \<le> or_FilledQuantity order"
    "in_i64 (or_Quantity order)" "0 < or_Quantity order" by (rule taker_okE[OF tk inv])
  have c: "c \<in> set (t_orders db)" "live c" using cs by (simp_all add: counters_ok_def counter_cond_def)
  note b = fill_qty_bounds[OF inv c pos, folded q]
  have tkf: "traded (or_ID order) (t_trades db) \<le> or_FilledQuantity order" "or_FilledQuantity order + remaining \<le> or_Quantity order"
    "or_core order \<in> or_core ` set (t_orders db)"
    using tk by (simp_all add: taker_ok_def)
  have e: "add64 (or_FilledQuantity order) q = or_FilledQuantity order + q"
    using x(3,4) b tkf by (intro add64_exact in_i64_le[OF _ x(4)]) simp_all
  have "sub64 remaining q = remaining - q"
    using b tkf x(3) by (intro sub64_exact in_i64_le[OF _ x(4)]) simp_all
  then have loop: "match_loop drv clk i remaining order (c # cs) db =
      (case match_loop drv clk (Suc i) (remaining - q) (fst ?m) cs ?db of (x, trades, db'') \<Rightarrow> (x, snd ?m # trades, db''))"
    using pos by (simp add: q[symmetric] Let_def case_prod_beta)
  have price: "maker (or_Side order) (snd ?m) = (or_ID c, or_Price c)" using drv by (simp add: fill_tx_trade p2p_drv_ok_def)
  have mem: "fst ?m = order \<or> fst ?m = apply_fill q order" using fill_tx_memory[of drv "clk i" order c q db] by auto
  then have side: "or_Side (fst ?m) = or_Side order" by auto
  show ?thesis
  proof (cases rule: transaction_cases[of "d_match drv i" "\<lambda>db. snd (?f db)" db, case_names failed commit])
    case (failed err)
    have "taker_ok (fst ?m) (remaining - q) db" "counters_ok (fst ?m) cs db"
      using mem tkf b e cs by (auto simp: taker_ok_def counters_ok_def counter_cond_def price_ok_def)
    moreover have "\<not> p2p_reliable drv"
    proof
      assume r: "p2p_reliable drv"
      obtain db' where "snd (?f db) = Inr ((), db')" by (rule fill_tx_reliable[OF r])
      then show False using failed r by (simp add: transaction_def p2p_reliable_def)
    qed
    ultimately show ?thesis using that[OF loop] inv price side failed by simp
  next
    case (commit u db')
    obtain k where k: "t_trades db' = t_trades db @ [(make_trade order c q)\<lparr> tr_CreatedAt := clk i \<rparr>\<lparr> tr_ID := k \<rparr>]"
      "t_orders db' = fill_orders q order c (t_orders db)" "fst (fst (?f db)) = apply_fill q order"
      by (rule fill_txD[OF drv commit(2) x(1,2) c(1)])
    have "tx_begin (d_match drv i) = None" using commit(1) by (auto simp: transaction_def split: option.splits)
    then have m: "fst ?m = apply_fill q order" using k(3) by simp
    then have com: "committed order c q db (fst ?m) db'" unfolding committed_def using k(1,2) by blast
    have "?db = db'" using commit(1) by simp
    then show ?thesis using that[OF loop] fill_step[OF inv tk pos cs q k(1,2)] price side com m by simp
  qed
qed

lemma match_loop_stop: "remaining \<le> 0 \<Longrightarrow> match_loop drv clk i remaining order cs db = (order, [], db)"
  by (cases cs) simp_all

lemma match_loop_inv:
  assumes "p2p_drv_ok drv" "p2p_inv db" "taker_ok order remaining db" "counters_ok order cs db"
  shows "p2p_inv (snd (snd (match_loop drv clk i remaining order cs db))) \<and>
    (\<exists>n. map (maker (or_Side order)) (fst (snd (match_loop drv clk i remaining order cs db))) = take n (map (\<lambda>c. (or_ID c, or_Price c)) cs))"
  using assms(2-)
proof (induction cs arbitrary: db order remaining i)
  case Nil
  then show ?case by simp
next
  case (Cons c cs)
  show ?case
  proof (cases "0 < remaining")
    case False
    then show ?thesis using Cons.prems by (auto simp: match_loop_stop)
  next
    case True
    obtain order' trade db' where r: "match_loop drv clk i remaining order (c # cs) db =
       (case match_loop drv clk (Suc i) (remaining - fill_qty remaining c) order' cs db' of (x, trades, db'') \<Rightarrow> (x, trade # trades, db''))"
      "p2p_inv db'" "taker_ok order' (remaining - fill_qty remaining c) db'" "counters_ok order' cs db'"
      "maker (or_Side order) trade = (or_ID c, or_Price c)" "or_Side order' = or_Side order"
      by (rule match_round[OF assms(1) Cons.prems(1,2) True Cons.prems(3) refl])
    let ?rest = "match_loop drv clk (Suc i) (remaining - fill_qty remaining c) order' cs db'"
    have ih: "p2p_inv (snd (snd ?rest))" "\<exists>n. map (maker (or_Side order)) (fst (snd ?rest)) = take n (map (\<lambda>c. (or_ID c, or_Price c)) cs)"
      using Cons.IH[OF r(2-4)] r(6) by simp_all
    then obtain n where "map (maker (or_Side order)) (fst (snd ?rest)) = take n (map (\<lambda>c. (or_ID c, or_Price c)) cs)" by blast
    then have "map (maker (or_Side order)) (trade # fst (snd ?rest)) = take (Suc n) (map (\<lambda>c. (or_ID c, or_Price c)) (c # cs))" using r(5) by simp
    then show ?thesis unfolding r(1) using ih(1) by (auto simp: case_prod_beta simp del: take_Suc_Cons)
  qed
qed


subsection \<open>Matching on a database that does not fail\<close>

lemma add_filled:
  assumes "p2p_inv db" "y \<in> set (t_orders db)" "0 < q" "or_FilledQuantity y + q \<le> or_Quantity y"
  shows "add64 (or_FilledQuantity y) q = or_FilledQuantity y + q"
  using assms(3,4) p2p_invD[OF assms(1,2)] by (intro add64_exact in_i64_le[OF _ p2p_invD(5)[OF assms(1,2)]]) simp_all

lemma committed_exact:
  assumes com: "committed order c q db order' db'" and ex: "fills_exact db" and mem: "order \<in> set (t_orders db)"
    and c: "c \<in> set (t_orders db)" and inv: "p2p_inv db" and b: "0 < q" "or_FilledQuantity order + q \<le> or_Quantity order"
      "or_FilledQuantity c + q \<le> or_Quantity c"
  shows "fills_exact db'"
proof -
  obtain now k where ts: "t_trades db' = t_trades db @ [(make_trade order c q)\<lparr> tr_CreatedAt := now \<rparr>\<lparr> tr_ID := k \<rparr>]"
    and os: "t_orders db' = fill_orders q order c (t_orders db)" using com by (auto simp: committed_def)
  have exact: "traded (or_ID y) (t_trades db) = or_FilledQuantity y" if "y \<in> set (t_orders db)" for y
    using ex that by (simp add: fills_exact_def)
  have add: "add64 (or_FilledQuantity y) q = or_FilledQuantity y + q"
    if "y \<in> set (t_orders db)" "or_FilledQuantity y + q \<le> or_Quantity y" for y
    using add_filled[OF inv that(1) b(1) that(2)] .
  have "traded (or_ID z) (t_trades db') = or_FilledQuantity z" if zin: "z \<in> set (t_orders db')" for z
  proof -
    consider "z = apply_fill q order" | "z = apply_fill q c"
      | "z \<in> set (t_orders db)" "or_ID z \<noteq> or_ID order" "or_ID z \<noteq> or_ID c"
      using in_fill_orders[OF zin[unfolded os]] by blast
    then show ?thesis
      by cases (simp_all add: ts exact[OF mem] exact[OF c] exact add[OF mem b(2)] add[OF c b(3)])
  qed
  then show ?thesis by (simp add: fills_exact_def)
qed

lemma committed_memory:
  assumes "committed order c q db order' db'" "order \<in> set (t_orders db)" "or_ID c \<noteq> or_ID order" "c \<in> set (t_orders db)"
  shows "order' \<in> set (t_orders db')" "apply_fill q c \<in> set (t_orders db')"
proof -
  have 1: "apply_fill q order \<in> set (put_row or_ID (apply_fill q order) (t_orders db))"
    using assms(2) by (rule put_row_mem) simp
  have 2: "c \<in> set (put_row or_ID (apply_fill q order) (t_orders db))" using assms(3,4) by (intro put_row_other) simp_all
  show "order' \<in> set (t_orders db')" using assms(1,3) 1 unfolding committed_def fill_orders_def
    by (auto intro: put_row_other)
  show "apply_fill q c \<in> set (t_orders db')" using assms(1) 2 unfolding committed_def fill_orders_def
    by (auto intro: put_row_mem)
qed

text \<open>How the order table may change while an order is matched: no order comes back to life, and orders that are
  neither the taker nor a visited counter order are untouched.\<close>

definition fades :: "nat set \<Rightarrow> P2POrder list \<Rightarrow> P2POrder list \<Rightarrow> bool" where
  "fades I os os' \<longleftrightarrow> (\<forall>z\<in>set os'. \<exists>y\<in>set os. or_core z = or_core y \<and> (live z \<longrightarrow> live y)) \<and>
     (\<forall>y\<in>set os. or_ID y \<notin> I \<longrightarrow> y \<in> set os')"

lemma fades_refl [simp]: "fades I os os"
  by (auto simp: fades_def)

lemma fades_trans: "fades I a b \<Longrightarrow> fades J b c \<Longrightarrow> fades (I \<union> J) a c"
  unfolding fades_def by (metis UnI1 UnI2)

lemma committed_fades:
  assumes "committed order c q db order' db'" "order \<in> set (t_orders db)" "live order" "c \<in> set (t_orders db)" "live c"
  shows "fades {or_ID order, or_ID c} (t_orders db) (t_orders db')"
  unfolding fades_def
proof (intro conjI ballI impI)
  fix z assume "z \<in> set (t_orders db')"
  then consider "z = apply_fill q order" | "z = apply_fill q c" | "z \<in> set (t_orders db)"
    using assms(1) in_fill_orders[of z q order c "t_orders db"] by (auto simp: committed_def)
  then show "\<exists>y\<in>set (t_orders db). or_core z = or_core y \<and> (live z \<longrightarrow> live y)"
    using assms(2-) by cases (auto intro: bexI[of _ order] bexI[of _ c])
next
  fix y assume "y \<in> set (t_orders db)" "or_ID y \<notin> {or_ID order, or_ID c}"
  then show "y \<in> set (t_orders db')" using assms(1) by (auto simp: committed_def intro: fill_orders_other)
qed

definition matched :: "P2POrder \<Rightarrow> P2POrder list \<Rightarrow> p2p_db \<Rightarrow> P2POrder \<times> P2PTrade list \<times> p2p_db \<Rightarrow> bool" where
  "matched order cs db res \<longleftrightarrow> (case res of (x, trades, db') \<Rightarrow>
     p2p_inv db' \<and> fills_exact db' \<and> x \<in> set (t_orders db') \<and> or_core x = or_core order \<and>
     fades (insert (or_ID order) (or_ID ` set cs)) (t_orders db) (t_orders db') \<and>
     (live x \<longrightarrow> (\<forall>c\<in>set cs. \<forall>z\<in>set (t_orders db'). or_ID z = or_ID c \<longrightarrow> \<not> live z)))"

lemma not_live_filled:
  "p2p_inv db \<Longrightarrow> x \<in> set (t_orders db) \<Longrightarrow> or_FilledQuantity x = or_Quantity x \<Longrightarrow> \<not> live x"
  using p2p_invD(6)[of db x] by (auto simp: live_def)

lemma match_loop_reliable:
  assumes "p2p_drv_ok drv" "p2p_reliable drv" "p2p_inv db" "taker_ok order remaining db" "counters_ok order cs db"
    "fills_exact db" "order \<in> set (t_orders db)" "remaining = or_Quantity order - or_FilledQuantity order"
    "0 < remaining \<longrightarrow> live order"
  shows "matched order cs db (match_loop drv clk i remaining order cs db)"
  using assms(3-)
proof (induction cs arbitrary: db order remaining i)
  case Nil
  then show ?case by (simp add: matched_def)
next
  case (Cons c cs)
  show ?case
  proof (cases "0 < remaining")
    case False
    then have "\<not> live order" using Cons.prems by (intro not_live_filled[of db]) (simp_all add: taker_ok_def)
    then show ?thesis using Cons.prems False by (simp add: match_loop_stop matched_def)
  next
    case True
    define q where "q = fill_qty remaining c"
    have c: "c \<in> set (t_orders db)" "counter_cond order c" "live c" "or_ID c \<notin> or_ID ` set cs"
      using Cons.prems(3) by (auto simp: counters_ok_def counter_cond_def)
    note b = fill_qty_bounds[OF Cons.prems(1) c(1,3) True, folded q_def]
    have ne: "or_ID c \<noteq> or_ID order" by (rule counter_cond_ids[OF Cons.prems(1) Cons.prems(5) refl c(1,2)])
    obtain order' trade db' where r: "match_loop drv clk i remaining order (c # cs) db =
       (case match_loop drv clk (Suc i) (remaining - q) order' cs db' of (x, trades, db'') \<Rightarrow> (x, trade # trades, db''))"
      "p2p_inv db'" "taker_ok order' (remaining - q) db'" "counters_ok order' cs db'"
      and com: "p2p_reliable drv \<longrightarrow> committed order c q db order' db'"
      by (rule match_round[OF assms(1) Cons.prems(1,2) True Cons.prems(3) q_def])
    note com = com[rule_format, OF assms(2)]
    have o': "order' = apply_fill q order" using com by (simp add: committed_def)
    note mem = committed_memory[OF com Cons.prems(5) ne c(1)]
    have lv: "live order" using Cons.prems(7) True by simp
    have fits: "or_FilledQuantity order + q \<le> or_Quantity order" using b Cons.prems(6) by simp
    have e: "or_FilledQuantity order' = or_FilledQuantity order + q"
      using add_filled[OF Cons.prems(1,5) b(1) fits] by (simp add: o')
    have rem: "remaining - q = or_Quantity order' - or_FilledQuantity order'" using Cons.prems(6) e by (simp add: o')
    have lv': "0 < remaining - q \<longrightarrow> live order'" using rem unfolding o' by (auto simp: apply_fill_def live_def Let_def)
    have ex: "fills_exact db'" by (rule committed_exact[OF com Cons.prems(4,5) c(1) Cons.prems(1) b(1) fits b(3)])
    have ih: "matched order' cs db' (match_loop drv clk (Suc i) (remaining - q) order' cs db')"
      by (rule Cons.IH[OF r(2-4) ex mem(1) rem lv'])
    obtain x trades db'' where m: "match_loop drv clk (Suc i) (remaining - q) order' cs db' = (x, trades, db'')"
      by (metis prod_cases3)
    have ih': "p2p_inv db''" "fills_exact db''" "x \<in> set (t_orders db'')" "or_core x = or_core order"
      "fades (insert (or_ID order) (or_ID ` set cs)) (t_orders db') (t_orders db'')"
      "live x \<longrightarrow> (\<forall>c\<in>set cs. \<forall>z\<in>set (t_orders db''). or_ID z = or_ID c \<longrightarrow> \<not> live z)"
      using ih[unfolded m] or_core_eqD(1)[of order' order] by (simp_all add: matched_def o')
    have fd: "fades (insert (or_ID order) (or_ID ` set (c # cs))) (t_orders db) (t_orders db'')"
      using fades_trans[OF committed_fades[OF com Cons.prems(5) lv c(1,3)] ih'(5)] by (simp add: insert_commute)
    have "\<not> live z" if "live x" "z \<in> set (t_orders db'')" "or_ID z = or_ID c" for z
    proof (cases "or_FilledQuantity c + q = or_Quantity c")
      case True
      have "apply_fill q c \<in> set (t_orders db'')" using ih'(5) mem(2) ne c(4) by (simp add: fades_def)
      then have "z = apply_fill q c" using ih'(1) that by (intro distinct_key_unique[of or_ID]) (simp_all add: p2p_inv_def)
      moreover have "add64 (or_FilledQuantity c) q = or_Quantity c"
        using True p2p_invD(5)[OF Cons.prems(1) c(1)] by (simp add: add64_exact)
      ultimately show ?thesis by (simp add: apply_fill_def live_def Let_def)
    next
      case False
      then have z: "remaining - q = 0" using b(4) by simp
      then have "x = order'" using m by (simp add: match_loop_stop)
      moreover have "\<not> live order'" using rem z by (intro not_live_filled[OF r(2) mem(1)]) simp
      ultimately show ?thesis using that(1) by simp
    qed
    then have "live x \<longrightarrow> (\<forall>d\<in>set (c # cs). \<forall>z\<in>set (t_orders db''). or_ID z = or_ID d \<longrightarrow> \<not> live z)"
      using ih'(6) by (metis set_ConsD)
    then show ?thesis unfolding matched_def r(1) m split using ih'(1-4) fd by blast
  qed
qed


subsection \<open>The handlers\<close>

lemma is_order_book: "is_order (book_order side)"
  by (cases "side = OrderSideSell") (auto simp: is_order_def book_order_def)

lemma counter_orders_listing:
  assumes "p2p_drv_ok drv"
  obtains "counter_orders drv order db = []"
  | "mset (counter_orders drv order db) = mset (filter (counter_cond order) (t_orders db))"
    "sorted_wrt (book_order (or_Side order)) (counter_orders drv order db)"
proof (cases "g_find (d_orders drv) ((Where (counter_cond order))\<lparr> q_order := book_order (or_Side order) \<rparr>) (t_orders db)")
  case (Inl e)
  then show ?thesis using that by (simp add: counter_orders_def)
next
  case (Inr cs)
  have "query_result ((Where (counter_cond order))\<lparr> q_order := book_order (or_Side order) \<rparr>) (t_orders db) cs"
    using assms by (intro gorm_find[OF _ _ Inr, of or_ID "\<lambda>k. or_ID_update (\<lambda>_. k)"]) (simp_all add: p2p_drv_ok_def is_order_book)
  then show ?thesis using that Inr by (auto simp: query_result_def counter_orders_def)
qed

lemma counters_ok_listing:
  assumes "p2p_drv_ok drv" "p2p_inv db"
  shows "counters_ok order (counter_orders drv order db) db"
proof (cases rule: counter_orders_listing[OF assms(1), of order db, case_names none some])
  case none
  then show ?thesis by (simp add: counters_ok_def)
next
  case some
  have "set (counter_orders drv order db) = set (filter (counter_cond order) (t_orders db))"
    using some(1) by (metis set_mset_mset)
  moreover have "distinct (map or_ID (counter_orders drv order db))"
    using assms(2) by (intro distinct_map_listing[OF some(1)]) (simp add: p2p_inv_def)
  ultimately show ?thesis by (auto simp: counters_ok_def)
qed

definition new_order :: "instant \<Rightarrow> createOrderRequest \<Rightarrow> nat \<Rightarrow> P2POrder" where
  "new_order now req k =
     \<lparr> or_ID = k, or_AssetID = co_AssetID req, or_OwnerAddress = co_OwnerAddress req,
       or_Side = co_Side req, or_Price = co_Price req, or_Quantity = co_Quantity req,
       or_FilledQuantity = 0, or_Status = OrderStatusOpen,
       or_ExpiresAt = (if co_ExpiresInSec req > 0 then Some (now + mul64 (co_ExpiresInSec req) Second) else None),
       or_CreatedAt = now \<rparr>"

lemma CreateOrder_cases:
  assumes "p2p_drv_ok drv"
  obtains "is_fail (fst (CreateOrder drv now clk body db))" "snd (CreateOrder drv now clk body db) = db"
  | req k where "body = Inr req" "k \<notin> or_ID ` set (t_orders db)"
    "CreateOrder drv now clk body db =
       (case matchOrder drv clk (new_order now req k) (db\<lparr> t_orders := t_orders db @ [new_order now req k] \<rparr>) of
          (x, trades, db') \<Rightarrow> (Reply StatusCreated (x, trades), db'))"
proof (cases "is_fail (fst (CreateOrder drv now clk body db)) \<and> snd (CreateOrder drv now clk body db) = db")
  case True
  then show ?thesis using that(1) by simp
next
  case False
  then obtain req :: createOrderRequest and x os where b: "body = Inr req" "exists_ref (d_assets drv) (co_AssetID req) (t_assets db)"
    and cr: "g_create (d_orders drv) (new_order now req 0) (t_orders db) = Inr (x, os)"
    by (auto simp: CreateOrder_def new_order_def Let_def split: sum.splits if_splits prod.splits)
  obtain k where k: "k \<notin> or_ID ` set (t_orders db)" "x = (new_order now req 0)\<lparr> or_ID := k \<rparr>" "os = t_orders db @ [x]"
    using assms by (auto simp: p2p_drv_ok_def intro: gorm_createD[OF _ cr])
  have x: "x = new_order now req k" using k(2) by (simp add: new_order_def)
  show ?thesis using that(2)[OF b(1) k(1)] cr b k(3) unfolding x by (simp add: CreateOrder_def new_order_def)
qed

lemma new_order_inv:
  fixes now :: instant
  assumes inv: "p2p_inv db" and b: "bound_order req" and k: "k \<notin> or_ID ` set (t_orders db)"
  defines "db1 \<equiv> db\<lparr> t_orders := t_orders db @ [new_order now req k] \<rparr>"
  shows "p2p_inv db1" "taker_ok (new_order now req k) (co_Quantity req) db1"
    "fills_exact db \<Longrightarrow> fills_exact db1"
proof -
  have tr0: "traded k (t_trades db) = 0" using inv k by (intro traded_fresh) (simp_all add: p2p_inv_def)
  then have wf: "order_wf (t_trades db) (new_order now req k)" using b by (simp add: order_wf_def new_order_def bound_order_def)
  have "trade_wf (t_orders db1) t" if "t \<in> set (t_trades db)" for t
    by (rule trade_wf_core[of "t_orders db"]) (use inv that in \<open>auto simp: p2p_inv_def db1_def\<close>)
  then show "p2p_inv db1" using inv wf k by (simp add: p2p_inv_def db1_def) (simp add: new_order_def)
  show "taker_ok (new_order now req k) (co_Quantity req) db1"
    using tr0 b by (simp add: taker_ok_def db1_def) (simp add: new_order_def bound_order_def)
  show "fills_exact db \<Longrightarrow> fills_exact db1" using tr0 by (simp add: fills_exact_def db1_def) (simp add: new_order_def)
qed

lemma new_order_remaining:
  "bound_order req \<Longrightarrow> sub64 (or_Quantity (new_order now req k)) (or_FilledQuantity (new_order now req k)) = co_Quantity req"
  by (simp add: new_order_def bound_order_def sub64_exact)

lemma matchOrder_inv:
  fixes now :: instant
  assumes drv: "p2p_drv_ok drv" and inv: "p2p_inv db" and b: "bound_order req" and k: "k \<notin> or_ID ` set (t_orders db)"
  defines "db1 \<equiv> db\<lparr> t_orders := t_orders db @ [new_order now req k] \<rparr>"
  shows "p2p_inv (snd (snd (matchOrder drv clk (new_order now req k) db1)))"
    "\<exists>n. map (maker (co_Side req)) (fst (snd (matchOrder drv clk (new_order now req k) db1))) =
       take n (map (\<lambda>c. (or_ID c, or_Price c)) (counter_orders drv (new_order now req k) db1))"
  using match_loop_inv[OF drv new_order_inv(1,2)[OF inv b k] counters_ok_listing[OF drv new_order_inv(1)[OF inv b k]]]
  by (simp_all add: matchOrder_def db1_def new_order_remaining[OF b]) (simp add: new_order_def)

lemma CreateOrder_inv:
  assumes drv: "p2p_drv_ok drv" and inv: "p2p_inv db" and b: "\<And>req. body = Inr req \<Longrightarrow> bound_order req"
  shows "p2p_inv (snd (CreateOrder drv now clk body db))"
proof (cases rule: CreateOrder_cases[OF drv, of now clk body db, case_names kept created])
  case kept
  then show ?thesis using inv by simp
next
  case (created req k)
  show ?thesis using matchOrder_inv(1)[OF drv inv b[OF created(1)] created(2), of clk now]
    by (simp add: created(3) case_prod_beta)
qed

lemma CancelOrder_cases:
  assumes "p2p_drv_ok drv"
  obtains "is_fail (fst (CancelOrder drv uri db))" "snd (CancelOrder drv uri db) = db"
  | x where "x \<in> set (t_orders db)" "live x"
    "CancelOrder drv uri db = (Reply StatusOK (x\<lparr> or_Status := OrderStatusCancelled \<rparr>),
       db\<lparr> t_orders := put_row or_ID (x\<lparr> or_Status := OrderStatusCancelled \<rparr>) (t_orders db) \<rparr>)"
proof (cases "is_fail (fst (CancelOrder drv uri db)) \<and> snd (CancelOrder drv uri db) = db")
  case True
  then show ?thesis using that(1) by simp
next
  case False
  then obtain i x os where u: "uri = Inr i" and f: "g_first (d_orders drv) (\<lambda>x. or_ID x = i) (t_orders db) = Inr x"
    and st: "or_Status x \<noteq> OrderStatusFilled" "or_Status x \<noteq> OrderStatusCancelled"
    and sv: "g_save (d_orders drv) (x\<lparr> or_Status := OrderStatusCancelled \<rparr>) (t_orders db) = Inr os"
    by (auto simp: CancelOrder_def Let_def split: sum.splits if_splits)
  have ok: "orders_ok drv" using assms by (simp add: p2p_drv_ok_def)
  have x: "x \<in> set (t_orders db)" by (rule gorm_firstD(1)[OF ok f])
  have "os = put_row or_ID (x\<lparr> or_Status := OrderStatusCancelled \<rparr>) (t_orders db)"
    by (rule gorm_save[OF ok sv x]) simp
  moreover have "live x" using st by (cases "or_Status x") (simp_all add: live_def)
  ultimately show ?thesis using that(2)[OF x] u f st sv by (simp add: CancelOrder_def Let_def)
qed


lemma CancelOrder_inv:
  assumes drv: "p2p_drv_ok drv" and inv: "p2p_inv db"
  shows "p2p_inv (snd (CancelOrder drv uri db)) \<and> (fills_exact db \<longrightarrow> fills_exact (snd (CancelOrder drv uri db))) \<and>
    fades UNIV (t_orders db) (t_orders (snd (CancelOrder drv uri db)))"
proof (cases rule: CancelOrder_cases[OF drv, of uri db, case_names kept cancelled])
  case kept
  then show ?thesis using inv by simp
next
  case (cancelled x)
  let ?x = "x\<lparr> or_Status := OrderStatusCancelled \<rparr>"
  let ?os = "put_row or_ID ?x (t_orders db)"
  have uniq: "y = x" if "y \<in> set (t_orders db)" "or_ID y = or_ID x" for y
    using inv that cancelled(1) by (intro distinct_key_unique[of or_ID]) (simp_all add: p2p_inv_def)
  have core: "or_core ?x = or_core x" by (simp add: or_core_def)
  have "map or_core ?os = map or_core (t_orders db)"
    using uniq core by (intro map_frame_put_row) auto
  then have cset: "or_core ` set ?os = or_core ` set (t_orders db)" by (metis list.set_map)
  have nf: "or_FilledQuantity x \<noteq> or_Quantity x" using not_live_filled[OF inv cancelled(1)] cancelled(2) by blast
  have wfx: "order_wf (t_trades db) ?x" using p2p_invD[OF inv cancelled(1)] nf by (simp add: order_wf_def)
  have "order_wf (t_trades db) z" if "z \<in> set ?os" for z
    using in_set_put_row[OF that] wfx inv by (auto simp: p2p_inv_def)
  moreover have "trade_wf ?os t" if "t \<in> set (t_trades db)" for t
    by (rule trade_wf_core[of "t_orders db"]) (use inv that cset in \<open>auto simp: p2p_inv_def\<close>)
  ultimately have "p2p_inv (db\<lparr> t_orders := ?os \<rparr>)" using inv by (simp add: p2p_inv_def)
  moreover have "fills_exact (db\<lparr> t_orders := ?os \<rparr>)" if "fills_exact db"
    unfolding fills_exact_def
  proof
    fix z assume "z \<in> set (t_orders (db\<lparr> t_orders := ?os \<rparr>))"
    then consider "z = ?x" | "z \<in> set (t_orders db)" using in_set_put_row[of z or_ID ?x "t_orders db"] by auto
    then show "traded (or_ID z) (t_trades (db\<lparr> t_orders := ?os \<rparr>)) = or_FilledQuantity z"
      using that cancelled(1) by cases (simp_all add: fills_exact_def)
  qed
  moreover have "fades UNIV (t_orders db) ?os"
    using in_set_put_row[of _ or_ID ?x "t_orders db"] cancelled(1,2) core unfolding fades_def by (metis UNIV_I)
  ultimately show ?thesis unfolding cancelled(3) by simp
qed

text \<open>A crossed book is one with a live order and a live order it could be matched with.\<close>

lemma counter_cond_iff:
  "counter_cond a b \<longleftrightarrow> or_AssetID a = or_AssetID b \<and> live b \<and>
      (or_Side a = OrderSideBuy \<and> or_Side b = OrderSideSell \<and> \<not> or_Price a < or_Price b \<or>
       or_Side a = OrderSideSell \<and> or_Side b = OrderSideBuy \<and> \<not> or_Price b < or_Price a)"
  by (cases "or_Side a") (auto simp: counter_cond_def opposite_def price_ok_def)

lemma uncrossed_iff: "uncrossed os \<longleftrightarrow> (\<forall>a\<in>set os. \<forall>b\<in>set os. live a \<longrightarrow> \<not> counter_cond a b)"
proof
  show "uncrossed os \<Longrightarrow> \<forall>a\<in>set os. \<forall>b\<in>set os. live a \<longrightarrow> \<not> counter_cond a b"
    unfolding uncrossed_def counter_cond_iff by metis
  show "\<forall>a\<in>set os. \<forall>b\<in>set os. live a \<longrightarrow> \<not> counter_cond a b \<Longrightarrow> uncrossed os"
    unfolding uncrossed_def counter_cond_iff by blast
qed

lemma counter_cond_core:
  assumes "counter_cond a b" "or_core a = or_core a'" "or_core b = or_core b'" "live b'"
  shows "counter_cond a' b'"
  using assms(1,4) unfolding counter_cond_def price_ok_def or_core_eqD[OF assms(2)] or_core_eqD[OF assms(3)] by simp

lemma counter_cond_sym: "counter_cond a b \<Longrightarrow> live a \<Longrightarrow> counter_cond b a"
  by (cases "or_Side a") (auto simp: counter_cond_def opposite_def price_ok_def)

lemma fades_uncrossed:
  assumes "uncrossed os" "fades I os os'"
  shows "uncrossed os'"
  unfolding uncrossed_iff
proof (intro ballI impI notI)
  fix a b assume ab: "a \<in> set os'" "b \<in> set os'" "live a" "counter_cond a b"
  obtain a0 where a0: "a0 \<in> set os" "or_core a = or_core a0" "live a0" using assms(2) ab(1,3) unfolding fades_def by blast
  have "live b" using ab(4) by (simp add: counter_cond_def)
  then obtain b0 where b0: "b0 \<in> set os" "or_core b = or_core b0" "live b0" using assms(2) ab(2) unfolding fades_def by blast
  show False using counter_cond_core[OF ab(4) a0(2) b0(2,3)] assms(1) a0 b0 unfolding uncrossed_iff by blast
qed

lemma matched_uncrossed:
  assumes un: "uncrossed os" and db1: "t_orders db1 = os @ [order]" and m: "matched order cs db1 (x, trades, db')"
    and cs: "set cs = {c \<in> set (t_orders db1). counter_cond order c}" and fresh: "or_ID order \<notin> or_ID ` set os"
  shows "uncrossed (t_orders db')"
  unfolding uncrossed_iff
proof (intro ballI impI notI)
  have dist: "distinct (map or_ID (t_orders db'))" and x: "x \<in> set (t_orders db')" "or_core x = or_core order"
    and fd: "fades (insert (or_ID order) (or_ID ` set cs)) (t_orders db1) (t_orders db')"
    and dead: "live x \<Longrightarrow> c \<in> set cs \<Longrightarrow> z \<in> set (t_orders db') \<Longrightarrow> or_ID z = or_ID c \<Longrightarrow> \<not> live z" for c z
    using m by (simp_all add: matched_def p2p_inv_def)
  have origin: "\<exists>y\<in>set (t_orders db1). or_core z = or_core y \<and> live y" if "z \<in> set (t_orders db')" "live z" for z
    using fd that unfolding fades_def by blast
  have taker: "\<not> counter_cond a b" if tk: "a \<in> set (t_orders db')" "live a" "b \<in> set (t_orders db')" "or_ID a = or_ID order" for a b
  proof
    assume cc: "counter_cond a b"
    then have lb: "live b" by (simp add: counter_cond_def)
    have ax: "a = x" using tk(1,4) x or_core_eqD(1)[OF x(2)] by (intro distinct_key_unique[OF dist]) simp_all
    obtain y where y: "y \<in> set (t_orders db1)" "or_core b = or_core y" "live y" using origin[OF tk(3) lb] by blast
    have "y \<in> set cs" using y(1) counter_cond_core[OF cc _ y(2,3), of order] x(2) ax cs by simp
    then show False using dead[of y b] tk(2,3) ax lb or_core_eqD(1)[OF y(2)] by simp
  qed
  fix a b assume ab: "a \<in> set (t_orders db')" "b \<in> set (t_orders db')" "live a" "counter_cond a b"
  then have lb: "live b" by (simp add: counter_cond_def)
  have na: "or_ID a \<noteq> or_ID order" using taker[OF ab(1,3,2)] ab(4) by blast
  have nb: "or_ID b \<noteq> or_ID order" using taker[OF ab(2) lb ab(1)] counter_cond_sym[OF ab(4,3)] by blast
  obtain a0 where a0: "a0 \<in> set (t_orders db1)" "or_core a = or_core a0" "live a0" using origin[OF ab(1,3)] by blast
  obtain b0 where b0: "b0 \<in> set (t_orders db1)" "or_core b = or_core b0" "live b0" using origin[OF ab(2) lb] by blast
  have "a0 \<in> set os" "b0 \<in> set os"
    using a0 b0 na nb or_core_eqD(1)[OF a0(2)] or_core_eqD(1)[OF b0(2)] db1 by auto
  then show False using counter_cond_core[OF ab(4) a0(2) b0(2,3)] un a0(3) unfolding uncrossed_iff by blast
qed

lemma CreateOrder_book:
  assumes drv: "p2p_drv_ok drv" "p2p_reliable drv" and inv: "p2p_inv db" "fills_exact db" "uncrossed (t_orders db)"
    and b: "\<And>req. body = Inr req \<Longrightarrow> bound_order req"
  shows "fills_exact (snd (CreateOrder drv now clk body db))" "uncrossed (t_orders (snd (CreateOrder drv now clk body db)))"
proof -
  have "fills_exact (snd (CreateOrder drv now clk body db)) \<and> uncrossed (t_orders (snd (CreateOrder drv now clk body db)))"
  proof (cases rule: CreateOrder_cases[OF drv(1), of now clk body db, case_names kept created])
    case kept
    then show ?thesis using inv by simp
  next
    case (created req k)
    define order where "order = new_order now req k"
    define db1 where "db1 = db\<lparr> t_orders := t_orders db @ [order] \<rparr>"
    note bd = b[OF created(1)]
    note n = new_order_inv[OF inv(1) bd created(2), of now, folded order_def, folded db1_def]
    have cs: "counters_ok order (counter_orders drv order db1) db1" by (rule counters_ok_listing[OF drv(1) n(1)])
    have m: "matched order (counter_orders drv order db1) db1 (matchOrder drv clk order db1)"
      unfolding matchOrder_def order_def new_order_remaining[OF bd]
      by (rule match_loop_reliable[OF drv n(1,2)[unfolded order_def] cs[unfolded order_def] n(3)[OF inv(2)]])
         (simp_all add: db1_def order_def new_order_def live_def)
    obtain x trades db' where e: "matchOrder drv clk order db1 = (x, trades, db')" by (metis prod_cases3)
    have "mset (counter_orders drv order db1) = mset (filter (counter_cond order) (t_orders db1))"
    proof -
      have ok: "orders_ok drv" using drv(1) by (simp add: p2p_drv_ok_def)
      have "\<exists>cs. g_find (d_orders drv) ((Where (counter_cond order))\<lparr> q_order := book_order (or_Side order) \<rparr>) (t_orders db1) = Inr cs"
        using drv(2) unfolding p2p_reliable_def never_fails_def by (metis sum.exhaust)
      then obtain cs where f: "g_find (d_orders drv) ((Where (counter_cond order))\<lparr> q_order := book_order (or_Side order) \<rparr>) (t_orders db1) = Inr cs" ..
      have "query_result ((Where (counter_cond order))\<lparr> q_order := book_order (or_Side order) \<rparr>) (t_orders db1) cs"
        by (rule gorm_find[OF ok _ f]) (simp add: is_order_book)
      then show ?thesis using f by (auto simp: query_result_def counter_orders_def)
    qed
    then have cset: "set (counter_orders drv order db1) = {c \<in> set (t_orders db1). counter_cond order c}"
      by (metis set_mset_mset set_filter)
    have "uncrossed (t_orders db')"
      by (rule matched_uncrossed[OF inv(3) _ m[unfolded e] cset]) (use created(2) in \<open>simp_all add: db1_def order_def new_order_def\<close>)
    then show ?thesis using m unfolding created(3) order_def[symmetric] db1_def[symmetric] e by (simp add: matched_def)
  qed
  then show "fills_exact (snd (CreateOrder drv now clk body db))" "uncrossed (t_orders (snd (CreateOrder drv now clk body db)))"
    by simp_all
qed


subsection \<open>Sequences of requests\<close>

text \<open>A request to create an order carries the clock readings and the outcomes of its transactions.\<close>

datatype p2p_req =
  ReqOrder instant "nat \<Rightarrow> instant" "nat \<Rightarrow> tx_outcome" "string + createOrderRequest"
  | ReqCancel "string + nat"

fun p2p_handle :: "p2p_drv \<Rightarrow> p2p_req \<Rightarrow> p2p_db \<Rightarrow> unit response \<times> p2p_db" where
  "p2p_handle drv (ReqOrder now clk txs b) db = drop_body (CreateOrder (drv\<lparr> d_match := txs \<rparr>) now clk b db)"
| "p2p_handle drv (ReqCancel uri) db = drop_body (CancelOrder drv uri db)"

fun p2p_fits :: "p2p_req \<Rightarrow> p2p_db \<Rightarrow> bool" where
  "p2p_fits (ReqOrder now clk txs (Inr req)) db = bound_order req"
| "p2p_fits r db = True"

fun commits :: "p2p_req \<Rightarrow> p2p_db \<Rightarrow> bool" where
  "commits (ReqOrder now clk txs b) db = (txs = (\<lambda>_. tx_fine) \<and> p2p_fits (ReqOrder now clk txs b) db)"
| "commits r db = True"

lemma drv_match [simp]:
  "p2p_drv_ok (drv\<lparr> d_match := txs \<rparr>) = p2p_drv_ok drv"
  "p2p_reliable drv \<Longrightarrow> p2p_reliable (drv\<lparr> d_match := \<lambda>_. tx_fine \<rparr>)"
  by (simp_all add: p2p_drv_ok_def p2p_reliable_def)

lemma p2p_keeps:
  assumes "p2p_drv_ok drv" "p2p_inv db" "p2p_fits r db"
  shows "p2p_inv (snd (p2p_handle drv r db))"
proof (cases r)
  case (ReqOrder now clk txs b)
  have "bound_order req" if "b = Inr req" for req using assms(3) that ReqOrder by simp
  then show ?thesis using assms ReqOrder by (simp add: CreateOrder_inv)
next
  case (ReqCancel uri)
  then show ?thesis using assms CancelOrder_inv by simp
qed

lemma commits_fits: "commits r db \<Longrightarrow> p2p_fits r db"
  by (cases r) (auto split: sum.splits)

lemma book_keeps:
  assumes "p2p_drv_ok drv" "p2p_reliable drv" "p2p_inv db" "fills_exact db" "uncrossed (t_orders db)" "commits r db"
  shows "fills_exact (snd (p2p_handle drv r db))" "uncrossed (t_orders (snd (p2p_handle drv r db)))"
proof -
  have "fills_exact (snd (p2p_handle drv r db)) \<and> uncrossed (t_orders (snd (p2p_handle drv r db)))"
  proof (cases r)
    case (ReqOrder now clk txs b)
    have "bound_order req" if "b = Inr req" for req using commits_fits[OF assms(6)] that ReqOrder by simp
    then show ?thesis using assms ReqOrder by (simp add: CreateOrder_book)
  next
    case (ReqCancel uri)
    then show ?thesis using assms CancelOrder_inv[OF assms(1,3), of uri] fades_uncrossed by auto
  qed
  then show "fills_exact (snd (p2p_handle drv r db))" "uncrossed (t_orders (snd (p2p_handle drv r db)))" by simp_all
qed

interpretation p2p: service "p2p_handle drv" "\<lambda>db. p2p_drv_ok drv \<and> p2p_inv db" p2p_fits for drv
  by unfold_locales (auto intro: p2p_keeps)

interpretation book: service "p2p_handle drv"
  "\<lambda>db. p2p_drv_ok drv \<and> p2p_reliable drv \<and> p2p_inv db \<and> fills_exact db \<and> uncrossed (t_orders db)" commits for drv
  by unfold_locales (auto intro: p2p_keeps book_keeps commits_fits)

definition p2p_empty :: p2p_db where
  "p2p_empty = \<lparr> t_assets = [\<lparr> ref_ID = 1, ref_Deleted = False \<rparr>], t_orders = [], t_trades = [], t_points = [] \<rparr>"

lemma p2p_empty_inv: "p2p_inv p2p_empty" "fills_exact p2p_empty" "uncrossed (t_orders p2p_empty)"
  by (simp_all add: p2p_inv_def fills_exact_def uncrossed_def p2p_empty_def)

definition demo_req :: "OrderSide \<Rightarrow> int \<Rightarrow> int \<Rightarrow> createOrderRequest" where
  "demo_req side p q = \<lparr> co_AssetID = 1, co_OwnerAddress = ''G'', co_Side = side, co_Price = p, co_Quantity = q, co_ExpiresInSec = 0 \<rparr>"

definition demo_order :: "instant \<Rightarrow> OrderSide \<Rightarrow> int \<Rightarrow> int \<Rightarrow> p2p_req" where
  "demo_order now side p q = ReqOrder now (\<lambda>_. now) (\<lambda>_. tx_fine) (Inr (demo_req side p q))"

text \<open>Two sells, a buy that takes the cheaper one and part of the other, a cancellation of what is left.\<close>

definition demo_book :: "p2p_req list" where
  "demo_book = [demo_order 1 OrderSideSell 12 5, demo_order 2 OrderSideSell 10 4, demo_order 3 OrderSideBuy 13 6, ReqCancel (Inr 1)]"

lemma demo_book_fits: "p2p.all_fit mem_p2p demo_book p2p_empty" "book.all_fit mem_p2p demo_book p2p_empty"
  by (simp_all add: demo_book_def demo_order_def bound_order_def demo_req_def in_i64_def)

subsection \<open>Properties\<close>

text \<open>C7: no order is ever overfilled and no one trades beyond their limit. After any sequence of order creations (within their binding
  tags) and cancellations, whatever database calls and transactions fail on the way, the trades recorded for an order add up to at
  most its filled quantity, which is at most its quantity; an order has status filled exactly if it is completely filled; and
  every trade is between a stored buy and a stored sell order of its asset at a price neither side's limit excludes.\<close>

theorem p2p_never_overfilled:
  assumes "p2p_drv_ok drv" "p2p.all_fit drv rs p2p_empty"
  shows "p2p_inv (p2p.run drv rs p2p_empty)"
  using p2p.run_inv[of drv p2p_empty rs] assms p2p_empty_inv(1) by blast

theorem p2p_never_overfilled_witness:
  "p2p_inv (p2p.run mem_p2p demo_book p2p_empty) \<and>
   map (\<lambda>x. (or_FilledQuantity x, or_Status x)) (t_orders (p2p.run mem_p2p demo_book p2p_empty)) =
     [(2, OrderStatusCancelled), (4, OrderStatusFilled), (6, OrderStatusFilled)] \<and>
   map (\<lambda>t. (tr_SellOrderID t, tr_Price t, tr_Quantity t, tr_TotalValue t)) (t_trades (p2p.run mem_p2p demo_book p2p_empty)) =
     [(2, 10, 4, 40), (1, 12, 2, 24)]"
proof (intro conjI)
  show "p2p_inv (p2p.run mem_p2p demo_book p2p_empty)" by (rule p2p_never_overfilled[OF mem_p2p_ok demo_book_fits(1)])
  show "map (\<lambda>x. (or_FilledQuantity x, or_Status x)) (t_orders (p2p.run mem_p2p demo_book p2p_empty)) =
     [(2, OrderStatusCancelled), (4, OrderStatusFilled), (6, OrderStatusFilled)]"
    unfolding demo_book_def p2p.run.simps by code_simp
  show "map (\<lambda>t. (tr_SellOrderID t, tr_Price t, tr_Quantity t, tr_TotalValue t)) (t_trades (p2p.run mem_p2p demo_book p2p_empty)) =
     [(2, 10, 4, 40), (1, 12, 2, 24)]"
    unfolding demo_book_def p2p.run.simps by code_simp
qed

text \<open>C8: matching is complete. As long as no database call fails, after any sequence of order creations and cancellations
  the book is not crossed (no live buy order has a price at or above that of a live sell order of the same asset) and the
  filled quantity of every order is exactly the sum of its recorded trades.\<close>

theorem p2p_book_uncrossed:
  assumes "p2p_drv_ok drv" "p2p_reliable drv" "book.all_fit drv rs p2p_empty"
  shows "uncrossed (t_orders (book.run drv rs p2p_empty)) \<and> fills_exact (book.run drv rs p2p_empty)"
  using book.run_inv[of drv p2p_empty rs] assms p2p_empty_inv by blast

theorem p2p_book_uncrossed_witness:
  "uncrossed (t_orders (book.run mem_p2p demo_book p2p_empty)) \<and>
   traded 1 (t_trades (book.run mem_p2p demo_book p2p_empty)) = 2"
proof -
  have "traded 1 (t_trades (book.run mem_p2p demo_book p2p_empty)) = 2" unfolding demo_book_def book.run.simps by code_simp
  then show ?thesis using p2p_book_uncrossed[OF mem_p2p_ok mem_p2p_reliable demo_book_fits(2)] by blast
qed

text \<open>C36: a new order is matched in price-time priority. In every state that satisfies the invariant of the book, and whatever call fails,
  the trades of an accepted order are with the first entries of a list of live opposite
  orders of its asset within its limit price, sorted by price (best for the new order first) and then by creation
  time; each trade is at the price of the order that was already in the book. The list is all such orders unless the query failed, when
  nothing is matched.\<close>

theorem p2p_price_time_priority:
  assumes "p2p_drv_ok drv" "p2p_inv db" "bound_order req" "CreateOrder drv now clk (Inr req) db = (Reply st (x, trades), db')"
  shows "\<exists>cs n. sorted_wrt (book_order (co_Side req)) cs \<and>
     (cs = [] \<or> mset cs = mset (filter (counter_cond (new_order now req 0)) (t_orders db))) \<and>
     map (maker (co_Side req)) trades = take n (map (\<lambda>c. (or_ID c, or_Price c)) cs)"
proof (cases rule: CreateOrder_cases[OF assms(1), of now clk "Inr req" db, case_names kept created])
  case kept
  then show ?thesis using assms(4) by simp
next
  case (created req' k)
  let ?n = "new_order now req k"
  let ?db = "db\<lparr> t_orders := t_orders db @ [?n] \<rparr>"
  have "trades = fst (snd (matchOrder drv clk ?n ?db))" using created assms(4) by (auto split: prod.splits)
  then obtain n where n: "map (maker (co_Side req)) trades = take n (map (\<lambda>c. (or_ID c, or_Price c)) (counter_orders drv ?n ?db))"
    using matchOrder_inv(2)[OF assms(1-3) created(2)] by auto
  have side: "or_Side ?n = co_Side req" by (simp add: new_order_def)
  have "counter_cond ?n = counter_cond (new_order now req 0)" by (rule ext) (simp add: counter_cond_def price_ok_def new_order_def)
  moreover have "\<not> counter_cond ?n ?n" by (cases "co_Side req") (simp_all add: counter_cond_def opposite_def new_order_def)
  ultimately have cand: "filter (counter_cond ?n) (t_orders ?db) = filter (counter_cond (new_order now req 0)) (t_orders db)" by simp
  show ?thesis
    by (cases rule: counter_orders_listing[OF assms(1), of ?n ?db])
       (use n in \<open>intro exI[of _ "counter_orders drv ?n ?db"] exI[of _ n], simp add: cand[simplified] side\<close>)+
qed

theorem p2p_price_time_priority_witness:
  "\<exists>cs n. sorted_wrt (book_order OrderSideBuy) cs \<and> [(2, 10), (1, 12)] = take n (map (\<lambda>c. (or_ID c, or_Price c)) cs)"
proof -
  let ?db = "p2p.run mem_p2p (take 2 demo_book) p2p_empty"
  let ?c = "CreateOrder mem_p2p 3 (\<lambda>_. 3) (Inr (demo_req OrderSideBuy 13 6)) ?db"
  have "p2p.all_fit mem_p2p (take 2 demo_book) p2p_empty"
    by (simp add: demo_book_def demo_order_def bound_order_def demo_req_def in_i64_def)
  then have inv: "p2p_inv ?db" using p2p.run_inv[of mem_p2p p2p_empty] mem_p2p_ok p2p_empty_inv(1) by blast
  have r: "(case fst ?c of Reply st (x, ts) \<Rightarrow> map (maker OrderSideBuy) ts = [(2, 10), (1, 12)] | _ \<Rightarrow> False)"
    unfolding demo_book_def take_Suc_Cons numeral_2_eq_2 take_0 p2p.run.simps by code_simp
  obtain st x ts where c: "?c = (Reply st (x, ts), snd ?c)" and ts: "map (maker OrderSideBuy) ts = [(2, 10), (1, 12)]"
    using r by (cases ?c) (auto split: response.splits)
  have b: "bound_order (demo_req OrderSideBuy 13 6)" by (simp add: bound_order_def demo_req_def in_i64_def)
  have "co_Side (demo_req OrderSideBuy 13 6) = OrderSideBuy" by (simp add: demo_req_def)
  then show ?thesis using p2p_price_time_priority[OF mem_p2p_ok inv b c] ts by metis
qed


text \<open>A match whose transaction fails to commit still counts as filled: the order in memory keeps the fill, the next
  match saves it. Here the buyer's order is stored as filled although only two of its six units were traded.\<close>

lemma failed_match_counts_as_filled:
  "let txs = (\<lambda>i. if i = 0 then tx_fine\<lparr> tx_commit := Some (DBError ''lost'') \<rparr> else tx_fine);
       rs = [demo_order 1 OrderSideSell 12 5, demo_order 2 OrderSideSell 10 4,
             ReqOrder 3 (\<lambda>_. 3) txs (Inr (demo_req OrderSideBuy 13 6))];
       db = p2p.run mem_p2p rs p2p_empty
   in map or_Status (filter (\<lambda>x. or_ID x = 3) (t_orders db)) = [OrderStatusFilled] \<and> traded 3 (t_trades db) = 2"
  unfolding Let_def p2p.run.simps by code_simp

text \<open>Matching ignores the expiry time: an order that expired at time \<open>10 ^ 9 + 1\<close> is filled at time \<open>10 ^ 10\<close>.\<close>

lemma expired_order_is_matched:
  "let rs = [ReqOrder 1 (\<lambda>_. 1) (\<lambda>_. tx_fine) (Inr ((demo_req OrderSideSell 10 4)\<lparr> co_ExpiresInSec := 1 \<rparr>)),
             demo_order 10000000000 OrderSideBuy 10 4];
       db = p2p.run mem_p2p rs p2p_empty
   in map (\<lambda>x. (or_ExpiresAt x, or_Status x)) (t_orders db) =
        [(Some 1000000001, OrderStatusFilled), (None, OrderStatusFilled)]"
  unfolding Let_def p2p.run.simps by code_simp

end
