(* ===== verification/FeeService.thy ===== *)
theory FeeService
  imports Pagination
begin

section \<open>Fee configuration (services/fee\_service.go, models/fee\_config.go)\<close>

text \<open>
  The admin-configurable fee rules with their audit log, and the fee of a transaction with its volume discount. The
  JSON encoder of the audit log (\<open>marshal\<close>) and the decoder of the tier column (\<open>unmarshal\<close>) are arguments: the
  results hold for any pair of functions. \<open>sort.Slice\<close> does not fix the order of equal elements, so the sort is an argument too,
  with the contract \<open>sorts_desc\<close>. Instants count from the zero \<open>time.Time\<close>, so \<open>IsZero\<close> is equality with 0.
\<close>

subsection \<open>Data\<close>

type_synonym FeeType = string

abbreviation FeeTypeMarketplace :: FeeType where "FeeTypeMarketplace \<equiv> ''marketplace''"
abbreviation FeeTypeTransfer :: FeeType where "FeeTypeTransfer \<equiv> ''transfer''"
abbreviation FeeTypeStaking :: FeeType where "FeeTypeStaking \<equiv> ''staking''"
abbreviation FeeTypeLiquidity :: FeeType where "FeeTypeLiquidity \<equiv> ''liquidity''"

record FeeConfig =
  fc_ID :: nat
  fc_Name :: string
  fc_FeeType :: FeeType
  fc_BaseBasisPoints :: int
  fc_MinBasisPoints :: int
  fc_MaxBasisPoints :: int
  fc_VolumeTiers :: string
  fc_Active :: bool
  fc_EffectiveFrom :: instant
  fc_EffectiveUntil :: "instant option"
  fc_CreatedByAdminID :: nat
  fc_UpdatedByAdminID :: nat
  fc_CreatedAt :: instant
  fc_UpdatedAt :: instant

record VolumeTier =
  vt_MinVolumeStroops :: int
  vt_DiscountBps :: int

record FeeAuditLog =
  fl_ID :: nat
  fl_FeeConfigID :: nat
  fl_AdminID :: nat
  fl_Action :: string
  fl_PreviousJSON :: string
  fl_NewJSON :: string
  fl_Reason :: string
  fl_CreatedAt :: instant

record EffectiveFee =
  ef_FeeConfigID :: nat
  ef_FeeType :: FeeType
  ef_BaseBasisPoints :: int
  ef_AppliedBps :: int
  ef_DiscountBps :: int
  ef_FeeAmount :: int
  ef_NetAmount :: int
  ef_TierApplied :: "VolumeTier option"

record fee_db =
  t_configs :: "FeeConfig list"
  t_logs :: "FeeAuditLog list"

record fee_drv =
  d_configs :: "FeeConfig gorm"
  d_logs :: "FeeAuditLog gorm"
  d_ftx :: tx_outcome

definition err_text :: "dberr \<Rightarrow> string" where
  "err_text e = (case e of ErrRecordNotFound \<Rightarrow> ''record not found'' | DBError s \<Rightarrow> s)"

definition wrap_err :: "string \<Rightarrow> dberr + 'a \<Rightarrow> dberr + 'a" where
  "wrap_err what r = (case r of Inl e \<Rightarrow> Inl (DBError (what @ '': '' @ err_text e)) | Inr x \<Rightarrow> Inr x)"

subsection \<open>Volume tiers\<close>

definition parseVolumeTiers :: "(string \<Rightarrow> string + VolumeTier list) \<Rightarrow> string \<Rightarrow> string + VolumeTier list" where
  "parseVolumeTiers unmarshal raw = (if raw = '''' \<or> raw = ''[]'' then Inr [] else unmarshal raw)"

fun first_tier :: "int \<Rightarrow> VolumeTier list \<Rightarrow> VolumeTier option" where
  "first_tier volume [] = None"
| "first_tier volume (t # ts) = (if volume \<ge> vt_MinVolumeStroops t then Some t else first_tier volume ts)"

definition applyTierDiscount :: "(VolumeTier list \<Rightarrow> VolumeTier list) \<Rightarrow> int \<Rightarrow> int \<Rightarrow> VolumeTier list \<Rightarrow> int \<Rightarrow>
    int \<times> VolumeTier option" where
  "applyTierDiscount srt baseBps minBps tiers volumeStroops =
     (if tiers = [] then (baseBps, None)
      else case first_tier volumeStroops (srt tiers) of
             Some t \<Rightarrow> (let applied = sub64 baseBps (vt_DiscountBps t)
                        in (if applied < minBps then minBps else applied, Some t))
           | None \<Rightarrow> (baseBps, None))"

subsection \<open>Configuration\<close>

definition validateConfig :: "(string \<Rightarrow> string + VolumeTier list) \<Rightarrow> instant \<Rightarrow> FeeConfig \<Rightarrow> string + FeeConfig" where
  "validateConfig unmarshal now cfg =
     (if fc_FeeType cfg \<notin> {FeeTypeMarketplace, FeeTypeTransfer, FeeTypeStaking, FeeTypeLiquidity}
      then Inl (''invalid fee_type: '' @ fc_FeeType cfg)
      else if fc_BaseBasisPoints cfg < 0 then Inl ''base_basis_points cannot be negative''
      else if fc_MaxBasisPoints cfg < fc_BaseBasisPoints cfg then Inl ''max_basis_points must be >= base_basis_points''
      else if fc_MinBasisPoints cfg < 0 then Inl ''min_basis_points cannot be negative''
      else if fc_MinBasisPoints cfg > fc_BaseBasisPoints cfg then Inl ''min_basis_points cannot exceed base_basis_points''
      else if fc_Name cfg = '''' then Inl ''name is required''
      else
        (let cfg1 = (if fc_EffectiveFrom cfg = 0 then cfg\<lparr> fc_EffectiveFrom := now \<rparr> else cfg)
         in if fc_VolumeTiers cfg \<noteq> '''' \<and> fc_VolumeTiers cfg \<noteq> ''[]''
            then (case parseVolumeTiers unmarshal (fc_VolumeTiers cfg) of
                    Inl e \<Rightarrow> Inl (''volume_tiers is not valid JSON: '' @ e)
                  | Inr _ \<Rightarrow> Inr cfg1)
            else Inr cfg1))"

definition audit_entry :: "nat \<Rightarrow> nat \<Rightarrow> string \<Rightarrow> string \<Rightarrow> string \<Rightarrow> string \<Rightarrow> instant \<Rightarrow> FeeAuditLog" where
  "audit_entry i adminID action prev new reason now =
     \<lparr> fl_ID = 0, fl_FeeConfigID = i, fl_AdminID = adminID, fl_Action = action, fl_PreviousJSON = prev, fl_NewJSON = new,
       fl_Reason = reason, fl_CreatedAt = now \<rparr>"

definition write_log :: "fee_drv \<Rightarrow> FeeAuditLog \<Rightarrow> 'a \<Rightarrow> FeeConfig list \<Rightarrow> fee_db \<Rightarrow> dberr + 'a \<times> fee_db" where
  "write_log drv l x cs db =
     and_then (g_create (d_logs drv) l (t_logs db)) (\<lambda>(_, ls). Inr (x, db\<lparr> t_configs := cs, t_logs := ls \<rparr>))"

definition CreateFeeConfig :: "fee_drv \<Rightarrow> (FeeConfig \<Rightarrow> string) \<Rightarrow> (string \<Rightarrow> string + VolumeTier list) \<Rightarrow> instant \<Rightarrow>
    FeeConfig \<Rightarrow> nat \<Rightarrow> string \<Rightarrow> fee_db \<Rightarrow> (string + FeeConfig) \<times> fee_db" where
  "CreateFeeConfig drv marshal unmarshal now cfg adminID reason db =
     (case validateConfig unmarshal now cfg of
        Inl e \<Rightarrow> (Inl e, db)
      | Inr cfg1 \<Rightarrow>
          (let cfg2 = cfg1\<lparr> fc_CreatedByAdminID := adminID, fc_UpdatedByAdminID := adminID,
                            fc_CreatedAt := now, fc_UpdatedAt := now \<rparr>
           in case transaction (d_ftx drv) (\<lambda>db.
                     and_then (wrap_err ''failed to create fee config'' (g_create (d_configs drv) cfg2 (t_configs db))) (\<lambda>(c, cs).
                       write_log drv (audit_entry (fc_ID c) adminID ''created'' '''' (marshal c) reason now) c cs db)) db of
                (Inl e, db') \<Rightarrow> (Inl (err_text e), db')
              | (Inr c, db') \<Rightarrow> (Inr c, db')))"

definition load_config :: "fee_drv \<Rightarrow> nat \<Rightarrow> fee_db \<Rightarrow> string + FeeConfig" where
  "load_config drv i db =
     (case g_first (d_configs drv) (\<lambda>c. fc_ID c = i) (t_configs db) of
        Inl ErrRecordNotFound \<Rightarrow> Inl ''fee config not found''
      | Inl e \<Rightarrow> Inl (''failed to load fee config: '' @ err_text e)
      | Inr c \<Rightarrow> Inr c)"

definition UpdateFeeConfig :: "fee_drv \<Rightarrow> (FeeConfig \<Rightarrow> string) \<Rightarrow> (string \<Rightarrow> string + VolumeTier list) \<Rightarrow> instant \<Rightarrow>
    nat \<Rightarrow> FeeConfig \<Rightarrow> nat \<Rightarrow> string \<Rightarrow> fee_db \<Rightarrow> (string + FeeConfig) \<times> fee_db" where
  "UpdateFeeConfig drv marshal unmarshal now i updates adminID reason db =
     (case validateConfig unmarshal now updates of
        Inl e \<Rightarrow> (Inl e, db)
      | Inr updates1 \<Rightarrow>
          (case load_config drv i db of
             Inl e \<Rightarrow> (Inl e, db)
           | Inr existing \<Rightarrow>
               (let updates2 = updates1\<lparr> fc_ID := fc_ID existing, fc_CreatedByAdminID := fc_CreatedByAdminID existing,
                                         fc_UpdatedByAdminID := adminID, fc_CreatedAt := fc_CreatedAt existing,
                                         fc_UpdatedAt := now \<rparr>
                in case transaction (d_ftx drv) (\<lambda>db.
                          and_then (wrap_err ''failed to update fee config'' (g_save (d_configs drv) updates2 (t_configs db))) (\<lambda>cs.
                            write_log drv (audit_entry i adminID ''updated'' (marshal existing) (marshal updates2) reason now)
                              updates2 cs db)) db of
                     (Inl e, db') \<Rightarrow> (Inl (err_text e), db')
                   | (Inr c, db') \<Rightarrow> (Inr c, db'))))"

text \<open>\<open>Model(&cfg).Updates\<close> writes the columns of the row with the model's key and the same fields of the struct.\<close>

definition deactivated :: "nat \<Rightarrow> instant \<Rightarrow> FeeConfig \<Rightarrow> FeeConfig" where
  "deactivated adminID now c = c\<lparr> fc_Active := False, fc_UpdatedByAdminID := adminID, fc_UpdatedAt := now \<rparr>"

definition DeactivateFeeConfig :: "fee_drv \<Rightarrow> (FeeConfig \<Rightarrow> string) \<Rightarrow> instant \<Rightarrow> nat \<Rightarrow> nat \<Rightarrow> string \<Rightarrow> fee_db \<Rightarrow>
    (string + FeeConfig) \<times> fee_db" where
  "DeactivateFeeConfig drv marshal now i adminID reason db =
     (case load_config drv i db of
        Inl e \<Rightarrow> (Inl e, db)
      | Inr cfg \<Rightarrow>
          (case transaction (d_ftx drv) (\<lambda>db.
                  and_then (wrap_err ''failed to deactivate fee config''
                      (g_update (d_configs drv) (\<lambda>c. fc_ID c = fc_ID cfg) (deactivated adminID now) (t_configs db))) (\<lambda>(_, cs).
                    write_log drv (audit_entry i adminID ''deactivated'' (marshal cfg) (marshal (deactivated adminID now cfg))
                      reason now) (deactivated adminID now cfg) cs db)) db of
             (Inl e, db') \<Rightarrow> (Inl (err_text e), db')
           | (Inr c, db') \<Rightarrow> (Inr c, db')))"

subsection \<open>Queries\<close>

definition is_effective :: "FeeType \<Rightarrow> instant \<Rightarrow> instant \<Rightarrow> FeeConfig \<Rightarrow> bool" where
  "is_effective feeType now1 now2 c \<longleftrightarrow> fc_FeeType c = feeType \<and> fc_Active c \<and> fc_EffectiveFrom c \<le> now1 \<and>
     (case fc_EffectiveUntil c of None \<Rightarrow> True | Some t \<Rightarrow> t > now2)"

text \<open>\<open>Order(..).First\<close> is the first row by the given order and then by primary key.\<close>

definition GetActiveFeeConfig :: "fee_drv \<Rightarrow> instant \<Rightarrow> instant \<Rightarrow> FeeType \<Rightarrow> fee_db \<Rightarrow> string + FeeConfig" where
  "GetActiveFeeConfig drv now1 now2 feeType db =
     (case g_find (d_configs drv)
             \<lparr> q_where = is_effective feeType now1 now2,
               q_order = (\<lambda>x y. fc_EffectiveFrom x > fc_EffectiveFrom y \<or>
                                fc_EffectiveFrom x = fc_EffectiveFrom y \<and> fc_ID x \<le> fc_ID y),
               q_offset = 0, q_limit = Some 1 \<rparr> (t_configs db) of
        Inl e \<Rightarrow> Inl (''failed to query fee config: '' @ err_text e)
      | Inr [] \<Rightarrow> Inl (''no active fee config for type: '' @ feeType)
      | Inr (c # _) \<Rightarrow> Inr c)"

definition ListFeeConfigs :: "fee_drv \<Rightarrow> string \<Rightarrow> int \<Rightarrow> int \<Rightarrow> fee_db \<Rightarrow> string + FeeConfig list \<times> int" where
  "ListFeeConfigs drv feeType page limit db =
     (let q = (Where (\<lambda>c. feeType \<noteq> '''' \<longrightarrow> fc_FeeType c = feeType))\<lparr> q_order := (\<lambda>x y. fc_CreatedAt x \<ge> fc_CreatedAt y) \<rparr>
      in case g_count (d_configs drv) (q_where q) (t_configs db) of
           Inl e \<Rightarrow> Inl (''count failed: '' @ err_text e)
         | Inr n \<Rightarrow>
             (case g_find (d_configs drv) (offset_limit (mul64 (sub64 page 1) limit) limit q) (t_configs db) of
                Inl e \<Rightarrow> Inl (''list failed: '' @ err_text e)
              | Inr cs \<Rightarrow> Inr (cs, n)))"

definition GetAuditLog :: "fee_drv \<Rightarrow> nat \<Rightarrow> int \<Rightarrow> int \<Rightarrow> fee_db \<Rightarrow> string + FeeAuditLog list \<times> int" where
  "GetAuditLog drv i page limit db =
     (let q = (Where (\<lambda>l. fl_FeeConfigID l = i))\<lparr> q_order := (\<lambda>x y. fl_CreatedAt x \<ge> fl_CreatedAt y) \<rparr>
      in case g_count (d_logs drv) (q_where q) (t_logs db) of
           Inl e \<Rightarrow> Inl (''count failed: '' @ err_text e)
         | Inr n \<Rightarrow>
             (case g_find (d_logs drv) (offset_limit (mul64 (sub64 page 1) limit) limit q) (t_logs db) of
                Inl e \<Rightarrow> Inl (''list failed: '' @ err_text e)
              | Inr ls \<Rightarrow> Inr (ls, n)))"

definition CalculateFee :: "fee_drv \<Rightarrow> (string \<Rightarrow> string + VolumeTier list) \<Rightarrow> (VolumeTier list \<Rightarrow> VolumeTier list) \<Rightarrow>
    instant \<Rightarrow> instant \<Rightarrow> FeeType \<Rightarrow> int \<Rightarrow> int \<Rightarrow> fee_db \<Rightarrow> string + EffectiveFee" where
  "CalculateFee drv unmarshal srt now1 now2 feeType amountStroops userVolume db =
     (case GetActiveFeeConfig drv now1 now2 feeType db of
        Inl e \<Rightarrow> Inl e
      | Inr cfg \<Rightarrow>
          (case parseVolumeTiers unmarshal (fc_VolumeTiers cfg) of
             Inl e \<Rightarrow> Inl (''invalid volume tiers in config: '' @ e)
           | Inr tiers \<Rightarrow>
               (let (appliedBps, tierApplied) =
                      applyTierDiscount srt (fc_BaseBasisPoints cfg) (fc_MinBasisPoints cfg) tiers userVolume;
                    feeAmount = quo64 (mul64 amountStroops appliedBps) 10000
                in Inr \<lparr> ef_FeeConfigID = fc_ID cfg, ef_FeeType = fc_FeeType cfg, ef_BaseBasisPoints = fc_BaseBasisPoints cfg,
                         ef_AppliedBps = appliedBps, ef_DiscountBps = sub64 (fc_BaseBasisPoints cfg) appliedBps,
                         ef_FeeAmount = feeAmount, ef_NetAmount = sub64 amountStroops feeAmount,
                         ef_TierApplied = tierApplied \<rparr>)))"


subsection \<open>Contracts\<close>

definition sorts_desc :: "(VolumeTier list \<Rightarrow> VolumeTier list) \<Rightarrow> bool" where
  "sorts_desc srt \<longleftrightarrow> (\<forall>ts. mset (srt ts) = mset ts \<and> sorted_wrt (\<lambda>x y. vt_MinVolumeStroops x \<ge> vt_MinVolumeStroops y) (srt ts))"

definition sort_desc :: "VolumeTier list \<Rightarrow> VolumeTier list" where
  "sort_desc = sort_by (\<lambda>x y. vt_MinVolumeStroops x \<ge> vt_MinVolumeStroops y)"

lemma sort_desc_ok: "sorts_desc sort_desc"
  by (auto simp: sorts_desc_def sort_desc_def is_order_def intro!: sorted_sort_by)

abbreviation configs_ok :: "fee_drv \<Rightarrow> bool" where
  "configs_ok drv \<equiv> gorm_ok fc_ID (\<lambda>k. fc_ID_update (\<lambda>_. k)) (d_configs drv)"

abbreviation logs_ok :: "fee_drv \<Rightarrow> bool" where
  "logs_ok drv \<equiv> gorm_ok fl_ID (\<lambda>k. fl_ID_update (\<lambda>_. k)) (d_logs drv)"

definition fee_drv_ok :: "fee_drv \<Rightarrow> bool" where
  "fee_drv_ok drv \<longleftrightarrow> configs_ok drv \<and> logs_ok drv"

definition mem_fee :: fee_drv where
  "mem_fee = \<lparr> d_configs = mem_gorm fc_ID (\<lambda>k. fc_ID_update (\<lambda>_. k)), d_logs = mem_gorm fl_ID (\<lambda>k. fl_ID_update (\<lambda>_. k)),
     d_ftx = tx_fine \<rparr>"

lemma mem_fee_ok: "fee_drv_ok mem_fee"
  by (simp add: fee_drv_ok_def mem_fee_def mem_gorm_ok)

subsection \<open>The discount\<close>

text \<open>A single scan for the highest threshold the volume reaches, without sorting.\<close>

fun scan_best :: "int \<Rightarrow> VolumeTier list \<Rightarrow> VolumeTier option" where
  "scan_best v [] = None"
| "scan_best v (t # ts) =
     (case scan_best v ts of
        None \<Rightarrow> if v \<ge> vt_MinVolumeStroops t then Some t else None
      | Some u \<Rightarrow> if v \<ge> vt_MinVolumeStroops t \<and> vt_MinVolumeStroops t > vt_MinVolumeStroops u then Some t else Some u)"

definition reaches_best :: "int \<Rightarrow> VolumeTier list \<Rightarrow> VolumeTier option \<Rightarrow> bool" where
  "reaches_best v ts r \<longleftrightarrow> (case r of
     None \<Rightarrow> \<forall>u\<in>set ts. v < vt_MinVolumeStroops u
   | Some t \<Rightarrow> t \<in> set ts \<and> vt_MinVolumeStroops t \<le> v \<and>
       (\<forall>u\<in>set ts. vt_MinVolumeStroops u \<le> v \<longrightarrow> vt_MinVolumeStroops u \<le> vt_MinVolumeStroops t))"

lemma first_tier_best:
  "sorted_wrt (\<lambda>x y. vt_MinVolumeStroops x \<ge> vt_MinVolumeStroops y) ts \<Longrightarrow> reaches_best v ts (first_tier v ts)"
  by (induction ts) (auto simp: reaches_best_def split: option.splits)

lemma scan_best: "reaches_best v ts (scan_best v ts)"
  by (induction ts) (force simp: reaches_best_def split: option.splits)+

lemma reaches_best_unique:
  assumes "distinct (map vt_MinVolumeStroops ts)" "reaches_best v ts r" "reaches_best v ts r'"
  shows "r = r'"
proof -
  have "t = u" if "t \<in> set ts" "u \<in> set ts" "vt_MinVolumeStroops t = vt_MinVolumeStroops u" for t u
    using assms(1) that by (metis distinct_map inj_onD)
  note uniq = this
  show ?thesis
  proof (cases r; cases r')
    fix t u assume tu: "r = Some t" "r' = Some u"
    then have *: "t \<in> set ts" "u \<in> set ts" "vt_MinVolumeStroops t \<le> v" "vt_MinVolumeStroops u \<le> v"
      using assms(2,3) by (simp_all add: reaches_best_def)
    then have "vt_MinVolumeStroops u \<le> vt_MinVolumeStroops t" "vt_MinVolumeStroops t \<le> vt_MinVolumeStroops u"
      using assms(2,3) tu by (simp_all add: reaches_best_def)
    then show ?thesis using uniq[OF *(1,2)] tu by simp
  qed (use assms(2,3) in \<open>force simp: reaches_best_def\<close>)+
qed

lemma reaches_best_mset: "mset ts = mset us \<Longrightarrow> reaches_best v ts r = reaches_best v us r"
proof -
  assume "mset ts = mset us"
  then have "set ts = set us" by (metis set_mset_mset)
  then show ?thesis unfolding reaches_best_def by (simp split: option.split)
qed

lemma applyTierDiscount_best:
  assumes "sorts_desc srt"
  obtains r where "reaches_best v tiers r"
    "applyTierDiscount srt b m tiers v = (case r of None \<Rightarrow> (b, None)
       | Some t \<Rightarrow> (max m (sub64 b (vt_DiscountBps t)), Some t))"
proof (cases "tiers = []")
  case True
  then show ?thesis using that[of None] by (simp add: reaches_best_def applyTierDiscount_def)
next
  case False
  let ?r = "first_tier v (srt tiers)"
  have "reaches_best v (srt tiers) ?r" using assms by (intro first_tier_best) (simp add: sorts_desc_def)
  then have "reaches_best v tiers ?r" using assms reaches_best_mset[of "srt tiers" tiers] by (simp add: sorts_desc_def)
  then show ?thesis using False that by (force simp: applyTierDiscount_def Let_def max_def split: option.splits)
qed

lemma applyTierDiscount_bounds:
  assumes "sorts_desc srt" "0 \<le> m" "m \<le> b" "in_i64 b" "\<forall>t\<in>set tiers. 0 \<le> vt_DiscountBps t \<and> in_i64 (vt_DiscountBps t)"
  shows "m \<le> fst (applyTierDiscount srt b m tiers v)" "fst (applyTierDiscount srt b m tiers v) \<le> b"
proof -
  obtain r where r: "reaches_best v tiers r" "applyTierDiscount srt b m tiers v = (case r of None \<Rightarrow> (b, None)
       | Some t \<Rightarrow> (max m (sub64 b (vt_DiscountBps t)), Some t))"
    by (rule applyTierDiscount_best[OF assms(1)])
  have "sub64 b (vt_DiscountBps t) \<le> b" if "r = Some t" for t
  proof -
    have "0 \<le> vt_DiscountBps t" "in_i64 (vt_DiscountBps t)" using r(1) that assms(5) by (auto simp: reaches_best_def)
    then show ?thesis using assms(2-4) by (subst sub64_exact) (auto simp: in_i64_def)
  qed
  then show "m \<le> fst (applyTierDiscount srt b m tiers v)" "fst (applyTierDiscount srt b m tiers v) \<le> b"
    unfolding r(2) using assms(3) by (auto split: option.splits)
qed

subsection \<open>The stored configurations\<close>

definition cfg_valid :: "FeeConfig \<Rightarrow> bool" where
  "cfg_valid c \<longleftrightarrow> fc_FeeType c \<in> {FeeTypeMarketplace, FeeTypeTransfer, FeeTypeStaking, FeeTypeLiquidity} \<and>
     0 \<le> fc_MinBasisPoints c \<and> fc_MinBasisPoints c \<le> fc_BaseBasisPoints c \<and> fc_BaseBasisPoints c \<le> fc_MaxBasisPoints c \<and>
     fc_Name c \<noteq> '''' \<and> fc_EffectiveFrom c \<noteq> 0"

text \<open>The log entries of a configuration form a chain: each starts from the document the one before it ended with, the
  first is a creation, and the last one is the configuration as it is stored.\<close>

fun chain :: "string \<Rightarrow> FeeAuditLog list \<Rightarrow> string \<Rightarrow> bool" where
  "chain a [] b \<longleftrightarrow> a = b"
| "chain a (l # ls) b \<longleftrightarrow> fl_PreviousJSON l = a \<and> chain (fl_NewJSON l) ls b"

definition trail :: "nat \<Rightarrow> FeeAuditLog list \<Rightarrow> FeeAuditLog list" where
  "trail i ls = filter (\<lambda>l. fl_FeeConfigID l = i) ls"

definition fee_inv :: "(FeeConfig \<Rightarrow> string) \<Rightarrow> fee_db \<Rightarrow> bool" where
  "fee_inv marshal db \<longleftrightarrow> distinct (map fc_ID (t_configs db)) \<and>
     (\<forall>c\<in>set (t_configs db). cfg_valid c \<and> trail (fc_ID c) (t_logs db) \<noteq> [] \<and> chain '''' (trail (fc_ID c) (t_logs db)) (marshal c)) \<and>
     (\<forall>l\<in>set (t_logs db). fl_FeeConfigID l \<in> fc_ID ` set (t_configs db))"

lemma chain_snoc: "chain a (ls @ [l]) b \<longleftrightarrow> chain a ls (fl_PreviousJSON l) \<and> fl_NewJSON l = b"
  by (induction ls arbitrary: a) auto

lemma trail_snoc [simp]: "trail i (ls @ [l]) = trail i ls @ (if fl_FeeConfigID l = i then [l] else [])"
  by (simp add: trail_def)

lemma validateConfig_ok:
  assumes "validateConfig unmarshal now cfg = Inr c" "now \<noteq> 0"
  shows "cfg_valid c"
  using assms by (auto simp: validateConfig_def cfg_valid_def Let_def split: if_splits sum.splits)

lemma cfg_valid_stamp [simp]:
  "cfg_valid (c\<lparr> fc_CreatedByAdminID := a, fc_UpdatedByAdminID := b, fc_CreatedAt := t, fc_UpdatedAt := u \<rparr>) = cfg_valid c"
  "cfg_valid (c\<lparr> fc_ID := i \<rparr>) = cfg_valid c"
  "cfg_valid (deactivated a t c) = cfg_valid c"
  "cfg_valid (c\<lparr> fc_ID := i, fc_CreatedByAdminID := a, fc_UpdatedByAdminID := b, fc_CreatedAt := t, fc_UpdatedAt := u \<rparr>) = cfg_valid c"
  by (simp_all add: cfg_valid_def deactivated_def)


lemma write_logD:
  assumes "logs_ok drv" "write_log drv l x cs db = Inr (y, db')"
  obtains k where "y = x" "t_configs db' = cs" "t_logs db' = t_logs db @ [l\<lparr> fl_ID := k \<rparr>]"
proof -
  obtain l' ls where cr: "g_create (d_logs drv) l (t_logs db) = Inr (l', ls)" and "y = x" "db' = db\<lparr> t_configs := cs, t_logs := ls \<rparr>"
    using assms(2) by (auto simp: write_log_def and_then_def split: sum.splits prod.splits)
  moreover obtain k where "l' = l\<lparr> fl_ID := k \<rparr>" "ls = t_logs db @ [l']" by (rule gorm_createD[OF assms(1) cr])
  ultimately show ?thesis using that by simp
qed

lemma load_configD:
  assumes "configs_ok drv" "load_config drv i db = Inr c"
  shows "c \<in> set (t_configs db)" "fc_ID c = i"
proof -
  have "g_first (d_configs drv) (\<lambda>c. fc_ID c = i) (t_configs db) = Inr c"
    using assms(2) by (auto simp: load_config_def split: sum.splits dberr.splits)
  from gorm_firstD[OF assms(1) this] show "c \<in> set (t_configs db)" "fc_ID c = i" by simp_all
qed

text \<open>A row and its log entry written together.\<close>

lemma fee_inv_insert:
  assumes inv: "fee_inv marshal db" and k: "fc_ID c \<notin> fc_ID ` set (t_configs db)" and v: "cfg_valid c"
    and db': "t_configs db' = t_configs db @ [c]" "t_logs db' = t_logs db @ [l]"
    and l: "fl_FeeConfigID l = fc_ID c" "fl_PreviousJSON l = ''''" "fl_NewJSON l = marshal c"
  shows "fee_inv marshal db'"
proof -
  have none: "trail (fc_ID c) (t_logs db) = []"
    using inv k unfolding trail_def filter_empty_conv fee_inv_def by metis
  have other: "fc_ID x \<noteq> fc_ID c" if "x \<in> set (t_configs db)" for x using k that by (metis imageI)
  have new: "trail (fc_ID c) (t_logs db') = [l]" by (simp add: db' none l)
  have old: "trail (fc_ID x) (t_logs db') = trail (fc_ID x) (t_logs db)" if "x \<in> set (t_configs db)" for x
    using other[OF that] by (simp add: db' l)
  have "cfg_valid x \<and> trail (fc_ID x) (t_logs db') \<noteq> [] \<and> chain '''' (trail (fc_ID x) (t_logs db')) (marshal x)"
    if "x \<in> set (t_configs db')" for x
    using that inv v new old l unfolding db'(1) fee_inv_def by auto
  then show ?thesis using inv k l unfolding fee_inv_def by (auto simp: db')
qed

lemma fee_inv_replace:
  assumes inv: "fee_inv marshal db" and c: "c \<in> set (t_configs db)" "fc_ID c' = fc_ID c" and v: "cfg_valid c'"
    and db': "t_configs db' = put_row fc_ID c' (t_configs db)" "t_logs db' = t_logs db @ [l]"
    and l: "fl_FeeConfigID l = fc_ID c" "fl_PreviousJSON l = marshal c" "fl_NewJSON l = marshal c'"
  shows "fee_inv marshal db'"
proof -
  have ids: "map fc_ID (t_configs db') = map fc_ID (t_configs db)" by (simp add: db')
  then have idset: "fc_ID ` set (t_configs db') = fc_ID ` set (t_configs db)" by (metis list.set_map)
  have old: "cfg_valid x \<and> trail (fc_ID x) (t_logs db) \<noteq> [] \<and> chain '''' (trail (fc_ID x) (t_logs db)) (marshal x)"
    if "x \<in> set (t_configs db)" for x using inv that by (simp add: fee_inv_def)
  have "cfg_valid x \<and> trail (fc_ID x) (t_logs db') \<noteq> [] \<and> chain '''' (trail (fc_ID x) (t_logs db')) (marshal x)"
    if "x \<in> set (t_configs db')" for x
  proof -
    from that consider "x = c'" | "x \<in> set (t_configs db)" "fc_ID x \<noteq> fc_ID c"
      using in_set_put_row[of x fc_ID c' "t_configs db"] c(2) by (auto simp: db')
    then show ?thesis
    proof cases
      case 1
      then show ?thesis using old[OF c(1)] v l c(2) by (simp add: db' chain_snoc)
    next
      case 2
      then show ?thesis using old[OF 2(1)] l by (simp add: db')
    qed
  qed
  moreover have "fl_FeeConfigID x \<in> fc_ID ` set (t_configs db')" if "x \<in> set (t_logs db')" for x
    using that inv c(1) l(1) unfolding idset by (auto simp: db' fee_inv_def)
  ultimately show ?thesis using inv ids by (simp add: fee_inv_def)
qed

lemma CreateFeeConfig_inv:
  assumes drv: "fee_drv_ok drv" and inv: "fee_inv marshal db" and now: "now \<noteq> 0"
  shows "fee_inv marshal (snd (CreateFeeConfig drv marshal unmarshal now cfg adminID reason db))"
proof (cases "validateConfig unmarshal now cfg")
  case (Inl e)
  then show ?thesis using inv by (simp add: CreateFeeConfig_def)
next
  case (Inr c1)
  define c2 where "c2 = c1\<lparr> fc_CreatedByAdminID := adminID, fc_UpdatedByAdminID := adminID, fc_CreatedAt := now, fc_UpdatedAt := now \<rparr>"
  let ?body = "\<lambda>db. and_then (wrap_err ''failed to create fee config'' (g_create (d_configs drv) c2 (t_configs db))) (\<lambda>(c, cs).
     write_log drv (audit_entry (fc_ID c) adminID ''created'' '''' (marshal c) reason now) c cs db)"
  have res: "snd (CreateFeeConfig drv marshal unmarshal now cfg adminID reason db) = snd (transaction (d_ftx drv) ?body db)"
    by (simp add: CreateFeeConfig_def Inr Let_def c2_def[symmetric] split: sum.split prod.split)
  show ?thesis unfolding res
  proof (rule transaction_keeps[where I = "fee_inv marshal", OF inv])
    fix x db' assume "?body db = Inr (x, db')"
    then obtain c cs where cr: "g_create (d_configs drv) c2 (t_configs db) = Inr (c, cs)"
      and wl: "write_log drv (audit_entry (fc_ID c) adminID ''created'' '''' (marshal c) reason now) c cs db = Inr (x, db')"
      by (auto simp: and_then_def wrap_err_def split: sum.splits prod.splits)
    have ok: "configs_ok drv" "logs_ok drv" using drv by (simp_all add: fee_drv_ok_def)
    obtain k where k: "k \<notin> fc_ID ` set (t_configs db)" "c = c2\<lparr> fc_ID := k \<rparr>" "cs = t_configs db @ [c]"
      by (rule gorm_createD[OF ok(1) cr])
    obtain j where j: "t_configs db' = cs"
      "t_logs db' = t_logs db @ [(audit_entry (fc_ID c) adminID ''created'' '''' (marshal c) reason now)\<lparr> fl_ID := j \<rparr>]"
      by (rule write_logD[OF ok(2) wl])
    have "cfg_valid c" using validateConfig_ok[OF Inr now] by (simp add: k(2) c2_def)
    moreover have "fc_ID c \<notin> fc_ID ` set (t_configs db)" using k by simp
    ultimately show "fee_inv marshal db'" using fee_inv_insert[OF inv _ _ j(1)[unfolded k(3)] j(2)] by (simp add: audit_entry_def)
  qed
qed

lemma UpdateFeeConfig_inv:
  assumes drv: "fee_drv_ok drv" and inv: "fee_inv marshal db" and now: "now \<noteq> 0"
  shows "fee_inv marshal (snd (UpdateFeeConfig drv marshal unmarshal now i updates adminID reason db))"
proof (cases "validateConfig unmarshal now updates")
  case (Inl e)
  then show ?thesis using inv by (simp add: UpdateFeeConfig_def)
next
  case (Inr u1)
  have ok: "configs_ok drv" "logs_ok drv" using drv by (simp_all add: fee_drv_ok_def)
  show ?thesis
  proof (cases "load_config drv i db")
    case (Inl e)
    then show ?thesis using inv Inr by (simp add: UpdateFeeConfig_def)
  next
    fix c assume ld: "load_config drv i db = Inr c"
    note c = load_configD[OF ok(1) ld]
    define u2 where "u2 = u1\<lparr> fc_ID := fc_ID c, fc_CreatedByAdminID := fc_CreatedByAdminID c, fc_UpdatedByAdminID := adminID,
       fc_CreatedAt := fc_CreatedAt c, fc_UpdatedAt := now \<rparr>"
    let ?l = "audit_entry i adminID ''updated'' (marshal c) (marshal u2) reason now"
    let ?body = "\<lambda>db. and_then (wrap_err ''failed to update fee config'' (g_save (d_configs drv) u2 (t_configs db))) (\<lambda>cs.
       write_log drv ?l u2 cs db)"
    have res: "snd (UpdateFeeConfig drv marshal unmarshal now i updates adminID reason db) = snd (transaction (d_ftx drv) ?body db)"
      by (simp add: UpdateFeeConfig_def Inr ld Let_def u2_def[symmetric] split: sum.split prod.split)
    show ?thesis unfolding res
    proof (rule transaction_keeps[where I = "fee_inv marshal", OF inv])
      fix x db' assume "?body db = Inr (x, db')"
      then obtain cs where sv: "g_save (d_configs drv) u2 (t_configs db) = Inr cs" and wl: "write_log drv ?l u2 cs db = Inr (x, db')"
        by (auto simp: and_then_def wrap_err_def split: sum.splits prod.splits)
      have id: "fc_ID u2 = fc_ID c" by (simp add: u2_def)
      have cs: "cs = put_row fc_ID u2 (t_configs db)" by (rule gorm_save[OF ok(1) sv c(1)]) (simp add: id)
      obtain j where j: "t_configs db' = cs" "t_logs db' = t_logs db @ [?l\<lparr> fl_ID := j \<rparr>]" by (rule write_logD[OF ok(2) wl])
      have "cfg_valid u2" using validateConfig_ok[OF Inr now] by (simp add: u2_def)
      then show "fee_inv marshal db'"
        using fee_inv_replace[OF inv c(1) id _ j(1)[unfolded cs] j(2)] c(2) by (simp add: audit_entry_def)
    qed
  qed
qed

lemma DeactivateFeeConfig_inv:
  assumes drv: "fee_drv_ok drv" and inv: "fee_inv marshal db"
  shows "fee_inv marshal (snd (DeactivateFeeConfig drv marshal now i adminID reason db))"
proof (cases "load_config drv i db")
  case (Inl e)
  then show ?thesis using inv by (simp add: DeactivateFeeConfig_def)
next
  case (Inr c)
  have ok: "configs_ok drv" "logs_ok drv" using drv by (simp_all add: fee_drv_ok_def)
  note c = load_configD[OF ok(1) Inr]
  let ?c = "deactivated adminID now c"
  let ?l = "audit_entry i adminID ''deactivated'' (marshal c) (marshal ?c) reason now"
  let ?body = "\<lambda>db. and_then (wrap_err ''failed to deactivate fee config''
     (g_update (d_configs drv) (\<lambda>x. fc_ID x = fc_ID c) (deactivated adminID now) (t_configs db))) (\<lambda>(_, cs). write_log drv ?l ?c cs db)"
  have res: "snd (DeactivateFeeConfig drv marshal now i adminID reason db) = snd (transaction (d_ftx drv) ?body db)"
    by (simp add: DeactivateFeeConfig_def Inr split: sum.split prod.split)
  show ?thesis unfolding res
  proof (rule transaction_keeps[where I = "fee_inv marshal", OF inv])
    fix x db' assume "?body db = Inr (x, db')"
    then obtain n cs where up: "g_update (d_configs drv) (\<lambda>x. fc_ID x = fc_ID c) (deactivated adminID now) (t_configs db) = Inr (n, cs)"
      and wl: "write_log drv ?l ?c cs db = Inr (x, db')"
      by (auto simp: and_then_def wrap_err_def split: sum.splits prod.splits)
    have id: "fc_ID ?c = fc_ID c" by (simp add: deactivated_def)
    have "y = c" if "y \<in> set (t_configs db)" "fc_ID y = fc_ID c" for y
      using inv that c(1) by (intro distinct_key_unique[of fc_ID]) (simp_all add: fee_inv_def)
    then have cs: "cs = put_row fc_ID ?c (t_configs db)"
      unfolding gorm_updateD(2)[OF ok(1) up] put_row_def id by auto
    obtain j where j: "t_configs db' = cs" "t_logs db' = t_logs db @ [?l\<lparr> fl_ID := j \<rparr>]" by (rule write_logD[OF ok(2) wl])
    have "cfg_valid ?c" using inv c(1) by (simp add: fee_inv_def)
    then show "fee_inv marshal db'"
      using fee_inv_replace[OF inv c(1) id _ j(1)[unfolded cs] j(2)] c(2) by (simp add: audit_entry_def)
  qed
qed


subsection \<open>Sequences of administrative changes\<close>

datatype fee_req =
  ReqCreateFee instant FeeConfig nat string
  | ReqUpdateFee instant nat FeeConfig nat string
  | ReqDeactivateFee instant nat nat string

definition fee_response :: "(string + FeeConfig) \<times> fee_db \<Rightarrow> unit response \<times> fee_db" where
  "fee_response r = (case fst r of Inl e \<Rightarrow> Fail StatusBadRequest e | Inr _ \<Rightarrow> Reply StatusOK (), snd r)"

lemma snd_fee_response [simp]: "snd (fee_response r) = snd r"
  by (simp add: fee_response_def)

fun fee_handle :: "fee_drv \<Rightarrow> (FeeConfig \<Rightarrow> string) \<Rightarrow> (string \<Rightarrow> string + VolumeTier list) \<Rightarrow> fee_req \<Rightarrow> fee_db \<Rightarrow> unit response \<times> fee_db" where
  "fee_handle drv marshal unmarshal (ReqCreateFee now cfg admin reason) db =
     fee_response (CreateFeeConfig drv marshal unmarshal now cfg admin reason db)"
| "fee_handle drv marshal unmarshal (ReqUpdateFee now i cfg admin reason) db =
     fee_response (UpdateFeeConfig drv marshal unmarshal now i cfg admin reason db)"
| "fee_handle drv marshal unmarshal (ReqDeactivateFee now i admin reason) db =
     fee_response (DeactivateFeeConfig drv marshal now i admin reason db)"

text \<open>The clock is past the zero time.\<close>

fun fee_req_fits :: "fee_req \<Rightarrow> fee_db \<Rightarrow> bool" where
  "fee_req_fits (ReqCreateFee now cfg admin reason) db = (now \<noteq> 0)"
| "fee_req_fits (ReqUpdateFee now i cfg admin reason) db = (now \<noteq> 0)"
| "fee_req_fits r db = True"

interpretation fees: service "fee_handle drv marshal unmarshal" "\<lambda>db. fee_drv_ok drv \<and> fee_inv marshal db" fee_req_fits
  for drv marshal unmarshal
proof
  fix db r
  assume inv: "fee_drv_ok drv \<and> fee_inv marshal db" and fits: "fee_req_fits r db"
  then show "fee_drv_ok drv \<and> fee_inv marshal (snd (fee_handle drv marshal unmarshal r db))"
    by (cases r) (simp_all add: CreateFeeConfig_inv UpdateFeeConfig_inv DeactivateFeeConfig_inv)
qed

subsection \<open>Properties\<close>

definition fee_empty :: fee_db where
  "fee_empty = \<lparr> t_configs = [], t_logs = [] \<rparr>"

lemma fee_empty_inv: "fee_inv marshal fee_empty"
  by (simp add: fee_inv_def fee_empty_def)

definition demo_cfg :: FeeConfig where
  "demo_cfg = \<lparr> fc_ID = 0, fc_Name = ''m'', fc_FeeType = FeeTypeMarketplace, fc_BaseBasisPoints = 50, fc_MinBasisPoints = 10,
     fc_MaxBasisPoints = 100, fc_VolumeTiers = ''t'', fc_Active = True, fc_EffectiveFrom = 0, fc_EffectiveUntil = None,
     fc_CreatedByAdminID = 0, fc_UpdatedByAdminID = 0, fc_CreatedAt = 0, fc_UpdatedAt = 0 \<rparr>"

definition demo_tiers :: "string \<Rightarrow> string + VolumeTier list" where
  "demo_tiers raw = (if raw = ''t'' then Inr [\<lparr> vt_MinVolumeStroops = 1000, vt_DiscountBps = 10 \<rparr>, \<lparr> vt_MinVolumeStroops = 5000, vt_DiscountBps = 45 \<rparr>]
     else Inl ''bad'')"

definition demo_fees :: "fee_req list" where
  "demo_fees = [ReqCreateFee 5 demo_cfg 1 ''r'', ReqUpdateFee 6 1 (demo_cfg\<lparr> fc_BaseBasisPoints := 60 \<rparr>) 2 ''r'',
     ReqUpdateFee 7 1 (demo_cfg\<lparr> fc_MaxBasisPoints := 3 \<rparr>) 2 ''r'', ReqDeactivateFee 8 1 1 ''r'']"

text \<open>C37: the audit trail is complete. From empty tables, after any sequence of creations, updates (at any time but the zero time of Go) and
  deactivations of fee
  configurations, whichever of them fail, every stored configuration is valid, and its log entries form an unbroken
  chain from its creation to the document stored now: nothing is changed without a log entry and no entry is written
  without its change.\<close>

theorem fee_audit_trail_complete:
  assumes "fee_drv_ok drv" "fees.all_fit drv marshal unmarshal rs fee_empty"
  shows "fee_inv marshal (fees.run drv marshal unmarshal rs fee_empty)"
  using fees.run_inv[of drv marshal fee_empty unmarshal rs] assms fee_empty_inv by blast

theorem fee_audit_trail_complete_witness:
  "let marshal = (\<lambda>c. if fc_Active c then show_int (fc_BaseBasisPoints c) else ''off'');
       db = fees.run mem_fee marshal demo_tiers demo_fees fee_empty
   in fee_inv marshal db \<and>
      map (\<lambda>l. (fl_PreviousJSON l, fl_NewJSON l)) (t_logs db) = [('''', ''50''), (''50'', ''60''), (''60'', ''off'')]"
proof -
  let ?m = "\<lambda>c. if fc_Active c then show_int (fc_BaseBasisPoints c) else ''off''"
  have "fees.all_fit mem_fee ?m demo_tiers demo_fees fee_empty" by (simp add: demo_fees_def)
  then have "fee_inv ?m (fees.run mem_fee ?m demo_tiers demo_fees fee_empty)"
    by (rule fee_audit_trail_complete[OF mem_fee_ok])
  moreover have "map (\<lambda>l. (fl_PreviousJSON l, fl_NewJSON l)) (t_logs (fees.run mem_fee ?m demo_tiers demo_fees fee_empty)) =
      [('''', ''50''), (''50'', ''60''), (''60'', ''off'')]"
    unfolding demo_fees_def fees.run.simps by code_simp
  ultimately show ?thesis by simp
qed

text \<open>The sorting implementation of the volume discount agrees with a plain search. For tiers with different
  thresholds, any admissible sort picks the tier with the highest threshold that the volume reaches, and the applied rate is
  the base rate less that tier's discount, but not below the floor.\<close>

theorem tier_discount_equals_scan:
  assumes "sorts_desc srt" "distinct (map vt_MinVolumeStroops tiers)"
  shows "applyTierDiscount srt baseBps minBps tiers volume =
    (case scan_best volume tiers of
       None \<Rightarrow> (baseBps, None)
     | Some t \<Rightarrow> (max minBps (sub64 baseBps (vt_DiscountBps t)), Some t))"
proof -
  obtain r where r: "reaches_best volume tiers r" "applyTierDiscount srt baseBps minBps tiers volume = (case r of None \<Rightarrow> (baseBps, None)
       | Some t \<Rightarrow> (max minBps (sub64 baseBps (vt_DiscountBps t)), Some t))"
    by (rule applyTierDiscount_best[OF assms(1)])
  then show ?thesis using reaches_best_unique[OF assms(2) r(1) scan_best] by simp
qed

theorem tier_discount_equals_scan_witness:
  "fst (applyTierDiscount sort_desc 50 10
      [\<lparr> vt_MinVolumeStroops = 1000, vt_DiscountBps = 10 \<rparr>, \<lparr> vt_MinVolumeStroops = 5000, vt_DiscountBps = 45 \<rparr>] 7000) = 10"
  by (subst tier_discount_equals_scan[OF sort_desc_ok]) (simp, code_simp)

text \<open>The calculated fee is within bounds. For a stored valid configuration with a base rate of at most 100% and
  non-negative discounts, the applied rate lies between the floor and the base rate, the fee is between zero and the amount, it
  is the exact rate rounded down, and fee and net amount add up to the amount.\<close>

theorem calculated_fee_bounds:
  assumes drv: "fee_drv_ok drv" and srt: "sorts_desc srt" and inv: "fee_inv marshal db"
    and base: "\<forall>c\<in>set (t_configs db). fc_BaseBasisPoints c \<le> 10000"
    and tiers: "\<forall>c\<in>set (t_configs db). \<forall>ts. parseVolumeTiers unmarshal (fc_VolumeTiers c) = Inr ts \<longrightarrow>
      (\<forall>t\<in>set ts. 0 \<le> vt_DiscountBps t \<and> in_i64 (vt_DiscountBps t))"
    and amount: "0 \<le> amount" "in_i64 (amount * 10000)"
    and f: "CalculateFee drv unmarshal srt now1 now2 feeType amount volume db = Inr f"
  shows "\<exists>c\<in>set (t_configs db). is_effective feeType now1 now2 c \<and>
      fc_MinBasisPoints c \<le> ef_AppliedBps f \<and> ef_AppliedBps f \<le> fc_BaseBasisPoints c \<and>
      ef_FeeAmount f = amount * ef_AppliedBps f div 10000 \<and> 0 \<le> ef_FeeAmount f \<and> ef_FeeAmount f \<le> amount \<and>
      ef_FeeAmount f + ef_NetAmount f = amount"
proof -
  have ok: "configs_ok drv" using drv by (simp add: fee_drv_ok_def)
  let ?q = "\<lparr> q_where = is_effective feeType now1 now2,
     q_order = (\<lambda>x y. fc_EffectiveFrom x > fc_EffectiveFrom y \<or> fc_EffectiveFrom x = fc_EffectiveFrom y \<and> fc_ID x \<le> fc_ID y),
     q_offset = 0, q_limit = Some 1 \<rparr>"
  obtain c rest ts where q: "g_find (d_configs drv) ?q (t_configs db) = Inr (c # rest)"
    and ts: "parseVolumeTiers unmarshal (fc_VolumeTiers c) = Inr ts"
    and f1: "ef_AppliedBps f = fst (applyTierDiscount srt (fc_BaseBasisPoints c) (fc_MinBasisPoints c) ts volume)"
    and f2: "ef_FeeAmount f = quo64 (mul64 amount (ef_AppliedBps f)) 10000" "ef_NetAmount f = sub64 amount (ef_FeeAmount f)"
    using f by (auto simp: CalculateFee_def GetActiveFeeConfig_def Let_def split: sum.splits list.splits prod.splits)
  have "is_order (q_order ?q)" by (auto simp: is_order_def)
  from gorm_find_mem[OF ok this q, of c] have c: "c \<in> set (t_configs db)" "is_effective feeType now1 now2 c" by simp_all
  have v: "0 \<le> fc_MinBasisPoints c" "fc_MinBasisPoints c \<le> fc_BaseBasisPoints c" "fc_BaseBasisPoints c \<le> 10000"
    using inv c(1) base by (auto simp: fee_inv_def cfg_valid_def)
  have i: "in_i64 (fc_BaseBasisPoints c)" using v by (simp add: in_i64_def)
  have ds: "\<forall>t\<in>set ts. 0 \<le> vt_DiscountBps t \<and> in_i64 (vt_DiscountBps t)" using tiers c(1) ts by blast
  have bnd: "fc_MinBasisPoints c \<le> ef_AppliedBps f" "ef_AppliedBps f \<le> fc_BaseBasisPoints c"
    unfolding f1 using applyTierDiscount_bounds[OF srt v(1,2) i ds] by simp_all
  have prod: "0 \<le> amount * ef_AppliedBps f" "amount * ef_AppliedBps f \<le> amount * 10000"
    using amount(1) bnd v by (simp_all add: mult_left_mono)
  have fit: "in_i64 (amount * ef_AppliedBps f)" by (rule in_i64_nonneg[OF prod amount(2)])
  have fee: "ef_FeeAmount f = amount * ef_AppliedBps f div 10000"
    unfolding f2(1) by (simp add: mul64_exact[OF fit] quo64_nonneg[OF prod(1) _ fit])
  have fb: "0 \<le> ef_FeeAmount f" "ef_FeeAmount f \<le> amount"
    using prod zdiv_mono1[OF prod(2), of 10000] unfolding fee by (simp_all add: pos_imp_zdiv_nonneg_iff)
  have "ef_NetAmount f = amount - ef_FeeAmount f" unfolding f2(2) using fb amount by (intro sub64_exact) (simp add: in_i64_def)
  then show ?thesis using c bnd fee fb by (intro bexI[OF _ c(1)]) simp
qed

theorem calculated_fee_bounds_witness:
  "\<exists>f. CalculateFee mem_fee demo_tiers sort_desc 9 9 FeeTypeMarketplace 123456 1500
         (fees.run mem_fee (\<lambda>_. '''') demo_tiers (take 1 demo_fees) fee_empty) = Inr f \<and>
       ef_FeeAmount f = 493 \<and> ef_FeeAmount f + ef_NetAmount f = 123456"
proof -
  let ?db = "fees.run mem_fee (\<lambda>_. '''') demo_tiers (take 1 demo_fees) fee_empty"
  have fit: "fees.all_fit mem_fee (\<lambda>_. '''') demo_tiers (take 1 demo_fees) fee_empty" by (simp add: demo_fees_def)
  have inv: "fee_inv (\<lambda>_. '''') ?db" using fees.run_inv[OF _ fit] mem_fee_ok fee_empty_inv by blast
  have db: "map fc_BaseBasisPoints (t_configs ?db) = [50]" "map fc_VolumeTiers (t_configs ?db) = [''t'']"
    unfolding demo_fees_def One_nat_def take_Suc_Cons take_0 fees.run.simps by code_simp+
  have "(\<forall>b\<in>set (map fc_BaseBasisPoints (t_configs ?db)). b \<le> 10000)" unfolding db by simp
  then have base: "\<forall>c\<in>set (t_configs ?db). fc_BaseBasisPoints c \<le> 10000" by simp
  have "\<forall>r\<in>set (map fc_VolumeTiers (t_configs ?db)). \<forall>ts. parseVolumeTiers demo_tiers r = Inr ts \<longrightarrow>
      (\<forall>t\<in>set ts. 0 \<le> vt_DiscountBps t \<and> in_i64 (vt_DiscountBps t))" unfolding db
    by (simp add: parseVolumeTiers_def demo_tiers_def in_i64_def)
  then have tiers: "\<forall>c\<in>set (t_configs ?db). \<forall>ts. parseVolumeTiers demo_tiers (fc_VolumeTiers c) = Inr ts \<longrightarrow>
      (\<forall>t\<in>set ts. 0 \<le> vt_DiscountBps t \<and> in_i64 (vt_DiscountBps t))" by simp
  have "case CalculateFee mem_fee demo_tiers sort_desc 9 9 FeeTypeMarketplace 123456 1500 ?db of Inl _ \<Rightarrow> False | Inr f \<Rightarrow> ef_FeeAmount f = 493"
    unfolding demo_fees_def One_nat_def take_Suc_Cons take_0 fees.run.simps by code_simp
  then obtain f where f: "CalculateFee mem_fee demo_tiers sort_desc 9 9 FeeTypeMarketplace 123456 1500 ?db = Inr f" "ef_FeeAmount f = 493"
    by (auto split: sum.splits)
  have "in_i64 (123456 * 10000)" by (simp add: in_i64_def)
  from calculated_fee_bounds[OF mem_fee_ok sort_desc_ok inv base tiers _ this f(1)] f show ?thesis by auto
qed

text \<open>A tier with a negative discount raises the rate above the configured ceiling: \<open>max_basis_points\<close> is checked
  against the base rate only and never applied.\<close>

lemma fee_above_ceiling:
  "fst (applyTierDiscount sort_desc 50 10 [\<lparr> vt_MinVolumeStroops = 0, vt_DiscountBps = - 900 \<rparr>] 1) = 950 \<and>
   (\<exists>c. validateConfig (\<lambda>_. Inr [\<lparr> vt_MinVolumeStroops = 0, vt_DiscountBps = - 900 \<rparr>]) 5 demo_cfg = Inr c \<and> fc_MaxBasisPoints c = 100)"
proof
  show "fst (applyTierDiscount sort_desc 50 10 [\<lparr> vt_MinVolumeStroops = 0, vt_DiscountBps = - 900 \<rparr>] 1) = 950" by code_simp
  show "\<exists>c. validateConfig (\<lambda>_. Inr [\<lparr> vt_MinVolumeStroops = 0, vt_DiscountBps = - 900 \<rparr>]) 5 demo_cfg = Inr c \<and> fc_MaxBasisPoints c = 100"
    by (simp add: validateConfig_def demo_cfg_def parseVolumeTiers_def)
qed

end
