(* ===== verification/FeeDistribution.thy ===== *)
theory FeeDistribution
  imports LiquidityFees FeeService
begin

section \<open>Fee distribution (services/fee\_distribution\_service.go, models/fee\_distribution.go)\<close>

text \<open>
  The split of the fees of a period between the platform, the liquidity providers (pro rata to the LP tokens of the
  positions that the pools keep) and the token holders. Three things are arguments because Go or the database leave them
  open: the order in which a map is iterated (\<open>iter\<close>, any permutation), the SQL aggregate (\<open>d_sum\<close>) and the
  clock. The in-memory run keeps the key that a rolled-back insert gave it, so the body of the transaction also returns that key.
\<close>

subsection \<open>Data\<close>

datatype DistributionRecipientType = RecipientPlatform | RecipientLiquidityProvider | RecipientTokenHolder

datatype DistributionRunStatus = DistributionStatusPending | DistributionStatusCompleted | DistributionStatusFailed

record FeeDistributionRule =
  fr_ID :: nat
  fr_Name :: string
  fr_PlatformShareBps :: int
  fr_LiquidityProvidersShareBps :: int
  fr_TokenHoldersShareBps :: int
  fr_Active :: bool
  fr_CreatedAt :: instant

record FeeDistributionRun =
  rn_ID :: nat
  rn_RuleID :: nat
  rn_PeriodStart :: instant
  rn_PeriodEnd :: instant
  rn_TotalFeesStroops :: int
  rn_PlatformAmountStroops :: int
  rn_LiquidityProvidersAmountStroops :: int
  rn_TokenHoldersAmountStroops :: int
  rn_RecipientCount :: int
  rn_Status :: DistributionRunStatus
  rn_TriggeredBy :: string
  rn_CreatedAt :: instant
  rn_CompletedAt :: "instant option"

record FeeDistributionAllocation =
  al_ID :: nat
  al_RunID :: nat
  al_RecipientType :: DistributionRecipientType
  al_RecipientAddress :: string
  al_AmountStroops :: int
  al_Status :: string

record FeeTransaction =
  ft_ID :: nat
  ft_TotalFeeStroops :: int
  ft_Status :: string
  ft_CreatedAt :: instant

record UserBalance =
  ub_ID :: nat
  ub_UserID :: nat
  ub_Balance :: int

record holder =
  hd_ID :: nat
  hd_StellarAddress :: string

record dist_db =
  t_rules :: "FeeDistributionRule list"
  t_runs :: "FeeDistributionRun list"
  t_allocs :: "FeeDistributionAllocation list"
  t_fees :: "FeeTransaction list"
  t_lps :: "LiquidityPosition list"
  t_balances :: "UserBalance list"
  t_holders :: "holder list"

record dist_drv =
  d_rules :: "FeeDistributionRule gorm"
  d_runs :: "FeeDistributionRun gorm"
  d_allocs :: "FeeDistributionAllocation gorm"
  d_lps :: "LiquidityPosition gorm"
  d_balances :: "UserBalance gorm"
  d_holders :: "holder gorm"
  d_sum :: "(FeeTransaction \<Rightarrow> bool) \<Rightarrow> FeeTransaction list \<Rightarrow> dberr + int"
  d_dtx :: tx_outcome

abbreviation feeDistributionBpsDenominator :: int where "feeDistributionBpsDenominator \<equiv> 10000"

subsection \<open>Rules\<close>

text \<open>The column \<open>active\<close> has the default true, which GORM uses for a zero value: a rule is active once created.\<close>

definition CreateRule :: "dist_drv \<Rightarrow> FeeDistributionRule \<Rightarrow> dist_db \<Rightarrow> (string + FeeDistributionRule) \<times> dist_db" where
  "CreateRule drv rule db =
     (if add64 (add64 (fr_PlatformShareBps rule) (fr_LiquidityProvidersShareBps rule)) (fr_TokenHoldersShareBps rule)
           \<noteq> feeDistributionBpsDenominator
      then (Inl ''platform, liquidity provider, and token holder shares must sum to 10000 basis points'', db)
      else case g_create (d_rules drv) (rule\<lparr> fr_Active := True \<rparr>) (t_rules db) of
             Inl e \<Rightarrow> (Inl (err_text e), db)
           | Inr (r, rs) \<Rightarrow> (Inr r, db\<lparr> t_rules := rs \<rparr>))"

definition ActivateRule :: "dist_drv \<Rightarrow> nat \<Rightarrow> dist_db \<Rightarrow> (string + unit) \<times> dist_db" where
  "ActivateRule drv i db =
     (case transaction (d_dtx drv) (\<lambda>db.
             and_then (g_update (d_rules drv) fr_Active (fr_Active_update (\<lambda>_. False)) (t_rules db)) (\<lambda>(_, rs).
             and_then (g_update (d_rules drv) (\<lambda>r. fr_ID r = i) (fr_Active_update (\<lambda>_. True)) rs) (\<lambda>(n, rs').
               if n = 0 then Inl (DBError ''fee distribution rule not found'')
               else Inr ((), db\<lparr> t_rules := rs' \<rparr>)))) db of
        (Inl e, db') \<Rightarrow> (Inl (err_text e), db')
      | (Inr _, db') \<Rightarrow> (Inr (), db'))"

definition GetActiveRule :: "dist_drv \<Rightarrow> dist_db \<Rightarrow> dberr + FeeDistributionRule" where
  "GetActiveRule drv db = g_first (d_rules drv) fr_Active (t_rules db)"

definition ListRules :: "dist_drv \<Rightarrow> dist_db \<Rightarrow> dberr + FeeDistributionRule list" where
  "ListRules drv db = g_find (d_rules drv) ((Where (\<lambda>_. True))\<lparr> q_order := (\<lambda>x y. fr_CreatedAt x \<ge> fr_CreatedAt y) \<rparr>) (t_rules db)"

subsection \<open>Runs with their allocations\<close>

definition GetRun :: "dist_drv \<Rightarrow> nat \<Rightarrow> dist_db \<Rightarrow> dberr + FeeDistributionRun \<times> FeeDistributionAllocation list" where
  "GetRun drv i db =
     and_then (g_first (d_runs drv) (\<lambda>r. rn_ID r = i) (t_runs db)) (\<lambda>run.
     and_then (g_find (d_allocs drv) (Where (\<lambda>a. al_RunID a = rn_ID run)) (t_allocs db)) (\<lambda>as.
       Inr (run, as)))"

definition ListRuns :: "dist_drv \<Rightarrow> int \<Rightarrow> dist_db \<Rightarrow> dberr + (FeeDistributionRun \<times> FeeDistributionAllocation list) list" where
  "ListRuns drv limit db =
     and_then (g_find (d_runs drv) (offset_limit 0 limit ((Where (\<lambda>_. True))\<lparr> q_order := (\<lambda>x y. rn_CreatedAt x \<ge> rn_CreatedAt y) \<rparr>))
                 (t_runs db)) (\<lambda>runs.
     and_then (g_find (d_allocs drv) (Where (\<lambda>a. al_RunID a \<in> set (map rn_ID runs))) (t_allocs db)) (\<lambda>as.
       Inr (map (\<lambda>r. (r, filter (\<lambda>a. al_RunID a = rn_ID r) as)) runs)))"

subsection \<open>Pro-rata allocation\<close>

text \<open>The Go map from address to share, in insertion order.\<close>

fun add_share :: "string \<Rightarrow> int \<Rightarrow> (string \<times> int) list \<Rightarrow> (string \<times> int) list" where
  "add_share a n [] = [(a, add64 0 n)]"
| "add_share a n ((b, m) # xs) = (if b = a then (b, add64 m n) # xs else (b, m) # add_share a n xs)"

definition share_totals :: "(string \<times> int) list \<Rightarrow> (string \<times> int) list \<times> int" where
  "share_totals xs = (foldl (\<lambda>m (a, n). add_share a n m) [] xs, foldl (\<lambda>t (a, n). add64 t n) 0 xs)"

definition buildProRataAllocations :: "((string \<times> int) list \<Rightarrow> (string \<times> int) list) \<Rightarrow> nat \<Rightarrow> DistributionRecipientType \<Rightarrow>
    int \<Rightarrow> (string \<times> int) list \<Rightarrow> int \<Rightarrow> FeeDistributionAllocation list" where
  "buildProRataAllocations iter runID recipientType totalAmount sharesByAddress totalShares =
     (if totalShares \<le> 0 then []
      else map (\<lambda>(address, share). \<lparr> al_ID = 0, al_RunID = runID, al_RecipientType = recipientType, al_RecipientAddress = address,
                  al_AmountStroops = quo64 (mul64 totalAmount share) totalShares, al_Status = ''pending'' \<rparr>)
             (filter (\<lambda>(address, share). quo64 (mul64 totalAmount share) totalShares > 0) (iter sharesByAddress)))"

definition lp_shares :: "LiquidityPosition list \<Rightarrow> (string \<times> int) list" where
  "lp_shares ps = map (\<lambda>p. (pos_ProviderAddress p, pos_LPTokens p)) ps"

definition allocateProRataToLiquidityProviders :: "dist_drv \<Rightarrow> ((string \<times> int) list \<Rightarrow> (string \<times> int) list) \<Rightarrow> nat \<Rightarrow> int \<Rightarrow>
    dist_db \<Rightarrow> dberr + FeeDistributionAllocation list" where
  "allocateProRataToLiquidityProviders drv iter runID totalAmount db =
     and_then (g_find (d_lps drv) (Where (\<lambda>p. pos_LPTokens p > 0)) (t_lps db)) (\<lambda>positions.
       let (totalsByProvider, totalLPTokens) = share_totals (lp_shares positions)
       in Inr (buildProRataAllocations iter runID RecipientLiquidityProvider totalAmount totalsByProvider totalLPTokens))"

text \<open>\<open>Preload("User")\<close> fetches the users of the balances; a balance without a user has the empty address.\<close>

definition holder_address :: "holder list \<Rightarrow> UserBalance \<Rightarrow> string" where
  "holder_address us b = (case find (\<lambda>u. hd_ID u = ub_UserID b) us of None \<Rightarrow> '''' | Some u \<Rightarrow> hd_StellarAddress u)"

definition holder_shares :: "holder list \<Rightarrow> UserBalance list \<Rightarrow> (string \<times> int) list" where
  "holder_shares us bs = filter (\<lambda>(a, n). a \<noteq> '''') (map (\<lambda>b. (holder_address us b, ub_Balance b)) bs)"

definition allocateProRataToTokenHolders :: "dist_drv \<Rightarrow> ((string \<times> int) list \<Rightarrow> (string \<times> int) list) \<Rightarrow> nat \<Rightarrow> int \<Rightarrow>
    dist_db \<Rightarrow> dberr + FeeDistributionAllocation list" where
  "allocateProRataToTokenHolders drv iter runID totalAmount db =
     and_then (g_find (d_balances drv) (Where (\<lambda>b. ub_Balance b > 0)) (t_balances db)) (\<lambda>balances.
     and_then (g_find (d_holders drv) (Where (\<lambda>u. hd_ID u \<in> set (map ub_UserID balances))) (t_holders db)) (\<lambda>us.
       let (totalsByHolder, totalBalance) = share_totals (holder_shares us balances)
       in Inr (buildProRataAllocations iter runID RecipientTokenHolder totalAmount totalsByHolder totalBalance)))"

definition platformTreasuryAddress :: string where
  "platformTreasuryAddress = ''PLATFORM_TREASURY''"

definition platform_allocation :: "nat \<Rightarrow> int \<Rightarrow> FeeDistributionAllocation list" where
  "platform_allocation runID platformAmount =
     (if platformAmount > 0
      then [\<lparr> al_ID = 0, al_RunID = runID, al_RecipientType = RecipientPlatform, al_RecipientAddress = platformTreasuryAddress,
              al_AmountStroops = platformAmount, al_Status = ''pending'' \<rparr>]
      else [])"

subsection \<open>A distribution\<close>

definition split_fees :: "FeeDistributionRule \<Rightarrow> int \<Rightarrow> int \<times> int \<times> int" where
  "split_fees rule totalFees =
     (let platformAmount = quo64 (mul64 totalFees (fr_PlatformShareBps rule)) feeDistributionBpsDenominator;
          lpAmount = quo64 (mul64 totalFees (fr_LiquidityProvidersShareBps rule)) feeDistributionBpsDenominator
      in (platformAmount, lpAmount, sub64 (sub64 totalFees platformAmount) lpAmount))"

definition all_allocations :: "dist_drv \<Rightarrow> ((string \<times> int) list \<Rightarrow> (string \<times> int) list) \<Rightarrow> FeeDistributionRun \<Rightarrow> dist_db \<Rightarrow>
    dberr + FeeDistributionAllocation list" where
  "all_allocations drv iter run db =
     and_then (if rn_LiquidityProvidersAmountStroops run > 0
               then allocateProRataToLiquidityProviders drv iter (rn_ID run) (rn_LiquidityProvidersAmountStroops run) db
               else Inr []) (\<lambda>lp.
     and_then (if rn_TokenHoldersAmountStroops run > 0
               then allocateProRataToTokenHolders drv iter (rn_ID run) (rn_TokenHoldersAmountStroops run) db
               else Inr []) (\<lambda>hd.
       Inr (platform_allocation (rn_ID run) (rn_PlatformAmountStroops run) @ lp @ hd)))"

text \<open>The key the run has in memory afterwards, and the outcome on the tables.\<close>

definition dist_tx :: "dist_drv \<Rightarrow> ((string \<times> int) list \<Rightarrow> (string \<times> int) list) \<Rightarrow> instant \<Rightarrow> FeeDistributionRun \<Rightarrow> dist_db \<Rightarrow>
    nat \<times> (dberr + unit \<times> dist_db)" where
  "dist_tx drv iter now run db =
     (case g_create (d_runs drv) run (t_runs db) of
        Inl e \<Rightarrow> (0, Inl e)
      | Inr (run', runs) \<Rightarrow>
          (rn_ID run',
           and_then (all_allocations drv iter run' db) (\<lambda>as.
           and_then (create_all (d_allocs drv) as (t_allocs db)) (\<lambda>allocs.
           and_then (g_update (d_runs drv) (\<lambda>r. rn_ID r = rn_ID run')
                       (\<lambda>r. r\<lparr> rn_RecipientCount := int (length as), rn_Status := DistributionStatusCompleted, rn_CompletedAt := Some now \<rparr>)
                       runs) (\<lambda>(_, runs').
             Inr ((), db\<lparr> t_runs := runs', t_allocs := allocs \<rparr>))))))"

definition mark_failed :: "dist_drv \<Rightarrow> nat \<Rightarrow> dist_db \<Rightarrow> dist_db" where
  "mark_failed drv i db =
     (if i = 0 then db
      else case g_update (d_runs drv) (\<lambda>r. rn_ID r = i) (rn_Status_update (\<lambda>_. DistributionStatusFailed)) (t_runs db) of
             Inl _ \<Rightarrow> db | Inr (_, runs) \<Rightarrow> db\<lparr> t_runs := runs \<rparr>)"

definition in_period :: "instant \<Rightarrow> instant \<Rightarrow> FeeTransaction \<Rightarrow> bool" where
  "in_period periodStart periodEnd t \<longleftrightarrow> ft_CreatedAt t \<ge> periodStart \<and> ft_CreatedAt t < periodEnd \<and> ft_Status t = ''completed''"

definition pending_run :: "FeeDistributionRule \<Rightarrow> instant \<Rightarrow> instant \<Rightarrow> instant \<Rightarrow> int \<Rightarrow> string \<Rightarrow> FeeDistributionRun" where
  "pending_run rule now periodStart periodEnd totalFees triggeredBy =
     \<lparr> rn_ID = 0, rn_RuleID = fr_ID rule, rn_PeriodStart = periodStart, rn_PeriodEnd = periodEnd,
       rn_TotalFeesStroops = totalFees, rn_PlatformAmountStroops = 0, rn_LiquidityProvidersAmountStroops = 0,
       rn_TokenHoldersAmountStroops = 0, rn_RecipientCount = 0, rn_Status = DistributionStatusPending,
       rn_TriggeredBy = triggeredBy, rn_CreatedAt = now, rn_CompletedAt = None \<rparr>"

definition RunDistribution :: "dist_drv \<Rightarrow> ((string \<times> int) list \<Rightarrow> (string \<times> int) list) \<Rightarrow> instant \<Rightarrow> instant \<Rightarrow> instant \<Rightarrow>
    string \<Rightarrow> dist_db \<Rightarrow> (string + FeeDistributionRun \<times> FeeDistributionAllocation list) \<times> dist_db" where
  "RunDistribution drv iter now periodStart periodEnd triggeredBy db =
     (case GetActiveRule drv db of
        Inl ErrRecordNotFound \<Rightarrow> (Inl ''no active fee distribution rule is configured'', db)
      | Inl e \<Rightarrow> (Inl (err_text e), db)
      | Inr rule \<Rightarrow>
          (case d_sum drv (in_period periodStart periodEnd) (t_fees db) of
             Inl e \<Rightarrow> (Inl (''failed to total fees for period: '' @ err_text e), db)
           | Inr totalFees \<Rightarrow>
               (let run = pending_run rule now periodStart periodEnd totalFees triggeredBy
                in if totalFees \<le> 0
                   then (case g_create (d_runs drv) (run\<lparr> rn_Status := DistributionStatusCompleted, rn_CompletedAt := Some now \<rparr>) (t_runs db) of
                           Inl e \<Rightarrow> (Inl (err_text e), db)
                         | Inr (r, rs) \<Rightarrow> (Inr (r, []), db\<lparr> t_runs := rs \<rparr>))
                   else
                     (let (platformAmount, lpAmount, holderAmount) = split_fees rule totalFees;
                          run1 = run\<lparr> rn_PlatformAmountStroops := platformAmount,
                                      rn_LiquidityProvidersAmountStroops := lpAmount,
                                      rn_TokenHoldersAmountStroops := holderAmount \<rparr>;
                          i = (if tx_begin (d_dtx drv) = None then fst (dist_tx drv iter now run1 db) else 0)
                      in case transaction (d_dtx drv) (\<lambda>db. snd (dist_tx drv iter now run1 db)) db of
                           (Inl e, db') \<Rightarrow> (Inl (''fee distribution run failed: '' @ err_text e), mark_failed drv i db')
                         | (Inr _, db') \<Rightarrow>
                             (case GetRun drv i db' of
                                Inl e \<Rightarrow> (Inl (err_text e), db')
                              | Inr r \<Rightarrow> (Inr r, db'))))))"


subsection \<open>Contracts\<close>

definition sum_fees :: "instant \<Rightarrow> instant \<Rightarrow> FeeTransaction list \<Rightarrow> int" where
  "sum_fees s e fs = sum_list (map ft_TotalFeeStroops (filter (in_period s e) fs))"

definition dist_drv_ok :: "dist_drv \<Rightarrow> bool" where
  "dist_drv_ok drv \<longleftrightarrow> gorm_ok fr_ID (\<lambda>k. fr_ID_update (\<lambda>_. k)) (d_rules drv) \<and> gorm_ok rn_ID (\<lambda>k. rn_ID_update (\<lambda>_. k)) (d_runs drv) \<and>
     gorm_ok al_ID (\<lambda>k. al_ID_update (\<lambda>_. k)) (d_allocs drv) \<and> gorm_ok pos_ID (\<lambda>k. pos_ID_update (\<lambda>_. k)) (d_lps drv) \<and>
     gorm_ok ub_ID (\<lambda>k. ub_ID_update (\<lambda>_. k)) (d_balances drv) \<and> gorm_ok hd_ID (\<lambda>k. hd_ID_update (\<lambda>_. k)) (d_holders drv) \<and>
     (\<forall>P rows n. d_sum drv P rows = Inr n \<longrightarrow> n = sum_list (map ft_TotalFeeStroops (filter P rows)))"

definition iter_ok :: "((string \<times> int) list \<Rightarrow> (string \<times> int) list) \<Rightarrow> bool" where
  "iter_ok iter \<longleftrightarrow> (\<forall>xs. mset (iter xs) = mset xs)"

definition mem_dist :: dist_drv where
  "mem_dist = \<lparr> d_rules = mem_gorm fr_ID (\<lambda>k. fr_ID_update (\<lambda>_. k)), d_runs = mem_gorm rn_ID (\<lambda>k. rn_ID_update (\<lambda>_. k)),
     d_allocs = mem_gorm al_ID (\<lambda>k. al_ID_update (\<lambda>_. k)), d_lps = mem_gorm pos_ID (\<lambda>k. pos_ID_update (\<lambda>_. k)),
     d_balances = mem_gorm ub_ID (\<lambda>k. ub_ID_update (\<lambda>_. k)), d_holders = mem_gorm hd_ID (\<lambda>k. hd_ID_update (\<lambda>_. k)),
     d_sum = (\<lambda>P rows. Inr (sum_list (map ft_TotalFeeStroops (filter P rows)))), d_dtx = tx_fine \<rparr>"

lemma mem_dist_ok: "dist_drv_ok mem_dist"
  by (simp add: dist_drv_ok_def mem_dist_def mem_gorm_ok)

definition lp_total :: "dist_db \<Rightarrow> int" where
  "lp_total db = sum_list (map pos_LPTokens (filter (\<lambda>p. pos_LPTokens p > 0) (t_lps db)))"

definition balance_total :: "dist_db \<Rightarrow> int" where
  "balance_total db = sum_list (map ub_Balance (filter (\<lambda>b. ub_Balance b > 0) (t_balances db)))"

definition rule_wf :: "FeeDistributionRule \<Rightarrow> bool" where
  "rule_wf r \<longleftrightarrow> 0 \<le> fr_PlatformShareBps r \<and> 0 \<le> fr_LiquidityProvidersShareBps r \<and> 0 \<le> fr_TokenHoldersShareBps r \<and>
     fr_PlatformShareBps r + fr_LiquidityProvidersShareBps r + fr_TokenHoldersShareBps r = 10000"

text \<open>The products of a distribution stay within 64 bits.\<close>

definition dist_fits :: "instant \<Rightarrow> instant \<Rightarrow> dist_db \<Rightarrow> bool" where
  "dist_fits s e db \<longleftrightarrow> in_i64 (lp_total db) \<and> in_i64 (balance_total db) \<and>
     (let t = sum_fees s e (t_fees db) in 0 < t \<longrightarrow> in_i64 (t * 10000) \<and> in_i64 (t * lp_total db) \<and> in_i64 (t * balance_total db))"

subsection \<open>Pro-rata sums\<close>

lemma sum_snd_nonneg: "\<forall>x\<in>set m. 0 \<le> snd x \<Longrightarrow> (0::int) \<le> sum_list (map snd m)"
  by (intro sum_list_nonneg_int) auto

lemma add_share_sum:
  assumes "0 \<le> n" "\<forall>x\<in>set m. 0 \<le> snd x" "in_i64 (sum_list (map snd m) + n)"
  shows "sum_list (map snd (add_share a n m)) = sum_list (map snd m) + n \<and> (\<forall>x\<in>set (add_share a n m). 0 \<le> snd x)"
  using assms(2,3)
proof (induction m)
  case Nil
  then show ?case using assms(1) by (simp add: add64_exact)
next
  case (Cons x xs)
  obtain b k where x: "x = (b, k)" by (cases x)
  have nn: "0 \<le> k" "0 \<le> sum_list (map snd xs)" using Cons.prems(1) sum_snd_nonneg[of xs] by (simp_all add: x)
  have all: "in_i64 (k + sum_list (map snd xs) + n)" using Cons.prems(2) by (simp add: x)
  have fit: "in_i64 (k + n)" by (rule in_i64_nonneg[OF _ _ all]) (use assms(1) nn in simp_all)
  have fit': "in_i64 (sum_list (map snd xs) + n)" by (rule in_i64_nonneg[OF _ _ all]) (use assms(1) nn in simp_all)
  show ?case using Cons.IH[OF _ fit'] Cons.prems(1) nn assms(1) by (auto simp: x add64_exact[OF fit])
qed

lemma share_totals_sum:
  assumes "\<forall>x\<in>set xs. 0 \<le> snd x" "in_i64 (sum_list (map snd xs))"
  shows "snd (share_totals xs) = sum_list (map snd xs)" "sum_list (map snd (fst (share_totals xs))) = sum_list (map snd xs)"
    "\<forall>x\<in>set (fst (share_totals xs)). 0 \<le> snd x"
proof -
  have "foldl (\<lambda>a q. add64 a (snd q)) 0 xs = 0 + sum_list (map snd xs)"
    using assms by (intro foldl_add64_exact) simp_all
  then show "snd (share_totals xs) = sum_list (map snd xs)" by (simp add: share_totals_def case_prod_unfold)
  have "sum_list (map snd (foldl (\<lambda>m (a, n). add_share a n m) m xs)) = sum_list (map snd m) + sum_list (map snd xs) \<and>
      (\<forall>x\<in>set (foldl (\<lambda>m (a, n). add_share a n m) m xs). 0 \<le> snd x)"
    if "\<forall>x\<in>set m. 0 \<le> snd x" "\<forall>x\<in>set xs. 0 \<le> snd x" "in_i64 (sum_list (map snd m) + sum_list (map snd xs))" for m xs
    using that
  proof (induction xs arbitrary: m)
    case (Cons x xs)
    obtain a n where x: "x = (a, n)" by (cases x)
    have nn: "0 \<le> n" "0 \<le> sum_list (map snd xs)" "0 \<le> sum_list (map snd m)"
      using Cons.prems(1,2) sum_snd_nonneg[of xs] sum_snd_nonneg[of m] by (simp_all add: x)
    have "in_i64 (sum_list (map snd m) + n)"
      by (rule in_i64_nonneg[OF _ _ Cons.prems(3)]) (use nn in \<open>simp_all add: x\<close>)
    note s = add_share_sum[OF nn(1) Cons.prems(1) this, of a]
    show ?case using Cons.IH[of "add_share a n m"] s Cons.prems by (simp add: x add.assoc)
  qed simp
  from this[of "[]" xs] assms show "sum_list (map snd (fst (share_totals xs))) = sum_list (map snd xs)"
    "\<forall>x\<in>set (fst (share_totals xs)). 0 \<le> snd x" by (simp_all add: share_totals_def)
qed

definition amounts :: "FeeDistributionAllocation list \<Rightarrow> int" where
  "amounts as = sum_list (map al_AmountStroops as)"

lemma sum_list_filter_le:
  "(\<And>x. x \<in> set xs \<Longrightarrow> (0::int) \<le> f x) \<Longrightarrow> sum_list (map f (filter P xs)) \<le> sum_list (map f xs)"
  by (induction xs) (auto intro: order_trans)

lemma buildProRata_sum:
  assumes it: "iter_ok iter" and nn: "\<forall>x\<in>set sh. 0 \<le> snd x" and T: "sum_list (map snd sh) = T" and A: "0 \<le> A" "in_i64 (A * T)"
  shows "0 \<le> amounts (buildProRataAllocations iter i ty A sh T)" "amounts (buildProRataAllocations iter i ty A sh T) \<le> A"
    "\<forall>a\<in>set (buildProRataAllocations iter i ty A sh T). al_RunID a = i \<and> al_RecipientType a = ty \<and> 0 < al_AmountStroops a"
proof -
  let ?as = "buildProRataAllocations iter i ty A sh T"
  let ?q = "\<lambda>x. quo64 (mul64 A (snd x)) T"
  show al: "\<forall>a\<in>set ?as. al_RunID a = i \<and> al_RecipientType a = ty \<and> 0 < al_AmountStroops a"
    by (auto simp: buildProRataAllocations_def)
  then show "0 \<le> amounts ?as" unfolding amounts_def by (intro sum_list_nonneg_int) (auto intro: order.strict_implies_order)
  show "amounts ?as \<le> A"
  proof (cases "T \<le> 0")
    case True
    then show ?thesis using A by (simp add: buildProRataAllocations_def amounts_def)
  next
    case False
    have ms: "mset (iter sh) = mset sh" using it by (simp add: iter_ok_def)
    have q: "?q x = A * snd x div T \<and> 0 \<le> A * snd x div T" if "x \<in> set sh" for x
    proof -
      have "0 \<le> snd x" "snd x \<le> T" using nn that T member_le_sum_list_int[of sh snd x] by auto
      then have b: "0 \<le> A * snd x" "A * snd x \<le> A * T" using A(1) by (simp_all add: mult_left_mono)
      have f: "in_i64 (A * snd x)" by (rule in_i64_nonneg[OF b A(2)])
      show ?thesis using False b(1) by (simp add: mul64_exact[OF f] quo64_nonneg[OF b(1) _ f] pos_imp_zdiv_nonneg_iff)
    qed
    have "amounts ?as = sum_list (map ?q (filter (\<lambda>x. ?q x > 0) (iter sh)))"
      using False by (simp add: buildProRataAllocations_def amounts_def case_prod_unfold o_def)
    also have "\<dots> \<le> sum_list (map ?q (iter sh))"
    proof (rule sum_list_filter_le)
      fix x assume "x \<in> set (iter sh)"
      then have "x \<in> set sh" using ms by (metis set_mset_mset)
      then show "0 \<le> ?q x" using q[of x] by simp
    qed
    also have "\<dots> = sum_list (map ?q sh)" by (rule sum_list_mset_eq[OF ms])
    also have "\<dots> = sum_list (map (\<lambda>x. A * snd x div T) sh)" using q by (intro arg_cong[where f = sum_list] map_cong) auto
    also have "\<dots> \<le> sum_list (map (\<lambda>x. A * snd x) sh) div T" using False by (intro sum_div_le) simp
    also have "\<dots> = A" using T False by (simp add: sum_list_const_mult)
    finally show ?thesis .
  qed
qed

lemma split_fees_conserves:
  assumes "rule_wf rule" "0 < t" "in_i64 (t * 10000)" "split_fees rule t = (p, l, h)"
  shows "p + l + h = t" "0 \<le> p" "0 \<le> l" "0 \<le> h" "p \<le> t" "l \<le> t" "h \<le> t"
proof -
  have sh: "0 \<le> s \<Longrightarrow> s \<le> 10000 \<Longrightarrow> quo64 (mul64 t s) 10000 = t * s div 10000 \<and> 0 \<le> t * s div 10000" for s
  proof -
    assume s: "0 \<le> s" "s \<le> 10000"
    then have b: "0 \<le> t * s" "t * s \<le> t * 10000" using assms(2) by (simp_all add: mult_left_mono)
    have f: "in_i64 (t * s)" by (rule in_i64_nonneg[OF b assms(3)])
    show ?thesis using b by (simp add: mul64_exact[OF f] quo64_nonneg[OF b(1) _ f] pos_imp_zdiv_nonneg_iff)
  qed
  let ?p = "fr_PlatformShareBps rule" and ?l = "fr_LiquidityProvidersShareBps rule"
  have pl: "p = t * ?p div 10000" "l = t * ?l div 10000" and nn: "0 \<le> p" "0 \<le> l"
    using assms(1,4) sh[of ?p] sh[of ?l] by (auto simp: split_fees_def Let_def rule_wf_def)
  have "p + l \<le> (t * ?p + t * ?l) div 10000" unfolding pl using sum_div_le[of 10000 "\<lambda>x. x" "[t * ?p, t * ?l]"] by simp
  also have "\<dots> \<le> t * 10000 div 10000"
    using assms(1,2) by (intro zdiv_mono1) (simp_all add: distrib_left[symmetric] rule_wf_def)
  finally have le: "p + l \<le> t" by simp
  have it: "in_i64 t" using assms(2) by (intro in_i64_nonneg[OF _ _ assms(3)]) simp_all
  have "sub64 t p = t - p" "sub64 (t - p) l = t - p - l"
    using nn le assms(2) it by (intro sub64_exact in_i64_nonneg[OF _ _ it]; simp)+
  then have h: "h = t - p - l" using assms(4) by (auto simp: split_fees_def Let_def)
  show "p + l + h = t" "0 \<le> p" "0 \<le> l" "0 \<le> h" "p \<le> t" "l \<le> t" "h \<le> t" using h nn le by simp_all
qed


subsection \<open>Invariant\<close>

definition paid :: "nat \<Rightarrow> DistributionRecipientType \<Rightarrow> FeeDistributionAllocation list \<Rightarrow> int" where
  "paid i ty as = sum_list (map (\<lambda>a. if al_RunID a = i \<and> al_RecipientType a = ty then al_AmountStroops a else 0) as)"

fun category :: "FeeDistributionRun \<Rightarrow> DistributionRecipientType \<Rightarrow> int" where
  "category r RecipientPlatform = rn_PlatformAmountStroops r"
| "category r RecipientLiquidityProvider = rn_LiquidityProvidersAmountStroops r"
| "category r RecipientTokenHolder = rn_TokenHoldersAmountStroops r"

definition run_ok :: "FeeDistributionAllocation list \<Rightarrow> FeeDistributionRun \<Rightarrow> bool" where
  "run_ok as r \<longleftrightarrow> rn_PlatformAmountStroops r + rn_LiquidityProvidersAmountStroops r + rn_TokenHoldersAmountStroops r =
       max 0 (rn_TotalFeesStroops r) \<and>
     (\<forall>ty. 0 \<le> paid (rn_ID r) ty as \<and> paid (rn_ID r) ty as \<le> category r ty) \<and> rn_Status r = DistributionStatusCompleted"

definition dist_inv :: "dist_db \<Rightarrow> bool" where
  "dist_inv db \<longleftrightarrow> (\<forall>r\<in>set (t_rules db). rule_wf r) \<and> (\<forall>r\<in>set (t_runs db). run_ok (t_allocs db) r) \<and>
     (\<forall>r\<in>set (t_runs db). rn_TotalFeesStroops r = sum_fees (rn_PeriodStart r) (rn_PeriodEnd r) (t_fees db)) \<and>
     (\<forall>a\<in>set (t_allocs db). al_RunID a \<in> rn_ID ` set (t_runs db) \<and> 0 < al_AmountStroops a)"

definition al_core :: "FeeDistributionAllocation \<Rightarrow> nat \<times> DistributionRecipientType \<times> int" where
  "al_core a = (al_RunID a, al_RecipientType a, al_AmountStroops a)"

lemma paid_append [simp]: "paid i ty (xs @ ys) = paid i ty xs + paid i ty ys"
  by (simp add: paid_def)

lemma paid_core:
  assumes "map al_core xs = map al_core ys"
  shows "paid i ty xs = paid i ty ys"
proof -
  have p: "paid i ty zs = sum_list (map (\<lambda>(r, t, n). if r = i \<and> t = ty then n else 0) (map al_core zs))" for zs
    by (simp add: paid_def al_core_def o_def)
  show ?thesis unfolding p assms ..
qed

lemma paid_none: "\<forall>a\<in>set as. al_RunID a \<noteq> i \<Longrightarrow> paid i ty as = 0"
  unfolding paid_def by (induction as) auto

lemma paid_uniform:
  "\<forall>a\<in>set as. al_RunID a = i \<and> al_RecipientType a = t0 \<Longrightarrow> paid i ty as = (if ty = t0 then amounts as else 0)"
  unfolding paid_def amounts_def by (induction as) auto

lemma stored_core:
  assumes "gorm_ok al_ID (\<lambda>k. al_ID_update (\<lambda>_. k)) g" "create_all g as rows = Inr rows'"
  shows "map al_core rows' = map al_core rows @ map al_core as"
  by (rule create_all_core[OF assms(1) _ assms(2)]) (simp add: al_core_def)

lemma lp_allocations:
  assumes drv: "dist_drv_ok drv" and it: "iter_ok iter" and A: "0 \<le> A" "in_i64 (A * lp_total db)" "in_i64 (lp_total db)"
    and r: "allocateProRataToLiquidityProviders drv iter i A db = Inr as"
  shows "0 \<le> amounts as" "amounts as \<le> A"
    "\<forall>a\<in>set as. al_RunID a = i \<and> al_RecipientType a = RecipientLiquidityProvider \<and> 0 < al_AmountStroops a"
proof -
  have ok: "gorm_ok pos_ID (\<lambda>k. pos_ID_update (\<lambda>_. k)) (d_lps drv)" using drv by (simp add: dist_drv_ok_def)
  obtain ps where f: "g_find (d_lps drv) (Where (\<lambda>p. pos_LPTokens p > 0)) (t_lps db) = Inr ps"
    and as: "as = buildProRataAllocations iter i RecipientLiquidityProvider A (fst (share_totals (lp_shares ps))) (snd (share_totals (lp_shares ps)))"
    using r by (auto simp: allocateProRataToLiquidityProviders_def and_then_def Let_def split: sum.splits prod.splits)
  have ms: "mset ps = mset (filter (\<lambda>p. pos_LPTokens p > 0) (t_lps db))" by (rule gorm_find_Where[OF ok f])
  have "set ps = {p \<in> set (t_lps db). pos_LPTokens p > 0}" using ms by (metis set_filter set_mset_mset)
  then have nn: "\<forall>x\<in>set (lp_shares ps). 0 \<le> snd x" by (auto simp: lp_shares_def)
  have "map snd (lp_shares ps) = map pos_LPTokens ps" by (simp add: lp_shares_def o_def)
  then have tot: "sum_list (map snd (lp_shares ps)) = lp_total db" using sum_list_mset_eq[OF ms, of pos_LPTokens] by (simp add: lp_total_def)
  note s = share_totals_sum[OF nn, unfolded tot, OF A(3)]
  show "0 \<le> amounts as" "amounts as \<le> A"
    "\<forall>a\<in>set as. al_RunID a = i \<and> al_RecipientType a = RecipientLiquidityProvider \<and> 0 < al_AmountStroops a"
    unfolding as s(1) using buildProRata_sum[OF it s(3,2) A(1,2)] by blast+
qed

lemma holder_allocations:
  assumes drv: "dist_drv_ok drv" and it: "iter_ok iter" and A: "0 \<le> A" "in_i64 (A * balance_total db)" "in_i64 (balance_total db)"
    and r: "allocateProRataToTokenHolders drv iter i A db = Inr as"
  shows "0 \<le> amounts as" "amounts as \<le> A"
    "\<forall>a\<in>set as. al_RunID a = i \<and> al_RecipientType a = RecipientTokenHolder \<and> 0 < al_AmountStroops a"
proof -
  have ok: "gorm_ok ub_ID (\<lambda>k. ub_ID_update (\<lambda>_. k)) (d_balances drv)" using drv by (simp add: dist_drv_ok_def)
  obtain bs us where f: "g_find (d_balances drv) (Where (\<lambda>b. ub_Balance b > 0)) (t_balances db) = Inr bs"
    and as: "as = buildProRataAllocations iter i RecipientTokenHolder A (fst (share_totals (holder_shares us bs))) (snd (share_totals (holder_shares us bs)))"
    using r by (auto simp: allocateProRataToTokenHolders_def and_then_def Let_def case_prod_unfold split: sum.splits)
  have ms: "mset bs = mset (filter (\<lambda>b. ub_Balance b > 0) (t_balances db))" by (rule gorm_find_Where[OF ok f])
  have sb: "set bs = {b \<in> set (t_balances db). ub_Balance b > 0}" using ms by (metis set_filter set_mset_mset)
  then have nn: "\<forall>x\<in>set (holder_shares us bs). 0 \<le> snd x" by (auto simp: holder_shares_def)
  have "sum_list (map snd (holder_shares us bs)) \<le> sum_list (map snd (map (\<lambda>b. (holder_address us b, ub_Balance b)) bs))"
    unfolding holder_shares_def using sb by (intro sum_list_filter_le) auto
  also have "\<dots> = sum_list (map ub_Balance bs)" by (simp add: o_def)
  also have "\<dots> = balance_total db" using sum_list_mset_eq[OF ms, of ub_Balance] by (simp add: balance_total_def)
  finally have le: "sum_list (map snd (holder_shares us bs)) \<le> balance_total db" .
  have s0: "0 \<le> sum_list (map snd (holder_shares us bs))" by (rule sum_snd_nonneg[OF nn])
  have "in_i64 (sum_list (map snd (holder_shares us bs)))" by (rule in_i64_nonneg[OF s0 le A(3)])
  note s = share_totals_sum[OF nn this]
  have fit: "in_i64 (A * sum_list (map snd (holder_shares us bs)))"
    by (rule in_i64_nonneg[OF _ _ A(2)]) (use A(1) s0 le in \<open>simp_all add: mult_left_mono\<close>)
  show "0 \<le> amounts as" "amounts as \<le> A"
    "\<forall>a\<in>set as. al_RunID a = i \<and> al_RecipientType a = RecipientTokenHolder \<and> 0 < al_AmountStroops a"
    unfolding as s(1) using buildProRata_sum[OF it s(3,2) A(1) fit] by blast+
qed

lemma all_allocations_ok:
  assumes drv: "dist_drv_ok drv" and it: "iter_ok iter" and r: "all_allocations drv iter run db = Inr as"
    and nn: "0 \<le> rn_PlatformAmountStroops run" "0 \<le> rn_LiquidityProvidersAmountStroops run" "0 \<le> rn_TokenHoldersAmountStroops run"
    and fit: "in_i64 (rn_LiquidityProvidersAmountStroops run * lp_total db)" "in_i64 (lp_total db)"
      "in_i64 (rn_TokenHoldersAmountStroops run * balance_total db)" "in_i64 (balance_total db)"
  shows "0 \<le> paid (rn_ID run) ty as \<and> paid (rn_ID run) ty as \<le> category run ty"
    "\<forall>a\<in>set as. al_RunID a = rn_ID run \<and> 0 < al_AmountStroops a"
proof -
  obtain lp hd where lp: "(if rn_LiquidityProvidersAmountStroops run > 0
       then allocateProRataToLiquidityProviders drv iter (rn_ID run) (rn_LiquidityProvidersAmountStroops run) db else Inr []) = Inr lp"
    and hd: "(if rn_TokenHoldersAmountStroops run > 0
       then allocateProRataToTokenHolders drv iter (rn_ID run) (rn_TokenHoldersAmountStroops run) db else Inr []) = Inr hd"
    and as: "as = platform_allocation (rn_ID run) (rn_PlatformAmountStroops run) @ lp @ hd"
    using r by (auto simp: all_allocations_def and_then_def split: sum.splits)
  let ?pl = "platform_allocation (rn_ID run) (rn_PlatformAmountStroops run)"
  have L: "0 \<le> amounts lp \<and> amounts lp \<le> rn_LiquidityProvidersAmountStroops run \<and>
      (\<forall>a\<in>set lp. al_RunID a = rn_ID run \<and> al_RecipientType a = RecipientLiquidityProvider \<and> 0 < al_AmountStroops a)"
    using lp lp_allocations[OF drv it nn(2) fit(1,2)] nn(2) by (auto simp: amounts_def split: if_splits)
  have H: "0 \<le> amounts hd \<and> amounts hd \<le> rn_TokenHoldersAmountStroops run \<and>
      (\<forall>a\<in>set hd. al_RunID a = rn_ID run \<and> al_RecipientType a = RecipientTokenHolder \<and> 0 < al_AmountStroops a)"
    using hd holder_allocations[OF drv it nn(3) fit(3,4)] nn(3) by (auto simp: amounts_def split: if_splits)
  have P: "amounts ?pl = rn_PlatformAmountStroops run"
      "\<forall>a\<in>set ?pl. al_RunID a = rn_ID run \<and> al_RecipientType a = RecipientPlatform \<and> 0 < al_AmountStroops a"
    using nn(1) by (auto simp: platform_allocation_def amounts_def)
  have pd: "paid (rn_ID run) ty ?pl = (if ty = RecipientPlatform then amounts ?pl else 0)"
    "paid (rn_ID run) ty lp = (if ty = RecipientLiquidityProvider then amounts lp else 0)"
    "paid (rn_ID run) ty hd = (if ty = RecipientTokenHolder then amounts hd else 0)"
    using paid_uniform[of ?pl "rn_ID run" RecipientPlatform ty] paid_uniform[of lp "rn_ID run" RecipientLiquidityProvider ty]
      paid_uniform[of hd "rn_ID run" RecipientTokenHolder ty] L H P(2) by blast+
  show "0 \<le> paid (rn_ID run) ty as \<and> paid (rn_ID run) ty as \<le> category run ty"
    unfolding as paid_append pd using L H P(1) nn by (cases ty) simp_all
  show "\<forall>a\<in>set as. al_RunID a = rn_ID run \<and> 0 < al_AmountStroops a" unfolding as using L H P(2) by auto
qed


subsection \<open>The operations\<close>

lemma CreateRule_inv:
  assumes drv: "dist_drv_ok drv" and inv: "dist_inv db"
    and b: "0 \<le> fr_PlatformShareBps rule" "fr_PlatformShareBps rule \<le> 10000" "0 \<le> fr_LiquidityProvidersShareBps rule"
      "fr_LiquidityProvidersShareBps rule \<le> 10000" "0 \<le> fr_TokenHoldersShareBps rule" "fr_TokenHoldersShareBps rule \<le> 10000"
  shows "dist_inv (snd (CreateRule drv rule db))"
proof (cases "snd (CreateRule drv rule db) = db")
  case True
  then show ?thesis using inv by simp
next
  case False
  then obtain r rs where cr: "g_create (d_rules drv) (rule\<lparr> fr_Active := True \<rparr>) (t_rules db) = Inr (r, rs)"
    and sum: "add64 (add64 (fr_PlatformShareBps rule) (fr_LiquidityProvidersShareBps rule)) (fr_TokenHoldersShareBps rule) = 10000"
    and res: "snd (CreateRule drv rule db) = db\<lparr> t_rules := rs \<rparr>"
    by (auto simp: CreateRule_def split: if_splits sum.splits prod.splits)
  have ok: "gorm_ok fr_ID (\<lambda>k. fr_ID_update (\<lambda>_. k)) (d_rules drv)" using drv by (simp add: dist_drv_ok_def)
  obtain k where k: "r = (rule\<lparr> fr_Active := True \<rparr>)\<lparr> fr_ID := k \<rparr>" "rs = t_rules db @ [r]" by (rule gorm_createD[OF ok cr])
  have "in_i64 (fr_PlatformShareBps rule + fr_LiquidityProvidersShareBps rule)"
    "in_i64 (fr_PlatformShareBps rule + fr_LiquidityProvidersShareBps rule + fr_TokenHoldersShareBps rule)"
    using b by (simp_all add: in_i64_def)
  then have "rule_wf r" using sum b by (simp add: rule_wf_def k(1) add64_exact)
  then show ?thesis unfolding res using inv by (simp add: dist_inv_def k(2))
qed

lemma ActivateRule_body:
  assumes drv: "dist_drv_ok drv" and r: "ActivateRule drv i db = (Inr u, db')"
  shows "t_rules db' = map (\<lambda>r. r\<lparr> fr_Active := (fr_ID r = i) \<rparr>) (t_rules db)" "i \<in> fr_ID ` set (t_rules db)"
    "db' = db\<lparr> t_rules := t_rules db' \<rparr>"
proof -
  let ?body = "\<lambda>db. and_then (g_update (d_rules drv) fr_Active (fr_Active_update (\<lambda>_. False)) (t_rules db)) (\<lambda>(_, rs).
     and_then (g_update (d_rules drv) (\<lambda>r. fr_ID r = i) (fr_Active_update (\<lambda>_. True)) rs) (\<lambda>(n, rs').
       if n = 0 then Inl (DBError ''fee distribution rule not found'') else Inr ((), db\<lparr> t_rules := rs' \<rparr>)))"
  have "transaction (d_dtx drv) ?body db = (Inr (), db')"
    using r by (auto simp: ActivateRule_def split: sum.splits prod.splits)
  from transaction_Inr[OF this] obtain n1 rs n rs' where u1: "g_update (d_rules drv) fr_Active (fr_Active_update (\<lambda>_. False)) (t_rules db) = Inr (n1, rs)"
    and u2: "g_update (d_rules drv) (\<lambda>r. fr_ID r = i) (fr_Active_update (\<lambda>_. True)) rs = Inr (n, rs')"
    and n: "n \<noteq> 0" and db': "db' = db\<lparr> t_rules := rs' \<rparr>"
    by (auto simp: and_then_def split: sum.splits prod.splits if_splits)
  have ok: "gorm_ok fr_ID (\<lambda>k. fr_ID_update (\<lambda>_. k)) (d_rules drv)" using drv by (simp add: dist_drv_ok_def)
  note e1 = gorm_updateD(2)[OF ok u1] and e2 = gorm_updateD[OF ok u2]
  have off: "(if fr_Active r then r\<lparr> fr_Active := False \<rparr> else r) = r\<lparr> fr_Active := False \<rparr>" for r :: FeeDistributionRule
    by (cases r) simp
  show "t_rules db' = map (\<lambda>r. r\<lparr> fr_Active := (fr_ID r = i) \<rparr>) (t_rules db)"
    unfolding db' using e2(2) e1 by (simp add: o_def off)
  have "filter (\<lambda>r. fr_ID r = i) rs \<noteq> []" using e2(1) n by auto
  then show "i \<in> fr_ID ` set (t_rules db)" unfolding e1 off by (auto simp: filter_empty_conv)
  show "db' = db\<lparr> t_rules := t_rules db' \<rparr>" by (simp add: db')
qed

lemma ActivateRule_inv:
  assumes drv: "dist_drv_ok drv" and inv: "dist_inv db"
  shows "dist_inv (snd (ActivateRule drv i db))"
proof (cases "ActivateRule drv i db")
  case (Pair res db')
  show ?thesis
  proof (cases res)
    case (Inl e)
    then have "db' = db" using Pair by (auto simp: ActivateRule_def dest: transaction_Inl split: sum.splits prod.splits)
    then show ?thesis using Pair inv by simp
  next
    case (Inr u)
    note b = ActivateRule_body[OF drv Pair[unfolded Inr]]
    have "rule_wf r" if "r \<in> set (t_rules db')" for r
      using that inv unfolding b(1) by (auto simp: dist_inv_def rule_wf_def)
    moreover have "t_runs db' = t_runs db" "t_allocs db' = t_allocs db" "t_fees db' = t_fees db"
      using arg_cong[OF b(3), of t_runs] arg_cong[OF b(3), of t_allocs] arg_cong[OF b(3), of t_fees] by simp_all
    ultimately show ?thesis using Pair inv by (simp add: dist_inv_def)
  qed
qed

lemma dist_inv_new_run:
  assumes inv: "dist_inv db" and k: "rn_ID r \<notin> rn_ID ` set (t_runs db)" and ok: "run_ok as r"
    and as: "\<forall>a\<in>set as. al_RunID a = rn_ID r \<and> 0 < al_AmountStroops a"
    and db': "t_runs db' = t_runs db @ [r]" "map al_core (t_allocs db') = map al_core (t_allocs db) @ map al_core as" "t_rules db' = t_rules db"
      "t_fees db' = t_fees db"
    and total: "rn_TotalFeesStroops r = sum_fees (rn_PeriodStart r) (rn_PeriodEnd r) (t_fees db)"
  shows "dist_inv db'"
proof -
  have refs: "al_RunID a \<in> rn_ID ` set (t_runs db)" if "a \<in> set (t_allocs db)" for a using inv that by (simp add: dist_inv_def)
  have pd: "paid i ty (t_allocs db') = paid i ty (t_allocs db) + paid i ty as" for i ty
    using paid_core[of "t_allocs db'" "t_allocs db @ as"] db'(2) by simp
  have new: "paid (rn_ID r) ty (t_allocs db) = 0" for ty using refs k by (intro paid_none) metis
  have old: "paid (rn_ID x) ty as = 0" if "x \<in> set (t_runs db)" for x ty using as k that by (intro paid_none) (metis imageI)
  have "run_ok (t_allocs db') x" if "x \<in> set (t_runs db')" for x
    using that inv ok unfolding db'(1) by (auto simp: run_ok_def pd new old dist_inv_def)
  moreover have "al_RunID a \<in> rn_ID ` set (t_runs db') \<and> 0 < al_AmountStroops a" if "a \<in> set (t_allocs db')" for a
  proof -
    have "al_core a \<in> set (map al_core (t_allocs db) @ map al_core as)" using that db'(2) by (metis in_set_conv_nth length_map nth_map nth_mem)
    then obtain b where "b \<in> set (t_allocs db) \<or> b \<in> set as" "al_core a = al_core b" by auto
    then show ?thesis using inv as by (auto simp: al_core_def dist_inv_def db'(1))
  qed
  ultimately show ?thesis using inv total by (auto simp: dist_inv_def db'(1,3,4))
qed

lemma dist_txD:
  assumes drv: "dist_drv_ok drv" and tx: "snd (dist_tx drv iter now run db) = Inr (u, db')"
  obtains k as where "k \<notin> rn_ID ` set (t_runs db)" "all_allocations drv iter (run\<lparr> rn_ID := k \<rparr>) db = Inr as" "t_rules db' = t_rules db"
    "t_runs db' = t_runs db @ [run\<lparr> rn_ID := k, rn_RecipientCount := int (length as), rn_Status := DistributionStatusCompleted, rn_CompletedAt := Some now \<rparr>]"
    "map al_core (t_allocs db') = map al_core (t_allocs db) @ map al_core as" "t_fees db' = t_fees db"
proof -
  let ?upd = "\<lambda>as r. r\<lparr> rn_RecipientCount := int (length as), rn_Status := DistributionStatusCompleted, rn_CompletedAt := Some now \<rparr>"
  obtain run' runs as allocs n runs' where cr: "g_create (d_runs drv) run (t_runs db) = Inr (run', runs)"
    and al: "all_allocations drv iter run' db = Inr as" and ca: "create_all (d_allocs drv) as (t_allocs db) = Inr allocs"
    and up: "g_update (d_runs drv) (\<lambda>r. rn_ID r = rn_ID run') (?upd as) runs = Inr (n, runs')"
    and db': "db' = db\<lparr> t_runs := runs', t_allocs := allocs \<rparr>"
    using tx by (auto simp: dist_tx_def and_then_def split: sum.splits prod.splits)
  have ok: "gorm_ok rn_ID (\<lambda>k. rn_ID_update (\<lambda>_. k)) (d_runs drv)" "gorm_ok al_ID (\<lambda>k. al_ID_update (\<lambda>_. k)) (d_allocs drv)"
    using drv by (simp_all add: dist_drv_ok_def)
  obtain k where k: "k \<notin> rn_ID ` set (t_runs db)" "run' = run\<lparr> rn_ID := k \<rparr>" "runs = t_runs db @ [run']"
    by (rule gorm_createD[OF ok(1) cr])
  have "map (\<lambda>r. if rn_ID r = k then ?upd as r else r) (t_runs db) = t_runs db" using k(1) by (intro map_idI) (metis imageI)
  then have runs': "runs' = t_runs db @ [?upd as run']"
    using gorm_updateD(2)[OF ok(1) up] k by simp
  show ?thesis
    by (rule that[OF k(1) al[unfolded k(2)]]) (simp_all add: db' runs' k(2) stored_core[OF ok(2) ca])
qed

lemma mark_failed_fresh:
  assumes drv: "dist_drv_ok drv" and i: "i \<notin> rn_ID ` set (t_runs db)"
  shows "mark_failed drv i db = db"
proof (cases "g_update (d_runs drv) (\<lambda>r. rn_ID r = i) (rn_Status_update (\<lambda>_. DistributionStatusFailed)) (t_runs db)")
  case (Inl e)
  then show ?thesis by (simp add: mark_failed_def)
next
  case (Inr nr)
  obtain n rs where nr: "nr = (n, rs)" by (cases nr)
  have ok: "gorm_ok rn_ID (\<lambda>k. rn_ID_update (\<lambda>_. k)) (d_runs drv)" using drv by (simp add: dist_drv_ok_def)
  have "map (\<lambda>r. if rn_ID r = i then r\<lparr> rn_Status := DistributionStatusFailed \<rparr> else r) (t_runs db) = t_runs db"
    using i by (intro map_idI) (metis imageI)
  then have "rs = t_runs db" using gorm_updateD(2)[OF ok Inr[unfolded nr]] by simp
  then show ?thesis using Inr by (simp add: mark_failed_def nr)
qed

text \<open>The key a run has in memory after a failed transaction belongs to no stored run, so marking it as failed writes
  nothing: a failed distribution leaves no trace.\<close>

lemma dist_tx_key:
  assumes drv: "dist_drv_ok drv"
  shows "fst (dist_tx drv iter now run db) = 0 \<or> fst (dist_tx drv iter now run db) \<notin> rn_ID ` set (t_runs db)"
proof (cases "g_create (d_runs drv) run (t_runs db)")
  case (Inl e)
  then show ?thesis by (simp add: dist_tx_def)
next
  case (Inr y)
  obtain r rs where y: "y = (r, rs)" by (cases y)
  have ok: "gorm_ok rn_ID (\<lambda>k. rn_ID_update (\<lambda>_. k)) (d_runs drv)" using drv by (simp add: dist_drv_ok_def)
  obtain k where "k \<notin> rn_ID ` set (t_runs db)" "r = run\<lparr> rn_ID := k \<rparr>" by (rule gorm_createD[OF ok Inr[unfolded y]])
  then show ?thesis using Inr by (simp add: dist_tx_def y)
qed

lemma mark_failed_id:
  assumes "dist_drv_ok drv"
  shows "mark_failed drv (if b then fst (dist_tx drv iter now run db) else 0) db = db"
  using dist_tx_key[OF assms, of iter now run db] mark_failed_fresh[OF assms, of "fst (dist_tx drv iter now run db)" db]
  by (auto simp: mark_failed_def)


definition split_run :: "FeeDistributionRule \<Rightarrow> instant \<Rightarrow> instant \<Rightarrow> instant \<Rightarrow> int \<Rightarrow> string \<Rightarrow> FeeDistributionRun" where
  "split_run rule now s e t trig =
     (let (p, l, h) = split_fees rule t
      in (pending_run rule now s e t trig)\<lparr> rn_PlatformAmountStroops := p, rn_LiquidityProvidersAmountStroops := l, rn_TokenHoldersAmountStroops := h \<rparr>)"

lemma RunDistribution_cases:
  assumes "dist_drv_ok drv"
  obtains "snd (RunDistribution drv iter now s e trig db) = db"
  | rule r rs where "sum_fees s e (t_fees db) \<le> 0"
    "g_create (d_runs drv) ((pending_run rule now s e (sum_fees s e (t_fees db)) trig)\<lparr> rn_Status := DistributionStatusCompleted, rn_CompletedAt := Some now \<rparr>)
       (t_runs db) = Inr (r, rs)" "snd (RunDistribution drv iter now s e trig db) = db\<lparr> t_runs := rs \<rparr>"
  | rule db' where "rule \<in> set (t_rules db)" "0 < sum_fees s e (t_fees db)" "snd (RunDistribution drv iter now s e trig db) = db'"
    "snd (dist_tx drv iter now (split_run rule now s e (sum_fees s e (t_fees db)) trig) db) = Inr ((), db')"
proof (cases "snd (RunDistribution drv iter now s e trig db) = db")
  case True
  then show ?thesis using that(1) by simp
next
  case False
  then obtain rule t where rule: "GetActiveRule drv db = Inr rule" and t: "d_sum drv (in_period s e) (t_fees db) = Inr t"
    by (auto simp: RunDistribution_def split: sum.splits dberr.splits)
  have tf: "t = sum_fees s e (t_fees db)" using assms t by (simp add: dist_drv_ok_def sum_fees_def)
  have ok: "gorm_ok fr_ID (\<lambda>k. fr_ID_update (\<lambda>_. k)) (d_rules drv)" using assms by (simp add: dist_drv_ok_def)
  have rin: "rule \<in> set (t_rules db)" using gorm_firstD(1)[OF ok] rule by (simp add: GetActiveRule_def)
  show ?thesis
  proof (cases "t \<le> 0")
    case True
    then show ?thesis using that(2)[of rule] False rule t tf
      by (auto simp: RunDistribution_def Let_def split: sum.splits prod.splits)
  next
    case pos: False
    let ?run = "split_run rule now s e t trig"
    let ?body = "\<lambda>db. snd (dist_tx drv iter now ?run db)"
    let ?i = "if tx_begin (d_dtx drv) = None then fst (dist_tx drv iter now ?run db) else 0"
    have res: "snd (RunDistribution drv iter now s e trig db) =
        (case transaction (d_dtx drv) ?body db of (Inl _, db') \<Rightarrow> mark_failed drv ?i db' | (Inr _, db') \<Rightarrow> db')"
      using rule t pos by (auto simp: RunDistribution_def split_run_def Let_def split: sum.splits prod.splits)
    show ?thesis
    proof (cases rule: transaction_cases[of "d_dtx drv" ?body db, case_names failed commit])
      case (failed err)
      then show ?thesis using res mark_failed_id[OF assms, of "tx_begin (d_dtx drv) = None"] False by simp
    next
      case (commit u db')
      then show ?thesis using that(3)[OF rin, of db'] res pos tf by simp
    qed
  qed
qed

lemma RunDistribution_inv:
  assumes drv: "dist_drv_ok drv" and inv: "dist_inv db" and it: "iter_ok iter" and fit: "dist_fits s e db"
  shows "dist_inv (snd (RunDistribution drv iter now s e trig db))"
proof (cases rule: RunDistribution_cases[OF drv, of iter now s e trig db, case_names kept empty split])
  case kept
  then show ?thesis using inv by simp
next
  case (empty rule r rs)
  have ok: "gorm_ok rn_ID (\<lambda>k. rn_ID_update (\<lambda>_. k)) (d_runs drv)" using drv by (simp add: dist_drv_ok_def)
  let ?run = "(pending_run rule now s e (sum_fees s e (t_fees db)) trig)\<lparr> rn_Status := DistributionStatusCompleted, rn_CompletedAt := Some now \<rparr>"
  obtain k where k: "k \<notin> rn_ID ` set (t_runs db)" "r = ?run\<lparr> rn_ID := k \<rparr>" "rs = t_runs db @ [r]"
    by (rule gorm_createD[OF ok empty(2)])
  have cat: "category r ty = 0" for ty by (cases ty) (simp_all add: k(2) pending_run_def)
  have "run_ok [] r" using empty(1) by (simp add: run_ok_def paid_def cat) (simp add: k(2) pending_run_def)
  moreover have "rn_ID r = k" by (simp add: k(2))
  ultimately show ?thesis unfolding empty(3) using dist_inv_new_run[OF inv, of r "[]"] k(1,3) by (simp add: k(2) pending_run_def)
next
  case (split rule db')
  let ?t = "sum_fees s e (t_fees db)"
  obtain p l h where sf: "split_fees rule ?t = (p, l, h)" by (metis prod_cases3)
  have f: "in_i64 (?t * 10000)" "in_i64 (?t * lp_total db)" "in_i64 (?t * balance_total db)" "in_i64 (lp_total db)" "in_i64 (balance_total db)"
    using fit split(2) by (simp_all add: dist_fits_def Let_def)
  have "rule_wf rule" using inv split(1) by (simp add: dist_inv_def)
  note sc = split_fees_conserves[OF this split(2) f(1) sf]
  have nn: "0 \<le> lp_total db" "0 \<le> balance_total db"
    unfolding lp_total_def balance_total_def by (intro sum_list_nonneg_int; auto)+
  have fl: "in_i64 (l * lp_total db)" by (rule in_i64_nonneg[OF _ _ f(2)]) (use sc nn in \<open>simp_all add: mult_right_mono\<close>)
  have fh: "in_i64 (h * balance_total db)" by (rule in_i64_nonneg[OF _ _ f(3)]) (use sc nn in \<open>simp_all add: mult_right_mono\<close>)
  obtain k as where k: "k \<notin> rn_ID ` set (t_runs db)"
    and al: "all_allocations drv iter ((split_run rule now s e ?t trig)\<lparr> rn_ID := k \<rparr>) db = Inr as" and rules: "t_rules db' = t_rules db"
    and runs: "t_runs db' = t_runs db @ [(split_run rule now s e ?t trig)\<lparr> rn_ID := k, rn_RecipientCount := int (length as),
       rn_Status := DistributionStatusCompleted, rn_CompletedAt := Some now \<rparr>]"
    and allocs: "map al_core (t_allocs db') = map al_core (t_allocs db) @ map al_core as" and fees: "t_fees db' = t_fees db"
    by (rule dist_txD[OF drv split(4)])
  let ?r = "(split_run rule now s e ?t trig)\<lparr> rn_ID := k \<rparr>"
  let ?r' = "(split_run rule now s e ?t trig)\<lparr> rn_ID := k, rn_RecipientCount := int (length as),
       rn_Status := DistributionStatusCompleted, rn_CompletedAt := Some now \<rparr>"
  have fields: "rn_PlatformAmountStroops ?r = p" "rn_LiquidityProvidersAmountStroops ?r = l" "rn_TokenHoldersAmountStroops ?r = h"
     "rn_TotalFeesStroops ?r = ?t" "rn_ID ?r = k" "rn_PeriodStart ?r = s" "rn_PeriodEnd ?r = e"
    by (simp_all add: split_run_def sf pending_run_def)
  note ao = all_allocations_ok[OF drv it al, unfolded fields, OF sc(2-4) fl f(4) fh f(5)]
  have "category ?r' ty = category ?r ty" for ty by (cases ty) simp_all
  then have "run_ok as ?r'" using ao(1) sc(1) split(2) fields by (simp add: run_ok_def)
  then show ?thesis unfolding split(3) using k ao(2) fields by (intro dist_inv_new_run[OF inv _ _ _ runs allocs rules fees]) simp_all
qed

subsection \<open>Sequences of requests\<close>

datatype dist_req =
  ReqRule FeeDistributionRule
  | ReqActivate nat
  | ReqDistribute "(string \<times> int) list \<Rightarrow> (string \<times> int) list" instant instant instant string

definition dist_response :: "(string + 'a) \<times> dist_db \<Rightarrow> unit response \<times> dist_db" where
  "dist_response r = (case fst r of Inl e \<Rightarrow> Fail StatusBadRequest e | Inr _ \<Rightarrow> Reply StatusOK (), snd r)"

lemma snd_dist_response [simp]: "snd (dist_response r) = snd r"
  by (simp add: dist_response_def)

fun dist_handle :: "dist_drv \<Rightarrow> dist_req \<Rightarrow> dist_db \<Rightarrow> unit response \<times> dist_db" where
  "dist_handle drv (ReqRule rule) db = dist_response (CreateRule drv rule db)"
| "dist_handle drv (ReqActivate i) db = dist_response (ActivateRule drv i db)"
| "dist_handle drv (ReqDistribute iter now s e trig) db = dist_response (RunDistribution drv iter now s e trig db)"

fun dist_req_fits :: "dist_req \<Rightarrow> dist_db \<Rightarrow> bool" where
  "dist_req_fits (ReqRule rule) db = (0 \<le> fr_PlatformShareBps rule \<and> fr_PlatformShareBps rule \<le> 10000 \<and>
     0 \<le> fr_LiquidityProvidersShareBps rule \<and> fr_LiquidityProvidersShareBps rule \<le> 10000 \<and>
     0 \<le> fr_TokenHoldersShareBps rule \<and> fr_TokenHoldersShareBps rule \<le> 10000)"
| "dist_req_fits (ReqActivate i) db = True"
| "dist_req_fits (ReqDistribute iter now s e trig) db = (iter_ok iter \<and> dist_fits s e db)"

interpretation dist: service "dist_handle drv" "\<lambda>db. dist_drv_ok drv \<and> dist_inv db" dist_req_fits for drv
proof
  fix db r
  assume "dist_drv_ok drv \<and> dist_inv db" "dist_req_fits r db"
  then show "dist_drv_ok drv \<and> dist_inv (snd (dist_handle drv r db))"
    by (cases r) (simp_all add: CreateRule_inv ActivateRule_inv RunDistribution_inv)
qed

subsection \<open>Properties\<close>

definition demo_dist :: dist_db where
  "demo_dist = \<lparr> t_rules = [], t_runs = [], t_allocs = [],
     t_fees = [\<lparr> ft_ID = 1, ft_TotalFeeStroops = 1000, ft_Status = ''completed'', ft_CreatedAt = 5 \<rparr>,
               \<lparr> ft_ID = 2, ft_TotalFeeStroops = 7, ft_Status = ''completed'', ft_CreatedAt = 6 \<rparr>],
     t_lps = [(new_position 1 ''a'')\<lparr> pos_ID := 1, pos_LPTokens := 2 \<rparr>, (new_position 1 ''b'')\<lparr> pos_ID := 2, pos_LPTokens := 1 \<rparr>,
              (new_position 2 ''a'')\<lparr> pos_ID := 3, pos_LPTokens := 1 \<rparr>],
     t_balances = [\<lparr> ub_ID = 1, ub_UserID = 1, ub_Balance = 3 \<rparr>, \<lparr> ub_ID = 2, ub_UserID = 9, ub_Balance = 5 \<rparr>],
     t_holders = [\<lparr> hd_ID = 1, hd_StellarAddress = ''h'' \<rparr>] \<rparr>"

definition demo_rule :: FeeDistributionRule where
  "demo_rule = \<lparr> fr_ID = 0, fr_Name = ''r'', fr_PlatformShareBps = 5000, fr_LiquidityProvidersShareBps = 3000,
     fr_TokenHoldersShareBps = 2000, fr_Active = False, fr_CreatedAt = 0 \<rparr>"

definition demo_dists :: "dist_req list" where
  "demo_dists = [ReqRule demo_rule, ReqDistribute (\<lambda>xs. xs) 10 0 10 ''manual'']"

lemma demo_dist_inv: "dist_inv demo_dist"
  by (simp add: dist_inv_def demo_dist_def)

lemma demo_dists_fit: "dist.all_fit mem_dist demo_dists demo_dist"
proof -
  have "snd (dist_handle mem_dist (ReqRule demo_rule) demo_dist) = demo_dist\<lparr> t_rules := t_rules (snd (dist_handle mem_dist (ReqRule demo_rule) demo_dist)) \<rparr>"
    by (simp add: CreateRule_def split: sum.split prod.split)
  then have "dist_fits 0 10 (snd (dist_handle mem_dist (ReqRule demo_rule) demo_dist)) = dist_fits 0 10 demo_dist"
    by (metis (no_types, lifting) balance_total_def dist_db.select_convs dist_db.surjective dist_db.update_convs(1) dist_fits_def lp_total_def)
  moreover have "dist_fits 0 10 demo_dist" by code_simp
  ultimately show ?thesis by (simp add: demo_dists_def iter_ok_def demo_rule_def)
qed

text \<open>C16: a distribution pays out no more than the fees of its period. After any sequence of rule creations (with shares between 0 and
  10000 basis points), activations and distributions, whichever of them fail and in whatever order Go iterates its maps, as long as the totals of
  the LP tokens and of the balances, and their products and that of 10000 with the fees of each period, fit into \<open>int64\<close> (beyond, see
  \<open>share_overflow_overpays\<close>): every stored run is completed, its three amounts add up exactly to the fees of its period, the allocations
  to each group of recipients add up to at most that group's amount, and every allocation is positive and belongs to a stored run. Two
  runs of one period each distribute its fees (\<open>period_distributed_twice\<close>).\<close>

theorem distribution_conserves_fees:
  assumes "dist_drv_ok drv" "dist_inv db" "dist.all_fit drv rs db"
  shows "dist_inv (dist.run drv rs db)"
  using dist.run_inv[of drv db rs] assms by blast

theorem distribution_conserves_fees_witness:
  "dist_inv (dist.run mem_dist demo_dists demo_dist) \<and>
   map (\<lambda>a. (al_RecipientAddress a, al_AmountStroops a)) (t_allocs (dist.run mem_dist demo_dists demo_dist)) =
     [(''PLATFORM_TREASURY'', 503), (''a'', 226), (''b'', 75), (''h'', 202)]"
proof
  show "dist_inv (dist.run mem_dist demo_dists demo_dist)"
    by (rule distribution_conserves_fees[OF mem_dist_ok demo_dist_inv demo_dists_fit])
  show "map (\<lambda>a. (al_RecipientAddress a, al_AmountStroops a)) (t_allocs (dist.run mem_dist demo_dists demo_dist)) =
     [(''PLATFORM_TREASURY'', 503), (''a'', 226), (''b'', 75), (''h'', 202)]"
    unfolding demo_dists_def dist.run.simps by code_simp
qed

text \<open>Activating a rule leaves exactly that rule active; an activation that fails, for instance because there is
  no such rule, changes nothing.\<close>

theorem activation_is_exclusive:
  assumes "dist_drv_ok drv" "ActivateRule drv i db = (res, db')"
  shows "(res = Inr () \<longrightarrow> (\<forall>r\<in>set (t_rules db'). fr_Active r \<longleftrightarrow> fr_ID r = i) \<and> (\<exists>r\<in>set (t_rules db'). fr_Active r)) \<and>
    (res \<noteq> Inr () \<longrightarrow> db' = db)"
proof (cases res)
  case (Inl e)
  then have "db' = db" using assms(2) by (auto simp: ActivateRule_def dest: transaction_Inl split: sum.splits prod.splits)
  then show ?thesis using Inl by simp
next
  case (Inr u)
  note b = ActivateRule_body[OF assms(1) assms(2)[unfolded Inr]]
  show ?thesis using Inr b(2) unfolding b(1) by auto
qed

theorem activation_is_exclusive_witness:
  "let db = dist.run mem_dist [ReqRule demo_rule, ReqRule demo_rule] demo_dist; db' = snd (ActivateRule mem_dist 2 db)
   in map fr_Active (t_rules db) = [True, True] \<and> map fr_Active (t_rules db') = [False, True] \<and>
      filter fr_Active (t_rules db') = filter (\<lambda>r. fr_ID r = 2) (t_rules db')"
proof -
  let ?db = "dist.run mem_dist [ReqRule demo_rule, ReqRule demo_rule] demo_dist"
  have r: "fst (ActivateRule mem_dist 2 ?db) = Inr ()" unfolding dist.run.simps by code_simp
  have a: "map fr_Active (t_rules ?db) = [True, True]" "map fr_Active (t_rules (snd (ActivateRule mem_dist 2 ?db))) = [False, True]"
    unfolding dist.run.simps by code_simp+
  have "ActivateRule mem_dist 2 ?db = (Inr (), snd (ActivateRule mem_dist 2 ?db))" using r by (metis prod.collapse)
  from activation_is_exclusive[OF mem_dist_ok this]
  have "filter fr_Active (t_rules (snd (ActivateRule mem_dist 2 ?db))) = filter (\<lambda>r. fr_ID r = 2) (t_rules (snd (ActivateRule mem_dist 2 ?db)))"
    by (intro filter_cong) simp_all
  then show ?thesis using a by simp
qed

text \<open>The shares are added up and multiplied in \<open>int64\<close>: four providers with \<open>2 ^ 62\<close> LP tokens and one with a single token have a total
  of 1, and of 101 stroops each of the four gets \<open>2 ^ 62\<close>.\<close>

lemma share_overflow_overpays:
  "let (shares, total) = share_totals [(''a'', 2 ^ 62), (''b'', 2 ^ 62), (''c'', 2 ^ 62), (''d'', 2 ^ 62), (''e'', 1)]
   in total = 1 \<and> map al_AmountStroops (buildProRataAllocations (\<lambda>xs. xs) 1 RecipientLiquidityProvider 101 shares total) =
        [2 ^ 62, 2 ^ 62, 2 ^ 62, 2 ^ 62, 101]"
  by code_simp

text \<open>Nothing remembers which period was distributed: a second run for the same period allocates the same fees again.\<close>

lemma period_distributed_twice:
  "map rn_TotalFeesStroops (t_runs (dist.run mem_dist (demo_dists @ [ReqDistribute (\<lambda>xs. xs) 11 0 10 ''manual'']) demo_dist)) = [1007, 1007] \<and>
   amounts (t_allocs (dist.run mem_dist (demo_dists @ [ReqDistribute (\<lambda>xs. xs) 11 0 10 ''manual'']) demo_dist)) = 2012"
  unfolding demo_dists_def append_Cons append_Nil dist.run.simps by code_simp

end
