(* ===== verification/Workflow.thy ===== *)
theory Workflow
  imports Gorm Decimal
begin

section \<open>Approval workflows (services/workflow\_service.go, models/approval.go)\<close>

text \<open>
  Transfers that need approval: a workflow is a chain of steps, a request walks along it, and the transaction behind it is
  released when the last step has its approvals. A service call returns a value, an error or panics:
  \<open>Decide\<close> on an expired request commits the expiry and then dereferences a nil result. E-mail notification only reads the tables and
  drops its errors; it is left out. The locked read of a request makes each call one step.
\<close>

subsection \<open>Data\<close>

text \<open>What a method of the service returns. \<open>ErrNoMatchingWorkflow\<close> is the sentinel error that callers test with \<open>errors.Is\<close>; every
  other error is told by its text.\<close>

datatype 'a svc = Ok 'a | Err string | ErrNoMatchingWorkflow | Panic

type_synonym UserRole = string

record ApprovalWorkflow =
  wf_ID :: nat
  wf_Name :: string
  wf_AssetType :: string
  wf_MinimumAmount :: int
  wf_TimeoutHours :: int
  wf_Active :: bool

record ApprovalStep =
  st_ID :: nat
  st_WorkflowID :: nat
  st_StepOrder :: int
  st_RequiredRole :: UserRole
  st_ApproverUserID :: "nat option"
  st_RequiredApprovals :: int
  st_AllowDelegation :: bool

record ApprovalRequest =
  rq_ID :: nat
  rq_WorkflowID :: nat
  rq_TransactionID :: nat
  rq_RequesterUserID :: nat
  rq_AssetID :: nat
  rq_FromAddress :: string
  rq_ToAddress :: string
  rq_Amount :: int
  rq_Status :: string
  rq_CurrentStep :: int
  rq_ExpiresAt :: instant
  rq_CompletedAt :: "instant option"
  rq_CreatedAt :: instant

record ApprovalAction =
  ac_ID :: nat
  ac_ApprovalRequestID :: nat
  ac_StepOrder :: int
  ac_ApproverUserID :: nat
  ac_DelegatedFromID :: "nat option"
  ac_Action :: string
  ac_Comment :: string
  ac_CreatedAt :: instant

record TransferApprovalInput =
  in_AssetID :: nat
  in_FromAddress :: string
  in_ToAddress :: string
  in_Amount :: int

record transfer =
  tf_ID :: nat
  tf_AssetID :: nat
  tf_FromAddress :: string
  tf_ToAddress :: string
  tf_Amount :: int
  tf_TxHash :: string
  tf_Status :: string

record asset_row =
  as_ID :: nat
  as_AssetType :: string

record wf_db =
  t_wfs :: "ApprovalWorkflow list"
  t_steps :: "ApprovalStep list"
  t_reqs :: "ApprovalRequest list"
  t_acts :: "ApprovalAction list"
  t_transfers :: "transfer list"
  t_assetrows :: "asset_row list"

record wf_drv =
  d_wfs :: "ApprovalWorkflow gorm"
  d_steps :: "ApprovalStep gorm"
  d_reqs :: "ApprovalRequest gorm"
  d_acts :: "ApprovalAction gorm"
  d_transfers :: "transfer gorm"
  d_assetrows :: "asset_row gorm"
  d_wtx :: tx_outcome

abbreviation ErrNotPending :: string where "ErrNotPending \<equiv> ''approval request is not pending''"
abbreviation ErrNotApprover :: string where "ErrNotApprover \<equiv> ''user is not eligible to approve this step''"

subsection \<open>Workflows\<close>

fun steps_ordered :: "int \<Rightarrow> ApprovalStep list \<Rightarrow> bool" where
  "steps_ordered i [] \<longleftrightarrow> True"
| "steps_ordered i (s # ss) \<longleftrightarrow>
     st_StepOrder s = i + 1 \<and> st_RequiredApprovals s \<ge> 1 \<and> (st_RequiredRole s \<noteq> '''' \<or> st_ApproverUserID s \<noteq> None) \<and>
     steps_ordered (i + 1) ss"

fun create_steps :: "ApprovalStep gorm \<Rightarrow> ApprovalStep list \<Rightarrow> ApprovalStep list \<Rightarrow> dberr + ApprovalStep list" where
  "create_steps g [] rows = Inr rows"
| "create_steps g (s # ss) rows = and_then (g_create g s rows) (\<lambda>(_, rows'). create_steps g ss rows')"

text \<open>The column \<open>active\<close> has the default \<open>true\<close>: GORM leaves the zero value out of the insert, so that every new workflow is active.\<close>

definition CreateWorkflow :: "wf_drv \<Rightarrow> ApprovalWorkflow \<Rightarrow> ApprovalStep list \<Rightarrow> wf_db \<Rightarrow> ApprovalWorkflow svc \<times> wf_db" where
  "CreateWorkflow drv workflow steps db =
     (if wf_Name workflow = '''' \<or> wf_TimeoutHours workflow \<le> 0 \<or> steps = []
      then (Err ''workflow name, positive timeout, and at least one step are required'', db)
      else if \<not> steps_ordered 0 steps
      then (Err ''workflow steps must be ordered consecutively and define an approver role or user'', db)
      else case transaction (d_wtx drv) (\<lambda>db.
                  and_then (g_create (d_wfs drv) (workflow\<lparr> wf_Active := True \<rparr>) (t_wfs db)) (\<lambda>(w, ws).
                  and_then (create_steps (d_steps drv) (map (\<lambda>s. s\<lparr> st_WorkflowID := wf_ID w \<rparr>) steps) (t_steps db)) (\<lambda>ss.
                    Inr (w, db\<lparr> t_wfs := ws, t_steps := ss \<rparr>)))) db of
             (Inl e, db') \<Rightarrow> (Err (err_msg e), db')
           | (Inr w, db') \<Rightarrow> (Ok w, db'))"

text \<open>\<open>Preload("Workflow.Steps")\<close>: the workflow of the request and its steps.\<close>

definition preload_steps :: "wf_drv \<Rightarrow> nat \<Rightarrow> wf_db \<Rightarrow> dberr + ApprovalStep list" where
  "preload_steps drv wid db =
     (case g_find (d_wfs drv) (Where (\<lambda>w. wf_ID w = wid)) (t_wfs db) of
        Inl e \<Rightarrow> Inl e
      | Inr [] \<Rightarrow> Inr []
      | Inr _ \<Rightarrow> g_find (d_steps drv) (Where (\<lambda>s. st_WorkflowID s = wid)) (t_steps db))"

definition ListWorkflows :: "wf_drv \<Rightarrow> (string \<Rightarrow> string \<Rightarrow> bool) \<Rightarrow> wf_db \<Rightarrow> dberr + (ApprovalWorkflow \<times> ApprovalStep list) list" where
  "ListWorkflows drv collate db =
     and_then (g_find (d_wfs drv) ((Where (\<lambda>_. True))\<lparr> q_order := (\<lambda>x y. collate (wf_Name x) (wf_Name y)) \<rparr>) (t_wfs db)) (\<lambda>ws.
     and_then (g_find (d_steps drv) ((Where (\<lambda>s. st_WorkflowID s \<in> set (map wf_ID ws)))\<lparr> q_order := (\<lambda>x y. st_StepOrder x \<le> st_StepOrder y) \<rparr>)
                 (t_steps db)) (\<lambda>ss.
       Inr (map (\<lambda>w. (w, filter (\<lambda>s. st_WorkflowID s = wf_ID w) ss)) ws)))"

subsection \<open>Requests\<close>

definition GetRequest :: "wf_drv \<Rightarrow> nat \<Rightarrow> wf_db \<Rightarrow> dberr + ApprovalRequest" where
  "GetRequest drv i db = g_first (d_reqs drv) (\<lambda>r. rq_ID r = i) (t_reqs db)"

definition of_request :: "dberr + ApprovalRequest \<Rightarrow> ApprovalRequest svc" where
  "of_request r = (case r of Inl e \<Rightarrow> Err (err_msg e) | Inr x \<Rightarrow> Ok x)"

text \<open>The active workflow with the highest minimum amount that the transfer reaches.\<close>

definition find_workflow :: "wf_drv \<Rightarrow> string \<Rightarrow> int \<Rightarrow> wf_db \<Rightarrow> dberr + ApprovalWorkflow" where
  "find_workflow drv assetType amount db =
     (case g_find (d_wfs drv)
             \<lparr> q_where = (\<lambda>w. wf_Active w \<and> wf_MinimumAmount w \<le> amount \<and> (wf_AssetType w = '''' \<or> wf_AssetType w = assetType)),
               q_order = (\<lambda>x y. wf_MinimumAmount x > wf_MinimumAmount y \<or> wf_MinimumAmount x = wf_MinimumAmount y \<and> wf_ID x \<le> wf_ID y),
               q_offset = 0, q_limit = Some 1 \<rparr> (t_wfs db) of
        Inl e \<Rightarrow> Inl e | Inr [] \<Rightarrow> Inl ErrRecordNotFound | Inr (w # _) \<Rightarrow> Inr w)"

definition request_tx :: "wf_drv \<Rightarrow> string \<Rightarrow> instant \<Rightarrow> nat \<Rightarrow> TransferApprovalInput \<Rightarrow> ApprovalWorkflow \<Rightarrow> wf_db \<Rightarrow>
    dberr + ApprovalRequest \<times> wf_db" where
  "request_tx drv uuid now requesterID inp workflow db =
     and_then (g_create (d_transfers drv)
                 \<lparr> tf_ID = 0, tf_AssetID = in_AssetID inp, tf_FromAddress = in_FromAddress inp, tf_ToAddress = in_ToAddress inp,
                   tf_Amount = in_Amount inp, tf_TxHash = ''approval-'' @ uuid, tf_Status = ''approval_pending'' \<rparr> (t_transfers db)) (\<lambda>(t, ts).
     and_then (g_create (d_reqs drv)
                 \<lparr> rq_ID = 0, rq_WorkflowID = wf_ID workflow, rq_TransactionID = tf_ID t, rq_RequesterUserID = requesterID,
                   rq_AssetID = in_AssetID inp, rq_FromAddress = in_FromAddress inp, rq_ToAddress = in_ToAddress inp,
                   rq_Amount = in_Amount inp, rq_Status = ''pending'', rq_CurrentStep = 1,
                   rq_ExpiresAt = now + mul64 (wf_TimeoutHours workflow) Hour, rq_CompletedAt = None, rq_CreatedAt = now \<rparr>
                 (t_reqs db)) (\<lambda>(r, rs).
       Inr (r, db\<lparr> t_transfers := ts, t_reqs := rs \<rparr>)))"

definition CreateTransferRequest :: "wf_drv \<Rightarrow> string \<Rightarrow> instant \<Rightarrow> nat \<Rightarrow> TransferApprovalInput \<Rightarrow> wf_db \<Rightarrow> ApprovalRequest svc \<times> wf_db" where
  "CreateTransferRequest drv uuid now requesterID inp db =
     (case g_first (d_assetrows drv) (\<lambda>a. as_ID a = in_AssetID inp) (t_assetrows db) of
        Inl e \<Rightarrow> (Err (err_msg e), db)
      | Inr asset \<Rightarrow>
          (case find_workflow drv (as_AssetType asset) (in_Amount inp) db of
             Inl ErrRecordNotFound \<Rightarrow> (ErrNoMatchingWorkflow, db)
           | Inl e \<Rightarrow> (Err (err_msg e), db)
           | Inr workflow \<Rightarrow>
               (case transaction (d_wtx drv) (request_tx drv uuid now requesterID inp workflow) db of
                  (Inl e, db') \<Rightarrow> (Err (err_msg e), db')
                | (Inr r, db') \<Rightarrow> (of_request (GetRequest drv (rq_ID r) db'), db'))))"

definition currentStep :: "ApprovalStep list \<Rightarrow> ApprovalRequest \<Rightarrow> ApprovalStep option" where
  "currentStep steps request = find (\<lambda>s. st_StepOrder s = rq_CurrentStep request) steps"

definition no_step :: "ApprovalRequest \<Rightarrow> string" where
  "no_step request = ''workflow '' @ show_nat (rq_WorkflowID request) @ '' has no step '' @ show_int (rq_CurrentStep request)"

definition eligibleForStep :: "ApprovalStep \<Rightarrow> nat \<Rightarrow> UserRole \<Rightarrow> bool" where
  "eligibleForStep step userID role \<longleftrightarrow>
     st_ApproverUserID step = Some userID \<or> st_RequiredRole step \<noteq> '''' \<and> st_RequiredRole step = role"

definition acted :: "nat \<Rightarrow> int \<Rightarrow> nat \<Rightarrow> string \<Rightarrow> ApprovalAction \<Rightarrow> bool" where
  "acted i step user action a \<longleftrightarrow>
     ac_ApprovalRequestID a = i \<and> ac_StepOrder a = step \<and> ac_ApproverUserID a = user \<and> ac_Action a = action"

definition CanViewRequest :: "wf_drv \<Rightarrow> ApprovalStep list \<Rightarrow> ApprovalRequest \<Rightarrow> nat \<Rightarrow> UserRole \<Rightarrow> wf_db \<Rightarrow> bool" where
  "CanViewRequest drv steps request userID role db \<longleftrightarrow>
     rq_RequesterUserID request = userID \<or> role = ''admin'' \<or> role = ''moderator'' \<or>
     (case currentStep steps request of None \<Rightarrow> False | Some step \<Rightarrow> eligibleForStep step userID role) \<or>
     (case g_count (d_acts drv) (acted (rq_ID request) (rq_CurrentStep request) userID ''delegated'') (t_acts db) of
        Inl _ \<Rightarrow> False | Inr n \<Rightarrow> n > 0)"

definition ListRequests :: "wf_drv \<Rightarrow> nat \<Rightarrow> UserRole \<Rightarrow> wf_db \<Rightarrow> dberr + ApprovalRequest list" where
  "ListRequests drv userID role db =
     g_find (d_reqs drv)
       ((Where (\<lambda>r. role \<noteq> ''admin'' \<and> role \<noteq> ''moderator'' \<longrightarrow>
           rq_RequesterUserID r = userID \<or>
           (\<exists>s\<in>set (t_steps db). st_WorkflowID s = rq_WorkflowID r \<and> st_StepOrder s = rq_CurrentStep r \<and>
              (st_RequiredRole s = role \<or> st_ApproverUserID s = Some userID)) \<or>
           (\<exists>a\<in>set (t_acts db). acted (rq_ID r) (rq_CurrentStep r) userID ''delegated'' a)))
        \<lparr> q_order := (\<lambda>x y. rq_CreatedAt x \<ge> rq_CreatedAt y) \<rparr>) (t_reqs db)"

subsection \<open>Decisions\<close>

definition set_transfer :: "wf_drv \<Rightarrow> nat \<Rightarrow> string \<Rightarrow> wf_db \<Rightarrow> dberr + wf_db" where
  "set_transfer drv i status db =
     and_then (g_update (d_transfers drv) (\<lambda>t. tf_ID t = i) (tf_Status_update (\<lambda>_. status)) (t_transfers db)) (\<lambda>(_, ts).
       Inr (db\<lparr> t_transfers := ts \<rparr>))"

definition save_request :: "wf_drv \<Rightarrow> ApprovalRequest \<Rightarrow> wf_db \<Rightarrow> dberr + wf_db" where
  "save_request drv r db = and_then (g_save (d_reqs drv) r (t_reqs db)) (\<lambda>rs. Inr (db\<lparr> t_reqs := rs \<rparr>))"

definition add_action :: "wf_drv \<Rightarrow> ApprovalAction \<Rightarrow> wf_db \<Rightarrow> dberr + wf_db" where
  "add_action drv a db = and_then (g_create (d_acts drv) a (t_acts db)) (\<lambda>(_, as). Inr (db\<lparr> t_acts := as \<rparr>))"

definition expireInTransaction :: "wf_drv \<Rightarrow> instant \<Rightarrow> ApprovalRequest \<Rightarrow> string \<Rightarrow> wf_db \<Rightarrow> dberr + wf_db" where
  "expireInTransaction drv now request comment db =
     and_then (add_action drv \<lparr> ac_ID = 0, ac_ApprovalRequestID = rq_ID request, ac_StepOrder = rq_CurrentStep request,
                 ac_ApproverUserID = rq_RequesterUserID request, ac_DelegatedFromID = None, ac_Action = ''expired'',
                 ac_Comment = comment, ac_CreatedAt = now \<rparr> db) (\<lambda>db1.
     and_then (set_transfer drv (rq_TransactionID request) ''expired'' db1) (\<lambda>db2.
       save_request drv (request\<lparr> rq_Status := ''expired'', rq_CompletedAt := Some now \<rparr>) db2))"

text \<open>Whether the approver acts as a delegate; an error if it may not act at all.\<close>

definition authorise :: "wf_drv \<Rightarrow> ApprovalRequest \<Rightarrow> ApprovalStep \<Rightarrow> nat \<Rightarrow> UserRole \<Rightarrow> wf_db \<Rightarrow> dberr + bool" where
  "authorise drv request step approverID role db =
     (if eligibleForStep step approverID role then Inr False
      else and_then (g_count (d_acts drv) (acted (rq_ID request) (st_StepOrder step) approverID ''delegated'') (t_acts db)) (\<lambda>n.
             if n > 0 then Inr True else Inl (DBError ErrNotApprover)))"

definition delegation_source :: "wf_drv \<Rightarrow> ApprovalRequest \<Rightarrow> ApprovalStep \<Rightarrow> nat \<Rightarrow> bool \<Rightarrow> wf_db \<Rightarrow> dberr + nat option" where
  "delegation_source drv request step approverID delegated db =
     (if \<not> delegated then Inr None
      else case g_find (d_acts drv)
                  \<lparr> q_where = acted (rq_ID request) (st_StepOrder step) approverID ''delegated'',
                    q_order = (\<lambda>x y. ac_CreatedAt x > ac_CreatedAt y \<or> ac_CreatedAt x = ac_CreatedAt y \<and> ac_ID x \<le> ac_ID y),
                    q_offset = 0, q_limit = Some 1 \<rparr> (t_acts db) of
             Inl e \<Rightarrow> Inl e | Inr [] \<Rightarrow> Inl ErrRecordNotFound | Inr (a # _) \<Rightarrow> Inr (ac_DelegatedFromID a))"

definition advance :: "wf_drv \<Rightarrow> instant \<Rightarrow> ApprovalStep list \<Rightarrow> ApprovalStep \<Rightarrow> ApprovalRequest \<Rightarrow> wf_db \<Rightarrow>
    dberr + ApprovalRequest \<times> wf_db" where
  "advance drv now steps step request db =
     and_then (g_count (d_acts drv) (\<lambda>a. ac_ApprovalRequestID a = rq_ID request \<and> ac_StepOrder a = st_StepOrder step \<and>
                                         ac_Action a = ''approved'') (t_acts db)) (\<lambda>approvals.
       if approvals \<ge> st_RequiredApprovals step
       then (let request1 = request\<lparr> rq_CurrentStep := add64 (rq_CurrentStep request) 1 \<rparr>
             in if rq_CurrentStep request1 > int (length steps)
                then and_then (set_transfer drv (rq_TransactionID request) ''approved'' db) (\<lambda>db1.
                       Inr (request1\<lparr> rq_Status := ''approved'', rq_CompletedAt := Some now \<rparr>, db1))
                else Inr (request1, db))
       else Inr (request, db))"

definition decide_tx :: "wf_drv \<Rightarrow> instant \<Rightarrow> nat \<Rightarrow> nat \<Rightarrow> UserRole \<Rightarrow> string \<Rightarrow> string \<Rightarrow> wf_db \<Rightarrow>
    dberr + ApprovalRequest option \<times> wf_db" where
  "decide_tx drv now requestID approverID role action comment db =
     and_then (g_first (d_reqs drv) (\<lambda>r. rq_ID r = requestID) (t_reqs db)) (\<lambda>request.
     and_then (preload_steps drv (rq_WorkflowID request) db) (\<lambda>steps.
       if rq_Status request \<noteq> ''pending'' then Inl (DBError ErrNotPending)
       else if \<not> now < rq_ExpiresAt request
       then and_then (expireInTransaction drv now request ''approval timeout'' db) (\<lambda>db'. Inr (None, db'))
       else case currentStep steps request of
              None \<Rightarrow> Inl (DBError (no_step request))
            | Some step \<Rightarrow>
                and_then (authorise drv request step approverID role db) (\<lambda>delegated.
                and_then (g_count (d_acts drv) (acted (rq_ID request) (st_StepOrder step) approverID ''approved'') (t_acts db)) (\<lambda>duplicate.
                  if duplicate > 0 then Inl (DBError ''approver has already approved this step'')
                  else
                    and_then (delegation_source drv request step approverID delegated db) (\<lambda>src.
                    and_then (add_action drv \<lparr> ac_ID = 0, ac_ApprovalRequestID = rq_ID request, ac_StepOrder = st_StepOrder step,
                                ac_ApproverUserID = approverID, ac_DelegatedFromID = src, ac_Action = action,
                                ac_Comment = comment, ac_CreatedAt = now \<rparr> db) (\<lambda>db1.
                      if action = ''rejected''
                      then (let request1 = request\<lparr> rq_Status := ''rejected'', rq_CompletedAt := Some now \<rparr>
                            in and_then (set_transfer drv (rq_TransactionID request) ''rejected'' db1) (\<lambda>db2.
                               and_then (save_request drv request1 db2) (\<lambda>db3. Inr (Some request1, db3))))
                      else and_then (advance drv now steps step request db1) (\<lambda>(request1, db2).
                           and_then (save_request drv request1 db2) (\<lambda>db3. Inr (Some request1, db3)))))))))"

definition Decide :: "wf_drv \<Rightarrow> instant \<Rightarrow> nat \<Rightarrow> nat \<Rightarrow> UserRole \<Rightarrow> string \<Rightarrow> string \<Rightarrow> wf_db \<Rightarrow> ApprovalRequest svc \<times> wf_db" where
  "Decide drv now requestID approverID role action comment db =
     (if action \<noteq> ''approved'' \<and> action \<noteq> ''rejected'' then (Err ''action must be approved or rejected'', db)
      else case transaction (d_wtx drv) (decide_tx drv now requestID approverID role action comment) db of
             (Inl e, db') \<Rightarrow> (Err (err_msg e), db')
           | (Inr None, db') \<Rightarrow> (Panic, db')
           | (Inr (Some r), db') \<Rightarrow> (of_request (GetRequest drv (rq_ID r) db'), db'))"

definition Delegate :: "wf_drv \<Rightarrow> instant \<Rightarrow> nat \<Rightarrow> nat \<Rightarrow> nat \<Rightarrow> UserRole \<Rightarrow> string \<Rightarrow> wf_db \<Rightarrow> unit svc \<times> wf_db" where
  "Delegate drv now requestID fromID toID role comment db =
     (case transaction (d_wtx drv) (\<lambda>db.
             and_then (g_first (d_reqs drv) (\<lambda>r. rq_ID r = requestID) (t_reqs db)) (\<lambda>request.
             and_then (preload_steps drv (rq_WorkflowID request) db) (\<lambda>steps.
               if rq_Status request \<noteq> ''pending'' then Inl (DBError ErrNotPending)
               else case currentStep steps request of
                      None \<Rightarrow> Inl (DBError (no_step request))
                    | Some step \<Rightarrow>
                        if \<not> st_AllowDelegation step \<or> \<not> eligibleForStep step fromID role then Inl (DBError ErrNotApprover)
                        else and_then (add_action drv \<lparr> ac_ID = 0, ac_ApprovalRequestID = rq_ID request, ac_StepOrder = st_StepOrder step,
                               ac_ApproverUserID = toID, ac_DelegatedFromID = Some fromID, ac_Action = ''delegated'',
                               ac_Comment = comment, ac_CreatedAt = now \<rparr> db) (\<lambda>db'. Inr ((), db'))))) db of
        (Inl e, db') \<Rightarrow> (Err (err_msg e), db')
      | (Inr _, db') \<Rightarrow> (Ok (), db'))"

definition ExpireTimedOut :: "wf_drv \<Rightarrow> instant \<Rightarrow> instant \<Rightarrow> wf_db \<Rightarrow> nat svc \<times> wf_db" where
  "ExpireTimedOut drv now1 now2 db =
     (case g_update (d_reqs drv) (\<lambda>r. rq_Status r = ''pending'' \<and> rq_ExpiresAt r \<le> now1)
             (\<lambda>r. r\<lparr> rq_Status := ''expired'', rq_CompletedAt := Some now2 \<rparr>) (t_reqs db) of
        Inl e \<Rightarrow> (Err (err_msg e), db)
      | Inr (n, rs) \<Rightarrow>
          (let db1 = db\<lparr> t_reqs := rs \<rparr>
           in if n > 0
              then (case g_update (d_transfers drv)
                           (\<lambda>t. tf_Status t = ''approval_pending'' \<and>
                                tf_ID t \<in> rq_TransactionID ` set (filter (\<lambda>r. rq_Status r = ''expired'') rs))
                           (tf_Status_update (\<lambda>_. ''expired'')) (t_transfers db1) of
                      Inl _ \<Rightarrow> (Ok n, db1)
                    | Inr (_, ts) \<Rightarrow> (Ok n, db1\<lparr> t_transfers := ts \<rparr>))
              else (Ok n, db1)))"


subsection \<open>Contracts\<close>

definition wf_drv_ok :: "wf_drv \<Rightarrow> bool" where
  "wf_drv_ok drv \<longleftrightarrow> gorm_ok wf_ID (\<lambda>k. wf_ID_update (\<lambda>_. k)) (d_wfs drv) \<and> gorm_ok st_ID (\<lambda>k. st_ID_update (\<lambda>_. k)) (d_steps drv) \<and>
     gorm_ok rq_ID (\<lambda>k. rq_ID_update (\<lambda>_. k)) (d_reqs drv) \<and> gorm_ok ac_ID (\<lambda>k. ac_ID_update (\<lambda>_. k)) (d_acts drv) \<and>
     gorm_ok tf_ID (\<lambda>k. tf_ID_update (\<lambda>_. k)) (d_transfers drv) \<and> gorm_ok as_ID (\<lambda>k. as_ID_update (\<lambda>_. k)) (d_assetrows drv)"

lemma wf_drvD:
  assumes "wf_drv_ok drv"
  shows "gorm_ok wf_ID (\<lambda>k. wf_ID_update (\<lambda>_. k)) (d_wfs drv)" "gorm_ok st_ID (\<lambda>k. st_ID_update (\<lambda>_. k)) (d_steps drv)"
    "gorm_ok rq_ID (\<lambda>k. rq_ID_update (\<lambda>_. k)) (d_reqs drv)" "gorm_ok ac_ID (\<lambda>k. ac_ID_update (\<lambda>_. k)) (d_acts drv)"
    "gorm_ok tf_ID (\<lambda>k. tf_ID_update (\<lambda>_. k)) (d_transfers drv)"
  using assms by (simp_all add: wf_drv_ok_def)

definition mem_wf :: wf_drv where
  "mem_wf = \<lparr> d_wfs = mem_gorm wf_ID (\<lambda>k. wf_ID_update (\<lambda>_. k)), d_steps = mem_gorm st_ID (\<lambda>k. st_ID_update (\<lambda>_. k)),
     d_reqs = mem_gorm rq_ID (\<lambda>k. rq_ID_update (\<lambda>_. k)), d_acts = mem_gorm ac_ID (\<lambda>k. ac_ID_update (\<lambda>_. k)),
     d_transfers = mem_gorm tf_ID (\<lambda>k. tf_ID_update (\<lambda>_. k)), d_assetrows = mem_gorm as_ID (\<lambda>k. as_ID_update (\<lambda>_. k)),
     d_wtx = tx_fine \<rparr>"

lemma mem_wf_ok: "wf_drv_ok mem_wf"
  by (simp add: wf_drv_ok_def mem_wf_def mem_gorm_ok)

subsection \<open>Invariant\<close>

definition steps_of :: "nat \<Rightarrow> ApprovalStep list \<Rightarrow> ApprovalStep list" where
  "steps_of w ss = filter (\<lambda>s. st_WorkflowID s = w) ss"

text \<open>A chain of steps numbered from 1 without gaps.\<close>

definition chain_wf :: "ApprovalStep list \<Rightarrow> bool" where
  "chain_wf ss \<longleftrightarrow> ss \<noteq> [] \<and> int (length ss) < 2 ^ 62 \<and> distinct (map st_StepOrder ss) \<and>
     set (map st_StepOrder ss) = {1 .. int (length ss)} \<and> (\<forall>s\<in>set ss. 1 \<le> st_RequiredApprovals s)"

definition approvers :: "nat \<Rightarrow> int \<Rightarrow> ApprovalAction list \<Rightarrow> nat list" where
  "approvers i k as = map ac_ApproverUserID
     (filter (\<lambda>a. ac_ApprovalRequestID a = i \<and> ac_StepOrder a = k \<and> ac_Action a = ''approved'') as)"

definition steps_done :: "ApprovalStep list \<Rightarrow> ApprovalAction list \<Rightarrow> nat \<Rightarrow> int \<Rightarrow> bool" where
  "steps_done ss as i k \<longleftrightarrow> (\<forall>s\<in>set ss. st_StepOrder s < k \<longrightarrow> st_RequiredApprovals s \<le> int (length (approvers i (st_StepOrder s) as)))"

definition request_ok :: "wf_db \<Rightarrow> ApprovalRequest \<Rightarrow> bool" where
  "request_ok db r \<longleftrightarrow> rq_WorkflowID r \<in> wf_ID ` set (t_wfs db) \<and> 1 \<le> rq_CurrentStep r \<and>
     rq_CurrentStep r \<le> int (length (steps_of (rq_WorkflowID r) (t_steps db))) + 1 \<and>
     steps_done (steps_of (rq_WorkflowID r) (t_steps db)) (t_acts db) (rq_ID r) (rq_CurrentStep r) \<and>
     (rq_Status r = ''pending'' \<longrightarrow> rq_CurrentStep r \<le> int (length (steps_of (rq_WorkflowID r) (t_steps db)))) \<and>
     (rq_Status r = ''approved'' \<longrightarrow> rq_CurrentStep r = int (length (steps_of (rq_WorkflowID r) (t_steps db))) + 1) \<and>
     (\<forall>t\<in>set (t_transfers db). tf_ID t = rq_TransactionID r \<longrightarrow> (tf_Status t = ''approved'' \<longleftrightarrow> rq_Status r = ''approved''))"

definition wf_inv :: "wf_db \<Rightarrow> bool" where
  "wf_inv db \<longleftrightarrow> (\<forall>w\<in>set (t_wfs db). chain_wf (steps_of (wf_ID w) (t_steps db))) \<and>
     (\<forall>s\<in>set (t_steps db). st_WorkflowID s \<in> wf_ID ` set (t_wfs db)) \<and>
     distinct (map rq_ID (t_reqs db)) \<and> distinct (map rq_TransactionID (t_reqs db)) \<and>
     (\<forall>r\<in>set (t_reqs db). request_ok db r \<and> rq_TransactionID r \<in> tf_ID ` set (t_transfers db)) \<and>
     (\<forall>a\<in>set (t_acts db). ac_ApprovalRequestID a \<in> rq_ID ` set (t_reqs db)) \<and>
     (\<forall>i k. distinct (approvers i k (t_acts db)))"

lemma approvers_append [simp]: "approvers i k (as @ bs) = approvers i k as @ approvers i k bs"
  by (simp add: approvers_def)

lemma approvers_single: "approvers i k [a] =
    (if ac_ApprovalRequestID a = i \<and> ac_StepOrder a = k \<and> ac_Action a = ''approved'' then [ac_ApproverUserID a] else [])"
  by (simp add: approvers_def)

lemma steps_done_append: "steps_done ss as i k \<Longrightarrow> steps_done ss (as @ bs) i k"
  by (force simp: steps_done_def)

lemma approvers_fresh:
  assumes "\<forall>a\<in>set as. ac_ApprovalRequestID a \<in> I" "i \<notin> I"
  shows "approvers i k as = []"
  using assms by (auto simp: approvers_def filter_empty_conv)

text \<open>How one call changes the tables: one request is replaced, actions of that request are added, and only its own
  transfer may change status.\<close>

lemma wf_inv_update:
  assumes inv: "wf_inv db" and r: "r \<in> set (t_reqs db)"
    and r': "rq_ID r' = rq_ID r" "rq_WorkflowID r' = rq_WorkflowID r" "rq_TransactionID r' = rq_TransactionID r"
    and same: "t_wfs db' = t_wfs db" "t_steps db' = t_steps db"
    and reqs: "t_reqs db' = put_row rq_ID r' (t_reqs db)"
    and acts: "t_acts db' = t_acts db @ as" "\<forall>a\<in>set as. ac_ApprovalRequestID a = rq_ID r"
      "\<And>k. distinct (approvers (rq_ID r) k (t_acts db @ as))"
    and tfs: "map tf_ID (t_transfers db') = map tf_ID (t_transfers db)"
      "\<And>t. t \<in> set (t_transfers db') \<Longrightarrow> tf_ID t \<noteq> rq_TransactionID r \<Longrightarrow> t \<in> set (t_transfers db)"
    and ok: "request_ok db' r'"
  shows "wf_inv db'"
proof -
  have tfset: "tf_ID ` set (t_transfers db') = tf_ID ` set (t_transfers db)" using tfs(1) by (metis list.set_map)
  have ids: "map rq_ID (t_reqs db') = map rq_ID (t_reqs db)" by (simp add: reqs)
  then have idset: "rq_ID ` set (t_reqs db') = rq_ID ` set (t_reqs db)" by (metis list.set_map)
  have uniq: "x = r" if "x \<in> set (t_reqs db)" "rq_ID x = rq_ID r" for x
    using inv that r by (intro distinct_key_unique[of rq_ID]) (simp_all add: wf_inv_def)
  have txids: "map rq_TransactionID (t_reqs db') = map rq_TransactionID (t_reqs db)"
    unfolding reqs using uniq r' by (intro map_frame_put_row) metis
  have other: "request_ok db' x" if x: "x \<in> set (t_reqs db)" "rq_ID x \<noteq> rq_ID r" for x
  proof -
    have ne: "rq_TransactionID x \<noteq> rq_TransactionID r"
      using inv r x by (metis (no_types, lifting) distinct_map inj_onD wf_inv_def)
    have "request_ok db x" using inv x by (simp add: wf_inv_def)
    moreover have "tf_Status t = ''approved'' \<longleftrightarrow> rq_Status x = ''approved''"
      if "t \<in> set (t_transfers db')" "tf_ID t = rq_TransactionID x" for t
      using tfs(2)[OF that(1)] that(2) ne \<open>request_ok db x\<close> by (simp add: request_ok_def)
    ultimately show ?thesis by (simp add: request_ok_def same acts(1) steps_done_append)
  qed
  have "request_ok db' x \<and> rq_TransactionID x \<in> tf_ID ` set (t_transfers db')" if "x \<in> set (t_reqs db')" for x
  proof -
    from that consider "x = r'" | "x \<in> set (t_reqs db)" "rq_ID x \<noteq> rq_ID r"
      using in_set_put_row[of x rq_ID r' "t_reqs db"] r'(1) unfolding reqs by auto
    then show ?thesis using ok other r r'(3) inv unfolding tfset by cases (auto simp: wf_inv_def)
  qed
  moreover have "distinct (approvers i k (t_acts db'))" for i k
  proof (cases "i = rq_ID r")
    case True
    then show ?thesis using acts(1,3) by simp
  next
    case False
    then have "approvers i k as = []" using acts(2) by (auto simp: approvers_def filter_empty_conv)
    then show ?thesis using inv by (simp add: acts(1) wf_inv_def)
  qed
  moreover have "ac_ApprovalRequestID a \<in> rq_ID ` set (t_reqs db')" if "a \<in> set (t_acts db')" for a
    using that acts(1,2) r inv unfolding idset by (auto simp: wf_inv_def)
  ultimately show ?thesis using inv ids txids by (simp add: wf_inv_def same)
qed


subsection \<open>The writes\<close>

definition mark :: "nat \<Rightarrow> string \<Rightarrow> transfer list \<Rightarrow> transfer list" where
  "mark i st ts = map (\<lambda>t. if tf_ID t = i then t\<lparr> tf_Status := st \<rparr> else t) ts"

lemma map_ID_mark [simp]: "map tf_ID (mark i st ts) = map tf_ID ts"
  by (induction ts) (simp_all add: mark_def)

lemma in_mark:
  assumes "t \<in> set (mark i st ts)"
  obtains "t \<in> set ts" "tf_ID t \<noteq> i" | "tf_ID t = i" "tf_Status t = st"
proof -
  obtain u where u: "u \<in> set ts" "t = (if tf_ID u = i then u\<lparr> tf_Status := st \<rparr> else u)" using assms by (auto simp: mark_def)
  then show ?thesis using that by (cases "tf_ID u = i") simp_all
qed

lemma mark_other: "t \<in> set (mark i st ts) \<Longrightarrow> tf_ID t \<noteq> i \<Longrightarrow> t \<in> set ts"
  by (erule in_mark) simp_all

lemma mark_status: "t \<in> set (mark i st ts) \<Longrightarrow> tf_ID t = i \<Longrightarrow> tf_Status t = st"
  by (erule in_mark) simp_all

lemma set_transferD:
  assumes "wf_drv_ok drv" "set_transfer drv i st db = Inr db'"
  shows "db' = db\<lparr> t_transfers := mark i st (t_transfers db) \<rparr>"
proof -
  obtain n ts where u: "g_update (d_transfers drv) (\<lambda>t. tf_ID t = i) (tf_Status_update (\<lambda>_. st)) (t_transfers db) = Inr (n, ts)"
    and "db' = db\<lparr> t_transfers := ts \<rparr>" using assms(2) by (auto simp: set_transfer_def and_then_def split: sum.splits)
  then show ?thesis using gorm_updateD(2)[OF wf_drvD(5)[OF assms(1)] u] by (simp add: mark_def)
qed

lemma save_requestD:
  assumes "wf_drv_ok drv" "save_request drv r' db = Inr db'" "r \<in> set (t_reqs db)" "rq_ID r = rq_ID r'"
  shows "db' = db\<lparr> t_reqs := put_row rq_ID r' (t_reqs db) \<rparr>"
proof -
  obtain rs where s: "g_save (d_reqs drv) r' (t_reqs db) = Inr rs" and "db' = db\<lparr> t_reqs := rs \<rparr>"
    using assms(2) by (auto simp: save_request_def and_then_def split: sum.splits)
  then show ?thesis using gorm_save[OF wf_drvD(3)[OF assms(1)] s assms(3,4)] by simp
qed

lemma add_actionD:
  assumes "wf_drv_ok drv" "add_action drv a db = Inr db'"
  obtains k where "db' = db\<lparr> t_acts := t_acts db @ [a\<lparr> ac_ID := k \<rparr>] \<rparr>"
proof -
  obtain a' as where c: "g_create (d_acts drv) a (t_acts db) = Inr (a', as)" and db': "db' = db\<lparr> t_acts := as \<rparr>"
    using assms(2) by (auto simp: add_action_def and_then_def split: sum.splits)
  obtain k where "a' = a\<lparr> ac_ID := k \<rparr>" "as = t_acts db @ [a']" by (rule gorm_createD[OF wf_drvD(4)[OF assms(1)] c])
  then show ?thesis using that db' by simp
qed

lemma preload_stepsD:
  assumes "wf_drv_ok drv" "preload_steps drv w db = Inr ss" "w \<in> wf_ID ` set (t_wfs db)"
  shows "mset ss = mset (steps_of w (t_steps db))"
proof -
  obtain ws where ws: "g_find (d_wfs drv) (Where (\<lambda>x. wf_ID x = w)) (t_wfs db) = Inr ws"
    using assms(2) by (auto simp: preload_steps_def split: sum.splits)
  have "mset ws = mset (filter (\<lambda>x. wf_ID x = w) (t_wfs db))" by (rule gorm_find_Where[OF wf_drvD(1)[OF assms(1)] ws])
  moreover have "filter (\<lambda>x. wf_ID x = w) (t_wfs db) \<noteq> []" using assms(3) by (auto simp: filter_empty_conv)
  ultimately have "ws \<noteq> []" by auto
  then have "g_find (d_steps drv) (Where (\<lambda>s. st_WorkflowID s = w)) (t_steps db) = Inr ss"
    using assms(2) ws by (cases ws) (simp_all add: preload_steps_def)
  from gorm_find_Where[OF wf_drvD(2)[OF assms(1)] this] show ?thesis by (simp add: steps_of_def)
qed

subsection \<open>Closing a request\<close>

text \<open>Expiry and rejection: the request leaves the pending state, its transfer gets the same status.\<close>

lemma close_inv:
  assumes inv: "wf_inv db" and r: "r \<in> set (t_reqs db)" and st: "st \<noteq> ''pending''" "st \<noteq> ''approved''"
    and a: "ac_ApprovalRequestID a = rq_ID r" "ac_Action a \<noteq> ''approved''"
  shows "wf_inv (db\<lparr> t_acts := t_acts db @ [a],
      t_transfers := mark (rq_TransactionID r) st (t_transfers db),
      t_reqs := put_row rq_ID (r\<lparr> rq_Status := st, rq_CompletedAt := c \<rparr>) (t_reqs db) \<rparr>)"
    (is "wf_inv ?db")
proof -
  let ?r = "r\<lparr> rq_Status := st, rq_CompletedAt := c \<rparr>"
  have none: "approvers i k [a] = []" for i k using a(2) by (simp add: approvers_single)
  have "request_ok db r" using inv r by (simp add: wf_inv_def)
  moreover have "tf_Status t \<noteq> ''approved''" if "t \<in> set (mark (rq_TransactionID r) st (t_transfers db))" "tf_ID t = rq_TransactionID r" for t
    using mark_status[OF that] st(2) by simp
  ultimately have ok: "request_ok ?db ?r" using st by (simp add: request_ok_def steps_done_append)
  show ?thesis
  proof (rule wf_inv_update[OF inv r, of ?r _ "[a]"])
    show "distinct (approvers (rq_ID r) k (t_acts db @ [a]))" for k using inv by (simp add: none wf_inv_def)
    show "request_ok ?db ?r" by (rule ok)
    show "t \<in> set (t_transfers db)" if "t \<in> set (t_transfers ?db)" "tf_ID t \<noteq> rq_TransactionID r" for t
      using mark_other[of t "rq_TransactionID r" st "t_transfers db"] that by simp
  qed (use a(1) in simp_all)
qed

lemma expire_inv:
  assumes drv: "wf_drv_ok drv" and inv: "wf_inv db" and r: "r \<in> set (t_reqs db)"
    and e: "expireInTransaction drv now r comment db = Inr db'"
  shows "wf_inv db'" "t_reqs db' = put_row rq_ID (r\<lparr> rq_Status := ''expired'', rq_CompletedAt := Some now \<rparr>) (t_reqs db)"
proof -
  obtain db1 db2 where 1: "add_action drv \<lparr> ac_ID = 0, ac_ApprovalRequestID = rq_ID r, ac_StepOrder = rq_CurrentStep r,
       ac_ApproverUserID = rq_RequesterUserID r, ac_DelegatedFromID = None, ac_Action = ''expired'', ac_Comment = comment, ac_CreatedAt = now \<rparr> db = Inr db1"
    and 2: "set_transfer drv (rq_TransactionID r) ''expired'' db1 = Inr db2"
    and 3: "save_request drv (r\<lparr> rq_Status := ''expired'', rq_CompletedAt := Some now \<rparr>) db2 = Inr db'"
    using e by (auto simp: expireInTransaction_def and_then_def split: sum.splits)
  obtain k where k: "db1 = db\<lparr> t_acts := t_acts db @ [\<lparr> ac_ID = 0, ac_ApprovalRequestID = rq_ID r, ac_StepOrder = rq_CurrentStep r,
       ac_ApproverUserID = rq_RequesterUserID r, ac_DelegatedFromID = None, ac_Action = ''expired'', ac_Comment = comment, ac_CreatedAt = now \<rparr>\<lparr> ac_ID := k \<rparr>] \<rparr>"
    by (rule add_actionD[OF drv 1])
  note t = set_transferD[OF drv 2]
  have "r \<in> set (t_reqs db2)" using r by (simp add: t k)
  note s = save_requestD[OF drv 3 this]
  show "t_reqs db' = put_row rq_ID (r\<lparr> rq_Status := ''expired'', rq_CompletedAt := Some now \<rparr>) (t_reqs db)" using s by (simp add: t k)
  have "db' = db\<lparr> t_acts := t_acts db @ [\<lparr> ac_ID = 0, ac_ApprovalRequestID = rq_ID r, ac_StepOrder = rq_CurrentStep r,
       ac_ApproverUserID = rq_RequesterUserID r, ac_DelegatedFromID = None, ac_Action = ''expired'', ac_Comment = comment, ac_CreatedAt = now \<rparr>\<lparr> ac_ID := k \<rparr>],
      t_transfers := mark (rq_TransactionID r) ''expired'' (t_transfers db),
      t_reqs := put_row rq_ID (r\<lparr> rq_Status := ''expired'', rq_CompletedAt := Some now \<rparr>) (t_reqs db) \<rparr>"
    using s by (simp add: t k)
  then show "wf_inv db'" using close_inv[OF inv r, of "''expired''"] by simp
qed


subsection \<open>Approving a step\<close>

lemma not_yet_approved:
  assumes "filter (acted i k u ''approved'') as = []"
  shows "u \<notin> set (approvers i k as)"
  using assms by (auto simp: approvers_def acted_def filter_empty_conv)

lemma approve_distinct:
  assumes "wf_inv db" "filter (acted i j u ''approved'') (t_acts db) = []" "ac_ApprovalRequestID a = i" "ac_StepOrder a = j" "ac_ApproverUserID a = u"
  shows "distinct (approvers i k (t_acts db @ [a]))"
proof -
  have "distinct (approvers i k (t_acts db))" using assms(1) by (simp add: wf_inv_def)
  then show ?thesis using not_yet_approved[OF assms(2)] assms(3-) by (auto simp: approvers_single)
qed

lemma steps_done_next:
  assumes "chain_wf ss" "steps_done ss as i k" "s \<in> set ss" "st_StepOrder s = k" "st_RequiredApprovals s \<le> int (length (approvers i k as))"
  shows "steps_done ss as i (k + 1)"
  unfolding steps_done_def
proof (intro ballI impI)
  fix x assume x: "x \<in> set ss" "st_StepOrder x < k + 1"
  show "st_RequiredApprovals x \<le> int (length (approvers i (st_StepOrder x) as))"
  proof (cases "st_StepOrder x = k")
    case True
    then have "x = s" using assms(1,3,4) x(1) unfolding chain_wf_def by (metis distinct_map inj_onD)
    then show ?thesis using assms(4,5) by simp
  next
    case False
    then show ?thesis using assms(2) x by (simp add: steps_done_def)
  qed
qed

lemma advance_cases:
  assumes drv: "wf_drv_ok drv" and adv: "advance drv now ss s r db = Inr (r', db')"
  obtains "r' = r" "db' = db"
  | "st_RequiredApprovals s \<le> int (length (approvers (rq_ID r) (st_StepOrder s) (t_acts db)))"
    "add64 (rq_CurrentStep r) 1 \<le> int (length ss)" "r' = r\<lparr> rq_CurrentStep := add64 (rq_CurrentStep r) 1 \<rparr>" "db' = db"
  | "st_RequiredApprovals s \<le> int (length (approvers (rq_ID r) (st_StepOrder s) (t_acts db)))"
    "add64 (rq_CurrentStep r) 1 > int (length ss)"
    "r' = r\<lparr> rq_CurrentStep := add64 (rq_CurrentStep r) 1, rq_Status := ''approved'', rq_CompletedAt := Some now \<rparr>"
    "db' = db\<lparr> t_transfers := mark (rq_TransactionID r) ''approved'' (t_transfers db) \<rparr>"
proof -
  obtain n where n: "g_count (d_acts drv) (\<lambda>a. ac_ApprovalRequestID a = rq_ID r \<and> ac_StepOrder a = st_StepOrder s \<and> ac_Action a = ''approved'') (t_acts db) = Inr n"
    using adv by (auto simp: advance_def and_then_def split: sum.splits)
  have "n = int (length (approvers (rq_ID r) (st_StepOrder s) (t_acts db)))"
    using gorm_count[OF wf_drvD(4)[OF drv] n] by (simp add: approvers_def)
  note n = n[unfolded this]
  show ?thesis
  proof (cases "st_RequiredApprovals s \<le> int (length (approvers (rq_ID r) (st_StepOrder s) (t_acts db)))")
    case False
    then show ?thesis using adv n that(1) by (simp add: advance_def and_then_def)
  next
    case enough: True
    show ?thesis
    proof (cases "add64 (rq_CurrentStep r) 1 > int (length ss)")
      case False
      then have "r' = r\<lparr> rq_CurrentStep := add64 (rq_CurrentStep r) 1 \<rparr> \<and> db' = db"
        using adv n enough by (auto simp: advance_def and_then_def Let_def)
      then show ?thesis using that(2)[OF enough] False by linarith
    next
      case True
      obtain db1 where t: "set_transfer drv (rq_TransactionID r) ''approved'' db = Inr db1"
        and "r' = r\<lparr> rq_CurrentStep := add64 (rq_CurrentStep r) 1, rq_Status := ''approved'', rq_CompletedAt := Some now \<rparr>" "db' = db1"
        using adv n enough True by (auto simp: advance_def and_then_def Let_def split: sum.splits)
      then show ?thesis using that(3)[OF enough True] set_transferD[OF drv t] by simp
    qed
  qed
qed

lemma approve_inv:
  assumes drv: "wf_drv_ok drv" and inv: "wf_inv db" and r: "r \<in> set (t_reqs db)" "rq_Status r = ''pending''"
    and ss: "mset ss = mset (steps_of (rq_WorkflowID r) (t_steps db))" and s: "currentStep ss r = Some s"
    and dup: "filter (acted (rq_ID r) (st_StepOrder s) u ''approved'') (t_acts db) = []"
    and a: "ac_ApprovalRequestID a = rq_ID r" "ac_StepOrder a = st_StepOrder s" "ac_ApproverUserID a = u"
    and adv: "advance drv now ss s r (db\<lparr> t_acts := t_acts db @ [a] \<rparr>) = Inr (r', db1)"
    and sv: "save_request drv r' db1 = Inr db'"
  shows "wf_inv db'"
proof -
  let ?n = "int (length ss)" and ?so = "steps_of (rq_WorkflowID r) (t_steps db)"
  have rok: "request_ok db r" using inv r(1) by (simp add: wf_inv_def)
  have len: "length ?so = length ss" using ss by (metis size_mset)
  have "set ?so = set ss" using ss by (metis set_mset_mset)
  then have sin: "s \<in> set ?so" and so: "st_StepOrder s = rq_CurrentStep r"
    using s find_Some_iff_mem[of _ ss s] by (auto simp: currentStep_def)
  have ch: "chain_wf ?so" using rok inv by (auto simp: request_ok_def wf_inv_def)
  have cur: "1 \<le> rq_CurrentStep r" "rq_CurrentStep r \<le> ?n" using rok r(2) len by (simp_all add: request_ok_def)
  have "?n < 2 ^ 62" using ch len by (simp add: chain_wf_def)
  then have inc: "add64 (rq_CurrentStep r) 1 = rq_CurrentStep r + 1" using cur by (intro add64_exact) (simp add: in_i64_def)
  let ?acts = "t_acts db @ [a]"
  have done0: "steps_done ?so ?acts (rq_ID r) (rq_CurrentStep r)" using rok by (simp add: request_ok_def steps_done_append)
  have done1: "steps_done ?so ?acts (rq_ID r) (rq_CurrentStep r + 1)"
    if "st_RequiredApprovals s \<le> int (length (approvers (rq_ID r) (st_StepOrder s) ?acts))"
    using that by (intro steps_done_next[OF ch done0 sin so]) (simp add: so)
  have dist: "distinct (approvers (rq_ID r) k ?acts)" for k by (rule approve_distinct[OF inv dup a])
  note upd = wf_inv_update[OF inv r(1), of r' db' "[a]"]
  have rin: "r \<in> set (t_reqs (db\<lparr> t_acts := ?acts \<rparr>))" using r(1) by simp
  show ?thesis
  proof (cases rule: advance_cases[OF drv adv, case_names stay step last])
    case stay
    have db': "db' = db\<lparr> t_acts := ?acts, t_reqs := put_row rq_ID r (t_reqs db) \<rparr>"
      using save_requestD[OF drv sv[unfolded stay] rin] by simp
    have "request_ok db' r" using rok done0 by (simp add: request_ok_def db')
    then show ?thesis using upd dist a(1) by (simp add: stay(1) db')
  next
    case step
    have rq: "r' = r\<lparr> rq_CurrentStep := rq_CurrentStep r + 1 \<rparr>" and le: "rq_CurrentStep r + 1 \<le> ?n" using step inc by simp_all
    have dn: "steps_done ?so ?acts (rq_ID r) (rq_CurrentStep r + 1)" using step(1) by (intro done1) simp
    have db': "db' = db\<lparr> t_acts := ?acts, t_reqs := put_row rq_ID r' (t_reqs db) \<rparr>"
      using save_requestD[OF drv sv[unfolded step(4)] rin] by (simp add: rq)
    have "request_ok db' r'" using rok dn le cur r(2) len by (simp add: request_ok_def db' rq)
    then show ?thesis using upd dist a(1) by (simp add: db' rq)
  next
    case last
    have rq: "r' = r\<lparr> rq_CurrentStep := rq_CurrentStep r + 1, rq_Status := ''approved'', rq_CompletedAt := Some now \<rparr>"
      and gt: "rq_CurrentStep r + 1 = ?n + 1" using last(2,3) inc cur by simp_all
    have dn: "steps_done ?so ?acts (rq_ID r) (rq_CurrentStep r + 1)" using last(1) by (intro done1) simp
    have db1: "db1 = db\<lparr> t_acts := ?acts, t_transfers := mark (rq_TransactionID r) ''approved'' (t_transfers db) \<rparr>" using last(4) by simp
    have db': "db' = db\<lparr> t_acts := ?acts, t_transfers := mark (rq_TransactionID r) ''approved'' (t_transfers db), t_reqs := put_row rq_ID r' (t_reqs db) \<rparr>"
      using save_requestD[OF drv sv, of r] r(1) by (simp add: rq db1)
    have "request_ok db' r'" using rok dn gt cur len mark_status by (simp add: request_ok_def db' rq)
    then show ?thesis using upd dist a(1) mark_other by (simp add: db' rq)
  qed
qed


subsection \<open>The operations\<close>

lemma reject_inv:
  assumes drv: "wf_drv_ok drv" and inv: "wf_inv db" and r: "r \<in> set (t_reqs db)"
    and a: "ac_ApprovalRequestID a = rq_ID r" "ac_Action a = ''rejected''"
    and t: "set_transfer drv (rq_TransactionID r) ''rejected'' (db\<lparr> t_acts := t_acts db @ [a] \<rparr>) = Inr db1"
    and sv: "save_request drv (r\<lparr> rq_Status := ''rejected'', rq_CompletedAt := c \<rparr>) db1 = Inr db'"
  shows "wf_inv db'"
proof -
  note t' = set_transferD[OF drv t]
  have "r \<in> set (t_reqs db1)" using r by (simp add: t')
  from save_requestD[OF drv sv this] have "db' = db\<lparr> t_acts := t_acts db @ [a],
      t_transfers := mark (rq_TransactionID r) ''rejected'' (t_transfers db),
      t_reqs := put_row rq_ID (r\<lparr> rq_Status := ''rejected'', rq_CompletedAt := c \<rparr>) (t_reqs db) \<rparr>" by (simp add: t')
  then show ?thesis using close_inv[OF inv r, of "''rejected''" a c] a by simp
qed

lemma decide_tx_inv:
  assumes drv: "wf_drv_ok drv" and inv: "wf_inv db" and act: "action = ''approved'' \<or> action = ''rejected''"
    and d: "decide_tx drv now i u role action comment db = Inr (res, db')"
  shows "wf_inv db'"
proof -
  obtain r ss where f: "g_first (d_reqs drv) (\<lambda>r. rq_ID r = i) (t_reqs db) = Inr r"
    and pl: "preload_steps drv (rq_WorkflowID r) db = Inr ss" and st: "rq_Status r = ''pending''"
    using d by (auto simp: decide_tx_def and_then_def split: sum.splits if_splits)
  have r: "r \<in> set (t_reqs db)" by (rule gorm_firstD(1)[OF wf_drvD(3)[OF drv] f])
  have "rq_WorkflowID r \<in> wf_ID ` set (t_wfs db)" using inv r by (simp add: wf_inv_def request_ok_def)
  note ss = preload_stepsD[OF drv pl this]
  show ?thesis
  proof (cases "now < rq_ExpiresAt r")
    case False
    then obtain db1 where "expireInTransaction drv now r ''approval timeout'' db = Inr db1" "db' = db1"
      using d f pl st by (auto simp: decide_tx_def and_then_def split: sum.splits)
    then show ?thesis using expire_inv(1)[OF drv inv r] by simp
  next
    case True
    define a :: "ApprovalStep \<Rightarrow> nat option \<Rightarrow> ApprovalAction" where "a s src = \<lparr> ac_ID = 0, ac_ApprovalRequestID = rq_ID r, ac_StepOrder = st_StepOrder s, ac_ApproverUserID = u,
       ac_DelegatedFromID = src, ac_Action = action, ac_Comment = comment, ac_CreatedAt = now \<rparr>" for s src
    obtain s n src db1 where s: "currentStep ss r = Some s"
      and n: "g_count (d_acts drv) (acted (rq_ID r) (st_StepOrder s) u ''approved'') (t_acts db) = Inr n" "\<not> n > 0"
      and ad: "add_action drv (a s src) db = Inr db1"
      and rest: "(if action = ''rejected''
         then and_then (set_transfer drv (rq_TransactionID r) ''rejected'' db1) (\<lambda>db2.
              and_then (save_request drv (r\<lparr> rq_Status := ''rejected'', rq_CompletedAt := Some now \<rparr>) db2) (\<lambda>db3.
                Inr (Some (r\<lparr> rq_Status := ''rejected'', rq_CompletedAt := Some now \<rparr>), db3)))
         else and_then (advance drv now ss s r db1) (\<lambda>(request1, db2).
              and_then (save_request drv request1 db2) (\<lambda>db3. Inr (Some request1, db3)))) = Inr (res, db')"
      using d f pl st True unfolding decide_tx_def and_then_def a_def Let_def
      by (auto split: sum.splits option.splits if_splits)
    obtain k where k: "db1 = db\<lparr> t_acts := t_acts db @ [(a s src)\<lparr> ac_ID := k \<rparr>] \<rparr>" by (rule add_actionD[OF drv ad])
    have dup: "filter (acted (rq_ID r) (st_StepOrder s) u ''approved'') (t_acts db) = []"
      using gorm_count[OF wf_drvD(4)[OF drv] n(1)] n(2) by simp
    show ?thesis
    proof (cases "action = ''rejected''")
      case rej: True
      then obtain db2 where "set_transfer drv (rq_TransactionID r) ''rejected'' db1 = Inr db2"
        "save_request drv (r\<lparr> rq_Status := ''rejected'', rq_CompletedAt := Some now \<rparr>) db2 = Inr db'"
        using rest by (auto simp: and_then_def split: sum.splits)
      then show ?thesis using reject_inv[OF drv inv r, of "(a s src)\<lparr> ac_ID := k \<rparr>"] rej k by (simp add: a_def)
    next
      case False
      then obtain r' db2 where "advance drv now ss s r db1 = Inr (r', db2)" "save_request drv r' db2 = Inr db'"
        using rest by (auto simp: and_then_def split: sum.splits prod.splits)
      then show ?thesis using approve_inv[OF drv inv r st ss s dup, of "(a s src)\<lparr> ac_ID := k \<rparr>"] k by (simp add: a_def)
    qed
  qed
qed

lemma Decide_inv:
  assumes "wf_drv_ok drv" "wf_inv db"
  shows "wf_inv (snd (Decide drv now i u role action comment db))"
proof (cases "action = ''approved'' \<or> action = ''rejected''")
  case False
  then show ?thesis using assms(2) by (simp add: Decide_def)
next
  case True
  have "snd (Decide drv now i u role action comment db) = snd (transaction (d_wtx drv) (decide_tx drv now i u role action comment) db)"
    using True by (auto simp: Decide_def split: sum.split option.split prod.split)
  then show ?thesis using transaction_keeps[of wf_inv, OF assms(2)] decide_tx_inv[OF assms True] by metis
qed

lemma action_inv:
  assumes inv: "wf_inv db" and r: "r \<in> set (t_reqs db)" and a: "ac_ApprovalRequestID a = rq_ID r" "ac_Action a \<noteq> ''approved''"
  shows "wf_inv (db\<lparr> t_acts := t_acts db @ [a] \<rparr>)"
proof -
  have none: "approvers i k [a] = []" for i k using a(2) by (simp add: approvers_single)
  have same: "put_row rq_ID r (t_reqs db) = t_reqs db"
    using inv r unfolding put_row_def wf_inv_def by (intro map_idI) (metis distinct_key_unique)
  have "request_ok db r" using inv r by (simp add: wf_inv_def)
  then have "request_ok (db\<lparr> t_acts := t_acts db @ [a] \<rparr>) r" by (simp add: request_ok_def steps_done_append)
  then show ?thesis
    using wf_inv_update[OF inv r, of r "db\<lparr> t_acts := t_acts db @ [a] \<rparr>" "[a]"] a(1) same none inv by (simp add: wf_inv_def)
qed

lemma Delegate_inv:
  assumes drv: "wf_drv_ok drv" and inv: "wf_inv db"
  shows "wf_inv (snd (Delegate drv now i fromID toID role comment db))"
proof -
  define body where "body = (\<lambda>db. and_then (g_first (d_reqs drv) (\<lambda>r. rq_ID r = i) (t_reqs db)) (\<lambda>request.
             and_then (preload_steps drv (rq_WorkflowID request) db) (\<lambda>steps.
               if rq_Status request \<noteq> ''pending'' then Inl (DBError ErrNotPending)
               else case currentStep steps request of
                      None \<Rightarrow> Inl (DBError (no_step request))
                    | Some step \<Rightarrow>
                        if \<not> st_AllowDelegation step \<or> \<not> eligibleForStep step fromID role then Inl (DBError ErrNotApprover)
                        else and_then (add_action drv \<lparr> ac_ID = 0, ac_ApprovalRequestID = rq_ID request, ac_StepOrder = st_StepOrder step,
                               ac_ApproverUserID = toID, ac_DelegatedFromID = Some fromID, ac_Action = ''delegated'',
                               ac_Comment = comment, ac_CreatedAt = now \<rparr> db) (\<lambda>db'. Inr ((), db')))))"
  have e: "snd (Delegate drv now i fromID toID role comment db) = snd (transaction (d_wtx drv) body db)"
    unfolding Delegate_def body_def[symmetric] by (simp split: sum.split prod.split)
  show ?thesis unfolding e
  proof (rule transaction_keeps[where I = wf_inv, OF inv])
    fix x db' assume "body db = Inr (x, db')"
    then obtain r and s :: ApprovalStep where f: "g_first (d_reqs drv) (\<lambda>r. rq_ID r = i) (t_reqs db) = Inr r"
      and ad: "add_action drv \<lparr> ac_ID = 0, ac_ApprovalRequestID = rq_ID r, ac_StepOrder = st_StepOrder s, ac_ApproverUserID = toID,
         ac_DelegatedFromID = Some fromID, ac_Action = ''delegated'', ac_Comment = comment, ac_CreatedAt = now \<rparr> db = Inr db'"
      by (auto simp: body_def and_then_def split: sum.splits option.splits if_splits)
    have r: "r \<in> set (t_reqs db)" by (rule gorm_firstD(1)[OF wf_drvD(3)[OF drv] f])
    show "wf_inv db'" by (rule add_actionD[OF drv ad]) (use action_inv[OF inv r] in simp)
  qed
qed


text \<open>A sweep that moves pending requests out of the pending state and touches only transfers that are not approved.\<close>

lemma sweep_inv:
  assumes inv: "wf_inv db" and db': "db' = db\<lparr> t_reqs := map f (t_reqs db), t_transfers := map g (t_transfers db) \<rparr>"
    and f: "\<And>r. rq_ID (f r) = rq_ID r \<and> rq_WorkflowID (f r) = rq_WorkflowID r \<and> rq_TransactionID (f r) = rq_TransactionID r \<and>
        rq_CurrentStep (f r) = rq_CurrentStep r" "\<And>r. rq_Status (f r) = ''pending'' \<Longrightarrow> rq_Status r = ''pending''"
      "\<And>r. rq_Status (f r) = ''approved'' \<longleftrightarrow> rq_Status r = ''approved''"
    and g: "\<And>t. tf_ID (g t) = tf_ID t" "\<And>t. tf_Status (g t) = ''approved'' \<longleftrightarrow> tf_Status t = ''approved''"
  shows "wf_inv db'"
proof -
  have ids: "map (rq_ID \<circ> f) rs = map rq_ID rs" "map (rq_TransactionID \<circ> f) rs = map rq_TransactionID rs" for rs
    by (induction rs) (simp_all add: f(1))
  have idset: "rq_ID ` f ` A = rq_ID ` A" for A by (simp add: image_image f(1))
  have tset: "tf_ID ` g ` A = tf_ID ` A" for A by (simp add: image_image g(1))
  have "request_ok db' (f r)" if "r \<in> set (t_reqs db)" for r
  proof -
    have "request_ok db r" using inv that by (simp add: wf_inv_def)
    then show ?thesis using f(2)[of r] f(3)[of r] g by (simp add: request_ok_def db' f(1))
  qed
  then show ?thesis using inv ids unfolding wf_inv_def db' by (simp add: f(1) ids idset tset)
qed

lemma ExpireTimedOut_inv:
  assumes drv: "wf_drv_ok drv" and inv: "wf_inv db"
  shows "wf_inv (snd (ExpireTimedOut drv now1 now2 db))"
proof -
  define f where "f r = (if rq_Status r = ''pending'' \<and> rq_ExpiresAt r \<le> now1 then r\<lparr> rq_Status := ''expired'', rq_CompletedAt := Some now2 \<rparr> else r)"
    for r :: ApprovalRequest
  define g where "g rs t = (if tf_Status t = ''approval_pending'' \<and> tf_ID t \<in> rq_TransactionID ` set (filter (\<lambda>r. rq_Status r = ''expired'') rs)
     then t\<lparr> tf_Status := ''expired'' \<rparr> else t)" for rs :: "ApprovalRequest list" and t :: transfer
  have F: "rq_ID (f r) = rq_ID r \<and> rq_WorkflowID (f r) = rq_WorkflowID r \<and> rq_TransactionID (f r) = rq_TransactionID r \<and>
      rq_CurrentStep (f r) = rq_CurrentStep r" "rq_Status (f r) = ''pending'' \<Longrightarrow> rq_Status r = ''pending''"
    "rq_Status (f r) = ''approved'' \<longleftrightarrow> rq_Status r = ''approved''" for r by (simp_all add: f_def split: if_splits)
  have G: "tf_ID (g rs t) = tf_ID t" "tf_Status (g rs t) = ''approved'' \<longleftrightarrow> tf_Status t = ''approved''" for rs t by (auto simp: g_def)
  consider "snd (ExpireTimedOut drv now1 now2 db) = db"
    | "snd (ExpireTimedOut drv now1 now2 db) = db\<lparr> t_reqs := map f (t_reqs db) \<rparr>"
    | rs where "snd (ExpireTimedOut drv now1 now2 db) = db\<lparr> t_reqs := map f (t_reqs db), t_transfers := map (g rs) (t_transfers db) \<rparr>"
  proof (cases "g_update (d_reqs drv) (\<lambda>r. rq_Status r = ''pending'' \<and> rq_ExpiresAt r \<le> now1)
             (\<lambda>r. r\<lparr> rq_Status := ''expired'', rq_CompletedAt := Some now2 \<rparr>) (t_reqs db)")
    case (Inl e)
    then show ?thesis using that(1) by (simp add: ExpireTimedOut_def)
  next
    case (Inr nr)
    obtain n rs where nr: "nr = (n, rs)" by (cases nr)
    have rs: "rs = map f (t_reqs db)" using gorm_updateD(2)[OF wf_drvD(3)[OF drv] Inr[unfolded nr]] unfolding f_def by simp
    show ?thesis
    proof (cases "g_update (d_transfers drv) (\<lambda>t. tf_Status t = ''approval_pending'' \<and>
          tf_ID t \<in> rq_TransactionID ` set (filter (\<lambda>r. rq_Status r = ''expired'') rs)) (tf_Status_update (\<lambda>_. ''expired'')) (t_transfers db)")
      case (Inl e)
      then show ?thesis using that(2) Inr nr rs by (simp add: ExpireTimedOut_def Let_def)
    next
      fix mt assume u: "g_update (d_transfers drv) (\<lambda>t. tf_Status t = ''approval_pending'' \<and>
          tf_ID t \<in> rq_TransactionID ` set (filter (\<lambda>r. rq_Status r = ''expired'') rs)) (tf_Status_update (\<lambda>_. ''expired'')) (t_transfers db) = Inr mt"
      obtain m ts where mt: "mt = (m, ts)" by (cases mt)
      have "ts = map (g rs) (t_transfers db)" using gorm_updateD(2)[OF wf_drvD(5)[OF drv] u[unfolded mt]] unfolding g_def by simp
      then show ?thesis using that(2,3) u Inr nr rs mt by (cases "0 < n") (simp_all add: ExpireTimedOut_def Let_def)
    qed
  qed
  then show ?thesis
  proof cases
    case 1
    then show ?thesis using inv by simp
  next
    case 2
    show ?thesis by (rule sweep_inv[OF inv _ F, of _ "\<lambda>t. t"]) (simp_all add: 2)
  next
    case (3 rs)
    show ?thesis by (rule sweep_inv[OF inv 3 F G])
  qed
qed

lemma find_workflowD:
  assumes "wf_drv_ok drv" "find_workflow drv ty n db = Inr w"
  shows "w \<in> set (t_wfs db)"
proof -
  let ?q = "\<lparr> q_where = (\<lambda>w. wf_Active w \<and> wf_MinimumAmount w \<le> n \<and> (wf_AssetType w = '''' \<or> wf_AssetType w = ty)),
     q_order = (\<lambda>x y. wf_MinimumAmount x > wf_MinimumAmount y \<or> wf_MinimumAmount x = wf_MinimumAmount y \<and> wf_ID x \<le> wf_ID y),
     q_offset = 0, q_limit = Some 1 \<rparr>"
  obtain rest where f: "g_find (d_wfs drv) ?q (t_wfs db) = Inr (w # rest)"
    using assms(2) by (auto simp: find_workflow_def split: sum.splits list.splits)
  have "is_order (q_order ?q)" by (auto simp: is_order_def)
  from gorm_find_mem(1)[OF wf_drvD(1)[OF assms(1)] this f] show ?thesis by simp
qed

lemma CreateTransferRequest_inv:
  assumes drv: "wf_drv_ok drv" and inv: "wf_inv db"
  shows "wf_inv (snd (CreateTransferRequest drv uuid now u inp db))"
proof (cases "snd (CreateTransferRequest drv uuid now u inp db) = db")
  case True
  then show ?thesis using inv by simp
next
  case False
  then obtain a :: asset_row and w where w: "find_workflow drv (as_AssetType a) (in_Amount inp) db = Inr w"
    and e: "snd (CreateTransferRequest drv uuid now u inp db) = snd (transaction (d_wtx drv) (request_tx drv uuid now u inp w) db)"
    by (auto simp: CreateTransferRequest_def split: sum.splits dberr.splits prod.splits)
  have win: "w \<in> set (t_wfs db)" by (rule find_workflowD[OF drv w])
  show ?thesis unfolding e
  proof (rule transaction_keeps[where I = wf_inv, OF inv])
    fix x db' assume "request_tx drv uuid now u inp w db = Inr (x, db')"
    then obtain t ts r rs where ct: "g_create (d_transfers drv) \<lparr> tf_ID = 0, tf_AssetID = in_AssetID inp, tf_FromAddress = in_FromAddress inp,
        tf_ToAddress = in_ToAddress inp, tf_Amount = in_Amount inp, tf_TxHash = ''approval-'' @ uuid, tf_Status = ''approval_pending'' \<rparr> (t_transfers db) = Inr (t, ts)"
      and cr: "g_create (d_reqs drv) \<lparr> rq_ID = 0, rq_WorkflowID = wf_ID w, rq_TransactionID = tf_ID t, rq_RequesterUserID = u,
        rq_AssetID = in_AssetID inp, rq_FromAddress = in_FromAddress inp, rq_ToAddress = in_ToAddress inp,
        rq_Amount = in_Amount inp, rq_Status = ''pending'', rq_CurrentStep = 1,
        rq_ExpiresAt = now + mul64 (wf_TimeoutHours w) Hour, rq_CompletedAt = None, rq_CreatedAt = now \<rparr> (t_reqs db) = Inr (r, rs)"
      and db': "db' = db\<lparr> t_transfers := ts, t_reqs := rs \<rparr>"
      by (auto simp: request_tx_def and_then_def split: sum.splits prod.splits)
    obtain k where k: "k \<notin> tf_ID ` set (t_transfers db)" "tf_ID t = k" "tf_Status t = ''approval_pending''" "ts = t_transfers db @ [t]"
      by (rule gorm_createD[OF wf_drvD(5)[OF drv] ct]) simp
    obtain j where j: "j \<notin> rq_ID ` set (t_reqs db)" "rq_ID r = j" "rq_WorkflowID r = wf_ID w" "rq_TransactionID r = k"
        "rq_Status r = ''pending''" "rq_CurrentStep r = 1" "rs = t_reqs db @ [r]"
      by (rule gorm_createD[OF wf_drvD(3)[OF drv] cr]) (simp add: k(2))
    have ch: "chain_wf (steps_of (wf_ID w) (t_steps db))" using inv win by (simp add: wf_inv_def)
    then have "1 \<le> length (steps_of (wf_ID w) (t_steps db))" by (cases "steps_of (wf_ID w) (t_steps db)") (simp_all add: chain_wf_def)
    moreover have "steps_done (steps_of (wf_ID w) (t_steps db)) (t_acts db) j 1"
      unfolding steps_done_def
    proof (intro ballI impI)
      fix s assume s: "s \<in> set (steps_of (wf_ID w) (t_steps db))" "st_StepOrder s < 1"
      have "st_StepOrder s \<in> {1 .. int (length (steps_of (wf_ID w) (t_steps db)))}" using ch s(1) unfolding chain_wf_def by (metis imageI list.set_map)
      then show "st_RequiredApprovals s \<le> int (length (approvers j (st_StepOrder s) (t_acts db)))" using s(2) by simp
    qed
    moreover have "tf_Status x \<noteq> ''approved''" if "x \<in> set ts" "tf_ID x = k" for x
      using that k by (auto simp: image_iff)
    ultimately have "request_ok db' r" using win by (simp add: request_ok_def db' j)
    moreover have "request_ok db' y" if "y \<in> set (t_reqs db)" for y
    proof -
      have "request_ok db y" "rq_TransactionID y \<noteq> k" using inv that k(1) by (auto simp: wf_inv_def)
      then show ?thesis by (simp add: request_ok_def db' k(2,4))
    qed
    moreover have "k \<notin> rq_TransactionID ` set (t_reqs db)" using inv k(1) unfolding wf_inv_def by (metis imageE)
    ultimately show "wf_inv db'" using inv j k unfolding wf_inv_def db' by auto
  qed
qed


lemma create_stepsD:
  assumes "gorm_ok st_ID (\<lambda>k. st_ID_update (\<lambda>_. k)) g"
  shows "create_steps g ss rows = Inr rows' \<Longrightarrow>
    \<exists>ss'. rows' = rows @ ss' \<and> list_all2 (\<lambda>s s'. \<exists>k. s' = s\<lparr> st_ID := k \<rparr>) ss ss'"
proof (induction ss arbitrary: rows)
  case (Cons s ss)
  obtain s' rows1 where c: "g_create g s rows = Inr (s', rows1)" and rest: "create_steps g ss rows1 = Inr rows'"
    using Cons.prems by (auto simp: and_then_def split: sum.splits prod.splits)
  obtain k where k: "s' = s\<lparr> st_ID := k \<rparr>" "rows1 = rows @ [s']" by (rule gorm_createD[OF assms c])
  obtain ss' where "rows' = rows1 @ ss'" "list_all2 (\<lambda>s s'. \<exists>k. s' = s\<lparr> st_ID := k \<rparr>) ss ss'" using Cons.IH[OF rest] by blast
  then show ?case using k by (intro exI[of _ "s' # ss'"]) auto
qed simp

lemma same_steps:
  assumes "list_all2 (\<lambda>s s'. \<exists>k. s' = s\<lparr> st_ID := k \<rparr>) ss ss'"
  shows "map (\<lambda>s. (st_WorkflowID s, st_StepOrder s, st_RequiredApprovals s)) ss' = map (\<lambda>s. (st_WorkflowID s, st_StepOrder s, st_RequiredApprovals s)) ss"
  using assms by (induction rule: list_all2_induct) auto

lemma chain_wf_core:
  assumes "chain_wf ss" "map (\<lambda>s. (st_WorkflowID s, st_StepOrder s, st_RequiredApprovals s)) ss' = map (\<lambda>s. (w, st_StepOrder s, st_RequiredApprovals s)) ss"
  shows "chain_wf ss'" "\<forall>s\<in>set ss'. st_WorkflowID s = w"
proof -
  have len: "length ss' = length ss" using assms(2) by (metis length_map)
  have "map (fst \<circ> snd) (map (\<lambda>s. (st_WorkflowID s, st_StepOrder s, st_RequiredApprovals s)) ss') =
      map (fst \<circ> snd) (map (\<lambda>s. (w, st_StepOrder s, st_RequiredApprovals s)) ss)" using assms(2) by simp
  then have ord: "map st_StepOrder ss' = map st_StepOrder ss" by (simp add: o_def)
  have mem: "\<exists>s\<in>set ss. st_WorkflowID s' = w \<and> st_RequiredApprovals s' = st_RequiredApprovals s" if "s' \<in> set ss'" for s'
  proof -
    have "(st_WorkflowID s', st_StepOrder s', st_RequiredApprovals s') \<in> set (map (\<lambda>s. (w, st_StepOrder s, st_RequiredApprovals s)) ss)"
      using that assms(2) by (metis (mono_tags, lifting) imageI list.set_map)
    then show ?thesis by auto
  qed
  then show "\<forall>s\<in>set ss'. st_WorkflowID s = w" by blast
  show "chain_wf ss'" using assms(1) mem len unfolding chain_wf_def ord by fastforce
qed

lemma steps_ordered_chain:
  assumes "steps_ordered i ss" "0 \<le> i"
  shows "map st_StepOrder ss = map (\<lambda>k. i + 1 + int k) [0..<length ss]" "\<forall>s\<in>set ss. 1 \<le> st_RequiredApprovals s"
proof -
  have "map st_StepOrder ss = map (\<lambda>k. i + 1 + int k) [0..<length ss] \<and> (\<forall>s\<in>set ss. 1 \<le> st_RequiredApprovals s)"
    using assms
  proof (induction ss arbitrary: i)
    case (Cons s ss)
    have "map (\<lambda>k. i + 1 + int k) [0..<length (s # ss)] = (i + 1) # map (\<lambda>k. i + 1 + 1 + int k) [0..<length ss]"
      by (simp add: upt_conv_Cons map_Suc_upt[symmetric] o_def del: upt_Suc)
    then show ?case using Cons.IH[of "i + 1"] Cons.prems by simp
  qed simp
  then show "map st_StepOrder ss = map (\<lambda>k. i + 1 + int k) [0..<length ss]" "\<forall>s\<in>set ss. 1 \<le> st_RequiredApprovals s" by simp_all
qed

lemma steps_ordered_wf:
  assumes "steps_ordered 0 ss" "ss \<noteq> []" "int (length ss) < 2 ^ 62"
  shows "chain_wf ss"
proof -
  note c = steps_ordered_chain[OF assms(1)]
  have "distinct (map (\<lambda>k. 0 + 1 + int k) [0..<length ss])" by (simp add: distinct_map inj_on_def)
  moreover have "set (map (\<lambda>k. 0 + 1 + int k) [0..<length ss]) = {1 .. int (length ss)}"
  proof -
    have "x \<in> (\<lambda>k. 1 + int k) ` {0..<length ss}" if "1 \<le> x" "x \<le> int (length ss)" for x
      using that by (intro image_eqI[of _ _ "nat (x - 1)"]) auto
    then show ?thesis by auto
  qed
  ultimately show ?thesis using c assms(2,3) unfolding chain_wf_def by simp
qed

lemma CreateWorkflow_inv:
  assumes drv: "wf_drv_ok drv" and inv: "wf_inv db" and len: "int (length steps) < 2 ^ 62"
  shows "wf_inv (snd (CreateWorkflow drv workflow steps db))"
proof (cases "steps_ordered 0 steps \<and> steps \<noteq> [] \<and> snd (CreateWorkflow drv workflow steps db) \<noteq> db")
  case False
  then show ?thesis using inv by (auto simp: CreateWorkflow_def)
next
  case True
  let ?body = "\<lambda>db. and_then (g_create (d_wfs drv) (workflow\<lparr> wf_Active := True \<rparr>) (t_wfs db)) (\<lambda>(w, ws).
     and_then (create_steps (d_steps drv) (map (\<lambda>s. s\<lparr> st_WorkflowID := wf_ID w \<rparr>) steps) (t_steps db)) (\<lambda>ss.
       Inr (w, db\<lparr> t_wfs := ws, t_steps := ss \<rparr>)))"
  have e: "snd (CreateWorkflow drv workflow steps db) = snd (transaction (d_wtx drv) ?body db)"
    using True by (auto simp: CreateWorkflow_def split: if_splits sum.splits prod.splits)
  show ?thesis unfolding e
  proof (rule transaction_keeps[where I = wf_inv, OF inv])
    fix x db' assume "?body db = Inr (x, db')"
    then obtain w ws ss where c: "g_create (d_wfs drv) (workflow\<lparr> wf_Active := True \<rparr>) (t_wfs db) = Inr (w, ws)"
      and s: "create_steps (d_steps drv) (map (\<lambda>s. s\<lparr> st_WorkflowID := wf_ID w \<rparr>) steps) (t_steps db) = Inr ss"
      and db': "db' = db\<lparr> t_wfs := ws, t_steps := ss \<rparr>"
      by (auto simp: and_then_def split: sum.splits prod.splits)
    obtain k where k: "k \<notin> wf_ID ` set (t_wfs db)" "w = workflow\<lparr> wf_Active := True, wf_ID := k \<rparr>" "ws = t_wfs db @ [w]"
      by (rule gorm_createD[OF wf_drvD(1)[OF drv] c])
    obtain ss' where ss': "ss = t_steps db @ ss'" "list_all2 (\<lambda>s s'. \<exists>k. s' = s\<lparr> st_ID := k \<rparr>) (map (\<lambda>s. s\<lparr> st_WorkflowID := k \<rparr>) steps) ss'"
      using create_stepsD[OF wf_drvD(2)[OF drv] s] k(2) by auto
    have ch: "chain_wf ss'" and wid: "\<forall>s\<in>set ss'. st_WorkflowID s = k"
      by (rule chain_wf_core[OF steps_ordered_wf, of steps ss' k]; use True len same_steps[OF ss'(2)] in \<open>simp add: o_def\<close>)+
    have "st_WorkflowID s \<noteq> k" if "s \<in> set (t_steps db)" for s using inv that k(1) unfolding wf_inv_def by metis
    then have none: "steps_of k (t_steps db) = []" by (simp add: steps_of_def)
    have new: "steps_of k ss = ss'" using wid none by (simp add: ss'(1) steps_of_def)
    have old: "steps_of i ss = steps_of i (t_steps db)" if "i \<in> wf_ID ` set (t_wfs db)" for i
    proof -
      have "i \<noteq> k" using that k(1) by blast
      then show ?thesis using wid by (simp add: ss'(1) steps_of_def)
    qed
    have "request_ok db' r" if "r \<in> set (t_reqs db)" for r
    proof -
      have "request_ok db r" using inv that by (simp add: wf_inv_def)
      then show ?thesis using old[of "rq_WorkflowID r"] by (simp add: request_ok_def db' k(3))
    qed
    moreover have "chain_wf (steps_of (wf_ID y) ss)" if "y \<in> set ws" for y
    proof (cases "y = w")
      case True
      then show ?thesis using new ch by (simp add: k(2))
    next
      case False
      then have "y \<in> set (t_wfs db)" using that by (simp add: k(3))
      then show ?thesis using inv old[of "wf_ID y"] by (simp add: wf_inv_def)
    qed
    moreover have "st_WorkflowID s \<in> wf_ID ` set ws" if "s \<in> set ss" for s
    proof -
      have "wf_ID w = k" by (simp add: k(2))
      then show ?thesis using that inv wid by (auto simp: ss'(1) k(3) wf_inv_def)
    qed
    ultimately show "wf_inv db'" using inv by (simp add: wf_inv_def db')
  qed
qed

subsection \<open>Sequences of calls\<close>

datatype wf_req =
  ReqWorkflow ApprovalWorkflow "ApprovalStep list"
  | ReqTransfer string instant nat TransferApprovalInput
  | ReqDecide instant nat nat UserRole string string
  | ReqDelegate instant nat nat nat UserRole string
  | ReqSweep instant instant

definition svc_response :: "'a svc \<times> wf_db \<Rightarrow> unit response \<times> wf_db" where
  "svc_response r = (case fst r of Ok _ \<Rightarrow> Reply StatusOK () | Err e \<Rightarrow> Fail StatusBadRequest e
     | ErrNoMatchingWorkflow \<Rightarrow> Fail StatusBadRequest ''no matching approval workflow'' | Panic \<Rightarrow> Crash, snd r)"

lemma snd_svc_response [simp]: "snd (svc_response r) = snd r"
  by (simp add: svc_response_def)

fun wf_handle :: "wf_drv \<Rightarrow> wf_req \<Rightarrow> wf_db \<Rightarrow> unit response \<times> wf_db" where
  "wf_handle drv (ReqWorkflow w ss) db = svc_response (CreateWorkflow drv w ss db)"
| "wf_handle drv (ReqTransfer uuid now u inp) db = svc_response (CreateTransferRequest drv uuid now u inp db)"
| "wf_handle drv (ReqDecide now i u role action comment) db = svc_response (Decide drv now i u role action comment db)"
| "wf_handle drv (ReqDelegate now i a b role comment) db = svc_response (Delegate drv now i a b role comment db)"
| "wf_handle drv (ReqSweep now1 now2) db = svc_response (ExpireTimedOut drv now1 now2 db)"

fun wf_req_fits :: "wf_req \<Rightarrow> wf_db \<Rightarrow> bool" where
  "wf_req_fits (ReqWorkflow w ss) db = (int (length ss) < 2 ^ 62)"
| "wf_req_fits r db = True"

interpretation wf: service "wf_handle drv" "\<lambda>db. wf_drv_ok drv \<and> wf_inv db" wf_req_fits for drv
proof
  fix db r
  assume "wf_drv_ok drv \<and> wf_inv db" "wf_req_fits r db"
  then show "wf_drv_ok drv \<and> wf_inv (snd (wf_handle drv r db))"
    by (cases r) (simp_all add: CreateWorkflow_inv CreateTransferRequest_inv Decide_inv Delegate_inv ExpireTimedOut_inv)
qed


subsection \<open>Progress\<close>

definition answers :: "'r gorm \<Rightarrow> bool" where
  "answers g \<longleftrightarrow> (\<forall>P rows. (\<exists>x\<in>set rows. P x) \<longrightarrow> (\<exists>r. g_first g P rows = Inr r)) \<and> (\<forall>q rows. \<exists>rs. g_find g q rows = Inr rs) \<and>
     (\<forall>P rows. \<exists>n. g_count g P rows = Inr n) \<and> (\<forall>r rows. \<exists>x. g_create g r rows = Inr x) \<and> (\<forall>r rows. \<exists>x. g_save g r rows = Inr x) \<and>
     (\<forall>P f rows. \<exists>x. g_update g P f rows = Inr x)"

definition wf_reliable :: "wf_drv \<Rightarrow> bool" where
  "wf_reliable drv \<longleftrightarrow> answers (d_wfs drv) \<and> answers (d_steps drv) \<and> answers (d_reqs drv) \<and> answers (d_acts drv) \<and>
     answers (d_transfers drv) \<and> d_wtx drv = tx_fine"

lemma answers_first:
  assumes "answers g" "x \<in> set rows" "P x"
  shows "\<exists>r. g_first g P rows = Inr r"
proof -
  have "(\<exists>x\<in>set rows. P x) \<longrightarrow> (\<exists>r. g_first g P rows = Inr r)" using assms(1) unfolding answers_def by (elim conjE allE)
  then show ?thesis using assms(2,3) by blast
qed

lemma mem_answers: "answers (mem_gorm key setkey)"
proof -
  have "sort_by le (filter P rows) \<noteq> []" if "x \<in> set rows" "P x" for le P rows and x :: 'a
    using that by (metis filter_empty_conv mset_sort_by mset_zero_iff)
  then show ?thesis by (auto simp: answers_def mem_gorm_def Let_def split: list.splits)
qed

lemma mem_wf_reliable: "wf_reliable mem_wf"
  by (simp add: wf_reliable_def mem_wf_def mem_answers)

lemma preload_answers:
  assumes "wf_reliable drv"
  obtains ss where "preload_steps drv w db = Inr ss"
proof -
  obtain ws where "g_find (d_wfs drv) (Where (\<lambda>x. wf_ID x = w)) (t_wfs db) = Inr ws"
    using assms unfolding wf_reliable_def answers_def by metis
  moreover obtain ss where "g_find (d_steps drv) (Where (\<lambda>s. st_WorkflowID s = w)) (t_steps db) = Inr ss"
    using assms unfolding wf_reliable_def answers_def by metis
  ultimately show ?thesis using that by (cases ws) (simp_all add: preload_steps_def)
qed

lemma add_action_answers:
  assumes "wf_reliable drv" "wf_drv_ok drv"
  obtains k where "add_action drv a db = Inr (db\<lparr> t_acts := t_acts db @ [a\<lparr> ac_ID := k \<rparr>] \<rparr>)"
proof -
  obtain x where "g_create (d_acts drv) a (t_acts db) = Inr x" using assms(1) unfolding wf_reliable_def answers_def by metis
  then obtain db' where d: "add_action drv a db = Inr db'" by (cases x) (simp add: add_action_def and_then_def)
  show ?thesis by (rule add_actionD[OF assms(2) d]) (use that d in simp)
qed

lemma save_request_answers:
  assumes "wf_reliable drv" "wf_drv_ok drv" "r \<in> set (t_reqs db)" "rq_ID r = rq_ID r'"
  shows "save_request drv r' db = Inr (db\<lparr> t_reqs := put_row rq_ID r' (t_reqs db) \<rparr>)"
proof -
  obtain rs where "g_save (d_reqs drv) r' (t_reqs db) = Inr rs" using assms(1) unfolding wf_reliable_def answers_def by metis
  then obtain db' where d: "save_request drv r' db = Inr db'" by (simp add: save_request_def and_then_def)
  show ?thesis using d save_requestD[OF assms(2) d assms(3,4)] by simp
qed

lemma set_transfer_answers:
  assumes "wf_reliable drv" "wf_drv_ok drv"
  shows "set_transfer drv i st db = Inr (db\<lparr> t_transfers := mark i st (t_transfers db) \<rparr>)"
proof -
  obtain x where "g_update (d_transfers drv) (\<lambda>t. tf_ID t = i) (tf_Status_update (\<lambda>_. st)) (t_transfers db) = Inr x"
    using assms(1) unfolding wf_reliable_def answers_def by metis
  then obtain db' where d: "set_transfer drv i st db = Inr db'" by (cases x) (simp add: set_transfer_def and_then_def)
  show ?thesis using d set_transferD[OF assms(2) d] by simp
qed

lemma acts_count:
  assumes "wf_reliable drv" "wf_drv_ok drv"
  shows "g_count (d_acts drv) P as = Inr (int (length (filter P as)))"
proof -
  obtain n where n: "g_count (d_acts drv) P as = Inr n" using assms(1) unfolding wf_reliable_def answers_def by metis
  then show ?thesis using gorm_count[OF wf_drvD(4)[OF assms(2)] n] by simp
qed

lemma get_request_unique:
  assumes "wf_reliable drv" "wf_drv_ok drv" "distinct (map rq_ID (t_reqs db))" "r \<in> set (t_reqs db)"
  shows "g_first (d_reqs drv) (\<lambda>x. rq_ID x = rq_ID r) (t_reqs db) = Inr r"
proof -
  have "answers (d_reqs drv)" using assms(1) by (simp add: wf_reliable_def)
  from answers_first[OF this assms(4), of "\<lambda>x. rq_ID x = rq_ID r"]
  obtain x where x: "g_first (d_reqs drv) (\<lambda>x. rq_ID x = rq_ID r) (t_reqs db) = Inr x" by auto
  note x' = gorm_firstD[OF wf_drvD(3)[OF assms(2)] x]
  have "x = r" by (rule distinct_key_unique[OF assms(3) x'(1) assms(4) x'(2)])
  then show ?thesis using x by (simp only:)
qed

lemma currentStep_exists:
  assumes "chain_wf (steps_of w rows)" "mset ss = mset (steps_of w rows)" "s \<in> set (steps_of w rows)" "st_StepOrder s = rq_CurrentStep r"
  shows "currentStep ss r = Some s"
proof -
  have sets: "set ss = set (steps_of w rows)" using assms(2) by (metis set_mset_mset)
  obtain s' where s': "currentStep ss r = Some s'"
    using assms(3,4) sets by (cases "currentStep ss r") (auto simp: currentStep_def find_None_iff)
  then have "s' \<in> set (steps_of w rows)" "st_StepOrder s' = st_StepOrder s"
    using find_Some_iff_mem[of "\<lambda>s. st_StepOrder s = rq_CurrentStep r" ss s'] sets assms(4) by (simp_all add: currentStep_def)
  then have "s' = s" using assms(1,3) unfolding chain_wf_def by (metis distinct_map inj_onD)
  then show ?thesis using s' by simp
qed

lemma approve_progress:
  assumes drv: "wf_reliable drv" "wf_drv_ok drv" and inv: "wf_inv db" and r: "r \<in> set (t_reqs db)" "rq_Status r = ''pending''" "now < rq_ExpiresAt r"
    and s: "s \<in> set (steps_of (rq_WorkflowID r) (t_steps db))" "st_StepOrder s = rq_CurrentStep r" "eligibleForStep s u role"
    and new: "u \<notin> set (approvers (rq_ID r) (rq_CurrentStep r) (t_acts db))"
  defines "n \<equiv> int (length (steps_of (rq_WorkflowID r) (t_steps db)))"
    and "enough \<equiv> st_RequiredApprovals s \<le> int (length (approvers (rq_ID r) (rq_CurrentStep r) (t_acts db))) + 1"
  shows "\<exists>r' db'. decide_tx drv now (rq_ID r) u role ''approved'' comment db = Inr (Some r', db') \<and> r' \<in> set (t_reqs db') \<and>
    distinct (map rq_ID (t_reqs db')) \<and> rq_ID r' = rq_ID r \<and>
    approvers (rq_ID r) (rq_CurrentStep r) (t_acts db') = approvers (rq_ID r) (rq_CurrentStep r) (t_acts db) @ [u] \<and>
    (if enough then rq_CurrentStep r' = rq_CurrentStep r + 1 \<and> (rq_Status r' = ''approved'' \<longleftrightarrow> rq_CurrentStep r = n) else r' = r)"
proof -
  have rok: "request_ok db r" using inv r(1) by (simp add: wf_inv_def)
  have ch: "chain_wf (steps_of (rq_WorkflowID r) (t_steps db))" and wid: "rq_WorkflowID r \<in> wf_ID ` set (t_wfs db)"
    using rok inv by (auto simp: request_ok_def wf_inv_def)
  obtain ss where pl: "preload_steps drv (rq_WorkflowID r) db = Inr ss" by (rule preload_answers[OF drv(1)])
  note ms = preload_stepsD[OF drv(2) pl wid]
  have len: "int (length ss) = n" unfolding n_def using ms by (metis size_mset)
  have cs: "currentStep ss r = Some s" by (rule currentStep_exists[OF ch ms s(1,2)])
  have first: "g_first (d_reqs drv) (\<lambda>x. rq_ID x = rq_ID r) (t_reqs db) = Inr r"
    using inv r(1) by (intro get_request_unique[OF drv]) (simp_all add: wf_inv_def)
  have dup: "filter (acted (rq_ID r) (st_StepOrder s) u ''approved'') (t_acts db) = []"
    using new s(2) by (auto simp: approvers_def acted_def filter_empty_conv)
  define a where "a = \<lparr> ac_ID = 0, ac_ApprovalRequestID = rq_ID r, ac_StepOrder = st_StepOrder s, ac_ApproverUserID = u,
     ac_DelegatedFromID = None, ac_Action = ''approved'', ac_Comment = comment, ac_CreatedAt = now \<rparr>"
  obtain k where ad: "add_action drv a db = Inr (db\<lparr> t_acts := t_acts db @ [a\<lparr> ac_ID := k \<rparr>] \<rparr>)" by (rule add_action_answers[OF drv])
  let ?db1 = "db\<lparr> t_acts := t_acts db @ [a\<lparr> ac_ID := k \<rparr>] \<rparr>"
  have ap: "approvers (rq_ID r) (rq_CurrentStep r) (t_acts ?db1) = approvers (rq_ID r) (rq_CurrentStep r) (t_acts db) @ [u]"
    by (simp add: approvers_single a_def s(2))
  have cur: "1 \<le> rq_CurrentStep r" "rq_CurrentStep r \<le> n" using rok r(2) by (simp_all add: request_ok_def n_def)
  have "n < 2 ^ 62" using ch by (simp add: chain_wf_def n_def)
  then have inc: "add64 (rq_CurrentStep r) 1 = rq_CurrentStep r + 1" using cur by (intro add64_exact) (simp add: in_i64_def)
  define r1 where "r1 = r\<lparr> rq_CurrentStep := rq_CurrentStep r + 1 \<rparr>"
  define r' where "r' = (if enough then (if rq_CurrentStep r = n then r1\<lparr> rq_Status := ''approved'', rq_CompletedAt := Some now \<rparr> else r1) else r)"
  define db2 where "db2 = (if enough \<and> rq_CurrentStep r = n then ?db1\<lparr> t_transfers := mark (rq_TransactionID r) ''approved'' (t_transfers db) \<rparr> else ?db1)"
  have "length (filter (\<lambda>x. ac_ApprovalRequestID x = rq_ID r \<and> ac_StepOrder x = st_StepOrder s \<and> ac_Action x = ''approved'') (t_acts ?db1)) =
      length (approvers (rq_ID r) (rq_CurrentStep r) (t_acts db)) + 1"
    using arg_cong[OF ap, of length] by (simp add: approvers_def s(2))
  then have cnt: "g_count (d_acts drv) (\<lambda>x. ac_ApprovalRequestID x = rq_ID r \<and> ac_StepOrder x = st_StepOrder s \<and> ac_Action x = ''approved'') (t_acts ?db1) =
      Inr (int (length (approvers (rq_ID r) (rq_CurrentStep r) (t_acts db))) + 1)"
    using acts_count[OF drv] by simp
  have adv: "advance drv now ss s r ?db1 = Inr (r', db2)"
    unfolding advance_def and_then_def cnt sum.case using cur
    by (auto simp: inc len r'_def r1_def db2_def enough_def set_transfer_answers[OF drv] Let_def)
  have rin: "r \<in> set (t_reqs db2)" using r(1) by (simp add: db2_def)
  have rid: "rq_ID r = rq_ID r'" by (simp add: r'_def r1_def)
  note sv = save_request_answers[OF drv rin rid]
  let ?db' = "db2\<lparr> t_reqs := put_row rq_ID r' (t_reqs db2) \<rparr>"
  have d: "decide_tx drv now (rq_ID r) u role ''approved'' comment db = Inr (Some r', ?db')"
    using first pl r(2,3) cs s(3) dup ad adv sv
    by (simp add: decide_tx_def and_then_def authorise_def delegation_source_def acts_count[OF drv] a_def)
  have "r' \<in> set (t_reqs ?db')" using put_row_mem[OF rin rid] by simp
  moreover have "distinct (map rq_ID (t_reqs ?db'))" using inv by (simp add: wf_inv_def db2_def)
  moreover have "approvers (rq_ID r) (rq_CurrentStep r) (t_acts ?db') = approvers (rq_ID r) (rq_CurrentStep r) (t_acts db) @ [u]"
  proof -
    have "t_acts ?db' = t_acts ?db1" by (simp add: db2_def)
    then show ?thesis using ap by (simp only:)
  qed
  moreover have "if enough then rq_CurrentStep r' = rq_CurrentStep r + 1 \<and> (rq_Status r' = ''approved'' \<longleftrightarrow> rq_CurrentStep r = n) else r' = r"
    using r(2) by (simp add: r'_def r1_def)
  ultimately show ?thesis using d rid by metis
qed


subsection \<open>Properties\<close>

definition wf_empty :: wf_db where
  "wf_empty = \<lparr> t_wfs = [], t_steps = [], t_reqs = [], t_acts = [], t_transfers = [],
     t_assetrows = [\<lparr> as_ID = 1, as_AssetType = ''bond'' \<rparr>] \<rparr>"

lemma wf_empty_inv: "wf_inv wf_empty"
  by (simp add: wf_inv_def wf_empty_def approvers_def)

definition demo_wf :: ApprovalWorkflow where
  "demo_wf = \<lparr> wf_ID = 0, wf_Name = ''w'', wf_AssetType = '''', wf_MinimumAmount = 10, wf_TimeoutHours = 1, wf_Active = True \<rparr>"

definition demo_step :: "int \<Rightarrow> int \<Rightarrow> ApprovalStep" where
  "demo_step k n = \<lparr> st_ID = 0, st_WorkflowID = 0, st_StepOrder = k, st_RequiredRole = ''ops'', st_ApproverUserID = None,
     st_RequiredApprovals = n, st_AllowDelegation = False \<rparr>"

definition demo_transfer :: TransferApprovalInput where
  "demo_transfer = \<lparr> in_AssetID = 1, in_FromAddress = ''A'', in_ToAddress = ''B'', in_Amount = 20 \<rparr>"

text \<open>Two approvals at the first step, one at the second; the repeated approval by user 7 is refused.\<close>

definition demo_calls :: "wf_req list" where
  "demo_calls = [ReqWorkflow demo_wf [demo_step 1 2, demo_step 2 1], ReqTransfer ''u'' 0 3 demo_transfer,
     ReqDecide 1 1 7 ''ops'' ''approved'' '''', ReqDecide 1 1 7 ''ops'' ''approved'' '''', ReqDecide 2 1 8 ''ops'' ''approved'' '''',
     ReqDecide 3 1 7 ''ops'' ''approved'' '''']"

lemma demo_calls_fit: "wf.all_fit mem_wf (take n demo_calls) wf_empty"
proof -
  have "wf.all_fit mem_wf rs db" if "\<forall>r\<in>set rs. \<forall>db. wf_req_fits r db" for rs db
    using that by (induction rs arbitrary: db) auto
  moreover have "\<forall>r\<in>set demo_calls. wf_req_fits r db" for db by (simp add: demo_calls_def)
  then have "\<forall>r\<in>set (take n demo_calls). \<forall>db. wf_req_fits r db" by (meson in_set_takeD)
  ultimately show ?thesis by blast
qed

text \<open>C22: a transfer is released only after its whole approval chain. In every state reached by any sequence of workflow
  creations (with fewer than \<open>2 ^ 62\<close> steps), transfer requests, decisions, delegations and expiry sweeps, whichever of them fail, a
  transfer that belongs to a request has
  status approved only if every step of the request's workflow has at least the required number of different approvers.\<close>

theorem transfer_released_only_when_approved:
  assumes "wf_drv_ok drv" "wf_inv db0" "wf.all_fit drv calls db0" "db = wf.run drv calls db0"
    and "r \<in> set (t_reqs db)" "t \<in> set (t_transfers db)" "tf_ID t = rq_TransactionID r" "tf_Status t = ''approved''"
  shows "steps_of (rq_WorkflowID r) (t_steps db) \<noteq> [] \<and> (\<forall>s\<in>set (steps_of (rq_WorkflowID r) (t_steps db)).
    st_RequiredApprovals s \<le> int (card (set (approvers (rq_ID r) (st_StepOrder s) (t_acts db)))))"
proof -
  have inv: "wf_inv db" using wf.run_inv[of drv db0 calls] assms(1-4) by blast
  let ?ss = "steps_of (rq_WorkflowID r) (t_steps db)"
  have ok: "request_ok db r" using inv assms(5) by (simp add: wf_inv_def)
  have ch: "chain_wf ?ss" using ok inv by (auto simp: request_ok_def wf_inv_def)
  have "rq_CurrentStep r = int (length ?ss) + 1" using ok assms(6-8) by (simp add: request_ok_def)
  then have done_all: "steps_done ?ss (t_acts db) (rq_ID r) (int (length ?ss) + 1)" using ok by (simp add: request_ok_def)
  have "st_RequiredApprovals s \<le> int (card (set (approvers (rq_ID r) (st_StepOrder s) (t_acts db))))" if "s \<in> set ?ss" for s
  proof -
    have "st_StepOrder s \<in> {1 .. int (length ?ss)}" using ch that unfolding chain_wf_def by (metis imageI list.set_map)
    then have "st_RequiredApprovals s \<le> int (length (approvers (rq_ID r) (st_StepOrder s) (t_acts db)))"
      using done_all that by (simp add: steps_done_def)
    moreover have "distinct (approvers (rq_ID r) (st_StepOrder s) (t_acts db))" using inv by (simp add: wf_inv_def)
    ultimately show ?thesis by (simp add: distinct_card)
  qed
  then show ?thesis using ch by (simp add: chain_wf_def)
qed

theorem transfer_released_only_when_approved_witness:
  "map tf_Status (t_transfers (wf.run mem_wf demo_calls wf_empty)) = [''approved''] \<and>
   (\<exists>r. t_reqs (wf.run mem_wf demo_calls wf_empty) = [r] \<and>
      steps_of (rq_WorkflowID r) (t_steps (wf.run mem_wf demo_calls wf_empty)) \<noteq> [])"
proof -
  let ?db = "wf.run mem_wf demo_calls wf_empty"
  have fit: "wf.all_fit mem_wf demo_calls wf_empty" using demo_calls_fit[of "length demo_calls"] by simp
  have t: "map (\<lambda>t. (tf_ID t, tf_Status t)) (t_transfers ?db) = [(1, ''approved'')]" "map rq_TransactionID (t_reqs ?db) = [1]"
    unfolding demo_calls_def wf.run.simps by code_simp+
  then obtain tr where tr: "t_transfers ?db = [tr]" "tf_ID tr = 1" "tf_Status tr = ''approved''"
    using map_eq_singletonD[OF t(1)] by auto
  obtain r where r: "t_reqs ?db = [r]" "rq_TransactionID r = 1" using map_eq_singletonD[OF t(2)] by auto
  have "steps_of (rq_WorkflowID r) (t_steps ?db) \<noteq> []"
    using transfer_released_only_when_approved[OF mem_wf_ok wf_empty_inv fit refl, of r tr] tr r by simp
  moreover have "map tf_Status (t_transfers ?db) = [''approved'']" using tr by simp
  ultimately show ?thesis using r(1) by blast
qed

text \<open>C38: approval makes progress. On a database that answers every call, when a request is pending and not yet expired, an approver who is
  eligible for its current step and has not approved that step before can approve it: the call succeeds, adds exactly that approval, and if
  the required number is reached the request moves to the next step, or is approved if this was the last one. (On an expired request the
  call panics, \<open>decide_on_expired_panics\<close>.)\<close>

theorem approval_makes_progress:
  assumes drv: "wf_reliable drv" "wf_drv_ok drv" and inv: "wf_inv db"
    and r: "r \<in> set (t_reqs db)" "rq_Status r = ''pending''" "now < rq_ExpiresAt r"
    and s: "s \<in> set (steps_of (rq_WorkflowID r) (t_steps db))" "st_StepOrder s = rq_CurrentStep r" "eligibleForStep s u role"
    and new: "u \<notin> set (approvers (rq_ID r) (rq_CurrentStep r) (t_acts db))"
  shows "\<exists>r' db'. Decide drv now (rq_ID r) u role ''approved'' comment db = (Ok r', db') \<and>
    approvers (rq_ID r) (rq_CurrentStep r) (t_acts db') = approvers (rq_ID r) (rq_CurrentStep r) (t_acts db) @ [u] \<and>
    (if st_RequiredApprovals s \<le> int (length (approvers (rq_ID r) (rq_CurrentStep r) (t_acts db))) + 1
     then rq_CurrentStep r' = rq_CurrentStep r + 1 \<and>
          (rq_Status r' = ''approved'' \<longleftrightarrow> rq_CurrentStep r = int (length (steps_of (rq_WorkflowID r) (t_steps db))))
     else r' = r)"
proof -
  obtain r' db' where d: "decide_tx drv now (rq_ID r) u role ''approved'' comment db = Inr (Some r', db')" "r' \<in> set (t_reqs db')"
    "distinct (map rq_ID (t_reqs db'))" "rq_ID r' = rq_ID r"
    and rest: "approvers (rq_ID r) (rq_CurrentStep r) (t_acts db') = approvers (rq_ID r) (rq_CurrentStep r) (t_acts db) @ [u]"
    "if st_RequiredApprovals s \<le> int (length (approvers (rq_ID r) (rq_CurrentStep r) (t_acts db))) + 1
     then rq_CurrentStep r' = rq_CurrentStep r + 1 \<and>
          (rq_Status r' = ''approved'' \<longleftrightarrow> rq_CurrentStep r = int (length (steps_of (rq_WorkflowID r) (t_steps db))))
     else r' = r"
    using approve_progress[OF assms, of comment] by (elim exE conjE)
  have "d_wtx drv = tx_fine" using drv(1) by (simp add: wf_reliable_def)
  then have "transaction (d_wtx drv) (decide_tx drv now (rq_ID r) u role ''approved'' comment) db = (Inr (Some r'), db')"
    using d(1) by (simp add: transaction_def)
  then have "Decide drv now (rq_ID r) u role ''approved'' comment db = (Ok r', db')"
    using get_request_unique[OF drv d(3,2)] by (simp add: Decide_def GetRequest_def of_request_def)
  then show ?thesis using rest by blast
qed

theorem approval_makes_progress_witness:
  "\<exists>r' db'. Decide mem_wf 2 1 8 ''ops'' ''approved'' '''' (wf.run mem_wf (take 3 demo_calls) wf_empty) = (Ok r', db') \<and> rq_CurrentStep r' = 2"
proof -
  let ?db = "wf.run mem_wf (take 3 demo_calls) wf_empty"
  have inv: "wf_inv ?db" using wf.run_inv[OF _ demo_calls_fit] mem_wf_ok wf_empty_inv by blast
  have tk: "take 3 demo_calls = [ReqWorkflow demo_wf [demo_step 1 2, demo_step 2 1], ReqTransfer ''u'' 0 3 demo_transfer,
     ReqDecide 1 1 7 ''ops'' ''approved'' '''']" by (simp add: demo_calls_def eval_nat_numeral)
  have rq: "map (\<lambda>r. (rq_ID r, rq_WorkflowID r, rq_CurrentStep r, rq_ExpiresAt r, rq_Status r)) (t_reqs ?db) = [(1, 1, 1, 3600000000000, ''pending'')]"
    unfolding tk wf.run.simps by code_simp
  then obtain r where r: "r \<in> set (t_reqs ?db)" "rq_ID r = 1" "rq_WorkflowID r = 1" "rq_CurrentStep r = 1" "rq_ExpiresAt r = 3600000000000" "rq_Status r = ''pending''"
    using map_eq_ConsD[OF rq] by auto
  have sts: "map (\<lambda>s. (st_StepOrder s, st_RequiredApprovals s, st_RequiredRole s)) (steps_of 1 (t_steps ?db)) = [(1, 2, ''ops''), (2, 1, ''ops'')]"
    unfolding tk wf.run.simps by code_simp
  then obtain s :: ApprovalStep where s: "s \<in> set (steps_of 1 (t_steps ?db))" "st_StepOrder s = 1" "st_RequiredApprovals s = 2" "st_RequiredRole s = ''ops''"
    using map_eq_ConsD[OF sts] by auto
  have ap: "approvers 1 1 (t_acts ?db) = [7]" unfolding tk wf.run.simps by code_simp
  have el: "eligibleForStep s 8 ''ops''" using s(4) by (simp add: eligibleForStep_def)
  have "\<exists>r' db'. Decide mem_wf 2 (rq_ID r) 8 ''ops'' ''approved'' '''' ?db = (Ok r', db') \<and>
    approvers (rq_ID r) (rq_CurrentStep r) (t_acts db') = approvers (rq_ID r) (rq_CurrentStep r) (t_acts ?db) @ [8] \<and>
    (if st_RequiredApprovals s \<le> int (length (approvers (rq_ID r) (rq_CurrentStep r) (t_acts ?db))) + 1
     then rq_CurrentStep r' = rq_CurrentStep r + 1 \<and>
          (rq_Status r' = ''approved'' \<longleftrightarrow> rq_CurrentStep r = int (length (steps_of (rq_WorkflowID r) (t_steps ?db))))
     else r' = r)"
    by (rule approval_makes_progress[OF mem_wf_reliable mem_wf_ok inv r(1,6)]) (use r s ap el in simp_all)
  then show ?thesis using r s ap by (simp only:) auto
qed

text \<open>A decision on an expired request commits the expiry and then panics: the transaction body returns without setting
  the result that the call dereferences.\<close>

lemma decide_on_expired_panics:
  "let db = wf.run mem_wf (take 2 demo_calls) wf_empty; r = Decide mem_wf (2 * Hour) 1 7 ''ops'' ''approved'' '''' db
   in fst r = Panic \<and> map rq_Status (t_reqs (snd r)) = [''expired'']"
proof -
  have tk: "take 2 demo_calls = [ReqWorkflow demo_wf [demo_step 1 2, demo_step 2 1], ReqTransfer ''u'' 0 3 demo_transfer]"
    by (simp add: demo_calls_def eval_nat_numeral)
  show ?thesis unfolding Let_def tk wf.run.simps by (rule conjI) code_simp+
qed

end
