(* ===== verification/Referral.thy ===== *)
theory Referral
  imports Gorm Decimal
begin

section \<open>The referral program (services/referral_service.go, handlers/referral.go)\<close>

text \<open>
  Referral codes, the link between a referee and the owner of a code with its fraud checks, the tiered rewards and
  the chain statistics, on the tables of \<open>models/referral.go\<close>. The checks of \<open>ApplyReferral\<close> run before its
  transaction; what makes a referee unique under failing reads is the unique index of the column. The random bytes of
  a code (\<open>crypto/rand\<close>) and the clock readings are arguments. Strings are bytes; \<open>TrimSpace\<close> and
  \<open>ToUpper\<close> treat the ASCII letters and blanks.
\<close>

datatype ReferralStatus = ReferralPending | ReferralQualified | ReferralRewarded | ReferralRejected

record ReferralCode =
  rc_ID :: nat
  rc_UserID :: nat
  rc_Code :: string
  rc_Uses :: int
  rc_MaxUses :: int
  rc_Active :: bool

record Referral =
  rf_ID :: nat
  rf_ReferrerID :: nat
  rf_RefereeID :: nat
  rf_Code :: string
  rf_Status :: ReferralStatus
  rf_Tier :: int
  rf_RewardAmountUSD :: int
  rf_SignupIP :: string
  rf_QualifiedAt :: "instant option"
  rf_RewardedAt :: "instant option"
  rf_RejectReason :: string
  rf_CreatedAt :: instant

record ReferralReward =
  rr_ID :: nat
  rr_ReferralID :: nat
  rr_UserID :: nat
  rr_AmountUSD :: int
  rr_Type :: string
  rr_Status :: string

datatype ref_error =
    ErrSelfReferral | ErrAlreadyReferred | ErrReferralCodeUsed | ErrReferralInactive | ErrReferralNotFound
  | ErrRejected | ErrCodes string | ErrDB dberr

record refp_db =
  t_codes :: "ReferralCode list"
  t_referrals :: "Referral list"
  t_rewards :: "ReferralReward list"

record refp_drv =
  d_codes :: "ReferralCode gorm"
  d_referrals :: "Referral gorm"
  d_rewards :: "ReferralReward gorm"
  d_earned :: "(ReferralReward \<Rightarrow> bool) \<Rightarrow> ReferralReward list \<Rightarrow> dberr + int"
  d_rtx :: tx_outcome

subsection \<open>Reward tiers\<close>

record rewardTier =
  tier_Tier :: int
  tier_MinReferrals :: int
  tier_CommissionUSD :: int

definition referralTiers :: "rewardTier list" where
  "referralTiers =
     [\<lparr> tier_Tier = 4, tier_MinReferrals = 50, tier_CommissionUSD = 5000 \<rparr>,
      \<lparr> tier_Tier = 3, tier_MinReferrals = 20, tier_CommissionUSD = 3000 \<rparr>,
      \<lparr> tier_Tier = 2, tier_MinReferrals = 5, tier_CommissionUSD = 2000 \<rparr>,
      \<lparr> tier_Tier = 1, tier_MinReferrals = 0, tier_CommissionUSD = 1000 \<rparr>]"

definition refereeBonusUSD :: int where "refereeBonusUSD = 500"

definition rewarded_by :: "nat \<Rightarrow> Referral \<Rightarrow> bool" where
  "rewarded_by u r \<longleftrightarrow> rf_ReferrerID r = u \<and> rf_Status r = ReferralRewarded"

text \<open>A count whose error is dropped leaves the variable at zero.\<close>

definition count_or_zero :: "'r gorm \<Rightarrow> ('r \<Rightarrow> bool) \<Rightarrow> 'r list \<Rightarrow> int" where
  "count_or_zero g P rows = (case g_count g P rows of Inl _ \<Rightarrow> 0 | Inr n \<Rightarrow> n)"

definition tierFor :: "refp_drv \<Rightarrow> nat \<Rightarrow> refp_db \<Rightarrow> rewardTier" where
  "tierFor drv u db =
     (let rewarded = count_or_zero (d_referrals drv) (rewarded_by u) (t_referrals db)
      in case find (\<lambda>t. rewarded \<ge> tier_MinReferrals t) referralTiers of
           Some t \<Rightarrow> t
         | None \<Rightarrow> last referralTiers)"

definition nextTierThreshold :: "int \<Rightarrow> int" where
  "nextTierThreshold currentTier =
     (case find (\<lambda>t. tier_Tier t = currentTier + 1) referralTiers of Some t \<Rightarrow> tier_MinReferrals t | None \<Rightarrow> -1)"

subsection \<open>Codes\<close>

definition alphabet :: string where "alphabet = ''ABCDEFGHJKLMNPQRSTUVWXYZ23456789''"

text \<open>The random source either fails or fills the eight bytes.\<close>

definition generateReferralCode :: "string + nat list \<Rightarrow> string + string" where
  "generateReferralCode rnd =
     (case rnd of
        Inl e \<Rightarrow> Inl (''failed to generate referral code: '' @ e)
      | Inr b \<Rightarrow> Inr (map (\<lambda>v. alphabet ! (v mod length alphabet)) b))"

text \<open>The loop with its remaining attempts.\<close>

fun code_attempts :: "refp_drv \<Rightarrow> (nat \<Rightarrow> string + nat list) \<Rightarrow> nat \<Rightarrow> nat \<Rightarrow> refp_db \<Rightarrow>
    (ref_error + ReferralCode) \<times> refp_db" where
  "code_attempts drv rnd userID 0 db = (Inl (ErrCodes ''failed to generate a unique referral code''), db)"
| "code_attempts drv rnd userID (Suc left) db =
     (case generateReferralCode (rnd left) of
        Inl e \<Rightarrow> (Inl (ErrCodes e), db)
      | Inr candidate \<Rightarrow>
          (case g_create (d_codes drv) \<lparr> rc_ID = 0, rc_UserID = userID, rc_Code = candidate, rc_Uses = 0, rc_MaxUses = 0,
                                        rc_Active = True \<rparr> (t_codes db) of
             Inr (code, codes) \<Rightarrow> (Inr code, db\<lparr> t_codes := codes \<rparr>)
           | Inl _ \<Rightarrow> code_attempts drv rnd userID left db))"

definition GetOrCreateCode :: "refp_drv \<Rightarrow> (nat \<Rightarrow> string + nat list) \<Rightarrow> nat \<Rightarrow> refp_db \<Rightarrow>
    (ref_error + ReferralCode) \<times> refp_db" where
  "GetOrCreateCode drv rnd userID db =
     (case g_first (d_codes drv) (\<lambda>c. rc_UserID c = userID) (t_codes db) of
        Inr code \<Rightarrow> (Inr code, db)
      | Inl (DBError e) \<Rightarrow> (Inl (ErrDB (DBError e)), db)
      | Inl ErrRecordNotFound \<Rightarrow> code_attempts drv rnd userID 5 db)"

subsection \<open>Applying a code\<close>

definition ipCollision :: "refp_drv \<Rightarrow> nat \<Rightarrow> string \<Rightarrow> refp_db \<Rightarrow> bool" where
  "ipCollision drv referrerID signupIP db \<longleftrightarrow>
     count_or_zero (d_referrals drv) (\<lambda>r. rf_ReferrerID r = referrerID \<and> rf_SignupIP r = signupIP) (t_referrals db) > 0"

text \<open>The checks before anything is written: the code row the referee may use.\<close>

definition check_code :: "refp_drv \<Rightarrow> nat \<Rightarrow> string \<Rightarrow> refp_db \<Rightarrow> ref_error + ReferralCode" where
  "check_code drv refereeID code db =
     (if code = '''' then Inl ErrReferralNotFound
      else case g_first (d_codes drv) (\<lambda>c. rc_Code c = code) (t_codes db) of
             Inl ErrRecordNotFound \<Rightarrow> Inl ErrReferralNotFound
           | Inl (DBError e) \<Rightarrow> Inl (ErrDB (DBError e))
           | Inr rc \<Rightarrow>
               if \<not> rc_Active rc then Inl ErrReferralInactive
               else if rc_MaxUses rc > 0 \<and> rc_Uses rc \<ge> rc_MaxUses rc then Inl ErrReferralCodeUsed
               else if rc_UserID rc = refereeID then Inl ErrSelfReferral
               else if count_or_zero (d_referrals drv) (\<lambda>r. rf_RefereeID r = refereeID) (t_referrals db) > 0
               then Inl ErrAlreadyReferred
               else Inr rc)"

definition new_referral :: "refp_drv \<Rightarrow> instant \<Rightarrow> nat \<Rightarrow> string \<Rightarrow> string \<Rightarrow> ReferralCode \<Rightarrow> refp_db \<Rightarrow> Referral" where
  "new_referral drv now refereeID code signupIP rc db =
     (let referral = \<lparr> rf_ID = 0, rf_ReferrerID = rc_UserID rc, rf_RefereeID = refereeID, rf_Code = code,
            rf_Status = ReferralPending, rf_Tier = 1, rf_RewardAmountUSD = 0, rf_SignupIP = signupIP,
            rf_QualifiedAt = None, rf_RewardedAt = None, rf_RejectReason = '''', rf_CreatedAt = now \<rparr>
      in if signupIP \<noteq> '''' \<and> ipCollision drv (rc_UserID rc) signupIP db
         then referral\<lparr> rf_Status := ReferralRejected,
                rf_RejectReason := ''suspected self-referral: signup IP matches prior referral from same referrer'' \<rparr>
         else referral)"

definition apply_tx :: "refp_drv \<Rightarrow> Referral \<Rightarrow> nat \<Rightarrow> refp_db \<Rightarrow> dberr + Referral \<times> refp_db" where
  "apply_tx drv referral codeID db =
     and_then (g_create (d_referrals drv) referral (t_referrals db)) (\<lambda>(r, rs).
     and_then (g_update (d_codes drv) (\<lambda>c. rc_ID c = codeID) (\<lambda>c. c\<lparr> rc_Uses := rc_Uses c + 1 \<rparr>) (t_codes db)) (\<lambda>(_, cs).
     Inr (r, db\<lparr> t_referrals := rs, t_codes := cs \<rparr>)))"

definition ApplyReferral :: "refp_drv \<Rightarrow> instant \<Rightarrow> nat \<Rightarrow> string \<Rightarrow> string \<Rightarrow> refp_db \<Rightarrow> (ref_error + Referral) \<times> refp_db" where
  "ApplyReferral drv now refereeID raw signupIP db =
     (let code = ToUpper (TrimSpace raw)
      in case check_code drv refereeID code db of
           Inl e \<Rightarrow> (Inl e, db)
         | Inr rc \<Rightarrow>
             (case transaction (d_rtx drv) (apply_tx drv (new_referral drv now refereeID code signupIP rc db) (rc_ID rc)) db of
                (Inl e, db') \<Rightarrow> (Inl (ErrDB e), db')
              | (Inr r, db') \<Rightarrow> (Inr r, db')))"

subsection \<open>Qualification and rewards\<close>

definition rewarded :: "instant \<Rightarrow> rewardTier \<Rightarrow> Referral \<Rightarrow> Referral" where
  "rewarded now tier r = r\<lparr> rf_Status := ReferralRewarded, rf_Tier := tier_Tier tier,
     rf_RewardAmountUSD := tier_CommissionUSD tier, rf_QualifiedAt := Some now, rf_RewardedAt := Some now \<rparr>"

definition rewards_for :: "rewardTier \<Rightarrow> Referral \<Rightarrow> ReferralReward list" where
  "rewards_for tier r =
     [\<lparr> rr_ID = 0, rr_ReferralID = rf_ID r, rr_UserID = rf_ReferrerID r, rr_AmountUSD = tier_CommissionUSD tier,
        rr_Type = ''referrer_commission'', rr_Status = ''credited'' \<rparr>,
      \<lparr> rr_ID = 0, rr_ReferralID = rf_ID r, rr_UserID = rf_RefereeID r, rr_AmountUSD = refereeBonusUSD,
        rr_Type = ''referee_bonus'', rr_Status = ''credited'' \<rparr>]"

definition qualify_tx :: "refp_drv \<Rightarrow> instant \<Rightarrow> rewardTier \<Rightarrow> Referral \<Rightarrow> refp_db \<Rightarrow> dberr + Referral \<times> refp_db" where
  "qualify_tx drv now tier referral db =
     and_then (g_save (d_referrals drv) (rewarded now tier referral) (t_referrals db)) (\<lambda>rs.
     and_then (create_all (d_rewards drv) (rewards_for tier referral) (t_rewards db)) (\<lambda>ws.
     Inr (rewarded now tier referral, db\<lparr> t_referrals := rs, t_rewards := ws \<rparr>)))"

text \<open>What is read before the transaction: nothing to do, an error, or the referral to reward.\<close>

definition load_referral :: "refp_drv \<Rightarrow> nat \<Rightarrow> refp_db \<Rightarrow> ref_error + Referral" where
  "load_referral drv refereeID db =
     (case g_first (d_referrals drv) (\<lambda>r. rf_RefereeID r = refereeID) (t_referrals db) of
        Inl ErrRecordNotFound \<Rightarrow> Inl ErrReferralNotFound
      | Inl (DBError e) \<Rightarrow> Inl (ErrDB (DBError e))
      | Inr r \<Rightarrow> Inr r)"

definition QualifyReferral :: "refp_drv \<Rightarrow> instant \<Rightarrow> nat \<Rightarrow> refp_db \<Rightarrow> (ref_error + Referral) \<times> refp_db" where
  "QualifyReferral drv now refereeID db =
     (case load_referral drv refereeID db of
        Inl e \<Rightarrow> (Inl e, db)
      | Inr referral \<Rightarrow>
          if rf_Status referral = ReferralRewarded then (Inr referral, db)
          else if rf_Status referral = ReferralRejected then (Inl ErrRejected, db)
          else
            (case transaction (d_rtx drv) (qualify_tx drv now (tierFor drv (rf_ReferrerID referral) db) referral) db of
               (Inl e, db') \<Rightarrow> (Inl (ErrDB e), db')
             | (Inr r, db') \<Rightarrow> (Inr r, db')))"

subsection \<open>Statistics and the referral chain\<close>

record ReferralStats =
  rs_Code :: string
  rs_TotalReferrals :: int
  rs_PendingReferrals :: int
  rs_RewardedReferrals :: int
  rs_CurrentTier :: int
  rs_NextTierAt :: int
  rs_TotalEarnedUSD :: int
  rs_ChainDepth :: int

text \<open>\<open>Pluck("referee_id")\<close>; a failed read leaves the slice empty.\<close>

definition pluck_referees :: "refp_drv \<Rightarrow> refp_db \<Rightarrow> nat \<Rightarrow> nat list" where
  "pluck_referees drv db u =
     (case g_find (d_referrals drv) (Where (\<lambda>r. rf_ReferrerID r = u)) (t_referrals db) of
        Inl _ \<Rightarrow> [] | Inr rs \<Rightarrow> map rf_RefereeID rs)"

text \<open>The map \<open>visited\<close> is shared by the whole recursion: it is returned beside the depth.\<close>

function chainDepth :: "(nat \<Rightarrow> nat list) \<Rightarrow> nat \<Rightarrow> int \<Rightarrow> nat set \<Rightarrow> int \<times> nat set" where
  "chainDepth referees u depth visited =
     (if u \<in> visited \<or> depth > 20 then (depth, visited)
      else fold (\<lambda>i (maxChild, vis).
                   let (d, vis') = chainDepth referees i (depth + 1) vis
                   in (if d > maxChild then d else maxChild, vis'))
             (referees u) (depth, insert u visited))"
  by pat_completeness auto
termination by (relation "measure (\<lambda>(_, _, depth, _). nat (21 - depth))") auto

declare chainDepth.simps [simp del]

definition Stats :: "refp_drv \<Rightarrow> nat \<Rightarrow> refp_db \<Rightarrow> ReferralStats" where
  "Stats drv u db =
     \<lparr> rs_Code = (case g_first (d_codes drv) (\<lambda>c. rc_UserID c = u) (t_codes db) of Inl _ \<Rightarrow> '''' | Inr rc \<Rightarrow> rc_Code rc),
       rs_TotalReferrals = count_or_zero (d_referrals drv) (\<lambda>r. rf_ReferrerID r = u) (t_referrals db),
       rs_PendingReferrals = count_or_zero (d_referrals drv) (\<lambda>r. rf_ReferrerID r = u \<and> rf_Status r = ReferralPending) (t_referrals db),
       rs_RewardedReferrals = count_or_zero (d_referrals drv) (rewarded_by u) (t_referrals db),
       rs_CurrentTier = tier_Tier (tierFor drv u db),
       rs_NextTierAt = nextTierThreshold (tier_Tier (tierFor drv u db)),
       rs_TotalEarnedUSD = (case d_earned drv (\<lambda>w. rr_UserID w = u \<and> rr_Type w = ''referrer_commission'') (t_rewards db) of
                              Inl _ \<Rightarrow> 0 | Inr n \<Rightarrow> n),
       rs_ChainDepth = fst (chainDepth (pluck_referees drv db) u 0 {}) \<rparr>"

definition ListReferrals :: "refp_drv \<Rightarrow> nat \<Rightarrow> refp_db \<Rightarrow> dberr + Referral list" where
  "ListReferrals drv u db =
     g_find (d_referrals drv) ((Where (\<lambda>r. rf_ReferrerID r = u))\<lparr> q_order := (\<lambda>x y. rf_CreatedAt x \<ge> rf_CreatedAt y) \<rparr>) (t_referrals db)"

subsection \<open>The endpoints\<close>

datatype ref_body =
    BodyCode ReferralCode | BodyReferral Referral | BodyStats ReferralStats | BodyReferrals "Referral list"

definition ref_message :: "ref_error \<Rightarrow> string" where
  "ref_message e =
     (case e of
        ErrSelfReferral \<Rightarrow> ''users cannot refer themselves''
      | ErrAlreadyReferred \<Rightarrow> ''user has already been referred''
      | ErrReferralCodeUsed \<Rightarrow> ''referral code has reached its usage limit''
      | ErrReferralInactive \<Rightarrow> ''referral code is not active''
      | ErrReferralNotFound \<Rightarrow> ''referral code not found''
      | ErrRejected \<Rightarrow> ''referral was rejected and cannot be rewarded''
      | ErrCodes m \<Rightarrow> m
      | ErrDB ErrRecordNotFound \<Rightarrow> ''record not found''
      | ErrDB (DBError m) \<Rightarrow> m)"

definition referralErrorStatus :: "ref_error \<Rightarrow> int" where
  "referralErrorStatus e =
     (if e = ErrReferralNotFound then StatusNotFound
      else if e \<in> set [ErrSelfReferral, ErrAlreadyReferred, ErrReferralCodeUsed, ErrReferralInactive] then StatusConflict
      else StatusInternalServerError)"

definition GetMyCode :: "refp_drv \<Rightarrow> (nat \<Rightarrow> string + nat list) \<Rightarrow> nat \<Rightarrow> refp_db \<Rightarrow> ref_body response \<times> refp_db" where
  "GetMyCode drv rnd userID db =
     (if userID = 0 then (Fail StatusUnauthorized ''authentication required'', db)
      else case GetOrCreateCode drv rnd userID db of
             (Inl _, db') \<Rightarrow> (Fail StatusInternalServerError ''failed to get referral code'', db')
           | (Inr code, db') \<Rightarrow> (Reply StatusOK (BodyCode code), db'))"

definition ApplyCode :: "refp_drv \<Rightarrow> instant \<Rightarrow> nat \<Rightarrow> string + string \<Rightarrow> string \<Rightarrow> refp_db \<Rightarrow> ref_body response \<times> refp_db" where
  "ApplyCode drv now userID body ip db =
     (if userID = 0 then (Fail StatusUnauthorized ''authentication required'', db)
      else case body of
             Inl e \<Rightarrow> (Fail StatusBadRequest e, db)
           | Inr code \<Rightarrow>
               (case ApplyReferral drv now userID code ip db of
                  (Inl e, db') \<Rightarrow> (Fail (referralErrorStatus e) (ref_message e), db')
                | (Inr r, db') \<Rightarrow> (Reply StatusCreated (BodyReferral r), db')))"

definition GetStats :: "refp_drv \<Rightarrow> nat \<Rightarrow> refp_db \<Rightarrow> ref_body response" where
  "GetStats drv userID db =
     (if userID = 0 then Fail StatusUnauthorized ''authentication required''
      else Reply StatusOK (BodyStats (Stats drv userID db)))"

definition GetReferrals :: "refp_drv \<Rightarrow> nat \<Rightarrow> refp_db \<Rightarrow> ref_body response" where
  "GetReferrals drv userID db =
     (if userID = 0 then Fail StatusUnauthorized ''authentication required''
      else case ListReferrals drv userID db of
             Inl _ \<Rightarrow> Fail StatusInternalServerError ''failed to fetch referrals''
           | Inr rs \<Rightarrow> Reply StatusOK (BodyReferrals rs))"

definition Qualify :: "refp_drv \<Rightarrow> instant \<Rightarrow> string \<Rightarrow> refp_db \<Rightarrow> ref_body response \<times> refp_db" where
  "Qualify drv now raw db =
     (case ParseUint raw of
        Inl _ \<Rightarrow> (Fail StatusBadRequest ''invalid referee id'', db)
      | Inr refereeID \<Rightarrow>
          (case QualifyReferral drv now refereeID db of
             (Inl e, db') \<Rightarrow> (Fail (referralErrorStatus e) (ref_message e), db')
           | (Inr r, db') \<Rightarrow> (Reply StatusOK (BodyReferral r), db')))"


subsection \<open>The driver and the invariant\<close>

definition refp_drv_ok :: "refp_drv \<Rightarrow> bool" where
  "refp_drv_ok drv \<longleftrightarrow>
     gorm_ok rc_ID (\<lambda>k. rc_ID_update (\<lambda>_. k)) (d_codes drv) \<and> unique_ok rc_UserID (d_codes drv) \<and> unique_ok rc_Code (d_codes drv) \<and>
     gorm_ok rf_ID (\<lambda>k. rf_ID_update (\<lambda>_. k)) (d_referrals drv) \<and> unique_ok rf_RefereeID (d_referrals drv) \<and>
     gorm_ok rr_ID (\<lambda>k. rr_ID_update (\<lambda>_. k)) (d_rewards drv) \<and>
     (\<forall>P ws n. d_earned drv P ws = Inr n \<longrightarrow> n = sum_list (map rr_AmountUSD (filter P ws)))"

definition mem_refp :: refp_drv where
  "mem_refp =
     \<lparr> d_codes = unique_gorm rc_Code (unique_gorm rc_UserID (mem_gorm rc_ID (\<lambda>k. rc_ID_update (\<lambda>_. k)))),
       d_referrals = unique_gorm rf_RefereeID (mem_gorm rf_ID (\<lambda>k. rf_ID_update (\<lambda>_. k))),
       d_rewards = mem_gorm rr_ID (\<lambda>k. rr_ID_update (\<lambda>_. k)),
       d_earned = (\<lambda>P ws. Inr (sum_list (map rr_AmountUSD (filter P ws)))), d_rtx = tx_fine \<rparr>"

lemma mem_refp_ok: "refp_drv_ok mem_refp"
  by (simp add: refp_drv_ok_def mem_refp_def unique_gorm_ok mem_gorm_ok unique_gorm_unique unique_gorm_keeps)

lemma refp_drvD:
  assumes "refp_drv_ok drv"
  shows "gorm_ok rc_ID (\<lambda>k. rc_ID_update (\<lambda>_. k)) (d_codes drv)" "unique_ok rc_UserID (d_codes drv)"
    "unique_ok rc_Code (d_codes drv)" "gorm_ok rf_ID (\<lambda>k. rf_ID_update (\<lambda>_. k)) (d_referrals drv)"
    "unique_ok rf_RefereeID (d_referrals drv)" "gorm_ok rr_ID (\<lambda>k. rr_ID_update (\<lambda>_. k)) (d_rewards drv)"
  using assms unfolding refp_drv_ok_def by blast+

text \<open>The rewards stored for a referral (receiver, amount, type), and those it should have.\<close>

definition reward_core :: "ReferralReward \<Rightarrow> nat \<times> nat \<times> int \<times> string" where
  "reward_core w = (rr_ReferralID w, rr_UserID w, rr_AmountUSD w, rr_Type w)"

definition rewards_of :: "nat \<Rightarrow> ReferralReward list \<Rightarrow> (nat \<times> int \<times> string) list" where
  "rewards_of i ws = map snd (filter (\<lambda>w. fst w = i) (map reward_core ws))"

definition rewards_due :: "Referral \<Rightarrow> (nat \<times> int \<times> string) list" where
  "rewards_due r =
     (if rf_Status r = ReferralRewarded
      then [(rf_ReferrerID r, rf_RewardAmountUSD r, ''referrer_commission''), (rf_RefereeID r, refereeBonusUSD, ''referee_bonus'')]
      else [])"

definition tier_pays :: "Referral \<Rightarrow> bool" where
  "tier_pays r \<longleftrightarrow> (\<exists>t\<in>set referralTiers. tier_Tier t = rf_Tier r \<and> tier_CommissionUSD t = rf_RewardAmountUSD r)"

definition referral_ok :: "refp_db \<Rightarrow> Referral \<Rightarrow> bool" where
  "referral_ok db r \<longleftrightarrow>
     rf_ReferrerID r \<noteq> rf_RefereeID r \<and> rewards_of (rf_ID r) (t_rewards db) = rewards_due r \<and>
     (rf_Status r = ReferralRewarded \<longrightarrow> tier_pays r) \<and>
     (\<exists>c\<in>set (t_codes db). rc_Code c = rf_Code r \<and> rc_UserID c = rf_ReferrerID r)"

definition uses_of :: "string \<Rightarrow> Referral list \<Rightarrow> int" where
  "uses_of code rs = int (length (filter (\<lambda>r. rf_Code r = code) rs))"

definition code_ok :: "refp_db \<Rightarrow> ReferralCode \<Rightarrow> bool" where
  "code_ok db c \<longleftrightarrow> rc_Uses c = uses_of (rc_Code c) (t_referrals db) \<and> (0 < rc_MaxUses c \<longrightarrow> rc_Uses c \<le> rc_MaxUses c)"

definition ref_inv :: "refp_db \<Rightarrow> bool" where
  "ref_inv db \<longleftrightarrow>
     distinct (map rc_ID (t_codes db)) \<and> distinct (map rc_UserID (t_codes db)) \<and> distinct (map rc_Code (t_codes db)) \<and>
     distinct (map rf_ID (t_referrals db)) \<and> distinct (map rf_RefereeID (t_referrals db)) \<and>
     (\<forall>r\<in>set (t_referrals db). referral_ok db r) \<and> (\<forall>c\<in>set (t_codes db). code_ok db c) \<and>
     (\<forall>w\<in>set (t_rewards db). rr_ReferralID w \<in> rf_ID ` set (t_referrals db))"

lemma ref_invD:
  assumes "ref_inv db"
  shows "distinct (map rc_ID (t_codes db))" "distinct (map rc_UserID (t_codes db))" "distinct (map rc_Code (t_codes db))"
    "distinct (map rf_ID (t_referrals db))" "distinct (map rf_RefereeID (t_referrals db))"
    "\<And>r. r \<in> set (t_referrals db) \<Longrightarrow> referral_ok db r" "\<And>c. c \<in> set (t_codes db) \<Longrightarrow> code_ok db c"
    "\<And>w. w \<in> set (t_rewards db) \<Longrightarrow> rr_ReferralID w \<in> rf_ID ` set (t_referrals db)"
  using assms unfolding ref_inv_def by blast+

lemma rewards_of_append: "map reward_core ws' = map reward_core ws @ vs \<Longrightarrow>
    rewards_of i ws' = rewards_of i ws @ map snd (filter (\<lambda>w. fst w = i) vs)"
  by (simp add: rewards_of_def)

lemma rewards_of_none:
  assumes "\<And>w. w \<in> set ws \<Longrightarrow> rr_ReferralID w \<noteq> i"
  shows "rewards_of i ws = []"
proof -
  have "filter (\<lambda>w. fst w = i) (map reward_core ws) = []"
    using assms by (auto simp: filter_empty_conv reward_core_def)
  then show ?thesis by (simp add: rewards_of_def)
qed

lemma uses_of_append: "uses_of code (rs @ [r]) = uses_of code rs + (if rf_Code r = code then 1 else 0)"
  by (simp add: uses_of_def)

lemma uses_of_cong: "map rf_Code rs' = map rf_Code rs \<Longrightarrow> uses_of code rs' = uses_of code rs"
proof -
  have "uses_of code rs = int (length (filter (\<lambda>c. c = code) (map rf_Code rs)))" for rs
    by (simp add: uses_of_def filter_map comp_def)
  then show "map rf_Code rs' = map rf_Code rs \<Longrightarrow> uses_of code rs' = uses_of code rs" by metis
qed

subsection \<open>Every operation keeps the invariant\<close>

lemma code_attempts_inv:
  assumes drv: "refp_drv_ok drv"
  shows "ref_inv db \<Longrightarrow> ref_inv (snd (code_attempts drv rnd u left db))"
proof (induction left)
  case (Suc left)
  note inv = ref_invD[OF Suc.prems]
  show ?case
  proof (cases "generateReferralCode (rnd left)")
    case (Inr candidate)
    let ?c = "\<lparr> rc_ID = 0, rc_UserID = u, rc_Code = candidate, rc_Uses = 0, rc_MaxUses = 0, rc_Active = True \<rparr>"
    show ?thesis
    proof (cases "g_create (d_codes drv) ?c (t_codes db)")
      case (Inr x)
      obtain c cs where cr: "g_create (d_codes drv) ?c (t_codes db) = Inr (c, cs)" using Inr by (cases x) auto
      obtain k where k: "k \<notin> rc_ID ` set (t_codes db)" "c = ?c\<lparr> rc_ID := k \<rparr>" "cs = t_codes db @ [c]"
        by (rule gorm_createD[OF refp_drvD(1)[OF drv] cr])
      have u: "distinct (map rc_UserID cs)" "distinct (map rc_Code cs)"
        using unique_create[OF refp_drvD(2)[OF drv] cr inv(2)] unique_create[OF refp_drvD(3)[OF drv] cr inv(3)] .
      have "\<forall>r\<in>set (t_referrals db). rf_Code r \<noteq> candidate"
      proof
        fix r assume "r \<in> set (t_referrals db)"
        then obtain c0 where "c0 \<in> set (t_codes db)" "rc_Code c0 = rf_Code r" using inv(6) by (auto simp: referral_ok_def)
        then have "rf_Code r \<in> rc_Code ` set (t_codes db)" by (metis imageI)
        then show "rf_Code r \<noteq> candidate" using u(2) k by auto
      qed
      then have "uses_of candidate (t_referrals db) = 0" by (simp add: uses_of_def filter_empty_conv)
      then have "ref_inv (db\<lparr> t_codes := cs \<rparr>)"
        using Suc.prems u k by (auto simp: ref_inv_def referral_ok_def code_ok_def)
      then show ?thesis using \<open>generateReferralCode (rnd left) = Inr candidate\<close> cr by simp
    qed (use Suc Inr in simp)
  qed (use Suc.prems in simp)
qed simp

lemma GetOrCreateCode_inv: "refp_drv_ok drv \<Longrightarrow> ref_inv db \<Longrightarrow> ref_inv (snd (GetOrCreateCode drv rnd u db))"
  using code_attempts_inv by (auto simp: GetOrCreateCode_def split: sum.split dberr.split)

lemma check_codeD:
  assumes "refp_drv_ok drv" "check_code drv u code db = Inr rc"
  shows "rc \<in> set (t_codes db)" "rc_Code rc = code" "rc_UserID rc \<noteq> u" "0 < rc_MaxUses rc \<Longrightarrow> rc_Uses rc < rc_MaxUses rc"
proof -
  have f: "g_first (d_codes drv) (\<lambda>c. rc_Code c = code) (t_codes db) = Inr rc"
    using assms(2) by (auto simp: check_code_def split: if_splits sum.splits dberr.splits)
  from gorm_firstD[OF refp_drvD(1)[OF assms(1)] f] show "rc \<in> set (t_codes db)" "rc_Code rc = code" by simp_all
  show "rc_UserID rc \<noteq> u" "0 < rc_MaxUses rc \<Longrightarrow> rc_Uses rc < rc_MaxUses rc"
    using assms(2) f by (auto simp: check_code_def split: if_splits)
qed

lemma new_referral_simps:
  "rf_ReferrerID (new_referral drv now u code ip rc db) = rc_UserID rc" "rf_RefereeID (new_referral drv now u code ip rc db) = u"
  "rf_Code (new_referral drv now u code ip rc db) = code" "rf_Status (new_referral drv now u code ip rc db) \<noteq> ReferralRewarded"
  by (simp_all add: new_referral_def Let_def)

lemma apply_tx_inv:
  assumes drv: "refp_drv_ok drv" and inv: "ref_inv db" and c: "check_code drv u code db = Inr rc"
    and tx: "apply_tx drv (new_referral drv now u code ip rc db) (rc_ID rc) db = Inr (r, db')"
  shows "ref_inv db'"
proof -
  let ?n = "new_referral drv now u code ip rc db"
  note i = ref_invD[OF inv] and rc = check_codeD[OF drv c]
  obtain rs n cs where cr: "g_create (d_referrals drv) ?n (t_referrals db) = Inr (r, rs)"
    and up: "g_update (d_codes drv) (\<lambda>c. rc_ID c = rc_ID rc) (\<lambda>c. c\<lparr> rc_Uses := rc_Uses c + 1 \<rparr>) (t_codes db) = Inr (n, cs)"
    and db': "db' = db\<lparr> t_referrals := rs, t_codes := cs \<rparr>"
    using tx by (auto simp: apply_tx_def and_then_def split: sum.splits prod.splits)
  obtain k where k: "k \<notin> rf_ID ` set (t_referrals db)" "r = ?n\<lparr> rf_ID := k \<rparr>" "rs = t_referrals db @ [r]"
    by (rule gorm_createD[OF refp_drvD(4)[OF drv] cr])
  have r: "rf_ID r = k" "rf_ReferrerID r = rc_UserID rc" "rf_RefereeID r = u" "rf_Code r = code" "rf_Status r \<noteq> ReferralRewarded"
    by (simp_all add: k(2) new_referral_simps)
  have cs: "cs = map (\<lambda>c. if rc_ID c = rc_ID rc then c\<lparr> rc_Uses := rc_Uses c + 1 \<rparr> else c) (t_codes db)"
    by (rule gorm_updateD(2)[OF refp_drvD(1)[OF drv] up])
  have same: "map rc_ID cs = map rc_ID (t_codes db)" "map rc_UserID cs = map rc_UserID (t_codes db)"
    "map rc_Code cs = map rc_Code (t_codes db)"
    unfolding cs by simp_all
  have fresh: "rewards_of k (t_rewards db) = []" using i(8) k(1) by (intro rewards_of_none) auto
  have keep: "\<exists>c'\<in>set cs. rc_Code c' = rc_Code c \<and> rc_UserID c' = rc_UserID c" if "c \<in> set (t_codes db)" for c
  proof -
    let ?c = "if rc_ID c = rc_ID rc then c\<lparr> rc_Uses := rc_Uses c + 1 \<rparr> else c"
    have "?c \<in> set cs" using that unfolding cs by (simp add: image_iff) blast
    moreover have "rc_Code ?c = rc_Code c" "rc_UserID ?c = rc_UserID c" by simp_all
    ultimately show ?thesis by blast
  qed
  have "referral_ok db' x" if "x \<in> set rs" for x
  proof (cases "x = r")
    case True
    have "\<exists>c'\<in>set cs. rc_Code c' = code \<and> rc_UserID c' = rc_UserID rc" using keep[OF rc(1)] rc(2) by simp
    then show ?thesis using r fresh rc(3) by (simp add: True referral_ok_def rewards_due_def db')
  next
    case False
    then have "referral_ok db x" using that k(3) i(6) by simp
    then obtain c where "c \<in> set (t_codes db)" "rc_Code c = rf_Code x" "rc_UserID c = rf_ReferrerID x" "referral_ok db x"
      by (auto simp: referral_ok_def)
    then show ?thesis using keep[of c] by (simp add: referral_ok_def db')
  qed
  moreover have "code_ok db' c'" if c': "c' \<in> set cs" for c'
  proof -
    obtain c0 where c0: "c0 \<in> set (t_codes db)" "c' = (if rc_ID c0 = rc_ID rc then c0\<lparr> rc_Uses := rc_Uses c0 + 1 \<rparr> else c0)"
      using c' unfolding cs by auto
    have ok: "code_ok db c0" by (rule i(7)[OF c0(1)])
    show ?thesis
    proof (cases "c0 = rc")
      case True
      then show ?thesis using ok rc(2,4) c0(2) r(4) by (auto simp: code_ok_def db' k(3) uses_of_append)
    next
      case False
      then have "rc_ID c0 \<noteq> rc_ID rc" "rc_Code c0 \<noteq> rc_Code rc"
        using distinct_key_unique[OF i(1) c0(1) rc(1)] distinct_key_unique[OF i(3) c0(1) rc(1)] by blast+
      then show ?thesis using ok c0(2) r(4) rc(2) by (auto simp: code_ok_def db' k(3) uses_of_append)
    qed
  qed
  moreover have "distinct (map rf_RefereeID rs)" by (rule unique_create[OF refp_drvD(5)[OF drv] cr i(5)])
  moreover have "distinct (map rf_ID rs)" using i(4) k r(1) by simp
  moreover have "\<forall>w\<in>set (t_rewards db). rr_ReferralID w \<in> rf_ID ` set rs" using i(8) k(3) by auto
  ultimately show ?thesis using i(1-3) same by (simp add: ref_inv_def db')
qed

lemma ApplyReferral_inv:
  assumes "refp_drv_ok drv" "ref_inv db"
  shows "ref_inv (snd (ApplyReferral drv now u raw ip db))"
proof (cases "check_code drv u (ToUpper (TrimSpace raw)) db")
  case (Inr rc)
  let ?tx = "transaction (d_rtx drv) (apply_tx drv (new_referral drv now u (ToUpper (TrimSpace raw)) ip rc db) (rc_ID rc)) db"
  have "ref_inv (snd ?tx)"
    by (rule transaction_keeps[of ref_inv]) (use assms apply_tx_inv[OF assms Inr] in auto)
  then show ?thesis by (auto simp: ApplyReferral_def Let_def Inr split: sum.split prod.split)
qed (use assms in \<open>simp add: ApplyReferral_def Let_def\<close>)

lemma tierFor_member: "tierFor drv u db \<in> set referralTiers"
proof -
  have "x \<in> set referralTiers" if "find P referralTiers = Some x" for P x using find_Some_iff_mem[OF that] by blast
  then show ?thesis by (auto simp: tierFor_def Let_def split: option.split) (simp add: referralTiers_def)
qed

lemma rewarded_simps [simp]:
  "rf_ID (rewarded now t r) = rf_ID r" "rf_RefereeID (rewarded now t r) = rf_RefereeID r" "rf_Code (rewarded now t r) = rf_Code r"
  "rf_ReferrerID (rewarded now t r) = rf_ReferrerID r" "rf_Status (rewarded now t r) = ReferralRewarded"
  "rf_Tier (rewarded now t r) = tier_Tier t" "rf_RewardAmountUSD (rewarded now t r) = tier_CommissionUSD t"
  by (simp_all add: rewarded_def)

lemma reward_core_rewards:
  "map reward_core (rewards_for t r) =
     [(rf_ID r, rf_ReferrerID r, tier_CommissionUSD t, ''referrer_commission''), (rf_ID r, rf_RefereeID r, refereeBonusUSD, ''referee_bonus'')]"
  by (simp add: rewards_for_def reward_core_def)

lemma qualify_txD:
  assumes drv: "refp_drv_ok drv" and r: "r \<in> set (t_referrals db)" and tx: "qualify_tx drv now t r db = Inr (r', db')"
  obtains ws where "r' = rewarded now t r" "db' = db\<lparr> t_referrals := put_row rf_ID (rewarded now t r) (t_referrals db), t_rewards := ws \<rparr>"
    "map reward_core ws = map reward_core (t_rewards db) @ map reward_core (rewards_for t r)"
proof -
  obtain rs ws where sv: "g_save (d_referrals drv) (rewarded now t r) (t_referrals db) = Inr rs"
    and ws: "create_all (d_rewards drv) (rewards_for t r) (t_rewards db) = Inr ws"
    and db': "r' = rewarded now t r" "db' = db\<lparr> t_referrals := rs, t_rewards := ws \<rparr>"
    using tx by (auto simp: qualify_tx_def and_then_def split: sum.splits)
  have "rs = put_row rf_ID (rewarded now t r) (t_referrals db)"
    by (rule gorm_save[OF refp_drvD(4)[OF drv] sv r]) simp
  moreover have "map reward_core ws = map reward_core (t_rewards db) @ map reward_core (rewards_for t r)"
    by (rule create_all_core[OF refp_drvD(6)[OF drv] _ ws]) (simp add: reward_core_def)
  ultimately show thesis using that db' by blast
qed

lemma qualify_tx_inv:
  assumes drv: "refp_drv_ok drv" and inv: "ref_inv db" and r: "r \<in> set (t_referrals db)" "rf_Status r \<noteq> ReferralRewarded"
    and t: "t \<in> set referralTiers" and tx: "qualify_tx drv now t r db = Inr (r', db')"
  shows "ref_inv db'"
proof -
  note i = ref_invD[OF inv]
  let ?r = "rewarded now t r" and ?rs = "put_row rf_ID (rewarded now t r) (t_referrals db)"
  obtain ws where db': "db' = db\<lparr> t_referrals := ?rs, t_rewards := ws \<rparr>"
    and ws: "map reward_core ws = map reward_core (t_rewards db) @ map reward_core (rewards_for t r)"
    by (rule qualify_txD[OF drv r(1) tx])
  have pays: "rewards_of j ws = rewards_of j (t_rewards db) @ (if j = rf_ID r then rewards_due ?r else [])" for j
    using rewards_of_append[OF ws, of j] by (simp add: reward_core_rewards rewards_due_def)
  have rok: "referral_ok db r" by (rule i(6)[OF r(1)])
  have same: "x = r" if "x \<in> set (t_referrals db)" "rf_ID x = rf_ID ?r" for x
    using distinct_key_unique[OF i(4) that(1) r(1)] that(2) by simp
  have "referral_ok db' x" if "x \<in> set ?rs" for x
  proof (cases "x = ?r")
    case True
    have "tier_pays ?r" using t by (auto simp: tier_pays_def)
    moreover have "rewards_of (rf_ID r) (t_rewards db) = []" using rok r(2) by (simp add: referral_ok_def rewards_due_def)
    ultimately show ?thesis using rok True pays by (simp add: referral_ok_def db')
  next
    case False
    then have x: "x \<in> set (t_referrals db)" "rf_ID x \<noteq> rf_ID r" using in_set_put_row[OF that] by auto
    then show ?thesis using i(6)[OF x(1)] pays by (simp add: referral_ok_def db')
  qed
  moreover have code: "map rf_Code ?rs = map rf_Code (t_referrals db)" "map rf_RefereeID ?rs = map rf_RefereeID (t_referrals db)"
    by (rule map_frame_put_row; frule same; simp)+
  moreover have "code_ok db' c" if "c \<in> set (t_codes db)" for c
    using i(7)[OF that] by (auto simp: code_ok_def db' uses_of_cong[OF code(1)])
  moreover have "rr_ReferralID w \<in> rf_ID ` set ?rs" if w: "w \<in> set ws" for w
  proof -
    have "reward_core w \<in> set (map reward_core (t_rewards db) @ map reward_core (rewards_for t r))" using w ws by (metis image_eqI list.set_map)
    then have "rr_ReferralID w \<in> rf_ID ` set (t_referrals db)"
      using i(8) r(1) by (auto simp: reward_core_rewards) (auto simp: reward_core_def)
    then show ?thesis by (metis list.set_map map_key_put_row)
  qed
  ultimately show ?thesis using i(1-5) by (simp add: ref_inv_def db')
qed

lemma QualifyReferral_inv:
  assumes "refp_drv_ok drv" "ref_inv db"
  shows "ref_inv (snd (QualifyReferral drv now u db))"
proof (cases "load_referral drv u db")
  case (Inr r)
  then have "g_first (d_referrals drv) (\<lambda>r. rf_RefereeID r = u) (t_referrals db) = Inr r"
    by (auto simp: load_referral_def split: sum.splits dberr.splits)
  then have r: "r \<in> set (t_referrals db)" using gorm_firstD[OF refp_drvD(4)[OF assms(1)]] by blast
  let ?t = "tierFor drv (rf_ReferrerID r) db"
  have "ref_inv (snd (transaction (d_rtx drv) (qualify_tx drv now ?t r) db))" if "rf_Status r \<noteq> ReferralRewarded"
    by (rule transaction_keeps[of ref_inv]) (use assms qualify_tx_inv[OF assms r that tierFor_member] in auto)
  then show ?thesis using assms(2) Inr by (auto simp: QualifyReferral_def split: sum.split prod.split)
qed (use assms in \<open>simp add: QualifyReferral_def\<close>)

subsection \<open>The depth of a chain\<close>

text \<open>One turn of the loop over the referees, and what a loop over several referees collects.\<close>

definition collect :: "(nat \<Rightarrow> nat set \<Rightarrow> int \<times> nat set) \<Rightarrow> nat \<Rightarrow> int \<times> nat set \<Rightarrow> int \<times> nat set" where
  "collect f i s = (let (d, vis') = f i (snd s) in (if d > fst s then d else fst s, vis'))"

lemma chainDepth_collect:
  "chainDepth referees u depth visited =
     (if u \<in> visited \<or> depth > 20 then (depth, visited)
      else fold (collect (\<lambda>i. chainDepth referees i (depth + 1))) (referees u) (depth, insert u visited))"
proof -
  have "(\<lambda>i (maxChild, vis). let (d, vis') = chainDepth referees i (depth + 1) vis in (if d > maxChild then d else maxChild, vis')) =
      collect (\<lambda>i. chainDepth referees i (depth + 1))"
    by (auto simp: collect_def fun_eq_iff split: prod.split)
  then show ?thesis by (subst chainDepth.simps) simp
qed

lemma collect_simps [simp]: "fst (collect f i s) = max (fst s) (fst (f i (snd s)))" "snd (collect f i s) = snd (f i (snd s))"
  by (simp_all add: collect_def case_prod_unfold Let_def max_def)

lemma fold_collect_mono: "fst s \<le> fst (fold (collect f) ks s)"
proof (induction ks arbitrary: s)
  case (Cons k ks)
  have "fst s \<le> fst (collect f k s)" by simp
  with Cons.IH[of "collect f k s"] show ?case by simp
qed simp

lemma fold_collect_reaches:
  assumes "\<And>k w. k \<in> set ks \<Longrightarrow> snd (f k w) \<subseteq> w \<union> D k" "distinct ks"
    and "\<And>j k. j \<in> set ks \<Longrightarrow> k \<in> set ks \<Longrightarrow> j \<noteq> k \<Longrightarrow> D j \<inter> D k = {}"
    and "k0 \<in> set ks" and c: "\<And>w. w \<inter> D k0 = {} \<Longrightarrow> c \<le> fst (f k0 w)" and "snd s \<inter> D k0 = {}"
  shows "c \<le> fst (fold (collect f) ks s)"
  using assms(1-4,6)
proof (induction ks arbitrary: s)
  case (Cons k ks)
  show ?case
  proof (cases "k = k0")
    case True
    have "c \<le> fst (collect f k s)" using c[OF Cons.prems(5)] True by simp
    also have "\<dots> \<le> fst (fold (collect f) ks (collect f k s))" by (rule fold_collect_mono)
    finally show ?thesis by simp
  next
    case False
    have "snd (f k (snd s)) \<subseteq> snd s \<union> D k" using Cons.prems(1) by simp
    moreover have "D k \<inter> D k0 = {}" using Cons.prems(3)[of k k0] Cons.prems(4) False by simp
    ultimately have "snd (collect f k s) \<inter> D k0 = {}" using Cons.prems(5) by auto
    then show ?thesis using Cons.IH[of "collect f k s"] Cons.prems False by simp
  qed
qed simp

fun chain :: "(nat \<Rightarrow> nat list) \<Rightarrow> nat \<Rightarrow> nat \<Rightarrow> bool" where
  "chain referees u 0 \<longleftrightarrow> True"
| "chain referees u (Suc n) \<longleftrightarrow> (\<exists>v\<in>set (referees u). chain referees v n)"

lemma chainDepth_bounds:
  assumes "depth \<le> 21"
  shows "depth \<le> fst (chainDepth P u depth V) \<and> fst (chainDepth P u depth V) \<le> 21 \<and>
    chain P u (nat (fst (chainDepth P u depth V) - depth))"
  using assms
proof (induction "nat (21 - depth)" arbitrary: u depth V rule: less_induct)
  case less
  show ?case
  proof (cases "u \<in> V \<or> depth > 20")
    case True
    then show ?thesis using less.prems by (simp add: chainDepth_collect[of P u])
  next
    case False
    then have dec: "nat (21 - (depth + 1)) < nat (21 - depth)" by simp
    let ?f = "\<lambda>i. chainDepth P i (depth + 1)"
    let ?I = "\<lambda>s. depth \<le> fst s \<and> fst s \<le> 21 \<and> chain P u (nat (fst s - depth))"
    have "?I (fold (collect ?f) (P u) (depth, insert u V))"
    proof (rule fold_invariant[where Q = "\<lambda>k. k \<in> set (P u)"])
      show "?I (depth, insert u V)" using less.prems by simp
      fix k and s :: "int \<times> nat set" assume k: "k \<in> set (P u)" and s: "?I s"
      let ?e = "fst (?f k (snd s))"
      have IH: "depth + 1 \<le> ?e \<and> ?e \<le> 21 \<and> chain P k (nat (?e - (depth + 1)))"
        using less.hyps[OF dec, of k "snd s"] False by simp
      then have "nat (?e - depth) = Suc (nat (?e - (depth + 1)))" by linarith
      then have "chain P u (nat (?e - depth))" using IH k by auto
      then show "?I (collect ?f k s)" using s IH by (simp add: max_def)
    qed simp
    then show ?thesis using False by (simp add: chainDepth_collect[of P u])
  qed
qed

definition edges :: "(nat \<Rightarrow> nat list) \<Rightarrow> (nat \<times> nat) set" where
  "edges P = {(a, b). b \<in> set (P a)}"

definition below :: "(nat \<Rightarrow> nat list) \<Rightarrow> nat \<Rightarrow> nat set" where
  "below P u = {x. (u, x) \<in> (edges P)\<^sup>*}"

lemma below_simps: "u \<in> below P u" "v \<in> set (P u) \<Longrightarrow> below P v \<subseteq> below P u"
  by (auto simp: below_def edges_def intro: converse_rtrancl_into_rtrancl)

lemma chainDepth_visited: "snd (chainDepth P u depth V) \<subseteq> V \<union> below P u"
proof (induction "nat (21 - depth)" arbitrary: u depth V rule: less_induct)
  case less
  show ?case
  proof (cases "u \<in> V \<or> depth > 20")
    case True
    then show ?thesis by (auto simp: chainDepth_collect[of P u])
  next
    case False
    then have dec: "nat (21 - (depth + 1)) < nat (21 - depth)" by simp
    let ?f = "\<lambda>i. chainDepth P i (depth + 1)"
    have "snd (fold (collect ?f) (P u) (depth, insert u V)) \<subseteq> V \<union> below P u"
    proof (rule fold_invariant[where Q = "\<lambda>k. k \<in> set (P u)" and P = "\<lambda>s. snd s \<subseteq> V \<union> below P u"])
      show "snd (depth, insert u V) \<subseteq> V \<union> below P u" using below_simps(1) by auto
      fix k and s :: "int \<times> nat set" assume k: "k \<in> set (P u)" and s: "snd s \<subseteq> V \<union> below P u"
      have "snd (?f k (snd s)) \<subseteq> snd s \<union> below P k" using less.hyps[OF dec, of k "snd s"] .
      then show "snd (collect ?f k s) \<subseteq> V \<union> below P u" using s below_simps(2)[of k P u, OF k] by auto
    qed simp
    then show ?thesis using False by (simp add: chainDepth_collect[of P u])
  qed
qed

definition forest :: "(nat \<Rightarrow> nat list) \<Rightarrow> bool" where
  "forest P \<longleftrightarrow> acyclic (edges P) \<and> (\<forall>u. distinct (P u)) \<and> (\<forall>a b v. v \<in> set (P a) \<longrightarrow> v \<in> set (P b) \<longrightarrow> a = b)"

lemma forest_disjoint:
  assumes f: "forest P" and jk: "j \<in> set (P u)" "k \<in> set (P u)" "j \<noteq> k"
  shows "below P j \<inter> below P k = {}"
proof -
  have no: "(j, k) \<notin> (edges P)\<^sup>*" if jk: "j \<in> set (P u)" "k \<in> set (P u)" "j \<noteq> k" for j k
  proof
    assume "(j, k) \<in> (edges P)\<^sup>*"
    then obtain p where p: "(j, p) \<in> (edges P)\<^sup>*" "(p, k) \<in> edges P" using jk(3) by (metis rtranclE)
    then have "p = u" using f jk(2) by (auto simp: forest_def edges_def)
    moreover have "(u, j) \<in> edges P" using jk(1) by (simp add: edges_def)
    ultimately have "(u, u) \<in> (edges P)\<^sup>+" using p(1) by (metis rtrancl_into_trancl2)
    then show False using f by (simp add: forest_def acyclic_def)
  qed
  have "single_valued ((edges P)\<inverse>)" using f unfolding forest_def single_valued_def edges_def by blast
  then have "(j, k) \<in> (edges P)\<^sup>* \<or> (k, j) \<in> (edges P)\<^sup>*" if "x \<in> below P j" "x \<in> below P k" for x
    using that single_valued_confluent[of "(edges P)\<inverse>" x j k] by (auto simp: below_def rtrancl_converse)
  then show ?thesis using no[OF jk] no[of k j] jk by auto
qed

lemma chainDepth_longest:
  assumes f: "forest P"
  shows "V \<inter> below P u = {} \<Longrightarrow> chain P u n \<Longrightarrow> min 21 (depth + int n) \<le> fst (chainDepth P u depth V)"
proof (induction "nat (21 - depth)" arbitrary: u depth V n rule: less_induct)
  case less
  have u: "u \<notin> V" using less.prems(1) below_simps(1) by auto
  show ?case
  proof (cases "depth > 20")
    case True
    then show ?thesis by (simp add: chainDepth_collect[of P u])
  next
    case False
    then have dec: "nat (21 - (depth + 1)) < nat (21 - depth)" by simp
    let ?f = "\<lambda>i. chainDepth P i (depth + 1)"
    have "min 21 (depth + int n) \<le> fst (fold (collect ?f) (P u) (depth, insert u V))"
    proof (cases n)
      case 0
      then show ?thesis using fold_collect_mono[of "(depth, insert u V)" ?f "P u"] by simp
    next
      case (Suc m)
      then obtain k where k: "k \<in> set (P u)" "chain P k m" using less.prems(2) by auto
      show ?thesis
      proof (rule fold_collect_reaches[where D = "below P", OF _ _ _ k(1)])
        show "snd (?f j w) \<subseteq> w \<union> below P j" if "j \<in> set (P u)" for j w by (rule chainDepth_visited)
        show "distinct (P u)" using f by (simp add: forest_def)
        show "below P i \<inter> below P j = {}" if "i \<in> set (P u)" "j \<in> set (P u)" "i \<noteq> j" for i j
          by (rule forest_disjoint[OF f that])
        show "min 21 (depth + int n) \<le> fst (?f k w)" if "w \<inter> below P k = {}" for w
          using less.hyps[OF dec, of w k m] that k(2) Suc by (simp add: algebra_simps)
        have "u \<notin> below P k"
        proof
          assume "u \<in> below P k"
          then have "(u, u) \<in> (edges P)\<^sup>+" using k(1) by (auto simp: below_def edges_def intro: rtrancl_into_trancl2)
          then show False using f by (simp add: forest_def acyclic_def)
        qed
        then show "snd (depth, insert u V) \<inter> below P k = {}" using less.prems(1) below_simps(2)[of k P u, OF k(1)] by auto
      qed
    qed
    then show ?thesis using False u by (simp add: chainDepth_collect[of P u])
  qed
qed

text \<open>The referral graph of the table: what \<open>Pluck\<close> reads of it is a forest unless referrals form a cycle.\<close>

definition referred :: "refp_db \<Rightarrow> (nat \<times> nat) set" where
  "referred db = (\<lambda>r. (rf_ReferrerID r, rf_RefereeID r)) ` set (t_referrals db)"

fun referral_chain :: "refp_db \<Rightarrow> nat \<Rightarrow> nat \<Rightarrow> bool" where
  "referral_chain db u 0 \<longleftrightarrow> True"
| "referral_chain db u (Suc n) \<longleftrightarrow> (\<exists>r\<in>set (t_referrals db). rf_ReferrerID r = u \<and> referral_chain db (rf_RefereeID r) n)"

definition reads_answer :: "refp_drv \<Rightarrow> bool" where
  "reads_answer drv \<longleftrightarrow> (\<forall>q rows. \<exists>rs. g_find (d_referrals drv) q rows = Inr rs)"

lemma pluck_referees_listing:
  assumes "refp_drv_ok drv"
  shows "pluck_referees drv db u = [] \<or>
    mset (pluck_referees drv db u) = mset (map rf_RefereeID (filter (\<lambda>r. rf_ReferrerID r = u) (t_referrals db)))"
  using gorm_find_Where[OF refp_drvD(4)[OF assms]] by (auto simp: pluck_referees_def split: sum.split)

lemma pluck_referees_edges:
  assumes "refp_drv_ok drv" "v \<in> set (pluck_referees drv db u)"
  shows "(u, v) \<in> referred db"
proof -
  have "mset (pluck_referees drv db u) = mset (map rf_RefereeID (filter (\<lambda>r. rf_ReferrerID r = u) (t_referrals db)))"
    using pluck_referees_listing[OF assms(1), of db u] assms(2) by auto
  from mset_eq_setD[OF this] show ?thesis using assms(2) by (auto simp: referred_def image_iff)
qed

lemma pluck_referees_forest:
  assumes drv: "refp_drv_ok drv" and d: "distinct (map rf_RefereeID (t_referrals db))" and a: "acyclic (referred db)"
  shows "forest (pluck_referees drv db)"
proof -
  have "distinct (pluck_referees drv db u)" for u
    using pluck_referees_listing[OF drv, of db u] d by (metis distinct.simps(1) distinct_map_filter mset_eq_imp_distinct_iff)
  moreover have "x = y" if "v \<in> set (pluck_referees drv db x)" "v \<in> set (pluck_referees drv db y)" for x y v
    using that[THEN pluck_referees_edges[OF drv]] distinct_key_unique[OF d] by (auto simp: referred_def)
  moreover have "edges (pluck_referees drv db) \<subseteq> referred db" using pluck_referees_edges[OF drv] by (auto simp: edges_def)
  then have "acyclic (edges (pluck_referees drv db))" using a acyclic_subset by blast
  ultimately show ?thesis unfolding forest_def by blast
qed

lemma chain_referral_chain:
  assumes "refp_drv_ok drv" "reads_answer drv"
  shows "chain (pluck_referees drv db) u n \<longleftrightarrow> referral_chain db u n"
proof (induction n arbitrary: u)
  case (Suc n)
  obtain rs where rs: "g_find (d_referrals drv) (Where (\<lambda>r. rf_ReferrerID r = u)) (t_referrals db) = Inr rs"
    using assms(2) by (auto simp: reads_answer_def)
  have "mset rs = mset (filter (\<lambda>r. rf_ReferrerID r = u) (t_referrals db))"
    by (rule gorm_find_Where[OF refp_drvD(4)[OF assms(1)] rs])
  from mset_eq_setD[OF this] have "set (pluck_referees drv db u) = rf_RefereeID ` {r \<in> set (t_referrals db). rf_ReferrerID r = u}"
    using rs by (simp add: pluck_referees_def)
  then show ?case using Suc.IH by auto
qed simp

subsection \<open>The endpoints as a service\<close>

datatype ref_req =
    ReqCode "nat \<Rightarrow> string + nat list" nat
  | ReqApply instant nat "string + string" string
  | ReqQualify instant string
  | ReqStats nat
  | ReqReferrals nat

fun ref_handle :: "refp_drv \<Rightarrow> ref_req \<Rightarrow> refp_db \<Rightarrow> ref_body response \<times> refp_db" where
  "ref_handle drv (ReqCode rnd u) db = GetMyCode drv rnd u db"
| "ref_handle drv (ReqApply now u body ip) db = ApplyCode drv now u body ip db"
| "ref_handle drv (ReqQualify now raw) db = Qualify drv now raw db"
| "ref_handle drv (ReqStats u) db = (GetStats drv u db, db)"
| "ref_handle drv (ReqReferrals u) db = (GetReferrals drv u db, db)"

lemma ref_handle_inv:
  assumes "refp_drv_ok drv" "ref_inv db"
  shows "ref_inv (snd (ref_handle drv r db))"
proof (cases r)
  case (ReqCode rnd u)
  then show ?thesis using assms GetOrCreateCode_inv[OF assms] by (simp add: GetMyCode_def snd_if_sum)
next
  case (ReqApply now u body ip)
  then show ?thesis using assms ApplyReferral_inv[OF assms] by (cases body) (simp_all add: ApplyCode_def snd_if_sum)
next
  case (ReqQualify now raw)
  then show ?thesis using assms QualifyReferral_inv[OF assms] by (cases "ParseUint raw") (simp_all add: Qualify_def snd_if_sum)
qed (use assms in simp_all)

interpretation refs: service "ref_handle drv" "\<lambda>db. refp_drv_ok drv \<and> ref_inv db" "\<lambda>_ _. True" for drv
  by unfold_locales (use ref_handle_inv in blast)

lemma refs_all_fit: "refs.all_fit drv rs db"
  by (induction rs arbitrary: db) auto

subsection \<open>Properties\<close>

definition ref_empty :: refp_db where
  "ref_empty = \<lparr> t_codes = [], t_referrals = [], t_rewards = [] \<rparr>"

lemma ref_empty_inv: "ref_inv ref_empty"
  by (simp add: ref_inv_def ref_empty_def)

text \<open>User 1 gets the code \<open>BBBBBBBB\<close>, users 2 and 3 apply it (user 3 from the IP of user 2), user 2 qualifies, gets a
  code of its own, and user 4 applies that.\<close>

definition demo_refs :: "ref_req list" where
  "demo_refs =
     [ReqCode (\<lambda>_. Inr [1, 1, 1, 1, 1, 1, 1, 1]) 1,
      ReqApply 10 2 (Inr '' bbbbbbbb '') ''ip'', ReqApply 11 3 (Inr ''BBBBBBBB'') ''ip'', ReqApply 12 1 (Inr ''BBBBBBBB'') ''x'',
      ReqQualify 20 ''2'', ReqQualify 21 ''2'', ReqQualify 22 ''3'',
      ReqCode (\<lambda>n. if n = 4 then Inr [1, 1, 1, 1, 1, 1, 1, 1] else Inr [2, 2, 2, 2, 2, 2, 2, 2]) 2,
      ReqApply 30 4 (Inr ''CCCCCCCC'') ''y'']"

lemma demo_refs_run:
  "map (\<lambda>r. (rf_ReferrerID r, rf_RefereeID r, rf_Status r)) (t_referrals (refs.run mem_refp demo_refs ref_empty)) =
     [(1, 2, ReferralRewarded), (1, 3, ReferralRejected), (2, 4, ReferralPending)]"
  "map reward_core (t_rewards (refs.run mem_refp demo_refs ref_empty)) =
     [(1, 1, 1000, ''referrer_commission''), (1, 2, 500, ''referee_bonus'')]"
  unfolding demo_refs_def refs.run.simps by code_simp+

text \<open>C25: the referral program pays each referral once. From tables that satisfy the invariant (the empty ones do), after any sequence of
  requests, one at a time, whatever database calls fail, every
  user is referred at most once and never by themselves, a rewarded referral has exactly one commission (of the amount
  recorded in it) and one signup bonus, any other referral has no reward, and no code is used beyond its limit. Two concurrent
  qualifications of a referral do pay twice (\<open>concurrent_qualify_pays_twice\<close>).\<close>

theorem referral_rewards_once:
  assumes "refp_drv_ok drv" "ref_inv db" "db' = refs.run drv rs db"
  shows "distinct (map rf_RefereeID (t_referrals db')) \<and>
    (\<forall>r\<in>set (t_referrals db'). rf_ReferrerID r \<noteq> rf_RefereeID r \<and> rewards_of (rf_ID r) (t_rewards db') = rewards_due r) \<and>
    (\<forall>c\<in>set (t_codes db'). 0 < rc_MaxUses c \<longrightarrow> uses_of (rc_Code c) (t_referrals db') \<le> rc_MaxUses c)"
proof -
  have inv: "ref_inv db'" using refs.run_inv[of drv db rs] assms refs_all_fit by simp
  have "uses_of (rc_Code c) (t_referrals db') \<le> rc_MaxUses c" if "c \<in> set (t_codes db')" "0 < rc_MaxUses c" for c
    using ref_invD(7)[OF inv that(1)] that(2) by (simp add: code_ok_def)
  then show ?thesis using ref_invD(5,6)[OF inv] by (simp add: referral_ok_def)
qed

theorem referral_rewards_once_witness:
  "distinct (map rf_RefereeID (t_referrals (refs.run mem_refp demo_refs ref_empty))) \<and>
   map (\<lambda>r. (rf_ReferrerID r, rf_RefereeID r, rf_Status r)) (t_referrals (refs.run mem_refp demo_refs ref_empty)) =
     [(1, 2, ReferralRewarded), (1, 3, ReferralRejected), (2, 4, ReferralPending)] \<and>
   map reward_core (t_rewards (refs.run mem_refp demo_refs ref_empty)) =
     [(1, 1, 1000, ''referrer_commission''), (1, 2, 500, ''referee_bonus'')]"
  using referral_rewards_once[OF mem_refp_ok ref_empty_inv refl] demo_refs_run by blast

text \<open>C39: the chain depth is computed on every referral graph, cycles included. When the reads answer, the recursion returns a depth
  between 0 and 21 for which a chain of that many referrals starts at the user, and unless referrals form a cycle no chain is longer, up
  to the cut at 21.\<close>

theorem chain_depth_longest:
  assumes "refp_drv_ok drv" "reads_answer drv" "ref_inv db" "d = rs_ChainDepth (Stats drv u db)"
  shows "0 \<le> d \<and> d \<le> 21 \<and> referral_chain db u (nat d) \<and>
    (acyclic (referred db) \<longrightarrow> referral_chain db u n \<longrightarrow> min 21 (int n) \<le> d)"
proof -
  let ?P = "pluck_referees drv db"
  have d: "d = fst (chainDepth ?P u 0 {})" using assms(4) by (simp add: Stats_def)
  have "min 21 (int n) \<le> d" if "acyclic (referred db)" "referral_chain db u n"
    using chainDepth_longest[OF pluck_referees_forest[OF assms(1) ref_invD(5)[OF assms(3)] that(1)], of "{}" u n 0] that(2)
    by (simp add: d chain_referral_chain[OF assms(1,2)])
  then show ?thesis using chainDepth_bounds[of 0 ?P u "{}"] by (simp add: d chain_referral_chain[OF assms(1,2)])
qed

lemma mem_reads_answer: "reads_answer mem_refp"
  by (simp add: reads_answer_def mem_refp_def unique_gorm_def mem_gorm_def Let_def)

theorem chain_depth_longest_witness:
  "rs_ChainDepth (Stats mem_refp 1 (refs.run mem_refp demo_refs ref_empty)) = 2 \<and>
   referral_chain (refs.run mem_refp demo_refs ref_empty) 1 2"
proof -
  let ?db = "refs.run mem_refp demo_refs ref_empty"
  have inv: "ref_inv ?db" using refs.run_inv[of mem_refp ref_empty] mem_refp_ok ref_empty_inv refs_all_fit by simp
  have d: "rs_ChainDepth (Stats mem_refp 1 ?db) = 2" unfolding demo_refs_def refs.run.simps by code_simp
  show ?thesis using chain_depth_longest[OF mem_refp_ok mem_reads_answer inv refl, of 1] d by simp
qed

text \<open>A cycle: users 1 and 2 refer each other; the recursion stops at the visited user.\<close>

lemma chain_depth_cycle: "fst (chainDepth (\<lambda>u. if u = 1 then [2] else if u = 2 then [1] else []) 1 0 {}) = 2"
  by code_simp

text \<open>\<open>QualifyReferral\<close> reads the referral before its transaction and does not look again: two requests that both
  read it while it is pending pay the rewards twice.\<close>

lemma concurrent_qualify_pays_twice:
  "let db = refs.run mem_refp (take 2 demo_refs) ref_empty
   in case load_referral mem_refp 2 db of
        Inl _ \<Rightarrow> False
      | Inr r \<Rightarrow>
          (case qualify_tx mem_refp 20 (tierFor mem_refp 1 db) r db of
             Inl _ \<Rightarrow> False
           | Inr (_, db1) \<Rightarrow>
               (case qualify_tx mem_refp 21 (tierFor mem_refp 1 db) r db1 of
                  Inl _ \<Rightarrow> False
                | Inr (_, db2) \<Rightarrow> map reward_core (t_rewards db2) =
                    [(1, 1, 1000, ''referrer_commission''), (1, 2, 500, ''referee_bonus''),
                     (1, 1, 1000, ''referrer_commission''), (1, 2, 500, ''referee_bonus'')]))"
  unfolding demo_refs_def take_Cons numeral_2_eq_2 nat.case take_0 refs.run.simps by code_simp

end
