(* ===== verification/Payment.thy ===== *)
theory Payment
  imports Pagination
begin

section \<open>Fiat payments (services/payment\_gateway.go, handlers/payment.go)\<close>

text \<open>
  Checkout sessions with idempotency keys, gateway webhooks and reconciliation, on the tables of
  \<open>models/payment.go\<close>. \<open>clk\<close> gives the successive readings of the clock of one call. A payment status is the string
  the webhook delivers. The JSON decoding of a webhook body (\<open>parsed\<close>, \<open>None\<close> when it fails) and the parsed dates of a
  reconciliation are part of the request; the SQL sum is an argument of the driver.
\<close>

type_synonym PaymentStatus = string
type_synonym PaymentGateway = string

abbreviation PaymentStatusPending :: PaymentStatus where "PaymentStatusPending \<equiv> ''pending''"
abbreviation PaymentStatusCompleted :: PaymentStatus where "PaymentStatusCompleted \<equiv> ''completed''"
abbreviation GatewayStripe :: PaymentGateway where "GatewayStripe \<equiv> ''stripe''"
abbreviation GatewayPayPal :: PaymentGateway where "GatewayPayPal \<equiv> ''paypal''"

record Payment =
  pm_ID :: nat
  pm_UserID :: nat
  pm_AssetID :: nat
  pm_Gateway :: PaymentGateway
  pm_GatewayPaymentID :: string
  pm_IdempotencyKey :: string
  pm_AmountFiat :: int
  pm_Currency :: string
  pm_TokenAmount :: int
  pm_Status :: PaymentStatus
  pm_FailureReason :: string
  pm_WebhookPayload :: string
  pm_CreatedAt :: instant

record PaymentReconciliation =
  rn_ID :: nat
  rn_Gateway :: PaymentGateway
  rn_PeriodStart :: instant
  rn_PeriodEnd :: instant
  rn_TotalPayments :: int
  rn_TotalAmount :: int
  rn_Discrepancies :: int

record GatewayCheckoutSession =
  gs_GatewayPaymentID :: string
  gs_CheckoutURL :: string
  gs_ExpiresAt :: int
  gs_IdempotentReplay :: bool

datatype pay_error =
    ErrGatewayUnsupported | ErrIdempotencyKeyRequired | ErrIdempotencyConflict
  | ErrPersist dberr | ErrNoPayment string | ErrPayDB dberr

record pay_db =
  t_payments :: "Payment list"
  t_recs :: "PaymentReconciliation list"

record pay_drv =
  d_payments :: "Payment gorm"
  d_recs :: "PaymentReconciliation gorm"
  d_fiat :: "(Payment \<Rightarrow> bool) \<Rightarrow> Payment list \<Rightarrow> dberr + int"

definition IdempotencyKeyTTL :: duration where "IdempotencyKeyTTL = 24 * Hour"
definition checkoutSessionTTL :: duration where "checkoutSessionTTL = 30 * Minute"

definition unix :: "instant \<Rightarrow> int" where "unix t = t div Second"
definition unix_milli :: "instant \<Rightarrow> int" where "unix_milli t = t div 1000000"

subsection \<open>Idempotency keys\<close>

definition tombstone :: "Payment \<Rightarrow> instant \<Rightarrow> string" where
  "tombstone payment now = ''__expired__'' @ show_nat (pm_ID payment) @ ''_'' @ show_int (i64 now)"

definition findActivePaymentByIdempotencyKey :: "pay_drv \<Rightarrow> instant \<Rightarrow> instant \<Rightarrow> nat \<Rightarrow> string \<Rightarrow> pay_db \<Rightarrow>
    (pay_error + Payment option) \<times> pay_db" where
  "findActivePaymentByIdempotencyKey drv now nano userID key db =
     (case g_first (d_payments drv) (\<lambda>p. pm_UserID p = userID \<and> pm_IdempotencyKey p = key) (t_payments db) of
        Inl ErrRecordNotFound \<Rightarrow> (Inr None, db)
      | Inl (DBError e) \<Rightarrow> (Inl (ErrPayDB (DBError e)), db)
      | Inr payment \<Rightarrow>
          if time_sub now (pm_CreatedAt payment) > IdempotencyKeyTTL
          then (case g_update (d_payments drv) (\<lambda>p. pm_ID p = pm_ID payment)
                       (\<lambda>p. p\<lparr> pm_IdempotencyKey := tombstone payment nano \<rparr>) (t_payments db) of
                  Inl e \<Rightarrow> (Inl (ErrPayDB e), db)
                | Inr (_, ps) \<Rightarrow> (Inr None, db\<lparr> t_payments := ps \<rparr>))
          else (Inr (Some payment), db))"

definition checkoutURLFor :: "PaymentGateway \<Rightarrow> string \<Rightarrow> string" where
  "checkoutURLFor gateway gid =
     (if gateway = GatewayStripe then ''https://checkout.stripe.com/pay/'' @ gid
      else if gateway = GatewayPayPal then ''https://www.paypal.com/checkoutnow?token='' @ gid
      else '''')"

subsection \<open>Checkout\<close>

definition replay_session :: "Payment \<Rightarrow> GatewayCheckoutSession" where
  "replay_session p =
     \<lparr> gs_GatewayPaymentID = pm_GatewayPaymentID p, gs_CheckoutURL = checkoutURLFor (pm_Gateway p) (pm_GatewayPaymentID p),
       gs_ExpiresAt = unix (pm_CreatedAt p + checkoutSessionTTL), gs_IdempotentReplay = True \<rparr>"

definition gateway_payment_id :: "PaymentGateway \<Rightarrow> nat \<Rightarrow> nat \<Rightarrow> instant \<Rightarrow> string option" where
  "gateway_payment_id gateway userID assetID now =
     (let tail = show_nat userID @ ''_'' @ show_nat assetID @ ''_'' @ show_int (unix_milli now)
      in if gateway = GatewayStripe then Some (''pi_stripe_'' @ tail)
         else if gateway = GatewayPayPal then Some (''pp_order_'' @ tail)
         else None)"

text \<open>What follows when no live payment has the key; a failed insert looks for the payment of a concurrent request.\<close>

definition open_checkout :: "pay_drv \<Rightarrow> (nat \<Rightarrow> instant) \<Rightarrow> nat \<Rightarrow> nat \<Rightarrow> int \<Rightarrow> string \<Rightarrow> PaymentGateway \<Rightarrow> string \<Rightarrow> pay_db \<Rightarrow>
    (pay_error + GatewayCheckoutSession \<times> Payment) \<times> pay_db" where
  "open_checkout drv clk userID assetID amountFiat currency gateway key db =
     (case gateway_payment_id gateway userID assetID (clk 2) of
        None \<Rightarrow> (Inl ErrGatewayUnsupported, db)
      | Some gid \<Rightarrow>
          (let payment = \<lparr> pm_ID = 0, pm_UserID = userID, pm_AssetID = assetID, pm_Gateway = gateway,
                 pm_GatewayPaymentID = gid, pm_IdempotencyKey = key, pm_AmountFiat = amountFiat, pm_Currency = currency,
                 pm_TokenAmount = quo64 amountFiat 100, pm_Status = PaymentStatusPending, pm_FailureReason = '''',
                 pm_WebhookPayload = '''', pm_CreatedAt = clk 3 \<rparr>
           in case g_create (d_payments drv) payment (t_payments db) of
                Inl e \<Rightarrow>
                  (case findActivePaymentByIdempotencyKey drv (clk 4) (clk 5) userID key db of
                     (Inr (Some raced), db') \<Rightarrow> (Inr (replay_session raced, raced), db')
                   | (_, db') \<Rightarrow> (Inl (ErrPersist e), db'))
              | Inr (p, ps) \<Rightarrow>
                  (Inr (\<lparr> gs_GatewayPaymentID = gid, gs_CheckoutURL = checkoutURLFor gateway gid,
                          gs_ExpiresAt = unix (clk 6 + checkoutSessionTTL), gs_IdempotentReplay = False \<rparr>, p),
                   db\<lparr> t_payments := ps \<rparr>)))"

definition same_parameters :: "Payment \<Rightarrow> nat \<Rightarrow> int \<Rightarrow> string \<Rightarrow> PaymentGateway \<Rightarrow> bool" where
  "same_parameters p assetID amountFiat currency gateway \<longleftrightarrow>
     pm_AssetID p = assetID \<and> pm_AmountFiat p = amountFiat \<and> pm_Currency p = currency \<and> pm_Gateway p = gateway"

definition CreateCheckoutSession :: "pay_drv \<Rightarrow> (nat \<Rightarrow> instant) \<Rightarrow> nat \<Rightarrow> nat \<Rightarrow> int \<Rightarrow> string \<Rightarrow> PaymentGateway \<Rightarrow> string \<Rightarrow>
    pay_db \<Rightarrow> (pay_error + GatewayCheckoutSession \<times> Payment) \<times> pay_db" where
  "CreateCheckoutSession drv clk userID assetID amountFiat currency gateway key db =
     (if key = '''' then (Inl ErrIdempotencyKeyRequired, db)
      else case findActivePaymentByIdempotencyKey drv (clk 0) (clk 1) userID key db of
             (Inl e, db') \<Rightarrow> (Inl e, db')
           | (Inr (Some existing), db') \<Rightarrow>
               if \<not> same_parameters existing assetID amountFiat currency gateway then (Inl ErrIdempotencyConflict, db')
               else (Inr (replay_session existing, existing), db')
           | (Inr None, db') \<Rightarrow> open_checkout drv clk userID assetID amountFiat currency gateway key db')"

subsection \<open>Webhooks, listings and reconciliation\<close>

definition HandleWebhook :: "pay_drv \<Rightarrow> string \<Rightarrow> string \<Rightarrow> PaymentStatus \<Rightarrow> string \<Rightarrow> pay_db \<Rightarrow> (pay_error + unit) \<times> pay_db" where
  "HandleWebhook drv gid raw status failureReason db =
     (case g_first (d_payments drv) (\<lambda>p. pm_GatewayPaymentID p = gid) (t_payments db) of
        Inl ErrRecordNotFound \<Rightarrow> (Inl (ErrNoPayment gid), db)
      | Inl (DBError e) \<Rightarrow> (Inl (ErrPayDB (DBError e)), db)
      | Inr payment \<Rightarrow>
          (let payment1 = payment\<lparr> pm_Status := status, pm_WebhookPayload := raw \<rparr>;
               payment2 = (if failureReason \<noteq> '''' then payment1\<lparr> pm_FailureReason := failureReason \<rparr> else payment1)
           in case g_save (d_payments drv) payment2 (t_payments db) of
                Inl e \<Rightarrow> (Inl (ErrPayDB e), db)
              | Inr ps \<Rightarrow> (Inr (), db\<lparr> t_payments := ps \<rparr>)))"

definition GetPayment :: "pay_drv \<Rightarrow> nat \<Rightarrow> pay_db \<Rightarrow> dberr + Payment" where
  "GetPayment drv i db = g_first (d_payments drv) (\<lambda>p. pm_ID p = i) (t_payments db)"

definition ListUserPayments :: "pay_drv \<Rightarrow> nat \<Rightarrow> int \<Rightarrow> int \<Rightarrow> pay_db \<Rightarrow> dberr + Payment list \<times> int" where
  "ListUserPayments drv userID page0 limit0 db =
     (let page = (if page0 < 1 then 1 else page0);
          limit = (if limit0 < 1 \<or> limit0 > 100 then 20 else limit0);
          offset = mul64 (page - 1) limit
      in and_then (g_count (d_payments drv) (\<lambda>p. pm_UserID p = userID) (t_payments db)) (\<lambda>n.
         and_then (g_find (d_payments drv) \<lparr> q_where = (\<lambda>p. pm_UserID p = userID), q_order = (\<lambda>x y. pm_CreatedAt x \<ge> pm_CreatedAt y),
                     q_offset = nat offset, q_limit = Some (nat limit) \<rparr> (t_payments db)) (\<lambda>ps.
         Inr (ps, n))))"

definition settled_in :: "PaymentGateway \<Rightarrow> instant \<Rightarrow> instant \<Rightarrow> Payment \<Rightarrow> bool" where
  "settled_in gateway start end' p \<longleftrightarrow>
     pm_Gateway p = gateway \<and> pm_Status p = PaymentStatusCompleted \<and> start \<le> pm_CreatedAt p \<and> pm_CreatedAt p \<le> end'"

definition Reconcile :: "pay_drv \<Rightarrow> PaymentGateway \<Rightarrow> instant \<Rightarrow> instant \<Rightarrow> pay_db \<Rightarrow> (dberr + PaymentReconciliation) \<times> pay_db" where
  "Reconcile drv gateway start end' db =
     (case and_then (g_count (d_payments drv) (settled_in gateway start end') (t_payments db)) (\<lambda>n.
           and_then (d_fiat drv (settled_in gateway start end') (t_payments db)) (\<lambda>s.
           g_create (d_recs drv) \<lparr> rn_ID = 0, rn_Gateway = gateway, rn_PeriodStart = start, rn_PeriodEnd = end',
             rn_TotalPayments = n, rn_TotalAmount = s, rn_Discrepancies = 0 \<rparr> (t_recs db))) of
        Inl e \<Rightarrow> (Inl e, db)
      | Inr (r, rs) \<Rightarrow> (Inr r, db\<lparr> t_recs := rs \<rparr>))"

subsection \<open>The endpoints\<close>

record createPaymentRequest =
  cp_AssetID :: nat
  cp_AmountFiat :: int
  cp_Currency :: string
  cp_Gateway :: PaymentGateway
  cp_IdempotencyKey :: string

definition idempotencyKeyHeaders :: "string list" where
  "idempotencyKeyHeaders = [''Idempotency-Key'', ''X-Idempotency-Key'']"

definition resolveIdempotencyKey :: "(string \<Rightarrow> string) \<Rightarrow> string \<Rightarrow> string" where
  "resolveIdempotencyKey header bodyKey =
     (case find (\<lambda>v. v \<noteq> '''') (map (\<lambda>h. TrimSpace (header h)) idempotencyKeyHeaders) of
        Some v \<Rightarrow> v
      | None \<Rightarrow> TrimSpace bodyKey)"

record payment_reply =
  py_PaymentID :: nat
  py_Session :: GatewayCheckoutSession
  py_Status :: PaymentStatus
  py_IdempotencyKey :: string

datatype pay_body =
    BodySession payment_reply | BodyPayment Payment | BodyPayments "Payment list" int | BodyReceived | BodyRec PaymentReconciliation

definition db_message :: "dberr \<Rightarrow> string" where
  "db_message e = (case e of ErrRecordNotFound \<Rightarrow> ''record not found'' | DBError m \<Rightarrow> m)"

definition pay_failure :: "pay_error \<Rightarrow> int \<times> string" where
  "pay_failure e =
     (case e of
        ErrIdempotencyConflict \<Rightarrow> (StatusConflict, ''Idempotency key was already used with different payment parameters'')
      | ErrIdempotencyKeyRequired \<Rightarrow> (StatusBadRequest, ''An idempotency key is required'')
      | ErrGatewayUnsupported \<Rightarrow> (StatusBadRequest, ''Unsupported payment gateway'')
      | ErrPersist d \<Rightarrow> (StatusInternalServerError, ''Failed to create payment session: failed to persist payment record: '' @ db_message d)
      | ErrNoPayment gid \<Rightarrow> (StatusInternalServerError, ''Failed to create payment session: no payment found for '' @ gid)
      | ErrPayDB d \<Rightarrow> (StatusInternalServerError, ''Failed to create payment session: '' @ db_message d))"

text \<open>The user of the request context is \<open>None\<close> when the request is not authenticated.\<close>

definition CreatePayment :: "pay_drv \<Rightarrow> (nat \<Rightarrow> instant) \<Rightarrow> nat option \<Rightarrow> (string \<Rightarrow> string) \<Rightarrow> string + createPaymentRequest \<Rightarrow>
    pay_db \<Rightarrow> pay_body response \<times> pay_db" where
  "CreatePayment drv clk user header body db =
     (case body of
        Inl e \<Rightarrow> (Fail StatusBadRequest ''Invalid payment request'', db)
      | Inr req \<Rightarrow>
          (let key = resolveIdempotencyKey header (cp_IdempotencyKey req);
               currency = ToUpper (if cp_Currency req = '''' then ''USD'' else cp_Currency req)
           in if key = '''' then (Fail StatusBadRequest
                  ''An idempotency key is required: supply the Idempotency-Key header or the idempotency_key body field'', db)
              else if length key < 8 \<or> length key > 255
              then (Fail StatusBadRequest ''Idempotency key must be between 8 and 255 characters'', db)
              else case user of
                     None \<Rightarrow> (Fail StatusUnauthorized ''Authentication required'', db)
                   | Some userID \<Rightarrow>
                       (case CreateCheckoutSession drv clk userID (cp_AssetID req) (cp_AmountFiat req) currency (cp_Gateway req) key db of
                          (Inl e, db') \<Rightarrow> (Fail (fst (pay_failure e)) (snd (pay_failure e)), db')
                        | (Inr (session, payment), db') \<Rightarrow>
                            (Reply (if gs_IdempotentReplay session then StatusOK else StatusCreated)
                               (BodySession \<lparr> py_PaymentID = pm_ID payment, py_Session = session, py_Status = pm_Status payment,
                                              py_IdempotencyKey = key \<rparr>), db'))))"

definition ShowPayment :: "pay_drv \<Rightarrow> nat option \<Rightarrow> string \<Rightarrow> string \<Rightarrow> pay_db \<Rightarrow> pay_body response" where
  "ShowPayment drv user role raw db =
     (case ParseUint raw of
        Inl _ \<Rightarrow> Fail StatusBadRequest ''Invalid payment ID''
      | Inr i \<Rightarrow>
          (case GetPayment drv i db of
             Inl _ \<Rightarrow> Fail StatusNotFound ''Payment not found''
           | Inr payment \<Rightarrow>
               (case user of
                  None \<Rightarrow> Crash
                | Some u \<Rightarrow> if pm_UserID payment \<noteq> u \<and> role \<noteq> ''admin'' then Fail StatusForbidden ''Access denied''
                            else Reply StatusOK (BodyPayment payment))))"

definition ListPayments :: "pay_drv \<Rightarrow> nat option \<Rightarrow> query_params \<Rightarrow> pay_db \<Rightarrow> pay_body response" where
  "ListPayments drv user ps db =
     (case user of
        None \<Rightarrow> Fail StatusUnauthorized ''Authentication required''
      | Some u \<Rightarrow>
          (let page = fst (Atoi (DefaultQuery ps ''page'' ''1''));
               limit = clampPageLimit (fst (Atoi (DefaultQuery ps ''limit'' ''20'')))
           in case ListUserPayments drv u page limit db of
                Inl _ \<Rightarrow> Fail StatusInternalServerError ''Failed to fetch payments''
              | Inr (payments, n) \<Rightarrow> Reply StatusOK (BodyPayments payments n)))"

record webhookBody =
  wb_GatewayPaymentID :: string
  wb_Status :: string
  wb_FailureReason :: string

definition Webhook :: "pay_drv \<Rightarrow> string \<Rightarrow> webhookBody option \<Rightarrow> query_params \<Rightarrow> pay_db \<Rightarrow> pay_body response \<times> pay_db" where
  "Webhook drv raw parsed ps db =
     (let body = (case parsed of
            Some b \<Rightarrow> b
          | None \<Rightarrow> \<lparr> wb_GatewayPaymentID = Query ps ''gateway_payment_id'', wb_Status = Query ps ''status'',
                      wb_FailureReason = Query ps ''failure_reason'' \<rparr>)
      in if wb_GatewayPaymentID body = '''' \<or> wb_Status body = '''' then (Reply StatusOK BodyReceived, db)
         else case HandleWebhook drv (wb_GatewayPaymentID body) raw (wb_Status body) (wb_FailureReason body) db of
                (Inl _, db') \<Rightarrow> (Fail StatusInternalServerError ''Failed to process webhook'', db')
              | (Inr _, db') \<Rightarrow> (Reply StatusOK BodyReceived, db'))"

text \<open>The dates are \<open>None\<close> when they are not of the form YYYY-MM-DD.\<close>

definition ReconcilePayments :: "pay_drv \<Rightarrow> string + PaymentGateway \<times> instant option \<times> instant option \<Rightarrow> pay_db \<Rightarrow>
    pay_body response \<times> pay_db" where
  "ReconcilePayments drv body db =
     (case body of
        Inl e \<Rightarrow> (Fail StatusBadRequest ''Invalid reconciliation request'', db)
      | Inr (_, None, _) \<Rightarrow> (Fail StatusBadRequest ''Invalid start date format (use YYYY-MM-DD)'', db)
      | Inr (_, Some _, None) \<Rightarrow> (Fail StatusBadRequest ''Invalid end date format (use YYYY-MM-DD)'', db)
      | Inr (gateway, Some start, Some end') \<Rightarrow>
          (case Reconcile drv gateway start (end' + (24 * Hour - Second)) db of
             (Inl _, db') \<Rightarrow> (Fail StatusInternalServerError ''Reconciliation failed'', db')
           | (Inr r, db') \<Rightarrow> (Reply StatusOK (BodyRec r), db')))"

subsection \<open>The driver and the invariant\<close>

definition pay_key :: "Payment \<Rightarrow> nat \<times> string" where
  "pay_key p = (pm_UserID p, pm_IdempotencyKey p)"

definition pay_drv_ok :: "pay_drv \<Rightarrow> bool" where
  "pay_drv_ok drv \<longleftrightarrow>
     gorm_ok pm_ID (\<lambda>k. pm_ID_update (\<lambda>_. k)) (d_payments drv) \<and> unique_ok pay_key (d_payments drv) \<and>
     unique_ok pm_GatewayPaymentID (d_payments drv) \<and> gorm_ok rn_ID (\<lambda>k. rn_ID_update (\<lambda>_. k)) (d_recs drv) \<and>
     (\<forall>P ps n. d_fiat drv P ps = Inr n \<longrightarrow> n = sum_list (map pm_AmountFiat (filter P ps)))"

definition mem_pay :: pay_drv where
  "mem_pay =
     \<lparr> d_payments = unique_gorm pm_GatewayPaymentID (unique_gorm pay_key (mem_gorm pm_ID (\<lambda>k. pm_ID_update (\<lambda>_. k)))),
       d_recs = mem_gorm rn_ID (\<lambda>k. rn_ID_update (\<lambda>_. k)),
       d_fiat = (\<lambda>P ps. Inr (sum_list (map pm_AmountFiat (filter P ps)))) \<rparr>"

lemma mem_pay_ok: "pay_drv_ok mem_pay"
  by (simp add: pay_drv_ok_def mem_pay_def unique_gorm_ok mem_gorm_ok unique_gorm_unique unique_gorm_keeps)

lemma pay_drvD:
  assumes "pay_drv_ok drv"
  shows "gorm_ok pm_ID (\<lambda>k. pm_ID_update (\<lambda>_. k)) (d_payments drv)" "unique_ok pay_key (d_payments drv)"
    "unique_ok pm_GatewayPaymentID (d_payments drv)"
  using assms unfolding pay_drv_ok_def by blast+

definition pay_inv :: "pay_db \<Rightarrow> bool" where
  "pay_inv db \<longleftrightarrow> distinct (map pm_ID (t_payments db)) \<and> distinct (map pay_key (t_payments db)) \<and>
     distinct (map pm_GatewayPaymentID (t_payments db))"

lemma pay_invD:
  assumes "pay_inv db"
  shows "distinct (map pm_ID (t_payments db))" "distinct (map pay_key (t_payments db))" "distinct (map pm_GatewayPaymentID (t_payments db))"
  using assms by (simp_all add: pay_inv_def)

text \<open>What a payment keeps for good, and what one request may do: every payment keeps these columns, and one
  that is not older than the TTL at time \<open>T\<close> also keeps its key.\<close>

definition pay_core :: "Payment \<Rightarrow> nat \<times> nat \<times> nat \<times> PaymentGateway \<times> string \<times> int \<times> string \<times> int \<times> instant" where
  "pay_core p = (pm_ID p, pm_UserID p, pm_AssetID p, pm_Gateway p, pm_GatewayPaymentID p, pm_AmountFiat p, pm_Currency p,
     pm_TokenAmount p, pm_CreatedAt p)"

definition pay_keeps :: "instant \<Rightarrow> pay_db \<Rightarrow> pay_db \<Rightarrow> bool" where
  "pay_keeps T db db' \<longleftrightarrow> (\<forall>p\<in>set (t_payments db). \<exists>q\<in>set (t_payments db'). pay_core q = pay_core p \<and>
     (T - pm_CreatedAt p \<le> IdempotencyKeyTTL \<longrightarrow> pm_IdempotencyKey q = pm_IdempotencyKey p))"

lemma pay_keeps_refl: "pay_keeps T db db"
  by (auto simp: pay_keeps_def)

lemma pay_core_created: "pay_core q = pay_core p \<Longrightarrow> pm_CreatedAt q = pm_CreatedAt p"
  by (simp add: pay_core_def)

lemma pay_keeps_trans:
  assumes "pay_keeps T a b" "pay_keeps T b c"
  shows "pay_keeps T a c"
  unfolding pay_keeps_def
proof
  fix p assume "p \<in> set (t_payments a)"
  then obtain q where q: "q \<in> set (t_payments b)" "pay_core q = pay_core p"
    "T - pm_CreatedAt p \<le> IdempotencyKeyTTL \<longrightarrow> pm_IdempotencyKey q = pm_IdempotencyKey p"
    using assms(1) unfolding pay_keeps_def by blast
  then obtain r where "r \<in> set (t_payments c)" "pay_core r = pay_core q"
    "T - pm_CreatedAt q \<le> IdempotencyKeyTTL \<longrightarrow> pm_IdempotencyKey r = pm_IdempotencyKey q"
    using assms(2) unfolding pay_keeps_def by blast
  then show "\<exists>r\<in>set (t_payments c). pay_core r = pay_core p \<and>
      (T - pm_CreatedAt p \<le> IdempotencyKeyTTL \<longrightarrow> pm_IdempotencyKey r = pm_IdempotencyKey p)"
    using q pay_core_created[OF q(2)] by auto
qed

lemma pay_keeps_map:
  assumes "t_payments db' = map f (t_payments db)"
    and "\<And>p. p \<in> set (t_payments db) \<Longrightarrow> pay_core (f p) = pay_core p \<and>
      (T - pm_CreatedAt p \<le> IdempotencyKeyTTL \<longrightarrow> pm_IdempotencyKey (f p) = pm_IdempotencyKey p)"
  shows "pay_keeps T db db'"
  unfolding pay_keeps_def using assms by auto

lemma expired_iff: "(time_sub now t > IdempotencyKeyTTL) = (now - t > IdempotencyKeyTTL)"
proof -
  have "(IdempotencyKeyTTL + 1 \<le> time_sub now t) = (IdempotencyKeyTTL + 1 \<le> now - t)"
    by (rule time_sub_le) (simp_all add: IdempotencyKeyTTL_def)
  then show ?thesis by linarith
qed

text \<open>The three outcomes of a lookup.\<close>

lemma find_active_cases:
  assumes drv: "pay_drv_ok drv" and f: "findActivePaymentByIdempotencyKey drv now nano u key db = (res, db')"
  obtains (error) e where "res = Inl (ErrPayDB e)" "db' = db"
  | (found) p where "res = Inr (Some p)" "db' = db" "p \<in> set (t_payments db)" "pay_key p = (u, key)" "now - pm_CreatedAt p \<le> IdempotencyKeyTTL"
  | (missing) "res = Inr None" "db' = db" "\<And>p. p \<in> set (t_payments db) \<Longrightarrow> pay_key p \<noteq> (u, key)"
  | (released) p n ps where "res = Inr None" "p \<in> set (t_payments db)" "pay_key p = (u, key)" "now - pm_CreatedAt p > IdempotencyKeyTTL"
      "db' = db\<lparr> t_payments := ps \<rparr>"
      "g_update (d_payments drv) (\<lambda>q. pm_ID q = pm_ID p) (\<lambda>q. q\<lparr> pm_IdempotencyKey := tombstone p nano \<rparr>) (t_payments db) = Inr (n, ps)"
proof (cases "g_first (d_payments drv) (\<lambda>p. pm_UserID p = u \<and> pm_IdempotencyKey p = key) (t_payments db)")
  case (Inl e)
  show thesis
  proof (cases e)
    case ErrRecordNotFound
    then have "pay_key p \<noteq> (u, key)" if "p \<in> set (t_payments db)" for p
      using gorm_first_none[OF pay_drvD(1)[OF drv], of _ _ p] Inl that by (auto simp: pay_key_def)
    then show thesis using missing f Inl ErrRecordNotFound by (simp add: findActivePaymentByIdempotencyKey_def)
  next
    case (DBError m)
    then have "res = Inl (ErrPayDB e) \<and> db' = db" using f Inl by (simp add: findActivePaymentByIdempotencyKey_def)
    then show thesis using error by blast
  qed
next
  case (Inr p)
  have p: "p \<in> set (t_payments db)" "pay_key p = (u, key)" using gorm_firstD[OF pay_drvD(1)[OF drv] Inr] by (simp_all add: pay_key_def)
  show thesis
  proof (cases "now - pm_CreatedAt p > IdempotencyKeyTTL")
    case True
    show thesis
    proof (cases "g_update (d_payments drv) (\<lambda>q. pm_ID q = pm_ID p) (\<lambda>q. q\<lparr> pm_IdempotencyKey := tombstone p nano \<rparr>) (t_payments db)")
      case (Inl e)
      then have "res = Inl (ErrPayDB e) \<and> db' = db"
        using f Inr True by (simp add: findActivePaymentByIdempotencyKey_def expired_iff)
      then show thesis using error by blast
    next
      case (Inr x)
      obtain n ps where x: "x = (n, ps)" by (cases x)
      show thesis using released[OF _ p True, of ps n] f Inr True
          \<open>g_first (d_payments drv) (\<lambda>p. pm_UserID p = u \<and> pm_IdempotencyKey p = key) (t_payments db) = Inr p\<close>
        by (simp add: findActivePaymentByIdempotencyKey_def expired_iff x)
    qed
  qed (use found[OF _ _ p] f Inr in \<open>simp add: findActivePaymentByIdempotencyKey_def expired_iff\<close>)
qed

lemma find_active_inv:
  assumes drv: "pay_drv_ok drv" and inv: "pay_inv db" and f: "findActivePaymentByIdempotencyKey drv now nano u key db = (res, db')"
  shows "pay_inv db'" "now \<le> T \<Longrightarrow> pay_keeps T db db'"
proof -
  note i = pay_invD[OF inv]
  have "pay_inv db' \<and> (now \<le> T \<longrightarrow> pay_keeps T db db')"
    using drv f
  proof (cases rule: find_active_cases)
    case (released p n ps)
    have ps: "ps = map (\<lambda>q. if pm_ID q = pm_ID p then q\<lparr> pm_IdempotencyKey := tombstone p nano \<rparr> else q) (t_payments db)"
      by (rule gorm_updateD(2)[OF pay_drvD(1)[OF drv] released(6)])
    have "map pm_ID ps = map pm_ID (t_payments db)" by (simp add: ps)
    then have "pay_inv db'"
      using released(5) i unique_update[OF pay_drvD(2)[OF drv] released(6)] unique_update[OF pay_drvD(3)[OF drv] released(6)]
      by (simp add: pay_inv_def)
    moreover have "pay_keeps T db db'" if "now \<le> T"
    proof (rule pay_keeps_map)
      show "t_payments db' = map (\<lambda>q. if pm_ID q = pm_ID p then q\<lparr> pm_IdempotencyKey := tombstone p nano \<rparr> else q) (t_payments db)"
        by (simp add: released(5) ps)
      fix q assume "q \<in> set (t_payments db)"
      then have "pm_ID q = pm_ID p \<Longrightarrow> q = p" using distinct_key_unique[OF i(1) _ released(2)] by blast
      then show "pay_core (if pm_ID q = pm_ID p then q\<lparr> pm_IdempotencyKey := tombstone p nano \<rparr> else q) = pay_core q \<and>
          (T - pm_CreatedAt q \<le> IdempotencyKeyTTL \<longrightarrow>
           pm_IdempotencyKey (if pm_ID q = pm_ID p then q\<lparr> pm_IdempotencyKey := tombstone p nano \<rparr> else q) = pm_IdempotencyKey q)"
        using released(4) that by (auto simp: pay_core_def)
    qed
    ultimately show ?thesis by blast
  qed (use inv pay_keeps_refl in auto)
  then show "pay_inv db'" "now \<le> T \<Longrightarrow> pay_keeps T db db'" by blast+
qed

lemma create_payment_inv:
  assumes drv: "pay_drv_ok drv" and inv: "pay_inv db" and cr: "g_create (d_payments drv) r (t_payments db) = Inr (p, ps)"
  shows "pay_inv (db\<lparr> t_payments := ps \<rparr>)" "pay_keeps T db (db\<lparr> t_payments := ps \<rparr>)" "p \<in> set ps" "p = r\<lparr> pm_ID := pm_ID p \<rparr>"
proof -
  note i = pay_invD[OF inv]
  obtain k where k: "k \<notin> pm_ID ` set (t_payments db)" "p = r\<lparr> pm_ID := k \<rparr>" "ps = t_payments db @ [p]"
    by (rule gorm_createD[OF pay_drvD(1)[OF drv] cr])
  have "distinct (map pm_ID ps)" using i(1) k by simp
  then show "pay_inv (db\<lparr> t_payments := ps \<rparr>)"
    using i unique_create[OF pay_drvD(2)[OF drv] cr] unique_create[OF pay_drvD(3)[OF drv] cr] by (simp add: pay_inv_def)
  show "pay_keeps T db (db\<lparr> t_payments := ps \<rparr>)" using k(3) by (auto simp: pay_keeps_def)
  show "p \<in> set ps" "p = r\<lparr> pm_ID := pm_ID p \<rparr>" using k by simp_all
qed

text \<open>The outcomes of a checkout: the key is returned with a stored, live payment of the user.\<close>

lemma open_checkout_inv:
  assumes drv: "pay_drv_ok drv" and inv: "pay_inv db" and o: "open_checkout drv clk u a amt cur gw key db = (res, db')"
  shows "pay_inv db'" "clk 4 \<le> T \<Longrightarrow> pay_keeps T db db'"
    "res = Inr (s, p) \<Longrightarrow> p \<in> set (t_payments db') \<and> pay_key p = (u, key) \<and> gs_GatewayPaymentID s = pm_GatewayPaymentID p"
proof -
  have all: "pay_inv db' \<and> (clk 4 \<le> T \<longrightarrow> pay_keeps T db db') \<and>
    (res = Inr (s, p) \<longrightarrow> p \<in> set (t_payments db') \<and> pay_key p = (u, key) \<and> gs_GatewayPaymentID s = pm_GatewayPaymentID p)"
  proof (cases "gateway_payment_id gw u a (clk 2)")
    case None
    then show ?thesis using o inv pay_keeps_refl by (auto simp: open_checkout_def)
  next
    case (Some gid)
    define r where "r = \<lparr> pm_ID = 0, pm_UserID = u, pm_AssetID = a, pm_Gateway = gw, pm_GatewayPaymentID = gid, pm_IdempotencyKey = key,
      pm_AmountFiat = amt, pm_Currency = cur, pm_TokenAmount = quo64 amt 100, pm_Status = PaymentStatusPending, pm_FailureReason = '''',
      pm_WebhookPayload = '''', pm_CreatedAt = clk 3 \<rparr>"
    show ?thesis
    proof (cases "g_create (d_payments drv) r (t_payments db)")
      case (Inl e)
      obtain f db1 where f: "findActivePaymentByIdempotencyKey drv (clk 4) (clk 5) u key db = (f, db1)" by fastforce
      note keep = find_active_inv[OF drv inv f]
      have "(res, db') = (case f of Inr (Some raced) \<Rightarrow> Inr (replay_session raced, raced) | _ \<Rightarrow> Inl (ErrPersist e), db1)"
        using o Some Inl f unfolding open_checkout_def r_def by (auto split: sum.splits option.splits)
      then have rd: "res = (case f of Inr (Some raced) \<Rightarrow> Inr (replay_session raced, raced) | _ \<Rightarrow> Inl (ErrPersist e))" "db' = db1" by simp_all
      have "p \<in> set (t_payments db1) \<and> pay_key p = (u, key) \<and> gs_GatewayPaymentID s = pm_GatewayPaymentID p" if "res = Inr (s, p)"
        using drv f
      proof (cases rule: find_active_cases)
        case (found q)
        then show ?thesis using that rd(1) by (auto simp: replay_session_def)
      qed (use that rd(1) in auto)
      then show ?thesis using keep rd(2) by blast
    next
      case (Inr x)
      obtain q ps where cr: "g_create (d_payments drv) r (t_payments db) = Inr (q, ps)" using Inr by (cases x) auto
      note c = create_payment_inv[OF drv inv cr]
      have "db' = db\<lparr> t_payments := ps \<rparr>" "res = Inr (s, p) \<Longrightarrow> p = q \<and> gs_GatewayPaymentID s = gid"
        using o Some cr unfolding open_checkout_def r_def by auto
      moreover have "pay_key q = (u, key)" "pm_GatewayPaymentID q = gid" by (subst c(4), simp add: pay_key_def r_def)+
      ultimately show ?thesis using c(1-3) by auto
    qed
  qed
  then show "pay_inv db'" "clk 4 \<le> T \<Longrightarrow> pay_keeps T db db'"
    "res = Inr (s, p) \<Longrightarrow> p \<in> set (t_payments db') \<and> pay_key p = (u, key) \<and> gs_GatewayPaymentID s = pm_GatewayPaymentID p" by blast+
qed

lemma CreateCheckoutSession_inv:
  assumes drv: "pay_drv_ok drv" and inv: "pay_inv db" and c: "CreateCheckoutSession drv clk u a amt cur gw key db = (res, db')"
  shows "pay_inv db'" "clk 0 \<le> T \<Longrightarrow> clk 4 \<le> T \<Longrightarrow> pay_keeps T db db'"
    "res = Inr (s, p) \<Longrightarrow> p \<in> set (t_payments db') \<and> pay_key p = (u, key) \<and> gs_GatewayPaymentID s = pm_GatewayPaymentID p"
proof -
  have all: "pay_inv db' \<and> (clk 0 \<le> T \<longrightarrow> clk 4 \<le> T \<longrightarrow> pay_keeps T db db') \<and>
    (res = Inr (s, p) \<longrightarrow> p \<in> set (t_payments db') \<and> pay_key p = (u, key) \<and> gs_GatewayPaymentID s = pm_GatewayPaymentID p)"
  proof (cases "key = ''''")
    case True
    then show ?thesis using c inv pay_keeps_refl by (auto simp: CreateCheckoutSession_def)
  next
    case False
    obtain f db1 where f: "findActivePaymentByIdempotencyKey drv (clk 0) (clk 1) u key db = (f, db1)" by fastforce
    note keep = find_active_inv[OF drv inv f]
    show ?thesis using drv f
    proof (cases rule: find_active_cases)
      case (found q)
      then show ?thesis
        using c False f inv pay_keeps_refl by (auto simp: CreateCheckoutSession_def replay_session_def split: if_splits)
    next
      case (error e)
      then show ?thesis using c False f inv pay_keeps_refl by (auto simp: CreateCheckoutSession_def)
    next
      case missing
      then have o: "open_checkout drv clk u a amt cur gw key db1 = (res, db')" using c False f by (simp add: CreateCheckoutSession_def)
      show ?thesis using open_checkout_inv[OF drv keep(1) o] keep(2) pay_keeps_trans by blast
    next
      case released
      then have o: "open_checkout drv clk u a amt cur gw key db1 = (res, db')" using c False f by (simp add: CreateCheckoutSession_def)
      show ?thesis using open_checkout_inv[OF drv keep(1) o] keep(2) pay_keeps_trans by blast
    qed
  qed
  then show "pay_inv db'" "clk 0 \<le> T \<Longrightarrow> clk 4 \<le> T \<Longrightarrow> pay_keeps T db db'"
    "res = Inr (s, p) \<Longrightarrow> p \<in> set (t_payments db') \<and> pay_key p = (u, key) \<and> gs_GatewayPaymentID s = pm_GatewayPaymentID p" by blast+
qed

lemma HandleWebhook_inv:
  assumes drv: "pay_drv_ok drv" and inv: "pay_inv db" and w: "HandleWebhook drv gid raw status why db = (res, db')"
  shows "pay_inv db'" "pay_keeps T db db'"
proof -
  note i = pay_invD[OF inv]
  have "pay_inv db' \<and> pay_keeps T db db'"
  proof (cases "db' = db")
    case True
    then show ?thesis using inv pay_keeps_refl by simp
  next
    case False
    then obtain p ps where p: "g_first (d_payments drv) (\<lambda>p. pm_GatewayPaymentID p = gid) (t_payments db) = Inr p"
      and sv: "g_save (d_payments drv) (p\<lparr> pm_Status := status, pm_WebhookPayload := raw,
            pm_FailureReason := if why \<noteq> '''' then why else pm_FailureReason p \<rparr>) (t_payments db) = Inr ps"
      and db': "db' = db\<lparr> t_payments := ps \<rparr>"
      using w by (auto simp: HandleWebhook_def Let_def split: sum.splits dberr.splits if_splits)
    let ?p = "p\<lparr> pm_Status := status, pm_WebhookPayload := raw, pm_FailureReason := if why \<noteq> '''' then why else pm_FailureReason p \<rparr>"
    have pin: "p \<in> set (t_payments db)" by (rule gorm_firstD(1)[OF pay_drvD(1)[OF drv] p])
    have ps: "ps = put_row pm_ID ?p (t_payments db)" by (rule gorm_save[OF pay_drvD(1)[OF drv] sv pin]) simp
    have same: "x = p" if "x \<in> set (t_payments db)" "pm_ID x = pm_ID ?p" for x
      using distinct_key_unique[OF i(1) that(1) pin] that(2) by simp
    have "map pay_key ps = map pay_key (t_payments db)" "map pm_GatewayPaymentID ps = map pm_GatewayPaymentID (t_payments db)"
      unfolding ps by (rule map_frame_put_row; frule same; simp add: pay_key_def)+
    then have "pay_inv db'" using i ps by (simp add: pay_inv_def db')
    moreover have "pay_keeps T db db'"
    proof (rule pay_keeps_map)
      show "t_payments db' = map (\<lambda>x. if pm_ID x = pm_ID ?p then ?p else x) (t_payments db)" by (simp add: db' ps put_row_def)
      fix x assume "x \<in> set (t_payments db)"
      then show "pay_core (if pm_ID x = pm_ID ?p then ?p else x) = pay_core x \<and>
          (T - pm_CreatedAt x \<le> IdempotencyKeyTTL \<longrightarrow> pm_IdempotencyKey (if pm_ID x = pm_ID ?p then ?p else x) = pm_IdempotencyKey x)"
        using same[of x] by (auto simp: pay_core_def)
    qed
    ultimately show ?thesis by blast
  qed
  then show "pay_inv db'" "pay_keeps T db db'" by blast+
qed

lemma Reconcile_payments: "t_payments (snd (Reconcile drv gw s e db)) = t_payments db"
  by (auto simp: Reconcile_def and_then_def split: sum.split prod.split)

subsection \<open>The endpoints as a service\<close>

datatype pay_req =
    ReqPay "nat \<Rightarrow> instant" "nat option" "string \<Rightarrow> string" "string + createPaymentRequest"
  | ReqHook string "webhookBody option" query_params
  | ReqReconcile "string + PaymentGateway \<times> instant option \<times> instant option"
  | ReqShow "nat option" string string
  | ReqList "nat option" query_params

fun pay_handle :: "pay_drv \<Rightarrow> pay_req \<Rightarrow> pay_db \<Rightarrow> pay_body response \<times> pay_db" where
  "pay_handle drv (ReqPay clk u h b) db = CreatePayment drv clk u h b db"
| "pay_handle drv (ReqHook raw b ps) db = Webhook drv raw b ps db"
| "pay_handle drv (ReqReconcile b) db = ReconcilePayments drv b db"
| "pay_handle drv (ReqShow u role raw) db = (ShowPayment drv u role raw db, db)"
| "pay_handle drv (ReqList u ps) db = (ListPayments drv u ps db, db)"

text \<open>The readings that a request compares with a key's age are no later than \<open>T\<close>.\<close>

fun pay_in_time :: "instant \<Rightarrow> pay_req \<Rightarrow> bool" where
  "pay_in_time T (ReqPay clk u h b) \<longleftrightarrow> clk 0 \<le> T \<and> clk 4 \<le> T"
| "pay_in_time T _ \<longleftrightarrow> True"

lemma CreatePayment_cases:
  obtains "snd (CreatePayment drv clk u h b db) = db"
  | v a amt cur gw key where "snd (CreatePayment drv clk u h b db) = snd (CreateCheckoutSession drv clk v a amt cur gw key db)"
proof (cases b)
  case (Inr req)
  let ?key = "resolveIdempotencyKey h (cp_IdempotencyKey req)" and ?cur = "ToUpper (if cp_Currency req = '''' then ''USD'' else cp_Currency req)"
  show thesis
  proof (cases "?key = '''' \<or> length ?key < 8 \<or> length ?key > 255 \<or> u = None")
    case True
    then have "snd (CreatePayment drv clk u h b db) = db" using Inr by (auto simp: CreatePayment_def Let_def)
    then show thesis by (rule that(1))
  next
    case False
    then obtain v where "u = Some v" by auto
    then have "snd (CreatePayment drv clk u h b db) =
        snd (CreateCheckoutSession drv clk v (cp_AssetID req) (cp_AmountFiat req) ?cur (cp_Gateway req) ?key db)"
      using False Inr by (auto simp: CreatePayment_def Let_def split: sum.split prod.split)
    then show thesis by (rule that(2))
  qed
qed (use that(1) in \<open>simp add: CreatePayment_def\<close>)

lemma pay_handle_keeps:
  assumes drv: "pay_drv_ok drv" and inv: "pay_inv db"
  shows "pay_inv (snd (pay_handle drv r db))" "pay_in_time T r \<Longrightarrow> pay_keeps T db (snd (pay_handle drv r db))"
proof -
  have "pay_inv (snd (pay_handle drv r db)) \<and> (pay_in_time T r \<longrightarrow> pay_keeps T db (snd (pay_handle drv r db)))"
  proof (cases r)
    case (ReqPay clk u h b)
    show ?thesis
    proof (cases rule: CreatePayment_cases[of drv clk u h b db])
      case 1
      then show ?thesis using ReqPay inv pay_keeps_refl by simp
    next
      case (2 v a amt cur gw key)
      then show ?thesis using ReqPay CreateCheckoutSession_inv[OF drv inv prod.collapse[symmetric]] by simp
    qed
  next
    case (ReqHook raw b ps)
    have "snd (Webhook drv raw b ps db) = db \<or> (\<exists>gid st why. snd (Webhook drv raw b ps db) = snd (HandleWebhook drv gid raw st why db))"
      by (auto simp: Webhook_def Let_def snd_if_sum)
    then show ?thesis using ReqHook inv pay_keeps_refl HandleWebhook_inv[OF drv inv prod.collapse[symmetric]] by auto
  next
    case (ReqReconcile b)
    have "t_payments (snd (ReconcilePayments drv b db)) = t_payments db"
      by (auto simp: ReconcilePayments_def Reconcile_payments snd_if_sum split: sum.split option.split)
    then show ?thesis using ReqReconcile inv by (auto simp: pay_inv_def pay_keeps_def)
  qed (use inv pay_keeps_refl in auto)
  then show "pay_inv (snd (pay_handle drv r db))" "pay_in_time T r \<Longrightarrow> pay_keeps T db (snd (pay_handle drv r db))" by blast+
qed

interpretation pays: service "pay_handle drv" "\<lambda>db. pay_drv_ok drv \<and> pay_inv db" "\<lambda>r _. pay_in_time T r" for drv T
  by unfold_locales (use pay_handle_keeps in blast)

lemma pays_run_keeps:
  assumes "pay_drv_ok drv" "pay_inv db" "pays.all_fit drv T rs db"
  shows "pay_keeps T db (pays.run drv rs db)"
  by (rule pays.run_rel[of "pay_keeps T" drv T]) (use assms pay_keeps_refl pay_keeps_trans pay_handle_keeps in blast)+

subsection \<open>Properties\<close>

definition pay_empty :: pay_db where
  "pay_empty = \<lparr> t_payments = [], t_recs = [] \<rparr>"

lemma pay_empty_inv: "pay_inv pay_empty"
  by (simp add: pay_inv_def pay_empty_def)

text \<open>C4: a retried payment charges once. Once a checkout with a key has returned a payment, then after any sequence of requests
  of any users (whose clocks read no later than that of the retry) a request with that key, made while the payment is at most 24 hours
  old, changes nothing: it returns that same payment as a replay if the parameters are the same and the conflict error if they are not (or an
  error of the database).\<close>

theorem payment_retry_charges_once:
  assumes "pay_drv_ok drv" "pay_inv db0"
    and "CreateCheckoutSession drv clk u a amt cur gw key db0 = (Inr (s, p), db1)" "key \<noteq> ''''"
    and "pays.all_fit drv (clk' 0) rs db1" "db2 = pays.run drv rs db1" "clk' 0 - pm_CreatedAt p \<le> IdempotencyKeyTTL"
    and "CreateCheckoutSession drv clk' u a' amt' cur' gw' key db2 = (res, db3)"
  shows "db3 = db2 \<and>
    (case res of
       Inr (s', p') \<Rightarrow> same_parameters p a' amt' cur' gw' \<and> pay_core p' = pay_core p \<and> gs_IdempotentReplay s' \<and>
         gs_GatewayPaymentID s' = gs_GatewayPaymentID s
     | Inl e \<Rightarrow> e = ErrIdempotencyConflict \<and> \<not> same_parameters p a' amt' cur' gw' \<or> (\<exists>d. e = ErrPayDB d))"
proof -
  note first = CreateCheckoutSession_inv[OF assms(1-3)]
  have p: "p \<in> set (t_payments db1)" "pay_key p = (u, key)" "gs_GatewayPaymentID s = pm_GatewayPaymentID p" using first(3) by simp_all
  have inv: "pay_inv db2" using pays.run_inv[of drv db1 "clk' 0" rs] assms(1,5,6) first(1) by simp
  have "pay_keeps (clk' 0) db1 db2" using pays_run_keeps[OF assms(1) first(1) assms(5)] assms(6) by simp
  then obtain q where q: "q \<in> set (t_payments db2)" "pay_core q = pay_core p" "pm_IdempotencyKey q = pm_IdempotencyKey p"
    using p(1) assms(7) unfolding pay_keeps_def by blast
  have qk: "pay_key q = (u, key)" "clk' 0 - pm_CreatedAt q \<le> IdempotencyKeyTTL" "pm_GatewayPaymentID q = pm_GatewayPaymentID p"
    "\<And>a b c d. same_parameters q a b c d = same_parameters p a b c d"
    using q(2,3) p(2) assms(7) by (simp_all add: pay_key_def pay_core_def same_parameters_def)
  obtain f db where f: "findActivePaymentByIdempotencyKey drv (clk' 0) (clk' 1) u key db2 = (f, db)" by fastforce
  have uniq: "x = q" if "x \<in> set (t_payments db2)" "pay_key x = (u, key)" for x
    by (rule distinct_key_unique[OF pay_invD(2)[OF inv] that(1) q(1)]) (simp add: that(2) qk(1))
  show ?thesis using assms(1) f
  proof (cases rule: find_active_cases)
    case (found x)
    then have "x = q" using uniq by blast
    then show ?thesis using assms(4,8) f found(1,2) q(2) qk(3,4) p(3)
      by (auto simp: CreateCheckoutSession_def replay_session_def split: if_splits)
  next
    case (released x)
    then show ?thesis using uniq[of x] qk(2) by simp
  next
    case missing
    then show ?thesis using q(1) qk(1) by blast
  qed (use assms(4,8) f in \<open>auto simp: CreateCheckoutSession_def\<close>)
qed

definition demo_pays :: "pay_req list" where
  "demo_pays =
     [ReqPay (\<lambda>_. 5000000) (Some 9) (\<lambda>h. ''  another-key'') (Inr \<lparr> cp_AssetID = 7, cp_AmountFiat = 500, cp_Currency = '''',
        cp_Gateway = ''paypal'', cp_IdempotencyKey = '''' \<rparr>),
      ReqHook ''{}'' (Some \<lparr> wb_GatewayPaymentID = ''pi_stripe_1_7_1'', wb_Status = ''completed'', wb_FailureReason = '''' \<rparr>) (\<lambda>_. None)]"

definition demo_checkout :: "int \<Rightarrow> instant \<Rightarrow> pay_db \<Rightarrow> (pay_error + GatewayCheckoutSession \<times> Payment) \<times> pay_db" where
  "demo_checkout amt t = CreateCheckoutSession mem_pay (\<lambda>_. t) 1 7 amt ''USD'' GatewayStripe ''idem-key-1''"

theorem payment_retry_charges_once_witness:
  "let db1 = snd (demo_checkout 15000 1000000 pay_empty); db2 = pays.run mem_pay demo_pays db1
   in length (t_payments db2) = 2 \<and> snd (demo_checkout 15000 6000000 db2) = db2 \<and>
      fst (demo_checkout 15001 6000000 db2) = Inl ErrIdempotencyConflict"
proof -
  define x where "x = demo_checkout 15000 1000000 pay_empty"
  define db2 where "db2 = pays.run mem_pay demo_pays (snd x)"
  have c: "map_sum (\<lambda>_. ()) (\<lambda>(s, p). pm_CreatedAt p) (fst x) = Inr 1000000" unfolding x_def by code_simp
  then obtain s p where sp: "fst x = Inr (s, p)" "pm_CreatedAt p = 1000000" by (cases "fst x") auto
  have x: "CreateCheckoutSession mem_pay (\<lambda>_. 1000000) 1 7 15000 ''USD'' GatewayStripe ''idem-key-1'' pay_empty = (Inr (s, p), snd x)"
    using sp(1) by (metis demo_checkout_def prod.collapse x_def)
  have fit: "pays.all_fit mem_pay 6000000 demo_pays (snd x)" by (simp add: demo_pays_def)
  have age: "(6000000 :: int) - pm_CreatedAt p \<le> IdempotencyKeyTTL" using sp(2) by (simp add: IdempotencyKeyTTL_def)
  note retry = payment_retry_charges_once[OF mem_pay_ok pay_empty_inv x _ fit db2_def age, OF _ prod.collapse[symmetric]]
  have "snd (demo_checkout 15000 6000000 db2) = db2" using retry by (simp add: demo_checkout_def)
  moreover have "length (t_payments db2) = 2" "fst (demo_checkout 15001 6000000 db2) = Inl ErrIdempotencyConflict"
    unfolding db2_def x_def demo_pays_def pays.run.simps by code_simp+
  ultimately show ?thesis by (simp add: db2_def x_def Let_def)
qed

text \<open>The webhook endpoint is not authenticated, does not check the status and lets a final status be overwritten: with the
  (predictable) gateway ID of a pending payment anyone marks it completed, refunded or anything else.\<close>

lemma webhook_sets_any_status:
  "let hook = (\<lambda>st. ReqHook ''{}'' (Some \<lparr> wb_GatewayPaymentID = ''pi_stripe_1_7_1'', wb_Status = st, wb_FailureReason = '''' \<rparr>) (\<lambda>_. None));
       db = snd (demo_checkout 15000 1000000 pay_empty)
   in map pm_Status (t_payments db) = [''pending''] \<and>
      map pm_Status (t_payments (pays.run mem_pay [hook ''completed''] db)) = [''completed''] \<and>
      map pm_Status (t_payments (pays.run mem_pay [hook ''refunded'', hook ''pending'', hook ''paid''] db)) = [''paid'']"
  unfolding Let_def pays.run.simps by code_simp

text \<open>A request whose insert fails because a concurrent one has just stored the key gets that payment as a replay without the
  comparison of the parameters.\<close>

lemma race_skips_conflict_check:
  "let db = snd (demo_checkout 15000 1000000 pay_empty)
   in case fst (open_checkout mem_pay (\<lambda>_. 1000000) 1 7 99900 ''USD'' GatewayPayPal ''idem-key-1'' db) of
        Inl _ \<Rightarrow> False
      | Inr (s, p) \<Rightarrow> gs_IdempotentReplay s \<and> pm_AmountFiat p = 15000 \<and> pm_Gateway p = GatewayStripe"
  by code_simp

text \<open>The window of a reconciliation ends one second before midnight: a payment of the last second of the day is in
  neither this day nor the next.\<close>

lemma last_second_not_reconciled:
  assumes "pm_Gateway p = gw" "pm_Status p = PaymentStatusCompleted" "pm_CreatedAt p = day + 24 * Hour - 1"
  shows "\<not> settled_in gw day (day + (24 * Hour - Second)) p \<and>
    \<not> settled_in gw (day + 24 * Hour) (day + 24 * Hour + (24 * Hour - Second)) p"
  using assms by (simp add: settled_in_def)

end
