(* ===== verification/Dispute.thy ===== *)
theory Dispute
  imports Pagination
begin

section \<open>Disputes and their escrow (handlers/dispute.go)\<close>

text \<open>
  A dispute over a confirmed transaction, the escrow row filed with it, and its resolution, on the tables of
  \<open>models/dispute.go\<close>. A request is what the binding step leaves of it (\<open>Inl\<close> is a binding error); the resolution of a
  bound request is one of the three of the \<open>oneof\<close> rule. Of a transaction the code reads three columns beside the key.
  \<open>c.Request.URL.Path\<close> of a listing is \<open>basePath\<close>.
\<close>

datatype DisputeStatus = DisputeStatusOpen | DisputeStatusUnderReview | DisputeStatusResolved | DisputeStatusRejected

datatype DisputeResolution = ResolutionBuyerFavor | ResolutionSellerFavor | ResolutionSplit

record dtransaction =
  dt_ID :: nat
  dt_AssetID :: nat
  dt_Amount :: int
  dt_Status :: string

record Dispute =
  di_ID :: nat
  di_TransactionID :: nat
  di_FiledByAddress :: string
  di_RespondentAddr :: string
  di_Reason :: string
  di_Evidence :: string
  di_Status :: DisputeStatus
  di_Resolution :: "DisputeResolution option"
  di_AdminNotes :: string
  di_EscrowAmount :: int
  di_EscrowReleased :: bool
  di_ResolvedAt :: "instant option"

record DisputeEscrow =
  de_ID :: nat
  de_DisputeID :: nat
  de_AssetID :: nat
  de_Amount :: int
  de_HeldFrom :: instant
  de_ReleasedAt :: "instant option"
  de_ReleasedTo :: string

record fileDisputeRequest =
  fd_TransactionID :: nat
  fd_FiledByAddress :: string
  fd_RespondentAddr :: string
  fd_Reason :: string
  fd_Evidence :: string

record resolveDisputeRequest =
  rd_Resolution :: DisputeResolution
  rd_AdminNotes :: string

record dispute_db =
  t_txs :: "dtransaction list"
  t_disputes :: "Dispute list"
  t_escrows :: "DisputeEscrow list"

record dispute_drv =
  d_txs :: "dtransaction gorm"
  d_disputes :: "Dispute gorm"
  d_escrows :: "DisputeEscrow gorm"
  d_dtx :: tx_outcome

definition closed :: "DisputeStatus \<Rightarrow> bool" where
  "closed s \<longleftrightarrow> s = DisputeStatusResolved \<or> s = DisputeStatusRejected"

subsection \<open>Filing\<close>

definition new_dispute :: "fileDisputeRequest \<Rightarrow> dtransaction \<Rightarrow> Dispute" where
  "new_dispute req tx =
     \<lparr> di_ID = 0, di_TransactionID = fd_TransactionID req, di_FiledByAddress = fd_FiledByAddress req,
       di_RespondentAddr = fd_RespondentAddr req, di_Reason = fd_Reason req, di_Evidence = fd_Evidence req,
       di_Status = DisputeStatusOpen, di_Resolution = None, di_AdminNotes = '''', di_EscrowAmount = dt_Amount tx,
       di_EscrowReleased = False, di_ResolvedAt = None \<rparr>"

definition file_tx :: "dispute_drv \<Rightarrow> instant \<Rightarrow> fileDisputeRequest \<Rightarrow> dtransaction \<Rightarrow> dispute_db \<Rightarrow>
    dberr + Dispute \<times> dispute_db" where
  "file_tx drv now req tx db =
     and_then (g_create (d_disputes drv) (new_dispute req tx) (t_disputes db)) (\<lambda>(d, ds).
     and_then (g_create (d_escrows drv) \<lparr> de_ID = 0, de_DisputeID = di_ID d, de_AssetID = dt_AssetID tx, de_Amount = dt_Amount tx,
                  de_HeldFrom = now, de_ReleasedAt = None, de_ReleasedTo = '''' \<rparr> (t_escrows db)) (\<lambda>(_, es).
     Inr (d, db\<lparr> t_disputes := ds, t_escrows := es \<rparr>)))"

definition FileDispute :: "dispute_drv \<Rightarrow> instant \<Rightarrow> string + fileDisputeRequest \<Rightarrow> dispute_db \<Rightarrow> Dispute response \<times> dispute_db" where
  "FileDispute drv now body db =
     (case body of
        Inl e \<Rightarrow> (Fail StatusBadRequest e, db)
      | Inr req \<Rightarrow>
          (case g_first (d_txs drv) (\<lambda>t. dt_ID t = fd_TransactionID req) (t_txs db) of
             Inl _ \<Rightarrow> (Fail StatusNotFound ''Transaction not found'', db)
           | Inr tx \<Rightarrow>
               if dt_Status tx \<noteq> ''confirmed'' then (Fail StatusBadRequest ''Can only dispute confirmed transactions'', db)
               else
                 (case g_first (d_disputes drv) (\<lambda>d. di_TransactionID d = fd_TransactionID req \<and> \<not> closed (di_Status d)) (t_disputes db) of
                    Inr _ \<Rightarrow> (Fail StatusConflict ''An active dispute already exists for this transaction'', db)
                  | Inl _ \<Rightarrow>
                      (case transaction (d_dtx drv) (file_tx drv now req tx) db of
                         (Inl _, db') \<Rightarrow> (Fail StatusInternalServerError ''Failed to create dispute'', db')
                       | (Inr d, db') \<Rightarrow> (Reply StatusCreated d, db')))))"

subsection \<open>Review and resolution\<close>

definition AdminReviewDispute :: "dispute_drv \<Rightarrow> nat option \<Rightarrow> dispute_db \<Rightarrow> Dispute response \<times> dispute_db" where
  "AdminReviewDispute drv uri db =
     (case uri of
        None \<Rightarrow> (Fail StatusBadRequest ''Invalid dispute ID'', db)
      | Some i \<Rightarrow>
          (case g_first (d_disputes drv) (\<lambda>d. di_ID d = i) (t_disputes db) of
             Inl _ \<Rightarrow> (Fail StatusNotFound ''Dispute not found'', db)
           | Inr dispute \<Rightarrow>
               if di_Status dispute \<noteq> DisputeStatusOpen then (Fail StatusBadRequest ''Dispute is not in open state'', db)
               else let dispute' = dispute\<lparr> di_Status := DisputeStatusUnderReview \<rparr>
                    in case g_save (d_disputes drv) dispute' (t_disputes db) of
                         Inl _ \<Rightarrow> (Fail StatusInternalServerError ''Failed to update dispute'', db)
                       | Inr ds \<Rightarrow> (Reply StatusOK dispute', db\<lparr> t_disputes := ds \<rparr>)))"

definition release_to :: "DisputeResolution \<Rightarrow> Dispute \<Rightarrow> string" where
  "release_to resolution dispute =
     (case resolution of
        ResolutionBuyerFavor \<Rightarrow> di_FiledByAddress dispute
      | ResolutionSellerFavor \<Rightarrow> di_RespondentAddr dispute
      | ResolutionSplit \<Rightarrow> ''split'')"

definition resolved :: "instant \<Rightarrow> resolveDisputeRequest \<Rightarrow> Dispute \<Rightarrow> Dispute" where
  "resolved now req dispute = dispute\<lparr> di_Status := DisputeStatusResolved, di_Resolution := Some (rd_Resolution req),
     di_AdminNotes := rd_AdminNotes req, di_EscrowReleased := True, di_ResolvedAt := Some now \<rparr>"

definition resolve_tx :: "dispute_drv \<Rightarrow> instant \<Rightarrow> resolveDisputeRequest \<Rightarrow> Dispute \<Rightarrow> dispute_db \<Rightarrow> dberr + Dispute \<times> dispute_db" where
  "resolve_tx drv now req dispute db =
     and_then (g_save (d_disputes drv) (resolved now req dispute) (t_disputes db)) (\<lambda>ds.
     and_then (g_update (d_escrows drv) (\<lambda>e. de_DisputeID e = di_ID dispute)
                 (\<lambda>e. e\<lparr> de_ReleasedAt := Some now, de_ReleasedTo := release_to (rd_Resolution req) dispute \<rparr>) (t_escrows db)) (\<lambda>(_, es).
     Inr (resolved now req dispute, db\<lparr> t_disputes := ds, t_escrows := es \<rparr>)))"

definition AdminResolveDispute :: "dispute_drv \<Rightarrow> instant \<Rightarrow> nat option \<Rightarrow> string + resolveDisputeRequest \<Rightarrow> dispute_db \<Rightarrow>
    (Dispute \<times> string) response \<times> dispute_db" where
  "AdminResolveDispute drv now uri body db =
     (case uri of
        None \<Rightarrow> (Fail StatusBadRequest ''Invalid dispute ID'', db)
      | Some i \<Rightarrow>
          (case body of
             Inl e \<Rightarrow> (Fail StatusBadRequest e, db)
           | Inr req \<Rightarrow>
               (case g_first (d_disputes drv) (\<lambda>d. di_ID d = i) (t_disputes db) of
                  Inl _ \<Rightarrow> (Fail StatusNotFound ''Dispute not found'', db)
                | Inr dispute \<Rightarrow>
                    if closed (di_Status dispute) then (Fail StatusBadRequest ''Dispute is already closed'', db)
                    else
                      (case transaction (d_dtx drv) (resolve_tx drv now req dispute) db of
                         (Inl _, db') \<Rightarrow> (Fail StatusInternalServerError ''Failed to resolve dispute'', db')
                       | (Inr d, db') \<Rightarrow> (Reply StatusOK (d, release_to (rd_Resolution req) dispute), db')))))"

subsection \<open>Reading\<close>

text \<open>A failed read of the escrow leaves the zero row (\<open>None\<close>) in the reply.\<close>

definition GetDispute :: "dispute_drv \<Rightarrow> nat option \<Rightarrow> dispute_db \<Rightarrow> (Dispute \<times> DisputeEscrow option) response" where
  "GetDispute drv uri db =
     (case uri of
        None \<Rightarrow> Fail StatusBadRequest ''Invalid dispute ID''
      | Some i \<Rightarrow>
          (case g_first (d_disputes drv) (\<lambda>d. di_ID d = i) (t_disputes db) of
             Inl _ \<Rightarrow> Fail StatusNotFound ''Dispute not found''
           | Inr dispute \<Rightarrow>
               Reply StatusOK (dispute, case g_first (d_escrows drv) (\<lambda>e. de_DisputeID e = di_ID dispute) (t_escrows db) of
                                          Inl _ \<Rightarrow> None | Inr e \<Rightarrow> Some e)))"

definition status_text :: "DisputeStatus \<Rightarrow> string" where
  "status_text s =
     (case s of DisputeStatusOpen \<Rightarrow> ''open'' | DisputeStatusUnderReview \<Rightarrow> ''under_review''
      | DisputeStatusResolved \<Rightarrow> ''resolved'' | DisputeStatusRejected \<Rightarrow> ''rejected'')"

definition ListDisputes :: "dispute_drv \<Rightarrow> string \<Rightarrow> string \<Rightarrow> string \<Rightarrow> int \<Rightarrow> int \<Rightarrow> dispute_db \<Rightarrow>
    (Dispute Pagination \<times> string) response" where
  "ListDisputes drv basePath status address page0 limit0 db =
     (let page = (if page0 < 1 then 1 else page0);
          limit = (if limit0 < 1 \<or> limit0 > 100 then 10 else limit0);
          q = Where (\<lambda>d. (status = '''' \<or> status_text (di_Status d) = status) \<and>
                         (address = '''' \<or> di_FiledByAddress d = address \<or> di_RespondentAddr d = address))
      in case Paginate (d_disputes drv) basePath q page limit (t_disputes db) of
           Inl _ \<Rightarrow> Fail StatusInternalServerError ''Failed to fetch disputes''
         | Inr r \<Rightarrow> Reply StatusOK r)"

text \<open>Resolved dates in descending order; a null date sorts first (PostgreSQL).\<close>

definition resolved_desc :: "Dispute \<Rightarrow> Dispute \<Rightarrow> bool" where
  "resolved_desc x y =
     (case (di_ResolvedAt x, di_ResolvedAt y) of
        (None, _) \<Rightarrow> True | (Some _, None) \<Rightarrow> False | (Some a, Some b) \<Rightarrow> a \<ge> b)"

definition GetDisputeHistory :: "dispute_drv \<Rightarrow> string \<Rightarrow> dispute_db \<Rightarrow> Dispute list response" where
  "GetDisputeHistory drv address db =
     (if address = '''' then Fail StatusBadRequest ''address query parameter required''
      else case g_find (d_disputes drv) ((Where (\<lambda>d. (di_FiledByAddress d = address \<or> di_RespondentAddr d = address) \<and>
                    closed (di_Status d)))\<lparr> q_order := resolved_desc \<rparr>) (t_disputes db) of
             Inl _ \<Rightarrow> Fail StatusInternalServerError ''Failed to fetch dispute history''
           | Inr ds \<Rightarrow> Reply StatusOK ds)"

subsection \<open>The driver and the invariant\<close>

definition dispute_drv_ok :: "dispute_drv \<Rightarrow> bool" where
  "dispute_drv_ok drv \<longleftrightarrow> gorm_ok dt_ID (\<lambda>k. dt_ID_update (\<lambda>_. k)) (d_txs drv) \<and>
     gorm_ok di_ID (\<lambda>k. di_ID_update (\<lambda>_. k)) (d_disputes drv) \<and> gorm_ok de_ID (\<lambda>k. de_ID_update (\<lambda>_. k)) (d_escrows drv)"

definition mem_dispute :: dispute_drv where
  "mem_dispute = \<lparr> d_txs = mem_gorm dt_ID (\<lambda>k. dt_ID_update (\<lambda>_. k)), d_disputes = mem_gorm di_ID (\<lambda>k. di_ID_update (\<lambda>_. k)),
     d_escrows = unique_gorm de_DisputeID (mem_gorm de_ID (\<lambda>k. de_ID_update (\<lambda>_. k))), d_dtx = tx_fine \<rparr>"

lemma mem_dispute_ok: "dispute_drv_ok mem_dispute"
  by (simp add: dispute_drv_ok_def mem_dispute_def mem_gorm_ok unique_gorm_ok)

lemma dispute_drvD:
  assumes "dispute_drv_ok drv"
  shows "gorm_ok dt_ID (\<lambda>k. dt_ID_update (\<lambda>_. k)) (d_txs drv)" "gorm_ok di_ID (\<lambda>k. di_ID_update (\<lambda>_. k)) (d_disputes drv)"
    "gorm_ok de_ID (\<lambda>k. de_ID_update (\<lambda>_. k)) (d_escrows drv)"
  using assms by (simp_all add: dispute_drv_ok_def)

text \<open>An escrow row holds the amount of its dispute, and is released when the dispute is resolved, to whom the
  resolution says.\<close>

definition escrow_ok :: "Dispute \<Rightarrow> DisputeEscrow \<Rightarrow> bool" where
  "escrow_ok d e \<longleftrightarrow> de_DisputeID e = di_ID d \<and> de_Amount e = di_EscrowAmount d \<and> de_ReleasedAt e = di_ResolvedAt d \<and>
     (case di_Resolution d of
        None \<Rightarrow> \<not> closed (di_Status d) \<and> \<not> di_EscrowReleased d \<and> di_ResolvedAt d = None \<and> de_ReleasedTo e = ''''
      | Some r \<Rightarrow> di_Status d = DisputeStatusResolved \<and> di_EscrowReleased d \<and> di_ResolvedAt d \<noteq> None \<and> de_ReleasedTo e = release_to r d)"

definition dispute_inv :: "dispute_db \<Rightarrow> bool" where
  "dispute_inv db \<longleftrightarrow> distinct (map di_ID (t_disputes db)) \<and> distinct (map de_DisputeID (t_escrows db)) \<and>
     (\<forall>e\<in>set (t_escrows db). de_DisputeID e \<in> di_ID ` set (t_disputes db)) \<and>
     (\<forall>d\<in>set (t_disputes db). \<exists>e\<in>set (t_escrows db). escrow_ok d e)"

lemma dispute_invD:
  assumes "dispute_inv db"
  shows "distinct (map di_ID (t_disputes db))" "distinct (map de_DisputeID (t_escrows db))"
    "\<And>e. e \<in> set (t_escrows db) \<Longrightarrow> de_DisputeID e \<in> di_ID ` set (t_disputes db)"
    "\<And>d. d \<in> set (t_disputes db) \<Longrightarrow> \<exists>e\<in>set (t_escrows db). escrow_ok d e"
  using assms unfolding dispute_inv_def by blast+

text \<open>What a step may do to a dispute: it keeps what was filed, its status only moves forward, and a closed dispute is final.\<close>

definition filed :: "Dispute \<Rightarrow> nat \<times> nat \<times> string \<times> string \<times> string \<times> string \<times> int" where
  "filed d = (di_ID d, di_TransactionID d, di_FiledByAddress d, di_RespondentAddr d, di_Reason d, di_Evidence d, di_EscrowAmount d)"

definition status_rank :: "DisputeStatus \<Rightarrow> nat" where
  "status_rank s = (case s of DisputeStatusOpen \<Rightarrow> 0 | DisputeStatusUnderReview \<Rightarrow> 1 | DisputeStatusResolved \<Rightarrow> 2 | DisputeStatusRejected \<Rightarrow> 2)"

definition advances :: "Dispute \<Rightarrow> Dispute \<Rightarrow> bool" where
  "advances d d' \<longleftrightarrow> filed d' = filed d \<and> status_rank (di_Status d) \<le> status_rank (di_Status d') \<and> (closed (di_Status d) \<longrightarrow> d' = d)"

definition dispute_moves :: "dispute_db \<Rightarrow> dispute_db \<Rightarrow> bool" where
  "dispute_moves db db' \<longleftrightarrow> (\<forall>d\<in>set (t_disputes db). \<exists>d'\<in>set (t_disputes db'). advances d d')"

lemma dispute_moves_refl: "dispute_moves db db"
  by (auto simp: dispute_moves_def advances_def)

lemma advances_trans: "advances a b \<Longrightarrow> advances b c \<Longrightarrow> advances a c"
  by (auto simp: advances_def)

lemma dispute_moves_trans: "dispute_moves a b \<Longrightarrow> dispute_moves b c \<Longrightarrow> dispute_moves a c"
  unfolding dispute_moves_def by (meson advances_trans)

lemma put_dispute:
  assumes dist: "distinct (map di_ID (t_disputes db))" and d: "d \<in> set (t_disputes db)" and adv: "advances d d'"
    and db': "t_disputes db' = put_row di_ID d' (t_disputes db)"
  shows "dispute_moves db db'" "map di_ID (t_disputes db') = map di_ID (t_disputes db)"
proof -
  have id: "di_ID d' = di_ID d" using adv by (simp add: advances_def filed_def)
  have "\<exists>y\<in>set (t_disputes db'). advances x y" if x: "x \<in> set (t_disputes db)" for x
  proof (cases "di_ID x = di_ID d'")
    case True
    then have "x = d" using distinct_key_unique[OF dist x d] id by simp
    then show ?thesis using adv put_row_mem[of d _ di_ID d', OF d] id by (auto simp: db')
  next
    case False
    then show ?thesis using put_row_other[of x _ di_ID d', OF x] by (auto simp: db' advances_def)
  qed
  then show "dispute_moves db db'" by (simp add: dispute_moves_def)
  show "map di_ID (t_disputes db') = map di_ID (t_disputes db)" by (simp add: db')
qed

subsection \<open>Every operation keeps it\<close>

definition dispute_step :: "dispute_db \<Rightarrow> dispute_db \<Rightarrow> bool" where
  "dispute_step db db' \<longleftrightarrow> dispute_inv db' \<and> dispute_moves db db'"

lemma step_refl: "dispute_inv db \<Longrightarrow> dispute_step db db"
  by (simp add: dispute_step_def dispute_moves_refl)

lemma file_tx_step:
  assumes drv: "dispute_drv_ok drv" and inv: "dispute_inv db" and tx: "file_tx drv now req t db = Inr (d, db')"
  shows "dispute_step db db'"
proof -
  note i = dispute_invD[OF inv]
  obtain ds e es where cd: "g_create (d_disputes drv) (new_dispute req t) (t_disputes db) = Inr (d, ds)"
    and ce: "g_create (d_escrows drv) \<lparr> de_ID = 0, de_DisputeID = di_ID d, de_AssetID = dt_AssetID t, de_Amount = dt_Amount t,
        de_HeldFrom = now, de_ReleasedAt = None, de_ReleasedTo = '''' \<rparr> (t_escrows db) = Inr (e, es)"
    and db': "db' = db\<lparr> t_disputes := ds, t_escrows := es \<rparr>"
    using tx by (auto simp: file_tx_def and_then_def split: sum.splits prod.splits)
  obtain k where k: "k \<notin> di_ID ` set (t_disputes db)" "d = (new_dispute req t)\<lparr> di_ID := k \<rparr>" "ds = t_disputes db @ [d]"
    by (rule gorm_createD[OF dispute_drvD(2)[OF drv] cd])
  obtain j where j: "e = \<lparr> de_ID = j, de_DisputeID = di_ID d, de_AssetID = dt_AssetID t, de_Amount = dt_Amount t,
      de_HeldFrom = now, de_ReleasedAt = None, de_ReleasedTo = '''' \<rparr>" "es = t_escrows db @ [e]"
    by (rule gorm_createD[OF dispute_drvD(3)[OF drv] ce]) simp
  have ok: "escrow_ok d e" by (simp add: escrow_ok_def j(1) k(2) new_dispute_def closed_def)
  have "k \<notin> de_DisputeID ` set (t_escrows db)" using i(3) k(1) by auto
  then have "distinct (map de_DisputeID es)" "distinct (map di_ID ds)" using i(1,2) j k by simp_all
  moreover have "\<exists>e\<in>set es. escrow_ok x e" if "x \<in> set ds" for x using that k(3) j(2) ok i(4) by auto
  moreover have "de_DisputeID x \<in> di_ID ` set ds" if "x \<in> set es" for x using that i(3) j k(3) by auto
  ultimately have "dispute_inv db'" by (simp add: dispute_inv_def db')
  moreover have "dispute_moves db db'" by (auto simp: dispute_moves_def db' k(3) advances_def)
  ultimately show ?thesis by (simp add: dispute_step_def)
qed

lemma transaction_step:
  assumes "dispute_inv db" "\<And>x db'. body db = Inr (x, db') \<Longrightarrow> dispute_step db db'"
  shows "dispute_step db (snd (transaction tx body db))"
  by (rule transaction_keeps[of "dispute_step db"]) (use assms step_refl in auto)

lemma FileDispute_step:
  assumes "dispute_drv_ok drv" "dispute_inv db"
  shows "dispute_step db (snd (FileDispute drv now body db))"
  using assms step_refl transaction_step[OF assms(2) file_tx_step[OF assms]]
  by (auto simp: FileDispute_def snd_if_sum split: sum.split)

lemma AdminReviewDispute_step:
  assumes drv: "dispute_drv_ok drv" and inv: "dispute_inv db"
  shows "dispute_step db (snd (AdminReviewDispute drv uri db))"
proof (cases "snd (AdminReviewDispute drv uri db) = db")
  case True
  then show ?thesis using step_refl[OF inv] by simp
next
  case False
  note i = dispute_invD[OF inv]
  obtain j d ds where g: "g_first (d_disputes drv) (\<lambda>d. di_ID d = j) (t_disputes db) = Inr d" and o: "di_Status d = DisputeStatusOpen"
    and sv: "g_save (d_disputes drv) (d\<lparr> di_Status := DisputeStatusUnderReview \<rparr>) (t_disputes db) = Inr ds"
    and db': "snd (AdminReviewDispute drv uri db) = db\<lparr> t_disputes := ds \<rparr>"
    using False by (auto simp: AdminReviewDispute_def Let_def split: option.splits sum.splits if_splits)
  let ?d = "d\<lparr> di_Status := DisputeStatusUnderReview \<rparr>" and ?db = "db\<lparr> t_disputes := ds \<rparr>"
  have d: "d \<in> set (t_disputes db)" by (rule gorm_firstD(1)[OF dispute_drvD(2)[OF drv] g])
  have ds: "ds = put_row di_ID ?d (t_disputes db)" by (rule gorm_save[OF dispute_drvD(2)[OF drv] sv d]) simp
  have adv: "advances d ?d" using o by (simp add: advances_def filed_def status_rank_def closed_def)
  have put: "dispute_moves db ?db" "map di_ID ds = map di_ID (t_disputes db)"
    using put_dispute[OF i(1) d adv, of ?db] ds by simp_all
  have "\<exists>e\<in>set (t_escrows db). escrow_ok x e" if x: "x \<in> set ds" for x
  proof -
    have "escrow_ok d e \<Longrightarrow> escrow_ok ?d e" for e using o by (auto simp: escrow_ok_def closed_def release_to_def split: option.splits)
    then show ?thesis using in_set_put_row[of x di_ID ?d] x i(4)[OF d] i(4)[of x] unfolding ds by blast
  qed
  moreover have "de_DisputeID e \<in> di_ID ` set ds" if "e \<in> set (t_escrows db)" for e using i(3)[OF that] put(2) by (metis list.set_map)
  ultimately have "dispute_inv ?db" using i(1,2) put(2) by (simp add: dispute_inv_def)
  then show ?thesis using put(1) db' by (simp add: dispute_step_def)
qed

lemma release_to_resolved: "release_to r (resolved now req d) = release_to r d"
  by (cases r) (simp_all add: release_to_def resolved_def)

lemma resolve_tx_step:
  assumes drv: "dispute_drv_ok drv" and inv: "dispute_inv db" and d: "d \<in> set (t_disputes db)" and o: "\<not> closed (di_Status d)"
    and tx: "resolve_tx drv now req d db = Inr (r, db')"
  shows "dispute_step db db'"
proof -
  note i = dispute_invD[OF inv]
  let ?d = "resolved now req d" and ?f = "\<lambda>e. e\<lparr> de_ReleasedAt := Some now, de_ReleasedTo := release_to (rd_Resolution req) d \<rparr>"
  obtain ds n es where sv: "g_save (d_disputes drv) ?d (t_disputes db) = Inr ds"
    and up: "g_update (d_escrows drv) (\<lambda>e. de_DisputeID e = di_ID d) ?f (t_escrows db) = Inr (n, es)"
    and db': "db' = db\<lparr> t_disputes := ds, t_escrows := es \<rparr>"
    using tx by (auto simp: resolve_tx_def and_then_def split: sum.splits prod.splits)
  have id: "di_ID ?d = di_ID d" "filed ?d = filed d" by (simp_all add: resolved_def filed_def)
  have ds: "ds = put_row di_ID ?d (t_disputes db)" by (rule gorm_save[OF dispute_drvD(2)[OF drv] sv d]) (simp add: id)
  have es: "es = map (\<lambda>e. if de_DisputeID e = di_ID d then ?f e else e) (t_escrows db)"
    by (rule gorm_updateD(2)[OF dispute_drvD(3)[OF drv] up])
  have adv: "advances d ?d" using o id by (simp add: advances_def resolved_def status_rank_def split: DisputeStatus.split)
  have put: "dispute_moves db db'" "map di_ID ds = map di_ID (t_disputes db)"
    using put_dispute[OF i(1) d adv, of db'] ds db' by simp_all
  have keys: "map de_DisputeID es = map de_DisputeID (t_escrows db)" by (simp add: es)
  have in_es: "(if de_DisputeID e = di_ID d then ?f e else e) \<in> set es" if "e \<in> set (t_escrows db)" for e
    unfolding es using that by (simp only: set_map) (rule imageI)
  have new: "?f e \<in> set es \<and> escrow_ok ?d (?f e)" if e: "e \<in> set (t_escrows db)" "escrow_ok d e" for e
  proof
    show "?f e \<in> set es" using in_es[OF e(1)] e(2) by (simp add: escrow_ok_def)
    show "escrow_ok ?d (?f e)" using e(2) by (simp add: escrow_ok_def resolved_def release_to_resolved[unfolded resolved_def])
  qed
  have old: "e \<in> set es" if "e \<in> set (t_escrows db)" "de_DisputeID e \<noteq> di_ID d" for e
    using in_es[OF that(1)] that(2) by simp
  have "\<exists>e\<in>set es. escrow_ok x e" if x: "x \<in> set ds" for x
  proof (cases "x = ?d")
    case True
    then show ?thesis using new i(4)[OF d] by blast
  next
    case False
    then have xin: "x \<in> set (t_disputes db)" "di_ID x \<noteq> di_ID d" using in_set_put_row[of x di_ID ?d] x id unfolding ds by auto
    then obtain e where e: "e \<in> set (t_escrows db)" "escrow_ok x e" using i(4) by blast
    then have "de_DisputeID e \<noteq> di_ID d" using xin(2) by (simp add: escrow_ok_def)
    then show ?thesis using old e by blast
  qed
  moreover have "de_DisputeID e \<in> di_ID ` set ds" if "e \<in> set es" for e
  proof -
    have "de_DisputeID e \<in> de_DisputeID ` set (t_escrows db)" using that keys by (metis image_eqI list.set_map)
    then show ?thesis using i(3) put(2) by (metis imageE list.set_map)
  qed
  ultimately have "dispute_inv db'" using i(1,2) put(2) keys by (simp add: dispute_inv_def db')
  then show ?thesis using put(1) by (simp add: dispute_step_def)
qed

lemma AdminResolveDispute_step:
  assumes drv: "dispute_drv_ok drv" and inv: "dispute_inv db"
  shows "dispute_step db (snd (AdminResolveDispute drv now uri body db))"
proof (cases "snd (AdminResolveDispute drv now uri body db) = db")
  case True
  then show ?thesis using step_refl[OF inv] by simp
next
  case False
  then obtain j req d where g: "g_first (d_disputes drv) (\<lambda>d. di_ID d = j) (t_disputes db) = Inr d" "\<not> closed (di_Status d)"
    "snd (AdminResolveDispute drv now uri body db) = snd (transaction (d_dtx drv) (resolve_tx drv now req d) db)"
    by (auto simp: AdminResolveDispute_def snd_if_sum split: option.splits sum.splits if_splits)
  have "d \<in> set (t_disputes db)" by (rule gorm_firstD(1)[OF dispute_drvD(2)[OF drv] g(1)])
  then show ?thesis using transaction_step[OF inv resolve_tx_step[OF drv inv _ g(2)]] g(3) by simp
qed

subsection \<open>One active dispute per transaction\<close>

text \<open>This rests on the lookup in \<open>FileDispute\<close>, whose error the code takes for "no dispute": the driver must answer it.\<close>

definition lookups_answer :: "dispute_drv \<Rightarrow> bool" where
  "lookups_answer drv \<longleftrightarrow> (\<forall>P rows e. g_first (d_disputes drv) P rows = Inl e \<longrightarrow> e = ErrRecordNotFound)"

lemma mem_lookups_answer: "lookups_answer mem_dispute"
  by (auto simp: lookups_answer_def mem_dispute_def mem_gorm_def split: list.splits)

definition active :: "Dispute list \<Rightarrow> nat list" where
  "active ds = map di_TransactionID (filter (\<lambda>d. \<not> closed (di_Status d)) ds)"

definition one_active :: "dispute_db \<Rightarrow> bool" where
  "one_active db \<longleftrightarrow> distinct (active (t_disputes db))"

text \<open>A replaced row of the same transaction adds no active dispute.\<close>

lemma active_replace:
  assumes "\<And>d. d \<in> set ds \<Longrightarrow> di_TransactionID (f d) = di_TransactionID d \<and> (closed (di_Status d) \<longrightarrow> closed (di_Status (f d)))"
  shows "set (active (map f ds)) \<subseteq> set (active ds) \<and> (distinct (active ds) \<longrightarrow> distinct (active (map f ds)))"
  using assms
proof (induction ds)
  case (Cons d ds)
  have IH: "set (active (map f ds)) \<subseteq> set (active ds)" "distinct (active ds) \<Longrightarrow> distinct (active (map f ds))"
    using Cons by auto
  have d: "di_TransactionID (f d) = di_TransactionID d" "closed (di_Status d) \<Longrightarrow> closed (di_Status (f d))" using Cons.prems by auto
  have "active (x # xs) = (if closed (di_Status x) then active xs else di_TransactionID x # active xs)" for x xs
    by (simp add: active_def)
  then show ?case using IH d by (auto dest: subsetD)
qed (simp add: active_def)

lemma put_dispute_active:
  assumes "distinct (map di_ID ds)" "d \<in> set ds" "advances d d'"
  shows "distinct (active ds) \<Longrightarrow> distinct (active (put_row di_ID d' ds))"
proof -
  have id: "di_ID d' = di_ID d" "di_TransactionID d' = di_TransactionID d" "closed (di_Status d) \<Longrightarrow> d' = d"
    using assms(3) by (simp_all add: advances_def filed_def)
  have "x = d" if "x \<in> set ds" "di_ID x = di_ID d'" for x using distinct_key_unique[OF assms(1) that(1) assms(2)] that(2) id(1) by simp
  then have "set (active (map (\<lambda>x. if di_ID x = di_ID d' then d' else x) ds)) \<subseteq> set (active ds) \<and>
      (distinct (active ds) \<longrightarrow> distinct (active (map (\<lambda>x. if di_ID x = di_ID d' then d' else x) ds)))"
    using id by (intro active_replace) auto
  then show "distinct (active ds) \<Longrightarrow> distinct (active (put_row di_ID d' ds))" by (simp add: put_row_def)
qed

lemma FileDispute_active:
  assumes drv: "dispute_drv_ok drv" "lookups_answer drv" and one: "one_active db"
  shows "one_active (snd (FileDispute drv now body db))"
proof (cases "snd (FileDispute drv now body db) = db")
  case False
  then obtain req t e where g: "g_first (d_disputes drv) (\<lambda>d. di_TransactionID d = fd_TransactionID req \<and> \<not> closed (di_Status d)) (t_disputes db) = Inl e"
    and s: "snd (FileDispute drv now body db) = snd (transaction (d_dtx drv) (file_tx drv now req t) db)"
    by (auto simp: FileDispute_def snd_if_sum split: sum.splits if_splits)
  have e: "e = ErrRecordNotFound" using drv(2) g unfolding lookups_answer_def by blast
  have "one_active db'" if tx: "file_tx drv now req t db = Inr (d, db')" for d db'
  proof -
    obtain ds where cd: "g_create (d_disputes drv) (new_dispute req t) (t_disputes db) = Inr (d, ds)" and db': "t_disputes db' = ds"
      using tx by (auto simp: file_tx_def and_then_def split: sum.splits prod.splits)
    obtain k where k: "d = (new_dispute req t)\<lparr> di_ID := k \<rparr>" "ds = t_disputes db @ [d]"
      by (rule gorm_createD[OF dispute_drvD(2)[OF drv(1)] cd])
    have "fd_TransactionID req \<notin> set (active (t_disputes db))"
      using gorm_first_none[OF dispute_drvD(2)[OF drv(1)] g[unfolded e]] by (auto simp: active_def)
    then show ?thesis using one k db' by (simp add: one_active_def active_def new_dispute_def)
  qed
  then have "one_active (snd (transaction (d_dtx drv) (file_tx drv now req t) db))"
    by (rule transaction_keeps[of one_active, OF one])
  then show ?thesis using s by simp
qed (use one in simp)

lemma AdminReviewDispute_active:
  assumes drv: "dispute_drv_ok drv" and inv: "dispute_inv db" and one: "one_active db"
  shows "one_active (snd (AdminReviewDispute drv uri db))"
proof (cases "snd (AdminReviewDispute drv uri db) = db")
  case False
  obtain j d ds where g: "g_first (d_disputes drv) (\<lambda>d. di_ID d = j) (t_disputes db) = Inr d" and o: "di_Status d = DisputeStatusOpen"
    and sv: "g_save (d_disputes drv) (d\<lparr> di_Status := DisputeStatusUnderReview \<rparr>) (t_disputes db) = Inr ds"
    and db': "snd (AdminReviewDispute drv uri db) = db\<lparr> t_disputes := ds \<rparr>"
    using False by (auto simp: AdminReviewDispute_def Let_def split: option.splits sum.splits if_splits)
  have d: "d \<in> set (t_disputes db)" by (rule gorm_firstD(1)[OF dispute_drvD(2)[OF drv] g])
  have ds: "ds = put_row di_ID (d\<lparr> di_Status := DisputeStatusUnderReview \<rparr>) (t_disputes db)"
    by (rule gorm_save[OF dispute_drvD(2)[OF drv] sv d]) simp
  have "advances d (d\<lparr> di_Status := DisputeStatusUnderReview \<rparr>)" using o by (simp add: advances_def filed_def status_rank_def closed_def)
  then show ?thesis using put_dispute_active[OF dispute_invD(1)[OF inv] d] one by (simp add: db' ds one_active_def)
qed (use one in simp)

lemma AdminResolveDispute_active:
  assumes drv: "dispute_drv_ok drv" and inv: "dispute_inv db" and one: "one_active db"
  shows "one_active (snd (AdminResolveDispute drv now uri body db))"
proof (cases "snd (AdminResolveDispute drv now uri body db) = db")
  case False
  then obtain j req d where g: "g_first (d_disputes drv) (\<lambda>d. di_ID d = j) (t_disputes db) = Inr d" "\<not> closed (di_Status d)"
    "snd (AdminResolveDispute drv now uri body db) = snd (transaction (d_dtx drv) (resolve_tx drv now req d) db)"
    by (auto simp: AdminResolveDispute_def snd_if_sum split: option.splits sum.splits if_splits)
  have d: "d \<in> set (t_disputes db)" by (rule gorm_firstD(1)[OF dispute_drvD(2)[OF drv] g(1)])
  have adv: "advances d (resolved now req d)"
    using g(2) by (simp add: advances_def resolved_def filed_def status_rank_def split: DisputeStatus.split)
  have "one_active db'" if tx: "resolve_tx drv now req d db = Inr (r, db')" for r db'
  proof -
    obtain ds where sv: "g_save (d_disputes drv) (resolved now req d) (t_disputes db) = Inr ds" and db': "t_disputes db' = ds"
      using tx by (auto simp: resolve_tx_def and_then_def split: sum.splits prod.splits)
    have "ds = put_row di_ID (resolved now req d) (t_disputes db)"
      by (rule gorm_save[OF dispute_drvD(2)[OF drv] sv d]) (simp add: resolved_def)
    then show ?thesis using put_dispute_active[OF dispute_invD(1)[OF inv] d adv] one db' by (simp add: one_active_def)
  qed
  then have "one_active (snd (transaction (d_dtx drv) (resolve_tx drv now req d) db))"
    by (rule transaction_keeps[of one_active, OF one])
  then show ?thesis using g(3) by simp
qed (use one in simp)

subsection \<open>The endpoints as a service\<close>

datatype dispute_req =
    ReqFile instant "string + fileDisputeRequest"
  | ReqReview "nat option"
  | ReqResolve instant "nat option" "string + resolveDisputeRequest"

fun dispute_handle :: "dispute_drv \<Rightarrow> dispute_req \<Rightarrow> dispute_db \<Rightarrow> unit response \<times> dispute_db" where
  "dispute_handle drv (ReqFile now body) db = drop_body (FileDispute drv now body db)"
| "dispute_handle drv (ReqReview uri) db = drop_body (AdminReviewDispute drv uri db)"
| "dispute_handle drv (ReqResolve now uri body) db = drop_body (AdminResolveDispute drv now uri body db)"

lemma dispute_handle_step:
  assumes "dispute_drv_ok drv" "dispute_inv db"
  shows "dispute_step db (snd (dispute_handle drv r db))"
  using assms by (cases r) (simp_all add: FileDispute_step AdminReviewDispute_step AdminResolveDispute_step)

lemma dispute_handle_active:
  assumes "dispute_drv_ok drv" "lookups_answer drv" "dispute_inv db" "one_active db"
  shows "one_active (snd (dispute_handle drv r db))"
  using assms by (cases r) (simp_all add: FileDispute_active AdminReviewDispute_active AdminResolveDispute_active)

interpretation disputes: service "dispute_handle drv" "\<lambda>db. dispute_drv_ok drv \<and> dispute_inv db" "\<lambda>_ _. True" for drv
  by unfold_locales (use dispute_handle_step in \<open>auto simp: dispute_step_def\<close>)

interpretation docket: service "dispute_handle drv"
    "\<lambda>db. dispute_drv_ok drv \<and> lookups_answer drv \<and> dispute_inv db \<and> one_active db" "\<lambda>_ _. True" for drv
  by unfold_locales (use dispute_handle_step dispute_handle_active in \<open>auto simp: dispute_step_def\<close>)

lemma disputes_all_fit: "disputes.all_fit drv rs db" "docket.all_fit drv rs db"
  by (induction rs arbitrary: db) auto

subsection \<open>Properties\<close>

definition dispute_empty :: dispute_db where
  "dispute_empty = \<lparr> t_txs = [\<lparr> dt_ID = 1, dt_AssetID = 3, dt_Amount = 500, dt_Status = ''confirmed'' \<rparr>,
     \<lparr> dt_ID = 2, dt_AssetID = 3, dt_Amount = 70, dt_Status = ''pending'' \<rparr>], t_disputes = [], t_escrows = [] \<rparr>"

lemma dispute_empty_inv: "dispute_inv dispute_empty" "one_active dispute_empty"
  by (simp_all add: dispute_inv_def dispute_empty_def one_active_def active_def)

definition demo_file :: "nat \<Rightarrow> dispute_req" where
  "demo_file i = ReqFile 10 (Inr \<lparr> fd_TransactionID = i, fd_FiledByAddress = ''buyer'', fd_RespondentAddr = ''seller'',
     fd_Reason = ''not delivered'', fd_Evidence = '''' \<rparr>)"

definition demo_resolve :: "nat \<Rightarrow> DisputeResolution \<Rightarrow> dispute_req" where
  "demo_resolve i r = ReqResolve 20 (Some i) (Inr \<lparr> rd_Resolution = r, rd_AdminNotes = '''' \<rparr>)"

definition demo_disputes :: "dispute_req list" where
  "demo_disputes = [demo_file 1, demo_file 1, demo_file 2, ReqReview (Some 1), demo_resolve 1 ResolutionBuyerFavor,
     demo_resolve 1 ResolutionSellerFavor, ReqReview (Some 1)]"

text \<open>C26: a dispute is settled once. From tables that satisfy the invariant (the empty ones do), whatever requests follow, and whatever
  database calls fail, a stored dispute keeps what was
  filed, its status never moves back, a closed dispute never changes again, and the one escrow row of every dispute holds its
  amount and is released exactly when the dispute is resolved, to the party its resolution names.\<close>

theorem dispute_settled_once:
  assumes "dispute_drv_ok drv" "dispute_inv db" "db' = disputes.run drv rs db"
  shows "(\<forall>d\<in>set (t_disputes db). \<exists>d'\<in>set (t_disputes db'). filed d' = filed d \<and>
      status_rank (di_Status d) \<le> status_rank (di_Status d') \<and> (closed (di_Status d) \<longrightarrow> d' = d)) \<and>
    (\<forall>d\<in>set (t_disputes db'). \<exists>e. filter (\<lambda>e. de_DisputeID e = di_ID d) (t_escrows db') = [e] \<and> de_Amount e = di_EscrowAmount d \<and>
      (de_ReleasedAt e \<noteq> None \<longleftrightarrow> di_Status d = DisputeStatusResolved) \<and>
      (\<forall>r. di_Resolution d = Some r \<longrightarrow> de_ReleasedTo e = release_to r d))"
proof -
  have inv: "dispute_inv db'" using disputes.run_inv[of drv db rs] assms disputes_all_fit by simp
  have "dispute_moves db db'"
    unfolding assms(3) by (rule disputes.run_rel[of dispute_moves drv])
      (use assms dispute_moves_refl dispute_moves_trans dispute_handle_step disputes_all_fit in \<open>auto simp: dispute_step_def\<close>)
  moreover have "\<exists>e. filter (\<lambda>e. de_DisputeID e = di_ID d) (t_escrows db') = [e] \<and> de_Amount e = di_EscrowAmount d \<and>
      (de_ReleasedAt e \<noteq> None \<longleftrightarrow> di_Status d = DisputeStatusResolved) \<and>
      (\<forall>r. di_Resolution d = Some r \<longrightarrow> de_ReleasedTo e = release_to r d)" if d: "d \<in> set (t_disputes db')" for d
  proof -
    obtain e where e: "e \<in> set (t_escrows db')" "escrow_ok d e" using dispute_invD(4)[OF inv d] by blast
    have "filter (\<lambda>x. de_DisputeID x = di_ID d) (t_escrows db') = [e]"
      using filter_key_singleton[OF dispute_invD(2)[OF inv] e(1)] e(2) by (simp add: escrow_ok_def)
    then show ?thesis using e(2) by (auto simp: escrow_ok_def closed_def split: option.splits)
  qed
  ultimately show ?thesis unfolding dispute_moves_def advances_def by blast
qed

theorem dispute_settled_once_witness:
  "map (\<lambda>d. (di_ID d, di_Status d)) (t_disputes (disputes.run mem_dispute demo_disputes dispute_empty)) = [(1, DisputeStatusResolved)] \<and>
   (\<exists>e. t_escrows (disputes.run mem_dispute demo_disputes dispute_empty) = [e] \<and> de_Amount e = 500 \<and> de_ReleasedAt e \<noteq> None \<and>
     de_ReleasedTo e = ''buyer'')"
proof -
  let ?db = "disputes.run mem_dispute demo_disputes dispute_empty"
  have a: "map (\<lambda>d. (di_ID d, di_Status d)) (t_disputes ?db) = [(1, DisputeStatusResolved)]"
    "map (\<lambda>e. (de_DisputeID e, de_Amount e, de_ReleasedTo e)) (t_escrows ?db) = [(1, 500, ''buyer'')]"
    unfolding demo_disputes_def disputes.run.simps by code_simp+
  obtain d where d: "t_disputes ?db = [d]" "di_ID d = 1" "di_Status d = DisputeStatusResolved" using map_eq_singletonD[OF a(1)] by auto
  obtain e where e: "t_escrows ?db = [e]" "de_DisputeID e = 1" "de_Amount e = 500" "de_ReleasedTo e = ''buyer''"
    using map_eq_singletonD[OF a(2)] by auto
  have "de_ReleasedAt e \<noteq> None"
    using dispute_settled_once[OF mem_dispute_ok dispute_empty_inv(1) refl, of demo_disputes] d e by simp
  then show ?thesis using a(1) e by blast
qed

text \<open>There is never more than one active dispute per transaction, if the lookups of disputes are answered.\<close>

lemma one_active_dispute:
  assumes "dispute_drv_ok drv" "lookups_answer drv" "dispute_inv db" "one_active db"
  shows "one_active (docket.run drv rs db)"
  using docket.run_inv[of drv db rs] assms disputes_all_fit by simp

text \<open>But a transaction can be disputed again after its dispute is closed: the same amount is then released a second time.\<close>

lemma released_twice:
  "map (\<lambda>e. (de_Amount e, de_ReleasedTo e))
     (t_escrows (disputes.run mem_dispute [demo_file 1, demo_resolve 1 ResolutionBuyerFavor, demo_file 1,
        demo_resolve 2 ResolutionSellerFavor] dispute_empty)) = [(500, ''buyer''), (500, ''seller'')]"
  unfolding disputes.run.simps by code_simp

end
