(* ===== verification/Kyc.thy ===== *)
theory Kyc
  imports Gorm Decimal Complex_Main
begin

section \<open>KYC and AML screening (handlers/kyc.go, services/kyc\_provider.go, services/aml\_screening.go, models/kyc.go)\<close>

text \<open>
  A user has one KYC record, whose status the identity provider reports; AML screening flags records for manual review.
  The providers are services outside the repository: every request carries what they answer while it runs, together with the
  SHA-256 digest and the JSON encoder of the audit details. The providers that are in the repository (the mock, the
  ComplyAdvantage client over an HTTP call, the one that screens nothing) are definitions.

  \<open>db.Model(&record).Updates(..)\<close> writes the columns of the stored row and assigns the values to the struct as well, also when
  the statement fails; the handlers drop the errors of most updates (\<open>update_ignoring\<close>). A column with a default gets it when
  the struct holds the zero value. E-mail notifications only read, and drop their errors; they are left out.
\<close>

subsection \<open>Data\<close>

type_synonym KYCStatus = string

abbreviation KYCStatusPending :: KYCStatus where "KYCStatusPending \<equiv> ''pending''"
abbreviation KYCStatusReview :: KYCStatus where "KYCStatusReview \<equiv> ''review''"
abbreviation KYCStatusApproved :: KYCStatus where "KYCStatusApproved \<equiv> ''approved''"
abbreviation KYCStatusRejected :: KYCStatus where "KYCStatusRejected \<equiv> ''rejected''"
abbreviation KYCStatusExpired :: KYCStatus where "KYCStatusExpired \<equiv> ''expired''"

record user_row =
  us_ID :: nat
  us_StellarAddress :: string
  us_KYCVerified :: bool
  us_AccreditedInvestor :: bool
  us_Deleted :: bool

record KYCRecord =
  kr_ID :: nat
  kr_UserID :: nat
  kr_ProviderRecordID :: string
  kr_Status :: KYCStatus
  kr_FullName :: string
  kr_DateOfBirth :: string
  kr_Nationality :: string
  kr_DocumentType :: string
  kr_DocumentNumberHash :: string
  kr_RiskScore :: int
  kr_AMLCleared :: bool
  kr_ReviewNotes :: string

record KYCDocument =
  kd_ID :: nat
  kd_KYCRecordID :: nat
  kd_DocumentType :: string
  kd_FileName :: string
  kd_FileHash :: string
  kd_StoragePath :: string
  kd_MimeType :: string
  kd_SizeBytes :: int
  kd_Status :: string

record AMLScreening =
  am_ID :: nat
  am_KYCRecordID :: nat
  am_ScreeningID :: string
  am_Status :: string
  am_RiskLevel :: string
  am_Matches :: string
  am_ScreenedAt :: instant

record ComplianceAuditLog =
  al_ID :: nat
  al_UserID :: nat
  al_Action :: string
  al_EntityType :: string
  al_EntityID :: nat
  al_Details :: string
  al_IPAddress :: string

record VerificationResult =
  vr_ProviderRecordID :: string
  vr_Status :: string
  vr_RiskScore :: int
  vr_AMLCleared :: bool
  vr_ReviewNotes :: string

record AMLResult =
  ar_ScreeningID :: string
  ar_Status :: string
  ar_RiskLevel :: string
  ar_Matches :: "string list"
  ar_ScreenedAt :: instant

record kyc_db =
  t_users :: "user_row list"
  t_kyc :: "KYCRecord list"
  t_docs :: "KYCDocument list"
  t_screens :: "AMLScreening list"
  t_audit :: "ComplianceAuditLog list"

record kyc_drv =
  d_users :: "user_row gorm"
  d_kyc :: "KYCRecord gorm"
  d_docs :: "KYCDocument gorm"
  d_screens :: "AMLScreening gorm"
  d_audit :: "ComplianceAuditLog gorm"

text \<open>What the world outside answers while one request runs.\<close>

record kyc_env =
  ke_submit :: "nat \<Rightarrow> string \<Rightarrow> string \<Rightarrow> string \<Rightarrow> string \<Rightarrow> string \<Rightarrow> string + VerificationResult"
  ke_poll :: "string \<Rightarrow> string + VerificationResult"
  ke_accredited :: "nat \<Rightarrow> rat \<Rightarrow> string + bool"
  ke_screen :: "string \<Rightarrow> string \<Rightarrow> string \<Rightarrow> string + AMLResult"
  ke_hash :: "string \<Rightarrow> string"
  ke_details :: "(string \<times> string) list \<Rightarrow> string"
  ke_matches :: "string list \<Rightarrow> string"
  ke_ip :: string

subsection \<open>Requests\<close>

record submitKYCRequest =
  sk_UserID :: nat
  sk_FullName :: string
  sk_DateOfBirth :: string
  sk_Nationality :: string
  sk_DocumentType :: string
  sk_DocumentNumber :: string

record uploadDocumentRequest =
  ud_KYCRecordID :: nat
  ud_DocumentType :: string
  ud_FileName :: string
  ud_FileHash :: string
  ud_MimeType :: string
  ud_SizeBytes :: int

record kycWebhookPayload =
  wp_ProviderRecordID :: string
  wp_Status :: string
  wp_RiskScore :: int
  wp_AMLCleared :: bool
  wp_ReviewNotes :: string

abbreviation StatusBadGateway :: int where "StatusBadGateway \<equiv> 502"

subsection \<open>The providers of the repository\<close>

definition mock_SubmitVerification :: "string \<Rightarrow> VerificationResult" where
  "mock_SubmitVerification uuid =
     \<lparr> vr_ProviderRecordID = uuid, vr_Status = ''pending'', vr_RiskScore = 0, vr_AMLCleared = False, vr_ReviewNotes = '''' \<rparr>"

text \<open>\<open>r10\<close>, \<open>r20\<close> and \<open>r30\<close> are the draws of \<open>rand.Intn\<close>.\<close>

definition mock_GetVerificationStatus :: "int \<Rightarrow> int \<Rightarrow> int \<Rightarrow> string \<Rightarrow> string + VerificationResult" where
  "mock_GetVerificationStatus r10 r20 r30 providerRecordID =
     (if providerRecordID = '''' then Inl ''providerRecordID is required''
      else if r10 = 0
      then Inr \<lparr> vr_ProviderRecordID = providerRecordID, vr_Status = ''rejected'', vr_RiskScore = 70 + r30, vr_AMLCleared = False,
                 vr_ReviewNotes = ''Mock: document not legible'' \<rparr>
      else Inr \<lparr> vr_ProviderRecordID = providerRecordID, vr_Status = ''approved'', vr_RiskScore = r20, vr_AMLCleared = True,
                 vr_ReviewNotes = '''' \<rparr>)"

definition mock_VerifyAccreditedInvestor :: "rat \<Rightarrow> bool" where
  "mock_VerifyAccreditedInvestor netWorthUSD \<longleftrightarrow> netWorthUSD \<ge> 1000000"

definition noop_Screen :: "string \<Rightarrow> instant \<Rightarrow> string \<Rightarrow> string + AMLResult" where
  "noop_Screen uuid now fullName =
     (if fullName = '''' then Inl ''fullName is required for AML screening''
      else Inr \<lparr> ar_ScreeningID = uuid, ar_Status = ''flagged'', ar_RiskLevel = ''high'',
                 ar_Matches = [''no AML provider configured (AML_PROVIDER unset) -- routed to manual review''],
                 ar_ScreenedAt = now \<rparr>)"

text \<open>ComplyAdvantage: \<open>post\<close> is the HTTP call down to the decoded body (the search id and its hits), \<open>describe\<close> the formatting of a hit.\<close>

record ca_hit =
  ch_MatchStatus :: string
  ch_Score :: rat
  ch_Name :: string
  ch_Types :: "string list"

definition ca_matches :: "(ca_hit \<Rightarrow> string) \<Rightarrow> ca_hit list \<Rightarrow> string list" where
  "ca_matches describe hits =
     map describe (filter (\<lambda>h. ch_MatchStatus h \<noteq> ''false_positive'' \<and> ch_MatchStatus h \<noteq> ''no_match'') hits)"

definition ca_Screen :: "string \<Rightarrow> (string \<Rightarrow> string list \<Rightarrow> string + string \<times> ca_hit list) \<Rightarrow> (ca_hit \<Rightarrow> string) \<Rightarrow> string \<Rightarrow> instant \<Rightarrow>
    string \<Rightarrow> string \<Rightarrow> string + AMLResult" where
  "ca_Screen apiKey post describe uuid now fullName nationality =
     (if apiKey = '''' then Inl ''AML_PROVIDER_API_KEY is not configured for provider=complyadvantage''
      else if fullName = '''' then Inl ''fullName is required for AML screening''
      else case post fullName (if nationality \<noteq> '''' then [nationality] else []) of
             Inl e \<Rightarrow> Inl e
           | Inr (searchID, hits) \<Rightarrow>
               (let matches = ca_matches describe hits
                in Inr \<lparr> ar_ScreeningID = (if searchID = '''' then uuid else searchID),
                         ar_Status = (if matches \<noteq> [] then ''flagged'' else ''clear''),
                         ar_RiskLevel = (if matches \<noteq> [] then ''high'' else ''low''),
                         ar_Matches = matches, ar_ScreenedAt = now \<rparr>))"


subsection \<open>Writes whose errors are dropped\<close>

definition update_ignoring :: "'r gorm \<Rightarrow> ('r \<Rightarrow> bool) \<Rightarrow> ('r \<Rightarrow> 'r) \<Rightarrow> 'r list \<Rightarrow> 'r list" where
  "update_ignoring g P f rows = (case g_update g P f rows of Inl _ \<Rightarrow> rows | Inr (_, rows') \<Rightarrow> rows')"

definition update_record :: "kyc_drv \<Rightarrow> nat \<Rightarrow> (KYCRecord \<Rightarrow> KYCRecord) \<Rightarrow> kyc_db \<Rightarrow> kyc_db" where
  "update_record drv i f db = db\<lparr> t_kyc := update_ignoring (d_kyc drv) (\<lambda>k. kr_ID k = i) f (t_kyc db) \<rparr>"

definition update_user :: "kyc_drv \<Rightarrow> nat \<Rightarrow> (user_row \<Rightarrow> user_row) \<Rightarrow> kyc_db \<Rightarrow> kyc_db" where
  "update_user drv i f db = db\<lparr> t_users := update_ignoring (d_users drv) (\<lambda>u. us_ID u = i \<and> \<not> us_Deleted u) f (t_users db) \<rparr>"

definition writeAuditLog :: "kyc_drv \<Rightarrow> kyc_env \<Rightarrow> nat \<Rightarrow> string \<Rightarrow> string \<Rightarrow> nat \<Rightarrow> (string \<times> string) list \<Rightarrow> kyc_db \<Rightarrow> kyc_db" where
  "writeAuditLog drv env userID action entityType entityID details db =
     (case g_create (d_audit drv)
             \<lparr> al_ID = 0, al_UserID = userID, al_Action = action, al_EntityType = entityType, al_EntityID = entityID,
               al_Details = ke_details env details, al_IPAddress = ke_ip env \<rparr> (t_audit db) of
        Inl _ \<Rightarrow> db
      | Inr (_, ls) \<Rightarrow> db\<lparr> t_audit := ls \<rparr>)"

definition show_bool :: "bool \<Rightarrow> string" where
  "show_bool b = (if b then ''true'' else ''false'')"

definition or_default :: "string \<Rightarrow> string \<Rightarrow> string" where
  "or_default d s = (if s = '''' then d else s)"

subsection \<open>Screening\<close>

text \<open>The struct of the caller comes back as the updates leave it.\<close>

definition runAMLScreening :: "kyc_drv \<Rightarrow> kyc_env \<Rightarrow> KYCRecord \<Rightarrow> kyc_db \<Rightarrow> (string + AMLScreening) \<times> KYCRecord \<times> kyc_db" where
  "runAMLScreening drv env kyc db =
     (case ke_screen env (kr_FullName kyc) (kr_Nationality kyc) (kr_DateOfBirth kyc) of
        Inl e \<Rightarrow>
          (let db1 = update_record drv (kr_ID kyc) (kr_Status_update (\<lambda>_. KYCStatusReview)) db;
               db2 = writeAuditLog drv env (kr_UserID kyc) ''aml_screening_error'' ''KYCRecord'' (kr_ID kyc) [(''error'', e)] db1
           in (Inl e, kyc\<lparr> kr_Status := KYCStatusReview \<rparr>, db2))
      | Inr result \<Rightarrow>
          (case g_create (d_screens drv)
                  \<lparr> am_ID = 0, am_KYCRecordID = kr_ID kyc, am_ScreeningID = ar_ScreeningID result,
                    am_Status = or_default ''pending'' (ar_Status result), am_RiskLevel = ar_RiskLevel result,
                    am_Matches = ke_matches env (ar_Matches result), am_ScreenedAt = ar_ScreenedAt result \<rparr> (t_screens db) of
             Inl _ \<Rightarrow> (Inl ''failed to save AML screening'', kyc, db)
           | Inr (screening, ss) \<Rightarrow>
               (let db1 = db\<lparr> t_screens := ss \<rparr>;
                    f = (if ar_Status result = ''clear'' then kr_AMLCleared_update (\<lambda>_. True)
                         else if ar_Status result = ''flagged'' then kr_AMLCleared_update (\<lambda>_. False) \<circ> kr_Status_update (\<lambda>_. KYCStatusReview)
                         else id);
                    db2 = (if ar_Status result = ''clear'' \<or> ar_Status result = ''flagged'' then update_record drv (kr_ID kyc) f db1 else db1);
                    db3 = writeAuditLog drv env (kr_UserID kyc) ''aml_screened'' ''AMLScreening'' (am_ID screening)
                            [(''status'', ar_Status result), (''risk_level'', ar_RiskLevel result)] db2
                in (Inr screening, f kyc, db3))))"

definition ScreenAML :: "kyc_drv \<Rightarrow> kyc_env \<Rightarrow> string + nat \<Rightarrow> kyc_db \<Rightarrow> AMLScreening response \<times> kyc_db" where
  "ScreenAML drv env body db =
     (case body of
        Inl e \<Rightarrow> (Fail StatusBadRequest e, db)
      | Inr i \<Rightarrow>
          (case g_first (d_kyc drv) (\<lambda>k. kr_ID k = i) (t_kyc db) of
             Inl _ \<Rightarrow> (Fail StatusNotFound ''KYC record not found'', db)
           | Inr kyc \<Rightarrow>
               (case runAMLScreening drv env kyc db of
                  (Inl _, _, db') \<Rightarrow> (Fail StatusBadGateway ''AML provider unavailable'', db')
                | (Inr screening, _, db') \<Rightarrow> (Reply StatusCreated screening, db'))))"

text \<open>A manual decision on a screening: \<open>cleared\<close> and the notes.\<close>

definition resolution :: "bool \<Rightarrow> string \<Rightarrow> KYCRecord \<Rightarrow> KYCRecord" where
  "resolution cleared notes k =
     (if cleared then k\<lparr> kr_AMLCleared := True \<rparr>
      else k\<lparr> kr_AMLCleared := False, kr_Status := KYCStatusRejected, kr_ReviewNotes := notes \<rparr>)"

definition apply_resolution :: "kyc_drv \<Rightarrow> kyc_env \<Rightarrow> AMLScreening \<Rightarrow> KYCRecord \<Rightarrow> bool \<Rightarrow> string \<Rightarrow> kyc_db \<Rightarrow> kyc_db" where
  "apply_resolution drv env screening kyc cleared notes db =
     writeAuditLog drv env (kr_UserID kyc) ''aml_review_resolved'' ''AMLScreening'' (am_ID screening)
       [(''cleared'', show_bool cleared), (''notes'', notes)]
       (update_record drv (kr_ID kyc) (resolution cleared notes) db)"

definition ResolveAMLReview :: "kyc_drv \<Rightarrow> kyc_env \<Rightarrow> nat option \<Rightarrow> string + bool \<times> string \<Rightarrow> kyc_db \<Rightarrow> AMLScreening response \<times> kyc_db" where
  "ResolveAMLReview drv env uri body db =
     (if uri = None \<or> uri = Some 0 then (Fail StatusBadRequest ''invalid id'', db)
      else case body of
             Inl e \<Rightarrow> (Fail StatusBadRequest e, db)
           | Inr (cleared, notes) \<Rightarrow>
               (case g_first (d_screens drv) (\<lambda>s. am_ID s = the uri) (t_screens db) of
                  Inl _ \<Rightarrow> (Fail StatusNotFound ''AML screening not found'', db)
                | Inr screening \<Rightarrow>
                    (case g_first (d_kyc drv) (\<lambda>k. kr_ID k = am_KYCRecordID screening) (t_kyc db) of
                       Inl _ \<Rightarrow> (Fail StatusNotFound ''KYC record not found'', db)
                     | Inr kyc \<Rightarrow>
                         (let newStatus = (if cleared then ''clear'' else ''flagged'')
                          in case g_update (d_screens drv) (\<lambda>s. am_ID s = am_ID screening) (am_Status_update (\<lambda>_. newStatus)) (t_screens db) of
                               Inl _ \<Rightarrow> (Fail StatusInternalServerError ''failed to update AML screening'', db)
                             | Inr (_, ss) \<Rightarrow>
                                 (let db' = apply_resolution drv env screening kyc cleared notes (db\<lparr> t_screens := ss \<rparr>)
                                  in (Reply StatusOK
                                        (case g_first (d_screens drv) (\<lambda>s. am_ID s = the uri) (t_screens db') of
                                           Inl _ \<Rightarrow> screening\<lparr> am_Status := newStatus \<rparr> | Inr s \<Rightarrow> s), db'))))))"

subsection \<open>Submission and status\<close>

definition new_record :: "submitKYCRequest \<Rightarrow> string \<Rightarrow> VerificationResult \<Rightarrow> KYCRecord" where
  "new_record req docHash result =
     \<lparr> kr_ID = 0, kr_UserID = sk_UserID req, kr_ProviderRecordID = vr_ProviderRecordID result,
       kr_Status = or_default KYCStatusPending (vr_Status result), kr_FullName = sk_FullName req, kr_DateOfBirth = sk_DateOfBirth req,
       kr_Nationality = sk_Nationality req, kr_DocumentType = sk_DocumentType req, kr_DocumentNumberHash = docHash,
       kr_RiskScore = 0, kr_AMLCleared = False, kr_ReviewNotes = '''' \<rparr>"

definition SubmitKYC :: "kyc_drv \<Rightarrow> kyc_env \<Rightarrow> string + submitKYCRequest \<Rightarrow> kyc_db \<Rightarrow>
    (nat \<times> string \<times> KYCStatus \<times> (string \<times> string) option) response \<times> kyc_db" where
  "SubmitKYC drv env body db =
     (case body of
        Inl e \<Rightarrow> (Fail StatusBadRequest e, db)
      | Inr req \<Rightarrow>
          (case g_first (d_kyc drv) (\<lambda>k. kr_UserID k = sk_UserID req) (t_kyc db) of
             Inr _ \<Rightarrow> (Fail StatusConflict ''KYC record already exists for this user'', db)
           | Inl _ \<Rightarrow>
               (let docHash = ke_hash env (sk_DocumentNumber req)
                in case ke_submit env (sk_UserID req) (sk_FullName req) (sk_DateOfBirth req) (sk_Nationality req) (sk_DocumentType req) docHash of
                     Inl _ \<Rightarrow> (Fail StatusBadGateway ''KYC provider unavailable'', db)
                   | Inr result \<Rightarrow>
                       (case g_create (d_kyc drv) (new_record req docHash result) (t_kyc db) of
                          Inl _ \<Rightarrow> (Fail StatusInternalServerError ''failed to save KYC record'', db)
                        | Inr (record0, ks) \<Rightarrow>
                            (let db1 = writeAuditLog drv env (sk_UserID req) ''kyc_submitted'' ''KYCRecord'' (kr_ID record0)
                                         [(''provider_record_id'', vr_ProviderRecordID result)] (db\<lparr> t_kyc := ks \<rparr>)
                             in case runAMLScreening drv env record0 db1 of
                                  (aml, record1, db2) \<Rightarrow>
                                    (Reply StatusCreated (kr_ID record1, kr_ProviderRecordID record1, kr_Status record1,
                                       (case aml of Inl _ \<Rightarrow> None | Inr s \<Rightarrow> Some (am_Status s, am_RiskLevel s))), db2))))))"

text \<open>The columns a report of the provider overwrites.\<close>

definition reported :: "string \<Rightarrow> int \<Rightarrow> bool \<Rightarrow> string \<Rightarrow> KYCRecord \<Rightarrow> KYCRecord" where
  "reported status score cleared notes k = k\<lparr> kr_Status := status, kr_RiskScore := score, kr_AMLCleared := cleared, kr_ReviewNotes := notes \<rparr>"

definition verify_if_approved :: "kyc_drv \<Rightarrow> nat \<Rightarrow> string \<Rightarrow> kyc_db \<Rightarrow> kyc_db" where
  "verify_if_approved drv userID status db =
     (if status = ''approved'' then update_user drv userID (us_KYCVerified_update (\<lambda>_. True)) db else db)"

text \<open>The audit entry is written after the update has assigned the new status to the struct, so it names that status twice.\<close>

definition apply_poll :: "kyc_drv \<Rightarrow> kyc_env \<Rightarrow> nat \<Rightarrow> KYCRecord \<Rightarrow> VerificationResult \<Rightarrow> kyc_db \<Rightarrow> kyc_db" where
  "apply_poll drv env userID record0 result db =
     (if kr_Status record0 \<noteq> vr_Status result
      then let db1 = update_record drv (kr_ID record0) (reported (vr_Status result) (vr_RiskScore result) (vr_AMLCleared result)
                       (vr_ReviewNotes result)) db;
               db2 = verify_if_approved drv userID (vr_Status result) db1
           in writeAuditLog drv env userID ''status_changed'' ''KYCRecord'' (kr_ID record0)
                [(''from'', vr_Status result), (''to'', vr_Status result)] db2
      else db)"

text \<open>The query parameter is missing (\<open>None\<close>), not a number (\<open>Some None\<close>) or a number.\<close>

definition GetKYCStatus :: "kyc_drv \<Rightarrow> kyc_env \<Rightarrow> nat option option \<Rightarrow> kyc_db \<Rightarrow> (KYCRecord + nat \<times> VerificationResult) response \<times> kyc_db" where
  "GetKYCStatus drv env q db =
     (case q of
        None \<Rightarrow> (Fail StatusBadRequest ''user_id query param required'', db)
      | Some None \<Rightarrow> (Fail StatusBadRequest ''invalid user_id'', db)
      | Some (Some userID) \<Rightarrow>
          if userID = 0 then (Fail StatusBadRequest ''invalid user_id'', db)
          else (case g_first (d_kyc drv) (\<lambda>k. kr_UserID k = userID) (t_kyc db) of
             Inl _ \<Rightarrow> (Fail StatusNotFound ''KYC record not found'', db)
           | Inr record0 \<Rightarrow>
               (case ke_poll env (kr_ProviderRecordID record0) of
                  Inl _ \<Rightarrow> (Reply StatusOK (Inl record0), db)
                | Inr result \<Rightarrow>
                    (Reply StatusOK (Inr (kr_ID record0, result)), apply_poll drv env userID record0 result db))))"

definition HandleKYCWebhook :: "kyc_drv \<Rightarrow> kyc_env \<Rightarrow> string + kycWebhookPayload \<Rightarrow> kyc_db \<Rightarrow> unit response \<times> kyc_db" where
  "HandleKYCWebhook drv env body db =
     (case body of
        Inl _ \<Rightarrow> (Fail StatusBadRequest ''invalid webhook payload'', db)
      | Inr payload \<Rightarrow>
          (case g_first (d_kyc drv) (\<lambda>k. kr_ProviderRecordID k = wp_ProviderRecordID payload) (t_kyc db) of
             Inl _ \<Rightarrow> (Fail StatusNotFound ''KYC record not found'', db)
           | Inr record0 \<Rightarrow>
               (let db1 = update_record drv (kr_ID record0) (reported (wp_Status payload) (wp_RiskScore payload) (wp_AMLCleared payload)
                            (wp_ReviewNotes payload)) db;
                    db2 = verify_if_approved drv (kr_UserID record0) (wp_Status payload) db1
                in (Reply StatusOK (), writeAuditLog drv env (kr_UserID record0) ''webhook_status_update'' ''KYCRecord'' (kr_ID record0)
                      [(''new_status'', wp_Status payload)] db2))))"

subsection \<open>Documents, accreditation and reports\<close>

definition UploadDocument :: "kyc_drv \<Rightarrow> kyc_env \<Rightarrow> string + uploadDocumentRequest \<Rightarrow> kyc_db \<Rightarrow> KYCDocument response \<times> kyc_db" where
  "UploadDocument drv env body db =
     (case body of
        Inl e \<Rightarrow> (Fail StatusBadRequest e, db)
      | Inr req \<Rightarrow>
          (case g_first (d_kyc drv) (\<lambda>k. kr_ID k = ud_KYCRecordID req) (t_kyc db) of
             Inl _ \<Rightarrow> (Fail StatusNotFound ''KYC record not found'', db)
           | Inr kyc \<Rightarrow>
               (case g_create (d_docs drv)
                       \<lparr> kd_ID = 0, kd_KYCRecordID = ud_KYCRecordID req, kd_DocumentType = ud_DocumentType req, kd_FileName = ud_FileName req,
                         kd_FileHash = ud_FileHash req,
                         kd_StoragePath = ''encrypted/kyc/'' @ show_nat (ud_KYCRecordID req) @ ''/'' @ ud_DocumentType req @ ''/'' @ ud_FileName req,
                         kd_MimeType = ud_MimeType req, kd_SizeBytes = ud_SizeBytes req, kd_Status = ''pending'' \<rparr> (t_docs db) of
                  Inl _ \<Rightarrow> (Fail StatusInternalServerError ''failed to save document record'', db)
                | Inr (doc, ds) \<Rightarrow>
                    (Reply StatusCreated doc, writeAuditLog drv env (kr_UserID kyc) ''document_uploaded'' ''KYCDocument'' (kd_ID doc)
                       [(''type'', ud_DocumentType req), (''hash'', ud_FileHash req)] (db\<lparr> t_docs := ds \<rparr>)))))"

definition VerifyAccreditedInvestor :: "kyc_drv \<Rightarrow> kyc_env \<Rightarrow> string + nat \<times> rat \<Rightarrow> kyc_db \<Rightarrow> (nat \<times> bool) response \<times> kyc_db" where
  "VerifyAccreditedInvestor drv env body db =
     (case body of
        Inl e \<Rightarrow> (Fail StatusBadRequest e, db)
      | Inr (userID, netWorthUSD) \<Rightarrow>
          (case ke_accredited env userID netWorthUSD of
             Inl _ \<Rightarrow> (Fail StatusBadGateway ''provider error'', db)
           | Inr isAccredited \<Rightarrow>
               (let db1 = update_user drv userID (us_AccreditedInvestor_update (\<lambda>_. isAccredited)) db
                in (Reply StatusOK (userID, isAccredited), writeAuditLog drv env userID ''accredited_investor_verified'' ''User'' userID
                      [(''result'', show_bool isAccredited)] db1))))"

text \<open>The newest 100 entries; creation order is the order of the keys.\<close>

definition GetAuditLog :: "kyc_drv \<Rightarrow> nat option \<Rightarrow> kyc_db \<Rightarrow> (nat \<times> ComplianceAuditLog list) response" where
  "GetAuditLog drv q db =
     (if q = None \<or> q = Some 0 then Fail StatusBadRequest ''valid user_id query param required''
      else case g_find (d_audit drv) \<lparr> q_where = (\<lambda>l. al_UserID l = the q), q_order = (\<lambda>x y. al_ID x \<ge> al_ID y), q_offset = 0, q_limit = Some 100 \<rparr>
                  (t_audit db) of
             Inl _ \<Rightarrow> Fail StatusInternalServerError ''failed to fetch audit log''
           | Inr logs \<Rightarrow> Reply StatusOK (the q, logs))"

record compliance_report =
  cr_TotalKYCRecords :: int
  cr_Approved :: int
  cr_Pending :: int
  cr_Rejected :: int
  cr_AMLCleared :: int
  cr_AccreditedInvestors :: int

definition counted :: "'r gorm \<Rightarrow> ('r \<Rightarrow> bool) \<Rightarrow> 'r list \<Rightarrow> int" where
  "counted g P rows = (case g_count g P rows of Inl _ \<Rightarrow> 0 | Inr n \<Rightarrow> n)"

definition ComplianceReport :: "kyc_drv \<Rightarrow> kyc_db \<Rightarrow> compliance_report" where
  "ComplianceReport drv db =
     \<lparr> cr_TotalKYCRecords = counted (d_kyc drv) (\<lambda>_. True) (t_kyc db),
       cr_Approved = counted (d_kyc drv) (\<lambda>k. kr_Status k = ''approved'') (t_kyc db),
       cr_Pending = counted (d_kyc drv) (\<lambda>k. kr_Status k = ''pending'') (t_kyc db),
       cr_Rejected = counted (d_kyc drv) (\<lambda>k. kr_Status k = ''rejected'') (t_kyc db),
       cr_AMLCleared = counted (d_kyc drv) kr_AMLCleared (t_kyc db),
       cr_AccreditedInvestors = counted (d_users drv) (\<lambda>u. us_AccreditedInvestor u \<and> \<not> us_Deleted u) (t_users db) \<rparr>"


subsection \<open>Drivers and the invariant\<close>

definition kyc_drv_ok :: "kyc_drv \<Rightarrow> bool" where
  "kyc_drv_ok drv \<longleftrightarrow> gorm_ok us_ID (\<lambda>k. us_ID_update (\<lambda>_. k)) (d_users drv) \<and>
     gorm_ok kr_ID (\<lambda>k. kr_ID_update (\<lambda>_. k)) (d_kyc drv) \<and> unique_ok kr_UserID (d_kyc drv) \<and>
     gorm_ok kd_ID (\<lambda>k. kd_ID_update (\<lambda>_. k)) (d_docs drv) \<and> gorm_ok am_ID (\<lambda>k. am_ID_update (\<lambda>_. k)) (d_screens drv) \<and>
     gorm_ok al_ID (\<lambda>k. al_ID_update (\<lambda>_. k)) (d_audit drv)"

definition mem_kyc :: kyc_drv where
  "mem_kyc = \<lparr> d_users = mem_gorm us_ID (\<lambda>k. us_ID_update (\<lambda>_. k)),
     d_kyc = unique_gorm kr_UserID (mem_gorm kr_ID (\<lambda>k. kr_ID_update (\<lambda>_. k))),
     d_docs = mem_gorm kd_ID (\<lambda>k. kd_ID_update (\<lambda>_. k)),
     d_screens = unique_gorm am_ScreeningID (mem_gorm am_ID (\<lambda>k. am_ID_update (\<lambda>_. k))),
     d_audit = mem_gorm al_ID (\<lambda>k. al_ID_update (\<lambda>_. k)) \<rparr>"

lemma mem_kyc_ok: "kyc_drv_ok mem_kyc"
  by (simp add: kyc_drv_ok_def mem_kyc_def mem_gorm_ok unique_gorm_ok unique_gorm_unique)

lemma kyc_drvD:
  assumes "kyc_drv_ok drv"
  shows "gorm_ok us_ID (\<lambda>k. us_ID_update (\<lambda>_. k)) (d_users drv)" "gorm_ok kr_ID (\<lambda>k. kr_ID_update (\<lambda>_. k)) (d_kyc drv)"
    "unique_ok kr_UserID (d_kyc drv)" "gorm_ok al_ID (\<lambda>k. al_ID_update (\<lambda>_. k)) (d_audit drv)"
    "gorm_ok am_ID (\<lambda>k. am_ID_update (\<lambda>_. k)) (d_screens drv)"
  using assms by (simp_all add: kyc_drv_ok_def)

text \<open>A record is on hold when the transfer check refuses its status.\<close>

definition on_hold :: "KYCRecord \<Rightarrow> bool" where
  "on_hold k \<longleftrightarrow> kr_Status k \<in> {KYCStatusReview, KYCStatusRejected, KYCStatusExpired}"

definition kyc_inv :: "kyc_db \<Rightarrow> bool" where
  "kyc_inv db \<longleftrightarrow> distinct (map kr_ID (t_kyc db)) \<and> distinct (map kr_UserID (t_kyc db))"

definition user_ref :: "user_row \<Rightarrow> nat \<times> string \<times> bool" where
  "user_ref u = (us_ID u, us_StellarAddress u, us_Deleted u)"

text \<open>What every request does to the tables: records keep their identity, users keep theirs, the audit log only grows, and a hold
  is lifted only on the records that \<open>released\<close> allows.\<close>

definition kyc_moves :: "(KYCRecord \<Rightarrow> bool) \<Rightarrow> kyc_db \<Rightarrow> kyc_db \<Rightarrow> bool" where
  "kyc_moves released db db' \<longleftrightarrow>
     (\<forall>k\<in>set (t_kyc db). \<exists>k'\<in>set (t_kyc db'). kr_ID k' = kr_ID k \<and> kr_UserID k' = kr_UserID k \<and>
        kr_ProviderRecordID k' = kr_ProviderRecordID k \<and> (on_hold k \<and> \<not> released k \<longrightarrow> on_hold k')) \<and>
     map user_ref (t_users db') = map user_ref (t_users db) \<and> (\<exists>ls. t_audit db' = t_audit db @ ls)"

text \<open>Which records are released depends on their identity only.\<close>

definition by_identity :: "(KYCRecord \<Rightarrow> bool) \<Rightarrow> bool" where
  "by_identity released \<longleftrightarrow> (\<forall>k k'. kr_UserID k' = kr_UserID k \<longrightarrow> kr_ProviderRecordID k' = kr_ProviderRecordID k \<longrightarrow>
     released k' = released k)"

lemma kyc_moves_refl: "kyc_moves S db db"
  by (auto simp: kyc_moves_def)

lemma kyc_moves_trans:
  assumes "by_identity S" "kyc_moves S a b" "kyc_moves S b c"
  shows "kyc_moves S a c"
  unfolding kyc_moves_def
proof (intro conjI ballI)
  fix k assume "k \<in> set (t_kyc a)"
  then obtain k1 where k1: "k1 \<in> set (t_kyc b)" "kr_ID k1 = kr_ID k" "kr_UserID k1 = kr_UserID k" "kr_ProviderRecordID k1 = kr_ProviderRecordID k"
    "on_hold k \<and> \<not> S k \<longrightarrow> on_hold k1" using assms(2) by (auto simp: kyc_moves_def)
  then obtain k2 where k2: "k2 \<in> set (t_kyc c)" "kr_ID k2 = kr_ID k1" "kr_UserID k2 = kr_UserID k1" "kr_ProviderRecordID k2 = kr_ProviderRecordID k1"
    "on_hold k1 \<and> \<not> S k1 \<longrightarrow> on_hold k2" using assms(3) unfolding kyc_moves_def by blast
  moreover have "S k1 = S k" using assms(1) k1(3,4) unfolding by_identity_def by blast
  ultimately show "\<exists>k'\<in>set (t_kyc c). kr_ID k' = kr_ID k \<and> kr_UserID k' = kr_UserID k \<and>
      kr_ProviderRecordID k' = kr_ProviderRecordID k \<and> (on_hold k \<and> \<not> S k \<longrightarrow> on_hold k')" using k1 by auto
next
  show "map user_ref (t_users c) = map user_ref (t_users a)" using assms(2,3) by (simp add: kyc_moves_def)
  show "\<exists>ls. t_audit c = t_audit a @ ls" using assms(2,3) by (auto simp: kyc_moves_def)
qed

definition kyc_step :: "(KYCRecord \<Rightarrow> bool) \<Rightarrow> kyc_db \<Rightarrow> kyc_db \<Rightarrow> bool" where
  "kyc_step S db db' \<longleftrightarrow> kyc_inv db' \<and> kyc_moves S db db'"

lemma kyc_step_refl: "kyc_inv db \<Longrightarrow> kyc_step S db db"
  by (simp add: kyc_step_def kyc_moves_refl)

lemma kyc_step_trans: "by_identity S \<Longrightarrow> kyc_step S a b \<Longrightarrow> kyc_step S b c \<Longrightarrow> kyc_step S a c"
  unfolding kyc_step_def by (blast intro: kyc_moves_trans)

lemma kyc_step_inv: "kyc_step S a b \<Longrightarrow> kyc_inv b"
  by (simp add: kyc_step_def)

subsection \<open>The writes keep it\<close>

lemma kyc_step_same:
  assumes "kyc_inv db" "t_kyc db' = t_kyc db" "map user_ref (t_users db') = map user_ref (t_users db)" "\<exists>ls. t_audit db' = t_audit db @ ls"
  shows "kyc_step S db db'"
  using assms by (auto simp: kyc_step_def kyc_inv_def kyc_moves_def)

lemma audit_step:
  assumes "kyc_drv_ok drv" "kyc_inv db"
  shows "kyc_step S db (writeAuditLog drv env u a t i d db)"
  by (rule kyc_step_same[OF assms(2)])
    (auto simp: writeAuditLog_def split: sum.split elim!: gorm_createD[OF kyc_drvD(4)[OF assms(1)]])

lemma update_ignoring_cases:
  assumes "gorm_ok key setkey g"
  shows "update_ignoring g P f rows = rows \<or> update_ignoring g P f rows = map (\<lambda>r. if P r then f r else r) rows"
  using gorm_updateD(2)[OF assms] by (auto simp: update_ignoring_def split: sum.split)

lemma user_step:
  assumes "kyc_drv_ok drv" "kyc_inv db" "\<And>u. user_ref (f u) = user_ref u"
  shows "kyc_step S db (update_user drv i f db)"
proof (rule kyc_step_same[OF assms(2)])
  show "map user_ref (t_users (update_user drv i f db)) = map user_ref (t_users db)"
    using update_ignoring_cases[OF kyc_drvD(1)[OF assms(1)], of "\<lambda>u. us_ID u = i \<and> \<not> us_Deleted u" f "t_users db"] assms(3)
    by (auto simp: update_user_def)
qed (simp_all add: update_user_def)

lemma record_step:
  assumes drv: "kyc_drv_ok drv" and inv: "kyc_inv db"
    and f: "\<And>k. kr_ID (f k) = kr_ID k \<and> kr_UserID (f k) = kr_UserID k \<and> kr_ProviderRecordID (f k) = kr_ProviderRecordID k"
    and hold: "\<And>k. k \<in> set (t_kyc db) \<Longrightarrow> kr_ID k = i \<Longrightarrow> on_hold k \<Longrightarrow> \<not> S k \<Longrightarrow> on_hold (f k)"
  shows "kyc_step S db (update_record drv i f db)"
proof -
  let ?g = "\<lambda>k. if kr_ID k = i then f k else k"
  consider "t_kyc (update_record drv i f db) = t_kyc db" | "t_kyc (update_record drv i f db) = map ?g (t_kyc db)"
    using update_ignoring_cases[OF kyc_drvD(2)[OF drv], of "\<lambda>k. kr_ID k = i" f "t_kyc db"] by (auto simp: update_record_def)
  then show ?thesis
  proof cases
    case 1
    then show ?thesis by (intro kyc_step_same[OF inv]) (simp_all add: update_record_def)
  next
    case 2
    have "map kr_ID (map ?g (t_kyc db)) = map kr_ID (t_kyc db)" "map kr_UserID (map ?g (t_kyc db)) = map kr_UserID (t_kyc db)"
      using f by auto
    then have "kyc_inv (update_record drv i f db)" using inv 2 by (simp only: kyc_inv_def)
    moreover have "kyc_moves S db (update_record drv i f db)"
      unfolding kyc_moves_def 2
    proof (intro conjI ballI)
      fix k assume k: "k \<in> set (t_kyc db)"
      then have "?g k \<in> set (map ?g (t_kyc db))" by (simp only: set_map) (rule imageI)
      then show "\<exists>k'\<in>set (map ?g (t_kyc db)). kr_ID k' = kr_ID k \<and> kr_UserID k' = kr_UserID k \<and>
          kr_ProviderRecordID k' = kr_ProviderRecordID k \<and> (on_hold k \<and> \<not> S k \<longrightarrow> on_hold k')"
        using f[of k] hold[OF k] by (intro bexI[of _ "?g k"]) auto
    qed (simp_all add: update_record_def)
    ultimately show ?thesis by (simp add: kyc_step_def)
  qed
qed

lemma screens_step: "kyc_inv db \<Longrightarrow> kyc_step S db (db\<lparr> t_screens := ss \<rparr>)" "kyc_inv db \<Longrightarrow> kyc_step S db (db\<lparr> t_docs := ds \<rparr>)"
  by (rule kyc_step_same; simp)+


subsection \<open>Every request keeps it\<close>

lemma runAMLScreening_step:
  assumes S: "by_identity S" and drv: "kyc_drv_ok drv" and inv: "kyc_inv db"
  shows "kyc_step S db (snd (snd (runAMLScreening drv env kyc db)))"
proof -
  note trans = kyc_step_trans[OF S]
  have upd: "kyc_step S db' (writeAuditLog drv env u a t i d (update_record drv j f db'))"
    if "kyc_inv db'" "\<And>k. kr_ID (f k) = kr_ID k \<and> kr_UserID (f k) = kr_UserID k \<and> kr_ProviderRecordID (f k) = kr_ProviderRecordID k"
      "\<And>k. on_hold k \<Longrightarrow> on_hold (f k)" for db' u a t i d j f
  proof -
    have "kyc_step S db' (update_record drv j f db')" by (rule record_step[OF drv that(1,2)]) (rule that(3))
    moreover from this have "kyc_step S (update_record drv j f db') (writeAuditLog drv env u a t i d (update_record drv j f db'))"
      by (intro audit_step[OF drv]) (rule kyc_step_inv)
    ultimately show ?thesis by (rule trans)
  qed
  show ?thesis
  proof (cases "ke_screen env (kr_FullName kyc) (kr_Nationality kyc) (kr_DateOfBirth kyc)")
    case (Inl e)
    then show ?thesis using upd[OF inv] by (simp add: runAMLScreening_def Let_def on_hold_def)
  next
    case (Inr result)
    let ?scr = "\<lparr> am_ID = 0, am_KYCRecordID = kr_ID kyc, am_ScreeningID = ar_ScreeningID result,
      am_Status = or_default ''pending'' (ar_Status result), am_RiskLevel = ar_RiskLevel result,
      am_Matches = ke_matches env (ar_Matches result), am_ScreenedAt = ar_ScreenedAt result \<rparr>"
    show ?thesis
    proof (cases "g_create (d_screens drv) ?scr (t_screens db)")
      case Inl': (Inl e)
      then show ?thesis using Inr kyc_step_refl[OF inv] by (simp add: runAMLScreening_def)
    next
      case Inr': (Inr x)
      obtain s ss where x: "x = (s, ss)" by (cases x)
      have i: "kyc_inv (db\<lparr> t_screens := ss \<rparr>)" "kyc_step S db (db\<lparr> t_screens := ss \<rparr>)" using screens_step(1)[OF inv] kyc_step_inv by blast+
      have "kyc_step S (db\<lparr> t_screens := ss \<rparr>) (snd (snd (runAMLScreening drv env kyc db)))"
        using upd[OF i(1)] audit_step[OF drv i(1)] Inr Inr' x by (simp add: runAMLScreening_def Let_def on_hold_def o_def)
      then show ?thesis by (rule trans[OF i(2)])
    qed
  qed
qed

lemma by_identity_none: "by_identity (\<lambda>_. False)"
  by (simp add: by_identity_def)

lemma verify_step:
  assumes "kyc_drv_ok drv" "kyc_inv db"
  shows "kyc_step S db (verify_if_approved drv u s db)"
  using user_step[OF assms] kyc_step_refl[OF assms(2)] by (simp add: verify_if_approved_def user_ref_def)

lemma report_step:
  assumes S: "by_identity S" and drv: "kyc_drv_ok drv" and inv: "kyc_inv db" and k0: "k0 \<in> set (t_kyc db)" "S k0"
  shows "kyc_step S db (writeAuditLog drv env u a t i d (verify_if_approved drv v s
    (update_record drv (kr_ID k0) (reported s' score cleared notes) db)))"
proof -
  have "k = k0" if "k \<in> set (t_kyc db)" "kr_ID k = kr_ID k0" for k
    using distinct_key_unique[OF _ that(1) k0(1) that(2)] inv by (simp add: kyc_inv_def)
  then have "kyc_step S db (update_record drv (kr_ID k0) (reported s' score cleared notes) db)" (is "kyc_step S db ?db1")
    using k0(2) by (intro record_step[OF drv inv]) (auto simp: reported_def)
  moreover from this have "kyc_step S ?db1 (verify_if_approved drv v s ?db1)" (is "kyc_step S _ ?db2")
    by (intro verify_step[OF drv]) (rule kyc_step_inv)
  moreover from this have "kyc_step S ?db2 (writeAuditLog drv env u a t i d ?db2)"
    by (intro audit_step[OF drv]) (rule kyc_step_inv)
  ultimately show ?thesis using kyc_step_trans[OF S] by blast
qed

datatype kyc_req =
    ReqSubmit kyc_env "string + submitKYCRequest"
  | ReqPoll kyc_env "nat option option"
  | ReqUpload kyc_env "string + uploadDocumentRequest"
  | ReqScreen kyc_env "string + nat"
  | ReqResolve kyc_env "nat option" "string + bool \<times> string"
  | ReqAccredited kyc_env "string + nat \<times> rat"
  | ReqWebhook kyc_env "string + kycWebhookPayload"

fun kyc_handle :: "kyc_drv \<Rightarrow> kyc_req \<Rightarrow> kyc_db \<Rightarrow> unit response \<times> kyc_db" where
  "kyc_handle drv (ReqSubmit env body) db = drop_body (SubmitKYC drv env body db)"
| "kyc_handle drv (ReqPoll env q) db = drop_body (GetKYCStatus drv env q db)"
| "kyc_handle drv (ReqUpload env body) db = drop_body (UploadDocument drv env body db)"
| "kyc_handle drv (ReqScreen env body) db = drop_body (ScreenAML drv env body db)"
| "kyc_handle drv (ReqResolve env uri body) db = drop_body (ResolveAMLReview drv env uri body db)"
| "kyc_handle drv (ReqAccredited env body) db = drop_body (VerifyAccreditedInvestor drv env body db)"
| "kyc_handle drv (ReqWebhook env body) db = HandleKYCWebhook drv env body db"

text \<open>The records on which a request carries a report of the identity provider.\<close>

fun reports_on :: "kyc_req \<Rightarrow> KYCRecord \<Rightarrow> bool" where
  "reports_on (ReqPoll env (Some (Some u))) k \<longleftrightarrow> kr_UserID k = u"
| "reports_on (ReqWebhook env (Inr p)) k \<longleftrightarrow> kr_ProviderRecordID k = wp_ProviderRecordID p"
| "reports_on _ k \<longleftrightarrow> False"

lemma by_identity_reports: "by_identity (reports_on r)"
  by (auto simp: by_identity_def elim!: reports_on.elims)

lemma SubmitKYC_step:
  assumes drv: "kyc_drv_ok drv" and inv: "kyc_inv db"
  shows "kyc_step (\<lambda>_. False) db (snd (SubmitKYC drv env body db))"
proof (cases "snd (SubmitKYC drv env body db) = db")
  case True
  then show ?thesis using kyc_step_refl[OF inv] by simp
next
  case False
  then obtain req k0 ks docHash result where c: "g_create (d_kyc drv) (new_record req docHash result) (t_kyc db) = Inr (k0, ks)"
    and s: "snd (SubmitKYC drv env body db) = snd (snd (runAMLScreening drv env k0
      (writeAuditLog drv env (sk_UserID req) ''kyc_submitted'' ''KYCRecord'' (kr_ID k0)
        [(''provider_record_id'', vr_ProviderRecordID result)] (db\<lparr> t_kyc := ks \<rparr>))))"
    by (auto simp: SubmitKYC_def Let_def split: sum.splits prod.splits)
  obtain i where i: "i \<notin> kr_ID ` set (t_kyc db)" "k0 = (new_record req docHash result)\<lparr> kr_ID := i \<rparr>" "ks = t_kyc db @ [k0]"
    by (rule gorm_createD[OF kyc_drvD(2)[OF drv] c])
  have "distinct (map kr_UserID ks)" using unique_create[OF kyc_drvD(3)[OF drv] c] inv by (simp add: kyc_inv_def)
  then have one: "kyc_step (\<lambda>_. False) db (db\<lparr> t_kyc := ks \<rparr>)"
    using inv i by (auto simp: kyc_step_def kyc_inv_def kyc_moves_def)
  then have two: "kyc_step (\<lambda>_. False) db (writeAuditLog drv env u a t j d (db\<lparr> t_kyc := ks \<rparr>))" for u a t j d
    by (metis audit_step[OF drv] kyc_step_inv kyc_step_trans[OF by_identity_none])
  show ?thesis unfolding s
    by (rule kyc_step_trans[OF by_identity_none two runAMLScreening_step[OF by_identity_none drv kyc_step_inv[OF two]]])
qed

lemma GetKYCStatus_step:
  assumes drv: "kyc_drv_ok drv" and inv: "kyc_inv db"
  shows "kyc_step (reports_on (ReqPoll env q)) db (snd (GetKYCStatus drv env q db))"
proof (cases "snd (GetKYCStatus drv env q db) = db")
  case True
  then show ?thesis using kyc_step_refl[OF inv] by simp
next
  case False
  then obtain u k0 r where k: "q = Some (Some u)" "g_first (d_kyc drv) (\<lambda>k. kr_UserID k = u) (t_kyc db) = Inr k0"
    and s: "snd (GetKYCStatus drv env q db) = apply_poll drv env u k0 r db"
    by (auto simp: GetKYCStatus_def split: option.splits sum.splits if_splits)
  have k0: "k0 \<in> set (t_kyc db)" "reports_on (ReqPoll env q) k0" using gorm_firstD[OF kyc_drvD(2)[OF drv] k(2)] k(1) by simp_all
  show ?thesis unfolding s using report_step[OF by_identity_reports drv inv k0] kyc_step_refl[OF inv] by (simp add: apply_poll_def Let_def)
qed

lemma HandleKYCWebhook_step:
  assumes drv: "kyc_drv_ok drv" and inv: "kyc_inv db"
  shows "kyc_step (reports_on (ReqWebhook env body)) db (snd (HandleKYCWebhook drv env body db))"
proof (cases "snd (HandleKYCWebhook drv env body db) = db")
  case True
  then show ?thesis using kyc_step_refl[OF inv] by simp
next
  case False
  then obtain p k0 where k: "body = Inr p" "g_first (d_kyc drv) (\<lambda>k. kr_ProviderRecordID k = wp_ProviderRecordID p) (t_kyc db) = Inr k0"
    by (auto simp: HandleKYCWebhook_def split: sum.splits)
  have k0: "k0 \<in> set (t_kyc db)" "reports_on (ReqWebhook env body) k0"
    using gorm_firstD[OF kyc_drvD(2)[OF drv] k(2)] k(1) by simp_all
  have s: "snd (HandleKYCWebhook drv env body db) = writeAuditLog drv env (kr_UserID k0) ''webhook_status_update'' ''KYCRecord'' (kr_ID k0)
      [(''new_status'', wp_Status p)] (verify_if_approved drv (kr_UserID k0) (wp_Status p) (update_record drv (kr_ID k0)
        (reported (wp_Status p) (wp_RiskScore p) (wp_AMLCleared p) (wp_ReviewNotes p)) db))"
    by (simp add: HandleKYCWebhook_def k(1,2) Let_def)
  show ?thesis unfolding s by (rule report_step[OF by_identity_reports drv inv k0])
qed


lemma UploadDocument_step:
  assumes drv: "kyc_drv_ok drv" and inv: "kyc_inv db"
  shows "kyc_step (\<lambda>_. False) db (snd (UploadDocument drv env body db))"
proof -
  have "kyc_step (\<lambda>_. False) db (writeAuditLog drv env u a t i d (db\<lparr> t_docs := ds \<rparr>))" for u a t i d ds
    by (metis audit_step[OF drv] kyc_step_inv kyc_step_trans[OF by_identity_none] screens_step(2)[OF inv])
  then show ?thesis using kyc_step_refl[OF inv] by (auto simp: UploadDocument_def split: sum.split)
qed

lemma ScreenAML_step:
  assumes drv: "kyc_drv_ok drv" and inv: "kyc_inv db"
  shows "kyc_step (\<lambda>_. False) db (snd (ScreenAML drv env body db))"
proof (cases "snd (ScreenAML drv env body db) = db")
  case True
  then show ?thesis using kyc_step_refl[OF inv] by simp
next
  case False
  then obtain kyc x y where r: "runAMLScreening drv env kyc db = (x, y, snd (ScreenAML drv env body db))"
    by (auto simp: ScreenAML_def split: sum.splits prod.splits)
  show ?thesis using runAMLScreening_step[OF by_identity_none drv inv, of env kyc] by (simp add: r)
qed

lemma ResolveAMLReview_step:
  assumes drv: "kyc_drv_ok drv" and inv: "kyc_inv db"
  shows "kyc_step (\<lambda>_. False) db (snd (ResolveAMLReview drv env uri body db))"
proof (cases "snd (ResolveAMLReview drv env uri body db) = db")
  case True
  then show ?thesis using kyc_step_refl[OF inv] by simp
next
  case False
  then obtain scr kyc cleared nts ss where s: "snd (ResolveAMLReview drv env uri body db) =
      apply_resolution drv env scr kyc cleared nts (db\<lparr> t_screens := ss \<rparr>)"
    by (auto simp: ResolveAMLReview_def Let_def split: sum.splits prod.splits if_splits)
  have one: "kyc_step (\<lambda>_. False) db (db\<lparr> t_screens := ss \<rparr>)" by (rule screens_step(1)[OF inv])
  have two: "kyc_step (\<lambda>_. False) (db\<lparr> t_screens := ss \<rparr>) (update_record drv (kr_ID kyc) (resolution cleared nts) (db\<lparr> t_screens := ss \<rparr>))"
    by (rule record_step[OF drv kyc_step_inv[OF one]]) (simp_all add: on_hold_def resolution_def)
  show ?thesis unfolding s apply_resolution_def
    by (rule kyc_step_trans[OF by_identity_none kyc_step_trans[OF by_identity_none one two] audit_step[OF drv kyc_step_inv[OF two]]])
qed

lemma VerifyAccreditedInvestor_step:
  assumes drv: "kyc_drv_ok drv" and inv: "kyc_inv db"
  shows "kyc_step (\<lambda>_. False) db (snd (VerifyAccreditedInvestor drv env body db))"
proof -
  have "kyc_step (\<lambda>_. False) db (writeAuditLog drv env u a t i d (update_user drv j (us_AccreditedInvestor_update (\<lambda>_. b)) db))"
    for u a t i d j b
  proof -
    have one: "kyc_step (\<lambda>_. False) db (update_user drv j (us_AccreditedInvestor_update (\<lambda>_. b)) db)"
      by (rule user_step[OF drv inv]) (simp add: user_ref_def)
    show ?thesis by (rule kyc_step_trans[OF by_identity_none one audit_step[OF drv kyc_step_inv[OF one]]])
  qed
  then show ?thesis using kyc_step_refl[OF inv] by (auto simp: VerifyAccreditedInvestor_def Let_def split: sum.split)
qed

lemma kyc_step_mono: "kyc_step S db db' \<Longrightarrow> (\<And>k. S k \<Longrightarrow> T k) \<Longrightarrow> kyc_step T db db'"
  unfolding kyc_step_def kyc_moves_def by blast

lemma kyc_handle_step:
  assumes "kyc_drv_ok drv" "kyc_inv db"
  shows "kyc_step (reports_on r) db (snd (kyc_handle drv r db))"
proof -
  note none = SubmitKYC_step[OF assms] UploadDocument_step[OF assms] ScreenAML_step[OF assms] ResolveAMLReview_step[OF assms]
    VerifyAccreditedInvestor_step[OF assms]
  show ?thesis
    using none[THEN kyc_step_mono[where T = "reports_on r"]] GetKYCStatus_step[OF assms] HandleKYCWebhook_step[OF assms]
    by (cases r) simp_all
qed

interpretation kyc: service "kyc_handle drv" "\<lambda>db. kyc_drv_ok drv \<and> kyc_inv db" "\<lambda>_ _. True" for drv
  by unfold_locales (use kyc_handle_step in \<open>auto simp: kyc_step_def\<close>)

text \<open>A sequence of requests lifts only the holds of records that one of its requests reports on.\<close>

lemma kyc_run_step:
  assumes drv: "kyc_drv_ok drv"
  shows "kyc_inv db \<Longrightarrow> kyc_step (\<lambda>k. \<exists>r\<in>set rs. reports_on r k) db (kyc.run drv rs db)"
proof (induction rs arbitrary: db)
  case Nil
  then show ?case by (simp add: kyc_step_refl)
next
  case (Cons r rs)
  let ?S = "\<lambda>k. \<exists>q\<in>set (r # rs). reports_on q k"
  have S: "by_identity ?S" using by_identity_reports unfolding by_identity_def by meson
  have "kyc_step ?S db (snd (kyc_handle drv r db))" using kyc_step_mono[OF kyc_handle_step[OF drv Cons.prems]] by simp
  moreover from this have "kyc_step ?S (snd (kyc_handle drv r db)) (kyc.run drv rs (snd (kyc_handle drv r db)))"
    using kyc_step_mono[OF Cons.IH] kyc_step_inv by simp
  ultimately show ?case using kyc_step_trans[OF S] by simp
qed


lemma hold_survives:
  assumes "kyc_drv_ok drv" "kyc_inv db" "k \<in> set (t_kyc db)" "on_hold k" "list_all (\<lambda>r. \<not> reports_on r k) rs"
  shows "\<exists>k'\<in>set (t_kyc (kyc.run drv rs db)). kr_UserID k' = kr_UserID k \<and> on_hold k'"
  using kyc_run_step[OF assms(1,2), of rs] assms(3-5) unfolding kyc_step_def kyc_moves_def list_all_iff by blast

lemma run_users:
  assumes "kyc_drv_ok drv" "kyc_inv db"
  shows "map user_ref (t_users (kyc.run drv rs db)) = map user_ref (t_users db)"
  using kyc_run_step[OF assms, of rs] by (simp add: kyc_step_def kyc_moves_def)

subsection \<open>A poll overrides the review\<close>

definition demo_env :: kyc_env where
  "demo_env = \<lparr> ke_submit = (\<lambda>_ _ _ _ _ _. Inr (mock_SubmitVerification ''p1'')), ke_poll = mock_GetVerificationStatus 3 4 0,
     ke_accredited = (\<lambda>_ w. Inr (mock_VerifyAccreditedInvestor w)), ke_screen = (\<lambda>n _ _. noop_Screen ''s1'' 0 n),
     ke_hash = (\<lambda>s. s), ke_details = (\<lambda>_. ''{}''), ke_matches = (\<lambda>_. ''[]''), ke_ip = ''::1'' \<rparr>"

definition demo_submit :: kyc_req where
  "demo_submit = ReqSubmit demo_env (Inr \<lparr> sk_UserID = 7, sk_FullName = ''Ann'', sk_DateOfBirth = '''', sk_Nationality = '''',
     sk_DocumentType = ''passport'', sk_DocumentNumber = ''1'' \<rparr>)"

definition demo_kyc :: kyc_db where
  "demo_kyc = \<lparr> t_users = [\<lparr> us_ID = 7, us_StellarAddress = ''GA'', us_KYCVerified = False, us_AccreditedInvestor = False, us_Deleted = False \<rparr>],
     t_kyc = [], t_docs = [], t_screens = [], t_audit = [] \<rparr>"

lemma demo_kyc_inv: "kyc_inv demo_kyc"
  by (simp add: kyc_inv_def demo_kyc_def)

text \<open>A flagged record "waits for a human decision via ResolveAMLReview": yet any request for its status polls the identity
  provider, whose answer replaces both the status and the AML decision.\<close>

lemma poll_overrides_review:
  "map (\<lambda>k. (kr_Status k, kr_AMLCleared k)) (t_kyc (kyc.run mem_kyc [demo_submit] demo_kyc)) = [(''review'', False)]"
  "map (\<lambda>k. (kr_Status k, kr_AMLCleared k)) (t_kyc (kyc.run mem_kyc [demo_submit, ReqPoll demo_env (Some (Some 7))] demo_kyc)) =
     [(''approved'', True)]"
  "map us_KYCVerified (t_users (kyc.run mem_kyc [demo_submit, ReqPoll demo_env (Some (Some 7))] demo_kyc)) = [True]"
  unfolding kyc.run.simps by code_simp+

end
