(* ===== verification/Transfers.thy ===== *)
theory Transfers
  imports Workflow Kyc
begin

section \<open>Transfers and listings behind the compliance check (services/transfer\_validator.go, handlers/assets.go)\<close>

text \<open>
  \<open>TransferAsset\<close> and \<open>ListAssetForSale\<close> join three components: the compliance check reads the users and KYC records that \<open>Kyc\<close>
  keeps, and a transfer that a workflow covers becomes an approval request of \<open>Workflow\<close>. The handler is built by
  \<open>NewAssetHandler\<close>, so the check is always present. The transaction hash and the listing id are unique columns. Left out: the
  memo of a transaction, which no code reads, the confirmation e-mail and the deletion of a cached asset, whose errors are logged.
\<close>

subsection \<open>Data\<close>

record Listing =
  li_ID :: nat
  li_AssetID :: nat
  li_SellerAddr :: string
  li_Amount :: int
  li_PricePerUnit :: int
  li_Active :: bool
  li_ListingID :: string

record market_db =
  mk_kyc :: kyc_db
  mk_wf :: wf_db
  mk_listings :: "Listing list"

record market_drv =
  d_compliance :: kyc_drv
  d_approvals :: wf_drv
  d_listings :: "Listing gorm"

record TransferAssetRequest =
  ta_AssetID :: nat
  ta_FromAddress :: string
  ta_ToAddress :: string
  ta_Amount :: int

record ListAssetSaleRequest =
  ls_AssetID :: nat
  ls_SellerAddr :: string
  ls_Amount :: int
  ls_PricePerUnit :: int

subsection \<open>The check\<close>

text \<open>\<open>None\<close> is the nil error; a violation is answered with 403, another error with 500.\<close>

datatype transfer_error = TransferRestrictionViolation string | LookupFailed string

definition userByAddress :: "kyc_drv \<Rightarrow> string \<Rightarrow> kyc_db \<Rightarrow> string + user_row option" where
  "userByAddress drv address db =
     (case g_first (d_users drv) (\<lambda>u. us_StellarAddress u = address \<and> \<not> us_Deleted u) (t_users db) of
        Inl ErrRecordNotFound \<Rightarrow> Inr None
      | Inl e \<Rightarrow> Inl (''failed to look up user for address '' @ address @ '': '' @ err_msg e)
      | Inr user \<Rightarrow> Inr (Some user))"

definition requireGoodStanding :: "kyc_drv \<Rightarrow> user_row \<Rightarrow> string \<Rightarrow> kyc_db \<Rightarrow> transfer_error option" where
  "requireGoodStanding drv user role db =
     (if \<not> us_KYCVerified user then Some (TransferRestrictionViolation (role @ '' has not completed KYC verification''))
      else case g_first (d_kyc drv) (\<lambda>k. kr_UserID k = us_ID user) (t_kyc db) of
             Inr kyc \<Rightarrow>
               if \<not> kr_AMLCleared kyc then Some (TransferRestrictionViolation (role @ '' has not cleared AML screening''))
               else if kr_Status kyc = KYCStatusReview
               then Some (TransferRestrictionViolation (role @ CHR 0x27 # ''s compliance record is under manual review''))
               else if kr_Status kyc = KYCStatusRejected \<or> kr_Status kyc = KYCStatusExpired
               then Some (TransferRestrictionViolation (role @ CHR 0x27 # ''s KYC record is '' @ kr_Status kyc))
               else None
           | Inl ErrRecordNotFound \<Rightarrow> None
           | Inl e \<Rightarrow> Some (LookupFailed (''failed to load KYC record for user '' @ show_nat (us_ID user) @ '': '' @ err_msg e)))"

definition checkParty :: "kyc_drv \<Rightarrow> string \<Rightarrow> string \<Rightarrow> kyc_db \<Rightarrow> transfer_error option" where
  "checkParty drv role address db =
     (case userByAddress drv address db of
        Inl e \<Rightarrow> Some (LookupFailed e)
      | Inr None \<Rightarrow> Some (TransferRestrictionViolation (role @ '' '' @ address @ '' is not a registered platform user''))
      | Inr (Some user) \<Rightarrow> requireGoodStanding drv user role db)"

definition ValidateTransfer :: "market_drv \<Rightarrow> string \<Rightarrow> string \<Rightarrow> nat \<Rightarrow> int \<Rightarrow> market_db \<Rightarrow> transfer_error option" where
  "ValidateTransfer drv fromAddress toAddress assetID amount db =
     (if amount \<le> 0 then Some (TransferRestrictionViolation ''amount must be positive'')
      else case checkParty (d_compliance drv) ''sender'' fromAddress (mk_kyc db) of
             Some e \<Rightarrow> Some e
           | None \<Rightarrow>
               (case checkParty (d_compliance drv) ''recipient'' toAddress (mk_kyc db) of
                  Some e \<Rightarrow> Some e
                | None \<Rightarrow>
                    (case g_first (d_assetrows (d_approvals drv)) (\<lambda>a. as_ID a = assetID) (t_assetrows (mk_wf db)) of
                       Inl e \<Rightarrow> Some (LookupFailed (''failed to load asset '' @ show_nat assetID @ '': '' @ err_msg e))
                     | Inr _ \<Rightarrow> None)))"

definition ValidateSeller :: "market_drv \<Rightarrow> string \<Rightarrow> market_db \<Rightarrow> transfer_error option" where
  "ValidateSeller drv address db = checkParty (d_compliance drv) ''seller'' address (mk_kyc db)"

definition restriction_response :: "string \<Rightarrow> transfer_error \<Rightarrow> 'b response" where
  "restriction_response internal e =
     (case e of
        TransferRestrictionViolation reason \<Rightarrow> Fail StatusForbidden (''transfer restricted: '' @ reason)
      | LookupFailed _ \<Rightarrow> Fail StatusInternalServerError internal)"

subsection \<open>The endpoints\<close>

datatype transfer_reply = Recorded transfer | AwaitingApproval ApprovalRequest

text \<open>\<open>requester\<close> is the authenticated user, if there is one and the handler has a workflow service.\<close>

definition recordTransfer :: "market_drv \<Rightarrow> TransferAssetRequest \<Rightarrow> market_db \<Rightarrow> transfer_reply response \<times> market_db" where
  "recordTransfer drv req db =
     (case g_create (d_transfers (d_approvals drv))
             \<lparr> tf_ID = 0, tf_AssetID = ta_AssetID req, tf_FromAddress = ta_FromAddress req, tf_ToAddress = ta_ToAddress req,
               tf_Amount = ta_Amount req, tf_TxHash = ''tx_hash_placeholder'', tf_Status = ''pending'' \<rparr> (t_transfers (mk_wf db)) of
        Inl _ \<Rightarrow> (Fail StatusInternalServerError ''Failed to record transaction'', db)
      | Inr (t, ts) \<Rightarrow> (Reply StatusOK (Recorded t), db\<lparr> mk_wf := (mk_wf db)\<lparr> t_transfers := ts \<rparr> \<rparr>))"

definition routeTransfer :: "market_drv \<Rightarrow> string \<Rightarrow> instant \<Rightarrow> nat option \<Rightarrow> TransferAssetRequest \<Rightarrow> market_db \<Rightarrow>
    transfer_reply response \<times> market_db" where
  "routeTransfer drv uuid now requester req db =
     (case requester of
        None \<Rightarrow> recordTransfer drv req db
      | Some userID \<Rightarrow>
          (case CreateTransferRequest (d_approvals drv) uuid now userID
                  \<lparr> in_AssetID = ta_AssetID req, in_FromAddress = ta_FromAddress req, in_ToAddress = ta_ToAddress req,
                    in_Amount = ta_Amount req \<rparr> (mk_wf db) of
             (Ok approval, w) \<Rightarrow> (Reply 202 (AwaitingApproval approval), db\<lparr> mk_wf := w \<rparr>)
           | (ErrNoMatchingWorkflow, w) \<Rightarrow> recordTransfer drv req (db\<lparr> mk_wf := w \<rparr>)
           | (Err _, w) \<Rightarrow> (Fail StatusInternalServerError ''failed to create approval request'', db\<lparr> mk_wf := w \<rparr>)
           | (Panic, w) \<Rightarrow> (Crash, db\<lparr> mk_wf := w \<rparr>)))"

definition TransferAsset :: "market_drv \<Rightarrow> string \<Rightarrow> instant \<Rightarrow> nat option \<Rightarrow> string + TransferAssetRequest \<Rightarrow> market_db \<Rightarrow>
    transfer_reply response \<times> market_db" where
  "TransferAsset drv uuid now requester body db =
     (case body of
        Inl e \<Rightarrow> (Fail StatusBadRequest e, db)
      | Inr req \<Rightarrow>
          (case g_first (d_assetrows (d_approvals drv)) (\<lambda>a. as_ID a = ta_AssetID req) (t_assetrows (mk_wf db)) of
             Inl _ \<Rightarrow> (Fail StatusNotFound ''Asset not found'', db)
           | Inr _ \<Rightarrow>
               (case ValidateTransfer drv (ta_FromAddress req) (ta_ToAddress req) (ta_AssetID req) (ta_Amount req) db of
                  Some e \<Rightarrow> (restriction_response ''Failed to validate transfer'' e, db)
                | None \<Rightarrow> routeTransfer drv uuid now requester req db)))"

definition ListAssetForSale :: "market_drv \<Rightarrow> string + ListAssetSaleRequest \<Rightarrow> market_db \<Rightarrow> Listing response \<times> market_db" where
  "ListAssetForSale drv body db =
     (case body of
        Inl e \<Rightarrow> (Fail StatusBadRequest e, db)
      | Inr req \<Rightarrow>
          (case g_first (d_assetrows (d_approvals drv)) (\<lambda>a. as_ID a = ls_AssetID req) (t_assetrows (mk_wf db)) of
             Inl _ \<Rightarrow> (Fail StatusNotFound ''Asset not found'', db)
           | Inr _ \<Rightarrow>
               (case ValidateSeller drv (ls_SellerAddr req) db of
                  Some e \<Rightarrow> (restriction_response ''Failed to validate seller'' e, db)
                | None \<Rightarrow>
                    (case g_create (d_listings drv)
                            \<lparr> li_ID = 0, li_AssetID = ls_AssetID req, li_SellerAddr = ls_SellerAddr req, li_Amount = ls_Amount req,
                              li_PricePerUnit = ls_PricePerUnit req, li_Active = True, li_ListingID = ''listing_1'' \<rparr> (mk_listings db) of
                       Inl _ \<Rightarrow> (Fail StatusInternalServerError ''Failed to create listing'', db)
                     | Inr (l, ls) \<Rightarrow> (Reply StatusCreated l, db\<lparr> mk_listings := ls \<rparr>)))))"


subsection \<open>Good standing\<close>

text \<open>The specification of the check, on the tables.\<close>

definition good_standing :: "kyc_db \<Rightarrow> string \<Rightarrow> bool" where
  "good_standing db address \<longleftrightarrow>
     (\<exists>u\<in>set (t_users db). us_StellarAddress u = address \<and> \<not> us_Deleted u \<and> us_KYCVerified u \<and>
        (\<forall>k\<in>set (t_kyc db). kr_UserID k = us_ID u \<longrightarrow> kr_AMLCleared k \<and> \<not> on_hold k))"

definition may_transfer :: "market_db \<Rightarrow> TransferAssetRequest \<Rightarrow> bool" where
  "may_transfer db req \<longleftrightarrow> 0 < ta_Amount req \<and> good_standing (mk_kyc db) (ta_FromAddress req) \<and>
     good_standing (mk_kyc db) (ta_ToAddress req) \<and> (\<exists>a\<in>set (t_assetrows (mk_wf db)). as_ID a = ta_AssetID req)"

definition market_inv :: "market_db \<Rightarrow> bool" where
  "market_inv db \<longleftrightarrow> kyc_inv (mk_kyc db) \<and>
     distinct (map us_StellarAddress (filter (\<lambda>u. \<not> us_Deleted u) (t_users (mk_kyc db))))"

definition market_drv_ok :: "market_drv \<Rightarrow> bool" where
  "market_drv_ok drv \<longleftrightarrow> kyc_drv_ok (d_compliance drv) \<and> wf_drv_ok (d_approvals drv) \<and>
     gorm_ok li_ID (\<lambda>k. li_ID_update (\<lambda>_. k)) (d_listings drv)"

lemma one_address:
  assumes "market_inv db" "u \<in> set (t_users (mk_kyc db))" "v \<in> set (t_users (mk_kyc db))" "\<not> us_Deleted u" "\<not> us_Deleted v"
    "us_StellarAddress u = us_StellarAddress v"
  shows "u = v"
  by (rule distinct_key_unique[of us_StellarAddress "filter (\<lambda>u. \<not> us_Deleted u) (t_users (mk_kyc db))"])
    (use assms in \<open>simp_all add: market_inv_def\<close>)

lemma one_record:
  assumes "market_inv db" "k \<in> set (t_kyc (mk_kyc db))" "k' \<in> set (t_kyc (mk_kyc db))" "kr_UserID k = kr_UserID k'"
  shows "k = k'"
  by (rule distinct_key_unique[of kr_UserID "t_kyc (mk_kyc db)"]) (use assms in \<open>simp_all add: market_inv_def kyc_inv_def\<close>)

text \<open>A check that passes has found the user in good standing; one that answers a violation has found it is not.\<close>

lemma first_outcomes:
  obtains x where "f = Inr x" | "f = Inl ErrRecordNotFound" | e where "f = Inl (DBError e)"
  by (metis dberr.exhaust sumE)

definition cleared_record :: "KYCRecord \<Rightarrow> bool" where
  "cleared_record k \<longleftrightarrow> kr_AMLCleared k \<and> \<not> on_hold k"

lemma requireGoodStanding_outcome:
  "requireGoodStanding drv u role db = None \<longleftrightarrow> us_KYCVerified u \<and>
     (case g_first (d_kyc drv) (\<lambda>k. kr_UserID k = us_ID u) (t_kyc db) of Inr k \<Rightarrow> cleared_record k | Inl e \<Rightarrow> e = ErrRecordNotFound)"
  "requireGoodStanding drv u role db = Some (TransferRestrictionViolation m) \<Longrightarrow> \<not> us_KYCVerified u \<or>
     (\<exists>k. g_first (d_kyc drv) (\<lambda>k. kr_UserID k = us_ID u) (t_kyc db) = Inr k \<and> \<not> cleared_record k)"
proof -
  let ?f = "g_first (d_kyc drv) (\<lambda>k. kr_UserID k = us_ID u) (t_kyc db)"
  consider "\<not> us_KYCVerified u" | k where "us_KYCVerified u" "?f = Inr k" | "us_KYCVerified u" "?f = Inl ErrRecordNotFound"
    | s where "us_KYCVerified u" "?f = Inl (DBError s)" by (rule first_outcomes[of ?f]) blast+
  then have "(requireGoodStanding drv u role db = None \<longleftrightarrow> us_KYCVerified u \<and>
     (case ?f of Inr k \<Rightarrow> cleared_record k | Inl e \<Rightarrow> e = ErrRecordNotFound)) \<and>
     (requireGoodStanding drv u role db = Some (TransferRestrictionViolation m) \<longrightarrow> \<not> us_KYCVerified u \<or>
     (\<exists>k. ?f = Inr k \<and> \<not> cleared_record k))"
    by cases (simp_all add: requireGoodStanding_def cleared_record_def on_hold_def)
  then show "requireGoodStanding drv u role db = None \<longleftrightarrow> us_KYCVerified u \<and>
     (case ?f of Inr k \<Rightarrow> cleared_record k | Inl e \<Rightarrow> e = ErrRecordNotFound)"
    "requireGoodStanding drv u role db = Some (TransferRestrictionViolation m) \<Longrightarrow> \<not> us_KYCVerified u \<or>
     (\<exists>k. ?f = Inr k \<and> \<not> cleared_record k)" by blast+
qed

definition in_standing :: "kyc_db \<Rightarrow> user_row \<Rightarrow> bool" where
  "in_standing db u \<longleftrightarrow> us_KYCVerified u \<and> (\<forall>k\<in>set (t_kyc db). kr_UserID k = us_ID u \<longrightarrow> cleared_record k)"

lemma good_standing_iff:
  "good_standing db address \<longleftrightarrow> (\<exists>u\<in>set (t_users db). us_StellarAddress u = address \<and> \<not> us_Deleted u \<and> in_standing db u)"
  by (auto simp: good_standing_def in_standing_def cleared_record_def)

lemma requireGoodStanding_cases:
  assumes drv: "kyc_drv_ok (d_compliance drv)" and inv: "market_inv db"
  shows "requireGoodStanding (d_compliance drv) u role (mk_kyc db) = None \<Longrightarrow> in_standing (mk_kyc db) u"
    and "requireGoodStanding (d_compliance drv) u role (mk_kyc db) = Some (TransferRestrictionViolation m) \<Longrightarrow> \<not> in_standing (mk_kyc db) u"
proof -
  let ?f = "g_first (d_kyc (d_compliance drv)) (\<lambda>k. kr_UserID k = us_ID u) (t_kyc (mk_kyc db))"
  note g = kyc_drvD(2)[OF drv]
  have some: "in_standing (mk_kyc db) u \<longleftrightarrow> us_KYCVerified u \<and> cleared_record k" if "?f = Inr k" for k
    using gorm_firstD[OF g that] one_record[OF inv, of k] unfolding in_standing_def by (metis (mono_tags, lifting))
  have none: "in_standing (mk_kyc db) u \<longleftrightarrow> us_KYCVerified u" if "?f = Inl ErrRecordNotFound"
    using gorm_first_none[OF g that] unfolding in_standing_def by blast
  show "requireGoodStanding (d_compliance drv) u role (mk_kyc db) = None \<Longrightarrow> in_standing (mk_kyc db) u"
    using some none by (cases ?f) (auto simp: requireGoodStanding_outcome(1))
  show "requireGoodStanding (d_compliance drv) u role (mk_kyc db) = Some (TransferRestrictionViolation m) \<Longrightarrow> \<not> in_standing (mk_kyc db) u"
    using some by (auto dest: requireGoodStanding_outcome(2) simp: in_standing_def)
qed

lemma checkParty_cases:
  assumes drv: "kyc_drv_ok (d_compliance drv)" and inv: "market_inv db"
  shows "checkParty (d_compliance drv) role address (mk_kyc db) = None \<Longrightarrow> good_standing (mk_kyc db) address"
    and "checkParty (d_compliance drv) role address (mk_kyc db) = Some (TransferRestrictionViolation m) \<Longrightarrow> \<not> good_standing (mk_kyc db) address"
proof -
  let ?P = "\<lambda>u. us_StellarAddress u = address \<and> \<not> us_Deleted u"
  let ?f = "g_first (d_users (d_compliance drv)) ?P (t_users (mk_kyc db))"
  note g = kyc_drvD(1)[OF drv]
  have found: "good_standing (mk_kyc db) address \<longleftrightarrow> in_standing (mk_kyc db) u" if "?f = Inr u" for u
    using gorm_firstD[OF g that] one_address[OF inv, of u] unfolding good_standing_iff by metis
  have missing: "\<not> good_standing (mk_kyc db) address" if "?f = Inl ErrRecordNotFound"
    using gorm_first_none[OF g that] unfolding good_standing_iff by blast
  consider u where "?f = Inr u" | "?f = Inl ErrRecordNotFound" | e where "?f = Inl (DBError e)"
    by (rule first_outcomes[of ?f]) blast+
  then have "(checkParty (d_compliance drv) role address (mk_kyc db) = None \<longrightarrow> good_standing (mk_kyc db) address) \<and>
    (checkParty (d_compliance drv) role address (mk_kyc db) = Some (TransferRestrictionViolation m) \<longrightarrow> \<not> good_standing (mk_kyc db) address)"
    by cases (use found missing requireGoodStanding_cases[OF drv inv] in \<open>simp_all add: checkParty_def userByAddress_def\<close>)
  then show "checkParty (d_compliance drv) role address (mk_kyc db) = None \<Longrightarrow> good_standing (mk_kyc db) address"
    "checkParty (d_compliance drv) role address (mk_kyc db) = Some (TransferRestrictionViolation m) \<Longrightarrow> \<not> good_standing (mk_kyc db) address"
    by blast+
qed

lemma ValidateTransfer_cases:
  assumes drv: "market_drv_ok drv" and inv: "market_inv db"
  shows "ValidateTransfer drv (ta_FromAddress req) (ta_ToAddress req) (ta_AssetID req) (ta_Amount req) db = None \<Longrightarrow> may_transfer db req"
    and "ValidateTransfer drv (ta_FromAddress req) (ta_ToAddress req) (ta_AssetID req) (ta_Amount req) db = Some (TransferRestrictionViolation m) \<Longrightarrow>
      \<not> may_transfer db req"
proof -
  have c: "kyc_drv_ok (d_compliance drv)" and assets: "gorm_ok as_ID (\<lambda>k. as_ID_update (\<lambda>_. k)) (d_assetrows (d_approvals drv))"
    using drv by (simp_all add: market_drv_ok_def wf_drv_ok_def)
  note cases = checkParty_cases[OF c inv]
  show "ValidateTransfer drv (ta_FromAddress req) (ta_ToAddress req) (ta_AssetID req) (ta_Amount req) db = None \<Longrightarrow> may_transfer db req"
    using cases(1) gorm_firstD[OF assets] unfolding ValidateTransfer_def may_transfer_def
    by (auto split: if_splits option.splits sum.splits) blast
  show "ValidateTransfer drv (ta_FromAddress req) (ta_ToAddress req) (ta_AssetID req) (ta_Amount req) db = Some (TransferRestrictionViolation m) \<Longrightarrow>
      \<not> may_transfer db req"
    using cases(2) unfolding ValidateTransfer_def may_transfer_def by (auto split: if_splits option.splits sum.splits)
qed


subsection \<open>What the endpoints add\<close>

definition parties :: "transfer \<Rightarrow> string \<times> string" where
  "parties t = (tf_FromAddress t, tf_ToAddress t)"

definition transfer_of :: "TransferAssetRequest \<Rightarrow> string \<Rightarrow> transfer \<Rightarrow> bool" where
  "transfer_of req status t \<longleftrightarrow> tf_AssetID t = ta_AssetID req \<and> tf_FromAddress t = ta_FromAddress req \<and> tf_ToAddress t = ta_ToAddress req \<and>
     tf_Amount t = ta_Amount req \<and> tf_Status t = status"

definition request_for :: "nat \<Rightarrow> TransferAssetRequest \<Rightarrow> transfer \<Rightarrow> ApprovalRequest \<Rightarrow> bool" where
  "request_for u req t q \<longleftrightarrow> rq_TransactionID q = tf_ID t \<and> rq_RequesterUserID q = u \<and> rq_AssetID q = ta_AssetID req \<and>
     rq_FromAddress q = ta_FromAddress req \<and> rq_ToAddress q = ta_ToAddress req \<and> rq_Amount q = ta_Amount req \<and>
     rq_Status q = ''pending'' \<and> rq_CurrentStep q = 1 \<and> rq_CompletedAt q = None"

definition add_rows :: "transfer list \<Rightarrow> ApprovalRequest list \<Rightarrow> market_db \<Rightarrow> market_db" where
  "add_rows ts qs db = db\<lparr> mk_wf := (mk_wf db)\<lparr> t_transfers := t_transfers (mk_wf db) @ ts, t_reqs := t_reqs (mk_wf db) @ qs \<rparr> \<rparr>"

text \<open>The outcomes of a transfer that passes the gate: nothing but an error; one direct transfer; or one transfer awaiting approval with
  its approval request, which the answer shows unless it cannot be read back.\<close>

definition transfer_done :: "TransferAssetRequest \<Rightarrow> nat option \<Rightarrow> transfer_reply response \<Rightarrow> market_db \<Rightarrow> market_db \<Rightarrow> bool" where
  "transfer_done req requester r db db' \<longleftrightarrow>
     (\<exists>t. r = Reply StatusOK (Recorded t) \<and> transfer_of req ''pending'' t \<and> db' = add_rows [t] [] db) \<or>
     (\<exists>u t q. requester = Some u \<and> transfer_of req ''approval_pending'' t \<and> request_for u req t q \<and> db' = add_rows [t] [q] db \<and>
        (r = Reply 202 (AwaitingApproval q) \<or> r = Fail StatusInternalServerError ''failed to create approval request''))"

lemma recordTransfer_cases:
  assumes "market_drv_ok drv" "recordTransfer drv req db = (r, db')"
  shows "db' = db \<and> is_fail r \<or> (\<exists>t. r = Reply StatusOK (Recorded t) \<and> transfer_of req ''pending'' t \<and> db' = add_rows [t] [] db)"
proof -
  have g: "gorm_ok tf_ID (\<lambda>k. tf_ID_update (\<lambda>_. k)) (d_transfers (d_approvals drv))"
    using assms(1) by (simp add: market_drv_ok_def wf_drv_ok_def)
  show ?thesis using assms(2) unfolding recordTransfer_def
    by (auto simp: transfer_of_def add_rows_def split: sum.splits elim!: gorm_createD[OF g])
qed

lemma request_txD:
  assumes "wf_drv_ok drv" "request_tx drv uuid now u inp w db = Inr (q, db')"
  obtains t where "tf_AssetID t = in_AssetID inp" "tf_FromAddress t = in_FromAddress inp" "tf_ToAddress t = in_ToAddress inp"
    "tf_Amount t = in_Amount inp" "tf_Status t = ''approval_pending''" "rq_TransactionID q = tf_ID t" "rq_RequesterUserID q = u"
    "rq_AssetID q = in_AssetID inp" "rq_FromAddress q = in_FromAddress inp" "rq_ToAddress q = in_ToAddress inp" "rq_Amount q = in_Amount inp"
    "rq_Status q = ''pending''" "rq_CurrentStep q = 1" "rq_CompletedAt q = None" "rq_ID q \<notin> rq_ID ` set (t_reqs db)"
    "db' = db\<lparr> t_transfers := t_transfers db @ [t], t_reqs := t_reqs db @ [q] \<rparr>"
proof -
  obtain t0 q0 t ts qs where t: "g_create (d_transfers drv) t0 (t_transfers db) = Inr (t, ts)"
    and t0: "t0 = \<lparr> tf_ID = 0, tf_AssetID = in_AssetID inp, tf_FromAddress = in_FromAddress inp, tf_ToAddress = in_ToAddress inp,
                   tf_Amount = in_Amount inp, tf_TxHash = ''approval-'' @ uuid, tf_Status = ''approval_pending'' \<rparr>"
    and q: "g_create (d_reqs drv) q0 (t_reqs db) = Inr (q, qs)"
    and q0: "q0 = \<lparr> rq_ID = 0, rq_WorkflowID = wf_ID w, rq_TransactionID = tf_ID t, rq_RequesterUserID = u,
                   rq_AssetID = in_AssetID inp, rq_FromAddress = in_FromAddress inp, rq_ToAddress = in_ToAddress inp,
                   rq_Amount = in_Amount inp, rq_Status = ''pending'', rq_CurrentStep = 1,
                   rq_ExpiresAt = now + mul64 (wf_TimeoutHours w) Hour, rq_CompletedAt = None, rq_CreatedAt = now \<rparr>"
    and db': "db' = db\<lparr> t_transfers := ts, t_reqs := qs \<rparr>"
    using assms(2) by (auto simp: request_tx_def and_then_def split: sum.splits)
  obtain k where "t = t0\<lparr> tf_ID := k \<rparr>" "ts = t_transfers db @ [t]" by (rule gorm_createD[OF wf_drvD(5)[OF assms(1)] t])
  moreover obtain m where "m \<notin> rq_ID ` set (t_reqs db)" "q = q0\<lparr> rq_ID := m \<rparr>" "qs = t_reqs db @ [q]"
    by (rule gorm_createD[OF wf_drvD(3)[OF assms(1)] q])
  ultimately show ?thesis using that[of t] t0 q0 db' by simp
qed

lemma CreateTransferRequest_cases:
  assumes drv: "wf_drv_ok drv" and c: "CreateTransferRequest drv uuid now u inp db = (r, db')"
  obtains "db' = db" "r = ErrNoMatchingWorkflow \<or> (\<exists>e. r = Err e)"
  | w q where "request_tx drv uuid now u inp w db = Inr (q, db')" "r = Ok q \<or> (\<exists>e. r = Err e)"
proof -
  consider "db' = db" "r = ErrNoMatchingWorkflow \<or> (\<exists>e. r = Err e)"
    | w q where "transaction (d_wtx drv) (request_tx drv uuid now u inp w) db = (Inr q, db')" "r = of_request (GetRequest drv (rq_ID q) db')"
  proof (cases "g_first (d_assetrows drv) (\<lambda>a. as_ID a = in_AssetID inp) (t_assetrows db)")
    case (Inr a)
    note a = this
    show ?thesis
    proof (cases "find_workflow drv (as_AssetType a) (in_Amount inp) db")
      case (Inl e)
      then show ?thesis using a c that(1) by (cases e) (auto simp: CreateTransferRequest_def)
    next
      case (Inr w)
      then show ?thesis using a c that
        by (cases rule: transaction_cases[of "d_wtx drv" "request_tx drv uuid now u inp w" db]) (auto simp: CreateTransferRequest_def)
    qed
  qed (use c that(1) in \<open>auto simp: CreateTransferRequest_def\<close>)
  then show ?thesis
  proof cases
    case (2 w q)
    have body: "request_tx drv uuid now u inp w db = Inr (q, db')" by (rule transaction_Inr[OF 2(1)])
    have "x = q" if x: "GetRequest drv (rq_ID q) db' = Inr x" for x
    proof (rule request_txD[OF drv body])
      fix t assume "rq_ID q \<notin> rq_ID ` set (t_reqs db)" "db' = db\<lparr> t_transfers := t_transfers db @ [t], t_reqs := t_reqs db @ [q] \<rparr>"
      then show "x = q" using gorm_firstD[OF wf_drvD(3)[OF drv] x[unfolded GetRequest_def]] by (auto simp: image_iff)
    qed
    then have "r = Ok q \<or> (\<exists>e. r = Err e)" using 2(2) by (auto simp: of_request_def split: sum.split)
    with body show ?thesis by (rule that(2))
  qed (rule that(1))
qed

lemma routeTransfer_cases:
  assumes drv: "market_drv_ok drv" and route: "routeTransfer drv uuid now requester req db = (r, db')"
  shows "db' = db \<and> is_fail r \<or> transfer_done req requester r db db'"
proof (cases requester)
  case None
  then show ?thesis using recordTransfer_cases[OF drv, of req db r db'] route by (auto simp: routeTransfer_def transfer_done_def)
next
  case (Some u)
  let ?inp = "\<lparr> in_AssetID = ta_AssetID req, in_FromAddress = ta_FromAddress req, in_ToAddress = ta_ToAddress req, in_Amount = ta_Amount req \<rparr>"
  obtain x w where c: "CreateTransferRequest (d_approvals drv) uuid now u ?inp (mk_wf db) = (x, w)" by fastforce
  have wf: "wf_drv_ok (d_approvals drv)" using drv by (simp add: market_drv_ok_def)
  show ?thesis
  proof (cases rule: CreateTransferRequest_cases[OF wf c])
    case 1
    then show ?thesis using route Some c recordTransfer_cases[OF drv, of req db r db'] by (auto simp: routeTransfer_def transfer_done_def)
  next
    case (2 v q)
    obtain t where t: "transfer_of req ''approval_pending'' t" "request_for u req t q" "add_rows [t] [q] db = db\<lparr> mk_wf := w \<rparr>"
    proof (rule request_txD[OF wf 2(1)])
      fix t assume "tf_AssetID t = in_AssetID ?inp" "tf_FromAddress t = in_FromAddress ?inp" "tf_ToAddress t = in_ToAddress ?inp"
        "tf_Amount t = in_Amount ?inp" "tf_Status t = ''approval_pending''" "rq_TransactionID q = tf_ID t" "rq_RequesterUserID q = u"
        "rq_AssetID q = in_AssetID ?inp" "rq_FromAddress q = in_FromAddress ?inp" "rq_ToAddress q = in_ToAddress ?inp" "rq_Amount q = in_Amount ?inp"
        "rq_Status q = ''pending''" "rq_CurrentStep q = 1" "rq_CompletedAt q = None"
        "w = (mk_wf db)\<lparr> t_transfers := t_transfers (mk_wf db) @ [t], t_reqs := t_reqs (mk_wf db) @ [q] \<rparr>"
      then show thesis using that[of t] by (simp add: transfer_of_def request_for_def add_rows_def)
    qed
    have "db' = db\<lparr> mk_wf := w \<rparr> \<and> (r = Reply 202 (AwaitingApproval q) \<or> r = Fail StatusInternalServerError ''failed to create approval request'')"
      using route Some c 2(2) by (auto simp: routeTransfer_def)
    then have "transfer_done req requester r db db'" unfolding transfer_done_def using t Some by metis
    then show ?thesis ..
  qed
qed

text \<open>The tables after a transfer: only rows as asked for are added, and nothing else of the market changes.\<close>

definition asked :: "TransferAssetRequest \<Rightarrow> transfer \<Rightarrow> bool" where
  "asked req t \<longleftrightarrow> transfer_of req ''pending'' t \<or> transfer_of req ''approval_pending'' t"

definition adds_only :: "TransferAssetRequest \<Rightarrow> market_db \<Rightarrow> market_db \<Rightarrow> bool" where
  "adds_only req db db' \<longleftrightarrow> mk_kyc db' = mk_kyc db \<and> mk_listings db' = mk_listings db \<and>
     (\<exists>ts. t_transfers (mk_wf db') = t_transfers (mk_wf db) @ ts \<and> (\<forall>t\<in>set ts. asked req t))"

lemma asked_parties: "asked req t \<Longrightarrow> parties t = (ta_FromAddress req, ta_ToAddress req)"
  by (auto simp: asked_def transfer_of_def parties_def)

lemma routeTransfer_adds:
  assumes "market_drv_ok drv"
  shows "adds_only req db (snd (routeTransfer drv uuid now requester req db))"
  using routeTransfer_cases[OF assms surjective_pairing, of uuid now requester req db]
  by (auto simp: transfer_done_def adds_only_def add_rows_def asked_def)

lemma TransferAsset_adds:
  assumes drv: "market_drv_ok drv" and inv: "market_inv db" and ne: "snd (TransferAsset drv uuid now requester body db) \<noteq> db"
  shows "\<exists>req. body = Inr req \<and> may_transfer db req \<and> adds_only req db (snd (TransferAsset drv uuid now requester body db))"
proof -
  obtain req where req: "body = Inr req"
    "ValidateTransfer drv (ta_FromAddress req) (ta_ToAddress req) (ta_AssetID req) (ta_Amount req) db = None"
    "snd (TransferAsset drv uuid now requester body db) = snd (routeTransfer drv uuid now requester req db)"
    using ne by (auto simp: TransferAsset_def split: sum.splits option.splits)
  then show ?thesis using ValidateTransfer_cases(1)[OF drv inv req(2)] routeTransfer_adds[OF drv] by simp
qed

lemma ListAssetForSale_adds:
  assumes drv: "market_drv_ok drv" and inv: "market_inv db" and ne: "snd (ListAssetForSale drv body db) \<noteq> db"
  shows "\<exists>req l. body = Inr req \<and> good_standing (mk_kyc db) (ls_SellerAddr req) \<and> li_SellerAddr l = ls_SellerAddr req \<and>
    snd (ListAssetForSale drv body db) = db\<lparr> mk_listings := mk_listings db @ [l] \<rparr>"
proof -
  have c: "kyc_drv_ok (d_compliance drv)" and g: "gorm_ok li_ID (\<lambda>k. li_ID_update (\<lambda>_. k)) (d_listings drv)"
    using drv by (simp_all add: market_drv_ok_def)
  obtain req l ls where req: "body = Inr req" "ValidateSeller drv (ls_SellerAddr req) db = None"
    "g_create (d_listings drv) \<lparr> li_ID = 0, li_AssetID = ls_AssetID req, li_SellerAddr = ls_SellerAddr req, li_Amount = ls_Amount req,
       li_PricePerUnit = ls_PricePerUnit req, li_Active = True, li_ListingID = ''listing_1'' \<rparr> (mk_listings db) = Inr (l, ls)"
    "snd (ListAssetForSale drv body db) = db\<lparr> mk_listings := ls \<rparr>"
    using ne by (auto simp: ListAssetForSale_def split: sum.splits option.splits)
  have "good_standing (mk_kyc db) (ls_SellerAddr req)" using checkParty_cases(1)[OF c inv] req(2) by (simp add: ValidateSeller_def)
  moreover have "li_SellerAddr l = ls_SellerAddr req" "ls = mk_listings db @ [l]" by (rule gorm_createD[OF g req(3)], simp)+
  ultimately show ?thesis using req(1,4) by blast
qed


subsection \<open>Decisions keep the parties of a transfer\<close>

abbreviation all_parties :: "wf_db \<Rightarrow> (string \<times> string) list" where
  "all_parties db \<equiv> map parties (t_transfers db)"

lemma set_transfer_parties: "wf_drv_ok drv \<Longrightarrow> set_transfer drv i st db = Inr db' \<Longrightarrow> all_parties db' = all_parties db"
  using set_transferD[of drv i st db db'] by (auto simp: mark_def parties_def)

lemma save_request_parties: "save_request drv r db = Inr db' \<Longrightarrow> all_parties db' = all_parties db"
  by (auto simp: save_request_def)

lemma add_action_parties: "add_action drv a db = Inr db' \<Longrightarrow> all_parties db' = all_parties db"
  by (auto simp: add_action_def)

lemma expire_parties:
  assumes "wf_drv_ok drv" "expireInTransaction drv now r comment db = Inr db'"
  shows "all_parties db' = all_parties db"
proof -
  obtain db1 db2 where "all_parties db1 = all_parties db" "all_parties db2 = all_parties db1" "all_parties db' = all_parties db2"
    using assms(2) set_transfer_parties[OF assms(1)] save_request_parties add_action_parties
    unfolding expireInTransaction_def by (elim and_then_InrE) metis
  then show ?thesis by simp
qed

lemma advance_parties:
  assumes "wf_drv_ok drv" "advance drv now steps step r db = Inr (r', db')"
  shows "all_parties db' = all_parties db"
  using assms(2) set_transfer_parties[OF assms(1)]
  by (auto simp: advance_def Let_def simp del: list.map split: if_splits)

lemma decide_tx_parties:
  assumes drv: "wf_drv_ok drv" and d: "decide_tx drv now i u role action comment db = Inr (res, db')"
  shows "all_parties db' = all_parties db"
proof -
  obtain r ss where r: "g_first (d_reqs drv) (\<lambda>r. rq_ID r = i) (t_reqs db) = Inr r" "preload_steps drv (rq_WorkflowID r) db = Inr ss"
    "rq_Status r = ''pending''" using d by (auto simp: decide_tx_def and_then_def split: sum.splits if_splits)
  show ?thesis
  proof (cases "now < rq_ExpiresAt r")
    case False
    then have "expireInTransaction drv now r ''approval timeout'' db = Inr db'"
      using d r by (auto simp: decide_tx_def and_then_def split: sum.splits)
    then show ?thesis by (rule expire_parties[OF drv])
  next
    case True
    define a :: "ApprovalStep \<Rightarrow> nat option \<Rightarrow> ApprovalAction" where "a s src = \<lparr> ac_ID = 0, ac_ApprovalRequestID = rq_ID r,
       ac_StepOrder = st_StepOrder s, ac_ApproverUserID = u, ac_DelegatedFromID = src, ac_Action = action, ac_Comment = comment,
       ac_CreatedAt = now \<rparr>" for s src
    obtain s src db1 where ad: "add_action drv (a s src) db = Inr db1"
      and rest: "(if action = ''rejected''
         then and_then (set_transfer drv (rq_TransactionID r) ''rejected'' db1) (\<lambda>db2.
              and_then (save_request drv (r\<lparr> rq_Status := ''rejected'', rq_CompletedAt := Some now \<rparr>) db2) (\<lambda>db3.
                Inr (Some (r\<lparr> rq_Status := ''rejected'', rq_CompletedAt := Some now \<rparr>), db3)))
         else and_then (advance drv now ss s r db1) (\<lambda>(request1, db2).
              and_then (save_request drv request1 db2) (\<lambda>db3. Inr (Some request1, db3)))) = Inr (res, db')"
      using d r True unfolding decide_tx_def and_then_def a_def Let_def by (auto split: sum.splits option.splits if_splits)
    obtain r1 db2 where "save_request drv r1 db2 = Inr db'"
      "set_transfer drv (rq_TransactionID r) ''rejected'' db1 = Inr db2 \<or> advance drv now ss s r db1 = Inr (r1, db2)"
      using rest by (auto simp: and_then_def split: if_splits sum.splits prod.splits)
    then show ?thesis
      using add_action_parties[OF ad] save_request_parties set_transfer_parties[OF drv] advance_parties[OF drv] by metis
  qed
qed

lemma Decide_parties:
  assumes "wf_drv_ok drv"
  shows "all_parties (snd (Decide drv now i u role action comment db)) = all_parties db"
proof -
  have "all_parties (snd (transaction (d_wtx drv) (decide_tx drv now i u role action comment) db)) = all_parties db"
    by (rule transaction_keeps[of "\<lambda>x. all_parties x = all_parties db"]) (use decide_tx_parties[OF assms] in auto)
  then show ?thesis by (auto simp: Decide_def split: sum.splits option.splits prod.splits)
qed

lemma update_parties:
  assumes "wf_drv_ok drv" "g_update (d_transfers drv) P (tf_Status_update f) ts = Inr (n, ts')"
  shows "map parties ts' = map parties ts"
  using gorm_updateD(2)[OF wf_drvD(5)[OF assms(1)] assms(2)] by (auto simp: parties_def)

lemma ExpireTimedOut_parties:
  assumes "wf_drv_ok drv"
  shows "all_parties (snd (ExpireTimedOut drv now1 now2 db)) = all_parties db"
  using update_parties[OF assms] unfolding ExpireTimedOut_def Let_def by (fastforce simp del: map_eq_conv split: sum.split)


subsection \<open>The market as a service\<close>

datatype market_req =
    MKyc kyc_req
  | MTransfer string instant "nat option" "string + TransferAssetRequest"
  | MList "string + ListAssetSaleRequest"
  | MDecide instant nat nat UserRole string string
  | MSweep instant instant

fun market_handle :: "market_drv \<Rightarrow> market_req \<Rightarrow> market_db \<Rightarrow> unit response \<times> market_db" where
  "market_handle drv (MKyc r) db = (case kyc_handle (d_compliance drv) r (mk_kyc db) of (res, d) \<Rightarrow> (res, db\<lparr> mk_kyc := d \<rparr>))"
| "market_handle drv (MTransfer uuid now requester body) db = drop_body (TransferAsset drv uuid now requester body db)"
| "market_handle drv (MList body) db = drop_body (ListAssetForSale drv body db)"
| "market_handle drv (MDecide now i u role action comment) db =
     (case svc_response (Decide (d_approvals drv) now i u role action comment (mk_wf db)) of (res, w) \<Rightarrow> (res, db\<lparr> mk_wf := w \<rparr>))"
| "market_handle drv (MSweep now1 now2) db =
     (case svc_response (ExpireTimedOut (d_approvals drv) now1 now2 (mk_wf db)) of (res, w) \<Rightarrow> (res, db\<lparr> mk_wf := w \<rparr>))"

fun provider_reports :: "KYCRecord \<Rightarrow> market_req \<Rightarrow> bool" where
  "provider_reports k (MKyc r) = reports_on r k"
| "provider_reports k _ = False"

lemma market_handle_kyc:
  "mk_kyc (snd (market_handle drv r db)) = (case r of MKyc q \<Rightarrow> snd (kyc_handle (d_compliance drv) q (mk_kyc db)) | _ \<Rightarrow> mk_kyc db)"
  if "market_drv_ok drv" "market_inv db" for drv r db
proof (cases r)
  case (MTransfer uuid now requester body)
  then show ?thesis using TransferAsset_adds[OF that, of uuid now requester body]
    by (cases "snd (TransferAsset drv uuid now requester body db) = db") (auto simp: adds_only_def)
next
  case (MList body)
  then show ?thesis using ListAssetForSale_adds[OF that, of body] by (cases "snd (ListAssetForSale drv body db) = db") auto
qed (auto split: prod.split)

text \<open>The user of a held record keeps its address, and the record its hold.\<close>

definition blocked :: "KYCRecord \<Rightarrow> string \<Rightarrow> kyc_db \<Rightarrow> bool" where
  "blocked k address db \<longleftrightarrow>
     (kr_UserID k, address, False) \<in> set (map user_ref (t_users db)) \<and>
     (\<exists>k'\<in>set (t_kyc db). kr_UserID k' = kr_UserID k \<and> kr_ProviderRecordID k' = kr_ProviderRecordID k \<and> on_hold k')"

lemma blocked_step:
  assumes "kyc_step (reports_on r) db db'" "\<not> reports_on r k" "blocked k address db"
  shows "blocked k address db'"
proof -
  obtain k1 where k1: "k1 \<in> set (t_kyc db)" "kr_UserID k1 = kr_UserID k" "kr_ProviderRecordID k1 = kr_ProviderRecordID k" "on_hold k1"
    using assms(3) unfolding blocked_def by blast
  have "\<not> reports_on r k1" using by_identity_reports[of r] assms(2) k1(2,3) unfolding by_identity_def by blast
  then have "\<exists>k'\<in>set (t_kyc db'). kr_UserID k' = kr_UserID k \<and> kr_ProviderRecordID k' = kr_ProviderRecordID k \<and> on_hold k'"
    using assms(1) k1 unfolding kyc_step_def kyc_moves_def by metis
  then show ?thesis using assms(1,3) by (simp only: blocked_def kyc_step_def kyc_moves_def)
qed

lemma blocked_not_good:
  assumes inv: "market_inv db" and b: "blocked k address (mk_kyc db)"
  shows "\<not> good_standing (mk_kyc db) address"
proof
  assume "good_standing (mk_kyc db) address"
  then obtain u where u: "u \<in> set (t_users (mk_kyc db))" "us_StellarAddress u = address" "\<not> us_Deleted u"
    "\<forall>k\<in>set (t_kyc (mk_kyc db)). kr_UserID k = us_ID u \<longrightarrow> kr_AMLCleared k \<and> \<not> on_hold k" unfolding good_standing_def by blast
  obtain v where v: "v \<in> set (t_users (mk_kyc db))" "us_ID v = kr_UserID k" "us_StellarAddress v = address" "\<not> us_Deleted v"
    using b by (auto simp: blocked_def user_ref_def)
  then have "u = v" using one_address[OF inv u(1) v(1)] u by simp
  then show False using b u(4) v(2) unfolding blocked_def by metis
qed

lemma market_inv_step:
  assumes drv: "market_drv_ok drv" and inv: "market_inv db"
  shows "market_inv (snd (market_handle drv r db))"
proof -
  have c: "kyc_drv_ok (d_compliance drv)" and k: "kyc_inv (mk_kyc db)" using drv inv by (simp_all add: market_drv_ok_def market_inv_def)
  define addresses :: "user_row list \<Rightarrow> string list" where "addresses us = map us_StellarAddress (filter (\<lambda>u. \<not> us_Deleted u) us)" for us
  have ref: "addresses us = map (fst \<circ> snd) (filter (\<lambda>(_, _, d). \<not> d) (map user_ref us))" for us
    by (induction us) (simp_all add: addresses_def user_ref_def)
  have "kyc_inv (snd (kyc_handle (d_compliance drv) q (mk_kyc db))) \<and>
      addresses (t_users (snd (kyc_handle (d_compliance drv) q (mk_kyc db)))) = addresses (t_users (mk_kyc db))" for q
    using kyc_handle_step[OF c k, of q] unfolding ref kyc_step_def kyc_moves_def by metis
  then show ?thesis
    using inv unfolding market_inv_def market_handle_kyc[OF drv inv] addresses_def by (cases r) simp_all
qed

interpretation market: service "market_handle drv" "\<lambda>db. market_drv_ok drv \<and> market_inv db" "\<lambda>_ _. True" for drv
  by unfold_locales (simp add: market_inv_step)

interpretation held: service "market_handle drv"
    "\<lambda>db. market_drv_ok drv \<and> market_inv db \<and> blocked k address (mk_kyc db)" "\<lambda>r db. \<not> provider_reports k r" for drv k address
proof
  fix db r
  assume I: "market_drv_ok drv \<and> market_inv db \<and> blocked k address (mk_kyc db)" and r: "\<not> provider_reports k r"
  then have c: "kyc_drv_ok (d_compliance drv)" and k: "kyc_inv (mk_kyc db)" by (simp_all add: market_drv_ok_def market_inv_def)
  have "blocked k address (mk_kyc (snd (market_handle drv r db)))"
    using I r blocked_step[OF kyc_handle_step[OF c k]] market_handle_kyc[of drv db r] by (cases r) auto
  then show "market_drv_ok drv \<and> market_inv (snd (market_handle drv r db)) \<and> blocked k address (mk_kyc (snd (market_handle drv r db)))"
    using I market_inv_step by blast
qed

text \<open>While an address is blocked, no request adds a transfer or a listing that involves it.\<close>

definition spares :: "string \<Rightarrow> market_db \<Rightarrow> market_db \<Rightarrow> bool" where
  "spares address db db' \<longleftrightarrow>
     (\<exists>ps. all_parties (mk_wf db') = all_parties (mk_wf db) @ ps \<and> (\<forall>p\<in>set ps. fst p \<noteq> address \<and> snd p \<noteq> address)) \<and>
     (\<exists>ls. mk_listings db' = mk_listings db @ ls \<and> (\<forall>l\<in>set ls. li_SellerAddr l \<noteq> address))"

lemma spares_refl: "spares address db db"
  by (simp add: spares_def)

lemma spares_trans: "spares address a b \<Longrightarrow> spares address b c \<Longrightarrow> spares address a c"
  unfolding spares_def by (elim conjE exE) (auto simp del: map_eq_conv)

lemma blocked_spares:
  assumes drv: "market_drv_ok drv" and inv: "market_inv db" and b: "\<not> good_standing (mk_kyc db) address"
  shows "spares address db (snd (market_handle drv r db))"
proof (cases r)
  case (MTransfer uuid now requester body)
  show ?thesis
  proof (cases "snd (TransferAsset drv uuid now requester body db) = db")
    case False
    then obtain req where "may_transfer db req" "adds_only req db (snd (TransferAsset drv uuid now requester body db))"
      using TransferAsset_adds[OF drv inv] by blast
    then show ?thesis using b MTransfer asked_parties by (fastforce simp: adds_only_def may_transfer_def spares_def)
  qed (use MTransfer spares_refl in simp)
next
  case (MList body)
  then show ?thesis using ListAssetForSale_adds[OF drv inv, of body] b spares_refl[of address db]
    by (cases "snd (ListAssetForSale drv body db) = db") (auto simp: spares_def)
next
  case (MDecide now i u role action comment)
  obtain x w where x: "Decide (d_approvals drv) now i u role action comment (mk_wf db) = (x, w)" by fastforce
  then have "all_parties w = all_parties (mk_wf db)"
    using Decide_parties[of "d_approvals drv" now i u role action comment "mk_wf db"] drv by (simp add: market_drv_ok_def del: map_eq_conv)
  moreover obtain res where "svc_response (x, w) = (res, w)" using snd_svc_response[of "(x, w)"] by (metis prod.collapse snd_conv)
  ultimately show ?thesis using MDecide x by (simp add: spares_def del: map_eq_conv)
next
  case (MSweep now1 now2)
  obtain x w where x: "ExpireTimedOut (d_approvals drv) now1 now2 (mk_wf db) = (x, w)" by fastforce
  then have "all_parties w = all_parties (mk_wf db)"
    using ExpireTimedOut_parties[of "d_approvals drv" now1 now2 "mk_wf db"] drv by (simp add: market_drv_ok_def del: map_eq_conv)
  moreover obtain res where "svc_response (x, w) = (res, w)" using snd_svc_response[of "(x, w)"] by (metis prod.collapse snd_conv)
  ultimately show ?thesis using MSweep x by (simp add: spares_def del: map_eq_conv)
qed (auto simp: spares_def split: prod.split)


lemma held_fits: "list_all (\<lambda>r. \<not> provider_reports k r) rs \<Longrightarrow> held.all_fit drv k rs db"
  by (induction rs arbitrary: db) auto

subsection \<open>Properties\<close>

definition mem_market :: market_drv where
  "mem_market = \<lparr> d_compliance = mem_kyc,
     d_approvals = mem_wf\<lparr> d_transfers := unique_gorm tf_TxHash (mem_gorm tf_ID (\<lambda>k. tf_ID_update (\<lambda>_. k))) \<rparr>,
     d_listings = unique_gorm li_ListingID (mem_gorm li_ID (\<lambda>k. li_ID_update (\<lambda>_. k))) \<rparr>"

lemma mem_market_ok: "market_drv_ok mem_market"
  using mem_kyc_ok mem_wf_ok by (simp add: market_drv_ok_def mem_market_def wf_drv_ok_def mem_gorm_ok unique_gorm_ok)

definition demo_user :: "nat \<Rightarrow> string \<Rightarrow> user_row" where
  "demo_user i a = \<lparr> us_ID = i, us_StellarAddress = a, us_KYCVerified = True, us_AccreditedInvestor = False, us_Deleted = False \<rparr>"

definition demo_flagged :: KYCRecord where
  "demo_flagged = \<lparr> kr_ID = 1, kr_UserID = 7, kr_ProviderRecordID = ''p1'', kr_Status = ''review'', kr_FullName = ''Ann'', kr_DateOfBirth = '''',
     kr_Nationality = '''', kr_DocumentType = '''', kr_DocumentNumberHash = '''', kr_RiskScore = 0, kr_AMLCleared = True, kr_ReviewNotes = '''' \<rparr>"

definition demo_market :: market_db where
  "demo_market = \<lparr> mk_kyc = \<lparr> t_users = [demo_user 7 ''GA'', demo_user 8 ''GB'', demo_user 9 ''GC''], t_kyc = [demo_flagged],
       t_docs = [], t_screens = [], t_audit = [] \<rparr>,
     mk_wf = \<lparr> t_wfs = [], t_steps = [], t_reqs = [], t_acts = [], t_transfers = [], t_assetrows = [\<lparr> as_ID = 1, as_AssetType = ''art'' \<rparr>] \<rparr>,
     mk_listings = [] \<rparr>"

lemma demo_market_inv: "market_inv demo_market"
  by (simp add: market_inv_def demo_market_def kyc_inv_def demo_user_def)

definition demo_transfer :: "string \<Rightarrow> string \<Rightarrow> market_req" where
  "demo_transfer a b = MTransfer ''u'' 0 None (Inr \<lparr> ta_AssetID = 1, ta_FromAddress = a, ta_ToAddress = b, ta_Amount = 5 \<rparr>)"

definition demo_listing :: "string \<Rightarrow> market_req" where
  "demo_listing a = MList (Inr \<lparr> ls_AssetID = 1, ls_SellerAddr = a, ls_Amount = 5, ls_PricePerUnit = 2 \<rparr>)"

lemma recordTransfer_not_forbidden: "fst (recordTransfer drv req db) \<noteq> Fail StatusForbidden m"
  by (simp add: recordTransfer_def split: sum.split prod.split)

lemma routeTransfer_not_forbidden: "fst (routeTransfer drv uuid now requester req db) \<noteq> Fail StatusForbidden m"
proof (cases requester)
  case (Some u)
  obtain r w where c: "CreateTransferRequest (d_approvals drv) uuid now u \<lparr> in_AssetID = ta_AssetID req, in_FromAddress = ta_FromAddress req,
    in_ToAddress = ta_ToAddress req, in_Amount = ta_Amount req \<rparr> (mk_wf db) = (r, w)" by fastforce
  then show ?thesis using Some recordTransfer_not_forbidden by (cases r) (simp_all add: routeTransfer_def)
qed (simp add: routeTransfer_def recordTransfer_not_forbidden)

text \<open>C19: the compliance gate. A transfer request, whatever database call fails, either answers an error and changes nothing, or it names a
  positive amount, an existing asset and two parties in good standing (registered, KYC-verified, AML-cleared, with no KYC record under
  review, rejected or expired) and does exactly one of two things: it records one pending transfer as asked for and answers with it; or,
  for an authenticated requester, it records one transfer awaiting approval and one approval request for it, and nothing else. A
  request that the gate refuses with 403 was not allowed.\<close>

theorem transfer_needs_good_standing:
  assumes "market_drv_ok drv" "market_inv db" "TransferAsset drv uuid now requester (Inr req) db = (r, db')"
  shows "(db' = db \<and> is_fail r \<or> may_transfer db req \<and>
      ((\<exists>t. r = Reply StatusOK (Recorded t) \<and> transfer_of req ''pending'' t \<and> db' = add_rows [t] [] db) \<or>
       (\<exists>u t q. requester = Some u \<and> transfer_of req ''approval_pending'' t \<and> request_for u req t q \<and> db' = add_rows [t] [q] db \<and>
          (r = Reply 202 (AwaitingApproval q) \<or> r = Fail StatusInternalServerError ''failed to create approval request'')))) \<and>
    (\<forall>m. r = Fail StatusForbidden m \<longrightarrow> db' = db \<and> \<not> may_transfer db req)"
proof -
  let ?v = "ValidateTransfer drv (ta_FromAddress req) (ta_ToAddress req) (ta_AssetID req) (ta_Amount req) db"
  consider (fail) "db' = db" "is_fail r" "\<forall>m. r \<noteq> Fail StatusForbidden m"
    | (refused) m where "db' = db" "r = Fail StatusForbidden m" "\<not> may_transfer db req"
    | (routed) "may_transfer db req" "routeTransfer drv uuid now requester req db = (r, db')"
    using assms(3) ValidateTransfer_cases[OF assms(1,2), of req]
    by (fastforce simp: TransferAsset_def restriction_response_def split: sum.splits option.splits transfer_error.splits)
  then show ?thesis
  proof cases
    case routed
    then show ?thesis using routeTransfer_cases[OF assms(1) routed(2)] routeTransfer_not_forbidden[of drv uuid now requester req db]
      by (auto simp: transfer_done_def)
  qed auto
qed

theorem transfer_needs_good_standing_witness:
  "\<exists>t. snd (TransferAsset mem_market ''u'' 0 None
      (Inr \<lparr> ta_AssetID = 1, ta_FromAddress = ''GB'', ta_ToAddress = ''GC'', ta_Amount = 5 \<rparr>) demo_market) = add_rows [t] [] demo_market \<and>
    tf_Amount t = 5 \<and> tf_Status t = ''pending'' \<and> good_standing (mk_kyc demo_market) ''GB''"
proof -
  let ?req = "\<lparr> ta_AssetID = 1, ta_FromAddress = ''GB'', ta_ToAddress = ''GC'', ta_Amount = 5 \<rparr>"
  let ?db = "snd (TransferAsset mem_market ''u'' 0 None (Inr ?req) demo_market)"
  have "map tf_ID (t_transfers (mk_wf ?db)) = [1]" by code_simp
  moreover have "t_transfers (mk_wf demo_market) = []" by (simp add: demo_market_def)
  ultimately have "?db \<noteq> demo_market" by auto
  then show ?thesis
    using transfer_needs_good_standing[OF mem_market_ok demo_market_inv, of "''u''" 0 None ?req _ ?db]
    by (auto simp: transfer_of_def may_transfer_def prod_eq_iff)
qed

text \<open>C20: a hold on a KYC record blocks its user across the components. From any state in which the record of a user is under review,
  rejected or expired, whatever sequence of submissions, screenings, manual reviews, transfer requests, listing requests, approval
  decisions and expiry sweeps follows, and whatever database and provider calls fail: no transfer from or to the user's address and no listing of
  it is ever added, until the identity provider itself reports on that record. These are the endpoints of \<open>Kyc\<close>, \<open>Transfers\<close> and
  \<open>Workflow\<close> (\<open>market_req\<close>); batches are not among them, because \<open>ExecuteBatch\<close> does not run the compliance check: a batch does move
  and list for a held address (\<open>batch_skips_compliance\<close>).\<close>

theorem hold_blocks_transfers:
  assumes "market_drv_ok drv" "market_inv db" "k \<in> set (t_kyc (mk_kyc db))" "on_hold k"
    and "u \<in> set (t_users (mk_kyc db))" "us_ID u = kr_UserID k" "\<not> us_Deleted u"
    and "list_all (\<lambda>r. \<not> provider_reports k r) rs" "db' = market.run drv rs db"
  shows "(\<exists>ps. map parties (t_transfers (mk_wf db')) = map parties (t_transfers (mk_wf db)) @ ps \<and>
      (\<forall>p\<in>set ps. fst p \<noteq> us_StellarAddress u \<and> snd p \<noteq> us_StellarAddress u)) \<and>
    (\<exists>ls. mk_listings db' = mk_listings db @ ls \<and> (\<forall>l\<in>set ls. li_SellerAddr l \<noteq> us_StellarAddress u)) \<and>
    \<not> good_standing (mk_kyc db') (us_StellarAddress u)"
proof -
  have "user_ref u = (kr_UserID k, us_StellarAddress u, False)" using assms(6,7) by (simp add: user_ref_def)
  then have b: "blocked k (us_StellarAddress u) (mk_kyc db)"
    using assms(3-5) unfolding blocked_def by (metis image_eqI list.set_map)
  have "spares (us_StellarAddress u) db db'" unfolding assms(9)
    by (rule held.run_rel[of "spares (us_StellarAddress u)" drv k "us_StellarAddress u"])
      (use assms b spares_refl spares_trans blocked_spares blocked_not_good held_fits in auto)
  moreover have "market_inv db' \<and> blocked k (us_StellarAddress u) (mk_kyc db')"
  proof -
    have "market_drv_ok drv \<and> market_inv (market.run drv rs db) \<and> blocked k (us_StellarAddress u) (mk_kyc (market.run drv rs db))"
      by (rule held.run_inv) (use assms b held_fits in auto)
    then show ?thesis by (simp add: assms(9))
  qed
  ultimately show ?thesis using blocked_not_good unfolding spares_def by blast
qed

theorem hold_blocks_transfers_witness:
  "map parties (t_transfers (mk_wf (market.run mem_market
      [demo_transfer ''GB'' ''GC'', demo_transfer ''GA'' ''GB'', MKyc (ReqScreen demo_env (Inr 1)), demo_listing ''GA''] demo_market))) = [(''GB'', ''GC'')] \<and>
   \<not> good_standing (mk_kyc (market.run mem_market
      [demo_transfer ''GB'' ''GC'', demo_transfer ''GA'' ''GB'', MKyc (ReqScreen demo_env (Inr 1)), demo_listing ''GA''] demo_market)) ''GA''"
proof
  let ?rs = "[demo_transfer ''GB'' ''GC'', demo_transfer ''GA'' ''GB'', MKyc (ReqScreen demo_env (Inr 1)), demo_listing ''GA'']"
  show "map parties (t_transfers (mk_wf (market.run mem_market ?rs demo_market))) = [(''GB'', ''GC'')]"
    unfolding market.run.simps by code_simp
  have "list_all (\<lambda>r. \<not> provider_reports demo_flagged r) ?rs" by (simp add: demo_transfer_def demo_listing_def)
  moreover have "on_hold demo_flagged" "demo_flagged \<in> set (t_kyc (mk_kyc demo_market))" "demo_user 7 ''GA'' \<in> set (t_users (mk_kyc demo_market))"
    by (simp_all add: on_hold_def demo_flagged_def demo_market_def)
  ultimately show "\<not> good_standing (mk_kyc (market.run mem_market ?rs demo_market)) ''GA''"
    using hold_blocks_transfers[OF mem_market_ok demo_market_inv, of demo_flagged "demo_user 7 ''GA''" ?rs]
    by (simp add: demo_user_def demo_flagged_def)
qed

text \<open>Every direct transfer carries the same transaction hash and every listing the same listing id, both unique columns: with the
  index in place only the first of each is ever recorded.\<close>

lemma second_transfer_fails:
  "map parties (t_transfers (mk_wf (market.run mem_market [demo_transfer ''GB'' ''GC'', demo_transfer ''GC'' ''GB''] demo_market))) = [(''GB'', ''GC'')]"
  "fst (market_handle mem_market (demo_transfer ''GC'' ''GB'') (market.run mem_market [demo_transfer ''GB'' ''GC''] demo_market)) =
     Fail StatusInternalServerError ''Failed to record transaction''"
  "map li_SellerAddr (mk_listings (market.run mem_market [demo_listing ''GB'', demo_listing ''GC''] demo_market)) = [''GB'']"
  unfolding market.run.simps by code_simp+

end
