(* ===== verification/Json.thy ===== *)
theory Json
  imports Complex_Main Decimal
begin

section \<open>JSON documents (encoding/json)\<close>

text \<open>
  Columns of type \<open>jsonb\<close> and request bodies with open parts hold JSON documents. A document is modelled as its tree. Numbers are
  rational: Go reads a number into an \<open>interface{}\<close> as a float64 and into an integer field only if it is an integer in the range of the
  field. A key that is missing, or null, leaves the zero value of the field; a value of another type is an error. Keys are
  matched exactly, which is what decides for the documents that the program itself has written.
\<close>

datatype json = JNull | JBool bool | JNumber rat | JString string | JArray "json list" | JObject "(string \<times> json) list"

abbreviation JInt :: "int \<Rightarrow> json" where "JInt n \<equiv> JNumber (of_int n)"

type_synonym fields = "(string \<times> json) list"

definition get_string :: "fields \<Rightarrow> string \<Rightarrow> string option" where
  "get_string ob k =
     (case map_of ob k of None \<Rightarrow> Some '''' | Some JNull \<Rightarrow> Some '''' | Some (JString s) \<Rightarrow> Some s | _ \<Rightarrow> None)"

definition get_int :: "int \<Rightarrow> int \<Rightarrow> fields \<Rightarrow> string \<Rightarrow> int option" where
  "get_int lo hi ob k =
     (case map_of ob k of
        None \<Rightarrow> Some 0
      | Some JNull \<Rightarrow> Some 0
      | Some (JNumber r) \<Rightarrow> if r = of_int \<lfloor>r\<rfloor> \<and> lo \<le> \<lfloor>r\<rfloor> \<and> \<lfloor>r\<rfloor> < hi then Some \<lfloor>r\<rfloor> else None
      | _ \<Rightarrow> None)"

abbreviation get_int64 :: "fields \<Rightarrow> string \<Rightarrow> int option" where "get_int64 \<equiv> get_int (- (2 ^ 63)) (2 ^ 63)"

definition get_uint :: "fields \<Rightarrow> string \<Rightarrow> nat option" where
  "get_uint ob k = map_option nat (get_int 0 (2 ^ 64) ob k)"

definition get_object :: "fields \<Rightarrow> string \<Rightarrow> fields option" where
  "get_object ob k = (case map_of ob k of None \<Rightarrow> Some [] | Some JNull \<Rightarrow> Some [] | Some (JObject x) \<Rightarrow> Some x | _ \<Rightarrow> None)"

text \<open>A slice of objects: every element has to decode.\<close>

fun all_some :: "'a option list \<Rightarrow> 'a list option" where
  "all_some [] = Some []"
| "all_some (x # xs) = (case x of None \<Rightarrow> None | Some y \<Rightarrow> map_option ((#) y) (all_some xs))"

lemma all_some_map: "(\<And>x. x \<in> set xs \<Longrightarrow> f x = Some (g x)) \<Longrightarrow> all_some (map f xs) = Some (map g xs)"
  by (induction xs) simp_all

lemma all_some_Some: "all_some (map (\<lambda>x. Some (g x)) xs) = Some (map g xs)"
  by (induction xs) simp_all

definition decode_slice :: "(fields \<Rightarrow> 'a option) \<Rightarrow> json \<Rightarrow> 'a list option" where
  "decode_slice f j =
     (case j of
        JNull \<Rightarrow> Some []
      | JArray xs \<Rightarrow> all_some (map (\<lambda>x. case x of JNull \<Rightarrow> f [] | JObject ob \<Rightarrow> f ob | _ \<Rightarrow> None) xs)
      | _ \<Rightarrow> None)"

text \<open>A slice of strings.\<close>

definition decode_strings :: "json \<Rightarrow> string list option" where
  "decode_strings j =
     (case j of
        JNull \<Rightarrow> Some []
      | JArray xs \<Rightarrow> all_some (map (\<lambda>x. case x of JString s \<Rightarrow> Some s | JNull \<Rightarrow> Some '''' | _ \<Rightarrow> None) xs)
      | _ \<Rightarrow> None)"

lemma decode_strings_encode [simp]: "decode_strings (JArray (map JString ss)) = Some ss"
  unfolding decode_strings_def by (simp add: comp_def all_some_Some[of "\<lambda>x. x", simplified])

text \<open>Encoding with \<open>omitempty\<close>.\<close>

definition omit_empty :: "string \<Rightarrow> string \<Rightarrow> fields" where
  "omit_empty k s = (if s = '''' then [] else [(k, JString s)])"

lemma get_string_simps [simp]:
  "get_string [] k = Some ''''"
  "get_string ((k, JString s) # ob) k = Some s"
  "k \<noteq> k' \<Longrightarrow> get_string ((k', v) # ob) k = get_string ob k"
  by (simp_all add: get_string_def)

lemma get_int_simps [simp]:
  "get_int lo hi [] k = Some 0"
  "lo \<le> n \<Longrightarrow> n < hi \<Longrightarrow> get_int lo hi ((k, JNumber (of_int n)) # ob) k = Some n"
  "k \<noteq> k' \<Longrightarrow> get_int lo hi ((k', v) # ob) k = get_int lo hi ob k"
  by (simp_all add: get_int_def)

lemma get_uint_simps [simp]:
  "get_uint [] k = Some 0"
  "n < 2 ^ 64 \<Longrightarrow> get_uint ((k, JNumber (of_nat n)) # ob) k = Some n"
  "k \<noteq> k' \<Longrightarrow> get_uint ((k', v) # ob) k = get_uint ob k"
proof -
  show "get_uint ((k, JNumber (of_nat n)) # ob) k = Some n" if "n < 2 ^ 64"
  proof -
    have "int n < 2 ^ 64" using that by (metis of_nat_less_numeral_power_cancel_iff)
    then have "get_int 0 (2 ^ 64) ((k, JNumber (of_int (int n))) # ob) k = Some (int n)" by (intro get_int_simps) simp_all
    then show ?thesis by (simp add: get_uint_def)
  qed
qed (simp_all add: get_uint_def)

lemma get_object_simps [simp]:
  "get_object [] k = Some []"
  "get_object ((k, JObject x) # ob) k = Some x"
  "k \<noteq> k' \<Longrightarrow> get_object ((k', v) # ob) k = get_object ob k"
  by (simp_all add: get_object_def)

lemma get_string_omit [simp]:
  "get_string (omit_empty k s @ ob) k = (if s = '''' then get_string ob k else Some s)"
  "k \<noteq> k' \<Longrightarrow> get_string (omit_empty k' s @ ob) k = get_string ob k"
  "get_string (omit_empty k s) k = Some s"
  "k \<noteq> k' \<Longrightarrow> get_string (omit_empty k' s) k = Some ''''"
  by (simp_all add: omit_empty_def)

lemma get_other_omit [simp]:
  "k \<noteq> k' \<Longrightarrow> get_int lo hi (omit_empty k' s @ ob) k = get_int lo hi ob k"
  "k \<noteq> k' \<Longrightarrow> get_uint (omit_empty k' s @ ob) k = get_uint ob k"
  "k \<noteq> k' \<Longrightarrow> get_object (omit_empty k' s @ ob) k = get_object ob k"
  by (simp_all add: omit_empty_def)

text \<open>\<open>int64(f)\<close> of a float64: it truncates; out of range the language leaves the result to the machine (amd64 gives the least integer).\<close>

definition truncate_float :: "rat \<Rightarrow> int" where
  "truncate_float r = (let t = (if 0 \<le> r then \<lfloor>r\<rfloor> else \<lceil>r\<rceil>) in if in_i64 t then t else - (2 ^ 63))"

end
