(* ===== verification/Batches.thy ===== *)
theory Batches
  imports Transfers Json FloatSqrt
begin

section \<open>Batches of market operations (handlers/assets.go, handlers/batch.go, services/batch\_processor.go, services/batch\_retry.go)\<close>

text \<open>
  A batch of transfers, listings and cancellations is executed in a request (\<open>ExecuteBatch\<close>) or by a worker from a queue
  (\<open>processBatch\<close>), with retries, and undone by \<open>RollbackBatch\<close>. The operations run in one database transaction that commits what
  succeeded; the row of the batch is written outside of it. The columns \<open>operations\<close> and \<open>operation_results\<close> are JSON documents.
  \<open>BatchTransaction\<close> has the columns of the model that this code uses (nothing reads its gas estimate). The handlers and the
  services use more columns, which the model at this commit does not declare, so that the packages do not compile: \<open>batch_row\<close>
  adds them, and all of this theory is about a table that has them. The progress percentage and the estimate of the remaining time,
  which no code reads, are left out, and so are the broadcasts to WebSocket clients.
  \<open>d_retryable\<close> and \<open>d_max_retries\<close> are what the database puts into the two columns when no code sets them.
\<close>

subsection \<open>Data\<close>

record BatchOperation =
  bo_Type :: string
  bo_AssetID :: nat
  bo_FromAddress :: string
  bo_ToAddress :: string
  bo_Amount :: int
  bo_ExtraParams :: fields

record BatchOperationResult =
  br_Index :: nat
  br_Type :: string
  br_Success :: bool
  br_Error :: string
  br_TxHash :: string
  br_ResourceID :: string
  br_PreviousActive :: "bool option"

record BatchTransaction =
  bx_ID :: nat
  bx_UserID :: nat
  bx_Operations :: json
  bx_Status :: string
  bx_TxHash :: string
  bx_ErrorDetails :: string
  bx_CompletedCount :: int
  bx_FailedCount :: int
  bx_TotalOperations :: int

record batch_row = BatchTransaction +
  bx_OperationResults :: "json option"
  bx_RetryCount :: int
  bx_MaxRetries :: int
  bx_IsRetryable :: bool
  bx_LastRetryAt :: "instant option"
  bx_NextRetryAt :: "instant option"
  bx_StartedAt :: "instant option"
  bx_FinishedAt :: "instant option"

record BatchQueueEntry =
  qe_ID :: nat
  qe_BatchID :: nat
  qe_Priority :: int
  qe_AttemptCount :: int
  qe_MaxAttempts :: int
  qe_ScheduledAt :: instant
  qe_ProcessedAt :: "instant option"

abbreviation BatchStatusQueued :: string where "BatchStatusQueued \<equiv> ''queued''"
abbreviation BatchStatusProcessing :: string where "BatchStatusProcessing \<equiv> ''processing''"
abbreviation BatchStatusCompleted :: string where "BatchStatusCompleted \<equiv> ''completed''"
abbreviation BatchStatusCompletedWithErrors :: string where "BatchStatusCompletedWithErrors \<equiv> ''completed_with_errors''"
abbreviation BatchStatusFailed :: string where "BatchStatusFailed \<equiv> ''failed''"
abbreviation BatchStatusRolledBack :: string where "BatchStatusRolledBack \<equiv> ''rolled_back''"

record batch_db =
  bt_market :: market_db
  t_batches :: "batch_row list"
  t_entries :: "BatchQueueEntry list"
  bt_queue :: "nat list"

record batch_drv =
  d_market :: market_drv
  d_batches :: "batch_row gorm"
  d_entries :: "BatchQueueEntry gorm"
  d_btx :: tx_outcome
  d_retryable :: bool
  d_max_retries :: int

abbreviation batch_by_id :: "nat \<Rightarrow> batch_row \<Rightarrow> bool" where "batch_by_id i b \<equiv> bx_ID b = i"

subsection \<open>JSON of the operations and the results\<close>

definition operation_json :: "BatchOperation \<Rightarrow> json" where
  "operation_json b = JObject
     ([(''type'', JString (bo_Type b)), (''asset_id'', JInt (int (bo_AssetID b)))] @ omit_empty ''from_address'' (bo_FromAddress b) @
      omit_empty ''to_address'' (bo_ToAddress b) @ [(''amount'', JInt (bo_Amount b))] @
      (if bo_ExtraParams b = [] then [] else [(''extra_params'', JObject (bo_ExtraParams b))]))"

definition request_json :: "BatchOperation \<Rightarrow> json" where
  "request_json b = JObject
     ([(''type'', JString (bo_Type b)), (''asset_id'', JInt (int (bo_AssetID b))), (''from_address'', JString (bo_FromAddress b)),
       (''to_address'', JString (bo_ToAddress b)), (''amount'', JInt (bo_Amount b))] @
      (if bo_ExtraParams b = [] then [] else [(''extra_params'', JObject (bo_ExtraParams b))]))"

definition result_json :: "BatchOperationResult \<Rightarrow> json" where
  "result_json r = JObject
     ([(''index'', JInt (int (br_Index r))), (''type'', JString (br_Type r)), (''success'', JBool (br_Success r))] @
      omit_empty ''error'' (br_Error r) @ omit_empty ''tx_hash'' (br_TxHash r) @ omit_empty ''resource_id'' (br_ResourceID r) @
      (case br_PreviousActive r of None \<Rightarrow> [] | Some a \<Rightarrow> [(''previous_active'', JBool a)]))"

definition operation_of_fields :: "fields \<Rightarrow> BatchOperation option" where
  "operation_of_fields ob =
     (case (get_string ob ''type'', get_uint ob ''asset_id'', get_string ob ''from_address'', get_string ob ''to_address'',
            get_int64 ob ''amount'', get_object ob ''extra_params'') of
        (Some t, Some a, Some f, Some to, Some n, Some x) \<Rightarrow>
          Some \<lparr> bo_Type = t, bo_AssetID = a, bo_FromAddress = f, bo_ToAddress = to, bo_Amount = n, bo_ExtraParams = x \<rparr>
      | _ \<Rightarrow> None)"

definition operations_of_json :: "json \<Rightarrow> BatchOperation list option" where
  "operations_of_json = decode_slice operation_of_fields"

definition op_ok :: "BatchOperation \<Rightarrow> bool" where
  "op_ok b \<longleftrightarrow> bo_AssetID b < 2 ^ 64 \<and> in_i64 (bo_Amount b)"

text \<open>Operations survive the column, whichever of the two types wrote them.\<close>

lemma operations_roundtrip:
  assumes "list_all op_ok bs"
  shows "operations_of_json (JArray (map operation_json bs)) = Some bs" "operations_of_json (JArray (map request_json bs)) = Some bs"
proof -
  have "operation_json b = JObject ob \<Longrightarrow> op_ok b \<Longrightarrow> operation_of_fields ob = Some b"
    "request_json b = JObject ob \<Longrightarrow> op_ok b \<Longrightarrow> operation_of_fields ob = Some b" for b ob
    by (auto simp: operation_json_def request_json_def operation_of_fields_def op_ok_def in_i64_def)
  then have f: "(case operation_json b of JNull \<Rightarrow> operation_of_fields [] | JObject ob \<Rightarrow> operation_of_fields ob | _ \<Rightarrow> None) = Some b"
    "(case request_json b of JNull \<Rightarrow> operation_of_fields [] | JObject ob \<Rightarrow> operation_of_fields ob | _ \<Rightarrow> None) = Some b"
    if "op_ok b" for b using that by (simp_all add: operation_json_def request_json_def)
  have bs: "op_ok b" if "b \<in> set bs" for b using assms that by (simp add: list_all_iff)
  show "operations_of_json (JArray (map operation_json bs)) = Some bs" "operations_of_json (JArray (map request_json bs)) = Some bs"
    unfolding operations_of_json_def decode_slice_def by (simp_all add: o_def all_some_map[where g = id] f bs)
qed

text \<open>Results read back as operations keep the type and nothing else.\<close>

lemma results_as_operations:
  "operations_of_json (JArray (map result_json rs)) =
     Some (map (\<lambda>r. \<lparr> bo_Type = br_Type r, bo_AssetID = 0, bo_FromAddress = '''', bo_ToAddress = '''', bo_Amount = 0, bo_ExtraParams = [] \<rparr>) rs)"
proof -
  have "(case result_json r of JNull \<Rightarrow> operation_of_fields [] | JObject ob \<Rightarrow> operation_of_fields ob | _ \<Rightarrow> None) =
    Some \<lparr> bo_Type = br_Type r, bo_AssetID = 0, bo_FromAddress = '''', bo_ToAddress = '''', bo_Amount = 0, bo_ExtraParams = [] \<rparr>" for r
    by (simp add: result_json_def operation_of_fields_def omit_empty_def split: option.split)
  then show ?thesis unfolding operations_of_json_def decode_slice_def by (simp add: o_def all_some_Some)
qed

subsection \<open>Executing a batch in a request\<close>

definition batch_hash :: "nat \<Rightarrow> nat \<Rightarrow> string" where
  "batch_hash b i = ''batch_'' @ show_nat b @ ''_op_'' @ show_nat i"

definition batch_listing :: "nat \<Rightarrow> nat \<Rightarrow> string" where
  "batch_listing b i = ''batch_listing_'' @ show_nat b @ ''_'' @ show_nat i"

definition failed_result :: "nat \<Rightarrow> BatchOperation \<Rightarrow> string \<Rightarrow> BatchOperationResult" where
  "failed_result i op msg = \<lparr> br_Index = i, br_Type = bo_Type op, br_Success = False, br_Error = msg, br_TxHash = '''', br_ResourceID = '''',
     br_PreviousActive = None \<rparr>"

definition done_result :: "nat \<Rightarrow> BatchOperation \<Rightarrow> string \<Rightarrow> string \<Rightarrow> bool option \<Rightarrow> BatchOperationResult" where
  "done_result i op hash resource previous = \<lparr> br_Index = i, br_Type = bo_Type op, br_Success = True, br_Error = '''', br_TxHash = hash,
     br_ResourceID = resource, br_PreviousActive = previous \<rparr>"

definition op_transfer :: "BatchOperation \<Rightarrow> string \<Rightarrow> transfer" where
  "op_transfer op hash = \<lparr> tf_ID = 0, tf_AssetID = bo_AssetID op, tf_FromAddress = bo_FromAddress op, tf_ToAddress = bo_ToAddress op,
     tf_Amount = bo_Amount op, tf_TxHash = hash, tf_Status = ''confirmed'' \<rparr>"

definition op_price :: "BatchOperation \<Rightarrow> int" where
  "op_price op = (case map_of (bo_ExtraParams op) ''price_per_unit'' of Some (JNumber r) \<Rightarrow> truncate_float r | _ \<Rightarrow> 0)"

definition op_listing :: "BatchOperation \<Rightarrow> string \<Rightarrow> Listing" where
  "op_listing op name = \<lparr> li_ID = 0, li_AssetID = bo_AssetID op, li_SellerAddr = bo_FromAddress op, li_Amount = bo_Amount op,
     li_PricePerUnit = op_price op, li_Active = True, li_ListingID = name \<rparr>"

definition op_listing_id :: "BatchOperation \<Rightarrow> string" where
  "op_listing_id op = (case map_of (bo_ExtraParams op) ''listing_id'' of Some (JString s) \<Rightarrow> s | _ \<Rightarrow> '''')"

text \<open>The three statements an operation may execute.\<close>

definition find_asset :: "market_drv \<Rightarrow> nat \<Rightarrow> market_db \<Rightarrow> dberr + asset_row" where
  "find_asset drv a m = g_first (d_assetrows (d_approvals drv)) (\<lambda>x. as_ID x = a) (t_assetrows (mk_wf m))"

definition create_transfer :: "market_drv \<Rightarrow> transfer \<Rightarrow> market_db \<Rightarrow> dberr + market_db" where
  "create_transfer drv t m =
     and_then (g_create (d_transfers (d_approvals drv)) t (t_transfers (mk_wf m))) (\<lambda>(_, ts). Inr (m\<lparr> mk_wf := (mk_wf m)\<lparr> t_transfers := ts \<rparr> \<rparr>))"

definition create_listing :: "market_drv \<Rightarrow> Listing \<Rightarrow> market_db \<Rightarrow> dberr + market_db" where
  "create_listing drv l m = and_then (g_create (d_listings drv) l (mk_listings m)) (\<lambda>(_, ls). Inr (m\<lparr> mk_listings := ls \<rparr>))"

definition deactivate :: "market_drv \<Rightarrow> string \<Rightarrow> market_db \<Rightarrow> dberr + market_db" where
  "deactivate drv name m =
     and_then (g_update (d_listings drv) (\<lambda>l. li_ListingID l = name) (li_Active_update (\<lambda>_. False)) (mk_listings m))
       (\<lambda>(_, ls). Inr (m\<lparr> mk_listings := ls \<rparr>))"

definition at_op :: "nat \<Rightarrow> string \<Rightarrow> string" where
  "at_op i msg = ''operation '' @ show_nat i @ '': '' @ msg"

text \<open>One round of the loop: the result, the market in the transaction, and whether the round reaches its end (\<open>continue\<close> skips the
  progress update).\<close>

definition exec_op :: "market_drv \<Rightarrow> nat \<Rightarrow> nat \<Rightarrow> BatchOperation \<Rightarrow> market_db \<Rightarrow> BatchOperationResult \<times> market_db \<times> bool" where
  "exec_op drv b i op m =
     (if bo_Type op = ''transfer''
      then (case find_asset drv (bo_AssetID op) m of
              Inl _ \<Rightarrow> (failed_result i op (at_op i ''asset not found''), m, False)
            | Inr _ \<Rightarrow>
                (case create_transfer drv (op_transfer op (batch_hash b i)) m of
                   Inl e \<Rightarrow> (failed_result i op (at_op i (err_msg e)), m, False)
                 | Inr m' \<Rightarrow> (done_result i op (batch_hash b i) (batch_hash b i) None, m', True)))
      else if bo_Type op = ''list''
      then (case create_listing drv (op_listing op (batch_listing b i)) m of
              Inl e \<Rightarrow> (failed_result i op (at_op i (err_msg e)), m, False)
            | Inr m' \<Rightarrow> (done_result i op '''' (batch_listing b i) None, m', True))
      else if bo_Type op = ''cancel_listing''
      then if op_listing_id op = '''' then (failed_result i op (at_op i ''listing_id required''), m, False)
           else (case g_first (d_listings drv) (\<lambda>l. li_ListingID l = op_listing_id op) (mk_listings m) of
                   Inl _ \<Rightarrow> (failed_result i op (at_op i ''listing not found''), m, False)
                 | Inr listing \<Rightarrow>
                     (case deactivate drv (op_listing_id op) m of
                        Inl e \<Rightarrow> (failed_result i op (at_op i (err_msg e)), m, False)
                      | Inr m' \<Rightarrow> (done_result i op '''' (op_listing_id op) (Some (li_Active listing)), m', True)))
      else (failed_result i op (at_op i (''unsupported type '' @ bo_Type op)), m, True))"

text \<open>The counters are counts of the results: every round appends one, with the error that becomes \<open>lastError\<close>.\<close>

definition completed_ops :: "BatchOperationResult list \<Rightarrow> nat" where
  "completed_ops rs = length (filter br_Success rs)"

definition failed_ops :: "BatchOperationResult list \<Rightarrow> nat" where
  "failed_ops rs = length (filter (\<lambda>r. \<not> br_Success r) rs)"

definition last_error :: "BatchOperationResult list \<Rightarrow> string" where
  "last_error rs = (case rev (filter (\<lambda>r. \<not> br_Success r) rs) of [] \<Rightarrow> '''' | r # _ \<Rightarrow> br_Error r)"

definition update_batch :: "batch_drv \<Rightarrow> nat \<Rightarrow> (batch_row \<Rightarrow> batch_row) \<Rightarrow> batch_row list \<Rightarrow> dberr + batch_row list" where
  "update_batch drv b f bs = and_then (g_update (d_batches drv) (batch_by_id b) f bs) (\<lambda>(_, bs'). Inr bs')"

definition update_ignoring_error :: "batch_drv \<Rightarrow> nat \<Rightarrow> (batch_row \<Rightarrow> batch_row) \<Rightarrow> batch_row list \<Rightarrow> batch_row list" where
  "update_ignoring_error drv b f bs = (case update_batch drv b f bs of Inl _ \<Rightarrow> bs | Inr bs' \<Rightarrow> bs')"

definition progress :: "BatchOperationResult list \<Rightarrow> batch_row \<Rightarrow> batch_row" where
  "progress rs x = x\<lparr> bx_CompletedCount := int (completed_ops rs), bx_FailedCount := int (failed_ops rs) \<rparr>"

fun run_ops :: "market_drv \<Rightarrow> batch_drv \<Rightarrow> nat \<Rightarrow> nat \<Rightarrow> BatchOperation list \<Rightarrow> BatchOperationResult list \<Rightarrow> market_db \<Rightarrow> batch_row list \<Rightarrow>
    BatchOperationResult list \<times> market_db \<times> batch_row list" where
  "run_ops txd drv b i [] rs m bs = (rs, m, bs)"
| "run_ops txd drv b i (op # ops) rs m bs =
     (let (r, m', end) = exec_op txd b i op m; rs' = rs @ [r]
      in run_ops txd drv b (Suc i) ops rs' m' (if end then update_ignoring_error drv b (progress rs') bs else bs))"

text \<open>\<open>tx := h.db.Begin()\<close>: if it failed, every statement on \<open>tx\<close> fails. The error of \<open>tx.Commit()\<close> is not looked at.\<close>

definition failing :: "dberr \<Rightarrow> 'r gorm" where
  "failing e = \<lparr> g_first = (\<lambda>_ _. Inl e), g_find = (\<lambda>_ _. Inl e), g_count = (\<lambda>_ _. Inl e), g_create = (\<lambda>_ _. Inl e), g_save = (\<lambda>_ _. Inl e),
     g_update = (\<lambda>_ _ _. Inl e), g_delete = (\<lambda>_ _. Inl e) \<rparr>"

definition tx_market :: "batch_drv \<Rightarrow> market_drv" where
  "tx_market drv =
     (case tx_begin (d_btx drv) of
        None \<Rightarrow> d_market drv
      | Some e \<Rightarrow> (d_market drv)\<lparr> d_listings := failing e,
                    d_approvals := (d_approvals (d_market drv))\<lparr> d_transfers := failing e, d_assetrows := failing e \<rparr> \<rparr>)"

record batch_reply =
  bp_BatchID :: nat
  bp_Status :: string
  bp_Results :: "BatchOperationResult list"

definition new_batch :: "batch_drv \<Rightarrow> instant option \<Rightarrow> nat \<Rightarrow> json \<Rightarrow> string \<Rightarrow> nat \<Rightarrow> batch_row" where
  "new_batch drv started userID ops status n = \<lparr> bx_ID = 0, bx_UserID = userID, bx_Operations = ops, bx_Status = status,
     bx_TxHash = '''', bx_ErrorDetails = '''', bx_CompletedCount = 0, bx_FailedCount = 0, bx_TotalOperations = int n, bx_OperationResults = None, bx_RetryCount = 0,
     bx_MaxRetries = d_max_retries drv, bx_IsRetryable = d_retryable drv, bx_LastRetryAt = None, bx_NextRetryAt = None, bx_StartedAt = started, bx_FinishedAt = None \<rparr>"

definition too_large :: "int \<Rightarrow> nat \<Rightarrow> string" where
  "too_large limit n = ''Batch size limit exceeded: maximum allowed is '' @ show_int limit @ '' operations (received '' @ show_nat n @ '')''"

definition save_ignoring_error :: "batch_drv \<Rightarrow> batch_row \<Rightarrow> batch_row list \<Rightarrow> batch_row list" where
  "save_ignoring_error drv x bs = (case g_save (d_batches drv) x bs of Inl _ \<Rightarrow> bs | Inr bs' \<Rightarrow> bs')"

definition finished :: "BatchOperationResult list \<Rightarrow> instant \<Rightarrow> string \<Rightarrow> string \<Rightarrow> batch_row \<Rightarrow> batch_row" where
  "finished rs now status hash x = (progress rs x)\<lparr> bx_ErrorDetails := last_error rs, bx_OperationResults := Some (JArray (map result_json rs)),
     bx_FinishedAt := Some now, bx_Status := status, bx_TxHash := hash \<rparr>"

definition execute_created :: "batch_drv \<Rightarrow> instant \<Rightarrow> BatchOperation list \<Rightarrow> batch_row \<Rightarrow> batch_db \<Rightarrow> batch_reply response \<times> batch_db" where
  "execute_created drv finishedAt ops batch db =
     (let b = bx_ID batch;
          (rs, m, bs) = run_ops (tx_market drv) drv b 0 ops [] (bt_market db) (t_batches db)
      in if failed_ops rs > 0 \<and> completed_ops rs = 0
         then (Fail StatusBadRequest (''All batch operations failed: '' @ last_error rs),
               db\<lparr> t_batches := save_ignoring_error drv (finished rs finishedAt BatchStatusFailed '''' batch) bs \<rparr>)
         else let status = (if failed_ops rs > 0 then BatchStatusCompletedWithErrors else BatchStatusCompleted);
                  hash = ''batch_tx_'' @ show_nat b
              in (Reply StatusCreated \<lparr> bp_BatchID = b, bp_Status = status, bp_Results = rs \<rparr>,
                  db\<lparr> t_batches := save_ignoring_error drv (finished rs finishedAt status hash batch) bs,
                      bt_market := (if tx_begin (d_btx drv) = None \<and> tx_commit (d_btx drv) = None then m else bt_market db) \<rparr>))"

definition ExecuteBatch :: "batch_drv \<Rightarrow> int \<Rightarrow> instant \<Rightarrow> instant \<Rightarrow> nat option \<Rightarrow> string + BatchOperation list \<Rightarrow> batch_db \<Rightarrow>
    batch_reply response \<times> batch_db" where
  "ExecuteBatch drv maxBatchSize startedAt finishedAt who body db =
     (case who of
        None \<Rightarrow> (Fail StatusUnauthorized ''User not authenticated'', db)
      | Some userID \<Rightarrow>
          (case body of
             Inl _ \<Rightarrow> (Fail StatusBadRequest ''Invalid batch request'', db)
           | Inr ops \<Rightarrow>
               if length ops = 0 then (Fail StatusBadRequest ''Batch must contain at least one operation'', db)
               else if int (length ops) > maxBatchSize then (Fail StatusBadRequest (too_large maxBatchSize (length ops)), db)
               else (case g_create (d_batches drv) (new_batch drv (Some startedAt) userID (JArray (map request_json ops)) BatchStatusProcessing (length ops))
                            (t_batches db) of
                       Inl _ \<Rightarrow> (Fail StatusInternalServerError ''Failed to create batch'', db)
                     | Inr (batch, bs) \<Rightarrow> execute_created drv finishedAt ops batch (db\<lparr> t_batches := bs \<rparr>))))"

subsection \<open>Rolling back\<close>

text \<open>The compensation of one operation, inside the transaction.\<close>

definition undo_op :: "market_drv \<Rightarrow> nat \<Rightarrow> nat \<Rightarrow> BatchOperation \<Rightarrow> market_db \<Rightarrow> string + market_db" where
  "undo_op drv b i op m =
     (if bo_Type op = ''transfer''
      then (case g_delete (d_transfers (d_approvals drv)) (\<lambda>t. tf_TxHash t = batch_hash b i) (t_transfers (mk_wf m)) of
              Inl _ \<Rightarrow> Inl ''Failed to roll back batch''
            | Inr (_, ts) \<Rightarrow> Inr (m\<lparr> mk_wf := (mk_wf m)\<lparr> t_transfers := ts \<rparr> \<rparr>))
      else if bo_Type op = ''list''
      then (case deactivate drv (batch_listing b i) m of Inl _ \<Rightarrow> Inl ''Failed to roll back batch'' | Inr m' \<Rightarrow> Inr m')
      else Inr m)"

fun undo_ops :: "market_drv \<Rightarrow> nat \<Rightarrow> nat \<Rightarrow> BatchOperation list \<Rightarrow> market_db \<Rightarrow> string + market_db" where
  "undo_ops drv b i [] m = Inr m"
| "undo_ops drv b i (op # ops) m = and_then (undo_op drv b i op m) (undo_ops drv b (Suc i) ops)"

definition tx_batches :: "batch_drv \<Rightarrow> batch_drv" where
  "tx_batches drv = (case tx_begin (d_btx drv) of None \<Rightarrow> drv | Some e \<Rightarrow> drv\<lparr> d_batches := failing e \<rparr>)"

definition rollback_tx :: "batch_drv \<Rightarrow> nat \<Rightarrow> BatchOperation list \<Rightarrow> batch_db \<Rightarrow> string + batch_db" where
  "rollback_tx drv b ops db =
     and_then (undo_ops (tx_market drv) b 0 ops (bt_market db)) (\<lambda>m.
     case update_batch (tx_batches drv) b (bx_Status_update (\<lambda>_. BatchStatusRolledBack)) (t_batches db) of
       Inl _ \<Rightarrow> Inl ''Failed to mark batch rolled back''
     | Inr bs \<Rightarrow>
         (case tx_commit (d_btx drv) of
            Some _ \<Rightarrow> Inl ''Failed to commit rollback''
          | None \<Rightarrow> Inr (db\<lparr> bt_market := m, t_batches := bs \<rparr>)))"

definition RollbackBatch :: "batch_drv \<Rightarrow> nat option \<Rightarrow> nat \<Rightarrow> batch_db \<Rightarrow> nat response \<times> batch_db" where
  "RollbackBatch drv who b db =
     (case who of
        None \<Rightarrow> (Fail StatusUnauthorized ''User not authenticated'', db)
      | Some userID \<Rightarrow>
          (case g_first (d_batches drv) (batch_by_id b) (t_batches db) of
             Inl _ \<Rightarrow> (Fail StatusNotFound ''Batch not found'', db)
           | Inr batch \<Rightarrow>
               if bx_UserID batch \<noteq> userID then (Fail StatusForbidden ''Access denied'', db)
               else if bx_Status batch \<noteq> BatchStatusCompleted \<and> bx_Status batch \<noteq> BatchStatusCompletedWithErrors
               then (Fail StatusBadRequest ''Only completed batches can be rolled back'', db)
               else (case operations_of_json (bx_Operations batch) of
                       None \<Rightarrow> (Fail StatusInternalServerError ''Batch operations are invalid'', db)
                     | Some ops \<Rightarrow>
                         if list_ex (\<lambda>op. bo_Type op = ''cancel_listing'') ops
                         then (Fail StatusBadRequest ''Batches containing cancel_listing cannot be rolled back'', db)
                         else (case rollback_tx drv (bx_ID batch) ops db of
                                 Inl msg \<Rightarrow> (Fail StatusInternalServerError msg, db)
                               | Inr db' \<Rightarrow> (Reply StatusOK (bx_ID batch), db')))))"


subsection \<open>Executing a batch from the queue\<close>

definition async_hash :: "nat \<Rightarrow> nat \<Rightarrow> int \<Rightarrow> string" where
  "async_hash b i nano = ''batch_'' @ show_nat b @ ''_op_'' @ show_nat i @ ''_'' @ show_int nano"

definition executeOperation :: "market_drv \<Rightarrow> nat \<Rightarrow> nat \<Rightarrow> int \<Rightarrow> BatchOperation \<Rightarrow> market_db \<Rightarrow> BatchOperationResult \<times> market_db" where
  "executeOperation drv b i nano op m =
     (if bo_Type op = ''transfer''
      then (case find_asset drv (bo_AssetID op) m of
              Inl _ \<Rightarrow> (failed_result i op (''asset '' @ show_nat (bo_AssetID op) @ '' not found''), m)
            | Inr _ \<Rightarrow>
                (case create_transfer drv (op_transfer op (async_hash b i nano)) m of
                   Inl e \<Rightarrow> (failed_result i op (err_msg e), m)
                 | Inr m' \<Rightarrow> (done_result i op (async_hash b i nano) '''' None, m')))
      else if bo_Type op = ''list''
      then (case create_listing drv (op_listing op (batch_listing b i)) m of
              Inl e \<Rightarrow> (failed_result i op (err_msg e), m)
            | Inr m' \<Rightarrow> (done_result i op '''' '''' None, m'))
      else if bo_Type op = ''cancel_listing''
      then if op_listing_id op = '''' then (failed_result i op ''listing_id required'', m)
           else (case deactivate drv (op_listing_id op) m of
                   Inl e \<Rightarrow> (failed_result i op (err_msg e), m)
                 | Inr m' \<Rightarrow> (done_result i op '''' '''' None, m'))
      else (failed_result i op (''unsupported operation type: '' @ bo_Type op), m))"

fun run_async :: "market_drv \<Rightarrow> (nat \<Rightarrow> int) \<Rightarrow> nat \<Rightarrow> nat \<Rightarrow> BatchOperation list \<Rightarrow> market_db \<Rightarrow> BatchOperationResult list \<times> market_db" where
  "run_async drv nano b i [] m = ([], m)"
| "run_async drv nano b i (op # ops) m =
     (let (r, m1) = executeOperation drv b i (nano i) op m; (rs, m2) = run_async drv nano b (Suc i) ops m1 in (r # rs, m2))"

definition first_error :: "BatchOperationResult list \<Rightarrow> string" where
  "first_error rs = (case filter (\<lambda>r. \<not> br_Success r) rs of [] \<Rightarrow> '''' | r # _ \<Rightarrow> br_Error r)"

text \<open>The channel of the processor holds at most 200 batch ids.\<close>

definition Enqueue :: "nat \<Rightarrow> batch_db \<Rightarrow> string option \<times> batch_db" where
  "Enqueue b db = (if length (bt_queue db) < 200 then (None, db\<lparr> bt_queue := bt_queue db @ [b] \<rparr>) else (Some ''batch queue is full'', db))"

subsection \<open>Retries\<close>

text \<open>\<open>LoadBatchConfig\<close> always sets the multiplier to 2.0. The product of a float64 with a power of two is exact; a conversion to
  \<open>time.Duration\<close> that does not fit gives the least integer (amd64).\<close>

record BatchConfig =
  bc_MaxRetries :: int
  bc_InitialBackoff :: duration
  bc_MaxBackoff :: duration

definition CalculateBackoff :: "BatchConfig \<Rightarrow> int \<Rightarrow> duration" where
  "CalculateBackoff cfg attempt =
     (if attempt \<le> 0 then bc_InitialBackoff cfg
      else let product = f64 (bc_InitialBackoff cfg) * 2 ^ nat attempt;
               backoff = (if in_i64 product then product else - (2 ^ 63))
           in if backoff > bc_MaxBackoff cfg then bc_MaxBackoff cfg else backoff)"

definition transientKeywords :: "string list" where
  "transientKeywords = [''timeout'', ''connection refused'', ''connection reset'', ''network error'', ''broken pipe'', ''deadlock'',
     ''lock wait timeout'', ''lock timeout'', ''too many requests'', ''rate limit'', ''429'', ''503'', ''service unavailable'', ''bad gateway'',
     ''502'', ''queue is full'', ''temporary failure'', ''try again'', ''resource temporarily unavailable'']"

definition IsTransientError :: "string option \<Rightarrow> string \<Rightarrow> bool" where
  "IsTransientError err errDetails \<longleftrightarrow>
     \<not> (err = None \<and> errDetails = '''') \<and>
     (let combined = ToLower (case err of None \<Rightarrow> errDetails | Some e \<Rightarrow> e @ '' '' @ errDetails)
      in list_ex (\<lambda>kw. occurs_in kw combined) transientKeywords)"

definition retry_limit :: "BatchConfig \<Rightarrow> batch_row \<Rightarrow> int" where
  "retry_limit cfg batch = (if bx_MaxRetries batch > 0 then bx_MaxRetries batch else bc_MaxRetries cfg)"

text \<open>The queue entry of a batch is updated, or created when it is not found; errors are ignored.\<close>

definition upsert_entry :: "batch_drv \<Rightarrow> BatchQueueEntry \<Rightarrow> batch_db \<Rightarrow> batch_db" where
  "upsert_entry drv e db =
     (case g_first (d_entries drv) (\<lambda>q. qe_BatchID q = qe_BatchID e) (t_entries db) of
        Inl _ \<Rightarrow> (case g_create (d_entries drv) e (t_entries db) of Inl _ \<Rightarrow> db | Inr (_, es) \<Rightarrow> db\<lparr> t_entries := es \<rparr>)
      | Inr q \<Rightarrow>
          (case g_update (d_entries drv) (\<lambda>x. qe_ID x = qe_ID q)
                  (\<lambda>x. x\<lparr> qe_AttemptCount := qe_AttemptCount e, qe_ScheduledAt := qe_ScheduledAt e, qe_ProcessedAt := None \<rparr>) (t_entries db) of
             Inl _ \<Rightarrow> db
           | Inr (_, es) \<Rightarrow> db\<lparr> t_entries := es \<rparr>))"

definition give_up :: "batch_drv \<Rightarrow> nat \<Rightarrow> string \<Rightarrow> batch_db \<Rightarrow> batch_db" where
  "give_up drv b details db = db\<lparr> t_batches := update_ignoring_error drv b
     (\<lambda>x. x\<lparr> bx_Status := BatchStatusFailed, bx_IsRetryable := False, bx_ErrorDetails := details \<rparr>) (t_batches db) \<rparr>"

text \<open>\<open>processor\<close> says whether the service has a processor to enqueue to.\<close>

definition ScheduleRetry :: "batch_drv \<Rightarrow> BatchConfig \<Rightarrow> bool \<Rightarrow> instant \<Rightarrow> nat \<Rightarrow> string option \<Rightarrow> batch_db \<Rightarrow> (string + bool) \<times> batch_db" where
  "ScheduleRetry drv cfg processor now b causeErr db =
     (case g_first (d_batches drv) (batch_by_id b) (t_batches db) of
        Inl e \<Rightarrow> (Inl (''batch '' @ show_nat b @ '' not found: '' @ err_msg e), db)
      | Inr batch \<Rightarrow>
          (let maxRetries = retry_limit cfg batch; errStr = (case causeErr of None \<Rightarrow> '''' | Some e \<Rightarrow> e)
           in if \<not> bx_IsRetryable batch \<or> bx_RetryCount batch \<ge> maxRetries
              then (Inr False, give_up drv b (errStr @ '' (max retries of '' @ show_int maxRetries @ '' exceeded)'') db)
              else if \<not> IsTransientError causeErr (bx_ErrorDetails batch)
              then (Inr False, give_up drv b (errStr @ '' (non-transient failure)'') db)
              else let backoff = CalculateBackoff cfg (bx_RetryCount batch); nextRetry = now + backoff; n = add64 (bx_RetryCount batch) 1
                   in case update_batch drv b (\<lambda>x. x\<lparr> bx_Status := BatchStatusQueued, bx_RetryCount := n, bx_LastRetryAt := Some now,
                              bx_NextRetryAt := Some nextRetry, bx_ErrorDetails := errStr \<rparr>) (t_batches db) of
                        Inl e \<Rightarrow> (Inl (''failed to update batch retry status: '' @ err_msg e), db)
                      | Inr bs \<Rightarrow>
                          (let db1 = upsert_entry drv \<lparr> qe_ID = 0, qe_BatchID = b, qe_Priority = 0, qe_AttemptCount = n, qe_MaxAttempts = maxRetries,
                                       qe_ScheduledAt = nextRetry, qe_ProcessedAt = None \<rparr> (db\<lparr> t_batches := bs \<rparr>)
                           in (Inr True, if backoff \<le> 0 \<and> processor then snd (Enqueue b db1) else db1))))"

definition ManualRetry :: "batch_drv \<Rightarrow> bool \<Rightarrow> instant \<Rightarrow> nat \<Rightarrow> nat \<Rightarrow> batch_db \<Rightarrow> (string + batch_row) \<times> batch_db" where
  "ManualRetry drv processor now b userID db =
     (case g_first (d_batches drv) (batch_by_id b) (t_batches db) of
        Inl _ \<Rightarrow> (Inl ''batch not found'', db)
      | Inr batch \<Rightarrow>
          if userID \<noteq> 0 \<and> bx_UserID batch \<noteq> userID then (Inl ''access denied'', db)
          else if bx_Status batch \<noteq> BatchStatusFailed \<and> bx_Status batch \<noteq> BatchStatusCompletedWithErrors \<and> bx_Status batch \<noteq> BatchStatusRolledBack
          then (Inl (''cannot retry batch with status '' @ CHR 0x27 # bx_Status batch @ CHR 0x27 # ''; only failed or rolled back batches can be retried''), db)
          else let n = add64 (bx_RetryCount batch) 1;
                   queued = (\<lambda>x. x\<lparr> bx_Status := BatchStatusQueued, bx_RetryCount := n, bx_LastRetryAt := Some now, bx_NextRetryAt := Some now,
                                  bx_ErrorDetails := '''', bx_IsRetryable := True \<rparr>)
               in case update_batch drv b queued (t_batches db) of
                    Inl e \<Rightarrow> (Inl (''failed to reset batch status: '' @ err_msg e), db)
                  | Inr bs \<Rightarrow>
                      (let db1 = upsert_entry drv \<lparr> qe_ID = 0, qe_BatchID = b, qe_Priority = 1, qe_AttemptCount = n, qe_MaxAttempts = bx_MaxRetries batch,
                                   qe_ScheduledAt = now, qe_ProcessedAt = None \<rparr> (db\<lparr> t_batches := bs \<rparr>)
                       in (Inr (queued batch), if processor then snd (Enqueue b db1) else db1)))"

text \<open>\<open>limit\<close> is how many entries the loop gets to before its context is cancelled.\<close>

definition entry_order :: "BatchQueueEntry \<Rightarrow> BatchQueueEntry \<Rightarrow> bool" where
  "entry_order x y \<longleftrightarrow> qe_Priority x > qe_Priority y \<or> (qe_Priority x = qe_Priority y \<and> qe_ScheduledAt x \<le> qe_ScheduledAt y)"

definition push_entry :: "batch_drv \<Rightarrow> bool \<Rightarrow> instant \<Rightarrow> BatchQueueEntry \<Rightarrow> batch_db \<Rightarrow> batch_db" where
  "push_entry drv processor now e db =
     (if \<not> processor then db
      else case Enqueue (qe_BatchID e) db of
             (Some _, db') \<Rightarrow> db'
           | (None, db') \<Rightarrow>
               (case g_update (d_entries drv) (\<lambda>x. qe_ID x = qe_ID e) (qe_ProcessedAt_update (\<lambda>_. Some now)) (t_entries db') of
                  Inl _ \<Rightarrow> db'
                | Inr (_, es) \<Rightarrow> db'\<lparr> t_entries := es \<rparr>))"

definition ProcessPendingRetries :: "batch_drv \<Rightarrow> bool \<Rightarrow> nat \<Rightarrow> instant \<Rightarrow> batch_db \<Rightarrow> dberr option \<times> batch_db" where
  "ProcessPendingRetries drv processor limit now db =
     (case g_find (d_entries drv) \<lparr> q_where = (\<lambda>q. qe_ScheduledAt q \<le> now \<and> qe_ProcessedAt q = None), q_order = entry_order,
             q_offset = 0, q_limit = Some 50 \<rparr> (t_entries db) of
        Inl e \<Rightarrow> (Some e, db)
      | Inr entries \<Rightarrow> (if limit < length entries then Some (DBError ''context canceled'') else None,
          fold (push_entry drv processor now) (take limit entries) db))"

subsection \<open>The worker\<close>

record worker_env =
  we_nano :: "nat \<Rightarrow> int"
  we_unix :: int
  we_now :: instant

definition drop_entry :: "batch_drv \<Rightarrow> nat \<Rightarrow> batch_db \<Rightarrow> batch_db" where
  "drop_entry drv b db =
     (case g_delete (d_entries drv) (\<lambda>q. qe_BatchID q = b) (t_entries db) of Inl _ \<Rightarrow> db | Inr (_, es) \<Rightarrow> db\<lparr> t_entries := es \<rparr>)"

text \<open>The operations of a queued batch, and the tables after them.\<close>

definition execute_queued :: "batch_drv \<Rightarrow> worker_env \<Rightarrow> nat \<Rightarrow> BatchOperation list \<Rightarrow> batch_db \<Rightarrow> (string \<times> string) \<times> batch_db" where
  "execute_queued drv env b ops db =
     (let (rs, m) = run_async (tx_market drv) (we_nano env) b 0 ops (bt_market db);
          finalStatus = (if completed_ops rs = 0 then BatchStatusFailed
                         else if failed_ops rs > 0 then BatchStatusCompletedWithErrors else BatchStatusCompleted);
          market = (if completed_ops rs \<noteq> 0 \<and> tx_begin (d_btx drv) = None \<and> tx_commit (d_btx drv) = None then m else bt_market db);
          f = (\<lambda>x. (progress rs x)\<lparr> bx_Status := finalStatus, bx_ErrorDetails := first_error rs,
                 bx_TxHash := ''batch_tx_'' @ show_nat b @ ''_'' @ show_int (we_unix env), bx_Operations := JArray (map result_json rs) \<rparr>)
      in ((finalStatus, first_error rs), db\<lparr> bt_market := market, t_batches := update_ignoring_error drv b f (t_batches db) \<rparr>))"

definition retried :: "(string + bool) \<times> batch_db \<Rightarrow> bool" where
  "retried x = (case fst x of Inl _ \<Rightarrow> False | Inr ok \<Rightarrow> ok)"

text \<open>\<open>retry\<close> is the retry service, if one is attached, with whether it knows a processor.\<close>

definition processBatch :: "batch_drv \<Rightarrow> (BatchConfig \<times> bool) option \<Rightarrow> worker_env \<Rightarrow> nat \<Rightarrow> batch_db \<Rightarrow> batch_db" where
  "processBatch drv retry env b db =
     (case g_first (d_batches drv) (batch_by_id b) (t_batches db) of
        Inl _ \<Rightarrow> db
      | Inr batch \<Rightarrow>
          if bx_Status batch \<noteq> BatchStatusQueued then db
          else let db1 = db\<lparr> t_batches := update_ignoring_error drv b (bx_Status_update (\<lambda>_. BatchStatusProcessing)) (t_batches db) \<rparr>
               in case operations_of_json (bx_Operations batch) of
                    None \<Rightarrow> db1\<lparr> t_batches := update_ignoring_error drv b
                      (\<lambda>x. x\<lparr> bx_Status := BatchStatusFailed, bx_ErrorDetails := ''failed to parse operations'' \<rparr>) (t_batches db1) \<rparr>
                  | Some ops \<Rightarrow>
                      (let ((finalStatus, errDetails), db2) = execute_queued drv env b ops db1
                       in case retry of
                            None \<Rightarrow> drop_entry drv b db2
                          | Some (cfg, processor) \<Rightarrow>
                              if finalStatus = BatchStatusFailed \<and> errDetails \<noteq> ''''
                              then (let x = ScheduleRetry drv cfg processor (we_now env) b (Some errDetails) db2
                                    in if retried x then snd x else drop_entry drv b (snd x))
                              else drop_entry drv b db2))"

definition worker :: "batch_drv \<Rightarrow> (BatchConfig \<times> bool) option \<Rightarrow> worker_env \<Rightarrow> batch_db \<Rightarrow> batch_db" where
  "worker drv retry env db = (case bt_queue db of [] \<Rightarrow> db | b # rest \<Rightarrow> processBatch drv retry env b (db\<lparr> bt_queue := rest \<rparr>))"

subsection \<open>The endpoints of the queue\<close>

text \<open>Some handlers convert the user id without asking whether there is one, and \<open>SubmitBatch\<close> calls its processor without asking whether
  there is one: both panic.\<close>

definition SubmitBatch :: "batch_drv \<Rightarrow> bool \<Rightarrow> int \<Rightarrow> instant \<Rightarrow> nat option \<Rightarrow> string + BatchOperation list \<times> int \<Rightarrow> batch_db \<Rightarrow>
    (nat \<times> string) response \<times> batch_db" where
  "SubmitBatch drv processor maxBatchSize now who body db =
     (case who of
        None \<Rightarrow> (Fail StatusUnauthorized ''User not authenticated'', db)
      | Some userID \<Rightarrow>
          (case body of
             Inl _ \<Rightarrow> (Fail StatusBadRequest ''Invalid batch request'', db)
           | Inr (ops, priority) \<Rightarrow>
               if length ops = 0 then (Fail StatusBadRequest ''Batch must contain at least one operation'', db)
               else if int (length ops) > maxBatchSize then (Fail StatusBadRequest (too_large maxBatchSize (length ops)), db)
               else (case g_create (d_batches drv) (new_batch drv None userID (JArray (map operation_json ops)) BatchStatusQueued (length ops))
                            (t_batches db) of
                       Inl _ \<Rightarrow> (Fail StatusInternalServerError ''Failed to create batch'', db)
                     | Inr (batch, bs) \<Rightarrow>
                         (let db1 = db\<lparr> t_batches := bs \<rparr>;
                              e = \<lparr> qe_ID = 0, qe_BatchID = bx_ID batch, qe_Priority = priority, qe_AttemptCount = 0, qe_MaxAttempts = 3,
                                    qe_ScheduledAt = now, qe_ProcessedAt = None \<rparr>;
                              db2 = (case g_create (d_entries drv) e (t_entries db1) of Inl _ \<Rightarrow> db1 | Inr (_, es) \<Rightarrow> db1\<lparr> t_entries := es \<rparr>)
                          in if \<not> processor then (Crash, db2)
                             else (Reply 202 (bx_ID batch, bx_Status batch), snd (Enqueue (bx_ID batch) db2))))))"

definition own_batch :: "batch_drv \<Rightarrow> nat option \<Rightarrow> nat \<Rightarrow> batch_db \<Rightarrow> (batch_row \<Rightarrow> 'b response \<times> batch_db) \<Rightarrow> 'b response \<times> batch_db" where
  "own_batch drv who b db f =
     (case g_first (d_batches drv) (batch_by_id b) (t_batches db) of
        Inl _ \<Rightarrow> (Fail StatusNotFound ''Batch not found'', db)
      | Inr batch \<Rightarrow>
          (case who of
             None \<Rightarrow> (Crash, db)
           | Some userID \<Rightarrow> if bx_UserID batch \<noteq> userID then (Fail StatusForbidden ''Access denied'', db) else f batch))"

definition GetBatchResult :: "batch_drv \<Rightarrow> nat option \<Rightarrow> nat \<Rightarrow> batch_db \<Rightarrow> batch_row response \<times> batch_db" where
  "GetBatchResult drv who b db = own_batch drv who b db (\<lambda>batch. (Reply StatusOK batch, db))"

definition CancelBatch :: "batch_drv \<Rightarrow> nat option \<Rightarrow> nat \<Rightarrow> batch_db \<Rightarrow> unit response \<times> batch_db" where
  "CancelBatch drv who b db =
     own_batch drv who b db (\<lambda>batch.
       if bx_Status batch \<noteq> BatchStatusQueued then (Fail StatusBadRequest ''Only queued batches can be cancelled'', db)
       else (Reply StatusOK (), drop_entry drv b
              (db\<lparr> t_batches := update_ignoring_error drv b (bx_Status_update (\<lambda>_. BatchStatusRolledBack)) (t_batches db) \<rparr>)))"

definition RetryBatch :: "batch_drv \<Rightarrow> bool \<Rightarrow> instant \<Rightarrow> nat option \<Rightarrow> nat \<Rightarrow> batch_db \<Rightarrow> batch_row response \<times> batch_db" where
  "RetryBatch drv processor now who b db =
     (case who of
        None \<Rightarrow> (Fail StatusUnauthorized ''User not authenticated'', db)
      | Some userID \<Rightarrow>
          if b = 0 then (Fail StatusBadRequest ''Valid batch ID is required'', db)
          else (case ManualRetry drv processor now b userID db of
                  (Inr batch, db') \<Rightarrow> (Reply StatusOK batch, db')
                | (Inl msg, db') \<Rightarrow>
                    (if occurs_in ''not found'' msg then Fail StatusNotFound ''Batch not found''
                     else if occurs_in ''access denied'' msg then Fail StatusForbidden ''Access denied''
                     else Fail StatusBadRequest msg, db')))"

text \<open>\<open>GetBatchStatus\<close> has no check of the owner. The stored results are handed on as the documents they are.\<close>

definition GetBatchStatus :: "batch_drv \<Rightarrow> nat \<Rightarrow> batch_db \<Rightarrow> (batch_row \<times> fields list \<times> fields list) response" where
  "GetBatchStatus drv b db =
     (case g_first (d_batches drv) (batch_by_id b) (t_batches db) of
        Inl _ \<Rightarrow> Fail StatusNotFound ''Batch not found''
      | Inr batch \<Rightarrow>
          (let results = (case bx_OperationResults batch of None \<Rightarrow> [] | Some j \<Rightarrow> (case decode_slice Some j of None \<Rightarrow> [] | Some rs \<Rightarrow> rs))
           in Reply StatusOK (batch, results, filter (\<lambda>ob. map_of ob ''success'' \<noteq> Some (JBool True)) results)))"


subsection \<open>Drivers and names\<close>

definition batch_drv_ok :: "batch_drv \<Rightarrow> bool" where
  "batch_drv_ok drv \<longleftrightarrow> market_drv_ok (d_market drv) \<and> gorm_ok bx_ID (\<lambda>k. bx_ID_update (\<lambda>_. k)) (d_batches drv) \<and>
     gorm_ok qe_ID (\<lambda>k. qe_ID_update (\<lambda>_. k)) (d_entries drv)"

lemma batch_drvD:
  assumes "batch_drv_ok drv"
  shows "gorm_ok bx_ID (\<lambda>k. bx_ID_update (\<lambda>_. k)) (d_batches drv)" "gorm_ok qe_ID (\<lambda>k. qe_ID_update (\<lambda>_. k)) (d_entries drv)"
    "gorm_ok li_ID (\<lambda>k. li_ID_update (\<lambda>_. k)) (d_listings (d_market drv))"
    "gorm_ok tf_ID (\<lambda>k. tf_ID_update (\<lambda>_. k)) (d_transfers (d_approvals (d_market drv)))"
    "gorm_ok as_ID (\<lambda>k. as_ID_update (\<lambda>_. k)) (d_assetrows (d_approvals (d_market drv)))"
  using assms by (simp_all add: batch_drv_ok_def market_drv_ok_def wf_drv_ok_def)

text \<open>The batch that a transaction hash or a listing id names.\<close>

definition hash_batch :: "string \<Rightarrow> nat option" where
  "hash_batch h = (if take 6 h = ''batch_'' then digits_value 0 (takeWhile is_digit (drop 6 h)) else None)"

definition listing_batch :: "string \<Rightarrow> nat option" where
  "listing_batch n = (if take 14 n = ''batch_listing_'' then digits_value 0 (takeWhile is_digit (drop 14 n)) else None)"

lemma takeWhile_show_nat: "\<not> is_digit c \<Longrightarrow> takeWhile is_digit (show_nat n @ c # s) = show_nat n"
  by (subst takeWhile_append2) (auto dest: show_nat_digits)

lemma not_digit_underscore [simp]: "\<not> is_digit CHR ''_''"
  by (simp add: is_digit_def digit_val_def)

lemma names_of_batches [simp]:
  "hash_batch (batch_hash b i) = Some b" "hash_batch (async_hash b i n) = Some b" "listing_batch (batch_listing b i) = Some b"
  by (simp_all add: hash_batch_def listing_batch_def batch_hash_def async_hash_def batch_listing_def takeWhile_show_nat)

lemma show_nat_inject [simp]: "show_nat m = show_nat n \<longleftrightarrow> m = n"
  by (metis digits_value_show_nat option.inject)

lemma batch_hash_inject [simp]: "batch_hash b i = batch_hash b j \<longleftrightarrow> i = j" "batch_listing b i = batch_listing b j \<longleftrightarrow> i = j"
  by (simp_all add: batch_hash_def batch_listing_def)

text \<open>What a batch names exists: hashes and listing ids of the form that batches use belong to batches in the table.\<close>

definition batch_inv :: "batch_db \<Rightarrow> bool" where
  "batch_inv db \<longleftrightarrow> distinct (map bx_ID (t_batches db)) \<and>
     (\<forall>t\<in>set (t_transfers (mk_wf (bt_market db))). \<forall>b. hash_batch (tf_TxHash t) = Some b \<longrightarrow> b \<in> bx_ID ` set (t_batches db)) \<and>
     (\<forall>l\<in>set (mk_listings (bt_market db)). \<forall>b. listing_batch (li_ListingID l) = Some b \<longrightarrow> b \<in> bx_ID ` set (t_batches db))"

subsection \<open>What the operations of a batch record\<close>

fun recorded :: "nat \<Rightarrow> nat \<Rightarrow> BatchOperation list \<Rightarrow> BatchOperationResult list \<Rightarrow> transfer list" where
  "recorded b i (op # ops) (r # rs) =
     (if bo_Type op = ''transfer'' \<and> br_Success r then [op_transfer op (batch_hash b i)] else []) @ recorded b (Suc i) ops rs"
| "recorded b i _ _ = []"

fun listed :: "nat \<Rightarrow> nat \<Rightarrow> BatchOperation list \<Rightarrow> BatchOperationResult list \<Rightarrow> Listing list" where
  "listed b i (op # ops) (r # rs) =
     (if bo_Type op = ''list'' \<and> br_Success r then [op_listing op (batch_listing b i)] else []) @ listed b (Suc i) ops rs"
| "listed b i _ _ = []"

abbreviation transfer_core :: "transfer \<Rightarrow> transfer" where "transfer_core t \<equiv> t\<lparr> tf_ID := 0 \<rparr>"
abbreviation listing_core :: "Listing \<Rightarrow> Listing" where "listing_core l \<equiv> l\<lparr> li_ID := 0 \<rparr>"

definition no_cancel :: "BatchOperation list \<Rightarrow> bool" where
  "no_cancel ops \<longleftrightarrow> list_all (\<lambda>op. bo_Type op \<noteq> ''cancel_listing'') ops"

text \<open>From one market to another: these transfers were appended, and if nothing was cancelled these listings; nothing else changed.\<close>

definition market_adds :: "bool \<Rightarrow> transfer list \<Rightarrow> Listing list \<Rightarrow> market_db \<Rightarrow> market_db \<Rightarrow> bool" where
  "market_adds exact ts ls m m' \<longleftrightarrow>
     mk_kyc m' = mk_kyc m \<and>
     (\<exists>ts'. mk_wf m' = (mk_wf m)\<lparr> t_transfers := t_transfers (mk_wf m) @ ts' \<rparr> \<and> map transfer_core ts' = ts) \<and>
     map li_ListingID (mk_listings m') = map li_ListingID (mk_listings m) @ map li_ListingID ls \<and>
     (exact \<longrightarrow> (\<exists>ls'. mk_listings m' = mk_listings m @ ls' \<and> map listing_core ls' = ls))"

lemma market_adds_refl: "market_adds exact [] [] m m"
  by (simp add: market_adds_def)

lemma market_adds_trans: "market_adds exact ts ls a b \<Longrightarrow> market_adds exact ts' ls' b c \<Longrightarrow> market_adds exact (ts @ ts') (ls @ ls') a c"
  unfolding market_adds_def
proof (intro conjI impI; (elim conjE exE)?)
  fix x y assume "mk_wf b = (mk_wf a)\<lparr> t_transfers := t_transfers (mk_wf a) @ x \<rparr>" "map transfer_core x = ts"
    "mk_wf c = (mk_wf b)\<lparr> t_transfers := t_transfers (mk_wf b) @ y \<rparr>" "map transfer_core y = ts'"
  then show "\<exists>z. mk_wf c = (mk_wf a)\<lparr> t_transfers := t_transfers (mk_wf a) @ z \<rparr> \<and> map transfer_core z = ts @ ts'"
    by (intro exI[of _ "x @ y"]) simp
qed auto

lemma create_transfer_adds:
  assumes "market_drv_ok drv" "create_transfer drv t m = Inr m'" "tf_ID t = 0"
  shows "market_adds exact [t] [] m m'"
proof -
  have g: "gorm_ok tf_ID (\<lambda>k. tf_ID_update (\<lambda>_. k)) (d_transfers (d_approvals drv))" using assms(1) by (simp add: market_drv_ok_def wf_drv_ok_def)
  obtain t' ts where c: "g_create (d_transfers (d_approvals drv)) t (t_transfers (mk_wf m)) = Inr (t', ts)"
    and m': "m' = m\<lparr> mk_wf := (mk_wf m)\<lparr> t_transfers := ts \<rparr> \<rparr>"
    using assms(2) by (auto simp: create_transfer_def)
  obtain k where "t' = t\<lparr> tf_ID := k \<rparr>" "ts = t_transfers (mk_wf m) @ [t']" by (rule gorm_createD[OF g c])
  then show ?thesis using assms(3) m' by (auto simp: market_adds_def)
qed

lemma create_listing_adds:
  assumes "market_drv_ok drv" "create_listing drv l m = Inr m'" "li_ID l = 0"
  shows "market_adds exact [] [l] m m'"
proof -
  have g: "gorm_ok li_ID (\<lambda>k. li_ID_update (\<lambda>_. k)) (d_listings drv)" using assms(1) by (simp add: market_drv_ok_def)
  obtain l' ls where c: "g_create (d_listings drv) l (mk_listings m) = Inr (l', ls)" and m': "m' = m\<lparr> mk_listings := ls \<rparr>"
    using assms(2) by (auto simp: create_listing_def)
  obtain k where "l' = l\<lparr> li_ID := k \<rparr>" "ls = mk_listings m @ [l']" by (rule gorm_createD[OF g c])
  then show ?thesis using assms(3) m' by (auto simp: market_adds_def)
qed

lemma deactivate_adds:
  assumes "market_drv_ok drv" "deactivate drv n m = Inr m'"
  shows "market_adds False [] [] m m'"
proof -
  have "gorm_ok li_ID (\<lambda>k. li_ID_update (\<lambda>_. k)) (d_listings drv)" using assms(1) by (simp add: market_drv_ok_def)
  note u = gorm_updateD(2)[OF this]
  obtain k ls where c: "g_update (d_listings drv) (\<lambda>l. li_ListingID l = n) (li_Active_update (\<lambda>_. False)) (mk_listings m) = Inr (k, ls)"
    and m': "m' = m\<lparr> mk_listings := ls \<rparr>" using assms(2) by (auto simp: deactivate_def)
  have "map li_ListingID ls = map li_ListingID (mk_listings m)" unfolding u[OF c] by simp
  then show ?thesis using m' by (simp add: market_adds_def)
qed

lemma op_row_IDs [simp]: "tf_ID (op_transfer op h) = 0" "li_ID (op_listing op n) = 0"
  "tf_TxHash (op_transfer op h) = h" "li_ListingID (op_listing op n) = n" "li_Active (op_listing op n)"
  by (simp_all add: op_transfer_def op_listing_def)

lemma result_success [simp]: "\<not> br_Success (failed_result i op e)" "br_Success (done_result i op h n p)"
  by (simp_all add: failed_result_def done_result_def)

lemma exec_op_adds:
  assumes "market_drv_ok drv" "exec_op drv b i op m = (r, m', e)"
  shows "market_adds (bo_Type op \<noteq> ''cancel_listing'') (recorded b i [op] [r]) (listed b i [op] [r]) m m'"
  using assms(2) unfolding exec_op_def
  by (auto simp: market_adds_refl create_transfer_adds[OF assms(1)] create_listing_adds[OF assms(1)] deactivate_adds[OF assms(1)] split: if_splits sum.splits)


text \<open>The loop appends one result per operation, and its effect on the market is what the successful results say.\<close>

lemma recorded_Cons: "recorded b i (op # ops) (r # rs) = recorded b i [op] [r] @ recorded b (Suc i) ops rs"
  "listed b i (op # ops) (r # rs) = listed b i [op] [r] @ listed b (Suc i) ops rs"
  by simp_all

lemma market_adds_weaken: "market_adds exact ts ls m m' \<Longrightarrow> (exact' \<Longrightarrow> exact) \<Longrightarrow> market_adds exact' ts ls m m'"
  by (auto simp: market_adds_def)

lemma run_ops_adds:
  assumes "market_drv_ok txd" "run_ops txd drv b i ops rs m bs = (rs', m', bs')"
  shows "\<exists>new. rs' = rs @ new \<and> length new = length ops \<and> market_adds (no_cancel ops) (recorded b i ops new) (listed b i ops new) m m'"
  using assms(2)
proof (induction ops arbitrary: i rs m bs)
  case (Cons op ops)
  obtain r m1 e where x: "exec_op txd b i op m = (r, m1, e)" by (metis prod_cases3)
  then obtain bs1 where "run_ops txd drv b (Suc i) ops (rs @ [r]) m1 bs1 = (rs', m', bs')" using Cons.prems by (simp add: Let_def)
  from Cons.IH[OF this] obtain new where new: "rs' = (rs @ [r]) @ new" "length new = length ops"
    "market_adds (no_cancel ops) (recorded b (Suc i) ops new) (listed b (Suc i) ops new) m1 m'" by blast
  have "market_adds (no_cancel (op # ops)) (recorded b i [op] [r] @ recorded b (Suc i) ops new)
      (listed b i [op] [r] @ listed b (Suc i) ops new) m m'"
    by (rule market_adds_trans[of _ _ _ _ m1])
      (rule market_adds_weaken[OF exec_op_adds[OF assms(1) x]] market_adds_weaken[OF new(3)], simp add: no_cancel_def)+
  then show ?case unfolding recorded_Cons[symmetric] using new by (intro exI[of _ "r # new"]) simp
qed (simp add: market_adds_refl)

lemma recorded_hashes:
  assumes "length rs = length ops" "t \<in> set (recorded b i ops rs)"
  shows "\<exists>j < length ops. tf_TxHash t = batch_hash b (i + j) \<and> bo_Type (ops ! j) = ''transfer''"
  using assms
proof (induction b i ops rs rule: recorded.induct)
  case (1 b i op ops r rs)
  show ?case
  proof (cases "t \<in> set (recorded b (Suc i) ops rs)")
    case True
    then obtain j where "j < length ops" "tf_TxHash t = batch_hash b (Suc i + j)" "bo_Type (ops ! j) = ''transfer''" using 1 by auto
    then show ?thesis by (intro exI[of _ "Suc j"]) simp
  qed (use 1(3) in \<open>auto split: if_splits\<close>)
qed simp_all

lemma listed_names:
  assumes "length rs = length ops" "l \<in> set (listed b i ops rs)"
  shows "\<exists>j < length ops. li_ListingID l = batch_listing b (i + j) \<and> bo_Type (ops ! j) = ''list'' \<and> li_Active l"
  using assms
proof (induction b i ops rs rule: listed.induct)
  case (1 b i op ops r rs)
  show ?case
  proof (cases "l \<in> set (listed b (Suc i) ops rs)")
    case True
    then obtain j where "j < length ops" "li_ListingID l = batch_listing b (Suc i + j)" "bo_Type (ops ! j) = ''list''" "li_Active l" using 1 by auto
    then show ?thesis by (intro exI[of _ "Suc j"]) simp
  qed (use 1(3) in \<open>auto split: if_splits\<close>)
qed simp_all

text \<open>When the transaction could not begin, every operation fails.\<close>

lemma exec_op_dead:
  assumes "tx_begin (d_btx drv) = Some e" "exec_op (tx_market drv) b i op m = (r, m', x)"
  shows "m' = m \<and> \<not> br_Success r"
  using assms by (auto simp: exec_op_def tx_market_def find_asset_def create_listing_def failing_def split: if_splits)

lemma run_ops_dead:
  assumes "tx_begin (d_btx drv) = Some e" "run_ops (tx_market drv) drv b i ops rs m bs = (rs', m', bs')"
  shows "m' = m \<and> completed_ops rs' = completed_ops rs \<and> failed_ops rs' = failed_ops rs + length ops"
  using assms(2)
proof (induction ops arbitrary: i rs m bs)
  case (Cons op ops)
  obtain r m1 x where x: "exec_op (tx_market drv) b i op m = (r, m1, x)" by (metis prod_cases3)
  then obtain bs1 where "run_ops (tx_market drv) drv b (Suc i) ops (rs @ [r]) m1 bs1 = (rs', m', bs')" using Cons.prems by (simp add: Let_def)
  from Cons.IH[OF this] exec_op_dead[OF assms(1) x] show ?case by (simp add: completed_ops_def failed_ops_def)
qed simp

lemma tx_market_alive: "tx_begin (d_btx drv) = None \<Longrightarrow> tx_market drv = d_market drv"
  by (simp add: tx_market_def)

subsection \<open>The rows of batches\<close>

lemma batch_update_cases:
  assumes "batch_drv_ok drv"
  shows "update_ignoring_error drv b f bs = bs \<or> update_ignoring_error drv b f bs = map (\<lambda>x. if bx_ID x = b then f x else x) bs"
  using gorm_updateD(2)[OF batch_drvD(1)[OF assms]] by (auto simp: update_ignoring_error_def update_batch_def and_then_def split: sum.splits prod.splits)

lemma update_batchD:
  assumes "batch_drv_ok drv" "update_batch drv b f bs = Inr bs'"
  shows "bs' = map (\<lambda>x. if bx_ID x = b then f x else x) bs"
  using assms(2) gorm_updateD(2)[OF batch_drvD(1)[OF assms(1)]] by (auto simp: update_batch_def)

lemma save_ignoring_cases:
  assumes "batch_drv_ok drv" "bx_ID x \<in> bx_ID ` set bs"
  shows "save_ignoring_error drv x bs = bs \<or> save_ignoring_error drv x bs = put_row bx_ID x bs"
  using assms(2) gorm_save[OF batch_drvD(1)[OF assms(1)]] by (auto simp: save_ignoring_error_def split: sum.splits)

text \<open>What every write of a row keeps: its id, and any property that the written row has too.\<close>

definition rows_keep :: "nat \<Rightarrow> (batch_row \<Rightarrow> bool) \<Rightarrow> batch_row list \<Rightarrow> batch_row list \<Rightarrow> bool" where
  "rows_keep b P bs bs' \<longleftrightarrow> map bx_ID bs' = map bx_ID bs \<and> ((\<forall>x\<in>set bs. bx_ID x = b \<longrightarrow> P x) \<longrightarrow> (\<forall>x\<in>set bs'. bx_ID x = b \<longrightarrow> P x)) \<and>
     filter (\<lambda>x. bx_ID x \<noteq> b) bs' = filter (\<lambda>x. bx_ID x \<noteq> b) bs"

lemma rows_keep_refl: "rows_keep b P bs bs"
  by (simp add: rows_keep_def)

lemma rows_keep_trans: "rows_keep b P xs ys \<Longrightarrow> rows_keep b P ys zs \<Longrightarrow> rows_keep b P xs zs"
  by (auto simp: rows_keep_def)

lemma rows_keep_map:
  assumes "\<And>x. bx_ID (f x) = bx_ID x" "\<And>x. P x \<Longrightarrow> P (f x)"
  shows "rows_keep b P bs (map (\<lambda>x. if bx_ID x = b then f x else x) bs)"
proof -
  have "filter (\<lambda>x. bx_ID x \<noteq> b) (map (\<lambda>x. if bx_ID x = b then f x else x) bs) = filter (\<lambda>x. bx_ID x \<noteq> b) bs"
    using assms(1) by (induction bs) auto
  then show ?thesis using assms by (auto simp: rows_keep_def)
qed

lemma rows_keep_put:
  assumes "P x"
  shows "rows_keep (bx_ID x) P bs (put_row bx_ID x bs)"
proof -
  have "filter (\<lambda>y. bx_ID y \<noteq> bx_ID x) (put_row bx_ID x bs) = filter (\<lambda>y. bx_ID y \<noteq> bx_ID x) bs"
    by (induction bs) (auto simp: put_row_def)
  then show ?thesis using assms by (auto simp: rows_keep_def dest: in_set_put_row)
qed

lemma update_ignoring_keeps:
  assumes "batch_drv_ok drv" "\<And>x. bx_ID (f x) = bx_ID x" "\<And>x. P x \<Longrightarrow> P (f x)"
  shows "rows_keep b P bs (update_ignoring_error drv b f bs)"
proof -
  have "rows_keep b P bs (map (\<lambda>x. if bx_ID x = b then f x else x) bs)" by (rule rows_keep_map) (use assms(2,3) in auto)
  then show ?thesis using batch_update_cases[OF assms(1), of b f bs] rows_keep_refl[of b P bs] by auto
qed

lemma save_ignoring_keeps:
  assumes "batch_drv_ok drv" "bx_ID x \<in> bx_ID ` set bs" "P x"
  shows "rows_keep (bx_ID x) P bs (save_ignoring_error drv x bs)"
  using save_ignoring_cases[OF assms(1,2)] rows_keep_put[of P x] assms(3) rows_keep_refl by metis

lemma run_ops_keeps:
  assumes "batch_drv_ok drv" "run_ops txd drv b i ops rs m bs = (rs', m', bs')"
    and "\<And>rs x. P x \<Longrightarrow> P (progress rs x)"
  shows "rows_keep b P bs bs'"
  using assms(2)
proof (induction ops arbitrary: i rs m bs)
  case (Cons op ops)
  obtain r m1 e where x: "exec_op txd b i op m = (r, m1, e)" by (metis prod_cases3)
  let ?bs = "if e then update_ignoring_error drv b (progress (rs @ [r])) bs else bs"
  have "rows_keep b P bs ?bs"
    using update_ignoring_keeps[OF assms(1), of "progress (rs @ [r])" P b bs] assms(3) rows_keep_refl by (simp add: progress_def)
  moreover have "run_ops txd drv b (Suc i) ops (rs @ [r]) m1 ?bs = (rs', m', bs')" using Cons.prems x by (simp add: Let_def)
  ultimately show ?case using Cons.IH rows_keep_trans by blast
qed (simp add: rows_keep_refl)


subsection \<open>Executing\<close>

definition fresh_batch :: "batch_drv \<Rightarrow> batch_row \<Rightarrow> batch_db \<Rightarrow> batch_db \<Rightarrow> bool" where
  "fresh_batch drv batch db db1 \<longleftrightarrow> bx_ID batch \<notin> bx_ID ` set (t_batches db) \<and> db1 = db\<lparr> t_batches := t_batches db @ [batch] \<rparr>"

lemma create_fresh:
  assumes "batch_drv_ok drv" "g_create (d_batches drv) x (t_batches db) = Inr (batch, bs)"
  shows "fresh_batch drv batch db (db\<lparr> t_batches := bs \<rparr>)" "bx_Operations batch = bx_Operations x" "bx_Status batch = bx_Status x"
    "bx_UserID batch = bx_UserID x"
  by (rule gorm_createD[OF batch_drvD(1)[OF assms(1)] assms(2)], simp add: fresh_batch_def)+

text \<open>What a request that answers with 201 has done: under a fresh batch id, its results and their effect, if the commit succeeded. A batch in
  which everything failed leaves the market alone.\<close>

definition executed :: "batch_drv \<Rightarrow> nat \<Rightarrow> BatchOperation list \<Rightarrow> BatchOperationResult list \<Rightarrow> batch_db \<Rightarrow> batch_db \<Rightarrow> bool" where
  "executed drv b ops rs db db' \<longleftrightarrow> b \<notin> bx_ID ` set (t_batches db) \<and> map bx_ID (t_batches db') = map bx_ID (t_batches db) @ [b] \<and>
     filter (\<lambda>x. bx_ID x \<noteq> b) (t_batches db') = t_batches db \<and>
     (\<forall>x\<in>set (t_batches db'). bx_ID x = b \<longrightarrow> bx_Operations x = JArray (map request_json ops) \<and> bx_Status x \<noteq> BatchStatusQueued) \<and>
     length rs = length ops \<and> t_entries db' = t_entries db \<and> bt_queue db' = bt_queue db \<and>
     (bt_market db' = bt_market db \<or> market_adds (no_cancel ops) (recorded b 0 ops rs) (listed b 0 ops rs) (bt_market db) (bt_market db'))"

lemma filter_fresh: "b \<notin> bx_ID ` set bs \<Longrightarrow> filter (\<lambda>x. bx_ID x \<noteq> b) bs = bs"
  by (induction bs) auto

lemma execute_created_effect:
  assumes drv: "batch_drv_ok drv" and fresh: "fresh_batch drv batch db db1" and ops: "bx_Operations batch = JArray (map request_json ops)"
    "bx_Status batch \<noteq> BatchStatusQueued" and x: "execute_created drv now ops batch db1 = (r, db')"
  shows "\<exists>rs. executed drv (bx_ID batch) ops rs db db' \<and>
    (r = Fail StatusBadRequest (''All batch operations failed: '' @ last_error rs) \<and> bt_market db' = bt_market db \<or>
     (r = Reply StatusCreated \<lparr> bp_BatchID = bx_ID batch,
        bp_Status = (if failed_ops rs > 0 then BatchStatusCompletedWithErrors else BatchStatusCompleted), bp_Results = rs \<rparr> \<and>
      (tx_begin (d_btx drv) = None \<and> tx_commit (d_btx drv) = None \<longrightarrow>
         market_adds (no_cancel ops) (recorded (bx_ID batch) 0 ops rs) (listed (bx_ID batch) 0 ops rs) (bt_market db) (bt_market db'))))"
proof -
  define b where "b = bx_ID batch"
  let ?P = "\<lambda>x. bx_Operations x = JArray (map request_json ops) \<and> bx_Status x \<noteq> BatchStatusQueued"
  have db1: "t_batches db1 = t_batches db @ [batch]" "b \<notin> bx_ID ` set (t_batches db)" "bt_market db1 = bt_market db" "t_entries db1 = t_entries db"
    "bt_queue db1 = bt_queue db" using fresh by (simp_all add: fresh_batch_def b_def)
  obtain rs m bs where run: "run_ops (tx_market drv) drv b 0 ops [] (bt_market db1) (t_batches db1) = (rs, m, bs)" by (metis prod_cases3)
  have P0: "\<forall>x\<in>set (t_batches db1). bx_ID x = b \<longrightarrow> ?P x"
  proof -
    have "\<forall>x\<in>set (t_batches db). bx_ID x \<noteq> b" using db1(2) by (metis imageI)
    then show ?thesis using db1(1) ops by auto
  qed
  have k1: "rows_keep b ?P (t_batches db1) bs" by (rule run_ops_keeps[OF drv run]) (simp add: progress_def)
  have b_in: "b \<in> bx_ID ` set bs" using k1 db1(1) unfolding rows_keep_def by (metis b_def image_eqI in_set_conv_decomp list.set_map)
  have k2: "rows_keep b ?P bs (save_ignoring_error drv (finished rs now s h batch) bs)" if "s \<noteq> BatchStatusQueued" for s h
    using save_ignoring_keeps[OF drv, of "finished rs now s h batch" bs ?P] b_in ops(1) that by (simp add: finished_def progress_def b_def)
  have rows: "map bx_ID bs' = map bx_ID (t_batches db) @ [b]" "filter (\<lambda>x. bx_ID x \<noteq> b) bs' = t_batches db"
    "\<forall>x\<in>set bs'. bx_ID x = b \<longrightarrow> ?P x" if "rows_keep b ?P bs bs'" for bs'
    using rows_keep_trans[OF k1 that] P0 db1(1) filter_fresh[OF db1(2)] unfolding rows_keep_def by (simp_all add: b_def)
  have adds: "length rs = length ops \<and> (tx_begin (d_btx drv) = None \<longrightarrow> market_adds (no_cancel ops) (recorded b 0 ops rs) (listed b 0 ops rs) (bt_market db) m)"
  proof (cases "tx_begin (d_btx drv)")
    case None
    then have "market_drv_ok (tx_market drv)" using drv by (simp add: tx_market_def batch_drv_ok_def)
    from run_ops_adds[OF this run] show ?thesis by (simp add: db1(3))
  next
    case (Some e)
    have "length rs' = length rs0 + length ops'" if "run_ops txd drv b i ops' rs0 m0 bs0 = (rs', m', bs')" for txd i ops' rs0 m0 bs0 rs' m' bs'
      using that by (induction ops' arbitrary: i rs0 m0 bs0) (auto simp: Let_def split: prod.splits)
    from this[OF run] Some show ?thesis by simp
  qed
  show ?thesis
  proof (cases "failed_ops rs > 0 \<and> completed_ops rs = 0")
    case True
    then have r: "r = Fail StatusBadRequest (''All batch operations failed: '' @ last_error rs)"
      "db' = db1\<lparr> t_batches := save_ignoring_error drv (finished rs now BatchStatusFailed '''' batch) bs \<rparr>"
      using x run by (simp_all add: execute_created_def b_def Let_def)
    have k: "rows_keep b ?P bs (save_ignoring_error drv (finished rs now BatchStatusFailed '''' batch) bs)" by (rule k2) simp
    show ?thesis by (rule exI[of _ rs]) (use r rows[OF k] adds db1 in \<open>simp add: executed_def b_def[symmetric]\<close>)
  next
    case False
    let ?s = "if failed_ops rs > 0 then BatchStatusCompletedWithErrors else BatchStatusCompleted"
    have r: "r = Reply StatusCreated \<lparr> bp_BatchID = b, bp_Status = ?s, bp_Results = rs \<rparr>"
      "db' = db1\<lparr> t_batches := save_ignoring_error drv (finished rs now ?s (''batch_tx_'' @ show_nat b) batch) bs,
                  bt_market := (if tx_begin (d_btx drv) = None \<and> tx_commit (d_btx drv) = None then m else bt_market db1) \<rparr>"
      using x run False unfolding execute_created_def b_def[symmetric] Let_def by (simp_all only: prod.case if_False prod.inject)
    have k: "rows_keep b ?P bs (save_ignoring_error drv (finished rs now ?s (''batch_tx_'' @ show_nat b) batch) bs)" by (rule k2) simp
    show ?thesis by (rule exI[of _ rs]) (use r rows[OF k] adds db1 False in \<open>simp add: executed_def b_def[symmetric]\<close>)
  qed
qed

lemma ExecuteBatch_cases:
  assumes "batch_drv_ok drv" "ExecuteBatch drv n t1 t2 who body db = (r, db')"
  obtains "is_fail r" "db' = db"
  | b ops rs where "body = Inr ops" "executed drv b ops rs db db'" "is_fail r" "bt_market db' = bt_market db"
  | b ops rs u where "who = Some u" "body = Inr ops" "executed drv b ops rs db db'"
      "r = Reply StatusCreated \<lparr> bp_BatchID = b, bp_Status = (if failed_ops rs > 0 then BatchStatusCompletedWithErrors else BatchStatusCompleted), bp_Results = rs \<rparr>"
      "tx_begin (d_btx drv) = None \<and> tx_commit (d_btx drv) = None \<longrightarrow>
         market_adds (no_cancel ops) (recorded b 0 ops rs) (listed b 0 ops rs) (bt_market db) (bt_market db')"
proof (cases "is_fail r \<and> db' = db")
  case False
  then obtain u ops batch bs where w: "who = Some u" "body = Inr ops"
    "g_create (d_batches drv) (new_batch drv (Some t1) u (JArray (map request_json ops)) BatchStatusProcessing (length ops)) (t_batches db) = Inr (batch, bs)"
    "execute_created drv t2 ops batch (db\<lparr> t_batches := bs \<rparr>) = (r, db')"
    using assms(2) by (auto simp: ExecuteBatch_def split: option.splits sum.splits if_splits prod.splits)
  note f = create_fresh[OF assms(1) w(3)]
  obtain rs where "executed drv (bx_ID batch) ops rs db db'"
    "r = Fail StatusBadRequest (''All batch operations failed: '' @ last_error rs) \<and> bt_market db' = bt_market db \<or>
     (r = Reply StatusCreated \<lparr> bp_BatchID = bx_ID batch,
        bp_Status = (if failed_ops rs > 0 then BatchStatusCompletedWithErrors else BatchStatusCompleted), bp_Results = rs \<rparr> \<and>
      (tx_begin (d_btx drv) = None \<and> tx_commit (d_btx drv) = None \<longrightarrow>
         market_adds (no_cancel ops) (recorded (bx_ID batch) 0 ops rs) (listed (bx_ID batch) 0 ops rs) (bt_market db) (bt_market db')))"
    using execute_created_effect[OF assms(1) f(1) _ _ w(4)] f(2,3) by (auto simp: new_batch_def)
  then show thesis using w(1,2) that(2)[of ops "bx_ID batch" rs] that(3)[of u ops "bx_ID batch" rs] by auto
qed (use that(1) in blast)


subsection \<open>Undoing\<close>

fun undone :: "nat \<Rightarrow> nat \<Rightarrow> BatchOperation list \<Rightarrow> string list" where
  "undone b i [] = []"
| "undone b i (op # ops) = (if bo_Type op = ''transfer'' then [batch_hash b i] else []) @ undone b (Suc i) ops"

fun unlisted :: "nat \<Rightarrow> nat \<Rightarrow> BatchOperation list \<Rightarrow> string list" where
  "unlisted b i [] = []"
| "unlisted b i (op # ops) = (if bo_Type op = ''list'' then [batch_listing b i] else []) @ unlisted b (Suc i) ops"

lemma undone_mem: "j < length ops \<Longrightarrow> bo_Type (ops ! j) = ''transfer'' \<Longrightarrow> batch_hash b (i + j) \<in> set (undone b i ops)"
proof (induction ops arbitrary: i j)
  case (Cons op ops)
  then show ?case
  proof (cases j)
    case (Suc k)
    then show ?thesis using Cons.IH[of k "Suc i"] Cons.prems by simp
  qed simp
qed simp

lemma unlisted_mem: "j < length ops \<Longrightarrow> bo_Type (ops ! j) = ''list'' \<Longrightarrow> batch_listing b (i + j) \<in> set (unlisted b i ops)"
proof (induction ops arbitrary: i j)
  case (Cons op ops)
  then show ?case
  proof (cases j)
    case (Suc k)
    then show ?thesis using Cons.IH[of k "Suc i"] Cons.prems by simp
  qed simp
qed simp

lemma undone_batch: "h \<in> set (undone b i ops) \<Longrightarrow> hash_batch h = Some b" "n \<in> set (unlisted b i ops) \<Longrightarrow> listing_batch n = Some b"
  by (induction ops arbitrary: i) (auto split: if_splits)

definition hide :: "string list \<Rightarrow> Listing \<Rightarrow> Listing" where
  "hide ns l = (if li_ListingID l \<in> set ns then l\<lparr> li_Active := False \<rparr> else l)"

lemma hide_simps [simp]: "li_ListingID (hide ns l) = li_ListingID l" "hide ys (hide xs l) = hide (xs @ ys) l" "map (hide []) ls = ls"
  by (auto simp: hide_def intro: map_idI)

lemma undo_op_effect:
  assumes "market_drv_ok drv" "undo_op drv b i op m = Inr m'"
  shows "m' = m\<lparr> mk_wf := (mk_wf m)\<lparr> t_transfers := filter (\<lambda>t. tf_TxHash t \<notin> set (undone b i [op])) (t_transfers (mk_wf m)) \<rparr>,
    mk_listings := map (hide (unlisted b i [op])) (mk_listings m) \<rparr>"
proof -
  have g: "gorm_ok tf_ID (\<lambda>k. tf_ID_update (\<lambda>_. k)) (d_transfers (d_approvals drv))" "gorm_ok li_ID (\<lambda>k. li_ID_update (\<lambda>_. k)) (d_listings drv)"
    using assms(1) by (simp_all add: market_drv_ok_def wf_drv_ok_def)
  have hide1: "hide [n] = (\<lambda>l. if li_ListingID l = n then l\<lparr> li_Active := False \<rparr> else l)" for n by (auto simp: hide_def)
  show ?thesis
    using assms(2) gorm_deleteD(2)[OF g(1)] gorm_updateD(2)[OF g(2)] unfolding undo_op_def deactivate_def
    by (auto simp: hide1 and_then_def split: if_splits sum.splits prod.splits)
qed

lemma undo_ops_effect:
  assumes "market_drv_ok drv"
  shows "undo_ops drv b i ops m = Inr m' \<Longrightarrow>
    m' = m\<lparr> mk_wf := (mk_wf m)\<lparr> t_transfers := filter (\<lambda>t. tf_TxHash t \<notin> set (undone b i ops)) (t_transfers (mk_wf m)) \<rparr>,
      mk_listings := map (hide (unlisted b i ops)) (mk_listings m) \<rparr>"
proof (induction ops arbitrary: i m)
  case (Cons op ops)
  then obtain m1 where m1: "undo_op drv b i op m = Inr m1" "undo_ops drv b (Suc i) ops m1 = Inr m'" by auto
  have split: "undone b i (op # ops) = undone b i [op] @ undone b (Suc i) ops" "unlisted b i (op # ops) = unlisted b i [op] @ unlisted b (Suc i) ops" by simp_all
  show ?case unfolding split using Cons.IH[OF m1(2)] undo_op_effect[OF assms m1(1)]
    by (simp add: o_def conj_commute del: undone.simps unlisted.simps)
qed simp

lemma rollback_txD:
  assumes "batch_drv_ok drv" "rollback_tx drv b ops db = Inr db'"
  shows "db' = db\<lparr> bt_market := (bt_market db)\<lparr>
      mk_wf := (mk_wf (bt_market db))\<lparr> t_transfers := filter (\<lambda>t. tf_TxHash t \<notin> set (undone b 0 ops)) (t_transfers (mk_wf (bt_market db))) \<rparr>,
      mk_listings := map (hide (unlisted b 0 ops)) (mk_listings (bt_market db)) \<rparr>,
    t_batches := map (\<lambda>x. if bx_ID x = b then x\<lparr> bx_Status := BatchStatusRolledBack \<rparr> else x) (t_batches db) \<rparr>"
proof -
  obtain m bs where m: "undo_ops (tx_market drv) b 0 ops (bt_market db) = Inr m"
    and bs: "update_batch (tx_batches drv) b (bx_Status_update (\<lambda>_. BatchStatusRolledBack)) (t_batches db) = Inr bs"
    and db': "db' = db\<lparr> bt_market := m, t_batches := bs \<rparr>"
    using assms(2) by (auto simp: rollback_tx_def split: sum.splits option.splits)
  have alive: "tx_begin (d_btx drv) = None"
    using bs by (cases "tx_begin (d_btx drv)") (auto simp: tx_batches_def update_batch_def failing_def)
  have "market_drv_ok (d_market drv)" using assms(1) by (simp add: batch_drv_ok_def)
  from undo_ops_effect[OF this] m alive
  have "m = (bt_market db)\<lparr> mk_wf := (mk_wf (bt_market db))\<lparr> t_transfers := filter (\<lambda>t. tf_TxHash t \<notin> set (undone b 0 ops)) (t_transfers (mk_wf (bt_market db))) \<rparr>,
      mk_listings := map (hide (unlisted b 0 ops)) (mk_listings (bt_market db)) \<rparr>" by (simp add: tx_market_alive)
  moreover have "bs = map (\<lambda>x. if bx_ID x = b then x\<lparr> bx_Status := BatchStatusRolledBack \<rparr> else x) (t_batches db)"
    using update_batchD[OF assms(1), of b "bx_Status_update (\<lambda>_. BatchStatusRolledBack)" "t_batches db" bs] bs alive by (simp add: tx_batches_def)
  ultimately show ?thesis using db' by simp
qed

lemma RollbackBatch_cases:
  assumes "batch_drv_ok drv" "RollbackBatch drv who b db = (r, db')"
  obtains "is_fail r" "db' = db"
  | batch ops where "r = Reply StatusOK b" "batch \<in> set (t_batches db)" "bx_ID batch = b" "who = Some (bx_UserID batch)"
      "operations_of_json (bx_Operations batch) = Some ops" "no_cancel ops" "rollback_tx drv b ops db = Inr db'"
proof (cases "is_fail r \<and> db' = db")
  case False
  then obtain u batch ops where x: "who = Some u" "g_first (d_batches drv) (batch_by_id b) (t_batches db) = Inr batch"
    "bx_UserID batch = u" "operations_of_json (bx_Operations batch) = Some ops" "no_cancel ops" "rollback_tx drv (bx_ID batch) ops db = Inr db'"
    "r = Reply StatusOK (bx_ID batch)"
    using assms(2) by (auto simp: RollbackBatch_def no_cancel_def list_ex_iff list_all_iff split: option.splits sum.splits if_splits)
  then show thesis using gorm_firstD[OF batch_drvD(1)[OF assms(1)] x(2)] that(2) by metis
qed (use that(1) in blast)


subsection \<open>The batch endpoints and the worker as a service\<close>

datatype batch_req =
    BExecute int instant instant "nat option" "string + BatchOperation list"
  | BRollback "nat option" nat
  | BSubmit bool int instant "nat option" "string + BatchOperation list \<times> int"
  | BCancel "nat option" nat
  | BRetry bool instant "nat option" nat
  | BWorker worker_env
  | BPending bool nat instant

fun batch_handle :: "batch_drv \<Rightarrow> (BatchConfig \<times> bool) option \<Rightarrow> batch_req \<Rightarrow> batch_db \<Rightarrow> unit response \<times> batch_db" where
  "batch_handle drv retry (BExecute n t1 t2 who body) db = drop_body (ExecuteBatch drv n t1 t2 who body db)"
| "batch_handle drv retry (BRollback who b) db = drop_body (RollbackBatch drv who b db)"
| "batch_handle drv retry (BSubmit p n now who body) db = drop_body (SubmitBatch drv p n now who body db)"
| "batch_handle drv retry (BCancel who b) db = drop_body (CancelBatch drv who b db)"
| "batch_handle drv retry (BRetry p now who b) db = drop_body (RetryBatch drv p now who b db)"
| "batch_handle drv retry (BWorker env) db = (Reply StatusOK (), worker drv retry env db)"
| "batch_handle drv retry (BPending p k now) db = (Reply StatusOK (), snd (ProcessPendingRetries drv p k now db))"

text \<open>A step that keeps the invariant: batches are only added, and every new name belongs to a batch.\<close>

definition batch_ids :: "batch_db \<Rightarrow> nat list" where
  "batch_ids db = map bx_ID (t_batches db)"

definition hashes :: "batch_db \<Rightarrow> string set" where
  "hashes db = tf_TxHash ` set (t_transfers (mk_wf (bt_market db)))"

definition listing_names :: "batch_db \<Rightarrow> string set" where
  "listing_names db = li_ListingID ` set (mk_listings (bt_market db))"

definition named_step :: "batch_db \<Rightarrow> batch_db \<Rightarrow> bool" where
  "named_step db db' \<longleftrightarrow> set (batch_ids db) \<subseteq> set (batch_ids db') \<and> (distinct (batch_ids db) \<longrightarrow> distinct (batch_ids db')) \<and>
     hashes db' \<subseteq> hashes db \<union> {h. \<exists>b \<in> set (batch_ids db'). hash_batch h = Some b} \<and>
     listing_names db' \<subseteq> listing_names db \<union> {n. \<exists>b \<in> set (batch_ids db'). listing_batch n = Some b}"

lemma batch_inv_iff: "batch_inv db \<longleftrightarrow> distinct (batch_ids db) \<and>
    (\<forall>h\<in>hashes db. \<forall>b. hash_batch h = Some b \<longrightarrow> b \<in> set (batch_ids db)) \<and>
    (\<forall>n\<in>listing_names db. \<forall>b. listing_batch n = Some b \<longrightarrow> b \<in> set (batch_ids db))"
  by (simp add: batch_inv_def batch_ids_def hashes_def listing_names_def)

lemma named_step_inv:
  assumes "batch_inv db" "named_step db db'"
  shows "batch_inv db'"
  unfolding batch_inv_iff
proof (intro conjI ballI allI impI)
  show "distinct (batch_ids db')" using assms by (simp add: batch_inv_iff named_step_def)
next
  fix h b assume h: "h \<in> hashes db'" "hash_batch h = Some b"
  then have "h \<in> hashes db \<or> (\<exists>i \<in> set (batch_ids db'). hash_batch h = Some i)" using assms(2) by (auto simp: named_step_def)
  then show "b \<in> set (batch_ids db')" using assms h(2) by (elim disjE bexE) (auto simp: batch_inv_iff named_step_def)
next
  fix n b assume n: "n \<in> listing_names db'" "listing_batch n = Some b"
  then have "n \<in> listing_names db \<or> (\<exists>i \<in> set (batch_ids db'). listing_batch n = Some i)" using assms(2) by (auto simp: named_step_def)
  then show "b \<in> set (batch_ids db')" using assms n(2) by (elim disjE bexE) (auto simp: batch_inv_iff named_step_def)
qed

lemma named_step_refl: "bt_market db' = bt_market db \<Longrightarrow> batch_ids db' = batch_ids db \<Longrightarrow> named_step db db'"
  by (auto simp: named_step_def hashes_def listing_names_def)

lemma named_step_trans:
  assumes "named_step a b" "named_step b c"
  shows "named_step a c"
proof -
  have "hashes c \<subseteq> hashes b \<union> {h. \<exists>i \<in> set (batch_ids c). hash_batch h = Some i}"
    "hashes b \<subseteq> hashes a \<union> {h. \<exists>i \<in> set (batch_ids b). hash_batch h = Some i}"
    "listing_names c \<subseteq> listing_names b \<union> {h. \<exists>i \<in> set (batch_ids c). listing_batch h = Some i}"
    "listing_names b \<subseteq> listing_names a \<union> {h. \<exists>i \<in> set (batch_ids b). listing_batch h = Some i}"
    and sub: "set (batch_ids b) \<subseteq> set (batch_ids c)" using assms by (simp_all add: named_step_def)
  then have "hashes c \<subseteq> hashes a \<union> {h. \<exists>i \<in> set (batch_ids c). hash_batch h = Some i}"
    "listing_names c \<subseteq> listing_names a \<union> {h. \<exists>i \<in> set (batch_ids c). listing_batch h = Some i}" by blast+
  moreover have "set (batch_ids a) \<subseteq> set (batch_ids c)" using assms by (auto simp: named_step_def)
  ultimately show ?thesis using assms by (simp add: named_step_def)
qed

lemma named_step_market:
  assumes "market_adds exact ts ls (bt_market db) (bt_market db')"
    and "\<forall>t\<in>set ts. hash_batch (tf_TxHash t) = Some b" "\<forall>l\<in>set ls. listing_batch (li_ListingID l) = Some b"
    and "set (batch_ids db) \<subseteq> set (batch_ids db')" "distinct (batch_ids db) \<longrightarrow> distinct (batch_ids db')" "b \<in> set (batch_ids db')"
  shows "named_step db db'"
proof -
  obtain ts' where t: "t_transfers (mk_wf (bt_market db')) = t_transfers (mk_wf (bt_market db)) @ ts'" "map transfer_core ts' = ts"
    using assms(1) by (auto simp: market_adds_def)
  have "map tf_TxHash ts' = map tf_TxHash ts" unfolding t(2)[symmetric] by simp
  then have "hashes db' = hashes db \<union> tf_TxHash ` set ts" unfolding hashes_def t(1) by (metis image_Un list.set_map set_append)
  moreover have "listing_names db' = listing_names db \<union> li_ListingID ` set ls"
    using assms(1) unfolding market_adds_def listing_names_def by (metis list.set_map set_append)
  moreover have "tf_TxHash ` set ts \<subseteq> {h. \<exists>b \<in> set (batch_ids db'). hash_batch h = Some b}"
    "li_ListingID ` set ls \<subseteq> {h. \<exists>b \<in> set (batch_ids db'). listing_batch h = Some b}" using assms(2,3,6) by auto
  ultimately show ?thesis using assms(4,5) unfolding named_step_def by blast
qed

lemma executed_named:
  assumes "executed drv b ops rs db db'"
  shows "named_step db db'"
proof -
  have ids: "set (batch_ids db) \<subseteq> set (batch_ids db')" "distinct (batch_ids db) \<longrightarrow> distinct (batch_ids db')" "b \<in> set (batch_ids db')"
    and len: "length rs = length ops" using assms by (auto simp: executed_def batch_ids_def)
  show ?thesis
  proof (cases "bt_market db' = bt_market db")
    case True
    then show ?thesis using ids by (auto simp: named_step_def hashes_def listing_names_def)
  next
    case False
    then have m: "market_adds (no_cancel ops) (recorded b 0 ops rs) (listed b 0 ops rs) (bt_market db) (bt_market db')" using assms by (simp add: executed_def)
    have "\<forall>t\<in>set (recorded b 0 ops rs). hash_batch (tf_TxHash t) = Some b" "\<forall>l\<in>set (listed b 0 ops rs). listing_batch (li_ListingID l) = Some b"
      using recorded_hashes[OF len] listed_names[OF len] by (metis names_of_batches(1), metis names_of_batches(3))
    from named_step_market[OF m this ids] show ?thesis .
  qed
qed

lemma executeOperation_adds:
  assumes "market_drv_ok drv" "executeOperation drv b i nano op m = (r, m')"
  shows "\<exists>ts ls. market_adds False ts ls m m' \<and> (\<forall>t\<in>set ts. hash_batch (tf_TxHash t) = Some b) \<and> (\<forall>l\<in>set ls. listing_batch (li_ListingID l) = Some b)"
proof -
  consider "m' = m" | "create_transfer drv (op_transfer op (async_hash b i nano)) m = Inr m'"
    | "create_listing drv (op_listing op (batch_listing b i)) m = Inr m'" | "deactivate drv (op_listing_id op) m = Inr m'"
    using assms(2) by (auto simp: executeOperation_def split: if_splits sum.splits)
  then show ?thesis
  proof cases
    case 1
    then show ?thesis using market_adds_refl by (intro exI[of _ "[]"]) simp
  next
    case 2
    then show ?thesis using create_transfer_adds[OF assms(1)] by (intro exI[of _ "[op_transfer op (async_hash b i nano)]"] exI[of _ "[]"]) simp
  next
    case 3
    then show ?thesis using create_listing_adds[OF assms(1)] by (intro exI[of _ "[]"] exI[of _ "[op_listing op (batch_listing b i)]"]) simp
  next
    case 4
    then show ?thesis using deactivate_adds[OF assms(1)] by (intro exI[of _ "[]"]) simp
  qed
qed

lemma run_async_adds:
  assumes "market_drv_ok drv"
  shows "run_async drv nano b i ops m = (rs, m') \<Longrightarrow> \<exists>ts ls. market_adds False ts ls m m' \<and>
    (\<forall>t\<in>set ts. hash_batch (tf_TxHash t) = Some b) \<and> (\<forall>l\<in>set ls. listing_batch (li_ListingID l) = Some b)"
proof (induction ops arbitrary: i m rs)
  case Nil
  then show ?case using market_adds_refl by (intro exI[of _ "[]"]) simp
next
  case (Cons op ops)
  obtain r m1 where x: "executeOperation drv b i (nano i) op m = (r, m1)" by fastforce
  then obtain rs' where "run_async drv nano b (Suc i) ops m1 = (rs', m')" using Cons.prems by (auto simp: Let_def split: prod.splits)
  from Cons.IH[OF this] obtain ts' ls' where t': "market_adds False ts' ls' m1 m'"
    "\<forall>t\<in>set ts'. hash_batch (tf_TxHash t) = Some b" "\<forall>l\<in>set ls'. listing_batch (li_ListingID l) = Some b" by blast
  from executeOperation_adds[OF assms x] obtain ts ls where t: "market_adds False ts ls m m1"
    "\<forall>t\<in>set ts. hash_batch (tf_TxHash t) = Some b" "\<forall>l\<in>set ls. listing_batch (li_ListingID l) = Some b" by blast
  show ?case by (rule exI[of _ "ts @ ts'"], rule exI[of _ "ls @ ls'"])
      (use market_adds_trans[OF t(1) t'(1)] t(2,3) t'(2,3) in auto)
qed


text \<open>Writes of rows and queue bookkeeping leave ids and market alone.\<close>

lemma rows_keep_ids: "rows_keep b P bs bs' \<Longrightarrow> map bx_ID bs' = map bx_ID bs"
  by (simp add: rows_keep_def)

lemma update_ignoring_ids:
  assumes "batch_drv_ok drv" "\<And>x. bx_ID (f x) = bx_ID x"
  shows "map bx_ID (update_ignoring_error drv b f bs) = map bx_ID bs"
  using update_ignoring_keeps[OF assms(1), of f "\<lambda>_. True"] assms(2) rows_keep_ids by blast

lemma queue_frame [simp]:
  "bt_market (snd (Enqueue b db)) = bt_market db" "t_batches (snd (Enqueue b db)) = t_batches db"
  "bt_market (upsert_entry drv e db) = bt_market db" "t_batches (upsert_entry drv e db) = t_batches db"
  "bt_market (drop_entry drv b db) = bt_market db" "t_batches (drop_entry drv b db) = t_batches db"
  "bt_queue (drop_entry drv b db) = bt_queue db"
  "bt_market (give_up drv b d db) = bt_market db" "bt_queue (give_up drv b d db) = bt_queue db"
  by (simp_all add: Enqueue_def upsert_entry_def drop_entry_def give_up_def split: sum.split prod.split)

lemma push_frame [simp]: "bt_market (push_entry drv p now e db) = bt_market db" "t_batches (push_entry drv p now e db) = t_batches db"
  by (auto simp: push_entry_def Enqueue_def split: sum.split prod.split option.split)

lemma pending_frame: "bt_market (snd (ProcessPendingRetries drv p k now db)) = bt_market db"
  "t_batches (snd (ProcessPendingRetries drv p k now db)) = t_batches db"
proof -
  have "bt_market (fold (push_entry drv p now) es db) = bt_market db \<and> t_batches (fold (push_entry drv p now) es db) = t_batches db" for es
    by (induction es arbitrary: db) simp_all
  then show "bt_market (snd (ProcessPendingRetries drv p k now db)) = bt_market db"
    "t_batches (snd (ProcessPendingRetries drv p k now db)) = t_batches db"
    by (simp_all add: ProcessPendingRetries_def split: sum.split)
qed

text \<open>The outcomes of \<open>ScheduleRetry\<close> for the row it finds.\<close>

lemma ScheduleRetry_cases:
  assumes "batch_drv_ok drv" "ScheduleRetry drv cfg p now b err db = (r, db')"
  obtains "\<not> retried (r, db')" "t_batches db' = t_batches db" "bt_market db' = bt_market db"
  | d where "\<not> retried (r, db')" "db' = give_up drv b d db"
  | y f where "y \<in> set (t_batches db)" "bx_ID y = b" "bx_RetryCount y < retry_limit cfg y" "retried (r, db')"
      "t_batches db' = map (\<lambda>x. if bx_ID x = b then f x else x) (t_batches db)" "bt_market db' = bt_market db"
      "\<And>x. bx_ID (f x) = bx_ID x \<and> bx_MaxRetries (f x) = bx_MaxRetries x \<and> bx_Status (f x) = BatchStatusQueued \<and>
         bx_RetryCount (f x) = add64 (bx_RetryCount y) 1"
proof (cases "g_first (d_batches drv) (batch_by_id b) (t_batches db)")
  case (Inl e)
  then have "db' = db" "\<not> retried (r, db')" using assms(2) by (auto simp: ScheduleRetry_def retried_def)
  then show thesis using that(1) by simp
next
  case (Inr y)
  let ?err = "case err of None \<Rightarrow> '''' | Some e \<Rightarrow> e"
  let ?f = "\<lambda>x. x\<lparr> bx_Status := BatchStatusQueued, bx_RetryCount := add64 (bx_RetryCount y) 1, bx_LastRetryAt := Some now,
    bx_NextRetryAt := Some (now + CalculateBackoff cfg (bx_RetryCount y)), bx_ErrorDetails := ?err \<rparr>"
  note y = gorm_firstD[OF batch_drvD(1)[OF assms(1)] Inr]
  consider "\<not> bx_IsRetryable y \<or> bx_RetryCount y \<ge> retry_limit cfg y" | "bx_IsRetryable y" "bx_RetryCount y < retry_limit cfg y"
    "\<not> IsTransientError err (bx_ErrorDetails y)" | e where "bx_IsRetryable y" "bx_RetryCount y < retry_limit cfg y"
    "IsTransientError err (bx_ErrorDetails y)" "update_batch drv b ?f (t_batches db) = Inl e"
    | bs where "bx_IsRetryable y" "bx_RetryCount y < retry_limit cfg y" "IsTransientError err (bx_ErrorDetails y)"
      "update_batch drv b ?f (t_batches db) = Inr bs"
    by (meson linorder_not_less sumE)
  then show thesis
  proof cases
    case 1
    then show thesis using assms(2) Inr that(2) by (auto simp: ScheduleRetry_def Let_def retried_def)
  next
    case 2
    then show thesis using assms(2) Inr that(2) by (auto simp: ScheduleRetry_def Let_def retried_def)
  next
    case 3
    then have "db' = db" "\<not> retried (r, db')" using assms(2) Inr by (auto simp: ScheduleRetry_def Let_def retried_def)
    then show thesis using that(1) by simp
  next
    case 4
    have "t_batches db' = bs" "bt_market db' = bt_market db" "retried (r, db')"
      using assms(2) Inr 4 by (auto simp: ScheduleRetry_def Let_def retried_def)
    then show thesis using that(3)[OF y 4(2), of ?f] update_batchD[OF assms(1) 4(4)] by simp
  qed
qed

lemma ManualRetry_effect:
  assumes "batch_drv_ok drv"
  shows "bt_market (snd (ManualRetry drv p now b u db)) = bt_market db \<and>
    rows_keep b (\<lambda>_. True) (t_batches db) (t_batches (snd (ManualRetry drv p now b u db)))"
proof -
  have k: "rows_keep b (\<lambda>_. True) (t_batches db) bs" if "update_batch drv b f (t_batches db) = Inr bs" "\<And>x. bx_ID (f x) = bx_ID x" for f bs
    using update_batchD[OF assms that(1)] rows_keep_map[of f "\<lambda>_. True" b "t_batches db"] that(2) by simp
  show ?thesis unfolding ManualRetry_def Let_def
    by (auto simp: rows_keep_refl split: sum.split intro!: k)
qed

text \<open>What the worker does to the tables of a batch it executes.\<close>

lemma execute_queued_effect:
  assumes drv: "batch_drv_ok drv" and x: "execute_queued drv env b ops db = ((s, e), db')" and b: "b \<in> set (batch_ids db)"
  shows "named_step db db'" "rows_keep b (\<lambda>x. bx_Status x \<noteq> BatchStatusQueued \<and> bx_RetryCount x = n \<and> bx_MaxRetries x = k) (t_batches db) (t_batches db')"
    "bt_queue db' = bt_queue db"
proof -
  obtain rs m where r: "run_async (tx_market drv) (we_nano env) b 0 ops (bt_market db) = (rs, m)" by fastforce
  let ?s = "if completed_ops rs = 0 then BatchStatusFailed else if failed_ops rs > 0 then BatchStatusCompletedWithErrors else BatchStatusCompleted"
  let ?f = "\<lambda>x. (progress rs x)\<lparr> bx_Status := ?s, bx_ErrorDetails := first_error rs,
                 bx_TxHash := ''batch_tx_'' @ show_nat b @ ''_'' @ show_int (we_unix env), bx_Operations := JArray (map result_json rs) \<rparr>"
  have rows: "t_batches db' = update_ignoring_error drv b ?f (t_batches db)" and q: "bt_queue db' = bt_queue db"
    and m: "bt_market db' = bt_market db \<or> (bt_market db' = m \<and> tx_begin (d_btx drv) = None)"
    using x r by (auto simp: execute_queued_def Let_def split: if_splits)
  show "rows_keep b (\<lambda>x. bx_Status x \<noteq> BatchStatusQueued \<and> bx_RetryCount x = n \<and> bx_MaxRetries x = k) (t_batches db) (t_batches db')"
    unfolding rows by (rule update_ignoring_keeps[OF drv]) (auto simp: progress_def)
  have ids: "batch_ids db' = batch_ids db" unfolding batch_ids_def rows by (rule update_ignoring_ids[OF drv]) (simp add: progress_def)
  from m show "named_step db db'"
  proof
    assume "bt_market db' = m \<and> tx_begin (d_btx drv) = None"
    moreover from this have "market_drv_ok (tx_market drv)" using drv by (simp add: tx_market_def batch_drv_ok_def)
    ultimately obtain ts ls where "market_adds False ts ls (bt_market db) (bt_market db')" "\<forall>t\<in>set ts. hash_batch (tf_TxHash t) = Some b"
      "\<forall>l\<in>set ls. listing_batch (li_ListingID l) = Some b" using run_async_adds r by blast
    from named_step_market[OF this] show ?thesis using ids b by simp
  qed (use ids named_step_refl in blast)
  show "bt_queue db' = bt_queue db" by (rule q)
qed



subsection \<open>Every step names batches that exist\<close>

lemma named_step_rows:
  assumes "bt_market db' = bt_market db" "rows_keep b P (t_batches db) (t_batches db')"
  shows "named_step db db'"
  using assms by (auto intro!: named_step_refl simp: batch_ids_def dest: rows_keep_ids)

lemma named_step_fresh:
  assumes "fresh_batch drv batch db db1" "bt_market db' = bt_market db1" "t_batches db' = t_batches db1"
  shows "named_step db db'"
  using assms by (auto simp: named_step_def fresh_batch_def batch_ids_def hashes_def listing_names_def)

lemma hide_names: "li_ListingID ` hide ns ` A = li_ListingID ` A"
  by (simp add: image_image)

lemma rollback_named:
  assumes "batch_drv_ok drv" "rollback_tx drv b ops db = Inr db'"
  shows "named_step db db'"
proof -
  note d = rollback_txD[OF assms]
  have "batch_ids db' = batch_ids db" unfolding d batch_ids_def by (auto simp: comp_def intro!: map_cong)
  moreover have "hashes db' \<subseteq> hashes db" unfolding d hashes_def by auto
  moreover have "listing_names db' = listing_names db" unfolding d listing_names_def by (simp add: hide_names)
  ultimately show ?thesis by (auto simp: named_step_def)
qed

lemma give_up_keeps:
  assumes "batch_drv_ok drv"
  shows "rows_keep c (\<lambda>_. True) (t_batches db) (t_batches (give_up drv c d db))"
  unfolding give_up_def using update_ignoring_keeps[OF assms] by simp

lemma ScheduleRetry_named:
  assumes "batch_drv_ok drv"
  shows "named_step db (snd (ScheduleRetry drv cfg p now b err db))"
proof -
  obtain r db' where x: "ScheduleRetry drv cfg p now b err db = (r, db')" by fastforce
  have "named_step db db'"
  proof (cases rule: ScheduleRetry_cases[OF assms x])
    case 1
    then show ?thesis by (intro named_step_refl) (simp_all add: batch_ids_def)
  next
    case (2 d)
    then show ?thesis using give_up_keeps[OF assms] by (intro named_step_rows[where b = b and P = "\<lambda>_. True"]) simp_all
  next
    case (3 y f)
    then show ?thesis by (intro named_step_refl) (auto simp: batch_ids_def comp_def intro!: map_cong)
  qed
  then show ?thesis by (simp add: x)
qed

lemma drop_entry_named: "named_step db db' \<Longrightarrow> named_step db (drop_entry drv b db')"
  using named_step_trans named_step_refl[of "drop_entry drv b db'" db'] by (auto simp: batch_ids_def)

text \<open>What the worker does with a batch id.\<close>

definition marked :: "batch_drv \<Rightarrow> nat \<Rightarrow> batch_db \<Rightarrow> batch_db" where
  "marked drv b db = db\<lparr> t_batches := update_ignoring_error drv b (bx_Status_update (\<lambda>_. BatchStatusProcessing)) (t_batches db) \<rparr>"

definition queued_row :: "batch_drv \<Rightarrow> nat \<Rightarrow> batch_db \<Rightarrow> bool" where
  "queued_row drv b db = (case g_first (d_batches drv) (batch_by_id b) (t_batches db) of Inl _ \<Rightarrow> False | Inr x \<Rightarrow> bx_Status x = BatchStatusQueued)"

lemma processBatch_cases:
  assumes "processBatch drv retry env b db = db'"
  obtains "\<not> queued_row drv b db" "db' = db"
  | "queued_row drv b db" "db' = (marked drv b db)\<lparr> t_batches := update_ignoring_error drv b
      (\<lambda>x. x\<lparr> bx_Status := BatchStatusFailed, bx_ErrorDetails := ''failed to parse operations'' \<rparr>) (t_batches (marked drv b db)) \<rparr>"
  | ops s e db2 where "queued_row drv b db" "execute_queued drv env b ops (marked drv b db) = ((s, e), db2)" "db' = drop_entry drv b db2"
  | ops s e db2 cfg p r db3 where "queued_row drv b db" "execute_queued drv env b ops (marked drv b db) = ((s, e), db2)" "retry = Some (cfg, p)"
      "ScheduleRetry drv cfg p (we_now env) b (Some e) db2 = (r, db3)" "db' = db3 \<or> db' = drop_entry drv b db3"
proof (cases "queued_row drv b db")
  case True
  then obtain batch where batch: "g_first (d_batches drv) (batch_by_id b) (t_batches db) = Inr batch" "bx_Status batch = BatchStatusQueued"
    by (auto simp: queued_row_def split: sum.splits)
  show thesis
  proof (cases "operations_of_json (bx_Operations batch)")
    case None
    then show thesis using that(2)[OF True] assms batch by (simp add: processBatch_def marked_def)
  next
    case (Some ops)
    obtain s e db2 where x: "execute_queued drv env b ops (marked drv b db) = ((s, e), db2)" by (metis prod.collapse)
    show thesis
    proof (cases "\<exists>cfg p. retry = Some (cfg, p) \<and> s = BatchStatusFailed \<and> e \<noteq> ''''")
      case retry: True
      from retry obtain cfg p where c: "retry = Some (cfg, p)" "s = BatchStatusFailed \<and> e \<noteq> ''''" by blast
      obtain r db3 where y: "ScheduleRetry drv cfg p (we_now env) b (Some e) db2 = (r, db3)" by fastforce
      have "db' = (if retried (r, db3) then db3 else drop_entry drv b db3)"
        using assms batch Some x c y by (simp add: processBatch_def marked_def[symmetric] Let_def split del: if_split) (metis snd_conv)
      then show thesis using that(4)[OF True x c(1) y] by (auto split: if_splits)
    next
      case False
      then have "db' = drop_entry drv b db2"
        using assms batch Some x by (auto simp: processBatch_def marked_def[symmetric] Let_def split: option.splits)
      from that(3)[OF True x this] show thesis .
    qed
  qed
next
  case False
  then have "db' = db" using assms by (auto simp: processBatch_def queued_row_def split: sum.splits)
  with that(1) False show thesis by blast
qed

lemma marked_keeps:
  assumes "batch_drv_ok drv" "\<And>x. P x \<Longrightarrow> P (x\<lparr> bx_Status := BatchStatusProcessing \<rparr>)"
  shows "rows_keep b P (t_batches db) (t_batches (marked drv b db))"
  unfolding marked_def using update_ignoring_keeps[OF assms(1), of "bx_Status_update (\<lambda>_. BatchStatusProcessing)" P] assms(2) by simp

lemma marked_has:
  assumes "batch_drv_ok drv" "queued_row drv b db"
  shows "b \<in> set (batch_ids (marked drv b db))" "named_step db (marked drv b db)"
proof -
  obtain x where x: "g_first (d_batches drv) (batch_by_id b) (t_batches db) = Inr x"
    using assms(2) by (auto simp: queued_row_def split: sum.splits)
  have "b \<in> bx_ID ` set (t_batches db)" using gorm_firstD[OF batch_drvD(1)[OF assms(1)] x] by auto
  moreover have k: "rows_keep b (\<lambda>_. True) (t_batches db) (t_batches (marked drv b db))" by (rule marked_keeps[OF assms(1)])
  ultimately show "b \<in> set (batch_ids (marked drv b db))" using rows_keep_ids[OF k] by (auto simp: batch_ids_def)
  show "named_step db (marked drv b db)" by (rule named_step_rows[OF _ k]) (simp add: marked_def)
qed

lemma failed_row_keeps:
  assumes "batch_drv_ok drv" "\<And>x. P x \<Longrightarrow> P (x\<lparr> bx_Status := BatchStatusFailed, bx_ErrorDetails := d \<rparr>)"
  shows "rows_keep b P bs (update_ignoring_error drv b (\<lambda>x. x\<lparr> bx_Status := BatchStatusFailed, bx_ErrorDetails := d \<rparr>) bs)"
  using update_ignoring_keeps[OF assms(1), of "\<lambda>x. x\<lparr> bx_Status := BatchStatusFailed, bx_ErrorDetails := d \<rparr>" P] assms(2) by simp

lemma processBatch_named:
  assumes drv: "batch_drv_ok drv"
  shows "named_step db (processBatch drv retry env b db)"
proof (cases rule: processBatch_cases[OF refl, where drv = drv and retry = retry and env = env and b = b and db = db])
  case 1
  then show ?thesis by (simp add: named_step_refl)
next
  case 2
  let ?db = "(marked drv b db)\<lparr> t_batches := update_ignoring_error drv b
    (\<lambda>x. x\<lparr> bx_Status := BatchStatusFailed, bx_ErrorDetails := ''failed to parse operations'' \<rparr>) (t_batches (marked drv b db)) \<rparr>"
  have "named_step (marked drv b db) ?db"
    by (rule named_step_rows[of _ _ b "\<lambda>_. True"]) (simp_all add: failed_row_keeps[OF drv])
  then show ?thesis unfolding 2(2) using named_step_trans marked_has(2)[OF drv 2(1)] by blast
next
  case (3 ops s e db2)
  have "named_step db db2" using named_step_trans[OF marked_has(2) execute_queued_effect(1)[OF drv 3(2) marked_has(1)]] drv 3(1) by blast
  then show ?thesis unfolding 3(3) by (rule drop_entry_named)
next
  case (4 ops s e db2 cfg p r db3)
  have "named_step db db2" using named_step_trans[OF marked_has(2) execute_queued_effect(1)[OF drv 4(2) marked_has(1)]] drv 4(1) by blast
  moreover have "named_step db2 db3" using ScheduleRetry_named[OF drv, of db2 cfg p "we_now env" b "Some e"] 4(4) by simp
  ultimately have "named_step db db3" by (rule named_step_trans)
  then show ?thesis using 4(5) drop_entry_named by metis
qed

lemma SubmitBatch_named:
  assumes drv: "batch_drv_ok drv"
  shows "named_step db (snd (SubmitBatch drv p n now who body db))"
proof (cases "snd (SubmitBatch drv p n now who body db) = db")
  case False
  then obtain x batch bs where c: "g_create (d_batches drv) x (t_batches db) = Inr (batch, bs)"
    and db': "bt_market (snd (SubmitBatch drv p n now who body db)) = bt_market db" "t_batches (snd (SubmitBatch drv p n now who body db)) = bs"
    by (auto simp: SubmitBatch_def Let_def split: option.splits sum.splits if_splits prod.splits)
  show ?thesis by (rule named_step_fresh[OF create_fresh(1)[OF drv c]]) (simp_all add: db')
qed (simp add: named_step_refl)

lemma CancelBatch_named:
  assumes drv: "batch_drv_ok drv"
  shows "named_step db (snd (CancelBatch drv who b db))"
  using update_ignoring_keeps[OF drv, of "bx_Status_update (\<lambda>_. BatchStatusRolledBack)" "\<lambda>_. True" b "t_batches db"]
  by (auto simp: CancelBatch_def own_batch_def named_step_refl split: sum.split option.split
      intro!: drop_entry_named named_step_rows[where b = b and P = "\<lambda>_. True"])

lemma RetryBatch_named:
  assumes drv: "batch_drv_ok drv"
  shows "named_step db (snd (RetryBatch drv p now who b db))"
proof -
  have r: "snd (RetryBatch drv p now who b db) = (case who of None \<Rightarrow> db | Some u \<Rightarrow> if b = 0 then db else snd (ManualRetry drv p now b u db))"
    by (simp add: RetryBatch_def split: option.split sum.split prod.split)
  have "named_step db (snd (ManualRetry drv p now b u db))" for u using ManualRetry_effect[OF drv] named_step_rows by blast
  then show ?thesis unfolding r by (auto simp: named_step_refl split: option.split)
qed

lemma batch_handle_named:
  assumes drv: "batch_drv_ok drv"
  shows "named_step db (snd (batch_handle drv retry r db))"
proof (cases r)
  case (BExecute n t1 t2 who body)
  obtain x db' where e: "ExecuteBatch drv n t1 t2 who body db = (x, db')" by fastforce
  have "named_step db db'" by (cases rule: ExecuteBatch_cases[OF drv e]) (auto simp: named_step_refl executed_named)
  then show ?thesis by (simp add: BExecute e)
next
  case (BRollback who b)
  obtain x db' where e: "RollbackBatch drv who b db = (x, db')" by fastforce
  have "named_step db db'" by (cases rule: RollbackBatch_cases[OF drv e]) (auto simp: named_step_refl rollback_named[OF drv])
  then show ?thesis by (simp add: BRollback e)
next
  case (BWorker env)
  have "named_step db (db\<lparr> bt_queue := q \<rparr>)" for q by (rule named_step_refl) (simp_all add: batch_ids_def)
  then have "named_step db (processBatch drv retry env b (db\<lparr> bt_queue := q \<rparr>))" for b q
    by (rule named_step_trans) (rule processBatch_named[OF drv])
  then show ?thesis by (simp add: BWorker worker_def named_step_refl split: list.split)
next
  case (BPending p k now)
  then show ?thesis by (simp add: named_step_refl pending_frame batch_ids_def)
qed (simp_all add: SubmitBatch_named[OF drv] CancelBatch_named[OF drv] RetryBatch_named[OF drv])

interpretation batches: service "batch_handle drv retry" "\<lambda>db. batch_drv_ok drv \<and> batch_inv db" "\<lambda>_ _. True" for drv retry
  by unfold_locales (auto dest: named_step_inv[OF _ batch_handle_named])


subsection \<open>Retries of a batch run out\<close>

text \<open>A write to the table of batches that never fails.\<close>

definition always_updates :: "batch_drv \<Rightarrow> bool" where
  "always_updates drv \<longleftrightarrow> (\<forall>P f bs e. g_update (d_batches drv) P f bs \<noteq> Inl e)"

fun retried_by_hand :: "nat \<Rightarrow> batch_req \<Rightarrow> bool" where
  "retried_by_hand b (BRetry p now who c) \<longleftrightarrow> c = b"
| "retried_by_hand b _ \<longleftrightarrow> False"

text \<open>A request that makes the worker execute batch \<open>b\<close>, and how many of them a sequence has.\<close>

fun processes :: "batch_drv \<Rightarrow> nat \<Rightarrow> batch_req \<Rightarrow> batch_db \<Rightarrow> bool" where
  "processes drv b (BWorker env) db \<longleftrightarrow> (case bt_queue db of [] \<Rightarrow> False | c # _ \<Rightarrow> c = b) \<and> queued_row drv b db"
| "processes drv b _ db \<longleftrightarrow> False"

fun processings :: "batch_drv \<Rightarrow> (BatchConfig \<times> bool) option \<Rightarrow> nat \<Rightarrow> batch_req list \<Rightarrow> batch_db \<Rightarrow> nat" where
  "processings drv retry b [] db = 0"
| "processings drv retry b (r # rs) db =
     (if processes drv b r db then 1 else 0) + processings drv retry b rs (snd (batch_handle drv retry r db))"

definition attempts_left :: "BatchConfig \<Rightarrow> batch_row \<Rightarrow> nat" where
  "attempts_left cfg x = (if bx_Status x = BatchStatusQueued then nat (retry_limit cfg x - bx_RetryCount x) + 1 else 0)"

text \<open>The rows of one batch, and a step that leaves its counters alone and does not queue it.\<close>

definition rows_of :: "nat \<Rightarrow> batch_db \<Rightarrow> batch_row list" where
  "rows_of b db = filter (batch_by_id b) (t_batches db)"

definition row_ok :: "int \<Rightarrow> int \<Rightarrow> bool \<Rightarrow> batch_row \<Rightarrow> bool" where
  "row_ok n k q y \<longleftrightarrow> bx_RetryCount y = n \<and> bx_MaxRetries y = k \<and> (bx_Status y = BatchStatusQueued \<longrightarrow> q)"

definition the_row :: "nat \<Rightarrow> (batch_row \<Rightarrow> bool) \<Rightarrow> batch_db \<Rightarrow> bool" where
  "the_row b P db \<longleftrightarrow> (\<exists>x. rows_of b db = [x] \<and> P x)"

definition calm :: "nat \<Rightarrow> batch_db \<Rightarrow> batch_db \<Rightarrow> bool" where
  "calm b db db' \<longleftrightarrow> (\<forall>n k q. the_row b (row_ok n k q) db \<longrightarrow> the_row b (row_ok n k q) db')"

lemma calm_same: "rows_of b db' = rows_of b db \<Longrightarrow> calm b db db'"
  by (simp add: calm_def the_row_def)

lemma calm_trans: "calm b db db1 \<Longrightarrow> calm b db1 db2 \<Longrightarrow> calm b db db2"
  unfolding calm_def by simp

lemma rows_of_length: "length (rows_of b db) = length (filter (\<lambda>i. i = b) (map bx_ID (t_batches db)))"
  by (simp add: rows_of_def filter_map o_def)

lemma rows_keep_row:
  assumes "rows_keep b P (t_batches db) (t_batches db')" "the_row b P db"
  shows "the_row b P db'"
proof -
  obtain x where x: "rows_of b db = [x]" "P x" using assms(2) by (auto simp: the_row_def)
  have "map bx_ID (t_batches db') = map bx_ID (t_batches db)" using assms(1) by (simp add: rows_keep_def)
  then have "length (rows_of b db') = length (rows_of b db)" unfolding rows_of_length by (rule arg_cong)
  then obtain y where y: "rows_of b db' = [y]" using x(1) by (auto simp: length_Suc_conv)
  have "P z" if "z \<in> set (t_batches db)" "bx_ID z = b" for z
  proof -
    have "z \<in> set (rows_of b db)" using that by (simp add: rows_of_def)
    then show ?thesis using x by simp
  qed
  then have "\<forall>z\<in>set (rows_of b db'). P z" using assms(1) by (auto simp: rows_keep_def rows_of_def)
  then show ?thesis using y by (simp add: the_row_def)
qed

lemma calm_other:
  assumes "c \<noteq> b" "rows_keep c P (t_batches db) (t_batches db')"
  shows "rows_of b db' = rows_of b db"
proof -
  have r: "rows_of b db = filter (batch_by_id b) (filter (\<lambda>x. bx_ID x \<noteq> c) (t_batches db))" for db
    unfolding rows_of_def filter_filter using assms(1) by (intro filter_cong) auto
  show ?thesis unfolding r using assms(2) by (simp only: rows_keep_def)
qed

lemma calm_keep:
  assumes "\<And>n k q. rows_keep c (row_ok n k q) (t_batches db) (t_batches db')"
  shows "calm b db db'"
proof (cases "c = b")
  case True
  then show ?thesis unfolding calm_def using rows_keep_row assms by blast
next
  case False
  from calm_other[OF this assms] show ?thesis by (rule calm_same)
qed

lemma row_ok_simps [simp]:
  "row_ok n k q x \<Longrightarrow> s \<noteq> BatchStatusQueued \<Longrightarrow> row_ok n k q' (x\<lparr> bx_Status := s \<rparr>)"
  "row_ok n k q x \<Longrightarrow> row_ok n k q' (x\<lparr> bx_Status := BatchStatusFailed, bx_ErrorDetails := d \<rparr>)"
  "row_ok n k q x \<Longrightarrow> row_ok n k q' (x\<lparr> bx_Status := BatchStatusFailed, bx_IsRetryable := False, bx_ErrorDetails := d \<rparr>)"
  by (simp_all add: row_ok_def)

lemma the_row_fresh:
  assumes "fresh_batch drv batch db db1" "b \<in> set (batch_ids db)" "t_batches db' = t_batches db1"
  shows "rows_of b db' = rows_of b db"
  using assms by (auto simp: fresh_batch_def rows_of_def batch_ids_def)

lemma executed_calm:
  assumes "executed drv c ops rs db db'" "b \<in> set (batch_ids db)"
  shows "calm b db db'"
proof -
  have "c \<noteq> b" using assms by (auto simp: executed_def batch_ids_def)
  then have "rows_of b db' = filter (batch_by_id b) (filter (\<lambda>x. bx_ID x \<noteq> c) (t_batches db'))"
    unfolding rows_of_def filter_filter by (intro filter_cong) auto
  moreover have "filter (\<lambda>x. bx_ID x \<noteq> c) (t_batches db') = t_batches db" using assms(1) by (simp only: executed_def)
  ultimately show ?thesis by (intro calm_same) (simp only: rows_of_def)
qed

lemma status_calm:
  assumes "t_batches db' = map (\<lambda>x. if bx_ID x = c then f x else x) (t_batches db)" "\<And>x. f x = x\<lparr> bx_Status := s \<rparr>" "s \<noteq> BatchStatusQueued"
  shows "calm b db db'"
  unfolding assms(1) by (rule calm_keep[where c = c]) (auto simp: assms intro!: rows_keep_map)

lemma SubmitBatch_calm:
  assumes drv: "batch_drv_ok drv" and b: "b \<in> set (batch_ids db)"
  shows "calm b db (snd (SubmitBatch drv p n now who body db))"
proof (cases "snd (SubmitBatch drv p n now who body db) = db")
  case False
  then obtain x batch bs where c: "g_create (d_batches drv) x (t_batches db) = Inr (batch, bs)"
    and db': "t_batches (snd (SubmitBatch drv p n now who body db)) = bs"
    by (auto simp: SubmitBatch_def Let_def split: option.splits sum.splits if_splits prod.splits)
  show ?thesis by (rule calm_same, rule the_row_fresh[OF create_fresh(1)[OF drv c] b]) (simp add: db')
qed (simp add: calm_same)

lemma CancelBatch_calm:
  assumes drv: "batch_drv_ok drv"
  shows "calm b db (snd (CancelBatch drv who c db))"
proof (rule calm_keep[where c = c])
  fix n k q
  show "rows_keep c (row_ok n k q) (t_batches db) (t_batches (snd (CancelBatch drv who c db)))"
    using update_ignoring_keeps[OF drv, of "bx_Status_update (\<lambda>_. BatchStatusRolledBack)" "row_ok n k q" c "t_batches db"]
    by (auto simp: CancelBatch_def own_batch_def rows_keep_refl split: sum.split option.split)
qed

lemma RollbackBatch_calm:
  assumes drv: "batch_drv_ok drv"
  shows "calm b db (snd (RollbackBatch drv who c db))"
proof -
  obtain x db' where e: "RollbackBatch drv who c db = (x, db')" by fastforce
  have "calm b db db'"
  proof (cases rule: RollbackBatch_cases[OF drv e])
    case (2 batch ops)
    show ?thesis unfolding rollback_txD[OF drv 2(7)]
      by (rule status_calm[where c = c and f = "bx_Status_update (\<lambda>_. BatchStatusRolledBack)" and s = BatchStatusRolledBack]) simp_all
  qed (simp add: calm_same)
  then show ?thesis by (simp add: e)
qed

lemma ScheduleRetry_keeps:
  assumes drv: "batch_drv_ok drv" and "ScheduleRetry drv cfg p now b err db = (r, db')"
  shows "rows_keep b (\<lambda>_. True) (t_batches db) (t_batches db')"
proof (cases rule: ScheduleRetry_cases[OF assms])
  case 1
  then show ?thesis by (simp add: rows_keep_refl)
next
  case (2 d)
  then show ?thesis by (simp add: give_up_keeps[OF drv])
next
  case (3 y f)
  then show ?thesis using rows_keep_map[of f "\<lambda>_. True" b "t_batches db"] by simp
qed

lemma processBatch_other:
  assumes drv: "batch_drv_ok drv" and c: "c \<noteq> b"
  shows "calm b db (processBatch drv retry env c db)"
proof -
  have "rows_keep c (\<lambda>_. True) (t_batches db) (t_batches (processBatch drv retry env c db))"
  proof (cases rule: processBatch_cases[OF refl, where drv = drv and retry = retry and env = env and b = c and db = db])
    case 1
    then show ?thesis by (simp add: rows_keep_refl)
  next
    case 2
    then show ?thesis using rows_keep_trans[OF marked_keeps[OF drv] failed_row_keeps[OF drv]] by simp
  next
    case (3 ops s e db2)
    have "rows_keep c (\<lambda>_. True) (t_batches (marked drv c db)) (t_batches db2)"
      using execute_queued_effect(2)[OF drv 3(2) marked_has(1)[OF drv 3(1)]] by (simp add: rows_keep_def)
    then show ?thesis using 3(3) rows_keep_trans[OF marked_keeps[OF drv]] by simp
  next
    case (4 ops s e db2 cfg p r db3)
    have "rows_keep c (\<lambda>_. True) (t_batches (marked drv c db)) (t_batches db2)"
      using execute_queued_effect(2)[OF drv 4(2) marked_has(1)[OF drv 4(1)]] by (simp add: rows_keep_def)
    then have "rows_keep c (\<lambda>_. True) (t_batches db) (t_batches db3)"
      by (rule rows_keep_trans[OF rows_keep_trans[OF marked_keeps[OF drv, of "\<lambda>_. True"]] ScheduleRetry_keeps[OF drv 4(4)], OF TrueI])
    then show ?thesis using 4(5) by auto
  qed
  from calm_other[OF c this] show ?thesis by (rule calm_same)
qed

text \<open>Nothing but the worker on \<open>b\<close> and a retry of \<open>b\<close> by hand queues \<open>b\<close> or touches its counters.\<close>

lemma batch_handle_calm:
  assumes drv: "batch_drv_ok drv" and b: "b \<in> set (batch_ids db)" and r: "\<not> retried_by_hand b r" "\<not> processes drv b r db"
  shows "calm b db (snd (batch_handle drv retry r db))"
proof (cases r)
  case (BExecute n t1 t2 who body)
  obtain x db' where e: "ExecuteBatch drv n t1 t2 who body db = (x, db')" by fastforce
  have "calm b db db'" by (cases rule: ExecuteBatch_cases[OF drv e]) (auto simp: calm_same executed_calm[OF _ b])
  then show ?thesis by (simp add: BExecute e)
next
  case (BRetry p now who c)
  have x: "snd (RetryBatch drv p now who c db) = (case who of None \<Rightarrow> db | Some u \<Rightarrow> if c = 0 then db else snd (ManualRetry drv p now c u db))"
    by (simp add: RetryBatch_def split: option.split sum.split prod.split)
  have "c \<noteq> b" using r(1) BRetry by simp
  from calm_other[OF this conjunct2[OF ManualRetry_effect[OF drv]]]
  have "calm b db (snd (ManualRetry drv p now c u db))" for u by (rule calm_same)
  then show ?thesis using BRetry x by (auto simp: calm_same split: option.split)
next
  case (BWorker env)
  show ?thesis
  proof (cases "bt_queue db")
    case (Cons c q)
    let ?db = "db\<lparr> bt_queue := q \<rparr>"
    have "calm b ?db (processBatch drv retry env c ?db)"
    proof (cases "c = b")
      case True
      then have "\<not> queued_row drv c ?db" using r(2) BWorker Cons by (simp add: queued_row_def)
      then have "processBatch drv retry env c ?db = ?db" by (auto simp: processBatch_def queued_row_def split: sum.splits)
      then show ?thesis by (simp add: calm_same)
    qed (rule processBatch_other[OF drv])
    moreover have "calm b db ?db" by (rule calm_same) (simp add: rows_of_def)
    ultimately have "calm b db (processBatch drv retry env c ?db)" by (metis calm_trans)
    then show ?thesis using BWorker Cons by (simp add: worker_def)
  qed (simp add: BWorker worker_def calm_same)
next
  case (BPending p k now)
  then show ?thesis by (simp add: calm_same rows_of_def pending_frame)
qed (simp_all add: SubmitBatch_calm[OF drv b] CancelBatch_calm[OF drv] RollbackBatch_calm[OF drv])

lemma filter_by_id: "distinct (map bx_ID bs) \<Longrightarrow> x \<in> set bs \<Longrightarrow> filter (batch_by_id (bx_ID x)) bs = [x]"
proof (induction bs)
  case (Cons y bs)
  then show ?case
  proof (cases "x = y")
    case True
    then have "\<forall>z\<in>set bs. bx_ID z \<noteq> bx_ID x" using Cons.prems(1) by (auto simp: image_iff)
    then show ?thesis using True by (simp add: filter_empty_conv)
  qed auto
qed simp

lemma the_row_map:
  assumes "the_row b P db" "t_batches db' = map (\<lambda>x. if bx_ID x = b then f x else x) (t_batches db)" "\<And>x. bx_ID (f x) = bx_ID x"
    "\<And>x. P x \<Longrightarrow> Q (f x)"
  shows "the_row b Q db'"
proof -
  have "filter (batch_by_id b) (map (\<lambda>x. if bx_ID x = b then f x else x) bs) = map f (filter (batch_by_id b) bs)" for bs
    using assms(3) by (induction bs) auto
  then show ?thesis using assms by (auto simp: the_row_def rows_of_def)
qed

lemma the_row_mem: "the_row b P db \<Longrightarrow> x \<in> set (t_batches db) \<Longrightarrow> bx_ID x = b \<Longrightarrow> P x"
proof -
  assume "the_row b P db" "x \<in> set (t_batches db)" "bx_ID x = b"
  then have "x \<in> set (rows_of b db)" "\<exists>y. rows_of b db = [y] \<and> P y" by (simp_all add: rows_of_def the_row_def)
  then show "P x" by auto
qed

lemma the_row_mono: "the_row b P db \<Longrightarrow> (\<And>x. P x \<Longrightarrow> Q x) \<Longrightarrow> the_row b Q db"
  by (auto simp: the_row_def)

lemma queued_rowD:
  assumes "batch_drv_ok drv" "queued_row drv b db"
  obtains x where "x \<in> set (t_batches db)" "bx_ID x = b" "bx_Status x = BatchStatusQueued"
proof -
  obtain x where x: "g_first (d_batches drv) (batch_by_id b) (t_batches db) = Inr x" "bx_Status x = BatchStatusQueued"
    using assms(2) by (auto simp: queued_row_def split: sum.splits)
  from gorm_firstD[OF batch_drvD(1)[OF assms(1)] x(1)] x(2) that show thesis by blast
qed

lemma process_spends:
  assumes drv: "batch_drv_ok drv" "always_updates drv" and q: "queued_row drv b db" and row: "the_row b (row_ok n k w) db"
    and mx: "mx = (if k > 0 then k else bc_MaxRetries cfg)" "in_i64 mx" "in_i64 n"
  shows "the_row b (row_ok n k False) (processBatch drv (Some (cfg, p)) env b db) \<or>
    (the_row b (row_ok (n + 1) k True) (processBatch drv (Some (cfg, p)) env b db) \<and> n < mx)"
proof -
  have "t_batches (marked drv b db) = map (\<lambda>x. if bx_ID x = b then x\<lparr> bx_Status := BatchStatusProcessing \<rparr> else x) (t_batches db)"
    using gorm_updateD(2)[OF batch_drvD(1)[OF drv(1)]] drv(2)
    by (auto simp: marked_def update_ignoring_error_def update_batch_def and_then_def always_updates_def split: sum.split)
  from the_row_map[OF row this] have m: "the_row b (row_ok n k False) (marked drv b db)" by simp
  have exec: "the_row b (row_ok n k False) db2" if "execute_queued drv env' b ops (marked drv b db) = ((s, e), db2)" for env' ops s e db2
  proof -
    have "(\<lambda>x. bx_Status x \<noteq> BatchStatusQueued \<and> bx_RetryCount x = n \<and> bx_MaxRetries x = k) = row_ok n k False"
      by (auto simp: row_ok_def fun_eq_iff)
    then have "rows_keep b (row_ok n k False) (t_batches (marked drv b db)) (t_batches db2)"
      using execute_queued_effect(2)[OF drv(1) that marked_has(1)[OF drv(1) q], of n k] by simp
    from rows_keep_row[OF this m] show ?thesis .
  qed
  show ?thesis
  proof (cases rule: processBatch_cases[OF refl, where drv = drv and retry = "Some (cfg, p)" and env = env and b = b and db = db])
    case 2
    have "rows_keep b (row_ok n k False) (t_batches (marked drv b db)) (t_batches (processBatch drv (Some (cfg, p)) env b db))"
      unfolding 2(2) using failed_row_keeps[OF drv(1), of "row_ok n k False"] by simp
    from rows_keep_row[OF this m] show ?thesis by blast
  next
    case (3 ops s e db2)
    then show ?thesis using exec[OF 3(2)] by (simp add: the_row_def rows_of_def)
  next
    case (4 ops s e db2 cfg' p' r db3)
    have row2: "the_row b (row_ok n k False) db2" by (rule exec[OF 4(2)])
    have cfg: "cfg' = cfg" using 4(3) by simp
    have "the_row b (row_ok n k False) db3 \<or> (the_row b (row_ok (n + 1) k True) db3 \<and> n < mx)"
    proof (cases rule: ScheduleRetry_cases[OF drv(1) 4(4)])
      case 1
      then show ?thesis using row2 by (simp add: the_row_def rows_of_def)
    next
      case (2 d)
      have "rows_keep b (row_ok n k False) (t_batches db2) (t_batches db3)"
        unfolding 2(2) give_up_def using update_ignoring_keeps[OF drv(1), of "\<lambda>x. x\<lparr> bx_Status := BatchStatusFailed, bx_IsRetryable := False, bx_ErrorDetails := d \<rparr>"
          "row_ok n k False"] by simp
      then show ?thesis using rows_keep_row row2 by blast
    next
      case (3 y f)
      have y: "row_ok n k False y" by (rule the_row_mem[OF row2 3(1,2)])
      then have less: "n < mx" using 3(3) mx(1) by (auto simp: retry_limit_def row_ok_def cfg)
      then have "add64 (bx_RetryCount y) 1 = n + 1" using y mx(2,3) by (intro add64_exact[THEN trans]) (auto simp: row_ok_def in_i64_def)
      then have "the_row b (row_ok (n + 1) k True) db3" using the_row_map[OF row2 3(5)] 3(7) by (simp add: row_ok_def)
      then show ?thesis using less by simp
    qed
    then show ?thesis using 4(5) by (auto simp: the_row_def rows_of_def)
  qed (use q in blast)
qed

lemma processings_bounded:
  assumes drv: "batch_drv_ok drv" "always_updates drv" and mx: "mx = (if k > 0 then k else bc_MaxRetries cfg)" "in_i64 mx"
  shows "the_row b (row_ok n k q) db \<Longrightarrow> in_i64 n \<Longrightarrow> list_all (\<lambda>r. \<not> retried_by_hand b r) rs \<Longrightarrow>
    processings drv (Some (cfg, p)) b rs db \<le> (if q then nat (mx - n) + 1 else 0)"
proof (induction rs arbitrary: n q db)
  case (Cons r rs)
  let ?db = "snd (batch_handle drv (Some (cfg, p)) r db)"
  have b: "b \<in> set (batch_ids db)" using Cons.prems(1) by (force simp: the_row_def rows_of_def batch_ids_def filter_eq_Cons_iff)
  show ?case
  proof (cases "processes drv b r db")
    case True
    then obtain env qs where r: "r = BWorker env" "bt_queue db = b # qs" "queued_row drv b db" by (cases r) (auto split: list.splits)
    let ?d = "db\<lparr> bt_queue := qs \<rparr>"
    have row: "the_row b (row_ok n k q) ?d" "queued_row drv b ?d" using Cons.prems(1) r(3) by (simp_all add: the_row_def rows_of_def queued_row_def)
    obtain x where x: "x \<in> set (t_batches ?d)" "bx_ID x = b" "bx_Status x = BatchStatusQueued" by (rule queued_rowD[OF drv(1) row(2)])
    have q: q using the_row_mem[OF row(1) x(1,2)] x(3) by (simp add: row_ok_def)
    have db': "?db = processBatch drv (Some (cfg, p)) env b ?d" using r by (simp add: worker_def)
    from process_spends[OF drv row(2,1) mx Cons.prems(2), of p env]
    show ?thesis
    proof
      assume "the_row b (row_ok n k False) (processBatch drv (Some (cfg, p)) env b ?d)"
      from Cons.IH[OF this Cons.prems(2)] Cons.prems(3) True q db' show ?thesis by simp
    next
      assume a: "the_row b (row_ok (n + 1) k True) (processBatch drv (Some (cfg, p)) env b ?d) \<and> n < mx"
      then have "in_i64 (n + 1)" "nat (mx - (n + 1)) + 1 \<le> nat (mx - n)" using mx(2) Cons.prems(2) by (auto simp: in_i64_def)
      with Cons.IH[OF conjunct1[OF a] this(1)] Cons.prems(3) True q db' show ?thesis by simp
    qed
  next
    case False
    have "calm b db ?db" using batch_handle_calm[OF drv(1) b _ False] Cons.prems(3) by simp
    then have "the_row b (row_ok n k q) ?db" using Cons.prems(1) by (simp add: calm_def)
    from Cons.IH[OF this Cons.prems(2)] Cons.prems(3) False show ?thesis by simp
  qed
qed simp

subsection \<open>Properties\<close>

definition mem_batch :: "nat option \<Rightarrow> batch_drv" where
  "mem_batch fail = \<lparr> d_market = mem_market, d_batches = mem_gorm bx_ID (\<lambda>k. bx_ID_update (\<lambda>_. k)),
     d_entries = mem_gorm qe_ID (\<lambda>k. qe_ID_update (\<lambda>_. k)),
     d_btx = \<lparr> tx_begin = None, tx_commit = (if fail = None then None else Some (DBError ''conn'')) \<rparr>, d_retryable = True, d_max_retries = 3 \<rparr>"

lemma mem_batch_ok: "batch_drv_ok (mem_batch fail)"
  by (simp add: batch_drv_ok_def mem_batch_def mem_market_ok mem_gorm_ok)

definition demo_batches :: batch_db where
  "demo_batches = \<lparr> bt_market = demo_market, t_batches = [], t_entries = [], bt_queue = [] \<rparr>"

lemma demo_batches_inv: "batch_inv demo_batches"
  by (simp add: batch_inv_def demo_batches_def demo_market_def)

definition demo_ops :: "BatchOperation list" where
  "demo_ops =
    [\<lparr> bo_Type = ''transfer'', bo_AssetID = 1, bo_FromAddress = ''GA'', bo_ToAddress = ''GB'', bo_Amount = 5, bo_ExtraParams = [] \<rparr>,
     \<lparr> bo_Type = ''list'', bo_AssetID = 1, bo_FromAddress = ''GB'', bo_ToAddress = '''', bo_Amount = 2, bo_ExtraParams = [] \<rparr>,
     \<lparr> bo_Type = ''transfer'', bo_AssetID = 9, bo_FromAddress = ''GB'', bo_ToAddress = ''GC'', bo_Amount = 1, bo_ExtraParams = [] \<rparr>]"

text \<open>What the rollback removes of the market after the execution is what the execution added.\<close>

lemma undo_executed:
  assumes inv: "batch_inv db" and x: "executed drv b ops rs db db1" and nc: "no_cancel ops"
  shows "filter (\<lambda>t. tf_TxHash t \<notin> set (undone b 0 ops)) (t_transfers (mk_wf (bt_market db1))) = t_transfers (mk_wf (bt_market db)) \<and>
    filter li_Active (map (hide (unlisted b 0 ops)) (mk_listings (bt_market db1))) = filter li_Active (mk_listings (bt_market db)) \<and>
    mk_kyc (bt_market db1) = mk_kyc (bt_market db) \<and> (\<exists>ts. mk_wf (bt_market db1) = (mk_wf (bt_market db))\<lparr> t_transfers := ts \<rparr>)"
proof -
  have b: "b \<notin> set (batch_ids db)" and len: "length rs = length ops" using x by (simp_all add: executed_def batch_ids_def)
  have old: "filter (\<lambda>t. tf_TxHash t \<notin> set (undone b 0 ops)) (t_transfers (mk_wf (bt_market db))) = t_transfers (mk_wf (bt_market db))"
    using inv b undone_batch(1)[of _ b 0 ops] by (intro filter_True) (auto simp: batch_inv_def batch_ids_def)
  have old': "map (hide (unlisted b 0 ops)) (mk_listings (bt_market db)) = mk_listings (bt_market db)"
    using inv b undone_batch(2)[of _ b 0 ops] by (intro map_idI) (auto simp: batch_inv_def batch_ids_def hide_def)
  show ?thesis
  proof (cases "bt_market db1 = bt_market db")
    case True
    have "mk_wf (bt_market db) = (mk_wf (bt_market db))\<lparr> t_transfers := t_transfers (mk_wf (bt_market db)) \<rparr>" by simp
    then show ?thesis unfolding True old old' by blast
  next
    case False
    then have "market_adds True (recorded b 0 ops rs) (listed b 0 ops rs) (bt_market db) (bt_market db1)"
      using x nc by (simp add: executed_def)
    then obtain ts ls where ts: "mk_wf (bt_market db1) = (mk_wf (bt_market db))\<lparr> t_transfers := t_transfers (mk_wf (bt_market db)) @ ts \<rparr>"
      "map transfer_core ts = recorded b 0 ops rs"
      and ls: "mk_listings (bt_market db1) = mk_listings (bt_market db) @ ls" "map listing_core ls = listed b 0 ops rs"
      and kyc: "mk_kyc (bt_market db1) = mk_kyc (bt_market db)"
      by (auto simp: market_adds_def)
    have "tf_TxHash t \<in> set (undone b 0 ops)" if "t \<in> set ts" for t
    proof -
      have "transfer_core t \<in> set (recorded b 0 ops rs)" unfolding ts(2)[symmetric] using that by simp
      from recorded_hashes[OF len this] undone_mem[of _ ops b 0] show ?thesis by auto
    qed
    then have new: "filter (\<lambda>t. tf_TxHash t \<notin> set (undone b 0 ops)) ts = []" by simp
    have "li_ListingID l \<in> set (unlisted b 0 ops)" if "l \<in> set ls" for l
    proof -
      have "listing_core l \<in> set (listed b 0 ops rs)" unfolding ls(2)[symmetric] using that by simp
      from listed_names[OF len this] unlisted_mem[of _ ops b 0] show ?thesis by auto
    qed
    then have new': "filter li_Active (map (hide (unlisted b 0 ops)) ls) = []" by (simp add: hide_def)
    have "\<exists>xs. (mk_wf (bt_market db))\<lparr> t_transfers := t_transfers (mk_wf (bt_market db)) @ ts \<rparr> = (mk_wf (bt_market db))\<lparr> t_transfers := xs \<rparr>" by blast
    then show ?thesis unfolding ts(1) ls(1) kyc using old old' new new' by simp
  qed
qed

text \<open>C9: rolling a batch back undoes it. When a batch without cancellations (of asset ids and amounts of 64 bits) answers 201 and its
  rollback then answers 200, the market
  is as before: the same transfers, the same active listings, everything else untouched, the batch marked as rolled back and the
  other batches as they were. This holds whichever operations of the batch failed and whether or not its transaction was committed.\<close>

theorem batch_rollback_restores:
  assumes drv: "batch_drv_ok drv" "batch_drv_ok drv'" and inv: "batch_inv db" and ops: "list_all op_ok ops"
    and ex: "ExecuteBatch drv n t1 t2 (Some u) (Inr ops) db = (Reply s rep, db1)"
    and rb: "RollbackBatch drv' who (bp_BatchID rep) db1 = (Reply s' i, db2)"
  shows "t_transfers (mk_wf (bt_market db2)) = t_transfers (mk_wf (bt_market db)) \<and>
    filter li_Active (mk_listings (bt_market db2)) = filter li_Active (mk_listings (bt_market db)) \<and>
    (bt_market db2)\<lparr> mk_listings := mk_listings (bt_market db) \<rparr> = bt_market db \<and>
    map bx_Status (filter (batch_by_id (bp_BatchID rep)) (t_batches db2)) = [BatchStatusRolledBack] \<and>
    filter (\<lambda>x. bx_ID x \<noteq> bp_BatchID rep) (t_batches db2) = t_batches db"
proof -
  obtain b rs where x: "executed drv b ops rs db db1" "bp_BatchID rep = b"
    by (cases rule: ExecuteBatch_cases[OF drv(1) ex]) (use that in auto)
  obtain batch ops' where r: "batch \<in> set (t_batches db1)" "bx_ID batch = b" "operations_of_json (bx_Operations batch) = Some ops'"
    "no_cancel ops'" "rollback_tx drv' b ops' db1 = Inr db2"
    by (cases rule: RollbackBatch_cases[OF drv(2) rb]) (use that x(2) in auto)
  have "bx_Operations batch = JArray (map request_json ops)" using x(1) r(1,2) by (simp add: executed_def)
  then have same: "ops' = ops" using operations_roundtrip(2)[OF ops] r(3) by simp
  note db2 = rollback_txD[OF drv(2) r(5)[unfolded same]]
  note u = undo_executed[OF inv x(1) r(4)[unfolded same]]
  have m: "bt_market db2 = (bt_market db1)\<lparr> mk_wf := (mk_wf (bt_market db1))\<lparr> t_transfers := t_transfers (mk_wf (bt_market db)) \<rparr>,
      mk_listings := map (hide (unlisted b 0 ops)) (mk_listings (bt_market db1)) \<rparr>"
    unfolding db2 using u by simp
  have ids: "map bx_ID (t_batches db1) = map bx_ID (t_batches db) @ [b]" "filter (\<lambda>x. bx_ID x \<noteq> b) (t_batches db1) = t_batches db"
    "b \<notin> bx_ID ` set (t_batches db)" using x(1) by (simp_all add: executed_def)
  let ?f = "\<lambda>x. if bx_ID x = b then x\<lparr> bx_Status := BatchStatusRolledBack \<rparr> else x"
  have "length (filter (batch_by_id b) (t_batches db1)) = length (filter ((=) b) (map bx_ID (t_batches db1)))" by (simp add: filter_map o_def eq_commute)
  also have "\<dots> = Suc 0" unfolding ids(1) using ids(3) by (auto simp: filter_empty_conv)
  finally obtain y where y: "filter (batch_by_id b) (t_batches db1) = [y]" by (auto simp: length_Suc_conv)
  then have "bx_ID y = b" using filter_set[of "batch_by_id b" "t_batches db1"] by auto
  with y have "map bx_Status (filter (batch_by_id b) (map ?f (t_batches db1))) = [BatchStatusRolledBack]"
    by (auto simp: filter_map o_def dest: map_eq_singletonD)
  moreover have "filter (\<lambda>x. bx_ID x \<noteq> b) (map ?f (t_batches db1)) = t_batches db"
    unfolding ids(2)[symmetric] by (auto simp: filter_map o_def intro!: map_idI)
  moreover have "t_batches db2 = map ?f (t_batches db1)" unfolding db2 by simp
  moreover have "(bt_market db2)\<lparr> mk_listings := mk_listings (bt_market db) \<rparr> = bt_market db" unfolding m using u by auto
  moreover have "t_transfers (mk_wf (bt_market db2)) = t_transfers (mk_wf (bt_market db))"
    "filter li_Active (mk_listings (bt_market db2)) = filter li_Active (mk_listings (bt_market db))" unfolding m using u by simp_all
  ultimately show ?thesis by (simp only: x(2))
qed


theorem batch_rollback_restores_witness:
  "let db1 = snd (ExecuteBatch (mem_batch None) 50 0 1 (Some 7) (Inr demo_ops) demo_batches);
       db2 = snd (RollbackBatch (mem_batch None) (Some 7) 1 db1)
   in map tf_Amount (t_transfers (mk_wf (bt_market db1))) = [5] \<and> map li_Active (mk_listings (bt_market db1)) = [True] \<and>
      t_transfers (mk_wf (bt_market db2)) = [] \<and> filter li_Active (mk_listings (bt_market db2)) = []"
proof -
  let ?x = "ExecuteBatch (mem_batch None) 50 0 1 (Some 7) (Inr demo_ops) demo_batches"
  let ?y = "RollbackBatch (mem_batch None) (Some 7) 1 (snd ?x)"
  have m: "map tf_Amount (t_transfers (mk_wf (bt_market (snd ?x)))) = [5]" "map li_Active (mk_listings (bt_market (snd ?x))) = [True]" by code_simp+
  have "case fst ?x of Reply s rep \<Rightarrow> bp_BatchID rep = 1 | _ \<Rightarrow> False" by code_simp
  then obtain s rep where x: "?x = (Reply s rep, snd ?x)" "bp_BatchID rep = 1" by (cases "fst ?x") (auto simp: prod_eq_iff)
  have "case fst ?y of Reply s i \<Rightarrow> True | _ \<Rightarrow> False" by code_simp
  then obtain s' i where y: "?y = (Reply s' i, snd ?y)" by (cases "fst ?y") (auto simp: prod_eq_iff)
  have ops: "list_all op_ok demo_ops" by (simp add: demo_ops_def op_ok_def in_i64_def)
  have "t_transfers (mk_wf (bt_market demo_batches)) = []" "filter li_Active (mk_listings (bt_market demo_batches)) = []"
    by (simp_all add: demo_batches_def demo_market_def)
  then show ?thesis
    using batch_rollback_restores[OF mem_batch_ok mem_batch_ok demo_batches_inv ops x(1), of None "Some 7" s' i "snd ?y"] x(2) y m by (simp add: Let_def)
qed


text \<open>C10: retries of a batch end. On a table that has the retry columns (\<open>batch_row\<close>) and whose updates do not fail: whatever requests,
  sweeps of the retry service and rounds of the worker follow, in whatever order, however often the same id stands in the queue and
  whatever other call fails, as long as nobody retries the batch by hand, the worker executes a queued batch at most once more than its
  limit still allows retries, and a batch that is not queued never.\<close>

theorem automatic_retries_end:
  assumes "batch_drv_ok drv" "always_updates drv" "batch_inv db" "x \<in> set (t_batches db)"
    and "in_i64 (retry_limit cfg x)" "in_i64 (bx_RetryCount x)" "list_all (\<lambda>r. \<not> retried_by_hand (bx_ID x) r) rs"
  shows "processings drv (Some (cfg, p)) (bx_ID x) rs db \<le>
    (if bx_Status x = BatchStatusQueued then nat (retry_limit cfg x - bx_RetryCount x) + 1 else 0)"
proof -
  have "distinct (map bx_ID (t_batches db))" using assms(3) by (simp add: batch_inv_def)
  then have "rows_of (bx_ID x) db = [x]" unfolding rows_of_def by (rule filter_by_id) (rule assms(4))
  then have "the_row (bx_ID x) (row_ok (bx_RetryCount x) (bx_MaxRetries x) (bx_Status x = BatchStatusQueued)) db"
    by (simp add: the_row_def row_ok_def)
  from processings_bounded[OF assms(1,2) refl _ this assms(6,7), of cfg p] assms(5) show ?thesis unfolding retry_limit_def by blast
qed


text \<open>A table whose inserts time out, and a batch that needs one.\<close>

definition slow_batch :: batch_drv where
  "slow_batch = (mem_batch None)\<lparr> d_market := mem_market\<lparr> d_approvals := (d_approvals mem_market)\<lparr>
     d_transfers := (mem_gorm tf_ID (\<lambda>k. tf_ID_update (\<lambda>_. k)))\<lparr> g_create := (\<lambda>_ _. Inl (DBError ''timeout'')) \<rparr> \<rparr> \<rparr> \<rparr>"

lemma no_inserts_ok:
  assumes "gorm_ok key setkey g"
  shows "gorm_ok key setkey (g\<lparr> g_create := (\<lambda>_ _. Inl e) \<rparr>)"
proof -
  have "first_ok key (g\<lparr> g_create := x \<rparr>) = first_ok key g" "find_ok (g\<lparr> g_create := x \<rparr>) = find_ok g" "write_ok key (g\<lparr> g_create := x \<rparr>) = write_ok key g" for x
    by (simp_all add: first_ok_def find_ok_def write_ok_def)
  then show ?thesis using assms by (simp add: gorm_ok_def create_ok_def)
qed

lemma slow_batch_ok: "batch_drv_ok slow_batch" "always_updates slow_batch"
proof -
  have "gorm_ok tf_ID (\<lambda>k. tf_ID_update (\<lambda>_. k)) ((mem_gorm tf_ID (\<lambda>k. tf_ID_update (\<lambda>_. k)))\<lparr> g_create := (\<lambda>_ _. Inl (DBError ''timeout'')) \<rparr>)"
    by (rule no_inserts_ok) (rule mem_gorm_ok)
  then show "batch_drv_ok slow_batch" using mem_batch_ok[of None] mem_market_ok
    by (simp add: batch_drv_ok_def slow_batch_def market_drv_ok_def wf_drv_ok_def)
  show "always_updates slow_batch" by (simp add: always_updates_def slow_batch_def mem_batch_def mem_gorm_def)
qed

definition demo_row :: batch_row where
  "demo_row = (new_batch (mem_batch None) None 7 (JArray (map operation_json (take 1 demo_ops))) BatchStatusQueued 1)\<lparr> bx_ID := 1 \<rparr>"

definition demo_waiting :: batch_db where
  "demo_waiting = demo_batches\<lparr> t_batches := [demo_row], bt_queue := [1] \<rparr>"

definition demo_cfg :: BatchConfig where
  "demo_cfg = \<lparr> bc_MaxRetries = 3, bc_InitialBackoff = 2000, bc_MaxBackoff = 60000 \<rparr>"

definition demo_worker :: batch_req where
  "demo_worker = BWorker \<lparr> we_nano = (\<lambda>_. 7), we_unix = 5, we_now = 0 \<rparr>"

theorem automatic_retries_end_witness:
  "let rs = concat (replicate 6 [demo_worker, BPending True 50 100000])
   in processings slow_batch (Some (demo_cfg, True)) 1 rs demo_waiting = 2 \<and> processings slow_batch (Some (demo_cfg, True)) 1 rs demo_waiting \<le> 4"
proof -
  let ?rs = "concat (replicate 6 [demo_worker, BPending True 50 100000])"
  have x: "demo_row \<in> set (t_batches demo_waiting)" "bx_ID demo_row = 1" "retry_limit demo_cfg demo_row = 3" "bx_RetryCount demo_row = 0"
    by (simp_all add: demo_waiting_def demo_row_def new_batch_def retry_limit_def mem_batch_def)
  have "batch_inv demo_waiting" by (simp add: batch_inv_def demo_waiting_def demo_batches_def demo_market_def)
  moreover have "list_all (\<lambda>r. \<not> retried_by_hand (bx_ID demo_row) r) ?rs" by (simp add: demo_worker_def numeral_eq_Suc)
  moreover have "processings slow_batch (Some (demo_cfg, True)) 1 ?rs demo_waiting = 2" by code_simp
  ultimately show ?thesis
    using automatic_retries_end[OF slow_batch_ok, of demo_waiting demo_row demo_cfg ?rs True] x by (simp add: in_i64_def Let_def split: if_splits)
qed


subsection \<open>What the batches do not do\<close>

text \<open>\<open>GA\<close> may neither send nor receive (its KYC record is under review), but a batch transfers for it, under a hash of its own choosing.\<close>

lemma batch_skips_compliance:
  "is_fail (fst (TransferAsset mem_market ''u'' 0 None (Inr \<lparr> ta_AssetID = 1, ta_FromAddress = ''GA'', ta_ToAddress = ''GB'', ta_Amount = 5 \<rparr>) demo_market))"
  "map (\<lambda>t. (tf_FromAddress t, tf_ToAddress t, tf_Amount t, tf_Status t)) (t_transfers (mk_wf (bt_market
     (snd (ExecuteBatch (mem_batch None) 50 0 1 (Some 8) (Inr (take 1 demo_ops)) demo_batches))))) = [(''GA'', ''GB'', 5, ''confirmed'')]"
  by code_simp+

text \<open>When the commit fails, the answer is still 201 with the status \<open>completed\<close>, and nothing is recorded.\<close>

lemma failed_commit_reported_completed:
  "case ExecuteBatch (mem_batch (Some 1)) 50 0 1 (Some 7) (Inr (take 1 demo_ops)) demo_batches of
     (Reply s rep, db) \<Rightarrow> s = 201 \<and> bp_Status rep = BatchStatusCompleted \<and> map br_Success (bp_Results rep) = [True] \<and>
       t_transfers (mk_wf (bt_market db)) = [] \<and> map bx_Status (t_batches db) = [BatchStatusCompleted]
   | _ \<Rightarrow> False"
  by code_simp

text \<open>The worker stores the results where the operations were. A retry therefore runs operations without asset and amount, and fails for good.\<close>

lemma retry_has_lost_operations:
  "map bx_ErrorDetails (t_batches (batches.run slow_batch (Some (demo_cfg, True))
     [demo_worker, BPending True 50 100000, demo_worker] demo_waiting)) = [''asset 0 not found (non-transient failure)'']"
  unfolding batches.run.simps by code_simp

text \<open>The worker gives its transfers other hashes than the rollback looks for: it answers 200, and the transfers stay.\<close>

lemma rollback_misses_queued_transfers:
  "case RollbackBatch (mem_batch None) (Some 7) 1 (snd (batch_handle (mem_batch None) None demo_worker demo_waiting)) of
     (Reply s i, db) \<Rightarrow> s = 200 \<and> map bx_Status (t_batches db) = [BatchStatusRolledBack] \<and> map tf_Amount (t_transfers (mk_wf (bt_market db))) = [5]
   | _ \<Rightarrow> False"
  by code_simp

text \<open>The exponential backoff leaves the range of \<open>time.Duration\<close>: the 33rd delay is negative instead of the maximum.\<close>

lemma backoff_overflows:
  "CalculateBackoff \<lparr> bc_MaxRetries = 100, bc_InitialBackoff = 2000000000, bc_MaxBackoff = 60000000000 \<rparr> 32 = 60000000000"
  "CalculateBackoff \<lparr> bc_MaxRetries = 100, bc_InitialBackoff = 2000000000, bc_MaxBackoff = 60000000000 \<rparr> 33 = - (2 ^ 63)"
  by code_simp+

end
