(* ===== verification/AssetMetadata.thy ===== *)
theory AssetMetadata
  imports Gorm Decimal "HOL-Library.Sublist"
begin

section \<open>Metadata of assets and bulk import (services/metadata\_service.go, services/bulk\_import\_service.go, handlers/assets.go)\<close>

text \<open>
  The metadata of an asset (URI, hash, attributes) may change until it is declared immutable; before each change a numbered snapshot
  is stored, to which it can be reverted. An import creates assets from the rows of a file. \<open>Asset\<close> has the columns this code
  touches; \<open>ast_Metadata\<close> and \<open>ba_Metadata\<close> are the JSON texts of the attributes. What \<open>csv.Reader\<close> returns, record by record, is an
  argument of \<open>ParseCSV\<close>. The audit entries that the middleware writes are left out.
\<close>

subsection \<open>Data\<close>

record Asset =
  ast_ID :: nat
  ast_Name :: string
  ast_Symbol :: string
  ast_Description :: string
  ast_AssetType :: string
  ast_TotalSupply :: int
  ast_Fractions :: nat
  ast_ContractID :: string
  ast_OwnerAddress :: string
  ast_Metadata :: string
  ast_Verified :: bool
  ast_MetadataURI :: string
  ast_MetadataHash :: string
  ast_IsImmutable :: bool

record MetadataVersion =
  mv_ID :: nat
  mv_AssetID :: nat
  mv_Version :: int
  mv_MetadataURI :: string
  mv_MetadataHash :: string
  mv_Metadata :: string
  mv_ChangedBy :: nat
  mv_ChangeNote :: string

record ImportJob =
  ij_ID :: nat
  ij_UserID :: nat
  ij_Filename :: string
  ij_Format :: string
  ij_Status :: string
  ij_TotalRows :: int
  ij_ProcessedRows :: int
  ij_SuccessRows :: int
  ij_FailedRows :: int
  ij_ErrorDetails :: string
  ij_CreatedAssets :: "nat list"
  ij_StartedAt :: "instant option"
  ij_CompletedAt :: "instant option"

record BulkAssetRow =
  ba_Name :: string
  ba_Symbol :: string
  ba_Description :: string
  ba_AssetType :: string
  ba_TotalSupply :: int
  ba_Fractions :: nat
  ba_OwnerAddress :: string
  ba_Metadata :: "string option"

record BulkAssetRowError =
  be_Row :: nat
  be_Field :: string
  be_Message :: string

record meta_db =
  t_assets :: "Asset list"
  t_versions :: "MetadataVersion list"
  t_jobs :: "ImportJob list"

record meta_drv =
  d_assets :: "Asset gorm"
  d_versions :: "MetadataVersion gorm"
  d_jobs :: "ImportJob gorm"

abbreviation asset_by_id :: "nat \<Rightarrow> Asset \<Rightarrow> bool" where "asset_by_id i a \<equiv> ast_ID a = i"

subsection \<open>Versions\<close>

text \<open>\<open>Order("version desc").First\<close>: the primary key decides between equal versions.\<close>

definition newest_first :: "MetadataVersion \<Rightarrow> MetadataVersion \<Rightarrow> bool" where
  "newest_first v w \<longleftrightarrow> mv_Version v > mv_Version w \<or> (mv_Version v = mv_Version w \<and> mv_ID v \<le> mv_ID w)"

definition snapshot :: "Asset \<Rightarrow> int \<Rightarrow> nat \<Rightarrow> string \<Rightarrow> MetadataVersion" where
  "snapshot asset n changedBy note = \<lparr> mv_ID = 0, mv_AssetID = ast_ID asset, mv_Version = n, mv_MetadataURI = ast_MetadataURI asset,
     mv_MetadataHash = ast_MetadataHash asset, mv_Metadata = ast_Metadata asset, mv_ChangedBy = changedBy, mv_ChangeNote = note \<rparr>"

definition RecordVersion :: "meta_drv \<Rightarrow> Asset \<Rightarrow> nat \<Rightarrow> string \<Rightarrow> meta_db \<Rightarrow> dberr + meta_db" where
  "RecordVersion drv asset changedBy note db =
     and_then (g_find (d_versions drv) \<lparr> q_where = (\<lambda>v. mv_AssetID v = ast_ID asset), q_order = newest_first, q_offset = 0, q_limit = Some 1 \<rparr>
       (t_versions db)) (\<lambda>latest.
     let nextVersion = (case latest of [] \<Rightarrow> 1 | v # _ \<Rightarrow> add64 (mv_Version v) 1)
     in and_then (g_create (d_versions drv) (snapshot asset nextVersion changedBy note) (t_versions db)) (\<lambda>(_, vs). Inr (db\<lparr> t_versions := vs \<rparr>)))"

definition ListVersions :: "meta_drv \<Rightarrow> nat \<Rightarrow> meta_db \<Rightarrow> dberr + MetadataVersion list" where
  "ListVersions drv a db =
     g_find (d_versions drv) \<lparr> q_where = (\<lambda>v. mv_AssetID v = a), q_order = (\<lambda>v w. mv_Version v \<ge> mv_Version w), q_offset = 0, q_limit = None \<rparr> (t_versions db)"

definition GetVersion :: "meta_drv \<Rightarrow> nat \<Rightarrow> int \<Rightarrow> meta_db \<Rightarrow> dberr + MetadataVersion" where
  "GetVersion drv a n db = g_first (d_versions drv) (\<lambda>v. mv_AssetID v = a \<and> mv_Version v = n) (t_versions db)"

definition restore :: "MetadataVersion \<Rightarrow> Asset \<Rightarrow> Asset" where
  "restore v asset = asset\<lparr> ast_MetadataURI := mv_MetadataURI v, ast_MetadataHash := mv_MetadataHash v, ast_Metadata := mv_Metadata v \<rparr>"

definition save_asset :: "meta_drv \<Rightarrow> Asset \<Rightarrow> meta_db \<Rightarrow> dberr + meta_db" where
  "save_asset drv asset db = and_then (g_save (d_assets drv) asset (t_assets db)) (\<lambda>as. Inr (db\<lparr> t_assets := as \<rparr>))"

text \<open>The error, if there is one, with the asset and the tables: a snapshot that was recorded stays when the save fails.\<close>

definition RevertToVersion :: "meta_drv \<Rightarrow> Asset \<Rightarrow> int \<Rightarrow> nat \<Rightarrow> meta_db \<Rightarrow> (dberr + Asset) \<times> meta_db" where
  "RevertToVersion drv asset n revertedBy db =
     (case GetVersion drv (ast_ID asset) n db of
        Inl e \<Rightarrow> (Inl e, db)
      | Inr v \<Rightarrow>
          (case RecordVersion drv asset revertedBy ''pre-revert snapshot'' db of
             Inl e \<Rightarrow> (Inl e, db)
           | Inr db1 \<Rightarrow>
               (case save_asset drv (restore v asset) db1 of Inl e \<Rightarrow> (Inl e, db1) | Inr db2 \<Rightarrow> (Inr (restore v asset), db2))))"

subsection \<open>The metadata endpoints\<close>

record UpdateMetadataRequest =
  um_AssetID :: nat
  um_MetadataURI :: string
  um_MetadataHash :: string

text \<open>The handlers read the asset and then write all of it back. A failed snapshot is only logged.\<close>

definition update_found :: "meta_drv \<Rightarrow> nat \<Rightarrow> UpdateMetadataRequest \<Rightarrow> Asset \<Rightarrow> meta_db \<Rightarrow> (string \<times> string) response \<times> meta_db" where
  "update_found drv changedBy req asset db =
     (let db1 = (case RecordVersion drv asset changedBy '''' db of Inl _ \<Rightarrow> db | Inr db' \<Rightarrow> db');
          asset' = asset\<lparr> ast_MetadataURI := um_MetadataURI req, ast_MetadataHash := um_MetadataHash req \<rparr>
      in case save_asset drv asset' db1 of
           Inl _ \<Rightarrow> (Fail StatusInternalServerError ''Failed to update metadata'', db1)
         | Inr db2 \<Rightarrow> (Reply StatusOK (ast_MetadataURI asset', ast_MetadataHash asset'), db2))"

definition UpdateMetadata :: "meta_drv \<Rightarrow> nat option \<Rightarrow> string + UpdateMetadataRequest \<Rightarrow> meta_db \<Rightarrow> (string \<times> string) response \<times> meta_db" where
  "UpdateMetadata drv who body db =
     (case body of
        Inl _ \<Rightarrow> (Fail StatusBadRequest ''Invalid request data'', db)
      | Inr req \<Rightarrow>
          (case g_first (d_assets drv) (asset_by_id (um_AssetID req)) (t_assets db) of
             Inl _ \<Rightarrow> (Fail StatusNotFound ''Asset not found'', db)
           | Inr asset \<Rightarrow>
               if ast_IsImmutable asset then (Fail StatusForbidden ''Metadata is immutable after minting'', db)
               else update_found drv (case who of None \<Rightarrow> 0 | Some u \<Rightarrow> u) req asset db))"

definition MakeMetadataImmutable :: "meta_drv \<Rightarrow> string + nat \<Rightarrow> meta_db \<Rightarrow> unit response \<times> meta_db" where
  "MakeMetadataImmutable drv body db =
     (case body of
        Inl _ \<Rightarrow> (Fail StatusBadRequest ''Invalid request data'', db)
      | Inr a \<Rightarrow>
          (case g_first (d_assets drv) (asset_by_id a) (t_assets db) of
             Inl _ \<Rightarrow> (Fail StatusNotFound ''Asset not found'', db)
           | Inr asset \<Rightarrow>
               if ast_MetadataURI asset = '''' then (Fail StatusBadRequest ''Set metadata URI before making immutable'', db)
               else (case save_asset drv (asset\<lparr> ast_IsImmutable := True \<rparr>) db of
                       Inl _ \<Rightarrow> (Fail StatusInternalServerError ''Failed to make metadata immutable'', db)
                     | Inr db' \<Rightarrow> (Reply StatusOK (), db'))))"

definition ListMetadataVersions :: "meta_drv \<Rightarrow> string + nat \<Rightarrow> meta_db \<Rightarrow> MetadataVersion list response" where
  "ListMetadataVersions drv uri db =
     (case uri of
        Inl _ \<Rightarrow> Fail StatusBadRequest ''Invalid asset ID''
      | Inr a \<Rightarrow>
          (case g_first (d_assets drv) (asset_by_id a) (t_assets db) of
             Inl _ \<Rightarrow> Fail StatusNotFound ''Asset not found''
           | Inr _ \<Rightarrow> (case ListVersions drv a db of Inl _ \<Rightarrow> Fail StatusInternalServerError ''Failed to fetch metadata versions'' | Inr vs \<Rightarrow> Reply StatusOK vs)))"

definition version_param :: "string \<Rightarrow> int option" where
  "version_param s = (case Atoi s of (n, None) \<Rightarrow> if n < 1 then None else Some n | (_, Some _) \<Rightarrow> None)"

definition GetMetadataVersion :: "meta_drv \<Rightarrow> string + nat \<Rightarrow> string \<Rightarrow> meta_db \<Rightarrow> MetadataVersion response" where
  "GetMetadataVersion drv uri version db =
     (case uri of
        Inl _ \<Rightarrow> Fail StatusBadRequest ''Invalid asset ID''
      | Inr a \<Rightarrow>
          (case version_param version of
             None \<Rightarrow> Fail StatusBadRequest ''Invalid version number''
           | Some n \<Rightarrow> (case GetVersion drv a n db of Inl _ \<Rightarrow> Fail StatusNotFound ''Metadata version not found'' | Inr v \<Rightarrow> Reply StatusOK v)))"

definition RevertMetadataVersion :: "meta_drv \<Rightarrow> nat option \<Rightarrow> string + nat \<Rightarrow> string \<Rightarrow> meta_db \<Rightarrow> (nat \<times> string \<times> string) response \<times> meta_db" where
  "RevertMetadataVersion drv who uri version db =
     (case uri of
        Inl _ \<Rightarrow> (Fail StatusBadRequest ''Invalid asset ID'', db)
      | Inr a \<Rightarrow>
          (case version_param version of
             None \<Rightarrow> (Fail StatusBadRequest ''Invalid version number'', db)
           | Some n \<Rightarrow>
               (case g_first (d_assets drv) (asset_by_id a) (t_assets db) of
                  Inl _ \<Rightarrow> (Fail StatusNotFound ''Asset not found'', db)
                | Inr asset \<Rightarrow>
                    if ast_IsImmutable asset then (Fail StatusForbidden ''Metadata is immutable and cannot be reverted'', db)
                    else (case RevertToVersion drv asset n (case who of None \<Rightarrow> 0 | Some u \<Rightarrow> u) db of
                            (Inl _, db') \<Rightarrow> (Fail StatusInternalServerError ''Failed to revert metadata'', db')
                          | (Inr asset', db') \<Rightarrow> (Reply StatusOK (ast_ID asset', ast_MetadataURI asset', ast_MetadataHash asset'), db')))))"

subsection \<open>Bulk import\<close>

abbreviation maxImportRows :: nat where "maxImportRows \<equiv> 1000"

definition row_error :: "nat \<Rightarrow> string \<Rightarrow> string \<Rightarrow> BulkAssetRowError" where
  "row_error n f m = \<lparr> be_Row = n, be_Field = f, be_Message = m \<rparr>"

definition validateBulkRow :: "BulkAssetRow \<Rightarrow> nat \<Rightarrow> BulkAssetRowError list" where
  "validateBulkRow row n =
     (if TrimSpace (ba_Name row) = '''' then [row_error n ''name'' ''name is required''] else []) @
     (if TrimSpace (ba_Symbol row) = '''' then [row_error n ''symbol'' ''symbol is required''] else []) @
     (if ba_TotalSupply row \<le> 0 then [row_error n ''total_supply'' ''total_supply must be > 0''] else []) @
     (if TrimSpace (ba_OwnerAddress row) = '''' then [row_error n ''owner_address'' ''owner_address is required''] else [])"

text \<open>The column of a name: the last one, if several have it.\<close>

definition column :: "string list \<Rightarrow> string \<Rightarrow> nat option" where
  "column header col = (case filter (\<lambda>i. ToLower (TrimSpace (header ! i)) = col) (rev [0..<length header]) of [] \<Rightarrow> None | i # _ \<Rightarrow> Some i)"

definition cell :: "string list \<Rightarrow> string list \<Rightarrow> string \<Rightarrow> string" where
  "cell header record col = (case column header col of None \<Rightarrow> '''' | Some i \<Rightarrow> if i < length record then TrimSpace (record ! i) else '''')"

text \<open>\<open>ParseUint\<close> returns the greatest value together with a range error; here the errors are dropped.\<close>

definition uint_value :: "string \<Rightarrow> nat" where
  "uint_value s = (case ParseUint s of Inr n \<Rightarrow> n | Inl ErrSyntax \<Rightarrow> 0 | Inl ErrRange \<Rightarrow> 2 ^ 64 - 1)"

definition parseCSVRow :: "string list \<Rightarrow> string list \<Rightarrow> nat \<Rightarrow> BulkAssetRow \<times> BulkAssetRowError list" where
  "parseCSVRow record header n =
     (let get = cell header record;
          row = \<lparr> ba_Name = get ''name'', ba_Symbol = get ''symbol'', ba_Description = get ''description'', ba_AssetType = get ''asset_type'',
                  ba_TotalSupply = fst (Atoi (get ''total_supply'')), ba_Fractions = uint_value (get ''fractions''),
                  ba_OwnerAddress = get ''owner_address'', ba_Metadata = None \<rparr>
      in (row, validateBulkRow row n))"

text \<open>The reader returns a record or an error each time it is asked, until the end of the file.\<close>

fun csv_rows :: "string list \<Rightarrow> nat \<Rightarrow> (string + string list) list \<Rightarrow> BulkAssetRow list \<times> BulkAssetRowError list" where
  "csv_rows header n [] = ([], [])"
| "csv_rows header n (Inl e # rest) = (let (rows, errs) = csv_rows header (Suc n) rest in (rows, row_error n ''file'' e # errs))"
| "csv_rows header n (Inr record # rest) =
     (if n > maxImportRows then ([], [row_error n ''file'' (''exceeded maximum of '' @ show_nat maxImportRows @ '' rows'')])
      else let (row, rowErrs) = parseCSVRow record header n; (rows, errs) = csv_rows header (Suc n) rest
           in if rowErrs = [] then (row # rows, errs) else (rows, rowErrs @ errs))"

definition ParseCSV :: "(string + string list) list \<Rightarrow> BulkAssetRow list \<times> BulkAssetRowError list" where
  "ParseCSV reads =
     (case reads of
        Inr header # rest \<Rightarrow> csv_rows header 1 rest
      | _ \<Rightarrow> ([], [row_error 0 ''file'' ''cannot read CSV header'']))"

text \<open>Of a JSON document, the result of decoding it into a list of items, and each item into a row.\<close>

fun json_rows :: "nat \<Rightarrow> (string + BulkAssetRow) list \<Rightarrow> BulkAssetRow list \<times> BulkAssetRowError list" where
  "json_rows i [] = ([], [])"
| "json_rows i (Inl e # rest) = (let (rows, errs) = json_rows (Suc i) rest in (rows, row_error (i + 1) ''json'' e # errs))"
| "json_rows i (Inr row # rest) =
     (let (rows, errs) = json_rows (Suc i) rest; rowErrs = validateBulkRow row (i + 1)
      in if rowErrs = [] then (row # rows, errs) else (rows, rowErrs @ errs))"

definition ParseJSON :: "string + (string + BulkAssetRow) list \<Rightarrow> BulkAssetRow list \<times> BulkAssetRowError list" where
  "ParseJSON doc =
     (case doc of
        Inl e \<Rightarrow> ([], [row_error 0 ''file'' (''invalid JSON: '' @ e)])
      | Inr items \<Rightarrow> if length items > maxImportRows then ([], [row_error 0 ''file'' (''exceeded maximum of '' @ show_nat maxImportRows @ '' rows'')])
                     else json_rows 0 items)"

definition row_asset :: "BulkAssetRow \<Rightarrow> Asset" where
  "row_asset row = \<lparr> ast_ID = 0, ast_Name = ba_Name row, ast_Symbol = ToUpper (ba_Symbol row), ast_Description = ba_Description row,
     ast_AssetType = ba_AssetType row, ast_TotalSupply = ba_TotalSupply row, ast_Fractions = ba_Fractions row, ast_ContractID = '''',
     ast_OwnerAddress = ba_OwnerAddress row, ast_Metadata = (case ba_Metadata row of None \<Rightarrow> '''' | Some s \<Rightarrow> s), ast_Verified = False,
     ast_MetadataURI = '''', ast_MetadataHash = '''', ast_IsImmutable = False \<rparr>"

text \<open>The rows one after the other: the ids created, the failures, and the assets.\<close>

fun import_rows :: "meta_drv \<Rightarrow> nat \<Rightarrow> BulkAssetRow list \<Rightarrow> Asset list \<Rightarrow> nat list \<times> string list \<times> Asset list" where
  "import_rows drv i [] as = ([], [], as)"
| "import_rows drv i (row # rows) as =
     (case g_create (d_assets drv) (row_asset row) as of
        Inl e \<Rightarrow> (let (ids, fails, as') = import_rows drv (Suc i) rows as
                  in (ids, (''row '' @ show_nat (i + 1) @ '' ('' @ ba_Symbol row @ ''): '' @ err_msg e) # fails, as'))
      | Inr (a, as1) \<Rightarrow> (let (ids, fails, as') = import_rows drv (Suc i) rows as1 in (ast_ID a # ids, fails, as')))"

fun join_lines :: "string list \<Rightarrow> string" where
  "join_lines [] = ''''"
| "join_lines [x] = x"
| "join_lines (x # xs) = x @ CHR 0x0A # join_lines xs"

definition save_job :: "meta_drv \<Rightarrow> ImportJob \<Rightarrow> meta_db \<Rightarrow> meta_db" where
  "save_job drv job db = (case g_save (d_jobs drv) job (t_jobs db) of Inl _ \<Rightarrow> db | Inr js \<Rightarrow> db\<lparr> t_jobs := js \<rparr>)"

definition job_done :: "ImportJob \<Rightarrow> instant \<Rightarrow> nat list \<Rightarrow> string list \<Rightarrow> ImportJob" where
  "job_done job completedAt ids fails =
     (let job' = job\<lparr> ij_SuccessRows := ij_SuccessRows job + int (length ids), ij_FailedRows := ij_FailedRows job + int (length fails),
            ij_ProcessedRows := ij_ProcessedRows job + int (length ids + length fails), ij_CompletedAt := Some completedAt \<rparr>
      in job'\<lparr> ij_Status := (if ij_FailedRows job' > 0 \<and> ij_SuccessRows job' = 0 then ''failed'' else ''completed''),
               ij_ErrorDetails := (if fails = [] then ij_ErrorDetails job else join_lines fails),
               ij_CreatedAssets := (if ids = [] then ij_CreatedAssets job else ids) \<rparr>)"

definition ProcessRows :: "meta_drv \<Rightarrow> instant \<Rightarrow> instant \<Rightarrow> ImportJob \<Rightarrow> BulkAssetRow list \<Rightarrow> meta_db \<Rightarrow> ImportJob \<times> meta_db" where
  "ProcessRows drv startedAt completedAt job rows db =
     (let job1 = job\<lparr> ij_StartedAt := Some startedAt, ij_Status := ''processing'', ij_TotalRows := int (length rows) \<rparr>;
          db1 = save_job drv job1 db;
          (ids, fails, as) = import_rows drv 0 rows (t_assets db1);
          job2 = job_done job1 completedAt ids fails
      in (job2, save_job drv job2 (db1\<lparr> t_assets := as \<rparr>)))"

definition new_job :: "nat \<Rightarrow> string \<Rightarrow> string \<Rightarrow> ImportJob" where
  "new_job u filename format = \<lparr> ij_ID = 0, ij_UserID = u, ij_Filename = filename, ij_Format = format, ij_Status = ''pending'', ij_TotalRows = 0,
     ij_ProcessedRows = 0, ij_SuccessRows = 0, ij_FailedRows = 0, ij_ErrorDetails = '''', ij_CreatedAssets = [], ij_StartedAt = None, ij_CompletedAt = None \<rparr>"

text \<open>\<open>upload\<close>: a reason to refuse the file, or its name, its format and its parsed rows. The job that it starts is run by a goroutine.\<close>

definition BulkTokenizeAssets :: "meta_drv \<Rightarrow> nat option \<Rightarrow> string + string \<times> string \<times> BulkAssetRow list \<times> BulkAssetRowError list \<Rightarrow> meta_db \<Rightarrow>
    (ImportJob \<times> BulkAssetRow list) response \<times> meta_db" where
  "BulkTokenizeAssets drv who upload db =
     (case who of
        None \<Rightarrow> (Fail StatusUnauthorized ''unauthorized'', db)
      | Some u \<Rightarrow>
          (case upload of
             Inl msg \<Rightarrow> (Fail StatusBadRequest msg, db)
           | Inr (filename, format, rows, errs) \<Rightarrow>
               if errs \<noteq> [] \<and> rows = [] then (Fail 422 ''validation failed'', db)
               else (case g_create (d_jobs drv) (new_job u filename format) (t_jobs db) of
                       Inl _ \<Rightarrow> (Fail StatusInternalServerError ''could not create import job'', db)
                     | Inr (job, js) \<Rightarrow> (Reply 202 (job, rows), db\<lparr> t_jobs := js \<rparr>))))"

definition GetImportJob :: "meta_drv \<Rightarrow> string \<Rightarrow> meta_db \<Rightarrow> ImportJob response" where
  "GetImportJob drv job_id db =
     (case ParseUint job_id of
        Inl _ \<Rightarrow> Fail StatusBadRequest ''invalid job_id''
      | Inr i \<Rightarrow> (case g_first (d_jobs drv) (\<lambda>j. ij_ID j = i) (t_jobs db) of Inl _ \<Rightarrow> Fail StatusNotFound ''import job not found'' | Inr job \<Rightarrow> Reply StatusOK job))"


subsection \<open>The endpoints as a service\<close>

definition meta_drv_ok :: "meta_drv \<Rightarrow> bool" where
  "meta_drv_ok drv \<longleftrightarrow> gorm_ok ast_ID (\<lambda>k. ast_ID_update (\<lambda>_. k)) (d_assets drv) \<and> gorm_ok mv_ID (\<lambda>k. mv_ID_update (\<lambda>_. k)) (d_versions drv) \<and>
     gorm_ok ij_ID (\<lambda>k. ij_ID_update (\<lambda>_. k)) (d_jobs drv)"

lemma meta_drvD:
  assumes "meta_drv_ok drv"
  shows "gorm_ok ast_ID (\<lambda>k. ast_ID_update (\<lambda>_. k)) (d_assets drv)" "gorm_ok mv_ID (\<lambda>k. mv_ID_update (\<lambda>_. k)) (d_versions drv)"
    "gorm_ok ij_ID (\<lambda>k. ij_ID_update (\<lambda>_. k)) (d_jobs drv)"
  using assms by (simp_all add: meta_drv_ok_def)

datatype meta_req =
    MUpdate "nat option" "string + UpdateMetadataRequest"
  | MFreeze "string + nat"
  | MRevert "nat option" "string + nat" string
  | MImport "nat option" "string + string \<times> string \<times> BulkAssetRow list \<times> BulkAssetRowError list"
  | MRunJob instant instant ImportJob "BulkAssetRow list"

fun meta_handle :: "meta_drv \<Rightarrow> meta_req \<Rightarrow> meta_db \<Rightarrow> unit response \<times> meta_db" where
  "meta_handle drv (MUpdate who body) db = drop_body (UpdateMetadata drv who body db)"
| "meta_handle drv (MFreeze body) db = drop_body (MakeMetadataImmutable drv body db)"
| "meta_handle drv (MRevert who uri version) db = drop_body (RevertMetadataVersion drv who uri version db)"
| "meta_handle drv (MImport who upload) db = drop_body (BulkTokenizeAssets drv who upload db)"
| "meta_handle drv (MRunJob t1 t2 job rows) db = (Reply StatusOK (), snd (ProcessRows drv t1 t2 job rows db))"

subsection \<open>What a request does to assets and versions\<close>

definition versions_of :: "nat \<Rightarrow> meta_db \<Rightarrow> int list" where
  "versions_of a db = map mv_Version (filter (\<lambda>v. mv_AssetID v = a) (t_versions db))"

definition assets_distinct :: "meta_db \<Rightarrow> bool" where
  "assets_distinct db \<longleftrightarrow> distinct (map ast_ID (t_assets db))"

definition numbered :: "meta_db \<Rightarrow> bool" where
  "numbered db \<longleftrightarrow> (\<forall>a. versions_of a db = map int [1..<Suc (length (versions_of a db))])"

definition meta_inv :: "meta_db \<Rightarrow> bool" where
  "meta_inv db \<longleftrightarrow> assets_distinct db \<and> numbered db"

text \<open>The metadata that a snapshot and an asset carry.\<close>

definition content :: "Asset \<Rightarrow> string \<times> string \<times> string" where
  "content a = (ast_MetadataURI a, ast_MetadataHash a, ast_Metadata a)"

definition version_content :: "MetadataVersion \<Rightarrow> string \<times> string \<times> string" where
  "version_content v = (mv_MetadataURI v, mv_MetadataHash v, mv_Metadata v)"

lemma content_restore [simp]: "content (restore v a) = version_content v" "ast_ID (restore v a) = ast_ID a"
  "ast_IsImmutable (restore v a) = ast_IsImmutable a" "restore v (restore w a) = restore v a"
  by (simp_all add: restore_def content_def version_content_def)

lemma restore_own: "version_content v = content a \<Longrightarrow> restore v a = a"
  by (simp add: restore_def content_def version_content_def)

lemma newest_first_order: "is_order newest_first"
  by (auto simp: is_order_def newest_first_def)

lemma RecordVersion_appends:
  assumes "meta_drv_ok drv" "RecordVersion drv asset u note db = Inr db'"
  obtains v where "db' = db\<lparr> t_versions := t_versions db @ [v] \<rparr>" "mv_AssetID v = ast_ID asset" "version_content v = content asset"
proof -
  obtain n v vs where c: "g_create (d_versions drv) (snapshot asset n u note) (t_versions db) = Inr (v, vs)" and db': "db' = db\<lparr> t_versions := vs \<rparr>"
    using assms(2) by (auto simp: RecordVersion_def Let_def)
  obtain k where "v = (snapshot asset n u note)\<lparr> mv_ID := k \<rparr>" "vs = t_versions db @ [v]" by (rule gorm_createD[OF meta_drvD(2)[OF assms(1)] c])
  then show thesis using that db' by (simp add: snapshot_def version_content_def content_def)
qed

lemma RecordVersion_number:
  assumes "meta_drv_ok drv" "RecordVersion drv asset u note db = Inr db'" "numbered db" "int (length (t_versions db)) < 2 ^ 63 - 1"
  shows "mv_Version (last (t_versions db')) = int (length (versions_of (ast_ID asset) db)) + 1"
proof -
  let ?P = "\<lambda>v. mv_AssetID v = ast_ID asset"
  let ?n = "length (versions_of (ast_ID asset) db)"
  obtain latest v vs where f: "g_find (d_versions drv) \<lparr> q_where = ?P, q_order = newest_first, q_offset = 0, q_limit = Some 1 \<rparr> (t_versions db) = Inr latest"
    and c: "g_create (d_versions drv) (snapshot asset (case latest of [] \<Rightarrow> 1 | v # _ \<Rightarrow> add64 (mv_Version v) 1) u note) (t_versions db) = Inr (v, vs)"
    and db': "db' = db\<lparr> t_versions := vs \<rparr>"
    using assms(2) by (auto simp: RecordVersion_def Let_def)
  obtain all where all: "mset all = mset (filter ?P (t_versions db))" "sorted_wrt newest_first all" "latest = take 1 all"
    using gorm_find[OF meta_drvD(2)[OF assms(1)] _ f] newest_first_order by (auto simp: query_result_def)
  have len: "length all = ?n" using all(1) by (metis versions_of_def length_map size_mset)
  have "mset (map mv_Version all) = mset (versions_of (ast_ID asset) db)" using all(1) by (simp add: versions_of_def)
  then have vers: "set (map mv_Version all) = int ` {1..?n}"
    using assms(3) unfolding numbered_def by (metis atLeastLessThanSuc_atLeastAtMost set_map set_mset_mset set_upt)
  have small: "int ?n < 2 ^ 63 - 1"
    using assms(4) length_filter_le[of ?P "t_versions db"] unfolding versions_of_def length_map by linarith
  have "(case latest of [] \<Rightarrow> 1 | v # _ \<Rightarrow> add64 (mv_Version v) 1) = int ?n + 1"
  proof (cases all)
    case Nil
    then show ?thesis using all(3) len by simp
  next
    case (Cons w ws)
    have "int ?n \<in> mv_Version ` set all" using vers len Cons by auto
    then obtain x where x: "x \<in> set all" "mv_Version x = int ?n" by auto
    then have "mv_Version w \<ge> int ?n" using all(2) Cons by (auto simp: newest_first_def)
    moreover have "mv_Version w \<le> int ?n"
    proof -
      have "mv_Version w \<in> int ` {1..?n}" unfolding vers[symmetric] Cons by simp
      then show ?thesis by auto
    qed
    ultimately have "mv_Version w = int ?n" by simp
    then show ?thesis using Cons all(3) small by (simp add: add64_exact in_i64_def)
  qed
  moreover obtain k where "v = (snapshot asset (case latest of [] \<Rightarrow> 1 | v # _ \<Rightarrow> add64 (mv_Version v) 1) u note)\<lparr> mv_ID := k \<rparr>" "vs = t_versions db @ [v]"
    by (rule gorm_createD[OF meta_drvD(2)[OF assms(1)] c])
  ultimately show ?thesis using db' by (simp add: snapshot_def)
qed

lemma save_assetD:
  assumes "meta_drv_ok drv" "save_asset drv asset' db = Inr db'" "x \<in> set (t_assets db)" "ast_ID x = ast_ID asset'"
  shows "db' = db\<lparr> t_assets := put_row ast_ID asset' (t_assets db) \<rparr>"
  using assms(2) gorm_save[OF meta_drvD(1)[OF assms(1)] _ assms(3,4)] by (auto simp: save_asset_def)

text \<open>A step either leaves the assets, or rewrites one asset that was not immutable, or freezes one, or adds assets; versions are appended.\<close>

definition overwrites :: "meta_db \<Rightarrow> meta_db \<Rightarrow> bool" where
  "overwrites db db' \<longleftrightarrow> (\<exists>x x'. x \<in> set (t_assets db) \<and> ast_ID x' = ast_ID x \<and> (\<not> ast_IsImmutable x \<or> x' = x) \<and> t_assets db' = put_row ast_ID x' (t_assets db))"

definition adds_assets :: "meta_db \<Rightarrow> meta_db \<Rightarrow> bool" where
  "adds_assets db db' \<longleftrightarrow> (\<exists>new. t_assets db' = t_assets db @ new \<and> (assets_distinct db \<longrightarrow> assets_distinct db'))"

lemma adds_assets_refl: "t_assets db' = t_assets db \<Longrightarrow> adds_assets db db'"
  by (simp add: adds_assets_def assets_distinct_def)


definition meta_step :: "meta_db \<Rightarrow> meta_db \<Rightarrow> bool" where
  "meta_step db db' \<longleftrightarrow> (overwrites db db' \<or> adds_assets db db') \<and>
     (\<exists>new. t_versions db' = t_versions db @ new \<and> length new \<le> 1) \<and>
     (numbered db \<and> int (length (t_versions db)) < 2 ^ 63 - 1 \<longrightarrow> numbered db')"

lemma numbered_same: "t_versions db' = t_versions db \<Longrightarrow> numbered db' = numbered db"
  by (simp add: numbered_def versions_of_def)

lemma numbered_snoc:
  assumes "numbered db" "t_versions db' = t_versions db @ [v]" "mv_Version v = int (length (versions_of (mv_AssetID v) db)) + 1"
  shows "numbered db'"
  unfolding numbered_def
proof
  fix a
  have "versions_of a db' = versions_of a db @ (if mv_AssetID v = a then [int (length (versions_of a db)) + 1] else [])"
    using assms(2,3) by (auto simp: versions_of_def)
  moreover have "versions_of a db = map int [1..<Suc (length (versions_of a db))]" using assms(1) unfolding numbered_def by blast
  moreover define m where "m = length (versions_of a db)"
  ultimately have "versions_of a db' = map int [1..<Suc m] @ (if mv_AssetID v = a then [int (Suc m)] else [])" by simp
  then show "versions_of a db' = map int [1..<Suc (length (versions_of a db'))]" by simp
qed

lemma RecordVersion_numbered:
  assumes "meta_drv_ok drv" "RecordVersion drv asset u note db = Inr db'" "numbered db" "int (length (t_versions db)) < 2 ^ 63 - 1"
  shows "numbered db'"
proof -
  obtain v where v: "db' = db\<lparr> t_versions := t_versions db @ [v] \<rparr>" "mv_AssetID v = ast_ID asset" by (rule RecordVersion_appends[OF assms(1,2)])
  have "mv_Version v = int (length (versions_of (ast_ID asset) db)) + 1" using RecordVersion_number[OF assms] v(1) by simp
  then show ?thesis by (intro numbered_snoc[OF assms(3), of db' v]) (simp_all only: v, simp_all)
qed

lemma meta_stepI:
  assumes "meta_drv_ok drv" "db1 = db \<or> RecordVersion drv asset u note db = Inr db1"
    and "t_assets db' = t_assets db \<or> overwrites db db' \<or> adds_assets db db'" "t_versions db' = t_versions db1"
  shows "meta_step db db'"
proof -
  have "\<exists>new. t_versions db1 = t_versions db @ new \<and> length new \<le> 1"
    using assms(2) RecordVersion_appends[OF assms(1)] by fastforce
  moreover have "numbered db \<and> int (length (t_versions db)) < 2 ^ 63 - 1 \<longrightarrow> numbered db1"
    using assms(2) RecordVersion_numbered[OF assms(1)] by blast
  ultimately show ?thesis
    using assms(3,4) adds_assets_refl numbered_same[OF assms(4)] by (simp add: meta_step_def) blast
qed

lemma UpdateMetadata_step:
  assumes drv: "meta_drv_ok drv"
  shows "meta_step db (snd (UpdateMetadata drv who body db))"
proof (cases "snd (UpdateMetadata drv who body db) = db")
  case False
  then obtain req x where x: "body = Inr req" "g_first (d_assets drv) (asset_by_id (um_AssetID req)) (t_assets db) = Inr x" "\<not> ast_IsImmutable x"
    by (auto simp: UpdateMetadata_def split: sum.splits if_splits)
  let ?u = "case who of None \<Rightarrow> 0 | Some u \<Rightarrow> u"
  let ?x = "x\<lparr> ast_MetadataURI := um_MetadataURI req, ast_MetadataHash := um_MetadataHash req \<rparr>"
  define db1 where "db1 = (case RecordVersion drv x ?u '''' db of Inl _ \<Rightarrow> db | Inr db' \<Rightarrow> db')"
  have r: "db1 = db \<or> RecordVersion drv x ?u '''' db = Inr db1" by (simp add: db1_def split: sum.split)
  then have same: "t_assets db1 = t_assets db" by (auto elim: RecordVersion_appends[OF drv])
  have mem: "x \<in> set (t_assets db)" using gorm_firstD[OF meta_drvD(1)[OF drv] x(2)] by simp
  have upd: "snd (UpdateMetadata drv who body db) = (case save_asset drv ?x db1 of Inl _ \<Rightarrow> db1 | Inr d \<Rightarrow> d)"
    using x by (simp add: UpdateMetadata_def update_found_def Let_def db1_def split: sum.split)
  show ?thesis
  proof (cases "save_asset drv ?x db1")
    case (Inl e)
    then show ?thesis using upd same by (intro meta_stepI[OF drv r]) simp_all
  next
    case (Inr d)
    have d: "d = db1\<lparr> t_assets := put_row ast_ID ?x (t_assets db) \<rparr>" using save_assetD[OF drv Inr] mem same by simp
    then have "overwrites db d" unfolding overwrites_def using x(3) mem by (intro exI[of _ x] exI[of _ ?x]) simp
    then show ?thesis using upd Inr d by (intro meta_stepI[OF drv r]) simp_all
  qed
qed (rule meta_stepI[OF drv disjI1[OF refl]], simp_all)

lemma MakeMetadataImmutable_step:
  assumes drv: "meta_drv_ok drv"
  shows "meta_step db (snd (MakeMetadataImmutable drv body db))"
proof (cases "snd (MakeMetadataImmutable drv body db) = db")
  case False
  then obtain a x d where x: "g_first (d_assets drv) (asset_by_id a) (t_assets db) = Inr x"
    "save_asset drv (x\<lparr> ast_IsImmutable := True \<rparr>) db = Inr d" "snd (MakeMetadataImmutable drv body db) = d"
    by (auto simp: MakeMetadataImmutable_def split: sum.splits if_splits)
  have mem: "x \<in> set (t_assets db)" using gorm_firstD[OF meta_drvD(1)[OF drv] x(1)] by simp
  have d: "d = db\<lparr> t_assets := put_row ast_ID (x\<lparr> ast_IsImmutable := True \<rparr>) (t_assets db) \<rparr>" using save_assetD[OF drv x(2)] mem by simp
  have "ast_IsImmutable x \<Longrightarrow> x\<lparr> ast_IsImmutable := True \<rparr> = x" by simp
  then have "overwrites db d" unfolding overwrites_def d using mem by (intro exI[of _ x] exI[of _ "x\<lparr> ast_IsImmutable := True \<rparr>"]) auto
  then show ?thesis using x(3) d by (intro meta_stepI[OF drv disjI1[OF refl]]) simp_all
qed (rule meta_stepI[OF drv disjI1[OF refl]], simp_all)

text \<open>The successful revert.\<close>

lemma RevertToVersion_cases:
  assumes drv: "meta_drv_ok drv" and x: "x \<in> set (t_assets db)" and r: "RevertToVersion drv x n u db = (res, db')"
  obtains e where "res = Inl e" "db' = db"
  | e where "res = Inl e" "RecordVersion drv x u ''pre-revert snapshot'' db = Inr db'"
  | v db1 where "GetVersion drv (ast_ID x) n db = Inr v" "RecordVersion drv x u ''pre-revert snapshot'' db = Inr db1"
      "res = Inr (restore v x)" "db' = db1\<lparr> t_assets := put_row ast_ID (restore v x) (t_assets db) \<rparr>"
proof (cases "GetVersion drv (ast_ID x) n db")
  case (Inl e)
  then show thesis using r that(1) by (auto simp: RevertToVersion_def)
next
  case v: (Inr v)
  show thesis
  proof (cases "RecordVersion drv x u ''pre-revert snapshot'' db")
    case (Inl e)
    then show thesis using r v that(1) by (auto simp: RevertToVersion_def)
  next
    case (Inr db1)
    have same: "t_assets db1 = t_assets db" using RecordVersion_appends[OF drv Inr] by (metis meta_db.select_convs(1) meta_db.surjective meta_db.update_convs(2))
    show thesis
    proof (cases "save_asset drv (restore v x) db1")
      case (Inl e)
      then show thesis using r v Inr that(2) by (auto simp: RevertToVersion_def)
    next
      case s: (Inr d)
      have "d = db1\<lparr> t_assets := put_row ast_ID (restore v x) (t_assets db) \<rparr>" using save_assetD[OF drv s] x same by simp
      then show thesis using r v Inr s that(3) by (auto simp: RevertToVersion_def)
    qed
  qed
qed

lemma RevertMetadataVersion_cases:
  assumes drv: "meta_drv_ok drv" and r: "RevertMetadataVersion drv who uri version db = (res, db')"
  obtains "is_fail res" "db' = db"
  | x where "is_fail res" "RecordVersion drv x (case who of None \<Rightarrow> 0 | Some u \<Rightarrow> u) ''pre-revert snapshot'' db = Inr db'"
  | a n x v db1 where "uri = Inr a" "version_param version = Some n" "x \<in> set (t_assets db)" "ast_ID x = a" "\<not> ast_IsImmutable x"
      "GetVersion drv a n db = Inr v" "RecordVersion drv x (case who of None \<Rightarrow> 0 | Some u \<Rightarrow> u) ''pre-revert snapshot'' db = Inr db1"
      "res = Reply StatusOK (a, mv_MetadataURI v, mv_MetadataHash v)" "db' = db1\<lparr> t_assets := put_row ast_ID (restore v x) (t_assets db) \<rparr>"
proof (cases "is_fail res \<and> db' = db")
  case False
  let ?u = "case who of None \<Rightarrow> 0 | Some u \<Rightarrow> u"
  obtain a n x where u: "uri = Inr a" "version_param version = Some n" "g_first (d_assets drv) (asset_by_id a) (t_assets db) = Inr x"
    "\<not> ast_IsImmutable x"
    using r False by (auto simp: RevertMetadataVersion_def split: sum.splits option.splits if_splits)
  obtain y d where y: "RevertToVersion drv x n ?u db = (y, d)" by fastforce
  have out: "(res, db') = (case y of Inl _ \<Rightarrow> (Fail StatusInternalServerError ''Failed to revert metadata'', d)
       | Inr asset' \<Rightarrow> (Reply StatusOK (ast_ID asset', ast_MetadataURI asset', ast_MetadataHash asset'), d))"
    using r u y by (simp add: RevertMetadataVersion_def split: sum.split)
  have mem: "x \<in> set (t_assets db)" "ast_ID x = a" using gorm_firstD[OF meta_drvD(1)[OF drv] u(3)] by simp_all
  show thesis
  proof (cases rule: RevertToVersion_cases[OF drv mem(1) y])
    case (1 e)
    then show thesis using out that(1) by simp
  next
    case (2 e)
    then show thesis using out that(2)[of x] by simp
  next
    case (3 v db1)
    have "res = Reply StatusOK (a, mv_MetadataURI v, mv_MetadataHash v)" "db' = d" using out 3(3) mem(2) by (simp_all add: restore_def)
    then show thesis using that(3)[OF u(1,2) mem u(4) _ 3(2)] 3(1,4) mem(2) by simp
  qed
qed (use that(1) in blast)

lemma RevertMetadataVersion_step:
  assumes drv: "meta_drv_ok drv"
  shows "meta_step db (snd (RevertMetadataVersion drv who uri version db))"
proof -
  obtain res db' where r: "RevertMetadataVersion drv who uri version db = (res, db')" by fastforce
  have "meta_step db db'"
  proof (cases rule: RevertMetadataVersion_cases[OF drv r])
    case 1
    then show ?thesis by (intro meta_stepI[OF drv disjI1[OF refl]]) simp_all
  next
    case (2 x)
    have "t_assets db' = t_assets db" using RecordVersion_appends[OF drv 2(2)] by (metis meta_db.select_convs(1) meta_db.surjective meta_db.update_convs(2))
    then show ?thesis by (intro meta_stepI[OF drv disjI2[OF 2(2)]]) simp_all
  next
    case (3 a n x v db1)
    have "overwrites db db'" unfolding overwrites_def using 3 by (intro exI[of _ x] exI[of _ "restore v x"]) simp
    then show ?thesis using 3(9) by (intro meta_stepI[OF drv disjI2[OF 3(7)]]) simp_all
  qed
  then show ?thesis by (simp add: r)
qed


text \<open>An import creates one asset for each row whose insert succeeds, in the order of the file.\<close>

lemma row_asset_ID [simp]: "ast_ID (row_asset r) = 0"
  by (simp add: row_asset_def)

lemma import_rows_effect:
  assumes drv: "meta_drv_ok drv"
  shows "import_rows drv i rows as = (ids, fails, as') \<Longrightarrow>
    \<exists>created. as' = as @ created \<and> length created = length ids \<and> length ids + length fails = length rows \<and>
      subseq (map (\<lambda>a. a\<lparr> ast_ID := 0 \<rparr>) created) (map row_asset rows) \<and> (distinct (map ast_ID as) \<longrightarrow> distinct (map ast_ID as'))"
proof (induction rows arbitrary: i as ids fails)
  case (Cons row rows)
  show ?case
  proof (cases "g_create (d_assets drv) (row_asset row) as")
    case (Inl e)
    then obtain fails' where r: "import_rows drv (Suc i) rows as = (ids, fails', as')" "length fails = Suc (length fails')"
      using Cons.prems by (auto simp: Let_def split: prod.splits)
    from Cons.IH[OF r(1)] obtain created where "as' = as @ created" "length created = length ids" "length ids + length fails' = length rows"
      "subseq (map (\<lambda>a. a\<lparr> ast_ID := 0 \<rparr>) created) (map row_asset rows)" "distinct (map ast_ID as) \<longrightarrow> distinct (map ast_ID as')" by blast
    then show ?thesis using r(2) by (intro exI[of _ created]) (simp add: list_emb_Cons)
  next
    case (Inr y)
    obtain a as1 where y: "y = (a, as1)" by fastforce
    obtain k where k: "k \<notin> ast_ID ` set as" "a = (row_asset row)\<lparr> ast_ID := k \<rparr>" "as1 = as @ [a]"
      by (rule gorm_createD[OF meta_drvD(1)[OF drv] Inr[unfolded y]])
    obtain ids' where r: "import_rows drv (Suc i) rows as1 = (ids', fails, as')" "ids = ast_ID a # ids'"
      using Cons.prems Inr y by (auto simp: Let_def split: prod.splits)
    from Cons.IH[OF r(1)] obtain created where c: "as' = as1 @ created" "length created = length ids'" "length ids' + length fails = length rows"
      "subseq (map (\<lambda>a. a\<lparr> ast_ID := 0 \<rparr>) created) (map row_asset rows)" "distinct (map ast_ID as1) \<longrightarrow> distinct (map ast_ID as')" by blast
    have "a\<lparr> ast_ID := 0 \<rparr> = row_asset row" using k(2) by (simp add: row_asset_def)
    then show ?thesis using c k r(2) by (intro exI[of _ "a # created"]) auto
  qed
qed simp

lemma save_job_frame [simp]: "t_assets (save_job drv j db) = t_assets db" "t_versions (save_job drv j db) = t_versions db"
  by (simp_all add: save_job_def split: sum.split)

lemma ProcessRows_effect:
  assumes drv: "meta_drv_ok drv" and p: "ProcessRows drv t1 t2 job rows db = (job', db')"
  obtains created ids fails where "t_assets db' = t_assets db @ created" "length created = length ids" "length ids + length fails = length rows"
    "subseq (map (\<lambda>a. a\<lparr> ast_ID := 0 \<rparr>) created) (map row_asset rows)" "assets_distinct db \<longrightarrow> assets_distinct db'" "t_versions db' = t_versions db"
    "job' = job_done (job\<lparr> ij_StartedAt := Some t1, ij_Status := ''processing'', ij_TotalRows := int (length rows) \<rparr>) t2 ids fails"
proof -
  obtain ids fails as where i: "import_rows drv 0 rows (t_assets db) = (ids, fails, as)" by (metis prod_cases3)
  have d: "t_assets db' = as" "t_versions db' = t_versions db"
    "job' = job_done (job\<lparr> ij_StartedAt := Some t1, ij_Status := ''processing'', ij_TotalRows := int (length rows) \<rparr>) t2 ids fails"
    using p i by (auto simp: ProcessRows_def Let_def)
  from import_rows_effect[OF drv i] show thesis using that d by (fastforce simp: assets_distinct_def)
qed

lemma MImport_frame: "t_assets (snd (BulkTokenizeAssets drv who upload db)) = t_assets db" "t_versions (snd (BulkTokenizeAssets drv who upload db)) = t_versions db"
  by (simp_all add: BulkTokenizeAssets_def split: option.split sum.split prod.split)

lemma meta_handle_step:
  assumes drv: "meta_drv_ok drv"
  shows "meta_step db (snd (meta_handle drv r db))"
proof (cases r)
  case (MImport who upload)
  then show ?thesis by (intro meta_stepI[OF drv disjI1[OF refl]]) (simp_all add: MImport_frame)
next
  case (MRunJob t1 t2 job rows)
  obtain job' db' where p: "ProcessRows drv t1 t2 job rows db = (job', db')" by fastforce
  have "adds_assets db db' \<and> t_versions db' = t_versions db" by (rule ProcessRows_effect[OF drv p]) (auto simp: adds_assets_def)
  then show ?thesis using MRunJob p by (intro meta_stepI[OF drv disjI1[OF refl]]) simp_all
qed (simp_all add: UpdateMetadata_step[OF drv] MakeMetadataImmutable_step[OF drv] RevertMetadataVersion_step[OF drv])

lemma meta_step_distinct: "meta_step db db' \<Longrightarrow> assets_distinct db \<Longrightarrow> assets_distinct db'"
  by (auto simp: meta_step_def overwrites_def adds_assets_def assets_distinct_def)

interpretation registry: service "meta_handle drv" "\<lambda>db. meta_drv_ok drv \<and> assets_distinct db" "\<lambda>_ _. True" for drv
  by unfold_locales (auto intro: meta_step_distinct meta_handle_step)

interpretation history: service "meta_handle drv" "\<lambda>db. meta_drv_ok drv \<and> meta_inv db" "\<lambda>_ db. int (length (t_versions db)) < 2 ^ 63 - 1" for drv
  by unfold_locales (use meta_handle_step meta_step_distinct in \<open>force simp: meta_inv_def meta_step_def\<close>)

text \<open>A frozen asset keeps its row.\<close>

definition frozen_rows :: "meta_db \<Rightarrow> meta_db \<Rightarrow> bool" where
  "frozen_rows db db' \<longleftrightarrow> (assets_distinct db \<longrightarrow> assets_distinct db' \<and> {a \<in> set (t_assets db). ast_IsImmutable a} \<subseteq> set (t_assets db'))"

lemma frozen_rows_trans: "frozen_rows a b \<Longrightarrow> frozen_rows b c \<Longrightarrow> frozen_rows a c"
  unfolding frozen_rows_def by blast

lemma frozen_rows_step:
  assumes "meta_step db db'"
  shows "frozen_rows db db'"
  unfolding frozen_rows_def
proof (intro impI conjI subsetI)
  fix a assume d: "assets_distinct db" and a: "a \<in> {a \<in> set (t_assets db). ast_IsImmutable a}"
  consider "overwrites db db'" | "adds_assets db db'" using assms by (auto simp: meta_step_def)
  then show "a \<in> set (t_assets db')"
  proof cases
    case 1
    then obtain x x' where x: "x \<in> set (t_assets db)" "ast_ID x' = ast_ID x" "\<not> ast_IsImmutable x \<or> x' = x" "t_assets db' = put_row ast_ID x' (t_assets db)"
      unfolding overwrites_def by blast
    show ?thesis
    proof (cases "ast_ID a = ast_ID x")
      case True
      then have "a = x" using distinct_key_unique[of ast_ID "t_assets db"] d a x(1) by (simp add: assets_distinct_def)
      then show ?thesis using a x put_row_mem[of x "t_assets db" ast_ID x'] by auto
    next
      case False
      then show ?thesis using a x put_row_other[of a "t_assets db" ast_ID x'] by simp
    qed
  next
    case 2
    then show ?thesis using a by (auto simp: adds_assets_def)
  qed
qed (use assms meta_step_distinct in blast)


subsection \<open>Properties\<close>

definition mem_meta :: meta_drv where
  "mem_meta = \<lparr> d_assets = unique_gorm ast_Symbol (unique_gorm ast_ContractID (mem_gorm ast_ID (\<lambda>k. ast_ID_update (\<lambda>_. k)))),
     d_versions = mem_gorm mv_ID (\<lambda>k. mv_ID_update (\<lambda>_. k)), d_jobs = mem_gorm ij_ID (\<lambda>k. ij_ID_update (\<lambda>_. k)) \<rparr>"

lemma mem_meta_ok: "meta_drv_ok mem_meta"
  by (simp add: meta_drv_ok_def mem_meta_def mem_gorm_ok unique_gorm_ok)

definition demo_asset :: Asset where
  "demo_asset = \<lparr> ast_ID = 1, ast_Name = ''House'', ast_Symbol = ''HSE'', ast_Description = '''', ast_AssetType = ''real_estate'', ast_TotalSupply = 100,
     ast_Fractions = 0, ast_ContractID = ''C1'', ast_OwnerAddress = ''GA'', ast_Metadata = ''{}'', ast_Verified = True, ast_MetadataURI = ''ipfs://a'',
     ast_MetadataHash = ''h1'', ast_IsImmutable = False \<rparr>"

definition demo_registry :: meta_db where
  "demo_registry = \<lparr> t_assets = [demo_asset], t_versions = [], t_jobs = [] \<rparr>"

definition demo_update :: "string \<Rightarrow> meta_req" where
  "demo_update s = MUpdate (Some 7) (Inr \<lparr> um_AssetID = 1, um_MetadataURI = ''ipfs://'' @ s, um_MetadataHash = s \<rparr>)"

text \<open>C17: immutable metadata never changes. In a table of assets with distinct ids, once the metadata of an asset is immutable, its row
  stays as it is, through any sequence of updates, reverts, imports and further requests, one at a time, whatever database calls fail.\<close>

theorem immutable_metadata_frozen:
  assumes "meta_drv_ok drv" "assets_distinct db" "a \<in> set (t_assets db)" "ast_IsImmutable a"
  shows "filter (asset_by_id (ast_ID a)) (t_assets (registry.run drv rs db)) = [a]"
proof -
  have fit: "registry.all_fit drv rs x" for x by (induction rs arbitrary: x) auto
  have refl: "frozen_rows x x" for x by (auto simp: frozen_rows_def)
  have step: "frozen_rows x (snd (meta_handle drv r x))" for r x by (rule frozen_rows_step[OF meta_handle_step[OF assms(1)]])
  have "frozen_rows db (registry.run drv rs db)"
    by (rule registry.run_rel[of frozen_rows drv, OF refl frozen_rows_trans step]) (use assms fit in auto)
  then have "assets_distinct (registry.run drv rs db)" "a \<in> set (t_assets (registry.run drv rs db))"
    using assms by (auto simp: frozen_rows_def)
  then show ?thesis using filter_key_singleton[of ast_ID _ a "ast_ID a"] by (simp add: assets_distinct_def)
qed

theorem immutable_metadata_frozen_witness:
  "let db = registry.run mem_meta [demo_update ''b'', MFreeze (Inr 1)] demo_registry
   in map (\<lambda>a. (ast_MetadataHash a, ast_IsImmutable a)) (t_assets db) = [(''b'', True)] \<and>
      t_assets (registry.run mem_meta [demo_update ''c'', MRevert (Some 7) (Inr 1) ''1''] db) = t_assets db"
proof -
  let ?db = "registry.run mem_meta [demo_update ''b'', MFreeze (Inr 1)] demo_registry"
  have m: "map (\<lambda>a. (ast_ID a, ast_MetadataHash a, ast_IsImmutable a)) (t_assets ?db) = [(1, ''b'', True)]"
    unfolding registry.run.simps by code_simp
  obtain a where a: "t_assets ?db = [a]" "ast_ID a = 1" "ast_MetadataHash a = ''b''" "ast_IsImmutable a" using map_eq_singletonD[OF m] by auto
  define later where "later = registry.run mem_meta [demo_update ''c'', MRevert (Some 7) (Inr 1) ''1''] ?db"
  have "length (t_assets later) = 1" unfolding later_def registry.run.simps by code_simp
  moreover have "filter (asset_by_id (ast_ID a)) (t_assets later) = [a]" unfolding later_def
    by (rule immutable_metadata_frozen[OF mem_meta_ok]) (use a in \<open>simp_all only: assets_distinct_def, simp_all\<close>)
  ultimately have "t_assets later = [a]" by (auto simp: length_Suc_conv split: if_splits)
  then show ?thesis using a unfolding Let_def later_def[symmetric] by (simp only:) simp
qed

lemma fresh_number:
  assumes "numbered db" "v \<in> set (t_versions db)"
  shows "mv_Version v \<noteq> int (length (versions_of (mv_AssetID v) db)) + 1"
proof -
  have "mv_Version v \<in> set (versions_of (mv_AssetID v) db)" using assms(2) by (force simp: versions_of_def)
  moreover have "set (versions_of (mv_AssetID v) db) = int ` {1..length (versions_of (mv_AssetID v) db)}"
    using assms(1) unfolding numbered_def by (metis atLeastLessThanSuc_atLeastAtMost set_map set_upt)
  ultimately show ?thesis by auto
qed

lemma put_row_back:
  assumes "distinct (map key ys)" "x \<in> set ys" "key y = key x"
  shows "put_row key x (put_row key y ys) = ys"
  unfolding put_row_def map_map using distinct_key_unique[OF assms(1) _ assms(2)] assms(3) by (intro map_idI) auto

text \<open>C18: a revert restores a version, and can itself be reverted. In any state with distinct assets in which the versions of an asset are
  numbered from 1 without gaps and the next number fits into \<open>int64\<close>, a revert that answers 200 gives the asset the content of that version
  and appends one version, numbered next, with
  the content it had; reverting to that one afterwards leaves all assets exactly as they were before the first revert.\<close>

theorem revert_can_be_reverted:
  assumes "meta_drv_ok drv" "meta_drv_ok drv'" "meta_inv db" "int (length (t_versions db)) < 2 ^ 63 - 1"
    and "RevertMetadataVersion drv who (Inr a) version db = (Reply s rep, db1)"
    and "RevertMetadataVersion drv' who' (Inr a) (show_nat (Suc (length (versions_of a db)))) db1 = (Reply s' rep', db2)"
  shows "(\<exists>n v. version_param version = Some n \<and> v \<in> set (t_versions db) \<and> mv_AssetID v = a \<and> mv_Version v = n \<and>
      map content (filter (asset_by_id a) (t_assets db1)) = [version_content v]) \<and>
    versions_of a db1 = versions_of a db @ [int (length (versions_of a db)) + 1] \<and> numbered db1 \<and>
    t_assets db2 = t_assets db"
proof -
  obtain n x v d where r: "version_param version = Some n" "x \<in> set (t_assets db)" "ast_ID x = a"
    "GetVersion drv a n db = Inr v" "RecordVersion drv x (case who of None \<Rightarrow> 0 | Some u \<Rightarrow> u) ''pre-revert snapshot'' db = Inr d"
    "db1 = d\<lparr> t_assets := put_row ast_ID (restore v x) (t_assets db) \<rparr>"
    by (cases rule: RevertMetadataVersion_cases[OF assms(1,5)]) auto
  obtain w where w: "d = db\<lparr> t_versions := t_versions db @ [w] \<rparr>" "mv_AssetID w = a" "version_content w = content x"
    using RecordVersion_appends[OF assms(1) r(5)] r(3) by metis
  have num: "numbered db" and dist: "distinct (map ast_ID (t_assets db))" using assms(3) by (simp_all add: meta_inv_def assets_distinct_def)
  have wn: "mv_Version w = int (length (versions_of a db)) + 1" using RecordVersion_number[OF assms(1) r(5) num assms(4)] w(1) r(3) by simp
  have vers: "t_versions db1 = t_versions db @ [w]" and as1: "t_assets db1 = put_row ast_ID (restore v x) (t_assets db)" using r(6) w(1) by simp_all
  have num1: "numbered db1" by (rule numbered_snoc[OF num vers]) (simp add: w(2) wn)
  obtain n' x' v' d' where r': "version_param (show_nat (Suc (length (versions_of a db)))) = Some n'" "x' \<in> set (t_assets db1)" "ast_ID x' = a"
    "GetVersion drv' a n' db1 = Inr v'" "db2 = d'\<lparr> t_assets := put_row ast_ID (restore v' x') (t_assets db1) \<rparr>"
    by (cases rule: RevertMetadataVersion_cases[OF assms(2,6)]) auto
  have "length (versions_of a db) \<le> length (t_versions db)" by (simp add: versions_of_def)
  then have "in_i64 (int (Suc (length (versions_of a db))))" using assms(4) by (simp add: in_i64_def)
  then have n': "n' = int (length (versions_of a db)) + 1"
    using r'(1) Atoi_show_int[of "int (Suc (length (versions_of a db)))"] by (simp add: version_param_def show_int_def del: of_nat_Suc)
  have v': "v' \<in> set (t_versions db1)" "mv_AssetID v' = a" "mv_Version v' = n'"
    using gorm_firstD[OF meta_drvD(2)[OF assms(2)] r'(4)[unfolded GetVersion_def]] by simp_all
  have "v' \<notin> set (t_versions db)" using fresh_number[OF num, of v'] v'(2,3) n' by auto
  then have "v' = w" using v'(1) vers by simp
  then have cont: "version_content v' = content x" using w(3) by simp
  have x': "x' = restore v x" using r'(2,3) as1 r(3) in_set_put_row[of x' ast_ID "restore v x" "t_assets db"] by auto
  have "restore v' x' = x" unfolding x' by (simp add: restore_own cont)
  then have "t_assets db2 = put_row ast_ID x (put_row ast_ID (restore v x) (t_assets db))" using r'(5) as1 by simp
  then have same: "t_assets db2 = t_assets db" using put_row_back[OF dist r(2), of "restore v x"] by simp
  have "restore v x \<in> set (t_assets db1)" using as1 r(2) put_row_mem[of x _ ast_ID "restore v x"] by simp
  moreover have "distinct (map ast_ID (t_assets db1))" using as1 dist by simp
  ultimately have "filter (asset_by_id a) (t_assets db1) = [restore v x]" using filter_key_singleton[of ast_ID _ "restore v x" a] r(3) by simp
  moreover have "v \<in> set (t_versions db)" "mv_AssetID v = a" "mv_Version v = n"
    using gorm_firstD[OF meta_drvD(2)[OF assms(1)] r(4)[unfolded GetVersion_def]] by simp_all
  ultimately show ?thesis using r(1) same num1 vers w(2) wn by (auto simp: versions_of_def)
qed


theorem revert_can_be_reverted_witness:
  "let db = registry.run mem_meta [demo_update ''b'', demo_update ''c''] demo_registry;
       db1 = snd (RevertMetadataVersion mem_meta (Some 7) (Inr 1) ''1'' db);
       db2 = snd (RevertMetadataVersion mem_meta (Some 7) (Inr 1) ''3'' db1)
   in map ast_MetadataHash (t_assets db) = [''c''] \<and> map ast_MetadataHash (t_assets db1) = [''h1''] \<and> t_assets db2 = t_assets db \<and>
      versions_of 1 db1 = [1, 2, 3]"
proof -
  let ?db = "registry.run mem_meta [demo_update ''b'', demo_update ''c''] demo_registry"
  let ?x = "RevertMetadataVersion mem_meta (Some 7) (Inr 1) ''1'' ?db"
  let ?y = "RevertMetadataVersion mem_meta (Some 7) (Inr 1) ''3'' (snd ?x)"
  have h: "map ast_MetadataHash (t_assets ?db) = [''c'']" "map ast_MetadataHash (t_assets (snd ?x)) = [''h1'']" "length (t_versions ?db) = 2"
    "versions_of 1 ?db = [1, 2]"
    unfolding registry.run.simps by code_simp+
  have "assets_distinct demo_registry" "numbered demo_registry"
    by (simp_all add: assets_distinct_def numbered_def versions_of_def demo_registry_def)
  moreover have "history.all_fit mem_meta [demo_update ''b'', demo_update ''c''] demo_registry"
  proof -
    have "length (t_versions demo_registry) = 0" "length (t_versions (snd (meta_handle mem_meta (demo_update ''b'') demo_registry))) = 1" by code_simp+
    then show ?thesis unfolding history.all_fit.simps by simp
  qed
  ultimately have inv: "meta_inv ?db" using history.run_inv[of mem_meta demo_registry "[demo_update ''b'', demo_update ''c'']"] mem_meta_ok by (simp add: meta_inv_def)
  have "case fst ?x of Reply s rep \<Rightarrow> True | _ \<Rightarrow> False" unfolding registry.run.simps by code_simp
  then obtain s rep where x: "?x = (Reply s rep, snd ?x)" by (cases "fst ?x") (auto simp: prod_eq_iff)
  have "case fst ?y of Reply s rep \<Rightarrow> True | _ \<Rightarrow> False" unfolding registry.run.simps by code_simp
  then obtain s' rep' where y: "?y = (Reply s' rep', snd ?y)" by (cases "fst ?y") (auto simp: prod_eq_iff)
  have "show_nat 3 = ''3''" by code_simp
  then have y': "RevertMetadataVersion mem_meta (Some 7) (Inr 1) (show_nat (Suc (length (versions_of 1 ?db)))) (snd ?x) = (Reply s' rep', snd ?y)"
    using y h(4) by (simp only: list.size) (simp add: eval_nat_numeral)
  have "int (length (t_versions ?db)) < 2 ^ 63 - 1" using h(3) by (simp only:) simp
  from revert_can_be_reverted[OF mem_meta_ok mem_meta_ok inv this x y'] h show ?thesis unfolding Let_def by (simp only:) simp
qed

text \<open>An import accounts for every row. The counters of the finished job add up to the rows of the file; as many assets were added as it
  counts successes, they are the rows whose insert succeeded in the order of the file, nothing else changed, and the job has failed
  exactly when there were rows and none succeeded.\<close>

theorem import_accounts_for_rows:
  assumes "meta_drv_ok drv" "ij_ProcessedRows job = 0" "ij_SuccessRows job = 0" "ij_FailedRows job = 0"
    and "ProcessRows drv t1 t2 job rows db = (job', db')"
  shows "ij_TotalRows job' = int (length rows) \<and> ij_ProcessedRows job' = ij_TotalRows job' \<and>
    ij_SuccessRows job' + ij_FailedRows job' = ij_TotalRows job' \<and> t_versions db' = t_versions db \<and>
    (\<exists>created. t_assets db' = t_assets db @ created \<and> int (length created) = ij_SuccessRows job' \<and>
       subseq (map (\<lambda>a. a\<lparr> ast_ID := 0 \<rparr>) created) (map row_asset rows)) \<and>
    (ij_Status job' = ''failed'' \<longleftrightarrow> rows \<noteq> [] \<and> t_assets db' = t_assets db)"
proof -
  obtain created ids fails where c: "t_assets db' = t_assets db @ created" "length created = length ids" "length ids + length fails = length rows"
    "subseq (map (\<lambda>a. a\<lparr> ast_ID := 0 \<rparr>) created) (map row_asset rows)" "t_versions db' = t_versions db"
    "job' = job_done (job\<lparr> ij_StartedAt := Some t1, ij_Status := ''processing'', ij_TotalRows := int (length rows) \<rparr>) t2 ids fails"
    by (rule ProcessRows_effect[OF assms(1,5)])
  have "ij_Status job' = ''failed'' \<longleftrightarrow> fails \<noteq> [] \<and> ids = []" using assms(2-4) by (simp add: c(6) job_done_def Let_def)
  also have "\<dots> \<longleftrightarrow> rows \<noteq> [] \<and> created = []" using c(2,3) by (cases rows; cases fails; cases ids) auto
  finally show ?thesis using assms(2-4) c by (auto simp: job_done_def Let_def)
qed

definition demo_rows :: "BulkAssetRow list" where
  "demo_rows = fst (ParseCSV [Inr [''Symbol'', '' name '', ''total_supply'', ''owner_address''], Inr [''abc'', ''A'', ''5'', ''GA''], Inr [''x'', '''', ''1'', ''GA''],
     Inl ''bare quote'', Inr [''def'', ''B'', ''7'', ''GB'']])"

theorem import_accounts_for_rows_witness:
  "let x = ProcessRows mem_meta 0 9 (new_job 7 ''f'' ''csv'') demo_rows (demo_registry\<lparr> t_assets := [] \<rparr>)
   in map ast_Symbol (t_assets (snd x)) = [''ABC''] \<and> ij_SuccessRows (fst x) = 1 \<and> ij_FailedRows (fst x) = 1"
proof -
  let ?x = "ProcessRows mem_meta 0 9 (new_job 7 ''f'' ''csv'') demo_rows (demo_registry\<lparr> t_assets := [] \<rparr>)"
  have m: "map ast_Symbol (t_assets (snd ?x)) = [''ABC'']" "length demo_rows = 2" by code_simp+
  obtain created where "t_assets (snd ?x) = created" "int (length created) = ij_SuccessRows (fst ?x)"
    "ij_SuccessRows (fst ?x) + ij_FailedRows (fst ?x) = 2"
    using import_accounts_for_rows[OF mem_meta_ok, of "new_job 7 ''f'' ''csv''" 0 9 demo_rows "demo_registry\<lparr> t_assets := [] \<rparr>" "fst ?x" "snd ?x"] m(2)
    by (auto simp: new_job_def)
  moreover from this m(1) have "length created = 1" by (metis length_map list.size(3,4) One_nat_def add.commute plus_1_eq_Suc)
  ultimately show ?thesis using m(1) by (simp add: Let_def)
qed

subsection \<open>Limits\<close>

text \<open>Every asset of an import has an empty contract id, and the column is unique: the second insert of the demo file fails, as
  would any later one.\<close>

lemma second_import_row_fails:
  "ij_ErrorDetails (fst (ProcessRows mem_meta 0 9 (new_job 7 ''f'' ''csv'') demo_rows (demo_registry\<lparr> t_assets := [] \<rparr>))) =
     ''row 2 (def): unique constraint failed''"
  by code_simp

text \<open>An update that had read the asset before it was frozen writes the whole row back, and thaws it.\<close>

lemma stale_update_thaws:
  "let frozen = snd (MakeMetadataImmutable mem_meta (Inr 1) demo_registry);
       db = snd (update_found mem_meta 7 \<lparr> um_AssetID = 1, um_MetadataURI = ''ipfs://x'', um_MetadataHash = ''x'' \<rparr> demo_asset frozen)
   in map ast_IsImmutable (t_assets frozen) = [True] \<and> map (\<lambda>a. (ast_IsImmutable a, ast_MetadataHash a)) (t_assets db) = [(False, ''x'')]"
  by code_simp

text \<open>An update whose snapshot fails goes through: what it overwrites is in no version.\<close>

lemma unrecorded_update:
  "let drv = mem_meta\<lparr> d_versions := (mem_gorm mv_ID (\<lambda>k. mv_ID_update (\<lambda>_. k)))\<lparr> g_create := (\<lambda>_ _. Inl (DBError ''down'')) \<rparr> \<rparr>;
       x = UpdateMetadata drv (Some 7) (Inr \<lparr> um_AssetID = 1, um_MetadataURI = ''ipfs://x'', um_MetadataHash = ''x'' \<rparr>) demo_registry
   in \<not> is_fail (fst x) \<and> map ast_MetadataHash (t_assets (snd x)) = [''x''] \<and> t_versions (snd x) = []"
  by code_simp

end
