(* ===== verification/EventIndexer.thy ===== *)
theory EventIndexer
  imports Gorm Json "HOL-Library.AList"
begin

section \<open>The event indexer (services/event\_indexer.go)\<close>

text \<open>
  A poller asks a Soroban RPC node for the events since its checkpoint, of the contracts that have a handler if any has one, stores the
  new ones and hands them to workers, which call the handler registered for the contract and topic of the event, with retries. The node and
  the handlers are not in the repository: the node of a tick is a function from requests to answers, a handler the results
  of its attempts. A registration, a tick of the poller and the processing of one event are steps of their own; an event that
  waits for room in the channel counts as queued. Times of retries and log lines are left out; \<open>sv_LedgerClosedAt\<close> is what
  \<open>time.Parse\<close> makes of the text.
\<close>

subsection \<open>Data\<close>

abbreviation EventStatusPending :: string where "EventStatusPending \<equiv> ''pending''"
abbreviation EventStatusProcessed :: string where "EventStatusProcessed \<equiv> ''processed''"
abbreviation EventStatusFailed :: string where "EventStatusFailed \<equiv> ''failed''"

record SorobanEvent =
  sv_Ledger :: nat
  sv_LedgerClosedAt :: "instant option"
  sv_ID :: string
  sv_ContractID :: string
  sv_Topic :: "string list"
  sv_ValueXDR :: string
  sv_TxHash :: string

record IndexedEvent =
  ie_ID :: nat
  ie_ContractID :: string
  ie_Ledger :: nat
  ie_LedgerClosedAt :: instant
  ie_TxHash :: string
  ie_EventID :: string
  ie_Topic :: json
  ie_Value :: string
  ie_Status :: string
  ie_RetryCount :: int
  ie_ErrorDetails :: string

record EventCheckpoint =
  ec_ID :: nat
  ec_Checkpoint :: string
  ec_LastLedger :: nat
  ec_Cursor :: string

record indexer_db =
  t_events :: "IndexedEvent list"
  t_checkpoints :: "EventCheckpoint list"
  ei_queue :: "IndexedEvent list"
  ei_handlers :: "(string \<times> string list) list"

record indexer_drv =
  d_events :: "IndexedEvent gorm"
  d_checkpoints :: "EventCheckpoint gorm"

abbreviation global_checkpoint :: string where "global_checkpoint \<equiv> ''global_stellar_indexer''"

subsection \<open>Handlers\<close>

text \<open>The map of handlers as far as the indexer looks at it: the topics that have one, by contract. Go iterates the map in any order,
  which no result depends on.\<close>

definition RegisterHandler :: "string \<Rightarrow> string \<Rightarrow> indexer_db \<Rightarrow> indexer_db" where
  "RegisterHandler contractID topic db =
     (let topics = (case map_of (ei_handlers db) contractID of None \<Rightarrow> [] | Some ts \<Rightarrow> ts)
      in db\<lparr> ei_handlers := AList.update contractID (List.insert topic topics) (ei_handlers db) \<rparr>)"

definition has_handler :: "indexer_db \<Rightarrow> string \<Rightarrow> string \<Rightarrow> bool" where
  "has_handler db contractID topic = (case map_of (ei_handlers db) contractID of None \<Rightarrow> False | Some ts \<Rightarrow> List.member ts topic)"

subsection \<open>The checkpoint\<close>

definition getCheckpoint :: "indexer_drv \<Rightarrow> indexer_db \<Rightarrow> dberr + EventCheckpoint \<times> indexer_db" where
  "getCheckpoint drv db =
     (case g_first (d_checkpoints drv) (\<lambda>c. ec_Checkpoint c = global_checkpoint) (t_checkpoints db) of
        Inr cp \<Rightarrow> Inr (cp, db)
      | Inl ErrRecordNotFound \<Rightarrow>
          and_then (g_create (d_checkpoints drv) \<lparr> ec_ID = 0, ec_Checkpoint = global_checkpoint, ec_LastLedger = 1, ec_Cursor = '''' \<rparr> (t_checkpoints db))
            (\<lambda>(cp, cs). Inr (cp, db\<lparr> t_checkpoints := cs \<rparr>))
      | Inl e \<Rightarrow> Inl e)"

definition updateCheckpoint :: "indexer_drv \<Rightarrow> nat \<Rightarrow> string \<Rightarrow> indexer_db \<Rightarrow> dberr + indexer_db" where
  "updateCheckpoint drv ledger cursor db =
     and_then (g_update (d_checkpoints drv) (\<lambda>c. ec_Checkpoint c = global_checkpoint) (\<lambda>c. c\<lparr> ec_LastLedger := ledger, ec_Cursor := cursor \<rparr>)
       (t_checkpoints db)) (\<lambda>(_, cs). Inr (db\<lparr> t_checkpoints := cs \<rparr>))"

subsection \<open>The poller\<close>

text \<open>What comes back from the node: no answer, an answer with another status, one that does not decode, an RPC error, an answer without
  a result, or events and the latest ledger.\<close>

datatype rpc_answer =
    NoAnswer string
  | BadStatus int
  | BadBody string
  | RPCError int string
  | NoResult
  | Result "SorobanEvent list" nat

record GetEventsFilter =
  gf_Type :: string
  gf_ContractIds :: "string list"

record GetEventsParams =
  gp_StartLedger :: nat
  gp_Filters :: "GetEventsFilter list"
  gp_Limit :: nat

definition events_request :: "(string \<times> string list) list \<Rightarrow> nat \<Rightarrow> GetEventsParams" where
  "events_request handlers startLedger =
     (let contractIDs = map fst handlers
      in \<lparr> gp_StartLedger = startLedger,
           gp_Filters = (if contractIDs \<noteq> [] then [\<lparr> gf_Type = ''contract'', gf_ContractIds = contractIDs \<rparr>] else []),
           gp_Limit = 100 \<rparr>)"

definition fetchEvents :: "(GetEventsParams \<Rightarrow> rpc_answer) \<Rightarrow> (string \<times> string list) list \<Rightarrow> nat \<Rightarrow> string + SorobanEvent list \<times> nat" where
  "fetchEvents node handlers startLedger =
     (case node (events_request handlers startLedger) of
        NoAnswer e \<Rightarrow> Inl e
      | BadStatus s \<Rightarrow> Inl (''unexpected status code: '' @ show_int s)
      | BadBody e \<Rightarrow> Inl e
      | RPCError code msg \<Rightarrow> Inl (''RPC error ('' @ show_int code @ ''): '' @ msg)
      | NoResult \<Rightarrow> Inr ([], 0)
      | Result events latest \<Rightarrow> Inr (events, latest))"

definition indexed :: "instant \<Rightarrow> SorobanEvent \<Rightarrow> IndexedEvent" where
  "indexed now sev = \<lparr> ie_ID = 0, ie_ContractID = sv_ContractID sev, ie_Ledger = sv_Ledger sev,
     ie_LedgerClosedAt = (case sv_LedgerClosedAt sev of None \<Rightarrow> now | Some t \<Rightarrow> t), ie_TxHash = sv_TxHash sev, ie_EventID = sv_ID sev,
     ie_Topic = JArray (map JString (sv_Topic sev)), ie_Value = sv_ValueXDR sev, ie_Status = EventStatusPending, ie_RetryCount = 0, ie_ErrorDetails = '''' \<rparr>"

text \<open>One event after the other, with the highest ledger stored so far. Any error of the lookup is taken for "no duplicate".\<close>

fun store_events :: "indexer_drv \<Rightarrow> instant \<Rightarrow> SorobanEvent list \<Rightarrow> nat \<Rightarrow> indexer_db \<Rightarrow> nat \<times> indexer_db" where
  "store_events drv now [] lastLedger db = (lastLedger, db)"
| "store_events drv now (sev # sevs) lastLedger db =
     (case g_first (d_events drv) (\<lambda>e. ie_EventID e = sv_ID sev) (t_events db) of
        Inr _ \<Rightarrow> store_events drv now sevs lastLedger db
      | Inl _ \<Rightarrow>
          (case g_create (d_events drv) (indexed now sev) (t_events db) of
             Inl _ \<Rightarrow> store_events drv now sevs lastLedger db
           | Inr (ev, es) \<Rightarrow> store_events drv now sevs (max lastLedger (sv_Ledger sev)) (db\<lparr> t_events := es, ei_queue := ei_queue db @ [ev] \<rparr>)))"

definition poll :: "indexer_drv \<Rightarrow> instant \<Rightarrow> (GetEventsParams \<Rightarrow> rpc_answer) \<Rightarrow> indexer_db \<Rightarrow> indexer_db" where
  "poll drv now node db =
     (case getCheckpoint drv db of
        Inl _ \<Rightarrow> db
      | Inr (cp, db1) \<Rightarrow>
          (case fetchEvents node (ei_handlers db1) (ec_LastLedger cp) of
             Inl _ \<Rightarrow> db1
           | Inr (events, latest) \<Rightarrow>
               (let (lastProcessed, db2) = store_events drv now events (ec_LastLedger cp) db1;
                    target = max lastProcessed latest
                in if target > ec_LastLedger cp
                   then (case updateCheckpoint drv target '''' db2 of Inl _ \<Rightarrow> db2 | Inr db3 \<Rightarrow> db3)
                   else db2)))"

subsection \<open>The workers\<close>

abbreviation indexerMaxRetries :: nat where "indexerMaxRetries \<equiv> 5"

text \<open>What each attempt of the handler returns is a function of its number. The attempts from \<open>i\<close> on while \<open>i \<le> maxRetries\<close>: the error of the last one, and how many were made.\<close>

fun attempts :: "(nat \<Rightarrow> string option) \<Rightarrow> nat \<Rightarrow> nat \<Rightarrow> string option \<times> nat" where
  "attempts f i 0 = (f i, 1)"
| "attempts f i (Suc n) = (case f i of None \<Rightarrow> (None, 1) | Some _ \<Rightarrow> (let (e, k) = attempts f (Suc i) n in (e, Suc k)))"

definition update_event :: "indexer_drv \<Rightarrow> nat \<Rightarrow> (IndexedEvent \<Rightarrow> IndexedEvent) \<Rightarrow> indexer_db \<Rightarrow> indexer_db" where
  "update_event drv i f db = (case g_update (d_events drv) (\<lambda>e. ie_ID e = i) f (t_events db) of Inl _ \<Rightarrow> db | Inr (_, es) \<Rightarrow> db\<lparr> t_events := es \<rparr>)"

definition markProcessed :: "indexer_drv \<Rightarrow> IndexedEvent \<Rightarrow> indexer_db \<Rightarrow> indexer_db" where
  "markProcessed drv ev = update_event drv (ie_ID ev) (ie_Status_update (\<lambda>_. EventStatusProcessed))"

definition markFailed :: "indexer_drv \<Rightarrow> IndexedEvent \<Rightarrow> string \<Rightarrow> indexer_db \<Rightarrow> indexer_db" where
  "markFailed drv ev msg = update_event drv (ie_ID ev)
     (\<lambda>e. e\<lparr> ie_Status := EventStatusFailed, ie_RetryCount := add64 (ie_RetryCount ev) 1, ie_ErrorDetails := msg \<rparr>)"


definition processEvent :: "indexer_drv \<Rightarrow> (nat \<Rightarrow> string option) \<Rightarrow> IndexedEvent \<Rightarrow> indexer_db \<Rightarrow> indexer_db" where
  "processEvent drv handler ev db =
     (case decode_strings (ie_Topic ev) of
        None \<Rightarrow> markFailed drv ev ''failed to parse topic JSON'' db
      | Some [] \<Rightarrow> markProcessed drv ev db
      | Some (primaryTopic # _) \<Rightarrow>
          if \<not> has_handler db (ie_ContractID ev) primaryTopic then markProcessed drv ev db
          else (case fst (attempts handler 0 indexerMaxRetries) of
                  Some e \<Rightarrow> markFailed drv ev e db
                | None \<Rightarrow> markProcessed drv ev db))"

definition index_worker :: "indexer_drv \<Rightarrow> (nat \<Rightarrow> string option) \<Rightarrow> indexer_db \<Rightarrow> indexer_db" where
  "index_worker drv handler db = (case ei_queue db of [] \<Rightarrow> db | ev # rest \<Rightarrow> processEvent drv handler ev (db\<lparr> ei_queue := rest \<rparr>))"

subsection \<open>What the indexer keeps\<close>

definition indexer_drv_ok :: "indexer_drv \<Rightarrow> bool" where
  "indexer_drv_ok drv \<longleftrightarrow> gorm_ok ie_ID (\<lambda>k. ie_ID_update (\<lambda>_. k)) (d_events drv) \<and> gorm_ok ec_ID (\<lambda>k. ec_ID_update (\<lambda>_. k)) (d_checkpoints drv) \<and>
     unique_ok ie_EventID (d_events drv)"

text \<open>An insert of an event whose id is new does not fail, on a table whose ids are unique.\<close>

definition takes_new_events :: "indexer_drv \<Rightarrow> bool" where
  "takes_new_events drv \<longleftrightarrow> (\<forall>e es x. distinct (map ie_EventID es) \<longrightarrow> ie_EventID e \<notin> ie_EventID ` set es \<longrightarrow> g_create (d_events drv) e es \<noteq> Inl x)"

lemma indexer_drvD:
  assumes "indexer_drv_ok drv"
  shows "gorm_ok ie_ID (\<lambda>k. ie_ID_update (\<lambda>_. k)) (d_events drv)" "gorm_ok ec_ID (\<lambda>k. ec_ID_update (\<lambda>_. k)) (d_checkpoints drv)"
    "unique_ok ie_EventID (d_events drv)"
  using assms by (simp_all add: indexer_drv_ok_def)

text \<open>The row of an event of the chain; the status columns may have moved on.\<close>

definition row_of :: "SorobanEvent \<Rightarrow> IndexedEvent \<Rightarrow> bool" where
  "row_of e r \<longleftrightarrow> ie_EventID r = sv_ID e \<and> ie_ContractID r = sv_ContractID e \<and> ie_Ledger r = sv_Ledger e \<and>
     ie_Topic r = JArray (map JString (sv_Topic e)) \<and> ie_Value r = sv_ValueXDR e \<and> ie_TxHash r = sv_TxHash e"

definition rows_ok :: "SorobanEvent list \<Rightarrow> IndexedEvent list \<Rightarrow> bool" where
  "rows_ok chain rows \<longleftrightarrow> distinct (map ie_EventID rows) \<and> (\<forall>r\<in>set rows. \<exists>e\<in>set chain. row_of e r)"

definition stored :: "SorobanEvent \<Rightarrow> IndexedEvent list \<Rightarrow> bool" where
  "stored e rows \<longleftrightarrow> (\<exists>r\<in>set rows. row_of e r)"

abbreviation checkpoints :: "indexer_db \<Rightarrow> EventCheckpoint list" where
  "checkpoints db \<equiv> filter (\<lambda>c. ec_Checkpoint c = global_checkpoint) (t_checkpoints db)"

text \<open>The events of a contract are asked for: it has a handler, or none has.\<close>

definition watched :: "(string \<times> string list) list \<Rightarrow> string \<Rightarrow> bool" where
  "watched handlers contractID \<longleftrightarrow> handlers = [] \<or> List.member (map fst handlers) contractID"

text \<open>Every event of the contract in a ledger before the checkpoint is stored.\<close>

definition caught_up :: "SorobanEvent list \<Rightarrow> string \<Rightarrow> nat \<Rightarrow> IndexedEvent list \<Rightarrow> bool" where
  "caught_up chain contract ledger rows \<longleftrightarrow>
     (\<forall>e\<in>set chain. sv_ContractID e = contract \<and> 1 \<le> sv_Ledger e \<and> sv_Ledger e < ledger \<longrightarrow> stored e rows)"

definition indexer_inv :: "SorobanEvent list \<Rightarrow> string \<Rightarrow> indexer_db \<Rightarrow> bool" where
  "indexer_inv chain contract db \<longleftrightarrow> distinct (map sv_ID chain) \<and> rows_ok chain (t_events db) \<and> length (checkpoints db) \<le> 1 \<and>
     watched (ei_handlers db) contract \<and> (\<forall>c\<in>set (checkpoints db). caught_up chain contract (ec_LastLedger c) (t_events db))"

lemma row_of_indexed: "row_of e (indexed now e)" "row_of e r \<Longrightarrow> row_of e (r\<lparr> ie_ID := k \<rparr>)"
  by (simp_all add: row_of_def indexed_def)

lemma stored_mono: "stored e rows \<Longrightarrow> set rows \<subseteq> set rows' \<Longrightarrow> stored e rows'"
  by (auto simp: stored_def)

text \<open>The loop over the fetched events.\<close>

lemma known_event:
  assumes "rows_ok chain rows" "distinct (map sv_ID chain)" "e \<in> set chain" "sv_ID e \<in> ie_EventID ` set rows"
  shows "stored e rows"
proof -
  obtain r e' where r: "r \<in> set rows" "ie_EventID r = sv_ID e" "e' \<in> set chain" "row_of e' r"
    using assms(1,4) unfolding rows_ok_def by (metis imageE)
  then have "sv_ID e' = sv_ID e" by (simp add: row_of_def)
  then have "e' = e" using assms(2,3) r(3) by (metis distinct_map inj_onD)
  then show ?thesis using r by (auto simp: stored_def)
qed

lemma store_one:
  assumes drv: "indexer_drv_ok drv" and rows: "rows_ok chain (t_events db)" and e: "e \<in> set chain"
    and c: "g_create (d_events drv) (indexed now e) (t_events db) = Inr (ev, es)"
  shows "rows_ok chain es" "stored e es" "set (t_events db) \<subseteq> set es"
proof -
  obtain k where k: "ev = (indexed now e)\<lparr> ie_ID := k \<rparr>" "es = t_events db @ [ev]" by (rule gorm_createD[OF indexer_drvD(1)[OF drv] c])
  have r: "row_of e ev" unfolding k(1) by (rule row_of_indexed(2)) (rule row_of_indexed(1))
  have "distinct (map ie_EventID es)" using unique_create[OF indexer_drvD(3)[OF drv] c] rows by (simp add: rows_ok_def)
  then show "rows_ok chain es" using rows r e k(2) by (auto simp: rows_ok_def)
  show "stored e es" "set (t_events db) \<subseteq> set es" using r k(2) by (auto simp: stored_def)
qed

lemma store_events_effect:
  assumes drv: "indexer_drv_ok drv" "takes_new_events drv" and chain: "distinct (map sv_ID chain)"
  shows "store_events drv now evs l db = (l', db') \<Longrightarrow> set evs \<subseteq> set chain \<Longrightarrow> rows_ok chain (t_events db) \<Longrightarrow>
    rows_ok chain (t_events db') \<and> (\<forall>e\<in>set evs. stored e (t_events db')) \<and> set (t_events db) \<subseteq> set (t_events db') \<and>
    t_checkpoints db' = t_checkpoints db \<and> ei_handlers db' = ei_handlers db \<and> l \<le> l' \<and> (l' = l \<or> (\<exists>e\<in>set evs. l' = sv_Ledger e))"
proof (induction evs arbitrary: l db)
  case (Cons e evs)
  note e = Cons.prems(2)
  show ?case
  proof (cases "\<exists>ev es x. g_first (d_events drv) (\<lambda>r. ie_EventID r = sv_ID e) (t_events db) = Inl x \<and>
      g_create (d_events drv) (indexed now e) (t_events db) = Inr (ev, es)")
    case True
    then obtain ev es x where c: "g_first (d_events drv) (\<lambda>r. ie_EventID r = sv_ID e) (t_events db) = Inl x"
      "g_create (d_events drv) (indexed now e) (t_events db) = Inr (ev, es)" by blast
    note one = store_one[OF drv(1) Cons.prems(3) _ c(2)]
    have "store_events drv now evs (max l (sv_Ledger e)) (db\<lparr> t_events := es, ei_queue := ei_queue db @ [ev] \<rparr>) = (l', db')"
      using Cons.prems(1) c by simp
    from Cons.IH[OF this] have ih: "rows_ok chain (t_events db')" "\<forall>e\<in>set evs. stored e (t_events db')" "set es \<subseteq> set (t_events db')"
      "t_checkpoints db' = t_checkpoints db" "ei_handlers db' = ei_handlers db" "max l (sv_Ledger e) \<le> l'" "l' = max l (sv_Ledger e) \<or> (\<exists>e\<in>set evs. l' = sv_Ledger e)"
      using one(1) e by auto
    have "stored e (t_events db')" using stored_mono[OF one(2) ih(3)] e by simp
    moreover have "l' = l \<or> (\<exists>x\<in>set (e # evs). l' = sv_Ledger x)" using ih(7) by (auto simp: max_def split: if_splits)
    ultimately show ?thesis using ih one(3) e by auto
  next
    case False
    have known: "stored e (t_events db)"
    proof (cases "g_first (d_events drv) (\<lambda>r. ie_EventID r = sv_ID e) (t_events db)")
      case (Inl x)
      then have "sv_ID e \<in> ie_EventID ` set (t_events db)"
        using False drv(2) Cons.prems(3) unfolding takes_new_events_def rows_ok_def
        by (metis indexed_def IndexedEvent.select_convs(6) obj_sumE surj_pair)
      then show ?thesis using known_event[OF Cons.prems(3) chain] e by simp
    next
      case (Inr r)
      then have "sv_ID e \<in> ie_EventID ` set (t_events db)" using gorm_firstD[OF indexer_drvD(1)[OF drv(1)] Inr] by (metis imageI)
      then show ?thesis using known_event[OF Cons.prems(3) chain] e by simp
    qed
    have "store_events drv now evs l db = (l', db')" using Cons.prems(1) False by (auto split: sum.splits)
    from Cons.IH[OF this] have ih: "rows_ok chain (t_events db')" "\<forall>e\<in>set evs. stored e (t_events db')" "set (t_events db) \<subseteq> set (t_events db')"
      "t_checkpoints db' = t_checkpoints db" "ei_handlers db' = ei_handlers db" "l \<le> l'" "l' = l \<or> (\<exists>e\<in>set evs. l' = sv_Ledger e)"
      using Cons.prems(3) e by auto
    then show ?thesis using stored_mono[OF known ih(3)] by auto
  qed
qed simp

subsection \<open>The indexer as a service\<close>

datatype indexer_step =
    IRegister string string
  | ITick instant "GetEventsParams \<Rightarrow> rpc_answer"
  | IWork "nat \<Rightarrow> string option"

fun indexer_handle :: "indexer_drv \<Rightarrow> indexer_step \<Rightarrow> indexer_db \<Rightarrow> unit response \<times> indexer_db" where
  "indexer_handle drv (IRegister contractID topic) db = (Reply StatusOK (), RegisterHandler contractID topic db)"
| "indexer_handle drv (ITick now node) db = (Reply StatusOK (), poll drv now node db)"
| "indexer_handle drv (IWork handler) db = (Reply StatusOK (), index_worker drv handler db)"

text \<open>The ledger a tick asks from, and the answers of a node that knows the chain up to its latest ledger: the events from that ledger on
  that pass a filter (all, if there is none), in order, up to the limit.\<close>

definition start_ledger :: "indexer_db \<Rightarrow> nat" where
  "start_ledger db = (case checkpoints db of [] \<Rightarrow> 1 | c # _ \<Rightarrow> ec_LastLedger c)"

definition passes :: "GetEventsFilter list \<Rightarrow> SorobanEvent \<Rightarrow> bool" where
  "passes filters e \<longleftrightarrow> filters = [] \<or> list_ex (\<lambda>f. List.member (gf_ContractIds f) (sv_ContractID e)) filters"

definition window :: "SorobanEvent list \<Rightarrow> GetEventsParams \<Rightarrow> nat \<Rightarrow> SorobanEvent list" where
  "window chain req latest = filter (\<lambda>e. gp_StartLedger req \<le> sv_Ledger e \<and> sv_Ledger e \<le> latest \<and> passes (gp_Filters req) e) chain"

definition serves :: "SorobanEvent list \<Rightarrow> GetEventsParams \<Rightarrow> rpc_answer \<Rightarrow> bool" where
  "serves chain req answer = (case answer of Result events latest \<Rightarrow> events = take (gp_Limit req) (window chain req latest) | _ \<Rightarrow> True)"

definition fits_window :: "SorobanEvent list \<Rightarrow> GetEventsParams \<Rightarrow> rpc_answer \<Rightarrow> bool" where
  "fits_window chain req answer = (case answer of Result events latest \<Rightarrow> length (window chain req latest) \<le> gp_Limit req | _ \<Rightarrow> True)"

text \<open>A tick whose node answers like that and whose window fits into the answer; a registration that does not end the watch on the
  contract, as the first one does for every contract but its own.\<close>

fun indexer_fits :: "SorobanEvent list \<Rightarrow> string \<Rightarrow> indexer_step \<Rightarrow> indexer_db \<Rightarrow> bool" where
  "indexer_fits chain contract (IRegister contractID topic) db \<longleftrightarrow> ei_handlers db \<noteq> [] \<or> contractID = contract"
| "indexer_fits chain contract (ITick now node) db \<longleftrightarrow>
     (let req = events_request (ei_handlers db) (start_ledger db) in serves chain req (node req) \<and> fits_window chain req (node req))"
| "indexer_fits chain contract (IWork handler) db \<longleftrightarrow> True"

lemma passes_request: "passes (gp_Filters (events_request handlers l)) e \<longleftrightarrow> watched handlers (sv_ContractID e)"
  by (simp add: passes_def events_request_def watched_def)

lemma watched_register:
  assumes "watched (ei_handlers db) contract" "indexer_fits chain contract (IRegister c t) db"
  shows "watched (ei_handlers (RegisterHandler c t db)) contract"
  using assms by (auto simp: watched_def RegisterHandler_def Let_def dom_update)

lemma getCheckpoint_effect:
  assumes drv: "indexer_drv_ok drv" and inv: "indexer_inv chain contract db" and c: "getCheckpoint drv db = Inr (cp, db1)"
  shows "checkpoints db1 = [cp] \<and> ec_LastLedger cp = start_ledger db \<and> t_events db1 = t_events db \<and> ei_queue db1 = ei_queue db \<and> indexer_inv chain contract db1 \<and>
    ei_handlers db1 = ei_handlers db"
proof (cases "g_first (d_checkpoints drv) (\<lambda>c. ec_Checkpoint c = global_checkpoint) (t_checkpoints db)")
  case (Inr r)
  then have r: "r = cp" "db1 = db" using c by (auto simp: getCheckpoint_def)
  have "r \<in> set (checkpoints db)" using gorm_firstD[OF indexer_drvD(2)[OF drv] Inr] by simp
  moreover have "length (checkpoints db) \<le> 1" using inv by (simp add: indexer_inv_def)
  ultimately have "checkpoints db = [r]" by (cases "checkpoints db") auto
  then show ?thesis using r inv by (simp add: start_ledger_def)
next
  case (Inl e)
  then have e: "e = ErrRecordNotFound" using c by (cases e) (auto simp: getCheckpoint_def)
  obtain cs where cr: "g_create (d_checkpoints drv) \<lparr> ec_ID = 0, ec_Checkpoint = global_checkpoint, ec_LastLedger = 1, ec_Cursor = '''' \<rparr> (t_checkpoints db) = Inr (cp, cs)"
    and db1: "db1 = db\<lparr> t_checkpoints := cs \<rparr>" using c Inl e by (auto simp: getCheckpoint_def)
  obtain k where k: "cp = \<lparr> ec_ID = k, ec_Checkpoint = global_checkpoint, ec_LastLedger = 1, ec_Cursor = '''' \<rparr>" "cs = t_checkpoints db @ [cp]"
    by (rule gorm_createD[OF indexer_drvD(2)[OF drv] cr]) simp
  have none: "checkpoints db = []" using gorm_first_none[OF indexer_drvD(2)[OF drv], of _ "t_checkpoints db"] Inl e by (auto simp: filter_empty_conv)
  then have one: "checkpoints db1 = [cp]" using db1 k by simp
  have "ec_LastLedger cp = Suc 0" using k(1) by simp
  then have "caught_up chain contract (ec_LastLedger cp) (t_events db)" by (auto simp: caught_up_def)
  then have "indexer_inv chain contract db1" using inv one db1 by (auto simp: indexer_inv_def)
  then show ?thesis using one none k(1) db1 by (simp add: start_ledger_def)
qed

lemma poll_keeps:
  assumes drv: "indexer_drv_ok drv" "takes_new_events drv" and inv: "indexer_inv chain contract db"
    and fit: "indexer_fits chain contract (ITick now node) db"
  shows "indexer_inv chain contract (poll drv now node db)"
proof (cases "getCheckpoint drv db")
  case (Inl e)
  then show ?thesis using inv by (simp add: poll_def)
next
  case (Inr p)
  obtain cp db1 where p: "p = (cp, db1)" by fastforce
  note g = getCheckpoint_effect[OF drv(1) inv Inr[unfolded p]]
  then have inv1: "indexer_inv chain contract db1" and cps: "checkpoints db1 = [cp]" and start: "ec_LastLedger cp = start_ledger db"
    and hs: "ei_handlers db1 = ei_handlers db" by blast+
  let ?req = "events_request (ei_handlers db) (start_ledger db)"
  have seen: "watched (ei_handlers db) contract" using inv by (simp add: indexer_inv_def)
  show ?thesis
  proof (cases "fetchEvents node (ei_handlers db) (start_ledger db)")
    case (Inl e)
    then show ?thesis using Inr p inv1 start hs by (simp add: poll_def)
  next
    case f: (Inr q)
    obtain evs latest where q: "q = (evs, latest)" by fastforce
    have evs: "set evs \<subseteq> set chain \<and> (\<forall>e\<in>set chain. sv_ContractID e = contract \<and> ec_LastLedger cp \<le> sv_Ledger e \<and>
        sv_Ledger e \<le> latest \<and> sv_Ledger e \<noteq> 0 \<longrightarrow> e \<in> set evs) \<and> (\<forall>e\<in>set evs. sv_Ledger e \<le> latest)"
    proof (cases "node ?req")
      case (Result es l)
      then have es: "es = evs" "l = latest" "evs = window chain ?req latest"
        using f q fit by (simp_all add: fetchEvents_def serves_def fits_window_def Let_def)
      have w: "e \<in> set evs \<longleftrightarrow> e \<in> set chain \<and> ec_LastLedger cp \<le> sv_Ledger e \<and> sv_Ledger e \<le> latest \<and> watched (ei_handlers db) (sv_ContractID e)" for e
        using es(3) start by (auto simp: window_def passes_request) (auto simp: events_request_def Let_def)
      then show ?thesis using seen by auto
    qed (use f q in \<open>auto simp: fetchEvents_def\<close>)
    obtain l' db2 where s: "store_events drv now evs (ec_LastLedger cp) db1 = (l', db2)" by fastforce
    have ok1: "rows_ok chain (t_events db1)" "distinct (map sv_ID chain)" using inv1 by (simp_all add: indexer_inv_def)
    have st: "rows_ok chain (t_events db2)" "\<forall>e\<in>set evs. stored e (t_events db2)" "set (t_events db1) \<subseteq> set (t_events db2)"
      "t_checkpoints db2 = t_checkpoints db1" "ei_handlers db2 = ei_handlers db1" "ec_LastLedger cp \<le> l'" "l' = ec_LastLedger cp \<or> (\<exists>e\<in>set evs. l' = sv_Ledger e)"
      using store_events_effect[OF drv ok1(2) s _ ok1(1)] evs by auto
    have up: "caught_up chain contract (ec_LastLedger cp) (t_events db2)"
      using inv1 cps stored_mono[OF _ st(3)] by (auto simp: indexer_inv_def caught_up_def)
    have inv2: "indexer_inv chain contract db2" using inv1 st(1,4,5) cps up by (simp add: indexer_inv_def)
    let ?t = "max l' latest"
    show ?thesis
    proof (cases "?t > ec_LastLedger cp \<and> (\<exists>db3. updateCheckpoint drv ?t '''' db2 = Inr db3)")
      case True
      then obtain db3 where u: "updateCheckpoint drv ?t '''' db2 = Inr db3" by blast
      have p3: "poll drv now node db = db3" using Inr p f q s u True start hs by (simp add: poll_def)
      obtain k cs where gu: "g_update (d_checkpoints drv) (\<lambda>c. ec_Checkpoint c = global_checkpoint)
          (\<lambda>c. c\<lparr> ec_LastLedger := ?t, ec_Cursor := '''' \<rparr>) (t_checkpoints db2) = Inr (k, cs)" and db3: "db3 = db2\<lparr> t_checkpoints := cs \<rparr>"
        using u by (auto simp: updateCheckpoint_def)
      have "checkpoints db3 = map (\<lambda>c. c\<lparr> ec_LastLedger := ?t, ec_Cursor := '''' \<rparr>) (checkpoints db2)"
      proof -
        have "filter (\<lambda>c. ec_Checkpoint c = global_checkpoint) (map (\<lambda>c. if ec_Checkpoint c = global_checkpoint then c\<lparr> ec_LastLedger := ?t, ec_Cursor := '''' \<rparr> else c) xs) =
          map (\<lambda>c. c\<lparr> ec_LastLedger := ?t, ec_Cursor := '''' \<rparr>) (filter (\<lambda>c. ec_Checkpoint c = global_checkpoint) xs)" for xs by (induction xs) auto
        then show ?thesis using gorm_updateD(2)[OF indexer_drvD(2)[OF drv(1)] gu] db3 by simp
      qed
      then have c3: "checkpoints db3 = [cp\<lparr> ec_LastLedger := ?t, ec_Cursor := '''' \<rparr>]" using st(4) cps by simp
      have "caught_up chain contract ?t (t_events db3)"
        unfolding caught_up_def
      proof (intro ballI impI)
        fix e assume e: "e \<in> set chain" "sv_ContractID e = contract \<and> 1 \<le> sv_Ledger e \<and> sv_Ledger e < ?t"
        show "stored e (t_events db3)"
        proof (cases "sv_Ledger e < ec_LastLedger cp")
          case True
          then show ?thesis using up e db3 by (simp add: caught_up_def)
        next
          case False
          have "sv_Ledger e \<le> latest"
          proof (rule ccontr)
            assume "\<not> sv_Ledger e \<le> latest"
            then have "sv_Ledger e < l'" using e(2) by (simp add: max_def split: if_splits)
            then show False using st(7) evs False \<open>\<not> sv_Ledger e \<le> latest\<close> by fastforce
          qed
          then show ?thesis using evs e False st(2) db3 by simp
        qed
      qed
      then show ?thesis unfolding p3 using inv2 c3 db3 by (simp add: indexer_inv_def)
    next
      case False
      then have "poll drv now node db = db2" using Inr p f q s start hs by (auto simp: poll_def Let_def split: sum.split)
      then show ?thesis using inv2 by simp
    qed
  qed
qed

lemma update_event_handlers [simp]: "ei_handlers (update_event drv i f db) = ei_handlers db"
  by (simp add: update_event_def split: sum.split)

lemma update_event_keeps:
  assumes "indexer_drv_ok drv" "\<And>x e. row_of e x \<Longrightarrow> row_of e (f x)" "\<And>x. ie_EventID (f x) = ie_EventID x" "indexer_inv chain contract db"
  shows "indexer_inv chain contract (update_event drv i f db)"
proof (cases "g_update (d_events drv) (\<lambda>e. ie_ID e = i) f (t_events db)")
  case (Inr y)
  obtain k es where y: "y = (k, es)" by fastforce
  have es: "es = map (\<lambda>x. if ie_ID x = i then f x else x) (t_events db)" using gorm_updateD(2)[OF indexer_drvD(1)[OF assms(1)] Inr[unfolded y]] by simp
  have "map ie_EventID es = map ie_EventID (t_events db)" unfolding es using assms(3) by simp
  moreover have "\<forall>r\<in>set es. \<exists>e\<in>set chain. row_of e r"
  proof
    fix r assume "r \<in> set es"
    then obtain x where x: "x \<in> set (t_events db)" "r = (if ie_ID x = i then f x else x)" unfolding es by auto
    obtain e where "e \<in> set chain" "row_of e x" using x(1) assms(4) unfolding indexer_inv_def rows_ok_def by blast
    then show "\<exists>e\<in>set chain. row_of e r" using x(2) assms(2) by auto
  qed
  moreover have "stored e es" if s: "stored e (t_events db)" for e
  proof -
    obtain x where x: "x \<in> set (t_events db)" "row_of e x" using s unfolding stored_def by blast
    then have "row_of e (if ie_ID x = i then f x else x)" using assms(2) by simp
    moreover have "(if ie_ID x = i then f x else x) \<in> set es" unfolding es set_map by (rule imageI[OF x(1)])
    ultimately show ?thesis unfolding stored_def by blast
  qed
  ultimately show ?thesis using assms(4) Inr y by (auto simp: update_event_def indexer_inv_def rows_ok_def caught_up_def)
qed (use assms(4) in \<open>simp add: update_event_def\<close>)

lemma processEvent_keeps:
  assumes "indexer_drv_ok drv" "indexer_inv chain contract db"
  shows "indexer_inv chain contract (processEvent drv env ev db)"
  using assms unfolding processEvent_def markProcessed_def markFailed_def
  by (auto split: option.split list.split intro!: update_event_keeps simp: row_of_def)

interpretation indexer: service "indexer_handle drv" "\<lambda>db. indexer_drv_ok drv \<and> takes_new_events drv \<and> indexer_inv chain contract db"
  "indexer_fits chain contract" for drv chain contract
proof
  fix db r assume I: "indexer_drv_ok drv \<and> takes_new_events drv \<and> indexer_inv chain contract db" and fit: "indexer_fits chain contract r db"
  show "indexer_drv_ok drv \<and> takes_new_events drv \<and> indexer_inv chain contract (snd (indexer_handle drv r db))"
  proof (cases r)
    case (IRegister c t)
    have "watched (ei_handlers (RegisterHandler c t db)) contract"
      using watched_register[of db contract chain c t] I fit IRegister by (simp add: indexer_inv_def)
    then show ?thesis using I IRegister by (simp add: indexer_inv_def RegisterHandler_def Let_def)
  next
    case (ITick now node)
    then show ?thesis using I fit poll_keeps by simp
  next
    case (IWork handler)
    have "indexer_inv chain contract (db\<lparr> ei_queue := q \<rparr>)" for q using I by (simp add: indexer_inv_def)
    then show ?thesis using I processEvent_keeps IWork by (auto simp: index_worker_def split: list.split)
  qed
qed

text \<open>C11: from empty tables, after any number of registrations, ticks and processed events, whatever the node does not answer, what the
  handlers return and what the database refuses to update or look up: every event of a watched contract in a ledger before the
  checkpoint is in the table exactly once, with the data of the chain. A contract is watched if it has a handler from the start, or as
  long as no contract has one, up to a first registration that is its own; the others are not asked for. The node knows the
  chain, whose event ids are distinct, up to its latest ledger and cuts an answer after 100 events; no window asked for holds more, and an
  insert of a new event does not fail.\<close>

theorem indexer_misses_nothing:
  assumes "indexer_drv_ok drv" "takes_new_events drv" "distinct (map sv_ID chain)" "t_events db = []" "t_checkpoints db = []"
    and "watched (ei_handlers db) (sv_ContractID e)" "indexer.all_fit drv chain (sv_ContractID e) rs db" "db' = indexer.run drv rs db"
    and "e \<in> set chain" "1 \<le> sv_Ledger e" "sv_Ledger e < start_ledger db'"
  shows "\<exists>r. filter (\<lambda>x. ie_EventID x = sv_ID e) (t_events db') = [r] \<and> row_of e r"
proof -
  have "indexer_inv chain (sv_ContractID e) db" using assms(3-6) by (simp add: indexer_inv_def rows_ok_def)
  then have inv: "indexer_inv chain (sv_ContractID e) db'" using indexer.run_inv assms(1,2,7,8) by blast
  obtain c where "c \<in> set (checkpoints db')" "sv_Ledger e < ec_LastLedger c"
    using assms(10,11) by (cases "checkpoints db'") (auto simp: start_ledger_def)
  then obtain r where r: "r \<in> set (t_events db')" "row_of e r"
    using inv assms(9,10) by (auto simp: indexer_inv_def caught_up_def stored_def)
  have d: "distinct (map ie_EventID (t_events db'))" using inv by (simp add: indexer_inv_def rows_ok_def)
  have "filter (\<lambda>x. ie_EventID x = ie_EventID r) (t_events db') = [r]" by (rule filter_key_singleton[OF d r(1) refl])
  then show ?thesis using r(2) by (auto simp: row_of_def)
qed

definition demo_event :: "string \<Rightarrow> string \<Rightarrow> nat \<Rightarrow> SorobanEvent" where
  "demo_event i contract ledger = \<lparr> sv_Ledger = ledger, sv_LedgerClosedAt = Some 4, sv_ID = i, sv_ContractID = contract, sv_Topic = [''transfer''],
     sv_ValueXDR = ''AAA'', sv_TxHash = ''t'' \<rparr>"

definition demo_chain :: "SorobanEvent list" where
  "demo_chain = [demo_event ''a'' ''C'' 3, demo_event ''x'' ''D'' 4, demo_event ''b'' ''C'' 7]"

definition demo_node :: "SorobanEvent list \<Rightarrow> nat \<Rightarrow> GetEventsParams \<Rightarrow> rpc_answer" where
  "demo_node chain latest req = Result (take (gp_Limit req) (window chain req latest)) latest"

definition mem_indexer :: indexer_drv where
  "mem_indexer = \<lparr> d_events = unique_gorm ie_EventID (mem_gorm ie_ID (\<lambda>k. ie_ID_update (\<lambda>_. k))), d_checkpoints = mem_gorm ec_ID (\<lambda>k. ec_ID_update (\<lambda>_. k)) \<rparr>"

definition empty_index :: indexer_db where
  "empty_index = \<lparr> t_events = [], t_checkpoints = [], ei_queue = [], ei_handlers = [] \<rparr>"

definition demo_steps :: "indexer_step list" where
  "demo_steps = [IRegister ''C'' ''transfer'', ITick 0 (demo_node demo_chain 5), IWork (\<lambda>n. if n < 2 then Some ''busy'' else None),
     ITick 0 (\<lambda>_. BadStatus 503), ITick 0 (demo_node demo_chain 9)]"

lemma mem_indexer_ok: "indexer_drv_ok mem_indexer"
  by (simp add: indexer_drv_ok_def mem_indexer_def unique_gorm_ok unique_gorm_unique mem_gorm_ok)

lemma mem_indexer_takes: "takes_new_events mem_indexer"
  by (simp add: takes_new_events_def mem_indexer_def unique_gorm_def mem_gorm_def Let_def)

theorem indexer_misses_nothing_witness:
  "\<exists>r. filter (\<lambda>x. ie_EventID x = ''a'') (t_events (indexer.run mem_indexer demo_steps empty_index)) = [r] \<and> row_of (demo_event ''a'' ''C'' 3) r"
proof -
  let ?e = "demo_event ''a'' ''C'' 3"
  have c: "sv_ContractID ?e = ''C''" "sv_ID ?e = ''a''" by (simp_all add: demo_event_def)
  have fits: "indexer.all_fit mem_indexer demo_chain ''C'' demo_steps empty_index" unfolding demo_steps_def indexer.all_fit.simps by code_simp
  then have fits': "indexer.all_fit mem_indexer demo_chain (sv_ContractID ?e) demo_steps empty_index" by (simp only: c)
  have start: "start_ledger (indexer.run mem_indexer demo_steps empty_index) = 9" unfolding demo_steps_def indexer.run.simps by code_simp
  have "\<exists>r. filter (\<lambda>x. ie_EventID x = sv_ID ?e) (t_events (indexer.run mem_indexer demo_steps empty_index)) = [r] \<and> row_of ?e r"
    by (rule indexer_misses_nothing[OF mem_indexer_ok mem_indexer_takes _ _ _ _ fits' refl])
       (simp_all add: start, simp_all add: demo_chain_def empty_index_def demo_event_def watched_def)
  then show ?thesis by (simp add: c)
qed

subsection \<open>Limits\<close>

text \<open>The first handler ends the watch on all other contracts: their events are not fetched, and the checkpoint passes them.\<close>

lemma unwatched_contract_is_skipped:
  "map ie_EventID (t_events (indexer.run mem_indexer demo_steps empty_index)) = [''a'', ''b'']"
  "map ie_EventID (t_events (indexer.run mem_indexer (tl demo_steps) empty_index)) = [''a'', ''x'', ''b'']"
  unfolding demo_steps_def list.sel indexer.run.simps by code_simp+

text \<open>The checkpoint moves to the latest ledger of the node whatever the answer holds: when more events lie in the window than an answer
  has room for, the table holds those of the answer and the next tick asks from beyond the others.\<close>

lemma checkpoint_passes_cut_events:
  assumes "distinct (map sv_ID evs)" "\<forall>e\<in>set evs. sv_Ledger e \<le> latest" "1 < latest"
  shows "start_ledger (poll mem_indexer now (\<lambda>_. Result evs latest) empty_index) = latest \<and>
    rows_ok evs (t_events (poll mem_indexer now (\<lambda>_. Result evs latest) empty_index))"
proof -
  define cp where "cp = \<lparr> ec_ID = 1, ec_Checkpoint = global_checkpoint, ec_LastLedger = 1, ec_Cursor = '''' \<rparr>"
  have g: "getCheckpoint mem_indexer empty_index = Inr (cp, empty_index\<lparr> t_checkpoints := [cp] \<rparr>)" unfolding cp_def by code_simp
  obtain l db where s: "store_events mem_indexer now evs 1 (empty_index\<lparr> t_checkpoints := [cp] \<rparr>) = (l, db)" by fastforce
  have "rows_ok evs (t_events db) \<and> t_checkpoints db = [cp] \<and> (l = 1 \<or> (\<exists>e\<in>set evs. l = sv_Ledger e))"
    using store_events_effect[OF mem_indexer_ok mem_indexer_takes assms(1) s subset_refl] by (simp add: rows_ok_def empty_index_def)
  moreover from this have "max l latest = latest" using assms(2,3) by (auto simp: max_def)
  ultimately show ?thesis using assms(3) s g
    by (simp add: poll_def fetchEvents_def cp_def updateCheckpoint_def mem_indexer_def mem_gorm_def start_ledger_def)
qed

text \<open>An event whose insert fails is passed over by the checkpoint of the same tick.\<close>

lemma failed_insert_is_lost:
  "let drv = mem_indexer\<lparr> d_events := (d_events mem_indexer)\<lparr> g_create := (\<lambda>_ _. Inl (DBError ''down'')) \<rparr> \<rparr>;
       db = poll drv 0 (demo_node demo_chain 5) empty_index
   in t_events db = [] \<and> start_ledger db = 5"
  by code_simp

text \<open>The handler of an event is called at most six times, and the event fails exactly when each of the six calls did.\<close>

lemma attempts_bounded: "snd (attempts f i n) \<le> Suc n \<and> (fst (attempts f i n) \<noteq> None \<longleftrightarrow> (\<forall>k\<le>n. f (i + k) \<noteq> None))"
proof (induction n arbitrary: i)
  case (Suc n)
  have "(\<forall>k\<le>Suc n. f (i + k) \<noteq> None) \<longleftrightarrow> f i \<noteq> None \<and> (\<forall>k\<le>n. f (Suc i + k) \<noteq> None)"
    by (metis Suc_le_mono add.right_neutral add_Suc_shift not0_implies_Suc zero_le)
  then show ?case using Suc[of "Suc i"] by (auto simp: Let_def split: option.split prod.split)
qed simp

text \<open>A stopped worker leaves its queued events behind: the next run finds them among the rows, skips them as duplicates, and never
  queues them again.\<close>

lemma pending_events_stay:
  "let db = poll mem_indexer 0 (demo_node (take 1 demo_chain) 5) empty_index;
       restarted = poll mem_indexer 0 (demo_node (take 1 demo_chain) 6) (db\<lparr> ei_queue := [] \<rparr>)
   in map ie_Status (t_events restarted) = [EventStatusPending] \<and> ei_queue restarted = []"
  by code_simp

end
