(* ===== verification/WebhookDelivery.thy ===== *)
theory WebhookDelivery
  imports Gorm Decimal
begin

section \<open>Outgoing webhooks (services/webhook\_delivery.go, handlers/outgoing\_webhooks.go)\<close>

text \<open>
  Users subscribe to events; each event is stored as one delivery per subscription, posted in a goroutine of its own, and posted again
  by a retry loop or on request. A goroutine works on its own copy of the delivery and writes the whole row back at its end, so the state
  holds the deliveries in flight with their copies, and finishing one of them is a step. The requests sent are recorded
  with their answers. \<open>sign\<close> stands for HMAC-SHA256 in hexadecimal. The column \<open>retry_history\<close> holds the JSON that this service
  writes and reads: it is modelled by the list of its entries.
\<close>

subsection \<open>Data\<close>

abbreviation WebhookDeliveryPending :: string where "WebhookDeliveryPending \<equiv> ''pending''"
abbreviation WebhookDeliverySuccess :: string where "WebhookDeliverySuccess \<equiv> ''success''"
abbreviation WebhookDeliveryFailed :: string where "WebhookDeliveryFailed \<equiv> ''failed''"
abbreviation WebhookDeliveryRetrying :: string where "WebhookDeliveryRetrying \<equiv> ''retrying''"
abbreviation WebhookDeliveryAbandoned :: string where "WebhookDeliveryAbandoned \<equiv> ''abandoned''"

record WebhookSubscription =
  ws_ID :: nat
  ws_UserID :: nat
  ws_URL :: string
  ws_Secret :: string
  ws_Events :: string
  ws_Description :: string
  ws_Active :: bool
  ws_Deleted :: bool

record retryEntry =
  re_Attempt :: int
  re_Timestamp :: instant
  re_HTTPStatus :: int
  re_Error :: string

record WebhookDeliveryLog =
  dl_ID :: nat
  dl_SubscriptionID :: nat
  dl_EventType :: string
  dl_Payload :: string
  dl_Status :: string
  dl_HTTPStatus :: int
  dl_ResponseBody :: string
  dl_AttemptCount :: int
  dl_MaxRetries :: int
  dl_NextRetryAt :: "instant option"
  dl_DeliveredAt :: "instant option"
  dl_LastError :: string
  dl_RetryHistory :: "retryEntry list"
  dl_DLQReason :: string
  dl_CreatedAt :: instant
  dl_UpdatedAt :: instant

text \<open>What a POST comes to: the request cannot be built, no response, or a status and a body.\<close>

datatype http_answer = BuildFails string | NoResponse string | Answer int string

record webhook_post =
  wp_Delivery :: nat
  wp_Attempt :: int
  wp_Event :: string
  wp_Payload :: string
  wp_URL :: string
  wp_Signature :: string
  wp_Answer :: http_answer

record webhook_db =
  t_subs :: "WebhookSubscription list"
  t_logs :: "WebhookDeliveryLog list"
  wd_inflight :: "(WebhookSubscription \<times> WebhookDeliveryLog) list"
  wd_posts :: "webhook_post list"

record webhook_drv =
  d_subs :: "WebhookSubscription gorm"
  d_logs :: "WebhookDeliveryLog gorm"

abbreviation maxRetries :: int where "maxRetries \<equiv> 5"

definition backoffSchedule :: "duration list" where
  "backoffSchedule = [Minute, 5 * Minute, 15 * Minute, Hour, 6 * Hour]"

subsection \<open>Which subscriptions an event reaches\<close>

text \<open>\<open>strings.Split\<close> at a character and \<open>strings.Join\<close>.\<close>

fun split_at :: "char \<Rightarrow> string \<Rightarrow> string list" where
  "split_at c [] = ['''']"
| "split_at c (x # xs) = (if x = c then '''' # split_at c xs else (case split_at c xs of [] \<Rightarrow> [[x]] | y # ys \<Rightarrow> (x # y) # ys))"

fun join_with :: "string \<Rightarrow> string list \<Rightarrow> string" where
  "join_with sep [] = ''''"
| "join_with sep [x] = x"
| "join_with sep (x # xs) = x @ sep @ join_with sep xs"

definition subscribedTo :: "WebhookSubscription \<Rightarrow> string \<Rightarrow> bool" where
  "subscribedTo sub event \<longleftrightarrow> (\<exists>e\<in>set (split_at CHR '','' (ws_Events sub)). TrimSpace e = event \<or> TrimSpace e = ''*'')"

subsection \<open>One delivery\<close>

definition calculateBackoff :: "int \<Rightarrow> duration" where
  "calculateBackoff attempt =
     (let i = (if attempt - 1 < 0 then 0 else attempt - 1)
      in if i \<ge> int (length backoffSchedule) then backoffSchedule ! (length backoffSchedule - 1) else backoffSchedule ! nat i)"

definition scheduleRetry :: "instant \<Rightarrow> WebhookDeliveryLog \<Rightarrow> retryEntry list \<Rightarrow> int \<Rightarrow> string \<Rightarrow> WebhookDeliveryLog" where
  "scheduleRetry now entry history httpStatus responseBody =
     entry\<lparr> dl_Status := WebhookDeliveryFailed, dl_HTTPStatus := httpStatus, dl_ResponseBody := responseBody,
       dl_NextRetryAt := Some (now + calculateBackoff (dl_AttemptCount entry)), dl_RetryHistory := history, dl_LastError := responseBody \<rparr>"

definition moveToDLQ :: "WebhookDeliveryLog \<Rightarrow> retryEntry list \<Rightarrow> string \<Rightarrow> WebhookDeliveryLog" where
  "moveToDLQ entry history reason =
     entry\<lparr> dl_Status := WebhookDeliveryAbandoned, dl_DLQReason := reason, dl_RetryHistory := history, dl_LastError := reason \<rparr>"

definition abandon_log :: "WebhookDeliveryLog \<Rightarrow> retryEntry list \<Rightarrow> int \<Rightarrow> string \<Rightarrow> WebhookDeliveryLog" where
  "abandon_log entry history httpStatus reason =
     entry\<lparr> dl_Status := WebhookDeliveryAbandoned, dl_HTTPStatus := httpStatus, dl_ResponseBody := reason, dl_DLQReason := reason,
       dl_LastError := reason, dl_RetryHistory := history \<rparr>"

definition en_dash :: string where "en_dash = [CHR 0xE2, CHR 0x80, CHR 0x93]"

definition begin_attempt :: "WebhookDeliveryLog \<Rightarrow> WebhookDeliveryLog" where
  "begin_attempt entry =
     entry\<lparr> dl_MaxRetries := (if dl_MaxRetries entry = 0 then maxRetries else dl_MaxRetries entry),
       dl_AttemptCount := add64 (dl_AttemptCount entry) 1, dl_Status := WebhookDeliveryRetrying \<rparr>"

text \<open>What the answer makes of the copy.\<close>

definition answered :: "instant \<Rightarrow> WebhookDeliveryLog \<Rightarrow> http_answer \<Rightarrow> WebhookDeliveryLog" where
  "answered now entry answer =
     (case answer of
        BuildFails e \<Rightarrow> abandon_log entry (dl_RetryHistory entry) 0 (''build request: '' @ e)
      | NoResponse e \<Rightarrow>
          scheduleRetry now entry
            (dl_RetryHistory entry @ [\<lparr> re_Attempt = dl_AttemptCount entry, re_Timestamp = now, re_HTTPStatus = 0, re_Error = e \<rparr>]) 0 (''http error: '' @ e)
      | Answer status response \<Rightarrow>
          (let body = take 4096 response;
               entry1 = entry\<lparr> dl_HTTPStatus := status, dl_ResponseBody := body, dl_LastError := body \<rparr>;
               record1 = (\<lambda>e. \<lparr> re_Attempt = dl_AttemptCount entry, re_Timestamp = now, re_HTTPStatus = status, re_Error = e \<rparr>);
               history = dl_RetryHistory entry @ [record1 '''']
           in if status \<ge> 200 \<and> status < 300 then
                entry1\<lparr> dl_Status := WebhookDeliverySuccess, dl_DeliveredAt := Some now, dl_RetryHistory := history, dl_LastError := '''' \<rparr>
              else if status \<ge> 400 \<and> status < 500 then
                moveToDLQ entry1 (history @ [record1 (''client error ('' @ show_int status @ '') '' @ en_dash @ '' not retrying'')])
                  (''Client error '' @ show_int status @ '' '' @ en_dash @ '' delivery abandoned'')
              else if dl_AttemptCount entry \<ge> dl_MaxRetries entry then
                moveToDLQ entry1 (history @ [record1 ''max retries exceeded'']) ''Max retry attempts reached''
              else scheduleRetry now entry1 history status body))"

definition save_log :: "webhook_drv \<Rightarrow> instant \<Rightarrow> WebhookDeliveryLog \<Rightarrow> webhook_db \<Rightarrow> webhook_db" where
  "save_log drv now entry db = (case g_save (d_logs drv) (entry\<lparr> dl_UpdatedAt := now \<rparr>) (t_logs db) of Inl _ \<Rightarrow> db | Inr ls \<Rightarrow> db\<lparr> t_logs := ls \<rparr>)"

definition post_of :: "(string \<Rightarrow> string \<Rightarrow> string) \<Rightarrow> WebhookSubscription \<Rightarrow> WebhookDeliveryLog \<Rightarrow> http_answer \<Rightarrow> webhook_post list" where
  "post_of sign sub entry answer =
     (case answer of
        BuildFails _ \<Rightarrow> []
      | _ \<Rightarrow> [\<lparr> wp_Delivery = dl_ID entry, wp_Attempt = dl_AttemptCount entry, wp_Event = dl_EventType entry, wp_Payload = dl_Payload entry,
               wp_URL = ws_URL sub, wp_Signature = ''sha256='' @ sign (dl_Payload entry) (ws_Secret sub), wp_Answer = answer \<rparr>])"

definition deliver :: "webhook_drv \<Rightarrow> (string \<Rightarrow> string \<Rightarrow> string) \<Rightarrow> instant \<Rightarrow> WebhookSubscription \<Rightarrow> WebhookDeliveryLog \<Rightarrow> http_answer \<Rightarrow>
    webhook_db \<Rightarrow> webhook_db" where
  "deliver drv sign now sub entry answer db =
     (let entry1 = begin_attempt entry
      in save_log drv now (answered now entry1 answer) (db\<lparr> wd_posts := wd_posts db @ post_of sign sub entry1 answer \<rparr>))"

text \<open>The goroutine at position \<open>i\<close> comes to its end.\<close>

definition finish_delivery :: "webhook_drv \<Rightarrow> (string \<Rightarrow> string \<Rightarrow> string) \<Rightarrow> nat \<Rightarrow> instant \<Rightarrow> http_answer \<Rightarrow> webhook_db \<Rightarrow> webhook_db" where
  "finish_delivery drv sign i now answer db =
     (if i < length (wd_inflight db)
      then (let (sub, entry) = wd_inflight db ! i
            in deliver drv sign now sub entry answer (db\<lparr> wd_inflight := take i (wd_inflight db) @ drop (Suc i) (wd_inflight db) \<rparr>))
      else db)"

subsection \<open>Dispatch and retries\<close>

definition rows_or_none :: "dberr + 'r list \<Rightarrow> 'r list" where
  "rows_or_none r = (case r of Inl _ \<Rightarrow> [] | Inr rs \<Rightarrow> rs)"

definition new_log :: "instant \<Rightarrow> WebhookSubscription \<Rightarrow> string \<Rightarrow> string \<Rightarrow> WebhookDeliveryLog" where
  "new_log now sub eventType payload =
     \<lparr> dl_ID = 0, dl_SubscriptionID = ws_ID sub, dl_EventType = eventType, dl_Payload = payload, dl_Status = WebhookDeliveryPending,
       dl_HTTPStatus = 0, dl_ResponseBody = '''', dl_AttemptCount = 0, dl_MaxRetries = maxRetries, dl_NextRetryAt = None, dl_DeliveredAt = None,
       dl_LastError = '''', dl_RetryHistory = [], dl_DLQReason = '''', dl_CreatedAt = now, dl_UpdatedAt = now \<rparr>"

fun dispatch_to :: "webhook_drv \<Rightarrow> instant \<Rightarrow> string \<Rightarrow> string \<Rightarrow> WebhookSubscription list \<Rightarrow> webhook_db \<Rightarrow> webhook_db" where
  "dispatch_to drv now eventType raw [] db = db"
| "dispatch_to drv now eventType raw (sub # subs) db =
     (if \<not> subscribedTo sub eventType then dispatch_to drv now eventType raw subs db
      else (case g_create (d_logs drv) (new_log now sub eventType raw) (t_logs db) of
              Inl _ \<Rightarrow> dispatch_to drv now eventType raw subs db
            | Inr (entry, ls) \<Rightarrow>
                dispatch_to drv now eventType raw subs (db\<lparr> t_logs := ls, wd_inflight := wd_inflight db @ [(sub, entry)] \<rparr>)))"

text \<open>The payload is given as its JSON text, if it has one.\<close>

definition Dispatch :: "webhook_drv \<Rightarrow> instant \<Rightarrow> string \<Rightarrow> string option \<Rightarrow> webhook_db \<Rightarrow> webhook_db" where
  "Dispatch drv now eventType payload db =
     (case payload of
        None \<Rightarrow> db
      | Some raw \<Rightarrow> dispatch_to drv now eventType raw
          (rows_or_none (g_find (d_subs drv) (Where (\<lambda>s. ws_Active s \<and> \<not> ws_Deleted s)) (t_subs db))) db)"

definition find_sub :: "webhook_drv \<Rightarrow> nat \<Rightarrow> webhook_db \<Rightarrow> dberr + WebhookSubscription" where
  "find_sub drv i db = g_first (d_subs drv) (\<lambda>s. ws_ID s = i \<and> \<not> ws_Deleted s) (t_subs db)"

fun retry_rows :: "webhook_drv \<Rightarrow> WebhookDeliveryLog list \<Rightarrow> webhook_db \<Rightarrow> webhook_db" where
  "retry_rows drv [] db = db"
| "retry_rows drv (e # es) db =
     (case find_sub drv (dl_SubscriptionID e) db of
        Inl _ \<Rightarrow> retry_rows drv es db
      | Inr sub \<Rightarrow> retry_rows drv es (db\<lparr> wd_inflight := wd_inflight db @ [(sub, e)] \<rparr>))"

definition due :: "instant \<Rightarrow> WebhookDeliveryLog \<Rightarrow> bool" where
  "due now e \<longleftrightarrow> dl_Status e \<in> {WebhookDeliveryPending, WebhookDeliveryRetrying, WebhookDeliveryFailed} \<and>
     (case dl_NextRetryAt e of None \<Rightarrow> True | Some t \<Rightarrow> t \<le> now) \<and> dl_AttemptCount e < dl_MaxRetries e"

definition RetryPending :: "webhook_drv \<Rightarrow> instant \<Rightarrow> webhook_db \<Rightarrow> webhook_db" where
  "RetryPending drv now db = retry_rows drv (rows_or_none (g_find (d_logs drv) (Where (due now)) (t_logs db))) db"

definition RetrySpecific :: "webhook_drv \<Rightarrow> instant \<Rightarrow> nat \<Rightarrow> webhook_db \<Rightarrow> (string + unit) \<times> webhook_db" where
  "RetrySpecific drv now entryID db =
     (case g_first (d_logs drv) (\<lambda>e. dl_ID e = entryID) (t_logs db) of
        Inl e \<Rightarrow> (Inl (''delivery log not found: '' @ err_msg e), db)
      | Inr entry \<Rightarrow>
          if dl_Status entry = WebhookDeliverySuccess then (Inl ''delivery already succeeded'', db)
          else (case find_sub drv (dl_SubscriptionID entry) db of
                  Inl e \<Rightarrow> (Inl (''subscription not found: '' @ err_msg e), db)
                | Inr sub \<Rightarrow>
                    (let entry' = entry\<lparr> dl_AttemptCount := 0, dl_Status := WebhookDeliveryPending, dl_LastError := '''', dl_DLQReason := '''', dl_MaxRetries := maxRetries \<rparr>;
                         db1 = save_log drv now entry' db
                     in (Inr (), db1\<lparr> wd_inflight := wd_inflight db1 @ [(sub, entry')] \<rparr>))))"

fun retry_each :: "webhook_drv \<Rightarrow> instant \<Rightarrow> WebhookDeliveryLog list \<Rightarrow> webhook_db \<Rightarrow> nat \<times> webhook_db" where
  "retry_each drv now [] db = (0, db)"
| "retry_each drv now (e # es) db =
     (let (r, db1) = RetrySpecific drv now (dl_ID e) db; (n, db2) = retry_each drv now es db1
      in (case r of Inl _ \<Rightarrow> n | Inr _ \<Rightarrow> Suc n, db2))"

definition RetryAllFailed :: "webhook_drv \<Rightarrow> instant \<Rightarrow> webhook_db \<Rightarrow> nat \<times> webhook_db" where
  "RetryAllFailed drv now db =
     retry_each drv now (rows_or_none (g_find (d_logs drv) (Where (\<lambda>e. dl_Status e \<in> {WebhookDeliveryFailed, WebhookDeliveryAbandoned})) (t_logs db))) db"

definition ReplayFromDLQ :: "webhook_drv \<Rightarrow> instant \<Rightarrow> webhook_db \<Rightarrow> nat \<times> webhook_db" where
  "ReplayFromDLQ drv now db =
     retry_each drv now (rows_or_none (g_find (d_logs drv) (Where (\<lambda>e. dl_Status e = WebhookDeliveryAbandoned \<and> dl_DLQReason e \<noteq> '''')) (t_logs db))) db"

text \<open>Nothing calls \<open>PurgeOldDLQ\<close>; it is not among the steps below.\<close>

definition PurgeOldDLQ :: "webhook_drv \<Rightarrow> instant \<Rightarrow> webhook_db \<Rightarrow> dberr + nat \<times> webhook_db" where
  "PurgeOldDLQ drv now db =
     and_then (g_delete (d_logs drv) (\<lambda>e. dl_Status e = WebhookDeliveryAbandoned \<and> dl_UpdatedAt e < now - 30 * 24 * Hour) (t_logs db))
       (\<lambda>(n, ls). Inr (n, db\<lparr> t_logs := ls \<rparr>))"

definition row_count :: "dberr + int \<Rightarrow> int" where
  "row_count r = (case r of Inl _ \<Rightarrow> 0 | Inr n \<Rightarrow> n)"

text \<open>The counters of the dashboard: total, successful, failed, pending, abandoned.\<close>

definition GetDeliveryDashboard :: "webhook_drv \<Rightarrow> webhook_db \<Rightarrow> int \<times> int \<times> int \<times> int \<times> int" where
  "GetDeliveryDashboard drv db =
     (let count = (\<lambda>P. row_count (g_count (d_logs drv) P (t_logs db)))
      in (count (\<lambda>_. True), count (\<lambda>e. dl_Status e = WebhookDeliverySuccess), count (\<lambda>e. dl_Status e \<in> {WebhookDeliveryFailed, WebhookDeliveryAbandoned}),
          count (\<lambda>e. dl_Status e = WebhookDeliveryPending), count (\<lambda>e. dl_Status e = WebhookDeliveryAbandoned)))"


subsection \<open>The endpoints\<close>

text \<open>What the binding leaves of a request. An id in a path is \<open>None\<close> when the database, or \<open>ParseUint\<close>, cannot read it as a number.\<close>

record createSubscriptionRequest =
  cs_URL :: string
  cs_Events :: "string list"
  cs_Description :: string

record updateSubscriptionRequest =
  up_URL :: string
  up_Events :: "string list"
  up_Description :: string
  up_Active :: "bool option"

datatype webhook_body =
    SubCreated WebhookSubscription string
  | Subs "WebhookSubscription list"
  | Sub WebhookSubscription
  | Logs "WebhookDeliveryLog list"
  | Log WebhookDeliveryLog
  | Retried nat
  | Counters "int \<times> int \<times> int \<times> int \<times> int"
  | Done

definition CreateSubscription :: "webhook_drv \<Rightarrow> nat \<Rightarrow> string + createSubscriptionRequest \<Rightarrow> string option \<Rightarrow> webhook_db \<Rightarrow> webhook_body response \<times> webhook_db" where
  "CreateSubscription drv userID req random db =
     (case req of
        Inl e \<Rightarrow> (Fail StatusBadRequest e, db)
      | Inr r \<Rightarrow>
          (case random of
             None \<Rightarrow> (Fail StatusInternalServerError ''failed to generate secret'', db)
           | Some secret \<Rightarrow>
               (case g_create (d_subs drv) \<lparr> ws_ID = 0, ws_UserID = userID, ws_URL = cs_URL r, ws_Secret = secret, ws_Events = join_with '','' (cs_Events r),
                        ws_Description = cs_Description r, ws_Active = True, ws_Deleted = False \<rparr> (t_subs db) of
                  Inl _ \<Rightarrow> (Fail StatusInternalServerError ''failed to create subscription'', db)
                | Inr (sub, ss) \<Rightarrow> (Reply StatusCreated (SubCreated sub secret), db\<lparr> t_subs := ss \<rparr>))))"

definition ListSubscriptions :: "webhook_drv \<Rightarrow> nat \<Rightarrow> webhook_db \<Rightarrow> webhook_body response" where
  "ListSubscriptions drv userID db =
     Reply StatusOK (Subs (rows_or_none (g_find (d_subs drv) (Where (\<lambda>s. ws_UserID s = userID \<and> \<not> ws_Deleted s)) (t_subs db))))"

definition own_sub :: "webhook_drv \<Rightarrow> nat \<Rightarrow> nat option \<Rightarrow> webhook_db \<Rightarrow> WebhookSubscription option" where
  "own_sub drv userID param db =
     (case param of
        None \<Rightarrow> None
      | Some i \<Rightarrow> (case g_first (d_subs drv) (\<lambda>s. ws_ID s = i \<and> ws_UserID s = userID \<and> \<not> ws_Deleted s) (t_subs db) of Inl _ \<Rightarrow> None | Inr s \<Rightarrow> Some s))"

definition apply_update :: "updateSubscriptionRequest \<Rightarrow> WebhookSubscription \<Rightarrow> WebhookSubscription" where
  "apply_update r sub =
     sub\<lparr> ws_URL := (if up_URL r \<noteq> '''' then up_URL r else ws_URL sub),
          ws_Events := (if up_Events r \<noteq> [] then join_with '','' (up_Events r) else ws_Events sub),
          ws_Description := (if up_Description r \<noteq> '''' then up_Description r else ws_Description sub),
          ws_Active := (case up_Active r of None \<Rightarrow> ws_Active sub | Some a \<Rightarrow> a) \<rparr>"

definition UpdateSubscription :: "webhook_drv \<Rightarrow> nat \<Rightarrow> nat option \<Rightarrow> string + updateSubscriptionRequest \<Rightarrow> webhook_db \<Rightarrow> webhook_body response \<times> webhook_db" where
  "UpdateSubscription drv userID param req db =
     (case own_sub drv userID param db of
        None \<Rightarrow> (Fail StatusNotFound ''subscription not found'', db)
      | Some sub \<Rightarrow>
          (case req of
             Inl e \<Rightarrow> (Fail StatusBadRequest e, db)
           | Inr r \<Rightarrow>
               (let sub' = apply_update r sub
                in (Reply StatusOK (Sub sub'), case g_save (d_subs drv) sub' (t_subs db) of Inl _ \<Rightarrow> db | Inr ss \<Rightarrow> db\<lparr> t_subs := ss \<rparr>))))"

definition DeleteSubscription :: "webhook_drv \<Rightarrow> nat \<Rightarrow> nat option \<Rightarrow> webhook_db \<Rightarrow> webhook_body response \<times> webhook_db" where
  "DeleteSubscription drv userID param db =
     (case param of
        None \<Rightarrow> (Fail StatusNotFound ''subscription not found'', db)
      | Some i \<Rightarrow>
          (case g_update (d_subs drv) (\<lambda>s. ws_ID s = i \<and> ws_UserID s = userID \<and> \<not> ws_Deleted s) (ws_Deleted_update (\<lambda>_. True)) (t_subs db) of
             Inl _ \<Rightarrow> (Fail StatusNotFound ''subscription not found'', db)
           | Inr (_, ss) \<Rightarrow> (Reply 204 Done, db\<lparr> t_subs := ss \<rparr>)))"

definition GetDeliveryLogs :: "webhook_drv \<Rightarrow> nat \<Rightarrow> nat option \<Rightarrow> webhook_db \<Rightarrow> webhook_body response" where
  "GetDeliveryLogs drv userID param db =
     (case own_sub drv userID param db of
        None \<Rightarrow> Fail StatusNotFound ''subscription not found''
      | Some sub \<Rightarrow> Reply StatusOK (Logs (rows_or_none (g_find (d_logs drv)
          \<lparr> q_where = (\<lambda>e. dl_SubscriptionID e = ws_ID sub), q_order = (\<lambda>x y. dl_CreatedAt x \<ge> dl_CreatedAt y), q_offset = 0, q_limit = Some 100 \<rparr> (t_logs db)))))"

text \<open>The endpoints of single deliveries and of the queue do not read the user.\<close>

definition RetryDelivery :: "webhook_drv \<Rightarrow> instant \<Rightarrow> nat option \<Rightarrow> webhook_db \<Rightarrow> webhook_body response \<times> webhook_db" where
  "RetryDelivery drv now param db =
     (case param of
        None \<Rightarrow> (Fail StatusBadRequest ''Invalid delivery log ID'', db)
      | Some i \<Rightarrow> (case RetrySpecific drv now i db of (Inl e, db1) \<Rightarrow> (Fail StatusBadRequest e, db1) | (Inr _, db1) \<Rightarrow> (Reply StatusOK Done, db1)))"

definition RetryAllFailedDeliveries :: "webhook_drv \<Rightarrow> instant \<Rightarrow> webhook_db \<Rightarrow> webhook_body response \<times> webhook_db" where
  "RetryAllFailedDeliveries drv now db = (let (n, db1) = RetryAllFailed drv now db in (Reply StatusOK (Retried n), db1))"

definition ReplayDLQ :: "webhook_drv \<Rightarrow> instant \<Rightarrow> webhook_db \<Rightarrow> webhook_body response \<times> webhook_db" where
  "ReplayDLQ drv now db = (let (n, db1) = ReplayFromDLQ drv now db in (Reply StatusOK (Retried n), db1))"

definition GetDeliveryLog :: "webhook_drv \<Rightarrow> nat option \<Rightarrow> webhook_db \<Rightarrow> webhook_body response" where
  "GetDeliveryLog drv param db =
     (case param of
        None \<Rightarrow> Fail StatusBadRequest ''Invalid delivery log ID''
      | Some i \<Rightarrow> (case g_first (d_logs drv) (\<lambda>e. dl_ID e = i) (t_logs db) of
            Inl _ \<Rightarrow> Fail StatusNotFound ''Delivery log not found'' | Inr e \<Rightarrow> Reply StatusOK (Log e)))"

subsection \<open>The steps\<close>

datatype webhook_step =
    WDispatch instant string "string option"
  | WRetryPending instant
  | WFinish nat instant http_answer
  | WCreate nat "string + createSubscriptionRequest" "string option"
  | WUpdate nat "nat option" "string + updateSubscriptionRequest"
  | WDelete nat "nat option"
  | WRetry instant "nat option"
  | WRetryAll instant
  | WReplay instant

fun webhook_handle :: "webhook_drv \<Rightarrow> (string \<Rightarrow> string \<Rightarrow> string) \<Rightarrow> webhook_step \<Rightarrow> webhook_db \<Rightarrow> webhook_body response \<times> webhook_db" where
  "webhook_handle drv sign (WDispatch now ev payload) db = (Reply StatusOK Done, Dispatch drv now ev payload db)"
| "webhook_handle drv sign (WRetryPending now) db = (Reply StatusOK Done, RetryPending drv now db)"
| "webhook_handle drv sign (WFinish i now answer) db = (Reply StatusOK Done, finish_delivery drv sign i now answer db)"
| "webhook_handle drv sign (WCreate u req random) db = CreateSubscription drv u req random db"
| "webhook_handle drv sign (WUpdate u param req) db = UpdateSubscription drv u param req db"
| "webhook_handle drv sign (WDelete u param) db = DeleteSubscription drv u param db"
| "webhook_handle drv sign (WRetry now param) db = RetryDelivery drv now param db"
| "webhook_handle drv sign (WRetryAll now) db = RetryAllFailedDeliveries drv now db"
| "webhook_handle drv sign (WReplay now) db = ReplayDLQ drv now db"

subsection \<open>What the service keeps\<close>

definition webhook_drv_ok :: "webhook_drv \<Rightarrow> bool" where
  "webhook_drv_ok drv \<longleftrightarrow> gorm_ok ws_ID (\<lambda>k. ws_ID_update (\<lambda>_. k)) (d_subs drv) \<and> gorm_ok dl_ID (\<lambda>k. dl_ID_update (\<lambda>_. k)) (d_logs drv)"

text \<open>What never changes of a delivery and of a subscription.\<close>

definition delivery_core :: "WebhookDeliveryLog \<Rightarrow> nat \<times> nat \<times> string \<times> string" where
  "delivery_core e = (dl_ID e, dl_SubscriptionID e, dl_EventType e, dl_Payload e)"

definition sub_core :: "WebhookSubscription \<Rightarrow> nat \<times> string" where
  "sub_core s = (ws_ID s, ws_Secret s)"

definition acknowledged :: "http_answer \<Rightarrow> bool" where
  "acknowledged a \<longleftrightarrow> (case a of Answer status _ \<Rightarrow> 200 \<le> status \<and> status < 300 | _ \<Rightarrow> False)"

text \<open>A request belongs to a stored delivery and is signed with the secret of its subscription.\<close>

definition authentic :: "(string \<Rightarrow> string \<Rightarrow> string) \<Rightarrow> (nat \<times> nat \<times> string \<times> string) set \<Rightarrow> (nat \<times> string) set \<Rightarrow> webhook_post \<Rightarrow> bool" where
  "authentic sign logs subs p \<longleftrightarrow>
     (\<exists>s secret. (wp_Delivery p, s, wp_Event p, wp_Payload p) \<in> logs \<and> (s, secret) \<in> subs \<and> wp_Signature p = ''sha256='' @ sign (wp_Payload p) secret)"

definition webhook_inv :: "(string \<Rightarrow> string \<Rightarrow> string) \<Rightarrow> webhook_db \<Rightarrow> bool" where
  "webhook_inv sign db \<longleftrightarrow>
     distinct (map dl_ID (t_logs db)) \<and> distinct (map ws_ID (t_subs db)) \<and>
     (\<forall>(s, e)\<in>set (wd_inflight db). delivery_core e \<in> delivery_core ` set (t_logs db) \<and> sub_core s \<in> sub_core ` set (t_subs db) \<and> ws_ID s = dl_SubscriptionID e) \<and>
     (\<forall>p\<in>set (wd_posts db). authentic sign (delivery_core ` set (t_logs db)) (sub_core ` set (t_subs db)) p) \<and>
     (\<forall>e\<in>set (t_logs db). dl_Status e = WebhookDeliverySuccess \<longrightarrow>
        (\<exists>p\<in>set (wd_posts db). wp_Delivery p = dl_ID e \<and> acknowledged (wp_Answer p)))"


lemma webhook_drvD:
  assumes "webhook_drv_ok drv"
  shows "gorm_ok ws_ID (\<lambda>k. ws_ID_update (\<lambda>_. k)) (d_subs drv)" "gorm_ok dl_ID (\<lambda>k. dl_ID_update (\<lambda>_. k)) (d_logs drv)"
  using assms by (simp_all add: webhook_drv_ok_def)

lemma core_updates [simp]:
  "delivery_core (answered now e a) = delivery_core e" "delivery_core (begin_attempt e) = delivery_core e"
  by (simp_all add: answered_def begin_attempt_def abandon_log_def scheduleRetry_def moveToDLQ_def delivery_core_def Let_def split: http_answer.split)

lemma answered_success: "dl_Status (answered now e a) = WebhookDeliverySuccess \<longleftrightarrow> acknowledged a"
  by (simp add: answered_def acknowledged_def abandon_log_def scheduleRetry_def moveToDLQ_def Let_def split: http_answer.split)

lemma inflight_core:
  assumes "webhook_inv sign db" "(s, e) \<in> set (wd_inflight db)"
  shows "delivery_core e \<in> delivery_core ` set (t_logs db)" "sub_core s \<in> sub_core ` set (t_subs db)" "ws_ID s = dl_SubscriptionID e"
proof -
  have "delivery_core e \<in> delivery_core ` set (t_logs db) \<and> sub_core s \<in> sub_core ` set (t_subs db) \<and> ws_ID s = dl_SubscriptionID e"
    using assms unfolding webhook_inv_def by blast
  then show "delivery_core e \<in> delivery_core ` set (t_logs db)" "sub_core s \<in> sub_core ` set (t_subs db)" "ws_ID s = dl_SubscriptionID e" by simp_all
qed

lemma webhook_inv_inflight:
  assumes "webhook_inv sign db" "\<And>s e. (s, e) \<in> set q \<Longrightarrow> (s, e) \<in> set (wd_inflight db) \<or>
      (delivery_core e \<in> delivery_core ` set (t_logs db) \<and> sub_core s \<in> sub_core ` set (t_subs db) \<and> ws_ID s = dl_SubscriptionID e)"
  shows "webhook_inv sign (db\<lparr> wd_inflight := q \<rparr>)"
proof -
  have "delivery_core e \<in> delivery_core ` set (t_logs db) \<and> sub_core s \<in> sub_core ` set (t_subs db) \<and> ws_ID s = dl_SubscriptionID e"
    if "(s, e) \<in> set q" for s e
    using assms(2)[OF that] inflight_core[OF assms(1)] by blast
  then show ?thesis using assms(1) by (auto simp: webhook_inv_def)
qed

lemma save_log_inv:
  assumes drv: "webhook_drv_ok drv" and inv: "webhook_inv sign db" and core: "delivery_core e \<in> delivery_core ` set (t_logs db)"
    and ack: "dl_Status e = WebhookDeliverySuccess \<Longrightarrow> \<exists>p\<in>set (wd_posts db). wp_Delivery p = dl_ID e \<and> acknowledged (wp_Answer p)"
  shows "webhook_inv sign (save_log drv now e db) \<and> map delivery_core (t_logs (save_log drv now e db)) = map delivery_core (t_logs db) \<and>
    t_subs (save_log drv now e db) = t_subs db \<and> wd_inflight (save_log drv now e db) = wd_inflight db"
proof (cases "g_save (d_logs drv) (e\<lparr> dl_UpdatedAt := now \<rparr>) (t_logs db)")
  case (Inr ls)
  let ?e = "e\<lparr> dl_UpdatedAt := now \<rparr>"
  obtain r where r: "r \<in> set (t_logs db)" "delivery_core r = delivery_core e" using core by auto
  then have put: "ls = put_row dl_ID ?e (t_logs db)"
    using gorm_save[OF webhook_drvD(2)[OF drv] Inr r(1)] by (simp add: delivery_core_def)
  have d: "distinct (map dl_ID (t_logs db))" using inv by (simp add: webhook_inv_def)
  have map_core: "map delivery_core ls = map delivery_core (t_logs db)"
    unfolding put
  proof (rule map_frame_put_row)
    fix x assume "x \<in> set (t_logs db)" "dl_ID x = dl_ID ?e"
    then have "x = r" using distinct_key_unique[OF d] r by (simp add: delivery_core_def)
    then show "delivery_core x = delivery_core ?e" using r(2) by (simp add: delivery_core_def)
  qed
  then have cores: "delivery_core ` set ls = delivery_core ` set (t_logs db)" by (metis set_map)
  have "distinct (map dl_ID ls)" using d unfolding put by (simp only: map_key_put_row)
  moreover have "\<forall>x\<in>set ls. dl_Status x = WebhookDeliverySuccess \<longrightarrow> (\<exists>p\<in>set (wd_posts db). wp_Delivery p = dl_ID x \<and> acknowledged (wp_Answer p))"
  proof (intro ballI impI)
    fix x assume x: "x \<in> set ls" "dl_Status x = WebhookDeliverySuccess"
    from in_set_put_row[OF x(1)[unfolded put]] consider "x = ?e" | "x \<in> set (t_logs db)" by blast
    then show "\<exists>p\<in>set (wd_posts db). wp_Delivery p = dl_ID x \<and> acknowledged (wp_Answer p)"
    proof cases
      case 1
      then show ?thesis using ack x(2) by simp
    next
      case 2
      then show ?thesis using inv x(2) unfolding webhook_inv_def by blast
    qed
  qed
  ultimately have "webhook_inv sign (db\<lparr> t_logs := ls \<rparr>)" using inv cores by (simp add: webhook_inv_def)
  then show ?thesis using Inr map_core by (simp add: save_log_def)
qed (use inv in \<open>simp add: save_log_def\<close>)

lemma finish_delivery_inv:
  assumes drv: "webhook_drv_ok drv" and inv: "webhook_inv sign db"
  shows "webhook_inv sign (finish_delivery drv sign i now answer db)"
proof (cases "i < length (wd_inflight db)")
  case True
  obtain s e where se: "wd_inflight db ! i = (s, e)" by fastforce
  then have "(s, e) \<in> set (wd_inflight db)" using True nth_mem by fastforce
  note core = inflight_core[OF inv this]
  define db1 where "db1 = db\<lparr> wd_inflight := take i (wd_inflight db) @ drop (Suc i) (wd_inflight db) \<rparr>"
  have inv1: "webhook_inv sign db1" unfolding db1_def
    by (rule webhook_inv_inflight[OF inv]) (auto dest: in_set_takeD in_set_dropD)
  define db2 where "db2 = db1\<lparr> wd_posts := wd_posts db1 @ post_of sign s (begin_attempt e) answer \<rparr>"
  have "authentic sign (delivery_core ` set (t_logs db)) (sub_core ` set (t_subs db)) p" if "p \<in> set (post_of sign s (begin_attempt e) answer)" for p
  proof -
    have p: "wp_Delivery p = dl_ID e" "wp_Event p = dl_EventType e" "wp_Payload p = dl_Payload e"
      "wp_Signature p = ''sha256='' @ sign (dl_Payload e) (ws_Secret s)"
      using that by (auto simp: post_of_def begin_attempt_def split: http_answer.splits)
    then have "(wp_Delivery p, dl_SubscriptionID e, wp_Event p, wp_Payload p) \<in> delivery_core ` set (t_logs db)"
      "(dl_SubscriptionID e, ws_Secret s) \<in> sub_core ` set (t_subs db)" using core by (simp_all add: delivery_core_def sub_core_def)
    then show ?thesis using p unfolding authentic_def by metis
  qed
  then have inv2: "webhook_inv sign db2" using inv1 by (auto simp: webhook_inv_def db2_def db1_def)
  have "webhook_inv sign (save_log drv now (answered now (begin_attempt e) answer) db2)"
  proof (rule conjunct1[OF save_log_inv[OF drv inv2]])
    show "delivery_core (answered now (begin_attempt e) answer) \<in> delivery_core ` set (t_logs db2)" using core(1) by (simp add: db1_def db2_def)
  next
    assume "dl_Status (answered now (begin_attempt e) answer) = WebhookDeliverySuccess"
    then have a: "acknowledged answer" by (simp add: answered_success)
    have "dl_ID (answered now (begin_attempt e) answer) = dl_ID e"
      using core_updates(1)[of now "begin_attempt e" answer] core_updates(2)[of e] unfolding delivery_core_def by simp
    moreover have "\<exists>p\<in>set (wd_posts db2). wp_Delivery p = dl_ID e \<and> acknowledged (wp_Answer p)"
      using a by (auto simp: db2_def post_of_def acknowledged_def begin_attempt_def split: http_answer.splits)
    ultimately show "\<exists>p\<in>set (wd_posts db2). wp_Delivery p = dl_ID (answered now (begin_attempt e) answer) \<and> acknowledged (wp_Answer p)" by simp
  qed
  then show ?thesis using True se by (simp add: finish_delivery_def deliver_def Let_def db1_def db2_def)
qed (use inv in \<open>simp add: finish_delivery_def\<close>)


text \<open>Dispatch: a new delivery for a subscription of the table.\<close>

lemma dispatch_to_inv:
  assumes drv: "webhook_drv_ok drv"
  shows "webhook_inv sign db \<Longrightarrow> set subs \<subseteq> set (t_subs db) \<Longrightarrow> webhook_inv sign (dispatch_to drv now ev raw subs db)"
proof (induction subs arbitrary: db)
  case (Cons s subs)
  show ?case
  proof (cases "g_create (d_logs drv) (new_log now s ev raw) (t_logs db)")
    case (Inr x)
    obtain e ls where x: "x = (e, ls)" by fastforce
    obtain k where k: "k \<notin> dl_ID ` set (t_logs db)" "e = (new_log now s ev raw)\<lparr> dl_ID := k \<rparr>" "ls = t_logs db @ [e]"
      by (rule gorm_createD[OF webhook_drvD(2)[OF drv] Inr[unfolded x]])
    define db1 where "db1 = db\<lparr> t_logs := ls \<rparr>"
    have core: "delivery_core ` set (t_logs db) \<subseteq> delivery_core ` set ls" unfolding k(3) by auto
    have inv1: "webhook_inv sign db1"
    proof -
      have "distinct (map dl_ID ls)" using Cons.prems(1) k by (simp add: webhook_inv_def)
      moreover have "\<forall>p\<in>set (wd_posts db). authentic sign (delivery_core ` set ls) (sub_core ` set (t_subs db)) p"
        using Cons.prems(1) core unfolding webhook_inv_def authentic_def by blast
      moreover have "dl_Status e \<noteq> WebhookDeliverySuccess" by (simp add: k(2) new_log_def)
      ultimately show ?thesis using Cons.prems(1) core unfolding webhook_inv_def db1_def by (auto simp: k(3))
    qed
    have "webhook_inv sign (db1\<lparr> wd_inflight := wd_inflight db1 @ [(s, e)] \<rparr>)"
    proof (rule webhook_inv_inflight[OF inv1])
      fix s' e' assume "(s', e') \<in> set (wd_inflight db1 @ [(s, e)])"
      moreover have "dl_SubscriptionID e = ws_ID s" by (simp add: k(2) new_log_def)
      ultimately show "(s', e') \<in> set (wd_inflight db1) \<or> (delivery_core e' \<in> delivery_core ` set (t_logs db1) \<and>
          sub_core s' \<in> sub_core ` set (t_subs db1) \<and> ws_ID s' = dl_SubscriptionID e')"
        using Cons.prems(2) by (auto simp: db1_def k(3))
    qed
    from Cons.IH[OF this] Cons.IH[OF Cons.prems(1)] show ?thesis using Cons.prems(2) Inr x by (simp add: db1_def)
  next
    case (Inl x)
    then show ?thesis using Cons by simp
  qed
qed simp

lemma rows_or_none_mem:
  assumes "gorm_ok key setkey g" "x \<in> set (rows_or_none (g_find g (Where P) rows))"
  shows "x \<in> set rows" "P x"
proof -
  obtain rs where rs: "g_find g (Where P) rows = Inr rs" "x \<in> set rs" using assms(2) by (cases "g_find g (Where P) rows") (auto simp: rows_or_none_def)
  show "x \<in> set rows" "P x" using gorm_find_mem[OF assms(1) _ rs] by simp_all
qed

lemma find_subD:
  assumes "webhook_drv_ok drv" "find_sub drv i db = Inr s"
  shows "s \<in> set (t_subs db)" "ws_ID s = i"
  using gorm_firstD[OF webhook_drvD(1)[OF assms(1)] assms(2)[unfolded find_sub_def]] by simp_all

lemma retry_rows_inv:
  assumes drv: "webhook_drv_ok drv"
  shows "webhook_inv sign db \<Longrightarrow> set es \<subseteq> set (t_logs db) \<Longrightarrow> webhook_inv sign (retry_rows drv es db)"
proof (induction es arbitrary: db)
  case (Cons e es)
  show ?case
  proof (cases "find_sub drv (dl_SubscriptionID e) db")
    case (Inr s)
    have "webhook_inv sign (db\<lparr> wd_inflight := wd_inflight db @ [(s, e)] \<rparr>)"
      by (rule webhook_inv_inflight[OF Cons.prems(1)]) (use find_subD[OF drv Inr] Cons.prems(2) in auto)
    then show ?thesis using Cons Inr by simp
  qed (use Cons in simp)
qed simp

lemma RetrySpecific_inv:
  assumes drv: "webhook_drv_ok drv" and inv: "webhook_inv sign db"
  shows "webhook_inv sign (snd (RetrySpecific drv now i db))"
proof (cases "g_first (d_logs drv) (\<lambda>e. dl_ID e = i) (t_logs db)")
  case (Inr e)
  show ?thesis
  proof (cases "dl_Status e \<noteq> WebhookDeliverySuccess \<and> (\<exists>s. find_sub drv (dl_SubscriptionID e) db = Inr s)")
    case True
    then obtain s where s: "find_sub drv (dl_SubscriptionID e) db = Inr s" by blast
    define e' where "e' = e\<lparr> dl_AttemptCount := 0, dl_Status := WebhookDeliveryPending, dl_LastError := '''', dl_DLQReason := '''', dl_MaxRetries := maxRetries \<rparr>"
    have e: "delivery_core e' \<in> delivery_core ` set (t_logs db)" "dl_Status e' \<noteq> WebhookDeliverySuccess" "dl_SubscriptionID e' = dl_SubscriptionID e"
      using gorm_firstD(1)[OF webhook_drvD(2)[OF drv] Inr] by (auto simp: e'_def delivery_core_def)
    define db1 where "db1 = save_log drv now e' db"
    have db1: "webhook_inv sign db1" "map delivery_core (t_logs db1) = map delivery_core (t_logs db)" "t_subs db1 = t_subs db"
      using save_log_inv[OF drv inv e(1), of now] e(2) unfolding db1_def by auto
    have "delivery_core ` set (t_logs db1) = delivery_core ` set (t_logs db)" by (metis db1(2) set_map)
    then have "webhook_inv sign (db1\<lparr> wd_inflight := wd_inflight db1 @ [(s, e')] \<rparr>)"
      by (intro webhook_inv_inflight[OF db1(1)]) (use e find_subD[OF drv s] db1(3) in auto)
    then show ?thesis using True s Inr by (simp add: RetrySpecific_def Let_def e'_def db1_def)
  qed (use Inr inv in \<open>auto simp: RetrySpecific_def split: sum.splits\<close>)
qed (use inv in \<open>simp add: RetrySpecific_def\<close>)

lemma retry_each_inv:
  assumes "webhook_drv_ok drv"
  shows "webhook_inv sign db \<Longrightarrow> webhook_inv sign (snd (retry_each drv now es db))"
  by (induction es arbitrary: db) (simp_all add: split_beta RetrySpecific_inv[OF assms])

text \<open>The endpoints of subscriptions: ids and secrets stay.\<close>

lemma webhook_inv_subs:
  assumes "webhook_inv sign db" "distinct (map ws_ID ss)" "sub_core ` set (t_subs db) \<subseteq> sub_core ` set ss"
  shows "webhook_inv sign (db\<lparr> t_subs := ss \<rparr>)"
proof -
  have "\<forall>p\<in>set (wd_posts db). authentic sign (delivery_core ` set (t_logs db)) (sub_core ` set ss) p"
    using assms(1,3) unfolding webhook_inv_def authentic_def by blast
  then show ?thesis using assms unfolding webhook_inv_def by auto
qed

lemma subscription_endpoints_inv:
  assumes drv: "webhook_drv_ok drv" and inv: "webhook_inv sign db"
  shows "webhook_inv sign (snd (CreateSubscription drv u creq random db))" "webhook_inv sign (snd (UpdateSubscription drv u param ureq db))"
    "webhook_inv sign (snd (DeleteSubscription drv u param db))"
proof -
  have d: "distinct (map ws_ID (t_subs db))" using inv by (simp add: webhook_inv_def)
  show "webhook_inv sign (snd (CreateSubscription drv u creq random db))"
    unfolding CreateSubscription_def
  proof (clarsimp split: sum.split option.split simp: inv)
    fix r secret s ss assume "g_create (d_subs drv) \<lparr>ws_ID = 0, ws_UserID = u, ws_URL = cs_URL r, ws_Secret = secret, ws_Events = join_with '','' (cs_Events r),
        ws_Description = cs_Description r, ws_Active = True, ws_Deleted = False\<rparr> (t_subs db) = Inr (s, ss)"
    from gorm_createD[OF webhook_drvD(1)[OF drv] this] obtain k where "k \<notin> ws_ID ` set (t_subs db)" "ws_ID s = k" "ss = t_subs db @ [s]"
      by (metis WebhookSubscription.select_convs(1) WebhookSubscription.surjective WebhookSubscription.update_convs(1))
    then show "webhook_inv sign (db\<lparr>t_subs := ss\<rparr>)" by (intro webhook_inv_subs[OF inv]) (use d in auto)
  qed
  show "webhook_inv sign (snd (UpdateSubscription drv u param ureq db))"
  proof (cases "\<exists>s r ss. own_sub drv u param db = Some s \<and> ureq = Inr r \<and> g_save (d_subs drv) (apply_update r s) (t_subs db) = Inr ss")
    case True
    then obtain s r ss where u: "own_sub drv u param db = Some s" "ureq = Inr r" "g_save (d_subs drv) (apply_update r s) (t_subs db) = Inr ss" by blast
    have s: "s \<in> set (t_subs db)" using u(1) gorm_firstD(1)[OF webhook_drvD(1)[OF drv]] by (auto simp: own_sub_def split: option.splits sum.splits)
    have put: "ss = put_row ws_ID (apply_update r s) (t_subs db)"
      using gorm_save[OF webhook_drvD(1)[OF drv] u(3) s] by (simp add: apply_update_def)
    have "map sub_core ss = map sub_core (t_subs db)"
      unfolding put
      by (rule map_frame_put_row) (use distinct_key_unique[OF d _ s] in \<open>auto simp: apply_update_def sub_core_def\<close>)
    then have "sub_core ` set ss = sub_core ` set (t_subs db)" by (metis set_map)
    moreover have "distinct (map ws_ID ss)" using d unfolding put by (simp only: map_key_put_row)
    ultimately have "webhook_inv sign (db\<lparr> t_subs := ss \<rparr>)" by (intro webhook_inv_subs[OF inv]) simp_all
    then show ?thesis using u by (simp add: UpdateSubscription_def Let_def)
  qed (use inv in \<open>auto simp: UpdateSubscription_def Let_def split: option.split sum.split\<close>)
  show "webhook_inv sign (snd (DeleteSubscription drv u param db))"
    unfolding DeleteSubscription_def
  proof (clarsimp split: sum.split option.split simp: inv)
    fix i n ss assume "g_update (d_subs drv) (\<lambda>s. ws_ID s = i \<and> ws_UserID s = u \<and> \<not> ws_Deleted s) (ws_Deleted_update (\<lambda>_. True)) (t_subs db) = Inr (n, ss)"
    from gorm_updateD(2)[OF webhook_drvD(1)[OF drv] this]
    have "map ws_ID ss = map ws_ID (t_subs db)" "map sub_core ss = map sub_core (t_subs db)" by (simp_all add: sub_core_def)
    then show "webhook_inv sign (db\<lparr>t_subs := ss\<rparr>)" using d by (intro webhook_inv_subs[OF inv]) (metis, metis set_map subset_refl)
  qed
qed

interpretation webhooks: service "webhook_handle drv sign" "\<lambda>db. webhook_drv_ok drv \<and> webhook_inv sign db" "\<lambda>_ _. True" for drv sign
proof
  fix db r assume I: "webhook_drv_ok drv \<and> webhook_inv sign db"
  then have drv: "webhook_drv_ok drv" and inv: "webhook_inv sign db" by simp_all
  have subs: "set (rows_or_none (g_find (d_subs drv) (Where P) (t_subs db))) \<subseteq> set (t_subs db)" for P
    using rows_or_none_mem(1)[OF webhook_drvD(1)[OF drv]] by blast
  have logs: "set (rows_or_none (g_find (d_logs drv) (Where P) (t_logs db))) \<subseteq> set (t_logs db)" for P
    using rows_or_none_mem(1)[OF webhook_drvD(2)[OF drv]] by blast
  have "webhook_inv sign (snd (webhook_handle drv sign r db))"
  proof (cases r)
    case (WDispatch now ev payload)
    then show ?thesis using dispatch_to_inv[OF drv inv subs] inv by (simp add: Dispatch_def split: option.split)
  next
    case (WRetryPending now)
    then show ?thesis using retry_rows_inv[OF drv inv logs] by (simp add: RetryPending_def)
  next
    case (WRetry now param)
    then show ?thesis using RetrySpecific_inv[OF drv inv, of now] inv by (simp add: RetryDelivery_def snd_if_sum split: option.split)
  next
    case (WRetryAll now)
    then show ?thesis using retry_each_inv[OF drv inv] by (simp add: RetryAllFailedDeliveries_def RetryAllFailed_def split_beta)
  next
    case (WReplay now)
    then show ?thesis using retry_each_inv[OF drv inv] by (simp add: ReplayDLQ_def ReplayFromDLQ_def split_beta)
  qed (use finish_delivery_inv[OF drv inv] subscription_endpoints_inv[OF drv inv] in simp_all)
  then show "webhook_drv_ok drv \<and> webhook_inv sign (snd (webhook_handle drv sign r db))" using drv by simp
qed


text \<open>C13: a success is real and authentic. After any sequence of events, retries, answers in any order and changes of subscriptions, whatever the
  database refuses: a delivery that is recorded as successful was posted with its own event and payload, under the signature that the
  secret of its subscription gives, and was answered with a 2xx status.\<close>

theorem webhook_success_is_authentic:
  assumes "webhook_drv_ok drv" "t_subs db = []" "t_logs db = []" "wd_inflight db = []" "wd_posts db = []"
    and "db' = webhooks.run drv sign rs db" "e \<in> set (t_logs db')" "dl_Status e = WebhookDeliverySuccess"
  shows "\<exists>p\<in>set (wd_posts db'). \<exists>s\<in>set (t_subs db'). wp_Delivery p = dl_ID e \<and> acknowledged (wp_Answer p) \<and> wp_Event p = dl_EventType e \<and>
    wp_Payload p = dl_Payload e \<and> ws_ID s = dl_SubscriptionID e \<and> wp_Signature p = ''sha256='' @ sign (dl_Payload e) (ws_Secret s)"
proof -
  have fits: "service.all_fit (webhook_handle drv sign) (\<lambda>_ _. True) rs db" for db
    by (induction rs arbitrary: db) (simp_all add: webhooks.all_fit.simps)
  have "webhook_inv sign db" using assms(2-5) by (simp add: webhook_inv_def)
  then have inv: "webhook_inv sign db'" using webhooks.run_inv fits assms(1,6) by blast
  then obtain p where p: "p \<in> set (wd_posts db')" "wp_Delivery p = dl_ID e" "acknowledged (wp_Answer p)"
    using assms(7,8) unfolding webhook_inv_def by blast
  then have "authentic sign (delivery_core ` set (t_logs db')) (sub_core ` set (t_subs db')) p" using inv unfolding webhook_inv_def by blast
  then obtain l s where l: "l \<in> set (t_logs db')" "s \<in> set (t_subs db')" "delivery_core l = (wp_Delivery p, ws_ID s, wp_Event p, wp_Payload p)"
    "wp_Signature p = ''sha256='' @ sign (wp_Payload p) (ws_Secret s)"
    unfolding authentic_def by (auto simp: sub_core_def)
  have d: "distinct (map dl_ID (t_logs db'))" using inv by (simp add: webhook_inv_def)
  have "l = e" by (rule distinct_key_unique[OF d l(1) assms(7)]) (use p(2) l(3) in \<open>simp add: delivery_core_def\<close>)
  then show ?thesis using p l by (intro bexI[OF _ p(1)] bexI[OF _ l(2)]) (simp add: delivery_core_def)
qed

definition mem_hooks :: webhook_drv where
  "mem_hooks = \<lparr> d_subs = mem_gorm ws_ID (\<lambda>k. ws_ID_update (\<lambda>_. k)), d_logs = mem_gorm dl_ID (\<lambda>k. dl_ID_update (\<lambda>_. k)) \<rparr>"

definition no_hooks :: webhook_db where
  "no_hooks = \<lparr> t_subs = [], t_logs = [], wd_inflight = [], wd_posts = [] \<rparr>"

lemma mem_hooks_ok: "webhook_drv_ok mem_hooks"
  by (simp add: webhook_drv_ok_def mem_hooks_def mem_gorm_ok)

text \<open>A subscriber of two events, and an event that is delivered at the second attempt.\<close>

definition demo_hook :: webhook_step where
  "demo_hook = WCreate 7 (Inr \<lparr> cs_URL = ''https://x'', cs_Events = [''asset.listed'', '' asset.minted''], cs_Description = '''' \<rparr>) (Some ''k'')"

definition demo_deliveries :: "webhook_step list" where
  "demo_deliveries = [demo_hook, WDispatch 0 ''asset.minted'' (Some ''{}''), WDispatch 0 ''dispute.filed'' (Some ''{}''),
     WFinish 0 5 (Answer 503 ''busy''), WRetryPending (2 * Minute), WFinish 0 (2 * Minute) (Answer 204 '''')]"

definition demo_sign :: "string \<Rightarrow> string \<Rightarrow> string" where
  "demo_sign payload secret = payload @ secret"

lemma demo_delivered:
  "map (\<lambda>e. (dl_ID e, dl_SubscriptionID e, dl_EventType e, dl_Payload e, dl_Status e, dl_AttemptCount e))
     (t_logs (webhooks.run mem_hooks demo_sign demo_deliveries no_hooks)) = [(1, 1, ''asset.minted'', ''{}'', ''success'', 2)]"
  unfolding demo_deliveries_def webhooks.run.simps by code_simp

theorem webhook_success_is_authentic_witness:
  "\<exists>p\<in>set (wd_posts (webhooks.run mem_hooks demo_sign demo_deliveries no_hooks)). wp_Delivery p = 1 \<and> acknowledged (wp_Answer p) \<and> wp_Payload p = ''{}''"
proof -
  obtain e where e: "e \<in> set (t_logs (webhooks.run mem_hooks demo_sign demo_deliveries no_hooks))"
    "dl_ID e = 1" "dl_Payload e = ''{}''" "dl_Status e = ''success''"
    using map_eq_ConsD[OF demo_delivered] by auto
  show ?thesis
    using webhook_success_is_authentic[OF mem_hooks_ok _ _ _ _ refl e(1,4)] e(2,3) by (auto simp: no_hooks_def)
qed


subsection \<open>How often a delivery is posted\<close>

text \<open>Which answers call for another attempt, and which deliveries are still open.\<close>

definition retryable :: "http_answer \<Rightarrow> bool" where
  "retryable a \<longleftrightarrow> (case a of BuildFails _ \<Rightarrow> False | NoResponse _ \<Rightarrow> True | Answer s _ \<Rightarrow> \<not> (200 \<le> s \<and> s < 300) \<and> \<not> (400 \<le> s \<and> s < 500))"

definition open_delivery :: "WebhookDeliveryLog \<Rightarrow> bool" where
  "open_delivery e \<longleftrightarrow> dl_Status e \<in> {WebhookDeliveryPending, WebhookDeliveryRetrying, WebhookDeliveryFailed}"

abbreviation posts_of :: "nat \<Rightarrow> webhook_post list \<Rightarrow> webhook_post list" where
  "posts_of d \<equiv> filter (\<lambda>p. wp_Delivery p = d)"

text \<open>At most five posts, numbered from 1, all but the last one answered by a failure that allows a retry.\<close>

definition bounded_posts :: "webhook_post list \<Rightarrow> bool" where
  "bounded_posts ps \<longleftrightarrow> length ps \<le> 5 \<and> map wp_Attempt ps = map int [1..<Suc (length ps)] \<and> (\<forall>p\<in>set (butlast ps). retryable (wp_Answer p))"

definition accounted :: "WebhookDeliveryLog \<Rightarrow> webhook_post list \<Rightarrow> bool" where
  "accounted e ps \<longleftrightarrow> dl_MaxRetries e = maxRetries \<and> bounded_posts ps \<and>
     (open_delivery e \<longrightarrow> dl_AttemptCount e = int (length ps) \<and> (\<forall>p\<in>set ps. retryable (wp_Answer p)))"

text \<open>One goroutine per delivery, whose copy is the stored row.\<close>

definition retry_inv :: "webhook_db \<Rightarrow> bool" where
  "retry_inv db \<longleftrightarrow> distinct (map dl_ID (t_logs db)) \<and> distinct (map (dl_ID \<circ> snd) (wd_inflight db)) \<and>
     (\<forall>e\<in>snd ` set (wd_inflight db). e \<in> set (t_logs db) \<and> open_delivery e \<and> dl_AttemptCount e < maxRetries) \<and>
     (\<forall>p\<in>set (wd_posts db). wp_Delivery p \<in> dl_ID ` set (t_logs db)) \<and>
     (\<forall>e\<in>set (t_logs db). accounted e (posts_of (dl_ID e) (wd_posts db)))"

text \<open>A delivery that is written back is not refused.\<close>

definition saves_logs :: "webhook_drv \<Rightarrow> bool" where
  "saves_logs drv \<longleftrightarrow> (\<forall>e ls x. dl_ID e \<in> dl_ID ` set ls \<longrightarrow> g_save (d_logs drv) e ls \<noteq> Inl x)"

lemma bounded_posts_add:
  assumes "bounded_posts ps" "\<forall>p\<in>set ps. retryable (wp_Answer p)" "length ps < 5" "wp_Attempt p = int (length ps) + 1"
  shows "bounded_posts (ps @ [p])"
proof -
  have "[1..<Suc (length (ps @ [p]))] = [1..<Suc (length ps)] @ [Suc (length ps)]" by simp
  then show ?thesis using assms by (simp add: bounded_posts_def del: upt_Suc)
qed

lemma answered_accounted:
  assumes acc: "accounted e ps" and op: "open_delivery e" and lt: "dl_AttemptCount e < maxRetries"
  shows "accounted (answered now (begin_attempt e) a) (ps @ post_of sign s (begin_attempt e) a)"
proof -
  have ps: "bounded_posts ps" "\<forall>p\<in>set ps. retryable (wp_Answer p)" "dl_AttemptCount e = int (length ps)" "length ps < 5" "dl_MaxRetries e = maxRetries"
    using assms by (auto simp: accounted_def)
  have b: "dl_AttemptCount (begin_attempt e) = int (length ps) + 1" "dl_MaxRetries (begin_attempt e) = maxRetries"
    using ps(3-5) by (simp_all add: begin_attempt_def add64_exact in_i64_def)
  have m: "dl_MaxRetries (answered now (begin_attempt e) a) = maxRetries" "dl_AttemptCount (answered now (begin_attempt e) a) = int (length ps) + 1"
    using b by (simp_all add: answered_def abandon_log_def scheduleRetry_def moveToDLQ_def Let_def split: http_answer.split)
  have o: "open_delivery (answered now (begin_attempt e) a) \<longrightarrow> retryable a"
    by (simp add: open_delivery_def answered_def retryable_def abandon_log_def scheduleRetry_def moveToDLQ_def Let_def split: http_answer.split)
  show ?thesis
  proof (cases "\<exists>x. a = BuildFails x")
    case True
    then show ?thesis using ps o m by (auto simp: accounted_def post_of_def retryable_def)
  next
    case False
    then obtain p where p: "post_of sign s (begin_attempt e) a = [p]" "wp_Attempt p = int (length ps) + 1" "wp_Answer p = a"
      using b False by (cases a) (auto simp: post_of_def)
    then show ?thesis using bounded_posts_add[OF ps(1,2,4) p(2)] ps(2) m o by (simp add: accounted_def)
  qed
qed

lemma finish_delivery_retry_inv:
  assumes drv: "webhook_drv_ok drv" "saves_logs drv" and inv: "retry_inv db"
  shows "retry_inv (finish_delivery drv sign i now answer db)"
proof (cases "i < length (wd_inflight db)")
  case True
  obtain s e where se: "wd_inflight db ! i = (s, e)" by fastforce
  define q where "q = take i (wd_inflight db) @ drop (Suc i) (wd_inflight db)"
  have q: "wd_inflight db = take i (wd_inflight db) @ (s, e) # drop (Suc i) (wd_inflight db)" using id_take_nth_drop[OF True] se by simp
  have "distinct (map (dl_ID \<circ> snd) (take i (wd_inflight db) @ (s, e) # drop (Suc i) (wd_inflight db)))"
    using inv unfolding q[symmetric] by (simp add: retry_inv_def)
  then have dq: "distinct (map (dl_ID \<circ> snd) q)" "dl_ID e \<notin> (dl_ID \<circ> snd) ` set q" by (auto simp: q_def)
  have sub: "set q \<subseteq> set (wd_inflight db)" "(s, e) \<in> set (wd_inflight db)" using q by (auto simp: q_def dest: in_set_takeD in_set_dropD) (metis in_set_conv_decomp)
  have e: "e \<in> set (t_logs db)" "open_delivery e" "dl_AttemptCount e < maxRetries" using inv sub(2) unfolding retry_inv_def by force+
  have d: "distinct (map dl_ID (t_logs db))" using inv by (simp add: retry_inv_def)
  let ?e' = "(answered now (begin_attempt e) answer)\<lparr> dl_UpdatedAt := now \<rparr>" and ?ps = "post_of sign s (begin_attempt e) answer"
  have i: "dl_ID ?e' = dl_ID e" using core_updates(1)[of now "begin_attempt e" answer] core_updates(2)[of e] by (simp add: delivery_core_def)
  obtain ls where ls: "g_save (d_logs drv) ?e' (t_logs db) = Inr ls"
    using drv(2) e(1) i unfolding saves_logs_def by (metis imageI obj_sumE)
  have put: "ls = put_row dl_ID ?e' (t_logs db)" by (rule gorm_save[OF webhook_drvD(2)[OF drv(1)] ls e(1)]) (simp add: i)
  have res: "finish_delivery drv sign i now answer db = db\<lparr> wd_inflight := q, wd_posts := wd_posts db @ ?ps, t_logs := ls \<rparr>"
    using True se ls by (simp add: finish_delivery_def deliver_def Let_def save_log_def q_def)
  have ids: "map dl_ID ls = map dl_ID (t_logs db)" unfolding put by (rule map_key_put_row)
  have pd: "\<forall>p\<in>set ?ps. wp_Delivery p = dl_ID e" by (auto simp: post_of_def begin_attempt_def split: http_answer.split)
  have acc: "accounted x (posts_of (dl_ID x) (wd_posts db @ ?ps))" if "x \<in> set ls" for x
  proof (cases "x = ?e'")
    case True
    have "posts_of (dl_ID e) ?ps = ?ps" using pd by (simp add: filter_id_conv)
    moreover have "accounted e (posts_of (dl_ID e) (wd_posts db))" using inv e(1) unfolding retry_inv_def by blast
    ultimately have "accounted (answered now (begin_attempt e) answer) (posts_of (dl_ID e) (wd_posts db @ ?ps))"
      using answered_accounted[OF _ e(2,3)] by simp
    then show ?thesis using i unfolding True by (simp add: accounted_def open_delivery_def)
  next
    case False
    then have x: "x \<in> set (t_logs db)" "dl_ID x \<noteq> dl_ID e" using in_set_put_row[OF that[unfolded put]] i by auto
    then have "posts_of (dl_ID x) ?ps = []" using pd by (auto simp: filter_empty_conv)
    then show ?thesis using inv x(1) by (simp add: retry_inv_def)
  qed
  have fl: "x \<in> set ls \<and> open_delivery x \<and> dl_AttemptCount x < maxRetries" if "x \<in> snd ` set q" for x
  proof -
    have x: "x \<in> set (t_logs db)" "open_delivery x" "dl_AttemptCount x < maxRetries" using inv that sub(1) unfolding retry_inv_def by blast+
    have "dl_ID x \<noteq> dl_ID ?e'" using dq(2) that i by force
    then show ?thesis using put_row_other[OF x(1)] x unfolding put by blast
  qed
  have "wp_Delivery p \<in> dl_ID ` set ls" if "p \<in> set (wd_posts db @ ?ps)" for p
  proof -
    have "wp_Delivery p \<in> dl_ID ` set (t_logs db)" using that pd e(1) inv unfolding retry_inv_def by auto
    then show ?thesis using ids by (metis set_map)
  qed
  then show ?thesis unfolding res retry_inv_def using d ids dq(1) fl acc by simp
qed (use inv in \<open>simp add: finish_delivery_def\<close>)


lemma dispatch_to_retry_inv:
  assumes drv: "webhook_drv_ok drv"
  shows "retry_inv db \<Longrightarrow> retry_inv (dispatch_to drv now ev raw subs db)"
proof (induction subs arbitrary: db)
  case (Cons s subs)
  show ?case
  proof (cases "g_create (d_logs drv) (new_log now s ev raw) (t_logs db)")
    case (Inr x)
    obtain e ls where x: "x = (e, ls)" by fastforce
    obtain k where k: "k \<notin> dl_ID ` set (t_logs db)" "e = (new_log now s ev raw)\<lparr> dl_ID := k \<rparr>" "ls = t_logs db @ [e]"
      by (rule gorm_createD[OF webhook_drvD(2)[OF drv] Inr[unfolded x]])
    have e: "dl_ID e = k" "open_delivery e" "dl_AttemptCount e = 0" "dl_MaxRetries e = maxRetries" by (simp_all add: k(2) new_log_def open_delivery_def)
    have "posts_of k (wd_posts db) = []" using Cons.prems k(1) by (auto simp: retry_inv_def filter_empty_conv)
    then have "accounted e (posts_of (dl_ID e) (wd_posts db))" by (simp add: accounted_def bounded_posts_def e)
    moreover have "k \<notin> (dl_ID \<circ> snd) ` set (wd_inflight db)" using Cons.prems k(1) unfolding retry_inv_def by force
    ultimately have "retry_inv (db\<lparr> t_logs := ls, wd_inflight := wd_inflight db @ [(s, e)] \<rparr>)"
      using Cons.prems k(1) e unfolding retry_inv_def by (auto simp: k(3))
    then show ?thesis using Cons Inr x by simp
  qed (use Cons in simp)
qed simp

lemma retry_rows_effect:
  "\<exists>q. retry_rows drv es db = db\<lparr> wd_inflight := wd_inflight db @ q \<rparr> \<and>
     map snd q = filter (\<lambda>e. \<exists>s. find_sub drv (dl_SubscriptionID e) db = Inr s) es"
proof (induction es arbitrary: db)
  case (Cons e es)
  show ?case
  proof (cases "find_sub drv (dl_SubscriptionID e) db")
    case (Inr s)
    obtain q where q: "retry_rows drv es (db\<lparr> wd_inflight := wd_inflight db @ [(s, e)] \<rparr>) =
        db\<lparr> wd_inflight := (wd_inflight db @ [(s, e)]) @ q \<rparr>"
      "map snd q = filter (\<lambda>e. \<exists>s. find_sub drv (dl_SubscriptionID e) (db\<lparr> wd_inflight := wd_inflight db @ [(s, e)] \<rparr>) = Inr s) es"
      using Cons.IH[of "db\<lparr> wd_inflight := wd_inflight db @ [(s, e)] \<rparr>"] by (auto simp: find_sub_def)
    show ?thesis by (rule exI[of _ "(s, e) # q"]) (use q Inr in \<open>simp add: find_sub_def\<close>)
  next
    case (Inl x)
    then show ?thesis using Cons.IH[of db] by simp
  qed
qed (simp add: exI[of _ "[]"])

lemma RetryPending_retry_inv:
  assumes drv: "webhook_drv_ok drv" and inv: "retry_inv db" and none: "wd_inflight db = []"
  shows "retry_inv (RetryPending drv now db)"
proof -
  let ?es = "rows_or_none (g_find (d_logs drv) (Where (due now)) (t_logs db))"
  obtain q where q: "RetryPending drv now db = db\<lparr> wd_inflight := q \<rparr>" "map snd q = filter (\<lambda>e. \<exists>s. find_sub drv (dl_SubscriptionID e) db = Inr s) ?es"
    using retry_rows_effect[of drv ?es db] none by (auto simp: RetryPending_def)
  have "distinct (map dl_ID ?es)"
  proof (cases "g_find (d_logs drv) (Where (due now)) (t_logs db)")
    case (Inr rs)
    have "distinct (map dl_ID rs)"
      by (rule distinct_map_listing[OF gorm_find_Where[OF webhook_drvD(2)[OF drv] Inr]]) (use inv in \<open>simp add: retry_inv_def\<close>)
    then show ?thesis using Inr by (simp add: rows_or_none_def)
  qed (simp add: rows_or_none_def)
  then have "distinct (map dl_ID (map snd q))" unfolding q(2) by (rule distinct_map_filter)
  moreover have "e \<in> set (t_logs db) \<and> open_delivery e \<and> dl_AttemptCount e < maxRetries" if "e \<in> snd ` set q" for e
  proof -
    have "e \<in> set ?es" using that arg_cong[OF q(2), of set] by auto
    then have e: "e \<in> set (t_logs db)" "due now e" using rows_or_none_mem[OF webhook_drvD(2)[OF drv]] by blast+
    then have "dl_MaxRetries e = maxRetries" using inv by (auto simp: retry_inv_def accounted_def)
    then show ?thesis using e by (simp add: due_def open_delivery_def)
  qed
  ultimately show ?thesis using inv unfolding q(1) retry_inv_def by simp
qed

text \<open>The retry loop starts only when no delivery is under way, and nobody asks for a retry.\<close>

fun calm :: "webhook_step \<Rightarrow> webhook_db \<Rightarrow> bool" where
  "calm (WRetryPending now) db \<longleftrightarrow> wd_inflight db = []"
| "calm (WRetry now param) db \<longleftrightarrow> False"
| "calm (WRetryAll now) db \<longleftrightarrow> False"
| "calm (WReplay now) db \<longleftrightarrow> False"
| "calm _ db \<longleftrightarrow> True"

lemma retry_inv_subs: "retry_inv (db\<lparr> t_subs := ss \<rparr>) = retry_inv db"
  by (simp add: retry_inv_def)

interpretation retries: service "webhook_handle drv sign" "\<lambda>db. webhook_drv_ok drv \<and> saves_logs drv \<and> retry_inv db" calm for drv sign
proof
  fix db r assume I: "webhook_drv_ok drv \<and> saves_logs drv \<and> retry_inv db" and fit: "calm r db"
  then have drv: "webhook_drv_ok drv" "saves_logs drv" and inv: "retry_inv db" by simp_all
  have "retry_inv (snd (webhook_handle drv sign r db))"
  proof (cases r)
    case (WDispatch now ev payload)
    then show ?thesis using dispatch_to_retry_inv[OF drv(1) inv] inv by (simp add: Dispatch_def split: option.split)
  next
    case (WRetryPending now)
    then show ?thesis using RetryPending_retry_inv[OF drv(1) inv] fit by simp
  qed (use fit inv finish_delivery_retry_inv[OF drv inv] in
    \<open>auto simp: CreateSubscription_def UpdateSubscription_def DeleteSubscription_def Let_def retry_inv_subs split: sum.split option.split\<close>)
  then show "webhook_drv_ok drv \<and> saves_logs drv \<and> retry_inv (snd (webhook_handle drv sign r db))" using drv by simp
qed

text \<open>C12: no more than five posts. Over any dispatches, answers and subscription changes from empty tables: each delivery is posted at most
  five times, the attempts are numbered from 1, and every post but the last one was answered by a failure that allows another: after a
  2xx or 4xx status the receiver is left alone. Hypotheses: a retry run starts only when no delivery is under way (an overlapping run posts
  the same attempt twice, \<open>stale_copy_hides_success\<close>), nobody asks for a retry or a replay by hand, and writing a stored delivery back
  does not fail (other calls may).\<close>

theorem webhook_posts_bounded:
  assumes "webhook_drv_ok drv" "saves_logs drv" "t_logs db = []" "wd_inflight db = []" "wd_posts db = []"
    and "retries.all_fit drv sign rs db" "ps = filter (\<lambda>p. wp_Delivery p = d) (wd_posts (retries.run drv sign rs db))"
  shows "length ps \<le> 5 \<and> map wp_Attempt ps = map int [1..<Suc (length ps)] \<and> (\<forall>p\<in>set (butlast ps). retryable (wp_Answer p))"
proof -
  define db' where "db' = retries.run drv sign rs db"
  have "retry_inv db" using assms(3-5) by (simp add: retry_inv_def)
  then have inv: "retry_inv db'" unfolding db'_def using retries.run_inv assms(1,2,6) by blast
  have "bounded_posts ps"
  proof (cases "d \<in> dl_ID ` set (t_logs db')")
    case True
    then show ?thesis using inv assms(7) by (auto simp: retry_inv_def accounted_def db'_def)
  next
    case False
    then have "ps = []" using inv assms(7) by (auto simp: retry_inv_def filter_empty_conv db'_def)
    then show ?thesis by (simp add: bounded_posts_def)
  qed
  then show ?thesis unfolding bounded_posts_def .
qed

theorem webhook_posts_bounded_witness:
  "map (\<lambda>p. (wp_Attempt p, wp_Answer p)) (filter (\<lambda>p. wp_Delivery p = 1) (wd_posts (retries.run mem_hooks demo_sign demo_deliveries no_hooks))) =
     [(1, Answer 503 ''busy''), (2, Answer 204 '''')] \<and> retryable (Answer 503 ''busy'')"
proof -
  define ps where "ps = filter (\<lambda>p. wp_Delivery p = 1) (wd_posts (retries.run mem_hooks demo_sign demo_deliveries no_hooks))"
  have ps: "map (\<lambda>p. (wp_Attempt p, wp_Answer p)) ps = [(1, Answer 503 ''busy''), (2, Answer 204 '''')]"
    unfolding ps_def demo_deliveries_def retries.run.simps by code_simp
  have fits: "retries.all_fit mem_hooks demo_sign demo_deliveries no_hooks"
    unfolding demo_deliveries_def retries.all_fit.simps by code_simp
  have "saves_logs mem_hooks" by (auto simp: saves_logs_def mem_hooks_def mem_gorm_def)
  note b = webhook_posts_bounded[OF mem_hooks_ok this _ _ _ fits ps_def]
  obtain p p' where "ps = [p, p']" "wp_Answer p = Answer 503 ''busy''" using ps by auto
  then have "retryable (Answer 503 ''busy'')" using b by (simp add: no_hooks_def)
  then show ?thesis using ps ps_def by simp
qed


subsection \<open>Limits\<close>

text \<open>When the receiver cannot be reached at the last attempt either, the delivery stays \<open>failed\<close>: it is neither retried any more nor moved to the
  dead letter queue.\<close>

lemma unreachable_never_in_dlq:
  assumes "dl_MaxRetries e = maxRetries" "dl_AttemptCount e = 4" "dl_DLQReason e = ''''"
  shows "dl_Status (answered now (begin_attempt e) (NoResponse x)) = WebhookDeliveryFailed \<and>
    dl_DLQReason (answered now (begin_attempt e) (NoResponse x)) = '''' \<and> \<not> due t (answered now (begin_attempt e) (NoResponse x))"
  using assms by (simp add: answered_def begin_attempt_def scheduleRetry_def due_def add64_exact in_i64_def)

text \<open>A delivery that is under way counts as due: the retry loop starts it a second time, and the copy that ends last decides. Here the
  receiver has acknowledged the delivery, and its row says that it failed.\<close>

lemma stale_copy_hides_success:
  "let db = webhooks.run mem_hooks demo_sign [demo_hook, WDispatch 0 ''asset.minted'' (Some ''{}''), WRetryPending 1,
       WFinish 0 2 (Answer 200 ''ok''), WFinish 0 3 (Answer 500 '''')] no_hooks
   in map (\<lambda>e. (dl_Status e, dl_AttemptCount e, dl_DeliveredAt e)) (t_logs db) = [(''failed'', 1, None)] \<and> map wp_Attempt (wd_posts db) = [1, 1]"
  unfolding webhooks.run.simps by code_simp

text \<open>A subscription that was switched off still gets the retries of its earlier events.\<close>

lemma inactive_subscription_is_retried:
  "let db = webhooks.run mem_hooks demo_sign [demo_hook, WDispatch 0 ''asset.minted'' (Some ''{}''), WFinish 0 0 (Answer 503 ''''),
       WUpdate 7 (Some 1) (Inr \<lparr> up_URL = '''', up_Events = [], up_Description = '''', up_Active = Some False \<rparr>), WRetryPending Hour, WFinish 0 Hour (Answer 200 '''')] no_hooks
   in map ws_Active (t_subs db) = [False] \<and> map wp_Attempt (wd_posts db) = [1, 2]"
  unfolding webhooks.run.simps by code_simp

end
