(* ===== verification/EmailTemplates.thy ===== *)
theory EmailTemplates
  imports Gorm Json
begin

section \<open>E-mail templates (services/email\_template\_service.go, services/template\_versioning.go, handlers/email\_templates.go)\<close>

text \<open>
  Administrators edit localised templates with \<open>{{variable}}\<close> placeholders; every edit adds a snapshot to the history of the template, a rollback
  restores one, and rendering fills the placeholders in. The column \<open>variables\<close> holds JSON and is modelled by its tree, \<open>None\<close> for a
  blank text. Ids in a path are taken as numbers. Templates are soft-deleted.
\<close>

subsection \<open>Placeholders\<close>

text \<open>The pattern \<open>{{\s*([a-zA-Z0-9_]+)\s*}}\<close>.\<close>

definition is_space :: "char \<Rightarrow> bool" where
  "is_space c \<longleftrightarrow> c \<in> {CHR 0x09, CHR 0x0A, CHR 0x0C, CHR 0x0D, CHR '' ''}"

definition is_name :: "char \<Rightarrow> bool" where
  "is_name c \<longleftrightarrow> (let n = of_char c :: nat in (97 \<le> n \<and> n \<le> 122) \<or> (65 \<le> n \<and> n \<le> 90) \<or> (48 \<le> n \<and> n \<le> 57) \<or> n = 95)"

text \<open>A match at the start of a text: the name, and what follows the match. Blanks, names and braces are disjoint, so the greedy repetitions
  never have to give back a character.\<close>

definition match_here :: "string \<Rightarrow> (string \<times> string) option" where
  "match_here s =
     (if take 2 s = ''{{'' then
        let r = dropWhile is_space (drop 2 s); name = takeWhile is_name r; r' = dropWhile is_space (dropWhile is_name r)
        in if name \<noteq> [] \<and> take 2 r' = ''}}'' then Some (name, drop 2 r') else None
      else None)"

lemma is_name_space [simp]: "is_name c \<Longrightarrow> \<not> is_space c"
  by (auto simp: is_space_def is_name_def Let_def)

lemma brace_simps [simp]: "\<not> is_name CHR ''{''" "\<not> is_space CHR ''{''" "\<not> is_name CHR ''}''" "\<not> is_space CHR ''}''"
  by (simp_all add: is_space_def is_name_def)

lemma match_hereD:
  assumes "match_here s = Some (n, rest)"
  obtains w1 w2 where "s = ''{{'' @ w1 @ n @ w2 @ ''}}'' @ rest" "\<forall>c\<in>set w1. is_space c" "\<forall>c\<in>set n. is_name c" "\<forall>c\<in>set w2. is_space c" "n \<noteq> []"
proof -
  define r where "r = dropWhile is_space (drop 2 s)"
  define r' where "r' = dropWhile is_space (dropWhile is_name r)"
  have m: "take 2 s = ''{{''" "n = takeWhile is_name r" "n \<noteq> []" "take 2 r' = ''}}''" "rest = drop 2 r'"
    using assms by (auto simp: match_here_def Let_def r_def r'_def split: if_splits)
  have "s = take 2 s @ drop 2 s" by simp
  also have "\<dots> = ''{{'' @ takeWhile is_space (drop 2 s) @ r" using m(1) by (simp add: r_def)
  also have "\<dots> = ''{{'' @ takeWhile is_space (drop 2 s) @ n @ dropWhile is_name r" by (simp add: m(2))
  also have "dropWhile is_name r = takeWhile is_space (dropWhile is_name r) @ r'" by (simp add: r'_def)
  also have "r' = take 2 r' @ drop 2 r'" by simp
  finally have "s = ''{{'' @ takeWhile is_space (drop 2 s) @ n @ takeWhile is_space (dropWhile is_name r) @ ''}}'' @ rest"
    using m(4,5) by simp
  then show thesis using that m(2,3) by (metis set_takeWhileD)
qed

lemma match_hereI:
  assumes "\<forall>c\<in>set w1. is_space c" "\<forall>c\<in>set n. is_name c" "\<forall>c\<in>set w2. is_space c" "n \<noteq> []"
  shows "match_here (''{{'' @ w1 @ n @ w2 @ ''}}'' @ rest) = Some (n, rest)"
proof -
  have "\<not> is_space (hd n)" using assms(2,4) by simp
  then have d1: "dropWhile is_space (w1 @ n @ w2 @ ''}}'' @ rest) = n @ w2 @ ''}}'' @ rest"
    using assms(1,4) by (cases n) (auto simp: dropWhile_append2)
  have h: "\<not> is_name (hd (w2 @ ''}}'' @ rest))" using assms(3) by (cases w2) (auto dest: is_name_space)
  then have t: "takeWhile is_name (n @ w2 @ ''}}'' @ rest) = n" "dropWhile is_name (n @ w2 @ ''}}'' @ rest) = w2 @ ''}}'' @ rest"
    using assms(2) by (cases "w2 @ ''}}'' @ rest"; simp add: takeWhile_append2 dropWhile_append2)+
  have "dropWhile is_space (w2 @ ''}}'' @ rest) = ''}}'' @ rest" using assms(3) by (simp add: dropWhile_append2)
  then show ?thesis using assms(4) d1 t by (simp add: match_here_def numeral_2_eq_2)
qed

lemma match_here_append: "match_here s = Some (n, rest) \<Longrightarrow> match_here (s @ t) = Some (n, rest @ t)"
  by (elim match_hereD) (use match_hereI in force)

text \<open>The text cut into placeholders, with the name and the text matched, and single characters between them.\<close>

datatype piece = Lit char | Hole string string

lemma match_here_shorter: "match_here s = Some (n, rest) \<Longrightarrow> length rest < length s"
  by (elim match_hereD) simp

function pieces :: "string \<Rightarrow> piece list" where
  "pieces [] = []"
| "pieces (c # cs) =
     (case match_here (c # cs) of
        None \<Rightarrow> Lit c # pieces cs
      | Some (n, rest) \<Rightarrow> Hole n (take (length (c # cs) - length rest) (c # cs)) # pieces rest)"
  by pat_completeness auto
termination by (relation "measure length") (auto dest: match_here_shorter)

fun keep_first :: "'a list \<Rightarrow> 'a list \<Rightarrow> 'a list" where
  "keep_first seen [] = []"
| "keep_first seen (x # xs) = (if x \<in> set seen then keep_first seen xs else x # keep_first (x # seen) xs)"

definition hole_names :: "piece list \<Rightarrow> string list" where
  "hole_names ps = concat (map (\<lambda>p. case p of Lit _ \<Rightarrow> [] | Hole n _ \<Rightarrow> [n]) ps)"

definition extractPlaceholders :: "string \<Rightarrow> string list" where
  "extractPlaceholders s = keep_first [] (hole_names (pieces s))"

definition substitute :: "string \<Rightarrow> (string \<rightharpoonup> string) \<Rightarrow> string" where
  "substitute s vars = concat (map (\<lambda>p. case p of Lit c \<Rightarrow> [c] | Hole n m \<Rightarrow> (case vars n of Some v \<Rightarrow> v | None \<Rightarrow> m)) (pieces s))"

lemma keep_first_set: "set (keep_first seen xs) = set xs - set seen"
  by (induction xs arbitrary: seen) auto

text \<open>Matches do not overlap: every place where the pattern matches is found.\<close>

lemma pieces_find_all: "n \<in> set (hole_names (pieces s)) \<longleftrightarrow> (\<exists>u v rest. s = u @ v \<and> match_here v = Some (n, rest))"
proof (induction s rule: pieces.induct)
  case 1
  then show ?case by (simp add: hole_names_def match_here_def)
next
  case (2 c cs)
  show ?case
  proof (cases "match_here (c # cs)")
    case None
    have "(\<exists>u v rest. c # cs = u @ v \<and> match_here v = Some (n, rest)) \<longleftrightarrow> (\<exists>u v rest. cs = u @ v \<and> match_here v = Some (n, rest))"
      using None by (metis append_Cons append_self_conv2 append_eq_Cons_conv option.distinct(1))
    then show ?thesis using 2(1)[OF None] None by (simp add: hole_names_def)
  next
    case (Some p)
    obtain m rest where p: "p = (m, rest)" by fastforce
    note m = Some[unfolded p]
    obtain w1 w2 where s: "c # cs = (''{{'' @ w1 @ m @ w2 @ ''}}'') @ rest" and w: "\<forall>c\<in>set w1. is_space c" "\<forall>c\<in>set m. is_name c" "\<forall>c\<in>set w2. is_space c" "m \<noteq> []"
      by (rule match_hereD[OF m]) simp
    define tl where "tl = w1 @ m @ w2 @ ''}}''"
    have tl: "CHR ''{'' \<notin> set tl" "tl \<noteq> []" using w by (auto simp: tl_def)
    have IH: "n \<in> set (hole_names (pieces rest)) \<longleftrightarrow> (\<exists>u v r. rest = u @ v \<and> match_here v = Some (n, r))" by (rule 2(2)[OF m refl])
    have "(\<exists>u v r. c # cs = u @ v \<and> match_here v = Some (n, r)) \<longleftrightarrow> n = m \<or> (\<exists>u v r. rest = u @ v \<and> match_here v = Some (n, r))"
    proof
      assume "\<exists>u v r. c # cs = u @ v \<and> match_here v = Some (n, r)"
      then obtain u v r where uv: "c # cs = u @ v" "match_here v = Some (n, r)" by blast
      obtain x where v: "v = CHR ''{'' # CHR ''{'' # x" by (rule match_hereD[OF uv(2)]) simp
      have "u @ v = (''{{'' @ tl) @ rest" using uv(1) s by (simp add: tl_def)
      then obtain z where z: "u = (''{{'' @ tl) @ z \<and> z @ v = rest \<or> u @ z = ''{{'' @ tl \<and> v = z @ rest"
        unfolding append_eq_append_conv2 by blast
      consider z where "u = (''{{'' @ tl) @ z" "rest = z @ v" | z where "''{{'' @ tl = u @ z" "v = z @ rest" "z \<noteq> []"
      proof (cases "z = []")
        case True
        then have "u = (''{{'' @ tl) @ []" "rest = [] @ v" using z by auto
        then show thesis by (rule that(1))
      next
        case False
        then show thesis using z that by fastforce
      qed
      then show "n = m \<or> (\<exists>u v r. rest = u @ v \<and> match_here v = Some (n, r))"
      proof cases
        case 1
        then show ?thesis using uv(2) by blast
      next
        case 2
        show ?thesis
        proof (cases u)
          case Nil
          then show ?thesis using uv m by simp
        next
          case (Cons a u')
          have "u' = []"
          proof (rule ccontr)
            assume "u' \<noteq> []"
            then obtain b u'' where "u' = b # u''" by (cases u') auto
            then have "tl = u'' @ z" using 2(1) Cons by simp
            moreover have "hd z = CHR ''{''" using 2(2,3) v by (cases z) auto
            ultimately show False using tl(1) 2(3) by (metis UnI2 hd_in_set set_append)
          qed
          then have "z = CHR ''{'' # tl" using 2(1) Cons by auto
          then have "tl @ rest = CHR ''{'' # x" using 2(2) v by simp
          then show ?thesis using tl by (metis append_eq_Cons_conv list.set_intros(1))
        qed
      qed
    next
      assume "n = m \<or> (\<exists>u v r. rest = u @ v \<and> match_here v = Some (n, r))"
      then show "\<exists>u v r. c # cs = u @ v \<and> match_here v = Some (n, r)" using m s by (metis append.assoc append_Nil)
    qed
    then show ?thesis using IH m by (simp add: hole_names_def)
  qed
qed

lemma extractPlaceholders_iff: "n \<in> set (extractPlaceholders s) \<longleftrightarrow> (\<exists>u v rest. s = u @ v \<and> match_here v = Some (n, rest))"
  by (simp add: extractPlaceholders_def keep_first_set pieces_find_all)

lemma extractPlaceholders_parts:
  "set (extractPlaceholders a) \<subseteq> set (extractPlaceholders (a @ b))" "set (extractPlaceholders b) \<subseteq> set (extractPlaceholders (a @ b))"
proof -
  show "set (extractPlaceholders a) \<subseteq> set (extractPlaceholders (a @ b))"
  proof
    fix n assume "n \<in> set (extractPlaceholders a)"
    then obtain u v rest where "a = u @ v" "match_here v = Some (n, rest)" unfolding extractPlaceholders_iff by blast
    then have "a @ b = u @ (v @ b)" "match_here (v @ b) = Some (n, rest @ b)" using match_here_append[of v n rest b] by simp_all
    then show "n \<in> set (extractPlaceholders (a @ b))" unfolding extractPlaceholders_iff by blast
  qed
  show "set (extractPlaceholders b) \<subseteq> set (extractPlaceholders (a @ b))"
  proof
    fix n assume "n \<in> set (extractPlaceholders b)"
    then obtain u v rest where "b = u @ v" "match_here v = Some (n, rest)" unfolding extractPlaceholders_iff by blast
    then have "a @ b = (a @ u) @ v" by simp
    then show "n \<in> set (extractPlaceholders (a @ b))" unfolding extractPlaceholders_iff using \<open>match_here v = Some (n, rest)\<close> by blast
  qed
qed

text \<open>Filling every placeholder in.\<close>

definition filled :: "string \<Rightarrow> (string \<Rightarrow> string) \<Rightarrow> string" where
  "filled s f = concat (map (\<lambda>p. case p of Lit c \<Rightarrow> [c] | Hole n _ \<Rightarrow> f n) (pieces s))"

lemma substitute_filled:
  assumes "set (extractPlaceholders s) \<subseteq> dom vars"
  shows "substitute s vars = filled s (\<lambda>n. the (vars n))"
proof -
  have "(case p of Lit c \<Rightarrow> [c] | Hole n m \<Rightarrow> (case vars n of Some v \<Rightarrow> v | None \<Rightarrow> m)) = (case p of Lit c \<Rightarrow> [c] | Hole n _ \<Rightarrow> the (vars n))"
    if p: "p \<in> set (pieces s)" for p
  proof (cases p)
    case (Hole n m)
    have "n \<in> (\<Union>q\<in>set (pieces s). set (case q of Lit _ \<Rightarrow> [] | Hole k _ \<Rightarrow> [k]))" by (rule UN_I[OF p]) (simp add: Hole)
    then have "n \<in> set (extractPlaceholders s)" by (simp add: extractPlaceholders_def keep_first_set hole_names_def)
    then obtain v where "vars n = Some v" using assms by blast
    then show ?thesis by (simp add: Hole)
  qed simp
  then have "map (\<lambda>p. case p of Lit c \<Rightarrow> [c] | Hole n m \<Rightarrow> (case vars n of Some v \<Rightarrow> v | None \<Rightarrow> m)) (pieces s) =
      map (\<lambda>p. case p of Lit c \<Rightarrow> [c] | Hole n _ \<Rightarrow> the (vars n)) (pieces s)" by (intro map_cong refl)
  then show ?thesis unfolding substitute_def filled_def by (rule arg_cong)
qed


subsection \<open>Data\<close>

record EmailTemplate =
  et_ID :: nat
  et_TemplateKey :: string
  et_Language :: string
  et_Name :: string
  et_Description :: string
  et_Subject :: string
  et_BodyHTML :: string
  et_BodyText :: string
  et_Variables :: "json option"
  et_Version :: int
  et_IsActive :: bool
  et_CreatedBy :: nat
  et_Deleted :: bool

record EmailTemplateVersion =
  ev_ID :: nat
  ev_TemplateID :: nat
  ev_Version :: int
  ev_Subject :: string
  ev_BodyHTML :: string
  ev_BodyText :: string
  ev_Variables :: "json option"
  ev_ChangedBy :: nat
  ev_ChangeNote :: string

record EmailTemplateVariant =
  va_ID :: nat
  va_TemplateID :: nat
  va_Name :: string
  va_Subject :: string
  va_BodyHTML :: string
  va_BodyText :: string
  va_Weight :: int
  va_IsActive :: bool
  va_SentCount :: int

record RenderedEmail =
  rd_Subject :: string
  rd_BodyHTML :: string
  rd_BodyText :: string
  rd_Variant :: string

record template_db =
  t_templates :: "EmailTemplate list"
  t_snapshots :: "EmailTemplateVersion list"
  t_variants :: "EmailTemplateVariant list"

record template_drv =
  d_templates :: "EmailTemplate gorm"
  d_snapshots :: "EmailTemplateVersion gorm"
  d_variants :: "EmailTemplateVariant gorm"

subsection \<open>Validation and rendering\<close>

definition parseVariableList :: "json option \<Rightarrow> string + string list" where
  "parseVariableList variables =
     (case variables of
        None \<Rightarrow> Inr []
      | Some j \<Rightarrow> (case decode_strings j of None \<Rightarrow> Inl ''invalid variables list (expected JSON array of strings)'' | Some vs \<Rightarrow> Inr vs))"

definition marshalVariables :: "string list \<Rightarrow> json option" where
  "marshalVariables vs = Some (if vs = [] then JArray [] else JArray (map JString vs))"

fun string_le :: "string \<Rightarrow> string \<Rightarrow> bool" where
  "string_le [] t \<longleftrightarrow> True"
| "string_le (c # s) [] \<longleftrightarrow> False"
| "string_le (c # s) (d # t) \<longleftrightarrow> (of_char c :: nat) < of_char d \<or> (c = d \<and> string_le s t)"

fun join_names :: "string list \<Rightarrow> string" where
  "join_names [] = ''''"
| "join_names [x] = x"
| "join_names (x # xs) = x @ '', '' @ join_names xs"

definition ValidateTemplate :: "string \<Rightarrow> string \<Rightarrow> string \<Rightarrow> json option \<Rightarrow> string + unit" where
  "ValidateTemplate subject bodyHTML bodyText variables =
     (if TrimSpace subject = '''' then Inl ''subject is required''
      else if TrimSpace bodyHTML = '''' then Inl ''body_html is required''
      else and_then (parseVariableList variables) (\<lambda>declared.
        let undeclared = filter (\<lambda>n. n \<notin> set declared) (extractPlaceholders (subject @ '' '' @ bodyHTML @ '' '' @ bodyText))
        in if undeclared \<noteq> [] then Inl (''template uses undeclared variables: '' @ join_names (sort_by string_le undeclared)) else Inr ()))"

definition activeTemplate :: "template_drv \<Rightarrow> string \<Rightarrow> string \<Rightarrow> template_db \<Rightarrow> dberr + EmailTemplate" where
  "activeTemplate drv key language db =
     (let lang = (if language = '''' then ''en'' else language);
          look = (\<lambda>l. g_first (d_templates drv) (\<lambda>t. et_TemplateKey t = key \<and> et_Language t = l \<and> et_IsActive t \<and> \<not> et_Deleted t) (t_templates db))
      in (case look lang of
            Inl ErrRecordNotFound \<Rightarrow> (if lang \<noteq> ''en'' then look ''en'' else Inl ErrRecordNotFound)
          | r \<Rightarrow> r))"

text \<open>\<open>intn n\<close> is what \<open>rand.Intn(n)\<close> returns for a positive \<open>n\<close>; for any other it panics.\<close>

datatype render_error = TemplateNotFound | RenderError string | RenderPanic

fun total_weight :: "EmailTemplateVariant list \<Rightarrow> int \<Rightarrow> int" where
  "total_weight [] t = t"
| "total_weight (v # vs) t = total_weight vs (if va_Weight v > 0 then add64 t (va_Weight v) else t)"

fun pick_variant :: "EmailTemplateVariant list \<Rightarrow> int \<Rightarrow> EmailTemplateVariant option" where
  "pick_variant [] pick = None"
| "pick_variant (v # vs) pick =
     (if va_Weight v \<le> 0 then pick_variant vs pick
      else if pick < va_Weight v then Some v else pick_variant vs (pick - va_Weight v))"

definition selectVariant :: "template_drv \<Rightarrow> (int \<Rightarrow> int) \<Rightarrow> nat \<Rightarrow> template_db \<Rightarrow> render_error + EmailTemplateVariant option" where
  "selectVariant drv intn templateID db =
     (case g_find (d_variants drv) (Where (\<lambda>v. va_TemplateID v = templateID \<and> va_IsActive v)) (t_variants db) of
        Inl _ \<Rightarrow> Inr None
      | Inr vs \<Rightarrow>
          (let total = total_weight vs 0
           in if vs = [] \<or> total = 0 then Inr None
              else if total < 0 then Inl RenderPanic
              else Inr (pick_variant vs (intn total))))"

definition count_sent :: "template_drv \<Rightarrow> EmailTemplateVariant \<Rightarrow> template_db \<Rightarrow> template_db" where
  "count_sent drv v db =
     (case g_update (d_variants drv) (\<lambda>x. va_ID x = va_ID v) (\<lambda>x. x\<lparr> va_SentCount := va_SentCount x + 1 \<rparr>) (t_variants db) of
        Inl _ \<Rightarrow> db | Inr (_, vs) \<Rightarrow> db\<lparr> t_variants := vs \<rparr>)"

definition Render :: "template_drv \<Rightarrow> (int \<Rightarrow> int) \<Rightarrow> string \<Rightarrow> string \<Rightarrow> (string \<rightharpoonup> string) \<Rightarrow> template_db \<Rightarrow> (render_error + RenderedEmail) \<times> template_db" where
  "Render drv intn key language vars db =
     (case activeTemplate drv key language db of
        Inl ErrRecordNotFound \<Rightarrow> (Inl TemplateNotFound, db)
      | Inl (DBError e) \<Rightarrow> (Inl (RenderError e), db)
      | Inr tmpl \<Rightarrow>
          (case selectVariant drv intn (et_ID tmpl) db of
             Inl e \<Rightarrow> (Inl e, db)
           | Inr v \<Rightarrow>
          (let (subject, bodyHTML, bodyText, variant, db1) =
                 (case v of
                    None \<Rightarrow> (et_Subject tmpl, et_BodyHTML tmpl, et_BodyText tmpl, '''', db)
                  | Some v \<Rightarrow> (va_Subject v, va_BodyHTML v, va_BodyText v, va_Name v, count_sent drv v db))
           in (case parseVariableList (et_Variables tmpl) of
                 Inl e \<Rightarrow> (Inl (RenderError e), db1)
               | Inr declared \<Rightarrow>
                   (case find (\<lambda>n. vars n = None) declared of
                      Some n \<Rightarrow> (Inl (RenderError (''missing value for template variable '' @ CHR 0x22 # n @ [CHR 0x22])), db1)
                    | None \<Rightarrow> (Inr \<lparr> rd_Subject = substitute subject vars, rd_BodyHTML = substitute bodyHTML vars,
                                 rd_BodyText = substitute bodyText vars, rd_Variant = variant \<rparr>, db1))))))"

definition Preview :: "string \<Rightarrow> string \<Rightarrow> string \<Rightarrow> json option \<Rightarrow> (string \<rightharpoonup> string) \<Rightarrow> string + RenderedEmail" where
  "Preview subject bodyHTML bodyText variables vars =
     and_then (ValidateTemplate subject bodyHTML bodyText variables) (\<lambda>_.
       let declared = (case parseVariableList variables of Inl _ \<Rightarrow> [] | Inr vs \<Rightarrow> vs);
           fill = (\<lambda>n. case vars n of Some v \<Rightarrow> Some v | None \<Rightarrow> if n \<in> set declared then Some (''{'' @ n @ ''}'') else None)
       in Inr \<lparr> rd_Subject = substitute subject fill, rd_BodyHTML = substitute bodyHTML fill, rd_BodyText = substitute bodyText fill, rd_Variant = '''' \<rparr>)"

subsection \<open>Version history (template\_versioning.go)\<close>

definition newest_snapshots :: "nat \<Rightarrow> EmailTemplateVersion query" where
  "newest_snapshots i = \<lparr> q_where = (\<lambda>v. ev_TemplateID v = i), q_order = (\<lambda>x y. ev_Version x \<ge> ev_Version y), q_offset = 0, q_limit = None \<rparr>"

definition ListVersions_tmpl :: "template_drv \<Rightarrow> nat \<Rightarrow> template_db \<Rightarrow> string + EmailTemplateVersion list" where
  "ListVersions_tmpl drv i db =
     (case g_find (d_snapshots drv) (newest_snapshots i) (t_snapshots db) of Inl e \<Rightarrow> Inl (''failed to list versions: '' @ err_msg e) | Inr vs \<Rightarrow> Inr vs)"

definition GetVersion_tmpl :: "template_drv \<Rightarrow> nat \<Rightarrow> int \<Rightarrow> template_db \<Rightarrow> string + EmailTemplateVersion" where
  "GetVersion_tmpl drv i version db =
     (case g_first (d_snapshots drv) (\<lambda>v. ev_TemplateID v = i \<and> ev_Version v = version) (t_snapshots db) of
        Inl ErrRecordNotFound \<Rightarrow> Inl (''version '' @ show_int version @ '' not found for template '' @ show_nat i)
      | Inl e \<Rightarrow> Inl (''failed to fetch version: '' @ err_msg e)
      | Inr v \<Rightarrow> Inr v)"

record TemplateDiff =
  td_SubjectChanged :: bool
  td_BodyHTMLChanged :: bool
  td_BodyTextChanged :: bool
  td_VariablesChanged :: bool
  td_From :: EmailTemplateVersion
  td_To :: EmailTemplateVersion

definition DiffVersions :: "template_drv \<Rightarrow> nat \<Rightarrow> int \<Rightarrow> int \<Rightarrow> template_db \<Rightarrow> string + TemplateDiff" where
  "DiffVersions drv i a b db =
     and_then (GetVersion_tmpl drv i a db) (\<lambda>x. and_then (GetVersion_tmpl drv i b db) (\<lambda>y.
       Inr \<lparr> td_SubjectChanged = (ev_Subject x \<noteq> ev_Subject y), td_BodyHTMLChanged = (ev_BodyHTML x \<noteq> ev_BodyHTML y),
         td_BodyTextChanged = (ev_BodyText x \<noteq> ev_BodyText y), td_VariablesChanged = (ev_Variables x \<noteq> ev_Variables y), td_From = x, td_To = y \<rparr>))"

definition tmpl_snapshot :: "EmailTemplate \<Rightarrow> nat \<Rightarrow> string \<Rightarrow> EmailTemplateVersion" where
  "tmpl_snapshot t user note = \<lparr> ev_ID = 0, ev_TemplateID = et_ID t, ev_Version = et_Version t, ev_Subject = et_Subject t, ev_BodyHTML = et_BodyHTML t,
     ev_BodyText = et_BodyText t, ev_Variables = et_Variables t, ev_ChangedBy = user, ev_ChangeNote = note \<rparr>"

text \<open>The body of the transactions that change a template: save the row, then record what it has become.\<close>

definition save_and_record :: "template_drv \<Rightarrow> EmailTemplate \<Rightarrow> nat \<Rightarrow> string \<Rightarrow> template_db \<Rightarrow> dberr + unit \<times> template_db" where
  "save_and_record drv t user note db =
     and_then (g_save (d_templates drv) t (t_templates db)) (\<lambda>ts.
       and_then (g_create (d_snapshots drv) (tmpl_snapshot t user note) (t_snapshots db)) (\<lambda>(_, vs).
         Inr ((), db\<lparr> t_templates := ts, t_snapshots := vs \<rparr>)))"

definition find_template :: "template_drv \<Rightarrow> nat \<Rightarrow> template_db \<Rightarrow> dberr + EmailTemplate" where
  "find_template drv i db = g_first (d_templates drv) (\<lambda>t. et_ID t = i \<and> \<not> et_Deleted t) (t_templates db)"

definition restored :: "EmailTemplate \<Rightarrow> EmailTemplateVersion \<Rightarrow> EmailTemplate" where
  "restored t v = t\<lparr> et_Subject := ev_Subject v, et_BodyHTML := ev_BodyHTML v, et_BodyText := ev_BodyText v, et_Variables := ev_Variables v,
     et_Version := add64 (et_Version t) 1 \<rparr>"

text \<open>An error of the transaction is reported by the text of the driver, without the words that say which of the two writes it was.\<close>

definition RollbackToVersion :: "template_drv \<Rightarrow> tx_outcome \<Rightarrow> nat \<Rightarrow> int \<Rightarrow> nat \<Rightarrow> string \<Rightarrow> template_db \<Rightarrow> (string + EmailTemplate) \<times> template_db" where
  "RollbackToVersion drv tx i target changedBy note db =
     (case find_template drv i db of
        Inl ErrRecordNotFound \<Rightarrow> (Inl (''template '' @ show_nat i @ '' not found''), db)
      | Inl e \<Rightarrow> (Inl (''failed to load template: '' @ err_msg e), db)
      | Inr tmpl \<Rightarrow>
          (case GetVersion_tmpl drv i target db of
             Inl e \<Rightarrow> (Inl e, db)
           | Inr snap \<Rightarrow>
               (let note' = (if note = '''' then ''rolled back to version '' @ show_int target else note); tmpl' = restored tmpl snap
                in (case transaction tx (save_and_record drv tmpl' changedBy note') db of
                      (Inl e, db1) \<Rightarrow> (Inl (err_msg e), db1) | (Inr _, db1) \<Rightarrow> (Inr tmpl', db1)))))"


subsection \<open>The endpoints\<close>

text \<open>What the binding leaves of a request.\<close>

record emailTemplateRequest =
  er_TemplateKey :: string
  er_Language :: string
  er_Name :: string
  er_Description :: string
  er_Subject :: string
  er_BodyHTML :: string
  er_BodyText :: string
  er_Variables :: "string list"
  er_IsActive :: bool

record updateTemplateRequest =
  ur_Name :: "string option"
  ur_Description :: "string option"
  ur_Subject :: "string option"
  ur_BodyHTML :: "string option"
  ur_BodyText :: "string option"
  ur_Variables :: "string list option"
  ur_ChangeNote :: string

record variantRequest =
  vr_Name :: string
  vr_Subject :: string
  vr_BodyHTML :: string
  vr_BodyText :: string
  vr_Weight :: int

datatype template_body =
    Template EmailTemplate
  | Templates "EmailTemplate list"
  | Snapshots "EmailTemplateVersion list"
  | Variant EmailTemplateVariant
  | Variants "EmailTemplateVariant list"
  | Rendered RenderedEmail
  | Diff TemplateDiff
  | Deleted

definition ListTemplates :: "template_drv \<Rightarrow> string \<Rightarrow> string \<Rightarrow> template_db \<Rightarrow> template_body response" where
  "ListTemplates drv key lang db =
     (let le = (\<lambda>x y. if et_TemplateKey x \<noteq> et_TemplateKey y then string_le (et_TemplateKey x) (et_TemplateKey y)
                      else if et_Language x \<noteq> et_Language y then string_le (et_Language x) (et_Language y) else et_Version x \<ge> et_Version y)
      in (case g_find (d_templates drv) \<lparr> q_where = (\<lambda>t. (key \<noteq> '''' \<longrightarrow> et_TemplateKey t = key) \<and> (lang \<noteq> '''' \<longrightarrow> et_Language t = lang) \<and> \<not> et_Deleted t),
              q_order = le, q_offset = 0, q_limit = None \<rparr> (t_templates db) of
            Inl _ \<Rightarrow> Fail StatusInternalServerError ''failed to fetch templates''
          | Inr ts \<Rightarrow> Reply StatusOK (Templates ts)))"

definition GetTemplate :: "template_drv \<Rightarrow> nat \<Rightarrow> template_db \<Rightarrow> template_body response" where
  "GetTemplate drv i db = (case find_template drv i db of Inl _ \<Rightarrow> Fail StatusNotFound ''template not found'' | Inr t \<Rightarrow> Reply StatusOK (Template t))"

text \<open>The other templates of the same key and language stop being active.\<close>

definition deactivate_others :: "template_drv \<Rightarrow> string \<Rightarrow> string \<Rightarrow> (nat \<Rightarrow> bool) \<Rightarrow> template_db \<Rightarrow> dberr + template_db" where
  "deactivate_others drv key lang which db =
     and_then (g_update (d_templates drv) (\<lambda>t. et_TemplateKey t = key \<and> et_Language t = lang \<and> which (et_ID t) \<and> \<not> et_Deleted t)
       (et_IsActive_update (\<lambda>_. False)) (t_templates db)) (\<lambda>(_, ts). Inr (db\<lparr> t_templates := ts \<rparr>))"

definition new_template :: "nat \<Rightarrow> emailTemplateRequest \<Rightarrow> EmailTemplate" where
  "new_template user r =
     \<lparr> et_ID = 0, et_TemplateKey = er_TemplateKey r, et_Language = (if er_Language r = '''' then ''en'' else er_Language r), et_Name = er_Name r,
       et_Description = er_Description r, et_Subject = er_Subject r, et_BodyHTML = er_BodyHTML r, et_BodyText = er_BodyText r,
       et_Variables = marshalVariables (er_Variables r), et_Version = 1, et_IsActive = er_IsActive r, et_CreatedBy = user, et_Deleted = False \<rparr>"

definition create_body :: "template_drv \<Rightarrow> EmailTemplate \<Rightarrow> template_db \<Rightarrow> dberr + EmailTemplate \<times> template_db" where
  "create_body drv t db =
     and_then (if et_IsActive t then deactivate_others drv (et_TemplateKey t) (et_Language t) (\<lambda>_. True) db else Inr db) (\<lambda>db1.
       and_then (g_create (d_templates drv) t (t_templates db1)) (\<lambda>(t', ts).
         and_then (g_create (d_snapshots drv) (tmpl_snapshot t' (et_CreatedBy t') ''initial version'') (t_snapshots db1)) (\<lambda>(_, vs).
           Inr (t', db1\<lparr> t_templates := ts, t_snapshots := vs \<rparr>))))"

definition CreateTemplate :: "template_drv \<Rightarrow> tx_outcome \<Rightarrow> nat \<Rightarrow> string + emailTemplateRequest \<Rightarrow> template_db \<Rightarrow> template_body response \<times> template_db" where
  "CreateTemplate drv tx user req db =
     (case req of
        Inl e \<Rightarrow> (Fail StatusBadRequest e, db)
      | Inr r \<Rightarrow>
          (case ValidateTemplate (er_Subject r) (er_BodyHTML r) (er_BodyText r) (marshalVariables (er_Variables r)) of
             Inl e \<Rightarrow> (Fail StatusBadRequest e, db)
           | Inr _ \<Rightarrow> (case transaction tx (create_body drv (new_template user r)) db of
                 (Inl _, db1) \<Rightarrow> (Fail StatusInternalServerError ''failed to create template'', db1)
               | (Inr t, db1) \<Rightarrow> (Reply StatusCreated (Template t), db1))))"

definition apply_edit :: "updateTemplateRequest \<Rightarrow> EmailTemplate \<Rightarrow> EmailTemplate" where
  "apply_edit r t =
     (let given = (\<lambda>x old. case x of None \<Rightarrow> old | Some y \<Rightarrow> y)
      in t\<lparr> et_Name := given (ur_Name r) (et_Name t), et_Description := given (ur_Description r) (et_Description t), et_Subject := given (ur_Subject r) (et_Subject t),
            et_BodyHTML := given (ur_BodyHTML r) (et_BodyHTML t), et_BodyText := given (ur_BodyText r) (et_BodyText t),
            et_Variables := (case ur_Variables r of None \<Rightarrow> et_Variables t | Some vs \<Rightarrow> marshalVariables vs) \<rparr>)"

definition UpdateTemplate :: "template_drv \<Rightarrow> tx_outcome \<Rightarrow> nat \<Rightarrow> nat \<Rightarrow> string + updateTemplateRequest \<Rightarrow> template_db \<Rightarrow> template_body response \<times> template_db" where
  "UpdateTemplate drv tx user i req db =
     (case find_template drv i db of
        Inl _ \<Rightarrow> (Fail StatusNotFound ''template not found'', db)
      | Inr t \<Rightarrow>
          (case req of
             Inl e \<Rightarrow> (Fail StatusBadRequest e, db)
           | Inr r \<Rightarrow>
               (let t1 = apply_edit r t
                in (case ValidateTemplate (et_Subject t1) (et_BodyHTML t1) (et_BodyText t1) (et_Variables t1) of
                      Inl e \<Rightarrow> (Fail StatusBadRequest e, db)
                    | Inr _ \<Rightarrow>
                        (let t2 = t1\<lparr> et_Version := add64 (et_Version t1) 1 \<rparr>
                         in (case transaction tx (save_and_record drv t2 user (ur_ChangeNote r)) db of
                               (Inl _, db1) \<Rightarrow> (Fail StatusInternalServerError ''failed to update template'', db1)
                             | (Inr _, db1) \<Rightarrow> (Reply StatusOK (Template t2), db1)))))))"

definition activate_body :: "template_drv \<Rightarrow> EmailTemplate \<Rightarrow> template_db \<Rightarrow> dberr + unit \<times> template_db" where
  "activate_body drv t db =
     and_then (deactivate_others drv (et_TemplateKey t) (et_Language t) (\<lambda>i. i \<noteq> et_ID t) db) (\<lambda>db1.
       and_then (g_update (d_templates drv) (\<lambda>x. et_ID x = et_ID t \<and> \<not> et_Deleted x) (et_IsActive_update (\<lambda>_. True)) (t_templates db1)) (\<lambda>(_, ts).
         Inr ((), db1\<lparr> t_templates := ts \<rparr>)))"

definition ActivateTemplate :: "template_drv \<Rightarrow> tx_outcome \<Rightarrow> nat \<Rightarrow> template_db \<Rightarrow> template_body response \<times> template_db" where
  "ActivateTemplate drv tx i db =
     (case find_template drv i db of
        Inl _ \<Rightarrow> (Fail StatusNotFound ''template not found'', db)
      | Inr t \<Rightarrow> (case transaction tx (activate_body drv t) db of
            (Inl _, db1) \<Rightarrow> (Fail StatusInternalServerError ''failed to activate template'', db1)
          | (Inr _, db1) \<Rightarrow> (Reply StatusOK (Template (t\<lparr> et_IsActive := True \<rparr>)), db1)))"

definition DeleteTemplate :: "template_drv \<Rightarrow> nat \<Rightarrow> template_db \<Rightarrow> template_body response \<times> template_db" where
  "DeleteTemplate drv i db =
     (case g_update (d_templates drv) (\<lambda>t. et_ID t = i \<and> \<not> et_Deleted t) (et_Deleted_update (\<lambda>_. True)) (t_templates db) of
        Inl _ \<Rightarrow> (Fail StatusInternalServerError ''failed to delete template'', db)
      | Inr (_, ts) \<Rightarrow> (Reply StatusOK Deleted, db\<lparr> t_templates := ts \<rparr>))"

definition ListTemplateVersions :: "template_drv \<Rightarrow> nat \<Rightarrow> template_db \<Rightarrow> template_body response" where
  "ListTemplateVersions drv i db =
     (case g_find (d_snapshots drv) (newest_snapshots i) (t_snapshots db) of
        Inl _ \<Rightarrow> Fail StatusInternalServerError ''failed to fetch versions'' | Inr vs \<Rightarrow> Reply StatusOK (Snapshots vs))"

definition CreateVariant :: "template_drv \<Rightarrow> nat \<Rightarrow> string + variantRequest \<Rightarrow> template_db \<Rightarrow> template_body response \<times> template_db" where
  "CreateVariant drv i req db =
     (case find_template drv i db of
        Inl _ \<Rightarrow> (Fail StatusNotFound ''template not found'', db)
      | Inr t \<Rightarrow>
          (case req of
             Inl e \<Rightarrow> (Fail StatusBadRequest e, db)
           | Inr r \<Rightarrow>
               if vr_Name r = '''' then (Fail StatusBadRequest ''Name is required'', db)
               else (case ValidateTemplate (vr_Subject r) (vr_BodyHTML r) (vr_BodyText r) (et_Variables t) of
                  Inl e \<Rightarrow> (Fail StatusBadRequest e, db)
                | Inr _ \<Rightarrow>
                    (case g_create (d_variants drv) \<lparr> va_ID = 0, va_TemplateID = i, va_Name = vr_Name r, va_Subject = vr_Subject r, va_BodyHTML = vr_BodyHTML r,
                         va_BodyText = vr_BodyText r, va_Weight = (if vr_Weight r \<le> 0 then 1 else vr_Weight r), va_IsActive = True, va_SentCount = 0 \<rparr> (t_variants db) of
                       Inl _ \<Rightarrow> (Fail StatusInternalServerError ''failed to create variant'', db)
                     | Inr (v, vs) \<Rightarrow> (Reply StatusCreated (Variant v), db\<lparr> t_variants := vs \<rparr>)))))"

definition ListVariants :: "template_drv \<Rightarrow> nat \<Rightarrow> template_db \<Rightarrow> template_body response" where
  "ListVariants drv i db =
     (case g_find (d_variants drv) (Where (\<lambda>v. va_TemplateID v = i)) (t_variants db) of
        Inl _ \<Rightarrow> Fail StatusInternalServerError ''failed to fetch variants'' | Inr vs \<Rightarrow> Reply StatusOK (Variants vs))"

definition RenderTemplate :: "template_drv \<Rightarrow> (int \<Rightarrow> int) \<Rightarrow> string + (string \<times> string \<times> (string \<rightharpoonup> string)) \<Rightarrow> template_db \<Rightarrow> template_body response \<times> template_db" where
  "RenderTemplate drv intn req db =
     (case req of
        Inl e \<Rightarrow> (Fail StatusBadRequest e, db)
      | Inr (key, lang, vars) \<Rightarrow>
          (case Render drv intn key lang vars db of
             (Inl TemplateNotFound, db1) \<Rightarrow> (Fail StatusNotFound ''no active template for this key/language'', db1)
           | (Inl (RenderError e), db1) \<Rightarrow> (Fail StatusBadRequest e, db1)
           | (Inl RenderPanic, db1) \<Rightarrow> (Crash, db1)
           | (Inr r, db1) \<Rightarrow> (Reply StatusOK (Rendered r), db1)))"

definition RollbackTemplate :: "template_drv \<Rightarrow> tx_outcome \<Rightarrow> nat \<Rightarrow> nat \<Rightarrow> string \<Rightarrow> string + string \<Rightarrow> template_db \<Rightarrow> template_body response \<times> template_db" where
  "RollbackTemplate drv tx user i version_text note db =
     (let (target, err) = Atoi version_text
      in if err \<noteq> None \<or> target < 1 then (Fail StatusBadRequest ''invalid version number'', db)
         else (case note of
                 Inl e \<Rightarrow> (Fail StatusBadRequest ''invalid template payload'', db)
               | Inr n \<Rightarrow> (case RollbackToVersion drv tx i target user n db of
                     (Inl e, db1) \<Rightarrow> (Fail StatusBadRequest e, db1) | (Inr t, db1) \<Rightarrow> (Reply StatusOK (Template t), db1))))"

definition DiffTemplateVersions :: "template_drv \<Rightarrow> nat \<Rightarrow> string \<Rightarrow> string \<Rightarrow> template_db \<Rightarrow> template_body response" where
  "DiffTemplateVersions drv i from_text to_text db =
     (let (a, ea) = Atoi from_text; (b, eb) = Atoi to_text
      in if ea \<noteq> None \<or> a < 1 then Fail StatusBadRequest ''query param 'from' must be a positive integer''
         else if eb \<noteq> None \<or> b < 1 then Fail StatusBadRequest ''query param 'to' must be a positive integer''
         else (case DiffVersions drv i a b db of Inl e \<Rightarrow> Fail StatusNotFound e | Inr d \<Rightarrow> Reply StatusOK (Diff d)))"

datatype template_req =
    TCreate tx_outcome nat "string + emailTemplateRequest"
  | TUpdate tx_outcome nat nat "string + updateTemplateRequest"
  | TActivate tx_outcome nat
  | TDelete nat
  | TVariant nat "string + variantRequest"
  | TRender "int \<Rightarrow> int" "string + (string \<times> string \<times> (string \<rightharpoonup> string))"
  | TRollback tx_outcome nat nat string "string + string"

fun template_handle :: "template_drv \<Rightarrow> template_req \<Rightarrow> template_db \<Rightarrow> template_body response \<times> template_db" where
  "template_handle drv (TCreate tx u r) db = CreateTemplate drv tx u r db"
| "template_handle drv (TUpdate tx u i r) db = UpdateTemplate drv tx u i r db"
| "template_handle drv (TActivate tx i) db = ActivateTemplate drv tx i db"
| "template_handle drv (TDelete i) db = DeleteTemplate drv i db"
| "template_handle drv (TVariant i r) db = CreateVariant drv i r db"
| "template_handle drv (TRender intn r) db = RenderTemplate drv intn r db"
| "template_handle drv (TRollback tx u i v n) db = RollbackTemplate drv tx u i v n db"


subsection \<open>What the endpoints keep\<close>

definition template_drv_ok :: "template_drv \<Rightarrow> bool" where
  "template_drv_ok drv \<longleftrightarrow> gorm_ok et_ID (\<lambda>k. et_ID_update (\<lambda>_. k)) (d_templates drv) \<and> gorm_ok ev_ID (\<lambda>k. ev_ID_update (\<lambda>_. k)) (d_snapshots drv) \<and>
     gorm_ok va_ID (\<lambda>k. va_ID_update (\<lambda>_. k)) (d_variants drv)"

lemma template_drvD:
  assumes "template_drv_ok drv"
  shows "gorm_ok et_ID (\<lambda>k. et_ID_update (\<lambda>_. k)) (d_templates drv)" "gorm_ok ev_ID (\<lambda>k. ev_ID_update (\<lambda>_. k)) (d_snapshots drv)"
    "gorm_ok va_ID (\<lambda>k. va_ID_update (\<lambda>_. k)) (d_variants drv)"
  using assms by (simp_all add: template_drv_ok_def)

definition tmpl_content :: "EmailTemplate \<Rightarrow> string \<times> string \<times> string \<times> json option" where
  "tmpl_content t = (et_Subject t, et_BodyHTML t, et_BodyText t, et_Variables t)"

definition snap_content :: "EmailTemplateVersion \<Rightarrow> string \<times> string \<times> string \<times> json option" where
  "snap_content v = (ev_Subject v, ev_BodyHTML v, ev_BodyText v, ev_Variables v)"

definition valid_content :: "string \<times> string \<times> string \<times> json option \<Rightarrow> bool" where
  "valid_content c \<longleftrightarrow> (case c of (s, h, x, v) \<Rightarrow> ValidateTemplate s h x v = Inr ())"

abbreviation history :: "nat \<Rightarrow> EmailTemplateVersion list \<Rightarrow> EmailTemplateVersion list" where
  "history i \<equiv> filter (\<lambda>v. ev_TemplateID v = i)"

text \<open>The history of a template: its versions from 1 on, each once, and the last one is what the template holds.\<close>

definition recorded :: "EmailTemplateVersion list \<Rightarrow> EmailTemplate \<Rightarrow> bool" where
  "recorded vs t \<longleftrightarrow> (let h = history (et_ID t) vs in h \<noteq> [] \<and> map ev_Version h = map int [1..<Suc (length h)] \<and> et_Version t = int (length h) \<and>
     snap_content (last h) = tmpl_content t)"

definition live :: "EmailTemplate \<Rightarrow> bool" where
  "live t \<longleftrightarrow> et_IsActive t \<and> \<not> et_Deleted t"

definition one_active :: "EmailTemplate list \<Rightarrow> bool" where
  "one_active ts \<longleftrightarrow> (\<forall>x\<in>set ts. \<forall>y\<in>set ts. live x \<and> live y \<and> et_TemplateKey x = et_TemplateKey y \<and> et_Language x = et_Language y \<longrightarrow> et_ID x = et_ID y)"

definition template_inv :: "template_db \<Rightarrow> bool" where
  "template_inv db \<longleftrightarrow> distinct (map et_ID (t_templates db)) \<and> (\<forall>t\<in>set (t_templates db). valid_content (tmpl_content t) \<and> recorded (t_snapshots db) t) \<and>
     (\<forall>v\<in>set (t_snapshots db). valid_content (snap_content v) \<and> ev_TemplateID v \<in> et_ID ` set (t_templates db)) \<and> one_active (t_templates db) \<and>
     (\<forall>v\<in>set (t_variants db). va_Name v \<noteq> '''')"

text \<open>Changes of the flags only.\<close>

definition same_text :: "EmailTemplate \<Rightarrow> EmailTemplate \<Rightarrow> bool" where
  "same_text x y \<longleftrightarrow> et_ID x = et_ID y \<and> tmpl_content x = tmpl_content y \<and> et_Version x = et_Version y"

lemma template_inv_flags:
  assumes inv: "template_inv db" and f: "\<And>t. same_text (f t) t" and act: "one_active (map f (t_templates db))"
  shows "template_inv (db\<lparr> t_templates := map f (t_templates db) \<rparr>)"
proof -
  have f': "et_ID (f t) = et_ID t" "tmpl_content (f t) = tmpl_content t" "et_Version (f t) = et_Version t" for t using f[of t] by (simp_all add: same_text_def)
  have ids: "map et_ID (map f (t_templates db)) = map et_ID (t_templates db)" by (simp add: f')
  then have "et_ID ` set (map f (t_templates db)) = et_ID ` set (t_templates db)" by (metis set_map)
  moreover have "valid_content (tmpl_content (f t)) \<and> recorded (t_snapshots db) (f t)" if "t \<in> set (t_templates db)" for t
    using inv that by (simp add: template_inv_def recorded_def f')
  ultimately show ?thesis using inv act ids unfolding template_inv_def by (simp del: map_map)
qed

lemma ValidateTemplate_content: "ValidateTemplate s h x v = Inr u \<Longrightarrow> valid_content (s, h, x, v)"
  by (simp add: valid_content_def)

lemma recorded_other: "et_ID t \<noteq> ev_TemplateID v \<Longrightarrow> recorded (vs @ [v]) t = recorded vs t"
  by (simp add: recorded_def)

lemma recorded_next:
  assumes "recorded vs t" "length vs < 2 ^ 63 - 1" "et_ID t' = et_ID t" "et_Version t' = add64 (et_Version t) 1"
    "ev_TemplateID v = et_ID t" "ev_Version v = et_Version t'" "snap_content v = tmpl_content t'"
  shows "recorded (vs @ [v]) t'"
proof -
  let ?h = "history (et_ID t) vs"
  have "length ?h < 2 ^ 63 - 1" by (rule le_less_trans[OF length_filter_le assms(2)])
  then have "int (length ?h) + 1 \<le> 2 ^ 63 - 1" by simp
  then have "et_Version t' = int (length ?h) + 1" using assms(1,4) by (simp add: recorded_def Let_def add64_exact in_i64_def)
  moreover have "[1..<Suc (Suc (length ?h))] = [1..<Suc (length ?h)] @ [Suc (length ?h)]" by simp
  ultimately show ?thesis using assms by (simp add: recorded_def Let_def del: upt_Suc)
qed

lemma save_and_record_inv:
  assumes drv: "template_drv_ok drv" and inv: "template_inv db" and fit: "length (t_snapshots db) < 2 ^ 63 - 1"
    and t: "t \<in> set (t_templates db)" and t': "et_ID t' = et_ID t" "et_TemplateKey t' = et_TemplateKey t" "et_Language t' = et_Language t"
      "live t' = live t" "et_Version t' = add64 (et_Version t) 1" "valid_content (tmpl_content t')"
    and s: "save_and_record drv t' user note db = Inr ((), db')"
  shows "template_inv db'" "t_templates db' = put_row et_ID t' (t_templates db)"
    "\<exists>k. t_snapshots db' = t_snapshots db @ [(tmpl_snapshot t' user note)\<lparr> ev_ID := k \<rparr>]"
proof -
  obtain ts v vs where sv: "g_save (d_templates drv) t' (t_templates db) = Inr ts" "g_create (d_snapshots drv) (tmpl_snapshot t' user note) (t_snapshots db) = Inr (v, vs)"
    "db' = db\<lparr> t_templates := ts, t_snapshots := vs \<rparr>"
    using s by (auto simp: save_and_record_def split: prod.splits)
  have ts: "ts = put_row et_ID t' (t_templates db)" using gorm_save[OF template_drvD(1)[OF drv] sv(1) t] t'(1) by simp
  obtain k where k: "v = (tmpl_snapshot t' user note)\<lparr> ev_ID := k \<rparr>" "vs = t_snapshots db @ [v]"
    by (rule gorm_createD[OF template_drvD(2)[OF drv] sv(2)])
  show "t_templates db' = put_row et_ID t' (t_templates db)" using sv(3) ts by simp
  show "\<exists>k. t_snapshots db' = t_snapshots db @ [(tmpl_snapshot t' user note)\<lparr> ev_ID := k \<rparr>]" using sv(3) k by auto
  have v: "ev_TemplateID v = et_ID t" "ev_Version v = et_Version t'" "snap_content v = tmpl_content t'"
    using t'(1) by (simp_all add: k(1) tmpl_snapshot_def snap_content_def tmpl_content_def)
  have d: "distinct (map et_ID (t_templates db))" using inv by (simp add: template_inv_def)
  have ids: "map et_ID ts = map et_ID (t_templates db)" unfolding ts by (rule map_key_put_row)
  have mem: "x = t' \<or> (x \<in> set (t_templates db) \<and> et_ID x \<noteq> et_ID t)" if "x \<in> set ts" for x
    using in_set_put_row[OF that[unfolded ts]] t'(1) by auto
  have rows: "valid_content (tmpl_content x) \<and> recorded vs x" if "x \<in> set ts" for x
    using mem[OF that]
  proof
    assume x: "x = t'"
    have "recorded (t_snapshots db) t" using inv t by (simp add: template_inv_def)
    then show ?thesis unfolding x k(2) using recorded_next[OF _ fit t'(1,5) v] t'(6) by blast
  next
    assume x: "x \<in> set (t_templates db) \<and> et_ID x \<noteq> et_ID t"
    then have "recorded vs x = recorded (t_snapshots db) x" unfolding k(2) by (intro recorded_other) (simp add: v(1))
    then show ?thesis using x inv by (simp add: template_inv_def)
  qed
  have act: "one_active ts" unfolding one_active_def
  proof (intro ballI impI)
    fix x y assume x: "x \<in> set ts" and y: "y \<in> set ts"
      and l: "live x \<and> live y \<and> et_TemplateKey x = et_TemplateKey y \<and> et_Language x = et_Language y"
    have *: "\<exists>z\<in>set (t_templates db). et_ID z = et_ID w \<and> live z = live w \<and> et_TemplateKey z = et_TemplateKey w \<and> et_Language z = et_Language w" if "w \<in> set ts" for w
      using mem[OF that] t t' by auto
    from *[OF x] *[OF y] show "et_ID x = et_ID y" using inv l unfolding template_inv_def one_active_def by metis
  qed
  have snaps: "valid_content (snap_content w) \<and> ev_TemplateID w \<in> et_ID ` set ts" if "w \<in> set vs" for w
  proof -
    have "et_ID ` set ts = et_ID ` set (t_templates db)" using ids by (metis set_map)
    then show ?thesis using that inv v t t'(6) unfolding k(2) template_inv_def by auto
  qed
  show "template_inv db'" using inv d ids rows act snaps by (simp add: template_inv_def sv(3))
qed


text \<open>The flags: deactivating a key and language, activating one template, deleting one.\<close>

definition switched_off :: "string \<Rightarrow> string \<Rightarrow> (nat \<Rightarrow> bool) \<Rightarrow> EmailTemplate \<Rightarrow> EmailTemplate" where
  "switched_off key lang which t = (if et_TemplateKey t = key \<and> et_Language t = lang \<and> which (et_ID t) \<and> \<not> et_Deleted t then t\<lparr> et_IsActive := False \<rparr> else t)"

definition switched_on :: "nat \<Rightarrow> EmailTemplate \<Rightarrow> EmailTemplate" where
  "switched_on i t = (if et_ID t = i \<and> \<not> et_Deleted t then t\<lparr> et_IsActive := True \<rparr> else t)"

lemma switched_off_simps [simp]:
  "same_text (switched_off key lang which t) t" "et_ID (switched_off key lang which t) = et_ID t" "et_TemplateKey (switched_off key lang which t) = et_TemplateKey t"
  "et_Language (switched_off key lang which t) = et_Language t" "et_Deleted (switched_off key lang which t) = et_Deleted t"
  "live (switched_off key lang which t) \<longleftrightarrow> live t \<and> \<not> (et_TemplateKey t = key \<and> et_Language t = lang \<and> which (et_ID t))"
  by (auto simp: switched_off_def same_text_def tmpl_content_def live_def)

lemma switched_on_simps [simp]:
  "same_text (switched_on i t) t" "et_ID (switched_on i t) = et_ID t" "et_TemplateKey (switched_on i t) = et_TemplateKey t"
  "et_Language (switched_on i t) = et_Language t" "live (switched_on i t) \<longleftrightarrow> live t \<or> (et_ID t = i \<and> \<not> et_Deleted t)"
  by (auto simp: switched_on_def same_text_def tmpl_content_def live_def)

lemma one_activeI:
  "(\<And>x y. x \<in> set ts \<Longrightarrow> y \<in> set ts \<Longrightarrow> live x \<Longrightarrow> live y \<Longrightarrow> et_TemplateKey x = et_TemplateKey y \<Longrightarrow> et_Language x = et_Language y \<Longrightarrow> et_ID x = et_ID y) \<Longrightarrow> one_active ts"
  unfolding one_active_def by blast

lemma one_activeD:
  "one_active ts \<Longrightarrow> x \<in> set ts \<Longrightarrow> y \<in> set ts \<Longrightarrow> live x \<Longrightarrow> live y \<Longrightarrow> et_TemplateKey x = et_TemplateKey y \<Longrightarrow> et_Language x = et_Language y \<Longrightarrow> et_ID x = et_ID y"
  unfolding one_active_def by blast

lemma template_invD:
  assumes "template_inv db"
  shows "distinct (map et_ID (t_templates db))" "one_active (t_templates db)"
    "t \<in> set (t_templates db) \<Longrightarrow> valid_content (tmpl_content t)" "t \<in> set (t_templates db) \<Longrightarrow> recorded (t_snapshots db) t"
    "v \<in> set (t_snapshots db) \<Longrightarrow> valid_content (snap_content v)" "v \<in> set (t_snapshots db) \<Longrightarrow> ev_TemplateID v \<in> et_ID ` set (t_templates db)"
    "w \<in> set (t_variants db) \<Longrightarrow> va_Name w \<noteq> ''''"
  using assms unfolding template_inv_def by blast+

lemma deactivate_othersD:
  assumes "template_drv_ok drv" "deactivate_others drv key lang which db = Inr db'"
  shows "db' = db\<lparr> t_templates := map (switched_off key lang which) (t_templates db) \<rparr>"
proof -
  obtain n ts where "g_update (d_templates drv) (\<lambda>t. et_TemplateKey t = key \<and> et_Language t = lang \<and> which (et_ID t) \<and> \<not> et_Deleted t)
      (et_IsActive_update (\<lambda>_. False)) (t_templates db) = Inr (n, ts)" "db' = db\<lparr> t_templates := ts \<rparr>"
    using assms(2) by (auto simp: deactivate_others_def split: prod.splits)
  moreover from this have "ts = map (switched_off key lang which) (t_templates db)"
    using gorm_updateD(2)[OF template_drvD(1)[OF assms(1)]] by (simp add: switched_off_def cong: map_cong)
  ultimately show ?thesis by simp
qed

lemma one_active_off:
  assumes "one_active ts"
  shows "one_active (map (switched_off key lang which) ts)"
proof (rule one_activeI)
  fix x y assume x: "x \<in> set (map (switched_off key lang which) ts)" and y: "y \<in> set (map (switched_off key lang which) ts)"
    and l: "live x" "live y" "et_TemplateKey x = et_TemplateKey y" "et_Language x = et_Language y"
  obtain x0 where x0: "x0 \<in> set ts" "x = switched_off key lang which x0" using x by auto
  obtain y0 where y0: "y0 \<in> set ts" "y = switched_off key lang which y0" using y by auto
  show "et_ID x = et_ID y" using l x0(2) y0(2) one_activeD[OF assms x0(1) y0(1)] by simp
qed

lemma deactivate_others_inv:
  assumes "template_drv_ok drv" "template_inv db" "deactivate_others drv key lang which db = Inr db'"
  shows "template_inv db'"
  unfolding deactivate_othersD[OF assms(1,3)] by (rule template_inv_flags[OF assms(2)]) (use assms(2) in \<open>simp_all add: one_active_off template_invD(2)\<close>)

lemma create_body_inv:
  assumes drv: "template_drv_ok drv" and inv: "template_inv db" and valid: "valid_content (tmpl_content t)" "et_Version t = 1"
    and c: "create_body drv t db = Inr (t', db')"
  shows "template_inv db'"
proof -
  obtain db1 where db1: "(if et_IsActive t then deactivate_others drv (et_TemplateKey t) (et_Language t) (\<lambda>_. True) db else Inr db) = Inr db1"
    using c by (auto simp: create_body_def)
  have inv1: "template_inv db1"
    using db1 deactivate_others_inv[OF drv inv, of "et_TemplateKey t" "et_Language t" "\<lambda>_. True" db1] inv by (auto split: if_splits)
  have off: "\<not> (et_TemplateKey x = et_TemplateKey t \<and> et_Language x = et_Language t)" if "live t" "x \<in> set (t_templates db1)" "live x" for x
  proof -
    have "t_templates db1 = map (switched_off (et_TemplateKey t) (et_Language t) (\<lambda>_. True)) (t_templates db)"
      using db1 that(1) deactivate_othersD[OF drv, of "et_TemplateKey t" "et_Language t" "\<lambda>_. True" db db1] by (simp add: live_def)
    then show ?thesis using that(2,3) by auto
  qed
  obtain ts v vs where cr: "g_create (d_templates drv) t (t_templates db1) = Inr (t', ts)"
    "g_create (d_snapshots drv) (tmpl_snapshot t' (et_CreatedBy t') ''initial version'') (t_snapshots db1) = Inr (v, vs)"
    "db' = db1\<lparr> t_templates := ts, t_snapshots := vs \<rparr>"
    using c db1 by (auto simp: create_body_def split: prod.splits)
  obtain k where k: "k \<notin> et_ID ` set (t_templates db1)" "t' = t\<lparr> et_ID := k \<rparr>" "ts = t_templates db1 @ [t']"
    by (rule gorm_createD[OF template_drvD(1)[OF drv] cr(1)])
  obtain j where j: "v = (tmpl_snapshot t' (et_CreatedBy t') ''initial version'')\<lparr> ev_ID := j \<rparr>" "vs = t_snapshots db1 @ [v]"
    by (rule gorm_createD[OF template_drvD(2)[OF drv] cr(2)])
  have v: "ev_TemplateID v = k" "ev_Version v = 1" "snap_content v = tmpl_content t'" "tmpl_content t' = tmpl_content t" "et_ID t' = k" "et_Version t' = 1"
    using valid(2) by (simp_all add: j(1) k(2) tmpl_snapshot_def snap_content_def tmpl_content_def)
  have "ev_TemplateID w \<noteq> k" if "w \<in> set (t_snapshots db1)" for w using template_invD(6)[OF inv1 that] k(1) by metis
  then have none: "history k (t_snapshots db1) = []" by (simp add: filter_empty_conv)
  then have rec: "recorded vs t'" using v by (simp add: recorded_def j(2))
  have old: "recorded vs x" if "x \<in> set (t_templates db1)" for x
  proof -
    have "et_ID x \<noteq> k" using that k(1) by auto
    then have "recorded vs x = recorded (t_snapshots db1) x" unfolding j(2) by (intro recorded_other) (simp add: v(1))
    then show ?thesis using template_invD(4)[OF inv1 that] by simp
  qed
  have t': "live t' = live t" "et_TemplateKey t' = et_TemplateKey t" "et_Language t' = et_Language t" by (simp_all add: k(2) live_def)
  have act: "one_active ts"
  proof (rule one_activeI)
    fix x y assume "x \<in> set ts" "y \<in> set ts" "live x" "live y" "et_TemplateKey x = et_TemplateKey y" "et_Language x = et_Language y"
    then show "et_ID x = et_ID y" using off[of x] off[of y] t' one_activeD[OF template_invD(2)[OF inv1], of x y] by (auto simp: k(3))
  qed
  have "distinct (map et_ID ts)" using template_invD(1)[OF inv1] k(1) v(5) by (simp add: k(3))
  moreover have "valid_content (tmpl_content x) \<and> recorded vs x" if "x \<in> set ts" for x
    using that template_invD(3)[OF inv1] old rec v(4) valid(1) by (auto simp: k(3))
  moreover have "valid_content (snap_content w) \<and> ev_TemplateID w \<in> et_ID ` set ts" if "w \<in> set vs" for w
    using that template_invD(5,6)[OF inv1] v valid(1) by (auto simp: j(2) k(3))
  ultimately show ?thesis using act template_invD(7)[OF inv1] unfolding cr(3) template_inv_def by simp
qed

lemma activate_body_inv:
  assumes drv: "template_drv_ok drv" and inv: "template_inv db" and t: "t \<in> set (t_templates db)" and a: "activate_body drv t db = Inr (u, db')"
  shows "template_inv db'"
proof -
  obtain db1 n ts where d: "deactivate_others drv (et_TemplateKey t) (et_Language t) (\<lambda>i. i \<noteq> et_ID t) db = Inr db1"
    and up: "g_update (d_templates drv) (\<lambda>x. et_ID x = et_ID t \<and> \<not> et_Deleted x) (et_IsActive_update (\<lambda>_. True)) (t_templates db1) = Inr (n, ts)"
      "db' = db1\<lparr> t_templates := ts \<rparr>"
    using a by (auto simp: activate_body_def split: prod.splits)
  let ?off = "switched_off (et_TemplateKey t) (et_Language t) (\<lambda>i. i \<noteq> et_ID t)"
  have inv1: "template_inv db1" by (rule deactivate_others_inv[OF drv inv d])
  have db1: "t_templates db1 = map ?off (t_templates db)" using deactivate_othersD[OF drv d] by simp
  have ts: "ts = map (switched_on (et_ID t)) (t_templates db1)"
    using gorm_updateD(2)[OF template_drvD(1)[OF drv] up(1)] by (simp add: switched_on_def cong: map_cong)
  have key: "et_TemplateKey x = et_TemplateKey t \<and> et_Language x = et_Language t" if "x \<in> set (t_templates db)" "et_ID x = et_ID t" for x
    using distinct_key_unique[OF template_invD(1)[OF inv] that(1) t that(2)] by simp
  have "one_active (map (switched_on (et_ID t)) (t_templates db1))"
  proof (rule one_activeI)
    fix x y assume x: "x \<in> set (map (switched_on (et_ID t)) (t_templates db1))" and y: "y \<in> set (map (switched_on (et_ID t)) (t_templates db1))"
      and l: "live x" "live y" "et_TemplateKey x = et_TemplateKey y" "et_Language x = et_Language y"
    obtain x0 where x0: "x0 \<in> set (t_templates db)" "x = switched_on (et_ID t) (?off x0)" using x by (auto simp: db1)
    obtain y0 where y0: "y0 \<in> set (t_templates db)" "y = switched_on (et_ID t) (?off y0)" using y by (auto simp: db1)
    show "et_ID x = et_ID y"
      using l x0 y0 key[OF x0(1)] key[OF y0(1)] one_activeD[OF template_invD(2)[OF inv] x0(1) y0(1)] by auto
  qed
  then show ?thesis unfolding up(2) ts by (intro template_inv_flags[OF inv1]) simp_all
qed


lemma find_templateD:
  assumes "template_drv_ok drv" "find_template drv i db = Inr t"
  shows "t \<in> set (t_templates db)" "et_ID t = i" "\<not> et_Deleted t"
  using gorm_firstD[OF template_drvD(1)[OF assms(1)] assms(2)[unfolded find_template_def]] by simp_all

text \<open>What a transaction keeps that saves a new state of a template and its snapshot.\<close>

lemma save_transaction_inv:
  assumes "template_drv_ok drv" "template_inv db" "length (t_snapshots db) < 2 ^ 63 - 1" "t \<in> set (t_templates db)"
    and "et_ID t' = et_ID t" "et_TemplateKey t' = et_TemplateKey t" "et_Language t' = et_Language t" "live t' = live t"
      "et_Version t' = add64 (et_Version t) 1" "valid_content (tmpl_content t')"
  shows "template_inv (snd (transaction tx (save_and_record drv t' user note) db))"
  by (rule transaction_keeps[where I = template_inv, OF assms(2)]) (use save_and_record_inv(1)[OF assms] in simp)

lemma apply_edit_simps [simp]:
  "et_ID (apply_edit r t) = et_ID t" "et_TemplateKey (apply_edit r t) = et_TemplateKey t" "et_Language (apply_edit r t) = et_Language t"
  "et_IsActive (apply_edit r t) = et_IsActive t" "et_Deleted (apply_edit r t) = et_Deleted t" "et_Version (apply_edit r t) = et_Version t"
  by (simp_all add: apply_edit_def Let_def)

lemma GetVersion_tmplD:
  assumes "template_drv_ok drv" "GetVersion_tmpl drv i n db = Inr v"
  shows "v \<in> set (t_snapshots db)" "ev_TemplateID v = i" "ev_Version v = n"
proof -
  have "g_first (d_snapshots drv) (\<lambda>v. ev_TemplateID v = i \<and> ev_Version v = n) (t_snapshots db) = Inr v"
    using assms(2) by (auto simp: GetVersion_tmpl_def split: sum.splits dberr.splits)
  from gorm_firstD[OF template_drvD(2)[OF assms(1)] this] show "v \<in> set (t_snapshots db)" "ev_TemplateID v = i" "ev_Version v = n" by simp_all
qed

lemma restored_simps [simp]:
  "et_ID (restored t v) = et_ID t" "et_TemplateKey (restored t v) = et_TemplateKey t" "et_Language (restored t v) = et_Language t"
  "et_IsActive (restored t v) = et_IsActive t" "et_Deleted (restored t v) = et_Deleted t" "et_Version (restored t v) = add64 (et_Version t) 1"
  "tmpl_content (restored t v) = snap_content v"
  by (simp_all add: restored_def tmpl_content_def snap_content_def)

definition few_edits :: "template_req \<Rightarrow> template_db \<Rightarrow> bool" where
  "few_edits r db \<longleftrightarrow> length (t_snapshots db) < 2 ^ 63 - 1"

lemma template_inv_variants: "template_inv db \<Longrightarrow> \<forall>v\<in>set vs. va_Name v \<noteq> '''' \<Longrightarrow> template_inv (db\<lparr> t_variants := vs \<rparr>)"
  by (simp add: template_inv_def)

lemma Render_inv:
  assumes "template_drv_ok drv" "template_inv db"
  shows "template_inv (snd (Render drv intn key lang vars db))"
proof -
  have "template_inv (count_sent drv v db)" for v
  proof (cases "g_update (d_variants drv) (\<lambda>x. va_ID x = va_ID v) (\<lambda>x. x\<lparr> va_SentCount := va_SentCount x + 1 \<rparr>) (t_variants db)")
    case (Inr p)
    obtain n vs where p: "p = (n, vs)" by fastforce
    have "\<forall>w\<in>set vs. va_Name w \<noteq> ''''" using template_invD(7)[OF assms(2)]
      unfolding gorm_updateD(2)[OF template_drvD(3)[OF assms(1)] Inr[unfolded p]] by auto
    then show ?thesis using Inr p template_inv_variants[OF assms(2)] by (simp add: count_sent_def)
  qed (use assms(2) in \<open>simp add: count_sent_def\<close>)
  then show ?thesis using assms(2) unfolding Render_def Let_def by (auto split: sum.split dberr.split option.split)
qed

interpretation templates: service "template_handle drv" "\<lambda>db. template_drv_ok drv \<and> template_inv db" few_edits for drv
proof
  fix db r assume I: "template_drv_ok drv \<and> template_inv db" and "few_edits r db"
  then have drv: "template_drv_ok drv" and inv: "template_inv db" and fit: "length (t_snapshots db) < 2 ^ 63 - 1" by (simp_all only: few_edits_def)
  have "template_inv (snd (template_handle drv r db))"
  proof (cases r)
    case (TCreate tx u req)
    show ?thesis
    proof (cases "\<exists>c. req = Inr c \<and> ValidateTemplate (er_Subject c) (er_BodyHTML c) (er_BodyText c) (marshalVariables (er_Variables c)) = Inr ()")
      case True
      then obtain c where c: "req = Inr c" "ValidateTemplate (er_Subject c) (er_BodyHTML c) (er_BodyText c) (marshalVariables (er_Variables c)) = Inr ()" by blast
      have "valid_content (tmpl_content (new_template u c))" using ValidateTemplate_content[OF c(2)] by (simp add: tmpl_content_def new_template_def)
      then have "template_inv (snd (transaction tx (create_body drv (new_template u c)) db))"
        by (intro transaction_keeps[where I = template_inv, OF inv]) (use create_body_inv[OF drv inv] in \<open>simp add: new_template_def\<close>)
      then show ?thesis using TCreate c by (simp add: CreateTemplate_def snd_if_sum)
    qed (use TCreate inv in \<open>auto simp: CreateTemplate_def split: sum.split\<close>)
  next
    case (TUpdate tx u i req)
    show ?thesis
    proof (cases "\<exists>t c. find_template drv i db = Inr t \<and> req = Inr c \<and>
        ValidateTemplate (et_Subject (apply_edit c t)) (et_BodyHTML (apply_edit c t)) (et_BodyText (apply_edit c t)) (et_Variables (apply_edit c t)) = Inr ()")
      case True
      then obtain t c where c: "find_template drv i db = Inr t" "req = Inr c"
        "ValidateTemplate (et_Subject (apply_edit c t)) (et_BodyHTML (apply_edit c t)) (et_BodyText (apply_edit c t)) (et_Variables (apply_edit c t)) = Inr ()" by blast
      let ?t = "(apply_edit c t)\<lparr> et_Version := add64 (et_Version (apply_edit c t)) 1 \<rparr>"
      have "valid_content (tmpl_content ?t)" using ValidateTemplate_content[OF c(3)] by (simp add: tmpl_content_def)
      then have "template_inv (snd (transaction tx (save_and_record drv ?t u (ur_ChangeNote c)) db))"
        by (intro save_transaction_inv[OF drv inv fit find_templateD(1)[OF drv c(1)]]) (simp_all add: live_def)
      then show ?thesis using TUpdate c by (simp add: UpdateTemplate_def Let_def snd_if_sum)
    qed (use TUpdate inv in \<open>auto simp: UpdateTemplate_def Let_def split: sum.split\<close>)
  next
    case (TActivate tx i)
    have "template_inv (snd (transaction tx (activate_body drv t) db))" if "find_template drv i db = Inr t" for t
      by (rule transaction_keeps[where I = template_inv, OF inv]) (rule activate_body_inv[OF drv inv find_templateD(1)[OF drv that]])
    then show ?thesis using TActivate inv by (simp add: ActivateTemplate_def snd_if_sum split: sum.split)
  next
    case (TDelete i)
    have "template_inv (db\<lparr> t_templates := ts \<rparr>)"
      if u: "g_update (d_templates drv) (\<lambda>t. et_ID t = i \<and> \<not> et_Deleted t) (et_Deleted_update (\<lambda>_. True)) (t_templates db) = Inr (n, ts)" for n ts
    proof -
      let ?f = "\<lambda>t. if et_ID t = i \<and> \<not> et_Deleted t then t\<lparr> et_Deleted := True \<rparr> else t"
      have f: "et_ID (?f t) = et_ID t" "et_TemplateKey (?f t) = et_TemplateKey t" "et_Language (?f t) = et_Language t" "live (?f t) \<Longrightarrow> live t" for t
        by (auto simp: live_def split: if_splits)
      have "one_active (map ?f (t_templates db))"
      proof (rule one_activeI)
        fix x y assume x: "x \<in> set (map ?f (t_templates db))" and y: "y \<in> set (map ?f (t_templates db))"
          and l: "live x" "live y" "et_TemplateKey x = et_TemplateKey y" "et_Language x = et_Language y"
        obtain x0 where x0: "x0 \<in> set (t_templates db)" "x = ?f x0" using x by auto
        obtain y0 where y0: "y0 \<in> set (t_templates db)" "y = ?f y0" using y by auto
        show "et_ID x = et_ID y" using one_activeD[OF template_invD(2)[OF inv] x0(1) y0(1)] l f unfolding x0(2) y0(2) by metis
      qed
      then have "template_inv (db\<lparr> t_templates := map ?f (t_templates db) \<rparr>)"
        by (intro template_inv_flags[OF inv]) (simp_all add: same_text_def tmpl_content_def)
      then show ?thesis using gorm_updateD(2)[OF template_drvD(1)[OF drv] u] by simp
    qed
    then show ?thesis using TDelete inv by (simp add: DeleteTemplate_def split: sum.split prod.split)
  next
    case (TVariant i req)
    have "template_inv (db\<lparr> t_variants := vs \<rparr>)" if c: "g_create (d_variants drv) w (t_variants db) = Inr (v, vs)" and n: "va_Name w \<noteq> ''''" for w v vs
    proof -
      obtain k where "v = w\<lparr> va_ID := k \<rparr>" "vs = t_variants db @ [v]" by (rule gorm_createD[OF template_drvD(3)[OF drv] c])
      then show ?thesis using n template_invD(7)[OF inv] by (intro template_inv_variants[OF inv]) auto
    qed
    then show ?thesis using TVariant inv by (auto simp: CreateVariant_def split: sum.split prod.split)
  next
    case (TRender intn req)
    have "snd (RenderTemplate drv intn req db) = (case req of Inl _ \<Rightarrow> db | Inr (key, lang, vars) \<Rightarrow> snd (Render drv intn key lang vars db))"
      by (simp add: RenderTemplate_def split: sum.split prod.split render_error.split)
    then show ?thesis using TRender inv Render_inv[OF drv inv] by (simp split: sum.split prod.split)
  next
    case (TRollback tx u i v msg)
    have "template_inv (snd (RollbackToVersion drv tx i n u m db))" for n m
    proof (cases "\<exists>t s. find_template drv i db = Inr t \<and> GetVersion_tmpl drv i n db = Inr s")
      case True
      then obtain t s where ts: "find_template drv i db = Inr t" "GetVersion_tmpl drv i n db = Inr s" by blast
      have "valid_content (tmpl_content (restored t s))" using template_invD(5)[OF inv GetVersion_tmplD(1)[OF drv ts(2)]] by simp
      then have "template_inv (snd (transaction tx (save_and_record drv (restored t s) u m') db))" for m'
        by (intro save_transaction_inv[OF drv inv fit find_templateD(1)[OF drv ts(1)]]) (simp_all add: live_def)
      then show ?thesis using ts by (simp add: RollbackToVersion_def Let_def snd_if_sum)
    qed (use inv in \<open>auto simp: RollbackToVersion_def split: sum.split dberr.split\<close>)
    then show ?thesis using TRollback inv by (simp add: RollbackTemplate_def snd_if_sum split: sum.split prod.split)
  qed
  then show "template_drv_ok drv \<and> template_inv (snd (template_handle drv r db))" using drv by simp
qed


text \<open>C15: one live template, and a complete history. From empty tables, after any sequence of requests (fewer than \<open>2 ^ 63 - 1\<close> snapshots),
  whatever database calls or commits fail: at most one
  template that is not deleted is active for a key and language; the snapshots of each template carry the versions from 1 to its own, each
  once and in order, and the last one is what the template holds.\<close>

theorem template_history_complete:
  assumes "template_drv_ok drv" "t_templates db = []" "t_snapshots db = []" "t_variants db = []" "templates.all_fit drv rs db"
    and "db' = templates.run drv rs db" "t \<in> set (t_templates db')" "h = filter (\<lambda>v. ev_TemplateID v = et_ID t) (t_snapshots db')"
  shows "length (filter (\<lambda>t. et_TemplateKey t = key \<and> et_Language t = lang \<and> et_IsActive t \<and> \<not> et_Deleted t) (t_templates db')) \<le> 1 \<and>
    h \<noteq> [] \<and> map ev_Version h = map int [1..<Suc (length h)] \<and> et_Version t = int (length h) \<and>
    (et_Subject t, et_BodyHTML t, et_BodyText t, et_Variables t) = (ev_Subject (last h), ev_BodyHTML (last h), ev_BodyText (last h), ev_Variables (last h))"
proof -
  have "template_inv db" using assms(2-4) by (simp add: template_inv_def one_active_def)
  then have inv: "template_inv db'" using templates.run_inv assms(1,5,6) by blast
  let ?live = "\<lambda>t. et_TemplateKey t = key \<and> et_Language t = lang \<and> et_IsActive t \<and> \<not> et_Deleted t"
  have "length (filter ?live (t_templates db')) \<le> 1"
  proof (cases "filter ?live (t_templates db')")
    case (Cons x xs)
    have mem: "y \<in> set (t_templates db') \<and> ?live y" if "y \<in> set (x # xs)" for y using that unfolding Cons[symmetric] by simp
    have same: "et_ID y = et_ID x" if "y \<in> set (x # xs)" for y
      by (rule one_activeD[OF template_invD(2)[OF inv]]) (use mem[OF that] mem[of x] in \<open>simp_all add: live_def\<close>)
    have "distinct (map et_ID (x # xs))" using template_invD(1)[OF inv] unfolding Cons[symmetric] by (rule distinct_map_filter)
    then have "xs = []" using same[of "hd xs"] by (cases xs) simp_all
    then show ?thesis using Cons by simp
  qed simp
  moreover have "recorded (t_snapshots db') t" using template_invD(4)[OF inv assms(7)] .
  ultimately show ?thesis unfolding recorded_def assms(8)[symmetric] Let_def by (simp add: snap_content_def tmpl_content_def)
qed

text \<open>Validation looks at the three texts joined by blanks; the placeholders of each are among those it finds.\<close>

lemma valid_placeholders:
  assumes "ValidateTemplate s h x v = Inr ()" "parseVariableList v = Inr declared"
  shows "set (extractPlaceholders s) \<union> set (extractPlaceholders h) \<union> set (extractPlaceholders x) \<subseteq> set declared"
proof -
  have all: "set (extractPlaceholders (s @ '' '' @ h @ '' '' @ x)) \<subseteq> set declared"
    using assms by (auto simp: ValidateTemplate_def Let_def filter_empty_conv split: if_splits)
  have "set (extractPlaceholders (h @ '' '' @ x)) \<subseteq> set (extractPlaceholders (s @ '' '' @ h @ '' '' @ x))"
    using extractPlaceholders_parts(2)[of "h @ '' '' @ x" "s @ '' ''"] by simp
  moreover have "set (extractPlaceholders x) \<subseteq> set (extractPlaceholders (h @ '' '' @ x))"
    using extractPlaceholders_parts(2)[of x "h @ '' ''"] by simp
  ultimately show ?thesis
    using all extractPlaceholders_parts(1)[of s "'' '' @ h @ '' '' @ x"] extractPlaceholders_parts(1)[of h "'' '' @ x"] by auto
qed

text \<open>C14: no raw placeholder leaves the house. From empty tables, after any sequence of requests (fewer than \<open>2 ^ 63 - 1\<close> snapshots), when a
  template is rendered without a variant, each placeholder
  of its subject, its HTML and its text has a value, and the result is the text with every placeholder replaced by it.\<close>

theorem render_fills_every_placeholder:
  assumes "template_drv_ok drv" "t_templates db = []" "t_snapshots db = []" "t_variants db = []" "templates.all_fit drv rs db"
    and "db' = templates.run drv rs db" "Render drv intn key lang vars db' = (Inr r, db'')" "rd_Variant r = ''''"
  shows "\<exists>t\<in>set (t_templates db'). et_TemplateKey t = key \<and> et_IsActive t \<and> \<not> et_Deleted t \<and>
    set (extractPlaceholders (et_Subject t)) \<union> set (extractPlaceholders (et_BodyHTML t)) \<union> set (extractPlaceholders (et_BodyText t)) \<subseteq> dom vars \<and>
    rd_Subject r = filled (et_Subject t) (\<lambda>n. the (vars n)) \<and> rd_BodyHTML r = filled (et_BodyHTML t) (\<lambda>n. the (vars n)) \<and>
    rd_BodyText r = filled (et_BodyText t) (\<lambda>n. the (vars n))"
proof -
  have "template_inv db" using assms(2-4) by (simp add: template_inv_def one_active_def)
  then have inv: "template_inv db'" using templates.run_inv assms(1,5,6) by blast
  obtain t where a: "activeTemplate drv key lang db' = Inr t" using assms(7) by (auto simp: Render_def split: sum.splits dberr.splits)
  have "\<exists>l. g_first (d_templates drv) (\<lambda>t. et_TemplateKey t = key \<and> et_Language t = l \<and> et_IsActive t \<and> \<not> et_Deleted t) (t_templates db') = Inr t"
    using a by (auto simp: activeTemplate_def Let_def split: sum.splits dberr.splits if_splits)
  then obtain l where l: "g_first (d_templates drv) (\<lambda>t. et_TemplateKey t = key \<and> et_Language t = l \<and> et_IsActive t \<and> \<not> et_Deleted t) (t_templates db') = Inr t" by blast
  have t: "t \<in> set (t_templates db')" "et_TemplateKey t = key" "et_IsActive t" "\<not> et_Deleted t" using gorm_firstD[OF template_drvD(1)[OF assms(1)] l] by simp_all
  have none: "selectVariant drv intn (et_ID t) db' = Inr None"
  proof (rule ccontr)
    assume "selectVariant drv intn (et_ID t) db' \<noteq> Inr None"
    then obtain v where v: "selectVariant drv intn (et_ID t) db' = Inr (Some v)"
      using assms(7) a by (cases "selectVariant drv intn (et_ID t) db'") (auto simp: Render_def)
    then obtain vs p where "g_find (d_variants drv) (Where (\<lambda>v. va_TemplateID v = et_ID t \<and> va_IsActive v)) (t_variants db') = Inr vs" "pick_variant vs p = Some v"
      by (auto simp: selectVariant_def Let_def split: sum.splits if_splits)
    moreover have "pick_variant vs p = Some v \<Longrightarrow> v \<in> set vs" for p vs by (induction vs p rule: pick_variant.induct) (auto split: if_splits)
    ultimately have "v \<in> set (t_variants db')" using gorm_find_mem(1)[OF template_drvD(3)[OF assms(1)]] by fastforce
    then have "va_Name v \<noteq> ''''" using template_invD(7)[OF inv] by blast
    then show False using assms(7,8) a v by (auto simp: Render_def split: sum.splits option.splits)
  qed
  obtain declared where d: "parseVariableList (et_Variables t) = Inr declared" "find (\<lambda>n. vars n = None) declared = None"
    "r = \<lparr> rd_Subject = substitute (et_Subject t) vars, rd_BodyHTML = substitute (et_BodyHTML t) vars, rd_BodyText = substitute (et_BodyText t) vars, rd_Variant = '''' \<rparr>"
    using assms(7) a none by (auto simp: Render_def split: sum.splits option.splits)
  have "ValidateTemplate (et_Subject t) (et_BodyHTML t) (et_BodyText t) (et_Variables t) = Inr ()"
    using template_invD(3)[OF inv t(1)] by (simp add: valid_content_def tmpl_content_def)
  note declared = valid_placeholders[OF this d(1)]
  have "set declared \<subseteq> dom vars" using d(2) by (auto simp: find_None_iff)
  then have parts: "set (extractPlaceholders (et_Subject t)) \<subseteq> dom vars" "set (extractPlaceholders (et_BodyHTML t)) \<subseteq> dom vars"
    "set (extractPlaceholders (et_BodyText t)) \<subseteq> dom vars" using declared by auto
  then show ?thesis using t d(3) by (intro bexI[OF _ t(1)]) (simp add: substitute_filled)
qed


text \<open>The choice of a variant.\<close>

lemma total_weight_sum:
  "0 \<le> t \<Longrightarrow> t + (\<Sum>v\<leftarrow>vs. max 0 (va_Weight v)) < 2 ^ 63 \<Longrightarrow> total_weight vs t = t + (\<Sum>v\<leftarrow>vs. max 0 (va_Weight v))"
proof (induction vs arbitrary: t)
  case (Cons v vs)
  have s: "0 \<le> (\<Sum>v\<leftarrow>vs. max 0 (va_Weight v))" by (rule sum_list_nonneg_int) simp
  show ?case
  proof (cases "va_Weight v > 0")
    case True
    then have "add64 t (va_Weight v) = t + va_Weight v" using Cons.prems s by (intro add64_exact) (simp add: in_i64_def max_def)
    then show ?thesis using True Cons.prems Cons.IH[of "t + va_Weight v"] by (simp add: max_def add.assoc)
  next
    case False
    then have "max 0 (va_Weight v) = 0" by simp
    then show ?thesis using False Cons.prems Cons.IH[of t] by simp
  qed
qed simp

lemma pick_variant_mem: "pick_variant vs p = Some v \<Longrightarrow> v \<in> set vs"
  by (induction vs p rule: pick_variant.induct) (auto split: if_splits)

lemma pick_variant_share:
  assumes "distinct vs" "v \<in> set vs" "0 < va_Weight v"
  shows "card {p. 0 \<le> p \<and> p < (\<Sum>v\<leftarrow>vs. max 0 (va_Weight v)) \<and> pick_variant vs p = Some v} = nat (va_Weight v)"
  using assms
proof (induction vs)
  case (Cons x xs)
  let ?W = "\<Sum>v\<leftarrow>xs. max 0 (va_Weight v)" and ?w = "va_Weight x"
  have W: "0 \<le> ?W" by (rule sum_list_nonneg_int) simp
  show ?case
  proof (cases "?w \<le> 0")
    case True
    then have "v \<in> set xs" using Cons.prems by auto
    then show ?thesis using True Cons by (simp add: max_def)
  next
    case w: False
    show ?thesis
    proof (cases "v = x")
      case True
      then have "pick_variant xs p \<noteq> Some v" for p using Cons.prems(1) pick_variant_mem[of xs p v] by auto
      then have "{p. 0 \<le> p \<and> p < ?w + ?W \<and> pick_variant (x # xs) p = Some v} = {0..<?w}" using w True W by auto
      then show ?thesis using w True by (simp add: max_def)
    next
      case False
      then have v: "v \<in> set xs" using Cons.prems(2) by simp
      have "{p. 0 \<le> p \<and> p < ?w + ?W \<and> pick_variant (x # xs) p = Some v} = (\<lambda>p. p + ?w) ` {p. 0 \<le> p \<and> p < ?W \<and> pick_variant xs p = Some v}"
      proof (rule set_eqI, rule iffI)
        fix p assume "p \<in> {p. 0 \<le> p \<and> p < ?w + ?W \<and> pick_variant (x # xs) p = Some v}"
        then have "p - ?w \<in> {p. 0 \<le> p \<and> p < ?W \<and> pick_variant xs p = Some v}" using w False by (simp split: if_splits)
        then show "p \<in> (\<lambda>p. p + ?w) ` {p. 0 \<le> p \<and> p < ?W \<and> pick_variant xs p = Some v}" by (rule rev_image_eqI) simp
      qed (use w in auto)
      then have "card {p. 0 \<le> p \<and> p < ?w + ?W \<and> pick_variant (x # xs) p = Some v} = card {p. 0 \<le> p \<and> p < ?W \<and> pick_variant xs p = Some v}"
        by (simp add: card_image inj_on_def)
      then show ?thesis using Cons v w by (simp add: max_def)
    qed
  qed
qed simp

text \<open>C21: variants are served by their weight. When the lookup of the active variants of a template answers with distinct rows whose positive
  weights add up to less than \<open>2^63\<close>, then of the outcomes that \<open>rand.Intn\<close> may have, as many select a variant of positive weight as its weight
  says. Beyond that bound the sum wraps: \<open>wrapped_weights_starve_a_variant\<close>, \<open>wrapped_weights_panic\<close>.\<close>

theorem variants_served_by_weight:
  assumes "g_find (d_variants drv) (Where (\<lambda>v. va_TemplateID v = i \<and> va_IsActive v)) (t_variants db) = Inr vs"
    and "distinct vs" "v \<in> set vs" "0 < va_Weight v" "(\<Sum>v\<leftarrow>vs. max 0 (va_Weight v)) < 2 ^ 63"
  shows "card {n. 0 \<le> n \<and> n < total_weight vs 0 \<and> selectVariant drv (\<lambda>_. n) i db = Inr (Some v)} = nat (va_Weight v)"
proof -
  have total: "total_weight vs 0 = (\<Sum>v\<leftarrow>vs. max 0 (va_Weight v))" using total_weight_sum[of 0 vs] assms(5) by simp
  have "max 0 (va_Weight v) \<le> (\<Sum>v\<leftarrow>vs. max 0 (va_Weight v))" by (rule member_le_sum_list_int[OF _ assms(3)]) simp
  then have pos: "total_weight vs 0 > 0" "vs \<noteq> []" using assms(3,4) total by auto
  have "selectVariant drv (\<lambda>_. n) i db = Inr (pick_variant vs n)" for n using assms(1) pos by (simp add: selectVariant_def)
  then show ?thesis using pick_variant_share[OF assms(2-4)] total by simp
qed

subsection \<open>Example\<close>

definition mem_templates :: template_drv where
  "mem_templates = \<lparr> d_templates = mem_gorm et_ID (\<lambda>k. et_ID_update (\<lambda>_. k)), d_snapshots = mem_gorm ev_ID (\<lambda>k. ev_ID_update (\<lambda>_. k)),
     d_variants = mem_gorm va_ID (\<lambda>k. va_ID_update (\<lambda>_. k)) \<rparr>"

lemma mem_templates_ok: "template_drv_ok mem_templates"
  by (simp add: template_drv_ok_def mem_templates_def mem_gorm_ok)

definition no_templates :: template_db where
  "no_templates = \<lparr> t_templates = [], t_snapshots = [], t_variants = [] \<rparr>"

definition demo_welcome :: emailTemplateRequest where
  "demo_welcome = \<lparr> er_TemplateKey = ''welcome'', er_Language = '''', er_Name = ''w'', er_Description = '''', er_Subject = ''Hi {{name}}'',
     er_BodyHTML = ''{{{ name }}'', er_BodyText = ''{{na me}}'', er_Variables = [''name''], er_IsActive = True \<rparr>"

definition no_edit :: updateTemplateRequest where
  "no_edit = \<lparr> ur_Name = None, ur_Description = None, ur_Subject = None, ur_BodyHTML = None, ur_BodyText = None, ur_Variables = None, ur_ChangeNote = '''' \<rparr>"

definition demo_edits :: "template_req list" where
  "demo_edits = [TCreate tx_fine 1 (Inr demo_welcome), TUpdate tx_fine 1 1 (Inr (no_edit\<lparr> ur_Subject := Some ''Hello {{ name }}'' \<rparr>)),
     TUpdate tx_fine 1 1 (Inr (no_edit\<lparr> ur_Subject := Some ''Hello {{nam}}'' \<rparr>)), TRollback tx_fine 1 1 ''1'' (Inr ''''), TCreate tx_fine 1 (Inr demo_welcome)]"

lemma few_editsI: "length (t_snapshots db) \<le> 9 \<Longrightarrow> few_edits r db"
proof -
  assume "length (t_snapshots db) \<le> 9"
  also have "(9 :: nat) < 2 ^ 63 - 1" by simp
  finally show "few_edits r db" unfolding few_edits_def .
qed

lemma demo_edits_fit: "templates.all_fit mem_templates demo_edits no_templates"
  unfolding demo_edits_def templates.all_fit.simps by (intro conjI few_editsI TrueI) code_simp+

lemma demo_templates:
  "map (\<lambda>t. (et_ID t, et_Subject t, et_Version t, et_IsActive t)) (t_templates (templates.run mem_templates demo_edits no_templates)) =
     [(1, ''Hi {{name}}'', 3, False), (2, ''Hi {{name}}'', 1, True)]"
  unfolding demo_edits_def templates.run.simps by code_simp

theorem template_history_complete_witness:
  "map ev_Version (filter (\<lambda>v. ev_TemplateID v = 1) (t_snapshots (templates.run mem_templates demo_edits no_templates))) = [1, 2, 3]"
proof -
  obtain t where t: "t \<in> set (t_templates (templates.run mem_templates demo_edits no_templates))" "et_ID t = 1" "et_Version t = 3"
    using map_eq_ConsD[OF demo_templates] by auto
  define h where "h = filter (\<lambda>v. ev_TemplateID v = et_ID t) (t_snapshots (templates.run mem_templates demo_edits no_templates))"
  have h: "map ev_Version h = map int [1..<Suc (length h)] \<and> et_Version t = int (length h)"
    using template_history_complete[OF mem_templates_ok _ _ _ demo_edits_fit refl t(1) h_def] by (simp add: no_templates_def)
  then have "length h = 3" using t(3) by simp
  then have "map ev_Version h = map int [1..<Suc 3]" using h by metis
  also have "map int [1..<Suc 3] = [1, 2, 3]" by code_simp
  finally show ?thesis using t(2) by (simp add: h_def)
qed

theorem render_fills_every_placeholder_witness:
  "let r = Render mem_templates (\<lambda>n. 0) ''welcome'' ''fr'' [''name'' \<mapsto> ''Ann''] (templates.run mem_templates demo_edits no_templates)
   in map_sum (\<lambda>_. ()) rd_BodyHTML (fst r) = Inr ''{Ann'' \<and>
     Bex (set (t_templates (templates.run mem_templates demo_edits no_templates))) (\<lambda>t. filled (et_BodyHTML t) (\<lambda>n. the ([''name'' \<mapsto> ''Ann''] n)) = ''{Ann'')"
proof -
  define db where "db = templates.run mem_templates demo_edits no_templates"
  let ?r = "Render mem_templates (\<lambda>n. 0) ''welcome'' ''fr'' [''name'' \<mapsto> ''Ann''] db"
  have m: "map_sum (\<lambda>_. ()) (\<lambda>x. (rd_BodyHTML x, rd_Variant x)) (fst ?r) = Inr (''{Ann'', '''')"
    unfolding db_def demo_edits_def templates.run.simps by code_simp
  obtain r db'' where r: "?r = (Inr r, db'')" using m by (cases ?r; cases "fst ?r") auto
  then have b: "rd_BodyHTML r = ''{Ann''" "rd_Variant r = ''''" using m by simp_all
  obtain t where "t \<in> set (t_templates db)" "rd_BodyHTML r = filled (et_BodyHTML t) (\<lambda>n. the ([''name'' \<mapsto> ''Ann''] n))"
    using render_fills_every_placeholder[OF mem_templates_ok _ _ _ demo_edits_fit db_def r b(2)] by (auto simp: no_templates_def)
  then have "Bex (set (t_templates db)) (\<lambda>t. filled (et_BodyHTML t) (\<lambda>n. the ([''name'' \<mapsto> ''Ann''] n)) = ''{Ann'')" using b(1) by metis
  then show ?thesis unfolding Let_def db_def[symmetric] using r b by simp
qed

definition demo_variant :: "nat \<Rightarrow> int \<Rightarrow> EmailTemplateVariant" where
  "demo_variant i w = \<lparr> va_ID = i, va_TemplateID = 1, va_Name = ''v'', va_Subject = '''', va_BodyHTML = '''', va_BodyText = '''', va_Weight = w, va_IsActive = True, va_SentCount = 0 \<rparr>"

theorem variants_served_by_weight_witness:
  "card {n. 0 \<le> n \<and> n < 3 \<and> selectVariant mem_templates (\<lambda>_. n) 1 (no_templates\<lparr> t_variants := [demo_variant 1 1, demo_variant 2 2] \<rparr>) = Inr (Some (demo_variant 2 2))} = 2"
proof -
  let ?db = "no_templates\<lparr> t_variants := [demo_variant 1 1, demo_variant 2 2] \<rparr>" and ?vs = "[demo_variant 1 1, demo_variant 2 2]"
  have f: "g_find (d_variants mem_templates) (Where (\<lambda>v. va_TemplateID v = 1 \<and> va_IsActive v)) (t_variants ?db) = Inr ?vs" by code_simp
  have t: "total_weight ?vs 0 = 3" by code_simp
  have "nat (va_Weight (demo_variant 2 2)) = 2" "0 < va_Weight (demo_variant 2 2)" by (simp_all add: demo_variant_def)
  then show ?thesis using variants_served_by_weight[OF f, of "demo_variant 2 2"] t by (simp add: demo_variant_def)
qed


text \<open>\<open>CreateVariant\<close> takes any positive weight: the sum wraps to 3, so that the second and the third variant are never served, or to a negative
  number, and \<open>rand.Intn\<close> panics.\<close>

lemma wrapped_weights_starve_a_variant:
  "0 \<le> n \<Longrightarrow> n < 3 \<Longrightarrow>
     selectVariant mem_templates (\<lambda>_. n) 1
       (no_templates\<lparr> t_variants := [demo_variant 1 (2 ^ 63 - 1), demo_variant 2 (2 ^ 63 - 1), demo_variant 3 5] \<rparr>) = Inr (Some (demo_variant 1 (2 ^ 63 - 1)))"
  "total_weight [demo_variant 1 (2 ^ 63 - 1), demo_variant 2 (2 ^ 63 - 1), demo_variant 3 5] 0 = 3"
proof -
  let ?vs = "[demo_variant 1 (2 ^ 63 - 1), demo_variant 2 (2 ^ 63 - 1), demo_variant 3 5]"
  have f: "g_find (d_variants mem_templates) (Where (\<lambda>v. va_TemplateID v = 1 \<and> va_IsActive v)) (t_variants (no_templates\<lparr> t_variants := ?vs \<rparr>)) = Inr ?vs"
    by code_simp
  show t: "total_weight ?vs 0 = 3" by code_simp
  assume "0 \<le> n" "n < 3"
  then show "selectVariant mem_templates (\<lambda>_. n) 1 (no_templates\<lparr> t_variants := ?vs \<rparr>) = Inr (Some (demo_variant 1 (2 ^ 63 - 1)))"
    unfolding selectVariant_def f sum.case Let_def t by (simp add: demo_variant_def)
qed

lemma wrapped_weights_panic:
  "selectVariant mem_templates intn 1 (no_templates\<lparr> t_variants := [demo_variant 1 (2 ^ 63 - 1), demo_variant 2 1] \<rparr>) = Inl RenderPanic"
  by code_simp


text \<open>A rollback that succeeds gives the template the content of the chosen version under the next number, and appends a snapshot of it.\<close>

lemma rollback_restores:
  assumes drv: "template_drv_ok drv" and inv: "template_inv db" and fit: "length (t_snapshots db) < 2 ^ 63 - 1"
    and r: "RollbackToVersion drv tx i n u m db = (Inr t', db')"
  obtains t s k m' where "t \<in> set (t_templates db)" "et_ID t = i" "s \<in> set (t_snapshots db)" "ev_TemplateID s = i" "ev_Version s = n"
    "t' = restored t s" "t_templates db' = put_row et_ID t' (t_templates db)" "t_snapshots db' = t_snapshots db @ [(tmpl_snapshot t' u m')\<lparr> ev_ID := k \<rparr>]"
proof -
  obtain t s where ts: "find_template drv i db = Inr t" "GetVersion_tmpl drv i n db = Inr s" "t' = restored t s"
    "transaction tx (save_and_record drv t' u (if m = '''' then ''rolled back to version '' @ show_int n else m)) db = (Inr (), db')"
    using r by (auto simp: RollbackToVersion_def Let_def split: sum.splits dberr.splits prod.splits)
  note t = find_templateD[OF drv ts(1)] and s = GetVersion_tmplD[OF drv ts(2)]
  have "valid_content (tmpl_content (restored t s))" using template_invD(5)[OF inv s(1)] by simp
  then have "t_templates db' = put_row et_ID t' (t_templates db)"
    "\<exists>k. t_snapshots db' = t_snapshots db @ [(tmpl_snapshot t' u (if m = '''' then ''rolled back to version '' @ show_int n else m))\<lparr> ev_ID := k \<rparr>]"
    using save_and_record_inv(2,3)[OF drv inv fit t(1) _ _ _ _ _ _ transaction_Inr[OF ts(4)]] by (simp_all add: ts(3) live_def)
  then show thesis using that[OF t(1,2) s ts(3)] by blast
qed

subsection \<open>Limits\<close>

text \<open>A variant is checked against the variables of its template when it is created, and not again when the template changes: here it is rendered
  with its placeholder left in the text.\<close>

lemma stale_variant_keeps_placeholder:
  "let db = templates.run mem_templates [TCreate tx_fine 1 (Inr demo_welcome),
       TVariant 1 (Inr \<lparr> vr_Name = ''B'', vr_Subject = ''Dear {{name}}'', vr_BodyHTML = ''b'', vr_BodyText = '''', vr_Weight = 1 \<rparr>),
       TUpdate tx_fine 1 1 (Inr (no_edit\<lparr> ur_Subject := Some ''Hi'', ur_BodyHTML := Some ''h'', ur_Variables := Some [] \<rparr>))] no_templates
   in map_sum (\<lambda>_. ()) rd_Subject (fst (Render mem_templates (\<lambda>n. 0) ''welcome'' ''en'' Map.empty db)) = Inr ''Dear {{name}}''"
  unfolding templates.run.simps by code_simp

text \<open>A rendering that fails for a missing value counts as sent.\<close>

lemma failed_render_counts_as_sent:
  "let db = templates.run mem_templates [TCreate tx_fine 1 (Inr demo_welcome),
       TVariant 1 (Inr \<lparr> vr_Name = ''B'', vr_Subject = ''Dear {{name}}'', vr_BodyHTML = ''b'', vr_BodyText = '''', vr_Weight = 1 \<rparr>)] no_templates;
       x = Render mem_templates (\<lambda>n. 0) ''welcome'' ''en'' Map.empty db
   in map_sum (\<lambda>_. ()) rd_Subject (fst x) = Inl () \<and> map va_SentCount (t_variants (snd x)) = [1]"
  unfolding templates.run.simps by code_simp

end
