(* ===== verification/WebSocketFrames.thy ===== *)
theory WebSocketFrames
  imports GoPrelude "HOL-Library.Word"
begin

unbundle bit_operations_syntax

section \<open>WebSocket frames (utils/websocket.go)\<close>

text \<open>
  The framing of RFC 6455 over a hijacked connection. The connection is the bytes written so far, the bytes that will still
  arrive before the peer closes its side, and whether it is shut; \<open>acc\<close> decides for each \<open>Write\<close> whether it succeeds
  (\<open>None\<close>) or stops with an error after some bytes. Bytes, \<open>uint16\<close> and \<open>uint64\<close> are words, \<open>int64\<close> values integers.
  \<open>make([]byte, n)\<close> panics for a negative \<open>n\<close> and beyond \<open>maxAlloc\<close>, the address space of the Go runtime on amd64.
\<close>

type_synonym byte = "8 word"
type_synonym OpCode = byte

abbreviation OpContinuation :: OpCode where "OpContinuation \<equiv> 0"
abbreviation OpText :: OpCode where "OpText \<equiv> 1"
abbreviation OpBinary :: OpCode where "OpBinary \<equiv> 2"
abbreviation OpClose :: OpCode where "OpClose \<equiv> 8"
abbreviation OpPing :: OpCode where "OpPing \<equiv> 9"
abbreviation OpPong :: OpCode where "OpPong \<equiv> 10"

definition maxAlloc :: int where "maxAlloc = 2 ^ 48"

record WSConn =
  ws_out :: "byte list"
  ws_in :: "byte list"
  ws_shut :: bool
  ws_closed :: bool

subsection \<open>Big-endian numbers (encoding/binary)\<close>

fun put_be :: "nat \<Rightarrow> 'a::len word \<Rightarrow> byte list" where
  "put_be 0 w = []"
| "put_be (Suc k) w = ucast (drop_bit (8 * k) w) # put_be k w"

fun get_be :: "'a::len word \<Rightarrow> byte list \<Rightarrow> 'a word" where
  "get_be acc [] = acc"
| "get_be acc (b # bs) = get_be (push_bit 8 acc OR ucast b) bs"

definition PutUint16 :: "16 word \<Rightarrow> byte list" where "PutUint16 v = put_be 2 v"
definition Uint16 :: "byte list \<Rightarrow> 16 word" where "Uint16 bs = get_be 0 bs"
definition PutUint64 :: "64 word \<Rightarrow> byte list" where "PutUint64 v = put_be 8 v"
definition Uint64 :: "byte list \<Rightarrow> 64 word" where "Uint64 bs = get_be 0 bs"

subsection \<open>Writing\<close>

type_synonym writer = "byte list \<Rightarrow> byte list \<Rightarrow> nat option"

definition Write :: "writer \<Rightarrow> byte list \<Rightarrow> WSConn \<Rightarrow> string option \<times> WSConn" where
  "Write acc data c =
     (if ws_shut c then (Some ''use of closed network connection'', c)
      else case acc (ws_out c) data of
             None \<Rightarrow> (None, c\<lparr> ws_out := ws_out c @ data \<rparr>)
           | Some n \<Rightarrow> (Some ''write error'', c\<lparr> ws_out := ws_out c @ take n data \<rparr>))"

definition frame_header :: "OpCode \<Rightarrow> nat \<Rightarrow> byte list" where
  "frame_header op l =
     [0x80 OR op] @
     (if l < 126 then [of_nat l]
      else if l < 65536 then 126 # PutUint16 (of_nat l)
      else 127 # PutUint64 (of_nat l))"

definition writeFrame :: "writer \<Rightarrow> OpCode \<Rightarrow> byte list \<Rightarrow> WSConn \<Rightarrow> string option \<times> WSConn" where
  "writeFrame acc op payload c =
     (case Write acc (frame_header op (length payload)) c of
        (Some e, c') \<Rightarrow> (Some e, c')
      | (None, c') \<Rightarrow> if length payload > 0 then Write acc payload c' else (None, c'))"

definition WriteMessage :: "writer \<Rightarrow> byte list \<Rightarrow> WSConn \<Rightarrow> string option \<times> WSConn" where
  "WriteMessage acc msg c =
     (if ws_closed c then (Some ''connection is closed'', c) else writeFrame acc OpText msg c)"

definition WritePong :: "writer \<Rightarrow> byte list \<Rightarrow> WSConn \<Rightarrow> string option \<times> WSConn" where
  "WritePong acc payload c = writeFrame acc OpPong payload c"

definition CloseWithCode :: "writer \<Rightarrow> 16 word \<Rightarrow> byte list \<Rightarrow> WSConn \<Rightarrow> WSConn" where
  "CloseWithCode acc code reason c =
     (if ws_closed c then c
      else (snd (writeFrame acc OpClose (PutUint16 code @ reason) (c\<lparr> ws_closed := True \<rparr>)))\<lparr> ws_shut := True \<rparr>)"

definition Close :: "writer \<Rightarrow> WSConn \<Rightarrow> WSConn" where
  "Close acc c = CloseWithCode acc 1000 [] c"

definition IsClosed :: "WSConn \<Rightarrow> bool" where
  "IsClosed c = ws_closed c"

subsection \<open>Reading\<close>

datatype read_result =
    ReadFrame OpCode "byte list"
  | ReadError string
  | ReadPanic

text \<open>\<open>io.ReadFull\<close>: the requested bytes, or an error that has consumed what there was.\<close>

definition ReadFull :: "nat \<Rightarrow> byte list \<Rightarrow> (string + byte list) \<times> byte list" where
  "ReadFull n inp =
     (if n \<le> length inp then (Inr (take n inp), drop n inp)
      else (Inl (if inp = [] then ''EOF'' else ''unexpected EOF''), []))"

definition int64_of :: "64 word \<Rightarrow> int" where "int64_of w = sint w"

text \<open>The length field behind the two header bytes.\<close>

definition read_length :: "byte \<Rightarrow> byte list \<Rightarrow> (string + int) \<times> byte list" where
  "read_length b inp =
     (let payloadLen = uint (b AND 0x7F)
      in if payloadLen = 126
         then (case ReadFull 2 inp of (Inl e, inp') \<Rightarrow> (Inl e, inp') | (Inr ext, inp') \<Rightarrow> (Inr (uint (Uint16 ext)), inp'))
         else if payloadLen = 127
         then (case ReadFull 8 inp of (Inl e, inp') \<Rightarrow> (Inl e, inp') | (Inr ext, inp') \<Rightarrow> (Inr (int64_of (Uint64 ext)), inp'))
         else (Inr payloadLen, inp))"

definition unmask :: "byte list \<Rightarrow> byte list \<Rightarrow> byte list" where
  "unmask key payload = map (\<lambda>i. payload ! i XOR key ! (i mod 4)) [0..<length payload]"

definition read_payload :: "OpCode \<Rightarrow> byte list option \<Rightarrow> int \<Rightarrow> byte list \<Rightarrow> read_result \<times> byte list" where
  "read_payload op key payloadLen inp =
     (if payloadLen < 0 \<or> payloadLen > maxAlloc then (ReadPanic, inp)
      else if payloadLen > 0
      then (case ReadFull (nat payloadLen) inp of
              (Inl e, inp') \<Rightarrow> (ReadError e, inp')
            | (Inr payload, inp') \<Rightarrow>
                (ReadFrame op (case key of None \<Rightarrow> payload | Some k \<Rightarrow> unmask k payload), inp'))
      else (ReadFrame op [], inp))"

definition readFrame :: "byte list \<Rightarrow> read_result \<times> byte list" where
  "readFrame inp =
     (case ReadFull 2 inp of
        (Inl e, inp0) \<Rightarrow> (ReadError e, inp0)
      | (Inr header, inp0) \<Rightarrow>
          (let op = header ! 0 AND 0x0F; masked = drop_bit 7 (header ! 1) AND 1
           in case read_length (header ! 1) inp0 of
                (Inl e, inp1) \<Rightarrow> (ReadError e, inp1)
              | (Inr payloadLen, inp1) \<Rightarrow>
                  if masked = 1
                  then (case ReadFull 4 inp1 of
                          (Inl e, inp2) \<Rightarrow> (ReadError e, inp2)
                        | (Inr key, inp2) \<Rightarrow> read_payload op (Some key) payloadLen inp2)
                  else read_payload op None payloadLen inp1))"

definition ReadMessage :: "WSConn \<Rightarrow> read_result \<times> WSConn" where
  "ReadMessage c = (case readFrame (ws_in c) of (r, inp) \<Rightarrow> (r, c\<lparr> ws_in := inp \<rparr>))"

subsection \<open>Facts about words\<close>

lemma get_put_be:
  fixes w :: "'a::len word"
  shows "get_be acc (put_be k w) = push_bit (8 * k) acc OR take_bit (8 * k) w"
proof (induction k arbitrary: acc)
  case (Suc k)
  have "push_bit (8 * k) (push_bit 8 acc OR ucast (ucast (drop_bit (8 * k) w) :: byte)) OR take_bit (8 * k) w =
      push_bit (8 * Suc k) acc OR take_bit (8 * Suc k) w"
    by (rule bit_word_eqI) (auto simp: bit_simps add.commute[of "8 * k" 8] not_less less_diff_conv2)
  then show ?case using Suc by simp
qed simp

lemma length_put_be [simp]: "length (put_be k w) = k"
  by (induction k) auto

lemma put_be_numeral: "put_be (numeral k) w = ucast (drop_bit (8 * pred_numeral k) w) # put_be (pred_numeral k) w"
  by (simp add: numeral_eq_Suc)

lemma Uint16_Put [simp]: "Uint16 (PutUint16 v) = v"
  by (simp add: Uint16_def PutUint16_def get_put_be take_bit_word_eq_self)

lemma Uint64_Put [simp]: "Uint64 (PutUint64 v) = v"
  by (simp add: Uint64_def PutUint64_def get_put_be take_bit_word_eq_self)

lemma small_length:
  assumes "l < 126"
  shows "drop_bit 7 (of_nat l :: byte) AND 1 = 0" "uint ((of_nat l :: byte) AND 127) = int l"
proof -
  have u: "unat (of_nat l :: byte) = l" using assms by (simp add: unat_of_nat take_bit_eq_mod)
  have "unat (drop_bit 7 (of_nat l :: byte)) = 0" using assms by (simp add: drop_bit_eq_div unat_div_distrib u)
  then have "drop_bit 7 (of_nat l :: byte) = 0" by (simp add: unat_eq_zero)
  then show "drop_bit 7 (of_nat l :: byte) AND 1 = 0" by simp
  have "(of_nat l :: byte) AND 127 = take_bit 7 (of_nat l)" by (simp add: take_bit_eq_mask mask_eq_exp_minus_1)
  moreover have "unat (take_bit 7 (of_nat l :: byte)) = l" using assms by (simp add: unsigned_take_bit_eq u) (simp add: take_bit_eq_mod)
  ultimately show "uint ((of_nat l :: byte) AND 127) = int l" by (metis uint_nat)
qed

lemma op_bits: "op AND 15 = op \<Longrightarrow> (128 OR op) AND 15 = (op :: byte)"
  by (simp add: bit.conj_disj_distrib2)

lemma ReadFull_append: "length xs = n \<Longrightarrow> ReadFull n (xs @ ys) = (Inr xs, ys)"
  by (simp add: ReadFull_def)

lemma unmask_length [simp]: "length (unmask key payload) = length payload"
  by (simp add: unmask_def)

lemma unmask_unmask: "unmask key (unmask key payload) = payload"
  by (rule nth_equalityI) (simp_all add: unmask_def word_bw_assocs)

text \<open>The length field as the writer encodes it, with the mask bit of a client frame.\<close>

definition length_field :: "byte \<Rightarrow> nat \<Rightarrow> byte list" where
  "length_field mk l =
     (if l < 126 then [mk OR of_nat l]
      else if l < 65536 then (mk OR 126) # PutUint16 (of_nat l)
      else (mk OR 127) # PutUint64 (of_nat l))"

lemma frame_header_length_field: "frame_header op l = (0x80 OR op) # length_field 0 l"
  by (simp add: frame_header_def length_field_def)

lemma read_length_field:
  assumes l: "int l \<le> maxAlloc" and mk: "mk = 0 \<or> mk = 128"
  shows "\<exists>b bs. length_field mk l = b # bs \<and> read_length b (bs @ rest) = (Inr (int l), rest) \<and>
    drop_bit 7 b AND 1 = (if mk = 128 then 1 else 0)"
proof -
  have m: "(128 OR x) AND 127 = x AND (127 :: byte)" "drop_bit 7 (128 OR x) AND 1 = (1 :: byte) OR (drop_bit 7 x AND 1)" for x :: byte
    by (simp_all add: bit.conj_disj_distrib2 drop_bit_or)
  consider "l < 126" | "126 \<le> l" "l < 65536" | "65536 \<le> l" by linarith
  then show ?thesis
  proof cases
    case 1
    then show ?thesis using mk small_length[OF 1] by (auto simp: length_field_def read_length_def m)
  next
    case 2
    have "uint (of_nat l :: 16 word) = int l" using 2(2) by (simp add: uint_nat unat_of_nat take_bit_eq_mod)
    moreover have "ReadFull 2 (PutUint16 (of_nat l) @ rest) = (Inr (PutUint16 (of_nat l)), rest)"
      by (rule ReadFull_append) (simp add: PutUint16_def)
    ultimately show ?thesis using 2 mk by (auto simp: length_field_def read_length_def)
  next
    case 3
    have "uint (of_nat l :: 64 word) = int l" using l by (simp add: uint_nat unat_of_nat take_bit_eq_mod maxAlloc_def)
    then have "sint (of_nat l :: 64 word) = int l" using l by (simp add: sint_uint signed_take_bit_int_eq_self maxAlloc_def)
    moreover have "ReadFull 8 (PutUint64 (of_nat l) @ rest) = (Inr (PutUint64 (of_nat l)), rest)"
      by (rule ReadFull_append) (simp add: PutUint64_def)
    ultimately show ?thesis using 3 mk by (auto simp: length_field_def read_length_def int64_of_def)
  qed
qed

lemma read_payload_append:
  assumes "int (length payload) \<le> maxAlloc"
  shows "read_payload op key (int (length payload)) (payload @ rest) =
    (ReadFrame op (case key of None \<Rightarrow> payload | Some k \<Rightarrow> unmask k payload), rest)"
  using assms by (auto simp: read_payload_def ReadFull_append unmask_def split: option.split)

text \<open>A client frame (RFC 6455, 5.3): the mask bit is set, the key precedes the payload, which is masked with it.\<close>

definition client_frame :: "byte list \<Rightarrow> OpCode \<Rightarrow> byte list \<Rightarrow> byte list" where
  "client_frame key op payload = (0x80 OR op) # length_field 0x80 (length payload) @ key @ unmask key payload"

lemma read_server_frame:
  assumes "op AND 15 = op" "int (length payload) \<le> maxAlloc"
  shows "readFrame (frame_header op (length payload) @ payload @ rest) = (ReadFrame op payload, rest)"
proof -
  obtain b bs where b: "length_field 0 (length payload) = b # bs" "drop_bit 7 b AND 1 = 0"
    "read_length b (bs @ payload @ rest) = (Inr (int (length payload)), payload @ rest)"
    using read_length_field[OF assms(2), of 0 "payload @ rest"] by auto
  have "ReadFull 2 (frame_header op (length payload) @ payload @ rest) = (Inr [0x80 OR op, b], bs @ payload @ rest)"
    using ReadFull_append[of "[0x80 OR op, b]" 2] by (simp add: frame_header_length_field b(1))
  then show ?thesis using b(2,3) read_payload_append[OF assms(2), of op None rest] by (simp add: readFrame_def op_bits[OF assms(1)])
qed

lemma read_client_frame:
  assumes "op AND 15 = op" "int (length payload) \<le> maxAlloc" "length key = 4"
  shows "readFrame (client_frame key op payload @ rest) = (ReadFrame op payload, rest)"
proof -
  let ?p = "unmask key payload"
  obtain b bs where b: "length_field 128 (length payload) = b # bs" "drop_bit 7 b AND 1 = 1"
    "read_length b (bs @ key @ ?p @ rest) = (Inr (int (length payload)), key @ ?p @ rest)"
    using read_length_field[OF assms(2), of 128 "key @ ?p @ rest"] by auto
  have "ReadFull 2 (client_frame key op payload @ rest) = (Inr [0x80 OR op, b], bs @ key @ ?p @ rest)"
    using ReadFull_append[of "[0x80 OR op, b]" 2] by (simp add: client_frame_def b(1))
  moreover have "ReadFull 4 (key @ ?p @ rest) = (Inr key, ?p @ rest)" using ReadFull_append[OF assms(3)] .
  ultimately show ?thesis
    using b(2,3) read_payload_append[of ?p op "Some key" rest] assms(2) by (simp add: readFrame_def op_bits[OF assms(1)] unmask_unmask)
qed

subsection \<open>Properties\<close>

fun read_n :: "nat \<Rightarrow> byte list \<Rightarrow> read_result list \<times> byte list" where
  "read_n 0 inp = ([], inp)"
| "read_n (Suc n) inp = (case readFrame inp of (r, inp') \<Rightarrow> (case read_n n inp' of (rs, rest) \<Rightarrow> (r # rs, rest)))"

fun write_all :: "writer \<Rightarrow> byte list list \<Rightarrow> WSConn \<Rightarrow> WSConn" where
  "write_all acc [] c = c"
| "write_all acc (m # ms) c = write_all acc ms (snd (WriteMessage acc m c))"

lemma WriteMessage_out:
  assumes "\<And>out data. acc out data = None" "\<not> ws_shut c" "\<not> ws_closed c"
  shows "WriteMessage acc m c = (None, c\<lparr> ws_out := ws_out c @ frame_header OpText (length m) @ m \<rparr>)"
  using assms by (cases m) (simp_all add: WriteMessage_def writeFrame_def Write_def)

lemma write_all_out:
  assumes "\<And>out data. acc out data = None"
  shows "\<not> ws_shut c \<Longrightarrow> \<not> ws_closed c \<Longrightarrow>
    ws_out (write_all acc ms c) = ws_out c @ concat (map (\<lambda>m. frame_header OpText (length m) @ m) ms)"
  by (induction ms arbitrary: c) (simp_all add: WriteMessage_out[OF assms])

text \<open>C40: frames survive the wire in both directions. What the peer reads of the bytes that a sequence of \<open>WriteMessage\<close> calls put on an
  open connection that accepts them are those messages as text frames, in order and with nothing left over; and a sequence of masked
  client frames (a four-byte key, an opcode of four bits) is read as their opcodes and unmasked payloads, whatever follows them. The lengths
  go up to \<open>maxAlloc\<close>, so that all three encodings of the length are covered.\<close>

theorem ws_frame_roundtrip:
  assumes "\<And>out data. acc out data = None" "\<not> ws_shut c" "\<not> ws_closed c" "\<And>m. m \<in> set ms \<Longrightarrow> int (length m) \<le> maxAlloc"
    and "\<And>key op p. (key, op, p) \<in> set fs \<Longrightarrow> length key = 4 \<and> op AND 15 = op \<and> int (length p) \<le> maxAlloc"
  shows "read_n (length ms) (drop (length (ws_out c)) (ws_out (write_all acc ms c))) = (map (ReadFrame OpText) ms, []) \<and>
    read_n (length fs) (concat (map (\<lambda>(key, op, p). client_frame key op p) fs) @ rest) = (map (\<lambda>(key, op, p). ReadFrame op p) fs, rest)"
proof
  have "read_n (length ms) (concat (map (\<lambda>m. frame_header OpText (length m) @ m) ms)) = (map (ReadFrame OpText) ms, [])"
    using assms(4)
  proof (induction ms)
    case (Cons m ms)
    have "readFrame (frame_header OpText (length m) @ m @ concat (map (\<lambda>m. frame_header OpText (length m) @ m) ms)) =
        (ReadFrame OpText m, concat (map (\<lambda>m. frame_header OpText (length m) @ m) ms))"
      by (rule read_server_frame) (use Cons.prems in simp_all)
    then show ?case using Cons by simp
  qed simp
  then show "read_n (length ms) (drop (length (ws_out c)) (ws_out (write_all acc ms c))) = (map (ReadFrame OpText) ms, [])"
    by (simp add: write_all_out[OF assms(1-3)])
  show "read_n (length fs) (concat (map (\<lambda>(key, op, p). client_frame key op p) fs) @ rest) = (map (\<lambda>(key, op, p). ReadFrame op p) fs, rest)"
    using assms(5)
  proof (induction fs)
    case (Cons f fs)
    obtain key op p where f: "f = (key, op, p)" by (cases f)
    have "readFrame (client_frame key op p @ concat (map (\<lambda>(key, op, p). client_frame key op p) fs) @ rest) =
        (ReadFrame op p, concat (map (\<lambda>(key, op, p). client_frame key op p) fs) @ rest)"
      by (rule read_client_frame) (use Cons.prems[of key op p] f in simp_all)
    moreover have "read_n (length fs) (concat (map (\<lambda>(key, op, p). client_frame key op p) fs) @ rest) =
        (map (\<lambda>(key, op, p). ReadFrame op p) fs, rest)" by (rule Cons.IH) (use Cons.prems in auto)
    ultimately show ?case by (simp add: f)
  qed simp
qed

definition demo_conn :: WSConn where
  "demo_conn = \<lparr> ws_out = [7], ws_in = [], ws_shut = False, ws_closed = False \<rparr>"

theorem ws_frame_roundtrip_witness:
  "read_n 2 (drop 1 (ws_out (write_all (\<lambda>_ _. None) [[104, 105], replicate 130 1] demo_conn))) =
     ([ReadFrame OpText [104, 105], ReadFrame OpText (replicate 130 1)], []) \<and>
   read_n 1 (client_frame [1, 2, 3, 4] OpPing [5, 6, 7, 8, 9] @ [0]) = ([ReadFrame OpPing [5, 6, 7, 8, 9]], [0])"
proof -
  let ?ms = "[[104, 105], replicate 130 1] :: byte list list"
  let ?fs = "[([1, 2, 3, 4], OpPing, [5, 6, 7, 8, 9])] :: (byte list \<times> OpCode \<times> byte list) list"
  have "int (length m) \<le> maxAlloc" if "m \<in> set ?ms" for m using that by (auto simp: maxAlloc_def)
  moreover have "length key = 4 \<and> op AND 15 = op \<and> int (length p) \<le> maxAlloc" if "(key, op, p) \<in> set ?fs" for key op p
    using that by (auto simp: maxAlloc_def)
  ultimately have "read_n (length ?ms) (drop (length (ws_out demo_conn)) (ws_out (write_all (\<lambda>_ _. None) ?ms demo_conn))) =
      (map (ReadFrame OpText) ?ms, []) \<and>
    read_n (length ?fs) (concat (map (\<lambda>(key, op, p). client_frame key op p) ?fs) @ [0]) = (map (\<lambda>(key, op, p). ReadFrame op p) ?fs, [0])"
    by (intro ws_frame_roundtrip) (simp_all add: demo_conn_def)
  moreover have "length ?ms = 2" "length ?fs = 1" "length (ws_out demo_conn) = 1" by (simp_all add: demo_conn_def)
  ultimately show ?thesis by (simp only: list.map concat.simps append_Nil2 prod.case)
qed

text \<open>A closed connection: messages are refused and closing again does nothing.\<close>

lemma closed_connection:
  assumes "ws_closed c"
  shows "WriteMessage acc m c = (Some ''connection is closed'', c)" "CloseWithCode acc code reason c = c"
  using assms by (simp_all add: WriteMessage_def CloseWithCode_def)

lemma Write_closed [simp]: "ws_closed (snd (Write acc d c)) = ws_closed c"
  by (simp add: Write_def split: option.split)

lemma writeFrame_closed [simp]: "ws_closed (snd (writeFrame acc op p c)) = ws_closed c"
proof (cases "Write acc (frame_header op (length p)) c")
  case (Pair e c')
  then have "ws_closed c' = ws_closed c" using Write_closed[of acc "frame_header op (length p)" c] by simp
  then show ?thesis by (cases e) (simp_all add: writeFrame_def Pair)
qed

lemma closing_closes: "ws_closed (CloseWithCode acc code reason c)"
  by (simp add: CloseWithCode_def)

text \<open>The 64-bit length is converted to \<open>int64\<close> and allocated unchecked: ten bytes of a client make the reader panic, and below
  \<open>maxAlloc\<close> it allocates whatever the header asks for before a byte of the payload has arrived.\<close>

lemma readFrame_panics:
  "fst (readFrame [0x81, 127, 0x80, 0, 0, 0, 0, 0, 0, 0]) = ReadPanic"
proof -
  have "Uint64 [0x80, 0, 0, 0, 0, 0, 0, 0] = 0x8000000000000000" by (simp add: Uint64_def)
  moreover have "sint (0x8000000000000000 :: 64 word) < 0" by simp
  ultimately show ?thesis by (simp add: readFrame_def ReadFull_def read_length_def read_payload_def int64_of_def)
qed

text \<open>A pong echoes the payload of a ping of any size, though control frames are limited to 125 bytes.\<close>

lemma pong_unlimited:
  assumes "\<not> ws_shut c" "length p = 126" "acc (ws_out c) (frame_header OpPong 126) = None"
  shows "\<exists>rest. ws_out (snd (WritePong acc p c)) = ws_out c @ [0x8A, 126, 0, 126] @ rest"
proof -
  have h: "frame_header OpPong 126 = [0x8A, 126, 0, 126]" by (simp add: frame_header_def PutUint16_def put_be_numeral)
  define hd where "hd = frame_header OpPong 126"
  define c' where "c' = c\<lparr> ws_out := ws_out c @ hd \<rparr>"
  have "Write acc hd c = (None, c')" using assms(1,3) by (simp add: Write_def hd_def c'_def)
  then have "WritePong acc p c = Write acc p c'" using assms(2) unfolding WritePong_def writeFrame_def assms(2) hd_def by simp
  moreover have "\<exists>rest. ws_out (snd (Write acc p c')) = ws_out c' @ rest" by (simp add: Write_def split: option.split)
  ultimately show ?thesis by (simp add: c'_def hd_def h)
qed

end
