(* ===== verification/Accounts.thy ===== *)
theory Accounts
  imports Gorm Decimal
begin

section \<open>Accounts (handlers/auth/auth.go, services/auth\_service.go, services/rate\_limiter.go)\<close>

text \<open>
  Registration, login with lockout, two-factor authentication with recovery codes, tokens and password reset. Outside the
  repository are bcrypt, the JWT library, SHA-1 and the random source: every request carries what they answer while it runs
  (\<open>auth_env\<close>), and one reading of the clock. JSON encoding of the backup codes and base32 decoding come with it. A JWT is known by the
  claims it carries. Sent e-mails do not change the tables and are left out.

  \<open>Save\<close> writes every column of the row as the handler read it. A user with \<open>u_Deleted\<close> is soft-deleted and no query sees it.
\<close>

subsection \<open>Data\<close>

record User =
  u_ID :: nat
  u_StellarAddress :: string
  u_Email :: string
  u_Username :: string
  u_PasswordHash :: string
  u_Role :: string
  u_KYCVerified :: bool
  u_EmailVerified :: bool
  u_EmailToken :: string
  u_EmailTokenExpires :: instant
  u_PasswordResetToken :: string
  u_PasswordResetExpires :: instant
  u_TOTPSecret :: string
  u_TOTPEnabled :: bool
  u_TOTPVerified :: bool
  u_BackupCodes :: string
  u_RecoveryCodesGeneratedAt :: "instant option"
  u_LastLoginAt :: "instant option"
  u_FailedLoginAttempts :: int
  u_LockedUntil :: "instant option"
  u_Deleted :: bool

record RecoveryCode =
  rc_ID :: nat
  rc_UserID :: nat
  rc_CodeHash :: string
  rc_UsedAt :: "instant option"

record UserSession =
  se_ID :: nat
  se_UserID :: nat
  se_SessionToken :: string
  se_IPAddress :: string
  se_UserAgent :: string
  se_ExpiresAt :: instant

record LoginAttempt =
  la_ID :: nat
  la_Email :: string
  la_Success :: bool
  la_IPAddress :: string
  la_UserAgent :: string
  la_AttemptedAt :: instant

record rateWindow =
  rw_count :: int
  rw_reset :: instant

text \<open>The tables, and the windows the e-mail limiter keeps in memory.\<close>

record auth_db =
  t_accounts :: "User list"
  t_codes :: "RecoveryCode list"
  t_sessions :: "UserSession list"
  t_attempts :: "LoginAttempt list"
  t_windows :: "string \<rightharpoonup> rateWindow"

record auth_drv =
  d_accounts :: "User gorm"
  d_codes :: "RecoveryCode gorm"
  d_sessions :: "UserSession gorm"
  d_attempts :: "LoginAttempt gorm"
  d_atx :: tx_outcome

record AuthConfig =
  ac_JWTExpirationHours :: int
  ac_RefreshTokenHours :: int
  ac_EmailTokenHours :: int
  ac_PasswordResetMinutes :: int
  ac_EmailLimit :: int
  ac_EmailWindow :: duration

text \<open>\<open>jwt.MapClaims\<close>: a JSON object with numbers and strings.\<close>

datatype claim = JNum int | JStr string

type_synonym claims = "(string \<times> claim) list"

record auth_env =
  ae_now :: instant
  ae_verify :: "string \<Rightarrow> string \<Rightarrow> bool"
  ae_hash :: "string \<Rightarrow> string + string"
  ae_secure :: "nat \<Rightarrow> string"
  ae_random :: "nat \<Rightarrow> nat list option"
  ae_sign :: "claims \<Rightarrow> string + string"
  ae_parse :: "string \<Rightarrow> claims option"
  ae_hmac :: "string \<Rightarrow> nat \<Rightarrow> nat list"
  ae_base32 :: "string \<Rightarrow> string option"
  ae_marshal :: "string list \<Rightarrow> string"
  ae_unmarshal :: "string \<Rightarrow> string list option"
  ae_totp_secret :: string
  ae_ip :: string
  ae_agent :: string

abbreviation StatusTooManyRequests :: int where "StatusTooManyRequests \<equiv> 429"

definition zero_time :: instant where "zero_time = - 62135596800 * Second"

subsection \<open>The e-mail limiter\<close>

definition EmailAllow :: "AuthConfig \<Rightarrow> instant \<Rightarrow> string \<Rightarrow> auth_db \<Rightarrow> bool \<times> auth_db" where
  "EmailAllow cfg now email db =
     (let fresh = (True, db\<lparr> t_windows := (t_windows db)(email \<mapsto> \<lparr> rw_count = 1, rw_reset = now + ac_EmailWindow cfg \<rparr>) \<rparr>)
      in case t_windows db email of
           None \<Rightarrow> fresh
         | Some w \<Rightarrow>
             if now > rw_reset w then fresh
             else if rw_count w \<ge> ac_EmailLimit cfg then (False, db)
             else (True, db\<lparr> t_windows := (t_windows db)(email \<mapsto> w\<lparr> rw_count := add64 (rw_count w) 1 \<rparr>) \<rparr>))"

subsection \<open>Lockout\<close>

abbreviation maxFailedAttempts :: int where "maxFailedAttempts \<equiv> 5"
abbreviation lockoutDuration :: duration where "lockoutDuration \<equiv> 15 * Minute"

definition by_email :: "string \<Rightarrow> User \<Rightarrow> bool" where
  "by_email email u \<longleftrightarrow> u_Email u = email \<and> \<not> u_Deleted u"

definition by_id :: "nat \<Rightarrow> User \<Rightarrow> bool" where
  "by_id i u \<longleftrightarrow> u_ID u = i \<and> \<not> u_Deleted u"

definition IsAccountLocked :: "auth_drv \<Rightarrow> instant \<Rightarrow> string \<Rightarrow> auth_db \<Rightarrow> bool" where
  "IsAccountLocked drv now email db =
     (case g_first (d_accounts drv) (by_email email) (t_accounts db) of
        Inl _ \<Rightarrow> False
      | Inr user \<Rightarrow> (case u_LockedUntil user of None \<Rightarrow> False | Some t \<Rightarrow> t > now))"

definition RecordSuccessfulAttempt :: "auth_drv \<Rightarrow> string \<Rightarrow> auth_db \<Rightarrow> dberr + auth_db" where
  "RecordSuccessfulAttempt drv email db =
     and_then (g_update (d_accounts drv) (by_email email) (\<lambda>u. u\<lparr> u_FailedLoginAttempts := 0, u_LockedUntil := None \<rparr>) (t_accounts db))
       (\<lambda>(_, us). Inr (db\<lparr> t_accounts := us \<rparr>))"

definition UnlockAccount :: "auth_drv \<Rightarrow> string \<Rightarrow> auth_db \<Rightarrow> dberr + auth_db" where
  "UnlockAccount drv email db = RecordSuccessfulAttempt drv email db"

definition recordAttempt :: "auth_drv \<Rightarrow> auth_env \<Rightarrow> string \<Rightarrow> bool \<Rightarrow> auth_db \<Rightarrow> (dberr + bool) \<times> auth_db" where
  "recordAttempt drv env email success db =
     (case g_first (d_accounts drv) (by_email email) (t_accounts db) of
        Inl _ \<Rightarrow> (Inr False, db)
      | Inr user \<Rightarrow>
          (case g_create (d_attempts drv) \<lparr> la_ID = 0, la_Email = email, la_Success = success, la_IPAddress = ae_ip env,
                  la_UserAgent = ae_agent env, la_AttemptedAt = ae_now env \<rparr> (t_attempts db) of
             Inl e \<Rightarrow> (Inl e, db)
           | Inr (_, as) \<Rightarrow>
               (let db1 = db\<lparr> t_attempts := as \<rparr>
                in if success
                   then (case RecordSuccessfulAttempt drv email db1 of Inl e \<Rightarrow> (Inl e, db1) | Inr db2 \<Rightarrow> (Inr False, db2))
                   else (let failed = add64 (u_FailedLoginAttempts user) 1;
                             locked = (failed \<ge> maxFailedAttempts);
                             f = (\<lambda>u. if locked then u\<lparr> u_FailedLoginAttempts := failed, u_LockedUntil := Some (ae_now env + lockoutDuration) \<rparr>
                                      else u\<lparr> u_FailedLoginAttempts := failed \<rparr>)
                         in case g_update (d_accounts drv) (by_email email) f (t_accounts db1) of
                              Inl e \<Rightarrow> (Inl e, db1)
                            | Inr (_, us) \<Rightarrow> (Inr locked, db1\<lparr> t_accounts := us \<rparr>)))))"

definition RecordFailedAttempt :: "auth_drv \<Rightarrow> auth_env \<Rightarrow> string \<Rightarrow> auth_db \<Rightarrow> (dberr + bool) \<times> auth_db" where
  "RecordFailedAttempt drv env email db = recordAttempt drv env email False db"

subsection \<open>Tokens\<close>

record UserInfo =
  ui_ID :: nat
  ui_StellarAddress :: string
  ui_Email :: string
  ui_Username :: string
  ui_Role :: string
  ui_EmailVerified :: bool
  ui_KYCVerified :: bool
  ui_TOTPEnabled :: bool
  ui_LastLoginAt :: "instant option"

record TokenResponse =
  to_AccessToken :: string
  to_RefreshToken :: string
  to_TokenType :: string
  to_ExpiresIn :: int
  to_User :: UserInfo

definition toUserInfo :: "User \<Rightarrow> UserInfo" where
  "toUserInfo u = \<lparr> ui_ID = u_ID u, ui_StellarAddress = u_StellarAddress u, ui_Email = u_Email u, ui_Username = u_Username u,
     ui_Role = u_Role u, ui_EmailVerified = u_EmailVerified u, ui_KYCVerified = u_KYCVerified u, ui_TOTPEnabled = u_TOTPEnabled u,
     ui_LastLoginAt = u_LastLoginAt u \<rparr>"

definition unix :: "instant \<Rightarrow> int" where "unix t = t div Second"

definition access_claims :: "AuthConfig \<Rightarrow> auth_env \<Rightarrow> User \<Rightarrow> claims" where
  "access_claims cfg env u =
     [(''user_id'', JNum (int (u_ID u))), (''email'', JStr (u_Email u)), (''username'', JStr (u_Username u)), (''role'', JStr (u_Role u)),
      (''exp'', JNum (unix (ae_now env + mul64 Hour (ac_JWTExpirationHours cfg)))), (''iat'', JNum (unix (ae_now env))),
      (''type'', JStr ''access''), (''jti'', JStr (ae_secure env 10))]"

definition refresh_claims :: "AuthConfig \<Rightarrow> auth_env \<Rightarrow> User \<Rightarrow> claims" where
  "refresh_claims cfg env u =
     [(''user_id'', JNum (int (u_ID u))), (''exp'', JNum (unix (ae_now env + mul64 Hour (ac_RefreshTokenHours cfg)))),
      (''iat'', JNum (unix (ae_now env))), (''type'', JStr ''refresh''), (''jti'', JStr (ae_secure env 11))]"

definition generateTokens :: "AuthConfig \<Rightarrow> auth_env \<Rightarrow> User \<Rightarrow> string + string \<times> string" where
  "generateTokens cfg env u =
     and_then (ae_sign env (access_claims cfg env u)) (\<lambda>accessStr.
     and_then (ae_sign env (refresh_claims cfg env u)) (\<lambda>refreshStr. Inr (accessStr, refreshStr)))"

definition token_response :: "AuthConfig \<Rightarrow> User \<Rightarrow> string \<Rightarrow> string \<Rightarrow> TokenResponse" where
  "token_response cfg u a r = \<lparr> to_AccessToken = a, to_RefreshToken = r, to_TokenType = ''Bearer'',
     to_ExpiresIn = mul64 (ac_JWTExpirationHours cfg) 3600, to_User = toUserInfo u \<rparr>"

definition user_of_claims :: "claims \<Rightarrow> nat option" where
  "user_of_claims cs = (case map_of cs ''user_id'' of Some (JNum n) \<Rightarrow> Some (nat n) | _ \<Rightarrow> None)"

definition RefreshToken :: "auth_drv \<Rightarrow> AuthConfig \<Rightarrow> auth_env \<Rightarrow> string + string \<Rightarrow> auth_db \<Rightarrow> TokenResponse response" where
  "RefreshToken drv cfg env body db =
     (case body of
        Inl _ \<Rightarrow> Fail StatusBadRequest ''Invalid request data''
      | Inr token \<Rightarrow>
          (case ae_parse env token of
             None \<Rightarrow> Fail StatusUnauthorized ''Invalid refresh token''
           | Some cs \<Rightarrow>
               (case user_of_claims cs of
                  None \<Rightarrow> Fail StatusUnauthorized ''Invalid token claims''
                | Some i \<Rightarrow>
                    (case g_first (d_accounts drv) (by_id i) (t_accounts db) of
                       Inl _ \<Rightarrow> Fail StatusUnauthorized ''User not found''
                     | Inr user \<Rightarrow>
                         (case generateTokens cfg env user of
                            Inl _ \<Rightarrow> Fail StatusInternalServerError ''Failed to generate tokens''
                          | Inr (a, r) \<Rightarrow> Reply StatusOK (token_response cfg user a r))))))"

text \<open>The middleware: the header of a request, and the user it identifies.\<close>

definition after_bearer :: "string \<Rightarrow> string option" where
  "after_bearer header =
     (case dropWhile (\<lambda>c. c \<noteq> CHR '' '') header of
        [] \<Rightarrow> None
      | _ # rest \<Rightarrow> if takeWhile (\<lambda>c. c \<noteq> CHR '' '') header = ''Bearer'' then Some rest else None)"

definition JWTAuth :: "auth_env \<Rightarrow> string \<Rightarrow> string + nat \<times> claims" where
  "JWTAuth env header =
     (if header = '''' then Inl ''Authorization header required''
      else case after_bearer header of
             None \<Rightarrow> Inl ''Invalid authorization header format''
           | Some token \<Rightarrow>
               (case ae_parse env token of
                  None \<Rightarrow> Inl ''Invalid token''
                | Some cs \<Rightarrow>
                    if map_of cs ''type'' \<noteq> Some (JStr ''access'') then Inl ''Invalid token type''
                    else (case user_of_claims cs of None \<Rightarrow> Inl ''Invalid user ID in token'' | Some i \<Rightarrow> Inr (i, cs))))"

definition roleLevel :: "string \<Rightarrow> int" where
  "roleLevel r = (if r = ''user'' then 1 else if r = ''moderator'' then 2 else if r = ''admin'' then 3 else 0)"

definition hasRequiredRole :: "string \<Rightarrow> string \<Rightarrow> bool" where
  "hasRequiredRole userRole requiredRole \<longleftrightarrow> roleLevel userRole \<ge> roleLevel requiredRole"

text \<open>The gates after it read the role that the token carried (the conversion \<open>role.(string)\<close> panics on anything else).\<close>

definition RequireRoles :: "string list \<Rightarrow> claim option \<Rightarrow> unit response" where
  "RequireRoles requiredRoles role =
     (case role of
        None \<Rightarrow> Fail StatusUnauthorized ''User role not found''
      | Some (JNum _) \<Rightarrow> Crash
      | Some (JStr userRole) \<Rightarrow>
          if list_ex (hasRequiredRole userRole) requiredRoles then Reply StatusOK ()
          else Fail StatusForbidden ''Insufficient permissions'')"

definition RequireRole :: "string \<Rightarrow> claim option \<Rightarrow> unit response" where
  "RequireRole requiredRole role =
     (case role of
        None \<Rightarrow> Fail StatusUnauthorized ''User role not found''
      | Some (JNum _) \<Rightarrow> Crash
      | Some (JStr userRole) \<Rightarrow>
          if \<not> hasRequiredRole userRole requiredRole then Fail StatusForbidden ''Insufficient permissions'' else Reply StatusOK ())"

text \<open>With optional authentication a request without a usable token goes on without a user.\<close>

definition OptionalAuth :: "auth_env \<Rightarrow> string \<Rightarrow> (nat \<times> claims) option" where
  "OptionalAuth env header =
     (if header = '''' then None
      else case after_bearer header of
             None \<Rightarrow> None
           | Some token \<Rightarrow>
               (case ae_parse env token of
                  None \<Rightarrow> None
                | Some cs \<Rightarrow>
                    if map_of cs ''type'' \<noteq> Some (JStr ''access'') then None
                    else (case user_of_claims cs of None \<Rightarrow> None | Some i \<Rightarrow> Some (i, cs))))"

lemma optional_auth_is_auth: "OptionalAuth env header = (case JWTAuth env header of Inl _ \<Rightarrow> None | Inr who \<Rightarrow> Some who)"
  by (simp add: OptionalAuth_def JWTAuth_def split: option.split)

lemma require_roles_single: "RequireRoles [r] role = RequireRole r role"
  by (simp add: RequireRoles_def RequireRole_def split: option.split claim.split)

text \<open>Accepting a list of roles accepts everyone above the least of them.\<close>

lemma require_roles_least:
  "r \<in> set rs \<Longrightarrow> \<forall>q\<in>set rs. roleLevel r \<le> roleLevel q \<Longrightarrow> RequireRoles rs role = RequireRole r role"
  unfolding RequireRoles_def RequireRole_def hasRequiredRole_def
  by (auto simp: list_ex_iff split: option.split claim.split)

subsection \<open>Registration and login\<close>

record RegisterRequest =
  re_StellarAddress :: string
  re_Email :: string
  re_Username :: string
  re_Password :: string

definition save_account :: "auth_drv \<Rightarrow> User \<Rightarrow> auth_db \<Rightarrow> auth_db" where
  "save_account drv u db = (case g_save (d_accounts drv) u (t_accounts db) of Inl _ \<Rightarrow> db | Inr us \<Rightarrow> db\<lparr> t_accounts := us \<rparr>)"

definition new_user :: "AuthConfig \<Rightarrow> auth_env \<Rightarrow> RegisterRequest \<Rightarrow> string \<Rightarrow> User" where
  "new_user cfg env req hashed =
     \<lparr> u_ID = 0, u_StellarAddress = re_StellarAddress req, u_Email = re_Email req, u_Username = re_Username req, u_PasswordHash = hashed,
       u_Role = ''user'', u_KYCVerified = False, u_EmailVerified = False, u_EmailToken = ae_secure env 0,
       u_EmailTokenExpires = ae_now env + mul64 Hour (ac_EmailTokenHours cfg), u_PasswordResetToken = '''', u_PasswordResetExpires = zero_time,
       u_TOTPSecret = '''', u_TOTPEnabled = False, u_TOTPVerified = False, u_BackupCodes = '''', u_RecoveryCodesGeneratedAt = None,
       u_LastLoginAt = None, u_FailedLoginAttempts = 0, u_LockedUntil = None, u_Deleted = False \<rparr>"

text \<open>An error of \<open>Create\<close> that mentions a unique or duplicate key is a conflict; \<open>is_conflict\<close> is that test of its text.\<close>

definition Register :: "auth_drv \<Rightarrow> AuthConfig \<Rightarrow> (dberr \<Rightarrow> bool) \<Rightarrow> auth_env \<Rightarrow> string + RegisterRequest \<Rightarrow> auth_db \<Rightarrow> nat response \<times> auth_db" where
  "Register drv cfg is_conflict env body db =
     (case body of
        Inl _ \<Rightarrow> (Fail StatusBadRequest ''Invalid request data'', db)
      | Inr req \<Rightarrow>
          (case g_first (d_accounts drv) (\<lambda>u. (u_Email u = re_Email req \<or> u_Username u = re_Username req \<or>
                    u_StellarAddress u = re_StellarAddress req) \<and> \<not> u_Deleted u) (t_accounts db) of
             Inr _ \<Rightarrow> (Fail StatusConflict ''User already exists with this email, username, or Stellar address'', db)
           | Inl _ \<Rightarrow>
               (case EmailAllow cfg (ae_now env) (re_Email req) db of
                  (False, db1) \<Rightarrow> (Fail StatusTooManyRequests ''Verification email rate limit exceeded. Please try again later.'', db1)
                | (True, db1) \<Rightarrow>
                    (case ae_hash env (re_Password req) of
                       Inl _ \<Rightarrow> (Fail StatusInternalServerError ''Failed to hash password'', db1)
                     | Inr hashed \<Rightarrow>
                         (case g_create (d_accounts drv) (new_user cfg env req hashed) (t_accounts db1) of
                            Inl e \<Rightarrow> (if is_conflict e then Fail StatusConflict ''User already exists with this email, username, or Stellar address''
                                     else Fail StatusInternalServerError ''Failed to create user'', db1)
                          | Inr (user, us) \<Rightarrow> (Reply StatusCreated (u_ID user), db1\<lparr> t_accounts := us \<rparr>))))))"

datatype login_reply = Requires2FA nat | LoggedIn TokenResponse

text \<open>The end of the three ways to log in: save the login time, issue tokens, create a session. Only \<open>Login\<close> insists on the session.\<close>

definition complete_login :: "bool \<Rightarrow> auth_drv \<Rightarrow> AuthConfig \<Rightarrow> auth_env \<Rightarrow> User \<Rightarrow> auth_db \<Rightarrow> login_reply response \<times> auth_db" where
  "complete_login strict drv cfg env user0 db =
     (let user = user0\<lparr> u_LastLoginAt := Some (ae_now env) \<rparr>;
          db1 = save_account drv user db
      in case generateTokens cfg env user of
           Inl _ \<Rightarrow> (Fail StatusInternalServerError ''Failed to generate tokens'', db1)
         | Inr (a, r) \<Rightarrow>
             (case g_create (d_sessions drv)
                     \<lparr> se_ID = 0, se_UserID = u_ID user, se_SessionToken = ae_secure env 0, se_IPAddress = ae_ip env, se_UserAgent = ae_agent env,
                       se_ExpiresAt = ae_now env + mul64 Hour (ac_RefreshTokenHours cfg) \<rparr> (t_sessions db1) of
                Inl _ \<Rightarrow> (if strict then Fail StatusInternalServerError ''Failed to create session''
                          else Reply StatusOK (LoggedIn (token_response cfg user a r)), db1)
              | Inr (_, ss) \<Rightarrow> (Reply StatusOK (LoggedIn (token_response cfg user a r)), db1\<lparr> t_sessions := ss \<rparr>)))"

abbreviation locked_message :: string where
  "locked_message \<equiv> ''Account temporarily locked due to multiple failed login attempts. Please try again later.''"

definition Login :: "auth_drv \<Rightarrow> AuthConfig \<Rightarrow> auth_env \<Rightarrow> string + string \<times> string \<Rightarrow> auth_db \<Rightarrow> login_reply response \<times> auth_db" where
  "Login drv cfg env body db =
     (case body of
        Inl _ \<Rightarrow> (Fail StatusBadRequest ''Invalid request data'', db)
      | Inr (email, password) \<Rightarrow>
          if IsAccountLocked drv (ae_now env) email db then (Fail StatusForbidden locked_message, db)
          else
            (case g_first (d_accounts drv) (by_email email) (t_accounts db) of
               Inl _ \<Rightarrow> (Fail StatusUnauthorized ''Invalid email or password'', db)
             | Inr user \<Rightarrow>
                 if \<not> ae_verify env (u_PasswordHash user) password
                 then (case RecordFailedAttempt drv env email db of
                         (Inl _, db') \<Rightarrow> (Fail StatusInternalServerError ''Failed to record login attempt'', db')
                       | (Inr True, db') \<Rightarrow> (Fail StatusForbidden locked_message, db')
                       | (Inr False, db') \<Rightarrow> (Fail StatusUnauthorized ''Invalid email or password'', db'))
                 else (case RecordSuccessfulAttempt drv email db of
                         Inl _ \<Rightarrow> (Fail StatusInternalServerError ''Failed to update login status'', db)
                       | Inr db1 \<Rightarrow>
                           if \<not> u_EmailVerified user then (Fail StatusForbidden ''Please verify your email before logging in'', db1)
                           else if u_TOTPEnabled user then (Reply StatusOK (Requires2FA (u_ID user)), db1)
                           else complete_login True drv cfg env user db1)))"

subsection \<open>E-mail verification and password reset\<close>

definition VerifyEmail :: "auth_drv \<Rightarrow> auth_env \<Rightarrow> string + string \<Rightarrow> auth_db \<Rightarrow> unit response \<times> auth_db" where
  "VerifyEmail drv env body db =
     (case body of
        Inl _ \<Rightarrow> (Fail StatusBadRequest ''Invalid request data'', db)
      | Inr token \<Rightarrow>
          (case g_first (d_accounts drv) (\<lambda>u. u_EmailToken u = token \<and> u_EmailTokenExpires u > ae_now env \<and> \<not> u_Deleted u) (t_accounts db) of
             Inl _ \<Rightarrow> (Fail StatusBadRequest ''Invalid or expired verification token'', db)
           | Inr user \<Rightarrow>
               (case g_save (d_accounts drv) (user\<lparr> u_EmailVerified := True, u_EmailToken := '''', u_EmailTokenExpires := zero_time \<rparr>) (t_accounts db) of
                  Inl _ \<Rightarrow> (Fail StatusInternalServerError ''Failed to verify email'', db)
                | Inr us \<Rightarrow> (Reply StatusOK (), db\<lparr> t_accounts := us \<rparr>))))"

definition ForgotPassword :: "auth_drv \<Rightarrow> AuthConfig \<Rightarrow> auth_env \<Rightarrow> string + string \<Rightarrow> auth_db \<Rightarrow> unit response \<times> auth_db" where
  "ForgotPassword drv cfg env body db =
     (case body of
        Inl _ \<Rightarrow> (Fail StatusBadRequest ''Invalid request data'', db)
      | Inr email \<Rightarrow>
          (case g_first (d_accounts drv) (by_email email) (t_accounts db) of
             Inl _ \<Rightarrow> (Reply StatusOK (), db)
           | Inr user \<Rightarrow>
               (case g_save (d_accounts drv) (user\<lparr> u_PasswordResetToken := ae_secure env 0,
                       u_PasswordResetExpires := ae_now env + mul64 Minute (ac_PasswordResetMinutes cfg) \<rparr>) (t_accounts db) of
                  Inl _ \<Rightarrow> (Fail StatusInternalServerError ''Failed to generate reset token'', db)
                | Inr us \<Rightarrow> (Reply StatusOK (), db\<lparr> t_accounts := us \<rparr>))))"

definition delete_sessions :: "auth_drv \<Rightarrow> nat \<Rightarrow> auth_db \<Rightarrow> dberr + auth_db" where
  "delete_sessions drv i db =
     and_then (g_delete (d_sessions drv) (\<lambda>s. se_UserID s = i) (t_sessions db)) (\<lambda>(_, ss). Inr (db\<lparr> t_sessions := ss \<rparr>))"

definition ResetPassword :: "auth_drv \<Rightarrow> auth_env \<Rightarrow> string + string \<times> string \<Rightarrow> auth_db \<Rightarrow> unit response \<times> auth_db" where
  "ResetPassword drv env body db =
     (case body of
        Inl _ \<Rightarrow> (Fail StatusBadRequest ''Invalid request data'', db)
      | Inr (token, password) \<Rightarrow>
          (case g_first (d_accounts drv) (\<lambda>u. u_PasswordResetToken u = token \<and> u_PasswordResetExpires u > ae_now env \<and> \<not> u_Deleted u)
                  (t_accounts db) of
             Inl _ \<Rightarrow> (Fail StatusBadRequest ''Invalid or expired reset token'', db)
           | Inr user \<Rightarrow>
               (case ae_hash env password of
                  Inl _ \<Rightarrow> (Fail StatusInternalServerError ''Failed to hash password'', db)
                | Inr hashed \<Rightarrow>
                    (case g_save (d_accounts drv) (user\<lparr> u_PasswordHash := hashed, u_PasswordResetToken := '''', u_PasswordResetExpires := zero_time \<rparr>)
                            (t_accounts db) of
                       Inl _ \<Rightarrow> (Fail StatusInternalServerError ''Failed to reset password'', db)
                     | Inr us \<Rightarrow>
                         (let db1 = db\<lparr> t_accounts := us \<rparr>
                          in (Reply StatusOK (), case delete_sessions drv (u_ID user) db1 of Inl _ \<Rightarrow> db1 | Inr db2 \<Rightarrow> db2))))))"

text \<open>Endpoints behind the middleware get the authenticated user (\<open>None\<close> if there is none).\<close>

definition Logout :: "auth_drv \<Rightarrow> nat option \<Rightarrow> auth_db \<Rightarrow> unit response \<times> auth_db" where
  "Logout drv who db =
     (case who of
        None \<Rightarrow> (Fail StatusUnauthorized ''User not authenticated'', db)
      | Some i \<Rightarrow>
          (case delete_sessions drv i db of
             Inl _ \<Rightarrow> (Fail StatusInternalServerError ''Failed to logout'', db)
           | Inr db' \<Rightarrow> (Reply StatusOK (), db')))"

definition delete_tx :: "auth_drv \<Rightarrow> nat \<Rightarrow> auth_db \<Rightarrow> dberr + unit \<times> auth_db" where
  "delete_tx drv i db =
     and_then (delete_sessions drv i db) (\<lambda>db1.
     and_then (g_delete (d_codes drv) (\<lambda>c. rc_UserID c = i) (t_codes db1)) (\<lambda>(_, cs).
     and_then (g_update (d_accounts drv) (by_id i) (u_Deleted_update (\<lambda>_. True)) (t_accounts db1)) (\<lambda>(_, us).
       Inr ((), db1\<lparr> t_codes := cs, t_accounts := us \<rparr>))))"

text \<open>What the protected endpoints of a user begin with.\<close>

definition with_user :: "auth_drv \<Rightarrow> nat option \<Rightarrow> auth_db \<Rightarrow> (User \<Rightarrow> 'b response \<times> auth_db) \<Rightarrow> 'b response \<times> auth_db" where
  "with_user drv who db f =
     (case who of
        None \<Rightarrow> (Fail StatusUnauthorized ''User not authenticated'', db)
      | Some i \<Rightarrow>
          (case g_first (d_accounts drv) (by_id i) (t_accounts db) of
             Inl _ \<Rightarrow> (Fail StatusNotFound ''User not found'', db)
           | Inr user \<Rightarrow> f user))"

definition DeleteAccount :: "auth_drv \<Rightarrow> nat option \<Rightarrow> auth_db \<Rightarrow> unit response \<times> auth_db" where
  "DeleteAccount drv who db =
     with_user drv who db (\<lambda>user.
       case transaction (d_atx drv) (delete_tx drv (u_ID user)) db of
         (Inl _, db') \<Rightarrow> (Fail StatusInternalServerError ''Failed to delete user account'', db')
       | (Inr _, db') \<Rightarrow> (Reply StatusOK (), db'))"

definition GetProfile :: "auth_drv \<Rightarrow> nat option \<Rightarrow> auth_db \<Rightarrow> UserInfo response \<times> auth_db" where
  "GetProfile drv who db = with_user drv who db (\<lambda>user. (Reply StatusOK (toUserInfo user), db))"


subsection \<open>Time-based one-time passwords\<close>

text \<open>\<open>ae_hmac\<close> is HMAC-SHA1 of the counter as eight bytes; its result is a list of bytes. The shifted bytes do not overlap, so the code adds them.\<close>

definition totp_code :: "nat list \<Rightarrow> nat" where
  "totp_code hash =
     (let offset = last hash mod 16
      in ((hash ! offset mod 128) * 2 ^ 24 + (hash ! (offset + 1)) * 2 ^ 16 + (hash ! (offset + 2)) * 2 ^ 8 + hash ! (offset + 3)) mod 1000000)"

definition pad6 :: "nat \<Rightarrow> string" where
  "pad6 n = replicate (6 - length (show_nat n)) (CHR ''0'') @ show_nat n"

definition computeTOTP :: "auth_env \<Rightarrow> string \<Rightarrow> nat \<Rightarrow> string" where
  "computeTOTP env key counter = pad6 (totp_code (ae_hmac env key counter))"

definition totp_window :: "auth_env \<Rightarrow> int list" where
  "totp_window env = map (\<lambda>i. quo64 (unix (ae_now env)) 30 + i) [-1, 0, 1]"

definition validateTOTP :: "auth_env \<Rightarrow> string \<Rightarrow> string \<Rightarrow> bool" where
  "validateTOTP env secret token \<longleftrightarrow>
     secret \<noteq> '''' \<and> token \<noteq> '''' \<and>
     (case ae_base32 env secret of
        None \<Rightarrow> False
      | Some key \<Rightarrow> list_ex (\<lambda>c. computeTOTP env key (nat (c mod 2 ^ 64)) = token) (totp_window env))"

subsection \<open>Two-factor set-up\<close>

definition with_body_user :: "auth_drv \<Rightarrow> nat option \<Rightarrow> string + 'q \<Rightarrow> auth_db \<Rightarrow> ('q \<Rightarrow> User \<Rightarrow> 'b response \<times> auth_db) \<Rightarrow> 'b response \<times> auth_db" where
  "with_body_user drv who body db f =
     (case who of
        None \<Rightarrow> (Fail StatusUnauthorized ''User not authenticated'', db)
      | Some i \<Rightarrow> (case body of Inl _ \<Rightarrow> (Fail StatusBadRequest ''Invalid request data'', db) | Inr req \<Rightarrow> with_user drv who db (f req)))"

definition Setup2FA :: "auth_drv \<Rightarrow> auth_env \<Rightarrow> nat option \<Rightarrow> auth_db \<Rightarrow> (string \<times> string \<times> string list) response \<times> auth_db" where
  "Setup2FA drv env who db =
     with_user drv who db (\<lambda>user.
       if u_TOTPEnabled user then (Fail StatusBadRequest ''2FA is already enabled'', db)
       else let secret = ae_totp_secret env;
                qrURL = ''otpauth://totp/kor-AssetForge:'' @ u_Email user @ ''?secret='' @ secret @
                        ''&issuer=kor-AssetForge&algorithm=SHA1&digits=6&period=30'';
                backupCodes = map (\<lambda>i. take 10 (ae_secure env i)) [0..<8]
            in (Reply StatusOK (secret, qrURL, backupCodes),
                save_account drv (user\<lparr> u_TOTPSecret := secret, u_TOTPVerified := False, u_BackupCodes := ae_marshal env backupCodes \<rparr>) db))"

definition Verify2FA :: "auth_drv \<Rightarrow> auth_env \<Rightarrow> nat option \<Rightarrow> string + string \<Rightarrow> auth_db \<Rightarrow> unit response \<times> auth_db" where
  "Verify2FA drv env who body db =
     with_body_user drv who body db (\<lambda>token user.
       if u_TOTPEnabled user then (Fail StatusBadRequest ''2FA is already enabled'', db)
       else if \<not> validateTOTP env (u_TOTPSecret user) token then (Fail StatusBadRequest ''Invalid TOTP token'', db)
       else (Reply StatusOK (), save_account drv (user\<lparr> u_TOTPEnabled := True, u_TOTPVerified := True \<rparr>) db))"

definition backup_codes :: "auth_env \<Rightarrow> User \<Rightarrow> string list" where
  "backup_codes env user = (case ae_unmarshal env (u_BackupCodes user) of None \<Rightarrow> [] | Some codes \<Rightarrow> codes)"

definition Disable2FA :: "auth_drv \<Rightarrow> auth_env \<Rightarrow> nat option \<Rightarrow> string + string \<times> string \<Rightarrow> auth_db \<Rightarrow> unit response \<times> auth_db" where
  "Disable2FA drv env who body db =
     with_body_user drv who body db (\<lambda>(password, token) user.
       if \<not> u_TOTPEnabled user then (Fail StatusBadRequest ''2FA is not enabled'', db)
       else if \<not> ae_verify env (u_PasswordHash user) password then (Fail StatusUnauthorized ''Invalid password'', db)
       else if \<not> validateTOTP env (u_TOTPSecret user) token \<and> token \<notin> set (backup_codes env user)
       then (Fail StatusBadRequest ''Invalid TOTP token or backup code'', db)
       else (Reply StatusOK (),
             save_account drv (user\<lparr> u_TOTPSecret := '''', u_TOTPEnabled := False, u_TOTPVerified := False, u_BackupCodes := '''' \<rparr>) db))"

subsection \<open>Recovery codes\<close>

abbreviation recoveryCodeCount :: nat where "recoveryCodeCount \<equiv> 10"

definition normalizeRecoveryCode :: "string \<Rightarrow> string" where
  "normalizeRecoveryCode code = ToUpper (TrimSpace (filter (\<lambda>c. c \<noteq> CHR ''-'' \<and> c \<noteq> CHR '' '') code))"

definition code_alphabet :: string where "code_alphabet = ''ABCDEFGHJKLMNPQRSTUVWXYZ23456789''"

definition format_code :: "nat list \<Rightarrow> string" where
  "format_code b =
     (let chars = map (\<lambda>v. code_alphabet ! (v mod length code_alphabet)) b
      in take 4 chars @ ''-'' @ take 4 (drop 4 chars) @ ''-'' @ take 4 (drop 8 chars))"

text \<open>\<open>ae_random\<close> gives the twelve random bytes of the \<open>i\<close>-th code, or the random source fails.\<close>

fun generateRecoveryCodes :: "auth_env \<Rightarrow> nat \<Rightarrow> string + (string \<times> string) list" where
  "generateRecoveryCodes env 0 = Inr []"
| "generateRecoveryCodes env (Suc n) =
     and_then (generateRecoveryCodes env n) (\<lambda>codes.
       (case ae_random env n of
          None \<Rightarrow> Inl ''random source failed''
        | Some b \<Rightarrow> and_then (ae_hash env (normalizeRecoveryCode (format_code b))) (\<lambda>hash. Inr (codes @ [(format_code b, hash)]))))"

definition store_codes :: "auth_drv \<Rightarrow> auth_env \<Rightarrow> nat \<Rightarrow> string list \<Rightarrow> auth_db \<Rightarrow> dberr + unit \<times> auth_db" where
  "store_codes drv env i hashes db =
     and_then (g_delete (d_codes drv) (\<lambda>c. rc_UserID c = i) (t_codes db)) (\<lambda>(_, cs).
     and_then (create_all (d_codes drv) (map (\<lambda>h. \<lparr> rc_ID = 0, rc_UserID = i, rc_CodeHash = h, rc_UsedAt = None \<rparr>) hashes) cs) (\<lambda>cs'.
     and_then (g_update (d_accounts drv) (by_id i) (u_RecoveryCodesGeneratedAt_update (\<lambda>_. Some (ae_now env))) (t_accounts db)) (\<lambda>(_, us).
       Inr ((), db\<lparr> t_codes := cs', t_accounts := us \<rparr>))))"

definition GenerateRecoveryCodes :: "auth_drv \<Rightarrow> auth_env \<Rightarrow> nat option \<Rightarrow> string + string \<times> string \<Rightarrow> auth_db \<Rightarrow>
    (string list \<times> instant) response \<times> auth_db" where
  "GenerateRecoveryCodes drv env who body db =
     with_body_user drv who body db (\<lambda>(password, token) user.
       if \<not> u_TOTPEnabled user then (Fail StatusBadRequest ''2FA must be enabled before generating recovery codes'', db)
       else if \<not> ae_verify env (u_PasswordHash user) password then (Fail StatusUnauthorized ''Invalid password'', db)
       else if \<not> validateTOTP env (u_TOTPSecret user) token then (Fail StatusBadRequest ''Invalid TOTP token'', db)
       else case generateRecoveryCodes env recoveryCodeCount of
              Inl _ \<Rightarrow> (Fail StatusInternalServerError ''Failed to generate recovery codes'', db)
            | Inr codes \<Rightarrow>
                (case transaction (d_atx drv) (store_codes drv env (u_ID user) (map snd codes)) db of
                   (Inl _, db') \<Rightarrow> (Fail StatusInternalServerError ''Failed to store recovery codes'', db')
                 | (Inr _, db') \<Rightarrow> (Reply StatusOK (map fst codes, ae_now env), db')))"

definition unused_code :: "nat \<Rightarrow> RecoveryCode \<Rightarrow> bool" where
  "unused_code i c \<longleftrightarrow> rc_UserID c = i \<and> rc_UsedAt c = None"

definition GetRecoveryCodesStatus :: "auth_drv \<Rightarrow> nat option \<Rightarrow> auth_db \<Rightarrow> (int \<times> instant option) response \<times> auth_db" where
  "GetRecoveryCodesStatus drv who db =
     with_user drv who db (\<lambda>user.
       (Reply StatusOK (case g_count (d_codes drv) (unused_code (u_ID user)) (t_codes db) of Inl _ \<Rightarrow> 0 | Inr n \<Rightarrow> n,
          u_RecoveryCodesGeneratedAt user), db))"

definition LoginWithRecoveryCode :: "auth_drv \<Rightarrow> AuthConfig \<Rightarrow> auth_env \<Rightarrow> string + nat \<times> string \<Rightarrow> auth_db \<Rightarrow> login_reply response \<times> auth_db" where
  "LoginWithRecoveryCode drv cfg env body db =
     (case body of
        Inl _ \<Rightarrow> (Fail StatusBadRequest ''Invalid request data'', db)
      | Inr (userID, code) \<Rightarrow>
          (case g_first (d_accounts drv) (by_id userID) (t_accounts db) of
             Inl _ \<Rightarrow> (Fail StatusUnauthorized ''User not found'', db)
           | Inr user \<Rightarrow>
               if \<not> u_TOTPEnabled user then (Fail StatusBadRequest ''2FA is not enabled for this user'', db)
               else
                 (case g_find (d_codes drv) (Where (unused_code (u_ID user))) (t_codes db) of
                    Inl _ \<Rightarrow> (Fail StatusInternalServerError ''Failed to verify recovery code'', db)
                  | Inr codes \<Rightarrow>
                      (case find (\<lambda>c. ae_verify env (rc_CodeHash c) (normalizeRecoveryCode code)) codes of
                         None \<Rightarrow> (Fail StatusBadRequest ''Invalid or already used recovery code'', db)
                       | Some matched \<Rightarrow>
                           (case g_save (d_codes drv) (matched\<lparr> rc_UsedAt := Some (ae_now env) \<rparr>) (t_codes db) of
                              Inl _ \<Rightarrow> (Fail StatusInternalServerError ''Failed to consume recovery code'', db)
                            | Inr cs \<Rightarrow> complete_login False drv cfg env user (db\<lparr> t_codes := cs \<rparr>))))))"

text \<open>A backup code is removed from the list when it is used.\<close>

definition LoginWith2FA :: "auth_drv \<Rightarrow> AuthConfig \<Rightarrow> auth_env \<Rightarrow> string + nat \<times> string \<Rightarrow> auth_db \<Rightarrow> login_reply response \<times> auth_db" where
  "LoginWith2FA drv cfg env body db =
     (case body of
        Inl _ \<Rightarrow> (Fail StatusBadRequest ''Invalid request data'', db)
      | Inr (userID, token) \<Rightarrow>
          (case g_first (d_accounts drv) (by_id userID) (t_accounts db) of
             Inl _ \<Rightarrow> (Fail StatusUnauthorized ''User not found'', db)
           | Inr user \<Rightarrow>
               if \<not> u_TOTPEnabled user then (Fail StatusBadRequest ''2FA is not enabled for this user'', db)
               else if validateTOTP env (u_TOTPSecret user) token then complete_login False drv cfg env user db
               else if token \<in> set (backup_codes env user)
               then complete_login False drv cfg env (user\<lparr> u_BackupCodes := ae_marshal env (remove1 token (backup_codes env user)) \<rparr>) db
               else (Fail StatusBadRequest ''Invalid TOTP token or backup code'', db)))"


subsection \<open>Drivers\<close>

definition auth_drv_ok :: "auth_drv \<Rightarrow> bool" where
  "auth_drv_ok drv \<longleftrightarrow> gorm_ok u_ID (\<lambda>k. u_ID_update (\<lambda>_. k)) (d_accounts drv) \<and> gorm_ok rc_ID (\<lambda>k. rc_ID_update (\<lambda>_. k)) (d_codes drv) \<and>
     gorm_ok se_ID (\<lambda>k. se_ID_update (\<lambda>_. k)) (d_sessions drv) \<and> gorm_ok la_ID (\<lambda>k. la_ID_update (\<lambda>_. k)) (d_attempts drv)"

definition mem_auth :: auth_drv where
  "mem_auth = \<lparr> d_accounts = mem_gorm u_ID (\<lambda>k. u_ID_update (\<lambda>_. k)), d_codes = mem_gorm rc_ID (\<lambda>k. rc_ID_update (\<lambda>_. k)),
     d_sessions = unique_gorm se_SessionToken (mem_gorm se_ID (\<lambda>k. se_ID_update (\<lambda>_. k))),
     d_attempts = mem_gorm la_ID (\<lambda>k. la_ID_update (\<lambda>_. k)), d_atx = tx_fine \<rparr>"

lemma mem_auth_ok: "auth_drv_ok mem_auth"
  by (simp add: auth_drv_ok_def mem_auth_def mem_gorm_ok unique_gorm_ok)

lemma auth_drvD:
  assumes "auth_drv_ok drv"
  shows "gorm_ok u_ID (\<lambda>k. u_ID_update (\<lambda>_. k)) (d_accounts drv)" "gorm_ok rc_ID (\<lambda>k. rc_ID_update (\<lambda>_. k)) (d_codes drv)"
    "gorm_ok se_ID (\<lambda>k. se_ID_update (\<lambda>_. k)) (d_sessions drv)" "gorm_ok la_ID (\<lambda>k. la_ID_update (\<lambda>_. k)) (d_attempts drv)"
  using assms by (simp_all add: auth_drv_ok_def)

subsection \<open>The endpoints as a service\<close>

datatype auth_req =
    ReqRegister auth_env "string + RegisterRequest"
  | ReqLogin auth_env "string + string \<times> string"
  | ReqVerifyEmail auth_env "string + string"
  | ReqForgot auth_env "string + string"
  | ReqReset auth_env "string + string \<times> string"
  | ReqLogout "nat option"
  | ReqDelete "nat option"
  | ReqSetup auth_env "nat option"
  | ReqVerify auth_env "nat option" "string + string"
  | ReqDisable auth_env "nat option" "string + string \<times> string"
  | ReqGenerate auth_env "nat option" "string + string \<times> string"
  | ReqRecovery auth_env "string + nat \<times> string"
  | ReqSecondFactor auth_env "string + nat \<times> string"

fun auth_handle :: "auth_drv \<Rightarrow> AuthConfig \<Rightarrow> (dberr \<Rightarrow> bool) \<Rightarrow> auth_req \<Rightarrow> auth_db \<Rightarrow> unit response \<times> auth_db" where
  "auth_handle drv cfg ic (ReqRegister env body) db = drop_body (Register drv cfg ic env body db)"
| "auth_handle drv cfg ic (ReqLogin env body) db = drop_body (Login drv cfg env body db)"
| "auth_handle drv cfg ic (ReqVerifyEmail env body) db = VerifyEmail drv env body db"
| "auth_handle drv cfg ic (ReqForgot env body) db = ForgotPassword drv cfg env body db"
| "auth_handle drv cfg ic (ReqReset env body) db = ResetPassword drv env body db"
| "auth_handle drv cfg ic (ReqLogout who) db = Logout drv who db"
| "auth_handle drv cfg ic (ReqDelete who) db = DeleteAccount drv who db"
| "auth_handle drv cfg ic (ReqSetup env who) db = drop_body (Setup2FA drv env who db)"
| "auth_handle drv cfg ic (ReqVerify env who body) db = Verify2FA drv env who body db"
| "auth_handle drv cfg ic (ReqDisable env who body) db = Disable2FA drv env who body db"
| "auth_handle drv cfg ic (ReqGenerate env who body) db = drop_body (GenerateRecoveryCodes drv env who body db)"
| "auth_handle drv cfg ic (ReqRecovery env body) db = drop_body (LoginWithRecoveryCode drv cfg env body db)"
| "auth_handle drv cfg ic (ReqSecondFactor env body) db = drop_body (LoginWith2FA drv cfg env body db)"

subsection \<open>Which requests touch the recovery codes\<close>

lemma save_account_frame [simp]:
  "t_codes (save_account drv u db) = t_codes db" "t_sessions (save_account drv u db) = t_sessions db"
  by (simp_all add: save_account_def split: sum.split)

lemma complete_login_codes [simp]: "t_codes (snd (complete_login strict drv cfg env u db)) = t_codes db"
  by (simp add: complete_login_def Let_def split: sum.split prod.split)

lemma delete_sessions_codes: "delete_sessions drv i db = Inr db' \<Longrightarrow> t_codes db' = t_codes db \<and> t_accounts db' = t_accounts db"
  by (auto simp: delete_sessions_def)

lemma RecordSuccessfulAttempt_codes: "RecordSuccessfulAttempt drv e db = Inr db' \<Longrightarrow> t_codes db' = t_codes db"
  by (auto simp: RecordSuccessfulAttempt_def)

lemma recordAttempt_codes [simp]: "t_codes (snd (recordAttempt drv env e s db)) = t_codes db"
  by (auto simp: recordAttempt_def Let_def RecordSuccessfulAttempt_codes split: sum.split prod.split)

lemma with_user_codes:
  "(\<And>u. t_codes (snd (f u)) = t_codes db) \<Longrightarrow> t_codes (snd (with_user drv who db f)) = t_codes db"
  "(\<And>q u. t_codes (snd (h q u)) = t_codes db) \<Longrightarrow> t_codes (snd (with_body_user drv who body db h)) = t_codes db"
  by (auto simp: with_user_def with_body_user_def split: option.split sum.split)

lemma EmailAllow_codes: "t_codes (snd (EmailAllow cfg now e db)) = t_codes db"
  by (simp add: EmailAllow_def Let_def split: option.split)

lemma Register_codes: "t_codes (snd (Register drv cfg ic env body db)) = t_codes db"
proof -
  have "t_codes d = t_codes db" if "EmailAllow cfg now e db = (b, d)" for now e b d using EmailAllow_codes[of cfg now e db] that by simp
  then show ?thesis by (auto simp: Register_def split: sum.split prod.split bool.split)
qed

lemma Login_codes: "t_codes (snd (Login drv cfg env body db)) = t_codes db"
proof -
  have "t_codes d = t_codes db" if "RecordFailedAttempt drv env e db = (b, d)" for e b d
    using that by (metis RecordFailedAttempt_def recordAttempt_codes snd_conv)
  then show ?thesis by (auto simp: Login_def RecordSuccessfulAttempt_codes split: sum.split prod.split bool.split)
qed

lemma token_endpoints_codes:
  "t_codes (snd (VerifyEmail drv env b1 db)) = t_codes db" "t_codes (snd (ForgotPassword drv cfg env b1 db)) = t_codes db"
  "t_codes (snd (ResetPassword drv env b2 db)) = t_codes db" "t_codes (snd (Logout drv who db)) = t_codes db"
  by (auto simp: VerifyEmail_def ForgotPassword_def ResetPassword_def Logout_def Let_def split: sum.split prod.split option.split
      dest: delete_sessions_codes)

lemma setup_endpoints_codes:
  "t_codes (snd (Setup2FA drv env who db)) = t_codes db" "t_codes (snd (Verify2FA drv env who b1 db)) = t_codes db"
  "t_codes (snd (Disable2FA drv env who b2 db)) = t_codes db" "t_codes (snd (LoginWith2FA drv cfg env b3 db)) = t_codes db"
  unfolding Setup2FA_def Verify2FA_def Disable2FA_def LoginWith2FA_def
  by (auto intro!: with_user_codes simp: Let_def split: sum.split prod.split)


subsection \<open>Recovery codes are used once\<close>

abbreviation unused :: "nat \<Rightarrow> auth_db \<Rightarrow> RecoveryCode list" where
  "unused i db \<equiv> filter (unused_code i) (t_codes db)"

definition codes_inv :: "auth_db \<Rightarrow> bool" where
  "codes_inv db \<longleftrightarrow> distinct (map rc_ID (t_codes db))"

text \<open>A step that creates no codes for user \<open>i\<close>, and uses at least \<open>n\<close>.\<close>

definition uses_codes :: "nat \<Rightarrow> nat \<Rightarrow> auth_db \<Rightarrow> auth_db \<Rightarrow> bool" where
  "uses_codes i n db db' \<longleftrightarrow> codes_inv db' \<and> length (unused i db') + n \<le> length (unused i db)"

lemma uses_codes_same: "codes_inv db \<Longrightarrow> t_codes db' = t_codes db \<Longrightarrow> uses_codes i 0 db db'"
  by (simp add: uses_codes_def codes_inv_def)

lemma uses_codes_filter:
  assumes "codes_inv db" "t_codes db' = filter P (t_codes db)"
  shows "uses_codes i 0 db db'"
proof -
  have "length (filter (unused_code i) (filter P cs)) \<le> length (filter (unused_code i) cs)" for cs by (induction cs) auto
  then show ?thesis using assms by (simp add: uses_codes_def codes_inv_def distinct_map_filter)
qed

lemma delete_tx_uses:
  assumes drv: "auth_drv_ok drv" and inv: "codes_inv db" and d: "delete_tx drv j db = Inr (x, db')"
  shows "uses_codes i 0 db db'"
proof -
  obtain db1 n cs where s: "delete_sessions drv j db = Inr db1" and c: "g_delete (d_codes drv) (\<lambda>c. rc_UserID c = j) (t_codes db1) = Inr (n, cs)"
    and db': "t_codes db' = cs" using d by (auto simp: delete_tx_def)
  have "cs = filter (\<lambda>c. rc_UserID c \<noteq> j) (t_codes db)"
    using gorm_deleteD(2)[OF auth_drvD(2)[OF drv] c] delete_sessions_codes[OF s] by simp
  then show ?thesis using uses_codes_filter[OF inv] db' by simp
qed

lemma create_all_distinct:
  assumes "gorm_ok key setkey g" "\<And>k r. key (setkey k r) = k"
  shows "create_all g as rows = Inr rows' \<Longrightarrow> distinct (map key rows) \<Longrightarrow> distinct (map key rows')"
proof (induction as arbitrary: rows)
  case (Cons a as)
  obtain a' rows1 where cr: "g_create g a rows = Inr (a', rows1)" and rest: "create_all g as rows1 = Inr rows'" using Cons.prems(1) by auto
  obtain k where "k \<notin> key ` set rows" "a' = setkey k a" "rows1 = rows @ [a']" by (rule gorm_createD[OF assms(1) cr])
  then show ?case using Cons.IH[OF rest] Cons.prems(2) assms(2) by simp
qed simp

text \<open>New codes for one user leave the unused codes of another as they are.\<close>

lemma store_codes_uses:
  assumes drv: "auth_drv_ok drv" and inv: "codes_inv db" and j: "j \<noteq> i" and d: "store_codes drv env j hs db = Inr (x, db')"
  shows "uses_codes i 0 db db'"
proof -
  let ?new = "map (\<lambda>h. \<lparr> rc_ID = 0, rc_UserID = j, rc_CodeHash = h, rc_UsedAt = None \<rparr>) hs"
  obtain n cs where c: "g_delete (d_codes drv) (\<lambda>c. rc_UserID c = j) (t_codes db) = Inr (n, cs)"
    and cr: "create_all (d_codes drv) ?new cs = Inr (t_codes db')" using d by (auto simp: store_codes_def)
  have cs: "cs = filter (\<lambda>c. rc_UserID c \<noteq> j) (t_codes db)" by (rule gorm_deleteD(2)[OF auth_drvD(2)[OF drv] c])
  then have "distinct (map rc_ID cs)" using inv by (simp add: codes_inv_def distinct_map_filter)
  then have "codes_inv db'" using create_all_distinct[OF auth_drvD(2)[OF drv] _ cr] by (simp add: codes_inv_def)
  moreover have "length (unused i db') = length (unused i db)"
  proof -
    let ?f = "\<lambda>c. (rc_UserID c, rc_UsedAt c)" and ?Q = "\<lambda>(u, t :: instant option). u = i \<and> t = None"
    have len: "length (filter (unused_code i) xs) = length (filter ?Q (map ?f xs))" for xs :: "RecoveryCode list"
      by (induction xs) (auto simp: unused_code_def)
    have "map ?f (t_codes db') = map ?f cs @ map (\<lambda>_. (j, None)) hs"
      using create_all_core[OF auth_drvD(2)[OF drv] _ cr, of ?f] by (simp add: o_def)
    moreover have "filter ?Q (map (\<lambda>_. (j, None)) hs) = []" using j by (induction hs) auto
    ultimately have "length (unused i db') = length (filter (unused_code i) cs)" by (simp only: len filter_append) simp
    moreover have "filter (unused_code i) cs = unused i db" using j by (auto simp: cs unused_code_def intro: filter_cong)
    ultimately show ?thesis by simp
  qed
  ultimately show ?thesis by (simp add: uses_codes_def)
qed

lemma mark_used:
  assumes drv: "auth_drv_ok drv" and inv: "codes_inv db" and c: "c \<in> set (t_codes db)" "unused_code j c"
    and s: "g_save (d_codes drv) (c\<lparr> rc_UsedAt := Some t \<rparr>) (t_codes db) = Inr cs"
  shows "uses_codes i (if i = j then 1 else 0) db (db\<lparr> t_codes := cs \<rparr>)"
proof -
  let ?c = "c\<lparr> rc_UsedAt := Some t \<rparr>"
  have cs: "cs = put_row rc_ID ?c (t_codes db)" by (rule gorm_save[OF auth_drvD(2)[OF drv] s c(1)]) simp
  have d: "distinct (map rc_ID (t_codes db))" using inv by (simp add: codes_inv_def)
  have count: "length (filter (unused_code i) (put_row rc_ID ?c xs)) + (if c \<in> set xs \<and> i = j then 1 else 0) = length (filter (unused_code i) xs)"
    if "distinct (map rc_ID xs)" "\<And>x. x \<in> set xs \<Longrightarrow> rc_ID x = rc_ID c \<Longrightarrow> x = c" for xs
    using that
  proof (induction xs)
    case (Cons x xs)
    have IH: "length (filter (unused_code i) (put_row rc_ID ?c xs)) + (if c \<in> set xs \<and> i = j then 1 else 0) = length (filter (unused_code i) xs)"
      using Cons by simp
    have put: "put_row rc_ID ?c (x # xs) = (if rc_ID x = rc_ID c then ?c else x) # put_row rc_ID ?c xs" by (simp add: put_row_def)
    show ?case
    proof (cases "x = c")
      case True
      then have "c \<notin> set xs" using Cons.prems(1) by auto
      moreover have "\<not> unused_code i ?c" "unused_code i c \<longleftrightarrow> i = j" using c(2) by (auto simp: unused_code_def)
      ultimately show ?thesis using IH True by (simp add: put[unfolded True])
    next
      case False
      then have "rc_ID x \<noteq> rc_ID c" using Cons.prems(2)[of x] by auto
      then show ?thesis using IH False by (simp add: put)
    qed
  qed (simp add: put_row_def)
  have "length (filter (unused_code i) cs) + (if i = j then 1 else 0) = length (unused i db)"
    by (simp only: cs) (subst count[OF d, symmetric], use c(1) distinct_key_unique[OF d _ c(1)] in auto)
  moreover have "distinct (map rc_ID cs)" using d by (simp add: cs)
  ultimately show ?thesis by (simp add: uses_codes_def codes_inv_def)
qed


text \<open>How many codes of user \<open>i\<close> a request uses: one for a recovery login of that user that is answered with tokens.\<close>

fun code_logins :: "nat \<Rightarrow> auth_req \<Rightarrow> unit response \<Rightarrow> nat" where
  "code_logins i (ReqRecovery env (Inr (j, code))) r = (if j = i \<and> \<not> is_fail r then 1 else 0)"
| "code_logins i _ r = 0"

fun generates_for :: "nat \<Rightarrow> auth_req \<Rightarrow> bool" where
  "generates_for i (ReqGenerate env who body) \<longleftrightarrow> who = Some i"
| "generates_for i _ \<longleftrightarrow> False"

lemma account_id:
  assumes "auth_drv_ok drv" "g_first (d_accounts drv) (by_id i) (t_accounts db) = Inr user"
  shows "u_ID user = i"
  using gorm_firstD(2)[OF auth_drvD(1)[OF assms(1)] assms(2)] by (simp add: by_id_def)

lemma recovery_uses:
  assumes drv: "auth_drv_ok drv" and inv: "codes_inv db"
  shows "uses_codes i (code_logins i (ReqRecovery env body) (fst (drop_body (LoginWithRecoveryCode drv cfg env body db)))) db
    (snd (LoginWithRecoveryCode drv cfg env body db))"
proof (cases body)
  case (Inl e)
  then show ?thesis using uses_codes_same[OF inv] by (simp add: LoginWithRecoveryCode_def)
next
  case (Inr b)
  obtain j code where b: "b = (j, code)" by (cases b)
  let ?r = "LoginWithRecoveryCode drv cfg env (Inr (j, code)) db"
  show ?thesis
  proof (cases "is_fail (fst ?r) \<and> snd ?r = db")
    case True
    then show ?thesis using uses_codes_same[OF inv] Inr b by simp
  next
    case False
    then obtain user codes c cs where f: "g_first (d_accounts drv) (by_id j) (t_accounts db) = Inr user"
      and g: "g_find (d_codes drv) (Where (unused_code (u_ID user))) (t_codes db) = Inr codes"
      and m: "find (\<lambda>c. ae_verify env (rc_CodeHash c) (normalizeRecoveryCode code)) codes = Some c"
      and s: "g_save (d_codes drv) (c\<lparr> rc_UsedAt := Some (ae_now env) \<rparr>) (t_codes db) = Inr cs"
      and r: "?r = complete_login False drv cfg env user (db\<lparr> t_codes := cs \<rparr>)"
      by (auto simp: LoginWithRecoveryCode_def split: sum.splits option.splits if_splits)
    have j: "u_ID user = j" by (rule account_id[OF drv f])
    have "c \<in> set codes" using m by (auto simp: find_Some_iff)
    then have "c \<in> set (t_codes db)" "unused_code j c" using gorm_find_mem[OF auth_drvD(2)[OF drv] _ g] j by auto
    then have "uses_codes i (if i = j then 1 else 0) db (db\<lparr> t_codes := cs \<rparr>)" by (rule mark_used[OF drv inv _ _ s])
    then have "uses_codes i (if i = j then 1 else 0) db (snd ?r)" by (simp add: r uses_codes_def codes_inv_def)
    then show ?thesis using Inr b by (auto simp: uses_codes_def)
  qed
qed

lemma auth_handle_uses:
  assumes drv: "auth_drv_ok drv" and inv: "codes_inv db" and g: "\<not> generates_for i r"
  shows "uses_codes i (code_logins i r (fst (auth_handle drv cfg ic r db))) db (snd (auth_handle drv cfg ic r db))"
proof (cases r)
  case (ReqDelete who)
  have "uses_codes i 0 db (snd (transaction (d_atx drv) (delete_tx drv j) db))" for j
    by (rule transaction_keeps[of "uses_codes i 0 db"]) (use uses_codes_same[OF inv] delete_tx_uses[OF drv inv] in auto)
  moreover have "snd (DeleteAccount drv who db) = db \<or> (\<exists>j. snd (DeleteAccount drv who db) = snd (transaction (d_atx drv) (delete_tx drv j) db))"
    by (auto simp: DeleteAccount_def with_user_def snd_if_sum split: option.split sum.split)
  ultimately show ?thesis using ReqDelete uses_codes_same[OF inv, of db] by auto
next
  case (ReqGenerate env who body)
  have "uses_codes i 0 db (snd (transaction (d_atx drv) (store_codes drv env j hs) db))" if "j \<noteq> i" for j hs
    by (rule transaction_keeps[of "uses_codes i 0 db"]) (use uses_codes_same[OF inv] store_codes_uses[OF drv inv that] in auto)
  moreover have "snd (GenerateRecoveryCodes drv env who body db) = db \<or>
      (\<exists>j hs. who = Some j \<and> snd (GenerateRecoveryCodes drv env who body db) = snd (transaction (d_atx drv) (store_codes drv env j hs) db))"
    using account_id[OF drv]
    by (auto simp: GenerateRecoveryCodes_def with_user_def with_body_user_def snd_if_sum split: option.split sum.split if_split)
  moreover have "who \<noteq> Some i" using g ReqGenerate by simp
  ultimately have "uses_codes i 0 db (snd (GenerateRecoveryCodes drv env who body db))" using uses_codes_same[OF inv, of db] by metis
  then show ?thesis using ReqGenerate by simp
next
  case (ReqRecovery env body)
  then show ?thesis using recovery_uses[OF drv inv, of i env body cfg] by simp
qed (use uses_codes_same[OF inv] Register_codes Login_codes token_endpoints_codes setup_endpoints_codes in auto)

interpretation auth: service "auth_handle drv cfg ic" "\<lambda>db. auth_drv_ok drv \<and> codes_inv db" "\<lambda>r _. \<not> generates_for i r" for drv cfg ic i
  by unfold_locales (use auth_handle_uses in \<open>auto simp: uses_codes_def\<close>)


subsection \<open>Guessing passwords\<close>

text \<open>Login requests for any accounts, each with the environment it runs in. \<open>guesses\<close> counts those for one account that get as far as
  comparing the password.\<close>

fun guesses :: "auth_drv \<Rightarrow> AuthConfig \<Rightarrow> string \<Rightarrow> (auth_env \<times> string \<times> string) list \<Rightarrow> auth_db \<Rightarrow> nat" where
  "guesses drv cfg e [] db = 0"
| "guesses drv cfg e ((env, email, pw) # rs) db =
     (if email = e \<and> \<not> IsAccountLocked drv (ae_now env) e db then 1 else 0) + guesses drv cfg e rs (snd (Login drv cfg env (Inr (email, pw)) db))"

text \<open>What a login for one e-mail address leaves of the table: the ids, and the rows of every other address.\<close>

definition spares_others :: "string \<Rightarrow> User list \<Rightarrow> User list \<Rightarrow> bool" where
  "spares_others email us us' \<longleftrightarrow> map u_ID us' = map u_ID us \<and> (\<forall>e. e \<noteq> email \<longrightarrow> filter (by_email e) us' = filter (by_email e) us)"

lemma spares_others_refl [simp]: "spares_others email us us"
  by (simp add: spares_others_def)

lemma filter_map_aside:
  "(\<And>x. x \<in> set xs \<Longrightarrow> g x \<noteq> x \<Longrightarrow> \<not> P x \<and> \<not> P (g x)) \<Longrightarrow> filter P (map g xs) = filter P xs"
proof (induction xs)
  case (Cons x xs)
  then have "filter P (map g xs) = filter P xs" by simp
  then show ?case using Cons.prems[of x] by (cases "g x = x") auto
qed simp

lemma spares_others_update:
  assumes "auth_drv_ok drv" "g_update (d_accounts drv) (by_email email) f us = Inr (n, us')"
    and f: "\<And>u. u_ID (f u) = u_ID u" "\<And>u. u_Email (f u) = u_Email u"
  shows "spares_others email us us'"
proof -
  have us': "us' = map (\<lambda>u. if by_email email u then f u else u) us" by (rule gorm_updateD(2)[OF auth_drvD(1)[OF assms(1)] assms(2)])
  have "filter (by_email e) us' = filter (by_email e) us" if "e \<noteq> email" for e
    unfolding us' by (rule filter_map_aside) (use that f in \<open>auto simp: by_email_def split: if_splits\<close>)
  then show ?thesis using f by (simp add: spares_others_def us')
qed

lemma spares_others_save:
  assumes "auth_drv_ok drv" "distinct (map u_ID us)" "u \<in> set us" "by_email email u" "spares_others email us us1"
    and v: "g_save (d_accounts drv) v us1 = Inr us2" "u_ID v = u_ID u" "u_Email v = u_Email u"
  shows "spares_others email us us2"
proof -
  have "u_ID v \<in> u_ID ` set us1" using assms(3,5) v(2) unfolding spares_others_def by (metis image_eqI list.set_map)
  then have us2: "us2 = put_row u_ID v us1" using gorm_save[OF auth_drvD(1)[OF assms(1)] v(1)] by (metis imageE)
  have "filter (by_email e) us2 = filter (by_email e) us" if e: "e \<noteq> email" for e
  proof -
    have old: "filter (by_email e) us1 = filter (by_email e) us" using assms(5) e by (simp add: spares_others_def)
    have "\<not> by_email e x" if x: "x \<in> set us1" "u_ID x = u_ID u" for x
    proof
      assume b: "by_email e x"
      then have "x \<in> set (filter (by_email e) us)" using x(1) unfolding old[symmetric] by simp
      then have "x \<in> set us" by simp
      then have "x = u" using assms(2,3) x(2) by (auto intro: distinct_key_unique)
      then show False using b assms(4) e by (simp add: by_email_def)
    qed
    moreover have "\<not> by_email e v" using v(3) assms(4) e by (simp add: by_email_def)
    ultimately have "filter (by_email e) us2 = filter (by_email e) us1"
      unfolding us2 put_row_def by (intro filter_map_aside) (auto simp: v(2) split: if_splits)
    with old show ?thesis by simp
  qed
  then show ?thesis using assms(5) by (simp add: spares_others_def us2)
qed

lemma RecordFailedAttempt_spares:
  assumes "auth_drv_ok drv"
  shows "spares_others email (t_accounts db) (t_accounts (snd (RecordFailedAttempt drv env email db)))"
  unfolding RecordFailedAttempt_def recordAttempt_def
  by (auto simp: Let_def split: sum.split prod.split intro: spares_others_update[OF assms])

lemma Login_spares:
  assumes drv: "auth_drv_ok drv" and ids: "distinct (map u_ID (t_accounts db))"
  shows "spares_others email (t_accounts db) (t_accounts (snd (Login drv cfg env (Inr (email, pw)) db)))"
proof (cases "g_first (d_accounts drv) (by_email email) (t_accounts db)")
  case (Inr u)
  have u: "u \<in> set (t_accounts db)" "by_email email u" using gorm_firstD[OF auth_drvD(1)[OF drv] Inr] by simp_all
  have ok: "spares_others email (t_accounts db) (t_accounts db1)" if "RecordSuccessfulAttempt drv email db = Inr db1" for db1
    using that spares_others_update[OF drv] by (fastforce simp: RecordSuccessfulAttempt_def)
  have "spares_others email (t_accounts db) (t_accounts (snd (complete_login True drv cfg env u db1)))"
    if "RecordSuccessfulAttempt drv email db = Inr db1" for db1
  proof -
    have "spares_others email (t_accounts db) (t_accounts (save_account drv (u\<lparr> u_LastLoginAt := Some (ae_now env) \<rparr>) db1))"
      using ok[OF that] spares_others_save[OF drv ids u] by (simp add: save_account_def split: sum.split)
    then show ?thesis by (simp add: complete_login_def Let_def split: sum.split prod.split)
  qed
  then show ?thesis using Inr ok RecordFailedAttempt_spares[OF drv, of email db env]
    by (auto simp: Login_def split: sum.split prod.split bool.split)
qed (simp add: Login_def)

text \<open>The calls a failed login makes are answered.\<close>

definition login_answers :: "auth_drv \<Rightarrow> bool" where
  "login_answers drv \<longleftrightarrow>
     (\<forall>P rows. (\<exists>x\<in>set rows. P x) \<longrightarrow> (\<exists>u. g_first (d_accounts drv) P rows = Inr u)) \<and>
     (\<forall>r rows. \<exists>x. g_create (d_attempts drv) r rows = Inr x) \<and> (\<forall>P f rows. \<exists>x. g_update (d_accounts drv) P f rows = Inr x)"

lemma mem_login_answers: "login_answers mem_auth"
proof -
  have "sort_by le (filter P rows) \<noteq> []" if "x \<in> set rows" "P x" for le P rows and x :: User
    using that by (metis filter_empty_conv mset_sort_by mset_zero_iff)
  then show ?thesis by (auto simp: login_answers_def mem_auth_def mem_gorm_def Let_def split: list.splits)
qed

definition locked_at :: "User \<Rightarrow> instant \<Rightarrow> bool" where
  "locked_at u now \<longleftrightarrow> (case u_LockedUntil u of None \<Rightarrow> False | Some t \<Rightarrow> t > now)"

text \<open>The account after one more wrong password.\<close>

definition failed_login :: "instant \<Rightarrow> User \<Rightarrow> User" where
  "failed_login now u =
     (let failed = add64 (u_FailedLoginAttempts u) 1
      in if failed \<ge> maxFailedAttempts then u\<lparr> u_FailedLoginAttempts := failed, u_LockedUntil := Some (now + lockoutDuration) \<rparr>
         else u\<lparr> u_FailedLoginAttempts := failed \<rparr>)"

lemma the_account:
  assumes drv: "auth_drv_ok drv" "login_answers drv" and u: "filter (by_email e) (t_accounts db) = [u]"
  shows "g_first (d_accounts drv) (by_email e) (t_accounts db) = Inr u"
proof -
  have "u \<in> set (filter (by_email e) (t_accounts db))" using u by simp
  then have "\<exists>x\<in>set (t_accounts db). by_email e x" by auto
  then obtain v where v: "g_first (d_accounts drv) (by_email e) (t_accounts db) = Inr v" using drv(2) unfolding login_answers_def by blast
  have "v \<in> set (filter (by_email e) (t_accounts db))" using gorm_firstD[OF auth_drvD(1)[OF drv(1)] v] by simp
  then show ?thesis using u v by simp
qed

lemma IsAccountLocked_iff:
  assumes "auth_drv_ok drv" "login_answers drv" "filter (by_email e) (t_accounts db) = [u]"
  shows "IsAccountLocked drv now e db \<longleftrightarrow> locked_at u now"
  by (simp add: IsAccountLocked_def the_account[OF assms] locked_at_def)

lemma Login_locked:
  "IsAccountLocked drv (ae_now env) e db \<Longrightarrow> Login drv cfg env (Inr (e, pw)) db = (Fail StatusForbidden locked_message, db)"
  by (simp add: Login_def)

lemma failed_login_by_email: "by_email e (failed_login now u) = by_email e u"
  by (simp add: failed_login_def by_email_def Let_def)

lemma filter_map_same:
  assumes "\<And>x. P (f x) = P x"
  shows "filter P (map (\<lambda>x. if P x then f x else x) xs) = map f (filter P xs)"
  using assms by (induction xs) auto

lemma login_answersD:
  assumes "login_answers drv"
  shows "\<exists>x xs. g_create (d_attempts drv) r rows = Inr (x, xs)" "\<exists>n us. g_update (d_accounts drv) P f us0 = Inr (n, us)"
proof -
  obtain x y where "g_create (d_attempts drv) r rows = Inr x" "g_update (d_accounts drv) P f us0 = Inr y"
    using assms unfolding login_answers_def by blast
  then show "\<exists>x xs. g_create (d_attempts drv) r rows = Inr (x, xs)" "\<exists>n us. g_update (d_accounts drv) P f us0 = Inr (n, us)"
    by (cases x; cases y; simp)+
qed

lemma Login_wrong:
  assumes drv: "auth_drv_ok drv" "login_answers drv" and u: "filter (by_email e) (t_accounts db) = [u]"
    and open': "\<not> locked_at u (ae_now env)" and wrong: "\<not> ae_verify env (u_PasswordHash u) pw"
  shows "filter (by_email e) (t_accounts (snd (Login drv cfg env (Inr (e, pw)) db))) = [failed_login (ae_now env) u]"
proof -
  note f = the_account[OF drv u]
  obtain a as where c: "g_create (d_attempts drv) \<lparr> la_ID = 0, la_Email = e, la_Success = False, la_IPAddress = ae_ip env,
      la_UserAgent = ae_agent env, la_AttemptedAt = ae_now env \<rparr> (t_attempts db) = Inr (a, as)"
    using login_answersD(1)[OF drv(2)] by blast
  let ?failed = "add64 (u_FailedLoginAttempts u) 1"
  let ?g = "\<lambda>v. if ?failed \<ge> maxFailedAttempts then v\<lparr> u_FailedLoginAttempts := ?failed, u_LockedUntil := Some (ae_now env + lockoutDuration) \<rparr>
      else v\<lparr> u_FailedLoginAttempts := ?failed \<rparr>"
  obtain n us where up: "g_update (d_accounts drv) (by_email e) ?g (t_accounts db) = Inr (n, us)"
    using login_answersD(2)[OF drv(2), of "by_email e" ?g "t_accounts db"] by (elim exE) (rule that)
  have same: "by_email e (?g v) = by_email e v" for v by (simp add: by_email_def)
  have "us = map (\<lambda>v. if by_email e v then ?g v else v) (t_accounts db)" by (rule gorm_updateD(2)[OF auth_drvD(1)[OF drv(1)] up])
  then have "filter (by_email e) us = map ?g (filter (by_email e) (t_accounts db))" by (simp only: filter_map_same[of "by_email e" ?g, OF same])
  then have "filter (by_email e) us = [failed_login (ae_now env) u]" by (simp only: u list.map) (simp add: failed_login_def Let_def)
  moreover have "RecordFailedAttempt drv env e db = (Inr (?failed \<ge> maxFailedAttempts), db\<lparr> t_attempts := as, t_accounts := us \<rparr>)"
    unfolding RecordFailedAttempt_def recordAttempt_def f sum.case c prod.case Let_def by (simp add: up[unfolded if_distrib])
  moreover have "snd (Login drv cfg env (Inr (e, pw)) db) = snd (RecordFailedAttempt drv env e db)"
    using open' wrong f by (auto simp: Login_def IsAccountLocked_iff[OF drv u] split: sum.split prod.split bool.split)
  ultimately show ?thesis by simp
qed

definition guess_bound :: "instant \<Rightarrow> int \<Rightarrow> instant \<Rightarrow> int" where
  "guess_bound T f s = (if T < s then 0 else max 0 (4 - f) + 1 + (T - s) div lockoutDuration)"

definition next_guess :: "User \<Rightarrow> instant \<Rightarrow> instant" where
  "next_guess u now = (case u_LockedUntil u of None \<Rightarrow> now | Some t \<Rightarrow> max now t)"

lemma guess_bound_step:
  assumes "s \<le> t" "t \<le> T"
  shows "f < 4 \<Longrightarrow> 1 + guess_bound T (f + 1) t \<le> guess_bound T f s"
    and "4 \<le> f \<Longrightarrow> 1 + guess_bound T (f + 1) (t + lockoutDuration) \<le> guess_bound T f s"
proof -
  have m: "(T - t) div lockoutDuration \<le> (T - s) div lockoutDuration" using assms by (intro zdiv_mono1) auto
  show "f < 4 \<Longrightarrow> 1 + guess_bound T (f + 1) t \<le> guess_bound T f s" using assms m by (simp add: guess_bound_def)
  have "(T - (t + lockoutDuration)) div lockoutDuration = (T - t) div lockoutDuration - 1"
    using div_add_self2[of lockoutDuration "T - (t + lockoutDuration)"] by (simp add: algebra_simps)
  moreover have "0 \<le> (T - s) div lockoutDuration" using assms by (intro pos_imp_zdiv_nonneg_iff[THEN iffD2]) auto
  ultimately show "4 \<le> f \<Longrightarrow> 1 + guess_bound T (f + 1) (t + lockoutDuration) \<le> guess_bound T f s"
    using assms m by (simp add: guess_bound_def)
qed

lemma guess_bound_mono: "s \<le> t \<Longrightarrow> guess_bound T f t \<le> guess_bound T f s"
  using zdiv_mono1[of "T - t" "T - s" lockoutDuration] by (auto simp: guess_bound_def pos_imp_zdiv_nonneg_iff)

lemma guesses_bound:
  assumes drv: "auth_drv_ok drv" "login_answers drv"
  shows "filter (by_email e) (t_accounts db) = [u] \<Longrightarrow> sorted (map (ae_now \<circ> fst) rs) \<Longrightarrow>
    distinct (map u_ID (t_accounts db)) \<Longrightarrow>
    list_all (\<lambda>(env, email, pw). (email = e \<longrightarrow> \<not> ae_verify env (u_PasswordHash u) pw) \<and> t0 \<le> ae_now env \<and> ae_now env \<le> T) rs \<Longrightarrow>
    0 \<le> u_FailedLoginAttempts u \<Longrightarrow> u_FailedLoginAttempts u + int (length rs) < 2 ^ 63 \<Longrightarrow>
    int (guesses drv cfg e rs db) \<le> guess_bound T (u_FailedLoginAttempts u) (next_guess u t0)"
proof (induction rs arbitrary: db u t0)
  case Nil
  then show ?case by (simp add: guess_bound_def pos_imp_zdiv_nonneg_iff)
next
  case (Cons r rs)
  obtain env email pw where r: "r = (env, email, pw)" by (cases r)
  let ?t = "ae_now env" and ?f = "u_FailedLoginAttempts u" and ?db = "snd (Login drv cfg env (Inr (email, pw)) db)"
  have t: "t0 \<le> ?t" "?t \<le> T" "email = e \<Longrightarrow> \<not> ae_verify env (u_PasswordHash u) pw" using Cons.prems(4) r by auto
  have later: "list_all (\<lambda>(env', email, pw). (email = e \<longrightarrow> \<not> ae_verify env' (u_PasswordHash u) pw) \<and> ?t \<le> ae_now env' \<and> ae_now env' \<le> T) rs"
    using Cons.prems(2,4) r by (auto simp: list_all_iff)
  have spare: "spares_others email (t_accounts db) (t_accounts ?db)" by (rule Login_spares[OF drv(1) Cons.prems(3)])
  then have ids: "distinct (map u_ID (t_accounts ?db))" using Cons.prems(3) by (simp add: spares_others_def)
  show ?case
  proof (cases "email = e \<and> \<not> locked_at u ?t")
    case False
    have same: "filter (by_email e) (t_accounts ?db) = [u]"
    proof (cases "email = e")
      case True
      then have "?db = db" using False Login_locked IsAccountLocked_iff[OF drv Cons.prems(1)] by simp
      then show ?thesis using Cons.prems(1) by simp
    qed (use spare Cons.prems(1) in \<open>simp add: spares_others_def\<close>)
    have "guesses drv cfg e (r # rs) db = guesses drv cfg e rs ?db"
      using False IsAccountLocked_iff[OF drv Cons.prems(1)] by (simp add: r)
    moreover have "int (guesses drv cfg e rs ?db) \<le> guess_bound T ?f (next_guess u ?t)"
      by (rule Cons.IH[OF same]) (use Cons.prems later ids in auto)
    moreover have "guess_bound T ?f (next_guess u ?t) \<le> guess_bound T ?f (next_guess u t0)"
      by (rule guess_bound_mono) (use t(1) in \<open>auto simp: next_guess_def split: option.split\<close>)
    ultimately show ?thesis by simp
  next
    case True
    let ?u = "failed_login ?t u"
    have ex: "add64 ?f 1 = ?f + 1" using Cons.prems(5,6) by (intro add64_exact) (simp add: in_i64_def)
    have next': "u_FailedLoginAttempts ?u = ?f + 1" "u_PasswordHash ?u = u_PasswordHash u"
      "next_guess ?u ?t = (if ?f < 4 then next_guess u ?t else ?t + lockoutDuration)"
      by (auto simp: failed_login_def Let_def ex next_guess_def split: option.split)
    have "filter (by_email e) (t_accounts ?db) = [?u]" using Login_wrong[OF drv Cons.prems(1)] True t(3) by simp
    then have "int (guesses drv cfg e rs ?db) \<le> guess_bound T (u_FailedLoginAttempts ?u) (next_guess ?u ?t)"
      by (rule Cons.IH) (use Cons.prems later ids next' in auto)
    moreover have "next_guess u ?t = ?t" "next_guess u t0 \<le> ?t" using True t(1) by (auto simp: next_guess_def locked_at_def split: option.splits)
    ultimately have "1 + int (guesses drv cfg e rs ?db) \<le> guess_bound T ?f (next_guess u t0)"
      using guess_bound_step[of "next_guess u t0" ?t T ?f] t(2) next'(1,3) by (cases "?f < 4") auto
    then show ?thesis using True IsAccountLocked_iff[OF drv Cons.prems(1)] by (simp add: r)
  qed
qed


subsection \<open>Properties\<close>

text \<open>The recovery logins of user \<open>i\<close> that a sequence of requests completes.\<close>

fun code_login_total :: "auth_drv \<Rightarrow> AuthConfig \<Rightarrow> (dberr \<Rightarrow> bool) \<Rightarrow> nat \<Rightarrow> auth_req list \<Rightarrow> auth_db \<Rightarrow> nat" where
  "code_login_total drv cfg ic i [] db = 0"
| "code_login_total drv cfg ic i (r # rs) db =
     code_logins i r (fst (auth_handle drv cfg ic r db)) + code_login_total drv cfg ic i rs (snd (auth_handle drv cfg ic r db))"

definition demo_cfg :: AuthConfig where
  "demo_cfg = \<lparr> ac_JWTExpirationHours = 1, ac_RefreshTokenHours = 24, ac_EmailTokenHours = 24, ac_PasswordResetMinutes = 15, ac_EmailLimit = 3,
     ac_EmailWindow = Hour \<rparr>"

definition demo_auth_env :: "instant \<Rightarrow> auth_env" where
  "demo_auth_env t = \<lparr> ae_now = t, ae_verify = (\<lambda>h p. h = ''#'' @ p), ae_hash = (\<lambda>p. Inr (''#'' @ p)), ae_secure = (\<lambda>_. ''t''),
     ae_random = (\<lambda>_. None), ae_sign = (\<lambda>_. Inr ''jwt''), ae_parse = (\<lambda>_. None), ae_hmac = (\<lambda>_ _. replicate 20 0), ae_base32 = (\<lambda>_. None),
     ae_marshal = (\<lambda>_. ''''), ae_unmarshal = (\<lambda>_. None), ae_totp_secret = '''', ae_ip = '''', ae_agent = '''' \<rparr>"

definition demo_account :: "bool \<Rightarrow> int \<Rightarrow> User" where
  "demo_account totp failed =
     \<lparr> u_ID = 1, u_StellarAddress = ''GA'', u_Email = ''a@b'', u_Username = ''ann'', u_PasswordHash = ''#pw'', u_Role = ''user'',
       u_KYCVerified = False, u_EmailVerified = True, u_EmailToken = '''', u_EmailTokenExpires = zero_time, u_PasswordResetToken = '''',
       u_PasswordResetExpires = zero_time, u_TOTPSecret = '''', u_TOTPEnabled = totp, u_TOTPVerified = totp, u_BackupCodes = '''',
       u_RecoveryCodesGeneratedAt = None, u_LastLoginAt = None, u_FailedLoginAttempts = failed, u_LockedUntil = None, u_Deleted = False \<rparr>"

definition demo_auth :: "bool \<Rightarrow> int \<Rightarrow> auth_db" where
  "demo_auth totp failed = \<lparr> t_accounts = [demo_account totp failed],
     t_codes = [\<lparr> rc_ID = 1, rc_UserID = 1, rc_CodeHash = ''#AB'', rc_UsedAt = None \<rparr>, \<lparr> rc_ID = 2, rc_UserID = 1, rc_CodeHash = ''#CD'', rc_UsedAt = None \<rparr>],
     t_sessions = [], t_attempts = [], t_windows = Map.empty \<rparr>"

lemma demo_auth_inv: "codes_inv (demo_auth totp failed)"
  by (simp add: codes_inv_def demo_auth_def)

text \<open>C24: recovery codes are single-use. From tables in which the recovery codes have distinct ids, over any sequence of requests of
  any users, with any database call failing, the logins that
  recovery codes of a user complete plus the codes still unused never exceed the codes it had unused at the start, unless that
  user generates new ones: each login consumes a code, and no other request brings one back.\<close>

theorem recovery_codes_single_use:
  assumes "auth_drv_ok drv" "codes_inv db" "list_all (\<lambda>r. \<not> generates_for i r) rs"
  shows "code_login_total drv cfg ic i rs db + length (unused i (auth.run drv cfg ic rs db)) \<le> length (unused i db)"
  using assms(2,3)
proof (induction rs arbitrary: db)
  case (Cons r rs)
  have "uses_codes i (code_logins i r (fst (auth_handle drv cfg ic r db))) db (snd (auth_handle drv cfg ic r db))"
    by (rule auth_handle_uses[OF assms(1)]) (use Cons.prems in simp_all)
  then show ?case using Cons.IH[of "snd (auth_handle drv cfg ic r db)"] Cons.prems(2) by (simp add: uses_codes_def)
qed simp

definition demo_recovery :: "auth_req list" where
  "demo_recovery = [ReqRecovery (demo_auth_env 1) (Inr (1, ''a-b'')), ReqRecovery (demo_auth_env 2) (Inr (1, ''AB'')),
     ReqLogout (Some 1), ReqRecovery (demo_auth_env 3) (Inr (1, ''CD'')), ReqRecovery (demo_auth_env 4) (Inr (1, ''CD''))]"

theorem recovery_codes_single_use_witness:
  "code_login_total mem_auth demo_cfg (\<lambda>_. False) 1 demo_recovery (demo_auth True 0) = 2 \<and>
   unused 1 (auth.run mem_auth demo_cfg (\<lambda>_. False) demo_recovery (demo_auth True 0)) = []"
proof -
  have two: "code_login_total mem_auth demo_cfg (\<lambda>_. False) 1 demo_recovery (demo_auth True 0) = 2" by code_simp
  have "list_all (\<lambda>r. \<not> generates_for 1 r) demo_recovery" by (simp add: demo_recovery_def)
  moreover have "length (unused 1 (demo_auth True 0)) = 2" by (simp add: demo_auth_def unused_code_def)
  ultimately have "length (unused 1 (auth.run mem_auth demo_cfg (\<lambda>_. False) demo_recovery (demo_auth True 0))) = 0"
    using recovery_codes_single_use[OF mem_auth_ok demo_auth_inv, of 1 demo_recovery demo_cfg "\<lambda>_. False" True 0] two by simp
  then show ?thesis using two by simp
qed




subsection \<open>What the flows allow\<close>

text \<open>A successful login is meant to clear the failures of the account. \<open>Login\<close> reads the row before \<open>RecordSuccessfulAttempt\<close> clears
  them and saves that row, with the new login time, afterwards: the old count comes back, and the next wrong password locks.\<close>

lemma login_restores_failures:
  "is_fail (fst (Login mem_auth demo_cfg (demo_auth_env 1) (Inr (''a@b'', ''pw'')) (demo_auth False 4))) = False"
  "map u_FailedLoginAttempts (t_accounts (snd (Login mem_auth demo_cfg (demo_auth_env 1) (Inr (''a@b'', ''pw'')) (demo_auth False 4)))) = [4]"
  "fst (Login mem_auth demo_cfg (demo_auth_env 2) (Inr (''a@b'', ''no''))
     (snd (Login mem_auth demo_cfg (demo_auth_env 1) (Inr (''a@b'', ''pw'')) (demo_auth False 4)))) = Fail StatusForbidden locked_message"
  by code_simp+

text \<open>With two-factor authentication the right password alone clears the count: who knows it can try one-time passwords without
  ever being locked out.\<close>

lemma password_clears_failures:
  "fst (Login mem_auth demo_cfg (demo_auth_env 1) (Inr (''a@b'', ''pw'')) (demo_auth True 4)) = Reply StatusOK (Requires2FA 1)"
  "map u_FailedLoginAttempts (t_accounts (snd (Login mem_auth demo_cfg (demo_auth_env 1) (Inr (''a@b'', ''pw'')) (demo_auth True 4)))) = [0]"
  by code_simp+

text \<open>The second step of a two-factor login does not depend on the first: no password, and no trace of a checked one, enters it.\<close>

lemma second_factor_ignores_password:
  "LoginWith2FA drv cfg (env\<lparr> ae_verify := v \<rparr>) body db = LoginWith2FA drv cfg env body db"
proof -
  have "validateTOTP (env\<lparr> ae_verify := v \<rparr>) = validateTOTP env"
    by (intro ext) (simp add: validateTOTP_def totp_window_def computeTOTP_def split: option.split)
  moreover have "generateTokens cfg (env\<lparr> ae_verify := v \<rparr>) = generateTokens cfg env"
    by (intro ext) (simp add: generateTokens_def access_claims_def refresh_claims_def)
  then have "complete_login strict drv cfg (env\<lparr> ae_verify := v \<rparr>) = complete_login strict drv cfg env" for strict
    by (intro ext) (simp add: complete_login_def Let_def split: sum.split prod.split)
  moreover have "backup_codes (env\<lparr> ae_verify := v \<rparr>) = backup_codes env" "ae_marshal (env\<lparr> ae_verify := v \<rparr>) = ae_marshal env"
    by (auto simp: backup_codes_def)
  ultimately show ?thesis unfolding LoginWith2FA_def by (simp only:)
qed

text \<open>Only access tokens authenticate a request, but access tokens refresh as well as refresh tokens do, and neither the sessions
  nor a changed password count: a password reset or a logout leaves every token refreshable.\<close>

lemma refresh_token_does_not_authenticate:
  assumes "ae_parse env token = Some (refresh_claims cfg env' u)"
  shows "JWTAuth env (''Bearer '' @ token) = Inl ''Invalid token type''"
  using assms by (simp add: JWTAuth_def after_bearer_def refresh_claims_def)

lemma access_token_authenticates:
  assumes "ae_parse env token = Some (access_claims cfg env' u)"
  shows "JWTAuth env (''Bearer '' @ token) = Inr (u_ID u, access_claims cfg env' u)"
  using assms by (simp add: JWTAuth_def after_bearer_def access_claims_def user_of_claims_def)

lemma access_token_refreshes:
  assumes "ae_parse env token = Some (access_claims cfg env' u)" "g_first (d_accounts drv) (by_id (u_ID u)) (t_accounts db) = Inr user"
    and "generateTokens cfg env user = Inr (a, r)"
  shows "RefreshToken drv cfg env (Inr token) db = Reply StatusOK (token_response cfg user a r)"
  using assms by (simp add: RefreshToken_def access_claims_def user_of_claims_def)

lemma refresh_ignores_sessions:
  "RefreshToken drv cfg env body (db\<lparr> t_sessions := ss \<rparr>) = RefreshToken drv cfg env body db"
  by (simp add: RefreshToken_def split: sum.split option.split)

text \<open>A one-time password is accepted in the step it was made for and in the two next to it.\<close>

lemma totp_accepts_neighbours:
  assumes "ae_base32 env secret = Some key" "c \<in> set (totp_window env)" "secret \<noteq> ''''" "computeTOTP env key (nat (c mod 2 ^ 64)) \<noteq> ''''"
  shows "validateTOTP env secret (computeTOTP env key (nat (c mod 2 ^ 64)))"
  using assms by (auto simp: validateTOTP_def list_ex_iff)

end
