(* ===== verification/Spec2Isabelle.thy ===== *)
theory Spec2Isabelle
  imports TwoTierCache Pagination LiquidityFees Staking Multisig P2P FeeDistribution Workflow Referral Payment Dispute Transfers Batches AssetMetadata EventIndexer WebhookDelivery EmailTemplates WebSocketFrames Accounts
begin

text \<open>
  Verification of the kor-AssetForge backend (the Go code under \<open>src/backend\<close>).

  \<^bold>\<open>The program.\<close> AssetForge is a marketplace for tokenised assets. A Gin router dispatches HTTP requests to handlers
  (\<open>handlers/\<close>), which validate the request, read and write tables of a SQL database through GORM (\<open>models/\<close>), and delegate
  longer flows to services (\<open>services/\<close>). A two-tier cache (memory in front of Redis, with a circuit breaker between them)
  serves reads. The development models the parts that keep money and tokens: liquidity pools, staking, multi-signature
  wallets, the peer-to-peer order book, fees and their distribution, approval workflows, fiat payments and the referral
  program; the parts that decide who may do what: accounts with their second factor, KYC and AML screening, the compliance check of
  transfers, disputes; the metadata of the registry, the indexer of blockchain events, outgoing webhooks and e-mail templates; and
  the parts the others lean on: the cache, pagination and WebSocket connections.

  \<^bold>\<open>Shared theories.\<close>
  \<^item> \<open>GoPrelude\<close>: Go's \<open>int64\<close> arithmetic with its wrap-around, instants and durations in nanoseconds, tables as lists of rows.
  \<^item> \<open>Decimal\<close>: \<open>strconv\<close> numerals, base64, trimming and upper case, on strings as lists of bytes.
  \<^item> \<open>FloatSqrt\<close>: the float64 rounding that \<open>math.Sqrt\<close> of the first deposit of a pool goes through.
  \<^item> \<open>Gorm\<close>: the database. GORM and the SQL server are not in the repository, so the driver of each table is a record of
    functions and every model takes it as an argument. A call may fail at any time. \<open>gorm_ok\<close> says what a call that succeeds
    does (as GORM documents it), \<open>unique_ok\<close> that a unique index is never broken; \<open>mem_gorm\<close> and \<open>unique_gorm\<close> are
    in-memory drivers that satisfy them and on which the witnesses evaluate. \<open>transaction\<close> commits or rolls back.

  \<^bold>\<open>Components.\<close> Each theory has the records of \<open>models/\<close>, one definition per function or handler of the source, under its
  name, an invariant of the tables, and the lemmas that every operation keeps it.
  \<^item> \<open>CircuitBreaker\<close>, \<open>L1Cache\<close>, \<open>TwoTierCache\<close> (\<open>services/cache\<close>): the breaker refines a three-state specification; the LRU
    cache (hash map, recency list and byte count) refines a list of entries, stays within its limits and never returns an expired value
    or one that an accepted write has replaced (a write that alone exceeds the byte limit is dropped and leaves the old value); reads,
    writes and deletions across both tiers, with the failures of Redis.
  \<^item> \<open>Pagination\<close> (\<open>utils/pagination.go\<close>, \<open>services/pagination_service.go\<close>, \<open>middleware/pagination.go\<close>): page metadata,
    limits, cursors.
  \<^item> \<open>Liquidity\<close>, \<open>LiquidityFees\<close> (\<open>handlers/liquidity.go\<close>): the LP supply equals the sum of the positions, swaps keep the
    constant product, a deposit followed by a withdrawal makes no profit, fees are never over-credited.
  \<^item> \<open>Staking\<close> (\<open>handlers/staking.go\<close>): claims never exceed the accrued rewards; a period is rewarded once.
  \<^item> \<open>OwnerList\<close>, \<open>Multisig\<close> (\<open>handlers/multisig.go\<close>): the JSON owner lists; execution needs the signatures of the threshold, of
    distinct owners as long as the lookup of earlier signatures answers.
  \<^item> \<open>P2P\<close> (\<open>handlers/p2p.go\<close>): orders are never overfilled, the book stays uncrossed, price-time priority.
  \<^item> \<open>FeeService\<close>, \<open>FeeDistribution\<close> (\<open>services/fee_service.go\<close>, \<open>services/fee_distribution_service.go\<close>): the audit trail of fee
    rules, tier discounts and fee bounds; the split of the fees of a period conserves them. The distribution reads the LP
    positions that \<open>Liquidity\<close> keeps.
  \<^item> \<open>Workflow\<close> (\<open>services/workflow_service.go\<close>): a transfer is released only after every step has its approvals; on a database that
    answers an eligible approver can move an unexpired request on.
  \<^item> \<open>Referral\<close> (\<open>services/referral_service.go\<close>, \<open>handlers/referral.go\<close>): one referral per user, one commission and one bonus
    per rewarded referral; the recursion over referral chains returns on every graph and finds the longest chain of a forest.
  \<^item> \<open>Payment\<close> (\<open>services/payment_gateway.go\<close>, \<open>handlers/payment.go\<close>): retries with an idempotency key.
  \<^item> \<open>Dispute\<close> (\<open>handlers/dispute.go\<close>): the life cycle of a dispute and of its escrow: what was filed stays, the status only moves
    forward, a closed dispute is final and its escrow is released as its resolution says.
  \<^item> \<open>Kyc\<close> (\<open>handlers/kyc.go\<close>, \<open>services/kyc_provider.go\<close>, \<open>services/aml_screening.go\<close>): the life of a KYC record between the
    identity provider, AML screening and human review, with its audit log.
  \<^item> \<open>Transfers\<close> (\<open>services/transfer_validator.go\<close>, the transfer and listing endpoints of \<open>handlers/assets.go\<close>): both parties of a
    transfer are in good standing; a record under review blocks transfers and listings (not those of batches, which skip the check). It
    composes \<open>Kyc\<close> and \<open>Workflow\<close>.
  \<^item> \<open>Json\<close>, \<open>Batches\<close> (\<open>ExecuteBatch\<close> to \<open>GetBatchStatus\<close> of \<open>handlers/assets.go\<close>, \<open>handlers/batch.go\<close>,
    \<open>services/batch_processor.go\<close>, \<open>services/batch_retry.go\<close>): batches of transfers and listings over the tables of \<open>Transfers\<close>,
    executed in a request or by a worker; a rollback restores the market, retries end. The code uses columns that
    \<open>models.BatchTransaction\<close> does not declare; the rows of the model (\<open>batch_row\<close>) have them.
  \<^item> \<open>AssetMetadata\<close> (the metadata and import endpoints of \<open>handlers/assets.go\<close>, \<open>services/metadata_service.go\<close>,
    \<open>services/bulk_import_service.go\<close>): versions of the metadata and their revert, immutable metadata, the counters of an import.
  \<^item> \<open>EventIndexer\<close> (\<open>services/event_indexer.go\<close>): registration of handlers, polling of blockchain events from a checkpoint under the contract
    filter of the handlers, their workers; what a watched contract emitted before the checkpoint is stored exactly once.
  \<^item> \<open>WebhookDelivery\<close> (\<open>services/webhook_delivery.go\<close>, \<open>handlers/outgoing_webhooks.go\<close>): deliveries in flight work on copies of their
    row; a success is authentic, and a delivery is posted a bounded number of times.
  \<^item> \<open>EmailTemplates\<close> (\<open>services/email_template_service.go\<close>, \<open>services/template_versioning.go\<close>, \<open>handlers/email_templates.go\<close>): the
    placeholder pattern, validated templates render completely, histories without gaps, variants by weight.
  \<^item> \<open>Accounts\<close> (\<open>handlers/auth/auth.go\<close>, \<open>handlers/auth/middleware.go\<close>, \<open>services/auth_service.go\<close>, \<open>services/rate_limiter.go\<close>):
    registration, login, lockout, tokens, one-time passwords and recovery codes.
  \<^item> \<open>WebSocketFrames\<close> (\<open>utils/websocket.go\<close>): the frames written by one end and read by the other, without the HTTP handshake.

  \<^bold>\<open>Interfaces.\<close> The locale \<open>service\<close> (\<open>Gorm\<close>) is the contract of a group of endpoints: every request keeps the invariant; its
  lemmas \<open>run_inv\<close> and \<open>run_rel\<close> carry an invariant or a relation between states through every sequence of requests.
  \<open>atomic_service\<close> adds that a failing request changes nothing. They are interpreted on the models as \<open>liq\<close>, \<open>stake\<close>, \<open>msig\<close>, \<open>signed\<close>,
  \<open>p2p\<close>, \<open>book\<close>, \<open>fees\<close>, \<open>dist\<close>, \<open>wf\<close>, \<open>refs\<close>, \<open>pays\<close>, \<open>disputes\<close>, \<open>docket\<close>, \<open>kyc\<close>,
  \<open>market\<close>, \<open>held\<close>, \<open>batches\<close>, \<open>registry\<close>, \<open>history\<close>, \<open>indexer\<close>, \<open>webhooks\<close>, \<open>retries\<close>, \<open>templates\<close> and \<open>auth\<close>. The locales \<open>gate\<close> and \<open>mem_cache\<close> are what the two-tier cache
  needs of its breaker and of its memory tier; \<open>breaker\<close> and \<open>l1\<close> interpret them.

  \<^bold>\<open>Arguments of the models.\<close> Besides the drivers: the Redis client, the readings of the clock, random bytes, the JSON decoding of a
  request body (a request is what the binding step leaves of it), the iteration order of Go maps, SQL sums, and the JSON
  encoders of the fee audit log. Goroutines are not modelled: each request runs to its end, and a race is stated by splitting an
  operation at its transaction boundary and interleaving the parts (\<open>interleaved_deposits_lose_update\<close>,
  \<open>concurrent_qualify_pays_twice\<close>, \<open>race_skips_conflict_check\<close>).

  \<^bold>\<open>Bounds.\<close> Properties that multiply amounts assume that the products fit into \<open>int64\<close> (the \<open>fits\<close> predicates of the services), and
  their texts say so. The code does not check this: \<open>swap_overflow_rejected\<close>, \<open>swap_overflow_drains_pool\<close>, \<open>share_overflow_overpays\<close>,
  \<open>wrapped_weights_starve_a_variant\<close> and \<open>wrapped_weights_panic\<close> say what happens beyond, \<open>geometric_mean_rounds_up\<close> what happens to the
  root of the first deposit from \<open>2 ^ 52\<close> on. The limits of \<open>2 ^ 62\<close> (entries, bytes, signatures, steps) keep counters of Go from
  wrapping around and are beyond any memory. The scan loop of Redis keys is a \<open>partial_function\<close> because
  nothing bounds the cursor; every other loop is a total function.

  \<^bold>\<open>Not modelled.\<close> OAuth, tokenisation and search of the asset registry, reports and the sending of e-mail: they are mostly SQL text, HTTP
  clients and file formats. Password hashes, token signatures and HMAC are third-party and arguments of the models. Router, configuration, logging and metrics are wiring. The
  Soroban contracts are Rust. The manifest lists every part with the reason.
\<close>

end
